(* ===== verification/Prelude.thy ===== *)
theory Prelude
  imports Main "HOL-Library.Word" "HOL-Library.Monad_Syntax" "HOL-Library.AList"
begin

unbundle bit_operations_syntax

text \<open>
  Shared vocabulary of the development.

  \<^item> Integer widths: \<open>wrap_i8\<close>, \<open>wrap_i32\<close>, \<open>u8_add\<close>, \<open>u8_sub\<close> write out the wrap-around of
    Rust's fixed-width integers (release profile); the range lemmas say when they do nothing.
  \<^item> Panics: a Rust computation that can panic (index out of bounds, failed \<open>assert!\<close>,
    \<open>unwrap\<close> of nothing, \<open>panic!\<close>, \<open>unreachable!\<close>) is a value of an \<open>option\<close> type
    and \<open>None\<close> is the panic.
  \<^item> Slices: \<open>aget\<close> and \<open>aset\<close> are bounds-checked indexing; \<open>for_loop\<close> is a \<open>for\<close> loop whose
    body may panic.
  \<^item> Copy loops: most of the channel coder consists of loops that move \<open>input[g i]\<close> to
    \<open>output[h i]\<close>. The locales \<open>copy_pair\<close> and \<open>copy_bij\<close> state once what such a loop
    and the loop in the opposite direction compute together.
\<close>

named_theorems panic_simps \<open>bounds-checked accesses that succeed\<close>
named_theorems wrap_simps \<open>fixed-width arithmetic that does not wrap\<close>

type_synonym u8 = "8 word"
type_synonym u16 = "16 word"
type_synonym u32 = "32 word"

section \<open>Fixed-width integers\<close>

definition wrap_i8 :: "int \<Rightarrow> int" where
  "wrap_i8 x = (x + 2 ^ 7) mod 2 ^ 8 - 2 ^ 7"

definition wrap_i32 :: "int \<Rightarrow> int" where
  "wrap_i32 x = (x + 2 ^ 31) mod 2 ^ 32 - 2 ^ 31"

definition u8_add :: "nat \<Rightarrow> nat \<Rightarrow> nat" where
  "u8_add a b = (a + b) mod 256"

definition u8_sub :: "nat \<Rightarrow> nat \<Rightarrow> nat" where
  "u8_sub a b = (a + (256 - b)) mod 256"

definition u32_add :: "nat \<Rightarrow> nat \<Rightarrow> nat" where
  "u32_add a b = (a + b) mod 2 ^ 32"

definition u32_sub :: "nat \<Rightarrow> nat \<Rightarrow> nat" where
  "u32_sub a b = (a + (2 ^ 32 - b)) mod 2 ^ 32"

definition u32_mul :: "nat \<Rightarrow> nat \<Rightarrow> nat" where
  "u32_mul a b = (a * b) mod 2 ^ 32"

lemma u32_add_id [wrap_simps]: "a + b < 4294967296 \<Longrightarrow> u32_add a b = a + b"
  by (simp add: u32_add_def)

lemma u32_sub_id [wrap_simps]: "\<lbrakk>b \<le> a; a < 4294967296\<rbrakk> \<Longrightarrow> u32_sub a b = a - b"
  by (simp add: u32_sub_def mod_if)

lemma u32_mul_id [wrap_simps]: "a * b < 4294967296 \<Longrightarrow> u32_mul a b = a * b"
  by (simp add: u32_mul_def)

lemma wrap_i8_id [wrap_simps]: "\<lbrakk>- 128 \<le> x; x < 128\<rbrakk> \<Longrightarrow> wrap_i8 x = x"
  by (simp add: wrap_i8_def)

lemma wrap_i32_id [wrap_simps]: "\<lbrakk>- 2147483648 \<le> x; x < 2147483648\<rbrakk> \<Longrightarrow> wrap_i32 x = x"
  by (simp add: wrap_i32_def)

lemma wrap_i32_range: "- 2147483648 \<le> wrap_i32 x" "wrap_i32 x < 2147483648"
proof -
  have "0 \<le> (x + 2147483648) mod 4294967296" and "(x + 2147483648) mod 4294967296 < 4294967296"
    by simp_all
  then show "- 2147483648 \<le> wrap_i32 x" and "wrap_i32 x < 2147483648"
    by (auto simp: wrap_i32_def)
qed

lemma u8_add_id [wrap_simps]: "a + b < 256 \<Longrightarrow> u8_add a b = a + b"
  by (simp add: u8_add_def)

lemma u8_sub_id [wrap_simps]: "\<lbrakk>b \<le> a; a < 256\<rbrakk> \<Longrightarrow> u8_sub a b = a - b"
  by (simp add: u8_sub_def mod_if)

lemma xor_cancel_left [simp]: "a XOR (a XOR b) = (b :: 'a::len word)"
  by (simp flip: xor.assoc)

lemma xor_eq_left_iff: "a XOR b = a \<longleftrightarrow> b = (0 :: 'a::len word)"
  by (metis xor_cancel_left xor.right_neutral xor_self_eq)

section \<open>Bounds-checked slices and loops that may panic\<close>

definition aget :: "'a list \<Rightarrow> nat \<Rightarrow> 'a option" where
  "aget xs i = (if i < length xs then Some (xs ! i) else None)"

definition aset :: "'a list \<Rightarrow> nat \<Rightarrow> 'a \<Rightarrow> 'a list option" where
  "aset xs i v = (if i < length xs then Some (xs[i := v]) else None)"

definition aput :: "'a list \<Rightarrow> nat \<Rightarrow> 'a list \<Rightarrow> 'a list option" where
  "aput xs i ys = (if i + length ys \<le> length xs then Some (take i xs @ ys @ drop (i + length ys) xs) else None)"

definition aslice :: "'a list \<Rightarrow> nat \<Rightarrow> nat \<Rightarrow> 'a list option" where
  "aslice xs i j = (if i \<le> j \<and> j \<le> length xs then Some (take (j - i) (drop i xs)) else None)"

definition guard :: "bool \<Rightarrow> unit option" where
  "guard b = (if b then Some () else None)"

fun for_loop :: "'i list \<Rightarrow> ('i \<Rightarrow> 's \<Rightarrow> 's option) \<Rightarrow> 's \<Rightarrow> 's option" where
  "for_loop [] body s = Some s"
| "for_loop (i # is) body s = (case body i s of None \<Rightarrow> None | Some s' \<Rightarrow> for_loop is body s')"

lemma aget_Some [panic_simps]: "i < length xs \<Longrightarrow> aget xs i = Some (xs ! i)"
  by (simp add: aget_def)

lemma aget_None: "\<not> i < length xs \<Longrightarrow> aget xs i = None"
  by (simp add: aget_def)

lemma aset_Some [panic_simps]: "i < length xs \<Longrightarrow> aset xs i v = Some (xs[i := v])"
  by (simp add: aset_def)

lemma aset_None: "\<not> i < length xs \<Longrightarrow> aset xs i v = None"
  by (simp add: aset_def)

lemma aput_Some [panic_simps]:
  "i + length ys \<le> length xs \<Longrightarrow> aput xs i ys = Some (take i xs @ ys @ drop (i + length ys) xs)"
  by (simp add: aput_def)

lemma aslice_Some [panic_simps]:
  "\<lbrakk>i \<le> j; j \<le> length xs\<rbrakk> \<Longrightarrow> aslice xs i j = Some (take (j - i) (drop i xs))"
  by (simp add: aslice_def)

lemma nth_upt_zero: "k < n \<Longrightarrow> [0..<n] ! k = k"
  by simp

lemma guard_simps [simp]: "guard True = Some ()" "guard False = None"
  by (simp_all add: guard_def)

lemma guard_eq_Some [simp]: "guard b = Some u \<longleftrightarrow> b"
  by (simp add: guard_def)

lemma for_loop_append:
  "for_loop (is @ js) body s = Option.bind (for_loop is body s) (for_loop js body)"
  by (induction "is" arbitrary: s) (auto split: option.splits)

lemma for_loop_cong_invariant:
  assumes "\<And>i s. i \<in> set is \<Longrightarrow> I s \<Longrightarrow> body i s = Some (f i s) \<and> I (f i s)"
    and "I s"
  shows "for_loop is body s = Some (fold f is s) \<and> I (fold f is s)"
  using assms by (induction "is" arbitrary: s) auto

text \<open>
  A loop whose body keeps an invariant and never panics is the pure fold of its body.
\<close>

lemmas for_loop_fold = for_loop_cong_invariant [THEN conjunct1]

section \<open>Copy loops\<close>

definition copy_fold :: "'i list \<Rightarrow> ('i \<Rightarrow> nat) \<Rightarrow> ('i \<Rightarrow> nat) \<Rightarrow> 'a list \<Rightarrow> 'a list \<Rightarrow> 'a list" where
  "copy_fold is g h inp out = fold (\<lambda>i o'. o'[h i := inp ! g i]) is out"

lemma length_copy_fold [simp]: "length (copy_fold is g h inp out) = length out"
proof -
  have "length (fold (\<lambda>i o'. o'[h i := inp ! g i]) is out) = length out"
    by (induction "is" arbitrary: out) auto
  then show ?thesis by (simp add: copy_fold_def)
qed

lemma copy_fold_untouched:
  "p \<notin> h ` set is \<Longrightarrow> copy_fold is g h inp out ! p = out ! p"
proof -
  have "p \<notin> h ` set is \<Longrightarrow> fold (\<lambda>i o'. o'[h i := inp ! g i]) is out ! p = out ! p"
    by (induction "is" arbitrary: out) auto
  then show "p \<notin> h ` set is \<Longrightarrow> ?thesis" by (simp add: copy_fold_def)
qed

lemma copy_fold_hit:
  assumes "inj_on h (set is)" and "i \<in> set is" and "h i < length out"
  shows "copy_fold is g h inp out ! h i = inp ! g i"
  using assms unfolding copy_fold_def
proof (induction "is" arbitrary: out)
  case Nil
  then show ?case by simp
next
  case (Cons j js)
  show ?case
  proof (cases "i \<in> set js")
    case True
    with Cons show ?thesis by (simp add: inj_on_def)
  next
    case False
    with Cons.prems have ij: "i = j" by simp
    from False Cons.prems(1) ij have "h i \<notin> h ` set js"
      by (auto simp: inj_on_def)
    then have "fold (\<lambda>i o'. o'[h i := inp ! g i]) js (out[h i := inp ! g i]) ! h i
        = out[h i := inp ! g i] ! h i"
      using copy_fold_untouched [unfolded copy_fold_def] by blast
    with ij Cons.prems(3) show ?thesis by simp
  qed
qed

lemma copy_loop:
  assumes "\<And>i. i \<in> set is \<Longrightarrow> g i < length inp"
    and "\<And>i. i \<in> set is \<Longrightarrow> h i < length out"
  shows "for_loop is (\<lambda>i o'. do { v \<leftarrow> aget inp (g i); aset o' (h i) v }) out
    = Some (copy_fold is g h inp out)"
proof -
  have "for_loop is (\<lambda>i o'. do { v \<leftarrow> aget inp (g i); aset o' (h i) v }) out
      = Some (fold (\<lambda>i o'. o'[h i := inp ! g i]) is out)"
    by (rule for_loop_fold [where I = "\<lambda>o'. length o' = length out"])
       (simp_all add: assms panic_simps)
  then show ?thesis by (simp add: copy_fold_def)
qed

lemma for_loop_map: "for_loop (map f is) body s = for_loop is (\<lambda>i. body (f i)) s"
  by (induction "is" arbitrary: s) (auto split: option.splits)

lemma for_loop_cong:
  assumes "\<And>i s. i \<in> set is \<Longrightarrow> body i s = body' i s"
  shows "for_loop is body s = for_loop is body' s"
  using assms by (induction "is" arbitrary: s) (auto split: option.splits)

text \<open>Two nested loops are one loop over the pairs of their counters.\<close>

lemma for_loop_nested:
  "for_loop is (\<lambda>i. for_loop js (body i)) s
   = for_loop (List.product is js) (\<lambda>(i, j). body i j) s"
proof (induction "is" arbitrary: s)
  case (Cons i "is")
  have "for_loop (map (Pair i) js) (\<lambda>(i, j). body i j) s = for_loop js (body i) s" for s
    by (simp add: for_loop_map)
  then show ?case
    by (auto simp: for_loop_append Cons.IH split: option.splits)
qed simp

text \<open>
  \<open>copy_pair is g h n m\<close>: over the counters \<open>is\<close>, \<open>g\<close> and \<open>h\<close> are injective indices into buffers
  of at least \<open>n\<close> and \<open>m\<close> elements. The loop \<open>mid[h i] = inp[g i]\<close> followed by the loop
  \<open>out[g i] = mid[h i]\<close> brings every element that \<open>g\<close> reaches back to its place and leaves the
  rest of \<open>out\<close> alone. \<open>copy_bij\<close> adds that \<open>g\<close> reaches everything below \<open>n\<close>: the way back
  then restores the whole buffer.
\<close>

locale copy_pair =
  fixes "is" :: "'i list" and g h :: "'i \<Rightarrow> nat" and n m :: nat
  assumes g_inj: "inj_on g (set is)"
    and h_inj: "inj_on h (set is)"
    and g_less: "i \<in> set is \<Longrightarrow> g i < n"
    and h_less: "i \<in> set is \<Longrightarrow> h i < m"
begin

lemma there_hit:
  "\<lbrakk>i \<in> set is; m \<le> length mid\<rbrakk> \<Longrightarrow> copy_fold is g h inp mid ! h i = inp ! g i"
  using copy_fold_hit [OF h_inj] h_less by (metis order_less_le_trans)

lemma back_hit:
  "\<lbrakk>i \<in> set is; n \<le> length out\<rbrakk> \<Longrightarrow> copy_fold is h g mid out ! g i = mid ! h i"
  using copy_fold_hit [OF g_inj] g_less by (metis order_less_le_trans)

lemma there_and_back_hit:
  "\<lbrakk>i \<in> set is; m \<le> length mid; n \<le> length out\<rbrakk>
   \<Longrightarrow> copy_fold is h g (copy_fold is g h inp mid) out ! g i = inp ! g i"
  by (simp add: there_hit back_hit)

lemma back_other: "p \<notin> g ` set is \<Longrightarrow> copy_fold is h g mid out ! p = out ! p"
  by (rule copy_fold_untouched)

lemma there_loop:
  assumes "n \<le> length inp" and "m \<le> length mid"
  shows "for_loop is (\<lambda>i o'. do { v \<leftarrow> aget inp (g i); aset o' (h i) v }) mid
    = Some (copy_fold is g h inp mid)"
  by (rule copy_loop) (use g_less h_less assms in fastforce)+

lemma back_loop:
  assumes "m \<le> length mid" and "n \<le> length out"
  shows "for_loop is (\<lambda>i o'. do { v \<leftarrow> aget mid (h i); aset o' (g i) v }) out
    = Some (copy_fold is h g mid out)"
  by (rule copy_loop) (use g_less h_less assms in fastforce)+

end

locale copy_bij = copy_pair +
  assumes g_onto: "p < n \<Longrightarrow> p \<in> g ` set is"
begin

lemma there_and_back:
  assumes "n \<le> length inp" and "m \<le> length mid" and "n \<le> length out"
  shows "take n (copy_fold is h g (copy_fold is g h inp mid) out) = take n inp"
proof (rule nth_equalityI)
  show "length (take n (copy_fold is h g (copy_fold is g h inp mid) out)) = length (take n inp)"
    using assms by simp
  fix p assume "p < length (take n (copy_fold is h g (copy_fold is g h inp mid) out))"
  then have "p < n" by simp
  with g_onto obtain i where "i \<in> set is" "p = g i" by blast
  then show "take n (copy_fold is h g (copy_fold is g h inp mid) out) ! p = take n inp ! p"
    using assms \<open>p < n\<close> by (simp add: there_and_back_hit)
qed

end

section \<open>Enums with raw values\<close>

text \<open>
  The contract of an enum that the code sends as a raw integer of a given width: decoding inverts
  encoding, only raw values decode, and they fit the width.
\<close>

locale raw_enum =
  fixes raw :: "'a \<Rightarrow> nat" and of_raw :: "nat \<Rightarrow> 'a option" and bits :: nat
  assumes of_raw_raw [simp]: "of_raw (raw x) = Some x"
    and raw_of_raw: "of_raw n = Some x \<Longrightarrow> raw x = n"
    and raw_fits: "raw x < 2 ^ bits"
begin

lemma raw_inj: "raw x = raw y \<Longrightarrow> x = y"
  using of_raw_raw by (metis option.inject)

lemma of_raw_iff: "of_raw n = Some x \<longleftrightarrow> n = raw x"
  using of_raw_raw raw_of_raw by blast

lemma of_raw_None: "of_raw n = None \<longleftrightarrow> n \<notin> range raw"
  using of_raw_iff by (metis not_Some_eq rangeE rangeI)

end

section \<open>Iterators\<close>

text \<open>\<open>min_by_key\<close> takes the first element with the least key.\<close>

definition min_by_key :: "('a \<Rightarrow> 'k::linorder) \<Rightarrow> 'a list \<Rightarrow> 'a option" where
  "min_by_key key xs = fold (\<lambda>x best. case best of None \<Rightarrow> Some x | Some y \<Rightarrow> if key x < key y then Some x else best) xs None"

lemma min_by_key_fold:
  "\<exists>y. fold (\<lambda>x best. case best of None \<Rightarrow> Some x | Some y \<Rightarrow> if key x < (key y :: 'k::linorder) then Some x else best) xs (Some z) = Some y
    \<and> y \<in> insert z (set xs) \<and> (\<forall>x\<in>insert z (set xs). key y \<le> key x)"
proof (induction xs arbitrary: z)
  case (Cons x xs)
  show ?case
  proof (cases "key x < key z")
    case True
    then show ?thesis using Cons.IH [of x] by auto
  next
    case False
    then show ?thesis using Cons.IH [of z] by fastforce
  qed
qed simp

lemma min_by_key_least:
  assumes "xs \<noteq> []"
  obtains y where "min_by_key key xs = Some y" "y \<in> set xs" "\<forall>x\<in>set xs. key y \<le> key x"
  using assms min_by_key_fold [of key "tl xs" "hd xs"] by (cases xs) (auto simp: min_by_key_def)

lemma min_by_key_Nil [simp]: "min_by_key key [] = None"
  by (simp add: min_by_key_def)

text \<open>Editing an entry of an association list in place.\<close>

lemma distinct_map_entry: "map fst (AList.map_entry k f xs) = map fst xs"
  by (induction xs) auto

lemma map_entry_conv: "map_of (AList.map_entry k f xs) = (map_of xs)(k := map_option f (map_of xs k))"
  by (induction xs) (auto simp: fun_eq_iff)

end
