(* ===== verification/Tdma_Time.thy ===== *)
theory Tdma_Time
  imports Prelude
begin

text \<open>
  The TDMA clock of \<^verbatim>\<open>crates/tetra-core/src/tdma_time.rs\<close>: a slot time is a timeslot \<open>1..4\<close> of
  a frame \<open>1..18\<close> of a multiframe \<open>1..60\<close> of a hyperframe \<open>0..65535\<close>.

  The fields are \<open>u8\<close>/\<open>u16\<close> in the source and \<open>nat\<close> here; every cast the source makes
  (\<open>as u8\<close>, \<open>as u16\<close>) is written out as a remainder, and \<open>i32\<close> arithmetic goes through
  \<open>wrap_i32\<close>. The lemmas show that times built by the code are valid, that the linear
  slot count and the structured time are inverse to each other, and that the difference of two
  times is the representative of their distance in half a hyperframe cycle on either side.
\<close>

section \<open>The clock\<close>

record tdma_time =
  time_t :: nat
  time_f :: nat
  time_m :: nat
  time_h :: nat

definition mk_time :: "nat \<Rightarrow> nat \<Rightarrow> nat \<Rightarrow> nat \<Rightarrow> tdma_time" where
  "mk_time h m f t = \<lparr>time_t = t, time_f = f, time_m = m, time_h = h\<rparr>"

definition default_time :: tdma_time where
  "default_time = \<lparr>time_t = 1, time_f = 1, time_m = 1, time_h = 0\<rparr>"

definition TIME_INT_WRAP :: int where
  "TIME_INT_WRAP = 4 * 18 * 60 * 65536"

text \<open>The two \<open>while\<close> loops of \<open>time_int_diff\<close>; Rust's \<open>-W / 2\<close> truncates, exact here.\<close>

function diff_raise :: "int \<Rightarrow> int" where
  "diff_raise d = (if d < - TIME_INT_WRAP div 2 then diff_raise (d + TIME_INT_WRAP) else d)"
  by pat_completeness auto
termination
  by (relation "measure (\<lambda>d. nat (- d))") (auto simp: TIME_INT_WRAP_def)

function diff_lower :: "int \<Rightarrow> int" where
  "diff_lower d = (if d \<ge> TIME_INT_WRAP div 2 then diff_lower (d - TIME_INT_WRAP) else d)"
  by pat_completeness auto
termination
  by (relation "measure nat") (auto simp: TIME_INT_WRAP_def)

declare diff_raise.simps [simp del] diff_lower.simps [simp del]

definition time_int_diff :: "int \<Rightarrow> int \<Rightarrow> int" where
  "time_int_diff a b = diff_lower (diff_raise (wrap_i32 (a - b)))"

definition is_valid :: "tdma_time \<Rightarrow> bool" where
  "is_valid s \<longleftrightarrow> time_t s \<ge> 1 \<and> time_t s \<le> 4 \<and> time_f s \<ge> 1 \<and> time_f s \<le> 18
     \<and> time_m s \<ge> 1 \<and> time_m s \<le> 60"

definition to_int :: "tdma_time \<Rightarrow> int" where
  "to_int s = (int (time_t s) - 1) + (int (time_f s) - 1) * 4 + (int (time_m s) - 1) * 4 * 18
     + int (time_h s) * 4 * 18 * 60"

definition from_int :: "int \<Rightarrow> tdma_time" where
  "from_int time =
     \<lparr>time_t = nat (time mod 4 + 1) mod 256,
      time_f = nat (time div 4 mod 18 + 1) mod 256,
      time_m = nat (time div (4 * 18) mod 60 + 1) mod 256,
      time_h = nat ((time div (4 * 18 * 60)) mod 65536)\<rparr>"

definition add_timeslots :: "tdma_time \<Rightarrow> int \<Rightarrow> tdma_time" where
  "add_timeslots s num_slots = from_int (wrap_i32 (to_int s + num_slots))"

definition diff :: "tdma_time \<Rightarrow> tdma_time \<Rightarrow> int" where
  "diff a b = time_int_diff (to_int a) (to_int b)"

definition age :: "tdma_time \<Rightarrow> tdma_time \<Rightarrow> int" where
  "age s now = diff now s"

definition forward_to_timeslot :: "tdma_time \<Rightarrow> nat \<Rightarrow> tdma_time" where
  "forward_to_timeslot s ts =
     add_timeslots s (int (u8_sub (u8_add ts 4) (time_t s) mod 4))"

definition is_sc2_security_sysinfo_opportunity :: "tdma_time \<Rightarrow> bool" where
  "is_sc2_security_sysinfo_opportunity s \<longleftrightarrow>
     time_t s = 1 \<and> (time_f s = 4 \<or> time_f s = 8 \<or> time_f s = 12 \<or> time_f s = 16)"

text \<open>
  Both forward searches run the same bounded loop: test, return or advance by one slot;
  \<open>None\<close> is the \<open>unreachable!\<close> behind the loop.
\<close>

fun forward_search :: "(tdma_time \<Rightarrow> bool) \<Rightarrow> nat \<Rightarrow> tdma_time \<Rightarrow> tdma_time option" where
  "forward_search p 0 time = None"
| "forward_search p (Suc k) time =
     (if p time then Some time else forward_search p k (add_timeslots time 1))"

definition forward_to_sc2_security_sysinfo :: "tdma_time \<Rightarrow> tdma_time option" where
  "forward_to_sc2_security_sysinfo s =
     forward_search is_sc2_security_sysinfo_opportunity (18 * 4) s"

definition forward_to_multiframe_start :: "tdma_time \<Rightarrow> tdma_time option" where
  "forward_to_multiframe_start s =
     forward_search (\<lambda>time. time_t time = 1 \<and> time_f time = 1) (18 * 4) s"

definition is_mandatory_bsch :: "tdma_time \<Rightarrow> bool" where
  "is_mandatory_bsch s \<longleftrightarrow> time_f s = 18 \<and> time_t s = 4 - u8_add (time_m s) 1 mod 4"

definition is_mandatory_bnch :: "tdma_time \<Rightarrow> bool" where
  "is_mandatory_bnch s \<longleftrightarrow> time_f s = 18 \<and> time_t s = 4 - u8_add (time_m s) 3 mod 4"

definition is_mandatory_clch :: "tdma_time \<Rightarrow> bool" where
  "is_mandatory_clch s \<longleftrightarrow> time_f s = 18 \<and> time_t s = 4 - u8_add (time_m s) 1 mod 4"

text \<open>A valid time with its hyperframe number in the range of the \<open>u16\<close> field.\<close>

definition time_ok :: "tdma_time \<Rightarrow> bool" where
  "time_ok s \<longleftrightarrow> is_valid s \<and> time_h s < 65536"

section \<open>Linear time and structured time\<close>

lemma to_int_range:
  assumes "time_ok s"
  shows "0 \<le> to_int s" "to_int s < TIME_INT_WRAP"
  using assms by (simp_all add: time_ok_def is_valid_def to_int_def TIME_INT_WRAP_def)

lemma digit_bounds:
  fixes x n :: int
  assumes "0 < n"
  shows "1 \<le> nat (x mod n + 1)" "nat (x mod n + 1) \<le> nat n"
proof -
  have "0 \<le> x mod n" and "x mod n < n" using assms by simp_all
  then show "1 \<le> nat (x mod n + 1)" and "nat (x mod n + 1) \<le> nat n" by linarith+
qed

lemma digit_mod_256:
  fixes x n :: int
  assumes "0 < n" and "n < 256"
  shows "nat (x mod n + 1) mod 256 = nat (x mod n + 1)"
proof (rule mod_less)
  have "nat (x mod n + 1) \<le> nat n" by (rule digit_bounds(2) [OF assms(1)])
  also have "\<dots> < 256" using assms by linarith
  finally show "nat (x mod n + 1) < 256" .
qed

lemma digit_split:
  fixes d r n :: int
  assumes "0 \<le> d" and "d < n"
  shows "(d + n * r) mod n = d" "(d + n * r) div n = r"
  using assms by simp_all

lemma from_int_fields:
  "time_t (from_int x) = nat (x mod 4 + 1)"
  "time_f (from_int x) = nat (x div 4 mod 18 + 1)"
  "time_m (from_int x) = nat (x div 72 mod 60 + 1)"
  "time_h (from_int x) = nat (x div 4320 mod 65536)"
  using digit_mod_256 [of 4 x] digit_mod_256 [of 18 "x div 4"] digit_mod_256 [of 60 "x div 72"]
  by (simp_all only: from_int_def tdma_time.simps) simp_all

lemma time_ok_from_int: "time_ok (from_int x)"
  using digit_bounds [of 4 x] digit_bounds [of 18 "x div 4"] digit_bounds [of 60 "x div 72"]
  by (simp add: time_ok_def is_valid_def from_int_fields nat_less_iff)

lemma to_int_from_int: "to_int (from_int x) = x mod TIME_INT_WRAP"
proof -
  have x0: "x mod (4 * (18 * (60 * 65536)))
      = 4 * (x div 4 mod (18 * (60 * 65536))) + x mod 4"
    by (rule zmod_zmult2_eq) simp
  have x1: "x div 4 mod (18 * (60 * 65536))
      = 18 * (x div 4 div 18 mod (60 * 65536)) + x div 4 mod 18"
    by (rule zmod_zmult2_eq) simp
  have x2: "x div 4 div 18 mod (60 * 65536)
      = 60 * (x div 4 div 18 div 60 mod 65536) + x div 4 div 18 mod 60"
    by (rule zmod_zmult2_eq) simp
  have d: "x div 72 = x div 4 div 18" and e: "x div 4320 = x div 4 div 18 div 60"
    by (simp_all flip: zdiv_zmult2_eq)
  have w: "TIME_INT_WRAP = 4 * (18 * (60 * 65536))" by (simp add: TIME_INT_WRAP_def)
  show ?thesis
    unfolding to_int_def from_int_fields w x0 x1 x2 d e by simp
qed

lemma from_int_to_int:
  assumes "time_ok s"
  shows "from_int (to_int s) = s"
proof -
  let ?t = "int (time_t s) - 1" and ?f = "int (time_f s) - 1" and ?m = "int (time_m s) - 1"
  let ?h = "int (time_h s)"
  have r: "0 \<le> ?t" "?t < 4" "0 \<le> ?f" "?f < 18" "0 \<le> ?m" "?m < 60" "0 \<le> ?h" "?h < 65536"
    using assms by (auto simp: time_ok_def is_valid_def)
  have x: "to_int s = ?t + 4 * (?f + 18 * (?m + 60 * ?h))"
    by (simp add: to_int_def)
  have d4: "to_int s div 4 = ?f + 18 * (?m + 60 * ?h)" and m4: "to_int s mod 4 = ?t"
    unfolding x by (rule digit_split [OF r(1,2)])+
  have d72: "to_int s div 72 = ?m + 60 * ?h" and m72: "to_int s div 4 mod 18 = ?f"
    using zdiv_zmult2_eq [of 18 "to_int s" 4] digit_split [OF r(3,4), of "?m + 60 * ?h"] d4
    by simp_all
  have d4320: "to_int s div 4320 = ?h" and m4320: "to_int s div 72 mod 60 = ?m"
    using zdiv_zmult2_eq [of 60 "to_int s" 72] digit_split [OF r(5,6), of ?h] d72 by simp_all
  show ?thesis
    using r by (intro tdma_time.equality) (simp_all add: from_int_fields m4 m72 m4320 d4320)
qed

section \<open>Differences\<close>

lemma diff_raise_spec:
  "- TIME_INT_WRAP div 2 \<le> diff_raise d
   \<and> (d < TIME_INT_WRAP div 2 \<longrightarrow> diff_raise d < TIME_INT_WRAP div 2)
   \<and> diff_raise d mod TIME_INT_WRAP = d mod TIME_INT_WRAP"
proof (induction d rule: diff_raise.induct)
  case (1 d)
  show ?case
  proof (cases "d < - TIME_INT_WRAP div 2")
    case True
    with 1 show ?thesis
      by (simp add: diff_raise.simps [of d])
  next
    case False
    then show ?thesis by (simp add: diff_raise.simps [of d])
  qed
qed

lemma diff_lower_spec:
  "diff_lower d < TIME_INT_WRAP div 2
   \<and> (- TIME_INT_WRAP div 2 \<le> d \<longrightarrow> - TIME_INT_WRAP div 2 \<le> diff_lower d)
   \<and> diff_lower d mod TIME_INT_WRAP = d mod TIME_INT_WRAP"
proof (induction d rule: diff_lower.induct)
  case (1 d)
  show ?case
  proof (cases "d \<ge> TIME_INT_WRAP div 2")
    case True
    with 1 show ?thesis
      by (simp add: diff_lower.simps [of d])
  next
    case False
    then show ?thesis by (simp add: diff_lower.simps [of d])
  qed
qed

lemma half_cycle_unique:
  assumes "- TIME_INT_WRAP div 2 \<le> x" "x < TIME_INT_WRAP div 2"
    and "- TIME_INT_WRAP div 2 \<le> y" "y < TIME_INT_WRAP div 2"
    and "x mod TIME_INT_WRAP = y mod TIME_INT_WRAP"
  shows "x = y"
proof -
  from assms(5) have "TIME_INT_WRAP dvd x - y" by (simp add: mod_eq_dvd_iff)
  moreover have "\<bar>x - y\<bar> < TIME_INT_WRAP"
    using assms(1-4) by (auto simp: TIME_INT_WRAP_def)
  ultimately show ?thesis
    using dvd_imp_le_int [of "x - y" TIME_INT_WRAP] by (force simp: TIME_INT_WRAP_def)
qed

lemma time_int_diff_spec:
  "- TIME_INT_WRAP div 2 \<le> time_int_diff a b"
  "time_int_diff a b < TIME_INT_WRAP div 2"
  "time_int_diff a b mod TIME_INT_WRAP = wrap_i32 (a - b) mod TIME_INT_WRAP"
  unfolding time_int_diff_def
  using diff_lower_spec [of "diff_raise (wrap_i32 (a - b))"] diff_raise_spec [of "wrap_i32 (a - b)"]
  by auto

lemma time_int_diff_eqI:
  assumes "- TIME_INT_WRAP div 2 \<le> n" "n < TIME_INT_WRAP div 2"
    and "wrap_i32 (a - b) mod TIME_INT_WRAP = n mod TIME_INT_WRAP"
  shows "time_int_diff a b = n"
  by (rule half_cycle_unique) (use assms time_int_diff_spec [of a b] in auto)

lemma diff_ok:
  assumes "time_ok a" and "time_ok b"
  shows "diff a b mod TIME_INT_WRAP = (to_int a - to_int b) mod TIME_INT_WRAP"
proof -
  have "wrap_i32 (to_int a - to_int b) = to_int a - to_int b"
    using to_int_range [OF assms(1)] to_int_range [OF assms(2)]
    by (intro wrap_i32_id) (simp_all add: TIME_INT_WRAP_def)
  then show ?thesis
    by (simp add: diff_def time_int_diff_spec(3))
qed

lemma to_int_add_timeslots:
  assumes "time_ok s" and "- 1500000000 \<le> n" and "n \<le> 1500000000"
  shows "to_int (add_timeslots s n) = (to_int s + n) mod TIME_INT_WRAP"
proof -
  have "wrap_i32 (to_int s + n) = to_int s + n"
    using to_int_range [OF assms(1)] assms(2,3)
    by (intro wrap_i32_id) (simp_all add: TIME_INT_WRAP_def)
  then show ?thesis
    by (simp add: add_timeslots_def to_int_from_int)
qed

lemma time_ok_add_timeslots [simp, intro]: "time_ok (add_timeslots s n)"
  by (simp add: add_timeslots_def time_ok_from_int)

lemma time_ok_default [simp, intro]: "time_ok default_time"
  by (simp add: time_ok_def is_valid_def default_time_def)

lemma time_ok_eqI:
  assumes "time_ok a" and "time_ok b" and "to_int a = to_int b"
  shows "a = b"
  using assms from_int_to_int by metis

lemma add_timeslots_add:
  assumes "time_ok s" and "\<bar>a\<bar> \<le> 700000000" and "\<bar>b\<bar> \<le> 700000000"
  shows "add_timeslots (add_timeslots s a) b = add_timeslots s (a + b)"
  by (rule time_ok_eqI) (use assms in \<open>simp_all add: to_int_add_timeslots mod_simps add.assoc\<close>)

lemma add_timeslots_0: "time_ok s \<Longrightarrow> add_timeslots s 0 = s"
  by (rule time_ok_eqI) (simp_all add: to_int_add_timeslots to_int_range)

lemma diff_add_timeslots_self:
  assumes "time_ok s" and "- TIME_INT_WRAP div 2 \<le> n" and "n < TIME_INT_WRAP div 2"
  shows "diff (add_timeslots s n) s = n"
proof (rule half_cycle_unique [OF _ _ assms(2,3)])
  show "- TIME_INT_WRAP div 2 \<le> diff (add_timeslots s n) s"
    and "diff (add_timeslots s n) s < TIME_INT_WRAP div 2"
    by (simp_all add: diff_def time_int_diff_spec)
  have "to_int (add_timeslots s n) = (to_int s + n) mod TIME_INT_WRAP"
    using assms by (intro to_int_add_timeslots) (simp_all add: TIME_INT_WRAP_def)
  then show "diff (add_timeslots s n) s mod TIME_INT_WRAP = n mod TIME_INT_WRAP"
    using diff_ok [of "add_timeslots s n" s] assms(1) by (simp add: mod_simps)
qed

lemma add_timeslots_diff_self:
  assumes "time_ok a" and "time_ok b"
  shows "add_timeslots b (diff a b) = a"
proof (rule time_ok_eqI)
  have r: "- TIME_INT_WRAP div 2 \<le> diff a b" "diff a b < TIME_INT_WRAP div 2"
    by (simp_all add: diff_def time_int_diff_spec)
  then have "to_int (add_timeslots b (diff a b)) = (to_int b + diff a b) mod TIME_INT_WRAP"
    using assms(2) by (intro to_int_add_timeslots) (simp_all add: TIME_INT_WRAP_def)
  also have "\<dots> = (to_int b + diff a b mod TIME_INT_WRAP) mod TIME_INT_WRAP"
    by (simp add: mod_simps)
  also have "\<dots> = to_int a"
    by (simp add: diff_ok assms mod_simps to_int_range)
  finally show "to_int (add_timeslots b (diff a b)) = to_int a" .
qed (use assms in auto)

section \<open>Forward searches\<close>

lemma add_timeslots_step:
  assumes "time_ok s" and "k \<le> 1000"
  shows "add_timeslots (add_timeslots s 1) (int k) = add_timeslots s (int (Suc k))"
  using assms by (simp add: add_timeslots_add)

text \<open>The search returns the first hit, provided there is one within its bound.\<close>

lemma forward_search_first:
  assumes "time_ok s" and "k < n" and "n \<le> 1000" and "p (add_timeslots s (int k))"
  shows "\<exists>j\<le>k. forward_search p n s = Some (add_timeslots s (int j))
     \<and> p (add_timeslots s (int j)) \<and> (\<forall>i<j. \<not> p (add_timeslots s (int i)))"
  using assms
proof (induction n arbitrary: s k)
  case 0
  then show ?case by simp
next
  case (Suc n)
  show ?case
  proof (cases "p s")
    case True
    then show ?thesis using Suc.prems by (intro exI [of _ 0]) (simp add: add_timeslots_0)
  next
    case False
    have "add_timeslots s (int 0) = s" using add_timeslots_0 [OF Suc.prems(1)] by simp
    with False Suc.prems(4) have "k \<noteq> 0" by (intro notI) simp
    then obtain k' where k: "k = Suc k'" by (cases k) auto
    with Suc.prems have "p (add_timeslots (add_timeslots s 1) (int k'))"
      by (simp add: add_timeslots_step)
    then obtain j where j: "j \<le> k'"
        "forward_search p n (add_timeslots s 1) = Some (add_timeslots (add_timeslots s 1) (int j))"
        "p (add_timeslots (add_timeslots s 1) (int j))"
        "\<forall>i<j. \<not> p (add_timeslots (add_timeslots s 1) (int i))"
      using Suc.IH [of "add_timeslots s 1" k'] Suc.prems k by auto
    have "\<not> p (add_timeslots s (int i))" if "i < Suc j" for i
      using that False j(1,4) Suc.prems k
      by (cases i) (auto simp: add_timeslots_0 add_timeslots_step simp del: of_nat_Suc)
    then show ?thesis
      using False j k Suc.prems
      by (intro exI [of _ "Suc j"]) (simp add: add_timeslots_step del: of_nat_Suc)
  qed
qed

lemma time_t_add: "\<lbrakk>time_ok s; \<bar>n\<bar> \<le> 1000000\<rbrakk> \<Longrightarrow>
    time_t (add_timeslots s n) = nat ((int (time_t s) - 1 + n) mod 4 + 1)"
proof -
  assume "time_ok s" "\<bar>n\<bar> \<le> 1000000"
  then have w: "wrap_i32 (to_int s + n) = to_int s + n"
    using to_int_range [of s] by (intro wrap_i32_id) (simp_all add: TIME_INT_WRAP_def)
  have "to_int s + n = int (time_t s) - 1 + n
      + 4 * (int (time_f s) - 1 + 18 * (int (time_m s) - 1) + 1080 * int (time_h s))"
    by (simp add: to_int_def)
  then have "(to_int s + n) mod 4 = (int (time_t s) - 1 + n) mod 4"
    by (simp only: mod_mult_self2)
  then show ?thesis unfolding add_timeslots_def w by (simp add: from_int_fields)
qed

lemma time_tf_add:
  assumes "time_ok s" and "\<bar>n\<bar> \<le> 1000000"
  shows "4 * (int (time_f (add_timeslots s n)) - 1) + (int (time_t (add_timeslots s n)) - 1)
     = (4 * (int (time_f s) - 1) + (int (time_t s) - 1) + n) mod 72"
proof -
  have w: "wrap_i32 (to_int s + n) = to_int s + n"
    using to_int_range [OF assms(1)] assms(2)
    by (intro wrap_i32_id) (simp_all add: TIME_INT_WRAP_def)
  have e: "(to_int s + n) mod (4 * 18) = 4 * ((to_int s + n) div 4 mod 18) + (to_int s + n) mod 4"
    by (rule zmod_zmult2_eq) simp
  have "(to_int s + n) mod 72
      = (4 * (int (time_f s) - 1) + (int (time_t s) - 1) + n + 72 * (int (time_m s) - 1 + 60 * int (time_h s))) mod 72"
    by (simp add: to_int_def algebra_simps)
  also have "\<dots> = (4 * (int (time_f s) - 1) + (int (time_t s) - 1) + n) mod 72"
    by (rule mod_mult_self2)
  finally have m: "(to_int s + n) mod (4 * 18)
      = (4 * (int (time_f s) - 1) + (int (time_t s) - 1) + n) mod 72" by simp
  have "int (time_f (add_timeslots s n)) - 1 = (to_int s + n) div 4 mod 18"
    and "int (time_t (add_timeslots s n)) - 1 = (to_int s + n) mod 4"
    by (simp_all add: add_timeslots_def w from_int_fields)
  then show ?thesis by (simp only: e [symmetric] m)
qed

text \<open>The slot \<open>(f, t)\<close> of the multiframe is reached within one multiframe.\<close>

lemma slot_within_multiframe:
  assumes "time_ok s" and "1 \<le> t" "t \<le> 4" "1 \<le> f" "f \<le> 18"
  obtains k where "k < 72" "time_t (add_timeslots s (int k)) = t" "time_f (add_timeslots s (int k)) = f"
proof -
  define x where "x = 4 * (int (time_f s) - 1) + (int (time_t s) - 1)"
  define y where "y = 4 * (int f - 1) + (int t - 1)"
  define k where "k = nat ((y - x) mod 72)"
  have k: "int k = (y - x) mod 72" "k < 72" by (simp_all add: k_def nat_less_iff)
  let ?r = "add_timeslots s (int k)"
  have y: "0 \<le> y" "y < 72" using assms by (auto simp: y_def)
  have "4 * (int (time_f ?r) - 1) + (int (time_t ?r) - 1) = (x + int k) mod 72"
    unfolding x_def using assms(1) k(2) by (intro time_tf_add) auto
  also have "\<dots> = y" using y by (simp add: k(1) mod_simps)
  finally have "4 * int (time_f ?r) + int (time_t ?r) = 4 * int f + int t"
    by (simp add: y_def)
  moreover have "1 \<le> time_t ?r" "time_t ?r \<le> 4"
    using time_ok_add_timeslots [of s "int k"] by (auto simp: time_ok_def is_valid_def)
  ultimately have "time_f ?r = f" using assms(2,3) by linarith
  moreover from this \<open>4 * int (time_f ?r) + int (time_t ?r) = 4 * int f + int t\<close>
  have "time_t ?r = t" by simp
  ultimately have "time_t ?r = t \<and> time_f ?r = f" by simp
  with k(2) show thesis using that by blast
qed

section \<open>Properties of the clock\<close>

text \<open>The structured time and the linear slot count are inverse to each other: every valid time
  survives the round trip, every linear count survives it up to the wrap of the hyperframe
  number, and every time made from a linear count is valid.\<close>

lemma time_linear_roundtrip:
  "(time_ok s \<longrightarrow> from_int (to_int s) = s)
   \<and> to_int (from_int x) = x mod TIME_INT_WRAP \<and> time_ok (from_int x)"
  using from_int_to_int to_int_from_int time_ok_from_int by blast

theorem time_linear_roundtrip_witness:
  "time_ok (mk_time 7 8 3 4) \<and> from_int (to_int (mk_time 7 8 3 4)) = mk_time 7 8 3 4
   \<and> from_int (- 1) = mk_time 65535 60 18 4"
proof -
  have ok: "time_ok (mk_time 7 8 3 4)" by (simp add: time_ok_def is_valid_def mk_time_def)
  have "from_int (- 1) = mk_time 65535 60 18 4" by (simp add: from_int_def mk_time_def)
  then show ?thesis using ok time_linear_roundtrip [of "mk_time 7 8 3 4" 0] by simp
qed

lemma time_add_diff_inverse_parts:
  assumes "time_ok a" and "time_ok b"
    and "- TIME_INT_WRAP div 2 \<le> n" and "n < TIME_INT_WRAP div 2"
  shows "diff (add_timeslots a n) a = n" and "add_timeslots b (diff a b) = a"
    and "- TIME_INT_WRAP div 2 \<le> diff a b \<and> diff a b < TIME_INT_WRAP div 2"
  using diff_add_timeslots_self [OF assms(1,3,4)] add_timeslots_diff_self [OF assms(1,2)]
    time_int_diff_spec [of "to_int a" "to_int b"]
  by (simp_all add: diff_def)

text \<open>Adding slots and taking differences are inverse for every offset within half a
  hyperframe cycle, also across the wrap of the hyperframe number, and the difference is
  always such an offset.\<close>

lemma time_add_diff_inverse:
  assumes "time_ok a" and "time_ok b"
    and "- TIME_INT_WRAP div 2 \<le> n" and "n < TIME_INT_WRAP div 2"
  shows "(diff (add_timeslots a n) a = n)
      \<and> (add_timeslots b (diff a b) = a)
      \<and> (- TIME_INT_WRAP div 2 \<le> diff a b \<and> diff a b < TIME_INT_WRAP div 2)"
  using time_add_diff_inverse_parts [OF assms] by blast

theorem time_add_diff_inverse_witness:
  "diff (add_timeslots (mk_time 65535 60 18 4) 12345) (mk_time 65535 60 18 4) = 12345
   \<and> add_timeslots default_time (diff (mk_time 65535 60 18 4) default_time) = mk_time 65535 60 18 4"
proof -
  have ok: "time_ok (mk_time 65535 60 18 4)" by (simp add: time_ok_def is_valid_def mk_time_def)
  have n: "- TIME_INT_WRAP div 2 \<le> 12345" "12345 < TIME_INT_WRAP div 2"
    by (simp_all add: TIME_INT_WRAP_def)
  show ?thesis
    using time_add_diff_inverse [OF ok time_ok_default n] by simp
qed

lemma forward_searches_first_hit_parts:
  assumes "time_ok s"
  shows "\<exists>j<72. forward_to_sc2_security_sysinfo s = Some (add_timeslots s (int j))
      \<and> is_sc2_security_sysinfo_opportunity (add_timeslots s (int j))
      \<and> (\<forall>i<j. \<not> is_sc2_security_sysinfo_opportunity (add_timeslots s (int i)))"
    and "\<exists>j<72. forward_to_multiframe_start s = Some (add_timeslots s (int j))
      \<and> time_t (add_timeslots s (int j)) = 1 \<and> time_f (add_timeslots s (int j)) = 1
      \<and> (\<forall>i<j. \<not> (time_t (add_timeslots s (int i)) = 1 \<and> time_f (add_timeslots s (int i)) = 1))"
proof -
  obtain k where k: "k < 72" "time_t (add_timeslots s (int k)) = 1" "time_f (add_timeslots s (int k)) = 4"
    using slot_within_multiframe [OF assms, of 1 4] by auto
  then have "is_sc2_security_sysinfo_opportunity (add_timeslots s (int k))"
    by (simp add: is_sc2_security_sysinfo_opportunity_def)
  with forward_search_first [OF assms k(1), of is_sc2_security_sysinfo_opportunity] k(1)
  show "\<exists>j<72. forward_to_sc2_security_sysinfo s = Some (add_timeslots s (int j))
      \<and> is_sc2_security_sysinfo_opportunity (add_timeslots s (int j))
      \<and> (\<forall>i<j. \<not> is_sc2_security_sysinfo_opportunity (add_timeslots s (int i)))"
    by (auto simp: forward_to_sc2_security_sysinfo_def intro: le_less_trans)
  obtain l where l: "l < 72" "time_t (add_timeslots s (int l)) = 1" "time_f (add_timeslots s (int l)) = 1"
    using slot_within_multiframe [OF assms, of 1 1] by auto
  from forward_search_first [OF assms l(1), of "\<lambda>time. time_t time = 1 \<and> time_f time = 1"] l
  show "\<exists>j<72. forward_to_multiframe_start s = Some (add_timeslots s (int j))
      \<and> time_t (add_timeslots s (int j)) = 1 \<and> time_f (add_timeslots s (int j)) = 1
      \<and> (\<forall>i<j. \<not> (time_t (add_timeslots s (int i)) = 1 \<and> time_f (add_timeslots s (int i)) = 1))"
    by (auto simp: forward_to_multiframe_start_def intro: le_less_trans)
qed

text \<open>C11: the bounded searches of the clock always return (their \<open>unreachable!\<close> is not
  reached), and what they return is the first slot from the given one on that satisfies the
  searched condition.\<close>

theorem forward_searches_first_hit:
  assumes "time_ok s"
  shows "(\<exists>j<72. forward_to_sc2_security_sysinfo s = Some (add_timeslots s (int j))
      \<and> is_sc2_security_sysinfo_opportunity (add_timeslots s (int j))
      \<and> (\<forall>i<j. \<not> is_sc2_security_sysinfo_opportunity (add_timeslots s (int i))))
      \<and> (\<exists>j<72. forward_to_multiframe_start s = Some (add_timeslots s (int j))
      \<and> time_t (add_timeslots s (int j)) = 1 \<and> time_f (add_timeslots s (int j)) = 1
      \<and> (\<forall>i<j. \<not> (time_t (add_timeslots s (int i)) = 1 \<and> time_f (add_timeslots s (int i)) = 1)))"
  using forward_searches_first_hit_parts [OF assms] by blast

theorem forward_searches_first_hit_witness:
  "(\<exists>j<72. forward_to_multiframe_start (mk_time 7 8 16 2)
      = Some (add_timeslots (mk_time 7 8 16 2) (int j)))
   \<and> forward_to_sc2_security_sysinfo (mk_time 7 8 3 4) = Some (mk_time 7 8 4 1)"
proof -
  have ok: "time_ok (mk_time 7 8 16 2)" by (simp add: time_ok_def is_valid_def mk_time_def)
  have "forward_to_sc2_security_sysinfo (mk_time 7 8 3 4) = Some (mk_time 7 8 4 1)"
    by code_simp
  then show ?thesis using forward_searches_first_hit [THEN conjunct2, OF ok] by blast
qed

lemma forward_to_timeslot_first_parts:
  assumes "time_ok s" and "1 \<le> ts" and "ts \<le> 4"
  shows "time_t (forward_to_timeslot s ts) = ts"
    and "0 \<le> diff (forward_to_timeslot s ts) s \<and> diff (forward_to_timeslot s ts) s \<le> 3"
    and "time_t s = ts \<longrightarrow> forward_to_timeslot s ts = s"
proof -
  have t: "1 \<le> time_t s" "time_t s \<le> 4" using assms(1) by (auto simp: time_ok_def is_valid_def)
  define d where "d = (ts + 4 - time_t s) mod 4"
  have f: "forward_to_timeslot s ts = add_timeslots s (int d)"
    using assms t by (simp add: forward_to_timeslot_def d_def wrap_simps)
  have d: "d \<le> 3" by (simp add: d_def)
  have "time_t s \<in> {1, 2, 3, 4}" "ts \<in> {1, 2, 3, 4}" using t assms(2,3) by auto
  then have "(int (time_t s) - 1 + int d) mod 4 = int ts - 1"
    unfolding d_def by auto
  then show "time_t (forward_to_timeslot s ts) = ts"
    using assms d by (simp add: f time_t_add)
  show "0 \<le> diff (forward_to_timeslot s ts) s \<and> diff (forward_to_timeslot s ts) s \<le> 3"
    using diff_add_timeslots_self [OF assms(1), of "int d"] d by (simp add: f TIME_INT_WRAP_def)
  show "time_t s = ts \<longrightarrow> forward_to_timeslot s ts = s"
    using assms(1) by (auto simp: f d_def add_timeslots_0)
qed

text \<open>Rounding up to a timeslot gives the first slot with that number, at most three slots
  later, and leaves a time that already has it unchanged.\<close>

lemma forward_to_timeslot_first:
  assumes "time_ok s" and "1 \<le> ts" and "ts \<le> 4"
  shows "(time_t (forward_to_timeslot s ts) = ts)
      \<and> (0 \<le> diff (forward_to_timeslot s ts) s \<and> diff (forward_to_timeslot s ts) s \<le> 3)
      \<and> (time_t s = ts \<longrightarrow> forward_to_timeslot s ts = s)"
  using forward_to_timeslot_first_parts [OF assms] by blast

theorem forward_to_timeslot_first_witness:
  "time_t (forward_to_timeslot (mk_time 65535 60 18 4) 2) = 2"
proof -
  have ok: "time_ok (mk_time 65535 60 18 4)" by (simp add: time_ok_def is_valid_def mk_time_def)
  show ?thesis by (rule forward_to_timeslot_first [THEN conjunct1, OF ok]) simp_all
qed

lemma mandatory_broadcast_slots_parts:
  assumes "1 \<le> m" and "m \<le> 60"
  shows "\<exists>!t. 1 \<le> t \<and> t \<le> 4 \<and> is_mandatory_bsch (mk_time h m 18 t)"
    and "\<exists>!t. 1 \<le> t \<and> t \<le> 4 \<and> is_mandatory_bnch (mk_time h m 18 t)"
    and "\<not> (is_mandatory_bsch (mk_time h m f t) \<and> is_mandatory_bnch (mk_time h m f t))"
    and "f \<noteq> 18 \<longrightarrow> \<not> is_mandatory_bsch (mk_time h m f t) \<and> \<not> is_mandatory_bnch (mk_time h m f t)"
    and "is_mandatory_clch (mk_time h m f t) = is_mandatory_bsch (mk_time h m f t)"
proof -
  have b: "u8_add m 1 = m + 1" "u8_add m 3 = m + 3" using assms by (simp_all add: wrap_simps)
  then have defs: "is_mandatory_bsch (mk_time h m f t) \<longleftrightarrow> f = 18 \<and> t = 4 - (m + 1) mod 4"
    "is_mandatory_bnch (mk_time h m f t) \<longleftrightarrow> f = 18 \<and> t = 4 - (m + 3) mod 4" for f t
    by (simp_all only: is_mandatory_bsch_def is_mandatory_bnch_def mk_time_def tdma_time.simps)
  have r: "1 \<le> 4 - x mod 4" "4 - x mod 4 \<le> 4" for x :: nat by auto
  show "\<exists>!t. 1 \<le> t \<and> t \<le> 4 \<and> is_mandatory_bsch (mk_time h m 18 t)"
    by (rule ex1I [of _ "4 - (m + 1) mod 4"]) (use r [of "m + 1"] in \<open>auto simp: defs\<close>)
  show "\<exists>!t. 1 \<le> t \<and> t \<le> 4 \<and> is_mandatory_bnch (mk_time h m 18 t)"
    by (rule ex1I [of _ "4 - (m + 3) mod 4"]) (use r [of "m + 3"] in \<open>auto simp: defs\<close>)
  have "4 - (m + 1) mod 4 \<noteq> 4 - (m + 3) mod 4" by presburger
  then show "\<not> (is_mandatory_bsch (mk_time h m f t) \<and> is_mandatory_bnch (mk_time h m f t))"
    by (auto simp: defs)
qed (simp_all add: is_mandatory_bsch_def is_mandatory_bnch_def is_mandatory_clch_def mk_time_def)

text \<open>In frame 18 of every multiframe exactly one timeslot carries the mandatory BSCH and
  exactly one the mandatory BNCH, never the same one; in every other frame there is none. The
  uplink CLCH opportunity is on the BSCH slot.\<close>

lemma mandatory_broadcast_slots:
  assumes "1 \<le> m" and "m \<le> 60"
  shows "(\<exists>!t. 1 \<le> t \<and> t \<le> 4 \<and> is_mandatory_bsch (mk_time h m 18 t))
      \<and> (\<exists>!t. 1 \<le> t \<and> t \<le> 4 \<and> is_mandatory_bnch (mk_time h m 18 t))
      \<and> (\<not> (is_mandatory_bsch (mk_time h m f t) \<and> is_mandatory_bnch (mk_time h m f t)))
      \<and> (f \<noteq> 18 \<longrightarrow> \<not> is_mandatory_bsch (mk_time h m f t) \<and> \<not> is_mandatory_bnch (mk_time h m f t))
      \<and> (is_mandatory_clch (mk_time h m f t) = is_mandatory_bsch (mk_time h m f t))"
  by (intro conjI mandatory_broadcast_slots_parts [OF assms])

theorem mandatory_broadcast_slots_witness:
  "\<exists>!t. 1 \<le> t \<and> t \<le> 4 \<and> is_mandatory_bsch (mk_time 0 60 18 t)"
  by (rule mandatory_broadcast_slots [THEN conjunct1]) simp_all

end
