(* ===== verification/Timeslot_Alloc.thy ===== *)
theory Timeslot_Alloc
  imports Prelude
begin

text \<open>
  The traffic-timeslot allocator of \<^verbatim>\<open>crates/tetra-core/src/timeslot_alloc.rs\<close>: which owner
  holds each of the timeslots 2, 3 and 4 (index 0, 1, 2), which of them are fenced for common
  control, and whether voice has asked packet data to give up a bearer. Every method is one
  definition; a method that changes the allocator returns its result and the new state.

  The step relation \<open>alloc_step\<close> has one rule per mutating method and the lemmas about its
  reachable states say how ownership can change. The locale \<open>slot_allocator\<close> is the contract the
  circuit manager relies on.
\<close>

section \<open>State and operations\<close>

datatype timeslot_owner = Brew | Cmce | PacketData | CommonControl

datatype timeslot_alloc_err =
    InvalidTimeslot nat
  | InUse nat timeslot_owner
  | NotAllocated nat
  | OwnerMismatch nat timeslot_owner timeslot_owner

record timeslot_allocator =
  owners :: "timeslot_owner option list"
  packet_preemption_requested :: bool
  common_control_pending :: "bool list"

definition default_allocator :: timeslot_allocator where
  "default_allocator = \<lparr>owners = [None, None, None], packet_preemption_requested = False,
     common_control_pending = [False, False, False]\<rparr>"

definition idx :: "nat \<Rightarrow> timeslot_alloc_err + nat" where
  "idx ts = (if 2 \<le> ts \<and> ts \<le> 4 then Inr (ts - 2) else Inl (InvalidTimeslot ts))"

definition set_common_control_target :: "nat \<Rightarrow> timeslot_allocator \<Rightarrow> timeslot_allocator" where
  "set_common_control_target count a =
     a\<lparr>common_control_pending := map (\<lambda>index. index < min count 3) [0..<3]\<rparr>"

text \<open>The \<open>for\<close> loop of \<open>allocate_any\<close>: the first free slot that is not fenced.\<close>

fun first_free :: "nat \<Rightarrow> timeslot_owner option list \<Rightarrow> bool list \<Rightarrow> nat option" where
  "first_free i (s # ss) (p # ps) = (if s = None \<and> \<not> p then Some i else first_free (Suc i) ss ps)"
| "first_free i _ _ = None"

definition allocate_any :: "timeslot_owner \<Rightarrow> timeslot_allocator \<Rightarrow> nat option \<times> timeslot_allocator" where
  "allocate_any owner a =
     (case first_free 0 (owners a) (common_control_pending a) of
        Some i \<Rightarrow> (Some (i + 2), a\<lparr>owners := (owners a)[i := Some owner]\<rparr>)
      | None \<Rightarrow>
          if owner = Cmce \<and> Some PacketData \<in> set (owners a)
          then (None, a\<lparr>packet_preemption_requested := True\<rparr>)
          else (None, a))"

definition take_packet_preemption_request :: "timeslot_allocator \<Rightarrow> bool \<times> timeslot_allocator" where
  "take_packet_preemption_request a =
     (packet_preemption_requested a, a\<lparr>packet_preemption_requested := False\<rparr>)"

definition request_packet_preemption :: "timeslot_allocator \<Rightarrow> bool \<times> timeslot_allocator" where
  "request_packet_preemption a =
     (if Some PacketData \<in> set (owners a)
      then (True, a\<lparr>packet_preemption_requested := True\<rparr>) else (False, a))"

definition packet_slots :: "timeslot_allocator \<Rightarrow> nat list" where
  "packet_slots a = map (\<lambda>(i, ow). i + 2)
     (filter (\<lambda>(i, ow). ow = Some PacketData) (enumerate 0 (owners a)))"

definition reserve ::
  "timeslot_owner \<Rightarrow> nat \<Rightarrow> timeslot_allocator \<Rightarrow> (timeslot_alloc_err + unit) \<times> timeslot_allocator" where
  "reserve owner ts a =
     (case idx ts of
        Inl e \<Rightarrow> (Inl e, a)
      | Inr i \<Rightarrow>
          (case owners a ! i of
             None \<Rightarrow>
               if \<not> common_control_pending a ! i \<or> owner = CommonControl
               then (Inr (), a\<lparr>owners := (owners a)[i := Some owner]\<rparr>)
               else (Inl (InUse ts CommonControl), a)
           | Some existing \<Rightarrow> (Inl (InUse ts existing), a)))"

definition release ::
  "timeslot_owner \<Rightarrow> nat \<Rightarrow> timeslot_allocator \<Rightarrow> (timeslot_alloc_err + unit) \<times> timeslot_allocator" where
  "release owner ts a =
     (case idx ts of
        Inl e \<Rightarrow> (Inl e, a)
      | Inr i \<Rightarrow>
          (case owners a ! i of
             None \<Rightarrow> (Inl (NotAllocated ts), a)
           | Some existing \<Rightarrow>
               if existing \<noteq> owner then (Inl (OwnerMismatch ts owner existing), a)
               else (Inr (), a\<lparr>owners := (owners a)[i := None]\<rparr>)))"

definition slot_owner :: "timeslot_allocator \<Rightarrow> nat \<Rightarrow> timeslot_owner option" where
  "slot_owner a ts = (case idx ts of Inl e \<Rightarrow> None | Inr i \<Rightarrow> owners a ! i)"

definition is_free :: "timeslot_allocator \<Rightarrow> nat \<Rightarrow> bool" where
  "is_free a ts = (case idx ts of Inl e \<Rightarrow> False
     | Inr i \<Rightarrow> owners a ! i = None \<and> \<not> common_control_pending a ! i)"

text \<open>The array lengths are part of the Rust types.\<close>

definition alloc_wf :: "timeslot_allocator \<Rightarrow> bool" where
  "alloc_wf a \<longleftrightarrow> length (owners a) = 3 \<and> length (common_control_pending a) = 3"

definition fenced :: "timeslot_allocator \<Rightarrow> nat \<Rightarrow> bool" where
  "fenced a ts \<longleftrightarrow> 2 \<le> ts \<and> ts \<le> 4 \<and> common_control_pending a ! (ts - 2)"

section \<open>Well-formedness and the slot map\<close>

lemma slot_range_iff: "2 \<le> ts \<and> ts \<le> 4 \<longleftrightarrow> ts \<in> {2, 3, 4 :: nat}"
  by auto

lemma idx_simps [simp]:
  "2 \<le> ts \<Longrightarrow> ts \<le> 4 \<Longrightarrow> idx ts = Inr (ts - 2)"
  "\<not> (2 \<le> ts \<and> ts \<le> 4) \<Longrightarrow> idx ts = Inl (InvalidTimeslot ts)"
  by (auto simp: idx_def)

lemma alloc_wf_default [simp]: "alloc_wf default_allocator"
  by (simp add: alloc_wf_def default_allocator_def)

lemma first_free_Some:
  "first_free k ss ps = Some i \<Longrightarrow>
     k \<le> i \<and> i - k < length ss \<and> i - k < length ps \<and> ss ! (i - k) = None \<and> \<not> ps ! (i - k)
     \<and> (\<forall>j. k \<le> j \<longrightarrow> j < i \<longrightarrow> \<not> (ss ! (j - k) = None \<and> \<not> ps ! (j - k)))"
proof (induction k ss ps rule: first_free.induct)
  case (1 k s ss p ps)
  show ?case
  proof (cases "s = None \<and> \<not> p")
    case True
    with "1.prems" show ?thesis by auto
  next
    case False
    with 1 have IH: "Suc k \<le> i" "i - Suc k < length ss" "i - Suc k < length ps"
      "ss ! (i - Suc k) = None" "\<not> ps ! (i - Suc k)"
      "\<forall>j. Suc k \<le> j \<longrightarrow> j < i \<longrightarrow> \<not> (ss ! (j - Suc k) = None \<and> \<not> ps ! (j - Suc k))"
      by auto
    have "\<not> ((s # ss) ! (j - k) = None \<and> \<not> (p # ps) ! (j - k))" if "k \<le> j" "j < i" for j
      using that IH(6) False by (cases "j = k") (auto simp: nth_Cons' Suc_diff_le)
    with IH(1-5) show ?thesis by (auto simp: nth_Cons')
  qed
qed auto

lemma first_free_None:
  "\<lbrakk>first_free k ss ps = None; i < length ss; i < length ps\<rbrakk> \<Longrightarrow> \<not> (ss ! i = None \<and> \<not> ps ! i)"
proof (induction k ss ps arbitrary: i rule: first_free.induct)
  case (1 k s ss p ps)
  then show ?case by (cases i) (auto split: if_splits)
qed auto

lemma allocate_any_Some:
  assumes "alloc_wf a" and "allocate_any owner a = (Some ts, a')"
  shows "2 \<le> ts" "ts \<le> 4" "is_free a ts" "\<forall>ts'. 2 \<le> ts' \<longrightarrow> ts' < ts \<longrightarrow> \<not> is_free a ts'"
    "a' = a\<lparr>owners := (owners a)[ts - 2 := Some owner]\<rparr>"
proof -
  from assms(2) obtain i where i: "first_free 0 (owners a) (common_control_pending a) = Some i"
    and ts: "ts = i + 2" and a': "a' = a\<lparr>owners := (owners a)[i := Some owner]\<rparr>"
    by (auto simp: allocate_any_def split: option.splits if_splits)
  note ff = first_free_Some [OF i]
  from ff ts assms(1) show r: "2 \<le> ts" "ts \<le> 4" by (auto simp: alloc_wf_def)
  from ff ts r show "is_free a ts" by (simp add: is_free_def)
  show "\<forall>ts'. 2 \<le> ts' \<longrightarrow> ts' < ts \<longrightarrow> \<not> is_free a ts'"
  proof (intro allI impI)
    fix ts' assume "2 \<le> ts'" "ts' < ts"
    then show "\<not> is_free a ts'"
      using ff ts r by (auto simp: is_free_def dest: spec [of _ "ts' - 2"])
  qed
  from a' ts show "a' = a\<lparr>owners := (owners a)[ts - 2 := Some owner]\<rparr>" by simp
qed

lemma allocate_any_None:
  assumes "alloc_wf a" and "allocate_any owner a = (None, a')"
  shows "\<not> is_free a ts"
    "a' = (if owner = Cmce \<and> packet_slots a \<noteq> [] then a\<lparr>packet_preemption_requested := True\<rparr> else a)"
proof -
  from assms(2) have ff: "first_free 0 (owners a) (common_control_pending a) = None"
    by (auto simp: allocate_any_def split: option.splits)
  show "\<not> is_free a ts"
    using first_free_None [OF ff, of "ts - 2"] assms(1)
    by (auto simp: is_free_def idx_def alloc_wf_def)
  have "packet_slots a \<noteq> [] \<longleftrightarrow> Some PacketData \<in> snd ` set (enumerate 0 (owners a))"
    by (force simp: packet_slots_def filter_empty_conv)
  also have "snd ` set (enumerate 0 (owners a)) = set (owners a)"
    by (simp flip: set_map)
  finally have "packet_slots a \<noteq> [] \<longleftrightarrow> Some PacketData \<in> set (owners a)" .
  with assms(2) ff
  show "a' = (if owner = Cmce \<and> packet_slots a \<noteq> [] then a\<lparr>packet_preemption_requested := True\<rparr> else a)"
    by (auto simp: allocate_any_def split: if_splits)
qed

section \<open>Runs of the allocator\<close>

text \<open>One rule per method that changes the allocator, with any arguments.\<close>

inductive alloc_step :: "timeslot_allocator \<Rightarrow> timeslot_allocator \<Rightarrow> bool" where
  Allocate: "alloc_step a (snd (allocate_any ow a))"
| Reserve: "alloc_step a (snd (reserve ow ts a))"
| Release: "alloc_step a (snd (release ow ts a))"
| Target: "alloc_step a (set_common_control_target count a)"
| TakePreemption: "alloc_step a (snd (take_packet_preemption_request a))"
| RequestPreemption: "alloc_step a (snd (request_packet_preemption a))"

inductive alloc_reachable :: "timeslot_allocator \<Rightarrow> bool" where
  start: "alloc_reachable default_allocator"
| step: "alloc_reachable a \<Longrightarrow> alloc_step a b \<Longrightarrow> alloc_reachable b"

inductive_cases alloc_stepE: "alloc_step a b"

lemma snd_allocate_any_owners:
  assumes "alloc_wf a"
  shows "owners (snd (allocate_any ow a)) = owners a
     \<or> (\<exists>i<3. owners a ! i = None \<and> \<not> common_control_pending a ! i
          \<and> owners (snd (allocate_any ow a)) = (owners a)[i := Some ow])"
proof (cases "allocate_any ow a")
  case (Pair r a')
  show ?thesis
  proof (cases r)
    case None
    with Pair allocate_any_None(2) [OF assms, of ow a'] show ?thesis by auto
  next
    case (Some ts)
    note S = allocate_any_Some [OF assms, of ow ts a']
    have "ts - 2 < 3" using S(1,2) Pair Some by auto
    then show ?thesis
      using S Pair Some by (intro disjI2 exI [of _ "ts - 2"]) (auto simp: is_free_def)
  qed
qed

lemma alloc_step_wf: "alloc_step a b \<Longrightarrow> alloc_wf a \<Longrightarrow> alloc_wf b"
  by (induction rule: alloc_step.induct)
     (auto simp: alloc_wf_def allocate_any_def reserve_def release_def set_common_control_target_def
        take_packet_preemption_request_def request_packet_preemption_def split: sum.splits option.splits)

lemma alloc_reachable_wf: "alloc_reachable a \<Longrightarrow> alloc_wf a"
  by (induction rule: alloc_reachable.induct) (auto intro: alloc_step_wf)

text \<open>What one step can do to the owner of one slot.\<close>

lemma alloc_step_owner:
  assumes "alloc_wf a" and "alloc_step a b" and "2 \<le> ts" and "ts \<le> 4"
  shows "slot_owner b ts = slot_owner a ts
     \<or> (slot_owner a ts = None \<and> (\<exists>ow. slot_owner b ts = Some ow \<and> (fenced a ts \<longrightarrow> ow = CommonControl)))
     \<or> (\<exists>ow. slot_owner a ts = Some ow \<and> slot_owner b ts = None \<and> b = snd (release ow ts a))"
  using assms(2)
proof (cases rule: alloc_step.cases)
  case (Allocate ow)
  then show ?thesis
    using snd_allocate_any_owners [OF assms(1), of ow] assms
    by (auto simp: slot_owner_def fenced_def alloc_wf_def nth_list_update split: if_splits)
next
  case (Reserve ow ts')
  then show ?thesis
    using assms by (auto simp: reserve_def slot_owner_def fenced_def alloc_wf_def nth_list_update idx_def
        split: sum.splits option.splits if_splits)
next
  case (Release ow ts')
  show ?thesis
  proof (cases "ts' = ts")
    case True
    then show ?thesis
      using Release assms
      by (auto simp: release_def slot_owner_def alloc_wf_def nth_list_update split: option.splits)
  next
    case False
    then have "slot_owner b ts = slot_owner a ts"
      using Release assms
      by (auto simp: release_def slot_owner_def idx_def alloc_wf_def nth_list_update split: option.splits)
    then show ?thesis ..
  qed
qed (auto simp: set_common_control_target_def take_packet_preemption_request_def
    request_packet_preemption_def slot_owner_def split: sum.splits)

section \<open>The contract of the allocator\<close>

text \<open>
  What a client that asks for any free slot relies on. \<open>free\<close> and \<open>owner_of\<close> describe a
  slot; \<open>alloc\<close> takes a slot, \<open>rel\<close> gives it back.
\<close>

locale slot_allocator =
  fixes inv :: "'a \<Rightarrow> bool"
    and alloc :: "'o \<Rightarrow> 'a \<Rightarrow> nat option \<times> 'a"
    and rel :: "'o \<Rightarrow> nat \<Rightarrow> 'a \<Rightarrow> bool \<times> 'a"
    and owner_of :: "'a \<Rightarrow> nat \<Rightarrow> 'o option"
  assumes inv_alloc: "inv a \<Longrightarrow> inv (snd (alloc ow a))"
    and inv_rel: "inv a \<Longrightarrow> inv (snd (rel ow ts a))"
    and alloc_traffic: "\<lbrakk>inv a; fst (alloc ow a) = Some ts\<rbrakk> \<Longrightarrow> ts \<in> {2, 3, 4}"
    and alloc_was_free: "\<lbrakk>inv a; fst (alloc ow a) = Some ts\<rbrakk> \<Longrightarrow> owner_of a ts = None"
    and alloc_owner: "\<lbrakk>inv a; fst (alloc ow a) = Some ts\<rbrakk> \<Longrightarrow> owner_of (snd (alloc ow a)) ts = Some ow"
    and alloc_other: "\<lbrakk>inv a; fst (alloc ow a) \<noteq> Some ts'\<rbrakk> \<Longrightarrow> owner_of (snd (alloc ow a)) ts' = owner_of a ts'"
    and rel_ok: "inv a \<Longrightarrow> fst (rel ow ts a) \<longleftrightarrow> owner_of a ts = Some ow"
    and rel_owner: "inv a \<Longrightarrow> owner_of (snd (rel ow ts a)) ts' =
           (if ts' = ts \<and> owner_of a ts = Some ow then None else owner_of a ts')"
begin

lemma alloc_distinct:
  assumes "inv a" and "fst (alloc o1 a) = Some t1" and "fst (alloc o2 (snd (alloc o1 a))) = Some t2"
  shows "t1 \<noteq> t2"
  using assms inv_alloc alloc_owner alloc_was_free by (metis option.distinct(1))

lemma alloc_rel_roundtrip:
  assumes "inv a" and "fst (alloc ow a) = Some ts"
  shows "fst (rel ow ts (snd (alloc ow a)))"
    and "owner_of (snd (rel ow ts (snd (alloc ow a)))) = owner_of a"
proof -
  have i: "inv (snd (alloc ow a))" using assms(1) by (rule inv_alloc)
  show "fst (rel ow ts (snd (alloc ow a)))"
    using rel_ok [OF i] alloc_owner [OF assms] by simp
  show "owner_of (snd (rel ow ts (snd (alloc ow a)))) = owner_of a"
    using rel_owner [OF i] alloc_owner [OF assms] alloc_was_free [OF assms] alloc_other [OF assms(1), of ow] assms(2)
    by (intro ext) auto
qed

end

definition release_ok :: "timeslot_owner \<Rightarrow> nat \<Rightarrow> timeslot_allocator \<Rightarrow> bool \<times> timeslot_allocator" where
  "release_ok ow ts a = (case release ow ts a of (r, a') \<Rightarrow> (r = Inr (), a'))"

interpretation ta: slot_allocator alloc_wf allocate_any release_ok slot_owner
proof unfold_locales
  fix a ow ts ts'
  assume wf: "alloc_wf a"
  show "alloc_wf (snd (allocate_any ow a))"
    by (rule alloc_step_wf [OF alloc_step.Allocate wf])
  show "alloc_wf (snd (release_ok ow ts a))"
    using alloc_step_wf [OF alloc_step.Release wf, of ow ts] by (auto simp: release_ok_def split: prod.split)
  show "fst (release_ok ow ts a) \<longleftrightarrow> slot_owner a ts = Some ow"
    by (auto simp: release_ok_def release_def slot_owner_def split: sum.splits option.splits)
  show "slot_owner (snd (release_ok ow ts a)) ts' =
      (if ts' = ts \<and> slot_owner a ts = Some ow then None else slot_owner a ts')"
    using wf by (auto simp: release_ok_def release_def slot_owner_def idx_def alloc_wf_def nth_list_update
        split: option.splits)
next
  fix a ow ts
  assume wf: "alloc_wf a" and r: "fst (allocate_any ow a) = Some ts"
  then have e: "allocate_any ow a = (Some ts, snd (allocate_any ow a))" by (simp add: prod_eq_iff)
  note S = allocate_any_Some [OF wf e]
  show "ts \<in> {2, 3, 4}" using S(1,2) by auto
  show "slot_owner a ts = None" using S(1-3) by (simp add: is_free_def slot_owner_def)
  show "slot_owner (snd (allocate_any ow a)) ts = Some ow"
    using S wf by (simp add: slot_owner_def alloc_wf_def)
next
  fix a ow ts'
  assume wf: "alloc_wf a" and r: "fst (allocate_any ow a) \<noteq> Some ts'"
  show "slot_owner (snd (allocate_any ow a)) ts' = slot_owner a ts'"
  proof (cases "allocate_any ow a")
    case (Pair q a')
    then show ?thesis
    proof (cases q)
      case None
      with Pair allocate_any_None(2) [OF wf, of ow a'] show ?thesis
        by (simp add: slot_owner_def split: sum.split)
    next
      case (Some ts)
      with Pair r have "ts \<noteq> ts'" by simp
      with Some Pair allocate_any_Some [OF wf, of ow ts a'] wf show ?thesis
        by (auto simp: slot_owner_def idx_def alloc_wf_def nth_list_update)
    qed
  qed
qed

section \<open>Properties of the allocator\<close>

lemma allocate_any_correct_parts:
  assumes "alloc_wf a" and "allocate_any ow a = (r, a')"
  shows "r = (if \<exists>ts. is_free a ts then Some (LEAST ts. is_free a ts) else None)"
    and "slot_owner a' ts = (if r = Some ts then Some ow else slot_owner a ts)"
    and "packet_preemption_requested a' \<longleftrightarrow>
           packet_preemption_requested a \<or> (r = None \<and> ow = Cmce \<and> packet_slots a \<noteq> [])"
proof -
  have "(\<exists>ts. is_free a ts) \<and> r = Some (LEAST ts. is_free a ts) \<or> (\<nexists>ts. is_free a ts) \<and> r = None"
  proof (cases r)
    case None
    then show ?thesis using allocate_any_None(1) [OF assms(1)] assms(2) by auto
  next
    case (Some t)
    note S = allocate_any_Some [OF assms(1), of ow t a']
    have "t = (LEAST ts. is_free a ts)"
    proof (rule Least_equality [symmetric])
      show "is_free a t" using S assms(2) Some by simp
      fix y assume y: "is_free a y"
      then have "2 \<le> y" by (auto simp: is_free_def idx_def split: if_splits)
      then show "t \<le> y" using S(4) assms(2) Some y by (meson not_le)
    qed
    then show ?thesis using S(3) assms(2) Some by auto
  qed
  then show "r = (if \<exists>ts. is_free a ts then Some (LEAST ts. is_free a ts) else None)" by auto
  show "slot_owner a' ts = (if r = Some ts then Some ow else slot_owner a ts)"
    using ta.alloc_owner [OF assms(1), of ow ts] ta.alloc_other [OF assms(1), of ow ts] assms(2) by auto
  show "packet_preemption_requested a' \<longleftrightarrow>
      packet_preemption_requested a \<or> (r = None \<and> ow = Cmce \<and> packet_slots a \<noteq> [])"
    using allocate_any_None(2) [OF assms(1), of ow a'] allocate_any_Some(5) [OF assms(1), of ow _ a'] assms(2)
    by (cases r) auto
qed

text \<open>Allocation takes the lowest timeslot that is free and not fenced for common control,
  gives it to the caller and changes no other slot; it fails exactly when there is no such
  slot, and then only a CMCE request while packet data holds a slot raises the preemption
  flag.\<close>

lemma allocate_any_correct:
  assumes "alloc_wf a" and "allocate_any ow a = (r, a')"
  shows "(r = (if \<exists>ts. is_free a ts then Some (LEAST ts. is_free a ts) else None))
      \<and> (slot_owner a' ts = (if r = Some ts then Some ow else slot_owner a ts))
      \<and> (packet_preemption_requested a' \<longleftrightarrow>
           packet_preemption_requested a \<or> (r = None \<and> ow = Cmce \<and> packet_slots a \<noteq> []))"
  using allocate_any_correct_parts [OF assms] by blast

theorem allocate_any_correct_witness:
  "fst (allocate_any Brew (set_common_control_target 2 default_allocator)) = Some 4
   \<and> slot_owner (snd (allocate_any Brew (set_common_control_target 2 default_allocator))) 4 = Some Brew"
proof -
  define a where "a = set_common_control_target 2 default_allocator"
  have a: "a = \<lparr>owners = [None, None, None], packet_preemption_requested = False,
      common_control_pending = [True, True, False]\<rparr>"
    by (simp add: a_def set_common_control_target_def default_allocator_def upt_rec)
  have wf: "alloc_wf a" by (simp add: a alloc_wf_def)
  have r: "allocate_any Brew a = (Some 4, a\<lparr>owners := [None, None, Some Brew]\<rparr>)"
    by (simp add: a allocate_any_def numeral_2_eq_2)
  show ?thesis
    using allocate_any_correct [THEN conjunct2, THEN conjunct1, OF wf r, of 4] by (simp add: r flip: a_def)
qed

text \<open>C9: ownership is exclusive along every run of the allocator: between two consecutive states the
  owner of a traffic slot either stays, or goes from nobody to a new owner (only common control
  where the slot is fenced), or is given up by a \<open>release\<close> of exactly that owner. A slot is never
  handed over or taken away.\<close>

theorem slot_ownership_exclusive:
  assumes "alloc_reachable a" and "alloc_step a b" and "2 \<le> ts" and "ts \<le> 4"
  shows "slot_owner b ts = slot_owner a ts
     \<or> (slot_owner a ts = None \<and> (\<exists>ow. slot_owner b ts = Some ow \<and> (fenced a ts \<longrightarrow> ow = CommonControl)))
     \<or> (\<exists>ow. slot_owner a ts = Some ow \<and> slot_owner b ts = None \<and> b = snd (release ow ts a))"
  by (rule alloc_step_owner [OF alloc_reachable_wf [OF assms(1)] assms(2-4)])

theorem slot_ownership_exclusive_witness:
  "alloc_reachable default_allocator \<and> alloc_step default_allocator (snd (reserve Cmce 2 default_allocator))
   \<and> slot_owner (snd (reserve Cmce 2 default_allocator)) 2 = Some Cmce"
proof -
  have s: "alloc_step default_allocator (snd (reserve Cmce 2 default_allocator))"
    by (rule alloc_step.Reserve)
  have "slot_owner (snd (reserve Cmce 2 default_allocator)) 2 \<noteq> slot_owner default_allocator 2"
    and "slot_owner (snd (reserve Cmce 2 default_allocator)) 2 \<noteq> None"
    and "slot_owner (snd (reserve Cmce 2 default_allocator)) 2 = Some Cmce"
    by (simp_all add: reserve_def slot_owner_def default_allocator_def)
  then show ?thesis
    using slot_ownership_exclusive [OF alloc_reachable.start s, of 2] alloc_reachable.start s by auto
qed

lemma reserve_release_results_parts:
  assumes "alloc_wf a"
  shows "fst (reserve ow ts a) = (if ts < 2 \<or> 4 < ts then Inl (InvalidTimeslot ts)
      else case slot_owner a ts of Some ex \<Rightarrow> Inl (InUse ts ex)
        | None \<Rightarrow> if fenced a ts \<and> ow \<noteq> CommonControl then Inl (InUse ts CommonControl) else Inr ())"
    and "fst (release ow ts a) = (if ts < 2 \<or> 4 < ts then Inl (InvalidTimeslot ts)
      else case slot_owner a ts of None \<Rightarrow> Inl (NotAllocated ts)
        | Some ex \<Rightarrow> if ex \<noteq> ow then Inl (OwnerMismatch ts ow ex) else Inr ())"
    and "fst (reserve ow ts a) \<noteq> Inr () \<longrightarrow> snd (reserve ow ts a) = a"
    and "fst (release ow ts a) \<noteq> Inr () \<longrightarrow> snd (release ow ts a) = a"
    and "fst (reserve ow ts a) = Inr () \<longrightarrow> fst (release ow ts (snd (reserve ow ts a))) = Inr ()
           \<and> snd (release ow ts (snd (reserve ow ts a))) = a"
proof -
  show "fst (reserve ow ts a) = (if ts < 2 \<or> 4 < ts then Inl (InvalidTimeslot ts)
      else case slot_owner a ts of Some ex \<Rightarrow> Inl (InUse ts ex)
        | None \<Rightarrow> if fenced a ts \<and> ow \<noteq> CommonControl then Inl (InUse ts CommonControl) else Inr ())"
    by (auto simp: reserve_def slot_owner_def fenced_def idx_def split: option.splits)
  show "fst (release ow ts a) = (if ts < 2 \<or> 4 < ts then Inl (InvalidTimeslot ts)
      else case slot_owner a ts of None \<Rightarrow> Inl (NotAllocated ts)
        | Some ex \<Rightarrow> if ex \<noteq> ow then Inl (OwnerMismatch ts ow ex) else Inr ())"
    by (auto simp: release_def slot_owner_def idx_def split: option.splits)
  show "fst (reserve ow ts a) \<noteq> Inr () \<longrightarrow> snd (reserve ow ts a) = a"
    by (auto simp: reserve_def split: sum.splits option.splits)
  show "fst (release ow ts a) \<noteq> Inr () \<longrightarrow> snd (release ow ts a) = a"
    by (auto simp: release_def split: sum.splits option.splits)
  show "fst (reserve ow ts a) = Inr () \<longrightarrow> fst (release ow ts (snd (reserve ow ts a))) = Inr ()
      \<and> snd (release ow ts (snd (reserve ow ts a))) = a"
    using assms by (auto simp: reserve_def release_def idx_def alloc_wf_def nth_list_update list_update_same_conv
        split: option.splits if_splits)
qed

text \<open>\<open>reserve\<close> and \<open>release\<close> report every failure and then leave the allocator as it was:
  an invalid slot number, a slot in use or fenced, a slot nobody holds, a slot somebody else
  holds. A release after a successful reserve restores every owner.\<close>

lemma reserve_release_results:
  assumes "alloc_wf a"
  shows "(fst (reserve ow ts a) = (if ts < 2 \<or> 4 < ts then Inl (InvalidTimeslot ts)
      else case slot_owner a ts of Some ex \<Rightarrow> Inl (InUse ts ex)
        | None \<Rightarrow> if fenced a ts \<and> ow \<noteq> CommonControl then Inl (InUse ts CommonControl) else Inr ()))
      \<and> (fst (release ow ts a) = (if ts < 2 \<or> 4 < ts then Inl (InvalidTimeslot ts)
      else case slot_owner a ts of None \<Rightarrow> Inl (NotAllocated ts)
        | Some ex \<Rightarrow> if ex \<noteq> ow then Inl (OwnerMismatch ts ow ex) else Inr ()))
      \<and> (fst (reserve ow ts a) \<noteq> Inr () \<longrightarrow> snd (reserve ow ts a) = a)
      \<and> (fst (release ow ts a) \<noteq> Inr () \<longrightarrow> snd (release ow ts a) = a)
      \<and> (fst (reserve ow ts a) = Inr () \<longrightarrow> fst (release ow ts (snd (reserve ow ts a))) = Inr ()
           \<and> snd (release ow ts (snd (reserve ow ts a))) = a)"
  using reserve_release_results_parts [OF assms] by blast

theorem reserve_release_results_witness:
  "fst (reserve Cmce 3 default_allocator) = Inr ()
   \<and> snd (release Cmce 3 (snd (reserve Cmce 3 default_allocator))) = default_allocator"
  using reserve_release_results [THEN conjunct1, OF alloc_wf_default, of Cmce 3] reserve_release_results [THEN conjunct2, THEN conjunct2, THEN conjunct2, THEN conjunct2, OF alloc_wf_default, of Cmce 3]
  by (simp add: slot_owner_def default_allocator_def fenced_def)

end
