(* ===== verification/Tx_Receipt.thy ===== *)
theory Tx_Receipt
  imports Prelude
begin

text \<open>
  The transmit receipts of \<^verbatim>\<open>crates/tetra-core/src/tx_receipt.rs\<close>. A \<open>TxReporter\<close> holds a flag
  and an \<open>Arc<AtomicU8>\<close> that all its clones share, so the shared cells are an explicit store: a
  list of raw state bytes indexed by cell number. An operation takes the store and returns the
  new one; \<open>None\<close> is the panic of a failed \<open>compare_exchange\<close> or \<open>assert!\<close>.

  \<open>tx_step\<close> is one operation by any holder of any clone, in any order; the invariant of its
  reachable states relates the flags of the reporters to the bytes in the cells.
\<close>

section \<open>State and operations\<close>

datatype tx_state = Pending | Discarded | Transmitted | Lost | Acknowledged

fun tx_raw :: "tx_state \<Rightarrow> nat" where
  "tx_raw Pending = 0"
| "tx_raw Discarded = 1"
| "tx_raw Transmitted = 2"
| "tx_raw Lost = 3"
| "tx_raw Acknowledged = 4"

definition from_raw :: "nat \<Rightarrow> tx_state" where
  "from_raw v = (if v = 0 then Pending else if v = 1 then Discarded else if v = 2 then Transmitted
     else if v = 3 then Lost else Acknowledged)"

record tx_reporter =
  expects_ack :: bool
  cell :: nat

type_synonym tx_store = "nat list"

definition new_reporter :: "tx_store \<Rightarrow> tx_reporter \<times> tx_store" where
  "new_reporter st = (\<lparr>expects_ack = True, cell = length st\<rparr>, st @ [tx_raw Pending])"

definition new_unacked :: "tx_store \<Rightarrow> tx_reporter \<times> tx_store" where
  "new_unacked st = (case new_reporter st of (r, st') \<Rightarrow> (r\<lparr>expects_ack := False\<rparr>, st'))"

definition get_state :: "tx_store \<Rightarrow> tx_reporter \<Rightarrow> tx_state" where
  "get_state st r = from_raw (st ! cell r)"

definition is_discarded :: "tx_store \<Rightarrow> tx_reporter \<Rightarrow> bool" where
  "is_discarded st r \<longleftrightarrow> st ! cell r = tx_raw Discarded"

definition is_transmitted :: "tx_store \<Rightarrow> tx_reporter \<Rightarrow> bool" where
  "is_transmitted st r \<longleftrightarrow> st ! cell r \<ge> tx_raw Transmitted"

definition is_acknowledged :: "tx_store \<Rightarrow> tx_reporter \<Rightarrow> bool" where
  "is_acknowledged st r \<longleftrightarrow> st ! cell r \<ge> tx_raw Acknowledged"

definition is_in_final_state :: "tx_store \<Rightarrow> tx_reporter \<Rightarrow> bool" where
  "is_in_final_state st r = (case get_state st r of
       Pending \<Rightarrow> False | Discarded \<Rightarrow> True | Transmitted \<Rightarrow> \<not> expects_ack r
     | Lost \<Rightarrow> True | Acknowledged \<Rightarrow> True)"

definition mark :: "tx_state \<Rightarrow> tx_state \<Rightarrow> tx_reporter \<Rightarrow> tx_store \<Rightarrow> tx_store option" where
  "mark curr_state new_state r st =
     (if st ! cell r = tx_raw curr_state then Some (st[cell r := tx_raw new_state]) else None)"

definition mark_unchecked :: "tx_state \<Rightarrow> tx_reporter \<Rightarrow> tx_store \<Rightarrow> tx_store" where
  "mark_unchecked new_state r st = st[cell r := tx_raw new_state]"

definition mark_transmitted :: "tx_reporter \<Rightarrow> tx_store \<Rightarrow> tx_store option" where
  "mark_transmitted r st = mark Pending Transmitted r st"

definition mark_discarded :: "tx_reporter \<Rightarrow> tx_store \<Rightarrow> tx_store option" where
  "mark_discarded r st = mark Pending Discarded r st"

definition mark_acknowledged :: "tx_reporter \<Rightarrow> tx_store \<Rightarrow> tx_store option" where
  "mark_acknowledged r st =
     do { guard (expects_ack r); mark Transmitted Acknowledged r st }"

definition mark_lost :: "tx_reporter \<Rightarrow> tx_store \<Rightarrow> tx_store option" where
  "mark_lost r st = do { guard (expects_ack r); mark Transmitted Lost r st }"

definition reset :: "tx_reporter \<Rightarrow> tx_store \<Rightarrow> tx_store" where
  "reset r st = mark_unchecked Pending r st"

section \<open>Runs over shared receipts\<close>

text \<open>
  A system is the store and the reporters handed out so far (cloning a reporter yields an
  equal one, so the list records each kind once per creation). \<open>Mark\<close> is any of the four \<open>mark_*\<close>
  methods that does not panic.
\<close>

inductive marks :: "tx_reporter \<Rightarrow> tx_store \<Rightarrow> tx_store \<Rightarrow> bool" where
  "mark_transmitted r st = Some st' \<Longrightarrow> marks r st st'"
| "mark_discarded r st = Some st' \<Longrightarrow> marks r st st'"
| "mark_acknowledged r st = Some st' \<Longrightarrow> marks r st st'"
| "mark_lost r st = Some st' \<Longrightarrow> marks r st st'"

inductive_simps marks_iff: "marks r st st'"

inductive tx_step :: "tx_reporter list \<times> tx_store \<Rightarrow> tx_reporter list \<times> tx_store \<Rightarrow> bool" where
  New: "new_reporter st = (r, st') \<Longrightarrow> tx_step (rs, st) (r # rs, st')"
| NewUnacked: "new_unacked st = (r, st') \<Longrightarrow> tx_step (rs, st) (r # rs, st')"
| Mark: "r \<in> set rs \<Longrightarrow> marks r st st' \<Longrightarrow> tx_step (rs, st) (rs, st')"
| Reset: "r \<in> set rs \<Longrightarrow> tx_step (rs, st) (rs, reset r st)"

inductive tx_reachable :: "tx_reporter list \<times> tx_store \<Rightarrow> bool" where
  start: "tx_reachable ([], [])"
| step: "tx_reachable s \<Longrightarrow> tx_step s s' \<Longrightarrow> tx_reachable s'"

definition tx_inv :: "tx_reporter list \<times> tx_store \<Rightarrow> bool" where
  "tx_inv s = (case s of (rs, st) \<Rightarrow>
     (\<forall>r \<in> set rs. cell r < length st \<and> st ! cell r \<le> 4
        \<and> (\<not> expects_ack r \<longrightarrow> st ! cell r \<le> 2))
     \<and> (\<forall>r \<in> set rs. \<forall>q \<in> set rs. cell r = cell q \<longrightarrow> r = q))"

text \<open>The documented diagram of the receipt, as a relation on states.\<close>

inductive tx_diagram :: "bool \<Rightarrow> tx_state \<Rightarrow> tx_state \<Rightarrow> bool" where
  "tx_diagram ack Pending Transmitted"
| "tx_diagram ack Pending Discarded"
| "tx_diagram True Transmitted Acknowledged"
| "tx_diagram True Transmitted Lost"

inductive_simps tx_diagram_iff: "tx_diagram ack s s'"

lemma from_raw_tx_raw [simp]: "from_raw (tx_raw s) = s"
  by (cases s) (simp_all add: from_raw_def)

lemma tx_raw_from_raw [simp]: "v \<le> 4 \<Longrightarrow> tx_raw (from_raw v) = v"
  by (auto simp: from_raw_def)

lemma tx_raw_inj [simp]: "tx_raw a = tx_raw b \<longleftrightarrow> a = b"
  by (metis from_raw_tx_raw)

lemmas mark_defs = mark_transmitted_def mark_discarded_def mark_acknowledged_def mark_lost_def

lemma guard_bind [simp]: "Option.bind (guard b) f = Some x \<longleftrightarrow> b \<and> f () = Some x"
  by (cases b) simp_all

lemma mark_Some [simp]:
  "mark a b r st = Some st' \<longleftrightarrow> st ! cell r = tx_raw a \<and> st' = st[cell r := tx_raw b]"
  by (auto simp: mark_def)

lemma marks_raw:
  assumes "marks r st st'" and "cell r < length st"
  shows "\<exists>s s'. tx_diagram (expects_ack r) s s' \<and> st ! cell r = tx_raw s \<and> st' = st[cell r := tx_raw s']"
  using assms(1) unfolding marks_iff mark_defs guard_bind mark_Some
  by (auto simp del: tx_raw.simps intro: tx_diagram.intros) (metis tx_diagram.intros)+

lemma tx_raw_le: "tx_raw s \<le> 4"
  by (cases s) simp_all

lemma tx_inv_step:
  assumes "tx_step s s'" and "tx_inv s"
  shows "tx_inv s'"
  using assms
proof (induction rule: tx_step.induct)
  case (Mark r rs st st')
  then have "cell r < length st" by (simp add: tx_inv_def)
  with Mark marks_raw obtain a b where ab: "tx_diagram (expects_ack r) a b"
    "st ! cell r = tx_raw a" "st' = st[cell r := tx_raw b]" by blast
  from ab(1) have "\<not> expects_ack r \<Longrightarrow> tx_raw b \<le> 2" by (auto simp: tx_diagram_iff)
  with Mark ab show ?case
    by (auto simp: tx_inv_def nth_list_update tx_raw_le)
next
  case (Reset r rs st)
  then show ?case by (auto simp: tx_inv_def reset_def mark_unchecked_def nth_list_update)
qed (auto simp: tx_inv_def new_reporter_def new_unacked_def nth_append)

lemma tx_inv_start: "tx_inv ([], [])"
  by (simp add: tx_inv_def)

lemma tx_inv_reachable: "tx_reachable s \<Longrightarrow> tx_inv s"
  by (induction rule: tx_reachable.induct) (auto simp: tx_inv_start intro: tx_inv_step)

section \<open>Properties of the receipts\<close>

lemma tx_receipt_protocol_parts:
  assumes "tx_reachable (rs, st)" and "r \<in> set rs"
  shows "marks r st st' \<longrightarrow> tx_diagram (expects_ack r) (get_state st r) (get_state st' r)
           \<and> (\<forall>q \<in> set rs. q \<noteq> r \<longrightarrow> get_state st' q = get_state st q)"
    and "\<not> expects_ack r \<longrightarrow> get_state st r \<in> {Pending, Discarded, Transmitted}"
    and "is_in_final_state st r \<longleftrightarrow> (\<nexists>st'. marks r st st')"
proof -
  have inv: "tx_inv (rs, st)" by (rule tx_inv_reachable [OF assms(1)])
  with assms(2) have c: "cell r < length st" "st ! cell r \<le> 4"
    and u: "\<not> expects_ack r \<Longrightarrow> st ! cell r \<le> 2"
    and d: "\<And>q. q \<in> set rs \<Longrightarrow> cell r = cell q \<Longrightarrow> r = q"
    by (auto simp: tx_inv_def)
  show "marks r st st' \<longrightarrow> tx_diagram (expects_ack r) (get_state st r) (get_state st' r)
      \<and> (\<forall>q \<in> set rs. q \<noteq> r \<longrightarrow> get_state st' q = get_state st q)"
  proof
    assume "marks r st st'"
    then obtain a b where "tx_diagram (expects_ack r) a b" "st ! cell r = tx_raw a"
      "st' = st[cell r := tx_raw b]"
      using marks_raw c(1) by blast
    then show "tx_diagram (expects_ack r) (get_state st r) (get_state st' r)
        \<and> (\<forall>q \<in> set rs. q \<noteq> r \<longrightarrow> get_state st' q = get_state st q)"
      using c(1) d by (auto simp: get_state_def nth_list_update)
  qed
  show "\<not> expects_ack r \<longrightarrow> get_state st r \<in> {Pending, Discarded, Transmitted}"
  proof
    assume "\<not> expects_ack r"
    then have "st ! cell r \<le> 2" by (rule u)
    then show "get_state st r \<in> {Pending, Discarded, Transmitted}"
      by (auto simp: get_state_def from_raw_def)
  qed
  have raw: "st ! cell r = tx_raw s \<longleftrightarrow> get_state st r = s" for s
    using c(2) by (auto simp: get_state_def)
  show "is_in_final_state st r \<longleftrightarrow> (\<nexists>st'. marks r st st')"
    by (cases "get_state st r"; cases "expects_ack r")
       (simp_all add: is_in_final_state_def marks_iff mark_defs raw ex_disj_distrib del: tx_raw.simps)
qed

text \<open>C10: in every run, a mark that does not panic moves the receipt along the documented diagram and
  touches no other receipt; a receipt of the unacknowledged service never becomes acknowledged or
  lost; and in a state that the code reports as final every mark panics, so it can only be
  left by a reset.\<close>

theorem tx_receipt_protocol:
  assumes "tx_reachable (rs, st)" and "r \<in> set rs"
  shows "(marks r st st' \<longrightarrow> tx_diagram (expects_ack r) (get_state st r) (get_state st' r)
           \<and> (\<forall>q \<in> set rs. q \<noteq> r \<longrightarrow> get_state st' q = get_state st q))
      \<and> (\<not> expects_ack r \<longrightarrow> get_state st r \<in> {Pending, Discarded, Transmitted})
      \<and> (is_in_final_state st r \<longleftrightarrow> (\<nexists>st'. marks r st st'))"
  using tx_receipt_protocol_parts [OF assms] by blast

theorem tx_receipt_protocol_witness:
  "tx_reachable ([\<lparr>expects_ack = False, cell = 0\<rparr>], [2])
   \<and> is_in_final_state [2] \<lparr>expects_ack = False, cell = 0\<rparr>
   \<and> (\<nexists>st'. marks \<lparr>expects_ack = False, cell = 0\<rparr> [2] st')"
proof -
  let ?r = "\<lparr>expects_ack = False, cell = 0\<rparr>"
  have "tx_reachable ([?r], [0])"
    by (rule tx_reachable.step [OF tx_reachable.start], rule tx_step.NewUnacked)
       (simp add: new_unacked_def new_reporter_def)
  then have r: "tx_reachable ([?r], [2])"
    by (rule tx_reachable.step, intro tx_step.Mark)
       (auto simp: marks_iff mark_transmitted_def mark_def)
  have "is_in_final_state [2] ?r"
    by (simp add: is_in_final_state_def get_state_def from_raw_def)
  with r tx_receipt_protocol [THEN conjunct2, THEN conjunct2, OF r, of ?r] show ?thesis by simp
qed

end
