(* ===== verification/Ssi_Ranges.thy ===== *)
theory Ssi_Ranges
  imports Prelude
begin

text \<open>
  The address ranges of \<^verbatim>\<open>crates/tetra-core/src/ranges.rs\<close>: a list of inclusive SSI ranges is
  sorted and checked once (\<open>from_vec_ssirange\<close>, \<open>None\<close> for a failed \<open>assert!\<close>) and then
  searched with an early exit (\<open>contains\<close>). SSIs are \<open>u32\<close>; the only arithmetic on them is the
  \<open>range.end + 1\<close> of the overlap check, whose wrap-around is written out.
\<close>

section \<open>Ranges\<close>

record ssi_range =
  range_start :: nat
  range_end :: nat

definition mk_range :: "nat \<Rightarrow> nat \<Rightarrow> ssi_range" where
  "mk_range s e = \<lparr>range_start = s, range_end = e\<rparr>"

text \<open>The sanity check over the sorted ranges, with its running lower bound.\<close>

fun check_ranges :: "nat \<Rightarrow> ssi_range list \<Rightarrow> bool" where
  "check_ranges lower_bound [] = True"
| "check_ranges lower_bound (r # rs) =
     (range_start r \<le> range_end r \<and> range_start r \<ge> lower_bound
      \<and> check_ranges ((range_end r + 1) mod 2 ^ 32) rs)"

definition from_vec_ssirange :: "ssi_range list \<Rightarrow> ssi_range list option" where
  "from_vec_ssirange ranges =
     (let sorted_ranges = sort_key range_start ranges
      in if check_ranges 0 sorted_ranges then Some sorted_ranges else None)"

definition from_vec_tuple :: "(nat \<times> nat) list \<Rightarrow> ssi_range list option" where
  "from_vec_tuple tuples = from_vec_ssirange (map (\<lambda>(s, e). mk_range s e) tuples)"

fun contains :: "ssi_range list \<Rightarrow> nat \<Rightarrow> bool" where
  "contains [] addr = False"
| "contains (r # rs) addr =
     (if addr \<ge> range_start r \<and> addr \<le> range_end r then True
      else if range_end r > addr then False
      else contains rs addr)"

definition covers :: "ssi_range \<Rightarrow> nat \<Rightarrow> bool" where
  "covers r addr \<longleftrightarrow> range_start r \<le> addr \<and> addr \<le> range_end r"

definition disjoint_ranges :: "ssi_range \<Rightarrow> ssi_range \<Rightarrow> bool" where
  "disjoint_ranges r q \<longleftrightarrow> (\<nexists>addr. covers r addr \<and> covers q addr)"

section \<open>Lookup and acceptance\<close>

lemma check_ranges_valid: "check_ranges lb rs \<Longrightarrow> r \<in> set rs \<Longrightarrow> range_start r \<le> range_end r"
  by (induction rs arbitrary: lb) auto

text \<open>The early exit is sound on any list sorted by start whose ranges are not empty.\<close>

lemma contains_iff:
  "\<lbrakk>sorted (map range_start rs); \<And>r. r \<in> set rs \<Longrightarrow> range_start r \<le> range_end r\<rbrakk>
   \<Longrightarrow> contains rs addr \<longleftrightarrow> (\<exists>r \<in> set rs. covers r addr)"
  by (induction rs) (force simp: covers_def)+

lemma disjoint_iff:
  "\<lbrakk>range_start r \<le> range_end r; range_start q \<le> range_end q; range_start r \<le> range_start q\<rbrakk>
   \<Longrightarrow> disjoint_ranges r q \<longleftrightarrow> range_end r < range_start q"
  by (auto simp: disjoint_ranges_def covers_def not_le dest: spec [of _ "range_start q"])

lemma disjoint_sym: "disjoint_ranges r q \<longleftrightarrow> disjoint_ranges q r"
  by (auto simp: disjoint_ranges_def)

lemma sorted_disjoint:
  assumes "sorted (map range_start rs)" and "\<forall>r \<in> set rs. range_start r \<le> range_end r"
  shows "sorted_wrt (\<lambda>r q. range_end r < range_start q) rs \<longleftrightarrow>
     distinct rs \<and> (\<forall>r \<in> set rs. \<forall>q \<in> set rs. r \<noteq> q \<longrightarrow> disjoint_ranges r q)"
  using assms
proof (induction rs)
  case (Cons r rs)
  have IH: "sorted_wrt (\<lambda>r q. range_end r < range_start q) rs \<longleftrightarrow>
      distinct rs \<and> (\<forall>r \<in> set rs. \<forall>q \<in> set rs. r \<noteq> q \<longrightarrow> disjoint_ranges r q)"
    using Cons by simp
  have a: "\<And>q. q \<in> set rs \<Longrightarrow> range_end r < range_start q \<longleftrightarrow> disjoint_ranges r q"
    using Cons.prems by (simp add: disjoint_iff)
  have "\<not> disjoint_ranges r r" using Cons.prems(2) by (simp add: disjoint_iff)
  then have b: "\<And>q. disjoint_ranges r q \<Longrightarrow> r \<noteq> q" by blast
  show ?case
    unfolding sorted_wrt.simps IH using a b disjoint_sym by auto blast
qed simp

lemma check_ranges_iff:
  assumes "sorted (map range_start rs)" and "\<And>r. r \<in> set rs \<Longrightarrow> range_end r + 1 < 2 ^ 32"
  shows "check_ranges lb rs \<longleftrightarrow> (\<forall>r \<in> set rs. range_start r \<le> range_end r \<and> lb \<le> range_start r)
     \<and> sorted_wrt (\<lambda>r q. range_end r < range_start q) rs"
  using assms
proof (induction rs arbitrary: lb)
  case (Cons r rs)
  have m: "(range_end r + 1) mod 2 ^ 32 = range_end r + 1" using Cons.prems(2) [of r] by simp
  have IH: "check_ranges (range_end r + 1) rs \<longleftrightarrow>
      (\<forall>q \<in> set rs. range_start q \<le> range_end q \<and> range_end r + 1 \<le> range_start q)
      \<and> sorted_wrt (\<lambda>r q. range_end r < range_start q) rs"
    using Cons by simp
  show ?case unfolding check_ranges.simps m IH using Cons.prems(1) by (auto simp: Suc_le_eq)
qed simp

section \<open>Properties of the ranges\<close>

text \<open>Once a list of ranges has been accepted, the lookup with its early exit answers exactly
  whether some range of the original, unsorted list covers the address.\<close>

lemma contains_correct:
  assumes "from_vec_ssirange rs = Some sr"
  shows "contains sr addr \<longleftrightarrow> (\<exists>r \<in> set rs. covers r addr)"
proof -
  from assms have sr: "sr = sort_key range_start rs" and ck: "check_ranges 0 sr"
    by (auto simp: from_vec_ssirange_def Let_def split: if_splits)
  have "contains sr addr \<longleftrightarrow> (\<exists>r \<in> set sr. covers r addr)"
    by (rule contains_iff) (use check_ranges_valid [OF ck] in \<open>simp_all add: sr\<close>)
  then show ?thesis by (simp add: sr)
qed

theorem contains_correct_witness:
  "from_vec_ssirange [mk_range 400 500, mk_range 100 200] = Some [mk_range 100 200, mk_range 400 500]
   \<and> contains [mk_range 100 200, mk_range 400 500] 450 \<and> \<not> contains [mk_range 100 200, mk_range 400 500] 250"
proof -
  have r: "from_vec_ssirange [mk_range 400 500, mk_range 100 200] = Some [mk_range 100 200, mk_range 400 500]"
    by (simp add: from_vec_ssirange_def mk_range_def)
  show ?thesis
    using r contains_correct [OF r, of 450] contains_correct [OF r, of 250]
    by (simp add: covers_def mk_range_def)
qed

text \<open>A list of ranges below the last SSI is accepted exactly when every range is well formed
  and no two of them overlap; otherwise construction panics.\<close>

lemma from_vec_accepts_disjoint:
  assumes "\<And>r. r \<in> set rs \<Longrightarrow> range_end r + 1 < 2 ^ 32"
  shows "from_vec_ssirange rs \<noteq> None \<longleftrightarrow>
     distinct rs \<and> (\<forall>r \<in> set rs. range_start r \<le> range_end r)
     \<and> (\<forall>r \<in> set rs. \<forall>q \<in> set rs. r \<noteq> q \<longrightarrow> disjoint_ranges r q)"
proof -
  define sr where "sr = sort_key range_start rs"
  have s: "sorted (map range_start sr)" "set sr = set rs" "distinct sr \<longleftrightarrow> distinct rs"
    by (simp_all add: sr_def)
  have "from_vec_ssirange rs \<noteq> None \<longleftrightarrow> check_ranges 0 sr"
    by (simp add: from_vec_ssirange_def sr_def Let_def)
  also have "\<dots> \<longleftrightarrow> (\<forall>r \<in> set rs. range_start r \<le> range_end r)
      \<and> sorted_wrt (\<lambda>r q. range_end r < range_start q) sr"
    using check_ranges_iff [OF s(1), of 0] assms s(2) by simp
  also have "\<dots> \<longleftrightarrow> distinct rs \<and> (\<forall>r \<in> set rs. range_start r \<le> range_end r)
      \<and> (\<forall>r \<in> set rs. \<forall>q \<in> set rs. r \<noteq> q \<longrightarrow> disjoint_ranges r q)"
    unfolding s(2) [symmetric] s(3) [symmetric] using sorted_disjoint [OF s(1)] by blast
  finally show ?thesis .
qed

theorem from_vec_accepts_disjoint_witness:
  "from_vec_ssirange [mk_range 100 200, mk_range 150 300] = None
   \<and> from_vec_ssirange [mk_range 100 199, mk_range 200 300] \<noteq> None"
proof -
  have o1: "\<not> disjoint_ranges (mk_range 100 200) (mk_range 150 300)"
    by (auto simp: disjoint_ranges_def covers_def mk_range_def intro: exI [of _ 150])
  have o2: "disjoint_ranges (mk_range 100 199) (mk_range 200 300)"
    "disjoint_ranges (mk_range 200 300) (mk_range 100 199)"
    by (auto simp: disjoint_ranges_def covers_def mk_range_def)
  have "from_vec_ssirange [mk_range 100 200, mk_range 150 300] = None"
    using from_vec_accepts_disjoint [of "[mk_range 100 200, mk_range 150 300]"] o1
    by (force simp: mk_range_def)
  moreover have "from_vec_ssirange [mk_range 100 199, mk_range 200 300] \<noteq> None"
    using from_vec_accepts_disjoint [of "[mk_range 100 199, mk_range 200 300]"] o2
    by (force simp: mk_range_def)
  ultimately show ?thesis by blast
qed

end
