(* ===== verification/Interleaver.thy ===== *)
theory Interleaver
  imports Prelude
begin

text \<open>
  The interleavers of \<^verbatim>\<open>crates/tetra-entities/src/lmac/components/interleaver.rs\<close>. Input and
  output are slices; the loops write into the given output and index with bounds checks. The
  index of the block interleaver is computed in \<open>u32\<close> with a wrapping multiplication, written
  out as remainders; a zero modulus panics.

  Both interleavers are copy loops, so the round trips are instances of \<open>copy_bij\<close>.
\<close>

section \<open>Operations\<close>

definition block_interl_func :: "nat \<Rightarrow> nat \<Rightarrow> nat \<Rightarrow> nat option" where
  "block_interl_func k a i = (if k = 0 then None else Some (1 + ((a * i) mod 2 ^ 32) mod k))"

definition block_interleave :: "nat \<Rightarrow> nat \<Rightarrow> 'a list \<Rightarrow> 'a list \<Rightarrow> 'a list option" where
  "block_interleave k a input output = do {
     guard (length input \<ge> k \<and> length output \<ge> k);
     for_loop [1..<k + 1] (\<lambda>i out. do {
       k' \<leftarrow> block_interl_func (k mod 2 ^ 32) (a mod 2 ^ 32) (i mod 2 ^ 32);
       v \<leftarrow> aget input (i - 1);
       aset out (k' - 1) v }) output }"

definition block_deinterleave :: "nat \<Rightarrow> nat \<Rightarrow> 'a list \<Rightarrow> 'a list \<Rightarrow> 'a list option" where
  "block_deinterleave k a input output = do {
     guard (length input \<ge> k \<and> length output \<ge> k);
     for_loop [1..<k + 1] (\<lambda>i out. do {
       k' \<leftarrow> block_interl_func (k mod 2 ^ 32) (a mod 2 ^ 32) (i mod 2 ^ 32);
       v \<leftarrow> aget input (k' - 1);
       aset out (i - 1) v }) output }"

definition matrix_interleave :: "nat \<Rightarrow> nat \<Rightarrow> 'a list \<Rightarrow> 'a list \<Rightarrow> 'a list option" where
  "matrix_interleave lines columns input output = do {
     guard (lines * columns < 2 ^ 64);
     guard (length input \<ge> lines * columns \<and> length output \<ge> lines * columns);
     for_loop [0..<columns] (\<lambda>i. for_loop [0..<lines] (\<lambda>j out. do {
       v \<leftarrow> aget input (j * columns + i);
       aset out (i * lines + j) v })) output }"

definition matrix_deinterleave :: "nat \<Rightarrow> nat \<Rightarrow> 'a list \<Rightarrow> 'a list \<Rightarrow> 'a list option" where
  "matrix_deinterleave lines columns input output = do {
     guard (lines * columns < 2 ^ 64);
     guard (length input \<ge> lines * columns \<and> length output \<ge> lines * columns);
     for_loop [0..<columns] (\<lambda>i. for_loop [0..<lines] (\<lambda>j out. do {
       v \<leftarrow> aget input (i * lines + j);
       aset out (j * columns + i) v })) output }"

section \<open>The block interleaver as a copy loop\<close>

definition block_index :: "nat \<Rightarrow> nat \<Rightarrow> nat \<Rightarrow> nat" where
  "block_index k a i = (a * i) mod k"

lemma block_index_inj:
  assumes "coprime a k"
  shows "inj_on (block_index k a) {1..<k + 1}"
proof (rule inj_onI)
  fix i j :: nat
  assume "i \<in> {1..<k + 1}" "j \<in> {1..<k + 1}" "block_index k a i = block_index k a j"
  then have ij: "1 \<le> i" "i \<le> k" "1 \<le> j" "j \<le> k" "(a * i) mod k = (a * j) mod k"
    by (auto simp: block_index_def)
  have "int k dvd int (a * i) - int (a * j)"
    using ij(5) by (metis mod_eq_dvd_iff of_nat_mod)
  then have "int k dvd int a * (int i - int j)" by (simp add: algebra_simps)
  moreover have "coprime (int k) (int a)" using assms by (simp add: coprime_commute)
  ultimately have "int k dvd int i - int j" by (simp add: coprime_dvd_mult_right_iff)
  moreover have "\<bar>int i - int j\<bar> < int k" using ij by auto
  ultimately show "i = j"
    using dvd_imp_le_int [of "int i - int j" "int k"] by auto
qed

lemma block_copy_bij:
  assumes "coprime a k"
  shows "copy_bij [1..<k + 1] (\<lambda>i. i - 1) (block_index k a) k k"
proof
  show "inj_on (\<lambda>i. i - 1) (set [1..<k + 1])" by (auto simp: inj_on_def)
  show "inj_on (block_index k a) (set [1..<k + 1])"
    using block_index_inj [OF assms] by (simp only: set_upt)
  show "i - 1 < k" if "i \<in> set [1..<k + 1]" for i using that by auto
  show "block_index k a i < k" if "i \<in> set [1..<k + 1]" for i using that by (auto simp: block_index_def)
  show "p \<in> (\<lambda>i. i - 1) ` set [1..<k + 1]" if "p < k" for p
    using that by (intro image_eqI [of _ _ "Suc p"]) auto
qed

text \<open>Below the wrap of the \<open>u32\<close> product, the loops are the copy loops of that pair.\<close>

lemma block_interl_func_small:
  assumes "a * k < 2 ^ 32" and "0 < a" and "i \<in> set [1..<k + 1]"
  shows "block_interl_func (k mod 2 ^ 32) (a mod 2 ^ 32) (i mod 2 ^ 32) = Some (1 + block_index k a i)"
proof -
  have i: "1 \<le> i" "i \<le> k" using assms(3) by auto
  then have "a * i \<le> a * k" and "a * 1 \<le> a * i" and "1 * k \<le> a * k"
    using assms(2) by (simp_all only: mult_le_mono Suc_leI One_nat_def le_refl)
  then have "a * i < 2 ^ 32" "a < 2 ^ 32" "k < 2 ^ 32" "i < 2 ^ 32"
    using assms(1) i by linarith+
  then show ?thesis using i by (simp add: block_interl_func_def block_index_def)
qed

lemma block_interleave_copy:
  assumes "coprime a k" and "0 < a" and "a * k < 2 ^ 32" and "k \<le> length inp" and "k \<le> length out"
  shows "block_interleave k a inp out
     = Some (copy_fold [1..<k + 1] (\<lambda>i. i - 1) (block_index k a) inp out)"
proof -
  have "for_loop [1..<k + 1] (\<lambda>i out. do {
       k' \<leftarrow> block_interl_func (k mod 2 ^ 32) (a mod 2 ^ 32) (i mod 2 ^ 32);
       v \<leftarrow> aget inp (i - 1);
       aset out (k' - 1) v }) out
    = for_loop [1..<k + 1] (\<lambda>i o'. do { v \<leftarrow> aget inp (i - 1); aset o' (block_index k a i) v }) out"
    by (rule for_loop_cong) (simp only: block_interl_func_small [OF assms(3,2)] bind.bind_lunit diff_add_inverse)
  also have "\<dots> = Some (copy_fold [1..<k + 1] (\<lambda>i. i - 1) (block_index k a) inp out)"
    by (rule copy_pair.there_loop)
       (use copy_bij.axioms(1) [OF block_copy_bij [OF assms(1)]] assms in auto)
  finally show ?thesis using assms by (simp add: block_interleave_def)
qed

lemma block_deinterleave_copy:
  assumes "coprime a k" and "0 < a" and "a * k < 2 ^ 32" and "k \<le> length inp" and "k \<le> length out"
  shows "block_deinterleave k a inp out
     = Some (copy_fold [1..<k + 1] (block_index k a) (\<lambda>i. i - 1) inp out)"
proof -
  have "for_loop [1..<k + 1] (\<lambda>i out. do {
       k' \<leftarrow> block_interl_func (k mod 2 ^ 32) (a mod 2 ^ 32) (i mod 2 ^ 32);
       v \<leftarrow> aget inp (k' - 1);
       aset out (i - 1) v }) out
    = for_loop [1..<k + 1] (\<lambda>i o'. do { v \<leftarrow> aget inp (block_index k a i); aset o' (i - 1) v }) out"
    by (rule for_loop_cong) (simp only: block_interl_func_small [OF assms(3,2)] bind.bind_lunit diff_add_inverse)
  also have "\<dots> = Some (copy_fold [1..<k + 1] (block_index k a) (\<lambda>i. i - 1) inp out)"
    by (rule copy_pair.back_loop)
       (use copy_bij.axioms(1) [OF block_copy_bij [OF assms(1)]] assms in auto)
  finally show ?thesis using assms by (simp add: block_deinterleave_def)
qed

text \<open>The interleavers of the control channels: BSCH, SCH/HD and STCH, SCH/HU, SCH/F.\<close>

interpretation bsch_il: copy_bij "[1..<120 + 1]" "\<lambda>i. i - 1" "block_index 120 11" 120 120
  by (rule block_copy_bij) code_simp

interpretation sch_hd_il: copy_bij "[1..<216 + 1]" "\<lambda>i. i - 1" "block_index 216 101" 216 216
  by (rule block_copy_bij) code_simp

interpretation sch_hu_il: copy_bij "[1..<168 + 1]" "\<lambda>i. i - 1" "block_index 168 13" 168 168
  by (rule block_copy_bij) code_simp

interpretation sch_f_il: copy_bij "[1..<432 + 1]" "\<lambda>i. i - 1" "block_index 432 103" 432 432
  by (rule block_copy_bij) code_simp

section \<open>The matrix interleaver as a copy loop\<close>

definition row_major :: "nat \<Rightarrow> nat \<times> nat \<Rightarrow> nat" where
  "row_major columns = (\<lambda>(i, j). j * columns + i)"

definition column_major :: "nat \<Rightarrow> nat \<times> nat \<Rightarrow> nat" where
  "column_major lines = (\<lambda>(i, j). i * lines + j)"

lemma mixed_radix:
  fixes i n j :: nat
  assumes "i < n"
  shows "(j * n + i) mod n = i" "(j * n + i) div n = j"
  using assms by simp_all

lemma mixed_radix_less: "\<lbrakk>i < n; j < m\<rbrakk> \<Longrightarrow> j * n + i < m * (n :: nat)"
  by (metis add.commute mult.commute less_mult_imp_div_less mixed_radix(2) mult_less_le_imp_less
      nat_mult_less_cancel_disj div_less_iff_less_mult gr_implies_not0 not_gr_zero)

lemma matrix_copy_bij:
  "copy_bij (List.product [0..<columns] [0..<lines]) (row_major columns) (column_major lines)
     (lines * columns) (lines * columns)"
proof
  let ?P = "List.product [0..<columns] [0..<lines]"
  show "inj_on (row_major columns) (set ?P)"
    by (rule inj_onI) (auto simp: row_major_def dest: arg_cong [of _ _ "\<lambda>x. (x mod columns, x div columns)"])
  show "inj_on (column_major lines) (set ?P)"
    by (rule inj_onI) (auto simp: column_major_def dest: arg_cong [of _ _ "\<lambda>x. (x mod lines, x div lines)"])
  show "row_major columns x < lines * columns" if "x \<in> set ?P" for x
    using that by (auto simp: row_major_def intro: mixed_radix_less)
  show "column_major lines x < lines * columns" if "x \<in> set ?P" for x
    using that by (auto simp: column_major_def mult.commute [of lines] intro: mixed_radix_less)
  show "p \<in> row_major columns ` set ?P" if "p < lines * columns" for p
  proof (rule image_eqI [of _ _ "(p mod columns, p div columns)"])
    show "p = row_major columns (p mod columns, p div columns)" by (simp add: row_major_def)
    have "0 < columns" using that by (cases columns) auto
    then show "(p mod columns, p div columns) \<in> set ?P"
      using that by (auto simp: less_mult_imp_div_less)
  qed
qed

lemma matrix_interleave_copy:
  assumes "lines * columns < 2 ^ 64" and "lines * columns \<le> length inp" and "lines * columns \<le> length out"
  shows "matrix_interleave lines columns inp out
     = Some (copy_fold (List.product [0..<columns] [0..<lines]) (row_major columns) (column_major lines) inp out)"
  using copy_pair.there_loop [OF copy_bij.axioms(1) [OF matrix_copy_bij], of lines columns inp out] assms
  by (simp add: matrix_interleave_def for_loop_nested row_major_def column_major_def case_prod_unfold)

lemma matrix_deinterleave_copy:
  assumes "lines * columns < 2 ^ 64" and "lines * columns \<le> length inp" and "lines * columns \<le> length out"
  shows "matrix_deinterleave lines columns inp out
     = Some (copy_fold (List.product [0..<columns] [0..<lines]) (column_major lines) (row_major columns) inp out)"
  using copy_pair.back_loop [OF copy_bij.axioms(1) [OF matrix_copy_bij], of lines columns inp out] assms
  by (simp add: matrix_deinterleave_def for_loop_nested row_major_def column_major_def case_prod_unfold)

interpretation tch_il: copy_bij "List.product [0..<18] [0..<24]" "row_major 18" "column_major 24"
    "24 * 18" "24 * 18"
  by (rule matrix_copy_bij)

text \<open>Both interleavers move position \<open>p\<close> of a block to one position of the same block, and back.\<close>

definition block_perm :: "nat \<Rightarrow> nat \<Rightarrow> nat \<Rightarrow> nat" where
  "block_perm k a p = block_index k a (p + 1)"

lemma block_perm_bij:
  assumes "coprime a k"
  shows "bij_betw (block_perm k a) {..<k} {..<k}"
proof -
  have "inj_on (block_perm k a) {..<k}"
  proof (rule inj_onI)
    fix p q assume "p \<in> {..<k}" "q \<in> {..<k}" "block_perm k a p = block_perm k a q"
    then have "p + 1 = q + 1"
      using inj_onD [OF block_index_inj [OF assms], of "p + 1" "q + 1"] by (simp add: block_perm_def)
    then show "p = q" by simp
  qed
  moreover have "block_perm k a ` {..<k} \<subseteq> {..<k}"
    by (auto simp: block_perm_def block_index_def intro: mod_less_divisor)
  ultimately have "block_perm k a ` {..<k} = {..<k}" by (intro endo_inj_surj) auto
  then show ?thesis using \<open>inj_on (block_perm k a) {..<k}\<close> by (simp add: bij_betw_def)
qed

lemma block_interleave_nth:
  assumes "coprime a k" and "0 < a" and "a * k < 2 ^ 32" and "k \<le> length inp" and "k \<le> length out"
  obtains r where "block_interleave k a inp out = Some r" "length r = length out"
    "\<And>p. p < k \<Longrightarrow> r ! block_perm k a p = inp ! p"
proof
  show "block_interleave k a inp out = Some (copy_fold [1..<k + 1] (\<lambda>i. i - 1) (block_index k a) inp out)"
    by (rule block_interleave_copy [OF assms])
  show "copy_fold [1..<k + 1] (\<lambda>i. i - 1) (block_index k a) inp out ! block_perm k a p = inp ! p" if "p < k" for p
    using copy_pair.there_hit [OF copy_bij.axioms(1) [OF block_copy_bij [OF assms(1)]], of "p + 1" out inp] that assms(5)
    by (simp add: block_perm_def del: upt_Suc)
qed simp

lemma block_deinterleave_nth:
  assumes "coprime a k" and "0 < a" and "a * k < 2 ^ 32" and "k \<le> length inp" and "k \<le> length out"
  obtains r where "block_deinterleave k a inp out = Some r" "length r = length out"
    "\<And>p. p < k \<Longrightarrow> r ! p = inp ! block_perm k a p"
proof
  show "block_deinterleave k a inp out = Some (copy_fold [1..<k + 1] (block_index k a) (\<lambda>i. i - 1) inp out)"
    by (rule block_deinterleave_copy [OF assms])
  show "copy_fold [1..<k + 1] (block_index k a) (\<lambda>i. i - 1) inp out ! p = inp ! block_perm k a p" if "p < k" for p
    using copy_pair.back_hit [OF copy_bij.axioms(1) [OF block_copy_bij [OF assms(1)]], of "p + 1" out inp] that assms(5)
    by (simp add: block_perm_def del: upt_Suc)
qed simp

definition matrix_perm :: "nat \<Rightarrow> nat \<Rightarrow> nat \<Rightarrow> nat" where
  "matrix_perm lines columns p = p mod columns * lines + p div columns"

lemma matrix_index:
  fixes p :: nat
  assumes "p < lines * columns"
  shows "(p mod columns, p div columns) \<in> set (List.product [0..<columns] [0..<lines])"
    and "row_major columns (p mod columns, p div columns) = p"
    and "column_major lines (p mod columns, p div columns) = matrix_perm lines columns p"
  using assms by (auto simp: row_major_def column_major_def matrix_perm_def less_mult_imp_div_less intro!: mod_less_divisor gr0I)

lemma matrix_interleave_nth:
  assumes "lines * columns < 2 ^ 64" and "lines * columns \<le> length inp" and "lines * columns \<le> length out"
  obtains r where "matrix_interleave lines columns inp out = Some r" "length r = length out"
    "\<And>p. p < lines * columns \<Longrightarrow> r ! matrix_perm lines columns p = inp ! p"
proof
  let ?P = "List.product [0..<columns] [0..<lines]"
  show "matrix_interleave lines columns inp out = Some (copy_fold ?P (row_major columns) (column_major lines) inp out)"
    by (rule matrix_interleave_copy [OF assms])
  show "copy_fold ?P (row_major columns) (column_major lines) inp out ! matrix_perm lines columns p = inp ! p"
    if "p < lines * columns" for p
    using copy_pair.there_hit [OF copy_bij.axioms(1) [OF matrix_copy_bij] matrix_index(1) [OF that], of out inp]
      matrix_index(2,3) [OF that] assms(3) by simp
qed simp

lemma matrix_deinterleave_nth:
  assumes "lines * columns < 2 ^ 64" and "lines * columns \<le> length inp" and "lines * columns \<le> length out"
  obtains r where "matrix_deinterleave lines columns inp out = Some r" "length r = length out"
    "\<And>p. p < lines * columns \<Longrightarrow> r ! p = inp ! matrix_perm lines columns p"
proof
  let ?P = "List.product [0..<columns] [0..<lines]"
  show "matrix_deinterleave lines columns inp out = Some (copy_fold ?P (column_major lines) (row_major columns) inp out)"
    by (rule matrix_deinterleave_copy [OF assms])
  show "copy_fold ?P (column_major lines) (row_major columns) inp out ! p = inp ! matrix_perm lines columns p"
    if "p < lines * columns" for p
    using copy_pair.back_hit [OF copy_bij.axioms(1) [OF matrix_copy_bij] matrix_index(1) [OF that], of out inp]
      matrix_index(2,3) [OF that] assms(3) by simp
qed simp

lemma matrix_perm_bij: "bij_betw (matrix_perm lines columns) {..<lines * columns} {..<lines * columns}"
proof (rule bij_betw_byWitness [where f' = "matrix_perm columns lines"])
  have inv: "matrix_perm n m (matrix_perm m n p) = p \<and> matrix_perm m n p < m * n" if "p < m * n" for m n p :: nat
  proof -
    have "0 < n" using that by (cases n) auto
    then have "p mod n < n" "p div n < m" using that by (simp_all add: less_mult_imp_div_less)
    then show ?thesis
      using mixed_radix [of "p div n" m "p mod n"] mixed_radix_less [of "p div n" m "p mod n" n]
      by (simp add: matrix_perm_def mult.commute)
  qed
  show "\<forall>a \<in> {..<lines * columns}. matrix_perm columns lines (matrix_perm lines columns a) = a" using inv by auto
  show "\<forall>a \<in> {..<lines * columns}. matrix_perm lines columns (matrix_perm columns lines a) = a"
    using inv [of _ columns lines] by (auto simp: mult.commute)
  show "matrix_perm lines columns ` {..<lines * columns} \<subseteq> {..<lines * columns}" using inv by auto
  show "matrix_perm columns lines ` {..<lines * columns} \<subseteq> {..<lines * columns}"
    using inv [of _ columns lines] by (auto simp: mult.commute)
qed

section \<open>Properties of the interleavers\<close>

text \<open>For every block length and coprime factor below the \<open>u32\<close> wrap, interleaving never
  panics, and deinterleaving what it wrote restores the block whatever the buffers held before;
  the parameters of all control channels satisfy the conditions.\<close>

lemma block_interleave_roundtrip:
  assumes "coprime a k" and "0 < a" and "a * k < 2 ^ 32"
    and "k \<le> length inp" and "k \<le> length mid" and "k \<le> length out"
  shows "\<exists>il res. block_interleave k a inp mid = Some il \<and> block_deinterleave k a il out = Some res
     \<and> take k res = take k inp"
proof -
  let ?il = "copy_fold [1..<k + 1] (\<lambda>i. i - 1) (block_index k a) inp mid"
  have "block_interleave k a inp mid = Some ?il"
    using assms by (intro block_interleave_copy)
  moreover have "block_deinterleave k a ?il out
      = Some (copy_fold [1..<k + 1] (block_index k a) (\<lambda>i. i - 1) ?il out)"
    using assms by (intro block_deinterleave_copy) simp_all
  ultimately show ?thesis
    using copy_bij.there_and_back [OF block_copy_bij [OF assms(1)] assms(4-6)] by blast
qed

theorem block_interleave_roundtrip_witness:
  "\<exists>il res. block_interleave 216 101 [0..<216] (replicate 432 7) = Some il
     \<and> block_deinterleave 216 101 il (replicate 432 9) = Some res \<and> take 216 res = take 216 [0..<216]"
  by (rule block_interleave_roundtrip) (code_simp, simp_all)

text \<open>The matrix interleaver of the traffic channel and its inverse restore every block of
  \<open>lines * columns\<close> elements, for all dimensions whose product does not overflow.\<close>

lemma matrix_interleave_roundtrip:
  assumes "lines * columns < 2 ^ 64" and "lines * columns \<le> length inp"
    and "lines * columns \<le> length mid" and "lines * columns \<le> length out"
  shows "\<exists>il res. matrix_interleave lines columns inp mid = Some il
     \<and> matrix_deinterleave lines columns il out = Some res
     \<and> take (lines * columns) res = take (lines * columns) inp"
  using matrix_interleave_copy [OF assms(1-3)] matrix_deinterleave_copy [OF assms(1), of _ out] assms
    copy_bij.there_and_back [OF matrix_copy_bij assms(2-4)]
  by simp

theorem matrix_interleave_roundtrip_witness:
  "\<exists>il res. matrix_interleave 24 18 [0..<432] (replicate 432 7) = Some il
     \<and> matrix_deinterleave 24 18 il (replicate 432 9) = Some res \<and> take (24 * 18) res = take (24 * 18) [0..<432]"
  by (rule matrix_interleave_roundtrip) simp_all

end
