(* ===== verification/Tch_Reorder.thy ===== *)
theory Tch_Reorder
  imports Prelude
begin

text \<open>
  The speech bit reordering of \<^verbatim>\<open>crates/tetra-entities/src/lmac/components/tch_reorder.rs\<close>: the 274
  bits of two 137-bit speech frames are moved between codec order and channel order, class by
  class and alternating between the two frames. The three position tables are those of the
  source (1-based). Each conversion runs three loops with a running index.
\<close>

section \<open>Tables and conversions\<close>

definition NUM_ACELP_BITS :: nat where
  "NUM_ACELP_BITS = 137"

definition CLASS0_POS :: "nat list" where
  "CLASS0_POS = [
    35, 36, 37, 38, 39, 40, 41, 42, 43, 47, 48, 56, 61, 62, 63, 64, 65, 66, 67, 68, 69, 70, 74, 75, 83, 88, 89,
    90, 91, 92, 93, 94, 95, 96, 97, 101, 102, 110, 115, 116, 117, 118, 119, 120, 121, 122, 123, 124, 128, 129, 137]"

definition CLASS1_POS :: "nat list" where
  "CLASS1_POS = [
    58, 85, 112, 54, 81, 108, 135, 50, 77, 104, 131, 45, 72, 99, 126, 55, 82, 109, 136, 5, 13, 34, 8, 16, 17, 22,
    23, 24, 25, 26, 6, 14, 7, 15, 60, 87, 114, 46, 73, 100, 127, 44, 71, 98, 125, 33, 49, 76, 103, 130, 59, 86, 113,
    57, 84, 111]"

definition CLASS2_POS :: "nat list" where
  "CLASS2_POS = [
    18, 19, 20, 21, 31, 32, 53, 80, 107, 134, 1, 2, 3, 4, 9, 10, 11, 12, 27, 28, 29, 30, 52, 79, 106, 133, 51, 78,
    105, 132]"

text \<open>One class loop of \<open>codec_to_channel\<close>, from the running index \<open>out_idx\<close>.\<close>

definition class_to_channel :: "'a list \<Rightarrow> nat list \<Rightarrow> 'a list \<times> nat \<Rightarrow> ('a list \<times> nat) option" where
  "class_to_channel codec_bits tbl = for_loop tbl (\<lambda>p (channel, out_idx). do {
     v0 \<leftarrow> aget codec_bits (0 * NUM_ACELP_BITS + (p - 1));
     c0 \<leftarrow> aset channel out_idx v0;
     v1 \<leftarrow> aget codec_bits (1 * NUM_ACELP_BITS + (p - 1));
     c1 \<leftarrow> aset c0 (out_idx + 1) v1;
     Some (c1, out_idx + 2) })"

definition codec_to_channel :: "u8 list \<Rightarrow> u8 list option" where
  "codec_to_channel codec_bits = do {
     s0 \<leftarrow> class_to_channel codec_bits CLASS0_POS (replicate 274 0, 0);
     s1 \<leftarrow> class_to_channel codec_bits CLASS1_POS s0;
     s2 \<leftarrow> class_to_channel codec_bits CLASS2_POS s1;
     Some (fst s2) }"

definition frame_class_to_channel :: "'a list \<Rightarrow> nat list \<Rightarrow> 'a list \<times> nat \<Rightarrow> ('a list \<times> nat) option" where
  "frame_class_to_channel codec_bits tbl = for_loop tbl (\<lambda>p (channel, out_idx). do {
     v \<leftarrow> aget codec_bits (p - 1);
     c \<leftarrow> aset channel out_idx v;
     Some (c, out_idx + 1) })"

definition codec_frame_to_channel :: "u8 list \<Rightarrow> u8 list option" where
  "codec_frame_to_channel codec_bits = do {
     s0 \<leftarrow> frame_class_to_channel codec_bits CLASS0_POS (replicate NUM_ACELP_BITS 0, 0);
     s1 \<leftarrow> frame_class_to_channel codec_bits CLASS1_POS s0;
     s2 \<leftarrow> frame_class_to_channel codec_bits CLASS2_POS s1;
     Some (fst s2) }"

definition class_to_codec :: "'a list \<Rightarrow> nat list \<Rightarrow> 'a list \<times> nat \<Rightarrow> ('a list \<times> nat) option" where
  "class_to_codec channel_bits tbl = for_loop tbl (\<lambda>p (codec, in_idx). do {
     v0 \<leftarrow> aget channel_bits in_idx;
     c0 \<leftarrow> aset codec (0 * NUM_ACELP_BITS + (p - 1)) v0;
     v1 \<leftarrow> aget channel_bits (in_idx + 1);
     c1 \<leftarrow> aset c0 (1 * NUM_ACELP_BITS + (p - 1)) v1;
     Some (c1, in_idx + 2) })"

definition channel_to_codec :: "u8 list \<Rightarrow> u8 list option" where
  "channel_to_codec channel_bits = do {
     s0 \<leftarrow> class_to_codec channel_bits CLASS0_POS (replicate 274 0, 0);
     s1 \<leftarrow> class_to_codec channel_bits CLASS1_POS s0;
     s2 \<leftarrow> class_to_codec channel_bits CLASS2_POS s1;
     Some (fst s2) }"

section \<open>The loops as copy loops\<close>

text \<open>The index pairs (channel, codec) that the class loops run through.\<close>

fun slots :: "nat \<Rightarrow> nat list \<Rightarrow> (nat \<times> nat) list" where
  "slots k [] = []"
| "slots k (p # ps) = (k, p - 1) # (k + 1, 137 + (p - 1)) # slots (k + 2) ps"

lemma slots_append: "slots k (ps @ qs) = slots k ps @ slots (k + 2 * length ps) qs"
  by (induction ps arbitrary: k) auto

lemma copy_fold_append: "copy_fold (is @ js) g h inp out = copy_fold js g h inp (copy_fold is g h inp out)"
  by (simp add: copy_fold_def)

lemma class_to_channel_copy:
  assumes "\<forall>i \<in> set (slots k ps). snd i < length inp \<and> fst i < length out"
  shows "class_to_channel inp ps (out, k) = Some (copy_fold (slots k ps) snd fst inp out, k + 2 * length ps)"
  using assms
  by (induction ps arbitrary: k out)
     (auto simp: class_to_channel_def NUM_ACELP_BITS_def copy_fold_def panic_simps)

lemma class_to_codec_copy:
  assumes "\<forall>i \<in> set (slots k ps). fst i < length inp \<and> snd i < length out"
  shows "class_to_codec inp ps (out, k) = Some (copy_fold (slots k ps) fst snd inp out, k + 2 * length ps)"
  using assms
  by (induction ps arbitrary: k out)
     (auto simp: class_to_codec_def NUM_ACELP_BITS_def copy_fold_def panic_simps)

definition all_pos :: "nat list" where
  "all_pos = CLASS0_POS @ CLASS1_POS @ CLASS2_POS"

lemma distinct_all_pos: "distinct all_pos"
  by (simp add: all_pos_def CLASS0_POS_def CLASS1_POS_def CLASS2_POS_def)

lemma all_pos_range: "\<forall>p \<in> set all_pos. 1 \<le> p \<and> p \<le> 137" "length all_pos = 137"
  by (simp_all add: all_pos_def CLASS0_POS_def CLASS1_POS_def CLASS2_POS_def)

definition all_slots :: "(nat \<times> nat) list" where
  "all_slots = slots 0 all_pos"

lemma map_fst_slots: "map fst (slots k ps) = [k..<k + 2 * length ps]"
proof (induction ps arbitrary: k)
  case (Cons p ps)
  have "[k..<k + 2 * length (p # ps)] = k # Suc k # [k + 2..<k + 2 + 2 * length ps]"
    using upt_conv_Cons [of k "k + 2 * length (p # ps)"] upt_conv_Cons [of "Suc k" "k + 2 * length (p # ps)"]
    by (simp del: upt_Suc)
  then show ?case by (simp add: Cons.IH del: upt_Suc)
qed simp

lemma set_snd_slots:
  "snd ` set (slots k ps) = (\<lambda>p. p - 1) ` set ps \<union> (\<lambda>p. 137 + (p - 1)) ` set ps"
  by (induction ps arbitrary: k) auto

lemma distinct_snd_slots:
  "\<lbrakk>distinct ps; \<forall>p \<in> set ps. 1 \<le> p \<and> p \<le> 137\<rbrakk> \<Longrightarrow> distinct (map snd (slots k ps))"
proof (induction ps arbitrary: k)
  case (Cons p ps)
  have "q - 1 \<noteq> p - 1 \<and> 137 + (q - 1) \<noteq> p - 1 \<and> q - 1 \<noteq> 137 + (p - 1) \<and> 137 + (q - 1) \<noteq> 137 + (p - 1)"
    if "q \<in> set ps" for q
  proof -
    have "1 \<le> q" "q \<le> 137" "1 \<le> p" "p \<le> 137" "q \<noteq> p" using that Cons.prems by auto
    then show ?thesis by linarith
  qed
  then have "p - 1 \<notin> snd ` set (slots (k + 2) ps)" "137 + (p - 1) \<notin> snd ` set (slots (k + 2) ps)"
    unfolding set_snd_slots by force+
  with Cons show ?case by simp
qed simp

lemma all_slots_fst: "distinct (map fst all_slots)" "fst ` set all_slots = {..<274}"
  using map_fst_slots [of 0 all_pos] by (auto simp: all_slots_def all_pos_range simp flip: set_map)

lemma all_slots_snd: "distinct (map snd all_slots)" "snd ` set all_slots = {..<274}"
proof -
  show d: "distinct (map snd all_slots)"
    using distinct_snd_slots [OF distinct_all_pos] all_pos_range by (simp add: all_slots_def)
  have "snd ` set all_slots \<subseteq> {..<274}"
  proof (unfold all_slots_def set_snd_slots, intro Un_least image_subsetI)
    fix p assume "p \<in> set all_pos"
    then have "1 \<le> p" "p \<le> 137" using all_pos_range(1) by auto
    then show "p - 1 \<in> {..<274}" and "137 + (p - 1) \<in> {..<274}" by auto
  qed
  moreover have "card (snd ` set all_slots) = length all_slots"
    using distinct_card [OF d] by simp
  moreover have "length all_slots = 274"
    using arg_cong [OF map_fst_slots [of 0 all_pos], of length] by (simp add: all_slots_def all_pos_range)
  ultimately show "snd ` set all_slots = {..<274}" by (intro card_subset_eq) auto
qed

interpretation reorder: copy_bij all_slots snd fst 274 274
  by unfold_locales (use all_slots_fst all_slots_snd in \<open>auto simp: distinct_map\<close>)

interpretation reorder_back: copy_bij all_slots fst snd 274 274
  by unfold_locales (use all_slots_fst all_slots_snd in \<open>auto simp: distinct_map\<close>)

lemma all_slots_bound: "i \<in> set all_slots \<Longrightarrow> fst i < 274 \<and> snd i < 274"
  using all_slots_fst(2) all_slots_snd(2) by blast

lemma all_slots_split:
  "all_slots = slots 0 CLASS0_POS @ slots 102 CLASS1_POS @ slots 214 CLASS2_POS"
  by (simp add: all_slots_def all_pos_def slots_append, simp add: CLASS0_POS_def CLASS1_POS_def)

lemma class_lengths: "length CLASS0_POS = 51" "length CLASS1_POS = 56" "length CLASS2_POS = 30"
  by (simp_all add: CLASS0_POS_def CLASS1_POS_def CLASS2_POS_def)

lemma codec_to_channel_copy:
  assumes "length inp = 274"
  shows "codec_to_channel inp = Some (copy_fold all_slots snd fst inp (replicate 274 0))"
proof -
  have b: "\<forall>i \<in> set (slots 0 CLASS0_POS) \<union> set (slots 102 CLASS1_POS) \<union> set (slots 214 CLASS2_POS).
      fst i < 274 \<and> snd i < 274"
    using all_slots_bound by (auto simp: all_slots_split)
  show ?thesis
    unfolding codec_to_channel_def all_slots_split copy_fold_append
    using assms b by (simp add: class_to_channel_copy class_lengths)
qed

lemma channel_to_codec_copy:
  assumes "length inp = 274"
  shows "channel_to_codec inp = Some (copy_fold all_slots fst snd inp (replicate 274 0))"
proof -
  have b: "\<forall>i \<in> set (slots 0 CLASS0_POS) \<union> set (slots 102 CLASS1_POS) \<union> set (slots 214 CLASS2_POS).
      fst i < 274 \<and> snd i < 274"
    using all_slots_bound by (auto simp: all_slots_split)
  show ?thesis
    unfolding channel_to_codec_def all_slots_split copy_fold_append
    using assms b by (simp add: class_to_codec_copy class_lengths)
qed

lemma codec_channel_roundtrip:
  assumes "length x = 274"
  obtains c where "codec_to_channel x = Some c" "length c = 274" "channel_to_codec c = Some x"
proof -
  let ?c = "copy_fold all_slots snd fst x (replicate 274 0)"
  have "channel_to_codec ?c = Some x"
    using reorder.there_and_back [of x "replicate 274 0" "replicate 274 0"] assms
    by (simp add: channel_to_codec_copy)
  then show thesis using that [of ?c] assms by (simp add: codec_to_channel_copy)
qed

lemma channel_codec_roundtrip:
  assumes "length c = 274"
  obtains x where "channel_to_codec c = Some x" "length x = 274" "codec_to_channel x = Some c"
proof -
  let ?x = "copy_fold all_slots fst snd c (replicate 274 0)"
  have "codec_to_channel ?x = Some c"
    using reorder_back.there_and_back [of c "replicate 274 0" "replicate 274 0"] assms
    by (simp add: codec_to_channel_copy)
  then show thesis using that [of ?x] assms by (simp add: channel_to_codec_copy)
qed

lemma nth_slots:
  "i < length ps \<Longrightarrow> (k + 2 * i, ps ! i - 1) \<in> set (slots k ps)
     \<and> (k + 2 * i + 1, 137 + (ps ! i - 1)) \<in> set (slots k ps)"
proof (induction ps arbitrary: k i)
  case (Cons p ps)
  show ?case
  proof (cases i)
    case (Suc j)
    with Cons.IH [of j "k + 2"] Cons.prems show ?thesis by simp
  qed simp
qed simp

text \<open>The one-frame conversion has a plain description as a list.\<close>

lemma frame_class_to_channel_run:
  "\<lbrakk>\<forall>p \<in> set ps. p - 1 < length inp; k + length ps \<le> length out\<rbrakk>
   \<Longrightarrow> frame_class_to_channel inp ps (out, k)
     = Some (take k out @ map (\<lambda>p. inp ! (p - 1)) ps @ drop (k + length ps) out, k + length ps)"
proof (induction ps arbitrary: k out)
  case Nil
  then show ?case by (simp add: frame_class_to_channel_def)
next
  case (Cons p ps)
  let ?o = "out[k := inp ! (p - 1)]"
  have "frame_class_to_channel inp (p # ps) (out, k) = frame_class_to_channel inp ps (?o, k + 1)"
    using Cons.prems by (simp add: frame_class_to_channel_def panic_simps)
  also have "\<dots> = Some (take (k + 1) ?o @ map (\<lambda>p. inp ! (p - 1)) ps @ drop (k + 1 + length ps) ?o, k + 1 + length ps)"
    using Cons.prems by (intro Cons.IH) auto
  also have "take (k + 1) ?o = take k out @ [inp ! (p - 1)]"
    using Cons.prems by (simp add: take_Suc_conv_app_nth)
  finally show ?case by simp
qed

lemma codec_frame_to_channel_list:
  assumes "length inp = 137"
  shows "codec_frame_to_channel inp = Some (map (\<lambda>p. inp ! (p - 1)) all_pos)"
proof -
  have "p - 1 < 137" if "p \<in> set all_pos" for p
    using bspec [OF all_pos_range(1) that] by linarith
  then have r: "\<forall>p \<in> set CLASS0_POS \<union> set CLASS1_POS \<union> set CLASS2_POS. p - 1 < 137"
    unfolding all_pos_def by simp
  show ?thesis
    unfolding codec_frame_to_channel_def NUM_ACELP_BITS_def
    using r assms by (simp add: frame_class_to_channel_run class_lengths all_pos_def)
qed

section \<open>Properties of the reordering\<close>

lemma codec_channel_bijection_parts:
  assumes "length x = 274"
  shows "\<exists>c. codec_to_channel x = Some c \<and> length c = 274 \<and> channel_to_codec c = Some x"
    and "\<exists>y. channel_to_codec x = Some y \<and> length y = 274 \<and> codec_to_channel y = Some x"
  using codec_channel_roundtrip [OF assms] channel_codec_roundtrip [OF assms] by metis+

text \<open>The two conversions of full speech blocks never panic and are inverse to each other, in
  both directions.\<close>

lemma codec_channel_bijection:
  assumes "length x = 274"
  shows "(\<exists>c. codec_to_channel x = Some c \<and> length c = 274 \<and> channel_to_codec c = Some x)
      \<and> (\<exists>y. channel_to_codec x = Some y \<and> length y = 274 \<and> codec_to_channel y = Some x)"
  using codec_channel_bijection_parts [OF assms] by blast

theorem codec_channel_bijection_witness:
  "\<exists>c. codec_to_channel (replicate 137 0 @ replicate 137 1) = Some c \<and> length c = 274
     \<and> channel_to_codec c = Some (replicate 137 0 @ replicate 137 1)"
  by (rule codec_channel_bijection [THEN conjunct1]) simp

lemma reorder_positions_parts:
  assumes "length x = 274" and "length y = 137" and "i < 137"
  shows "\<exists>c. codec_to_channel x = Some c \<and> c ! (2 * i) = x ! (all_pos ! i - 1)
           \<and> c ! (2 * i + 1) = x ! (137 + (all_pos ! i - 1))"
    and "\<exists>c. codec_frame_to_channel y = Some c \<and> c ! i = y ! (all_pos ! i - 1)"
    and "set all_pos = {1..137}" and "distinct all_pos"
proof -
  have s: "(2 * i, all_pos ! i - 1) \<in> set all_slots" "(2 * i + 1, 137 + (all_pos ! i - 1)) \<in> set all_slots"
    using nth_slots [of i all_pos 0] assms(3) by (simp_all add: all_slots_def all_pos_range)
  show "\<exists>c. codec_to_channel x = Some c \<and> c ! (2 * i) = x ! (all_pos ! i - 1)
      \<and> c ! (2 * i + 1) = x ! (137 + (all_pos ! i - 1))"
    using reorder.there_hit [OF s(1), of "replicate 274 0" x] reorder.there_hit [OF s(2), of "replicate 274 0" x] assms
    by (simp add: codec_to_channel_copy)
  show "\<exists>c. codec_frame_to_channel y = Some c \<and> c ! i = y ! (all_pos ! i - 1)"
    using assms by (simp add: codec_frame_to_channel_list all_pos_range)
  show "distinct all_pos" by (rule distinct_all_pos)
  show "set all_pos = {1..137}"
    by (rule card_subset_eq) (use all_pos_range distinct_card [OF distinct_all_pos] in auto)
qed

text \<open>Position \<open>i\<close> of the sensitivity table goes to channel bits \<open>2 i\<close> (first frame) and
  \<open>2 i + 1\<close> (second frame); when one frame is stolen, the conversion of the remaining frame
  puts that position at channel bit \<open>i\<close>. Every position of a frame occurs exactly once.\<close>

lemma reorder_positions:
  assumes "length x = 274" and "length y = 137" and "i < 137"
  shows "(\<exists>c. codec_to_channel x = Some c \<and> c ! (2 * i) = x ! (all_pos ! i - 1)
           \<and> c ! (2 * i + 1) = x ! (137 + (all_pos ! i - 1)))
      \<and> (\<exists>c. codec_frame_to_channel y = Some c \<and> c ! i = y ! (all_pos ! i - 1))
      \<and> (set all_pos = {1..137})
      \<and> (distinct all_pos)"
  using reorder_positions_parts [OF assms] by blast

theorem reorder_positions_witness:
  "\<exists>c. codec_frame_to_channel (replicate 34 0 @ [1] @ replicate 102 0) = Some c \<and> c ! 0 = 1"
proof -
  have l: "length (replicate 34 0 @ [1] @ replicate 102 (0 :: u8)) = 137" by simp
  have "all_pos ! 0 = 35" by (simp add: all_pos_def CLASS0_POS_def)
  then show ?thesis
    using reorder_positions [THEN conjunct2, THEN conjunct1, OF _ l, of "replicate 274 0" 0] by (simp add: nth_append)
qed

end
