(* ===== verification/Crc_Register.thy ===== *)
theory Crc_Register
  imports Prelude
begin

text \<open>
  A cyclic redundancy check as a shift register over GF(2), of any width: one step shifts the
  register and adds the generator when the bit shifted out differs from the data bit. The locale
  \<open>crc_register\<close> states what a generator needs for burst detection, an odd constant term; the
  checks of the stack, of 16 and of 32 bits, are instances.
\<close>

definition bxor :: "bool \<Rightarrow> bool \<Rightarrow> bool" where
  "bxor b e \<longleftrightarrow> b \<noteq> e"

definition crc_feed :: "'a::len word \<Rightarrow> bool \<Rightarrow> 'a word \<Rightarrow> 'a word" where
  "crc_feed poly b c = (if bit c (LENGTH('a) - 1) \<noteq> b then push_bit 1 c XOR poly else push_bit 1 c)"

text \<open>The bits of a register, most significant first.\<close>

definition word_bits :: "'a::len word \<Rightarrow> bool list" where
  "word_bits w = map (\<lambda>i. bit w (LENGTH('a) - 1 - i)) [0..<LENGTH('a)]"

text \<open>An error pattern: a window \<open>w\<close> of flipped bits between untouched ones.\<close>

definition burst :: "nat \<Rightarrow> bool list \<Rightarrow> nat \<Rightarrow> bool list" where
  "burst a w z = replicate a False @ w @ replicate z False"

lemma length_word_bits [simp]: "length (word_bits (w :: 'a::len word)) = LENGTH('a)"
  by (simp add: word_bits_def)

lemma length_burst [simp]: "length (burst a w z) = a + length w + z"
  by (simp add: burst_def)

lemma map2_bxor_False: "length xs = n \<Longrightarrow> map2 bxor xs (replicate n False) = xs"
  by (rule nth_equalityI) (auto simp: bxor_def)

lemma map2_bxor_append:
  "length a = length b \<Longrightarrow> map2 bxor (a @ c) (b @ d) = map2 bxor a b @ map2 bxor c d"
  by simp

lemma word_bits_inj: "word_bits (v :: 'a::len word) = word_bits w \<longleftrightarrow> v = w"
proof
  assume e: "word_bits v = word_bits w"
  have "bit v n = bit w n" if "n < LENGTH('a)" for n
  proof -
    have "LENGTH('a) - 1 - n < LENGTH('a)" "LENGTH('a) - 1 - (LENGTH('a) - 1 - n) = n" using that by auto
    then show ?thesis using arg_cong [OF e, of "\<lambda>xs. xs ! (LENGTH('a) - 1 - n)"] by (simp add: word_bits_def)
  qed
  then show "v = w" by (rule bit_word_eqI)
qed simp

lemma word_bits_xor: "word_bits (v XOR w :: 'a::len word) = map2 bxor (word_bits v) (word_bits w)"
  by (rule nth_equalityI) (auto simp: word_bits_def bxor_def bit_xor_iff)

lemma word_bits_NOT: "word_bits (NOT w :: 'a::len word) = map2 bxor (word_bits w) (replicate LENGTH('a) True)"
  by (rule nth_equalityI) (auto simp: word_bits_def bit_not_iff bxor_def)

text \<open>Every list of the right length is the bits of a register.\<close>

lemma word_bits_surj:
  assumes "length xs = LENGTH('a)"
  obtains w :: "'a::len word" where "word_bits w = xs"
proof
  define w :: "'a word" where "w = horner_sum of_bool 2 (rev xs)"
  have b: "bit w (LENGTH('a) - 1 - i) \<longleftrightarrow> xs ! i" if "i < LENGTH('a)" for i
    using that assms by (simp add: w_def bit_horner_sum_bit_iff rev_nth bit_simps less_imp_diff_less)
  show "word_bits w = xs"
    by (rule nth_equalityI) (use assms b in \<open>auto simp: word_bits_def\<close>)
qed

locale crc_register =
  fixes poly :: "'a::len word"
  assumes poly_odd: "bit poly 0"
begin

abbreviation crc_run :: "bool list \<Rightarrow> 'a word \<Rightarrow> 'a word" where
  "crc_run bs c \<equiv> fold (crc_feed poly) bs c"

lemma feed_xor: "crc_feed poly (bxor b e) (c XOR d) = crc_feed poly b c XOR crc_feed poly e d"
  by (cases "bit c (LENGTH('a) - 1) = b"; cases "bit d (LENGTH('a) - 1) = e")
     (auto simp: crc_feed_def bxor_def push_bit_xor bit_xor_iff xor.assoc xor.commute xor.left_commute
       simp del: push_bit_Suc)

lemma run_xor:
  "length bs = length es \<Longrightarrow> crc_run (map2 bxor bs es) (c XOR d) = crc_run bs c XOR crc_run es d"
  by (induction bs es arbitrary: c d rule: list_induct2) (simp_all add: feed_xor)

text \<open>A register fed its own bits shifts out to zero.\<close>

lemma run_own_prefix:
  "n \<le> LENGTH('a) \<Longrightarrow> crc_run (map (\<lambda>i. bit c (LENGTH('a) - 1 - i)) [0..<n]) c = push_bit n c"
proof (induction n)
  case (Suc n)
  have b: "bit (push_bit n c) (LENGTH('a) - 1) \<longleftrightarrow> bit c (LENGTH('a) - 1 - n)"
    using Suc.prems by (simp add: bit_simps)
  show ?case
    using Suc b by (simp add: crc_feed_def push_bit_push_bit)
qed simp

lemma run_own: "crc_run (word_bits c) c = 0"
proof -
  have "push_bit LENGTH('a) c = 0" by (rule bit_word_eqI) (simp add: bit_simps)
  then show ?thesis using run_own_prefix [of "LENGTH('a)" c] by (simp add: word_bits_def)
qed

lemma feed_0_iff: "crc_feed poly False c = 0 \<longleftrightarrow> c = 0"
proof
  assume z: "crc_feed poly False c = 0"
  have top: "\<not> bit c (LENGTH('a) - 1)"
  proof
    assume "bit c (LENGTH('a) - 1)"
    with z have "push_bit 1 c XOR poly = 0" by (simp add: crc_feed_def)
    moreover have "bit (push_bit 1 c XOR poly) 0"
      unfolding bit_xor_iff bit_push_bit_iff by (simp add: poly_odd)
    ultimately show False by simp
  qed
  with z have p: "push_bit 1 c = 0" by (simp add: crc_feed_def)
  have "\<not> bit c n" if "n < LENGTH('a)" for n
  proof (cases "n = LENGTH('a) - 1")
    case False
    with that have "Suc n < LENGTH('a)" by linarith
    moreover have "bit (push_bit 1 c) (Suc n) = False" unfolding p by simp
    ultimately show ?thesis unfolding bit_push_bit_iff by simp
  qed (use top in simp)
  then show "c = 0" by (intro bit_word_eqI) simp
qed (simp add: crc_feed_def)

lemma run_zeros_0_iff: "crc_run (replicate n False) c = 0 \<longleftrightarrow> c = 0"
  by (induction n arbitrary: c) (simp_all add: feed_0_iff del: fold_replicate)

lemma run_zeros: "crc_run (replicate n False) 0 = 0"
  using run_zeros_0_iff by blast

lemma run_full_nonzero:
  assumes "length w = LENGTH('a)" and "True \<in> set w"
  shows "crc_run w 0 \<noteq> 0"
proof -
  obtain c :: "'a word" where c: "word_bits c = w" using word_bits_surj [OF assms(1)] .
  have "crc_run w (c XOR c) = crc_run w c XOR crc_run (replicate LENGTH('a) False) c"
    using run_xor [of w "replicate LENGTH('a) False" c c] assms(1) by (simp add: map2_bxor_False)
  then have "crc_run w 0 = crc_run (replicate LENGTH('a) False) c"
    using run_own [of c] by (simp add: c)
  moreover have "c \<noteq> 0"
  proof
    assume "c = 0"
    then have "w = map (\<lambda>i. False) [0..<LENGTH('a)]" using c by (simp add: word_bits_def)
    with assms(2) show False by auto
  qed
  ultimately show ?thesis by (simp add: run_zeros_0_iff del: fold_replicate)
qed

lemma run_burst_nonzero:
  assumes "length w \<le> LENGTH('a)" and "True \<in> set w"
  shows "crc_run (burst a w z) 0 \<noteq> 0"
proof -
  have "crc_run w 0 = crc_run (replicate (LENGTH('a) - length w) False @ w) 0"
    by (simp add: run_zeros del: fold_replicate)
  also have "\<dots> \<noteq> 0"
    by (rule run_full_nonzero) (use assms in auto)
  finally show ?thesis by (simp add: burst_def run_zeros run_zeros_0_iff del: fold_replicate)
qed

text \<open>A register reaches zero on bits as many as it is wide only when they are its own.\<close>

lemma run_0_iff:
  assumes "length xs = LENGTH('a)"
  shows "crc_run xs c = 0 \<longleftrightarrow> xs = word_bits c"
proof
  obtain d :: "'a word" where d: "word_bits d = xs" using word_bits_surj [OF assms] .
  have "crc_run xs (d XOR (c XOR d)) = crc_run xs d XOR crc_run (replicate LENGTH('a) False) (c XOR d)"
    using run_xor [of xs "replicate LENGTH('a) False" d "c XOR d"] assms by (simp add: map2_bxor_False)
  then have e: "crc_run xs c = crc_run (replicate LENGTH('a) False) (c XOR d)"
    using run_own [of d] by (simp add: d xor.left_commute)
  assume "crc_run xs c = 0"
  with e have "c XOR d = 0" by (simp add: run_zeros_0_iff del: fold_replicate)
  then have "c = d" by (metis xor_self_eq xor.assoc xor.right_neutral xor.left_neutral)
  with d show "xs = word_bits c" by simp
qed (simp add: run_own)

end

end
