(* ===== verification/Crc16.thy ===== *)
theory Crc16
  imports Crc_Register
begin

text \<open>
  The CRC-16 of \<^verbatim>\<open>crates/tetra-entities/src/lmac/components/crc16.rs\<close>, over a byte stream and over
  a slice with one bit per byte. The register is a 16-bit word.

  It is an instance of \<open>crc_register\<close>, from which follow the residue that the receiver checks for and
  the detection of error bursts.
\<close>

section \<open>Definitions\<close>

definition GEN_POLY :: u16 where
  "GEN_POLY = 0x1021"

definition TETRA_CRC_OK :: u16 where
  "TETRA_CRC_OK = 0x1d0f"

definition get_nth_bit :: "u8 list \<Rightarrow> nat \<Rightarrow> u16 option" where
  "get_nth_bit input b = do {
     x \<leftarrow> aget input (b div 8);
     Some (ucast (drop_bit (7 - b mod 8) x AND 1)) }"

text \<open>The body that both loops share, with \<open>b\<close> the next bit.\<close>

definition crc16_step :: "u16 \<Rightarrow> u16 \<Rightarrow> u16" where
  "crc16_step crc b =
     (let crc1 = crc XOR push_bit 15 b
      in if crc1 AND 0x8000 \<noteq> 0 then (push_bit 1 crc1 + 0) XOR GEN_POLY else push_bit 1 crc1)"

definition crc16_itut_bytes :: "u16 \<Rightarrow> u8 list \<Rightarrow> nat \<Rightarrow> u16 option" where
  "crc16_itut_bytes crc input number_bits =
     for_loop [0..<number_bits] (\<lambda>i crc. do { b \<leftarrow> get_nth_bit input i; Some (crc16_step crc b) }) crc"

definition crc16_itut_bits :: "u16 \<Rightarrow> u8 list \<Rightarrow> nat \<Rightarrow> u16" where
  "crc16_itut_bits crc input number_bits =
     fold (\<lambda>b crc. crc16_step crc (ucast (b AND 1))) (take number_bits input) crc"

definition crc16_ccitt_bits :: "u8 list \<Rightarrow> nat \<Rightarrow> u16" where
  "crc16_ccitt_bits input len = crc16_itut_bits 0xffff input len"

section \<open>The register\<close>

interpretation crc16: crc_register GEN_POLY
  by unfold_locales (simp add: GEN_POLY_def)

definition lsb_of :: "u8 \<Rightarrow> bool" where
  "lsb_of b = bit b 0"

abbreviation crc_run :: "bool list \<Rightarrow> u16 \<Rightarrow> u16" where
  "crc_run bs c \<equiv> fold (crc_feed GEN_POLY) bs c"

lemma and_0x8000: "(c :: u16) AND 0x8000 \<noteq> 0 \<longleftrightarrow> bit c 15"
proof -
  have "(0x8000 :: u16) = 2 ^ 15" by simp
  then show ?thesis by (simp only: and_exp_eq_0_iff_not_bit not_not)
qed

lemma push_bit_16_word: "push_bit (Suc 15) (x :: u16) = 0"
  by (rule bit_word_eqI) (simp add: bit_simps)

lemma crc16_step_feed: "crc16_step c (of_bool b) = crc_feed GEN_POLY b c"
proof -
  have t: "bit (c XOR push_bit 15 (of_bool b)) 15 \<longleftrightarrow> bit c 15 \<noteq> b"
    by (auto simp: bit_simps)
  have "push_bit 1 (c XOR push_bit 15 (of_bool b)) = push_bit 1 c"
    by (simp add: push_bit_xor push_bit_push_bit push_bit_16_word)
  then show ?thesis
    unfolding crc16_step_def Let_def crc_feed_def and_0x8000 t by simp
qed

lemma ucast_and_1: "(ucast ((b :: u8) AND 1) :: u16) = of_bool (lsb_of b)"
  by (rule bit_word_eqI) (auto simp: bit_simps lsb_of_def)

lemma crc16_itut_bits_run: "crc16_itut_bits c xs n = crc_run (map lsb_of (take n xs)) c"
proof -
  have "fold (\<lambda>b crc. crc16_step crc (ucast (b AND 1))) ys c = crc_run (map lsb_of ys) c" for ys
    by (induction ys arbitrary: c) (simp_all only: ucast_and_1 crc16_step_feed fold.simps list.map comp_def id_def)
  then show ?thesis unfolding crc16_itut_bits_def .
qed

lemma crc_run_complement: "crc_run (word_bits (NOT c)) c = TETRA_CRC_OK"
proof -
  have "crc_run (word_bits (NOT c)) (c XOR 0) = crc_run (word_bits c) c XOR crc_run (replicate LENGTH(16) True) 0"
    unfolding word_bits_NOT by (rule crc16.run_xor) simp
  moreover have "crc_run (replicate LENGTH(16) True) 0 = TETRA_CRC_OK"
    by code_simp
  ultimately show ?thesis by (simp add: crc16.run_own)
qed

section \<open>Properties of the CRC\<close>

text \<open>The sixteen complemented check bits, as the encoder appends them.\<close>

definition crc_bits :: "u16 \<Rightarrow> u8 list" where
  "crc_bits crc = map (\<lambda>i. ucast (drop_bit (15 - i) crc AND 1)) [0..<16]"

lemma odd_crc_bits: "map lsb_of (crc_bits c) = word_bits c"
proof -
  have "lsb_of (ucast (drop_bit k c AND 1)) \<longleftrightarrow> bit c k" for k
    by (simp add: lsb_of_def bit_simps)
  then show ?thesis by (simp add: crc_bits_def word_bits_def)
qed

lemma length_crc_bits [simp]: "length (crc_bits c) = 16"
  by (simp add: crc_bits_def)

lemma crc_residue:
  assumes "length msg = n"
  shows "crc16_ccitt_bits (msg @ crc_bits (NOT (crc16_ccitt_bits msg n)) @ rest) (n + 16) = TETRA_CRC_OK"
proof -
  let ?c = "crc_run (map lsb_of msg) 0xffff"
  have "crc16_ccitt_bits (msg @ crc_bits (NOT (crc16_ccitt_bits msg n)) @ rest) (n + 16)
      = crc_run (word_bits (NOT ?c)) ?c"
    using assms by (simp add: crc16_ccitt_bits_def crc16_itut_bits_run odd_crc_bits)
  then show ?thesis by (simp add: crc_run_complement)
qed

text \<open>A block followed by the complemented CRC that the encoder appends always has the residue
  the receiver checks for, whatever follows it.\<close>

lemma crc_accepts_sent_block:
  assumes "length msg = n"
  shows "crc16_ccitt_bits (msg @ crc_bits (NOT (crc16_ccitt_bits msg n)) @ rest) (n + 16) = TETRA_CRC_OK"
  by (rule crc_residue [OF assms])

theorem crc_accepts_sent_block_witness:
  "crc16_ccitt_bits ([1, 0, 1, 1, 0] @ crc_bits (NOT (crc16_ccitt_bits [1, 0, 1, 1, 0] 5)) @ [0]) (5 + 16)
     = TETRA_CRC_OK"
  by (rule crc_accepts_sent_block) simp

text \<open>C8: the check detects every error burst of up to sixteen bits: if a block has the accepted
  residue, then flipping any nonempty pattern within sixteen consecutive bits makes the
  residue wrong.\<close>

theorem crc_detects_bursts:
  assumes "crc16_ccitt_bits blk (length blk) = TETRA_CRC_OK"
    and "length w \<le> 16" and "True \<in> set w"
    and "map lsb_of bad = map2 bxor (map lsb_of blk) (burst a w z)"
    and "length blk = a + length w + z"
  shows "crc16_ccitt_bits bad (length bad) \<noteq> TETRA_CRC_OK"
proof -
  have l: "length (map lsb_of blk) = length (burst a w z)" using assms(5) by (simp add: burst_def)
  have lb: "length bad = length blk" using arg_cong [OF assms(4), of length] l by simp
  have "crc_run (map lsb_of bad) (0xffff XOR 0) = crc_run (map lsb_of blk) 0xffff XOR crc_run (burst a w z) 0"
    unfolding assms(4) by (rule crc16.run_xor [OF l])
  then have "crc16_ccitt_bits bad (length bad) = TETRA_CRC_OK XOR crc_run (burst a w z) 0"
    using assms(1) by (simp add: crc16_ccitt_bits_def crc16_itut_bits_run)
  then show ?thesis
    using crc16.run_burst_nonzero [of w a z, simplified] assms(2,3)
    by (simp only: xor_eq_left_iff not_False_eq_True)
qed

theorem crc_detects_bursts_witness:
  "crc16_ccitt_bits (crc_bits 0) 16 = TETRA_CRC_OK
   \<and> crc16_ccitt_bits (crc_bits 0x000b) 16 \<noteq> TETRA_CRC_OK"
proof -
  have ok: "crc16_ccitt_bits (crc_bits 0) (length (crc_bits 0)) = TETRA_CRC_OK"
    by code_simp
  have "map lsb_of (crc_bits 0x000b)
      = map2 bxor (map lsb_of (crc_bits 0)) (burst 12 [True, False, True, True] 0)"
    by code_simp
  from crc_detects_bursts [OF ok _ _ this] ok show ?thesis by simp
qed

end
