(* ===== verification/Rm3014.thy ===== *)
theory Rm3014
  imports Prelude "HOL-Library.Sublist"
begin

text \<open>
  The shortened Reed-Muller code RM(30,14) of
  \<^verbatim>\<open>crates/tetra-entities/src/lmac/components/rm3014.rs\<close>, which protects the AACH: encoding by
  precomputed rows, syndromes, and bounded-distance decoding by a search over error patterns of
  weight one, two and three.

  Bit \<open>k\<close> of a codeword, counted from the most significant of its 30 bits, contributes column
  \<open>k\<close> of the parity-check matrix to the syndrome. The search over all sets of at most six
  columns (\<open>light_sets_independent\<close>, evaluated in the kernel) shows that no such set sums to zero;
  all of the decoder's correctness follows from that.
\<close>

section \<open>Tables and operations\<close>

definition RM_30_14_GEN :: "u8 list list" where
  "RM_30_14_GEN = [
    [1, 0, 0, 1, 1, 0, 1, 1, 0, 1, 1, 0, 0, 0, 0, 0],
    [0, 0, 1, 0, 1, 1, 0, 1, 1, 1, 1, 0, 0, 0, 0, 0],
    [1, 1, 1, 1, 1, 1, 0, 0, 0, 0, 1, 0, 0, 0, 0, 0],
    [1, 1, 1, 0, 0, 0, 0, 0, 0, 0, 1, 1, 1, 1, 0, 0],
    [1, 0, 0, 1, 1, 0, 0, 0, 0, 0, 1, 1, 1, 0, 1, 0],
    [0, 1, 0, 1, 0, 1, 0, 0, 0, 0, 1, 1, 0, 1, 1, 0],
    [0, 0, 1, 0, 1, 1, 0, 0, 0, 0, 1, 0, 1, 1, 1, 0],
    [1, 1, 1, 1, 1, 1, 1, 1, 1, 1, 0, 1, 1, 1, 1, 1],
    [1, 0, 0, 0, 0, 0, 1, 1, 0, 0, 1, 1, 1, 0, 0, 1],
    [0, 1, 0, 0, 0, 0, 1, 0, 1, 0, 1, 1, 0, 1, 0, 1],
    [0, 0, 1, 0, 0, 0, 0, 1, 1, 0, 1, 0, 1, 1, 0, 1],
    [0, 0, 0, 1, 0, 0, 1, 0, 0, 1, 1, 1, 0, 0, 1, 1],
    [0, 0, 0, 0, 1, 0, 0, 1, 0, 1, 1, 0, 1, 0, 1, 1],
    [0, 0, 0, 0, 0, 1, 0, 0, 1, 1, 1, 0, 0, 1, 1, 1]]"

definition RM_30_14_ROWS_PRECOMPUTED :: "u32 list" where
  "RM_30_14_ROWS_PRECOMPUTED = [
    0x20009b60, 0x10002de0, 0x0800fc20, 0x0400e03c, 0x0200983a, 0x01005436, 0x00802c2e, 0x0040ffdf,
    0x00208339, 0x001042b5, 0x000821ad, 0x00041273, 0x0002096b, 0x000104e7]"

definition tetra_rm3014_compute :: "u16 \<Rightarrow> u32" where
  "tetra_rm3014_compute input =
     fold (\<lambda>i val. if drop_bit (13 - i) input AND 1 = 1 then val XOR RM_30_14_ROWS_PRECOMPUTED ! i else val)
       [0..<14] 0"

definition tetra_rm3014_decode_naive :: "u32 \<Rightarrow> u16" where
  "tetra_rm3014_decode_naive codeword = ucast (drop_bit 16 codeword)"

definition compute_col_syndromes :: "u16 list" where
  "compute_col_syndromes =
     map (\<lambda>k. fold (\<lambda>j syn. syn OR push_bit j
            (if k < 14 then ucast (RM_30_14_GEN ! k ! j) else of_bool (k - 14 = j))) [0..<16] 0) [0..<30]"

definition COL_SYNDROMES :: "u16 list" where
  "COL_SYNDROMES = compute_col_syndromes"

text \<open>The inner loop of \<open>compute_syndrome\<close> for parity position \<open>j\<close>.\<close>

definition parity_sum :: "u32 \<Rightarrow> nat \<Rightarrow> u8" where
  "parity_sum codeword j =
     fold (\<lambda>i sum. sum XOR (ucast (drop_bit (29 - i) codeword AND 1) AND RM_30_14_GEN ! i ! j)) [0..<14] 0
     XOR ucast (drop_bit (29 - (14 + j)) codeword AND 1)"

definition compute_syndrome :: "u32 \<Rightarrow> u16" where
  "compute_syndrome codeword =
     fold (\<lambda>j syn. if parity_sum codeword j AND 1 \<noteq> 0 then syn OR push_bit j 1 else syn) [0..<16] 0"

record rm3014_decoded =
  rm_data :: u16
  corrected_bits :: nat

text \<open>The error value is the syndrome.\<close>

datatype rm3014_uncorrectable = Rm3014Uncorrectable u16

definition bit_mask :: "nat \<Rightarrow> u32" where
  "bit_mask b = push_bit (29 - b) 1"

text \<open>
  The nested \<open>for\<close> loops return at the first hit; the candidates are listed in the order the
  loops visit them.
\<close>

definition pairs30 :: "(nat \<times> nat) list" where
  "pairs30 = [(i, j). i \<leftarrow> [0..<29], j \<leftarrow> [i + 1..<30]]"

definition triples30 :: "(nat \<times> nat \<times> nat) list" where
  "triples30 = [(i, j, k). i \<leftarrow> [0..<28], j \<leftarrow> [i + 1..<29], k \<leftarrow> [j + 1..<30]]"

definition tetra_rm3014_decode :: "u32 \<Rightarrow> rm3014_uncorrectable + rm3014_decoded" where
  "tetra_rm3014_decode codeword =
     (let syndrome = compute_syndrome codeword in
      if syndrome = 0 then Inr \<lparr>rm_data = ucast (drop_bit 16 codeword), corrected_bits = 0\<rparr>
      else case find (\<lambda>i. COL_SYNDROMES ! i = syndrome) [0..<30] of
        Some i \<Rightarrow> Inr \<lparr>rm_data = ucast (drop_bit 16 (codeword XOR bit_mask i)), corrected_bits = 1\<rparr>
      | None \<Rightarrow>
      (case find (\<lambda>(i, j). COL_SYNDROMES ! i XOR COL_SYNDROMES ! j = syndrome) pairs30 of
        Some (i, j) \<Rightarrow>
          Inr \<lparr>rm_data = ucast (drop_bit 16 (codeword XOR bit_mask i XOR bit_mask j)), corrected_bits = 2\<rparr>
      | None \<Rightarrow>
      (case find (\<lambda>(i, j, k). COL_SYNDROMES ! i XOR COL_SYNDROMES ! j XOR COL_SYNDROMES ! k = syndrome) triples30 of
        Some (i, j, k) \<Rightarrow>
          Inr \<lparr>rm_data = ucast (drop_bit 16 (codeword XOR bit_mask i XOR bit_mask j XOR bit_mask k)), corrected_bits = 3\<rparr>
      | None \<Rightarrow> Inl (Rm3014Uncorrectable syndrome))))"

definition tetra_rm3014_decode_limited_ecc :: "u32 \<Rightarrow> u16" where
  "tetra_rm3014_decode_limited_ecc codeword =
     (case tetra_rm3014_decode codeword of
        Inr decoded \<Rightarrow> rm_data decoded
      | Inl _ \<Rightarrow> tetra_rm3014_decode_naive codeword)"

section \<open>Sums of columns\<close>

interpretation xs16: comm_monoid_set "(XOR)" "0 :: u16"
  by unfold_locales simp_all

interpretation xs32: comm_monoid_set "(XOR)" "0 :: u32"
  by unfold_locales simp_all

definition col :: "nat \<Rightarrow> u16" where
  "col k = COL_SYNDROMES ! k"

abbreviation col_sum :: "nat set \<Rightarrow> u16" where
  "col_sum S \<equiv> xs16.F col S"

abbreviation mask_sum :: "nat set \<Rightarrow> u32" where
  "mask_sum S \<equiv> xs32.F bit_mask S"

lemma col_sum_sym_diff:
  assumes "finite A" and "finite B"
  shows "col_sum ((A - B) \<union> (B - A)) = col_sum A XOR col_sum B"
proof -
  have a: "col_sum A = col_sum (A - B) XOR col_sum (A \<inter> B)"
    using xs16.Int_Diff [OF assms(1), of col B] by (simp add: xor.commute)
  have b: "col_sum B = col_sum (B - A) XOR col_sum (A \<inter> B)"
    using xs16.Int_Diff [OF assms(2), of col A] by (simp add: xor.commute Int_commute)
  have "col_sum ((A - B) \<union> (B - A)) = col_sum (A - B) XOR col_sum (B - A)"
    using assms by (intro xs16.union_disjoint) auto
  then show ?thesis unfolding a b by (simp add: xor.assoc xor.commute xor.left_commute)
qed

text \<open>The columns of the parity bits are unit vectors, so their sum lists them.\<close>

lemma bit_or_fold:
  "bit (fold (\<lambda>j syn. syn OR push_bit j (f j)) js (s :: u16)) n \<longleftrightarrow>
     bit s n \<or> (\<exists>j \<in> set js. bit (push_bit j (f j)) n)"
  by (induction js arbitrary: s) (auto simp: bit_or_iff)

lemma col_nth: "k < 30 \<Longrightarrow> col k = fold (\<lambda>j syn. syn OR push_bit j
     (if k < 14 then ucast (RM_30_14_GEN ! k ! j) else of_bool (k - 14 = j))) [0..<16] 0"
  by (simp add: col_def COL_SYNDROMES_def compute_col_syndromes_def nth_upt_zero del: upt_rec_numeral
      cong: if_cong)

lemma bit_col_parity: "\<lbrakk>14 \<le> k; k < 30\<rbrakk> \<Longrightarrow> bit (col k) n \<longleftrightarrow> n = k - 14"
  by (auto simp: col_nth bit_or_fold bit_simps)

lemma bit_col_sum_parity:
  assumes "finite B" and "B \<subseteq> {14..<30}"
  shows "bit (col_sum B) n \<longleftrightarrow> n + 14 \<in> B"
  using assms
proof (induction B rule: finite_induct)
  case (insert k B)
  then have k: "14 \<le> k" "k < 30" by auto
  show ?case
    using insert bit_col_parity [OF k] by (auto simp: bit_xor_iff)
qed simp

text \<open>Depth-first search over at most \<open>s\<close> of the given rows, on bits so that the kernel evaluates it.\<close>

definition bits16 :: "u16 \<Rightarrow> bool list" where
  "bits16 w = map (bit w) [0..<16]"

fun xor_bits :: "bool list \<Rightarrow> bool list \<Rightarrow> bool list" where
  "xor_bits (True # xs) (True # ys) = False # xor_bits xs ys"
| "xor_bits (False # xs) (True # ys) = True # xor_bits xs ys"
| "xor_bits (True # xs) (False # ys) = True # xor_bits xs ys"
| "xor_bits (False # xs) (False # ys) = False # xor_bits xs ys"
| "xor_bits _ _ = []"

fun at_least :: "nat \<Rightarrow> bool list \<Rightarrow> bool" where
  "at_least 0 xs = True"
| "at_least (Suc n) [] = False"
| "at_least (Suc n) (True # xs) = at_least n xs"
| "at_least (Suc n) (False # xs) = at_least (Suc n) xs"

fun all_heavy :: "bool list list \<Rightarrow> bool list \<Rightarrow> nat \<Rightarrow> bool" where
  "all_heavy rs acc 0 = True"
| "all_heavy [] acc (Suc s) = True"
| "all_heavy (r # rs) acc (Suc s) =
     (all_heavy rs acc (Suc s) \<and> (let a = xor_bits acc r in at_least (Suc s) a \<and> all_heavy rs a s))"

definition weight16 :: "u16 \<Rightarrow> nat" where
  "weight16 w = card {n. bit w n}"

lemma xor_bits_map: "xor_bits (map f ns) (map g ns) = map (\<lambda>n. f n \<noteq> g n) ns"
proof (induction ns)
  case (Cons n ns)
  then show ?case by (cases "f n"; cases "g n") simp_all
qed simp

lemma xor_bits16: "xor_bits (bits16 a) (bits16 b) = bits16 (a XOR b)"
  by (simp add: bits16_def xor_bits_map bit_xor_iff del: upt_rec_numeral)

lemma at_least_filter: "at_least n xs \<longleftrightarrow> n \<le> length (filter id xs)"
  by (induction n xs rule: at_least.induct) auto

lemma at_least_bits16: "at_least n (bits16 w) \<longleftrightarrow> n \<le> weight16 w"
proof -
  have "{n. bit w n} = {n \<in> set [0..<16]. bit w n}"
    using bit_imp_le_length [of w] by (auto simp del: upt_rec_numeral)
  also have "card \<dots> = length (filter (bit w) [0..<16])"
    by (metis distinct_card distinct_filter distinct_upt set_filter)
  finally have "weight16 w = length (filter (bit w) [0..<16])" by (simp only: weight16_def)
  then show ?thesis
    by (simp add: at_least_filter bits16_def filter_map comp_def del: upt_rec_numeral)
qed

lemma all_heavy_sound:
  assumes "all_heavy (map (bits16 \<circ> col) ks) (bits16 acc) s" and "distinct ks"
    and "A \<subseteq> set ks" and "A \<noteq> {}" and "card A \<le> s"
  shows "s < card A + weight16 (acc XOR col_sum A)"
  using assms
proof (induction ks arbitrary: acc s A)
  case (Cons k ks)
  have fin: "finite A" using Cons.prems(3) by (rule finite_subset) simp
  then obtain s' where s: "s = Suc s'"
    using Cons.prems(4,5) by (cases s) auto
  show ?case
  proof (cases "k \<in> A")
    case False
    then show ?thesis using Cons.IH [of acc s A] Cons.prems s by auto
  next
    case True
    let ?A = "A - {k}"
    have split: "col_sum A = col k XOR col_sum ?A" "card A = Suc (card ?A)"
      using xs16.remove [OF fin True, of col] card.remove [OF fin True] by simp_all
    have step: "Suc s' \<le> weight16 (acc XOR col k)"
      "all_heavy (map (bits16 \<circ> col) ks) (bits16 (acc XOR col k)) s'"
      using Cons.prems(1) by (simp_all add: s Let_def xor_bits16 at_least_bits16 comp_def)
    show ?thesis
    proof (cases "?A = {}")
      case True
      then have "col_sum A = col k" "card A = 1" using split by (simp_all only: xs16.empty card.empty) simp_all
      then show ?thesis using step(1) s by simp
    next
      case False
      then show ?thesis
        using Cons.IH [OF step(2), of ?A] Cons.prems split s by (auto simp: xor.assoc)
    qed
  qed
qed simp

lemma light_sets_independent: "all_heavy (map (bits16 \<circ> col) [0..<14]) (bits16 0) 6"
  by code_simp

lemma cols_independent:
  assumes "S \<subseteq> {..<30}" and "card S \<le> 6" and zero: "col_sum S = 0"
  shows "S = {}"
proof -
  let ?A = "S \<inter> {..<14}" and ?B = "S \<inter> {14..<30}"
  have fin: "finite S" using assms(1) by (rule finite_subset) simp
  have un: "?A \<union> ?B = S" and disj: "?A \<inter> ?B = {}" using assms(1) by auto
  have card: "card S = card ?A + card ?B"
    using card_Un_disjoint [of ?A ?B] fin disj un by simp
  have "col_sum S = col_sum ?A XOR col_sum ?B"
    using xs16.union_disjoint [of ?A ?B col] fin disj un by simp
  then have eq: "col_sum ?A = col_sum ?B" using zero by (metis xor_cancel_left xor.right_neutral)
  have "{n. bit (col_sum ?B) n} = (\<lambda>k. k - 14) ` ?B"
    using bit_col_sum_parity [of ?B] fin by (force simp: image_iff)
  moreover have "inj_on (\<lambda>k. k - 14) ?B" by (auto simp: inj_on_def)
  ultimately have w: "weight16 (col_sum ?B) = card ?B" by (simp add: weight16_def card_image)
  have "?A = {}"
  proof (rule ccontr)
    assume "?A \<noteq> {}"
    then have "6 < card ?A + weight16 (0 XOR col_sum ?A)"
      using card assms(2) by (intro all_heavy_sound [OF light_sets_independent]) auto
    then show False using w eq card assms(2) by simp
  qed
  moreover have "?B = {}" using w eq \<open>?A = {}\<close> fin by (auto simp: weight16_def)
  ultimately show ?thesis using un by blast
qed

lemma cols_unique:
  assumes "A \<subseteq> {..<30}" "B \<subseteq> {..<30}" "card A \<le> 3" "card B \<le> 3" and "col_sum A = col_sum B"
  shows "A = B"
proof -
  have fin: "finite A" "finite B" using assms(1,2) by (auto intro: finite_subset)
  have "card ((A - B) \<union> (B - A)) \<le> card (A - B) + card (B - A)" by (rule card_Un_le)
  also have "\<dots> \<le> 3 + 3"
    using assms(3,4) fin by (meson Diff_subset add_mono card_mono le_trans)
  finally have "card ((A - B) \<union> (B - A)) \<le> 6" by simp
  moreover have "col_sum ((A - B) \<union> (B - A)) = 0"
    using assms(5) by (simp add: col_sum_sym_diff fin)
  ultimately have "(A - B) \<union> (B - A) = {}" using assms(1,2) by (intro cols_independent) auto
  then show ?thesis by blast
qed

section \<open>Syndromes\<close>

lemma xor_fold_linear:
  assumes "\<And>i. f i = g i XOR h i"
  shows "fold (\<lambda>i s. s XOR f i) is (a XOR b) = fold (\<lambda>i s. s XOR g i) is a XOR fold (\<lambda>i s. s XOR h i) is (b :: 'a::len word)"
proof (induction "is" arbitrary: a b)
  case (Cons i js)
  have "(a XOR b) XOR f i = (a XOR g i) XOR (b XOR h i)"
    by (simp add: assms xor.assoc xor.left_commute)
  then show ?case using Cons.IH [of "a XOR g i" "b XOR h i"] by simp
qed simp

lemma code_bit_linear:
  "ucast (drop_bit n (a XOR b :: u32) AND 1) = (ucast (drop_bit n a AND 1) XOR ucast (drop_bit n b AND 1) :: u8)"
  by (rule bit_word_eqI) (auto simp: bit_simps)

lemma and_xor_left: "(a XOR b) AND m = (a AND m) XOR (b AND m)" for a b m :: u8
  by (rule bit_word_eqI) (auto simp: bit_simps)

lemma parity_sum_linear: "parity_sum (a XOR b) j = parity_sum a j XOR parity_sum b j"
proof -
  let ?t = "\<lambda>c i. ucast (drop_bit (29 - i) (c :: u32) AND 1) AND RM_30_14_GEN ! i ! j"
  have "fold (\<lambda>i sum. sum XOR ?t (a XOR b) i) [0..<14] (0 XOR 0) =
      fold (\<lambda>i sum. sum XOR ?t a i) [0..<14] 0 XOR fold (\<lambda>i sum. sum XOR ?t b i) [0..<14] 0"
    by (rule xor_fold_linear) (simp only: code_bit_linear and_xor_left)
  then show ?thesis
    unfolding parity_sum_def code_bit_linear
    by (simp add: xor.assoc xor.commute xor.left_commute del: upt_rec_numeral)
qed

lemma bit_syndrome: "bit (compute_syndrome c) n \<longleftrightarrow> n < 16 \<and> bit (parity_sum c n) 0"
proof -
  have "bit (fold (\<lambda>j syn. if P j then syn OR push_bit j 1 else syn) js s) n \<longleftrightarrow>
      bit s n \<or> n < 16 \<and> n \<in> set js \<and> P n" for P js and s :: u16
    by (induction js arbitrary: s) (auto simp: bit_simps)
  moreover have "parity_sum c n AND 1 \<noteq> 0 \<longleftrightarrow> bit (parity_sum c n) 0"
    by (simp add: and_one_eq odd_iff_mod_2_eq_one bit_0 flip: mod_2_eq_odd)
  ultimately show ?thesis by (auto simp: compute_syndrome_def simp del: upt_rec_numeral)
qed

lemma syndrome_linear: "compute_syndrome (a XOR b) = compute_syndrome a XOR compute_syndrome b"
  by (rule bit_word_eqI) (auto simp: bit_syndrome bit_xor_iff parity_sum_linear)

lemma syndrome_zero: "compute_syndrome 0 = 0"
  using syndrome_linear [of 0 0] by (simp only: xor_self_eq)

lemma bit_xor_fold_one_hot:
  assumes "distinct is" and "\<And>i. i \<in> set is \<Longrightarrow> bit (t i) n \<longleftrightarrow> i = k \<and> P"
  shows "bit (fold (\<lambda>i s. s XOR t i) is a) n \<longleftrightarrow> bit a n \<noteq> (k \<in> set is \<and> P)"
  using assms by (induction "is" arbitrary: a) (auto simp: bit_xor_iff)

definition gen_bit :: "nat \<Rightarrow> nat \<Rightarrow> bool" where
  "gen_bit k j \<longleftrightarrow> k < 14 \<and> bit (RM_30_14_GEN ! k ! j) 0"

lemma parity_sum_one_hot:
  assumes "\<And>i. i < 14 \<Longrightarrow> bit c (29 - i) \<longleftrightarrow> i = k"
  shows "bit (parity_sum c j) 0 \<longleftrightarrow> gen_bit k j \<noteq> bit c (15 - j)"
proof -
  let ?t = "\<lambda>i. ucast (drop_bit (29 - i) c AND 1) AND RM_30_14_GEN ! i ! j"
  have "bit (?t i) 0 \<longleftrightarrow> i = k \<and> bit (RM_30_14_GEN ! k ! j) 0" if "i \<in> set [0..<14]" for i
    using assms [of i] that by (auto simp: bit_simps)
  then have "bit (fold (\<lambda>i s. s XOR ?t i) [0..<14] 0) 0 \<longleftrightarrow>
      bit (0 :: u8) 0 \<noteq> (k \<in> set [0..<14] \<and> bit (RM_30_14_GEN ! k ! j) 0)"
    by (intro bit_xor_fold_one_hot distinct_upt)
  then show ?thesis
    by (auto simp: parity_sum_def gen_bit_def bit_simps simp del: upt_rec_numeral)
qed

lemma gen_length: "length RM_30_14_GEN = 14"
  by (simp add: RM_30_14_GEN_def)

lemma gen_rows: "list_all (\<lambda>r. length r = 16 \<and> list_all (\<lambda>b. b = 0 \<or> b = 1) r) RM_30_14_GEN"
  by (simp add: RM_30_14_GEN_def)

lemma bit_gen_entry:
  assumes "k < 14" and "j < 16"
  shows "bit (RM_30_14_GEN ! k ! j) n \<longleftrightarrow> n = 0 \<and> gen_bit k j"
proof -
  have "RM_30_14_GEN ! k \<in> set RM_30_14_GEN" using assms(1) by (simp add: gen_length)
  then have "length (RM_30_14_GEN ! k) = 16 \<and> list_all (\<lambda>b. b = 0 \<or> b = 1) (RM_30_14_GEN ! k)"
    using gen_rows unfolding list_all_iff by blast
  then have "RM_30_14_GEN ! k ! j = 0 \<or> RM_30_14_GEN ! k ! j = 1"
    using assms(2) by (simp add: list_all_length)
  then show ?thesis using assms by (auto simp: gen_bit_def bit_simps)
qed

lemma bit_col: "k < 30 \<Longrightarrow> bit (col k) j \<longleftrightarrow> j < 16 \<and> (if k < 14 then gen_bit k j else k = 14 + j)"
  by (auto simp: col_nth bit_or_fold bit_simps bit_gen_entry simp del: upt_rec_numeral)

lemma bit_bit_mask: "k < 30 \<Longrightarrow> bit (bit_mask k) n \<longleftrightarrow> n = 29 - k"
  by (auto simp: bit_mask_def bit_simps)

lemma syndrome_mask:
  assumes "k < 30"
  shows "compute_syndrome (bit_mask k) = col k"
proof (rule bit_word_eqI)
  fix j assume "j < LENGTH(16)"
  have "bit (parity_sum (bit_mask k) j) 0 \<longleftrightarrow> gen_bit k j \<noteq> bit (bit_mask k) (15 - j)"
    by (rule parity_sum_one_hot) (use assms in \<open>auto simp: bit_bit_mask\<close>)
  then show "bit (compute_syndrome (bit_mask k)) j \<longleftrightarrow> bit (col k) j"
    using assms \<open>j < LENGTH(16)\<close> by (auto simp: bit_syndrome bit_col bit_bit_mask gen_bit_def)
qed

lemma syndrome_mask_sum:
  assumes "finite S" and "S \<subseteq> {..<30}"
  shows "compute_syndrome (mask_sum S) = col_sum S"
  using assms
proof (induction S rule: finite_induct)
qed (simp_all add: syndrome_linear syndrome_mask syndrome_zero)

lemma rows_bits: "list_all (\<lambda>i. (\<forall>k \<in> {..<14}. bit (RM_30_14_ROWS_PRECOMPUTED ! i) (29 - k) \<longleftrightarrow> k = i)
     \<and> \<not> bit (RM_30_14_ROWS_PRECOMPUTED ! i) 30 \<and> \<not> bit (RM_30_14_ROWS_PRECOMPUTED ! i) 31
     \<and> (\<forall>j \<in> {..<16}. bit (RM_30_14_ROWS_PRECOMPUTED ! i) (15 - j) \<longleftrightarrow> gen_bit i j)) [0..<14]"
  by code_simp

lemma row_syndrome:
  assumes "i < 14"
  shows "compute_syndrome (RM_30_14_ROWS_PRECOMPUTED ! i) = 0"
proof (rule bit_word_eqI)
  fix j assume "j < LENGTH(16)"
  moreover have "bit (parity_sum (RM_30_14_ROWS_PRECOMPUTED ! i) j) 0 \<longleftrightarrow>
      gen_bit i j \<noteq> bit (RM_30_14_ROWS_PRECOMPUTED ! i) (15 - j)"
    by (rule parity_sum_one_hot) (use assms rows_bits in \<open>simp add: list_all_iff del: upt_rec_numeral\<close>)
  ultimately show "bit (compute_syndrome (RM_30_14_ROWS_PRECOMPUTED ! i)) j \<longleftrightarrow> bit (0 :: u16) j"
    using assms rows_bits by (simp add: bit_syndrome list_all_iff del: upt_rec_numeral)
qed

lemma row_data:
  assumes "i < 14"
  shows "bit (drop_bit 16 (RM_30_14_ROWS_PRECOMPUTED ! i)) n \<longleftrightarrow> n = 13 - i"
proof -
  let ?r = "RM_30_14_ROWS_PRECOMPUTED ! i"
  have r: "\<And>k. k < 14 \<Longrightarrow> bit ?r (29 - k) \<longleftrightarrow> k = i" "\<not> bit ?r 30" "\<not> bit ?r 31"
    using assms rows_bits by (simp_all add: list_all_iff del: upt_rec_numeral)
  consider "n < 14" | "n = 14" | "n = 15" | "16 \<le> n" by linarith
  then show ?thesis
    using r(2,3) r(1) [of "13 - n"] assms bit_imp_le_length [of ?r "16 + n"]
    by cases (auto simp: bit_drop_bit_eq add.commute)
qed

section \<open>Codewords\<close>

lemma drop_bit_and_one: "drop_bit n (w :: u16) AND 1 = 1 \<longleftrightarrow> bit w n"
  by (simp add: and_one_eq bit_iff_odd_drop_bit mod_2_eq_odd)

lemma compute_fold: "tetra_rm3014_compute d =
    fold (\<lambda>i v. v XOR (if bit d (13 - i) then RM_30_14_ROWS_PRECOMPUTED ! i else 0)) [0..<14] 0"
  unfolding tetra_rm3014_compute_def drop_bit_and_one
  by (intro fold_cong) auto

lemma syndrome_compute: "compute_syndrome (tetra_rm3014_compute d) = 0"
proof -
  have "compute_syndrome (fold (\<lambda>i v. v XOR (if P i then RM_30_14_ROWS_PRECOMPUTED ! i else 0)) is v) = compute_syndrome v"
    if "set is \<subseteq> {..<14}" for P "is" v
    using that
  proof (induction "is" arbitrary: v)
    case (Cons i js)
    then have "compute_syndrome (RM_30_14_ROWS_PRECOMPUTED ! i) = 0"
      using Cons.prems(1) by (simp add: row_syndrome)
    then show ?case using Cons by (simp add: syndrome_linear syndrome_zero)
  qed simp
  then show ?thesis unfolding compute_fold by (simp add: syndrome_zero subset_eq del: upt_rec_numeral)
qed

lemma bit_high_compute: "bit (drop_bit 16 (tetra_rm3014_compute d)) n \<longleftrightarrow> n < 14 \<and> bit d n"
proof -
  have "bit (drop_bit 16 (fold (\<lambda>i v. v XOR (if P i then RM_30_14_ROWS_PRECOMPUTED ! i else 0)) is v)) n
      \<longleftrightarrow> bit (drop_bit 16 v) n \<noteq> (n < 14 \<and> 13 - n \<in> set is \<and> P (13 - n))"
    if "set is \<subseteq> {..<14}" "distinct is" for P "is" v
    using that
  proof (induction "is" arbitrary: v)
    case (Cons i js)
    have "bit (drop_bit 16 (RM_30_14_ROWS_PRECOMPUTED ! i)) n \<longleftrightarrow> n = 13 - i"
      using Cons.prems(1) by (simp add: row_data)
    then show ?case using Cons by (auto simp: bit_xor_iff)
  qed simp
  then show ?thesis unfolding compute_fold by (auto simp: subset_eq simp del: upt_rec_numeral)
qed

lemma data_compute: "ucast (drop_bit 16 (tetra_rm3014_compute d)) = take_bit 14 d"
  by (rule bit_word_eqI) (auto simp: bit_high_compute bit_take_bit_iff bit_unsigned_iff)

text \<open>The positions of the bits set in a received word, counted from bit 29.\<close>

definition ones :: "u32 \<Rightarrow> nat set" where
  "ones w = {k. k < 30 \<and> bit w (29 - k)}"

lemma ones_subset: "ones w \<subseteq> {..<30}"
  by (auto simp: ones_def)

lemma bit_mask_sum:
  assumes "finite S" and "S \<subseteq> {..<30}"
  shows "bit (mask_sum S) n \<longleftrightarrow> n < 30 \<and> 29 - n \<in> S"
  using assms
proof (induction S rule: finite_induct)
  case (insert k S)
  then show ?case by (auto simp: bit_xor_iff bit_bit_mask)
qed simp

lemma finite_ones [simp]: "finite (ones w)"
  by (rule finite_subset [OF ones_subset]) simp

lemma mask_sum_ones:
  assumes "take_bit 30 w = w"
  shows "mask_sum (ones w) = w"
proof (rule bit_word_eqI)
  fix n
  have "bit w n \<Longrightarrow> n < 30" using assms by (metis bit_take_bit_iff)
  then show "bit (mask_sum (ones w)) n \<longleftrightarrow> bit w n"
    using bit_mask_sum [OF finite_ones ones_subset, of w n] by (auto simp: ones_def)
qed

section \<open>The decoder\<close>

lemma find_unique:
  assumes "x \<in> set xs" and "P x" and "\<And>y. \<lbrakk>y \<in> set xs; P y\<rbrakk> \<Longrightarrow> y = x"
  shows "find P xs = Some x"
  using assms
proof (induction xs)
  case (Cons y ys)
  show ?case
  proof (cases "P y")
    case True
    then show ?thesis using Cons.prems(3) [of y] by simp
  next
    case False
    then have "x \<in> set ys" using Cons.prems(1,2) by auto
    then have "find P ys = Some x"
      by (rule Cons.IH [OF _ Cons.prems(2)]) (rule Cons.prems(3), simp_all)
    then show ?thesis using False by simp
  qed
qed simp

lemma set_pairs30: "(i, j) \<in> set pairs30 \<longleftrightarrow> i < j \<and> j < 30"
  by (force simp: pairs30_def simp del: upt_rec_numeral)

lemma set_triples30: "(i, j, k) \<in> set triples30 \<longleftrightarrow> i < j \<and> j < k \<and> k < 30"
proof
  show "(i, j, k) \<in> set triples30" if "i < j \<and> j < k \<and> k < 30"
    unfolding triples30_def using that
    by (simp del: upt_rec_numeral) (intro bexI [of _ i] bexI [of _ j] image_eqI [of _ _ k]; simp)
qed (auto simp: triples30_def simp del: upt_rec_numeral)

lemma col_sum_singleton: "COL_SYNDROMES ! i = col_sum {i}"
  by (simp add: col_def)

lemma col_sum_pair: "i < j \<Longrightarrow> COL_SYNDROMES ! i XOR COL_SYNDROMES ! j = col_sum {i, j}"
  by (simp add: col_def)

lemma col_sum_triple: "\<lbrakk>i < j; j < k\<rbrakk> \<Longrightarrow>
    COL_SYNDROMES ! i XOR COL_SYNDROMES ! j XOR COL_SYNDROMES ! k = col_sum {i, j, k}"
  by (simp add: col_def xor.assoc)

text \<open>A received word whose syndrome is that of the error positions \<open>S\<close>.\<close>

definition explains :: "nat set \<Rightarrow> u32 \<Rightarrow> bool" where
  "explains S c \<longleftrightarrow> S \<subseteq> {..<30} \<and> card S \<le> 3 \<and> compute_syndrome c = col_sum S"

lemma explains_unique: "\<lbrakk>explains S c; explains T c\<rbrakk> \<Longrightarrow> S = T"
  unfolding explains_def by (intro cols_unique) auto

lemma find_single:
  "explains {i} c \<Longrightarrow> find (\<lambda>i. COL_SYNDROMES ! i = compute_syndrome c) [0..<30] = Some i"
  "(\<And>i. \<not> explains {i} c) \<Longrightarrow> find (\<lambda>i. COL_SYNDROMES ! i = compute_syndrome c) [0..<30] = None"
proof -
  have e: "j < 30 \<and> COL_SYNDROMES ! j = compute_syndrome c \<longleftrightarrow> explains {j} c" for j
    by (auto simp: explains_def col_sum_singleton)
  show "find (\<lambda>i. COL_SYNDROMES ! i = compute_syndrome c) [0..<30] = Some i" if "explains {i} c"
    using that e explains_unique [OF that] by (intro find_unique) (auto simp del: upt_rec_numeral)
  show "find (\<lambda>i. COL_SYNDROMES ! i = compute_syndrome c) [0..<30] = None" if "\<And>i. \<not> explains {i} c"
    using that e by (auto simp: find_None_iff simp del: upt_rec_numeral)
qed

lemma find_pair:
  "\<lbrakk>explains {i, j} c; i < j\<rbrakk> \<Longrightarrow>
     find (\<lambda>(i, j). COL_SYNDROMES ! i XOR COL_SYNDROMES ! j = compute_syndrome c) pairs30 = Some (i, j)"
  "(\<And>i j. i < j \<Longrightarrow> \<not> explains {i, j} c) \<Longrightarrow>
     find (\<lambda>(i, j). COL_SYNDROMES ! i XOR COL_SYNDROMES ! j = compute_syndrome c) pairs30 = None"
proof -
  let ?P = "\<lambda>(i, j). COL_SYNDROMES ! i XOR COL_SYNDROMES ! j = compute_syndrome c"
  have e: "(a, b) \<in> set pairs30 \<and> ?P (a, b) \<longleftrightarrow> a < b \<and> explains {a, b} c" for a b
    by (auto simp: explains_def col_sum_pair set_pairs30)
  show "find ?P pairs30 = Some (i, j)" if "explains {i, j} c" "i < j"
  proof (rule find_unique)
    fix p assume p: "p \<in> set pairs30" "?P p"
    obtain a b where [simp]: "p = (a, b)" by (cases p)
    have "a < b" "explains {a, b} c" using e [of a b] p by auto
    moreover from this(2) have "{i, j} = {a, b}" by (rule explains_unique [OF that(1)])
    ultimately show "p = (i, j)" using that(2) by (auto simp: doubleton_eq_iff)
  qed (use e [of i j] that in auto)
  show "find ?P pairs30 = None" if "\<And>i j. i < j \<Longrightarrow> \<not> explains {i, j} c"
    using that e by (auto simp: find_None_iff)
qed

lemma find_triple:
  "\<lbrakk>explains {i, j, k} c; i < j; j < k\<rbrakk> \<Longrightarrow>
     find (\<lambda>(i, j, k). COL_SYNDROMES ! i XOR COL_SYNDROMES ! j XOR COL_SYNDROMES ! k = compute_syndrome c) triples30
       = Some (i, j, k)"
  "(\<And>i j k. \<lbrakk>i < j; j < k\<rbrakk> \<Longrightarrow> \<not> explains {i, j, k} c) \<Longrightarrow>
     find (\<lambda>(i, j, k). COL_SYNDROMES ! i XOR COL_SYNDROMES ! j XOR COL_SYNDROMES ! k = compute_syndrome c) triples30
       = None"
proof -
  let ?P = "\<lambda>(i, j, k). COL_SYNDROMES ! i XOR COL_SYNDROMES ! j XOR COL_SYNDROMES ! k = compute_syndrome c"
  have e: "(x, y, z) \<in> set triples30 \<and> ?P (x, y, z) \<longleftrightarrow> x < y \<and> y < z \<and> explains {x, y, z} c" for x y z
    by (auto simp: explains_def col_sum_triple set_triples30)
  show "find ?P triples30 = Some (i, j, k)" if "explains {i, j, k} c" "i < j" "j < k"
  proof (rule find_unique)
    fix p assume p: "p \<in> set triples30" "?P p"
    obtain x y z where [simp]: "p = (x, y, z)" by (cases p)
    have lt: "x < y" "y < z" and "explains {x, y, z} c" using e [of x y z] p by auto
    then have "set [x, y, z] = set [i, j, k]" using explains_unique [OF that(1)] by simp
    then have "[x, y, z] = [i, j, k]"
      using lt that(2,3) by (intro strict_sorted_equal) auto
    then show "p = (i, j, k)" by simp
  qed (use e [of i j k] that in auto)
  show "find ?P triples30 = None" if "\<And>i j k. \<lbrakk>i < j; j < k\<rbrakk> \<Longrightarrow> \<not> explains {i, j, k} c"
    using that e by (auto simp: find_None_iff)
qed

lemma list_upto3_cases:
  obtains "xs = []" | i where "xs = [i]" | i j where "xs = [i, j]" | i j k where "xs = [i, j, k]"
    | "3 < length xs"
  by (metis length_Cons list.exhaust not_less_eq numeral_3_eq_3 zero_less_Suc)

lemma small_set_cases:
  fixes S :: "nat set"
  assumes "finite S" and "card S \<le> 3"
  obtains "S = {}" | i where "S = {i}" | i j where "S = {i, j}" "i < j"
    | i j k where "S = {i, j, k}" "i < j" "j < k"
proof -
  have s: "sorted_list_of_set S = xs \<Longrightarrow> S = set xs" for xs using assms(1) by auto
  have sd: "sorted_wrt (<) (sorted_list_of_set S)" by (rule strict_sorted_list_of_set)
  have len: "length (sorted_list_of_set S) \<le> 3" using assms by simp
  consider "sorted_list_of_set S = []" | i where "sorted_list_of_set S = [i]"
    | i j where "sorted_list_of_set S = [i, j]" | i j k where "sorted_list_of_set S = [i, j, k]"
    using len by (cases "sorted_list_of_set S" rule: list_upto3_cases) auto
  then show thesis using that s sd by cases auto
qed

lemma decode_explained:
  assumes "explains S c"
  shows "tetra_rm3014_decode c =
    Inr \<lparr>rm_data = ucast (drop_bit 16 (c XOR mask_sum S)), corrected_bits = card S\<rparr>"
proof -
  have fin: "finite S" and "card S \<le> 3"
    using assms by (auto simp: explains_def intro: finite_subset)
  have only: "explains T c \<longleftrightarrow> T = S" for T using assms explains_unique by blast
  have sub: "S \<subseteq> {..<30}" using assms by (simp add: explains_def)
  have zero: "compute_syndrome c = 0 \<longleftrightarrow> S = {}"
    using only [of "{}"] by (auto simp: explains_def)
  have ne: "S \<noteq> {i}" if "card S \<noteq> 1" for i using that by auto
  show ?thesis
    using fin \<open>card S \<le> 3\<close>
  proof (cases rule: small_set_cases)
    case 1
    then show ?thesis using zero by (simp add: tetra_rm3014_decode_def)
  next
    case (2 i)
    then show ?thesis using zero only find_single(1) [of i c] by (simp add: tetra_rm3014_decode_def)
  next
    case (3 i j)
    have "\<not> explains {k} c" for k using only 3 by (auto simp: doubleton_eq_iff)
    then show ?thesis
      using zero 3 only find_single(2) [of c] find_pair(1) [of i j c]
      by (simp add: tetra_rm3014_decode_def xor.assoc)
  next
    case (4 i j k)
    have "\<not> explains {x} c" for x using only 4 by (metis less_irrefl insertCI singletonD)
    moreover have "\<not> explains {x, y} c" for x y
      using only 4 by (metis insertCI insertE less_irrefl less_trans singletonD)
    ultimately show ?thesis
      using zero 4 only find_single(2) [of c] find_pair(2) [of c] find_triple(1) [of i j k c]
      by (simp add: tetra_rm3014_decode_def xor.assoc)
  qed
qed

lemma decode_unexplained:
  assumes "\<And>S. \<not> explains S c"
  shows "tetra_rm3014_decode c = Inl (Rm3014Uncorrectable (compute_syndrome c))"
proof -
  have "compute_syndrome c \<noteq> 0" using assms [of "{}"] by (simp add: explains_def)
  then show ?thesis
    using find_single(2) [of c] find_pair(2) [of c] find_triple(2) [of c] assms
    by (simp add: tetra_rm3014_decode_def)
qed

lemma decode_cases:
  "(\<exists>S. explains S c \<and> tetra_rm3014_decode c =
      Inr \<lparr>rm_data = ucast (drop_bit 16 (c XOR mask_sum S)), corrected_bits = card S\<rparr>) \<or>
   (\<forall>S. \<not> explains S c) \<and> tetra_rm3014_decode c = Inl (Rm3014Uncorrectable (compute_syndrome c))"
  using decode_explained decode_unexplained by blast

lemma explains_error:
  assumes "card (ones e) \<le> 3" and "take_bit 30 e = e"
  shows "explains (ones e) (tetra_rm3014_compute d XOR e)"
  using assms syndrome_mask_sum [OF finite_ones ones_subset, of e]
  by (simp add: explains_def ones_subset syndrome_linear syndrome_compute mask_sum_ones)

text \<open>A word of 30 bits with syndrome zero is a codeword.\<close>

lemma bit_compute_high: "16 \<le> n \<Longrightarrow> bit (tetra_rm3014_compute d) n \<longleftrightarrow> n < 30 \<and> bit d (n - 16)"
  using bit_high_compute [of d "n - 16"] by (auto simp: bit_drop_bit_eq)

lemma take_bit_compute: "take_bit 30 (tetra_rm3014_compute d) = tetra_rm3014_compute d"
proof (rule bit_word_eqI)
  fix n
  show "bit (take_bit 30 (tetra_rm3014_compute d)) n \<longleftrightarrow> bit (tetra_rm3014_compute d) n"
    using bit_compute_high [of n d] by (cases "n < 30") (auto simp: bit_take_bit_iff)
qed

lemma take_bit_xor30: "\<lbrakk>take_bit 30 a = a; take_bit 30 b = b\<rbrakk> \<Longrightarrow> take_bit 30 (a XOR b) = a XOR (b :: u32)"
  by simp

lemma mask_sum_30: "S \<subseteq> {..<30} \<Longrightarrow> take_bit 30 (mask_sum S) = mask_sum S"
  using bit_mask_sum [of S] finite_subset [of S "{..<30}"]
  by (intro bit_word_eqI) (auto simp: bit_take_bit_iff)

lemma ones_mask_sum: "S \<subseteq> {..<30} \<Longrightarrow> ones (mask_sum S) = S"
  using bit_mask_sum [of S] finite_subset [of S "{..<30}"] by (auto simp: ones_def)

lemma syndrome_zero_codeword:
  assumes "compute_syndrome c = 0" and "take_bit 30 c = c"
  shows "tetra_rm3014_compute (ucast (drop_bit 16 c)) = c"
proof -
  let ?d = "ucast (drop_bit 16 c) :: u16"
  let ?e = "c XOR tetra_rm3014_compute ?d"
  have e: "mask_sum (ones ?e) = ?e"
    by (intro mask_sum_ones take_bit_xor30 assms(2) take_bit_compute)
  have low: "ones ?e \<subseteq> {14..<30}"
  proof
    fix k assume k: "k \<in> ones ?e"
    then have "k < 30" "bit ?e (29 - k)" by (auto simp: ones_def)
    moreover have "\<not> bit ?e (29 - k)" if "k < 14"
      using that bit_compute_high [of "29 - k" ?d]
      by (auto simp: bit_xor_iff bit_unsigned_iff bit_drop_bit_eq)
    ultimately show "k \<in> {14..<30}" by force
  qed
  have "col_sum (ones ?e) = compute_syndrome ?e"
    using syndrome_mask_sum [OF finite_ones ones_subset, of ?e] e by simp
  also have "\<dots> = 0" by (simp add: syndrome_linear assms(1) syndrome_compute)
  finally have "k + 14 \<notin> ones ?e" for k
    using bit_col_sum_parity [OF finite_ones low, of k] by simp
  then have "ones ?e = {}" using low by (metis add.commute atLeastLessThan_iff ex_in_conv le_Suc_ex subsetD)
  then have "?e = 0" using e by simp
  then show ?thesis by (metis xor_cancel_left xor.right_neutral)
qed

lemma explains_codeword:
  assumes "explains S c" and "take_bit 30 c = c"
  shows "tetra_rm3014_compute (ucast (drop_bit 16 (c XOR mask_sum S))) = c XOR mask_sum S"
proof (rule syndrome_zero_codeword)
  have sub: "S \<subseteq> {..<30}" using assms(1) by (simp add: explains_def)
  then have "finite S" by (rule finite_subset) simp
  then show "compute_syndrome (c XOR mask_sum S) = 0"
    using assms(1) sub by (simp add: explains_def syndrome_linear syndrome_mask_sum)
  show "take_bit 30 (c XOR mask_sum S) = c XOR mask_sum S"
    by (intro take_bit_xor30 assms(2) mask_sum_30 sub)
qed

lemma explains_near:
  assumes "take_bit 30 c = c" and "card (ones (c XOR tetra_rm3014_compute d)) \<le> 3"
  shows "explains (ones (c XOR tetra_rm3014_compute d)) c"
proof -
  let ?e = "c XOR tetra_rm3014_compute d"
  have "take_bit 30 ?e = ?e" by (intro take_bit_xor30 assms(1) take_bit_compute)
  from explains_error [OF assms(2) this, of d] show ?thesis
    by (simp add: xor.commute [of c])
qed

lemma Collect_less_list: "{k. k < 30 \<and> P k} = set (filter P [0..<30])"
  by (auto simp del: upt_rec_numeral)

lemma ones_three_example: "card (ones 0x20010001) = 3"
proof -
  have "ones 0x20010001 = {0, 13, 29}"
    unfolding ones_def Collect_less_list by code_simp
  then show ?thesis by simp
qed

section \<open>Properties\<close>

text \<open>C7: The AACH code corrects every pattern of at most three bit errors: whichever 14-bit word is
  encoded and whichever at most three of the 30 bits are flipped, decoding succeeds, returns the
  word that was encoded, and reports the exact number of flipped bits.\<close>

theorem rm3014_corrects_three_errors:
  assumes "take_bit 30 e = e" and "card (ones e) \<le> 3"
  shows "tetra_rm3014_decode (tetra_rm3014_compute d XOR e) =
    Inr \<lparr>rm_data = take_bit 14 d, corrected_bits = card (ones e)\<rparr>"
  using decode_explained [OF explains_error [OF assms(2,1)], of d]
  by (simp add: mask_sum_ones assms xor.assoc data_compute)

theorem rm3014_corrects_three_errors_witness:
  "tetra_rm3014_decode (tetra_rm3014_compute 0x1234 XOR 0x20010001) =
    Inr \<lparr>rm_data = take_bit 14 0x1234, corrected_bits = card (ones 0x20010001)\<rparr>"
  using rm3014_corrects_three_errors [of "0x20010001" "0x1234"] ones_three_example by simp

text \<open>The decoder never guesses: on a word of 30 bits it fails exactly when every codeword differs from
  the word in more than three positions, and when it succeeds the codeword of the returned data
  differs from the received word in exactly the reported number of positions.\<close>

lemma rm3014_bounded_distance:
  assumes "take_bit 30 c = c"
  shows "case tetra_rm3014_decode c of
      Inl _ \<Rightarrow> (\<forall>d. 3 < card (ones (c XOR tetra_rm3014_compute d)))
    | Inr r \<Rightarrow> corrected_bits r \<le> 3 \<and> card (ones (c XOR tetra_rm3014_compute (rm_data r))) = corrected_bits r"
proof (cases "\<exists>S. explains S c")
  case True
  then obtain S where S: "explains S c" ..
  then have "c XOR (c XOR mask_sum S) = mask_sum S" and "S \<subseteq> {..<30}" and "card S \<le> 3"
    by (simp_all add: explains_def)
  then show ?thesis
    using explains_codeword [OF S assms] ones_mask_sum [of S] by (simp add: decode_explained [OF S] del: drop_bit_xor)
next
  case False
  then have "3 < card (ones (c XOR tetra_rm3014_compute d))" for d
    using explains_near [OF assms, of d] by (meson not_le)
  then show ?thesis using False by (simp add: decode_unexplained)
qed

theorem rm3014_bounded_distance_witness:
  "case tetra_rm3014_decode 0x0F of
      Inl _ \<Rightarrow> (\<forall>d. 3 < card (ones (0x0F XOR tetra_rm3014_compute d)))
    | Inr r \<Rightarrow> corrected_bits r \<le> 3 \<and> card (ones (0x0F XOR tetra_rm3014_compute (rm_data r))) = corrected_bits r"
  by (rule rm3014_bounded_distance) simp

end
