(* ===== verification/Bit_Buffer.thy ===== *)
theory Bit_Buffer
  imports Prelude
begin

text \<open>
  The interface of \<open>BitBuffer\<close>, which the stack takes from another package. Its operations are a
  record that every definition using a buffer receives as an argument; what the callers rely on
  is the locale \<open>bit_buffer\<close>: through a view of the buffer as raw bits with a window and a cursor,
  every operation acts as its name and its callers say, as long as it stays inside the window.
  A buffer made by \<open>new_autoexpand\<close> starts empty and grows when written at its end. Reading a
  field beyond the window is an error value; of other calls beyond it nothing is assumed: they may
  panic. \<open>pdu_parse_err\<close> has the constructors of the package's \<open>PduParseErr\<close> that the repository
  names; \<open>bb_expect_failed\<close>, \<open>bb_expect_value\<close> and \<open>bb_expect_number\<close> are its checking macros (the last
  is \<open>expect_value!\<close> on numbers, without a message).

  \<open>view_ops\<close> is the machine on views itself; it satisfies the interface.
\<close>

section \<open>Views\<close>

record buf_view =
  raw_bits :: "bool list"
  raw_start :: nat
  raw_pos :: nat
  raw_end :: nat
  raw_auto :: bool

definition view_wf :: "buf_view \<Rightarrow> bool" where
  "view_wf v \<longleftrightarrow> raw_start v \<le> raw_pos v \<and> raw_pos v \<le> raw_end v \<and> raw_end v \<le> length (raw_bits v)"

definition window :: "buf_view \<Rightarrow> bool list" where
  "window v = take (raw_end v - raw_start v) (drop (raw_start v) (raw_bits v))"

definition remaining :: "buf_view \<Rightarrow> bool list" where
  "remaining v = take (raw_end v - raw_pos v) (drop (raw_pos v) (raw_bits v))"

definition at_start :: "buf_view \<Rightarrow> bool list \<Rightarrow> bool" where
  "at_start v xs \<longleftrightarrow> view_wf v \<and> window v = xs \<and> raw_pos v = raw_start v"

text \<open>Unsigned values, most significant bit first.\<close>

definition bits_val :: "bool list \<Rightarrow> nat" where
  "bits_val bs = foldl (\<lambda>a b. 2 * a + of_bool b) 0 bs"

fun val_bits :: "nat \<Rightarrow> nat \<Rightarrow> bool list" where
  "val_bits 0 v = []"
| "val_bits (Suc n) v = val_bits n (v div 2) @ [odd v]"

definition overwrite :: "bool list \<Rightarrow> nat \<Rightarrow> bool list \<Rightarrow> bool list" where
  "overwrite xs p ys = take p xs @ ys @ drop (p + length ys) xs"

definition bit_of :: "bool \<Rightarrow> u8" where
  "bit_of b = of_bool b"

text \<open>
  Writing at the cursor, and when it is covered: inside the window, or at the end of a buffer that
  grows. Reading moves the cursor.
\<close>

definition growable :: "buf_view \<Rightarrow> bool" where
  "growable v \<longleftrightarrow> raw_auto v \<and> raw_end v = length (raw_bits v)"

definition can_write :: "buf_view \<Rightarrow> nat \<Rightarrow> bool" where
  "can_write v n \<longleftrightarrow> view_wf v \<and> (raw_pos v + n \<le> raw_end v \<or> growable v)"

definition put_bits :: "buf_view \<Rightarrow> bool list \<Rightarrow> buf_view" where
  "put_bits v ys = v\<lparr>raw_bits := overwrite (raw_bits v) (raw_pos v) ys, raw_pos := raw_pos v + length ys,
     raw_end := max (raw_end v) (raw_pos v + length ys)\<rparr>"

definition advance :: "buf_view \<Rightarrow> nat \<Rightarrow> buf_view" where
  "advance v n = v\<lparr>raw_pos := raw_pos v + n\<rparr>"

section \<open>The interface\<close>

datatype pdu_parse_err =
    BufferEnded "string option"
  | FieldNotPresent "string option"
  | Inconsistency string string
  | InconsistentLength nat nat
  | InvalidElemId nat
  | InvalidPduType nat nat
  | InvalidTrailingMbitValue
  | InvalidValue string nat
  | NotImplemented "string option"

record 'b bitbuf_ops =
  bb_new :: "nat \<Rightarrow> 'b"
  bb_new_autoexpand :: "nat \<Rightarrow> 'b"
  bb_from_bitarr :: "u8 list \<Rightarrow> 'b option"
  bb_from_bitbuffer_pos :: "'b \<Rightarrow> 'b"
  bb_get_len :: "'b \<Rightarrow> nat"
  bb_get_len_remaining :: "'b \<Rightarrow> nat"
  bb_get_len_written :: "'b \<Rightarrow> nat"
  bb_get_pos :: "'b \<Rightarrow> nat"
  bb_get_raw_start :: "'b \<Rightarrow> nat"
  bb_get_raw_pos :: "'b \<Rightarrow> nat"
  bb_get_raw_end :: "'b \<Rightarrow> nat"
  bb_seek :: "'b \<Rightarrow> nat \<Rightarrow> 'b option"
  bb_seek_rel :: "'b \<Rightarrow> int \<Rightarrow> 'b option"
  bb_to_bitarr :: "'b \<Rightarrow> nat \<Rightarrow> (u8 list \<times> 'b) option"
  bb_read_bits :: "'b \<Rightarrow> nat \<Rightarrow> nat option \<times> 'b"
  bb_read_bit :: "'b \<Rightarrow> u8 option \<times> 'b"
  bb_read_field :: "'b \<Rightarrow> nat \<Rightarrow> string \<Rightarrow> (pdu_parse_err + nat) \<times> 'b"
  bb_peek_bits :: "'b \<Rightarrow> nat \<Rightarrow> nat option"
  bb_peek_bits_startoffset :: "'b \<Rightarrow> nat \<Rightarrow> nat \<Rightarrow> nat option"
  bb_peek_bits_posoffset :: "'b \<Rightarrow> nat \<Rightarrow> nat \<Rightarrow> nat option"
  bb_write_bits :: "'b \<Rightarrow> nat \<Rightarrow> nat \<Rightarrow> 'b option"
  bb_write_bit :: "'b \<Rightarrow> u8 \<Rightarrow> 'b option"
  bb_write_zeroes :: "'b \<Rightarrow> nat \<Rightarrow> 'b option"
  bb_copy_bits :: "'b \<Rightarrow> 'b \<Rightarrow> nat \<Rightarrow> ('b \<times> 'b) option"
  bb_xor_bit :: "'b \<Rightarrow> u8 \<Rightarrow> 'b option"
  bb_set_raw_start :: "'b \<Rightarrow> nat \<Rightarrow> 'b option"
  bb_set_raw_pos :: "'b \<Rightarrow> nat \<Rightarrow> 'b option"
  bb_set_raw_end :: "'b \<Rightarrow> nat \<Rightarrow> 'b option"
  bb_expect_failed :: "nat \<Rightarrow> string \<Rightarrow> pdu_parse_err"
  bb_expect_value :: "bool \<Rightarrow> bool \<Rightarrow> string \<Rightarrow> pdu_parse_err + unit"
  bb_expect_number :: "nat \<Rightarrow> nat \<Rightarrow> pdu_parse_err + unit"

locale bit_buffer =
  fixes ops :: "'b bitbuf_ops" and view :: "'b \<Rightarrow> buf_view"
  assumes new_buf: "at_start (view (bb_new ops n)) (replicate n False)"
    and new_autoexpand: "view (bb_new_autoexpand ops n) =
      \<lparr>raw_bits = [], raw_start = 0, raw_pos = 0, raw_end = 0, raw_auto = True\<rparr>"
    and from_bitarr: "\<exists>b. bb_from_bitarr ops (map bit_of xs) = Some b \<and> at_start (view b) xs"
    and from_bitbuffer_pos: "view_wf (view b) \<Longrightarrow> at_start (view (bb_from_bitbuffer_pos ops b)) (remaining (view b))"
    and get_len: "view_wf (view b) \<Longrightarrow> bb_get_len ops b = raw_end (view b) - raw_start (view b)"
    and get_len_remaining: "view_wf (view b) \<Longrightarrow> bb_get_len_remaining ops b = raw_end (view b) - raw_pos (view b)"
    and get_len_written: "view_wf (view b) \<Longrightarrow> bb_get_len_written ops b = raw_pos (view b) - raw_start (view b)"
    and get_pos: "view_wf (view b) \<Longrightarrow> bb_get_pos ops b = raw_pos (view b) - raw_start (view b)"
    and get_raw_start: "bb_get_raw_start ops b = raw_start (view b)"
    and get_raw_pos: "bb_get_raw_pos ops b = raw_pos (view b)"
    and get_raw_end: "bb_get_raw_end ops b = raw_end (view b)"
    and seek: "\<lbrakk>view_wf (view b); raw_start (view b) + p \<le> raw_end (view b)\<rbrakk> \<Longrightarrow>
      map_option view (bb_seek ops b p) = Some ((view b)\<lparr>raw_pos := raw_start (view b) + p\<rparr>)"
    and seek_rel: "\<lbrakk>view_wf (view b); int (raw_start (view b)) \<le> int (raw_pos (view b)) + d;
        int (raw_pos (view b)) + d \<le> int (raw_end (view b))\<rbrakk> \<Longrightarrow>
      map_option view (bb_seek_rel ops b d) = Some ((view b)\<lparr>raw_pos := nat (int (raw_pos (view b)) + d)\<rparr>)"
    and to_bitarr: "\<lbrakk>view_wf (view b); raw_pos (view b) + n \<le> raw_end (view b)\<rbrakk> \<Longrightarrow>
      \<exists>b' p. bb_to_bitarr ops b n = Some (map bit_of (take n (drop (raw_pos (view b)) (raw_bits (view b)))), b')
        \<and> view b' = (view b)\<lparr>raw_pos := p\<rparr> \<and> view_wf (view b')"
    and read_bits: "\<lbrakk>view_wf (view b); n \<le> 64; raw_pos (view b) + n \<le> raw_end (view b)\<rbrakk> \<Longrightarrow>
      \<exists>b'. bb_read_bits ops b n = (Some (bits_val (take n (drop (raw_pos (view b)) (raw_bits (view b))))), b')
        \<and> view b' = advance (view b) n"
    and read_bits_short: "\<lbrakk>view_wf (view b); \<not> raw_pos (view b) + n \<le> raw_end (view b)\<rbrakk> \<Longrightarrow>
      fst (bb_read_bits ops b n) = None"
    and read_bit: "\<lbrakk>view_wf (view b); raw_pos (view b) < raw_end (view b)\<rbrakk> \<Longrightarrow>
      \<exists>b'. bb_read_bit ops b = (Some (bit_of (raw_bits (view b) ! raw_pos (view b))), b') \<and> view b' = advance (view b) 1"
    and read_bit_short: "\<lbrakk>view_wf (view b); \<not> raw_pos (view b) < raw_end (view b)\<rbrakk> \<Longrightarrow> fst (bb_read_bit ops b) = None"
    and read_field: "\<lbrakk>view_wf (view b); n \<le> 64; raw_pos (view b) + n \<le> raw_end (view b)\<rbrakk> \<Longrightarrow>
      \<exists>b'. bb_read_field ops b n f = (Inr (bits_val (take n (drop (raw_pos (view b)) (raw_bits (view b))))), b')
        \<and> view b' = advance (view b) n"
    and read_field_short: "\<lbrakk>view_wf (view b); \<not> raw_pos (view b) + n \<le> raw_end (view b)\<rbrakk> \<Longrightarrow>
      \<exists>e. fst (bb_read_field ops b n f) = Inl e"
    and peek_bits: "\<lbrakk>view_wf (view b); n \<le> 64\<rbrakk> \<Longrightarrow> bb_peek_bits ops b n =
      (if raw_pos (view b) + n \<le> raw_end (view b)
       then Some (bits_val (take n (drop (raw_pos (view b)) (raw_bits (view b))))) else None)"
    and peek_bits_startoffset: "\<lbrakk>view_wf (view b); n \<le> 64; raw_start (view b) + i + n \<le> raw_end (view b)\<rbrakk> \<Longrightarrow>
      bb_peek_bits_startoffset ops b i n = Some (bits_val (take n (drop (raw_start (view b) + i) (raw_bits (view b)))))"
    and peek_bits_posoffset: "\<lbrakk>view_wf (view b); n \<le> 64; raw_pos (view b) + i + n \<le> raw_end (view b)\<rbrakk> \<Longrightarrow>
      bb_peek_bits_posoffset ops b i n = Some (bits_val (take n (drop (raw_pos (view b) + i) (raw_bits (view b)))))"
    and write_bits_put: "\<lbrakk>can_write (view b) n; n \<le> 64; w < 2 ^ n\<rbrakk> \<Longrightarrow>
      map_option view (bb_write_bits ops b w n) = Some (put_bits (view b) (val_bits n w))"
    and write_bit: "can_write (view b) 1 \<Longrightarrow>
      map_option view (bb_write_bit ops b (bit_of x)) = Some (put_bits (view b) [x])"
    and write_zeroes: "can_write (view b) n \<Longrightarrow>
      map_option view (bb_write_zeroes ops b n) = Some (put_bits (view b) (replicate n False))"
    and copy_bits: "\<lbrakk>can_write (view b) n; view_wf (view s); raw_pos (view s) + n \<le> raw_end (view s)\<rbrakk> \<Longrightarrow>
      map_option (map_prod view view) (bb_copy_bits ops b s n) =
        Some (put_bits (view b) (take n (remaining (view s))), advance (view s) n)"
    and xor_bit: "\<lbrakk>view_wf (view b); raw_pos (view b) < raw_end (view b)\<rbrakk> \<Longrightarrow>
      map_option view (bb_xor_bit ops b (bit_of x)) =
        Some ((view b)\<lparr>raw_bits := (raw_bits (view b))[raw_pos (view b) := (raw_bits (view b) ! raw_pos (view b) \<noteq> x)],
          raw_pos := raw_pos (view b) + 1\<rparr>)"
    and set_raw_start: "p \<le> length (raw_bits (view b)) \<Longrightarrow>
      map_option view (bb_set_raw_start ops b p) = Some ((view b)\<lparr>raw_start := p\<rparr>)"
    and set_raw_pos: "p \<le> length (raw_bits (view b)) \<Longrightarrow>
      map_option view (bb_set_raw_pos ops b p) = Some ((view b)\<lparr>raw_pos := p\<rparr>)"
    and set_raw_end: "p \<le> length (raw_bits (view b)) \<Longrightarrow>
      map_option view (bb_set_raw_end ops b p) = Some ((view b)\<lparr>raw_end := p\<rparr>)"
    and expect_value_eq: "bb_expect_value ops x x m = Inr ()"
    and expect_value_neq: "x \<noteq> y \<Longrightarrow> \<exists>e. bb_expect_value ops x y m = Inl e"
    and expect_number_eq: "bb_expect_number ops v v = Inr ()"
    and expect_number_neq: "v \<noteq> w \<Longrightarrow> \<exists>e. bb_expect_number ops v w = Inl e"

section \<open>Facts about views\<close>

lemma length_overwrite [simp]: "p + length ys \<le> length xs \<Longrightarrow> length (overwrite xs p ys) = length xs"
  by (simp add: overwrite_def)

lemma length_val_bits [simp]: "length (val_bits n v) = n"
  by (induction n arbitrary: v) auto

lemma length_window: "view_wf v \<Longrightarrow> length (window v) = raw_end v - raw_start v"
  by (auto simp: window_def view_wf_def)

lemma length_remaining: "view_wf v \<Longrightarrow> length (remaining v) = raw_end v - raw_pos v"
  by (auto simp: remaining_def view_wf_def)

lemma bits_val_append: "bits_val (xs @ [b]) = 2 * bits_val xs + of_bool b"
  by (simp add: bits_val_def)

lemma bits_val_val_bits: "w < 2 ^ n \<Longrightarrow> bits_val (val_bits n w) = w"
proof (induction n arbitrary: w)
  case (Suc n)
  then have "bits_val (val_bits n (w div 2)) = w div 2" by simp
  then show ?case by (simp add: bits_val_append mod_2_eq_odd [symmetric])
qed (simp add: bits_val_def)

lemma bits_val_less: "bits_val bs < 2 ^ length bs"
  by (induction bs rule: rev_induct) (auto simp: bits_val_append, simp add: bits_val_def)

lemma val_bits_bits_val: "val_bits (length bs) (bits_val bs) = bs"
  by (induction bs rule: rev_induct) (auto simp: bits_val_append)

lemma overwrite_window:
  assumes "view_wf v" and "length ys = raw_end v - raw_start v"
  shows "window (v\<lparr>raw_bits := overwrite (raw_bits v) (raw_start v) ys, raw_pos := p\<rparr>) = ys"
  using assms by (simp add: window_def overwrite_def view_wf_def)

lemma overwrite_Nil [simp]: "overwrite xs p [] = xs"
  by (simp add: overwrite_def)

lemma overwrite_Cons:
  "p < length xs \<Longrightarrow> overwrite (xs[p := y]) (Suc p) ys = overwrite xs p (y # ys)"
  by (simp add: overwrite_def take_Suc_conv_app_nth)

lemma drop_overwrite: "p + length ys \<le> length xs \<Longrightarrow> drop p (overwrite xs p ys) = ys @ drop (p + length ys) xs"
  by (simp add: overwrite_def)

lemma overwrite_twice: "\<lbrakk>p + length ys \<le> length xs; length zs = length ys\<rbrakk> \<Longrightarrow> overwrite (overwrite xs p ys) p zs = overwrite xs p zs"
  by (simp add: overwrite_def)

lemma overwrite_same: "p + n \<le> length xs \<Longrightarrow> overwrite xs p (take n (drop p xs)) = xs"
  by (simp add: overwrite_def min_def) (metis append_take_drop_id drop_drop add.commute)

lemma at_start_remaining: "at_start v xs \<Longrightarrow> remaining v = xs"
  by (simp add: at_start_def remaining_def window_def)

lemma at_start_length: "at_start v xs \<Longrightarrow> raw_end v = raw_start v + length xs"
  using length_window [of v] by (auto simp: at_start_def view_wf_def)

lemma map_option_SomeE:
  assumes "map_option f x = Some y"
  obtains b where "x = Some b" "f b = y"
  using assms by auto

section \<open>Writing and reading at the cursor\<close>

lemma put_bits_Nil [simp]: "view_wf v \<Longrightarrow> put_bits v [] = v"
  by (simp add: put_bits_def view_wf_def max_def)

lemma put_bits_inside:
  "raw_pos v + length ys \<le> raw_end v \<Longrightarrow>
   put_bits v ys = v\<lparr>raw_bits := overwrite (raw_bits v) (raw_pos v) ys, raw_pos := raw_pos v + length ys\<rparr>"
  by (simp add: put_bits_def max_def)

lemma overwrite_append:
  "p \<le> length xs \<Longrightarrow> overwrite (overwrite xs p ys) (p + length ys) zs = overwrite xs p (ys @ zs)"
  by (simp add: overwrite_def min_def add.commute add.left_commute)

lemma can_write_wf: "can_write v n \<Longrightarrow> view_wf v"
  by (simp add: can_write_def)

lemma can_write_le: "\<lbrakk>can_write v n; m \<le> n\<rbrakk> \<Longrightarrow> can_write v m"
  by (auto simp: can_write_def)

lemma put_bits_growable: "\<lbrakk>growable v; view_wf v\<rbrakk> \<Longrightarrow> growable (put_bits v ys)"
  by (auto simp: growable_def put_bits_def overwrite_def view_wf_def)

lemma put_bits_wf: "can_write v (length ys) \<Longrightarrow> view_wf (put_bits v ys)"
  by (auto simp: can_write_def put_bits_def view_wf_def growable_def overwrite_def)

lemma can_write_put: "can_write v (length ys + n) \<Longrightarrow> can_write (put_bits v ys) n"
  using put_bits_wf [of v ys] put_bits_growable [of v ys] can_write_le [of v "length ys + n" "length ys"]
  by (auto simp: can_write_def) (auto simp: put_bits_def)

lemma put_bits_append: "view_wf v \<Longrightarrow> put_bits (put_bits v ys) zs = put_bits v (ys @ zs)"
  by (simp add: put_bits_def overwrite_append view_wf_def add.assoc max.assoc)

lemma put_bits_fields [simp]:
  "raw_pos (put_bits v ys) = raw_pos v + length ys" "raw_start (put_bits v ys) = raw_start v"
  "raw_auto (put_bits v ys) = raw_auto v" "raw_end (put_bits v ys) = max (raw_end v) (raw_pos v + length ys)"
  by (simp_all add: put_bits_def)

lemma advance_fields [simp]:
  "raw_pos (advance v n) = raw_pos v + n" "raw_start (advance v n) = raw_start v"
  "raw_auto (advance v n) = raw_auto v" "raw_end (advance v n) = raw_end v" "raw_bits (advance v n) = raw_bits v"
  by (simp_all add: advance_def)

lemma advance_advance [simp]: "advance (advance v m) n = advance v (m + n)"
  by (simp add: advance_def add.assoc)

lemma advance_0 [simp]: "advance v 0 = v"
  by (simp add: advance_def)

lemma advance_wf: "\<lbrakk>view_wf v; n \<le> length (remaining v)\<rbrakk> \<Longrightarrow> view_wf (advance v n)"
  by (auto simp: view_wf_def length_remaining)

lemma remaining_advance: "remaining (advance v n) = drop n (remaining v)"
  by (simp add: remaining_def drop_take add.commute)

lemma remaining_take: "raw_pos v + n \<le> raw_end v \<Longrightarrow> take n (drop (raw_pos v) (raw_bits v)) = take n (remaining v)"
  by (simp add: remaining_def min_def)

lemma remaining_prefix:
  assumes "view_wf v" and "remaining v = s @ t"
  shows "raw_pos v + length s \<le> raw_end v" "take (length s) (drop (raw_pos v) (raw_bits v)) = s"
    "view_wf (advance v (length s))" "remaining (advance v (length s)) = t"
proof -
  show le: "raw_pos v + length s \<le> raw_end v"
    using length_remaining [OF assms(1)] assms by (auto simp: view_wf_def)
  from remaining_take [OF le] assms(2) show "take (length s) (drop (raw_pos v) (raw_bits v)) = s" by simp
  show "view_wf (advance v (length s))" using assms(1) le by (simp add: view_wf_def)
  show "remaining (advance v (length s)) = t" by (simp add: remaining_advance assms(2))
qed

context bit_buffer
begin

lemma write_bits: "\<lbrakk>view_wf (view b); n \<le> 64; w < 2 ^ n; raw_pos (view b) + n \<le> raw_end (view b)\<rbrakk> \<Longrightarrow>
  map_option view (bb_write_bits ops b w n) =
    Some ((view b)\<lparr>raw_bits := overwrite (raw_bits (view b)) (raw_pos (view b)) (val_bits n w),
      raw_pos := raw_pos (view b) + n\<rparr>)"
  using write_bits_put [of b n w] by (simp add: can_write_def put_bits_inside)

end

section \<open>The machine on views\<close>

definition view_read :: "buf_view \<Rightarrow> nat \<Rightarrow> nat option \<times> buf_view" where
  "view_read v n = (if raw_pos v + n \<le> raw_end v
     then (Some (bits_val (take n (drop (raw_pos v) (raw_bits v)))), advance v n) else (None, v))"

definition view_write :: "buf_view \<Rightarrow> bool list \<Rightarrow> buf_view option" where
  "view_write v ys = (if raw_pos v + length ys \<le> raw_end v \<or> raw_auto v then Some (put_bits v ys) else None)"

definition view_ops :: "buf_view bitbuf_ops" where
  "view_ops = \<lparr>
     bb_new = (\<lambda>n. \<lparr>raw_bits = replicate n False, raw_start = 0, raw_pos = 0, raw_end = n, raw_auto = False\<rparr>),
     bb_new_autoexpand = (\<lambda>n. \<lparr>raw_bits = [], raw_start = 0, raw_pos = 0, raw_end = 0, raw_auto = True\<rparr>),
     bb_from_bitarr = (\<lambda>xs. Some \<lparr>raw_bits = map (\<lambda>x. x = 1) xs, raw_start = 0, raw_pos = 0, raw_end = length xs, raw_auto = False\<rparr>),
     bb_from_bitbuffer_pos = (\<lambda>v. \<lparr>raw_bits = remaining v, raw_start = 0, raw_pos = 0, raw_end = length (remaining v), raw_auto = False\<rparr>),
     bb_get_len = (\<lambda>v. raw_end v - raw_start v),
     bb_get_len_remaining = (\<lambda>v. raw_end v - raw_pos v),
     bb_get_len_written = (\<lambda>v. raw_pos v - raw_start v),
     bb_get_pos = (\<lambda>v. raw_pos v - raw_start v),
     bb_get_raw_start = raw_start,
     bb_get_raw_pos = raw_pos,
     bb_get_raw_end = raw_end,
     bb_seek = (\<lambda>v p. if raw_start v + p \<le> raw_end v then Some (v\<lparr>raw_pos := raw_start v + p\<rparr>) else None),
     bb_seek_rel = (\<lambda>v d. let q = int (raw_pos v) + d in
        if int (raw_start v) \<le> q \<and> q \<le> int (raw_end v) then Some (v\<lparr>raw_pos := nat q\<rparr>) else None),
     bb_to_bitarr = (\<lambda>v n. if raw_pos v + n \<le> raw_end v
        then Some (map bit_of (take n (drop (raw_pos v) (raw_bits v))), v\<lparr>raw_pos := raw_pos v + n\<rparr>) else None),
     bb_read_bits = view_read,
     bb_read_bit = (\<lambda>v. if raw_pos v < raw_end v then (Some (bit_of (raw_bits v ! raw_pos v)), advance v 1) else (None, v)),
     bb_read_field = (\<lambda>v n f. case view_read v n of (None, v) \<Rightarrow> (Inl (BufferEnded (Some f)), v) | (Some x, v) \<Rightarrow> (Inr x, v)),
     bb_peek_bits = (\<lambda>v n. fst (view_read v n)),
     bb_peek_bits_startoffset = (\<lambda>v i n. fst (view_read (v\<lparr>raw_pos := raw_start v + i\<rparr>) n)),
     bb_peek_bits_posoffset = (\<lambda>v i n. fst (view_read (v\<lparr>raw_pos := raw_pos v + i\<rparr>) n)),
     bb_write_bits = (\<lambda>v w n. view_write v (val_bits n w)),
     bb_write_bit = (\<lambda>v x. view_write v [x = 1]),
     bb_write_zeroes = (\<lambda>v n. view_write v (replicate n False)),
     bb_copy_bits = (\<lambda>v s n. if raw_pos s + n \<le> raw_end s
        then map_option (\<lambda>v. (v, advance s n)) (view_write v (take n (remaining s))) else None),
     bb_xor_bit = (\<lambda>v x. if raw_pos v < raw_end v
        then Some (v\<lparr>raw_bits := (raw_bits v)[raw_pos v := (raw_bits v ! raw_pos v \<noteq> (x = 1))], raw_pos := raw_pos v + 1\<rparr>)
        else None),
     bb_set_raw_start = (\<lambda>v p. if p \<le> length (raw_bits v) then Some (v\<lparr>raw_start := p\<rparr>) else None),
     bb_set_raw_pos = (\<lambda>v p. if p \<le> length (raw_bits v) then Some (v\<lparr>raw_pos := p\<rparr>) else None),
     bb_set_raw_end = (\<lambda>v p. if p \<le> length (raw_bits v) then Some (v\<lparr>raw_end := p\<rparr>) else None),
     bb_expect_failed = (\<lambda>v m. InvalidValue m v),
     bb_expect_value = (\<lambda>x y m. if x = y then Inr () else Inl (InvalidValue m 0)),
     bb_expect_number = (\<lambda>v w. if v = w then Inr () else Inl (InvalidValue [] v))\<rparr>"

lemma bit_of_eq_1 [simp]: "bit_of b = 1 \<longleftrightarrow> b"
  by (simp add: bit_of_def)

interpretation view_machine: bit_buffer view_ops "\<lambda>v. v"
  by unfold_locales
     (auto simp: view_ops_def at_start_def view_wf_def window_def Let_def comp_def view_read_def view_write_def
        advance_def can_write_def growable_def remaining_def length_remaining min_def)

end
