(* ===== verification/Scrambler.thy ===== *)
theory Scrambler
  imports Bit_Buffer
begin

text \<open>
  The scrambler of \<^verbatim>\<open>crates/tetra-entities/src/lmac/components/scrambler.rs\<close>: the keystream of a
  32-bit shift register, its combination with the rest of a bit buffer, and the initial register
  of a cell.
\<close>

section \<open>Operations\<close>

definition SCRAMB_INIT :: u32 where
  "SCRAMB_INIT = 3"

definition next_lfsr_bit :: "u32 \<Rightarrow> u8 \<times> u32" where
  "next_lfsr_bit x =
     (let b = (x XOR drop_bit (32 - 26) x XOR drop_bit (32 - 23) x XOR drop_bit (32 - 22) x
         XOR drop_bit (32 - 16) x XOR drop_bit (32 - 12) x XOR drop_bit (32 - 11) x XOR drop_bit (32 - 10) x
         XOR drop_bit (32 - 8) x XOR drop_bit (32 - 7) x XOR drop_bit (32 - 5) x XOR drop_bit (32 - 4) x
         XOR drop_bit (32 - 2) x XOR drop_bit (32 - 1) x) AND 1
      in (ucast b, drop_bit 1 x OR push_bit 31 b))"

text \<open>The loop that fills a slice of the given length.\<close>

fun tetra_scramb_get_bits :: "u32 \<Rightarrow> nat \<Rightarrow> u8 list" where
  "tetra_scramb_get_bits lfsr 0 = []"
| "tetra_scramb_get_bits lfsr (Suc n) =
     (let (b, lfsr') = next_lfsr_bit lfsr in b # tetra_scramb_get_bits lfsr' n)"

definition tetra_scramb_bits :: "'b bitbuf_ops \<Rightarrow> u32 \<Rightarrow> 'b \<Rightarrow> 'b option" where
  "tetra_scramb_bits ops lfsr_init buf = do {
     let num_bits = bb_get_len_remaining ops buf;
     (_, buf) \<leftarrow> for_loop [0..<num_bits] (\<lambda>_ (lfsr, buf). do {
       let (b, lfsr) = next_lfsr_bit lfsr;
       buf \<leftarrow> bb_xor_bit ops buf b;
       Some (lfsr, buf) }) (lfsr_init, buf);
     bb_seek_rel ops buf (- int num_bits) }"

definition tetra_scramb_get_init :: "u16 \<Rightarrow> u16 \<Rightarrow> u8 \<Rightarrow> u32" where
  "tetra_scramb_get_init mcc mnc colour =
     (if colour = 0 then 0
      else push_bit 2 (ucast colour OR push_bit 6 (ucast mnc) OR push_bit 20 (ucast mcc)) OR SCRAMB_INIT)"

section \<open>The keystream\<close>

definition lfsr_bit :: "u32 \<Rightarrow> bool" where
  "lfsr_bit x = (fst (next_lfsr_bit x) = 1)"

fun keystream :: "u32 \<Rightarrow> nat \<Rightarrow> bool list" where
  "keystream x 0 = []"
| "keystream x (Suc n) = lfsr_bit x # keystream (snd (next_lfsr_bit x)) n"

definition xor_list :: "bool list \<Rightarrow> bool list \<Rightarrow> bool list" where
  "xor_list xs ys = map2 (\<noteq>) xs ys"

lemma next_lfsr_bit_of: "fst (next_lfsr_bit x) = bit_of (lfsr_bit x)"
proof -
  have "(ucast (w AND 1 :: u32) :: u8) = bit_of (ucast (w AND 1) = (1 :: u8))" for w
    by (cases "odd w") (simp_all add: and_one_eq mod_2_eq_odd bit_of_def)
  then show ?thesis by (simp only: lfsr_bit_def next_lfsr_bit_def Let_def fst_conv)
qed

lemma bit_of_xor: "bit_of (a = (\<not> b)) = bit_of a XOR bit_of b"
  by (cases a; cases b) (simp_all add: bit_of_def)

lemma length_keystream [simp]: "length (keystream x n) = n"
  by (induction n arbitrary: x) auto

lemma get_bits_keystream: "tetra_scramb_get_bits x n = map bit_of (keystream x n)"
  by (induction n arbitrary: x) (auto simp: next_lfsr_bit_of Let_def split: prod.splits, metis next_lfsr_bit_of fst_conv)

lemma length_xor_list [simp]: "length (xor_list xs ys) = min (length xs) (length ys)"
  by (simp add: xor_list_def)

lemma xor_list_twice: "length xs \<le> length ys \<Longrightarrow> xor_list (xor_list xs ys) ys = xs"
  by (induction xs ys rule: list_induct2') (auto simp: xor_list_def)

section \<open>Scrambling a buffer\<close>

text \<open>What scrambling does to the view: the bits from the cursor on change, the cursor does not.\<close>

definition scrambled :: "u32 \<Rightarrow> buf_view \<Rightarrow> buf_view" where
  "scrambled x v = v\<lparr>raw_bits := overwrite (raw_bits v) (raw_pos v)
      (xor_list (remaining v) (keystream x (raw_end v - raw_pos v)))\<rparr>"

context bit_buffer
begin

lemma scramb_loop:
  assumes "view_wf (view buf)" and "raw_pos (view buf) + length is \<le> raw_end (view buf)"
  shows "\<exists>l buf'. for_loop is (\<lambda>_ (lfsr, buf). do {
        let (b, lfsr) = next_lfsr_bit lfsr;
        buf \<leftarrow> bb_xor_bit ops buf b;
        Some (lfsr, buf) }) (x, buf) = Some (l, buf')
      \<and> view buf' = (view buf)\<lparr>raw_bits := overwrite (raw_bits (view buf)) (raw_pos (view buf))
          (xor_list (take (length is) (drop (raw_pos (view buf)) (raw_bits (view buf)))) (keystream x (length is))),
          raw_pos := raw_pos (view buf) + length is\<rparr>"
  using assms
proof (induction "is" arbitrary: x buf)
  case Nil
  then show ?case by (simp add: xor_list_def)
next
  case (Cons i js)
  let ?v = "view buf"
  obtain y where y: "snd (next_lfsr_bit x) = y" by simp
  let ?z = "raw_bits ?v ! raw_pos ?v \<noteq> lfsr_bit x"
  have nx: "next_lfsr_bit x = (bit_of (lfsr_bit x), y)"
    by (simp add: prod_eq_iff next_lfsr_bit_of y)
  have p: "raw_pos ?v < raw_end ?v" "raw_pos ?v < length (raw_bits ?v)"
    using Cons.prems by (auto simp: view_wf_def)
  obtain b where b: "bb_xor_bit ops buf (bit_of (lfsr_bit x)) = Some b"
    and vb: "view b = ?v\<lparr>raw_bits := (raw_bits ?v)[raw_pos ?v := ?z], raw_pos := raw_pos ?v + 1\<rparr>"
    using xor_bit [OF Cons.prems(1) p(1), of "lfsr_bit x"] by (auto elim: map_option_SomeE)
  have wf: "view_wf (view b)" "raw_pos (view b) + length js \<le> raw_end (view b)"
    using Cons.prems p by (auto simp: vb view_wf_def)
  have "drop (raw_pos ?v) (raw_bits ?v) = raw_bits ?v ! raw_pos ?v # drop (Suc (raw_pos ?v)) (raw_bits ?v)"
    using p(2) by (simp add: Cons_nth_drop_Suc)
  then show ?case
    using Cons.IH [OF wf, of y] p(2)
    by (auto simp: nx y b vb overwrite_Cons xor_list_def)
qed

lemma scramb_bits_view:
  assumes "view_wf (view buf)"
  shows "map_option view (tetra_scramb_bits ops x buf) = Some (scrambled x (view buf))"
proof -
  let ?v = "view buf"
  let ?n = "raw_end ?v - raw_pos ?v"
  have le: "raw_pos ?v \<le> raw_end ?v" "raw_end ?v \<le> length (raw_bits ?v)" "raw_start ?v \<le> raw_pos ?v"
    using assms by (auto simp: view_wf_def)
  obtain l b where b: "for_loop [0..<?n] (\<lambda>_ (lfsr, buf). do {
        let (b, lfsr) = next_lfsr_bit lfsr;
        buf \<leftarrow> bb_xor_bit ops buf b;
        Some (lfsr, buf) }) (x, buf) = Some (l, b)"
    and vb: "view b = (scrambled x ?v)\<lparr>raw_pos := raw_end ?v\<rparr>"
    using scramb_loop [OF assms, of "[0..<?n]" x] le by (auto simp: scrambled_def remaining_def)
  have "view_wf (view b)"
    using assms le by (auto simp: vb scrambled_def view_wf_def length_remaining)
  then have "map_option view (bb_seek_rel ops b (- int ?n)) = Some ((view b)\<lparr>raw_pos := raw_pos ?v\<rparr>)"
    using seek_rel [of b "- int ?n"] le by (simp add: vb scrambled_def of_nat_diff)
  moreover have "(view b)\<lparr>raw_pos := raw_pos ?v\<rparr> = scrambled x ?v"
    by (simp add: vb scrambled_def)
  ultimately show ?thesis
    using b get_len_remaining [OF assms] by (simp add: tetra_scramb_bits_def Let_def)
qed

end

lemma scrambled_wf: "view_wf v \<Longrightarrow> view_wf (scrambled x v)"
  using length_remaining [of v] by (auto simp: scrambled_def view_wf_def)

lemma scrambled_remaining:
  "view_wf v \<Longrightarrow> remaining (scrambled x v) = xor_list (remaining v) (keystream x (length (remaining v)))"
proof -
  assume wf: "view_wf v"
  have n: "length (remaining v) = raw_end v - raw_pos v" by (rule length_remaining [OF wf])
  show ?thesis
    using wf n by (subst remaining_def) (simp add: scrambled_def view_wf_def drop_overwrite)
qed

lemma scrambled_at_start:
  assumes "at_start v xs"
  shows "at_start (scrambled x v) (xor_list xs (keystream x (length xs)))"
proof -
  have wf: "view_wf v" and p: "raw_pos v = raw_start v" using assms by (auto simp: at_start_def)
  have "window (scrambled x v) = remaining (scrambled x v)"
    using p by (simp add: window_def remaining_def scrambled_def)
  then show ?thesis
    using scrambled_wf [OF wf] scrambled_remaining [OF wf] at_start_remaining [OF assms] p
    by (simp add: at_start_def scrambled_def)
qed

lemma scrambled_twice: "view_wf v \<Longrightarrow> scrambled x (scrambled x v) = v"
proof -
  assume wf: "view_wf v"
  have n: "length (remaining v) = raw_end v - raw_pos v" by (rule length_remaining [OF wf])
  have "remaining (scrambled x v) = xor_list (remaining v) (keystream x (length (remaining v)))"
    by (rule scrambled_remaining [OF wf])
  then have "xor_list (remaining (scrambled x v)) (keystream x (raw_end v - raw_pos v)) = remaining v"
    by (simp add: n xor_list_twice)
  moreover have "raw_pos (scrambled x v) = raw_pos v" "raw_end (scrambled x v) = raw_end v"
    by (simp_all add: scrambled_def)
  ultimately have "scrambled x (scrambled x v) = v\<lparr>raw_bits :=
      overwrite (overwrite (raw_bits v) (raw_pos v) (xor_list (remaining v) (keystream x (raw_end v - raw_pos v))))
        (raw_pos v) (remaining v)\<rparr>"
    by (subst scrambled_def) (simp add: scrambled_def)
  also have "\<dots> = v\<lparr>raw_bits := overwrite (raw_bits v) (raw_pos v) (remaining v)\<rparr>"
    using wf n by (subst overwrite_twice) (auto simp: view_wf_def)
  also have "\<dots> = v"
    using wf overwrite_same [of "raw_pos v" "raw_end v - raw_pos v" "raw_bits v"]
    by (simp add: remaining_def view_wf_def)
  finally show ?thesis .
qed

section \<open>Initial registers\<close>

lemma zero_register: "next_lfsr_bit 0 = (0, 0)"
  by (simp add: next_lfsr_bit_def)

lemma keystream_zero: "keystream 0 n = replicate n False"
  by (induction n) (simp_all add: lfsr_bit_def zero_register)

lemma xor_list_False: "xor_list xs (replicate (length xs) False) = xs"
  by (induction xs) (simp_all add: xor_list_def)

lemma bit_init:
  assumes "colour \<noteq> 0" and "take_bit 6 colour = colour" and "take_bit 14 mnc = mnc"
  shows "bit (tetra_scramb_get_init mcc mnc colour) n \<longleftrightarrow> n < 32 \<and>
    (if n < 2 then True else if n < 8 then bit colour (n - 2)
     else if n < 22 then bit mnc (n - 8) else bit mcc (n - 22))"
proof -
  have c: "\<not> bit colour k" if "6 \<le> k" for k  using that assms(2) by (metis bit_take_bit_iff not_le)
  have m: "\<not> bit mnc k" if "14 \<le> k" for k  using that assms(3) by (metis bit_take_bit_iff not_le)
  have "bit (3 :: u32) n \<longleftrightarrow> n < 2" 
  proof -
    have "(3 :: u32) = mask 2" by (simp add: mask_eq_exp_minus_1)
    then show ?thesis by (simp only: bit_mask_iff) auto
  qed
  then show ?thesis
    using assms(1) c [of "n - 2"] m [of "n - 8"]
    by (auto simp: tetra_scramb_get_init_def SCRAMB_INIT_def bit_simps)
qed

definition cell_identity_ok :: "u16 \<Rightarrow> u16 \<Rightarrow> u8 \<Rightarrow> bool" where
  "cell_identity_ok mcc mnc colour \<longleftrightarrow>
     take_bit 10 mcc = mcc \<and> take_bit 14 mnc = mnc \<and> take_bit 6 colour = colour \<and> colour \<noteq> 0"

lemma init_fields:
  assumes "cell_identity_ok mcc mnc colour"
  defines "r \<equiv> tetra_scramb_get_init mcc mnc colour"
  shows "ucast (take_bit 6 (drop_bit 2 r)) = colour" and "ucast (take_bit 14 (drop_bit 8 r)) = mnc"
    and "ucast (drop_bit 22 r) = mcc" and "r \<noteq> 0"
proof -
  note ok = assms(1) [unfolded cell_identity_ok_def]
  have r: "bit r n \<longleftrightarrow> n < 32 \<and> (if n < 2 then True else if n < 8 then bit colour (n - 2)
      else if n < 22 then bit mnc (n - 8) else bit mcc (n - 22))" for n
    unfolding r_def using ok by (intro bit_init) auto
  have c: "bit colour k \<Longrightarrow> k < 6" "bit mnc k \<Longrightarrow> k < 14" "bit mcc k \<Longrightarrow> k < 10" for k
    using ok by (metis bit_take_bit_iff)+
  show "ucast (take_bit 6 (drop_bit 2 r)) = colour"
    by (rule bit_word_eqI) (auto simp: bit_simps r dest: c)
  show "ucast (take_bit 14 (drop_bit 8 r)) = mnc"
    by (rule bit_word_eqI) (auto simp: bit_simps r dest: c)
  show "ucast (drop_bit 22 r) = mcc"
    by (rule bit_word_eqI) (auto simp: bit_simps r dest: c)
  have "bit r 0" by (simp add: r)
  then show "r \<noteq> 0" by auto
qed

section \<open>Properties\<close>

text \<open>C4: Scrambling is its own inverse on every buffer: scrambling never panics, changes nothing before
  the cursor nor the cursor itself, combines the bits from the cursor to the end with the register's
  keystream, and scrambling again with the same initial register restores the buffer.\<close>

theorem scrambling_involution:
  assumes "bit_buffer ops view" and "view_wf (view buf)"
  shows "\<exists>buf' buf''. tetra_scramb_bits ops x buf = Some buf'
    \<and> raw_pos (view buf') = raw_pos (view buf)
    \<and> take (raw_pos (view buf)) (raw_bits (view buf')) = take (raw_pos (view buf)) (raw_bits (view buf))
    \<and> map bit_of (remaining (view buf')) = map2 (XOR) (map bit_of (remaining (view buf)))
        (tetra_scramb_get_bits x (length (remaining (view buf))))
    \<and> tetra_scramb_bits ops x buf' = Some buf'' \<and> view buf'' = view buf"
proof -
  note scr = bit_buffer.scramb_bits_view [OF assms(1)]
  obtain b where b: "tetra_scramb_bits ops x buf = Some b" "view b = scrambled x (view buf)"
    using scr [OF assms(2), of x] by (rule map_option_SomeE)
  have wf: "view_wf (view b)" using b(2) scrambled_wf [OF assms(2)] by simp
  obtain c where c: "tetra_scramb_bits ops x b = Some c" "view c = scrambled x (view b)"
    using scr [OF wf, of x] by (rule map_option_SomeE)
  have "map bit_of (xor_list xs ks) = map2 (XOR) (map bit_of xs) (map bit_of ks)" for xs ks
    by (simp add: xor_list_def zip_map1 zip_map2 case_prod_beta bit_of_xor comp_def)
  moreover have "raw_pos (view buf) \<le> length (raw_bits (view buf))"
    using assms(2) by (simp add: view_wf_def)
  ultimately show ?thesis
    using b c scrambled_twice [OF assms(2), of x] scrambled_remaining [OF assms(2), of x]
    by (simp add: get_bits_keystream) (simp add: scrambled_def overwrite_def)
qed

theorem scrambling_involution_witness:
  "\<exists>buf' buf''. tetra_scramb_bits view_ops 3 \<lparr>raw_bits = [True, False, True], raw_start = 0, raw_pos = 1, raw_end = 3, raw_auto = False\<rparr> = Some buf'
    \<and> tetra_scramb_bits view_ops 3 buf' = Some buf''
    \<and> buf'' = \<lparr>raw_bits = [True, False, True], raw_start = 0, raw_pos = 1, raw_end = 3, raw_auto = False\<rparr>"
  using scrambling_involution [OF view_machine.bit_buffer_axioms,
      of "\<lparr>raw_bits = [True, False, True], raw_start = 0, raw_pos = 1, raw_end = 3, raw_auto = False\<rparr>" 3]
  by (auto simp: view_wf_def)

text \<open>C5: Cells with a colour code other than zero have registers of their own: two cells with the same
  initial register agree in country code, network code and colour code, and the register is not zero.\<close>

theorem scramb_init_identifies_cell:
  assumes "cell_identity_ok mcc mnc colour" and "cell_identity_ok mcc' mnc' colour'"
  shows "tetra_scramb_get_init mcc mnc colour \<noteq> 0
    \<and> (tetra_scramb_get_init mcc mnc colour = tetra_scramb_get_init mcc' mnc' colour'
       \<longrightarrow> mcc = mcc' \<and> mnc = mnc' \<and> colour = colour')"
  using init_fields [OF assms(1)] init_fields [OF assms(2)] by metis

theorem scramb_init_identifies_cell_witness:
  "tetra_scramb_get_init 204 1337 1 \<noteq> 0 \<and> tetra_scramb_get_init 204 1337 1 \<noteq> tetra_scramb_get_init 204 1337 2"
proof -
  have "cell_identity_ok 204 1337 1" "cell_identity_ok 204 1337 2"
    by (simp_all add: cell_identity_ok_def)
  from scramb_init_identifies_cell [OF this] show ?thesis by auto
qed

text \<open>With colour code zero the register is zero for every network, the keystream is all zeros and the
  scrambler leaves every buffer as it is: such a cell transmits unscrambled.\<close>

lemma colour_zero_unscrambled:
  assumes "bit_buffer ops view" and "view_wf (view buf)"
  shows "tetra_scramb_get_bits (tetra_scramb_get_init mcc mnc 0) n = replicate n 0
    \<and> map_option view (tetra_scramb_bits ops (tetra_scramb_get_init mcc mnc 0) buf) = Some (view buf)"
proof -
  have z: "tetra_scramb_get_init mcc mnc 0 = 0" by (simp add: tetra_scramb_get_init_def)
  have n: "length (remaining (view buf)) = raw_end (view buf) - raw_pos (view buf)"
    by (rule length_remaining [OF assms(2)])
  have "xor_list (remaining (view buf)) (keystream 0 (raw_end (view buf) - raw_pos (view buf))) = remaining (view buf)"
    using xor_list_False [of "remaining (view buf)"] by (simp add: keystream_zero n)
  then have "scrambled 0 (view buf) = view buf"
    using assms(2) overwrite_same [of "raw_pos (view buf)" "raw_end (view buf) - raw_pos (view buf)" "raw_bits (view buf)"]
    by (simp add: scrambled_def) (simp add: remaining_def view_wf_def)
  then show ?thesis
    using bit_buffer.scramb_bits_view [OF assms, of 0]
    by (simp add: z get_bits_keystream keystream_zero bit_of_def)
qed

theorem colour_zero_unscrambled_witness:
  "tetra_scramb_bits view_ops (tetra_scramb_get_init 204 1337 0)
     \<lparr>raw_bits = [True, False, True], raw_start = 0, raw_pos = 0, raw_end = 3, raw_auto = False\<rparr>
   = Some \<lparr>raw_bits = [True, False, True], raw_start = 0, raw_pos = 0, raw_end = 3, raw_auto = False\<rparr>"
  using colour_zero_unscrambled [OF view_machine.bit_buffer_axioms,
      of "\<lparr>raw_bits = [True, False, True], raw_start = 0, raw_pos = 0, raw_end = 3, raw_auto = False\<rparr>" 204 1337 0]
  by (simp add: view_wf_def option.map_ident)

end
