(* ===== verification/Convenc.thy ===== *)
theory Convenc
  imports Bit_Buffer
begin

text \<open>
  The convolutional encoders and the puncturing of
  \<^verbatim>\<open>crates/tetra-entities/src/lmac/components/convenc.rs\<close>. Registers of four cells are tuples;
  slices are lists, written with bounds checks. Puncturing positions are \<open>u32\<close> computations with
  their wrap-around.

  The lemmas describe both encoders by their generator polynomials (\<open>enc\<close>), which the Viterbi
  decoder is built from, and puncturing as a copy loop along an increasing sequence of positions.
\<close>

section \<open>Encoders\<close>

datatype rcpc_punct_mode = Rate2_3 | Rate1_3 | Rate292_432 | Rate148_432 | Rate112_168 | Rate72_162 | Rate38_81

record conv_enc_state =
  delayed :: "u8 \<times> u8 \<times> u8 \<times> u8"

definition conv_new :: conv_enc_state where
  "conv_new = \<lparr>delayed = (0, 0, 0, 0)\<rparr>"

definition conv_reset :: "conv_enc_state \<Rightarrow> conv_enc_state" where
  "conv_reset s = s\<lparr>delayed := (0, 0, 0, 0)\<rparr>"

text \<open>The packed nibble, the four output bits and the shifted register.\<close>

definition encode_bit :: "conv_enc_state \<Rightarrow> u8 \<Rightarrow> u8 \<times> u8 list \<times> conv_enc_state" where
  "encode_bit s b =
     (case delayed s of (d0, d1, d2, d3) \<Rightarrow>
       let g1 = b XOR d0 XOR d3;
           g2 = b XOR d1 XOR d2 XOR d3;
           g3 = b XOR d0 XOR d1 XOR d3;
           g4 = b XOR d0 XOR d2 XOR d3
       in (g1 OR push_bit 1 g2 OR push_bit 2 g3 OR push_bit 3 g4, [g1, g2, g3, g4],
           s\<lparr>delayed := (b, d0, d1, d2)\<rparr>))"

definition conv_encode :: "conv_enc_state \<Rightarrow> u8 list \<Rightarrow> u8 list \<Rightarrow> (conv_enc_state \<times> u8 list) option" where
  "conv_encode s input output = do {
     guard (length output \<ge> length input * 4);
     for_loop (enumerate 0 input) (\<lambda>(i, b) (s, out). do {
       let (_, chunk, s) = encode_bit s b;
       out \<leftarrow> aput out (i * 4) chunk;
       Some (s, out) }) (s, output) }"

definition encode_rate1_3 :: "conv_enc_state \<Rightarrow> u8 list \<Rightarrow> u8 list \<Rightarrow> (conv_enc_state \<times> u8 list) option" where
  "encode_rate1_3 s input output = do {
     guard (length output \<ge> length input * 3);
     for_loop (enumerate 0 input) (\<lambda>(i, b) (s, out). do {
       let (_, g4, s) = encode_bit s b;
       out \<leftarrow> aset out (i * 3) (g4 ! 0);
       out \<leftarrow> aset out (i * 3 + 1) (g4 ! 1);
       out \<leftarrow> aset out (i * 3 + 2) (g4 ! 2);
       Some (s, out) }) (s, output) }"

record speech_conv_enc_state =
  speech_delayed :: "u8 \<times> u8 \<times> u8 \<times> u8"

definition speech_new :: speech_conv_enc_state where
  "speech_new = \<lparr>speech_delayed = (0, 0, 0, 0)\<rparr>"

definition speech_encode_bit :: "speech_conv_enc_state \<Rightarrow> u8 \<Rightarrow> u8 list \<times> speech_conv_enc_state" where
  "speech_encode_bit s b =
     (case speech_delayed s of (d0, d1, d2, d3) \<Rightarrow>
       let g1 = b XOR d0 XOR d1 XOR d2 XOR d3;
           g2 = b XOR d0 XOR d2 XOR d3;
           g3 = b XOR d1 XOR d3
       in ([g1, g2, g3], s\<lparr>speech_delayed := (b, d0, d1, d2)\<rparr>))"

definition speech_encode ::
  "speech_conv_enc_state \<Rightarrow> u8 list \<Rightarrow> u8 list \<Rightarrow> (speech_conv_enc_state \<times> u8 list) option" where
  "speech_encode s input output = do {
     guard (length output \<ge> length input * 3);
     for_loop (enumerate 0 input) (\<lambda>(i, b) (s, out). do {
       let (g3, s) = speech_encode_bit s b;
       out \<leftarrow> aset out (i * 3) (g3 ! 0);
       out \<leftarrow> aset out (i * 3 + 1) (g3 ! 1);
       out \<leftarrow> aset out (i * 3 + 2) (g3 ! 2);
       Some (s, out) }) (s, output) }"

section \<open>Puncturing\<close>

definition i_equals :: "nat \<Rightarrow> nat" where
  "i_equals j = j"

definition i_292 :: "nat \<Rightarrow> nat" where
  "i_292 j = u32_add j (u32_sub j 1 div 65)"

definition i_148 :: "nat \<Rightarrow> nat" where
  "i_148 j = u32_add j (u32_sub j 1 div 35)"

record puncturer =
  punct_p :: "nat list"
  punct_t :: nat
  punct_period :: nat
  i_func :: "nat \<Rightarrow> nat"

definition P_RATE2_3 :: "nat list" where "P_RATE2_3 = [0, 1, 2, 5]"
definition P_RATE1_3 :: "nat list" where "P_RATE1_3 = [0, 1, 2, 3, 5, 6, 7]"
definition P_RATE8_12 :: "nat list" where "P_RATE8_12 = [0, 1, 2, 4]"
definition P_RATE8_18 :: "nat list" where "P_RATE8_18 = [0, 1, 2, 3, 4, 5, 7, 8, 10, 11]"
definition P_RATE8_17 :: "nat list" where
  "P_RATE8_17 = [0, 1, 2, 3, 4, 5, 7, 8, 10, 11, 13, 14, 16, 17, 19, 20, 22, 23]"

fun get_puncturer :: "rcpc_punct_mode \<Rightarrow> puncturer" where
  "get_puncturer Rate2_3 = \<lparr>punct_p = P_RATE2_3, punct_t = 3, punct_period = 8, i_func = i_equals\<rparr>"
| "get_puncturer Rate1_3 = \<lparr>punct_p = P_RATE1_3, punct_t = 6, punct_period = 8, i_func = i_equals\<rparr>"
| "get_puncturer Rate292_432 = \<lparr>punct_p = P_RATE2_3, punct_t = 3, punct_period = 8, i_func = i_292\<rparr>"
| "get_puncturer Rate148_432 = \<lparr>punct_p = P_RATE1_3, punct_t = 6, punct_period = 8, i_func = i_148\<rparr>"
| "get_puncturer Rate112_168 = \<lparr>punct_p = P_RATE8_12, punct_t = 3, punct_period = 6, i_func = i_equals\<rparr>"
| "get_puncturer Rate72_162 = \<lparr>punct_p = P_RATE8_18, punct_t = 9, punct_period = 12, i_func = i_equals\<rparr>"
| "get_puncturer Rate38_81 = \<lparr>punct_p = P_RATE8_17, punct_t = 17, punct_period = 24, i_func = i_equals\<rparr>"

text \<open>The computation of \<open>k\<close> that the three loops share.\<close>

definition punct_index :: "puncturer \<Rightarrow> nat \<Rightarrow> nat option" where
  "punct_index pu j = do {
     let i = i_func pu j;
     let blk = u32_sub i 1 div punct_t pu;
     let idx = u32_sub i (u32_mul (punct_t pu) blk);
     p \<leftarrow> aget (punct_p pu) idx;
     Some (u32_add (u32_mul (punct_period pu) blk) p) }"

definition get_punctured_rate :: "rcpc_punct_mode \<Rightarrow> u8 list \<Rightarrow> u8 list \<Rightarrow> u8 list option" where
  "get_punctured_rate mode input output = do {
     let pu = get_puncturer mode;
     let len = length output mod 2 ^ 32;
     for_loop [1..<len + 1] (\<lambda>j out. do {
       k \<leftarrow> punct_index pu j;
       v \<leftarrow> aget input (u32_sub k 1);
       aset out (u32_sub j 1) v }) output }"

definition tetra_rcpc_depunct :: "rcpc_punct_mode \<Rightarrow> u8 list \<Rightarrow> nat \<Rightarrow> u8 list \<Rightarrow> u8 list option" where
  "tetra_rcpc_depunct mode input len output = do {
     let pu = get_puncturer mode;
     let len = len mod 2 ^ 32;
     for_loop [1..<len + 1] (\<lambda>j out. do {
       k \<leftarrow> punct_index pu j;
       v \<leftarrow> aget input (u32_sub j 1);
       aset out (u32_sub k 1) v }) output }"

definition tetra_rcpc_depunct_soft :: "rcpc_punct_mode \<Rightarrow> int list \<Rightarrow> nat \<Rightarrow> int list \<Rightarrow> int list option" where
  "tetra_rcpc_depunct_soft mode input len output = do {
     let pu = get_puncturer mode;
     for_loop [1..<len mod 2 ^ 32 + 1] (\<lambda>j out. do {
       k \<leftarrow> punct_index pu j;
       v \<leftarrow> aget input (u32_sub j 1);
       aset out (u32_sub k 1) v }) output }"

text \<open>\<open>None\<close> is the error of the source; the count of compared symbols otherwise.\<close>

fun mother_memcmp :: "u8 list \<Rightarrow> u8 list \<Rightarrow> nat option" where
  "mother_memcmp (m # ms) (d # ds) =
     (if d = 0xff then mother_memcmp ms ds
      else if d \<noteq> m then None
      else map_option Suc (mother_memcmp ms ds))"
| "mother_memcmp _ _ = Some 0"

section \<open>Encoder loops\<close>

fun run_enc :: "('s \<Rightarrow> 'x \<Rightarrow> 'y list \<times> 's) \<Rightarrow> 's \<Rightarrow> 'x list \<Rightarrow> 'y list \<times> 's" where
  "run_enc step s [] = ([], s)"
| "run_enc step s (x # xs) =
     (let (g, s') = step s x; (gs, s'') = run_enc step s' xs in (g @ gs, s''))"

lemma length_run_enc:
  assumes "\<And>s x. length (fst (step s x)) = w"
  shows "length (fst (run_enc step s xs)) = length xs * w"
proof (induction xs arbitrary: s)
  case (Cons x xs)
  have "length (fst (step s x)) = w" by (rule assms)
  then show ?case using Cons.IH [of "snd (step s x)"] by (simp add: split_beta Let_def)
qed simp

lemma chunk_loop:
  assumes "\<And>s x. length (fst (step s x)) = w" and "(k + length xs) * w \<le> length out"
  shows "for_loop (enumerate k xs) (\<lambda>(i, x) (s, out). do {
      out \<leftarrow> aput out (i * w) (fst (step s x));
      Some (snd (step s x), out) }) (s, out)
    = Some (snd (run_enc step s xs), take (k * w) out @ fst (run_enc step s xs) @ drop ((k + length xs) * w) out)"
  using assms(2)
proof (induction xs arbitrary: k s out)
  case (Cons x xs)
  let ?g = "fst (step s x)"
  let ?out = "take (k * w) out @ ?g @ drop (k * w + w) out"
  have w: "length ?g = w" by (rule assms(1))
  have le: "k * w + w \<le> length out" using Cons.prems by (simp add: algebra_simps)
  then have len: "length ?out = length out" by (simp add: w)
  have "aput out (k * w) ?g = Some ?out" using le w by (simp add: panic_simps)
  moreover have "take (Suc k * w) ?out = take (k * w) out @ ?g" using le w by (simp add: add.commute)
  moreover have "drop ((Suc k + length xs) * w) ?out = drop ((k + length (x # xs)) * w) out"
    using le w by (simp add: algebra_simps)
  ultimately show ?case
    using Cons.IH [of "Suc k" ?out "snd (step s x)"] Cons.prems len
    by (simp add: split_beta Let_def)
qed simp

lemma aset3_aput:
  "do { o1 \<leftarrow> aset out i a; o2 \<leftarrow> aset o1 (i + 1) b; o3 \<leftarrow> aset o2 (i + 2) c; f o3 }
   = do { o' \<leftarrow> aput out i [a, b, c]; f o' }"
proof (cases "i + 3 \<le> length out")
  case True
  have e: "Suc (Suc (Suc (n - Suc (Suc (Suc 0))))) = n" if "\<not> n \<le> Suc (Suc i)" for n
    using that by linarith
  have "out[i := a, i + 1 := b, i + 2 := c] = take i out @ [a, b, c] @ drop (i + 3) out"
    using True by (intro nth_equalityI) (auto simp: nth_list_update nth_append less_Suc_eq numeral_3_eq_3 nth_Cons' e)
  then show ?thesis using True by (simp add: panic_simps numeral_3_eq_3)
next
  case False
  then show ?thesis by (auto simp: aset_def aput_def)
qed

section \<open>Generator polynomials\<close>

type_synonym enc_reg = "bool \<times> bool \<times> bool \<times> bool"

fun pxor :: "bool list \<Rightarrow> bool list \<Rightarrow> bool" where
  "pxor (p # ps) (x # xs) \<longleftrightarrow> (p \<and> x) \<noteq> pxor ps xs"
| "pxor _ _ \<longleftrightarrow> False"

fun shift_reg :: "enc_reg \<Rightarrow> bool \<Rightarrow> enc_reg" where
  "shift_reg (d0, d1, d2, d3) b = (b, d0, d1, d2)"

fun reg_list :: "enc_reg \<Rightarrow> bool list" where
  "reg_list (d0, d1, d2, d3) = [d0, d1, d2, d3]"

definition enc_out :: "bool list list \<Rightarrow> enc_reg \<Rightarrow> bool \<Rightarrow> bool list" where
  "enc_out ps r b = map (\<lambda>p. pxor p (b # reg_list r)) ps"

fun enc :: "bool list list \<Rightarrow> enc_reg \<Rightarrow> bool list \<Rightarrow> bool list list" where
  "enc ps r [] = []"
| "enc ps r (b # bs) = enc_out ps r b # enc ps (shift_reg r b) bs"

definition cch_polys :: "bool list list" where
  "cch_polys = [[True, True, False, False, True], [True, False, True, True, True],
     [True, True, True, False, True], [True, True, False, True, True]]"

definition speech_polys :: "bool list list" where
  "speech_polys = [[True, True, True, True, True], [True, True, False, True, True], [True, False, True, False, True]]"

definition zero_reg :: enc_reg where
  "zero_reg = (False, False, False, False)"

fun reg_of :: "enc_reg \<Rightarrow> u8 \<times> u8 \<times> u8 \<times> u8" where
  "reg_of (d0, d1, d2, d3) = (bit_of d0, bit_of d1, bit_of d2, bit_of d3)"

lemma length_enc [simp]: "length (enc ps r bs) = length bs"
  by (induction bs arbitrary: r) auto

lemma length_concat_enc: "length (concat (enc ps r bs)) = length bs * length ps"
  by (induction bs arbitrary: r) (auto simp: enc_out_def)

lemma enc_append: "enc ps r (xs @ ys) = enc ps r xs @ enc ps (foldl shift_reg r xs) ys"
  by (induction xs arbitrary: r) auto

lemma bit_of_cases: "bit_of True = 1" "bit_of False = 0"
  by (simp_all add: bit_of_def)

lemma encode_bit_polys:
  "snd (encode_bit \<lparr>delayed = reg_of r\<rparr> (bit_of b)) =
     (map bit_of (enc_out cch_polys r b), \<lparr>delayed = reg_of (shift_reg r b)\<rparr>)"
  by (cases r; cases b) (auto simp: encode_bit_def enc_out_def cch_polys_def bit_of_def of_bool_def)

lemma speech_encode_bit_polys:
  "speech_encode_bit \<lparr>speech_delayed = reg_of r\<rparr> (bit_of b) =
     (map bit_of (enc_out speech_polys r b), \<lparr>speech_delayed = reg_of (shift_reg r b)\<rparr>)"
  by (cases r; cases b) (auto simp: speech_encode_bit_def enc_out_def speech_polys_def bit_of_def of_bool_def)

lemma run_conv:
  "run_enc (\<lambda>s b. snd (encode_bit s b)) \<lparr>delayed = reg_of r\<rparr> (map bit_of bs) =
     (map bit_of (concat (enc cch_polys r bs)), \<lparr>delayed = reg_of (foldl shift_reg r bs)\<rparr>)"
  by (induction bs arbitrary: r) (simp_all add: encode_bit_polys)

lemma run_speech:
  "run_enc speech_encode_bit \<lparr>speech_delayed = reg_of r\<rparr> (map bit_of bs) =
     (map bit_of (concat (enc speech_polys r bs)), \<lparr>speech_delayed = reg_of (foldl shift_reg r bs)\<rparr>)"
  by (induction bs arbitrary: r) (simp_all add: speech_encode_bit_polys)

lemma length_encode_bit: "length (fst (snd (encode_bit s b))) = 4"
  by (simp add: encode_bit_def Let_def split: prod.splits)

lemma length_speech_encode_bit: "length (fst (speech_encode_bit s b)) = 3"
  by (simp add: speech_encode_bit_def Let_def split: prod.splits)

text \<open>Both encoders write the code bits of the polynomials at the front of the output slice.\<close>

lemma conv_encode_polys:
  assumes "length bs * 4 \<le> length output"
  shows "conv_encode \<lparr>delayed = reg_of r\<rparr> (map bit_of bs) output =
    Some (\<lparr>delayed = reg_of (foldl shift_reg r bs)\<rparr>,
      map bit_of (concat (enc cch_polys r bs)) @ drop (length bs * 4) output)"
  using chunk_loop [of "\<lambda>s b. snd (encode_bit s b)" 4 0 "map bit_of bs" "output" "\<lparr>delayed = reg_of r\<rparr>"] assms
  by (simp add: conv_encode_def length_encode_bit run_conv split_beta Let_def)

lemma take3: "length xs = 3 \<Longrightarrow> [xs ! 0, xs ! 1, xs ! 2] = xs"
  by (auto simp: length_Suc_conv numeral_3_eq_3)

lemma speech_encode_polys:
  assumes "length bs * 3 \<le> length output"
  shows "speech_encode \<lparr>speech_delayed = reg_of r\<rparr> (map bit_of bs) output =
    Some (\<lparr>speech_delayed = reg_of (foldl shift_reg r bs)\<rparr>,
      map bit_of (concat (enc speech_polys r bs)) @ drop (length bs * 3) output)"
proof -
  have body: "(\<lambda>(i, b) (s, out). do {
       let (g3, s) = speech_encode_bit s b;
       out \<leftarrow> aset out (i * 3) (g3 ! 0);
       out \<leftarrow> aset out (i * 3 + 1) (g3 ! 1);
       out \<leftarrow> aset out (i * 3 + 2) (g3 ! 2);
       Some (s, out) })
     = (\<lambda>(i, b) (s, out). do {
       out \<leftarrow> aput out (i * 3) (fst (speech_encode_bit s b));
       Some (snd (speech_encode_bit s b), out) })"
    unfolding split_beta Let_def aset3_aput take3 [OF length_speech_encode_bit] by (rule refl)
  show ?thesis
    unfolding speech_encode_def body
    using chunk_loop [of speech_encode_bit 3 0 "map bit_of bs" "output" "\<lparr>speech_delayed = reg_of r\<rparr>"] assms
    by (simp add: length_speech_encode_bit run_speech)
qed

section \<open>Puncturing positions\<close>

definition punct_ok :: "puncturer \<Rightarrow> bool" where
  "punct_ok pu \<longleftrightarrow> 0 < punct_t pu \<and> punct_t pu \<le> 17 \<and> punct_period pu \<le> 24 \<and>
     length (punct_p pu) = punct_t pu + 1 \<and> sorted_wrt (<) (punct_p pu) \<and>
     punct_p pu ! punct_t pu \<le> punct_period pu"

definition punct_pos :: "puncturer \<Rightarrow> nat \<Rightarrow> nat" where
  "punct_pos pu i = punct_period pu * (i div punct_t pu) + punct_p pu ! (i mod punct_t pu + 1) - 1"

text \<open>Zero-based: output symbol \<open>j\<close> comes from symbol \<open>kept mode j\<close> of the mother code.\<close>

definition kept :: "rcpc_punct_mode \<Rightarrow> nat \<Rightarrow> nat" where
  "kept mode j = punct_pos (get_puncturer mode)
     (case mode of Rate292_432 \<Rightarrow> j + j div 65 | Rate148_432 \<Rightarrow> j + j div 35 | _ \<Rightarrow> j)"

lemmas p_rates = P_RATE2_3_def P_RATE1_3_def P_RATE8_12_def P_RATE8_18_def P_RATE8_17_def

lemma punct_ok_modes: "punct_ok (get_puncturer mode)"
  by (cases mode) (simp_all add: punct_ok_def p_rates)

lemma punct_p_range:
  assumes "punct_ok pu" and "r < punct_t pu"
  shows "0 < punct_p pu ! (r + 1)" and "punct_p pu ! (r + 1) \<le> punct_period pu"
proof -
  have s: "sorted_wrt (<) (punct_p pu)" and l: "length (punct_p pu) = punct_t pu + 1"
    and m: "punct_p pu ! punct_t pu \<le> punct_period pu"
    using assms(1) by (auto simp: punct_ok_def)
  have "punct_p pu ! 0 < punct_p pu ! (r + 1)"
    using s l assms(2) by (simp add: sorted_wrt_iff_nth_less)
  then show "0 < punct_p pu ! (r + 1)" by simp
  have "punct_p pu ! (r + 1) \<le> punct_p pu ! punct_t pu"
    using s l assms(2) by (cases "r + 1 = punct_t pu") (auto simp: sorted_wrt_iff_nth_less intro: less_imp_le)
  then show "punct_p pu ! (r + 1) \<le> punct_period pu" using m by simp
qed

lemma punct_pos_Suc:
  assumes "punct_ok pu"
  shows "punct_pos pu i < punct_pos pu (Suc i)"
proof -
  let ?t = "punct_t pu"
  have t: "0 < ?t" using assms by (simp add: punct_ok_def)
  have r: "i mod ?t < ?t" using t by simp
  note now = punct_p_range [OF assms r]
  show ?thesis
  proof (cases "i mod ?t = ?t - 1")
    case True
    then have "Suc i mod ?t = 0" "Suc i div ?t = Suc (i div ?t)"
      using t by (simp_all add: mod_Suc div_Suc)
    then show ?thesis
      using now punct_p_range [OF assms t] by (simp add: punct_pos_def)
  next
    case False
    then have "Suc i mod ?t = Suc (i mod ?t)" "Suc i div ?t = i div ?t" "Suc (i mod ?t) < ?t"
      using r t by (auto simp: mod_Suc div_Suc intro: Suc_lessI)
    moreover from this have "punct_p pu ! (i mod ?t + 1) < punct_p pu ! (Suc (i mod ?t) + 1)"
      using assms by (simp add: punct_ok_def sorted_wrt_iff_nth_less)
    ultimately show ?thesis using now(1) by (simp add: punct_pos_def)
  qed
qed

lemma punct_pos_mono: "\<lbrakk>punct_ok pu; i < j\<rbrakk> \<Longrightarrow> punct_pos pu i < punct_pos pu j"
  by (rule lift_Suc_mono_less [of "punct_pos pu"]) (auto intro: punct_pos_Suc)

lemma kept_mono:
  assumes "i < j"
  shows "kept mode i < kept mode j"
proof -
  have "i + i div c < j + j div c" for c using assms by (simp add: add_less_le_mono div_le_mono)
  then show ?thesis
    unfolding kept_def using assms by (intro punct_pos_mono punct_ok_modes) (cases mode; simp)
qed

lemma kept_less_iff [simp]: "kept mode i < kept mode j \<longleftrightarrow> i < j"
  using kept_mono [of i j mode] kept_mono [of j i mode] by (cases i j rule: linorder_cases) auto

lemma kept_le: "i \<le> j \<Longrightarrow> kept mode i \<le> kept mode j"
  by (cases "i = j") (simp_all add: less_imp_le)

lemma kept_inj: "inj (kept mode)"
  by (rule injI) (metis kept_mono less_irrefl linorder_neq_iff)

lemma punct_pos_upper:
  assumes "punct_ok pu"
  shows "punct_pos pu i < 24 * (i + 1)"
proof -
  have t: "0 < punct_t pu" using assms by (simp add: punct_ok_def)
  have p: "punct_p pu ! (i mod punct_t pu + 1) \<le> punct_period pu" "0 < punct_p pu ! (i mod punct_t pu + 1)"
    using punct_p_range [OF assms, of "i mod punct_t pu"] t by auto
  have "i div punct_t pu \<le> i" by simp
  moreover have "punct_period pu \<le> 24" using assms by (simp add: punct_ok_def)
  ultimately have "punct_period pu * (i div punct_t pu) \<le> 24 * i" by (simp add: mult_le_mono)
  then show ?thesis using p assms by (auto simp: punct_pos_def punct_ok_def)
qed

text \<open>Below \<open>2 ^ 26\<close> symbols no step of the computation wraps.\<close>

lemma punct_index_pos:
  assumes "punct_ok pu" and "i_func pu j = i + 1" and "i < 2 ^ 27"
  shows "punct_index pu j = Some (punct_pos pu i + 1)"
proof -
  let ?t = "punct_t pu"
  have t: "0 < ?t" "?t \<le> 17" and len: "length (punct_p pu) = ?t + 1" and per: "punct_period pu \<le> 24"
    using assms(1) by (auto simp: punct_ok_def)
  have blk: "u32_sub (i + 1) 1 = i" using assms(3) by (simp add: wrap_simps)
  have m: "u32_mul ?t (i div ?t) = ?t * (i div ?t)"
    by (intro u32_mul_id le_less_trans [OF times_div_less_eq_dividend]) (use assms(3) in simp)
  have q: "?t * (i div ?t) \<le> i" by (rule times_div_less_eq_dividend)
  have "u32_sub (i + 1) (?t * (i div ?t)) = i + 1 - ?t * (i div ?t)"
    by (rule u32_sub_id [OF le_trans [OF q]]) (use assms(3) in simp_all)
  then have idx: "u32_sub (i + 1) (?t * (i div ?t)) = i mod ?t + 1"
    using q minus_mult_div_eq_mod [of i ?t] by linarith
  have r: "i mod ?t < ?t" using t by simp
  note p = punct_p_range [OF assms(1) r]
  have "i div ?t \<le> i" by simp
  then have "punct_period pu * (i div ?t) \<le> 24 * i" using per by (simp add: mult_le_mono)
  then have "u32_mul (punct_period pu) (i div ?t) = punct_period pu * (i div ?t)"
    and "punct_period pu * (i div ?t) + punct_p pu ! (i mod ?t + 1) < 4294967296"
    using assms(3) p(2) per by (auto intro!: u32_mul_id)
  then show ?thesis
    using r p(1) len
    by (simp add: punct_index_def assms(2) blk m idx panic_simps u32_add_id punct_pos_def del: One_nat_def)
qed

lemma punct_index_kept:
  assumes "j < 2 ^ 26"
  shows "punct_index (get_puncturer mode) (j + 1) = Some (kept mode j + 1)"
proof -
  have "j div 65 \<le> j" "j div 35 \<le> j" by simp_all
  then have "i_func (get_puncturer mode) (j + 1) =
      (case mode of Rate292_432 \<Rightarrow> j + j div 65 | Rate148_432 \<Rightarrow> j + j div 35 | _ \<Rightarrow> j) + 1"
    using assms by (cases mode) (simp_all add: i_equals_def i_292_def i_148_def wrap_simps)
  moreover have "(case mode of Rate292_432 \<Rightarrow> j + j div 65 | Rate148_432 \<Rightarrow> j + j div 35 | _ \<Rightarrow> j) < 2 ^ 27"
    using assms \<open>j div 65 \<le> j\<close> \<open>j div 35 \<le> j\<close> by (cases mode) simp_all
  ultimately show ?thesis
    unfolding kept_def by (rule punct_index_pos [OF punct_ok_modes])
qed

lemma kept_upper: "kept mode j < 48 * (j + 1)"
proof -
  have "j + j div c \<le> 2 * j" for c :: nat by simp
  then have "(case mode of Rate292_432 \<Rightarrow> j + j div 65 | Rate148_432 \<Rightarrow> j + j div 35 | _ \<Rightarrow> j) \<le> 2 * j"
    by (cases mode) simp_all
  then show ?thesis
    using punct_pos_upper [OF punct_ok_modes, of mode "case mode of Rate292_432 \<Rightarrow> j + j div 65 | Rate148_432 \<Rightarrow> j + j div 35 | _ \<Rightarrow> j"]
    by (auto simp: kept_def)
qed

lemma kept_copy_pair: "copy_pair [0..<len] (kept mode) (\<lambda>j. j) (if len = 0 then 0 else kept mode (len - 1) + 1) len"
  using kept_inj [of mode] by unfold_locales (auto intro: inj_on_subset simp: less_Suc_eq_le not_less [symmetric])

text \<open>The loops count from one; their bodies are the copies along \<open>kept\<close>.\<close>

lemma loop_from_one: "for_loop [1..<n + 1] body s = for_loop [0..<n] (\<lambda>j. body (j + 1)) s"
  using for_loop_map [of Suc "[0..<n]" body s] by (simp add: map_Suc_upt del: upt_Suc)

lemma punctured_copy:
  assumes "length output \<le> 2 ^ 26" and "\<And>j. j < length output \<Longrightarrow> kept mode j < length input"
  shows "get_punctured_rate mode input output = Some (copy_fold [0..<length output] (kept mode) (\<lambda>j. j) input output)"
proof -
  have "for_loop [0..<length output] (\<lambda>j out. do {
       k \<leftarrow> punct_index (get_puncturer mode) (j + 1);
       v \<leftarrow> aget input (u32_sub k 1);
       aset out (u32_sub (j + 1) 1) v }) output
    = for_loop [0..<length output] (\<lambda>j out. do { v \<leftarrow> aget input (kept mode j); aset out j v }) output"
    using assms(1) kept_upper [of mode]
    by (intro for_loop_cong) (auto simp: punct_index_kept wrap_simps less_trans [OF kept_upper] simp del: One_nat_def)
  then show ?thesis
    using copy_loop [of "[0..<length output]" "kept mode" input "\<lambda>j. j" "output"] assms
    by (simp add: get_punctured_rate_def Let_def loop_from_one del: upt_Suc One_nat_def)
qed

lemma depunct_loop:
  assumes "len \<le> 2 ^ 26" and "len \<le> length input" and "\<And>j. j < len \<Longrightarrow> kept mode j < length out"
  shows "for_loop [1..<len + 1] (\<lambda>j out. do {
       k \<leftarrow> punct_index (get_puncturer mode) j;
       v \<leftarrow> aget input (u32_sub j 1);
       aset out (u32_sub k 1) v }) out
    = Some (copy_fold [0..<len] (\<lambda>j. j) (kept mode) input out)"
proof -
  have "for_loop [0..<len] (\<lambda>j out. do {
       k \<leftarrow> punct_index (get_puncturer mode) (j + 1);
       v \<leftarrow> aget input (u32_sub (j + 1) 1);
       aset out (u32_sub k 1) v }) out
    = for_loop [0..<len] (\<lambda>j out. do { v \<leftarrow> aget input j; aset out (kept mode j) v }) out"
    using assms(1) kept_upper [of mode]
    by (intro for_loop_cong) (auto simp: punct_index_kept wrap_simps less_trans [OF kept_upper] simp del: One_nat_def)
  then show ?thesis
    using copy_loop [of "[0..<len]" "\<lambda>j. j" input "kept mode" out] assms
    by (simp add: loop_from_one del: upt_Suc One_nat_def)
qed

lemma depunct_copy:
  assumes "len \<le> 2 ^ 26" and "len \<le> length input" and "\<And>j. j < len \<Longrightarrow> kept mode j < length out"
  shows "tetra_rcpc_depunct mode input len out = Some (copy_fold [0..<len] (\<lambda>j. j) (kept mode) input out)"
  using depunct_loop [OF assms] assms(1) by (simp add: tetra_rcpc_depunct_def Let_def del: upt_Suc One_nat_def)

lemma depunct_soft_copy:
  assumes "len \<le> 2 ^ 26" and "len \<le> length input" and "\<And>j. j < len \<Longrightarrow> kept mode j < length out"
  shows "tetra_rcpc_depunct_soft mode input len out = Some (copy_fold [0..<len] (\<lambda>j. j) (kept mode) input out)"
  using depunct_loop [OF assms] assms(1) by (simp add: tetra_rcpc_depunct_soft_def Let_def del: upt_Suc One_nat_def)

text \<open>
  Depuncturing what puncturing produced: the mother code with the filler at every symbol that was
  not kept.
\<close>

definition erased :: "rcpc_punct_mode \<Rightarrow> nat \<Rightarrow> 'a list \<Rightarrow> 'a list \<Rightarrow> 'a list" where
  "erased mode len mother filler =
     map (\<lambda>p. if p \<in> kept mode ` {..<len} then mother ! p else filler ! p) [0..<length filler]"

lemma depunct_punctured:
  assumes "\<And>j. j < len \<Longrightarrow> kept mode j < length filler" and "\<And>j. j < len \<Longrightarrow> out ! j = mother ! kept mode j"
  shows "copy_fold [0..<len] (\<lambda>j. j) (kept mode) out filler = erased mode len mother filler"
proof (rule nth_equalityI)
  fix p assume "p < length (copy_fold [0..<len] (\<lambda>j. j) (kept mode) out filler)"
  then have p: "p < length filler" by simp
  show "copy_fold [0..<len] (\<lambda>j. j) (kept mode) out filler ! p = erased mode len mother filler ! p"
  proof (cases "p \<in> kept mode ` {..<len}")
    case True
    then obtain j where j: "j < len" "p = kept mode j" by auto
    have "inj_on (kept mode) (set [0..<len])" using kept_inj by (rule inj_on_subset) simp
    then have "copy_fold [0..<len] (\<lambda>j. j) (kept mode) out filler ! kept mode j = out ! j"
      using j p by (intro copy_fold_hit) auto
    then show ?thesis using j p True assms(2) by (simp add: erased_def)
  next
    case False
    then have "copy_fold [0..<len] (\<lambda>j. j) (kept mode) out filler ! p = filler ! p"
      by (intro copy_fold_untouched) auto
    then show ?thesis using p False by (simp add: erased_def)
  qed
qed (simp add: erased_def)

lemma punctured_nth:
  "j < length out \<Longrightarrow> copy_fold [0..<length out] (kept mode) (\<lambda>j. j) input out ! j = input ! kept mode j"
  using copy_fold_hit [of "\<lambda>j. j" "[0..<length out]" j out "kept mode" input] by simp

lemma mother_memcmp_erased:
  assumes "\<And>p. p < length mother \<Longrightarrow> d ! p = mother ! p \<or> d ! p = 0xff" and "length d = length mother"
  shows "mother_memcmp mother d = Some (card {p. p < length mother \<and> d ! p \<noteq> 0xff})"
  using assms
proof (induction mother d rule: mother_memcmp.induct)
  case (1 m ms d ds)
  have "ds ! p = ms ! p \<or> ds ! p = 0xff" if "p < length ms" for p
    using 1(3) [of "Suc p"] that by simp
  then have tl: "mother_memcmp ms ds = Some (card {p. p < length ms \<and> ds ! p \<noteq> 0xff})" if "d = 0xff \<or> d = m"
    using that 1(1,2,4) by auto
  have "{p. p < length (m # ms) \<and> (d # ds) ! p \<noteq> 0xff} =
      (if d \<noteq> 0xff then {0} else {}) \<union> Suc ` {p. p < length ms \<and> ds ! p \<noteq> 0xff}"
    by (auto simp: less_Suc_eq_0_disj)
  moreover have "card (Suc ` A) = card A" for A by (simp add: card_image)
  moreover have "d = m \<or> d = 0xff" using 1(3) [of 0] by auto
  ultimately show ?case using tl by (auto simp: card_insert_if)
qed auto

text \<open>Every pattern of the coder keeps the first symbol of each group.\<close>

lemma punct_pos_at:
  "r < punct_t pu \<Longrightarrow> punct_pos pu (punct_t pu * q + r) = punct_period pu * q + punct_p pu ! (r + 1) - 1"
  by (simp add: punct_pos_def)

lemma kept_group_2_3: "kept Rate2_3 (3 * (m div 2) + 2 * (m mod 2)) = 4 * m"
proof -
  have m: "4 * m = 8 * (m div 2) + 4 * (m mod 2)" by presburger
  consider "m mod 2 = 0" | "m mod 2 = 1" by linarith
  then show ?thesis
    unfolding m using punct_pos_at [of "2 * (m mod 2)" "get_puncturer Rate2_3" "m div 2"]
    by cases (simp_all add: kept_def P_RATE2_3_def)
qed

lemma kept_group_112_168: "kept Rate112_168 (3 * (m div 2) + 2 * (m mod 2)) = 3 * m"
proof -
  have m: "3 * m = 6 * (m div 2) + 3 * (m mod 2)" by presburger
  consider "m mod 2 = 0" | "m mod 2 = 1" by linarith
  then show ?thesis
    unfolding m using punct_pos_at [of "2 * (m mod 2)" "get_puncturer Rate112_168" "m div 2"]
    by cases (simp_all add: kept_def P_RATE8_12_def)
qed

lemma kept_group_72_162: "kept Rate72_162 (9 * (m div 4) + [0, 3, 5, 7] ! (m mod 4)) = 3 * m"
proof -
  have m: "3 * m = 12 * (m div 4) + 3 * (m mod 4)" by presburger
  consider "m mod 4 = 0" | "m mod 4 = 1" | "m mod 4 = 2" | "m mod 4 = 3" by linarith
  then show ?thesis
    unfolding m using punct_pos_at [of "[0, 3, 5, 7] ! (m mod 4)" "get_puncturer Rate72_162" "m div 4"]
    by cases (simp_all add: kept_def P_RATE8_18_def)
qed

text \<open>Element-wise: what the three loops write.\<close>

lemma punctured_nths:
  assumes "length out \<le> 2 ^ 26" and "\<And>j. j < length out \<Longrightarrow> kept mode j < length input"
  obtains r where "get_punctured_rate mode input out = Some r" "length r = length out"
    "\<And>j. j < length out \<Longrightarrow> r ! j = input ! kept mode j"
  using punctured_copy [OF assms] punctured_nth [of _ out mode input] by force

lemma depunct_nths:
  assumes "length filler \<le> 2 ^ 26" and "len \<le> length input" and "\<And>j. j < len \<Longrightarrow> kept mode j < length filler"
  defines "d \<equiv> copy_fold [0..<len] (\<lambda>j. j) (kept mode) input filler"
  shows "length d = length filler" and "j < len \<Longrightarrow> d ! kept mode j = input ! j"
    and "\<lbrakk>p \<notin> kept mode ` {..<len}\<rbrakk> \<Longrightarrow> d ! p = filler ! p"
proof -
  have inj: "inj_on (kept mode) (set [0..<len])" using kept_inj by (rule inj_on_subset) simp
  show "length d = length filler" by (simp add: d_def)
  show "d ! kept mode j = input ! j" if "j < len"
    unfolding d_def using that assms(3) by (intro copy_fold_hit inj) auto
  show "d ! p = filler ! p" if "p \<notin> kept mode ` {..<len}"
    unfolding d_def using that by (intro copy_fold_untouched) auto
qed

section \<open>Properties\<close>

text \<open>C6: Puncturing and depuncturing never panic on buffers that hold the positions of the pattern, for
  every puncturing mode. Depuncturing into a buffer of fillers puts every transmitted symbol back
  where it came from and leaves every other symbol a filler, so the comparison with the mother code
  matches exactly as many symbols as were transmitted.\<close>

theorem puncture_roundtrip:
  assumes "length output \<le> 2 ^ 26" and "output \<noteq> []" and "kept mode (length output - 1) < length mother"
    and "0xff \<notin> set mother"
  shows "\<exists>out d. get_punctured_rate mode mother output = Some out
    \<and> tetra_rcpc_depunct mode out (length output) (replicate (length mother) 0xff) = Some d
    \<and> (\<forall>j < length output. out ! j = mother ! kept mode j \<and> d ! kept mode j = mother ! kept mode j)
    \<and> (\<forall>p < length mother. p \<notin> kept mode ` {..<length output} \<longrightarrow> d ! p = 0xff)
    \<and> mother_memcmp mother d = Some (length output)"
proof -
  let ?n = "length output"
  let ?out = "copy_fold [0..<?n] (kept mode) (\<lambda>j. j) mother output"
  let ?d = "erased mode ?n mother (replicate (length mother) 0xff)"
  have k: "kept mode j < length mother" if "j < ?n" for j
    by (rule le_less_trans [OF kept_le assms(3)]) (use that in simp)
  have p: "get_punctured_rate mode mother output = Some ?out"
    using k by (intro punctured_copy assms(1)) auto
  have d: "tetra_rcpc_depunct mode ?out ?n (replicate (length mother) 0xff) = Some ?d"
  proof -
    have "copy_fold [0..<?n] (\<lambda>j. j) (kept mode) ?out (replicate (length mother) 0xff) = ?d"
      by (rule depunct_punctured) (simp_all add: k punctured_nth)
    then show ?thesis
      using depunct_copy [OF assms(1), of ?out mode "replicate (length mother) 0xff"] k by simp
  qed
  have nf: "mother ! kept mode j \<noteq> 0xff" if "j < ?n" for j
    using nth_mem [OF k [OF that]] assms(4) by auto
  have "{p. p < length mother \<and> ?d ! p \<noteq> 0xff} = kept mode ` {..<?n}"
    using k nf by (auto simp: erased_def split: if_splits)
  moreover have "card (kept mode ` {..<?n}) = ?n"
    using kept_inj [of mode] by (simp add: card_image inj_on_subset)
  ultimately have "mother_memcmp mother ?d = Some ?n"
    using mother_memcmp_erased [of mother ?d] by (simp add: erased_def)
  then show ?thesis
    using p d k by (auto simp: punctured_nth) (auto simp: erased_def)
qed

theorem puncture_roundtrip_witness:
  "\<exists>out d. get_punctured_rate Rate2_3 [0, 1, 1, 0, 1, 0, 0, 1] [0, 0, 0] = Some out
    \<and> tetra_rcpc_depunct Rate2_3 out (length [0, 0, 0 :: u8]) (replicate (length [0, 1, 1, 0, 1, 0, 0, 1 :: u8]) 0xff) = Some d
    \<and> mother_memcmp [0, 1, 1, 0, 1, 0, 0, 1] d = Some (length [0, 0, 0 :: u8])"
proof -
  have "kept Rate2_3 (length [0, 0, 0 :: u8] - 1) = 4"
    by (simp add: kept_def punct_pos_def P_RATE2_3_def)
  then have "kept Rate2_3 (length [0, 0, 0 :: u8] - 1) < length [0, 1, 1, 0, 1, 0, 0, 1 :: u8]"
    by (simp only: list.size)
  moreover have "length [0, 0, 0 :: u8] \<le> 2 ^ 26" "[0, 0, 0 :: u8] \<noteq> []"
    "0xff \<notin> set [0, 1, 1, 0, 1, 0, 0, 1 :: u8]" by simp_all
  ultimately show ?thesis using puncture_roundtrip by blast
qed

end
