(* ===== verification/Viterbi.thy ===== *)
theory Viterbi
  imports Convenc
begin

text \<open>
  The Viterbi decoder of \<^verbatim>\<open>crates/tetra-entities/src/lmac/components/viterbi.rs\<close>. Soft bits are
  \<open>i8\<close> and path metrics \<open>i32\<close>; products, sums and differences wrap as in the source. Decisions
  are 16-bit words, one bit per state.

  The proof describes the recursion on metrics over the reversed list of received groups (newest
  first), shows that the traced path has the least cost of all paths into the final state, and
  that this makes the decoder a maximum-likelihood decoder for the encoders of \<open>Convenc\<close>.
\<close>

section \<open>The decoder\<close>

definition K :: nat where "K = 5"

definition num_states :: "nat \<Rightarrow> nat" where
  "num_states k = push_bit (k - 1) 1"

definition NUM_STATES :: nat where "NUM_STATES = num_states K"

definition METRIC_MAX :: int where "METRIC_MAX = 2147483647"

record viterbi_decoder =
  expected_0 :: "int list list"

text \<open>The output that the encoder would give on reaching a state with 0 leaving the register.\<close>

definition expected_output :: "bool list \<Rightarrow> nat \<Rightarrow> int" where
  "expected_output poly state =
     (let encoder_output = fold (\<lambda>bit_i out.
           let past_input_bit = (state AND push_bit (K - 2 - bit_i) 1) \<noteq> 0
           in if past_input_bit \<and> poly ! bit_i then \<not> out else out) [0..<K - 1] False
      in if encoder_output then 1 else -1)"

definition new_with_polynomials :: "bool list list \<Rightarrow> viterbi_decoder" where
  "new_with_polynomials polys =
     \<lparr>expected_0 = map (\<lambda>poly. map (expected_output poly) [0..<NUM_STATES]) polys\<rparr>"

fun chunks_exact :: "nat \<Rightarrow> 'a list \<Rightarrow> 'a list list" where
  "chunks_exact n xs = (if n = 0 \<or> length xs < n then [] else take n xs # chunks_exact n (drop n xs))"

declare chunks_exact.simps [simp del]

definition branch_metrics_0 :: "viterbi_decoder \<Rightarrow> int list \<Rightarrow> int list" where
  "branch_metrics_0 dec received =
     fold (\<lambda>(received_bit, expected) bm. map2 (\<lambda>b e. wrap_i32 (b - wrap_i8 (received_bit * e))) bm expected)
       (zip received (expected_0 dec)) (replicate NUM_STATES 0)"

definition metric_0 :: "int list \<Rightarrow> int list \<Rightarrow> nat \<Rightarrow> int" where
  "metric_0 metrics bm state = wrap_i32 (metrics ! (state * 2 mod NUM_STATES) + bm ! state)"

definition metric_1 :: "int list \<Rightarrow> int list \<Rightarrow> nat \<Rightarrow> int" where
  "metric_1 metrics bm state = wrap_i32 (metrics ! (state * 2 mod NUM_STATES + 1) - bm ! state)"

text \<open>One group of received bits: the new metrics and the decision bitmap.\<close>

definition decode_step :: "viterbi_decoder \<Rightarrow> int list \<Rightarrow> int list \<times> u16 list \<Rightarrow> int list \<times> u16 list" where
  "decode_step dec received = (\<lambda>(metrics, trellis_decisions).
     let bm = branch_metrics_0 dec received;
         decisions = fold (\<lambda>state d. if metric_1 metrics bm state < metric_0 metrics bm state
           then d OR push_bit state 1 else d) [0..<NUM_STATES] 0
     in (map (\<lambda>state. if metric_1 metrics bm state < metric_0 metrics bm state
           then metric_1 metrics bm state else metric_0 metrics bm state) [0..<NUM_STATES],
         trellis_decisions @ [decisions]))"

definition traceback_step :: "u16 \<Rightarrow> u8 list \<times> nat \<Rightarrow> u8 list \<times> nat" where
  "traceback_step decisions = (\<lambda>(decoded_bits, best_state).
     (decoded_bits @ [of_nat (drop_bit (K - 2) best_state AND 1)],
      best_state * 2 mod NUM_STATES + unat (drop_bit best_state decisions AND 1)))"

definition decode :: "viterbi_decoder \<Rightarrow> int list \<Rightarrow> u8 list" where
  "decode dec received_bits =
     (let (_, trellis_decisions) = fold (decode_step dec) (chunks_exact (length (expected_0 dec)) received_bits)
            ((replicate NUM_STATES (METRIC_MAX div 2))[0 := 0], []);
          (decoded_bits, _) = fold traceback_step (rev trellis_decisions) ([], 0)
      in rev decoded_bits)"

definition tetra_viterbi_decoder :: viterbi_decoder where
  "tetra_viterbi_decoder = new_with_polynomials
    [[True, True, False, False, True], [True, False, True, True, True],
     [True, True, True, False, True], [True, True, False, True, True]]"

definition tetra_codec_viterbi_decoder :: viterbi_decoder where
  "tetra_codec_viterbi_decoder = new_with_polynomials
    [[True, True, True, True, True], [True, True, False, True, True], [True, False, True, False, True]]"

definition dec_sb1_soft :: "int list \<Rightarrow> u8 list \<Rightarrow> nat \<Rightarrow> u8 list option" where
  "dec_sb1_soft in_buf out_buf sym_count = do {
     guard (length in_buf \<ge> sym_count * 4);
     guard (length out_buf \<ge> sym_count);
     soft \<leftarrow> aslice in_buf 0 (sym_count * 4);
     let decoded = decode tetra_viterbi_decoder soft;
     bits \<leftarrow> aslice decoded 0 sym_count;
     aput out_buf 0 bits }"

definition hard_to_soft :: "u8 \<Rightarrow> int option" where
  "hard_to_soft b = (if b = 0 then Some (-1) else if b = 1 then Some 1 else if b = 0xff then Some 0 else None)"

definition dec_sb1 :: "u8 list \<Rightarrow> u8 list \<Rightarrow> nat \<Rightarrow> u8 list option" where
  "dec_sb1 in_buf out_buf sym_count = do {
     guard (sym_count \<le> 864);
     guard (length in_buf \<ge> sym_count * 4);
     guard (length out_buf \<ge> sym_count);
     hard \<leftarrow> aslice in_buf 0 (sym_count * 4);
     soft \<leftarrow> those (map hard_to_soft hard);
     dec_sb1_soft soft out_buf sym_count }"

section \<open>The expected outputs\<close>

lemma NUM_STATES_16 [simp]: "NUM_STATES = 16"
  by (simp add: NUM_STATES_def num_states_def K_def)

text \<open>The state is the register read as a number, newest bit first.\<close>

fun reg_num :: "enc_reg \<Rightarrow> nat" where
  "reg_num (d0, d1, d2, d3) = 8 * of_bool d0 + 4 * of_bool d1 + 2 * of_bool d2 + of_bool d3"

definition sgn_of :: "bool \<Rightarrow> int" where
  "sgn_of b = (if b then 1 else -1)"

definition poly_ok :: "bool list \<Rightarrow> bool" where
  "poly_ok p \<longleftrightarrow> length p = 5 \<and> p ! 0 \<and> p ! 4"

lemma reg_num_less: "reg_num r < 16"
  by (cases r) (auto simp: of_bool_def)

lemma reg_num_inj: "reg_num r = reg_num r' \<longleftrightarrow> r = r'"
  by (cases r; cases r') (auto simp: of_bool_def split: if_splits)

lemma reg_num_zero: "reg_num r = 0 \<longleftrightarrow> r = zero_reg"
  by (cases r) (auto simp: zero_reg_def)

lemma reg_num_surj: "s < 16 \<Longrightarrow> \<exists>r. reg_num r = s"
proof -
  assume "s < 16"
  have "s = 2 * (s div 2) + s mod 2" "s div 2 = 2 * (s div 4) + s div 2 mod 2"
    "s div 4 = 2 * (s div 8) + s div 4 mod 2"
    using mult_div_mod_eq [of 2 s] mult_div_mod_eq [of 2 "s div 2"] mult_div_mod_eq [of 2 "s div 4"]
    by (simp_all flip: div_mult2_eq)
  moreover have "s div 8 mod 2 = s div 8" using \<open>s < 16\<close> by simp
  ultimately have "8 * (s div 8 mod 2) + 4 * (s div 4 mod 2) + 2 * (s div 2 mod 2) + s mod 2 = s"
    by linarith
  then have "reg_num (odd (s div 8), odd (s div 4), odd (s div 2), odd s) = s"
    by (simp only: reg_num.simps of_bool_odd_eq_mod_2)
  then show ?thesis by blast
qed

lemma reg_num_shift: "reg_num (shift_reg r b) = 8 * of_bool b + reg_num r div 2"
  by (cases r) (auto simp: of_bool_def)

lemma reg_num_pred: "reg_num (shift_reg r b) * 2 mod 16 + of_bool (odd (reg_num r)) = reg_num r"
  by (cases r) (auto simp: of_bool_def)

lemma list5: "length p = 5 \<Longrightarrow> p = [p ! 0, p ! 1, p ! 2, p ! 3, p ! 4]"
  by (auto simp: length_Suc_conv eval_nat_numeral)

lemma and_push_bit_1: "((n :: nat) AND push_bit j 1) \<noteq> 0 \<longleftrightarrow> odd (n div 2 ^ j)"
  by (metis and_exp_eq_0_iff_not_bit bit_iff_odd mult_1 push_bit_eq_mult)

lemma reg_num_bits:
  "odd (reg_num (b, d0, d1, d2) div 2 ^ 3) = b" "odd (reg_num (b, d0, d1, d2) div 2 ^ 2) = d0"
  "odd (reg_num (b, d0, d1, d2) div 2 ^ 1) = d1" "odd (reg_num (b, d0, d1, d2) div 2 ^ 0) = d2"
  by (cases b; cases d0; cases d1; cases d2; simp)+

lemma expected_sign:
  assumes "poly_ok p"
  shows "(if odd (reg_num r) then -1 else 1) * expected_output p (reg_num (shift_reg r b)) =
    sgn_of (pxor p (b # reg_list r))"
proof -
  obtain d0 d1 d2 d3 where r: "r = (d0, d1, d2, d3)" by (cases r) auto
  have l: "pxor p xs = pxor [p ! 0, p ! 1, p ! 2, p ! 3, p ! 4] xs" for xs
    using list5 [of p] assms by (simp add: poly_ok_def)
  have p: "p ! 0" "p ! 4" using assms by (auto simp: poly_ok_def)
  have u: "[0..<K - 1] = [0, 1, 2, 3]" by (simp add: K_def upt_rec)
  have "odd (reg_num (d0, d1, d2, d3)) = d3" by (cases d0; cases d1; cases d2; cases d3; simp)
  moreover have k: "K - 2 - 0 = 3" "K - 2 - 1 = 2" "K - 2 - 2 = 1" "K - 2 - 3 = 0" by (simp_all add: K_def)
  ultimately show ?thesis
    unfolding expected_output_def r l u shift_reg.simps and_push_bit_1 fold_simps k reg_num_bits Let_def
    using p by (auto simp: sgn_of_def)
qed

section \<open>Path costs\<close>

text \<open>
  All lists in this section have the newest element first. The branch metric of a received group
  for a state reached with input 0 dropped from the register; the least cost \<open>least\<close> of a path
  into a state; the dropped bits \<open>best_path\<close> of the path that the decoder keeps.
\<close>

definition branch :: "viterbi_decoder \<Rightarrow> int list \<Rightarrow> nat \<Rightarrow> int" where
  "branch dec r s = - sum_list (map2 (\<lambda>x ex. x * ex ! s) r (expected_0 dec))"

definition pred_state :: "nat \<Rightarrow> bool \<Rightarrow> nat" where
  "pred_state s d = s * 2 mod 16 + of_bool d"

definition start_cost :: "nat \<Rightarrow> int" where
  "start_cost s = (if s = 0 then 0 else METRIC_MAX div 2)"

fun least :: "viterbi_decoder \<Rightarrow> int list list \<Rightarrow> nat \<Rightarrow> int" where
  "least dec [] s = start_cost s"
| "least dec (r # rs) s =
     min (least dec rs (pred_state s False) + branch dec r s) (least dec rs (pred_state s True) - branch dec r s)"

definition takes_one :: "viterbi_decoder \<Rightarrow> int list \<Rightarrow> int list list \<Rightarrow> nat \<Rightarrow> bool" where
  "takes_one dec r rs s \<longleftrightarrow>
     least dec rs (pred_state s True) - branch dec r s < least dec rs (pred_state s False) + branch dec r s"

fun path_cost :: "viterbi_decoder \<Rightarrow> int list list \<Rightarrow> nat \<Rightarrow> bool list \<Rightarrow> int" where
  "path_cost dec (r # rs) s (d # ds) =
     (if d then - branch dec r s else branch dec r s) + path_cost dec rs (pred_state s d) ds"
| "path_cost dec _ s _ = start_cost s"

fun best_path :: "viterbi_decoder \<Rightarrow> int list list \<Rightarrow> nat \<Rightarrow> bool list" where
  "best_path dec [] s = []"
| "best_path dec (r # rs) s = takes_one dec r rs s # best_path dec rs (pred_state s (takes_one dec r rs s))"

lemma length_best_path [simp]: "length (best_path dec rs s) = length rs"
  by (induction rs arbitrary: s) auto

lemma best_path_cost: "path_cost dec rs s (best_path dec rs s) = least dec rs s"
  by (induction rs arbitrary: s) (auto simp: takes_one_def min_def)

lemma least_path_cost: "length ds = length rs \<Longrightarrow> least dec rs s \<le> path_cost dec rs s ds"
proof (induction rs arbitrary: s ds)
  case (Cons r rs)
  then obtain d ds' where [simp]: "ds = d # ds'" by (cases ds) auto
  have "least dec rs (pred_state s d) \<le> path_cost dec rs (pred_state s d) ds'" using Cons by simp
  then show ?case by (cases d) auto
qed simp

section \<open>The recursion computes least costs\<close>

definition dec_ok :: "viterbi_decoder \<Rightarrow> bool" where
  "dec_ok dec \<longleftrightarrow> length (expected_0 dec) \<le> 4 \<and>
     (\<forall>ex \<in> set (expected_0 dec). length ex = 16 \<and> (\<forall>e \<in> set ex. e = 1 \<or> e = -1))"

definition soft_ok :: "int list \<Rightarrow> bool" where
  "soft_ok xs \<longleftrightarrow> (\<forall>x \<in> set xs. - 127 \<le> x \<and> x \<le> 127)"

definition group_ok :: "viterbi_decoder \<Rightarrow> int list \<Rightarrow> bool" where
  "group_ok dec r \<longleftrightarrow> soft_ok r \<and> length r = length (expected_0 dec)"

lemma branch_fold:
  assumes "length xs = length exs" and "soft_ok xs" and "length bm = 16"
    and "\<forall>ex \<in> set exs. length ex = 16 \<and> (\<forall>e \<in> set ex. e = 1 \<or> e = -1)"
    and "\<forall>b \<in> set bm. \<bar>b\<bar> \<le> B" and "B + 127 * int (length xs) < 2 ^ 31"
  shows "fold (\<lambda>(received_bit, expected) bm. map2 (\<lambda>b e. wrap_i32 (b - wrap_i8 (received_bit * e))) bm expected) (zip xs exs) bm
    = map (\<lambda>s. bm ! s - sum_list (map2 (\<lambda>x ex. x * ex ! s) xs exs)) [0..<16]"
  using assms
proof (induction xs exs arbitrary: bm B rule: list_induct2)
  case Nil
  then show ?case by (simp add: map_nth [symmetric] del: upt_rec_numeral) (metis map_nth)
next
  case (Cons x xs ex exs)
  let ?bm = "map2 (\<lambda>b e. wrap_i32 (b - wrap_i8 (x * e))) bm ex"
  have x: "\<bar>x\<bar> \<le> 127" and ex: "length ex = 16" "\<And>e. e \<in> set ex \<Longrightarrow> e = 1 \<or> e = -1"
    using Cons.prems by (auto simp: soft_ok_def)
  have nth: "?bm ! s = bm ! s - x * ex ! s" and bd: "\<bar>bm ! s - x * ex ! s\<bar> \<le> B + 127" if "s < 16" for s
  proof -
    have b: "\<bar>bm ! s\<bar> \<le> B" using Cons.prems(2,4) that by auto
    have e: "ex ! s = 1 \<or> ex ! s = -1" using ex that by (metis nth_mem)
    have "wrap_i8 (x * ex ! s) = x * ex ! s" using x e by (intro wrap_i8_id) auto
    moreover have "\<bar>bm ! s - x * ex ! s\<bar> \<le> B + 127" using x e b by auto
    moreover from this have "wrap_i32 (bm ! s - x * ex ! s) = bm ! s - x * ex ! s"
      using Cons.prems(5) by (intro wrap_i32_id) auto
    ultimately show "?bm ! s = bm ! s - x * ex ! s" and "\<bar>bm ! s - x * ex ! s\<bar> \<le> B + 127"
      using that ex(1) Cons.prems(2) by simp_all
  qed
  have len: "length ?bm = 16" using ex Cons.prems(2) by simp
  have "\<forall>b \<in> set ?bm. \<bar>b\<bar> \<le> B + 127"
  proof
    fix b assume "b \<in> set ?bm"
    then obtain s where "s < 16" "b = ?bm ! s" using len by (metis in_set_conv_nth)
    then show "\<bar>b\<bar> \<le> B + 127" using nth bd by simp
  qed
  then have "fold (\<lambda>(received_bit, expected) bm. map2 (\<lambda>b e. wrap_i32 (b - wrap_i8 (received_bit * e))) bm expected)
      (zip xs exs) ?bm = map (\<lambda>s. ?bm ! s - sum_list (map2 (\<lambda>x ex. x * ex ! s) xs exs)) [0..<16]"
    using Cons.prems len by (intro Cons.IH [of _ "B + 127"]) (auto simp: soft_ok_def)
  also have "\<dots> = map (\<lambda>s. bm ! s - sum_list (map2 (\<lambda>x ex. x * ex ! s) (x # xs) (ex # exs))) [0..<16]"
    using nth by (intro map_cong) (auto simp del: upt_rec_numeral)
  finally show ?case by simp
qed

lemma branch_metrics_branch:
  assumes "dec_ok dec" and "group_ok dec r"
  shows "branch_metrics_0 dec r = map (branch dec r) [0..<16]"
  using branch_fold [of r "expected_0 dec" "replicate 16 0" 0] assms
  by (auto simp: branch_metrics_0_def branch_def dec_ok_def group_ok_def simp del: upt_rec_numeral)

lemma branch_bound:
  assumes "dec_ok dec" and "group_ok dec r" and "s < 16"
  shows "\<bar>branch dec r s\<bar> \<le> 508"
proof -
  have "\<bar>sum_list (map2 (\<lambda>x ex. x * ex ! s) xs exs)\<bar> \<le> 127 * int (length xs)"
    if "length xs = length exs" "soft_ok xs" "\<forall>ex \<in> set exs. length ex = 16 \<and> (\<forall>e \<in> set ex. e = 1 \<or> e = -1)"
    for xs exs
    using that
  proof (induction xs exs rule: list_induct2)
    case (Cons x xs ex exs)
    have "s < length ex" using Cons.prems(2) assms(3) by simp
    then have "ex ! s = 1 \<or> ex ! s = -1" using Cons.prems(2) nth_mem by (metis list.set_intros(1))
    moreover have "\<bar>x\<bar> \<le> 127" using Cons.prems(1) by (auto simp: soft_ok_def)
    ultimately have "\<bar>x * ex ! s\<bar> \<le> 127" by auto
    then show ?case using Cons by (auto simp: soft_ok_def)
  qed simp
  from this [of r "expected_0 dec"] show ?thesis
    using assms by (auto simp: dec_ok_def group_ok_def branch_def)
qed

lemma pred_state_less: "pred_state s d < 16"
proof -
  have "even (s * 2 mod 16)" by (simp add: dvd_mod)
  moreover have "s * 2 mod 16 < 16" by simp
  ultimately have "s * 2 mod 16 \<noteq> 15" and "s * 2 mod 16 < 16" by (auto intro: odd_numeral)
  then show ?thesis by (auto simp: pred_state_def)
qed

lemma least_bound:
  assumes "dec_ok dec" and "\<forall>r \<in> set rs. group_ok dec r" and "s < 16"
  shows "- 508 * int (length rs) \<le> least dec rs s" and "least dec rs s \<le> 1073741823 + 508 * int (length rs)"
  using assms(2,3)
proof (induction rs arbitrary: s)
  case Nil
  { case 1 show ?case by (simp add: start_cost_def METRIC_MAX_def) }
  { case 2 show ?case by (simp add: start_cost_def METRIC_MAX_def) }
next
  case (Cons r rs)
  { case 1
    have "- 508 * int (length rs) \<le> least dec rs (pred_state s d)" for d
      by (rule Cons(1)) (use 1 pred_state_less in auto)
    moreover have "\<bar>branch dec r s\<bar> \<le> 508" using branch_bound [OF assms(1)] 1 by simp
    ultimately show ?case by (auto simp: min_def algebra_simps) (smt (verit))+ }
  { case 2
    have "least dec rs (pred_state s False) \<le> 1073741823 + 508 * int (length rs)"
      by (rule Cons(2)) (use 2 pred_state_less in auto)
    moreover have "\<bar>branch dec r s\<bar> \<le> 508" using branch_bound [OF assms(1)] 2 by simp
    ultimately show ?case by (auto simp: min_def) }
qed

fun words_ok :: "viterbi_decoder \<Rightarrow> int list list \<Rightarrow> u16 list \<Rightarrow> bool" where
  "words_ok dec [] [] \<longleftrightarrow> True"
| "words_ok dec (r # rs) (w # ws) \<longleftrightarrow> (\<forall>s < 16. bit w s \<longleftrightarrow> takes_one dec r rs s) \<and> words_ok dec rs ws"
| "words_ok dec _ _ \<longleftrightarrow> False"

lemma bit_decisions:
  assumes "s < 16"
  shows "bit (fold (\<lambda>state d. if P state then d OR push_bit state 1 else d) [0..<16] (0 :: u16)) s \<longleftrightarrow> P s"
proof -
  have "bit (fold (\<lambda>state d. if P state then d OR push_bit state 1 else d) js (w :: u16)) s \<longleftrightarrow>
      bit w s \<or> s \<in> set js \<and> P s" for js w
    using assms by (induction js arbitrary: w) (auto simp: bit_simps)
  then show ?thesis using assms by (simp del: upt_rec_numeral)
qed

lemma decode_step_least:
  assumes "dec_ok dec" and "\<forall>r \<in> set (r # rs). group_ok dec r" and "length rs < 2 ^ 20"
    and "words_ok dec rs (rev tds)"
  shows "\<exists>tds'. decode_step dec r (map (least dec rs) [0..<16], tds) = (map (least dec (r # rs)) [0..<16], tds')
    \<and> words_ok dec (r # rs) (rev tds')"
proof -
  let ?ms = "map (least dec rs) [0..<16]" and ?bm = "map (branch dec r) [0..<16]"
  have bm: "branch_metrics_0 dec r = ?bm" using assms by (intro branch_metrics_branch) auto
  have b: "\<bar>branch dec r s\<bar> \<le> 508" if "s < 16" for s
    using assms(1,2) that by (intro branch_bound) auto
  have l: "- 508 * 1048576 \<le> least dec rs s" "least dec rs s \<le> 1073741823 + 508 * 1048576" if "s < 16" for s
    using least_bound [OF assms(1), of rs s] assms(2,3) that by auto
  have m0: "metric_0 ?ms ?bm s = least dec rs (pred_state s False) + branch dec r s" if "s < 16" for s
  proof -
    have "s * 2 mod 16 = pred_state s False" by (simp add: pred_state_def)
    then show ?thesis
      using that b [OF that] l [OF pred_state_less [of s False]] pred_state_less [of s False]
      by (simp add: metric_0_def wrap_simps nth_upt_zero del: upt_rec_numeral)
  qed
  have m1: "metric_1 ?ms ?bm s = least dec rs (pred_state s True) - branch dec r s" if "s < 16" for s
  proof -
    have "s * 2 mod 16 + 1 = pred_state s True" by (simp add: pred_state_def)
    then show ?thesis
      using that b [OF that] l [OF pred_state_less [of s True]] pred_state_less [of s True]
      by (simp add: metric_1_def wrap_simps nth_upt_zero del: upt_rec_numeral add_0_right One_nat_def)
  qed
  have c: "metric_1 ?ms ?bm s < metric_0 ?ms ?bm s \<longleftrightarrow> takes_one dec r rs s" if "s < 16" for s
    by (simp only: m0 [OF that] m1 [OF that] takes_one_def)
  have new: "map (\<lambda>state. if metric_1 ?ms ?bm state < metric_0 ?ms ?bm state
      then metric_1 ?ms ?bm state else metric_0 ?ms ?bm state) [0..<16] = map (least dec (r # rs)) [0..<16]"
    by (rule map_cong) (auto simp: c m0 m1 takes_one_def simp del: upt_rec_numeral)
  show ?thesis
    unfolding decode_step_def bm Let_def NUM_STATES_16 prod.case new
    by (intro exI conjI refl) (use assms(4) in \<open>auto simp: bit_decisions c simp del: upt_rec_numeral\<close>)
qed

lemma decode_fold:
  assumes "dec_ok dec" and "\<forall>r \<in> set rs. group_ok dec r" and "length rs \<le> 2 ^ 20"
  shows "\<exists>tds. fold (decode_step dec) rs (map (least dec []) [0..<16], []) = (map (least dec (rev rs)) [0..<16], tds)
    \<and> words_ok dec (rev rs) (rev tds)"
  using assms(2,3)
proof (induction rs rule: rev_induct)
  case (snoc r rs)
  then obtain tds where "fold (decode_step dec) rs (map (least dec []) [0..<16], []) = (map (least dec (rev rs)) [0..<16], tds)"
    and "words_ok dec (rev rs) (rev tds)" using snoc by (auto simp del: least.simps upt_rec_numeral)
  then show ?case
    using decode_step_least [OF assms(1), of r "rev rs" tds] snoc.prems
    by (auto simp del: least.simps upt_rec_numeral)
qed simp

text \<open>The bits along a path, newest first: the top bit of every state.\<close>

fun out_bits :: "nat \<Rightarrow> bool list \<Rightarrow> bool list" where
  "out_bits s [] = []"
| "out_bits s (d # ds) = (8 \<le> s) # out_bits (pred_state s d) ds"

lemma traceback_fold:
  "\<lbrakk>words_ok dec rs ws; s < 16\<rbrakk> \<Longrightarrow>
     fst (fold traceback_step ws (acc, s)) = acc @ map bit_of (out_bits s (best_path dec rs s))"
proof (induction dec rs ws arbitrary: s acc rule: words_ok.induct)
  case (2 dec r rs w ws)
  have "unat (drop_bit s w AND 1) = of_bool (takes_one dec r rs s)"
    using 2(2,3) by (auto simp: and_one_eq bit_iff_odd_drop_bit mod_2_eq_odd)
  moreover have "of_nat (drop_bit (K - 2) s AND 1) = bit_of (8 \<le> s)"
  proof -
    have "s div 8 = of_bool (8 \<le> s)" using 2(3) by auto
    then have "drop_bit (K - 2) s AND 1 = of_bool (8 \<le> s)" by (simp add: K_def drop_bit_eq_div and_one_eq)
    then show ?thesis by (simp add: bit_of_def)
  qed
  ultimately have "traceback_step w (acc, s) = (acc @ [bit_of (8 \<le> s)], pred_state s (takes_one dec r rs s))"
    by (simp add: traceback_step_def pred_state_def)
  then show ?case using 2 pred_state_less by simp
qed auto

lemma decode_best_path:
  assumes "dec_ok dec" and "\<forall>r \<in> set (chunks_exact (length (expected_0 dec)) xs). group_ok dec r"
    and "length (chunks_exact (length (expected_0 dec)) xs) \<le> 2 ^ 20"
  shows "decode dec xs = rev (map bit_of (out_bits 0 (best_path dec (rev (chunks_exact (length (expected_0 dec)) xs)) 0)))"
proof -
  have "(replicate NUM_STATES (METRIC_MAX div 2))[0 := 0] = map (least dec []) [0..<16]"
    by (rule nth_equalityI) (auto simp: nth_list_update start_cost_def simp del: upt_rec_numeral)
  moreover obtain tds where "fold (decode_step dec) (chunks_exact (length (expected_0 dec)) xs) (map (least dec []) [0..<16], [])
      = (map (least dec (rev (chunks_exact (length (expected_0 dec)) xs))) [0..<16], tds)"
    and "words_ok dec (rev (chunks_exact (length (expected_0 dec)) xs)) (rev tds)"
    using decode_fold [OF assms] by blast
  ultimately show ?thesis
    using traceback_fold [of dec _ "rev tds" 0 "[]"] by (auto simp: decode_def split_beta Let_def simp del: upt_rec_numeral)
qed

section \<open>Paths are messages\<close>

definition last_reg :: "bool list \<Rightarrow> enc_reg" where
  "last_reg bs = foldl shift_reg zero_reg (rev bs)"

fun drops :: "bool list \<Rightarrow> bool list" where
  "drops [] = []"
| "drops (b # bs) = odd (reg_num (last_reg bs)) # drops bs"

definition group_score :: "int list \<Rightarrow> bool list \<Rightarrow> int" where
  "group_score r cs = sum_list (map2 (\<lambda>x c. x * sgn_of c) r cs)"

fun score :: "bool list list \<Rightarrow> int list list \<Rightarrow> bool list \<Rightarrow> int" where
  "score ps (r # rs) (b # bs) = group_score r (enc_out ps (last_reg bs) b) + score ps rs bs"
| "score ps _ _ = 0"

fun path_start :: "nat \<Rightarrow> bool list \<Rightarrow> nat" where
  "path_start s [] = s"
| "path_start s (d # ds) = path_start (pred_state s d) ds"

lemma last_reg_Cons: "last_reg (b # bs) = shift_reg (last_reg bs) b"
  by (simp add: last_reg_def)

lemma dec_ok_polys:
  assumes "\<forall>p \<in> set ps. poly_ok p" and "length ps \<le> 4"
  shows "dec_ok (new_with_polynomials ps)"
  using assms(2)
  by (auto simp: dec_ok_def new_with_polynomials_def expected_output_def Let_def simp del: upt_rec_numeral)

lemma length_expected [simp]: "length (expected_0 (new_with_polynomials ps)) = length ps"
  by (simp add: new_with_polynomials_def)

lemma branch_sign:
  assumes "\<forall>p \<in> set ps. poly_ok p"
  shows "(if odd (reg_num r) then - branch (new_with_polynomials ps) xs (reg_num (shift_reg r b))
      else branch (new_with_polynomials ps) xs (reg_num (shift_reg r b))) = - group_score xs (enc_out ps r b)"
proof -
  let ?s = "reg_num (shift_reg r b)" and ?f = "if odd (reg_num r) then -1 else 1 :: int"
  have "sum_list (map2 (\<lambda>x ex. x * ex ! ?s) xs (expected_0 (new_with_polynomials ps)))
      = sum_list (map2 (\<lambda>x p. x * expected_output p ?s) xs ps)"
    using reg_num_less [of "shift_reg r b"] unfolding new_with_polynomials_def
    by (induction xs ps rule: list_induct2') (simp_all add: nth_upt_zero del: upt_rec_numeral)
  moreover have "group_score xs (enc_out ps r b) = ?f * sum_list (map2 (\<lambda>x p. x * expected_output p ?s) xs ps)"
    using assms
  proof (induction xs ps rule: list_induct2')
    case (4 x xs p ps)
    then have "sgn_of (pxor p (b # reg_list r)) = ?f * expected_output p ?s" using expected_sign [of p r b] by simp
    moreover have "group_score xs (enc_out ps r b) = ?f * sum_list (map2 (\<lambda>x p. x * expected_output p ?s) xs ps)"
      using 4 by simp
    ultimately show ?case
      by (simp add: group_score_def enc_out_def algebra_simps)
  qed (simp_all add: group_score_def enc_out_def)
  ultimately show ?thesis by (simp add: branch_def)
qed

lemma length_drops [simp]: "length (drops bs) = length bs"
  by (induction bs) auto

lemma path_cost_score:
  assumes "\<forall>p \<in> set ps. poly_ok p" and "length bs = length rs"
  shows "path_cost (new_with_polynomials ps) rs (reg_num (last_reg bs)) (drops bs) = - score ps rs bs"
  using assms(2)
proof (induction bs arbitrary: rs)
  case Nil
  then show ?case by (simp add: start_cost_def last_reg_def reg_num_zero)
next
  case (Cons b bs)
  then obtain r rs' where [simp]: "rs = r # rs'" by (cases rs) auto
  have "pred_state (reg_num (last_reg (b # bs))) (odd (reg_num (last_reg bs))) = reg_num (last_reg bs)"
    by (simp only: pred_state_def last_reg_Cons reg_num_pred)
  then show ?case
    using Cons branch_sign [OF assms(1), of "last_reg bs" r b] by (simp add: last_reg_Cons)
qed

lemma out_bits_path:
  "\<lbrakk>path_start s ds = 0; s < 16\<rbrakk> \<Longrightarrow> reg_num (last_reg (out_bits s ds)) = s \<and> drops (out_bits s ds) = ds"
proof (induction ds arbitrary: s)
  case (Cons d ds)
  have "reg_num (last_reg (out_bits (pred_state s d) ds)) = pred_state s d \<and> drops (out_bits (pred_state s d) ds) = ds"
    using Cons pred_state_less by auto
  moreover have "8 * of_bool (8 \<le> s) + pred_state s d div 2 = s"
  proof -
    have "s * 2 mod 16 = 2 * (s - 8 * of_bool (8 \<le> s))"
      using Cons.prems(2) by (auto simp: mod_if)
    then show ?thesis by (cases d) (auto simp: pred_state_def)
  qed
  moreover have "odd (pred_state s d) \<longleftrightarrow> d" by (cases d) (auto simp: pred_state_def dvd_mod)
  ultimately show ?case by (simp add: last_reg_Cons reg_num_shift)
qed (simp add: last_reg_def reg_num_zero)

lemma length_out_bits [simp]: "length (out_bits s ds) = length ds"
  by (induction ds arbitrary: s) auto

lemma path_cost_bad_start:
  assumes "dec_ok dec" and "\<forall>r \<in> set rs. group_ok dec r" and "s < 16" and "length ds = length rs"
    and "path_start s ds \<noteq> 0"
  shows "1073741823 - 508 * int (length rs) \<le> path_cost dec rs s ds"
  using assms(2-)
proof (induction rs arbitrary: s ds)
  case (Cons r rs)
  then obtain d ds' where [simp]: "ds = d # ds'" by (cases ds) auto
  have "1073741823 - 508 * int (length rs) \<le> path_cost dec rs (pred_state s d) ds'"
    using Cons pred_state_less by auto
  moreover have "\<bar>branch dec r s\<bar> \<le> 508" using Cons.prems branch_bound [OF assms(1)] by simp
  ultimately show ?case by auto
qed (simp add: start_cost_def METRIC_MAX_def)

lemma score_bound:
  assumes "\<forall>p \<in> set ps. poly_ok p" and "length ps \<le> 4" and "\<forall>r \<in> set rs. group_ok (new_with_polynomials ps) r"
    and "length bs = length rs"
  shows "\<bar>score ps rs bs\<bar> \<le> 508 * int (length rs)"
  using assms(4,3)
proof (induction bs rs rule: list_induct2)
  case (Cons b bs r rs)
  have "\<bar>branch (new_with_polynomials ps) r (reg_num (shift_reg (last_reg bs) b))\<bar> \<le> 508"
    by (rule branch_bound [OF dec_ok_polys [OF assms(1,2)]]) (use Cons.prems reg_num_less in auto)
  then have "\<bar>group_score r (enc_out ps (last_reg bs) b)\<bar> \<le> 508"
    using branch_sign [OF assms(1), of "last_reg bs" r b] by (auto split: if_splits)
  then show ?case using Cons by auto
qed simp

definition terminated :: "bool list \<Rightarrow> bool" where
  "terminated m \<longleftrightarrow> foldl shift_reg zero_reg m = zero_reg"

lemma terminated_zeros: "terminated (replicate n False)"
  by (induction n) (simp_all add: terminated_def zero_reg_def)

text \<open>Newest first: the decoded bits are a terminated message of the largest score.\<close>

lemma best_path_optimal:
  assumes ps: "\<forall>p \<in> set ps. poly_ok p" "length ps \<le> 4"
    and rs: "\<forall>r \<in> set rs. group_ok (new_with_polynomials ps) r" "length rs \<le> 2 ^ 20"
  defines "bs \<equiv> out_bits 0 (best_path (new_with_polynomials ps) rs 0)"
  shows "terminated (rev bs)" and "\<lbrakk>length bs' = length rs; terminated (rev bs')\<rbrakk> \<Longrightarrow> score ps rs bs' \<le> score ps rs bs"
proof -
  let ?dec = "new_with_polynomials ps"
  let ?ds = "best_path ?dec rs 0"
  have all: "least ?dec rs 0 \<le> - score ps rs cs" if "length cs = length rs" "terminated (rev cs)" for cs
  proof -
    have "reg_num (last_reg cs) = 0" using that(2) by (simp add: terminated_def last_reg_def reg_num_zero)
    then show ?thesis
      using that(1) least_path_cost [of "drops cs" rs ?dec 0] path_cost_score [OF ps(1) that(1)] by simp
  qed
  have "least ?dec rs 0 \<le> 508 * int (length rs)"
    using all [of "replicate (length rs) False"] terminated_zeros [of "length rs"]
      score_bound [OF ps rs(1), of "replicate (length rs) False"] by simp
  then have "path_start 0 ?ds = 0"
    using path_cost_bad_start [OF dec_ok_polys [OF ps] rs(1), of 0 ?ds] best_path_cost [of ?dec rs 0] rs(2)
    by (cases "path_start 0 ?ds = 0") auto
  then have b: "reg_num (last_reg bs) = 0" "drops bs = ?ds" by (simp_all add: bs_def out_bits_path)
  show "terminated (rev bs)" using b(1) by (simp add: terminated_def last_reg_def reg_num_zero)
  have "length bs = length rs" by (simp add: bs_def)
  then have "least ?dec rs 0 = - score ps rs bs"
    using path_cost_score [OF ps(1), of bs rs] b best_path_cost [of ?dec rs 0] by simp
  then show "score ps rs bs' \<le> score ps rs bs" if "length bs' = length rs" "terminated (rev bs')"
    using all [OF that] by simp
qed

section \<open>Correlation of a received block with a message\<close>

definition correlation :: "bool list list \<Rightarrow> int list \<Rightarrow> bool list \<Rightarrow> int" where
  "correlation ps xs m = group_score xs (concat (enc ps zero_reg m))"

lemma group_score_append:
  "length xs = length cs \<Longrightarrow> group_score (xs @ ys) (cs @ ds) = group_score xs cs + group_score ys ds"
  by (simp add: group_score_def)

fun forward_score :: "bool list list \<Rightarrow> enc_reg \<Rightarrow> int list list \<Rightarrow> bool list \<Rightarrow> int" where
  "forward_score ps q (r # rs) (b # bs) = group_score r (enc_out ps q b) + forward_score ps (shift_reg q b) rs bs"
| "forward_score ps q _ _ = 0"

lemma forward_score_snoc:
  "length rs = length bs \<Longrightarrow> forward_score ps q (rs @ [r]) (bs @ [b]) =
     forward_score ps q rs bs + group_score r (enc_out ps (foldl shift_reg q bs) b)"
  by (induction rs bs arbitrary: q rule: list_induct2) auto

lemma score_forward: "length rs = length bs \<Longrightarrow> score ps rs bs = forward_score ps zero_reg (rev rs) (rev bs)"
  by (induction rs bs rule: list_induct2) (simp_all add: forward_score_snoc last_reg_def)

lemma chunks_exact_length:
  assumes "length xs = n * t" and "0 < n"
  shows "length (chunks_exact n xs) = t \<and> (\<forall>c \<in> set (chunks_exact n xs). length c = n \<and> set c \<subseteq> set xs)
    \<and> concat (chunks_exact n xs) = xs"
  using assms(1)
proof (induction t arbitrary: xs)
  case 0
  then show ?case using assms(2) by (simp add: chunks_exact.simps)
next
  case (Suc t)
  have "length (drop n xs) = n * t" using Suc.prems by simp
  from Suc.IH [OF this] show ?case
    using Suc.prems assms(2) set_take_subset [of n xs] set_drop_subset [of n xs]
    by (subst (1 2 3) chunks_exact.simps) (auto dest: subsetD)
qed

lemma forward_score_concat:
  "\<lbrakk>length cs = length m; \<forall>c \<in> set cs. length c = length ps\<rbrakk> \<Longrightarrow>
     forward_score ps q cs m = group_score (concat cs) (concat (enc ps q m))"
  by (induction cs m arbitrary: q rule: list_induct2) (auto simp: group_score_append enc_out_def, simp add: group_score_def)

lemma decode_facts:
  assumes ps: "\<forall>p \<in> set ps. poly_ok p" "0 < length ps" "length ps \<le> 4"
    and xs: "length xs = length ps * t" "soft_ok xs" "t \<le> 2 ^ 20"
  shows "\<exists>m. decode (new_with_polynomials ps) xs = map bit_of m \<and> length m = t \<and> terminated m
    \<and> (\<forall>m'. length m' = t \<and> terminated m' \<longrightarrow> correlation ps xs m' \<le> correlation ps xs m)"
proof -
  let ?dec = "new_with_polynomials ps" and ?cs = "chunks_exact (length ps) xs"
  let ?bs = "out_bits 0 (best_path ?dec (rev ?cs) 0)"
  note c = chunks_exact_length [OF xs(1) ps(2)]
  have ok: "\<forall>r \<in> set (rev ?cs). group_ok ?dec r"
    using c xs(2) by (auto simp: group_ok_def soft_ok_def)
  have t: "length (rev ?cs) \<le> 2 ^ 20" using c xs(3) by simp
  have corr: "score ps (rev ?cs) (rev m) = correlation ps xs m" if "length m = t" for m
    using that c by (simp add: score_forward forward_score_concat correlation_def)
  have "decode ?dec xs = map bit_of (rev ?bs)"
    using decode_best_path [OF dec_ok_polys [OF ps(1,3)], of xs] ok t by (simp add: rev_map)
  moreover have len: "length (rev ?bs) = t" using c by simp
  moreover have "terminated (rev ?bs)" by (rule best_path_optimal(1) [OF ps(1,3) ok t])
  moreover have "correlation ps xs m' \<le> correlation ps xs (rev ?bs)" if "length m' = t" "terminated m'" for m'
    using best_path_optimal(2) [OF ps(1,3) ok t, of "rev m'"] that c corr [of m'] corr [of "rev ?bs"] len by simp
  ultimately show ?thesis by blast
qed

text \<open>
  A received block agrees with a message when no symbol has the wrong sign; erased symbols are
  zero. It determines the message when every group has at least one symbol.
\<close>

definition agrees :: "bool list list \<Rightarrow> int list \<Rightarrow> bool list \<Rightarrow> bool" where
  "agrees ps xs m \<longleftrightarrow> list_all2 (\<lambda>x c. 0 \<le> x * sgn_of c) xs (concat (enc ps zero_reg m))"

definition every_group_heard :: "nat \<Rightarrow> int list \<Rightarrow> bool" where
  "every_group_heard n xs \<longleftrightarrow> (\<forall>c \<in> set (chunks_exact n xs). \<exists>x \<in> set c. x \<noteq> 0)"

lemma group_score_le: "length xs = length cs \<Longrightarrow> group_score xs cs \<le> sum_list (map abs xs)"
  by (induction xs cs rule: list_induct2) (auto simp: group_score_def sgn_of_def)

lemma group_score_agrees: "list_all2 (\<lambda>x c. 0 \<le> x * sgn_of c) xs cs \<Longrightarrow> group_score xs cs = sum_list (map abs xs)"
  by (induction xs cs rule: list_all2_induct) (auto simp: group_score_def sgn_of_def split: if_splits)

lemma group_score_full:
  "\<lbrakk>length xs = length cs; group_score xs cs = sum_list (map abs xs)\<rbrakk> \<Longrightarrow> list_all2 (\<lambda>x c. 0 \<le> x * sgn_of c) xs cs"
proof (induction xs cs rule: list_induct2)
  case (Cons x xs c cs)
  have "x * sgn_of c \<le> \<bar>x\<bar>" by (auto simp: sgn_of_def)
  moreover have "group_score xs cs \<le> sum_list (map abs xs)" by (rule group_score_le [OF Cons.hyps])
  ultimately have "x * sgn_of c = \<bar>x\<bar>" "group_score xs cs = sum_list (map abs xs)"
    using Cons.prems by (auto simp: group_score_def)
  then show ?case using Cons.IH by simp
qed simp

lemma enc_out_flip:
  assumes "poly_ok p"
  shows "pxor p (b # xs) = (b \<noteq> pxor (tl p) xs)"
  using assms list5 [of p] by (cases p) (auto simp: poly_ok_def)

lemma agreeing_messages_equal:
  assumes "\<forall>p \<in> set ps. poly_ok p" and "length cs = length m" and "length m' = length m"
    and "\<forall>c \<in> set cs. length c = length ps \<and> (\<exists>x \<in> set c. x \<noteq> 0)"
    and "list_all2 (\<lambda>x c. 0 \<le> x * sgn_of c) (concat cs) (concat (enc ps q m))"
    and "list_all2 (\<lambda>x c. 0 \<le> x * sgn_of c) (concat cs) (concat (enc ps q m'))"
  shows "m' = m"
  using assms(2-)
proof (induction cs m arbitrary: m' q rule: list_induct2)
  case (Cons c cs b bs)
  obtain b' bs' where m': "m' = b' # bs'" using Cons.prems(1) by (cases m') auto
  have lc: "length c = length (enc_out ps q d)" for d using Cons.prems(2) by (simp add: enc_out_def)
  have hd: "list_all2 (\<lambda>x c. 0 \<le> x * sgn_of c) c (enc_out ps q b)"
    "list_all2 (\<lambda>x c. 0 \<le> x * sgn_of c) c (enc_out ps q b')"
    and tl: "list_all2 (\<lambda>x c. 0 \<le> x * sgn_of c) (concat cs) (concat (enc ps (shift_reg q b) bs))"
    "list_all2 (\<lambda>x c. 0 \<le> x * sgn_of c) (concat cs) (concat (enc ps (shift_reg q b') bs'))"
    using Cons.prems(3,4) lc m' by (auto simp: list_all2_append)
  obtain i where i: "i < length ps" "c ! i \<noteq> 0"
    using Cons.prems(2) by (auto simp: in_set_conv_nth)
  have "0 \<le> c ! i * sgn_of (enc_out ps q b ! i)" "0 \<le> c ! i * sgn_of (enc_out ps q b' ! i)"
    using hd i(1) Cons.prems(2) by (simp_all add: list_all2_conv_all_nth)
  then have "enc_out ps q b ! i = enc_out ps q b' ! i"
    using i(2) by (auto simp: sgn_of_def zero_le_mult_iff split: if_splits)
  moreover have "enc_out ps q d ! i = (d \<noteq> pxor (tl (ps ! i)) (reg_list q))" for d
    using i(1) assms(1) enc_out_flip by (simp add: enc_out_def)
  ultimately have "b' = b" by auto
  then show ?case using Cons.IH [of bs'] Cons.prems m' tl by auto
qed simp

lemma decode_agreeing:
  assumes ps: "\<forall>p \<in> set ps. poly_ok p" "0 < length ps" "length ps \<le> 4"
    and xs: "soft_ok xs" "every_group_heard (length ps) xs"
    and m: "agrees ps xs m" "terminated m" "length m \<le> 2 ^ 20"
  shows "decode (new_with_polynomials ps) xs = map bit_of m"
proof -
  let ?cs = "chunks_exact (length ps) xs"
  have len: "length xs = length ps * length m"
    using m(1) by (auto simp: agrees_def length_concat_enc dest: list_all2_lengthD)
  obtain m' where m': "decode (new_with_polynomials ps) xs = map bit_of m'" "length m' = length m"
    "correlation ps xs m \<le> correlation ps xs m'"
    using decode_facts [OF ps len xs(1) m(3)] m(2) by blast
  have full: "correlation ps xs m = sum_list (map abs xs)"
    using m(1) by (simp add: correlation_def agrees_def group_score_agrees)
  have "length xs = length (concat (enc ps zero_reg m'))" using len m'(2) by (simp add: length_concat_enc)
  then have a: "list_all2 (\<lambda>x c. 0 \<le> x * sgn_of c) xs (concat (enc ps zero_reg m'))"
    using group_score_le [of xs "concat (enc ps zero_reg m')"] m'(3) full
    by (intro group_score_full) (auto simp: correlation_def)
  note c = chunks_exact_length [OF len ps(2)]
  have "m' = m"
    by (rule agreeing_messages_equal [OF ps(1), of ?cs m m' zero_reg])
       (use c xs(2) m'(2) a m(1) in \<open>auto simp: every_group_heard_def agrees_def\<close>)
  then show ?thesis using m'(1) by simp
qed

lemma tetra_viterbi_decoder_polys: "tetra_viterbi_decoder = new_with_polynomials cch_polys"
  by (simp add: tetra_viterbi_decoder_def cch_polys_def)

lemma tetra_codec_viterbi_decoder_polys: "tetra_codec_viterbi_decoder = new_with_polynomials speech_polys"
  by (simp add: tetra_codec_viterbi_decoder_def speech_polys_def)

lemma cch_polys_ok: "\<forall>p \<in> set cch_polys. poly_ok p" "length cch_polys = 4" "cch_polys \<noteq> []"
  by (simp_all add: cch_polys_def poly_ok_def)

lemma speech_polys_ok: "\<forall>p \<in> set speech_polys. poly_ok p" "length speech_polys = 3" "speech_polys \<noteq> []"
  by (simp_all add: speech_polys_def poly_ok_def)

lemma decode_tailed:
  assumes "ps = cch_polys \<and> dec = tetra_viterbi_decoder \<or> ps = speech_polys \<and> dec = tetra_codec_viterbi_decoder"
    and "soft_ok xs" and "every_group_heard (length ps) xs" and "length bs \<le> 2 ^ 19"
    and "agrees ps xs (bs @ replicate 4 False)"
  shows "decode dec xs = map bit_of bs @ replicate 4 0"
proof -
  have "foldl shift_reg q (replicate 4 False) = zero_reg" for q
    by (cases q) (simp add: zero_reg_def eval_nat_numeral)
  then have "terminated (bs @ replicate 4 False)" by (simp add: terminated_def)
  then have "decode (new_with_polynomials ps) xs = map bit_of (bs @ replicate 4 False)"
    using assms cch_polys_ok speech_polys_ok by (intro decode_agreeing) auto
  then show ?thesis
    using assms(1) tetra_viterbi_decoder_polys tetra_codec_viterbi_decoder_polys by (auto simp: bit_of_def)
qed

text \<open>The same over the bits that an encoder wrote.\<close>

definition tailed :: "bool list \<Rightarrow> u8 list" where
  "tailed bs = map bit_of bs @ replicate 4 0"

definition right_signs :: "int list \<Rightarrow> u8 list \<Rightarrow> bool" where
  "right_signs xs sent \<longleftrightarrow> list_all2 (\<lambda>x c. 0 \<le> x * sgn_of (c = 1)) xs sent"

lemma agrees_right_signs: "right_signs xs (map bit_of (concat (enc ps zero_reg m))) = agrees ps xs m"
  by (simp add: right_signs_def agrees_def list_all2_map2)

lemma chunks_exact_map:
  assumes "length xs = n * t" and "0 < n"
  shows "chunks_exact n xs = map (\<lambda>m. take n (drop (n * m) xs)) [0..<t]"
  using assms(1)
proof (induction t arbitrary: xs)
  case (Suc t)
  have "length (drop n xs) = n * t" using Suc.prems by simp
  from Suc.IH [OF this] have "chunks_exact n (drop n xs) = map (\<lambda>m. take n (drop (n * Suc m) xs)) [0..<t]"
    by (simp add: add.commute)
  then show ?case
    using Suc.prems assms(2) by (subst chunks_exact.simps) (simp add: upt_conv_Cons map_Suc_upt [symmetric] comp_def del: upt_Suc)
qed (use assms(2) in \<open>simp add: chunks_exact.simps\<close>)

text \<open>The same by positions: every symbol is erased or has the right sign, the first of every group is not erased.\<close>

lemma decode_symbols:
  assumes "ps = cch_polys \<and> dec = tetra_viterbi_decoder \<or> ps = speech_polys \<and> dec = tetra_codec_viterbi_decoder"
    and "length xs = length ps * (length bs + 4)" and "soft_ok xs" and "length bs \<le> 2 ^ 19"
    and "\<And>p. p < length xs \<Longrightarrow> xs ! p = 0 \<or> 0 < xs ! p * sgn_of (concat (enc ps zero_reg (bs @ replicate 4 False)) ! p)"
    and "\<And>m. m < length bs + 4 \<Longrightarrow> xs ! (length ps * m) \<noteq> 0"
  shows "decode dec xs = map bit_of bs @ replicate 4 0"
proof (rule decode_tailed [OF assms(1,3) _ assms(4)])
  have n: "0 < length ps" using assms(1) cch_polys_ok(3) speech_polys_ok(3) by auto
  show "every_group_heard (length ps) xs"
    unfolding every_group_heard_def chunks_exact_map [OF assms(2) n]
  proof (intro ballI)
    fix c assume "c \<in> set (map (\<lambda>m. take (length ps) (drop (length ps * m) xs)) [0..<length bs + 4])"
    then obtain m where m: "m < length bs + 4" "c = take (length ps) (drop (length ps * m) xs)" by auto
    have "length ps * m + 1 \<le> length ps * Suc m" using n by (simp add: Suc_leI)
    also have "\<dots> \<le> length ps * (length bs + 4)" using m(1) by (intro mult_le_mono) auto
    finally have "length ps * m < length xs" unfolding assms(2) by linarith
    then have "c ! 0 = xs ! (length ps * m)" "0 < length c" using m(2) n by auto
    then show "\<exists>x \<in> set c. x \<noteq> 0" using assms(6) [OF m(1)] nth_mem by metis
  qed
  show "agrees ps xs (bs @ replicate 4 False)"
    unfolding agrees_def
  proof (rule list_all2_all_nthI)
    show "length xs = length (concat (enc ps zero_reg (bs @ replicate 4 False)))"
      using assms(2) by (simp add: length_concat_enc)
  qed (use assms(5) in force)
qed

section \<open>Properties\<close>

text \<open>C2: The decoder is a maximum-likelihood decoder: on every block of up to \<open>2 ^ 20\<close> groups of soft bits
  within -127 and 127 it returns a message that ends with the register at zero and whose code bits
  correlate with the received block at least as well as those of every other such message. No metric
  overflows on the way.\<close>

theorem viterbi_maximum_likelihood:
  assumes "\<forall>p \<in> set ps. poly_ok p" and "0 < length ps" and "length ps \<le> 4"
    and "length xs = length ps * t" and "soft_ok xs" and "t \<le> 2 ^ 20"
  shows "\<exists>m. decode (new_with_polynomials ps) xs = map bit_of m \<and> length m = t \<and> terminated m
    \<and> (\<forall>m'. length m' = t \<and> terminated m' \<longrightarrow> correlation ps xs m' \<le> correlation ps xs m)"
  using decode_facts [OF assms] .

theorem viterbi_maximum_likelihood_witness:
  "\<exists>m. decode tetra_codec_viterbi_decoder [5, -7, 0, 1, 1, -127, 3, 2, 1, 0, 0, 9, -1, -1, -1, 127, 0, 0] = map bit_of m
    \<and> length m = 6 \<and> terminated m"
proof -
  let ?xs = "[5, -7, 0, 1, 1, -127, 3, 2, 1, 0, 0, 9, -1, -1, -1, 127, 0, 0] :: int list"
  have len: "length ?xs = length speech_polys * 6" by (simp add: speech_polys_ok(2))
  have soft: "soft_ok ?xs" by (simp add: soft_ok_def)
  have n: "0 < length speech_polys" "length speech_polys \<le> 4" "(6 :: nat) \<le> 2 ^ 20"
    by (simp_all add: speech_polys_ok(2,3))
  show ?thesis
    unfolding tetra_codec_viterbi_decoder_polys
    using viterbi_maximum_likelihood [OF speech_polys_ok(1) n(1,2) len soft n(3)] by blast
qed

text \<open>C3: What the encoders send is what their decoders return. Take a message closed by four zero bits. The
  control-channel encoder and the speech encoder, each on a slice that is long enough, write the code bits of that
  message and panic on none; and from soft bits within -127 and 127 of which none has the wrong sign, and of which
  every group of four (of three for speech) has at least one that was not erased, the decoder returns the message.\<close>

theorem viterbi_recovers_message:
  assumes "length bs \<le> 2 ^ 19" and "length (tailed bs) * 4 \<le> length buf4" and "length (tailed bs) * 3 \<le> length buf3"
  shows "\<exists>s sent s' sent'. conv_encode conv_new (tailed bs) buf4 = Some (s, sent @ drop (length (tailed bs) * 4) buf4)
      \<and> speech_encode speech_new (tailed bs) buf3 = Some (s', sent' @ drop (length (tailed bs) * 3) buf3)
      \<and> length sent = length (tailed bs) * 4 \<and> length sent' = length (tailed bs) * 3
      \<and> (\<forall>xs. soft_ok xs \<and> right_signs xs sent \<and> every_group_heard 4 xs \<longrightarrow> decode tetra_viterbi_decoder xs = tailed bs)
      \<and> (\<forall>xs. soft_ok xs \<and> right_signs xs sent' \<and> every_group_heard 3 xs \<longrightarrow> decode tetra_codec_viterbi_decoder xs = tailed bs)"
proof -
  have reg: "reg_of zero_reg = (0, 0, 0, 0)" by (simp add: zero_reg_def bit_of_def)
  let ?m = "bs @ replicate 4 False"
  have m: "tailed bs = map bit_of ?m" by (simp add: tailed_def bit_of_def)
  have "conv_encode conv_new (tailed bs) buf4 = Some (\<lparr>delayed = reg_of (foldl shift_reg zero_reg ?m)\<rparr>,
      map bit_of (concat (enc cch_polys zero_reg ?m)) @ drop (length (tailed bs) * 4) buf4)"
    using conv_encode_polys [of ?m buf4 zero_reg] assms(2) by (simp only: m conv_new_def reg length_map)
  moreover have "speech_encode speech_new (tailed bs) buf3 = Some (\<lparr>speech_delayed = reg_of (foldl shift_reg zero_reg ?m)\<rparr>,
      map bit_of (concat (enc speech_polys zero_reg ?m)) @ drop (length (tailed bs) * 3) buf3)"
    using speech_encode_polys [of ?m buf3 zero_reg] assms(3) by (simp only: m speech_new_def reg length_map)
  moreover have "decode tetra_viterbi_decoder xs = tailed bs"
    if "soft_ok xs" "right_signs xs (map bit_of (concat (enc cch_polys zero_reg ?m)))" "every_group_heard 4 xs" for xs
    using decode_tailed [OF disjI1 that(1) _ assms(1), of cch_polys tetra_viterbi_decoder] that
    by (simp add: cch_polys_ok(2) agrees_right_signs tailed_def)
  moreover have "decode tetra_codec_viterbi_decoder xs = tailed bs"
    if "soft_ok xs" "right_signs xs (map bit_of (concat (enc speech_polys zero_reg ?m)))" "every_group_heard 3 xs" for xs
    using decode_tailed [OF disjI2 that(1) _ assms(1), of speech_polys tetra_codec_viterbi_decoder] that
    by (simp add: speech_polys_ok(2) agrees_right_signs tailed_def)
  moreover have "length (map bit_of (concat (enc cch_polys zero_reg ?m)) :: u8 list) = length (tailed bs) * 4"
    "length (map bit_of (concat (enc speech_polys zero_reg ?m)) :: u8 list) = length (tailed bs) * 3"
    by (simp_all add: length_concat_enc cch_polys_ok(2) speech_polys_ok(2) tailed_def)
  ultimately show ?thesis by blast
qed

theorem viterbi_recovers_message_witness:
  "map_option snd (speech_encode speech_new [1, 0, 0, 0, 0] (replicate 15 0)) = Some [1, 1, 1, 1, 1, 0, 1, 0, 1, 1, 1, 0, 1, 1, 1]
    \<and> decode tetra_codec_viterbi_decoder [1, 0, 9, 127, 1, 0, 1, -1, 0, 0, 1, 0, 1, 1, 1] = [1, 0, 0, 0, 0]"
proof -
  let ?buf = "replicate 15 (0 :: u8)" and ?sent = "[1, 1, 1, 1, 1, 0, 1, 0, 1, 1, 1, 0, 1, 1, 1] :: u8 list"
  have t: "tailed [True] = [1, 0, 0, 0, 0]" by (simp add: tailed_def bit_of_def eval_nat_numeral)
  have e: "map_option snd (speech_encode speech_new [1, 0, 0, 0, 0] ?buf) = Some ?sent" by code_simp
  have "decode tetra_codec_viterbi_decoder [1, 0, 9, 127, 1, 0, 1, -1, 0, 0, 1, 0, 1, 1, 1] = tailed [True]"
  proof -
    obtain s' sent' where o: "speech_encode speech_new (tailed [True]) ?buf = Some (s', sent' @ drop (length (tailed [True]) * 3) ?buf)"
        "\<forall>xs. soft_ok xs \<and> right_signs xs sent' \<and> every_group_heard 3 xs \<longrightarrow> decode tetra_codec_viterbi_decoder xs = tailed [True]"
      using viterbi_recovers_message [of "[True]" "replicate 20 0" ?buf] by (auto simp: t)
    have "sent' = ?sent" using o(1) e by (simp add: t)
    moreover have "soft_ok [1, 0, 9, 127, 1, 0, 1, -1, 0, 0, 1, 0, 1, 1, 1]" by (simp add: soft_ok_def)
    moreover have "every_group_heard 3 [1, 0, 9, 127, 1, 0, 1, -1, 0, 0, 1, 0, 1, 1, 1]"
      by (simp add: every_group_heard_def chunks_exact.simps)
    moreover have "right_signs [1, 0, 9, 127, 1, 0, 1, -1, 0, 0, 1, 0, 1, 1, 1] ?sent" by (simp add: right_signs_def sgn_of_def)
    ultimately show ?thesis using o(2) by blast
  qed
  with e show ?thesis by (simp add: t)
qed

end
