(* ===== verification/Errorcontrol.thy ===== *)
theory Errorcontrol
  imports Scrambler Convenc Viterbi Interleaver Tch_Reorder Crc16 Rm3014
begin

text \<open>
  The channel coder of \<^verbatim>\<open>crates/tetra-entities/src/lmac/components/errorcontrol.rs\<close> with its
  parameters (\<^verbatim>\<open>errorcontrol_params.rs\<close>) and the logical channels of
  \<^verbatim>\<open>crates/tetra-saps/src/tmv/enums/logical_chans.rs\<close>: type-1 bits of a logical channel to the
  type-5 bits that are transmitted, and back. The primitives that carry a block are records of the
  fields that the coder reads. Log output is left out; \<open>debug_assert!\<close> is not compiled in.

  The round trips put together the involution of the scrambler, the permutations of the
  interleavers, the positions of the puncturing and the decoder's recovery of unambiguous blocks.
\<close>

section \<open>Logical channels and their parameters\<close>

datatype logical_channel =
  Aach | SchHd | SchF | Stch | SchHu | TchS | Tch24 | Tch48 | Tch72 | Bsch | Bnch | Blch | Clch

fun is_traffic :: "logical_channel \<Rightarrow> bool" where
  "is_traffic c \<longleftrightarrow> c \<in> {TchS, Tch24, Tch48, Tch72}"

fun is_control_channel :: "logical_channel \<Rightarrow> bool" where
  "is_control_channel c \<longleftrightarrow> c \<in> {Aach, Bsch, Bnch, SchHd, SchF, Stch, SchHu}"

fun is_linearization_channel :: "logical_channel \<Rightarrow> bool" where
  "is_linearization_channel c \<longleftrightarrow> c = Clch \<or> c = Blch"

fun is_dl_channel :: "logical_channel \<Rightarrow> bool" where
  "is_dl_channel c \<longleftrightarrow> c \<in> {Aach, SchHd, SchF, Stch, Bsch, Bnch, Blch, TchS, Tch24, Tch48, Tch72}"

fun is_ul_channel :: "logical_channel \<Rightarrow> bool" where
  "is_ul_channel c \<longleftrightarrow> c \<in> {SchHu, SchF, Stch, Clch, TchS, Tch24, Tch48, Tch72}"

record error_control_params =
  type345_bits :: nat
  type2_bits :: nat
  type1_bits :: nat
  interleave_a :: nat
  have_crc16 :: bool

definition BSCH_PARAMS :: error_control_params where
  "BSCH_PARAMS = \<lparr>type345_bits = 120, type2_bits = 80, type1_bits = 60, interleave_a = 11, have_crc16 = True\<rparr>"

definition SCH_HD_PARAMS :: error_control_params where
  "SCH_HD_PARAMS = \<lparr>type345_bits = 216, type2_bits = 144, type1_bits = 124, interleave_a = 101, have_crc16 = True\<rparr>"

definition AACH_PARAMS :: error_control_params where
  "AACH_PARAMS = \<lparr>type345_bits = 30, type2_bits = 30, type1_bits = 14, interleave_a = 0, have_crc16 = False\<rparr>"

definition SCH_F_PARAMS :: error_control_params where
  "SCH_F_PARAMS = \<lparr>type345_bits = 432, type2_bits = 288, type1_bits = 268, interleave_a = 103, have_crc16 = True\<rparr>"

definition SCH_HU_PARAMS :: error_control_params where
  "SCH_HU_PARAMS = \<lparr>type345_bits = 168, type2_bits = 112, type1_bits = 92, interleave_a = 13, have_crc16 = True\<rparr>"

definition TCH_S_PARAMS :: error_control_params where
  "TCH_S_PARAMS = \<lparr>type345_bits = 432, type2_bits = 288, type1_bits = 274, interleave_a = 103, have_crc16 = False\<rparr>"

text \<open>\<open>None\<close> is \<open>unimplemented!\<close>.\<close>

fun get_params :: "logical_channel \<Rightarrow> error_control_params option" where
  "get_params Bsch = Some BSCH_PARAMS"
| "get_params SchHd = Some SCH_HD_PARAMS"
| "get_params Stch = Some SCH_HD_PARAMS"
| "get_params Bnch = Some SCH_HD_PARAMS"
| "get_params Aach = Some AACH_PARAMS"
| "get_params SchF = Some SCH_F_PARAMS"
| "get_params SchHu = Some SCH_HU_PARAMS"
| "get_params TchS = Some TCH_S_PARAMS"
| "get_params _ = None"

datatype phy_block_type = BBK | SB1 | SB2 | NDB | NUB | SSN1 | SSN2

record 'b tmv_unitdata_req =
  mac_block :: 'b
  logical_channel :: logical_channel
  scrambling_code :: u32

record 'b tp_unitdata_ind =
  block_type :: phy_block_type
  soft_bits :: "int list option"
  rx_block :: 'b

section \<open>Control channels\<close>

definition MAX_TYPE1_BITS :: nat where "MAX_TYPE1_BITS = 274"
definition MAX_TYPE2_BITS :: nat where "MAX_TYPE2_BITS = 288"
definition MAX_TYPE345_BITS :: nat where "MAX_TYPE345_BITS = 432"
definition MAX_TYPE345_HALFSLOT_BITS :: nat where "MAX_TYPE345_HALFSLOT_BITS = 216"

definition encode_cp :: "'b bitbuf_ops \<Rightarrow> 'b tmv_unitdata_req \<Rightarrow> 'b option" where
  "encode_cp ops prim = do {
     let lchan = logical_channel prim;
     guard (is_control_channel lchan \<and> lchan \<noteq> Aach);
     params \<leftarrow> get_params lchan;
     guard (bb_get_len ops (mac_block prim) = type1_bits params);
     mac \<leftarrow> bb_seek ops (mac_block prim) 0;
     let type2_arr = replicate MAX_TYPE2_BITS 0;
     (bits, _) \<leftarrow> bb_to_bitarr ops mac (type1_bits params);
     type2_arr \<leftarrow> aput type2_arr 0 bits;
     guard (have_crc16 params);
     type1 \<leftarrow> aslice type2_arr 0 (type1_bits params);
     let crc = NOT (crc16_ccitt_bits type1 (type1_bits params));
     type2_arr \<leftarrow> for_loop [0..<16] (\<lambda>i arr.
       aset arr (type1_bits params + i) (ucast (drop_bit (15 - i) crc AND 1))) type2_arr;
     type2 \<leftarrow> aslice type2_arr 0 (type2_bits params);
     (_, type3dp_arr) \<leftarrow> conv_encode conv_new type2 (replicate (MAX_TYPE345_BITS * 4) 0);
     type3_arr \<leftarrow> get_punctured_rate Rate2_3 type3dp_arr (replicate MAX_TYPE345_BITS 0);
     type4_arr \<leftarrow> block_interleave (type345_bits params) (interleave_a params) type3_arr (replicate MAX_TYPE345_BITS 0);
     type4_bits \<leftarrow> aslice type4_arr 0 (type345_bits params);
     type4 \<leftarrow> bb_from_bitarr ops type4_bits;
     tetra_scramb_bits ops (scrambling_code prim) type4 }"

definition saturating_neg :: "int \<Rightarrow> int" where
  "saturating_neg x = (if x = - 128 then 127 else - x)"

definition descramble_soft_bits :: "u32 \<Rightarrow> int list \<Rightarrow> int list option" where
  "descramble_soft_bits code soft = do {
     guard (length soft \<le> MAX_TYPE345_BITS);
     let scrambling_bits = tetra_scramb_get_bits code (length soft);
     Some (map2 (\<lambda>soft_bit scrambling_bit. if scrambling_bit \<noteq> 0 then saturating_neg soft_bit else soft_bit)
       soft scrambling_bits) }"

text \<open>The result is the pair of the source; the outer \<open>option\<close> is the panic.\<close>

definition decode_cp ::
  "'b bitbuf_ops \<Rightarrow> logical_channel \<Rightarrow> 'b tp_unitdata_ind \<Rightarrow> u32 option \<Rightarrow> ('b option \<times> bool) option" where
  "decode_cp ops lchan prim default_scramb_code = do {
     guard (is_control_channel lchan \<and> lchan \<noteq> Aach);
     params \<leftarrow> get_params lchan;
     let soft_type4 = (case soft_bits prim of
        Some bits \<Rightarrow> if length bits = type345_bits params then Some bits else None | None \<Rightarrow> None);
     case (if block_type prim = SB1 then Some SCRAMB_INIT else default_scramb_code) of
       None \<Rightarrow> Some (None, False)
     | Some code \<Rightarrow> do {
         type4 \<leftarrow> tetra_scramb_bits ops code (rx_block prim);
         soft_type4 \<leftarrow> (case soft_type4 of None \<Rightarrow> Some None
           | Some soft \<Rightarrow> map_option Some (descramble_soft_bits code soft));
         (bits, _) \<leftarrow> bb_to_bitarr ops type4 (type345_bits params);
         type4_arr \<leftarrow> aput (replicate MAX_TYPE345_BITS 0) 0 bits;
         type3_arr \<leftarrow> block_deinterleave (type345_bits params) (interleave_a params) type4_arr (replicate MAX_TYPE345_BITS 0);
         type2_arr \<leftarrow> (case soft_type4 of
            Some soft \<Rightarrow> do {
              soft_type3 \<leftarrow> block_deinterleave (type345_bits params) (interleave_a params) soft (replicate MAX_TYPE345_BITS 0);
              soft_type3dp \<leftarrow> tetra_rcpc_depunct_soft Rate2_3 soft_type3 (type345_bits params) (replicate (MAX_TYPE345_BITS * 4) 0);
              dec_sb1_soft soft_type3dp (replicate MAX_TYPE2_BITS 0) (type2_bits params) }
          | None \<Rightarrow> do {
              type3dp_arr \<leftarrow> tetra_rcpc_depunct Rate2_3 type3_arr (type345_bits params) (replicate (MAX_TYPE345_BITS * 4) 0xff);
              dec_sb1 type3dp_arr (replicate MAX_TYPE2_BITS 0) (type2_bits params) });
         guard (have_crc16 params);
         type1_arr \<leftarrow> aslice type2_arr 0 (type1_bits params);
         let crc_ok = (crc16_ccitt_bits type2_arr (type1_bits params + 16) = TETRA_CRC_OK);
         type1bits \<leftarrow> bb_from_bitarr ops type1_arr;
         Some (Some type1bits, crc_ok) } }"

section \<open>Traffic channel\<close>

definition speech_crc :: "u8 list \<Rightarrow> u8 list option" where
  "speech_crc class2_bits = do {
     w \<leftarrow> for_loop [0..<60] (\<lambda>k w. do { b \<leftarrow> aget class2_bits k; aset w (k + 7) (b AND 1) }) (replicate 67 0);
     let w = fold (\<lambda>d w. if w ! d = 1
       then w[d := w ! d XOR 1, d - 4 := w ! (d - 4) XOR 1, d - 7 := w ! (d - 7) XOR 1] else w) (rev [7..<67]) w;
     let result = take 7 w;
     let parity = fold (\<lambda>b p. p XOR (b AND 1)) class2_bits 0;
     let parity = fold (\<lambda>i p. p XOR result ! i) [0..<7] parity;
     Some (result @ [parity]) }"

definition stolen_speech_crc :: "u8 list \<Rightarrow> u8 list option" where
  "stolen_speech_crc class2_bits = do {
     remainder \<leftarrow> for_loop (enumerate 0 class2_bits) (\<lambda>(degree, b) r. aset r (degree + 4) (b AND 1)) (replicate 34 0);
     let remainder = fold (\<lambda>d r. if r ! d \<noteq> 0
       then r[d := r ! d XOR 1, d - 3 := r ! (d - 3) XOR 1, d - 4 := r ! (d - 4) XOR 1] else r) (rev [4..<34]) remainder;
     Some (take 4 remainder) }"

definition take_tch_s_frame_b :: "'b bitbuf_ops \<Rightarrow> 'b \<Rightarrow> ('b \<times> 'b) option" where
  "take_tch_s_frame_b ops full_speech = do {
     guard (bb_get_len ops full_speech = 274);
     full_speech \<leftarrow> bb_seek ops full_speech 137;
     (frame_b, full_speech) \<leftarrow> bb_to_bitarr ops full_speech 137;
     full_speech \<leftarrow> bb_seek ops full_speech 0;
     b \<leftarrow> bb_from_bitarr ops frame_b;
     Some (b, full_speech) }"

definition encode_tch_s_half :: "'b bitbuf_ops \<Rightarrow> 'b \<Rightarrow> u32 \<Rightarrow> 'b option" where
  "encode_tch_s_half ops speech_frame_b code = do {
     guard (bb_get_len ops speech_frame_b = 137);
     speech_frame_b \<leftarrow> bb_seek ops speech_frame_b 0;
     (codec_bits, _) \<leftarrow> bb_to_bitarr ops speech_frame_b 137;
     channel_bits \<leftarrow> codec_frame_to_channel codec_bits;
     class0 \<leftarrow> aslice channel_bits 0 51;
     type3 \<leftarrow> aput (replicate MAX_TYPE345_HALFSLOT_BITS 0) 0 class0;
     class1 \<leftarrow> aslice channel_bits 51 (51 + 56);
     (encoder, class1_mother) \<leftarrow> speech_encode speech_new class1 (replicate (56 * 3) 0);
     class1_punctured \<leftarrow> get_punctured_rate Rate112_168 class1_mother (replicate 84 0);
     type3 \<leftarrow> aput type3 51 class1_punctured;
     class2 \<leftarrow> aslice channel_bits (51 + 56) (51 + 56 + 30);
     class2_type2 \<leftarrow> aput (replicate 38 0) 0 class2;
     crc \<leftarrow> stolen_speech_crc class2;
     class2_type2 \<leftarrow> aput class2_type2 30 crc;
     (_, class2_mother) \<leftarrow> speech_encode encoder class2_type2 (replicate (38 * 3) 0);
     class2_punctured \<leftarrow> get_punctured_rate Rate38_81 class2_mother (replicate 81 0);
     type3 \<leftarrow> aput type3 (51 + 84) class2_punctured;
     type4 \<leftarrow> block_interleave MAX_TYPE345_HALFSLOT_BITS 101 type3 (replicate MAX_TYPE345_HALFSLOT_BITS 0);
     type5 \<leftarrow> bb_from_bitarr ops type4;
     tetra_scramb_bits ops code type5 }"

definition encode_tp :: "'b bitbuf_ops \<Rightarrow> 'b tmv_unitdata_req \<Rightarrow> nat \<Rightarrow> 'b option" where
  "encode_tp ops prim blk_num = do {
     guard (blk_num = 1);
     let lchan = logical_channel prim;
     params \<leftarrow> get_params lchan;
     mac \<leftarrow> bb_seek ops (mac_block prim) 0;
     let type1_len = min (bb_get_len ops mac) (type1_bits params);
     (bits, _) \<leftarrow> bb_to_bitarr ops mac type1_len;
     type1_arr \<leftarrow> aput (replicate MAX_TYPE1_BITS 0) 0 bits;
     type1_arr \<leftarrow> (if lchan = TchS \<and> type1_len = 274 then do {
         codec_bits \<leftarrow> aslice type1_arr 0 274;
         channel_bits \<leftarrow> codec_to_channel codec_bits;
         aput type1_arr 0 channel_bits } else Some type1_arr);
     class0 \<leftarrow> aslice type1_arr 0 102;
     type3_arr \<leftarrow> aput (replicate MAX_TYPE345_BITS 0) 0 class0;
     class1_input \<leftarrow> aslice type1_arr 102 (102 + 112);
     (ces, mother1) \<leftarrow> speech_encode speech_new class1_input (replicate (112 * 3) 0);
     punct1 \<leftarrow> get_punctured_rate Rate112_168 mother1 (replicate 168 0);
     type3_arr \<leftarrow> aput type3_arr 102 punct1;
     class2_data \<leftarrow> aslice type1_arr (102 + 112) (102 + 112 + 60);
     class2_type2 \<leftarrow> aput (replicate 72 0) 0 class2_data;
     crc_bits \<leftarrow> speech_crc class2_data;
     class2_type2 \<leftarrow> aput class2_type2 60 crc_bits;
     (_, mother2) \<leftarrow> speech_encode ces class2_type2 (replicate (72 * 3) 0);
     punct2 \<leftarrow> get_punctured_rate Rate72_162 mother2 (replicate 162 0);
     type3_arr \<leftarrow> aput type3_arr (102 + 168) punct2;
     type4_arr \<leftarrow> matrix_interleave 24 18 type3_arr (replicate MAX_TYPE345_BITS 0);
     type4_bits \<leftarrow> aslice type4_arr 0 (type345_bits params);
     type4 \<leftarrow> bb_from_bitarr ops type4_bits;
     tetra_scramb_bits ops (scrambling_code prim) type4 }"

definition erasure_to_soft :: "u8 \<Rightarrow> int" where
  "erasure_to_soft b = (if b = 0 then -1 else if b = 1 then 1 else 0)"

definition decode_tp_with_soft ::
  "'b bitbuf_ops \<Rightarrow> logical_channel \<Rightarrow> 'b \<Rightarrow> int list option \<Rightarrow> u32 \<Rightarrow> ('b option \<times> bool) option" where
  "decode_tp_with_soft ops lchan type5_block soft_type5 code = do {
     guard (lchan = TchS);
     params \<leftarrow> get_params lchan;
     type4 \<leftarrow> tetra_scramb_bits ops code type5_block;
     soft_type4 \<leftarrow> (case soft_type5 of
        Some soft \<Rightarrow> if length soft = type345_bits params then map_option Some (descramble_soft_bits code soft) else Some None
      | None \<Rightarrow> Some None);
     type4 \<leftarrow> bb_seek ops type4 0;
     (bits, _) \<leftarrow> bb_to_bitarr ops type4 (type345_bits params);
     type4_arr \<leftarrow> aput (replicate MAX_TYPE345_BITS 0) 0 bits;
     type3_arr \<leftarrow> matrix_deinterleave 24 18 type4_arr (replicate MAX_TYPE345_BITS 0);
     soft_type3 \<leftarrow> (case soft_type4 of None \<Rightarrow> Some None
       | Some soft \<Rightarrow> map_option Some (matrix_deinterleave 24 18 soft (replicate MAX_TYPE345_BITS 0)));
     class0 \<leftarrow> aslice type3_arr 0 102;
     type1_arr \<leftarrow> aput (replicate MAX_TYPE1_BITS 0) 0 class0;
     class1_type3 \<leftarrow> aslice type3_arr 102 (102 + 168);
     mother1 \<leftarrow> tetra_rcpc_depunct Rate112_168 class1_type3 168 (replicate (112 * 3) 0xff);
     class2_type3 \<leftarrow> aslice type3_arr (102 + 168) (102 + 168 + 162);
     mother2 \<leftarrow> tetra_rcpc_depunct Rate72_162 class2_type3 162 (replicate (72 * 3) 0xff);
     combined \<leftarrow> aput (replicate ((112 + 72) * 3) 0xff) 0 mother1;
     combined \<leftarrow> aput combined (112 * 3) mother2;
     soft \<leftarrow> (case soft_type3 of
        Some soft3 \<Rightarrow> do {
          s1 \<leftarrow> aslice soft3 102 (102 + 168);
          o1 \<leftarrow> tetra_rcpc_depunct_soft Rate112_168 s1 168 (replicate (112 * 3) 0);
          s2 \<leftarrow> aslice soft3 (102 + 168) (102 + 168 + 162);
          o2 \<leftarrow> tetra_rcpc_depunct_soft Rate72_162 s2 162 (replicate (72 * 3) 0);
          Some (o1 @ o2) }
      | None \<Rightarrow> Some (map erasure_to_soft combined));
     let decoded = decode tetra_codec_viterbi_decoder soft;
     class1 \<leftarrow> aslice decoded 0 112;
     type1_arr \<leftarrow> aput type1_arr 102 class1;
     class2_decoded \<leftarrow> aslice decoded 112 (length decoded);
     data \<leftarrow> aslice class2_decoded 0 60;
     received_crc \<leftarrow> aslice class2_decoded 60 (60 + 8);
     expected_crc \<leftarrow> speech_crc data;
     let crc_ok = (expected_crc = received_crc);
     type1_arr \<leftarrow> aput type1_arr (102 + 112) data;
     channel_bits \<leftarrow> aslice type1_arr 0 274;
     codec_bits \<leftarrow> channel_to_codec channel_bits;
     result \<leftarrow> bb_from_bitarr ops codec_bits;
     Some (Some result, crc_ok) }"

definition decode_tp ::
  "'b bitbuf_ops \<Rightarrow> logical_channel \<Rightarrow> 'b \<Rightarrow> u32 \<Rightarrow> ('b option \<times> bool) option" where
  "decode_tp ops lchan type5_block code = decode_tp_with_soft ops lchan type5_block None code"

section \<open>Access assignment channel\<close>

definition encode_aach :: "'b bitbuf_ops \<Rightarrow> 'b \<Rightarrow> u32 \<Rightarrow> 'b option" where
  "encode_aach ops type1 code = do {
     guard (bb_get_len_remaining ops type1 = 14);
     type1_int \<leftarrow> map_option of_nat (fst (bb_read_bits ops type1 14));
     let type2_int = tetra_rm3014_compute type1_int;
     type2 \<leftarrow> bb_write_bits ops (bb_new ops 30) (unat type2_int) 30;
     type2 \<leftarrow> bb_seek ops type2 0;
     tetra_scramb_bits ops code type2 }"

definition decode_aach :: "'b bitbuf_ops \<Rightarrow> 'b \<Rightarrow> u32 \<Rightarrow> (rm3014_uncorrectable + 'b) option" where
  "decode_aach ops type5 code = do {
     guard (bb_get_len_remaining ops type5 = 30);
     type2 \<leftarrow> tetra_scramb_bits ops code type5;
     let (x, type2) = bb_read_bits ops type2 30;
     x \<leftarrow> map_option of_nat x;
     case tetra_rm3014_decode x of
       Inl err \<Rightarrow> Some (Inl err)
     | Inr decoded \<Rightarrow> do {
         type1 \<leftarrow> bb_set_raw_start ops type2 0;
         type1 \<leftarrow> bb_set_raw_pos ops type1 0;
         type1 \<leftarrow> bb_set_raw_end ops type1 14;
         type1 \<leftarrow> bb_write_bits ops type1 (unat (rm_data decoded)) 14;
         type1 \<leftarrow> bb_seek ops type1 0;
         Some (Inr type1) } }"

section \<open>Slices and blocks\<close>

lemma aset_run:
  assumes "k + n \<le> length arr"
  shows "for_loop [0..<n] (\<lambda>i arr. aset arr (k + i) (f i)) arr = Some (take k arr @ map f [0..<n] @ drop (k + n) arr)"
  using assms
proof (induction n)
  case (Suc n)
  have "(take k arr @ map f [0..<n] @ drop (k + n) arr)[k + n := f n]
      = take k arr @ map f [0..<Suc n] @ drop (k + Suc n) arr"
    using Suc.prems by (simp add: list_update_append Cons_nth_drop_Suc [symmetric])
  then show ?case using Suc by (simp add: for_loop_append panic_simps)
qed simp

lemma bit_of_lsb: "map bit_of (map lsb_of (crc_bits c)) = crc_bits c"
  by (auto simp: crc_bits_def bit_of_def lsb_of_def bit_simps and_one_eq mod_2_eq_odd intro!: bit_word_eqI)

lemma map_bit_of_inj [simp]: "map bit_of xs = map bit_of ys \<longleftrightarrow> xs = ys"
  by (rule inj_map_eq_map) (auto simp: inj_def bit_of_def)

text \<open>A list that a permutation fills with bits is a list of bits.\<close>

lemma permuted_bits:
  assumes "bij_betw \<pi> {..<k} {..<k}" and "k \<le> length r" and "\<And>p. p < k \<Longrightarrow> r ! \<pi> p = bit_of (f p)"
  obtains t where "take k r = map bit_of t" "length t = k" "\<And>p. p < k \<Longrightarrow> t ! \<pi> p = f p"
proof -
  have \<pi>: "\<pi> p < k" if "p < k" for p using assms(1) that by (auto simp: bij_betw_def)
  let ?t = "map (\<lambda>x. x = 1) (take k r)"
  have "bit_of (r ! q = 1) = r ! q" if "q < k" for q
  proof -
    have "\<pi> ` {..<k} = {..<k}" using assms(1) by (simp add: bij_betw_def)
    then have "q \<in> \<pi> ` {..<k}" using that by simp
    then obtain p where "p < k" "q = \<pi> p" by auto
    then show ?thesis by (simp add: assms(3))
  qed
  then have "take k r = map bit_of ?t"
    using assms(2) by (intro nth_equalityI) simp_all
  moreover have "?t ! \<pi> p = f p" if "p < k" for p using assms(2,3) \<pi> that by simp
  ultimately show thesis using that [of ?t] assms(2) by simp
qed

context bit_buffer
begin

lemma read_window:
  assumes "view_wf (view b)" and "window (view b) = xs"
  obtains b1 b2 where "bb_seek ops b 0 = Some b1" "bb_get_len ops b = length xs" "bb_get_len ops b1 = length xs"
    "bb_to_bitarr ops b1 (length xs) = Some (map bit_of xs, b2)"
proof -
  let ?v = "view b"
  have wf: "raw_start ?v \<le> raw_pos ?v" "raw_pos ?v \<le> raw_end ?v" "raw_end ?v \<le> length (raw_bits ?v)"
    using assms(1) by (auto simp: view_wf_def)
  have len: "raw_end ?v - raw_start ?v = length xs" using length_window [OF assms(1)] assms(2) by simp
  obtain b1 where b1: "bb_seek ops b 0 = Some b1" "view b1 = ?v\<lparr>raw_pos := raw_start ?v\<rparr>"
    using seek [OF assms(1), of 0] wf by (auto elim: map_option_SomeE)
  have wf1: "view_wf (view b1)" using wf by (simp add: b1(2) view_wf_def)
  obtain b2 where "bb_to_bitarr ops b1 (length xs) = Some (map bit_of xs, b2)"
  proof -
    have "raw_pos (view b1) + length xs \<le> raw_end (view b1)" using wf len by (simp add: b1(2))
    from to_bitarr [OF wf1 this] show thesis
      using that wf len assms(2) by (auto simp: b1(2) window_def)
  qed
  then show thesis
    using that b1 get_len [OF assms(1)] get_len [OF wf1] len by (simp add: b1(2))
qed

lemma read_remaining:
  assumes "view_wf (view b)"
  obtains b2 where "bb_to_bitarr ops b (length (remaining (view b))) = Some (map bit_of (remaining (view b)), b2)"
    and "view_wf (view b2)" and "window (view b2) = window (view b)"
proof -
  let ?v = "view b"
  have n: "raw_pos ?v + length (remaining ?v) \<le> raw_end ?v"
    using length_remaining [OF assms] assms by (auto simp: view_wf_def)
  show thesis
    using to_bitarr [OF assms n] that length_remaining [OF assms]
    by (auto simp: remaining_def window_def)
qed

lemma send_bits:
  obtains b1 b2 where "bb_from_bitarr ops (map bit_of xs) = Some b1" "tetra_scramb_bits ops code b1 = Some b2"
    "at_start (view b2) (xor_list xs (keystream code (length xs)))"
proof -
  obtain b1 where b1: "bb_from_bitarr ops (map bit_of xs) = Some b1" "at_start (view b1) xs"
    using from_bitarr by blast
  obtain b2 where b2: "tetra_scramb_bits ops code b1 = Some b2" "view b2 = scrambled code (view b1)"
    using scramb_bits_view [of b1 code] b1(2) by (auto simp: at_start_def)
  show thesis using that b1 b2 scrambled_at_start [OF b1(2), of code] by simp
qed

lemma descramble:
  assumes "view_wf (view b)" and "remaining (view b) = xor_list xs (keystream code (length xs))"
  obtains b1 where "tetra_scramb_bits ops code b = Some b1" "view_wf (view b1)" "remaining (view b1) = xs"
    "view b1 = scrambled code (view b)"
proof -
  obtain b1 where b1: "tetra_scramb_bits ops code b = Some b1" "view b1 = scrambled code (view b)"
    using scramb_bits_view [OF assms(1), of code] by (auto elim: map_option_SomeE)
  show thesis
    using that [OF b1(1)] b1(2) scrambled_wf [OF assms(1)] scrambled_remaining [OF assms(1)]
    by (simp add: assms(2) xor_list_twice)
qed

end

section \<open>Control channels: what is sent\<close>

definition cp_params :: "error_control_params \<Rightarrow> bool" where
  "cp_params P \<longleftrightarrow> type2_bits P = type1_bits P + 20 \<and> 2 * type345_bits P = 3 * type2_bits P \<and> even (type2_bits P) \<and>
     type2_bits P \<le> 288 \<and> type345_bits P \<le> 432 \<and> coprime (interleave_a P) (type345_bits P) \<and> 0 < interleave_a P \<and>
     interleave_a P * type345_bits P < 2 ^ 32 \<and> have_crc16 P"

lemma control_params:
  assumes "is_control_channel c" and "c \<noteq> Aach"
  obtains P where "get_params c = Some P" "cp_params P"
proof -
  have "coprime 11 (120 :: nat)" "coprime 101 (216 :: nat)" "coprime 103 (432 :: nat)" "coprime 13 (168 :: nat)"
    by (code_simp)+
  then have "cp_params BSCH_PARAMS" "cp_params SCH_HD_PARAMS" "cp_params SCH_F_PARAMS" "cp_params SCH_HU_PARAMS"
    by (simp_all add: cp_params_def BSCH_PARAMS_def SCH_HD_PARAMS_def SCH_F_PARAMS_def SCH_HU_PARAMS_def)
  then show thesis using assms that by (cases c) simp_all
qed

definition cp_type2 :: "bool list \<Rightarrow> bool list" where
  "cp_type2 xs = xs @ map lsb_of (crc_bits (NOT (crc16_ccitt_bits (map bit_of xs) (length xs)))) @ replicate 4 False"

definition cp_code :: "bool list \<Rightarrow> bool list" where
  "cp_code xs = concat (enc cch_polys zero_reg (cp_type2 xs))"

definition cp_type4 :: "error_control_params \<Rightarrow> bool list \<Rightarrow> bool list \<Rightarrow> bool" where
  "cp_type4 P xs t4 \<longleftrightarrow> length t4 = type345_bits P \<and>
     (\<forall>j < type345_bits P. t4 ! block_perm (type345_bits P) (interleave_a P) j = cp_code xs ! kept Rate2_3 j)"

lemma length_cp_type2: "length (cp_type2 xs) = length xs + 20"
  by (simp add: cp_type2_def)

lemma length_cp_code: "length (cp_code xs) = 4 * (length xs + 20)"
  by (simp add: cp_code_def length_concat_enc length_cp_type2 cch_polys_ok(2))

lemma kept_less_mother:
  assumes "2 * n = 3 * t" and "even t" and "j < n"
  shows "kept Rate2_3 j < 4 * t"
proof -
  obtain u where "t = 2 * u" using assms(2) by (rule evenE)
  then have "n = 3 * (t div 2) + 2 * (t mod 2)" using assms(1) by simp
  then have "kept Rate2_3 n = 4 * t" by (simp only: kept_group_2_3)
  then show ?thesis using kept_mono [OF assms(3), of Rate2_3] by simp
qed

context bit_buffer
begin

lemma encode_cp_sends:
  assumes "is_control_channel (logical_channel prim)" and "logical_channel prim \<noteq> Aach"
    and "get_params (logical_channel prim) = Some P" and "cp_params P"
    and "view_wf (view (mac_block prim))" and "window (view (mac_block prim)) = xs" and "length xs = type1_bits P"
  obtains b t4 where "encode_cp ops prim = Some b" "cp_type4 P xs t4"
    "at_start (view b) (xor_list t4 (keystream (scrambling_code prim) (type345_bits P)))"
proof -
  let ?n1 = "type1_bits P" and ?n2 = "type2_bits P" and ?n = "type345_bits P" and ?a = "interleave_a P"
  note P = assms(4) [unfolded cp_params_def]
  have n2: "?n2 = ?n1 + 20" "?n2 \<le> 288" "?n \<le> 432" and crcP: "have_crc16 P" using P by auto
  obtain b1 b2 where r: "bb_seek ops (mac_block prim) 0 = Some b1" "bb_get_len ops (mac_block prim) = ?n1"
    "bb_to_bitarr ops b1 ?n1 = Some (map bit_of xs, b2)"
    using read_window [OF assms(5,6)] assms(7) by metis
  let ?arr = "map bit_of xs @ replicate (288 - ?n1) (0 :: u8)"
  let ?crc = "NOT (crc16_ccitt_bits (map bit_of xs) ?n1)"
  have arr: "aput (replicate 288 0) 0 (map bit_of xs) = Some ?arr"
    using n2 assms(7) by (simp add: panic_simps)
  have t1: "aslice ?arr 0 ?n1 = Some (map bit_of xs)" using assms(7) by (simp add: panic_simps)
  have crc: "for_loop [0..<16] (\<lambda>i arr. aset arr (?n1 + i) (ucast (drop_bit (15 - i) ?crc AND 1))) ?arr
      = Some (map bit_of xs @ crc_bits ?crc @ replicate (272 - ?n1) 0)"
    using n2 assms(7) aset_run [of ?n1 16 ?arr "\<lambda>i. ucast (drop_bit (15 - i) ?crc AND 1)"]
    by (simp add: crc_bits_def del: upt_rec_numeral)
  have t2: "aslice (map bit_of xs @ crc_bits ?crc @ replicate (272 - ?n1) 0) 0 ?n2 = Some (map bit_of (cp_type2 xs))"
  proof -
    have "take ?n2 (map bit_of xs @ crc_bits ?crc @ replicate (272 - ?n1) 0) = map bit_of xs @ crc_bits ?crc @ replicate 4 0"
      using n2 assms(7) by (simp add: min_def)
    then show ?thesis
      using n2 assms(7) bit_of_lsb by (simp add: panic_simps cp_type2_def bit_of_cases del: map_map)
  qed
  have "length (cp_type2 xs) * 4 \<le> length (replicate 1728 (0 :: u8))"
    using n2 assms(7) by (simp add: length_cp_type2)
  from conv_encode_polys [OF this, of zero_reg]
  obtain s z where enc: "conv_encode conv_new (map bit_of (cp_type2 xs)) (replicate 1728 0) = Some (s, map bit_of (cp_code xs) @ z)"
    and z: "length (cp_code xs @ map (\<lambda>_. False) z) = 1728"
    using n2 assms(7)
    by (auto simp: conv_new_def zero_reg_def bit_of_def cp_code_def length_concat_enc length_cp_type2 cch_polys_ok(2))
  have k: "kept Rate2_3 j < 1728" if "j < 432" for j
    using kept_less_mother [of 432 288 j] that by simp
  obtain t3 where t3: "get_punctured_rate Rate2_3 (map bit_of (cp_code xs) @ z) (replicate 432 0) = Some t3"
    "length t3 = 432" "\<And>j. j < 432 \<Longrightarrow> t3 ! j = (map bit_of (cp_code xs) @ z) ! kept Rate2_3 j"
    using punctured_nths [of "replicate 432 0" Rate2_3 "map bit_of (cp_code xs) @ z"] k z by auto
  have t3b: "t3 ! j = bit_of (cp_code xs ! kept Rate2_3 j)" if "j < ?n" for j
  proof -
    have "kept Rate2_3 j < length (cp_code xs)"
      using kept_less_mother [of ?n ?n2 j] that P assms(7) n2(1) by (simp only: length_cp_code)
    then show ?thesis using t3(3) that n2 by (simp add: nth_append)
  qed
  obtain t4 where t4: "block_interleave ?n ?a t3 (replicate 432 0) = Some t4" "length t4 = 432"
    "\<And>p. p < ?n \<Longrightarrow> t4 ! block_perm ?n ?a p = t3 ! p"
    using block_interleave_nth [of ?a ?n t3 "replicate 432 0"] P n2 t3(2) by auto
  obtain t where t: "take ?n t4 = map bit_of t" "length t = ?n"
    "\<And>p. p < ?n \<Longrightarrow> t ! block_perm ?n ?a p = cp_code xs ! kept Rate2_3 p"
    by (rule permuted_bits [OF block_perm_bij, of ?a ?n t4 "\<lambda>p. cp_code xs ! kept Rate2_3 p"])
       (use P t4 t3b n2 in auto)
  have sl: "aslice t4 0 ?n = Some (map bit_of t)" using t(1) t4(2) n2 by (simp add: panic_simps)
  obtain b3 b4 where s: "bb_from_bitarr ops (map bit_of t) = Some b3" "tetra_scramb_bits ops (scrambling_code prim) b3 = Some b4"
    "at_start (view b4) (xor_list t (keystream (scrambling_code prim) (length t)))"
    by (rule send_bits)
  have "encode_cp ops prim = Some b4"
    using assms(1,2) crcP
    by (simp add: encode_cp_def Let_def assms(3) r MAX_TYPE2_BITS_def MAX_TYPE345_BITS_def arr t1 crc t2 enc t3(1) t4(1) sl s(1,2)
        del: is_control_channel.simps replicate.simps upt_rec_numeral)
  moreover have "cp_type4 P xs t" using t by (simp add: cp_type4_def)
  ultimately show thesis using that s(3) t(2) by simp
qed

end

section \<open>Control channels: what is received\<close>

text \<open>A soft value for a bit: not an erasure, with the sign of the bit, within the demodulator's range.\<close>

definition sounds_like :: "int \<Rightarrow> bool \<Rightarrow> bool" where
  "sounds_like x b \<longleftrightarrow> 0 < x * sgn_of b \<and> \<bar>x\<bar> \<le> 127"

definition soft_for :: "int list \<Rightarrow> bool list \<Rightarrow> bool" where
  "soft_for xs bs \<longleftrightarrow> length xs = length bs \<and> (\<forall>i < length bs. sounds_like (xs ! i) (bs ! i))"

lemma sounds_like_hard: "sounds_like (erasure_to_soft (bit_of b)) b"
  by (cases b) (simp_all add: sounds_like_def erasure_to_soft_def bit_of_def sgn_of_def)

lemma those_hard_to_soft:
  "\<forall>x \<in> set xs. x = 0 \<or> x = 1 \<or> x = 0xff \<Longrightarrow> those (map hard_to_soft xs) = Some (map erasure_to_soft xs)"
  by (induction xs) (auto simp: hard_to_soft_def erasure_to_soft_def)

lemma sounds_like_xor:
  "sounds_like x (b \<noteq> k) \<Longrightarrow> sounds_like (if k then saturating_neg x else x) b"
  by (auto simp: sounds_like_def sgn_of_def saturating_neg_def split: if_splits)

lemma descramble_soft:
  assumes "soft_for soft (xor_list bs (keystream code (length bs)))" and "length bs \<le> 432"
  obtains soft' where "descramble_soft_bits code soft = Some soft'" "soft_for soft' bs"
proof
  let ?ks = "keystream code (length bs)"
  let ?soft' = "map2 (\<lambda>x k. if k \<noteq> 0 then saturating_neg x else x) soft (map bit_of ?ks)"
  have len: "length soft = length bs" using assms(1) by (simp add: soft_for_def)
  show "descramble_soft_bits code soft = Some ?soft'"
    using assms(2) by (simp add: descramble_soft_bits_def MAX_TYPE345_BITS_def get_bits_keystream len Let_def)
  have "sounds_like (?soft' ! i) (bs ! i)" if "i < length bs" for i
  proof -
    have "sounds_like (soft ! i) (bs ! i \<noteq> ?ks ! i)"
      using assms(1) that by (simp add: soft_for_def xor_list_def)
    from sounds_like_xor [OF this] show ?thesis
      using that len by (simp add: bit_of_def)
  qed
  then show "soft_for ?soft' bs" by (simp add: soft_for_def len)
qed

lemma cp_symbols:
  assumes P: "cp_params P" and xs: "length xs = type1_bits P"
    and d: "4 * type2_bits P \<le> length d" "\<And>j. j < type345_bits P \<Longrightarrow> sounds_like (d ! kept Rate2_3 j) (cp_code xs ! kept Rate2_3 j)"
    "\<And>p. \<lbrakk>p < 4 * type2_bits P; p \<notin> kept Rate2_3 ` {..<type345_bits P}\<rbrakk> \<Longrightarrow> d ! p = 0"
  shows "dec_sb1_soft d (replicate 288 0) (type2_bits P) =
    Some (map bit_of (cp_type2 xs) @ replicate (288 - type2_bits P) 0)"
proof -
  let ?n2 = "type2_bits P" and ?n = "type345_bits P"
  note P' = P [unfolded cp_params_def]
  let ?bs = "xs @ map lsb_of (crc_bits (NOT (crc16_ccitt_bits (map bit_of xs) (length xs))))"
  have t2: "cp_type2 xs = ?bs @ replicate 4 False" by (simp add: cp_type2_def)
  have len: "length ?bs + 4 = ?n2" using P' xs by simp
  let ?d = "take (?n2 * 4) d"
  have dl: "length ?d = 4 * ?n2" using d(1) by simp
  have each: "?d ! p = 0 \<or> sounds_like (?d ! p) (cp_code xs ! p)" if "p < 4 * ?n2" for p
    using that d(2,3) by (cases "p \<in> kept Rate2_3 ` {..<?n}") auto
  have "decode tetra_viterbi_decoder ?d = map bit_of ?bs @ replicate 4 0"
  proof (rule decode_symbols)
    show "cch_polys = cch_polys \<and> tetra_viterbi_decoder = tetra_viterbi_decoder
        \<or> cch_polys = speech_polys \<and> tetra_viterbi_decoder = tetra_codec_viterbi_decoder" by simp
    show "length ?d = length cch_polys * (length ?bs + 4)" by (simp only: dl len cch_polys_ok(2))
    show "soft_ok ?d"
      unfolding soft_ok_def
    proof
      fix x assume "x \<in> set ?d"
      then obtain p where "p < 4 * ?n2" "x = ?d ! p" using dl by (metis in_set_conv_nth)
      then show "- 127 \<le> x \<and> x \<le> 127" using each [of p] by (auto simp: sounds_like_def)
    qed
    show "length ?bs \<le> 2 ^ 19" using P' len by simp
    show "?d ! p = 0 \<or> 0 < ?d ! p * sgn_of (concat (enc cch_polys zero_reg (?bs @ replicate 4 False)) ! p)"
      if "p < length ?d" for p
      using each [of p] that dl by (auto simp: sounds_like_def cp_code_def t2)
    show "?d ! (length cch_polys * m) \<noteq> 0" if "m < length ?bs + 4" for m
    proof -
      have m: "4 * m < 4 * ?n2" using that len by simp
      let ?j = "3 * (m div 2) + 2 * (m mod 2)"
      have "even ?n2" and n: "2 * ?n = 3 * ?n2" using P' by blast+
      then obtain u where "?n2 = 2 * u" by (elim evenE)
      then have "?n = 3 * (?n2 div 2) + 2 * (?n2 mod 2)" using n by simp
      then have "kept Rate2_3 ?n = 4 * ?n2" by (simp only: kept_group_2_3)
      then have "?j < ?n" using m kept_group_2_3 [of m] by (metis kept_less_iff)
      then have "sounds_like (d ! (4 * m)) (cp_code xs ! (4 * m))" using d(2) [of ?j] by (simp only: kept_group_2_3)
      then have "d ! (4 * m) \<noteq> 0" by (auto simp: sounds_like_def)
      then show ?thesis using m by (simp add: cch_polys_ok(2))
    qed
  qed
  then have dec: "decode tetra_viterbi_decoder ?d = map bit_of (cp_type2 xs)" by (simp add: t2 bit_of_def)
  have len2: "length (cp_type2 xs) = ?n2" using P' xs by (simp add: length_cp_type2)
  have "?n2 * 4 \<le> length d" "?n2 \<le> 288" using d(1) P' by (simp_all add: mult.commute)
  then show ?thesis
    by (simp add: dec_sb1_soft_def panic_simps dec len2 Let_def)
qed

lemma cp_decoded_block:
  assumes P: "cp_params P" and xs: "length xs = type1_bits P"
  defines "t \<equiv> map bit_of (cp_type2 xs) @ replicate (288 - type2_bits P) (0 :: u8)"
  shows "aslice t 0 (type1_bits P) = Some (map bit_of xs)" and "crc16_ccitt_bits t (type1_bits P + 16) = TETRA_CRC_OK"
proof -
  show "aslice t 0 (type1_bits P) = Some (map bit_of xs)"
    using xs by (simp add: t_def cp_type2_def panic_simps)
  have "t = map bit_of xs @ crc_bits (NOT (crc16_ccitt_bits (map bit_of xs) (type1_bits P))) @
      (replicate 4 0 @ replicate (288 - type2_bits P) 0)"
    using bit_of_lsb xs by (simp add: t_def cp_type2_def bit_of_cases del: map_map)
  then show "crc16_ccitt_bits t (type1_bits P + 16) = TETRA_CRC_OK"
    using crc_residue [of "map bit_of xs" "type1_bits P"] xs by simp
qed

context bit_buffer
begin

lemma decode_cp_receives:
  assumes c: "is_control_channel c" "c \<noteq> Aach" "get_params c = Some P" "cp_params P"
    and t4: "cp_type4 P xs t4" "length xs = type1_bits P"
    and rx: "view_wf (view (rx_block prim))"
      "remaining (view (rx_block prim)) = xor_list t4 (keystream code (type345_bits P))"
    and code: "(if block_type prim = SB1 then Some SCRAMB_INIT else dflt) = Some code"
    and soft: "\<And>s. \<lbrakk>soft_bits prim = Some s; length s = type345_bits P\<rbrakk>
      \<Longrightarrow> soft_for s (xor_list t4 (keystream code (type345_bits P)))"
  obtains b where "decode_cp ops c prim dflt = Some (Some b, True)" "at_start (view b) xs"
proof -
  let ?n2 = "type2_bits P" and ?n = "type345_bits P" and ?a = "interleave_a P"
  let ?\<pi> = "block_perm ?n ?a"
  let ?t = "map bit_of (cp_type2 xs) @ replicate (288 - ?n2) (0 :: u8)"
  note P = c(4) [unfolded cp_params_def]
  have n: "?n \<le> 432" "?n2 \<le> 288" and crcP: "have_crc16 P" using P by auto
  have lt4: "length t4 = ?n" and t4n: "\<And>j. j < ?n \<Longrightarrow> t4 ! ?\<pi> j = cp_code xs ! kept Rate2_3 j"
    using t4(1) by (auto simp: cp_type4_def)
  have perm: "?\<pi> j < ?n" if "j < ?n" for j
    using block_perm_bij [of ?a ?n] P that by (auto simp: bij_betw_def)
  have kb: "kept Rate2_3 j < 1728" if "j < ?n" for j
    using kept_less_mother [of 432 288 j] that n by simp
  obtain b1 where b1: "tetra_scramb_bits ops code (rx_block prim) = Some b1" "view_wf (view b1)" "remaining (view b1) = t4"
    by (rule descramble [OF rx(1), of t4 code]) (use rx(2) lt4 in auto)
  obtain b2 where b2: "bb_to_bitarr ops b1 ?n = Some (map bit_of t4, b2)"
    using read_remaining [OF b1(2)] b1(3) lt4 by auto
  let ?t4 = "map bit_of t4 @ replicate (432 - ?n) (0 :: u8)"
  have arr: "aput (replicate 432 0) 0 (map bit_of t4) = Some ?t4" using n lt4 by (simp add: panic_simps)
  obtain t3 where t3: "block_deinterleave ?n ?a ?t4 (replicate 432 0) = Some t3" "length t3 = 432"
    "\<And>p. p < ?n \<Longrightarrow> t3 ! p = ?t4 ! ?\<pi> p"
    using block_deinterleave_nth [of ?a ?n ?t4 "replicate 432 0"] P n lt4 by auto
  have t3b: "t3 ! j = bit_of (cp_code xs ! kept Rate2_3 j)" if "j < ?n" for j
    using t3(3) [OF that] perm [OF that] t4n [OF that] lt4 by (simp add: nth_append)
  have hard: "\<exists>d. tetra_rcpc_depunct Rate2_3 t3 ?n (replicate 1728 0xff) = Some d \<and> dec_sb1 d (replicate 288 0) ?n2 = Some ?t"
  proof -
    let ?d = "copy_fold [0..<?n] (\<lambda>j. j) (kept Rate2_3) t3 (replicate 1728 (0xff :: u8))"
    have d: "length ?d = 1728" "\<And>j. j < ?n \<Longrightarrow> ?d ! kept Rate2_3 j = t3 ! j"
      "\<And>p. \<lbrakk>p \<notin> kept Rate2_3 ` {..<?n}; p < 1728\<rbrakk> \<Longrightarrow> ?d ! p = 0xff"
      using depunct_nths [of "replicate 1728 0xff" ?n t3 Rate2_3] kb n t3(2) by auto
    have dp: "tetra_rcpc_depunct Rate2_3 t3 ?n (replicate 1728 0xff) = Some ?d"
      using kb n t3(2) by (intro depunct_copy) auto
    let ?h = "take (?n2 * 4) ?d"
    have sym: "?d ! p = 0xff \<or> ?d ! p = bit_of (cp_code xs ! p)" if "p < 1728" for p
      using d(2,3) t3b that by (cases "p \<in> kept Rate2_3 ` {..<?n}") auto
    have "\<forall>x \<in> set ?h. x = 0 \<or> x = 1 \<or> x = 0xff"
    proof
      fix x assume "x \<in> set ?h"
      then obtain p where "p < 1728" "x = ?d ! p" using d(1) by (metis in_set_conv_nth in_set_takeD)
      then show "x = 0 \<or> x = 1 \<or> x = 0xff" using sym [of p] by (auto simp: bit_of_def)
    qed
    note those = those_hard_to_soft [OF this]
    have "dec_sb1_soft (map erasure_to_soft ?h) (replicate 288 0) ?n2 = Some ?t"
    proof (rule cp_symbols [OF c(4) t4(2)])
      show "4 * ?n2 \<le> length (map erasure_to_soft ?h)" using n d(1) by simp
      show "sounds_like (map erasure_to_soft ?h ! kept Rate2_3 j) (cp_code xs ! kept Rate2_3 j)" if "j < ?n" for j
      proof -
        have "kept Rate2_3 j < ?n2 * 4" using kept_less_mother [of ?n ?n2 j] P that by (metis mult.commute)
        then show ?thesis using that n d(1,2) t3b sounds_like_hard by simp
      qed
      show "map erasure_to_soft ?h ! p = 0" if "p < 4 * ?n2" "p \<notin> kept Rate2_3 ` {..<?n}" for p
        using that n d(1,3) by (simp add: erasure_to_soft_def mult.commute)
    qed
    then have "dec_sb1 ?d (replicate 288 0) ?n2 = Some ?t"
      using n d(1) those by (simp add: dec_sb1_def panic_simps)
    then show ?thesis using dp by blast
  qed
  have softd: "\<exists>s' t3s d. descramble_soft_bits code s = Some s'
      \<and> block_deinterleave ?n ?a s' (replicate 432 0) = Some t3s
      \<and> tetra_rcpc_depunct_soft Rate2_3 t3s ?n (replicate 1728 0) = Some d \<and> dec_sb1_soft d (replicate 288 0) ?n2 = Some ?t"
    if s: "soft_bits prim = Some s" "length s = ?n" for s
  proof -
    obtain s' where s': "descramble_soft_bits code s = Some s'" "soft_for s' t4"
      by (rule descramble_soft [of s t4 code]) (use soft [OF s] lt4 n in auto)
    have ls: "length s' = ?n" using s'(2) lt4 by (simp add: soft_for_def)
    obtain t3s where t3s: "block_deinterleave ?n ?a s' (replicate 432 0) = Some t3s" "length t3s = 432"
      "\<And>p. p < ?n \<Longrightarrow> t3s ! p = s' ! ?\<pi> p"
      using block_deinterleave_nth [of ?a ?n s' "replicate 432 0"] P n ls by auto
    let ?d = "copy_fold [0..<?n] (\<lambda>j. j) (kept Rate2_3) t3s (replicate 1728 0)"
    have d: "length ?d = 1728" "\<And>j. j < ?n \<Longrightarrow> ?d ! kept Rate2_3 j = t3s ! j"
      "\<And>p. \<lbrakk>p \<notin> kept Rate2_3 ` {..<?n}; p < 1728\<rbrakk> \<Longrightarrow> ?d ! p = 0"
      using depunct_nths [of "replicate 1728 0" ?n t3s Rate2_3] kb n t3s(2) by auto
    have dp: "tetra_rcpc_depunct_soft Rate2_3 t3s ?n (replicate 1728 0) = Some ?d"
      using kb n t3s(2) by (intro depunct_soft_copy) auto
    have "dec_sb1_soft ?d (replicate 288 0) ?n2 = Some ?t"
    proof (rule cp_symbols [OF c(4) t4(2)])
      show "4 * ?n2 \<le> length ?d" using n d(1) by simp
      show "sounds_like (?d ! kept Rate2_3 j) (cp_code xs ! kept Rate2_3 j)" if "j < ?n" for j
      proof -
        have "sounds_like (s' ! ?\<pi> j) (t4 ! ?\<pi> j)" using s'(2) perm [OF that] lt4 by (simp add: soft_for_def)
        then show ?thesis using d(2) t3s(3) t4n that by simp
      qed
      show "?d ! p = 0" if "p < 4 * ?n2" "p \<notin> kept Rate2_3 ` {..<?n}" for p
        using that n d(3) by simp
    qed
    then show ?thesis using s'(1) t3s(1) dp by blast
  qed
  obtain b3 where b3: "bb_from_bitarr ops (map bit_of xs) = Some b3" "at_start (view b3) xs"
    using from_bitarr by blast
  note block = cp_decoded_block [OF c(4) t4(2)]
  have "decode_cp ops c prim dflt = Some (Some b3, True)"
  proof (cases "\<exists>s. soft_bits prim = Some s \<and> length s = ?n")
    case True
    then obtain s where s: "soft_bits prim = Some s" "length s = ?n" by blast
    then obtain s' t3s d where "descramble_soft_bits code s = Some s'"
      "block_deinterleave ?n ?a s' (replicate 432 0) = Some t3s"
      "tetra_rcpc_depunct_soft Rate2_3 t3s ?n (replicate 1728 0) = Some d" "dec_sb1_soft d (replicate 288 0) ?n2 = Some ?t"
      using softd by blast
    then show ?thesis
      using c(1,2) code crcP
      by (simp add: decode_cp_def c(3) Let_def s b1(1) b2 MAX_TYPE2_BITS_def MAX_TYPE345_BITS_def arr t3(1) block b3(1)
          del: is_control_channel.simps replicate.simps)
  next
    case False
    then have "(case soft_bits prim of Some bits \<Rightarrow> if length bits = ?n then Some bits else None | None \<Rightarrow> None) = None"
      by (auto split: option.splits)
    then show ?thesis
      using c(1,2) code crcP hard
      by (auto simp: decode_cp_def c(3) Let_def b1(1) b2 MAX_TYPE2_BITS_def MAX_TYPE345_BITS_def arr t3(1) block b3(1)
          simp del: is_control_channel.simps replicate.simps)
  qed
  then show thesis using that b3(2) by blast
qed

end

section \<open>The access assignment channel\<close>

lemma bit_bits_val: "bit (bits_val bs) n \<longleftrightarrow> n < length bs \<and> bs ! (length bs - 1 - n)"
proof (induction bs arbitrary: n rule: rev_induct)
  case (snoc b bs)
  show ?case
    by (cases n) (auto simp: bits_val_append snoc.IH bit_0 bit_Suc nth_append Suc_diff_Suc even_or_iff)
qed (simp add: bits_val_def)

lemma bit_word_bits_val:
  "bit (of_nat (bits_val bs) :: 'a::len word) n \<longleftrightarrow> n < LENGTH('a) \<and> n < length bs \<and> bs ! (length bs - 1 - n)"
  by (simp add: bit_of_nat_iff bit_bits_val)

definition word_list :: "nat \<Rightarrow> 'a::len word \<Rightarrow> bool list" where
  "word_list n w = map (\<lambda>k. bit w (n - 1 - k)) [0..<n]"

lemma length_word_list [simp]: "length (word_list n w) = n"
  by (simp add: word_list_def)

lemma word_list_bits_val: "length bs \<le> LENGTH('a) \<Longrightarrow> word_list (length bs) (of_nat (bits_val bs) :: 'a::len word) = bs"
  by (rule nth_equalityI) (auto simp: word_list_def bit_word_bits_val)

lemma of_nat_word_list: "take_bit n (of_nat (bits_val (word_list n w)) :: 'a::len word) = take_bit n w"
  by (rule bit_word_eqI) (auto simp: bit_word_bits_val word_list_def bit_take_bit_iff)

lemma val_bits_unat: "take_bit n w = (w :: 'a::len word) \<Longrightarrow> val_bits n (unat w) = word_list n w"
proof -
  assume w: "take_bit n w = w"
  have "bits_val (word_list n w) = unat w"
  proof (rule bit_eqI)
    fix k
    have "bit w k \<Longrightarrow> k < n" using w by (metis bit_take_bit_iff)
    then show "bit (bits_val (word_list n w)) k \<longleftrightarrow> bit (unat w) k"
      by (auto simp: bit_bits_val word_list_def bit_unsigned_iff)
  qed
  then show ?thesis using val_bits_bits_val [of "word_list n w"] by simp
qed

lemma unat_less_exp: "take_bit n w = (w :: 'a::len word) \<Longrightarrow> unat w < 2 ^ n"
  by (metis take_bit_nat_less_exp unsigned_take_bit_eq)

text \<open>The 30 bits that are sent for 14 bits.\<close>

definition aach_code :: "bool list \<Rightarrow> bool list" where
  "aach_code xs = word_list 30 (tetra_rm3014_compute (of_nat (bits_val xs)))"

context bit_buffer
begin

lemma encode_aach_sends:
  assumes "view_wf (view buf)" and "remaining (view buf) = xs" and "length xs = 14"
  obtains b where "encode_aach ops buf code = Some b" "at_start (view b) (xor_list (aach_code xs) (keystream code 30))"
proof -
  let ?v = "view buf"
  let ?w = "tetra_rm3014_compute (of_nat (bits_val xs))"
  have n: "raw_end ?v - raw_pos ?v = 14" using length_remaining [OF assms(1)] assms(2,3) by simp
  then have le: "raw_pos ?v + 14 \<le> raw_end ?v" by simp
  have r: "fst (bb_read_bits ops buf 14) = Some (bits_val xs)"
    using read_bits [OF assms(1), of 14] le assms(2) n by (auto simp: remaining_def)
  let ?nb = "bb_new ops 30"
  have nb: "view_wf (view ?nb)" "window (view ?nb) = replicate 30 False" "raw_pos (view ?nb) = raw_start (view ?nb)"
    using new_buf [of 30] by (auto simp: at_start_def)
  have e: "raw_end (view ?nb) = raw_start (view ?nb) + 30" using at_start_length [OF new_buf] by simp
  have lt: "unat ?w < 2 ^ 30" by (rule unat_less_exp [OF take_bit_compute])
  obtain b1 where b1: "bb_write_bits ops ?nb (unat ?w) 30 = Some b1"
    "view b1 = (view ?nb)\<lparr>raw_bits := overwrite (raw_bits (view ?nb)) (raw_pos (view ?nb)) (val_bits 30 (unat ?w)),
      raw_pos := raw_pos (view ?nb) + 30\<rparr>"
    using write_bits [OF nb(1) _ lt] e nb(3) by (auto elim: map_option_SomeE)
  have wf1: "view_wf (view b1)" using nb(1,3) e by (simp add: b1(2) view_wf_def)
  obtain b2 where b2: "bb_seek ops b1 0 = Some b2" "view b2 = (view b1)\<lparr>raw_pos := raw_start (view b1)\<rparr>"
    using seek [OF wf1, of 0] e by (auto simp: b1(2) elim: map_option_SomeE)
  have "window (view b2) = val_bits 30 (unat ?w)"
    using overwrite_window [OF nb(1), of "val_bits 30 (unat ?w)"] e nb(3) by (simp add: b2(2) b1(2) window_def)
  then have s: "at_start (view b2) (aach_code xs)"
    using wf1 e nb(1) by (simp add: at_start_def b2(2) b1(2) view_wf_def val_bits_unat [OF take_bit_compute] aach_code_def)
  obtain b3 where b3: "tetra_scramb_bits ops code b2 = Some b3" "view b3 = scrambled code (view b2)"
    using scramb_bits_view [of b2 code] s by (auto simp: at_start_def elim: map_option_SomeE)
  have "encode_aach ops buf code = Some b3"
    using get_len_remaining [OF assms(1)] n
    by (simp add: encode_aach_def r Let_def b1(1) b2(1) b3(1))
  then show thesis using that scrambled_at_start [OF s, of code] b3(2) by (simp add: aach_code_def)
qed

lemma decode_aach_receives:
  assumes "view_wf (view buf)" and "remaining (view buf) = xor_list ys (keystream code 30)" and "length ys = 30"
    and "take_bit 14 d = d"
  shows "tetra_rm3014_decode (of_nat (bits_val ys)) = Inr \<lparr>rm_data = d, corrected_bits = k\<rparr> \<Longrightarrow>
      \<exists>b. decode_aach ops buf code = Some (Inr b) \<and> at_start (view b) (word_list 14 d)"
    and "tetra_rm3014_decode (of_nat (bits_val ys)) = Inl err \<Longrightarrow> decode_aach ops buf code = Some (Inl err)"
proof -
  obtain b1 where b1: "tetra_scramb_bits ops code buf = Some b1" "view_wf (view b1)" "remaining (view b1) = ys"
    by (rule descramble [OF assms(1), of ys code]) (use assms(2,3) in auto)
  let ?v = "view b1"
  have n: "raw_end ?v - raw_pos ?v = 30" using length_remaining [OF b1(2)] b1(3) assms(3) by simp
  then have le: "raw_pos ?v + 30 \<le> raw_end ?v" by simp
  have n0: "bb_get_len_remaining ops buf = 30"
    using get_len_remaining [OF assms(1)] length_remaining [OF assms(1)] assms(2,3) by simp
  obtain b2 where b2: "bb_read_bits ops b1 30 = (Some (bits_val ys), b2)" "view b2 = ?v\<lparr>raw_pos := raw_pos ?v + 30\<rparr>"
    using read_bits [OF b1(2), of 30] le b1(3) n by (auto simp: remaining_def)
  show "decode_aach ops buf code = Some (Inl err)" if "tetra_rm3014_decode (of_nat (bits_val ys)) = Inl err"
    using that by (simp add: decode_aach_def n0 b1(1) b2(1))
  have len: "30 \<le> length (raw_bits ?v)" using le b1(2) by (simp add: view_wf_def)
  obtain b3 where b3: "bb_set_raw_start ops b2 0 = Some b3" "view b3 = (view b2)\<lparr>raw_start := 0\<rparr>"
    using set_raw_start [of 0 b2] by (auto elim: map_option_SomeE)
  obtain b4 where b4: "bb_set_raw_pos ops b3 0 = Some b4" "view b4 = (view b3)\<lparr>raw_pos := 0\<rparr>"
    using set_raw_pos [of 0 b3] by (auto elim: map_option_SomeE)
  obtain b5 where b5: "bb_set_raw_end ops b4 14 = Some b5" "view b5 = (view b4)\<lparr>raw_end := 14\<rparr>"
    using set_raw_end [of 14 b4] len by (auto simp: b4(2) b3(2) b2(2) elim: map_option_SomeE)
  have v5: "view b5 = \<lparr>raw_bits = raw_bits ?v, raw_start = 0, raw_pos = 0, raw_end = 14, raw_auto = raw_auto ?v\<rparr>"
    by (simp add: b5(2) b4(2) b3(2) b2(2))
  have wf5: "view_wf (view b5)" using len by (simp add: v5 view_wf_def)
  obtain b6 where b6: "bb_write_bits ops b5 (unat d) 14 = Some b6"
    "view b6 = (view b5)\<lparr>raw_bits := overwrite (raw_bits ?v) 0 (val_bits 14 (unat d)), raw_pos := 14\<rparr>"
    using write_bits [OF wf5 _ unat_less_exp [OF assms(4)]] by (auto simp: v5 elim: map_option_SomeE)
  have wf6: "view_wf (view b6)" using len by (simp add: b6(2) v5 view_wf_def)
  obtain b7 where b7: "bb_seek ops b6 0 = Some b7" "view b7 = (view b6)\<lparr>raw_pos := 0\<rparr>"
    using seek [OF wf6, of 0] by (auto simp: b6(2) v5 elim: map_option_SomeE)
  have "window (view b7) = word_list 14 d"
    using overwrite_window [OF wf5, of "val_bits 14 (unat d)" 0] val_bits_unat [OF assms(4)]
    by (simp add: b7(2) b6(2) v5)
  then have "at_start (view b7) (word_list 14 d)"
    using wf6 by (simp add: at_start_def b7(2) b6(2) v5 view_wf_def)
  then show "\<exists>b. decode_aach ops buf code = Some (Inr b) \<and> at_start (view b) (word_list 14 d)"
    if "tetra_rm3014_decode (of_nat (bits_val ys)) = Inr \<lparr>rm_data = d, corrected_bits = k\<rparr>"
    using that by (simp add: decode_aach_def n0 b1(1) b2(1) b3(1) b4(1) b5(1) b6(1) b7(1))
qed

end

lemma xor_list_swap:
  "\<lbrakk>length ys = length xs; length zs = length xs\<rbrakk> \<Longrightarrow> xor_list (xor_list xs ys) zs = xor_list (xor_list xs zs) ys"
  by (rule nth_equalityI) (auto simp: xor_list_def)

lemma word_of_xor_list:
  assumes "length xs = length ys"
  shows "of_nat (bits_val (xor_list xs ys)) = (of_nat (bits_val xs) XOR of_nat (bits_val ys) :: 'a::len word)"
  by (rule bit_word_eqI) (use assms in \<open>auto simp: bit_word_bits_val bit_xor_iff xor_list_def\<close>)

lemma ones_of_list:
  assumes "length e = 30"
  shows "card (ones (of_nat (bits_val e))) = length (filter id e)"
proof -
  have "ones (of_nat (bits_val e)) = {i. i < length e \<and> id (e ! i)}"
    using assms by (auto simp: ones_def bit_word_bits_val)
  then show ?thesis by (simp only: length_filter_conv_card)
qed

lemma aach_decode:
  assumes "length e = 30" and "length (filter id e) \<le> 3" and "length xs = 14"
  shows "tetra_rm3014_decode (of_nat (bits_val (xor_list (aach_code xs) e))) =
    Inr \<lparr>rm_data = of_nat (bits_val xs), corrected_bits = length (filter id e)\<rparr>"
proof -
  let ?d = "of_nat (bits_val xs) :: u16" and ?e = "of_nat (bits_val e) :: u32"
  have te: "take_bit 30 ?e = ?e" by (rule bit_word_eqI) (auto simp: bit_take_bit_iff bit_word_bits_val assms(1))
  have td: "take_bit 14 ?d = ?d" by (rule bit_word_eqI) (auto simp: bit_take_bit_iff bit_word_bits_val assms(3))
  have "of_nat (bits_val (aach_code xs)) = tetra_rm3014_compute ?d"
  proof (rule bit_word_eqI)
    fix n
    have "bit (tetra_rm3014_compute ?d) n \<Longrightarrow> n < 30" using take_bit_compute by (metis bit_take_bit_iff)
    then show "bit (of_nat (bits_val (aach_code xs)) :: u32) n \<longleftrightarrow> bit (tetra_rm3014_compute ?d) n"
      by (auto simp: bit_word_bits_val aach_code_def word_list_def simp del: upt_rec_numeral)
  qed
  then have w: "of_nat (bits_val (xor_list (aach_code xs) e)) = tetra_rm3014_compute ?d XOR ?e"
    by (simp add: word_of_xor_list aach_code_def assms(1))
  have "card (ones ?e) \<le> 3" using assms(1,2) by (simp only: ones_of_list)
  from decode_explained [OF explains_error [OF this te, of ?d]] show ?thesis
    by (simp add: w mask_sum_ones te xor.assoc data_compute td ones_of_list assms(1))
qed

section \<open>Properties\<close>

text \<open>C1: For every control channel except the AACH, decoding what the encoder produced returns the original
  type-1 bits with a correct CRC, whatever the contents, for hard bits as well as for soft bits that
  have the sign of the transmitted bits: neither direction panics. The receiver must use the
  sender's scrambling code, which for a synchronisation block is the predefined one.\<close>

theorem control_channel_roundtrip:
  assumes "bit_buffer ops view"
    and "is_control_channel (logical_channel req)" and "logical_channel req \<noteq> Aach"
    and "get_params (logical_channel req) = Some P"
    and "view_wf (view (mac_block req))" and "window (view (mac_block req)) = xs" and "length xs = type1_bits P"
  shows "\<exists>sent. encode_cp ops req = Some sent \<and> length (window (view sent)) = type345_bits P \<and>
    (\<forall>ind dflt. rx_block ind = sent
       \<and> (if block_type ind = SB1 then Some SCRAMB_INIT else dflt) = Some (scrambling_code req)
       \<and> (\<forall>s. soft_bits ind = Some s \<longrightarrow> soft_for s (window (view sent)))
     \<longrightarrow> (\<exists>b. decode_cp ops (logical_channel req) ind dflt = Some (Some b, True) \<and> at_start (view b) xs))"
proof -
  have P: "cp_params P" using control_params [OF assms(2,3)] assms(4) by auto
  obtain b t4 where b: "encode_cp ops req = Some b" "cp_type4 P xs t4"
    "at_start (view b) (xor_list t4 (keystream (scrambling_code req) (type345_bits P)))"
    by (rule bit_buffer.encode_cp_sends [OF assms(1-4) P assms(5-7)])
  have w: "window (view b) = xor_list t4 (keystream (scrambling_code req) (type345_bits P))" "view_wf (view b)"
    using b(3) by (simp_all add: at_start_def)
  have len: "length (window (view b)) = type345_bits P" using b(2) by (simp add: w(1) cp_type4_def)
  have "\<exists>b'. decode_cp ops (logical_channel req) ind dflt = Some (Some b', True) \<and> at_start (view b') xs"
    if "rx_block ind = b" "(if block_type ind = SB1 then Some SCRAMB_INIT else dflt) = Some (scrambling_code req)"
      "\<forall>s. soft_bits ind = Some s \<longrightarrow> soft_for s (window (view b))" for ind dflt
    by (rule bit_buffer.decode_cp_receives [OF assms(1-4) P b(2) assms(7) _ _ that(2)])
       (use that w at_start_remaining [OF b(3)] in auto)
  then show ?thesis using b(1) len by blast
qed

theorem control_channel_roundtrip_witness:
  "\<exists>sent b. encode_cp view_ops \<lparr>mac_block = \<lparr>raw_bits = replicate 60 True, raw_start = 0, raw_pos = 7, raw_end = 60, raw_auto = False\<rparr>,
      logical_channel = Bsch, scrambling_code = 3\<rparr> = Some sent
    \<and> decode_cp view_ops Bsch \<lparr>block_type = SB1, soft_bits = None, rx_block = sent\<rparr> None = Some (Some b, True)
    \<and> at_start b (replicate 60 True)"
proof -
  let ?v = "\<lparr>raw_bits = replicate 60 True, raw_start = 0, raw_pos = 7, raw_end = 60, raw_auto = False\<rparr>"
  let ?req = "\<lparr>mac_block = ?v, logical_channel = Bsch, scrambling_code = 3\<rparr>"
  have "window ?v = replicate 60 True" "view_wf ?v" by (simp_all add: window_def view_wf_def)
  then have "\<exists>sent. encode_cp view_ops ?req = Some sent \<and> length (window sent) = type345_bits BSCH_PARAMS \<and>
    (\<forall>ind dflt. rx_block ind = sent \<and> (if block_type ind = SB1 then Some SCRAMB_INIT else dflt) = Some (scrambling_code ?req)
       \<and> (\<forall>s. soft_bits ind = Some s \<longrightarrow> soft_for s (window sent))
     \<longrightarrow> (\<exists>b. decode_cp view_ops (logical_channel ?req) ind dflt = Some (Some b, True) \<and> at_start b (replicate 60 True)))"
    by (intro control_channel_roundtrip [OF view_machine.bit_buffer_axioms]) (simp_all add: BSCH_PARAMS_def)
  then obtain sent where s: "encode_cp view_ops ?req = Some sent"
    "\<And>ind dflt. rx_block ind = sent \<and> (if block_type ind = SB1 then Some SCRAMB_INIT else dflt) = Some (scrambling_code ?req)
       \<and> (\<forall>s. soft_bits ind = Some s \<longrightarrow> soft_for s (window sent))
     \<Longrightarrow> \<exists>b. decode_cp view_ops (logical_channel ?req) ind dflt = Some (Some b, True) \<and> at_start b (replicate 60 True)"
    by blast
  show ?thesis
    using s(1) s(2) [of "\<lparr>block_type = SB1, soft_bits = None, rx_block = sent\<rparr>" None] by (simp add: SCRAMB_INIT_def)
qed

text \<open>An access assignment survives any three bit errors: whichever at most three of the 30 transmitted bits
  are flipped, decoding returns the 14 bits that were encoded, at the start of their buffer.\<close>

lemma aach_three_errors:
  assumes "bit_buffer ops view" and "view_wf (view buf)" and "remaining (view buf) = xs" and "length xs = 14"
  shows "\<exists>sent. encode_aach ops buf code = Some sent \<and> at_start (view sent) (window (view sent)) \<and> length (window (view sent)) = 30 \<and>
    (\<forall>rx e. view_wf (view rx) \<and> length e = 30 \<and> length (filter id e) \<le> 3
       \<and> remaining (view rx) = xor_list (window (view sent)) e
     \<longrightarrow> (\<exists>b. decode_aach ops rx code = Some (Inr b) \<and> at_start (view b) xs))"
proof -
  obtain b where b: "encode_aach ops buf code = Some b" "at_start (view b) (xor_list (aach_code xs) (keystream code 30))"
    by (rule bit_buffer.encode_aach_sends [OF assms])
  have w: "window (view b) = xor_list (aach_code xs) (keystream code 30)" using b(2) by (simp add: at_start_def)
  have len: "length (aach_code xs) = 30" by (simp add: aach_code_def)
  have "\<exists>c. decode_aach ops rx code = Some (Inr c) \<and> at_start (view c) xs"
    if "view_wf (view rx)" "length e = 30" "length (filter id e) \<le> 3" "remaining (view rx) = xor_list (window (view b)) e"
    for rx e
  proof -
    have "remaining (view rx) = xor_list (xor_list (aach_code xs) e) (keystream code 30)"
      using that(2,4) len by (simp add: w xor_list_swap)
    moreover have "take_bit 14 (of_nat (bits_val xs)) = (of_nat (bits_val xs) :: u16)"
      by (rule bit_word_eqI) (auto simp: bit_take_bit_iff bit_word_bits_val assms(4))
    moreover have "length (xor_list (aach_code xs) e) = 30" using that(2) len by simp
    moreover have "word_list 14 (of_nat (bits_val xs) :: u16) = xs"
      using word_list_bits_val [of xs, where 'a = 16] assms(4) by simp
    ultimately show ?thesis
      using bit_buffer.decode_aach_receives(1) [OF assms(1) that(1) _ _ _ aach_decode [OF that(2,3) assms(4)], of code]
      by metis
  qed
  then show ?thesis using b(1) b(2) w len by auto
qed

end
