(* ===== verification/Tetra_Types.thy ===== *)
theory Tetra_Types
  imports Prelude Tdma_Time
begin

text \<open>
  Shared value types of \<^verbatim>\<open>crates/tetra-core/src\<close>: subscriber addresses (\<^verbatim>\<open>address.rs\<close>), link
  directions (\<^verbatim>\<open>direction.rs\<close>) and the key-free air-interface-encryption context that the layers
  pass along (\<^verbatim>\<open>aie.rs\<close>). Constructors carry a prefix where two enums of the source share a
  variant name: \<open>Req\<close> for \<open>AieRequest\<close>, \<open>Ctx\<close> for \<open>AieContext\<close>, \<open>Scope\<close> for \<open>AieScope\<close>.
\<close>

section \<open>Addresses and directions\<close>

datatype ssi_type = SsiUnknown | Ssi | Issi | Gssi | Ussi | Smi | Esi | EventLabelSsi

record tetra_address =
  ssi :: u32
  ssi_type :: ssi_type

definition new_address :: "u32 \<Rightarrow> ssi_type \<Rightarrow> tetra_address" where
  "new_address s ty = \<lparr>ssi = s, ssi_type = ty\<rparr>"

definition issi_address :: "u32 \<Rightarrow> tetra_address" where
  "issi_address s = new_address s Issi"

datatype direction = DirNone | DirUl | DirDl | DirBoth

definition includes_ul :: "direction \<Rightarrow> bool" where
  "includes_ul d \<longleftrightarrow> d = DirUl \<or> d = DirBoth"

definition includes_dl :: "direction \<Rightarrow> bool" where
  "includes_dl d \<longleftrightarrow> d = DirDl \<or> d = DirBoth"

section \<open>Air-interface encryption\<close>

datatype aie_direction = Uplink | Downlink

datatype aie_algorithm = Tea1 | Tea3

record sc2_key_identifier =
  sc2_algorithm :: aie_algorithm
  sckn :: u8
  sck_vn :: u16

datatype sc3_key_type = Dck | Cck | Gck

record sc3_key_identifier =
  sc3_algorithm :: aie_algorithm
  cck_id :: u16
  context_id :: "u8 list"
  key_type :: sc3_key_type

definition new_sc2_key_identifier :: "aie_algorithm \<Rightarrow> u8 \<Rightarrow> u16 \<Rightarrow> sc2_key_identifier option" where
  "new_sc2_key_identifier a n v = (if n > 31 then None else Some \<lparr>sc2_algorithm = a, sckn = n, sck_vn = v\<rparr>)"

datatype aie_subject =
    System
  | Individual u32
  | Group u32
  | Call u32 "u32 option" "u32 option"

datatype aie_scope = ScopeMacResource | ScopeMacData | ScopeMacFragment | ScopeBasicLink | ScopeFacch | ScopeTraffic

record aie_cipher_region =
  region_start :: nat
  region_len :: nat

datatype aie_request =
    ReqClear aie_subject aie_scope
  | ReqSc2 aie_subject aie_scope
  | ReqSc3 aie_subject aie_scope "sc3_key_identifier option"

definition req_clear :: "aie_subject \<Rightarrow> aie_scope \<Rightarrow> aie_request" where
  "req_clear s c = ReqClear s c"

definition req_sc2 :: "aie_subject \<Rightarrow> aie_scope \<Rightarrow> aie_request" where
  "req_sc2 s c = ReqSc2 s c"

definition req_sc3 :: "aie_subject \<Rightarrow> aie_scope \<Rightarrow> aie_request" where
  "req_sc3 s c = ReqSc3 s c None"

definition req_sc3_with_key :: "aie_subject \<Rightarrow> aie_scope \<Rightarrow> sc3_key_identifier \<Rightarrow> aie_request" where
  "req_sc3_with_key s c k = ReqSc3 s c (Some k)"

fun with_scope :: "aie_request \<Rightarrow> aie_scope \<Rightarrow> aie_request" where
  "with_scope (ReqClear s _) scope = req_clear s scope"
| "with_scope (ReqSc2 s _) scope = req_sc2 s scope"
| "with_scope (ReqSc3 s _ k) scope = ReqSc3 s scope k"

fun req_is_encrypted :: "aie_request \<Rightarrow> bool" where
  "req_is_encrypted (ReqClear _ _) = False"
| "req_is_encrypted (ReqSc2 _ _) = True"
| "req_is_encrypted (ReqSc3 _ _ _) = True"

fun same_protection_as :: "aie_request \<Rightarrow> aie_request \<Rightarrow> bool" where
  "same_protection_as (ReqClear _ _) (ReqClear _ _) = True"
| "same_protection_as (ReqSc2 left _) (ReqSc2 right _) = (left = right)"
| "same_protection_as (ReqSc3 left _ left_key) (ReqSc3 right _ right_key) =
     (left = right \<and> (left_key = None \<or> right_key = None \<or> left_key = right_key))"
| "same_protection_as _ _ = False"

fun sc3_key :: "aie_request \<Rightarrow> sc3_key_identifier option" where
  "sc3_key (ReqSc3 _ _ key) = key"
| "sc3_key _ = None"

datatype aie_context =
    CtxClear aie_subject aie_direction tdma_time aie_scope
  | CtxSc2 aie_subject aie_direction tdma_time aie_scope sc2_key_identifier
  | CtxSc3 aie_subject aie_direction tdma_time aie_scope sc3_key_identifier

definition ctx_clear :: "aie_subject \<Rightarrow> aie_direction \<Rightarrow> tdma_time \<Rightarrow> aie_scope \<Rightarrow> aie_context" where
  "ctx_clear s d t c = CtxClear s d t c"

definition system_clear :: "aie_direction \<Rightarrow> tdma_time \<Rightarrow> aie_scope \<Rightarrow> aie_context" where
  "system_clear d t c = ctx_clear System d t c"

definition ctx_sc2 ::
  "aie_subject \<Rightarrow> aie_direction \<Rightarrow> tdma_time \<Rightarrow> aie_scope \<Rightarrow> sc2_key_identifier \<Rightarrow> aie_context" where
  "ctx_sc2 s d t c k = CtxSc2 s d t c k"

definition ctx_sc3 ::
  "aie_subject \<Rightarrow> aie_direction \<Rightarrow> tdma_time \<Rightarrow> aie_scope \<Rightarrow> sc3_key_identifier \<Rightarrow> aie_context" where
  "ctx_sc3 s d t c k = CtxSc3 s d t c k"

fun ctx_is_encrypted :: "aie_context \<Rightarrow> bool" where
  "ctx_is_encrypted (CtxClear _ _ _ _) = False"
| "ctx_is_encrypted (CtxSc2 _ _ _ _ _) = True"
| "ctx_is_encrypted (CtxSc3 _ _ _ _ _) = True"

fun ctx_time :: "aie_context \<Rightarrow> tdma_time" where
  "ctx_time (CtxClear _ _ t _) = t"
| "ctx_time (CtxSc2 _ _ t _ _) = t"
| "ctx_time (CtxSc3 _ _ t _ _) = t"

section \<open>Protection is a tolerance\<close>

text \<open>
  Whether two requests need the same protection does not depend on their scopes; the relation is
  reflexive and symmetric. A request that names no key matches every key of its subject, so it is
  transitive only through requests that name one.
\<close>

lemma same_protection_refl: "same_protection_as r r"
  by (cases r) auto

lemma same_protection_sym: "same_protection_as r q = same_protection_as q r"
  by (cases r; cases q) auto

lemma same_protection_trans:
  assumes "same_protection_as p q" and "same_protection_as q r" and "sc3_key q \<noteq> None \<or> \<not> req_is_encrypted q \<or> (\<exists>s c. q = ReqSc2 s c)"
  shows "same_protection_as p r"
  using assms by (cases p; cases q; cases r) auto

lemma with_scope_same: "same_protection_as (with_scope r c) q = same_protection_as r q"
  by (cases r; cases q) (auto simp: req_clear_def req_sc2_def)

lemma same_protection_encrypted: "same_protection_as r q \<Longrightarrow> req_is_encrypted r = req_is_encrypted q"
  by (cases r; cases q) auto

end
