(* ===== verification/Event_Labels.thy ===== *)
theory Event_Labels
  imports Tetra_Types "HOL-Library.AList"
begin

text \<open>
  The event labels of \<^verbatim>\<open>crates/tetra-entities/src/umac/subcomp/event_label_store.rs\<close>: short
  aliases the MAC layer gives to subscriber addresses.

  The \<open>HashMap\<close> is an association list; its order stands for the iteration order of the map,
  which \<open>values().find\<close> depends on and which the source leaves open. The lemmas show that
  the order never matters: at most one label carries a given SSI in every state the operations can
  reach, so the two lookups are inverse to each other.
\<close>

section \<open>State and operations\<close>

type_synonym event_label = nat

record event_label_mapping =
  mapping_addr :: tetra_address
  mapping_label :: event_label

record event_label_store =
  labels :: "(event_label \<times> event_label_mapping) list"
  next_label :: event_label

definition new_store :: event_label_store where
  "new_store = \<lparr>labels = [], next_label = 1\<rparr>"

definition get_free_label :: "event_label_store \<Rightarrow> event_label \<times> event_label_store" where
  "get_free_label s = (let ret = next_label s in (ret, s\<lparr>next_label := (next_label s + 1) mod 2 ^ 16 mod 0x1FF\<rparr>))"

definition get_addr_by_label :: "event_label_store \<Rightarrow> event_label \<Rightarrow> tetra_address option" where
  "get_addr_by_label s label = map_option mapping_addr (map_of (labels s) label)"

definition get_label_by_ssi :: "event_label_store \<Rightarrow> u32 \<Rightarrow> event_label option" where
  "get_label_by_ssi s i =
     map_option mapping_label (find (\<lambda>m. ssi (mapping_addr m) = i) (map snd (labels s)))"

text \<open>\<open>None\<close> is the failed assertion: the SSI already has a label.\<close>

definition create_label_for_addr :: "event_label_store \<Rightarrow> tetra_address \<Rightarrow> (event_label \<times> event_label_store) option" where
  "create_label_for_addr s addr = do {
     guard (get_label_by_ssi s (ssi addr) = None);
     let (label, s) = get_free_label s;
     let entry = \<lparr>mapping_addr = addr, mapping_label = label\<rparr>;
     Some (label, s\<lparr>labels := AList.update label entry (labels s)\<rparr>) }"

definition bind_label :: "event_label_store \<Rightarrow> event_label \<Rightarrow> tetra_address \<Rightarrow> bool \<times> event_label_store" where
  "bind_label s label addr =
     (if label = 0 \<or> label > 0x3ff then (False, s)
      else (let kept = filter (\<lambda>(_, m). ssi (mapping_addr m) \<noteq> ssi addr) (labels s)
        in (True, s\<lparr>labels := AList.update label \<lparr>mapping_addr = addr, mapping_label = label\<rparr> kept\<rparr>)))"

definition remove_label :: "event_label_store \<Rightarrow> event_label \<Rightarrow> event_label_store" where
  "remove_label s label = s\<lparr>labels := AList.delete label (labels s)\<rparr>"

section \<open>Reachable stores\<close>

inductive label_step :: "event_label_store \<Rightarrow> event_label_store \<Rightarrow> bool" where
  "label_step s (snd (get_free_label s))"
| "create_label_for_addr s addr = Some (label, s') \<Longrightarrow> label_step s s'"
| "label_step s (snd (bind_label s label addr))"
| "label_step s (remove_label s label)"

inductive label_reachable :: "event_label_store \<Rightarrow> bool" where
  start: "label_reachable new_store"
| step: "label_reachable s \<Longrightarrow> label_step s s' \<Longrightarrow> label_reachable s'"

inductive_cases label_stepE: "label_step s s'"

text \<open>Labels are keyed by themselves, and no two of them carry the same SSI.\<close>

definition labels_ok :: "(event_label \<times> event_label_mapping) list \<Rightarrow> bool" where
  "labels_ok ls \<longleftrightarrow> distinct (map fst ls) \<and> (\<forall>(l, m) \<in> set ls. mapping_label m = l)
     \<and> (\<forall>(l, m) \<in> set ls. \<forall>(k, q) \<in> set ls. ssi (mapping_addr m) = ssi (mapping_addr q) \<longrightarrow> l = k)"

definition store_ok :: "event_label_store \<Rightarrow> bool" where
  "store_ok s \<longleftrightarrow> labels_ok (labels s) \<and> next_label s < 0x1FF"

lemma set_update: "distinct (map fst ls) \<Longrightarrow>
    set (AList.update k v ls) = {(l, m) \<in> set ls. l \<noteq> k} \<union> {(k, v)}"
proof (induction ls)
  case (Cons x ls)
  obtain a b where x: "x = (a, b)" by force
  show ?case
  proof (cases "a = k")
    case True
    with Cons.prems x have "\<And>m. (k, m) \<notin> set ls" by (force simp: image_iff)
    then show ?thesis using True x by auto
  next
    case False
    then show ?thesis using Cons x by auto
  qed
qed simp

lemma labels_ok_update:
  assumes "labels_ok ls" and "mapping_label m = l"
    and "\<And>k q. (k, q) \<in> set ls \<Longrightarrow> k \<noteq> l \<Longrightarrow> ssi (mapping_addr q) \<noteq> ssi (mapping_addr m)"
  shows "labels_ok (AList.update l m ls)"
proof -
  have d: "distinct (map fst ls)" using assms(1) by (simp add: labels_ok_def)
  have own: "\<And>k q. (k, q) \<in> set ls \<Longrightarrow> mapping_label q = k" using assms(1) by (force simp: labels_ok_def)
  have inj: "\<And>k q k' q'. (k, q) \<in> set ls \<Longrightarrow> (k', q') \<in> set ls \<Longrightarrow> ssi (mapping_addr q) = ssi (mapping_addr q') \<Longrightarrow> k = k'"
    using assms(1) by (force simp: labels_ok_def)
  have in_new: "(k, q) \<in> set (AList.update l m ls) \<longleftrightarrow> (k, q) \<in> set ls \<and> k \<noteq> l \<or> k = l \<and> q = m" for k q
    by (auto simp: set_update [OF d])
  have "k = k'" if "(k, q) \<in> set (AList.update l m ls)" "(k', q') \<in> set (AList.update l m ls)"
    "ssi (mapping_addr q) = ssi (mapping_addr q')" for k q k' q'
  proof (cases "k = l"; cases "k' = l")
    assume "k \<noteq> l" "k' \<noteq> l"
    then show ?thesis using that inj [of k q k' q'] by (simp add: in_new)
  next
    assume "k \<noteq> l" "k' = l"
    then show ?thesis using that assms(3) [of k q] by (simp add: in_new)
  next
    assume "k = l" "k' \<noteq> l"
    then show ?thesis using that assms(3) [of k' q'] by (simp add: in_new)
  qed simp
  moreover have "distinct (map fst (AList.update l m ls))" using d by (simp add: distinct_update)
  moreover have "\<And>k q. (k, q) \<in> set (AList.update l m ls) \<Longrightarrow> mapping_label q = k"
    using own assms(2) by (auto simp: in_new)
  ultimately show ?thesis unfolding labels_ok_def by blast
qed

lemma labels_ok_filter: "labels_ok ls \<Longrightarrow> labels_ok (filter P ls)"
  by (auto simp: labels_ok_def distinct_map_filter)

lemma labels_ok_delete: "labels_ok ls \<Longrightarrow> labels_ok (AList.delete l ls)"
  by (simp add: AList.delete_eq labels_ok_filter)

lemma find_by_ssi:
  assumes "labels_ok ls"
  shows "map_option mapping_label (find (\<lambda>m. ssi (mapping_addr m) = i) (map snd ls)) = Some l
    \<longleftrightarrow> (\<exists>m. map_of ls l = Some m \<and> ssi (mapping_addr m) = i)"
proof -
  have d: "distinct (map fst ls)" using assms by (simp add: labels_ok_def)
  have own: "\<And>k q. (k, q) \<in> set ls \<Longrightarrow> mapping_label q = k" using assms by (force simp: labels_ok_def)
  have inj: "\<And>k q k' q'. (k, q) \<in> set ls \<Longrightarrow> (k', q') \<in> set ls \<Longrightarrow> ssi (mapping_addr q) = ssi (mapping_addr q') \<Longrightarrow> k = k'"
    using assms by (force simp: labels_ok_def)
  show ?thesis (is "map_option _ ?f = _ \<longleftrightarrow> _")
  proof (cases ?f)
    case None
    then have "\<And>k q. (k, q) \<in> set ls \<Longrightarrow> ssi (mapping_addr q) \<noteq> i" by (force simp: find_None_iff)
    then show ?thesis using None by (auto dest: map_of_SomeD)
  next
    case (Some m)
    then have m: "m \<in> snd ` set ls" "ssi (mapping_addr m) = i"
      by (metis find_Some_iff image_set nth_mem, metis (mono_tags) find_Some_iff)
    then obtain k where k: "(k, m) \<in> set ls" by force
    then have km: "mapping_label m = k" "map_of ls k = Some m" using own d by auto
    have "k = l" if "map_of ls l = Some q" "ssi (mapping_addr q) = i" for q
      using inj [OF k map_of_SomeD [OF that(1)]] m(2) that(2) by simp
    then show ?thesis using Some km m(2) by auto
  qed
qed

lemma label_by_ssi_iff:
  "store_ok s \<Longrightarrow> get_label_by_ssi s i = Some l \<longleftrightarrow> (\<exists>a. get_addr_by_label s l = Some a \<and> ssi a = i)"
  by (simp only: get_label_by_ssi_def find_by_ssi store_ok_def) (auto simp: get_addr_by_label_def)

lemma no_label_ssi:
  assumes "store_ok s" and "get_label_by_ssi s i = None" and "(k, q) \<in> set (labels s)"
  shows "ssi (mapping_addr q) \<noteq> i"
  using assms by (force simp: get_label_by_ssi_def find_None_iff)

lemma store_ok_create:
  assumes "store_ok s" and "create_label_for_addr s addr = Some (l, s')"
  shows "store_ok s'"
proof -
  have n: "get_label_by_ssi s (ssi addr) = None" using assms(2)
    by (auto simp: create_label_for_addr_def Option.bind_eq_Some_conv)
  have "labels_ok (AList.update (next_label s) \<lparr>mapping_addr = addr, mapping_label = next_label s\<rparr> (labels s))"
    using assms(1) no_label_ssi [OF assms(1) n] by (intro labels_ok_update) (auto simp: store_ok_def)
  then show ?thesis using assms(2)
    by (auto simp: create_label_for_addr_def get_free_label_def store_ok_def Option.bind_eq_Some_conv)
qed

lemma store_ok_bind: "store_ok s \<Longrightarrow> store_ok (snd (bind_label s l addr))"
  by (auto simp: bind_label_def store_ok_def Let_def intro!: labels_ok_update labels_ok_filter)

lemma store_ok_step: "label_step s s' \<Longrightarrow> store_ok s \<Longrightarrow> store_ok s'"
  by (erule label_stepE)
     (auto simp: store_ok_bind intro: store_ok_create,
      auto simp: store_ok_def get_free_label_def remove_label_def Let_def labels_ok_delete)

lemma store_ok_reachable: "label_reachable s \<Longrightarrow> store_ok s"
  by (induction rule: label_reachable.induct)
     (simp_all add: store_ok_step, simp add: store_ok_def new_store_def labels_ok_def)

lemma map_of_filter_ssi:
  assumes "distinct (map fst ls)"
  shows "map_of (filter (\<lambda>(_, m). P m) ls) l = (case map_of ls l of Some m \<Rightarrow> if P m then Some m else None | None \<Rightarrow> None)"
  using assms by (induction ls) (auto split: option.splits dest: map_of_SomeD intro: rev_image_eqI)

section \<open>Properties\<close>

text \<open>C12: In every state that the operations reach, a label is found for an SSI exactly when that label
  resolves to an address with that SSI, so the store is a one-to-one naming and the iteration
  order of the map is irrelevant.\<close>

theorem event_labels_bijective:
  assumes "label_reachable s"
  shows "get_label_by_ssi s i = Some l \<longleftrightarrow> (\<exists>a. get_addr_by_label s l = Some a \<and> ssi a = i)"
  by (rule label_by_ssi_iff [OF store_ok_reachable [OF assms]])

theorem event_labels_bijective_witness:
  "get_label_by_ssi (snd (bind_label new_store 41 (issi_address 77468))) 77468 = Some 41"
proof -
  let ?s = "snd (bind_label new_store 41 (issi_address 77468))"
  have "label_reachable ?s" by (intro label_reachable.step [OF label_reachable.start] label_step.intros)
  from event_labels_bijective [OF this, of 77468 41] show ?thesis
    by (simp add: get_addr_by_label_def bind_label_def new_store_def issi_address_def new_address_def)
qed

text \<open>Binding a label is accepted exactly for labels 1 to 1023. It makes the label resolve to the new
  address, forgets the label the SSI had before and leaves every other SSI's label alone, unless
  that label is the one being bound.\<close>

lemma bind_label_replaces:
  assumes "label_reachable s"
  shows "fst (bind_label s l a) = (0 < l \<and> l \<le> 1023) \<and>
    (0 < l \<and> l \<le> 1023 \<longrightarrow> get_addr_by_label (snd (bind_label s l a)) l = Some a \<and>
      get_label_by_ssi (snd (bind_label s l a)) (ssi a) = Some l \<and>
      (\<forall>k. k \<noteq> l \<longrightarrow> get_addr_by_label (snd (bind_label s l a)) k =
        (case get_addr_by_label s k of Some b \<Rightarrow> if ssi b = ssi a then None else Some b | None \<Rightarrow> None)))"
proof -
  have ok: "store_ok s" and ok': "store_ok (snd (bind_label s l a))"
    using store_ok_reachable [OF assms] store_ok_bind by blast+
  have d: "distinct (map fst (labels s))" using ok by (simp add: store_ok_def labels_ok_def)
  show ?thesis using label_by_ssi_iff [OF ok', of "ssi a" l]
    by (auto simp: bind_label_def get_addr_by_label_def Let_def update_conv' map_of_filter_ssi [OF d] split: option.splits)
qed

theorem bind_label_replaces_witness:
  "get_addr_by_label (snd (bind_label (snd (bind_label new_store 41 (issi_address 7))) 42 (issi_address 7))) 41 = None"
proof -
  let ?s = "snd (bind_label new_store 41 (issi_address 7))"
  have "label_reachable ?s" by (intro label_reachable.step [OF label_reachable.start] label_step.intros)
  from bind_label_replaces [OF this, of 42 "issi_address 7"] show ?thesis
    by (auto simp: get_addr_by_label_def bind_label_def new_store_def issi_address_def new_address_def Let_def)
qed

text \<open>A new label is not checked for being free: when the next label is already bound, creating one
  overwrites that binding without a panic, and after 510 labels the counter hands out label 0,
  which binding treats as reserved.\<close>

lemma create_label_overwrites:
  "\<exists>s s'. label_reachable s \<and> get_addr_by_label s 1 = Some (issi_address 7)
     \<and> create_label_for_addr s (issi_address 8) = Some (1, s') \<and> get_label_by_ssi s' 7 = None
     \<and> next_label (((\<lambda>s. snd (get_free_label s)) ^^ 510) new_store) = 0"
proof -
  let ?s = "snd (bind_label new_store 1 (issi_address 7))"
  have r: "label_reachable ?s" by (intro label_reachable.step [OF label_reachable.start] label_step.intros)
  have n: "next_label (((\<lambda>s. snd (get_free_label s)) ^^ n) new_store) = (n + 1) mod 511" for n
    by (induction n) (auto simp: get_free_label_def new_store_def Let_def mod_Suc mod_mod_cancel)
  show ?thesis
    by (rule exI [of _ ?s], rule exI [of _ "snd (the (create_label_for_addr ?s (issi_address 8)))"])
       (use r n [of 510] in \<open>auto simp: bind_label_def new_store_def create_label_for_addr_def get_free_label_def
         get_addr_by_label_def get_label_by_ssi_def issi_address_def new_address_def\<close>)
qed

end
