(* ===== verification/Random_Access.thy ===== *)
theory Random_Access
  imports Tdma_Time
begin

text \<open>
  The random-access controller of \<^verbatim>\<open>crates/tetra-entities/src/umac/subcomp/random_access.rs\<close>, which
  adapts the access parameters of the control channel to the observed load, with its
  configuration \<open>CfgRandomAccess\<close> of \<^verbatim>\<open>crates/tetra-config/src/bluestation/sec_cell.rs\<close> and the
  range checks of \<^verbatim>\<open>config.rs\<close>.

  Saturating counters are written with \<open>min\<close>, \<open>u32\<close> arithmetic with its wrap-around; \<open>None\<close> is the
  panic of \<open>clamp\<close> on inverted limits. The map of recent accesses is only looked up, filtered and
  extended, so it is a partial function.
\<close>

section \<open>Configuration\<close>

record cfg_random_access =
  enabled :: bool
  update_interval_multiframes :: nat
  startup_grace_multiframes :: nat
  recovery_step_multiframes :: nat
  low_load_threshold :: nat
  high_load_threshold :: nat
  imm_min :: nat
  imm_max :: nat
  wt_min :: nat
  wt_max :: nat
  nu_min :: nat
  nu_max :: nat
  frame_len_min :: nat
  frame_len_max :: nat
  retry_window_multiframes :: nat
  retry_weight_percent :: nat
  ewma_alpha_percent :: nat
  frame_factor_activation_windows :: nat
  frame_factor_release_windows :: nat

definition default_cfg :: cfg_random_access where
  "default_cfg = \<lparr>enabled = True, update_interval_multiframes = 1, startup_grace_multiframes = 5,
     recovery_step_multiframes = 3, low_load_threshold = 2, high_load_threshold = 8,
     imm_min = 0, imm_max = 15, wt_min = 3, wt_max = 8, nu_min = 3, nu_max = 5,
     frame_len_min = 2, frame_len_max = 8, retry_window_multiframes = 30, retry_weight_percent = 33,
     ewma_alpha_percent = 50, frame_factor_activation_windows = 3, frame_factor_release_windows = 3\<rparr>"

definition cfg_valid :: "cfg_random_access \<Rightarrow> bool" where
  "cfg_valid c \<longleftrightarrow>
     update_interval_multiframes c \<in> {1..60} \<and> \<not> startup_grace_multiframes c > 60
   \<and> recovery_step_multiframes c \<in> {1..60} \<and> \<not> low_load_threshold c \<ge> high_load_threshold c
   \<and> \<not> (imm_min c > imm_max c \<or> imm_max c > 15)
   \<and> \<not> (wt_min c = 0 \<or> wt_min c > wt_max c \<or> wt_max c > 15)
   \<and> \<not> (nu_min c = 0 \<or> nu_min c > nu_max c \<or> nu_max c > 15)
   \<and> \<not> (frame_len_min c = 0 \<or> frame_len_min c > frame_len_max c \<or> frame_len_max c > 15)
   \<and> retry_window_multiframes c \<in> {1..60} \<and> retry_weight_percent c \<in> {1..100}
   \<and> ewma_alpha_percent c \<in> {1..100} \<and> frame_factor_activation_windows c \<in> {1..60}
   \<and> frame_factor_release_windows c \<in> {1..60}"

section \<open>The controller\<close>

record random_access_parameters =
  imm :: nat
  wt :: nat
  nu :: nat
  frame_len_factor :: bool
  ts_pointer :: nat
  min_pdu_prio :: nat

record random_access_update =
  parameters :: random_access_parameters
  frame_len :: nat

record random_access_window_stats =
  ws_first_attempts :: nat
  ws_retry_attempts :: nat
  ws_followup_attempts :: nat
  ws_invalid_mac_access :: nat
  ws_crc_failures :: nat
  ws_pending_registrations :: nat
  ws_registration_delivery_failures :: nat
  ws_sample_score :: nat
  ws_ewma_score_hundredths :: nat

datatype random_access_load = Starting | Low | Normal | Contention | Heavy

fun load_label :: "random_access_load \<Rightarrow> string" where
  "load_label Starting = ''Starting''"
| "load_label Low = ''Low''"
| "load_label Normal = ''Normal''"
| "load_label Contention = ''Contention''"
| "load_label Heavy = ''Heavy''"

record random_access_controller =
  config :: cfg_random_access
  current :: random_access_update
  first_attempts :: nat
  retry_attempts :: nat
  followup_attempts :: nat
  invalid_mac_access :: nat
  crc_failures :: nat
  recent_accesses :: "nat \<rightharpoonup> tdma_time"
  ewma_score_hundredths :: nat
  ewma_initialized :: bool
  last_window_stats :: "random_access_window_stats option"
  last_update :: "(nat \<times> nat) option"
  startup_grace_updates_remaining :: nat
  low_load_recovery_progress :: nat
  high_load_progress :: nat
  frame_factor_release_progress :: nat
  pending_registrations :: nat
  registration_delivery_failures :: nat
  last_load :: random_access_load

definition NOMINAL_IMM :: nat where "NOMINAL_IMM = 8"
definition NOMINAL_WT :: nat where "NOMINAL_WT = 5"
definition NOMINAL_NU :: nat where "NOMINAL_NU = 5"
definition NOMINAL_FRAME_LEN :: nat where "NOMINAL_FRAME_LEN = 4"
definition CONTENTION_IMM :: nat where "CONTENTION_IMM = 6"
definition CONTENTION_WT :: nat where "CONTENTION_WT = 6"
definition CONTENTION_FRAME_LEN :: nat where "CONTENTION_FRAME_LEN = 6"
definition HEAVY_IMM :: nat where "HEAVY_IMM = 2"
definition HEAVY_WT :: nat where "HEAVY_WT = 8"
definition HEAVY_FRAME_LEN :: nat where "HEAVY_FRAME_LEN = 8"

definition sat_add8 :: "nat \<Rightarrow> nat \<Rightarrow> nat" where "sat_add8 a b = min (a + b) 255"
definition sat_add16 :: "nat \<Rightarrow> nat \<Rightarrow> nat" where "sat_add16 a b = min (a + b) 65535"

definition clamp :: "nat \<Rightarrow> nat \<Rightarrow> nat \<Rightarrow> nat option" where
  "clamp x lo hi = do { guard (lo \<le> hi); Some (if x < lo then lo else if x > hi then hi else x) }"

definition clamp_update :: "cfg_random_access \<Rightarrow> random_access_update \<Rightarrow> random_access_update option" where
  "clamp_update cfg u = do {
     i \<leftarrow> clamp (imm (parameters u)) (imm_min cfg) (imm_max cfg);
     w \<leftarrow> clamp (wt (parameters u)) (wt_min cfg) (wt_max cfg);
     n \<leftarrow> clamp (nu (parameters u)) (nu_min cfg) (nu_max cfg);
     l \<leftarrow> clamp (frame_len u) (frame_len_min cfg) (frame_len_max cfg);
     Some (u\<lparr>parameters := (parameters u)\<lparr>imm := i, wt := w, nu := n\<rparr>, frame_len := l\<rparr>) }"

definition nominal_values :: random_access_update where
  "nominal_values = \<lparr>parameters = \<lparr>imm = NOMINAL_IMM, wt = NOMINAL_WT, nu = NOMINAL_NU,
     frame_len_factor = False, ts_pointer = 0, min_pdu_prio = 0\<rparr>, frame_len = NOMINAL_FRAME_LEN\<rparr>"

definition nominal_update :: "cfg_random_access \<Rightarrow> random_access_update option" where
  "nominal_update cfg = clamp_update cfg nominal_values"

definition new_controller :: "cfg_random_access \<Rightarrow> random_access_controller option" where
  "new_controller cfg = do {
     let controller = \<lparr>config = cfg, current = nominal_values, first_attempts = 0, retry_attempts = 0,
       followup_attempts = 0, invalid_mac_access = 0, crc_failures = 0, recent_accesses = Map.empty,
       ewma_score_hundredths = 0, ewma_initialized = False, last_window_stats = None, last_update = None,
       startup_grace_updates_remaining = startup_grace_multiframes cfg, low_load_recovery_progress = 0,
       high_load_progress = 0, frame_factor_release_progress = 0, pending_registrations = 0,
       registration_delivery_failures = 0, last_load = Starting\<rparr>;
     u \<leftarrow> clamp_update cfg nominal_values;
     Some (controller\<lparr>current := u\<rparr>) }"

definition reconfigure :: "random_access_controller \<Rightarrow> cfg_random_access \<Rightarrow> (random_access_update \<times> random_access_controller) option" where
  "reconfigure c cfg = do {
     let enabling = (\<not> enabled (config c) \<and> enabled cfg);
     let c = c\<lparr>config := cfg\<rparr>;
     c \<leftarrow> (if enabling then do {
         u \<leftarrow> nominal_update cfg;
         Some (c\<lparr>startup_grace_updates_remaining := startup_grace_multiframes cfg, low_load_recovery_progress := 0,
           high_load_progress := 0, frame_factor_release_progress := 0, current := u\<rparr>) }
       else do { u \<leftarrow> clamp_update cfg (current c); Some (c\<lparr>current := u\<rparr>) });
     let c = c\<lparr>last_update := None\<rparr>;
     Some (current c, c) }"

section \<open>Observations\<close>

definition retry_window_slots :: "random_access_controller \<Rightarrow> int" where
  "retry_window_slots c = int (retry_window_multiframes (config c)) * 18 * 4"

definition in_retry_window :: "random_access_controller \<Rightarrow> tdma_time \<Rightarrow> tdma_time \<Rightarrow> bool" where
  "in_retry_window c ts seen = (let age = diff ts seen in 0 \<le> age \<and> age \<le> retry_window_slots c)"

definition observe_access ::
  "random_access_controller \<Rightarrow> nat option \<Rightarrow> tdma_time \<Rightarrow> bool \<Rightarrow> bool \<Rightarrow> random_access_controller" where
  "observe_access c issi ts active registration_pending =
     (if active \<and> \<not> registration_pending then c\<lparr>followup_attempts := sat_add16 (followup_attempts c) 1\<rparr>
      else (let retry = (case Option.bind issi (recent_accesses c) of Some seen \<Rightarrow> in_retry_window c ts seen | None \<Rightarrow> False);
          c' = (if retry then c\<lparr>retry_attempts := sat_add16 (retry_attempts c) 1\<rparr>
                else c\<lparr>first_attempts := sat_add16 (first_attempts c) 1\<rparr>)
        in case issi of
             Some i \<Rightarrow> c'\<lparr>recent_accesses := (\<lambda>k. case recent_accesses c k of
                 Some seen \<Rightarrow> if in_retry_window c ts seen then Some seen else None | None \<Rightarrow> None)(i \<mapsto> ts)\<rparr>
           | None \<Rightarrow> c'))"

definition observe_invalid_mac_access :: "random_access_controller \<Rightarrow> random_access_controller" where
  "observe_invalid_mac_access c = c\<lparr>invalid_mac_access := sat_add16 (invalid_mac_access c) 1\<rparr>"

definition observe_crc_failure :: "random_access_controller \<Rightarrow> random_access_controller" where
  "observe_crc_failure c = c\<lparr>crc_failures := sat_add16 (crc_failures c) 1\<rparr>"

definition set_pending_registrations :: "random_access_controller \<Rightarrow> nat \<Rightarrow> random_access_controller" where
  "set_pending_registrations c pending = c\<lparr>pending_registrations := pending\<rparr>"

definition observe_registration_delivery_failures :: "random_access_controller \<Rightarrow> nat \<Rightarrow> random_access_controller" where
  "observe_registration_delivery_failures c failures =
     c\<lparr>registration_delivery_failures := sat_add16 (registration_delivery_failures c) failures\<rparr>"

section \<open>The periodic update\<close>

definition update_due :: "random_access_controller \<Rightarrow> tdma_time \<Rightarrow> bool" where
  "update_due c ts \<longleftrightarrow> \<not> (time_t ts \<noteq> 1 \<or> time_f ts \<noteq> 2)
     \<and> \<not> (u8_sub (time_m ts) 1 mod (max (update_interval_multiframes (config c)) 1) \<noteq> 0
          \<or> last_update c = Some (time_h ts, time_m ts))"

definition collision_indications :: "random_access_controller \<Rightarrow> nat" where
  "collision_indications c = sat_add16 (sat_add16 (retry_attempts c) (invalid_mac_access c)) (crc_failures c)"

definition urgent_contention :: "random_access_controller \<Rightarrow> bool" where
  "urgent_contention c \<longleftrightarrow> collision_indications c \<ge> 2 \<or> pending_registrations c \<ge> 2 \<or> registration_delivery_failures c > 0"

definition sample_score :: "random_access_controller \<Rightarrow> nat" where
  "sample_score c = (let retry_score = u32_add (u32_mul (retry_attempts c) (retry_weight_percent (config c))) 99 div 100
     in u32_add (u32_add (u32_add (u32_add (u32_add (first_attempts c) retry_score)
          (u32_mul (invalid_mac_access c) 2)) (u32_mul (crc_failures c) 2))
          (pending_registrations c)) (u32_mul (registration_delivery_failures c) 4))"

definition next_ewma :: "random_access_controller \<Rightarrow> nat \<Rightarrow> nat" where
  "next_ewma c sample = (let alpha = ewma_alpha_percent (config c) in
     if ewma_initialized c
     then u32_add (u32_mul (ewma_score_hundredths c) (u32_sub 100 alpha)) (u32_mul (u32_mul sample 100) alpha) div 100
     else u32_mul sample 100)"

definition window_stats :: "random_access_controller \<Rightarrow> nat \<Rightarrow> nat \<Rightarrow> random_access_window_stats" where
  "window_stats c sample ewma = \<lparr>ws_first_attempts = first_attempts c, ws_retry_attempts = retry_attempts c,
     ws_followup_attempts = followup_attempts c, ws_invalid_mac_access = invalid_mac_access c,
     ws_crc_failures = crc_failures c, ws_pending_registrations = pending_registrations c,
     ws_registration_delivery_failures = registration_delivery_failures c, ws_sample_score = sample,
     ws_ewma_score_hundredths = ewma\<rparr>"

definition classify_load :: "random_access_controller \<Rightarrow> nat \<Rightarrow> nat \<Rightarrow> random_access_load" where
  "classify_load c sample ewma = (let high = high_load_threshold (config c); low = low_load_threshold (config c);
       heavy_load = (sample \<ge> high \<or> ewma \<ge> u32_mul high 100 \<or> registration_delivery_failures c > 0);
       contention = (heavy_load \<or> collision_indications c \<ge> 2 \<or> pending_registrations c \<ge> 2);
       registration_backlog = (pending_registrations c > 0 \<or> retry_attempts c > 0 \<or> invalid_mac_access c > 0
         \<or> crc_failures c > 0 \<or> registration_delivery_failures c > 0);
       low_load = (\<not> contention \<and> \<not> registration_backlog \<and> sample \<le> low \<and> ewma \<le> u32_mul low 100)
     in if heavy_load then Heavy else if contention then Contention else if low_load then Low else Normal)"

definition reset_counters :: "random_access_controller \<Rightarrow> random_access_controller" where
  "reset_counters c = c\<lparr>first_attempts := 0, retry_attempts := 0, followup_attempts := 0, invalid_mac_access := 0,
     crc_failures := 0, registration_delivery_failures := 0\<rparr>"

definition apply_contention_target ::
  "random_access_controller \<Rightarrow> nat \<Rightarrow> nat \<Rightarrow> nat \<Rightarrow> random_access_controller option" where
  "apply_contention_target c i w l = do {
     let p = parameters (current c);
     target \<leftarrow> clamp_update (config c) \<lparr>parameters = \<lparr>imm = i, wt = w, nu = NOMINAL_NU,
       frame_len_factor = frame_len_factor p, ts_pointer = ts_pointer p, min_pdu_prio = min_pdu_prio p\<rparr>, frame_len = l\<rparr>;
     let t = parameters target;
     Some (c\<lparr>current := (current c)\<lparr>parameters := p\<lparr>imm := min (imm p) (imm t), wt := max (wt p) (wt t), nu := nu t\<rparr>,
       frame_len := max (frame_len (current c)) (frame_len target)\<rparr>\<rparr>) }"

text \<open>The four branches that follow the classification.\<close>

definition adjust_heavy :: "random_access_controller \<Rightarrow> nat \<Rightarrow> random_access_controller option" where
  "adjust_heavy c sample = do {
     let c = c\<lparr>high_load_progress := (if sample \<ge> high_load_threshold (config c) \<or> registration_delivery_failures c > 0
         then sat_add8 (high_load_progress c) 1 else 0),
       low_load_recovery_progress := 0, frame_factor_release_progress := 0\<rparr>;
     c \<leftarrow> apply_contention_target c HEAVY_IMM HEAVY_WT HEAVY_FRAME_LEN;
     Some (if high_load_progress c \<ge> frame_factor_activation_windows (config c) \<and> frame_len (current c) \<ge> frame_len_max (config c)
       then c\<lparr>current := (current c)\<lparr>parameters := (parameters (current c))\<lparr>frame_len_factor := True\<rparr>\<rparr>\<rparr> else c) }"

definition adjust_contention :: "random_access_controller \<Rightarrow> random_access_controller option" where
  "adjust_contention c = apply_contention_target
     (c\<lparr>high_load_progress := 0, low_load_recovery_progress := 0, frame_factor_release_progress := 0\<rparr>)
     CONTENTION_IMM CONTENTION_WT CONTENTION_FRAME_LEN"

definition recovery_step :: "random_access_controller \<Rightarrow> random_access_controller option" where
  "recovery_step c = do {
     nominal \<leftarrow> nominal_update (config c);
     let p = parameters (current c);
     let n = parameters nominal;
     Some (c\<lparr>low_load_recovery_progress := 0,
       current := (current c)\<lparr>parameters := p\<lparr>imm := min (sat_add8 (imm p) 1) (imm n), wt := max (wt p - 1) (wt n), nu := nu n\<rparr>,
         frame_len := max (frame_len (current c) - 1) (frame_len nominal)\<rparr>\<rparr>) }"

definition adjust_low :: "random_access_controller \<Rightarrow> random_access_controller option" where
  "adjust_low c = do {
     let c = c\<lparr>high_load_progress := 0, low_load_recovery_progress := sat_add8 (low_load_recovery_progress c) 1\<rparr>;
     c \<leftarrow> (if low_load_recovery_progress c \<ge> recovery_step_multiframes (config c) then recovery_step c else Some c);
     let c = c\<lparr>frame_factor_release_progress := sat_add8 (frame_factor_release_progress c) 1\<rparr>;
     Some (if frame_factor_release_progress c \<ge> frame_factor_release_windows (config c)
       then c\<lparr>current := (current c)\<lparr>parameters := (parameters (current c))\<lparr>frame_len_factor := False\<rparr>\<rparr>\<rparr> else c) }"

definition adjust_normal :: "random_access_controller \<Rightarrow> random_access_controller option" where
  "adjust_normal c = Some (c\<lparr>high_load_progress := 0, low_load_recovery_progress := 0, frame_factor_release_progress := 0\<rparr>)"

definition adjust :: "random_access_controller \<Rightarrow> random_access_load \<Rightarrow> nat \<Rightarrow> random_access_controller option" where
  "adjust c load sample = (case load of Heavy \<Rightarrow> adjust_heavy c sample | Contention \<Rightarrow> adjust_contention c
     | Low \<Rightarrow> adjust_low c | _ \<Rightarrow> adjust_normal c)"

definition measure_window :: "random_access_controller \<Rightarrow> nat \<times> random_access_controller" where
  "measure_window c = (let sample = sample_score c; ewma = next_ewma c sample in
     (sample, c\<lparr>ewma_score_hundredths := ewma, ewma_initialized := True,
        last_window_stats := Some (window_stats c sample ewma), last_load := classify_load c sample ewma\<rparr>))"

definition maybe_update ::
  "random_access_controller \<Rightarrow> tdma_time \<Rightarrow> (random_access_update option \<times> random_access_controller) option" where
  "maybe_update c ts =
     (if \<not> update_due c ts then Some (None, c)
      else (let c = c\<lparr>last_update := Some (time_h ts, time_m ts)\<rparr> in
       if enabled (config c) \<and> startup_grace_updates_remaining c > 0 \<and> \<not> urgent_contention c
       then Some (None, c\<lparr>startup_grace_updates_remaining := startup_grace_updates_remaining c - 1\<rparr>)
       else do {
         let c = (if urgent_contention c then c\<lparr>startup_grace_updates_remaining := 0\<rparr> else c);
         let (sample, c) = measure_window c;
         if \<not> enabled (config c) then Some (None, reset_counters c)
         else do {
           let previous = current c;
           c \<leftarrow> adjust c (last_load c) sample;
           u \<leftarrow> clamp_update (config c) (current c);
           let c = reset_counters (c\<lparr>current := u\<rparr>);
           Some (if current c \<noteq> previous then Some (current c) else None, c) } }))"


section \<open>Limits\<close>

definition limits_ok :: "cfg_random_access \<Rightarrow> bool" where
  "limits_ok c \<longleftrightarrow> imm_min c \<le> imm_max c \<and> wt_min c \<le> wt_max c \<and> nu_min c \<le> nu_max c \<and> frame_len_min c \<le> frame_len_max c"

definition within_limits :: "cfg_random_access \<Rightarrow> random_access_update \<Rightarrow> bool" where
  "within_limits c u \<longleftrightarrow> imm (parameters u) \<in> {imm_min c..imm_max c} \<and> wt (parameters u) \<in> {wt_min c..wt_max c}
     \<and> nu (parameters u) \<in> {nu_min c..nu_max c} \<and> frame_len u \<in> {frame_len_min c..frame_len_max c}"

definition into :: "nat \<Rightarrow> nat \<Rightarrow> nat \<Rightarrow> nat" where "into lo hi x = max lo (min hi x)"

lemma cfg_valid_limits: "cfg_valid c \<Longrightarrow> limits_ok c"
  by (auto simp: cfg_valid_def limits_ok_def)

lemma clamp_into: "lo \<le> hi \<Longrightarrow> clamp x lo hi = Some (into lo hi x)"
  by (auto simp: clamp_def into_def)

lemma into_bounds: "lo \<le> hi \<Longrightarrow> lo \<le> into lo hi x \<and> into lo hi x \<le> hi"
  by (auto simp: into_def)

lemma into_id: "\<lbrakk>lo \<le> x; x \<le> hi\<rbrakk> \<Longrightarrow> into lo hi x = x"
  by (auto simp: into_def)

definition clamped :: "cfg_random_access \<Rightarrow> random_access_update \<Rightarrow> random_access_update" where
  "clamped c u = u\<lparr>parameters := (parameters u)\<lparr>imm := into (imm_min c) (imm_max c) (imm (parameters u)),
     wt := into (wt_min c) (wt_max c) (wt (parameters u)), nu := into (nu_min c) (nu_max c) (nu (parameters u))\<rparr>,
     frame_len := into (frame_len_min c) (frame_len_max c) (frame_len u)\<rparr>"

lemma clamp_update_clamped: "limits_ok c \<Longrightarrow> clamp_update c u = Some (clamped c u)"
  by (simp add: clamp_update_def limits_ok_def clamp_into clamped_def)

lemma clamped_within: "limits_ok c \<Longrightarrow> within_limits c (clamped c u)"
  by (simp add: within_limits_def clamped_def limits_ok_def into_bounds)

lemma clamped_id: "within_limits c u \<Longrightarrow> clamped c u = u"
  by (cases u; cases "parameters u") (simp add: within_limits_def clamped_def into_id)

lemma clamped_rest [simp]:
  "frame_len_factor (parameters (clamped c u)) = frame_len_factor (parameters u)"
  "ts_pointer (parameters (clamped c u)) = ts_pointer (parameters u)"
  "min_pdu_prio (parameters (clamped c u)) = min_pdu_prio (parameters u)"
  by (simp_all add: clamped_def)

text \<open>The invariant: a checked configuration, parameters inside its limits, the two fields that the
  controller never drives at zero.\<close>

definition ra_inv :: "random_access_controller \<Rightarrow> bool" where
  "ra_inv c \<longleftrightarrow> cfg_valid (config c) \<and> within_limits (config c) (current c)
     \<and> ts_pointer (parameters (current c)) = 0 \<and> min_pdu_prio (parameters (current c)) = 0"

lemma ra_inv_limits: "ra_inv c \<Longrightarrow> limits_ok (config c)"
  by (simp add: ra_inv_def cfg_valid_limits)

definition tightened :: "random_access_controller \<Rightarrow> nat \<Rightarrow> nat \<Rightarrow> nat \<Rightarrow> random_access_update" where
  "tightened c i w l = (let g = config c; p = parameters (current c) in
     (current c)\<lparr>parameters := p\<lparr>imm := min (imm p) (into (imm_min g) (imm_max g) i),
        wt := max (wt p) (into (wt_min g) (wt_max g) w), nu := into (nu_min g) (nu_max g) NOMINAL_NU\<rparr>,
        frame_len := max (frame_len (current c)) (into (frame_len_min g) (frame_len_max g) l)\<rparr>)"

lemma apply_contention_target_tightened:
  "limits_ok (config c) \<Longrightarrow> apply_contention_target c i w l = Some (c\<lparr>current := tightened c i w l\<rparr>)"
  by (simp add: apply_contention_target_def clamp_update_clamped tightened_def clamped_def Let_def)

lemma tightened_within:
  assumes "limits_ok (config c)" and "within_limits (config c) (current c)"
  shows "within_limits (config c) (tightened c i w l)"
proof -
  have le: "lo \<le> into lo hi x" "lo \<le> hi \<Longrightarrow> into lo hi x \<le> hi" for lo hi x :: nat
    by (simp_all add: into_def)
  show ?thesis using assms
    by (simp add: within_limits_def tightened_def limits_ok_def Let_def le min.coboundedI1 max.coboundedI1)
qed

lemma tightened_progress [simp]:
  "tightened (c\<lparr>high_load_progress := a, low_load_recovery_progress := b, frame_factor_release_progress := d\<rparr>) i w l
    = tightened c i w l"
  by (simp add: tightened_def)

lemma tightened_rest [simp]:
  "frame_len_factor (parameters (tightened c i w l)) = frame_len_factor (parameters (current c))"
  "ts_pointer (parameters (tightened c i w l)) = ts_pointer (parameters (current c))"
  "min_pdu_prio (parameters (tightened c i w l)) = min_pdu_prio (parameters (current c))"
  by (simp_all add: tightened_def Let_def)

section \<open>Every branch keeps the invariant\<close>

lemma within_factor [simp]:
  "within_limits g (u\<lparr>parameters := (parameters u)\<lparr>frame_len_factor := b\<rparr>\<rparr>) = within_limits g u"
  by (simp add: within_limits_def)

lemma adjust_heavy_inv: "ra_inv c \<Longrightarrow> \<exists>c'. adjust_heavy c s = Some c' \<and> ra_inv c' \<and> config c' = config c"
  using ra_inv_limits [of c]
  by (auto simp: adjust_heavy_def apply_contention_target_tightened ra_inv_def tightened_within)

lemma adjust_contention_inv: "ra_inv c \<Longrightarrow> \<exists>c'. adjust_contention c = Some c' \<and> ra_inv c' \<and> config c' = config c"
  using ra_inv_limits [of c]
  by (auto simp: adjust_contention_def apply_contention_target_tightened ra_inv_def tightened_within)

definition relaxed :: "random_access_controller \<Rightarrow> random_access_update" where
  "relaxed c = (let p = parameters (current c); u = clamped (config c) nominal_values; n = parameters u in
     (current c)\<lparr>parameters := p\<lparr>imm := min (sat_add8 (imm p) 1) (imm n), wt := max (wt p - 1) (wt n), nu := nu n\<rparr>,
       frame_len := max (frame_len (current c) - 1) (frame_len u)\<rparr>)"

lemma recovery_step_relaxed:
  "limits_ok (config c) \<Longrightarrow> recovery_step c = Some (c\<lparr>low_load_recovery_progress := 0, current := relaxed c\<rparr>)"
  by (simp add: recovery_step_def nominal_update_def clamp_update_clamped relaxed_def Let_def)

lemma relaxed_within:
  assumes "ra_inv c"
  shows "within_limits (config c) (relaxed c)"
proof -
  have "within_limits (config c) (clamped (config c) nominal_values)" by (rule clamped_within [OF ra_inv_limits [OF assms]])
  moreover have "imm_max (config c) \<le> 15" using assms by (simp add: ra_inv_def cfg_valid_def)
  ultimately show ?thesis using assms
    by (auto simp: ra_inv_def within_limits_def relaxed_def Let_def sat_add8_def)
qed

lemma relaxed_rest [simp]:
  "frame_len_factor (parameters (relaxed c)) = frame_len_factor (parameters (current c))"
  "ts_pointer (parameters (relaxed c)) = ts_pointer (parameters (current c))"
  "min_pdu_prio (parameters (relaxed c)) = min_pdu_prio (parameters (current c))"
  by (simp_all add: relaxed_def Let_def)

lemma relaxed_progress [simp]: "relaxed (c\<lparr>high_load_progress := a, low_load_recovery_progress := b\<rparr>) = relaxed c"
  by (simp add: relaxed_def)

lemma adjust_low_eq:
  assumes "limits_ok (config c)"
  shows "adjust_low c = Some (let p = sat_add8 (low_load_recovery_progress c) 1; q = sat_add8 (frame_factor_release_progress c) 1;
      r = (p \<ge> recovery_step_multiframes (config c)); u = (if r then relaxed c else current c)
    in c\<lparr>high_load_progress := 0, low_load_recovery_progress := (if r then 0 else p), frame_factor_release_progress := q,
         current := (if q \<ge> frame_factor_release_windows (config c)
            then u\<lparr>parameters := (parameters u)\<lparr>frame_len_factor := False\<rparr>\<rparr> else u)\<rparr>)"
  using assms by (simp add: adjust_low_def recovery_step_relaxed Let_def)

lemma adjust_low_inv: "ra_inv c \<Longrightarrow> \<exists>c'. adjust_low c = Some c' \<and> ra_inv c' \<and> config c' = config c"
  using relaxed_within [of c] by (simp add: adjust_low_eq ra_inv_limits Let_def) (simp add: ra_inv_def)

lemma adjust_inv: "ra_inv c \<Longrightarrow> \<exists>c'. adjust c load s = Some c' \<and> ra_inv c' \<and> config c' = config c"
  using adjust_heavy_inv adjust_contention_inv adjust_low_inv
  by (cases load) (auto simp: adjust_def adjust_normal_def ra_inv_def)

lemma ra_inv_more [simp]:
  "ra_inv (c\<lparr>last_update := l\<rparr>) = ra_inv c"
  "ra_inv (c\<lparr>startup_grace_updates_remaining := g\<rparr>) = ra_inv c"
  "ra_inv (reset_counters c) = ra_inv c"
  "ra_inv (snd (measure_window c)) = ra_inv c"
  "config (reset_counters c) = config c"
  "config (snd (measure_window c)) = config c"
  "current (reset_counters c) = current c"
  "current (snd (measure_window c)) = current c"
  by (simp_all add: ra_inv_def reset_counters_def measure_window_def Let_def)

text \<open>An update that is due and past the start-up grace, in closed form.\<close>

definition measured :: "random_access_controller \<Rightarrow> tdma_time \<Rightarrow> random_access_controller" where
  "measured c ts = (let c = c\<lparr>last_update := Some (time_h ts, time_m ts)\<rparr> in
     snd (measure_window (if urgent_contention c then c\<lparr>startup_grace_updates_remaining := 0\<rparr> else c)))"

lemma urgent_more [simp]:
  "urgent_contention (c\<lparr>last_update := l\<rparr>) = urgent_contention c"
  by (simp add: urgent_contention_def collision_indications_def)

lemma sample_more [simp]:
  "sample_score (c\<lparr>last_update := l\<rparr>) = sample_score c"
  "sample_score (c\<lparr>startup_grace_updates_remaining := g\<rparr>) = sample_score c"
  by (simp_all add: sample_score_def)

lemma fst_measure: "fst (measure_window c) = sample_score c"
  by (simp add: measure_window_def Let_def)

lemma maybe_update_measured:
  assumes "ra_inv c" and "update_due c ts" and "enabled (config c)"
    and "startup_grace_updates_remaining c = 0 \<or> urgent_contention c"
  obtains c1 where "adjust (measured c ts) (last_load (measured c ts)) (sample_score c) = Some c1" "ra_inv c1"
    "config c1 = config c"
    "maybe_update c ts = Some (if current c1 \<noteq> current c then Some (current c1) else None, reset_counters c1)"
proof -
  let ?m = "measured c ts"
  have m: "ra_inv ?m" "config ?m = config c" "current ?m = current c"
    using assms(1) by (simp_all add: measured_def Let_def)
  obtain c1 where c1: "adjust ?m (last_load ?m) (sample_score c) = Some c1" "ra_inv c1" "config c1 = config c"
    using adjust_inv [OF m(1), of "last_load ?m" "sample_score c"] m(2) by auto
  have cl: "clamp_update (config c1) (current c1) = Some (current c1)"
    using c1(2) clamped_id by (simp add: clamp_update_clamped ra_inv_limits) (simp add: ra_inv_def)
  have *: "\<not> (enabled (config c) \<and> startup_grace_updates_remaining c > 0 \<and> \<not> urgent_contention c)"
    using assms(4) by auto
  have "maybe_update c ts = Some (if current c1 \<noteq> current c then Some (current c1) else None, reset_counters c1)"
  proof (cases "current c1 = current c")
    case True
    have eq: "c1\<lparr>current := current c\<rparr> = c1" by (simp flip: True)
    have "clamp_update (config c1) (current c) = Some (current c)" using cl True by simp
    with True * assms(2,3) c1(1) m(2,3) show ?thesis
      by (simp add: maybe_update_def measured_def Let_def split_beta fst_measure eq split: if_splits)
  next
    case False
    with cl * assms(2,3) c1(1) m(2,3) show ?thesis
      by (simp add: maybe_update_def measured_def Let_def split_beta fst_measure split: if_splits)
  qed
  then show thesis using c1 that by blast
qed

lemma maybe_update_grace:
  assumes "update_due c ts" and "enabled (config c)" and "startup_grace_updates_remaining c > 0" and "\<not> urgent_contention c"
  shows "maybe_update c ts = Some (None, c\<lparr>last_update := Some (time_h ts, time_m ts),
    startup_grace_updates_remaining := startup_grace_updates_remaining c - 1\<rparr>)"
  using assms by (simp add: maybe_update_def Let_def)

lemma maybe_update_total:
  assumes "ra_inv c"
  obtains r c' where "maybe_update c ts = Some (r, c')" "ra_inv c'" "config c' = config c"
proof -
  consider "\<not> update_due c ts" | "update_due c ts" "\<not> enabled (config c)"
    | "update_due c ts" "enabled (config c)" "startup_grace_updates_remaining c > 0" "\<not> urgent_contention c"
    | "update_due c ts" "enabled (config c)" "startup_grace_updates_remaining c = 0 \<or> urgent_contention c"
    by auto
  then show thesis
  proof cases
    case 2
    with that show ?thesis using assms by (cases "urgent_contention c") (simp_all add: maybe_update_def Let_def split_beta)
  next
    case 4
    from maybe_update_measured [OF assms 4] obtain c1 where "ra_inv c1" "config c1 = config c"
      "maybe_update c ts = Some (if current c1 \<noteq> current c then Some (current c1) else None, reset_counters c1)" .
    then show ?thesis using that [of _ "reset_counters c1"] by simp
  qed (use that assms maybe_update_grace in \<open>simp_all add: maybe_update_def\<close>)
qed

lemma reconfigure_total:
  assumes "ra_inv c" and "cfg_valid g"
  obtains c' where "reconfigure c g = Some (current c', c')" "ra_inv c'" "config c' = g"
proof -
  have l: "limits_ok g" by (rule cfg_valid_limits [OF assms(2)])
  have "\<exists>c'. reconfigure c g = Some (current c', c') \<and> ra_inv c' \<and> config c' = g"
    using assms clamped_within [OF l]
    by (auto simp: reconfigure_def nominal_update_def clamp_update_clamped [OF l] ra_inv_def Let_def nominal_values_def)
  then show thesis using that by blast
qed

section \<open>Reachable controllers\<close>

inductive ra_step :: "random_access_controller \<Rightarrow> random_access_controller \<Rightarrow> bool" where
  "ra_step c (observe_access c issi ts active pending)"
| "ra_step c (observe_invalid_mac_access c)"
| "ra_step c (observe_crc_failure c)"
| "ra_step c (set_pending_registrations c n)"
| "ra_step c (observe_registration_delivery_failures c n)"
| "maybe_update c ts = Some (r, c') \<Longrightarrow> ra_step c c'"
| "cfg_valid g \<Longrightarrow> reconfigure c g = Some (u, c') \<Longrightarrow> ra_step c c'"

inductive ra_reachable :: "random_access_controller \<Rightarrow> bool" where
  start: "cfg_valid g \<Longrightarrow> new_controller g = Some c \<Longrightarrow> ra_reachable c"
| step: "ra_reachable c \<Longrightarrow> ra_step c c' \<Longrightarrow> ra_reachable c'"

inductive_cases ra_stepE: "ra_step c c'"

lemma ra_inv_observations [simp]:
  "ra_inv (observe_access c issi ts active pending) = ra_inv c"
  "ra_inv (observe_invalid_mac_access c) = ra_inv c"
  "ra_inv (observe_crc_failure c) = ra_inv c"
  "ra_inv (set_pending_registrations c n) = ra_inv c"
  "ra_inv (observe_registration_delivery_failures c n) = ra_inv c"
  by (simp_all add: ra_inv_def observe_access_def observe_invalid_mac_access_def observe_crc_failure_def
      set_pending_registrations_def observe_registration_delivery_failures_def Let_def split: option.splits)

lemma ra_inv_step: "ra_step c c' \<Longrightarrow> ra_inv c \<Longrightarrow> ra_inv c'"
  by (erule ra_stepE)
     (simp_all, (metis maybe_update_total option.inject prod.inject), (metis reconfigure_total option.inject prod.inject))

lemma ra_inv_new: "cfg_valid g \<Longrightarrow> new_controller g = Some c \<Longrightarrow> ra_inv c"
  using cfg_valid_limits [of g] clamped_within [of g nominal_values]
  by (auto simp: new_controller_def clamp_update_clamped ra_inv_def nominal_values_def Let_def)

lemma ra_inv_reachable: "ra_reachable c \<Longrightarrow> ra_inv c"
  by (induction rule: ra_reachable.induct) (auto intro: ra_inv_new ra_inv_step)

section \<open>Bounded scores\<close>

definition counters_below :: "nat \<Rightarrow> random_access_controller \<Rightarrow> bool" where
  "counters_below B c \<longleftrightarrow> first_attempts c \<le> B \<and> retry_attempts c \<le> B \<and> invalid_mac_access c \<le> B \<and> crc_failures c \<le> B
     \<and> pending_registrations c \<le> B \<and> registration_delivery_failures c \<le> B"

definition exact_score :: "random_access_controller \<Rightarrow> nat" where
  "exact_score c = first_attempts c + (retry_attempts c * retry_weight_percent (config c) + 99) div 100
     + 2 * invalid_mac_access c + 2 * crc_failures c + pending_registrations c + 4 * registration_delivery_failures c"

lemma sample_score_exact:
  assumes "counters_below 20000 c" and "cfg_valid (config c)"
  shows "sample_score c = exact_score c" and "exact_score c \<le> 220000"
proof -
  have w: "retry_weight_percent (config c) \<le> 100" using assms(2) by (simp add: cfg_valid_def)
  have p: "retry_attempts c * retry_weight_percent (config c) \<le> 20000 * 100"
    using assms(1) w by (intro mult_le_mono) (simp_all add: counters_below_def)
  then have d: "(retry_attempts c * retry_weight_percent (config c) + 99) div 100 \<le> 20000" by linarith
  show "sample_score c = exact_score c" and "exact_score c \<le> 220000"
    using assms(1) p d by (simp_all add: sample_score_def exact_score_def counters_below_def wrap_simps Let_def)
qed

lemma weighted_mean:
  fixes x y a :: nat
  assumes "a \<le> 100"
  shows "min x y \<le> (x * (100 - a) + y * a) div 100" and "(x * (100 - a) + y * a) div 100 \<le> max x y"
proof -
  have s: "(100 - a) + a = 100" using assms by simp
  have "min x y * (100 - a) + min x y * a \<le> x * (100 - a) + y * a" by (intro add_mono mult_le_mono) simp_all
  moreover have "x * (100 - a) + y * a \<le> max x y * (100 - a) + max x y * a" by (intro add_mono mult_le_mono) simp_all
  moreover have m: "m * (100 - a) + m * a = m * 100" for m using s by (metis distrib_left)
  ultimately have "min x y * 100 \<le> x * (100 - a) + y * a" "x * (100 - a) + y * a \<le> max x y * 100"
    by (simp_all only: m)
  then show "min x y \<le> (x * (100 - a) + y * a) div 100" "(x * (100 - a) + y * a) div 100 \<le> max x y"
    using div_le_mono [of "min x y * 100" _ 100] div_le_mono [of _ "max x y * 100" 100] by simp_all
qed

lemma next_ewma_mean:
  assumes "cfg_valid (config c)" and "ewma_initialized c" and "s \<le> 220000" and "ewma_score_hundredths c \<le> 22000000"
  shows "next_ewma c s = (ewma_score_hundredths c * (100 - ewma_alpha_percent (config c)) + s * 100 * ewma_alpha_percent (config c)) div 100"
proof -
  let ?a = "ewma_alpha_percent (config c)" and ?e = "ewma_score_hundredths c"
  have a: "?a \<le> 100" using assms(1) by (simp add: cfg_valid_def)
  have "?e * (100 - ?a) + s * 100 * ?a \<le> 22000000 * (100 - ?a) + 22000000 * ?a"
    using assms(3,4) by (intro add_mono mult_le_mono) simp_all
  also have "\<dots> = 2200000000" using a by (simp flip: distrib_left)
  finally have b: "?e * (100 - ?a) + s * 100 * ?a \<le> 2200000000" .
  then show ?thesis using a assms(2,3) by (simp add: next_ewma_def Let_def wrap_simps)
qed

section \<open>Quiet windows\<close>

text \<open>
  Without any observation between updates, the smoothed score falls in every window once the
  start-up grace is over, and then every window is classified as low load. \<open>settling\<close> bounds the
  number of windows until then and \<open>deviation\<close> the number of windows from then until the
  parameters are the nominal ones.
\<close>

definition quiet :: "random_access_controller \<Rightarrow> bool" where
  "quiet c \<longleftrightarrow> first_attempts c = 0 \<and> retry_attempts c = 0 \<and> invalid_mac_access c = 0 \<and> crc_failures c = 0
     \<and> pending_registrations c = 0 \<and> registration_delivery_failures c = 0"

definition settling :: "random_access_controller \<Rightarrow> nat" where
  "settling c = startup_grace_updates_remaining c + (if ewma_initialized c then ewma_score_hundredths c else 0)"

definition gap :: "nat \<Rightarrow> nat \<Rightarrow> nat \<Rightarrow> nat \<Rightarrow> nat \<Rightarrow> nat \<Rightarrow> nat \<Rightarrow> nat \<Rightarrow> nat" where
  "gap i w u l i' w' u' l' = (if i = i' \<and> w = w' \<and> u = u' \<and> l = l' then 0 else 1 + (i' - i) + (w - w') + (l - l'))"

definition parameter_distance :: "random_access_controller \<Rightarrow> nat" where
  "parameter_distance c = (let p = parameters (current c); u = clamped (config c) nominal_values; n = parameters u in
     gap (imm p) (wt p) (nu p) (frame_len (current c)) (imm n) (wt n) (nu n) (frame_len u))"

definition deviation :: "random_access_controller \<Rightarrow> nat" where
  "deviation c = (if parameter_distance c = 0 then 0 else 61 * parameter_distance c + (60 - low_load_recovery_progress c))
     + (if frame_len_factor (parameters (current c)) then 61 - min (frame_factor_release_progress c) 60 else 0)"

lemma quiet_score: "quiet c \<Longrightarrow> sample_score c = 0"
  by (simp add: quiet_def sample_score_def u32_add_def u32_mul_def)

lemma quiet_not_urgent: "quiet c \<Longrightarrow> \<not> urgent_contention c"
  by (simp add: quiet_def urgent_contention_def collision_indications_def sat_add16_def)

lemma quiet_ewma:
  assumes "cfg_valid (config c)"
  shows "next_ewma c 0 \<le> (if ewma_initialized c then ewma_score_hundredths c else 0) - 1"
proof (cases "ewma_initialized c")
  case True
  let ?a = "ewma_alpha_percent (config c)" and ?e = "ewma_score_hundredths c"
  have a: "1 \<le> ?a" "?a \<le> 100" using assms by (simp_all add: cfg_valid_def)
  have "next_ewma c 0 \<le> ?e * (100 - ?a) div 100"
    using True a by (simp add: next_ewma_def u32_add_def u32_mul_def u32_sub_id div_le_mono)
  also have "\<dots> \<le> ?e * 99 div 100" using a by (intro div_le_mono mult_le_mono) simp_all
  also have "\<dots> \<le> ?e - 1" by (cases "?e = 0") linarith+
  finally show ?thesis using True by simp
qed (simp add: next_ewma_def u32_mul_def)

lemma gap_step:
  "gap (min (i + 1) i') (max (w - 1) w') u' (max (l - 1) l') i' w' u' l' \<le> gap i w u l i' w' u' l' - 1"
proof -
  have i: "i' - min (i + 1) i' = i' - i - 1" and w: "max (w - 1) w' - w' = w - w' - 1" and l: "max (l - 1) l' - l' = l - l' - 1"
    by linarith+
  show ?thesis
  proof (cases "i' \<le> i \<and> w \<le> w' \<and> l \<le> l'")
    case True
    then have "min (i + 1) i' = i'" "max (w - 1) w' = w'" "max (l - 1) l' = l'" by linarith+
    then show ?thesis by (simp add: gap_def)
  next
    case False
    then have *: "(i' - i - 1) + (w - w' - 1) + (l - l' - 1) + 1 \<le> (i' - i) + (w - w') + (l - l')" by linarith
    have "gap (min (i + 1) i') (max (w - 1) w') u' (max (l - 1) l') i' w' u' l' \<le> 1 + (i' - i - 1) + (w - w' - 1) + (l - l' - 1)"
      unfolding gap_def i w l by (simp only: split: if_split) simp
    moreover have "gap i w u l i' w' u' l' = 1 + (i' - i) + (w - w') + (l - l')" using False by (auto simp: gap_def)
    ultimately show ?thesis using * by (simp only: le_diff_conv2)
  qed
qed

lemma relaxed_distance:
  assumes "ra_inv c"
  shows "parameter_distance (c\<lparr>current := relaxed c\<rparr>) \<le> parameter_distance c - 1"
proof -
  have "imm (parameters (current c)) \<le> 15" using assms by (auto simp: ra_inv_def cfg_valid_def within_limits_def)
  then show ?thesis using gap_step by (simp add: parameter_distance_def relaxed_def Let_def sat_add8_def)
qed

lemma parameter_distance_more [simp]:
  "parameter_distance (c\<lparr>high_load_progress := a, low_load_recovery_progress := b, frame_factor_release_progress := d,
     current := u\<rparr>) = parameter_distance (c\<lparr>current := u\<rparr>)"
  "parameter_distance (c\<lparr>current := u\<lparr>parameters := (parameters u)\<lparr>frame_len_factor := f\<rparr>\<rparr>\<rparr>)
     = parameter_distance (c\<lparr>current := u\<rparr>)"
  by (simp_all add: parameter_distance_def Let_def)

lemma parameter_distance_bound: "ra_inv c \<Longrightarrow> parameter_distance c \<le> 46"
  using clamped_within [OF ra_inv_limits, of c nominal_values]
  by (auto simp: parameter_distance_def gap_def Let_def ra_inv_def cfg_valid_def within_limits_def)

lemma deviation_bound: "ra_inv c \<Longrightarrow> deviation c \<le> 2927"
  using parameter_distance_bound [of c] by (auto simp: deviation_def)

text \<open>One window of low load: the deviation falls until it is zero, and then stays there.\<close>

lemma adjust_low_deviation:
  assumes "ra_inv c" and "adjust_low c = Some c'"
  shows "deviation c' \<le> deviation c - 1"
proof -
  let ?p = "sat_add8 (low_load_recovery_progress c) 1" and ?q = "sat_add8 (frame_factor_release_progress c) 1"
  let ?r = "?p \<ge> recovery_step_multiframes (config c)" and ?u = "frame_factor_release_windows (config c) \<le> ?q"
  let ?D = "parameter_distance c" and ?D' = "parameter_distance c'"
  have l: "limits_ok (config c)" and cfg: "recovery_step_multiframes (config c) \<le> 60" "frame_factor_release_windows (config c) \<le> 60"
    using assms(1) by (simp_all add: ra_inv_limits) (simp_all add: ra_inv_def cfg_valid_def)
  have c': "c' = c\<lparr>high_load_progress := 0, low_load_recovery_progress := (if ?r then 0 else ?p), frame_factor_release_progress := ?q,
      current := (if ?u then (if ?r then relaxed c else current c)\<lparr>parameters :=
        (parameters (if ?r then relaxed c else current c))\<lparr>frame_len_factor := False\<rparr>\<rparr> else (if ?r then relaxed c else current c))\<rparr>"
    using assms(2) unfolding adjust_low_eq [OF l] Let_def option.inject by (rule sym)
  have D': "?D' \<le> (if ?r then ?D - 1 else ?D)"
    using relaxed_distance [OF assms(1)] by (auto simp: c')
  have D: "?D' = ?D" if "\<not> ?r" using that by (simp add: c')
  have p': "low_load_recovery_progress c' = (if ?r then 0 else ?p)" and q': "frame_factor_release_progress c' = ?q"
    and f': "frame_len_factor (parameters (current c')) \<longleftrightarrow> frame_len_factor (parameters (current c)) \<and> \<not> ?u"
    by (simp_all add: c')
  have A: "(if ?D' = 0 then 0 else 61 * ?D' + (60 - low_load_recovery_progress c'))
      \<le> (if ?D = 0 then 0 else 61 * ?D + (60 - low_load_recovery_progress c)) - 1"
  proof (cases ?r)
    case True
    then show ?thesis using D' p' by (cases "?D = 0") auto
  next
    case False
    then have "low_load_recovery_progress c < 59" using cfg(1) by (simp add: sat_add8_def)
    then show ?thesis using D [OF False] p' False by (auto simp: sat_add8_def)
  qed
  have F: "(if frame_len_factor (parameters (current c')) then 61 - min (frame_factor_release_progress c') 60 else 0)
      \<le> (if frame_len_factor (parameters (current c)) then 61 - min (frame_factor_release_progress c) 60 else 0) - 1"
    using cfg(2) by (auto simp: f' q' sat_add8_def)
  show ?thesis using A F unfolding deviation_def by linarith
qed

lemma adjust_keeps:
  assumes "ra_inv c" and "adjust c load s = Some c'"
  shows "ewma_score_hundredths c' = ewma_score_hundredths c \<and> ewma_initialized c' = ewma_initialized c
    \<and> startup_grace_updates_remaining c' = startup_grace_updates_remaining c \<and> pending_registrations c' = pending_registrations c
    \<and> last_update c' = last_update c"
proof (cases load)
  case Low
  show ?thesis using assms(2) [symmetric] by (simp add: Low adjust_def adjust_low_eq [OF ra_inv_limits [OF assms(1)]] Let_def)
next
  case Heavy
  show ?thesis using assms(2) [symmetric] ra_inv_limits [OF assms(1)]
    by (simp add: Heavy adjust_def adjust_heavy_def apply_contention_target_tightened)
next
  case Contention
  show ?thesis using assms(2) [symmetric] ra_inv_limits [OF assms(1)]
    by (simp add: Contention adjust_def adjust_contention_def apply_contention_target_tightened)
qed (use assms(2) in \<open>auto simp: adjust_def adjust_normal_def\<close>)

text \<open>One update in a quiet window.\<close>

lemma deviation_more [simp]:
  "deviation (reset_counters c) = deviation c"
  "deviation (measured c ts) = deviation c"
  by (simp_all add: deviation_def parameter_distance_def reset_counters_def measured_def measure_window_def Let_def)

lemma quiet_classified:
  assumes "ra_inv c" and "quiet c" and "ewma_score_hundredths (measured c ts) = 0" and "high_load_threshold (config c) \<le> 255"
  shows "last_load (measured c ts) = Low"
proof -
  have h: "0 < high_load_threshold (config c)" using assms(1) by (auto simp: ra_inv_def cfg_valid_def)
  then have "0 < u32_mul (high_load_threshold (config c)) 100" using assms(4) by (simp add: wrap_simps)
  then show ?thesis
    using assms(2,3) h quiet_not_urgent [OF assms(2)] quiet_score [OF assms(2)]
    by (auto simp: measured_def measure_window_def classify_load_def Let_def quiet_def collision_indications_def sat_add16_def)
qed

lemma quiet_window:
  assumes "ra_inv c" and "quiet c" and "enabled (config c)" and "update_due c ts" and "high_load_threshold (config c) \<le> 255"
  obtains r c' where "maybe_update c ts = Some (r, c')" "ra_inv c'" "quiet c'" "config c' = config c"
    "settling c' \<le> settling c - 1" "settling c = 0 \<longrightarrow> deviation c' \<le> deviation c - 1"
proof (cases "startup_grace_updates_remaining c > 0")
  case True
  show ?thesis
    by (rule that [OF maybe_update_grace [OF assms(4,3) True quiet_not_urgent [OF assms(2)]]])
       (use True assms(1,2) in \<open>auto simp: quiet_def settling_def\<close>)
next
  case False
  then have g: "startup_grace_updates_remaining c = 0" by simp
  let ?m = "measured c ts"
  obtain c1 where c1: "adjust ?m (last_load ?m) (sample_score c) = Some c1" "ra_inv c1" "config c1 = config c"
    "maybe_update c ts = Some (if current c1 \<noteq> current c then Some (current c1) else None, reset_counters c1)"
    by (rule maybe_update_measured [OF assms(1,4,3) disjI1 [OF g]])
  have m: "ewma_score_hundredths ?m = next_ewma c 0" "ewma_initialized ?m" "startup_grace_updates_remaining ?m = 0"
    "pending_registrations ?m = 0" "ra_inv ?m" "config ?m = config c"
    using assms(1,2) g quiet_score [OF assms(2)] quiet_not_urgent [OF assms(2)]
    by (simp_all add: measured_def measure_window_def Let_def quiet_def next_ewma_def ra_inv_def)
  have l: "limits_ok (config ?m)" by (rule ra_inv_limits [OF m(5)])
  have keep: "ewma_score_hundredths c1 = next_ewma c 0" "ewma_initialized c1" "startup_grace_updates_remaining c1 = 0"
      "pending_registrations c1 = 0"
    using adjust_keeps [OF m(5) c1(1)] m(1-4) by simp_all
  have "settling (reset_counters c1) = next_ewma c 0" using keep by (simp add: settling_def reset_counters_def)
  also have "\<dots> \<le> settling c - 1"
    using quiet_ewma [of c] assms(1) g by (simp add: settling_def ra_inv_def)
  finally have s: "settling (reset_counters c1) \<le> settling c - 1" .
  have d: "deviation (reset_counters c1) \<le> deviation c - 1" if "settling c = 0"
  proof -
    have "ewma_score_hundredths ?m = 0" using quiet_ewma [of c] assms(1) that by (simp add: m settling_def ra_inv_def)
    then have "adjust_low ?m = Some c1" using c1(1) quiet_classified [OF assms(1,2) _ assms(5)] by (simp add: adjust_def)
    from adjust_low_deviation [OF m(5) this] show ?thesis by simp
  qed
  have "quiet (reset_counters c1)" using keep by (simp add: quiet_def reset_counters_def)
  then show thesis using that [OF c1(4)] c1 s d by simp
qed

lemma deviation_zero: "ra_inv c \<Longrightarrow> deviation c = 0 \<Longrightarrow> current c = clamped (config c) nominal_values"
  by (cases "current c"; cases "parameters (current c)")
     (auto simp: deviation_def parameter_distance_def gap_def Let_def ra_inv_def clamped_def nominal_values_def
       split: if_splits)

text \<open>A run of updates, all of them due.\<close>

fun run_updates :: "random_access_controller \<Rightarrow> tdma_time list \<Rightarrow> random_access_controller option" where
  "run_updates c [] = Some c"
| "run_updates c (t # ts) = Option.bind (maybe_update c t) (\<lambda>(_, c'). run_updates c' ts)"

fun all_due :: "random_access_controller \<Rightarrow> tdma_time list \<Rightarrow> bool" where
  "all_due c [] = True"
| "all_due c (t # ts) = (update_due c t \<and> (case maybe_update c t of Some (_, c') \<Rightarrow> all_due c' ts | None \<Rightarrow> False))"

lemma quiet_run:
  assumes "ra_inv c" and "quiet c" and "enabled (config c)" and "high_load_threshold (config c) \<le> 255"
    and "all_due c ts" and "settling c + 2927 \<le> length ts \<or> settling c = 0 \<and> deviation c \<le> length ts"
  shows "\<exists>c'. run_updates c ts = Some c' \<and> current c' = clamped (config c) nominal_values"
  using assms
proof (induction ts arbitrary: c)
  case Nil
  then show ?case by (auto intro: deviation_zero)
next
  case (Cons t ts)
  from Cons.prems(5) have "update_due c t" by simp
  from quiet_window [OF Cons.prems(1-3) this Cons.prems(4)]
  obtain r c' where c': "maybe_update c t = Some (r, c')" "ra_inv c'" "quiet c'" "config c' = config c"
    "settling c' \<le> settling c - 1" "settling c = 0 \<longrightarrow> deviation c' \<le> deviation c - 1" .
  have "settling c' + 2927 \<le> length ts \<or> settling c' = 0 \<and> deviation c' \<le> length ts"
    using Cons.prems(6) c'(5,6) deviation_bound [OF c'(2)] deviation_bound [OF Cons.prems(1)] by (cases "settling c = 0") auto
  with Cons.IH [OF c'(2,3)] c'(1,4) Cons.prems(3-5) show ?case by simp
qed

lemma maybe_update_stamp:
  assumes "ra_inv c" and "update_due c ts" and "enabled (config c)" and "maybe_update c ts = Some (r, c')"
  shows "last_update c' = Some (time_h ts, time_m ts)"
proof (cases "startup_grace_updates_remaining c = 0 \<or> urgent_contention c")
  case True
  from maybe_update_measured [OF assms(1-3) True] obtain c1 where
    c1: "adjust (measured c ts) (last_load (measured c ts)) (sample_score c) = Some c1"
    "maybe_update c ts = Some (if current c1 \<noteq> current c then Some (current c1) else None, reset_counters c1)" .
  have "ra_inv (measured c ts)" using assms(1) by (simp add: measured_def Let_def)
  from adjust_keeps [OF this c1(1)] have "last_update c1 = last_update (measured c ts)" by simp
  moreover have "c' = reset_counters c1" using c1(2) assms(4) by simp
  ultimately show ?thesis by (simp add: measured_def measure_window_def reset_counters_def Let_def)
next
  case False
  then have "startup_grace_updates_remaining c > 0" "\<not> urgent_contention c" by simp_all
  from maybe_update_grace [OF assms(2,3) this] show ?thesis using assms(4) by (simp add: prod_eq_iff)
qed

lemma all_due_distinct:
  assumes "ra_inv c" and "update_interval_multiframes (config c) = 1" and "enabled (config c)"
    and "\<forall>t \<in> set ts. time_t t = 1 \<and> time_f t = 2" and "distinct_adj (map (\<lambda>t. (time_h t, time_m t)) ts)"
    and "\<forall>t us. ts = t # us \<longrightarrow> last_update c \<noteq> Some (time_h t, time_m t)"
  shows "all_due c ts"
  using assms
proof (induction ts arbitrary: c)
  case (Cons t ts)
  have d: "update_due c t" using Cons.prems(2,4,6) by (simp add: update_due_def)
  obtain r c' where c': "maybe_update c t = Some (r, c')" "ra_inv c'" "config c' = config c"
    using maybe_update_total [OF Cons.prems(1)] .
  have l: "last_update c' = Some (time_h t, time_m t)" by (rule maybe_update_stamp [OF Cons.prems(1) d Cons.prems(3) c'(1)])
  have n: "distinct_adj (map (\<lambda>t. (time_h t, time_m t)) ts)"
    "\<forall>t' us. ts = t' # us \<longrightarrow> last_update c' \<noteq> Some (time_h t', time_m t')"
    using Cons.prems(5) l by (cases ts; simp)+
  have "all_due c' ts"
    by (rule Cons.IH [OF c'(2) _ _ _ n]) (use Cons.prems(2-4) c'(3) in simp_all)
  then show ?case using d c'(1) by simp
qed simp

section \<open>Properties\<close>

text \<open>C13: A controller built from a checked configuration keeps its access parameters inside the configured
  limits, and hence inside their 4-bit fields, whatever is observed and however often it is
  updated or reconfigured; neither an update nor a reconfiguration ever panics.\<close>

theorem ra_parameters_encodable:
  assumes "ra_reachable c"
  shows "within_limits (config c) (current c) \<and> imm (parameters (current c)) \<le> 15 \<and> wt (parameters (current c)) \<in> {1..15}
    \<and> nu (parameters (current c)) \<in> {1..15} \<and> frame_len (current c) \<in> {1..15}
    \<and> (\<forall>ts. maybe_update c ts \<noteq> None) \<and> (\<forall>g. cfg_valid g \<longrightarrow> reconfigure c g \<noteq> None)"
proof -
  have i: "ra_inv c" by (rule ra_inv_reachable [OF assms])
  then have "maybe_update c ts \<noteq> None" for ts by (metis maybe_update_total option.distinct(1))
  moreover have "cfg_valid g \<Longrightarrow> reconfigure c g \<noteq> None" for g by (metis reconfigure_total [OF i] option.distinct(1))
  ultimately show ?thesis using i by (auto simp: ra_inv_def within_limits_def cfg_valid_def)
qed

theorem ra_parameters_encodable_witness:
  "wt (parameters (current (observe_crc_failure (the (new_controller default_cfg))))) \<in> {1..15}"
proof -
  have v: "cfg_valid default_cfg" by (simp add: cfg_valid_def default_cfg_def)
  have "new_controller default_cfg = Some (the (new_controller default_cfg))"
    using cfg_valid_limits [OF v] by (simp add: new_controller_def clamp_update_clamped Let_def)
  then have "ra_reachable (observe_crc_failure (the (new_controller default_cfg)))"
    by (rule ra_reachable.step [OF ra_reachable.start [OF v] ra_step.intros(3)])
  from ra_parameters_encodable [OF this] show ?thesis by simp
qed

text \<open>C14: Once the cell is quiet, an enabled controller whose high-load threshold fits an octet returns the access
  parameters to their nominal values: after the start-up grace and as many further windows as the smoothed score has
  hundredths, plus 2927, every run of due updates ends, without a panic, at the nominal parameters with the frame-length
  factor off.\<close>

theorem ra_recovers_when_quiet:
  assumes "ra_reachable c" and "enabled (config c)" and "high_load_threshold (config c) \<le> 255" and "quiet c"
    and "all_due c ts" and "settling c + 2927 \<le> length ts"
  shows "\<exists>c'. run_updates c ts = Some c' \<and> nominal_update (config c) = Some (current c')"
  using quiet_run [OF ra_inv_reachable [OF assms(1)] assms(4,2,3,5) disjI1 [OF assms(6)]]
    ra_inv_limits [OF ra_inv_reachable [OF assms(1)]]
  by (auto simp: nominal_update_def clamp_update_clamped)

theorem ra_recovers_when_quiet_witness:
  "\<exists>c'. run_updates (the (new_controller default_cfg))
      (map (\<lambda>i. \<lparr>time_t = 1, time_f = 2, time_m = 1, time_h = i\<rparr>) [0..<2932]) = Some c' \<and> imm (parameters (current c')) = 8"
proof -
  let ?ts = "map (\<lambda>i. \<lparr>time_t = 1, time_f = 2, time_m = 1, time_h = i\<rparr>) [0..<2932]"
  have v: "cfg_valid default_cfg" by (simp add: cfg_valid_def default_cfg_def)
  note l = cfg_valid_limits [OF v]
  obtain c where c: "new_controller default_cfg = Some c" "config c = default_cfg" "quiet c" "settling c = 5" "last_update c = None"
    using l by (simp add: new_controller_def clamp_update_clamped Let_def quiet_def settling_def default_cfg_def)
  have d: "update_interval_multiframes default_cfg = 1" "enabled default_cfg" "high_load_threshold default_cfg \<le> 255"
    by (simp_all add: default_cfg_def)
  have r: "ra_reachable c" by (rule ra_reachable.start [OF v c(1)])
  have "distinct_adj (map (\<lambda>t. (time_h t, time_m t)) ?ts)"
    by (simp add: distinct_adj_conv_nth del: upt_rec_numeral)
  then have a: "all_due c ?ts"
    by (intro all_due_distinct [OF ra_inv_reachable [OF r]]) (simp_all add: c(2,5) d del: upt_rec_numeral)
  have "\<exists>c'. run_updates c ?ts = Some c' \<and> nominal_update (config c) = Some (current c')"
    by (rule ra_recovers_when_quiet [OF r _ _ c(3) a]) (simp_all add: c(2,4) d del: upt_rec_numeral)
  then obtain c' where "run_updates c ?ts = Some c'" "nominal_update default_cfg = Some (current c')"
    unfolding c(2) by blast
  moreover have "imm (parameters (clamped default_cfg nominal_values)) = 8"
    by (simp add: clamped_def into_def default_cfg_def nominal_values_def NOMINAL_IMM_def)
  ultimately show ?thesis unfolding c(1) option.sel
    by (auto simp: nominal_update_def clamp_update_clamped [OF l] simp del: upt_rec_numeral)
qed

text \<open>In a window whose counters are at most 20000 no arithmetic of the score wraps: the sample is the
  exact weighted sum of the events, and the smoothed score lies between its old value and the
  sample.\<close>

lemma ra_scores_exact:
  assumes "counters_below 20000 c" and "cfg_valid (config c)" and "ewma_initialized c"
    and "ewma_score_hundredths c \<le> 22000000"
  shows "sample_score c = exact_score c
    \<and> min (ewma_score_hundredths c) (100 * exact_score c) \<le> next_ewma c (sample_score c)
    \<and> next_ewma c (sample_score c) \<le> max (ewma_score_hundredths c) (100 * exact_score c)"
proof -
  have a: "ewma_alpha_percent (config c) \<le> 100" using assms(2) by (simp add: cfg_valid_def)
  note s = sample_score_exact [OF assms(1,2)]
  have "next_ewma c (sample_score c) = (ewma_score_hundredths c * (100 - ewma_alpha_percent (config c))
      + (100 * exact_score c) * ewma_alpha_percent (config c)) div 100"
    using next_ewma_mean [OF assms(2,3) _ assms(4), of "exact_score c"] s by (simp add: ac_simps)
  then show ?thesis using weighted_mean [OF a] s(1) by simp
qed

theorem ra_scores_exact_witness:
  "next_ewma ((the (new_controller default_cfg))\<lparr>ewma_initialized := True, first_attempts := 20, ewma_score_hundredths := 100\<rparr>) 20 = 1050
   \<and> sample_score ((the (new_controller default_cfg))\<lparr>ewma_initialized := True, first_attempts := 20, ewma_score_hundredths := 100\<rparr>) = 20"
proof -
  let ?c = "(the (new_controller default_cfg))\<lparr>ewma_initialized := True, first_attempts := 20, ewma_score_hundredths := 100\<rparr>"
  have v: "cfg_valid default_cfg" by (simp add: cfg_valid_def default_cfg_def)
  have n: "new_controller default_cfg \<noteq> None" "config ?c = default_cfg" "counters_below 20000 ?c" "retry_attempts ?c = 0"
    "invalid_mac_access ?c = 0" "crc_failures ?c = 0" "pending_registrations ?c = 0" "registration_delivery_failures ?c = 0"
    using cfg_valid_limits [OF v] by (simp_all add: new_controller_def clamp_update_clamped Let_def counters_below_def)
  have "sample_score ?c = 20"
    using ra_scores_exact [of ?c] n v by (simp add: exact_score_def)
  then show ?thesis using n(2) by (simp add: next_ewma_def default_cfg_def wrap_simps)
qed

end
