(* ===== verification/Circuit_Types.thy ===== *)
theory Circuit_Types
  imports Tetra_Types
begin

text \<open>
  What the circuit managers of UMAC and CMCE share: the enums of
  \<^verbatim>\<open>crates/tetra-saps/src/control/enums\<close>, the circuit of \<^verbatim>\<open>crates/tetra-saps/src/control/call_control.rs\<close>
  and arrays indexed by timeslot number, where timeslot 0 underflows the index and panics like
  any slot beyond the array.
\<close>

section \<open>Enums with raw values\<close>

datatype circuit_mode_type = TchS_mode | Tch72_mode | Tch48n1 | Tch48n4 | Tch48n8 | Tch24n1 | Tch24n4 | Tch24n8

fun circuit_mode_of_raw :: "nat \<Rightarrow> circuit_mode_type option" where
  "circuit_mode_of_raw x = (if x = 0 then Some TchS_mode else if x = 1 then Some Tch72_mode
     else if x = 2 then Some Tch48n1 else if x = 3 then Some Tch48n4 else if x = 4 then Some Tch48n8
     else if x = 5 then Some Tch24n1 else if x = 6 then Some Tch24n4 else if x = 7 then Some Tch24n8 else None)"

fun circuit_mode_raw :: "circuit_mode_type \<Rightarrow> nat" where
  "circuit_mode_raw TchS_mode = 0"
| "circuit_mode_raw Tch72_mode = 1"
| "circuit_mode_raw Tch48n1 = 2"
| "circuit_mode_raw Tch48n4 = 3"
| "circuit_mode_raw Tch48n8 = 4"
| "circuit_mode_raw Tch24n1 = 5"
| "circuit_mode_raw Tch24n4 = 6"
| "circuit_mode_raw Tch24n8 = 7"

interpretation circuit_mode: raw_enum circuit_mode_raw circuit_mode_of_raw 3
proof unfold_locales
  show "circuit_mode_of_raw (circuit_mode_raw x) = Some x" for x by (cases x) simp_all
  show "circuit_mode_raw x < 2 ^ 3" for x by (cases x) simp_all
qed (auto split: if_splits)

datatype communication_type = P2p | P2Mp | P2MpAcked | Broadcast

fun communication_of_raw :: "nat \<Rightarrow> communication_type option" where
  "communication_of_raw x = (if x = 0 then Some P2p else if x = 1 then Some P2Mp
     else if x = 2 then Some P2MpAcked else if x = 3 then Some Broadcast else None)"

fun communication_raw :: "communication_type \<Rightarrow> nat" where
  "communication_raw P2p = 0"
| "communication_raw P2Mp = 1"
| "communication_raw P2MpAcked = 2"
| "communication_raw Broadcast = 3"

interpretation communication: raw_enum communication_raw communication_of_raw 2
proof unfold_locales
  show "communication_of_raw (communication_raw x) = Some x" for x by (cases x) simp_all
  show "communication_raw x < 2 ^ 2" for x by (cases x) simp_all
qed (auto split: if_splits)

section \<open>Arrays indexed by timeslot\<close>

definition slot_get :: "'a list \<Rightarrow> nat \<Rightarrow> 'a option" where
  "slot_get xs ts = (if ts = 0 then None else aget xs (ts - 1))"

definition slot_put :: "'a list \<Rightarrow> nat \<Rightarrow> 'a \<Rightarrow> 'a list option" where
  "slot_put xs ts v = (if ts = 0 then None else aset xs (ts - 1) v)"

definition slot_ok :: "nat \<Rightarrow> bool" where
  "slot_ok ts \<longleftrightarrow> 1 \<le> ts \<and> ts \<le> 4"

lemma slot_pred_less [simp]: "slot_ok ts \<Longrightarrow> ts - Suc 0 < 4"
  unfolding slot_ok_def by linarith

lemma slot_get_Some: "\<lbrakk>slot_ok ts; length xs = 4\<rbrakk> \<Longrightarrow> slot_get xs ts = Some (xs ! (ts - 1))"
  using slot_pred_less [of ts] by (auto simp: slot_get_def aget_def slot_ok_def)

lemma slot_put_Some: "\<lbrakk>slot_ok ts; length xs = 4\<rbrakk> \<Longrightarrow> slot_put xs ts v = Some (xs[ts - 1 := v])"
  using slot_pred_less [of ts] by (auto simp: slot_put_def aset_def slot_ok_def)

lemma slot_get_None: "length xs = 4 \<Longrightarrow> slot_get xs ts = None \<longleftrightarrow> \<not> slot_ok ts"
  by (auto simp: slot_get_def slot_ok_def aget_def)

lemma slot_out: "\<lbrakk>\<not> slot_ok ts; length xs = 4\<rbrakk> \<Longrightarrow> slot_get xs ts = None" "\<lbrakk>\<not> slot_ok ts; length xs = 4\<rbrakk> \<Longrightarrow> slot_put xs ts v = None"
  by (auto simp: slot_get_def slot_put_def slot_ok_def aget_def aset_def)

lemma slot_pred_eq [simp]: "\<lbrakk>slot_ok ts; slot_ok ts'\<rbrakk> \<Longrightarrow> ts - Suc 0 = ts' - Suc 0 \<longleftrightarrow> ts = ts'"
  by (auto simp: slot_ok_def)

lemma slot_ok_cases: "slot_ok ts \<longleftrightarrow> ts \<in> {1, 2, 3, 4}"
  by (auto simp: slot_ok_def)

text \<open>Two slots of an array of four: reading what was written.\<close>

lemma slot_nth_update:
  "\<lbrakk>slot_ok ts; slot_ok ts'; length xs = 4\<rbrakk> \<Longrightarrow> xs[ts - Suc 0 := v] ! (ts' - Suc 0) = (if ts = ts' then v else xs ! (ts' - Suc 0))"
  by (simp add: nth_list_update)

section \<open>Circuits\<close>

record circuit =
  ci_call_id :: nat
  ci_direction :: direction
  ci_ts :: nat
  ci_usage :: nat
  ci_circuit_mode :: circuit_mode_type
  ci_speech_service :: "nat option"
  ci_etee_encrypted :: bool

end
