(* ===== verification/Umac_Circuits.thy ===== *)
theory Umac_Circuits
  imports Circuit_Types
begin

text \<open>
  The circuit table of the MAC layer, \<^verbatim>\<open>crates/tetra-entities/src/umac/subcomp/circuit_mgr.rs\<close>: which
  circuit runs on each timeslot in each direction, and the blocks queued for the downlink.
  \<open>None\<close> is a panic: a timeslot outside \<open>1..4\<close> or a direction that is neither uplink nor downlink.

  The abstract view of the table is, per slot, the two circuits and the queue; the lemmas say how each
  operation changes the view of one slot and that it leaves the others alone.
\<close>

section \<open>State and operations\<close>

record umac_circuit_mgr =
  u_dl :: "circuit option list"
  u_ul :: "circuit option list"
  u_tx_data :: "u8 list list list"

definition umac_new :: umac_circuit_mgr where
  "umac_new = \<lparr>u_dl = replicate 4 None, u_ul = replicate 4 None, u_tx_data = replicate 4 []\<rparr>"

definition umac_is_active :: "umac_circuit_mgr \<Rightarrow> direction \<Rightarrow> nat \<Rightarrow> bool option" where
  "umac_is_active m dir ts = (case dir of
       DirDl \<Rightarrow> map_option (\<lambda>c. c \<noteq> None) (slot_get (u_dl m) ts)
     | DirUl \<Rightarrow> map_option (\<lambda>c. c \<noteq> None) (slot_get (u_ul m) ts)
     | _ \<Rightarrow> None)"

definition umac_get_usage :: "umac_circuit_mgr \<Rightarrow> direction \<Rightarrow> nat \<Rightarrow> nat option option" where
  "umac_get_usage m dir ts = (case dir of
       DirDl \<Rightarrow> map_option (map_option ci_usage) (slot_get (u_dl m) ts)
     | DirUl \<Rightarrow> map_option (map_option ci_usage) (slot_get (u_ul m) ts)
     | _ \<Rightarrow> None)"

definition umac_close_circuit ::
  "umac_circuit_mgr \<Rightarrow> direction \<Rightarrow> nat \<Rightarrow> (circuit option \<times> umac_circuit_mgr) option" where
  "umac_close_circuit m dir ts = (case dir of
       DirDl \<Rightarrow> do {
         tx \<leftarrow> slot_put (u_tx_data m) ts [];
         c \<leftarrow> slot_get (u_dl m) ts;
         dl \<leftarrow> slot_put (u_dl m) ts None;
         Some (c, m\<lparr>u_tx_data := tx, u_dl := dl\<rparr>) }
     | DirUl \<Rightarrow> do {
         c \<leftarrow> slot_get (u_ul m) ts;
         ul \<leftarrow> slot_put (u_ul m) ts None;
         Some (c, m\<lparr>u_ul := ul\<rparr>) }
     | _ \<Rightarrow> None)"

definition umac_create_circuit ::
  "umac_circuit_mgr \<Rightarrow> direction \<Rightarrow> circuit \<Rightarrow> umac_circuit_mgr option" where
  "umac_create_circuit m dir c = do {
     let ts = ci_ts c;
     active \<leftarrow> umac_is_active m dir ts;
     m \<leftarrow> (if active then map_option snd (umac_close_circuit m dir ts) else Some m);
     case dir of
       DirDl \<Rightarrow> do {
         queue \<leftarrow> slot_get (u_tx_data m) ts;
         m \<leftarrow> (if queue \<noteq> [] then map_option (\<lambda>tx. m\<lparr>u_tx_data := tx\<rparr>) (slot_put (u_tx_data m) ts []) else Some m);
         dl \<leftarrow> slot_put (u_dl m) ts (Some c);
         Some (m\<lparr>u_dl := dl\<rparr>) }
     | DirUl \<Rightarrow> do {
         ul \<leftarrow> slot_put (u_ul m) ts (Some c);
         Some (m\<lparr>u_ul := ul\<rparr>) }
     | _ \<Rightarrow> None }"

definition umac_put_block :: "umac_circuit_mgr \<Rightarrow> nat \<Rightarrow> u8 list \<Rightarrow> umac_circuit_mgr option" where
  "umac_put_block m ts block = do {
     active \<leftarrow> umac_is_active m DirDl ts;
     if \<not> active then Some m
     else do {
       queue \<leftarrow> slot_get (u_tx_data m) ts;
       tx \<leftarrow> slot_put (u_tx_data m) ts (queue @ [block]);
       Some (m\<lparr>u_tx_data := tx\<rparr>) } }"

definition umac_take_block :: "umac_circuit_mgr \<Rightarrow> nat \<Rightarrow> (u8 list option \<times> umac_circuit_mgr) option" where
  "umac_take_block m ts = do {
     active \<leftarrow> umac_is_active m DirDl ts;
     if \<not> active then Some (None, m)
     else do {
       queue \<leftarrow> slot_get (u_tx_data m) ts;
       case queue of
         [] \<Rightarrow> Some (None, m)
       | block # rest \<Rightarrow> do {
           tx \<leftarrow> slot_put (u_tx_data m) ts rest;
           Some (Some block, m\<lparr>u_tx_data := tx\<rparr>) } } }"

section \<open>The view of a slot\<close>

definition umac_wf :: "umac_circuit_mgr \<Rightarrow> bool" where
  "umac_wf m \<longleftrightarrow> length (u_dl m) = 4 \<and> length (u_ul m) = 4 \<and> length (u_tx_data m) = 4"

definition slot_view :: "umac_circuit_mgr \<Rightarrow> nat \<Rightarrow> circuit option \<times> circuit option \<times> u8 list list" where
  "slot_view m ts = (u_dl m ! (ts - 1), u_ul m ! (ts - 1), u_tx_data m ! (ts - 1))"

text \<open>Blocks are only queued for a downlink circuit that is there.\<close>

fun view_ok :: "circuit option \<times> circuit option \<times> u8 list list \<Rightarrow> bool" where
  "view_ok (dl, ul, q) = (q \<noteq> [] \<longrightarrow> dl \<noteq> None)"

definition umac_inv :: "umac_circuit_mgr \<Rightarrow> bool" where
  "umac_inv m \<longleftrightarrow> umac_wf m \<and> (\<forall>ts. slot_ok ts \<longrightarrow> view_ok (slot_view m ts))"

text \<open>The abstract operations on the view of one slot.\<close>

fun open_view :: "direction \<Rightarrow> circuit \<Rightarrow> circuit option \<times> circuit option \<times> 'q list \<Rightarrow> circuit option \<times> circuit option \<times> 'q list" where
  "open_view DirDl c (dl, ul, q) = (Some c, ul, [])"
| "open_view _ c (dl, ul, q) = (dl, Some c, q)"

fun close_view :: "direction \<Rightarrow> circuit option \<times> circuit option \<times> 'q list \<Rightarrow> circuit option \<times> circuit option \<times> 'q list" where
  "close_view DirDl (dl, ul, q) = (None, ul, [])"
| "close_view _ (dl, ul, q) = (dl, None, q)"

fun put_view :: "'q \<Rightarrow> circuit option \<times> circuit option \<times> 'q list \<Rightarrow> circuit option \<times> circuit option \<times> 'q list" where
  "put_view b (dl, ul, q) = (dl, ul, if dl = None then q else q @ [b])"

fun take_view :: "circuit option \<times> circuit option \<times> 'q list \<Rightarrow> 'q option \<times> circuit option \<times> circuit option \<times> 'q list" where
  "take_view (dl, ul, q) = (if dl = None \<or> q = [] then (None, dl, ul, q) else (Some (hd q), dl, ul, tl q))"

lemmas umac_defs = umac_is_active_def umac_close_circuit_def umac_create_circuit_def umac_put_block_def
  umac_take_block_def umac_wf_def slot_view_def Let_def

lemma umac_create_view:
  assumes "umac_wf m" and "slot_ok (ci_ts c)" and "dir \<in> {DirDl, DirUl}"
  shows "\<exists>m'. umac_create_circuit m dir c = Some m' \<and> umac_wf m' \<and> (\<forall>t. slot_ok t \<longrightarrow> slot_view m' t = (if t = ci_ts c then open_view dir c (slot_view m t) else slot_view m t))"
  using assms by (cases dir)
    (auto simp: umac_defs slot_get_Some slot_put_Some slot_nth_update)

lemma umac_close_view:
  assumes "umac_wf m" and "slot_ok ts" and "dir \<in> {DirDl, DirUl}"
  shows "\<exists>m'. umac_close_circuit m dir ts =
      Some (if dir = DirDl then fst (slot_view m ts) else fst (snd (slot_view m ts)), m') \<and> umac_wf m' \<and> (\<forall>t. slot_ok t \<longrightarrow> slot_view m' t = (if t = ts then close_view dir (slot_view m t) else slot_view m t))"
  using assms by (cases dir)
    (auto simp: umac_defs slot_get_Some slot_put_Some slot_nth_update)

lemma umac_put_view:
  assumes "umac_wf m" and "slot_ok ts"
  shows "\<exists>m'. umac_put_block m ts b = Some m' \<and> umac_wf m' \<and> (\<forall>t. slot_ok t \<longrightarrow> slot_view m' t = (if t = ts then put_view b (slot_view m t) else slot_view m t))"
  using assms by (cases "u_dl m ! (ts - Suc 0)")
    (auto simp: umac_defs slot_get_Some slot_put_Some slot_nth_update)

lemma umac_take_view:
  assumes "umac_wf m" and "slot_ok ts"
  shows "\<exists>m'. umac_take_block m ts = Some (fst (take_view (slot_view m ts)), m') \<and> umac_wf m' \<and> (\<forall>t. slot_ok t \<longrightarrow> slot_view m' t = (if t = ts then snd (take_view (slot_view m t)) else slot_view m t))"
  using assms by (cases "u_dl m ! (ts - Suc 0)"; cases "u_tx_data m ! (ts - Suc 0)")
    (auto simp: umac_defs slot_get_Some slot_put_Some slot_nth_update)

section \<open>Runs of the table\<close>

inductive umac_step :: "umac_circuit_mgr \<Rightarrow> umac_circuit_mgr \<Rightarrow> bool" where
  "umac_create_circuit m dir c = Some m' \<Longrightarrow> umac_step m m'"
| "umac_close_circuit m dir ts = Some (r, m') \<Longrightarrow> umac_step m m'"
| "umac_put_block m ts b = Some m' \<Longrightarrow> umac_step m m'"
| "umac_take_block m ts = Some (r, m') \<Longrightarrow> umac_step m m'"

inductive umac_reachable :: "umac_circuit_mgr \<Rightarrow> bool" where
  start: "umac_reachable umac_new"
| step: "umac_reachable m \<Longrightarrow> umac_step m m' \<Longrightarrow> umac_reachable m'"

inductive_cases umac_stepE: "umac_step m m'"

text \<open>An operation that does not panic was called on a slot of the table and in one direction.\<close>

lemma umac_domain:
  assumes "umac_wf m"
  shows "umac_create_circuit m dir c \<noteq> None \<Longrightarrow> slot_ok (ci_ts c) \<and> dir \<in> {DirDl, DirUl}"
    and "umac_close_circuit m dir ts \<noteq> None \<Longrightarrow> slot_ok ts \<and> dir \<in> {DirDl, DirUl}"
    and "umac_put_block m ts b \<noteq> None \<Longrightarrow> slot_ok ts"
    and "umac_take_block m ts \<noteq> None \<Longrightarrow> slot_ok ts"
proof -
  have l: "length (u_dl m) = 4" "length (u_ul m) = 4" "length (u_tx_data m) = 4" using assms by (simp_all add: umac_wf_def)
  show "umac_create_circuit m dir c \<noteq> None \<Longrightarrow> slot_ok (ci_ts c) \<and> dir \<in> {DirDl, DirUl}"
    by (cases dir; cases "slot_ok (ci_ts c)") (simp_all add: umac_create_circuit_def umac_is_active_def slot_out l)
  show "umac_close_circuit m dir ts \<noteq> None \<Longrightarrow> slot_ok ts \<and> dir \<in> {DirDl, DirUl}"
    by (cases dir; cases "slot_ok ts") (simp_all add: umac_close_circuit_def slot_out l)
  show "umac_put_block m ts b \<noteq> None \<Longrightarrow> slot_ok ts"
    by (cases "slot_ok ts") (simp_all add: umac_put_block_def umac_is_active_def slot_out l)
  show "umac_take_block m ts \<noteq> None \<Longrightarrow> slot_ok ts"
    by (cases "slot_ok ts") (simp_all add: umac_take_block_def umac_is_active_def slot_out l)
qed

lemma umac_inv_step:
  assumes "umac_step m m'" and "umac_inv m"
  shows "umac_inv m'"
proof -
  have w: "umac_wf m" and q: "\<And>t. slot_ok t \<Longrightarrow> view_ok (slot_view m t)"
    using assms(2) by (simp_all add: umac_inv_def)
  have keeps: "umac_inv m'" if "umac_wf m'"
    "\<forall>t. slot_ok t \<longrightarrow> slot_view m' t = (if t = ts then f (slot_view m t) else slot_view m t)"
    "\<And>v. view_ok v \<Longrightarrow> view_ok (f v)" for ts f
    using that q by (simp add: umac_inv_def)
  from assms(1) show ?thesis
  proof (rule umac_stepE)
    fix dir c assume e: "umac_create_circuit m dir c = Some m'"
    then have "slot_ok (ci_ts c)" and d: "dir \<in> {DirDl, DirUl}" using umac_domain(1) [OF w, of dir c] by auto
    from umac_create_view [OF w this] e obtain "umac_wf m'"
      "\<forall>t. slot_ok t \<longrightarrow> slot_view m' t = (if t = ci_ts c then open_view dir c (slot_view m t) else slot_view m t)" by auto
    then show ?thesis by (rule keeps) (use d in \<open>auto elim!: view_ok.elims\<close>)
  next
    fix dir ts r assume e: "umac_close_circuit m dir ts = Some (r, m')"
    then have "slot_ok ts" and d: "dir \<in> {DirDl, DirUl}" using umac_domain(2) [OF w, of dir ts] by auto
    from umac_close_view [OF w this] e obtain "umac_wf m'"
      "\<forall>t. slot_ok t \<longrightarrow> slot_view m' t = (if t = ts then close_view dir (slot_view m t) else slot_view m t)" by auto
    then show ?thesis by (rule keeps) (use d in \<open>auto elim!: view_ok.elims\<close>)
  next
    fix ts b assume e: "umac_put_block m ts b = Some m'"
    then have "slot_ok ts" using umac_domain(3) [OF w, of ts b] by auto
    from umac_put_view [OF w this, of b] e obtain "umac_wf m'"
      "\<forall>t. slot_ok t \<longrightarrow> slot_view m' t = (if t = ts then put_view b (slot_view m t) else slot_view m t)" by auto
    then show ?thesis by (rule keeps) (auto elim!: view_ok.elims split: if_splits)
  next
    fix ts r assume e: "umac_take_block m ts = Some (r, m')"
    then have "slot_ok ts" using umac_domain(4) [OF w, of ts] by auto
    from umac_take_view [OF w this] e obtain "umac_wf m'"
      "\<forall>t. slot_ok t \<longrightarrow> slot_view m' t = (if t = ts then snd (take_view (slot_view m t)) else slot_view m t)" by auto
    then show ?thesis by (rule keeps) (auto elim!: view_ok.elims split: if_splits)
  qed
qed

lemma umac_inv_new: "umac_inv umac_new"
proof -
  have "slot_view umac_new t = (None, None, [])" if "slot_ok t" for t
    using that by (auto simp: umac_new_def slot_view_def slot_ok_cases)
  then show ?thesis by (auto simp: umac_inv_def umac_wf_def) (simp_all add: umac_new_def)
qed

lemma umac_inv_reachable: "umac_reachable m \<Longrightarrow> umac_inv m"
  by (induction rule: umac_reachable.induct) (auto intro: umac_inv_new umac_inv_step)

fun put_blocks :: "umac_circuit_mgr \<Rightarrow> nat \<Rightarrow> u8 list list \<Rightarrow> umac_circuit_mgr option" where
  "put_blocks m ts [] = Some m"
| "put_blocks m ts (b # bs) = Option.bind (umac_put_block m ts b) (\<lambda>m'. put_blocks m' ts bs)"

fun take_blocks :: "umac_circuit_mgr \<Rightarrow> nat \<Rightarrow> nat \<Rightarrow> (u8 list option list \<times> umac_circuit_mgr) option" where
  "take_blocks m ts 0 = Some ([], m)"
| "take_blocks m ts (Suc n) = do { (b, m) \<leftarrow> umac_take_block m ts; (bs, m) \<leftarrow> take_blocks m ts n; Some (b # bs, m) }"

lemma put_blocks_view:
  assumes "umac_wf m" and "slot_ok ts" and "slot_view m ts = (Some c, ul, q)"
  obtains m' where "put_blocks m ts bs = Some m'" "umac_wf m'" "slot_view m' ts = (Some c, ul, q @ bs)"
  using assms
proof (induction bs arbitrary: m q thesis)
  case (Cons b bs)
  from umac_put_view [OF Cons.prems(2,3), of b] obtain m1 where m1: "umac_put_block m ts b = Some m1" "umac_wf m1"
    "\<forall>t. slot_ok t \<longrightarrow> slot_view m1 t = (if t = ts then put_view b (slot_view m t) else slot_view m t)" by blast
  have "slot_view m1 ts = (Some c, ul, q @ [b])" using m1(3) Cons.prems(3,4) by simp
  from Cons.IH [OF _ m1(2) Cons.prems(3) this] Cons.prems(1) m1(1) show ?case by auto
qed simp

lemma take_blocks_view:
  assumes "umac_wf m" and "slot_ok ts" and "slot_view m ts = (Some c, ul, q)"
  shows "\<exists>m'. take_blocks m ts (length q) = Some (map Some q, m') \<and> umac_wf m' \<and> slot_view m' ts = (Some c, ul, [])"
  using assms
proof (induction q arbitrary: m)
  case (Cons b q)
  from umac_take_view [OF Cons.prems(1,2)] obtain m1 where m1: "umac_take_block m ts = Some (fst (take_view (slot_view m ts)), m1)"
    "umac_wf m1" "\<forall>t. slot_ok t \<longrightarrow> slot_view m1 t = (if t = ts then snd (take_view (slot_view m t)) else slot_view m t)" by blast
  have "slot_view m1 ts = (Some c, ul, q)" using m1(3) Cons.prems(2,3) by simp
  from Cons.IH [OF m1(2) Cons.prems(2) this] m1(1) Cons.prems(3) show ?case by auto
qed simp

section \<open>Properties\<close>

text \<open>In every reachable table, opening a circuit on a timeslot 1 to 4 succeeds, replaces only the
  circuit of its slot and direction, and a downlink circuit starts with an empty queue, so that a
  block queued for one call is never sent on the circuit of a later one.\<close>

lemma umac_open_isolates:
  assumes "umac_reachable m" and "slot_ok (ci_ts c)" and "dir \<in> {DirDl, DirUl}"
  shows "\<exists>m'. umac_create_circuit m dir c = Some m' \<and>
    (\<forall>t. slot_ok t \<longrightarrow> slot_view m' t = (if t = ci_ts c then open_view dir c (slot_view m t) else slot_view m t))"
proof -
  have "umac_wf m" using umac_inv_reachable [OF assms(1)] by (simp add: umac_inv_def)
  from umac_create_view [OF this assms(2,3)] show ?thesis by blast
qed

theorem umac_open_isolates_witness:
  "\<exists>m'. umac_create_circuit umac_new DirDl \<lparr>ci_call_id = 5, ci_direction = DirDl, ci_ts = 2, ci_usage = 4,
     ci_circuit_mode = TchS_mode, ci_speech_service = None, ci_etee_encrypted = False\<rparr> = Some m' \<and> snd (snd (slot_view m' 2)) = []"
proof -
  let ?c = "\<lparr>ci_call_id = 5, ci_direction = DirDl, ci_ts = 2, ci_usage = 4,
     ci_circuit_mode = TchS_mode, ci_speech_service = None, ci_etee_encrypted = False\<rparr>"
  have "slot_ok (ci_ts ?c)" "DirDl \<in> {DirDl, DirUl}" by (simp_all add: slot_ok_def)
  from umac_open_isolates [OF umac_reachable.start this] obtain m' where "umac_create_circuit umac_new DirDl ?c = Some m'"
    "\<forall>t. slot_ok t \<longrightarrow> slot_view m' t = (if t = ci_ts ?c then open_view DirDl ?c (slot_view umac_new t) else slot_view umac_new t)"
    by blast
  moreover have "slot_ok 2" by (simp add: slot_ok_def)
  ultimately show ?thesis by (cases "slot_view umac_new 2") auto
qed

text \<open>C15: The downlink queue of an open circuit is first in, first out: blocks put into an empty queue come
  out in the same order, each exactly once, and without a downlink circuit the queue is empty.\<close>

theorem umac_queue_fifo:
  assumes "umac_reachable m" and "slot_ok ts"
  shows "case slot_view m ts of
      (None, ul, q) \<Rightarrow> q = []
    | (Some c, ul, q) \<Rightarrow> \<exists>m1 m2. put_blocks m ts bs = Some m1 \<and>
        take_blocks m1 ts (length q + length bs) = Some (map Some (q @ bs), m2) \<and> slot_view m2 ts = (Some c, ul, [])"
proof -
  have i: "umac_inv m" by (rule umac_inv_reachable [OF assms(1)])
  then have w: "umac_wf m" by (simp add: umac_inv_def)
  show ?thesis
  proof (cases "slot_view m ts")
    case (fields dl ul q)
    show ?thesis
    proof (cases dl)
      case None
      then show ?thesis using i assms(2) fields by (force simp: umac_inv_def)
    next
      case (Some c)
      with fields have v: "slot_view m ts = (Some c, ul, q)" by simp
      obtain m1 where m1: "put_blocks m ts bs = Some m1" "umac_wf m1" "slot_view m1 ts = (Some c, ul, q @ bs)"
        using put_blocks_view [OF w assms(2) v] .
      from take_blocks_view [OF m1(2) assms(2) m1(3)] m1(1) v show ?thesis by auto
    qed
  qed
qed

theorem umac_queue_fifo_witness:
  "snd (snd (slot_view umac_new 3)) = []"
  using umac_queue_fifo [OF umac_reachable.start, of 3 "[]"] by (auto simp: slot_ok_def slot_view_def umac_new_def)

end
