(* ===== verification/Cmce_Circuits.thy ===== *)
theory Cmce_Circuits
  imports Circuit_Types Timeslot_Alloc
begin

text \<open>
  The circuit manager of call control, \<^verbatim>\<open>crates/tetra-entities/src/cmce/components/circuit_mgr.rs\<close>, with
  the circuit of \<^verbatim>\<open>crates/tetra-pdus/src/cmce/structs/cmce_circuit.rs\<close>. A call that can panic has an
  \<open>option\<close> result, an operation that returns a \<open>Result\<close> the sum of \<open>circuit_err\<close> and its value;
  the manager is threaded through. The references that the source returns are the circuits they
  point to.

  The hash map of due times is only looked up, extended and shrunk by key, so it is a partial
  function; the sets of call identifiers that \<open>tick_start\<close> receives are predicates.
\<close>

section \<open>State\<close>

record cmce_circuit =
  ts_created :: tdma_time
  circuit_direction :: direction
  circuit_ts :: nat
  call_id :: nat
  usage :: nat
  circuit_mode :: circuit_mode_type
  comm_type :: communication_type
  simplex_duplex :: bool
  speech_service :: "nat option"
  etee_encrypted :: bool

definition LATE_ENTRY_INTERVAL_TIMESLOTS :: int where
  "LATE_ENTRY_INTERVAL_TIMESLOTS = 1 * 18 * 4"

datatype circuit_err = NoCircuitFree | CircuitAlreadyInUse | CircuitNotActive

datatype circuit_mgr_cmd = SendDSetup nat nat nat | SendClose nat cmce_circuit

record circuit_mgr =
  dltime :: tdma_time
  dl :: "cmce_circuit option list"
  ul_only :: "cmce_circuit option list"
  tx_data :: "u8 list list list"
  next_late_entry_d_setups :: "nat \<rightharpoonup> tdma_time"
  next_call_identifier :: nat
  next_usage_number :: nat

definition new_mgr :: circuit_mgr where
  "new_mgr = \<lparr>dltime = default_time, dl = replicate 4 None, ul_only = replicate 4 None, tx_data = replicate 4 [],
     next_late_entry_d_setups = Map.empty, next_call_identifier = 4, next_usage_number = 4\<rparr>"

section \<open>Queries\<close>

definition is_active :: "circuit_mgr \<Rightarrow> nat \<Rightarrow> (bool \<times> bool) option" where
  "is_active m ts = do {
     d \<leftarrow> slot_get (dl m) ts;
     u \<leftarrow> slot_get (ul_only m) ts;
     Some (case d of
         Some d \<Rightarrow> if circuit_direction d = DirBoth then (True, True) else (True, u \<noteq> None)
       | None \<Rightarrow> (False, u \<noteq> None)) }"

definition is_active_dir :: "circuit_mgr \<Rightarrow> nat \<Rightarrow> direction \<Rightarrow> bool option" where
  "is_active_dir m ts dir = (case dir of
       DirDl \<Rightarrow> map_option (\<lambda>c. c \<noteq> None) (slot_get (dl m) ts)
     | DirUl \<Rightarrow> do {
         d \<leftarrow> slot_get (dl m) ts;
         u \<leftarrow> slot_get (ul_only m) ts;
         dl_is_both \<leftarrow> (case d of
             Some d \<Rightarrow> do { guard (u = None); Some (circuit_direction d = DirBoth) }
           | None \<Rightarrow> Some False);
         Some (u \<noteq> None \<or> dl_is_both) }
     | _ \<Rightarrow> None)"

definition get_usage :: "circuit_mgr \<Rightarrow> nat \<Rightarrow> (nat option \<times> nat option) option" where
  "get_usage m ts = do {
     d \<leftarrow> slot_get (dl m) ts;
     let (dl_usage, dl_is_both) = (case d of Some d \<Rightarrow> (Some (usage d), circuit_direction d = DirBoth) | None \<Rightarrow> (None, False));
     u \<leftarrow> slot_get (ul_only m) ts;
     ul_usage \<leftarrow> (if dl_is_both then do { guard (u = None); Some dl_usage } else Some (map_option usage u));
     Some (dl_usage, ul_usage) }"

definition call_id_at :: "circuit_mgr \<Rightarrow> nat \<Rightarrow> direction \<Rightarrow> nat option option" where
  "call_id_at m ts dir =
     (if \<not> (1 \<le> ts \<and> ts \<le> 4) then Some None
      else (case dir of
          DirNone \<Rightarrow> Some None
        | DirUl \<Rightarrow> do {
            u \<leftarrow> slot_get (ul_only m) ts;
            d \<leftarrow> slot_get (dl m) ts;
            Some (case map_option call_id u of
                Some c \<Rightarrow> Some c
              | None \<Rightarrow> (case d of Some d \<Rightarrow> if circuit_direction d = DirBoth then Some (call_id d) else None | None \<Rightarrow> None)) }
        | _ \<Rightarrow> map_option (map_option call_id) (slot_get (dl m) ts)))"

section \<open>Identifiers\<close>

definition get_next_call_id :: "circuit_mgr \<Rightarrow> nat \<times> circuit_mgr" where
  "get_next_call_id m = (let c = next_call_identifier m; n = (c + 1) mod 65536 in
     (c, m\<lparr>next_call_identifier := (if n > 0x3ff then 1 else n)\<rparr>))"

definition get_next_usage_number :: "circuit_mgr \<Rightarrow> nat \<times> circuit_mgr" where
  "get_next_usage_number m = (let u = next_usage_number m; n = u8_add u 1 in
     (u, m\<lparr>next_usage_number := (if n > 63 then 4 else n)\<rparr>))"

definition schedule_next_late_entry_d_setup :: "circuit_mgr \<Rightarrow> nat \<Rightarrow> circuit_mgr" where
  "schedule_next_late_entry_d_setup m c = m\<lparr>next_late_entry_d_setups :=
     (next_late_entry_d_setups m)(c \<mapsto> add_timeslots (dltime m) LATE_ENTRY_INTERVAL_TIMESLOTS)\<rparr>"

section \<open>Opening and closing\<close>

text \<open>One iteration of the search loop; the \<open>unwrap\<close> is on the circuit that \<open>dl_active\<close> reports.\<close>

definition ts_suits :: "circuit_mgr \<Rightarrow> direction \<Rightarrow> nat \<Rightarrow> bool option" where
  "ts_suits m dir ts = do {
     (dl_active, ul_active) \<leftarrow> is_active m ts;
     if dir = DirDl \<and> \<not> dl_active then Some True
     else if dir = DirUl \<and> \<not> dl_active \<and> \<not> ul_active then Some True
     else if dir = DirUl \<and> dl_active \<and> \<not> ul_active then do {
       d \<leftarrow> slot_get (dl m) ts;
       d \<leftarrow> d;
       Some (circuit_direction d \<noteq> DirBoth) }
     else Some (dir = DirBoth \<and> \<not> dl_active \<and> \<not> ul_active) }"

fun first_ts :: "circuit_mgr \<Rightarrow> direction \<Rightarrow> nat list \<Rightarrow> (circuit_err + nat) option" where
  "first_ts m dir [] = Some (Inl NoCircuitFree)"
| "first_ts m dir (ts # rest) = do { s \<leftarrow> ts_suits m dir ts; if s then Some (Inr ts) else first_ts m dir rest }"

definition get_free_ts :: "circuit_mgr \<Rightarrow> direction \<Rightarrow> (circuit_err + nat) option" where
  "get_free_ts m dir = first_ts m dir [2, 3, 4]"

definition open_circuit ::
  "circuit_mgr \<Rightarrow> direction \<Rightarrow> cmce_circuit \<Rightarrow> ((circuit_err + cmce_circuit) \<times> circuit_mgr) option" where
  "open_circuit m dir c = do {
     let ts = circuit_ts c;
     (dl_active, ul_active) \<leftarrow> is_active m ts;
     if includes_dl dir \<and> dl_active then Some (Inl CircuitAlreadyInUse, m)
     else if includes_ul dir \<and> ul_active then Some (Inl CircuitAlreadyInUse, m)
     else case dir of
         DirUl \<Rightarrow> do {
           u \<leftarrow> slot_put (ul_only m) ts (Some c);
           Some (Inr c, m\<lparr>ul_only := u\<rparr>) }
       | DirNone \<Rightarrow> None
       | _ \<Rightarrow> do {
           q \<leftarrow> slot_get (tx_data m) ts;
           m \<leftarrow> (if q \<noteq> [] then map_option (\<lambda>t. m\<lparr>tx_data := t\<rparr>) (slot_put (tx_data m) ts []) else Some m);
           d \<leftarrow> slot_put (dl m) ts (Some c);
           Some (Inr c, m\<lparr>dl := d\<rparr>) } }"

definition close_circuit ::
  "circuit_mgr \<Rightarrow> direction \<Rightarrow> nat \<Rightarrow> ((circuit_err + cmce_circuit) \<times> circuit_mgr) option" where
  "close_circuit m dir ts = (case dir of
       DirNone \<Rightarrow> None
     | DirUl \<Rightarrow> do {
         c \<leftarrow> slot_get (ul_only m) ts;
         u \<leftarrow> slot_put (ul_only m) ts None;
         Some (case c of Some c \<Rightarrow> Inr c | None \<Rightarrow> Inl CircuitNotActive, m\<lparr>ul_only := u\<rparr>) }
     | _ \<Rightarrow> do {
         t \<leftarrow> slot_put (tx_data m) ts [];
         c \<leftarrow> slot_get (dl m) ts;
         d \<leftarrow> slot_put (dl m) ts None;
         let m = m\<lparr>tx_data := t, dl := d\<rparr>;
         Some (case c of
             Some c \<Rightarrow> (Inr c, m\<lparr>next_late_entry_d_setups := (next_late_entry_d_setups m)(call_id c := None)\<rparr>)
           | None \<Rightarrow> (Inl CircuitNotActive, m)) })"

definition mk_circuit :: "circuit_mgr \<Rightarrow> direction \<Rightarrow> communication_type \<Rightarrow> bool \<Rightarrow> nat \<Rightarrow> nat \<Rightarrow> nat \<Rightarrow> cmce_circuit" where
  "mk_circuit m dir ct duplex ts cid us = \<lparr>ts_created = dltime m, circuit_direction = dir, circuit_ts = ts, call_id = cid,
     usage = us, circuit_mode = TchS_mode, comm_type = ct, simplex_duplex = duplex, speech_service = Some 0,
     etee_encrypted = False\<rparr>"

definition allocate_circuit ::
  "circuit_mgr \<Rightarrow> direction \<Rightarrow> communication_type \<Rightarrow> ((circuit_err + cmce_circuit) \<times> circuit_mgr) option" where
  "allocate_circuit m dir ct = do {
     r \<leftarrow> get_free_ts m dir;
     case r of
       Inl e \<Rightarrow> Some (Inl e, m)
     | Inr ts \<Rightarrow>
         (let (cid, m) = get_next_call_id m; (us, m) = get_next_usage_number m
          in open_circuit m dir (mk_circuit m dir ct False ts cid us)) }"

definition allocate_circuit_with_allocator ::
  "circuit_mgr \<Rightarrow> direction \<Rightarrow> communication_type \<Rightarrow> timeslot_allocator \<Rightarrow> timeslot_owner
     \<Rightarrow> ((circuit_err + cmce_circuit) \<times> circuit_mgr \<times> timeslot_allocator) option" where
  "allocate_circuit_with_allocator m dir ct a ow =
     (case allocate_any ow a of
        (None, a) \<Rightarrow> Some (Inl NoCircuitFree, m, a)
      | (Some ts, a) \<Rightarrow>
          (let (cid, m) = get_next_call_id m; (us, m) = get_next_usage_number m
           in map_option (\<lambda>(r, m). (r, m, a)) (open_circuit m dir (mk_circuit m dir ct False ts cid us))))"

definition allocate_circuit_with_allocator_and_call_id_and_mode ::
  "circuit_mgr \<Rightarrow> direction \<Rightarrow> communication_type \<Rightarrow> timeslot_allocator \<Rightarrow> timeslot_owner \<Rightarrow> nat \<Rightarrow> bool
     \<Rightarrow> ((circuit_err + cmce_circuit) \<times> circuit_mgr \<times> timeslot_allocator) option" where
  "allocate_circuit_with_allocator_and_call_id_and_mode m dir ct a ow cid duplex =
     (if cid = 0 \<or> cid > 0x3fff then Some (Inl CircuitAlreadyInUse, m, a)
      else (case allocate_any ow a of
        (None, a) \<Rightarrow> Some (Inl NoCircuitFree, m, a)
      | (Some ts, a) \<Rightarrow>
          (let (us, m) = get_next_usage_number m
           in map_option (\<lambda>(r, m). (r, m, a)) (open_circuit m dir (mk_circuit m dir ct duplex ts cid us)))))"

definition allocate_circuit_with_allocator_and_call_id ::
  "circuit_mgr \<Rightarrow> direction \<Rightarrow> communication_type \<Rightarrow> timeslot_allocator \<Rightarrow> timeslot_owner \<Rightarrow> nat
     \<Rightarrow> ((circuit_err + cmce_circuit) \<times> circuit_mgr \<times> timeslot_allocator) option" where
  "allocate_circuit_with_allocator_and_call_id m dir ct a ow cid =
     allocate_circuit_with_allocator_and_call_id_and_mode m dir ct a ow cid False"

section \<open>Queues\<close>

definition put_block :: "circuit_mgr \<Rightarrow> nat \<Rightarrow> u8 list \<Rightarrow> ((circuit_err + unit) \<times> circuit_mgr) option" where
  "put_block m ts block = do {
     active \<leftarrow> is_active_dir m ts DirDl;
     if \<not> active then Some (Inl CircuitNotActive, m)
     else do {
       q \<leftarrow> slot_get (tx_data m) ts;
       t \<leftarrow> slot_put (tx_data m) ts (q @ [block]);
       Some (Inr (), m\<lparr>tx_data := t\<rparr>) } }"

definition take_block :: "circuit_mgr \<Rightarrow> nat \<Rightarrow> ((circuit_err + u8 list option) \<times> circuit_mgr) option" where
  "take_block m ts = do {
     active \<leftarrow> is_active_dir m ts DirDl;
     if \<not> active then Some (Inl CircuitNotActive, m)
     else do {
       q \<leftarrow> slot_get (tx_data m) ts;
       case q of
         [] \<Rightarrow> Some (Inr None, m)
       | b # rest \<Rightarrow> do { t \<leftarrow> slot_put (tx_data m) ts rest; Some (Inr (Some b), m\<lparr>tx_data := t\<rparr>) } } }"

section \<open>The periodic tick\<close>

definition CIRCUIT_EXPIRY_TIMESLOTS :: int where
  "CIRCUIT_EXPIRY_TIMESLOTS = 6 * 60 * 18 * 4"

definition push_cmd :: "circuit_mgr_cmd list option \<Rightarrow> circuit_mgr_cmd \<Rightarrow> circuit_mgr_cmd list option" where
  "push_cmd tasks c = Some ((case tasks of Some cs \<Rightarrow> cs | None \<Rightarrow> []) @ [c])"

definition some_of :: "'a option list \<Rightarrow> 'a list" where
  "some_of cs = map the (filter (\<lambda>c. c \<noteq> None) cs)"

definition expired_in :: "circuit_mgr \<Rightarrow> (nat \<Rightarrow> bool) \<Rightarrow> cmce_circuit option list \<Rightarrow> (direction \<times> nat \<times> nat) list" where
  "expired_in m protected cs = map (\<lambda>c. (circuit_direction c, circuit_ts c, call_id c))
     (filter (\<lambda>c. age (ts_created c) (dltime m) > CIRCUIT_EXPIRY_TIMESLOTS)
       (filter (\<lambda>c. \<not> protected (call_id c)) (some_of cs)))"

text \<open>The loop; the \<open>unwrap\<close> of \<open>close_circuit\<close> panics on its error.\<close>

fun close_all ::
  "circuit_mgr \<Rightarrow> circuit_mgr_cmd list option \<Rightarrow> (direction \<times> nat \<times> nat) list \<Rightarrow> (circuit_mgr_cmd list option \<times> circuit_mgr) option" where
  "close_all m tasks [] = Some (tasks, m)"
| "close_all m tasks ((dir, ts, cid) # rest) = do {
     (r, m) \<leftarrow> close_circuit m dir ts;
     case r of
       Inl e \<Rightarrow> None
     | Inr c \<Rightarrow> close_all m (push_cmd tasks (SendClose cid c)) rest }"

definition close_expired_circuits ::
  "circuit_mgr \<Rightarrow> circuit_mgr_cmd list option \<Rightarrow> (nat \<Rightarrow> bool) \<Rightarrow> (circuit_mgr_cmd list option \<times> circuit_mgr) option" where
  "close_expired_circuits m tasks protected =
     close_all m tasks (expired_in m protected (dl m) @ expired_in m protected (ul_only m))"

text \<open>The body of the late-entry loop for one circuit.\<close>

definition late_entry_step ::
  "cmce_circuit \<Rightarrow> circuit_mgr_cmd list option \<times> circuit_mgr \<Rightarrow> circuit_mgr_cmd list option \<times> circuit_mgr" where
  "late_entry_step c = (\<lambda>(tasks, m).
     if comm_type c = P2p then (tasks, m)
     else (let due_at = (case next_late_entry_d_setups m (call_id c) of
             Some t \<Rightarrow> t | None \<Rightarrow> add_timeslots (ts_created c) LATE_ENTRY_INTERVAL_TIMESLOTS)
       in if age due_at (dltime m) \<ge> 0
          then (push_cmd tasks (SendDSetup (call_id c) (usage c) (circuit_ts c)),
                m\<lparr>next_late_entry_d_setups := (next_late_entry_d_setups m)
                    (call_id c \<mapsto> add_timeslots (dltime m) LATE_ENTRY_INTERVAL_TIMESLOTS)\<rparr>)
          else (tasks, m\<lparr>next_late_entry_d_setups := (next_late_entry_d_setups m)(call_id c \<mapsto> due_at)\<rparr>)))"

definition tick_start ::
  "circuit_mgr \<Rightarrow> tdma_time \<Rightarrow> (nat \<Rightarrow> bool) \<Rightarrow> (nat \<Rightarrow> bool) \<Rightarrow> (circuit_mgr_cmd list option \<times> circuit_mgr) option" where
  "tick_start m now lifetime_protected late_entry =
     (let m = m\<lparr>dltime := now\<rparr> in
      if time_t now = 1 then do {
        (tasks, m) \<leftarrow> close_expired_circuits m None lifetime_protected;
        let circuits = filter (\<lambda>c. late_entry (call_id c)) (some_of (dl m));
        Some (fold late_entry_step circuits (tasks, m)) }
      else Some (None, m))"

section \<open>The invariant\<close>

text \<open>
  Per slot: a circuit is filed under its own timeslot, downlink and two-way circuits in \<open>dl\<close>, uplink
  ones in \<open>ul_only\<close>; a two-way circuit excludes a separate uplink circuit; blocks are queued only where
  there is a downlink circuit. The two counters stay in their documented ranges.
\<close>

definition cslot :: "circuit_mgr \<Rightarrow> nat \<Rightarrow> cmce_circuit option \<times> cmce_circuit option \<times> u8 list list" where
  "cslot m ts = (dl m ! (ts - 1), ul_only m ! (ts - 1), tx_data m ! (ts - 1))"

fun cslot_ok :: "nat \<Rightarrow> cmce_circuit option \<times> cmce_circuit option \<times> u8 list list \<Rightarrow> bool" where
  "cslot_ok ts (d, u, q) \<longleftrightarrow>
     (case d of None \<Rightarrow> q = []
      | Some c \<Rightarrow> circuit_ts c = ts \<and> (circuit_direction c = DirDl \<or> circuit_direction c = DirBoth \<and> u = None))
   \<and> (case u of None \<Rightarrow> True | Some c \<Rightarrow> circuit_ts c = ts \<and> circuit_direction c = DirUl)"

lemma cslot_ok_dl: "\<lbrakk>cslot_ok ts v; fst v = Some c\<rbrakk> \<Longrightarrow> circuit_ts c = ts \<and> circuit_direction c \<noteq> DirUl \<and> circuit_direction c \<noteq> DirNone"
  by (cases v) auto

lemma cslot_ok_ul: "\<lbrakk>cslot_ok ts v; fst (snd v) = Some c\<rbrakk> \<Longrightarrow> circuit_ts c = ts \<and> circuit_direction c = DirUl"
  by (cases v) auto

definition cm_wf :: "circuit_mgr \<Rightarrow> bool" where
  "cm_wf m \<longleftrightarrow> length (dl m) = 4 \<and> length (ul_only m) = 4 \<and> length (tx_data m) = 4"

definition ids_ok :: "circuit_mgr \<Rightarrow> bool" where
  "ids_ok m \<longleftrightarrow> next_call_identifier m \<in> {1..0x3ff} \<and> next_usage_number m \<in> {4..63}"

definition cm_inv :: "circuit_mgr \<Rightarrow> bool" where
  "cm_inv m \<longleftrightarrow> cm_wf m \<and> ids_ok m \<and> (\<forall>ts. slot_ok ts \<longrightarrow> cslot_ok ts (cslot m ts))"

text \<open>The effect of an operation on one slot.\<close>

definition changes :: "circuit_mgr \<Rightarrow> circuit_mgr \<Rightarrow> nat \<Rightarrow> cmce_circuit option \<times> cmce_circuit option \<times> u8 list list \<Rightarrow> bool" where
  "changes m m' ts v \<longleftrightarrow> cm_wf m' \<and> next_call_identifier m' = next_call_identifier m \<and> next_usage_number m' = next_usage_number m
     \<and> dltime m' = dltime m \<and> (\<forall>t. slot_ok t \<longrightarrow> cslot m' t = (if t = ts then v else cslot m t))"

lemma changes_inv: "\<lbrakk>cm_inv m; changes m m' ts v; cslot_ok ts v\<rbrakk> \<Longrightarrow> cm_inv m'"
  by (auto simp: cm_inv_def changes_def ids_ok_def)

lemma cm_inv_slot: "\<lbrakk>cm_inv m; slot_ok ts\<rbrakk> \<Longrightarrow> cslot_ok ts (cslot m ts)"
  by (simp add: cm_inv_def)

lemma cm_inv_wf: "cm_inv m \<Longrightarrow> cm_wf m"
  by (simp add: cm_inv_def)

lemmas cslot_defs = cm_wf_def cslot_def slot_get_Some slot_put_Some slot_nth_update

lemma is_active_eq:
  assumes "cm_wf m" and "slot_ok ts" and "cslot m ts = (d, u, q)"
  shows "is_active m ts = Some (d \<noteq> None, u \<noteq> None \<or> (\<exists>c. d = Some c \<and> circuit_direction c = DirBoth))"
  using assms by (auto simp: is_active_def cslot_defs split: option.splits)

fun opened :: "direction \<Rightarrow> cmce_circuit \<Rightarrow> cmce_circuit option \<times> cmce_circuit option \<times> u8 list list
    \<Rightarrow> cmce_circuit option \<times> cmce_circuit option \<times> u8 list list" where
  "opened DirUl c (d, u, q) = (d, Some c, q)"
| "opened _ c (d, u, q) = (Some c, u, [])"

definition blocked :: "direction \<Rightarrow> cmce_circuit option \<times> cmce_circuit option \<times> u8 list list \<Rightarrow> bool" where
  "blocked dir = (\<lambda>(d, u, q). includes_dl dir \<and> d \<noteq> None
     \<or> includes_ul dir \<and> (u \<noteq> None \<or> (\<exists>c. d = Some c \<and> circuit_direction c = DirBoth)))"

lemma open_circuit_blocked:
  assumes "cm_wf m" and "slot_ok (circuit_ts c)" and "blocked dir (cslot m (circuit_ts c))"
  shows "open_circuit m dir c = Some (Inl CircuitAlreadyInUse, m)"
  using assms by (cases "cslot m (circuit_ts c)") (auto simp: open_circuit_def blocked_def is_active_eq Let_def)

lemma open_circuit_opens:
  assumes "cm_wf m" and "slot_ok (circuit_ts c)" and "\<not> blocked dir (cslot m (circuit_ts c))" and "dir \<noteq> DirNone"
  shows "\<exists>m'. open_circuit m dir c = Some (Inr c, m') \<and> changes m m' (circuit_ts c) (opened dir c (cslot m (circuit_ts c)))
    \<and> next_late_entry_d_setups m' = next_late_entry_d_setups m"
proof -
  obtain d u q where v: "cslot m (circuit_ts c) = (d, u, q)" by (cases "cslot m (circuit_ts c)")
  have f: "dl m ! (circuit_ts c - Suc 0) = d" "ul_only m ! (circuit_ts c - Suc 0) = u" "tx_data m ! (circuit_ts c - Suc 0) = q"
    using v by (simp_all add: cslot_def)
  show ?thesis using assms
    by (cases dir)
       (auto simp: open_circuit_def is_active_eq [OF assms(1,2) v] v f blocked_def includes_dl_def includes_ul_def
         changes_def Let_def cslot_defs)
qed

lemma opened_ok:
  assumes "cslot_ok ts v" and "\<not> blocked dir v" and "dir \<noteq> DirNone" and "circuit_ts c = ts" and "circuit_direction c = dir"
  shows "cslot_ok ts (opened dir c v)"
  using assms by (cases v; cases dir) (auto simp: blocked_def includes_dl_def includes_ul_def split: option.splits)

fun closed :: "direction \<Rightarrow> cmce_circuit option \<times> cmce_circuit option \<times> u8 list list
    \<Rightarrow> cmce_circuit option \<times> cmce_circuit option \<times> u8 list list" where
  "closed DirUl (d, u, q) = (d, None, q)"
| "closed _ (d, u, q) = (None, u, [])"

fun to_close :: "direction \<Rightarrow> cmce_circuit option \<times> cmce_circuit option \<times> u8 list list \<Rightarrow> cmce_circuit option" where
  "to_close DirUl (d, u, q) = u"
| "to_close _ (d, u, q) = d"

lemma to_close_fst: "dir \<noteq> DirUl \<Longrightarrow> to_close dir v = fst v"
  by (cases v; cases dir) auto

lemma to_close_snd: "to_close DirUl v = fst (snd v)"
  by (cases v) auto

lemma close_circuit_closes:
  assumes "cm_wf m" and "slot_ok ts" and "dir \<noteq> DirNone"
  shows "\<exists>m'. close_circuit m dir ts = Some (case to_close dir (cslot m ts) of Some c \<Rightarrow> Inr c | None \<Rightarrow> Inl CircuitNotActive, m')
    \<and> changes m m' ts (closed dir (cslot m ts))"
  using assms by (cases dir) (auto simp: close_circuit_def changes_def cslot_defs split: option.splits)

lemma closed_ok: "cslot_ok ts v \<Longrightarrow> cslot_ok ts (closed dir v)"
  by (cases v; cases dir) (auto split: option.splits)

section \<open>Identifiers\<close>

lemma get_next_call_id_eq:
  assumes "ids_ok m"
  shows "get_next_call_id m = (next_call_identifier m, m\<lparr>next_call_identifier := next_call_identifier m mod 1023 + 1\<rparr>)"
proof -
  have "next_call_identifier m < 1023 \<or> next_call_identifier m = 1023" using assms by (auto simp: ids_ok_def)
  then show ?thesis by (auto simp: get_next_call_id_def Let_def)
qed

lemma get_next_usage_number_eq:
  assumes "ids_ok m"
  shows "get_next_usage_number m = (next_usage_number m, m\<lparr>next_usage_number := (next_usage_number m - 3) mod 60 + 4\<rparr>)"
proof -
  have "next_usage_number m < 63 \<or> next_usage_number m = 63" "4 \<le> next_usage_number m" using assms by (auto simp: ids_ok_def)
  then show ?thesis by (auto simp: get_next_usage_number_def Let_def u8_add_def)
qed

lemma ids_ok_next: "ids_ok m \<Longrightarrow> ids_ok (snd (get_next_call_id m))" "ids_ok m \<Longrightarrow> ids_ok (snd (get_next_usage_number m))"
proof -
  assume i: "ids_ok m"
  have "next_call_identifier m mod 1023 < 1023" "(next_usage_number m - 3) mod 60 < 60" by simp_all
  then have "next_call_identifier m mod 1023 + 1 \<in> {1..0x3ff}" "(next_usage_number m - 3) mod 60 + 4 \<in> {4..63}" by auto
  then show "ids_ok (snd (get_next_call_id m))" "ids_ok (snd (get_next_usage_number m))"
    using i by (simp_all add: get_next_call_id_eq get_next_usage_number_eq ids_ok_def)
qed

lemma cslot_ids [simp]:
  "cslot (m\<lparr>next_call_identifier := a\<rparr>) ts = cslot m ts" "cslot (m\<lparr>next_usage_number := b\<rparr>) ts = cslot m ts"
  "cslot (m\<lparr>next_late_entry_d_setups := s\<rparr>) ts = cslot m ts" "cslot (m\<lparr>dltime := t\<rparr>) ts = cslot m ts"
  "cm_wf (m\<lparr>next_call_identifier := a\<rparr>) = cm_wf m" "cm_wf (m\<lparr>next_usage_number := b\<rparr>) = cm_wf m"
  "cm_wf (m\<lparr>next_late_entry_d_setups := s\<rparr>) = cm_wf m" "cm_wf (m\<lparr>dltime := t\<rparr>) = cm_wf m"
  by (simp_all add: cslot_def cm_wf_def)

lemma cm_inv_ids: "cm_inv m \<Longrightarrow> cm_inv (snd (get_next_call_id m))" "cm_inv m \<Longrightarrow> cm_inv (snd (get_next_usage_number m))"
  using ids_ok_next [of m] by (auto simp: cm_inv_def get_next_call_id_def get_next_usage_number_def Let_def)

section \<open>Allocation\<close>

lemma ts_suits_eq:
  assumes "cm_wf m" and "slot_ok ts"
  shows "ts_suits m dir ts = Some (dir \<noteq> DirNone \<and> \<not> blocked dir (cslot m ts))"
proof -
  obtain d u q where v: "cslot m ts = (d, u, q)" by (cases "cslot m ts")
  have f: "slot_get (dl m) ts = Some d" using assms v by (auto simp: cslot_defs)
  show ?thesis
    by (cases dir) (auto simp: ts_suits_def is_active_eq [OF assms v] v f blocked_def includes_dl_def includes_ul_def)
qed

lemma first_ts_find:
  "\<lbrakk>cm_wf m; \<forall>ts \<in> set tss. slot_ok ts; dir \<noteq> DirNone\<rbrakk> \<Longrightarrow>
    first_ts m dir tss = Some (case find (\<lambda>ts. \<not> blocked dir (cslot m ts)) tss of Some ts \<Rightarrow> Inr ts | None \<Rightarrow> Inl NoCircuitFree)"
  by (induction tss) (auto simp: ts_suits_eq)

lemma get_free_ts_find:
  assumes "cm_wf m" and "dir \<noteq> DirNone"
  shows "get_free_ts m dir = Some (case find (\<lambda>ts. \<not> blocked dir (cslot m ts)) [2, 3, 4] of Some ts \<Rightarrow> Inr ts | None \<Rightarrow> Inl NoCircuitFree)"
  unfolding get_free_ts_def by (rule first_ts_find [OF assms(1) _ assms(2)]) (simp add: slot_ok_def)

text \<open>Opening a new circuit in a slot that does not exclude it.\<close>

lemma open_new:
  assumes "cm_inv m" and "slot_ok ts" and "\<not> blocked dir (cslot m ts)" and "dir \<noteq> DirNone"
    and "circuit_ts c = ts" and "circuit_direction c = dir"
  shows "\<exists>m'. open_circuit m dir c = Some (Inr c, m') \<and> changes m m' ts (opened dir c (cslot m ts)) \<and> cm_inv m'
    \<and> next_late_entry_d_setups m' = next_late_entry_d_setups m"
  using open_circuit_opens [OF cm_inv_wf [OF assms(1)], of c dir] assms
    changes_inv [OF assms(1) _ opened_ok [OF cm_inv_slot [OF assms(1,2)] assms(3-6)]] by auto

lemma mk_circuit_fields [simp]:
  "circuit_ts (mk_circuit m dir ct du ts cid us) = ts" "circuit_direction (mk_circuit m dir ct du ts cid us) = dir"
  "call_id (mk_circuit m dir ct du ts cid us) = cid" "usage (mk_circuit m dir ct du ts cid us) = us"
  by (simp_all add: mk_circuit_def)

text \<open>The circuit that an allocation with a local identifier makes.\<close>

definition next_circuit :: "circuit_mgr \<Rightarrow> direction \<Rightarrow> communication_type \<Rightarrow> nat \<Rightarrow> cmce_circuit" where
  "next_circuit m dir ct ts = mk_circuit m dir ct False ts (next_call_identifier m) (next_usage_number m)"

lemma alloc_at:
  assumes "cm_inv m" and "slot_ok ts" and "dir \<noteq> DirNone" and "\<not> blocked dir (cslot m ts)"
  shows "\<exists>m'. (let (cid, m) = get_next_call_id m; (us, m) = get_next_usage_number m
      in open_circuit m dir (mk_circuit m dir ct False ts cid us)) = Some (Inr (next_circuit m dir ct ts), m')
    \<and> cm_inv m' \<and> (\<forall>t. slot_ok t \<longrightarrow> cslot m' t = (if t = ts then opened dir (next_circuit m dir ct ts) (cslot m ts) else cslot m t))"
proof -
  let ?m1 = "snd (get_next_call_id m)" let ?m2 = "snd (get_next_usage_number ?m1)"
  have i: "cm_inv ?m2" using assms(1) by (simp add: cm_inv_ids)
  have c: "cslot ?m2 = cslot m" by (intro ext) (simp add: get_next_call_id_def get_next_usage_number_def Let_def)
  have f: "fst (get_next_call_id m) = next_call_identifier m" "fst (get_next_usage_number ?m1) = next_usage_number m"
    "dltime ?m2 = dltime m"
    by (simp_all add: get_next_call_id_def get_next_usage_number_def Let_def)
  have mk: "mk_circuit ?m2 dir ct False ts (next_call_identifier m) (next_usage_number m) = next_circuit m dir ct ts"
    using f(3) by (simp add: mk_circuit_def next_circuit_def)
  have n: "\<not> blocked dir (cslot ?m2 ts)" using assms(4) c by simp
  have "circuit_ts (next_circuit m dir ct ts) = ts" "circuit_direction (next_circuit m dir ct ts) = dir"
    by (simp_all add: next_circuit_def)
  from open_new [OF i assms(2) n assms(3) this] obtain m' where m':
    "open_circuit ?m2 dir (next_circuit m dir ct ts) = Some (Inr (next_circuit m dir ct ts), m')" "cm_inv m'"
    "changes ?m2 m' ts (opened dir (next_circuit m dir ct ts) (cslot ?m2 ts))" by blast
  then show ?thesis by (auto simp: split_beta Let_def f mk c changes_def)
qed

lemma alloc_at_blocked:
  assumes "cm_inv m" and "slot_ok ts" and "blocked dir (cslot m ts)"
  shows "\<exists>m'. (let (cid, m) = get_next_call_id m; (us, m) = get_next_usage_number m
      in open_circuit m dir (mk_circuit m dir ct False ts cid us)) = Some (Inl CircuitAlreadyInUse, m') \<and> cm_inv m'"
proof -
  let ?m2 = "snd (get_next_usage_number (snd (get_next_call_id m)))"
  have i: "cm_inv ?m2" using assms(1) by (simp add: cm_inv_ids)
  have "cslot ?m2 ts = cslot m ts" by (simp add: get_next_call_id_def get_next_usage_number_def Let_def)
  then show ?thesis using open_circuit_blocked [OF cm_inv_wf [OF i]] assms i by (simp add: split_beta Let_def)
qed

section \<open>Expired circuits\<close>

definition present :: "circuit_mgr \<Rightarrow> direction \<times> nat \<times> nat \<Rightarrow> bool" where
  "present m = (\<lambda>(dir, ts, cid). slot_ok ts \<and> dir \<noteq> DirNone \<and> to_close dir (cslot m ts) \<noteq> None)"

definition ckey :: "direction \<times> nat \<times> nat \<Rightarrow> bool \<times> nat" where
  "ckey = (\<lambda>(dir, ts, cid). (dir = DirUl, ts))"

text \<open>What remains of a slot when the circuits with the given keys are closed.\<close>

definition after_close :: "(bool \<times> nat) set \<Rightarrow> nat \<Rightarrow> cmce_circuit option \<times> cmce_circuit option \<times> u8 list list
    \<Rightarrow> cmce_circuit option \<times> cmce_circuit option \<times> u8 list list" where
  "after_close K ts = (\<lambda>(d, u, q). (if (False, ts) \<in> K then None else d, if (True, ts) \<in> K then None else u,
     if (False, ts) \<in> K then [] else q))"

lemma after_close_step:
  "dir \<noteq> DirNone \<Longrightarrow> after_close K t (if t = ts then closed dir v else v) = after_close (insert (ckey (dir, ts, cid)) K) t v"
  by (cases v; cases dir) (auto simp: after_close_def ckey_def)

lemma to_close_other:
  assumes "ckey (dir, ts, cid) \<noteq> ckey (dir', ts', cid')" and "dir \<noteq> DirNone" and "dir' \<noteq> DirNone"
  shows "to_close dir' (if ts' = ts then closed dir v else v) = to_close dir' v"
  using assms by (cases v; cases dir; cases dir') (auto simp: ckey_def)

lemma close_all_total:
  assumes "cm_inv m" and "\<forall>x \<in> set xs. present m x" and "distinct (map ckey xs)"
  shows "\<exists>m'. close_all m tasks xs = Some (fold (\<lambda>(dir, ts, cid) t. push_cmd t (SendClose cid (the (to_close dir (cslot m ts))))) xs tasks, m')
    \<and> cm_inv m' \<and> dltime m' = dltime m \<and> (\<forall>t. slot_ok t \<longrightarrow> cslot m' t = after_close (set (map ckey xs)) t (cslot m t))"
  using assms
proof (induction xs arbitrary: m tasks)
  case Nil
  then show ?case by (auto simp: after_close_def split: prod.splits)
next
  case (Cons x xs)
  obtain dir ts cid where x: "x = (dir, ts, cid)" by (cases x)
  have s: "slot_ok ts" "dir \<noteq> DirNone" "to_close dir (cslot m ts) \<noteq> None" using Cons.prems(2) x by (auto simp: present_def)
  then obtain c where c: "to_close dir (cslot m ts) = Some c" by blast
  from close_circuit_closes [OF cm_inv_wf [OF Cons.prems(1)] s(1,2)] c obtain m1 where
    m1: "close_circuit m dir ts = Some (Inr c, m1)" "changes m m1 ts (closed dir (cslot m ts))" by auto
  have i: "cm_inv m1" by (rule changes_inv [OF Cons.prems(1) m1(2) closed_ok [OF cm_inv_slot [OF Cons.prems(1) s(1)]]])
  have sl: "cslot m1 t = (if t = ts then closed dir (cslot m t) else cslot m t)" if "slot_ok t" for t
    using m1(2) that by (simp add: changes_def)
  have tc: "slot_ok ts' \<and> dir' \<noteq> DirNone \<and> to_close dir' (cslot m1 ts') = to_close dir' (cslot m ts')"
    if "(dir', ts', cid') \<in> set xs" for dir' ts' cid'
  proof -
    have p: "slot_ok ts'" "dir' \<noteq> DirNone" using Cons.prems(2) that by (auto simp: present_def)
    have "ckey (dir', ts', cid') \<in> ckey ` set xs" using that by blast
    then have "ckey (dir, ts, cid) \<noteq> ckey (dir', ts', cid')" using Cons.prems(3) x by auto
    from to_close_other [OF this s(2) p(2), of "cslot m ts'"] show ?thesis using p sl [OF p(1)] by simp
  qed
  have "\<forall>y \<in> set xs. present m1 y" using Cons.prems(2) tc by (auto simp: present_def)
  from Cons.IH [OF i this, of "push_cmd tasks (SendClose cid c)"] Cons.prems(3) obtain m' where
    m': "close_all m1 (push_cmd tasks (SendClose cid c)) xs = Some (fold (\<lambda>(dir, ts, cid) t. push_cmd t (SendClose cid
       (the (to_close dir (cslot m1 ts))))) xs (push_cmd tasks (SendClose cid c)), m')" "cm_inv m'" "dltime m' = dltime m1"
    "\<forall>t. slot_ok t \<longrightarrow> cslot m' t = after_close (set (map ckey xs)) t (cslot m1 t)" by auto
  have "fold (\<lambda>(dir, ts, cid) t. push_cmd t (SendClose cid (the (to_close dir (cslot m1 ts))))) xs t0
      = fold (\<lambda>(dir, ts, cid) t. push_cmd t (SendClose cid (the (to_close dir (cslot m ts))))) xs t0" for t0
    by (rule fold_cong) (use tc in \<open>auto split: prod.splits\<close>)
  moreover have "cslot m' t = after_close (set (map ckey (x # xs))) t (cslot m t)" if "slot_ok t" for t
    using m'(4) that sl [OF that] after_close_step [OF s(2), of "set (map ckey xs)" t ts "cslot m t" cid] x by auto
  moreover have "dltime m1 = dltime m" using m1(2) by (simp add: changes_def)
  ultimately show ?case using m' m1(1) c x by auto
qed

lemma circuits_of_slots:
  assumes "\<forall>i < length cs. \<forall>c. cs ! i = Some c \<longrightarrow> circuit_ts c = k + i"
  shows "distinct (map circuit_ts (some_of cs))"
    and "c \<in> set (some_of cs) \<Longrightarrow> k \<le> circuit_ts c \<and> circuit_ts c < k + length cs \<and> cs ! (circuit_ts c - k) = Some c"
proof -
  have *: "k \<le> circuit_ts c \<and> circuit_ts c < k + length cs \<and> cs ! (circuit_ts c - k) = Some c"
    if "Some c \<in> set cs" "\<forall>i < length cs. \<forall>c. cs ! i = Some c \<longrightarrow> circuit_ts c = k + i" for cs k c
    using that by (metis add_diff_cancel_left' in_set_conv_nth le_add1 nat_add_left_cancel_less)
  then show "c \<in> set (some_of cs) \<Longrightarrow> k \<le> circuit_ts c \<and> circuit_ts c < k + length cs \<and> cs ! (circuit_ts c - k) = Some c"
    using * [OF _ assms] by (auto simp: some_of_def)
  show "distinct (map circuit_ts (some_of cs))"
    using assms
  proof (induction cs arbitrary: k)
    case (Cons x cs)
    have r: "\<forall>i < length cs. \<forall>c. cs ! i = Some c \<longrightarrow> circuit_ts c = Suc k + i" using Cons.prems by force
    have "x = Some c \<Longrightarrow> circuit_ts c = k" for c using Cons.prems by force
    moreover have "Some c \<in> set cs \<Longrightarrow> Suc k \<le> circuit_ts c" for c using * [OF _ r] by blast
    ultimately show ?case using Cons.IH [OF r] by (cases x) (force simp: some_of_def)+
  qed (simp add: some_of_def)
qed

definition expired :: "circuit_mgr \<Rightarrow> (nat \<Rightarrow> bool) \<Rightarrow> cmce_circuit \<Rightarrow> bool" where
  "expired m protected c \<longleftrightarrow> \<not> protected (call_id c) \<and> age (ts_created c) (dltime m) > CIRCUIT_EXPIRY_TIMESLOTS"

lemma expired_in_filter:
  "expired_in m protected cs = map (\<lambda>c. (circuit_direction c, circuit_ts c, call_id c)) (filter (expired m protected) (some_of cs))"
  by (simp add: expired_in_def expired_def [abs_def])

lemma slots_filed:
  assumes "cm_inv m"
  shows "\<forall>i < length (dl m). \<forall>c. dl m ! i = Some c \<longrightarrow> circuit_ts c = 1 + i"
    and "\<forall>i < length (ul_only m). \<forall>c. ul_only m ! i = Some c \<longrightarrow> circuit_ts c = 1 + i"
proof -
  have ok: "cslot_ok (Suc i) (cslot m (Suc i))" if "i < 4" for i
    by (rule cm_inv_slot [OF assms]) (use that in \<open>simp add: slot_ok_def\<close>)
  have "dl m ! i = Some c \<Longrightarrow> circuit_ts c = Suc i" "ul_only m ! i = Some c \<Longrightarrow> circuit_ts c = Suc i" if "i < 4" for i c
    using cslot_ok_dl [OF ok [OF that], of c] cslot_ok_ul [OF ok [OF that], of c] by (simp_all add: cslot_def)
  then show "\<forall>i < length (dl m). \<forall>c. dl m ! i = Some c \<longrightarrow> circuit_ts c = 1 + i"
    "\<forall>i < length (ul_only m). \<forall>c. ul_only m ! i = Some c \<longrightarrow> circuit_ts c = 1 + i"
    using cm_inv_wf [OF assms] by (simp_all add: cm_wf_def)
qed

lemma filed_dl:
  assumes "cm_inv m" and "c \<in> set (some_of (dl m))"
  shows "slot_ok (circuit_ts c) \<and> circuit_direction c \<noteq> DirUl \<and> circuit_direction c \<noteq> DirNone \<and> fst (cslot m (circuit_ts c)) = Some c"
proof -
  have l: "length (dl m) = 4" using cm_inv_wf [OF assms(1)] by (simp add: cm_wf_def)
  have f: "1 \<le> circuit_ts c \<and> circuit_ts c < 1 + 4 \<and> dl m ! (circuit_ts c - 1) = Some c"
    using circuits_of_slots(2) [OF slots_filed(1) [OF assms(1)] assms(2)] unfolding l .
  then have s: "slot_ok (circuit_ts c)" "fst (cslot m (circuit_ts c)) = Some c" unfolding slot_ok_def cslot_def by simp_all
  then show ?thesis using cslot_ok_dl [OF cm_inv_slot [OF assms(1) s(1)] s(2)] by blast
qed

lemma filed_ul:
  assumes "cm_inv m" and "c \<in> set (some_of (ul_only m))"
  shows "slot_ok (circuit_ts c) \<and> circuit_direction c = DirUl \<and> fst (snd (cslot m (circuit_ts c))) = Some c"
proof -
  have l: "length (ul_only m) = 4" using cm_inv_wf [OF assms(1)] by (simp add: cm_wf_def)
  have f: "1 \<le> circuit_ts c \<and> circuit_ts c < 1 + 4 \<and> ul_only m ! (circuit_ts c - 1) = Some c"
    using circuits_of_slots(2) [OF slots_filed(2) [OF assms(1)] assms(2)] unfolding l .
  then have s: "slot_ok (circuit_ts c)" "fst (snd (cslot m (circuit_ts c))) = Some c" unfolding slot_ok_def cslot_def by simp_all
  then show ?thesis using cslot_ok_ul [OF cm_inv_slot [OF assms(1) s(1)] s(2)] by blast
qed

lemma in_some_of:
  assumes "length cs = 4" and "slot_ok ts" and "cs ! (ts - 1) = Some c"
  shows "c \<in> set (some_of cs)"
proof -
  have "Some c \<in> set cs" using assms slot_pred_less [OF assms(2)] by (metis One_nat_def nth_mem)
  then show ?thesis by (force simp: some_of_def)
qed

lemma push_cmds: "fold (\<lambda>x t. push_cmd t (f x)) xs t = (if xs = [] then t else Some ((case t of Some cs \<Rightarrow> cs | None \<Rightarrow> []) @ map f xs))"
  by (induction xs arbitrary: t) (auto simp: push_cmd_def)

text \<open>The circuits that expire, in the order of the source.\<close>

definition expiring :: "circuit_mgr \<Rightarrow> (nat \<Rightarrow> bool) \<Rightarrow> cmce_circuit list" where
  "expiring m protected = filter (expired m protected) (some_of (dl m) @ some_of (ul_only m))"

fun swept :: "(cmce_circuit \<Rightarrow> bool) \<Rightarrow> cmce_circuit option \<times> cmce_circuit option \<times> u8 list list
    \<Rightarrow> cmce_circuit option \<times> cmce_circuit option \<times> u8 list list" where
  "swept P (d, u, q) = (if \<exists>c. d = Some c \<and> P c then None else d, if \<exists>c. u = Some c \<and> P c then None else u,
     if \<exists>c. d = Some c \<and> P c then [] else q)"

lemma close_expired_circuits_sweeps:
  assumes "cm_inv m"
  shows "\<exists>m'. close_expired_circuits m None protected =
      Some (if expiring m protected = [] then None else Some (map (\<lambda>c. SendClose (call_id c) c) (expiring m protected)), m')
    \<and> cm_inv m' \<and> dltime m' = dltime m \<and> (\<forall>t. slot_ok t \<longrightarrow> cslot m' t = swept (expired m protected) (cslot m t))"
proof -
  let ?e = "expired m protected" and ?f = "\<lambda>c. (circuit_direction c, circuit_ts c, call_id c)"
  let ?D = "filter ?e (some_of (dl m))" and ?U = "filter ?e (some_of (ul_only m))"
  let ?xs = "map ?f ?D @ map ?f ?U"
  have D: "c \<in> set ?D \<Longrightarrow> ?e c \<and> slot_ok (circuit_ts c) \<and> circuit_direction c \<noteq> DirUl \<and> circuit_direction c \<noteq> DirNone
      \<and> to_close (circuit_direction c) (cslot m (circuit_ts c)) = Some c" for c
    using filed_dl [OF assms, of c] to_close_fst [of "circuit_direction c"] by simp
  have U: "c \<in> set ?U \<Longrightarrow> ?e c \<and> slot_ok (circuit_ts c) \<and> circuit_direction c = DirUl
      \<and> to_close DirUl (cslot m (circuit_ts c)) = Some c" for c
    using filed_ul [OF assms, of c] by (simp add: to_close_snd)
  have kD: "map ckey (map ?f ?D) = map (\<lambda>c. (False, circuit_ts c)) ?D" and kU: "map ckey (map ?f ?U) = map (\<lambda>c. (True, circuit_ts c)) ?U"
    unfolding map_map by (rule map_cong [OF refl], drule D, simp add: ckey_def, rule map_cong [OF refl], drule U, simp add: ckey_def)
  have "distinct (map circuit_ts ?D)" "distinct (map circuit_ts ?U)"
    using circuits_of_slots(1) [OF slots_filed(1) [OF assms]] circuits_of_slots(1) [OF slots_filed(2) [OF assms]]
    by (simp_all add: distinct_map_filter)
  then have dist: "distinct (map ckey ?xs)"
    unfolding map_append kD kU by (auto simp: distinct_map inj_on_def)
  have "present m (?f c)" if "c \<in> set ?D" for c using D [OF that] by (simp add: present_def)
  moreover have "present m (?f c)" if "c \<in> set ?U" for c using U [OF that] by (simp add: present_def)
  ultimately have pres: "\<forall>x \<in> set ?xs. present m x" unfolding set_append set_map by blast
  have keys: "(b, ts) \<in> set (map ckey ?xs) \<longleftrightarrow> (\<exists>c. (if b then fst (snd (cslot m ts)) else fst (cslot m ts)) = Some c \<and> ?e c)"
    if "slot_ok ts" for b ts
  proof -
    have l: "length (dl m) = 4" "length (ul_only m) = 4" using cm_inv_wf [OF assms] by (simp_all add: cm_wf_def)
    have ts: "circuit_ts c = ts" if "fst (cslot m ts) = Some c \<or> fst (snd (cslot m ts)) = Some c" for c
      using cslot_ok_dl [OF cm_inv_slot [OF assms \<open>slot_ok ts\<close>]] cslot_ok_ul [OF cm_inv_slot [OF assms \<open>slot_ok ts\<close>]] that by blast
    have iD: "c \<in> set ?D" if "fst (cslot m ts) = Some c" "?e c" for c
      using in_some_of [OF l(1) \<open>slot_ok ts\<close>] that by (simp add: cslot_def)
    have iU: "c \<in> set ?U" if "fst (snd (cslot m ts)) = Some c" "?e c" for c
      using in_some_of [OF l(2) \<open>slot_ok ts\<close>] that by (simp add: cslot_def)
    have "(\<exists>c \<in> set ?D. circuit_ts c = ts) \<longleftrightarrow> (\<exists>c. fst (cslot m ts) = Some c \<and> ?e c)"
      using ts iD filed_dl [OF assms] by (metis (no_types, lifting) mem_Collect_eq set_filter)
    moreover have "(\<exists>c \<in> set ?U. circuit_ts c = ts) \<longleftrightarrow> (\<exists>c. fst (snd (cslot m ts)) = Some c \<and> ?e c)"
      using ts iU filed_ul [OF assms] by (metis (no_types, lifting) mem_Collect_eq set_filter)
    moreover have "(b, ts) \<in> set (map ckey ?xs) \<longleftrightarrow> (\<exists>c \<in> set (if b then ?U else ?D). circuit_ts c = ts)"
      unfolding map_append kD kU by (cases b) auto
    ultimately show ?thesis by simp
  qed
  from close_all_total [OF assms pres dist, of None] obtain m' where m':
    "close_all m None ?xs = Some (fold (\<lambda>(dir, ts, cid) t. push_cmd t (SendClose cid (the (to_close dir (cslot m ts))))) ?xs None, m')"
    "cm_inv m'" "dltime m' = dltime m" "\<forall>t. slot_ok t \<longrightarrow> cslot m' t = after_close (set (map ckey ?xs)) t (cslot m t)" by blast
  have "fold (\<lambda>(dir, ts, cid) t. push_cmd t (SendClose cid (the (to_close dir (cslot m ts))))) ?xs None
      = fold (\<lambda>c t. push_cmd t (SendClose (call_id c) c)) (?D @ ?U) None"
    unfolding map_append [symmetric] fold_map fold_append comp_def
    by (rule fold_cong, rule fold_cong, rule refl, rule refl, drule D, simp, rule refl, drule U, simp)
  then have "close_all m None ?xs = Some (if expiring m protected = [] then None
      else Some (map (\<lambda>c. SendClose (call_id c) c) (expiring m protected)), m')"
    using m'(1) by (simp add: push_cmds expiring_def)
  moreover have "cslot m' t = swept ?e (cslot m t)" if "slot_ok t" for t
    using m'(4) that keys [OF that, of False] keys [OF that, of True] by (cases "cslot m t") (auto simp: after_close_def)
  ultimately show ?thesis using m'(2,3) by (auto simp: close_expired_circuits_def expired_in_filter)
qed

section \<open>Late entry\<close>

definition due_at :: "circuit_mgr \<Rightarrow> cmce_circuit \<Rightarrow> tdma_time" where
  "due_at m c = (case next_late_entry_d_setups m (call_id c) of
     Some t \<Rightarrow> t | None \<Rightarrow> add_timeslots (ts_created c) LATE_ENTRY_INTERVAL_TIMESLOTS)"

definition due :: "circuit_mgr \<Rightarrow> cmce_circuit \<Rightarrow> bool" where
  "due m c \<longleftrightarrow> comm_type c \<noteq> P2p \<and> age (due_at m c) (dltime m) \<ge> 0"

definition setup_cmd :: "cmce_circuit \<Rightarrow> circuit_mgr_cmd" where
  "setup_cmd c = SendDSetup (call_id c) (usage c) (circuit_ts c)"

lemma late_entry_step_eq:
  "late_entry_step c (tasks, m) = (if due m c then push_cmd tasks (setup_cmd c) else tasks,
     m\<lparr>next_late_entry_d_setups := (if comm_type c = P2p then next_late_entry_d_setups m else (next_late_entry_d_setups m)
       (call_id c \<mapsto> (if due m c then add_timeslots (dltime m) LATE_ENTRY_INTERVAL_TIMESLOTS else due_at m c)))\<rparr>)"
  by (simp add: late_entry_step_def due_def due_at_def setup_cmd_def Let_def)

lemma late_entry_fold:
  assumes "distinct (map call_id cs)"
  shows "\<exists>nl. fold late_entry_step cs (tasks, m) = (fold (\<lambda>c t. push_cmd t (setup_cmd c)) (filter (due m) cs) tasks,
      m\<lparr>next_late_entry_d_setups := nl\<rparr>)
    \<and> (\<forall>c \<in> set cs. comm_type c \<noteq> P2p \<longrightarrow>
         nl (call_id c) = Some (if due m c then add_timeslots (dltime m) LATE_ENTRY_INTERVAL_TIMESLOTS else due_at m c))
    \<and> (\<forall>i. i \<notin> call_id ` set cs \<longrightarrow> nl i = next_late_entry_d_setups m i)"
  using assms
proof (induction cs arbitrary: m tasks)
  case Nil
  then show ?case by (intro exI [of _ "next_late_entry_d_setups m"]) simp
next
  case (Cons c cs)
  obtain tasks1 m1 where s: "late_entry_step c (tasks, m) = (tasks1, m1)" by force
  have m1: "m1 = m\<lparr>next_late_entry_d_setups := next_late_entry_d_setups m1\<rparr>" and t1: "tasks1 = (if due m c then push_cmd tasks (setup_cmd c) else tasks)"
    and o: "i \<noteq> call_id c \<Longrightarrow> next_late_entry_d_setups m1 i = next_late_entry_d_setups m i"
    and own: "comm_type c \<noteq> P2p \<Longrightarrow> next_late_entry_d_setups m1 (call_id c) =
      Some (if due m c then add_timeslots (dltime m) LATE_ENTRY_INTERVAL_TIMESLOTS else due_at m c)" for i
    using s by (auto simp: late_entry_step_eq)
  have d: "dltime m1 = dltime m" using m1 by (metis circuit_mgr.select_convs(1) circuit_mgr.surjective circuit_mgr.update_convs(5))
  have same: "due_at m1 c' = due_at m c'" "due m1 c' = due m c'" if "c' \<in> set cs" for c'
  proof -
    have "call_id c' \<noteq> call_id c" using Cons.prems that by (metis distinct.simps(2) image_eqI list.map(2) set_map)
    then show "due_at m1 c' = due_at m c'" by (simp add: due_at_def o)
    then show "due m1 c' = due m c'" by (simp add: due_def d)
  qed
  have f: "filter (due m1) cs = filter (due m) cs" using same(2) by (rule filter_cong [OF refl])
  from Cons.IH [of tasks1 m1] Cons.prems obtain nl where nl:
    "fold late_entry_step cs (tasks1, m1) = (fold (\<lambda>c t. push_cmd t (setup_cmd c)) (filter (due m1) cs) tasks1, m1\<lparr>next_late_entry_d_setups := nl\<rparr>)"
    "\<forall>c \<in> set cs. comm_type c \<noteq> P2p \<longrightarrow>
         nl (call_id c) = Some (if due m1 c then add_timeslots (dltime m1) LATE_ENTRY_INTERVAL_TIMESLOTS else due_at m1 c)"
    "\<forall>i. i \<notin> call_id ` set cs \<longrightarrow> nl i = next_late_entry_d_setups m1 i" by auto
  have u: "m1\<lparr>next_late_entry_d_setups := nl\<rparr> = m\<lparr>next_late_entry_d_setups := nl\<rparr>" by (subst m1) simp
  have "fold late_entry_step (c # cs) (tasks, m) = (fold (\<lambda>c t. push_cmd t (setup_cmd c)) (filter (due m) (c # cs)) tasks,
      m\<lparr>next_late_entry_d_setups := nl\<rparr>)"
    using nl(1) by (simp add: s f u t1)
  moreover have "\<forall>c' \<in> set (c # cs). comm_type c' \<noteq> P2p \<longrightarrow>
      nl (call_id c') = Some (if due m c' then add_timeslots (dltime m) LATE_ENTRY_INTERVAL_TIMESLOTS else due_at m c')"
    using nl(2,3) own Cons.prems by (simp add: same d)
  moreover have "\<forall>i. i \<notin> call_id ` set (c # cs) \<longrightarrow> nl i = next_late_entry_d_setups m i" using nl(3) o by simp
  ultimately show ?case by blast
qed

lemma late_entry_keeps: "\<exists>t nl. fold late_entry_step cs (tasks, m) = (t, m\<lparr>next_late_entry_d_setups := nl\<rparr>)"
proof (induction cs arbitrary: tasks m)
  case Nil
  show ?case by (intro exI [of _ tasks] exI [of _ "next_late_entry_d_setups m"]) simp
next
  case (Cons c cs)
  obtain t1 nl1 where "late_entry_step c (tasks, m) = (t1, m\<lparr>next_late_entry_d_setups := nl1\<rparr>)" by (simp add: late_entry_step_eq)
  with Cons [of t1 "m\<lparr>next_late_entry_d_setups := nl1\<rparr>"] show ?case by auto
qed

lemma interval_later:
  assumes "time_ok now" and "0 \<le> k" and "k \<le> 1000000"
  shows "age (add_timeslots now LATE_ENTRY_INTERVAL_TIMESLOTS) (add_timeslots now k) \<ge> 0 \<longleftrightarrow> 72 \<le> k"
proof -
  let ?d = "add_timeslots now 72"
  have "add_timeslots now k = add_timeslots ?d (k - 72)" using assms by (subst add_timeslots_add) simp_all
  moreover have "diff (add_timeslots ?d (k - 72)) ?d = k - 72"
    using assms by (intro diff_add_timeslots_self) (simp_all add: TIME_INT_WRAP_def)
  ultimately show ?thesis by (simp add: age_def LATE_ENTRY_INTERVAL_TIMESLOTS_def)
qed

section \<open>Reachable managers\<close>

inductive cm_step :: "circuit_mgr \<Rightarrow> circuit_mgr \<Rightarrow> bool" where
  CallId: "cm_step m (snd (get_next_call_id m))"
| Usage: "cm_step m (snd (get_next_usage_number m))"
| Schedule: "cm_step m (schedule_next_late_entry_d_setup m c)"
| Allocate: "dir \<noteq> DirNone \<Longrightarrow> allocate_circuit m dir ct = Some (r, m') \<Longrightarrow> cm_step m m'"
| AllocateShared: "dir \<noteq> DirNone \<Longrightarrow> alloc_wf a \<Longrightarrow> allocate_circuit_with_allocator m dir ct a ow = Some (r, m', a') \<Longrightarrow> cm_step m m'"
| AllocateCentral: "dir \<noteq> DirNone \<Longrightarrow> alloc_wf a \<Longrightarrow>
    allocate_circuit_with_allocator_and_call_id_and_mode m dir ct a ow cid du = Some (r, m', a') \<Longrightarrow> cm_step m m'"
| Close: "dir \<noteq> DirNone \<Longrightarrow> slot_ok ts \<Longrightarrow> close_circuit m dir ts = Some (r, m') \<Longrightarrow> cm_step m m'"
| Put: "slot_ok ts \<Longrightarrow> put_block m ts b = Some (r', m') \<Longrightarrow> cm_step m m'"
| Take: "slot_ok ts \<Longrightarrow> take_block m ts = Some (r'', m') \<Longrightarrow> cm_step m m'"
| Tick: "tick_start m now P L = Some (tasks, m') \<Longrightarrow> cm_step m m'"

inductive cm_reachable :: "circuit_mgr \<Rightarrow> bool" where
  start: "cm_reachable new_mgr"
| step: "cm_reachable m \<Longrightarrow> cm_step m m' \<Longrightarrow> cm_reachable m'"

inductive_cases cm_stepE: "cm_step m m'"

lemma cm_inv_setups [simp]: "cm_inv (m\<lparr>next_late_entry_d_setups := s\<rparr>) = cm_inv m" "cm_inv (m\<lparr>dltime := t\<rparr>) = cm_inv m"
  by (simp_all add: cm_inv_def ids_ok_def)

lemma allocate_circuit_total:
  assumes "cm_inv m" and "dir \<noteq> DirNone"
  shows "\<exists>r m'. allocate_circuit m dir ct = Some (r, m') \<and> cm_inv m' \<and>
    (case find (\<lambda>ts. \<not> blocked dir (cslot m ts)) [2, 3, 4] of
       None \<Rightarrow> r = Inl NoCircuitFree \<and> m' = m
     | Some ts \<Rightarrow> r = Inr (next_circuit m dir ct ts)
         \<and> (\<forall>t. slot_ok t \<longrightarrow> cslot m' t = (if t = ts then opened dir (next_circuit m dir ct ts) (cslot m ts) else cslot m t)))"
proof (cases "find (\<lambda>ts. \<not> blocked dir (cslot m ts)) [2, 3, 4]")
  case None
  then show ?thesis using assms get_free_ts_find [OF cm_inv_wf [OF assms(1)] assms(2)] by (simp add: allocate_circuit_def)
next
  case (Some ts)
  then have "slot_ok ts" "\<not> blocked dir (cslot m ts)" by (auto simp: slot_ok_def split: if_splits)
  from alloc_at [OF assms(1) this(1) assms(2) this(2), of ct] show ?thesis
    using Some get_free_ts_find [OF cm_inv_wf [OF assms(1)] assms(2)] by (auto simp: allocate_circuit_def)
qed

lemma put_block_total:
  assumes "cm_inv m" and "slot_ok ts"
  shows "\<exists>r m'. put_block m ts b = Some (r, m') \<and> cm_inv m'"
proof -
  obtain d u q where v: "cslot m ts = (d, u, q)" by (cases "cslot m ts")
  have w: "cm_wf m" by (rule cm_inv_wf [OF assms(1)])
  have f: "slot_get (dl m) ts = Some d" "slot_get (tx_data m) ts = Some q" using w assms(2) v by (auto simp: cslot_defs)
  show ?thesis
  proof (cases d)
    case None
    then show ?thesis using assms(1) f by (simp add: put_block_def is_active_dir_def)
  next
    case (Some c)
    have "changes m (m\<lparr>tx_data := (tx_data m)[ts - 1 := q @ [b]]\<rparr>) ts (d, u, q @ [b])"
      using w assms(2) v by (auto simp: changes_def cslot_defs)
    moreover have "cslot_ok ts (d, u, q @ [b])" using cm_inv_slot [OF assms] v Some by simp
    ultimately have "cm_inv (m\<lparr>tx_data := (tx_data m)[ts - 1 := q @ [b]]\<rparr>)" by (rule changes_inv [OF assms(1)])
    then show ?thesis using f Some w assms(2) by (simp add: put_block_def is_active_dir_def cm_wf_def slot_put_Some)
  qed
qed

lemma take_block_total:
  assumes "cm_inv m" and "slot_ok ts"
  shows "\<exists>r m'. take_block m ts = Some (r, m') \<and> cm_inv m'"
proof -
  obtain d u q where v: "cslot m ts = (d, u, q)" by (cases "cslot m ts")
  have w: "cm_wf m" by (rule cm_inv_wf [OF assms(1)])
  have f: "slot_get (dl m) ts = Some d" "slot_get (tx_data m) ts = Some q" using w assms(2) v by (auto simp: cslot_defs)
  show ?thesis
  proof (cases "d = None \<or> q = []")
    case True
    then show ?thesis using assms(1) f by (auto simp: take_block_def is_active_dir_def)
  next
    case False
    then obtain c b rest where c: "d = Some c" "q = b # rest" by (cases q) auto
    have "changes m (m\<lparr>tx_data := (tx_data m)[ts - 1 := rest]\<rparr>) ts (d, u, rest)"
      using w assms(2) v by (auto simp: changes_def cslot_defs)
    moreover have "cslot_ok ts (d, u, rest)" using cm_inv_slot [OF assms] v c by simp
    ultimately have "cm_inv (m\<lparr>tx_data := (tx_data m)[ts - 1 := rest]\<rparr>)" by (rule changes_inv [OF assms(1)])
    then show ?thesis using f c w assms(2) by (simp add: take_block_def is_active_dir_def cm_wf_def slot_put_Some)
  qed
qed

lemma tick_start_total:
  assumes "cm_inv m"
  shows "\<exists>tasks m'. tick_start m now P L = Some (tasks, m') \<and> cm_inv m'"
proof (cases "time_t now = 1")
  case True
  have i: "cm_inv (m\<lparr>dltime := now\<rparr>)" using assms by simp
  from close_expired_circuits_sweeps [OF i, of P] obtain t1 m1 where
    m1: "close_expired_circuits (m\<lparr>dltime := now\<rparr>) None P = Some (t1, m1)" "cm_inv m1" by blast
  obtain t2 nl where "fold late_entry_step (filter (\<lambda>c. L (call_id c)) (some_of (dl m1))) (t1, m1) = (t2, m1\<lparr>next_late_entry_d_setups := nl\<rparr>)"
    using late_entry_keeps by blast
  then show ?thesis using True m1 by (simp add: tick_start_def Let_def)
qed (use assms in \<open>simp add: tick_start_def\<close>)

lemma central_alloc_total:
  assumes "cm_inv m" and "slot_ok ts" and "dir \<noteq> DirNone"
  shows "\<exists>r m'. (let (us, m) = get_next_usage_number m in open_circuit m dir (mk_circuit m dir ct du ts cid us)) = Some (r, m') \<and> cm_inv m'"
proof -
  let ?m1 = "snd (get_next_usage_number m)"
  have i: "cm_inv ?m1" using assms(1) by (rule cm_inv_ids)
  let ?c = "mk_circuit ?m1 dir ct du ts cid (fst (get_next_usage_number m))"
  have "\<exists>r m'. open_circuit ?m1 dir ?c = Some (r, m') \<and> cm_inv m'"
  proof (cases "blocked dir (cslot ?m1 ts)")
    case True
    then show ?thesis using open_circuit_blocked [OF cm_inv_wf [OF i], of ?c dir] assms(2) i by simp
  next
    case False
    from open_new [OF i assms(2) False assms(3), of ?c] show ?thesis by auto
  qed
  then show ?thesis by (simp add: split_beta Let_def)
qed

lemma shared_alloc_total:
  assumes "cm_inv m" and "alloc_wf a" and "dir \<noteq> DirNone"
  shows "\<exists>r m' a'. allocate_circuit_with_allocator m dir ct a ow = Some (r, m', a') \<and> cm_inv m' \<and> alloc_wf a'"
    and "\<exists>r m' a'. allocate_circuit_with_allocator_and_call_id_and_mode m dir ct a ow cid du = Some (r, m', a') \<and> cm_inv m' \<and> alloc_wf a'"
proof -
  obtain r0 a0 where a0: "allocate_any ow a = (r0, a0)" by force
  have w: "alloc_wf a0" using ta.inv_alloc [OF assms(2), of ow] a0 by simp
  have s: "slot_ok ts" if "r0 = Some ts" for ts
    using ta.alloc_traffic [OF assms(2), of ow ts] a0 that by (auto simp: slot_ok_def)
  show "\<exists>r m' a'. allocate_circuit_with_allocator m dir ct a ow = Some (r, m', a') \<and> cm_inv m' \<and> alloc_wf a'"
  proof (cases r0)
    case None
    then show ?thesis using a0 assms(1) w by (simp add: allocate_circuit_with_allocator_def)
  next
    case (Some ts)
    have "\<exists>r m'. (let (cid, m) = get_next_call_id m; (us, m) = get_next_usage_number m
      in open_circuit m dir (mk_circuit m dir ct False ts cid us)) = Some (r, m') \<and> cm_inv m'"
      using alloc_at [OF assms(1) s [OF Some] assms(3)] alloc_at_blocked [OF assms(1) s [OF Some], of dir] by blast
    then show ?thesis using a0 Some w by (auto simp: allocate_circuit_with_allocator_def split_beta Let_def)
  qed
  show "\<exists>r m' a'. allocate_circuit_with_allocator_and_call_id_and_mode m dir ct a ow cid du = Some (r, m', a') \<and> cm_inv m' \<and> alloc_wf a'"
  proof (cases r0)
    case None
    then show ?thesis using a0 assms(1,2) w by (simp add: allocate_circuit_with_allocator_and_call_id_and_mode_def)
  next
    case (Some ts)
    show ?thesis using central_alloc_total [OF assms(1) s [OF Some] assms(3), of ct du cid] a0 Some w assms(1,2)
      by (auto simp: allocate_circuit_with_allocator_and_call_id_and_mode_def split_beta Let_def)
  qed
qed

lemma close_total:
  assumes "cm_inv m" and "slot_ok ts" and "dir \<noteq> DirNone"
  shows "\<exists>r m'. close_circuit m dir ts = Some (r, m') \<and> cm_inv m'"
  using close_circuit_closes [OF cm_inv_wf [OF assms(1)] assms(2,3)]
    changes_inv [OF assms(1) _ closed_ok [OF cm_inv_slot [OF assms(1,2)]]] by blast

lemma cm_inv_step:
  assumes "cm_step m m'" and "cm_inv m"
  shows "cm_inv m'"
  using assms(1)
proof cases
  case (Allocate dir ct r)
  then show ?thesis using allocate_circuit_total [OF assms(2), of dir ct] by auto
next
  case (AllocateShared dir a ct ow r a')
  then show ?thesis using shared_alloc_total(1) [OF assms(2), of a dir ct ow] by auto
next
  case (AllocateCentral dir a ct ow cid du r a')
  then show ?thesis using shared_alloc_total(2) [OF assms(2), of a dir ct ow cid du] by auto
next
  case (Close dir ts r)
  then show ?thesis using close_total [OF assms(2), of ts dir] by auto
next
  case (Put ts b r)
  then show ?thesis using put_block_total [OF assms(2), of ts b] by auto
next
  case (Take ts r)
  then show ?thesis using take_block_total [OF assms(2), of ts] by auto
next
  case (Tick now P L tasks)
  then show ?thesis using tick_start_total [OF assms(2), of now P L] by auto
qed (use assms(2) in \<open>simp_all add: cm_inv_ids schedule_next_late_entry_d_setup_def\<close>)

lemma cm_inv_new: "cm_inv new_mgr"
proof -
  have "cslot new_mgr ts = (None, None, [])" if "slot_ok ts" for ts
    using that by (auto simp: slot_ok_cases cslot_def new_mgr_def)
  then show ?thesis by (simp add: cm_inv_def ids_ok_def cm_wf_def) (simp add: new_mgr_def)
qed

lemma cm_inv_reachable: "cm_reachable m \<Longrightarrow> cm_inv m"
  by (induction rule: cm_reachable.induct) (auto intro: cm_inv_new cm_inv_step)

section \<open>Sequences of identifiers\<close>

fun take_ids :: "circuit_mgr \<Rightarrow> nat \<Rightarrow> nat list" where
  "take_ids m 0 = []"
| "take_ids m (Suc n) = (case get_next_call_id m of (c, m') \<Rightarrow> c # take_ids m' n)"

lemma take_ids_eq:
  "ids_ok m \<Longrightarrow> take_ids m n = map (\<lambda>k. (next_call_identifier m - 1 + k) mod 1023 + 1) [0..<n]"
proof (induction n arbitrary: m)
  case (Suc n)
  let ?c = "next_call_identifier m" and ?m = "snd (get_next_call_id m)"
  have c: "1 \<le> ?c" "?c \<le> 1023" using Suc.prems by (auto simp: ids_ok_def)
  have n: "next_call_identifier ?m = ?c mod 1023 + 1" using Suc.prems by (simp add: get_next_call_id_eq)
  have "(?c mod 1023 + 1 - 1 + k) mod 1023 = (?c - 1 + Suc k) mod 1023" for k
    using c by (simp add: mod_simps)
  then have "take_ids ?m n = map ((\<lambda>k. (?c - 1 + k) mod 1023 + 1) \<circ> Suc) [0..<n]"
    using Suc.IH [OF ids_ok_next(1) [OF Suc.prems]] n by (simp add: comp_def)
  moreover have "(?c - 1 + 0) mod 1023 + 1 = ?c" using c by simp
  ultimately show ?case using Suc.prems
    by (simp add: split_beta get_next_call_id_eq [OF Suc.prems] map_Suc_upt [symmetric] upt_conv_Cons del: upt_Suc)
qed simp

lemma window_distinct: "n \<le> M \<Longrightarrow> distinct (map (\<lambda>k. (b + k) mod M) [0..<n])" for b M n :: nat
proof -
  assume n: "n \<le> M"
  have "i = j" if "i < n" "j < n" "(b + i) mod M = (b + j) mod M" for i j
  proof (rule ccontr)
    assume "i \<noteq> j"
    then consider "i < j" | "j < i" by linarith
    then show False
    proof cases
      case 1
      then have "M dvd j - i" using that(3) by (metis add_diff_cancel_left less_imp_le mod_eq_dvd_iff_nat nat_add_left_cancel_le)
      then show False using 1 that(2) n by (auto dest: dvd_imp_le)
    next
      case 2
      then have "M dvd i - j" using that(3) by (metis add_diff_cancel_left less_imp_le mod_eq_dvd_iff_nat nat_add_left_cancel_le)
      then show False using 2 that(1) n by (auto dest: dvd_imp_le)
    qed
  qed
  then show ?thesis by (auto simp: distinct_map inj_on_def)
qed

text \<open>The manager and the central allocator agree when no circuit runs in a slot the allocator holds free.\<close>

definition in_sync :: "circuit_mgr \<Rightarrow> timeslot_allocator \<Rightarrow> bool" where
  "in_sync m a \<longleftrightarrow> (\<forall>ts \<in> {2, 3, 4}. slot_owner a ts = None \<longrightarrow> fst (cslot m ts) = None \<and> fst (snd (cslot m ts)) = None)"

lemma free_not_blocked: "fst v = None \<Longrightarrow> fst (snd v) = None \<Longrightarrow> \<not> blocked dir v"
  by (cases v) (simp add: blocked_def)

lemma allocate_any_result:
  assumes "allocate_any ow a = (r, a')"
  shows "a' = (case r of
      None \<Rightarrow> a\<lparr>packet_preemption_requested := packet_preemption_requested a \<or> (ow = Cmce \<and> Some PacketData \<in> set (owners a))\<rparr>
    | Some ts \<Rightarrow> a\<lparr>owners := (owners a)[ts - 2 := Some ow]\<rparr>)"
  using assms by (auto simp: allocate_any_def split: option.splits if_splits)

lemma shared_alloc_synced:
  assumes "cm_inv m" and "alloc_wf a" and "dir \<noteq> DirNone" and "in_sync m a"
  shows "\<exists>r m' a'. allocate_circuit_with_allocator m dir ct a ow = Some (r, m', a') \<and> in_sync m' a' \<and>
    (case fst (allocate_any ow a) of
       None \<Rightarrow> r = Inl NoCircuitFree \<and> m' = m \<and> a' = a\<lparr>packet_preemption_requested :=
           packet_preemption_requested a \<or> (ow = Cmce \<and> Some PacketData \<in> set (owners a))\<rparr>
     | Some ts \<Rightarrow> slot_owner a ts = None \<and> slot_owner a' ts = Some ow \<and> a' = a\<lparr>owners := (owners a)[ts - 2 := Some ow]\<rparr>
         \<and> r = Inr (next_circuit m dir ct ts)
         \<and> (\<forall>t. slot_ok t \<longrightarrow> cslot m' t = (if t = ts then opened dir (next_circuit m dir ct ts) (cslot m ts) else cslot m t)))"
proof -
  obtain r0 a0 where a0: "allocate_any ow a = (r0, a0)" by force
  show ?thesis
  proof (cases r0)
    case None
    have "slot_owner a0 ts = slot_owner a ts" for ts using ta.alloc_other [OF assms(2), of ow ts] a0 None by simp
    then have "in_sync m a0" using assms(4) by (simp add: in_sync_def)
    then show ?thesis using a0 None allocate_any_result [OF a0] by (simp add: allocate_circuit_with_allocator_def)
  next
    case (Some ts)
    have ts: "ts \<in> {2, 3, 4}" "slot_owner a ts = None" "slot_owner a0 ts = Some ow"
      using ta.alloc_traffic [OF assms(2), of ow ts] ta.alloc_was_free [OF assms(2), of ow ts] ta.alloc_owner [OF assms(2), of ow ts]
        a0 Some by auto
    have ok: "slot_ok ts" using ts(1) by (auto simp: slot_ok_def)
    have "\<not> blocked dir (cslot m ts)" using assms(4) ts by (intro free_not_blocked) (auto simp: in_sync_def)
    from alloc_at [OF assms(1) ok assms(3) this, of ct] obtain m' where
      m': "allocate_circuit_with_allocator m dir ct a ow = Some (Inr (next_circuit m dir ct ts), m', a0)"
      "\<forall>t. slot_ok t \<longrightarrow> cslot m' t = (if t = ts then opened dir (next_circuit m dir ct ts) (cslot m ts) else cslot m t)"
      using a0 Some by (auto simp: allocate_circuit_with_allocator_def split_beta Let_def)
    have "in_sync m' a0" unfolding in_sync_def
    proof (intro ballI impI)
      fix t assume t: "t \<in> {2, 3, 4}" "slot_owner a0 t = None"
      then have "t \<noteq> ts" "slot_ok t" using ts(3) by (auto simp: slot_ok_def)
      moreover have "slot_owner a t = None" using ta.alloc_other [OF assms(2), of ow t] a0 Some \<open>t \<noteq> ts\<close> t(2) by simp
      ultimately show "fst (cslot m' t) = None \<and> fst (snd (cslot m' t)) = None" using m'(2) assms(4) t(1) by (auto simp: in_sync_def)
    qed
    then show ?thesis using a0 Some ts m' allocate_any_result [OF a0] by auto
  qed
qed

section \<open>Properties\<close>

text \<open>C16: In every reachable manager each circuit is filed under its own timeslot and in the table of its
  direction, a two-way circuit excludes a separate uplink circuit, and blocks are queued only where a downlink
  circuit runs; the manager's own counters stay within 1 to 1023 for call identifiers and 4 to 63 for usage numbers.
  No tick panics, the forced close of an expired circuit included, and neither does the local allocation, the close
  of a circuit, or queueing and taking a block on timeslots 1 to 4.\<close>

theorem cmce_circuits_invariant:
  assumes "cm_reachable m"
  shows "(\<forall>ts. slot_ok ts \<longrightarrow> cslot_ok ts (cslot m ts)) \<and> next_call_identifier m \<in> {1..1023} \<and> next_usage_number m \<in> {4..63}
    \<and> (\<forall>now P L. tick_start m now P L \<noteq> None)
    \<and> (\<forall>dir ct. dir \<noteq> DirNone \<longrightarrow> allocate_circuit m dir ct \<noteq> None)
    \<and> (\<forall>dir ts b. dir \<noteq> DirNone \<longrightarrow> slot_ok ts \<longrightarrow>
         close_circuit m dir ts \<noteq> None \<and> put_block m ts b \<noteq> None \<and> take_block m ts \<noteq> None)"
proof -
  have i: "cm_inv m" by (rule cm_inv_reachable [OF assms])
  have "tick_start m now P L \<noteq> None" for now P L using tick_start_total [OF i, of now P L] by auto
  moreover have "dir \<noteq> DirNone \<Longrightarrow> allocate_circuit m dir ct \<noteq> None" for dir ct
    using allocate_circuit_total [OF i, of dir ct] by auto
  moreover have "close_circuit m dir ts \<noteq> None \<and> put_block m ts b \<noteq> None \<and> take_block m ts \<noteq> None"
    if "dir \<noteq> DirNone" "slot_ok ts" for dir ts b
    using close_total [OF i that(2,1)] put_block_total [OF i that(2), of b] take_block_total [OF i that(2)] by auto
  moreover have "next_call_identifier m \<in> {1..1023}" "next_usage_number m \<in> {4..63}" using i by (simp_all add: cm_inv_def ids_ok_def)
  ultimately show ?thesis using cm_inv_slot [OF i] by blast
qed

theorem cmce_circuits_invariant_witness:
  "next_call_identifier (snd (get_next_call_id new_mgr)) \<in> {1..1023}"
  using cmce_circuits_invariant [OF cm_reachable.step [OF cm_reachable.start cm_step.CallId]] by blast

text \<open>The query of one direction is not among these: a slot can hold a separate downlink and a separate uplink circuit,
  and its assertion fails there.\<close>

lemma is_active_dir_panics:
  "\<exists>m. cm_reachable m \<and> is_active_dir m 2 DirUl = None"
proof -
  have i: "cm_inv new_mgr" by (rule cm_inv_reachable [OF cm_reachable.start])
  have new: "cslot new_mgr ts = (None, None, [])" if "ts \<in> {2, 3, 4}" for ts
    using that by (auto simp: cslot_def new_mgr_def)
  obtain r1 m1 where a1: "allocate_circuit new_mgr DirDl P2p = Some (r1, m1)" "cm_inv m1"
      "cslot m1 2 = (Some (next_circuit new_mgr DirDl P2p 2), None, [])"
    using allocate_circuit_total [OF i, of DirDl P2p] by (auto simp: new blocked_def slot_ok_def)
  obtain r2 m2 where a2: "allocate_circuit m1 DirUl P2p = Some (r2, m2)" "cm_inv m2"
      "cslot m2 2 = (Some (next_circuit new_mgr DirDl P2p 2), Some (next_circuit m1 DirUl P2p 2), [])"
    using allocate_circuit_total [OF a1(2), of DirUl P2p]
    by (auto simp: a1(3) blocked_def slot_ok_def includes_dl_def next_circuit_def mk_circuit_def)
  then have "is_active_dir m2 2 DirUl = None"
    using cm_inv_wf [OF a2(2)] by (simp add: is_active_dir_def cslot_defs slot_ok_def)
  moreover have "cm_reachable m2"
    by (rule cm_reachable.step [OF cm_reachable.step [OF cm_reachable.start]]) (rule cm_step.Allocate [OF _ a1(1)] cm_step.Allocate [OF _ a2(1)]; simp)+
  ultimately show ?thesis by blast
qed

text \<open>A local allocation takes the lowest of timeslots 2, 3 and 4 that has no circuit in the requested
  directions, installs exactly the new circuit there and touches no other slot; when there is no
  such slot it reports that no circuit is free and consumes no identifier. It never reports a
  circuit already in use.\<close>

lemma cmce_allocation_correct:
  assumes "cm_reachable m" and "dir \<noteq> DirNone"
  shows "\<exists>r m'. allocate_circuit m dir ct = Some (r, m') \<and>
    (case find (\<lambda>ts. \<not> blocked dir (cslot m ts)) [2, 3, 4] of
       None \<Rightarrow> r = Inl NoCircuitFree \<and> m' = m
     | Some ts \<Rightarrow> r = Inr (next_circuit m dir ct ts)
         \<and> (\<forall>t. slot_ok t \<longrightarrow> cslot m' t = (if t = ts then opened dir (next_circuit m dir ct ts) (cslot m ts) else cslot m t)))"
  using allocate_circuit_total [OF cm_inv_reachable [OF assms(1)] assms(2), of ct] by blast

theorem cmce_allocation_correct_witness:
  "\<exists>m'. allocate_circuit new_mgr DirBoth P2Mp = Some (Inr (next_circuit new_mgr DirBoth P2Mp 2), m')"
proof -
  have "cslot new_mgr 2 = (None, None, [])" by (simp add: cslot_def new_mgr_def)
  then show ?thesis using cmce_allocation_correct [OF cm_reachable.start, of DirBoth P2Mp] by (auto simp: blocked_def)
qed

text \<open>C17: An allocation through the central timeslot allocator takes a slot that nobody owned, makes the
  caller its owner, leaves the rest of the allocator alone and installs the new circuit exactly there, as long as
  no circuit runs in a slot the allocator holds free; that agreement is kept. Without a free slot nothing changes
  but the allocator's pre-emption flag, which a call raises when packet data holds a slot.\<close>

theorem cmce_shared_allocation:
  assumes "cm_reachable m" and "alloc_reachable a" and "dir \<noteq> DirNone" and "in_sync m a"
  shows "\<exists>r m' a'. allocate_circuit_with_allocator m dir ct a ow = Some (r, m', a') \<and> in_sync m' a' \<and>
    (case fst (allocate_any ow a) of
       None \<Rightarrow> r = Inl NoCircuitFree \<and> m' = m \<and> a' = a\<lparr>packet_preemption_requested :=
           packet_preemption_requested a \<or> (ow = Cmce \<and> Some PacketData \<in> set (owners a))\<rparr>
     | Some ts \<Rightarrow> slot_owner a ts = None \<and> slot_owner a' ts = Some ow \<and> a' = a\<lparr>owners := (owners a)[ts - 2 := Some ow]\<rparr>
         \<and> r = Inr (next_circuit m dir ct ts)
         \<and> (\<forall>t. slot_ok t \<longrightarrow> cslot m' t = (if t = ts then opened dir (next_circuit m dir ct ts) (cslot m ts) else cslot m t)))"
  by (rule shared_alloc_synced [OF cm_inv_reachable [OF assms(1)] alloc_reachable_wf [OF assms(2)] assms(3,4)])

theorem cmce_shared_allocation_witness:
  "\<exists>m' a'. allocate_circuit_with_allocator new_mgr DirDl P2p default_allocator Cmce
      = Some (Inr (next_circuit new_mgr DirDl P2p 2), m', a') \<and> slot_owner a' 2 = Some Cmce"
proof -
  have "in_sync new_mgr default_allocator" by (simp add: in_sync_def cslot_def new_mgr_def)
  from cmce_shared_allocation [OF cm_reachable.start alloc_reachable.intros(1) _ this, of DirDl P2p Cmce]
  show ?thesis by (auto simp: allocate_any_def default_allocator_def numeral_2_eq_2)
qed

text \<open>Locally allocated call identifiers are never the reserved zero, fit in ten bits, and any 1023
  identifiers handed out in a row are pairwise different.\<close>

lemma cmce_call_ids_distinct:
  assumes "cm_reachable m" and "n \<le> 1023"
  shows "distinct (take_ids m n) \<and> set (take_ids m n) \<subseteq> {1..1023} \<and> length (take_ids m n) = n"
proof -
  have i: "ids_ok m" using cm_inv_reachable [OF assms(1)] by (simp add: cm_inv_def)
  have "distinct (map (\<lambda>k. (next_call_identifier m - 1 + k) mod 1023) [0..<n])" by (rule window_distinct [OF assms(2)])
  then have "distinct (map Suc (map (\<lambda>k. (next_call_identifier m - 1 + k) mod 1023) [0..<n]))"
    by (simp only: distinct_map inj_Suc)
  moreover have "x mod 1023 + 1 \<in> {1..1023}" for x :: nat
    using mod_less_divisor [of 1023 x] by (simp del: mod_less_divisor)
  ultimately show ?thesis using take_ids_eq [OF i, of n] by (auto simp: comp_def)
qed

theorem cmce_call_ids_distinct_witness: "distinct (take_ids new_mgr 1000)"
  using cmce_call_ids_distinct [OF cm_reachable.start, of 1000] by simp

text \<open>At a tick in timeslot 1, exactly the circuits that are older than six minutes and whose call is
  not protected are closed and reported, in slot order, downlink circuits first; a closed downlink
  circuit takes its queue with it, and every other circuit stays.\<close>

lemma cmce_expiry_exact:
  assumes "cm_reachable m"
  shows "\<exists>m'. close_expired_circuits m None protected =
      Some (if expiring m protected = [] then None else Some (map (\<lambda>c. SendClose (call_id c) c) (expiring m protected)), m')
    \<and> (\<forall>t. slot_ok t \<longrightarrow> cslot m' t = swept (expired m protected) (cslot m t))"
  using close_expired_circuits_sweeps [OF cm_inv_reachable [OF assms], of protected] by blast

theorem cmce_expiry_exact_witness: "\<exists>m'. close_expired_circuits new_mgr None (\<lambda>_. False) = Some (None, m')"
  using cmce_expiry_exact [OF cm_reachable.start, of "\<lambda>_. False"]
  by (auto simp: expiring_def some_of_def new_mgr_def)

text \<open>Late entry: a tick in timeslot 1 repeats the D-SETUP of exactly those eligible group circuits that
  are due, after the closes and in slot order, and a circuit whose D-SETUP was sent is due again
  exactly 72 timeslots later, not earlier.\<close>

lemma cmce_late_entry_cadence:
  assumes "cm_reachable m" and "time_ok now" and "time_t now = 1"
    and "close_expired_circuits (m\<lparr>dltime := now\<rparr>) None P = Some (closes, m1)"
    and "distinct (map call_id (filter (\<lambda>c. L (call_id c)) (some_of (dl m1))))"
  shows "\<exists>tasks m'. tick_start m now P L = Some (tasks, m') \<and>
    (case tasks of None \<Rightarrow> [] | Some cs \<Rightarrow> cs) = (case closes of None \<Rightarrow> [] | Some cs \<Rightarrow> cs)
       @ map setup_cmd (filter (\<lambda>c. L (call_id c) \<and> due m1 c) (some_of (dl m1))) \<and>
    (\<forall>c \<in> set (some_of (dl m1)). L (call_id c) \<and> due m1 c \<longrightarrow>
       (\<exists>t. next_late_entry_d_setups m' (call_id c) = Some t \<and>
          (\<forall>k. 0 \<le> k \<and> k \<le> 1000000 \<longrightarrow> (age t (add_timeslots now k) \<ge> 0 \<longleftrightarrow> 72 \<le> k))))"
proof -
  let ?cs = "filter (\<lambda>c. L (call_id c)) (some_of (dl m1))"
  have i: "cm_inv (m\<lparr>dltime := now\<rparr>)" using cm_inv_reachable [OF assms(1)] by simp
  have d: "dltime m1 = now" using close_expired_circuits_sweeps [OF i, of P] assms(4) by auto
  from late_entry_fold [OF assms(5), of closes m1] obtain nl where nl:
    "fold late_entry_step ?cs (closes, m1) = (fold (\<lambda>c t. push_cmd t (setup_cmd c)) (filter (due m1) ?cs) closes, m1\<lparr>next_late_entry_d_setups := nl\<rparr>)"
    "\<forall>c \<in> set ?cs. comm_type c \<noteq> P2p \<longrightarrow> nl (call_id c) = Some (if due m1 c then add_timeslots now LATE_ENTRY_INTERVAL_TIMESLOTS else due_at m1 c)"
    using d by auto
  have t: "tick_start m now P L = Some (fold (\<lambda>c t. push_cmd t (setup_cmd c)) (filter (due m1) ?cs) closes, m1\<lparr>next_late_entry_d_setups := nl\<rparr>)"
    using assms(3,4) nl(1) by (simp add: tick_start_def Let_def)
  have f: "filter (due m1) ?cs = filter (\<lambda>c. L (call_id c) \<and> due m1 c) (some_of (dl m1))"
    by (simp add: conj_commute)
  have n: "nl (call_id c) = Some (add_timeslots now LATE_ENTRY_INTERVAL_TIMESLOTS)"
    if "c \<in> set (some_of (dl m1))" "L (call_id c) \<and> due m1 c" for c
    using nl(2) that by (auto simp: due_def)
  show ?thesis
    by (rule exI, rule exI, rule conjI [OF t])
       (use n interval_later [OF assms(2)] in \<open>auto simp: push_cmds f split: option.splits\<close>)
qed

theorem cmce_late_entry_cadence_witness:
  "\<exists>tasks m'. tick_start new_mgr default_time (\<lambda>_. False) (\<lambda>_. True) = Some (tasks, m') \<and>
     (case tasks of None \<Rightarrow> [] | Some cs \<Rightarrow> cs) = []"
proof -
  have e: "new_mgr\<lparr>dltime := default_time\<rparr> = new_mgr" "some_of (dl new_mgr) = []" "some_of (ul_only new_mgr) = []"
    by (simp_all add: new_mgr_def some_of_def)
  have c: "close_expired_circuits (new_mgr\<lparr>dltime := default_time\<rparr>) None (\<lambda>_. False) = Some (None, new_mgr)"
    by (simp add: e(1)) (simp add: close_expired_circuits_def expired_in_def e)
  have "time_t default_time = 1" by (simp add: default_time_def)
  from cmce_late_entry_cadence [OF cm_reachable.start time_ok_default this c, of "\<lambda>_. True"] show ?thesis
    by (auto simp: e)
qed

end
