(* ===== verification/Pdu_Codec.thy ===== *)
theory Pdu_Codec
  imports Bit_Buffer "HOL-Library.Sublist"
begin

text \<open>
  The vocabulary of the PDU files of \<^verbatim>\<open>crates/tetra-pdus\<close> and its logic.

  A parser is a function of the buffer that panics (\<open>None\<close>), returns early with an error
  (\<open>Inl\<close>) or returns a value (\<open>Inr\<close>), with the buffer moved on: \<open>p_bind\<close> is the sequencing of
  statements under the \<open>?\<close> operator, \<open>p_assert\<close> is \<open>assert!\<close>. A writer panics or returns
  the buffer; \<open>stmts\<close> runs writers in order.

  \<open>parses p s x\<close>: on a buffer whose unread bits start with \<open>s\<close>, \<open>p\<close> consumes exactly \<open>s\<close>
  and returns \<open>x\<close>. \<open>emits w s\<close>: \<open>w\<close> writes exactly \<open>s\<close> at the cursor wherever that is possible.
  A PDU's wire format is then a function from its fields to bits, and a round trip is one
  \<open>emits\<close> and one \<open>parses\<close> fact about it; the locale \<open>wire_format\<close> states that contract.
\<close>

section \<open>Parsers and writers\<close>

type_synonym ('b, 'a) parser = "'b \<Rightarrow> ((pdu_parse_err + 'a) \<times> 'b) option"
type_synonym 'b writer = "'b \<Rightarrow> 'b option"

definition p_ret :: "'a \<Rightarrow> ('b, 'a) parser" where
  "p_ret x = (\<lambda>b. Some (Inr x, b))"

definition p_fail :: "pdu_parse_err \<Rightarrow> ('b, 'a) parser" where
  "p_fail e = (\<lambda>b. Some (Inl e, b))"

definition p_panic :: "('b, 'a) parser" where
  "p_panic = (\<lambda>b. None)"

definition p_bind :: "('b, 'a) parser \<Rightarrow> ('a \<Rightarrow> ('b, 'c) parser) \<Rightarrow> ('b, 'c) parser" where
  "p_bind p k = (\<lambda>b. case p b of None \<Rightarrow> None
     | Some (Inl e, b) \<Rightarrow> Some (Inl e, b) | Some (Inr x, b) \<Rightarrow> k x b)"

definition p_assert :: "bool \<Rightarrow> ('b, 'a) parser \<Rightarrow> ('b, 'a) parser" where
  "p_assert c p = (if c then p else p_panic)"

definition p_some :: "pdu_parse_err \<Rightarrow> 'a option \<Rightarrow> ('a \<Rightarrow> ('b, 'c) parser) \<Rightarrow> ('b, 'c) parser" where
  "p_some e x k = (case x of None \<Rightarrow> p_fail e | Some v \<Rightarrow> k v)"

definition p_unwrap :: "'a option \<Rightarrow> ('a \<Rightarrow> ('b, 'c) parser) \<Rightarrow> ('b, 'c) parser" where
  "p_unwrap x k = (case x of None \<Rightarrow> p_panic | Some v \<Rightarrow> k v)"

definition p_field :: "'b bitbuf_ops \<Rightarrow> nat \<Rightarrow> string \<Rightarrow> ('b, nat) parser" where
  "p_field ops n f = (\<lambda>b. Some (bb_read_field ops b n f))"

definition p_flag :: "'b bitbuf_ops \<Rightarrow> string \<Rightarrow> ('b, bool) parser" where
  "p_flag ops f = p_bind (p_field ops 1 f) (\<lambda>v. p_ret (v \<noteq> 0))"

text \<open>An optional field behind a flag that was read just before it.\<close>

definition p_opt :: "bool \<Rightarrow> ('b, 'a) parser \<Rightarrow> ('b, 'a option) parser" where
  "p_opt c p = (if c then p_bind p (\<lambda>x. p_ret (Some x)) else p_ret None)"

definition p_optional :: "'b bitbuf_ops \<Rightarrow> string \<Rightarrow> ('b, 'a) parser \<Rightarrow> ('b, 'a option) parser" where
  "p_optional ops f p = p_bind (p_field ops 1 f) (\<lambda>flag. p_opt (flag = 1) p)"

definition w_bits :: "'b bitbuf_ops \<Rightarrow> nat \<Rightarrow> nat \<Rightarrow> 'b writer" where
  "w_bits ops v n = (\<lambda>b. bb_write_bits ops b v n)"

definition w_flag :: "'b bitbuf_ops \<Rightarrow> bool \<Rightarrow> 'b writer" where
  "w_flag ops x = w_bits ops (of_bool x) 1"

definition w_assert :: "bool \<Rightarrow> 'b writer" where
  "w_assert c = (\<lambda>b. if c then Some b else None)"

definition w_panic :: "'b writer" where
  "w_panic = (\<lambda>b. None)"

fun stmts :: "'b writer list \<Rightarrow> 'b writer" where
  "stmts [] b = Some b"
| "stmts (w # ws) b = (case w b of None \<Rightarrow> None | Some b \<Rightarrow> stmts ws b)"

text \<open>A value behind its presence flag.\<close>

definition w_optional :: "'b bitbuf_ops \<Rightarrow> ('a \<Rightarrow> 'b writer) \<Rightarrow> 'a option \<Rightarrow> 'b writer" where
  "w_optional ops w x = (case x of Some v \<Rightarrow> stmts [w_bits ops 1 1, w v] | None \<Rightarrow> w_bits ops 0 1)"

text \<open>A writer that can return an error has the type of a parser that returns nothing.\<close>

definition w_try :: "'b writer \<Rightarrow> ('b, unit) parser" where
  "w_try w = (\<lambda>b. map_option (\<lambda>b. (Inr (), b)) (w b))"

definition expect_value :: "'b bitbuf_ops \<Rightarrow> bool \<Rightarrow> string \<Rightarrow> ('b, unit) parser \<Rightarrow> ('b, unit) parser" where
  "expect_value ops x msg k = (case bb_expect_value ops x True msg of Inl e \<Rightarrow> p_fail e | Inr _ \<Rightarrow> k)"

definition expect_number :: "'b bitbuf_ops \<Rightarrow> nat \<Rightarrow> nat \<Rightarrow> ('b, 'a) parser \<Rightarrow> ('b, 'a) parser" where
  "expect_number ops v w k = (case bb_expect_number ops v w of Inl e \<Rightarrow> p_fail e | Inr _ \<Rightarrow> k)"

text \<open>Single bits.\<close>

definition p_bit :: "'b bitbuf_ops \<Rightarrow> pdu_parse_err \<Rightarrow> ('b, bool) parser" where
  "p_bit ops e = (\<lambda>b. case bb_read_bit ops b of (None, b) \<Rightarrow> Some (Inl e, b) | (Some v, b) \<Rightarrow> Some (Inr (v \<noteq> 0), b))"

definition w_bit :: "'b bitbuf_ops \<Rightarrow> bool \<Rightarrow> 'b writer" where
  "w_bit ops x = (\<lambda>b. bb_write_bit ops b (bit_of x))"

fun p_replicate :: "nat \<Rightarrow> ('b, 'a) parser \<Rightarrow> ('b, 'a list) parser" where
  "p_replicate 0 p = p_ret []"
| "p_replicate (Suc n) p = p_bind p (\<lambda>x. p_bind (p_replicate n p) (\<lambda>xs. p_ret (x # xs)))"

definition as_u8 :: "nat \<Rightarrow> nat" where
  "as_u8 v = v mod 256"

definition as_u16 :: "nat \<Rightarrow> nat" where
  "as_u16 v = v mod 65536"

lemma as_u8_id [simp]: "v < 256 \<Longrightarrow> as_u8 v = v"
  by (simp add: as_u8_def)

lemma as_u16_id [simp]: "v < 65536 \<Longrightarrow> as_u16 v = v"
  by (simp add: as_u16_def)

section \<open>Wire facts\<close>

lemma p_checks [simp]:
  "p_assert True p = p" "p_some e (Some v) k = k v" "p_unwrap (Some v) k = k v"
  by (simp_all add: p_assert_def p_some_def p_unwrap_def)

lemma p_bind_ret [simp]: "p_bind (p_ret x) k = k x"
  by (simp add: p_bind_def p_ret_def)

lemma p_bind_fail [simp]: "p_bind (p_fail e) k = p_fail e" "p_bind p_panic k = p_panic"
  by (simp_all add: p_bind_def p_fail_def p_panic_def)

lemma p_bind_assoc [simp]: "p_bind (p_bind p f) g = p_bind p (\<lambda>x. p_bind (f x) g)"
  by (auto simp: p_bind_def fun_eq_iff split: option.splits sum.splits)

lemma p_opt_cases [simp]: "p_opt False p = p_ret None" "p_opt True p = p_bind p (\<lambda>x. p_ret (Some x))"
  by (simp_all add: p_opt_def)

declare val_bits.simps(2) [simp del] stmts.simps [simp del]

lemma val_bits_1: "val_bits (Suc 0) v = [odd v]"
  by (simp add: val_bits.simps)

lemma val_bits_const [simp]: "val_bits (Suc 0) 0 = [False]" "val_bits (Suc 0) (Suc 0) = [True]"
  by (simp_all add: val_bits_1)

lemma stmts_assert [simp]: "stmts (w_assert True # ws) = stmts ws"
  by (simp add: stmts.simps w_assert_def fun_eq_iff)

definition opt_bits :: "('a \<Rightarrow> bool list) \<Rightarrow> 'a option \<Rightarrow> bool list" where
  "opt_bits f x = (case x of None \<Rightarrow> [False] | Some v \<Rightarrow> True # f v)"

lemma opt_bits_simps [simp]: "opt_bits f None = [False]" "opt_bits f (Some v) = True # f v"
  by (simp_all add: opt_bits_def)

text \<open>Two short fields as one.\<close>

lemma val_bits_add: "val_bits (m + n) v = val_bits m (v div 2 ^ n) @ val_bits n v"
proof (induction n arbitrary: v)
  case (Suc n)
  have "val_bits (m + Suc n) v = val_bits (m + n) (v div 2) @ [odd v]" by (simp add: val_bits.simps)
  also have "\<dots> = val_bits m (v div 2 div 2 ^ n) @ val_bits (Suc n) v" by (simp add: Suc.IH val_bits.simps)
  finally show ?case by (simp add: div_mult2_eq)
qed simp

lemma val_bits_mod: "val_bits n (v mod 2 ^ n) = val_bits n v"
proof (induction n arbitrary: v)
  case (Suc n)
  have "v mod 2 ^ Suc n div 2 = v div 2 mod 2 ^ n"
    by (simp add: div_mult2_eq mod_mult2_eq [of v 2 "2 ^ n"])
  moreover have "odd (v mod 2 ^ Suc n) = odd v"
    by (metis dvd_mod_iff dvd_triv_left power_Suc)
  ultimately show ?case using Suc.IH [of "v div 2"] by (simp add: val_bits.simps)
qed simp

lemma p_bind_checks:
  "p_bind (p_unwrap x k) f = p_unwrap x (\<lambda>v. p_bind (k v) f)"
  "p_bind (p_some e x k) f = p_some e x (\<lambda>v. p_bind (k v) f)"
  by (cases x; simp add: p_unwrap_def p_some_def)+

lemma val_bits_eq_iff: "\<lbrakk>v < 2 ^ n; w < 2 ^ n\<rbrakk> \<Longrightarrow> val_bits n v = val_bits n w \<longleftrightarrow> v = w"
  using bits_val_val_bits by metis

lemma prefix_val_bits:
  assumes "v < 2 ^ n" and "w < 2 ^ n"
  shows "prefix (val_bits n w @ u) (val_bits n v @ r) \<longleftrightarrow> v = w \<and> prefix u r"
  using val_bits_eq_iff [OF assms] by (auto simp: prefix_def)

text \<open>Constant leading fields, as premises on the unread bits.\<close>

lemmas type_prefix = prefix_val_bits prefix_val_bits [where u = "[]", simplified]

context bit_buffer
begin

definition parses :: "('b, 'a) parser \<Rightarrow> bool list \<Rightarrow> 'a \<Rightarrow> bool" where
  "parses p s x \<longleftrightarrow> (\<forall>b t. view_wf (view b) \<and> remaining (view b) = s @ t \<longrightarrow>
     (\<exists>b'. p b = Some (Inr x, b') \<and> view b' = advance (view b) (length s)))"

definition emits :: "'b writer \<Rightarrow> bool list \<Rightarrow> bool" where
  "emits w s \<longleftrightarrow> (\<forall>b. can_write (view b) (length s) \<longrightarrow>
     (\<exists>b'. w b = Some b' \<and> view b' = put_bits (view b) s))"

lemma parses_ret [intro]: "parses (p_ret x) [] x"
  by (simp add: parses_def p_ret_def)

lemma parses_bind: "\<lbrakk>parses p s x; parses (k x) t y\<rbrakk> \<Longrightarrow> parses (p_bind p k) (s @ t) y"
  unfolding parses_def p_bind_def
proof (intro allI impI)
  fix b u
  assume p: "\<forall>b t. view_wf (view b) \<and> remaining (view b) = s @ t \<longrightarrow>
      (\<exists>b'. p b = Some (Inr x, b') \<and> view b' = advance (view b) (length s))"
    and k: "\<forall>b u. view_wf (view b) \<and> remaining (view b) = t @ u \<longrightarrow>
      (\<exists>b'. k x b = Some (Inr y, b') \<and> view b' = advance (view b) (length t))"
    and b: "view_wf (view b) \<and> remaining (view b) = (s @ t) @ u"
  from p b obtain b1 where b1: "p b = Some (Inr x, b1)" "view b1 = advance (view b) (length s)" by fastforce
  with b remaining_prefix [of "view b" s "t @ u"] have "view_wf (view b1)" "remaining (view b1) = t @ u" by simp_all
  with k obtain b2 where "k x b1 = Some (Inr y, b2)" "view b2 = advance (view b1) (length t)" by blast
  with b1 show "\<exists>b'. (case p b of None \<Rightarrow> None | Some (Inl e, b) \<Rightarrow> Some (Inl e, b) | Some (Inr x, b) \<Rightarrow> k x b) = Some (Inr y, b')
      \<and> view b' = advance (view b) (length (s @ t))" by simp
qed

lemma parses_field: "\<lbrakk>w < 2 ^ n; n \<le> 64\<rbrakk> \<Longrightarrow> parses (p_field ops n f) (val_bits n w) w"
  unfolding parses_def p_field_def
proof (intro allI impI)
  fix b t
  assume w: "w < 2 ^ n" "n \<le> 64" and b: "view_wf (view b) \<and> remaining (view b) = val_bits n w @ t"
  note pre = remaining_prefix [OF conjunct1 [OF b] conjunct2 [OF b]]
  from read_field [OF conjunct1 [OF b] w(2), of f] pre(1,2)
  show "\<exists>b'. Some (bb_read_field ops b n f) = Some (Inr w, b') \<and> view b' = advance (view b) (length (val_bits n w))"
    using bits_val_val_bits [OF w(1)] by auto
qed

lemma parses_bind_field:
  "\<lbrakk>w < 2 ^ n; n \<le> 64; parses (k w) t y\<rbrakk> \<Longrightarrow> parses (p_bind (p_field ops n f) k) (val_bits n w @ t) y"
  by (rule parses_bind [OF parses_field])

lemma parses_bind_bit:
  "parses (k 0) t y \<Longrightarrow> parses (p_bind (p_field ops (Suc 0) f) k) (False # t) y"
  "parses (k 1) t y \<Longrightarrow> parses (p_bind (p_field ops (Suc 0) f) k) (True # t) y"
  using parses_bind_field [of 0 "Suc 0" k t y f] parses_bind_field [of 1 "Suc 0" k t y f] by simp_all

lemma parses_opt_None: "\<not> c \<Longrightarrow> parses (p_opt c p) [] None"
  by (auto simp: p_opt_def)

lemma parses_opt_Some: "\<lbrakk>c; parses p s x\<rbrakk> \<Longrightarrow> parses (p_opt c p) s (Some x)"
  using parses_bind [of p s x "\<lambda>x. p_ret (Some x)" "[]" "Some x"] by (auto simp: p_opt_def)

lemma parses_flag: "parses (p_flag ops f) [x] x"
  using parses_bind_field [of "of_bool x" 1 "\<lambda>v. p_ret (v \<noteq> 0)" "[]" x f]
  by (cases x) (auto simp: p_flag_def val_bits_1)

lemma parses_bind_flag: "parses (k x) t y \<Longrightarrow> parses (p_bind (p_flag ops f) k) (x # t) y"
  using parses_bind [OF parses_flag] by fastforce

lemma parses_optional:
  assumes "\<And>v. x = Some v \<Longrightarrow> parses p (f v) v"
  shows "parses (p_optional ops fl p) (opt_bits f x) x"
proof (cases x)
  case None
  have "parses (p_bind (p_field ops 1 fl) (\<lambda>flag. p_opt (flag = 1) p)) (val_bits 1 0 @ []) None"
    by (rule parses_bind_field) (auto simp: p_opt_def)
  with None show ?thesis by (simp add: p_optional_def)
next
  case (Some v)
  have "parses (p_bind (p_field ops 1 fl) (\<lambda>flag. p_opt (flag = 1) p)) (val_bits 1 1 @ f v) (Some v)"
    by (rule parses_bind_field) (simp_all add: parses_opt_Some assms Some del: p_opt_cases)
  with Some show ?thesis by (simp add: p_optional_def)
qed

lemma parses_bind_optional:
  "\<lbrakk>\<And>v. x = Some v \<Longrightarrow> parses p (f v) v; parses (k x) t y\<rbrakk>
   \<Longrightarrow> parses (p_bind (p_optional ops fl p) k) (opt_bits f x @ t) y"
  by (rule parses_bind [OF parses_optional])

text \<open>A number read into a value \<open>f\<close> of it.\<close>

lemma parses_number:
  "\<lbrakk>w < 2 ^ n; n \<le> 64; f w = x\<rbrakk> \<Longrightarrow> parses (p_bind (p_field ops n nm) (\<lambda>v. p_ret (f v))) (val_bits n w) x"
  using parses_bind_field [of w n "\<lambda>v. p_ret (f v)" "[]" x nm] by auto

lemma parses_return: "x = y \<Longrightarrow> parses (p_ret x) [] y"
  by auto

text \<open>The last piece of a format.\<close>

lemmas parses_end_field = parses_bind_field [where t = "[]", unfolded append_Nil2]
lemmas parses_end_optional = parses_bind_optional [where t = "[]", unfolded append_Nil2]

lemma emits_Nil: "emits (stmts []) []"
  by (auto simp: emits_def can_write_def stmts.simps)

lemma emits_Cons: "\<lbrakk>emits w s; emits (stmts ws) t\<rbrakk> \<Longrightarrow> emits (stmts (w # ws)) (s @ t)"
  unfolding emits_def
proof (intro allI impI)
  fix b
  assume w: "\<forall>b. can_write (view b) (length s) \<longrightarrow> (\<exists>b'. w b = Some b' \<and> view b' = put_bits (view b) s)"
    and ws: "\<forall>b. can_write (view b) (length t) \<longrightarrow> (\<exists>b'. stmts ws b = Some b' \<and> view b' = put_bits (view b) t)"
    and b: "can_write (view b) (length (s @ t))"
  then have "can_write (view b) (length s)" using can_write_le [OF b, of "length s"] by simp
  with w obtain b1 where b1: "w b = Some b1" "view b1 = put_bits (view b) s" by blast
  with can_write_put [of "view b" s "length t"] b have "can_write (view b1) (length t)" by simp
  with ws obtain b2 where "stmts ws b1 = Some b2" "view b2 = put_bits (view b1) t" by blast
  with b1 b put_bits_append [OF can_write_wf] show "\<exists>b'. stmts (w # ws) b = Some b' \<and> view b' = put_bits (view b) (s @ t)"
    by (auto simp: stmts.simps)
qed

lemma emits_bits: "\<lbrakk>v < 2 ^ n; n \<le> 64\<rbrakk> \<Longrightarrow> emits (w_bits ops v n) (val_bits n v)"
  unfolding emits_def w_bits_def
proof (intro allI impI)
  fix b
  assume v: "v < 2 ^ n" "n \<le> 64" and b: "can_write (view b) (length (val_bits n v))"
  from write_bits_put [of b n v] v b
  show "\<exists>b'. bb_write_bits ops b v n = Some b' \<and> view b' = put_bits (view b) (val_bits n v)" by simp
qed

lemma emits_flag: "emits (w_flag ops x) [x]"
  using emits_bits [of "of_bool x" 1] by (cases x) (auto simp: w_flag_def val_bits_1)

lemma emits_optional:
  assumes "\<And>v. x = Some v \<Longrightarrow> emits (w v) (f v)"
  shows "emits (w_optional ops w x) (opt_bits f x)"
proof (cases x)
  case None
  then show ?thesis using emits_bits [of 0 1] by (simp add: w_optional_def val_bits_1)
next
  case (Some v)
  have "emits (stmts [w_bits ops 1 1, w v]) (val_bits 1 1 @ f v @ [])"
    by (intro emits_Cons emits_Nil emits_bits assms Some) simp_all
  with Some show ?thesis by (simp add: w_optional_def val_bits_1)
qed

lemma emits_assert: "c \<Longrightarrow> emits (w_assert c) []"
  by (auto simp: emits_def w_assert_def can_write_def)

lemma emits_single: "emits w s \<Longrightarrow> emits (stmts [w]) s"
  using emits_Cons [OF _ emits_Nil] by fastforce

lemma emits_Cons_flag: "emits (stmts ws) t \<Longrightarrow> emits (stmts (w_flag ops x # ws)) (x # t)"
  using emits_Cons [OF emits_flag] by fastforce

lemma emits_Cons_assert: "emits (stmts ws) t \<Longrightarrow> emits (stmts (w_assert True # ws)) t"
  by simp

lemma emits_bit: "emits (w_bits ops 0 (Suc 0)) [False]" "emits (w_bits ops (Suc 0) (Suc 0)) [True]"
  using emits_bits [of 0 "Suc 0"] emits_bits [of "Suc 0" "Suc 0"] by simp_all

lemma emits_Cons_bit:
  "emits (stmts ws) t \<Longrightarrow> emits (stmts (w_bits ops 0 (Suc 0) # ws)) (False # t)"
  "emits (stmts ws) t \<Longrightarrow> emits (stmts (w_bits ops (Suc 0) (Suc 0) # ws)) (True # t)"
  using emits_Cons [OF emits_bit(1)] emits_Cons [OF emits_bit(2)] by fastforce+

lemma emits_flags: "emits (stmts (map (w_flag ops) xs)) xs"
  by (induction xs) (auto intro: emits_Nil emits_Cons_flag)

lemma emits_end_assert: "\<lbrakk>c; emits w s\<rbrakk> \<Longrightarrow> emits (stmts [w, w_assert c]) s"
  using emits_Cons [of w s "[w_assert c]" "[]"] emits_single [OF emits_assert] by simp

lemma emits_Some: "\<lbrakk>emits w s; can_write (view b) (length s)\<rbrakk> \<Longrightarrow> \<exists>b'. w b = Some b' \<and> view b' = put_bits (view b) s"
  by (simp add: emits_def)

lemma parses_Some:
  "\<lbrakk>parses p s x; view_wf (view b); remaining (view b) = s @ t\<rbrakk>
   \<Longrightarrow> \<exists>b'. p b = Some (Inr x, b') \<and> view b' = advance (view b) (length s)"
  by (auto simp: parses_def)

lemmas parse_intros = parses_bind_bit parses_bind_field parses_bind_flag parses_bind_optional
  parses_end_field parses_end_optional parses_number parses_flag parses_optional parses_return

lemmas emit_intros = emits_Cons_assert emits_Cons_bit emits_Cons_flag emits_Cons emits_single emits_bit emits_end_assert emits_Nil emits_bits
  emits_flag emits_flags emits_optional

text \<open>
  What a parser does to an arbitrary buffer: \<open>spec N p Q\<close> says that \<open>p\<close> panics only if the unread
  bits satisfy \<open>N\<close>, and that a value it returns stands in relation \<open>Q\<close> to the bits it consumed.
  The rules compute backwards through the statements.
\<close>

definition spec :: "(bool list \<Rightarrow> bool) \<Rightarrow> ('b, 'a) parser \<Rightarrow> (bool list \<Rightarrow> 'a \<Rightarrow> bool) \<Rightarrow> bool" where
  "spec N p Q \<longleftrightarrow> (\<forall>b. view_wf (view b) \<longrightarrow> (case p b of None \<Rightarrow> N (remaining (view b))
     | Some (Inl e, b') \<Rightarrow> True
     | Some (Inr x, b') \<Rightarrow> (\<exists>s. remaining (view b) = s @ remaining (view b') \<and> view b' = advance (view b) (length s) \<and> Q s x)))"

lemma spec_ret: "Q [] x \<Longrightarrow> spec N (p_ret x) Q"
  by (simp add: spec_def p_ret_def)

lemma spec_fail: "spec N (p_fail e) Q"
  by (simp add: spec_def p_fail_def)

lemma spec_panic: "(\<And>r. N r) \<Longrightarrow> spec N p_panic Q"
  by (simp add: spec_def p_panic_def)

lemma spec_assert: "\<lbrakk>c \<Longrightarrow> spec N p Q; \<And>r. \<not> c \<Longrightarrow> N r\<rbrakk> \<Longrightarrow> spec N (p_assert c p) Q"
  by (cases c) (simp_all add: p_assert_def spec_panic)

lemma spec_some: "(\<And>v. x = Some v \<Longrightarrow> spec N (k v) Q) \<Longrightarrow> spec N (p_some e x k) Q"
  by (cases x) (simp_all add: p_some_def spec_fail)

lemma spec_unwrap: "\<lbrakk>\<And>v. x = Some v \<Longrightarrow> spec N (k v) Q; \<And>r. x = None \<Longrightarrow> N r\<rbrakk> \<Longrightarrow> spec N (p_unwrap x k) Q"
  by (cases x) (simp_all add: p_unwrap_def spec_panic)

lemma spec_bind:
  assumes p: "spec N p P"
    and k: "\<And>s x. P s x \<Longrightarrow> spec (\<lambda>r. N (s @ r)) (k x) (\<lambda>t. Q (s @ t))"
  shows "spec N (p_bind p k) Q"
  unfolding spec_def p_bind_def
proof (intro allI impI)
  fix b
  assume wf: "view_wf (view b)"
  show "case (case p b of None \<Rightarrow> None | Some (Inl e, b) \<Rightarrow> Some (Inl e, b) | Some (Inr x, b) \<Rightarrow> k x b) of
      None \<Rightarrow> N (remaining (view b)) | Some (Inl e, b') \<Rightarrow> True
    | Some (Inr x, b') \<Rightarrow> (\<exists>s. remaining (view b) = s @ remaining (view b') \<and> view b' = advance (view b) (length s) \<and> Q s x)"
  proof (cases "p b")
    case None
    with p wf show ?thesis by (auto simp: spec_def)
  next
    case (Some rb)
    obtain r b1 where rb: "rb = (r, b1)" by (cases rb)
    show ?thesis
    proof (cases r)
      case (Inl e)
      with Some rb show ?thesis by simp
    next
      case (Inr x)
      with p [unfolded spec_def, rule_format, OF wf] Some rb
      have "\<exists>s. remaining (view b) = s @ remaining (view b1) \<and> view b1 = advance (view b) (length s) \<and> P s x" by simp
      then obtain s where s: "remaining (view b) = s @ remaining (view b1)" "view b1 = advance (view b) (length s)" "P s x"
        by blast
      have wf1: "view_wf (view b1)" using remaining_prefix(3) [OF wf s(1)] s(2) by simp
      note k1 = k [OF s(3), unfolded spec_def, rule_format, OF wf1]
      show ?thesis
      proof (cases "k x b1")
        case None
        with k1 Some rb Inr s(1) show ?thesis by simp
      next
        case (Some r2)
        obtain y b2 where r2: "r2 = (y, b2)" by (cases r2)
        show ?thesis
        proof (cases y)
          case (Inr z)
          with k1 Some r2 obtain t where t: "remaining (view b1) = t @ remaining (view b2)"
              "view b2 = advance (view b1) (length t)" "Q (s @ t) z" by auto
          then have "remaining (view b) = (s @ t) @ remaining (view b2) \<and> view b2 = advance (view b) (length (s @ t)) \<and> Q (s @ t) z"
            using s(1,2) by simp
          then have "\<exists>u. remaining (view b) = u @ remaining (view b2) \<and> view b2 = advance (view b) (length u) \<and> Q u z" by blast
          then show ?thesis using \<open>p b = Some rb\<close> rb \<open>r = Inr x\<close> Some r2 Inr by simp
        qed (use \<open>p b = Some rb\<close> rb \<open>r = Inr x\<close> Some r2 in simp)
      qed
    qed
  qed
qed

lemma spec_field: "n \<le> 64 \<Longrightarrow> spec N (p_field ops n f) (\<lambda>s v. s = val_bits n v \<and> v < 2 ^ n)"
  unfolding spec_def p_field_def
proof (intro allI impI)
  fix b
  assume n: "n \<le> 64" and wf: "view_wf (view b)"
  show "case Some (bb_read_field ops b n f) of None \<Rightarrow> N (remaining (view b)) | Some (Inl e, b') \<Rightarrow> True
    | Some (Inr x, b') \<Rightarrow> (\<exists>s. remaining (view b) = s @ remaining (view b') \<and> view b' = advance (view b) (length s)
        \<and> s = val_bits n x \<and> x < 2 ^ n)"
  proof (cases "raw_pos (view b) + n \<le> raw_end (view b)")
    case True
    let ?s = "take n (remaining (view b))"
    have len: "length ?s = n" using True length_remaining [OF wf] by simp
    from read_field [OF wf n True, of f] remaining_take [OF True] obtain b'
      where "bb_read_field ops b n f = (Inr (bits_val ?s), b')" "view b' = advance (view b) n" by auto
    moreover have "val_bits n (bits_val ?s) = ?s" "bits_val ?s < 2 ^ n"
      using val_bits_bits_val [of ?s] bits_val_less [of ?s] len by simp_all
    moreover have "remaining (view b) = ?s @ remaining (advance (view b) n)"
      by (simp add: remaining_advance)
    ultimately show ?thesis using len by auto
  next
    case False
    from read_field_short [OF wf False, of f] show ?thesis
      by (cases "bb_read_field ops b n f") auto
  qed
qed

lemma spec_bind_field:
  assumes "n \<le> 64" and "\<And>v. v < 2 ^ n \<Longrightarrow> spec (\<lambda>r. N (val_bits n v @ r)) (k v) (\<lambda>t. Q (val_bits n v @ t))"
  shows "spec N (p_bind (p_field ops n f) k) Q"
  by (rule spec_bind [OF spec_field]) (auto simp: assms)

lemma spec_bind_flag:
  assumes "\<And>x. spec (\<lambda>r. N (x # r)) (k x) (\<lambda>t. Q (x # t))"
  shows "spec N (p_bind (p_flag ops f) k) Q"
  unfolding p_flag_def p_bind_assoc p_bind_ret
proof (rule spec_bind_field)
  fix v :: nat
  assume "v < 2 ^ 1"
  then have "v = of_bool (v \<noteq> 0)" by auto
  with assms [of "v \<noteq> 0"] show "spec (\<lambda>r. N (val_bits 1 v @ r)) (k (v \<noteq> 0)) (\<lambda>t. Q (val_bits 1 v @ t))"
    by (cases "v = 0") auto
qed simp

lemma spec_bind_bit:
  assumes "spec (\<lambda>r. N (False # r)) (k 0) (\<lambda>t. Q (False # t))"
    and "spec (\<lambda>r. N (True # r)) (k 1) (\<lambda>t. Q (True # t))"
  shows "spec N (p_bind (p_field ops (Suc 0) f) k) Q"
proof (rule spec_bind_field)
  fix v :: nat
  assume "v < 2 ^ Suc 0"
  then consider "v = 0" | "v = 1" by fastforce
  then show "spec (\<lambda>r. N (val_bits (Suc 0) v @ r)) (k v) (\<lambda>t. Q (val_bits (Suc 0) v @ t))"
    by cases (use assms in simp_all)
qed simp

lemma spec_optional:
  assumes "spec (\<lambda>r. N (True # r)) p P"
  shows "spec N (p_optional ops fl p) (\<lambda>s x. (x = None \<and> s = [False]) \<or> (\<exists>v t. x = Some v \<and> s = True # t \<and> P t v))"
  unfolding p_optional_def
proof (rule spec_bind_field)
  fix v :: nat
  assume "v < 2 ^ 1"
  then consider "v = 0" | "v = 1" by fastforce
  then show "spec (\<lambda>r. N (val_bits 1 v @ r)) (p_opt (v = 1) p)
    (\<lambda>t x. (x = None \<and> val_bits 1 v @ t = [False]) \<or> (\<exists>w u. x = Some w \<and> val_bits 1 v @ t = True # u \<and> P u w))"
  proof cases
    case 1
    then show ?thesis by (simp add: spec_ret)
  next
    case 2
    then show ?thesis using assms by (auto intro!: spec_bind spec_ret)
  qed
qed simp

text \<open>An optional value whose own parser consumes exactly its format.\<close>

lemma spec_bind_optional:
  assumes p: "spec (\<lambda>r. N (True # r)) p (\<lambda>s v. s = f v \<and> R v)"
    and k: "\<And>x. pred_option R x \<Longrightarrow> spec (\<lambda>r. N (opt_bits f x @ r)) (k x) (\<lambda>t. Q (opt_bits f x @ t))"
  shows "spec N (p_bind (p_optional ops fl p) k) Q"
proof (rule spec_bind [OF spec_optional [OF p]])
  fix s x
  assume "x = None \<and> s = [False] \<or> (\<exists>v t. x = Some v \<and> s = True # t \<and> t = f v \<and> R v)"
  then have "s = opt_bits f x" "pred_option R x" by auto
  with k show "spec (\<lambda>r. N (s @ r)) (k x) (\<lambda>t. Q (s @ t))" by simp
qed

lemma spec_weaken: "\<lbrakk>spec N p P; \<And>s x. P s x \<Longrightarrow> Q s x\<rbrakk> \<Longrightarrow> spec N p Q"
  unfolding spec_def by (fastforce split: option.splits sum.splits)

lemma spec_number: "\<lbrakk>n \<le> 64; \<And>v. v < 2 ^ n \<Longrightarrow> Q (val_bits n v) (f v)\<rbrakk> \<Longrightarrow> spec N (p_bind (p_field ops n nm) (\<lambda>v. p_ret (f v))) Q"
  by (auto intro!: spec_bind_field spec_ret)

lemma spec_if: "\<lbrakk>c \<Longrightarrow> spec N p Q; \<not> c \<Longrightarrow> spec N q Q\<rbrakk> \<Longrightarrow> spec N (if c then p else q) Q"
  by simp

lemmas spec_intros = spec_panic spec_bind_field spec_bind_bit spec_bind_flag spec_ret spec_fail spec_assert spec_some spec_unwrap

text \<open>What a specification says of a call.\<close>

lemma spec_Some:
  assumes "spec N p Q" and "view_wf (view b)" and "p b = Some (Inr x, b')"
  shows "\<exists>s. remaining (view b) = s @ remaining (view b') \<and> view b' = advance (view b) (length s) \<and> Q s x"
  using assms by (fastforce simp: spec_def)

lemma spec_no_panic: "\<lbrakk>spec N p Q; view_wf (view b); \<not> N (remaining (view b))\<rbrakk> \<Longrightarrow> p b \<noteq> None"
  unfolding spec_def by (cases "p b") auto

text \<open>
  Panic freedom alone: \<open>safe N p\<close> drops what \<open>spec\<close> says of the value, for parsers that end in a
  read whose effect on a short buffer the interface leaves open.
\<close>

definition safe :: "(bool list \<Rightarrow> bool) \<Rightarrow> ('b, 'a) parser \<Rightarrow> bool" where
  "safe N p \<longleftrightarrow> (\<forall>b. view_wf (view b) \<and> p b = None \<longrightarrow> N (remaining (view b)))"

lemma safe_spec: "spec N p Q \<Longrightarrow> safe N p"
  unfolding safe_def
proof (intro allI impI)
  fix b
  assume p: "spec N p Q" and b: "view_wf (view b) \<and> p b = None"
  from p [unfolded spec_def, rule_format, OF conjunct1 [OF b]] b show "N (remaining (view b))" by simp
qed

lemma safe_bind:
  assumes p: "spec N p P" and k: "\<And>s x. P s x \<Longrightarrow> safe (\<lambda>r. N (s @ r)) (k x)"
  shows "safe N (p_bind p k)"
  unfolding safe_def
proof (intro allI impI)
  fix b
  assume b: "view_wf (view b) \<and> p_bind p k b = None"
  note P = p [unfolded spec_def, rule_format, OF conjunct1 [OF b]]
  show "N (remaining (view b))"
  proof (cases "p b")
    case None
    then show ?thesis using P by simp
  next
    case (Some rb)
    with b obtain x b1 where r: "rb = (Inr x, b1)" "k x b1 = None"
      by (auto simp: p_bind_def split: sum.splits prod.splits)
    with P Some obtain s where s: "remaining (view b) = s @ remaining (view b1)" "view b1 = advance (view b) (length s)" "P s x"
      by auto
    have "view_wf (view b1)" using remaining_prefix(3) [OF _ s(1)] b s(2) by simp
    with k [OF s(3)] r(2) s(1) show ?thesis by (auto simp: safe_def)
  qed
qed

lemma safe_ret: "safe N (p_ret x)" and safe_fail: "safe N (p_fail e)" and safe_panic: "(\<And>r. N r) \<Longrightarrow> safe N p_panic"
  by (simp_all add: safe_def p_ret_def p_fail_def p_panic_def)

lemma safe_assert: "\<lbrakk>c \<Longrightarrow> safe N p; \<And>r. \<not> c \<Longrightarrow> N r\<rbrakk> \<Longrightarrow> safe N (p_assert c p)"
  by (cases c) (simp_all add: p_assert_def safe_panic)

lemma safe_some: "(\<And>v. x = Some v \<Longrightarrow> safe N (k v)) \<Longrightarrow> safe N (p_some e x k)"
  by (cases x) (simp_all add: p_some_def safe_fail)

lemma safe_unwrap: "\<lbrakk>\<And>v. x = Some v \<Longrightarrow> safe N (k v); \<And>r. x = None \<Longrightarrow> N r\<rbrakk> \<Longrightarrow> safe N (p_unwrap x k)"
  by (cases x) (simp_all add: p_unwrap_def safe_panic)

lemma safe_bind_field:
  "\<lbrakk>n \<le> 64; \<And>v. v < 2 ^ n \<Longrightarrow> safe (\<lambda>r. N (val_bits n v @ r)) (k v)\<rbrakk> \<Longrightarrow> safe N (p_bind (p_field ops n f) k)"
  by (rule safe_bind [OF spec_field]) auto

lemma spec_flag: "spec N (p_flag ops f) (\<lambda>s x. s = [x])"
  unfolding p_flag_def by (auto intro!: spec_bind_bit spec_ret simp: One_nat_def)

lemma safe_bind_flag: "(\<And>x. safe (\<lambda>r. N (x # r)) (k x)) \<Longrightarrow> safe N (p_bind (p_flag ops f) k)"
  by (rule safe_bind [OF spec_flag]) auto

lemma spec_bit: "spec N (p_field ops (Suc 0) f) (\<lambda>s v. s = [v = 1] \<and> v < 2)"
  by (rule spec_weaken [OF spec_field]) (auto simp: val_bits_1 less_2_cases_iff)

lemma safe_bind_bit:
  "\<lbrakk>safe (\<lambda>r. N (False # r)) (k 0); safe (\<lambda>r. N (True # r)) (k 1)\<rbrakk> \<Longrightarrow> safe N (p_bind (p_field ops (Suc 0) f) k)"
  by (rule safe_bind [OF spec_bit]) (auto simp: less_2_cases_iff)

lemmas safe_intros = safe_panic safe_bind_field safe_bind_bit safe_bind_flag safe_ret safe_fail safe_assert safe_some safe_unwrap

lemma safe_not_None:
  assumes "safe N p" and "view_wf (view b)" and "\<not> N (remaining (view b))"
  shows "p b \<noteq> None"
  using assms(1) [unfolded safe_def, rule_format, of b] assms(2,3) by (cases "p b = None") simp_all

text \<open>Errors: bits on which a parser returns early.\<close>

definition fails :: "('b, 'a) parser \<Rightarrow> bool list \<Rightarrow> bool" where
  "fails p s \<longleftrightarrow> (\<forall>b t. view_wf (view b) \<and> remaining (view b) = s @ t \<longrightarrow> (\<exists>e b'. p b = Some (Inl e, b')))"

lemma fails_fail: "fails (p_fail e) []"
  by (simp add: fails_def p_fail_def)

lemma fails_bind: "\<lbrakk>parses p s x; fails (k x) t\<rbrakk> \<Longrightarrow> fails (p_bind p k) (s @ t)"
  unfolding fails_def p_bind_def
proof (intro allI impI)
  fix b u
  assume p: "parses p s x" and k: "\<forall>b u. view_wf (view b) \<and> remaining (view b) = t @ u \<longrightarrow> (\<exists>e b'. k x b = Some (Inl e, b'))"
    and b: "view_wf (view b) \<and> remaining (view b) = (s @ t) @ u"
  then obtain b1 where b1: "p b = Some (Inr x, b1)" "view b1 = advance (view b) (length s)"
    using parses_Some [OF p, of b "t @ u"] by auto
  from remaining_prefix [of "view b" s "t @ u"] b b1(2) have "view_wf (view b1) \<and> remaining (view b1) = t @ u" by simp
  with k b1 show "\<exists>e b'. (case p b of None \<Rightarrow> None | Some (Inl e, b) \<Rightarrow> Some (Inl e, b) | Some (Inr x, b) \<Rightarrow> k x b) = Some (Inl e, b')"
    by fastforce
qed

lemma fails_bind_field: "\<lbrakk>w < 2 ^ n; n \<le> 64; fails (k w) t\<rbrakk> \<Longrightarrow> fails (p_bind (p_field ops n f) k) (val_bits n w @ t)"
  by (rule fails_bind [OF parses_field])

lemma fails_bind_flag: "fails (k x) t \<Longrightarrow> fails (p_bind (p_flag ops f) k) (x # t)"
  using fails_bind [OF parses_flag] by fastforce

lemma fails_bind_bit:
  "fails (k 0) t \<Longrightarrow> fails (p_bind (p_field ops (Suc 0) f) k) (False # t)"
  "fails (k 1) t \<Longrightarrow> fails (p_bind (p_field ops (Suc 0) f) k) (True # t)"
  using fails_bind_field [of 0 "Suc 0" k t f] fails_bind_field [of 1 "Suc 0" k t f] by simp_all

lemmas fails_end_field = fails_bind_field [where t = "[]", unfolded append_Nil2]

lemmas fail_intros = fails_fail fails_bind_bit fails_bind_field fails_bind_flag fails_end_field

text \<open>Writers that can fail.\<close>

definition puts :: "('b, 'a) parser \<Rightarrow> bool list \<Rightarrow> 'a \<Rightarrow> bool" where
  "puts p s x \<longleftrightarrow> (\<forall>b. can_write (view b) (length s) \<longrightarrow>
     (\<exists>b'. p b = Some (Inr x, b') \<and> view b' = put_bits (view b) s))"

lemma puts_try: "emits w s \<Longrightarrow> puts (w_try w) s ()"
  by (fastforce simp: puts_def emits_def w_try_def)

lemma puts_ret: "puts (p_ret x) [] x"
  by (auto simp: puts_def p_ret_def can_write_def)

lemma puts_bind: "\<lbrakk>puts p s x; puts (k x) t y\<rbrakk> \<Longrightarrow> puts (p_bind p k) (s @ t) y"
  unfolding puts_def p_bind_def
proof (intro allI impI)
  fix b
  assume p: "\<forall>b. can_write (view b) (length s) \<longrightarrow> (\<exists>b'. p b = Some (Inr x, b') \<and> view b' = put_bits (view b) s)"
    and k: "\<forall>b. can_write (view b) (length t) \<longrightarrow> (\<exists>b'. k x b = Some (Inr y, b') \<and> view b' = put_bits (view b) t)"
    and b: "can_write (view b) (length (s @ t))"
  from can_write_le [OF b, of "length s"] p obtain b1 where b1: "p b = Some (Inr x, b1)" "view b1 = put_bits (view b) s" by auto
  with can_write_put [of "view b" s "length t"] b have "can_write (view b1) (length t)" by simp
  with k obtain b2 where "k x b1 = Some (Inr y, b2)" "view b2 = put_bits (view b1) t" by blast
  with b1 put_bits_append [OF can_write_wf [OF b]]
  show "\<exists>b'. (case p b of None \<Rightarrow> None | Some (Inl e, b) \<Rightarrow> Some (Inl e, b) | Some (Inr x, b) \<Rightarrow> k x b) = Some (Inr y, b')
      \<and> view b' = put_bits (view b) (s @ t)" by simp
qed

lemma expect_value_simps [simp]: "expect_value ops True m k = k"
  by (simp add: expect_value_def expect_value_eq)

lemma expect_number_simps [simp]: "expect_number ops v v k = k"
  by (simp add: expect_number_def expect_number_eq)

lemma parses_bit: "parses (p_bit ops e) [x] x"
  unfolding parses_def p_bit_def
proof (intro allI impI)
  fix b t
  assume b: "view_wf (view b) \<and> remaining (view b) = [x] @ t"
  with remaining_prefix(1,2) [of "view b" "[x]" t]
  have "raw_pos (view b) < raw_end (view b)" "raw_pos (view b) < length (raw_bits (view b))"
      and "take 1 (drop (raw_pos (view b)) (raw_bits (view b))) = [x]"
    by (auto simp: view_wf_def)
  moreover from this have "raw_bits (view b) ! raw_pos (view b) = x"
    by (simp add: take_Suc_conv_app_nth hd_drop_conv_nth take_Suc)
  ultimately show "\<exists>b'. (case bb_read_bit ops b of (None, b) \<Rightarrow> Some (Inl e, b) | (Some v, b) \<Rightarrow> Some (Inr (v \<noteq> 0), b)) = Some (Inr x, b')
      \<and> view b' = advance (view b) (length [x])"
    using read_bit [of b] b by (auto simp: bit_of_def)
qed

lemma parses_replicate: "parses (p_replicate (length xs) (p_bit ops e)) xs xs"
proof (induction xs)
  case (Cons x xs)
  have "parses (p_bind (p_bit ops e) (\<lambda>x. p_bind (p_replicate (length xs) (p_bit ops e)) (\<lambda>xs. p_ret (x # xs)))) ([x] @ xs @ []) (x # xs)"
    by (intro parses_bind [OF parses_bit] parses_bind [OF Cons.IH] parses_ret)
  then show ?case by simp
qed auto

lemma emits_w_bit: "emits (w_bit ops x) [x]"
  unfolding emits_def w_bit_def
proof (intro allI impI)
  fix b
  assume "can_write (view b) (length [x])"
  with write_bit [of b x] show "\<exists>b'. bb_write_bit ops b (bit_of x) = Some b' \<and> view b' = put_bits (view b) [x]" by simp
qed

lemma emits_Cons_w_bit: "emits (stmts ws) t \<Longrightarrow> emits (stmts (w_bit ops x # ws)) (x # t)"
  using emits_Cons [OF emits_w_bit] by fastforce

lemma emits_w_bit_list: "emits (stmts (map (w_bit ops) xs)) xs"
  by (induction xs) (auto intro: emits_Nil emits_Cons_w_bit)

lemma puts_Some: "\<lbrakk>puts p s x; can_write (view b) (length s)\<rbrakk> \<Longrightarrow> \<exists>b'. p b = Some (Inr x, b') \<and> view b' = put_bits (view b) s"
  by (simp add: puts_def)

end

text \<open>
  The contract of a PDU: a wire format \<open>enc\<close> that its writer emits and its parser reads back, up to
  the canonical form in which a parser returns the PDU. Reading from where a PDU was written gives
  it back and leaves the buffer as the write did.
\<close>

locale wire_format = bit_buffer ops view for ops :: "'b bitbuf_ops" and view :: "'b \<Rightarrow> buf_view" +
  fixes rd :: "('b, 'a) parser" and wr :: "'a \<Rightarrow> 'b writer" and enc :: "'a \<Rightarrow> bool list"
    and canon :: "'a \<Rightarrow> 'a" and ok :: "'a \<Rightarrow> bool"
  assumes emits_enc: "ok x \<Longrightarrow> emits (wr x) (enc x)"
    and parses_enc: "ok x \<Longrightarrow> parses rd (enc x) (canon x)"
begin

lemma written:
  "\<lbrakk>ok x; can_write (view b) (length (enc x))\<rbrakk> \<Longrightarrow> \<exists>b'. wr x b = Some b' \<and> view b' = put_bits (view b) (enc x)"
  by (rule emits_Some [OF emits_enc])

lemma read_back:
  assumes "ok x" and "can_write v (length (enc x))" and "view c = (put_bits v (enc x))\<lparr>raw_pos := raw_pos v\<rparr>"
  shows "\<exists>c'. rd c = Some (Inr (canon x), c') \<and> view c' = put_bits v (enc x)"
proof -
  note wf = can_write_wf [OF assms(2)] and wf' = put_bits_wf [OF assms(2)]
  have rem: "remaining (view c) = enc x @ drop (length (enc x)) (remaining (view c))"
    using wf wf' assms(3) by (auto simp: remaining_def put_bits_def overwrite_def view_wf_def)
  have "view_wf (view c)" using wf wf' assms(3) by (simp add: view_wf_def)
  from parses_Some [OF parses_enc [OF assms(1)] this rem] assms(3) show ?thesis
    by (auto simp: advance_def put_bits_def)
qed

end

end
