(* ===== verification/Mac_Enums.thy ===== *)
theory Mac_Enums
  imports Prelude
begin

text \<open>
  The enums of the MAC PDUs with the raw integers that stand for them on the air:
  \<^verbatim>\<open>crates/tetra-pdus/src/umac/enums\<close>, \<^verbatim>\<open>umac/structs/base_frame_length.rs\<close> and the two channel
  allocation enums of \<^verbatim>\<open>crates/tetra-saps/src/lcmc/enums\<close>. Each is an interpretation of \<open>raw_enum\<close>.
  Constructors carry a prefix (\<open>At\<close> for \<open>MacResourceAddrType\<close>, \<open>Alloc\<close>, \<open>Assign\<close>) where enums
  share variant names.

  The capacity enums also convert to and from slot counts, \<open>None\<close> where the code panics.
\<close>

section \<open>Raw values\<close>

datatype mac_pdu_type = MacResourceMacData | MacFragMacEnd | Broadcast | SuppMacUSignal

definition mac_pdu_type_of_raw :: "nat \<Rightarrow> mac_pdu_type option" where
  "mac_pdu_type_of_raw x = (if x = 0 then Some MacResourceMacData else if x = 1 then Some MacFragMacEnd
     else if x = 2 then Some Broadcast else if x = 3 then Some SuppMacUSignal else None)"

fun mac_pdu_type_raw :: "mac_pdu_type \<Rightarrow> nat" where
  "mac_pdu_type_raw MacResourceMacData = 0"
| "mac_pdu_type_raw MacFragMacEnd = 1"
| "mac_pdu_type_raw Broadcast = 2"
| "mac_pdu_type_raw SuppMacUSignal = 3"

interpretation mac_pdu_type: raw_enum mac_pdu_type_raw mac_pdu_type_of_raw 2
proof unfold_locales
  show "mac_pdu_type_of_raw (mac_pdu_type_raw x) = Some x" for x by (cases x) (simp_all add: mac_pdu_type_of_raw_def)
  show "mac_pdu_type_raw x < 2 ^ 2" for x by (cases x) simp_all
qed (auto simp: mac_pdu_type_of_raw_def split: if_splits)

datatype mac_addr_type = AtNullPdu | AtSsi | AtEventLabel | AtUssi | AtSmi | AtSsiAndEventLabel
    | AtSsiAndUsageMarker | AtSmiAndEventLabel

definition mac_addr_type_of_raw :: "nat \<Rightarrow> mac_addr_type option" where
  "mac_addr_type_of_raw x = (if x = 0 then Some AtNullPdu else if x = 1 then Some AtSsi
     else if x = 2 then Some AtEventLabel else if x = 3 then Some AtUssi else if x = 4 then Some AtSmi
     else if x = 5 then Some AtSsiAndEventLabel else if x = 6 then Some AtSsiAndUsageMarker
     else if x = 7 then Some AtSmiAndEventLabel else None)"

fun mac_addr_type_raw :: "mac_addr_type \<Rightarrow> nat" where
  "mac_addr_type_raw AtNullPdu = 0"
| "mac_addr_type_raw AtSsi = 1"
| "mac_addr_type_raw AtEventLabel = 2"
| "mac_addr_type_raw AtUssi = 3"
| "mac_addr_type_raw AtSmi = 4"
| "mac_addr_type_raw AtSsiAndEventLabel = 5"
| "mac_addr_type_raw AtSsiAndUsageMarker = 6"
| "mac_addr_type_raw AtSmiAndEventLabel = 7"

interpretation mac_addr_type: raw_enum mac_addr_type_raw mac_addr_type_of_raw 3
proof unfold_locales
  show "mac_addr_type_of_raw (mac_addr_type_raw x) = Some x" for x by (cases x) (simp_all add: mac_addr_type_of_raw_def)
  show "mac_addr_type_raw x < 2 ^ 3" for x by (cases x) simp_all
qed (auto simp: mac_addr_type_of_raw_def split: if_splits)

datatype slotgrant_cap = FirstSubslotGranted | Grant1Slot | Grant2Slots | Grant3Slots | Grant4Slots
    | Grant5Slots | Grant6Slots | Grant8Slots | Grant10Slots | Grant13Slots | Grant17Slots | Grant24Slots
    | Grant34Slots | Grant51Slots | Grant68Slots | SecondSubslotGranted

definition slotgrant_cap_of_raw :: "nat \<Rightarrow> slotgrant_cap option" where
  "slotgrant_cap_of_raw x = (if x = 0 then Some FirstSubslotGranted else if x = 1 then Some Grant1Slot
     else if x = 2 then Some Grant2Slots else if x = 3 then Some Grant3Slots else if x = 4 then Some Grant4Slots
     else if x = 5 then Some Grant5Slots else if x = 6 then Some Grant6Slots else if x = 7 then Some Grant8Slots
     else if x = 8 then Some Grant10Slots else if x = 9 then Some Grant13Slots
     else if x = 10 then Some Grant17Slots else if x = 11 then Some Grant24Slots
     else if x = 12 then Some Grant34Slots else if x = 13 then Some Grant51Slots
     else if x = 14 then Some Grant68Slots else if x = 15 then Some SecondSubslotGranted else None)"

fun slotgrant_cap_raw :: "slotgrant_cap \<Rightarrow> nat" where
  "slotgrant_cap_raw FirstSubslotGranted = 0"
| "slotgrant_cap_raw Grant1Slot = 1"
| "slotgrant_cap_raw Grant2Slots = 2"
| "slotgrant_cap_raw Grant3Slots = 3"
| "slotgrant_cap_raw Grant4Slots = 4"
| "slotgrant_cap_raw Grant5Slots = 5"
| "slotgrant_cap_raw Grant6Slots = 6"
| "slotgrant_cap_raw Grant8Slots = 7"
| "slotgrant_cap_raw Grant10Slots = 8"
| "slotgrant_cap_raw Grant13Slots = 9"
| "slotgrant_cap_raw Grant17Slots = 10"
| "slotgrant_cap_raw Grant24Slots = 11"
| "slotgrant_cap_raw Grant34Slots = 12"
| "slotgrant_cap_raw Grant51Slots = 13"
| "slotgrant_cap_raw Grant68Slots = 14"
| "slotgrant_cap_raw SecondSubslotGranted = 15"

interpretation slotgrant_cap: raw_enum slotgrant_cap_raw slotgrant_cap_of_raw 4
proof unfold_locales
  show "slotgrant_cap_of_raw (slotgrant_cap_raw x) = Some x" for x by (cases x) (simp_all add: slotgrant_cap_of_raw_def)
  show "slotgrant_cap_raw x < 2 ^ 4" for x by (cases x) simp_all
qed (auto simp: slotgrant_cap_of_raw_def split: if_splits)

datatype reservation_req = Req1Subslot | Req1Slot | Req2Slots | Req3Slots | Req4Slots | Req5Slots | Req6Slots
    | Req8Slots | Req10Slots | Req13Slots | Req17Slots | Req24Slots | Req34Slots | Req51Slots | Req68Slots
    | ReqOver68

definition reservation_req_of_raw :: "nat \<Rightarrow> reservation_req option" where
  "reservation_req_of_raw x = (if x = 0 then Some Req1Subslot else if x = 1 then Some Req1Slot
     else if x = 2 then Some Req2Slots else if x = 3 then Some Req3Slots else if x = 4 then Some Req4Slots
     else if x = 5 then Some Req5Slots else if x = 6 then Some Req6Slots else if x = 7 then Some Req8Slots
     else if x = 8 then Some Req10Slots else if x = 9 then Some Req13Slots else if x = 10 then Some Req17Slots
     else if x = 11 then Some Req24Slots else if x = 12 then Some Req34Slots else if x = 13 then Some Req51Slots
     else if x = 14 then Some Req68Slots else if x = 15 then Some ReqOver68 else None)"

fun reservation_req_raw :: "reservation_req \<Rightarrow> nat" where
  "reservation_req_raw Req1Subslot = 0"
| "reservation_req_raw Req1Slot = 1"
| "reservation_req_raw Req2Slots = 2"
| "reservation_req_raw Req3Slots = 3"
| "reservation_req_raw Req4Slots = 4"
| "reservation_req_raw Req5Slots = 5"
| "reservation_req_raw Req6Slots = 6"
| "reservation_req_raw Req8Slots = 7"
| "reservation_req_raw Req10Slots = 8"
| "reservation_req_raw Req13Slots = 9"
| "reservation_req_raw Req17Slots = 10"
| "reservation_req_raw Req24Slots = 11"
| "reservation_req_raw Req34Slots = 12"
| "reservation_req_raw Req51Slots = 13"
| "reservation_req_raw Req68Slots = 14"
| "reservation_req_raw ReqOver68 = 15"

interpretation reservation_req: raw_enum reservation_req_raw reservation_req_of_raw 4
proof unfold_locales
  show "reservation_req_of_raw (reservation_req_raw x) = Some x" for x by (cases x) (simp_all add: reservation_req_of_raw_def)
  show "reservation_req_raw x < 2 ^ 4" for x by (cases x) simp_all
qed (auto simp: reservation_req_of_raw_def split: if_splits)

datatype access_code = AccessCodeA | AccessCodeB | AccessCodeC | AccessCodeD

definition access_code_of_raw :: "nat \<Rightarrow> access_code option" where
  "access_code_of_raw x = (if x = 0 then Some AccessCodeA else if x = 1 then Some AccessCodeB
     else if x = 2 then Some AccessCodeC else if x = 3 then Some AccessCodeD else None)"

fun access_code_raw :: "access_code \<Rightarrow> nat" where
  "access_code_raw AccessCodeA = 0"
| "access_code_raw AccessCodeB = 1"
| "access_code_raw AccessCodeC = 2"
| "access_code_raw AccessCodeD = 3"

interpretation access_code: raw_enum access_code_raw access_code_of_raw 2
proof unfold_locales
  show "access_code_of_raw (access_code_raw x) = Some x" for x by (cases x) (simp_all add: access_code_of_raw_def)
  show "access_code_raw x < 2 ^ 2" for x by (cases x) simp_all
qed (auto simp: access_code_of_raw_def split: if_splits)

datatype base_frame_length = ReservedSubslot | CLCHSubslot | OngoingFrame | Subslots1 | Subslots2 | Subslots3
    | Subslots4 | Subslots5 | Subslots6 | Subslots8 | Subslots10 | Subslots12 | Subslots16 | Subslots20
    | Subslots24 | Subslots32

definition base_frame_length_of_raw :: "nat \<Rightarrow> base_frame_length option" where
  "base_frame_length_of_raw x = (if x = 0 then Some ReservedSubslot else if x = 1 then Some CLCHSubslot
     else if x = 2 then Some OngoingFrame else if x = 3 then Some Subslots1 else if x = 4 then Some Subslots2
     else if x = 5 then Some Subslots3 else if x = 6 then Some Subslots4 else if x = 7 then Some Subslots5
     else if x = 8 then Some Subslots6 else if x = 9 then Some Subslots8 else if x = 10 then Some Subslots10
     else if x = 11 then Some Subslots12 else if x = 12 then Some Subslots16 else if x = 13 then Some Subslots20
     else if x = 14 then Some Subslots24 else if x = 15 then Some Subslots32 else None)"

fun base_frame_length_raw :: "base_frame_length \<Rightarrow> nat" where
  "base_frame_length_raw ReservedSubslot = 0"
| "base_frame_length_raw CLCHSubslot = 1"
| "base_frame_length_raw OngoingFrame = 2"
| "base_frame_length_raw Subslots1 = 3"
| "base_frame_length_raw Subslots2 = 4"
| "base_frame_length_raw Subslots3 = 5"
| "base_frame_length_raw Subslots4 = 6"
| "base_frame_length_raw Subslots5 = 7"
| "base_frame_length_raw Subslots6 = 8"
| "base_frame_length_raw Subslots8 = 9"
| "base_frame_length_raw Subslots10 = 10"
| "base_frame_length_raw Subslots12 = 11"
| "base_frame_length_raw Subslots16 = 12"
| "base_frame_length_raw Subslots20 = 13"
| "base_frame_length_raw Subslots24 = 14"
| "base_frame_length_raw Subslots32 = 15"

interpretation base_frame_length: raw_enum base_frame_length_raw base_frame_length_of_raw 4
proof unfold_locales
  show "base_frame_length_of_raw (base_frame_length_raw x) = Some x" for x by (cases x) (simp_all add: base_frame_length_of_raw_def)
  show "base_frame_length_raw x < 2 ^ 4" for x by (cases x) simp_all
qed (auto simp: base_frame_length_of_raw_def split: if_splits)

datatype broadcast_type = BcastSysinfo | BcastAccessDefine | BcastSysinfoDa

definition broadcast_type_of_raw :: "nat \<Rightarrow> broadcast_type option" where
  "broadcast_type_of_raw x = (if x = 0 then Some BcastSysinfo else if x = 1 then Some BcastAccessDefine
     else if x = 2 then Some BcastSysinfoDa else None)"

fun broadcast_type_raw :: "broadcast_type \<Rightarrow> nat" where
  "broadcast_type_raw BcastSysinfo = 0"
| "broadcast_type_raw BcastAccessDefine = 1"
| "broadcast_type_raw BcastSysinfoDa = 2"

interpretation broadcast_type: raw_enum broadcast_type_raw broadcast_type_of_raw 2
proof unfold_locales
  show "broadcast_type_of_raw (broadcast_type_raw x) = Some x" for x by (cases x) (simp_all add: broadcast_type_of_raw_def)
  show "broadcast_type_raw x < 2 ^ 2" for x by (cases x) simp_all
qed (auto simp: broadcast_type_of_raw_def split: if_splits)

datatype sysinfo_opt_field_flag = EvenMfDefForTsMode | OddMfDefForTsMode | DefaultDefForAccCodeA
    | ExtServicesBroadcast

definition sysinfo_opt_field_flag_of_raw :: "nat \<Rightarrow> sysinfo_opt_field_flag option" where
  "sysinfo_opt_field_flag_of_raw x = (if x = 0 then Some EvenMfDefForTsMode
     else if x = 1 then Some OddMfDefForTsMode else if x = 2 then Some DefaultDefForAccCodeA
     else if x = 3 then Some ExtServicesBroadcast else None)"

fun sysinfo_opt_field_flag_raw :: "sysinfo_opt_field_flag \<Rightarrow> nat" where
  "sysinfo_opt_field_flag_raw EvenMfDefForTsMode = 0"
| "sysinfo_opt_field_flag_raw OddMfDefForTsMode = 1"
| "sysinfo_opt_field_flag_raw DefaultDefForAccCodeA = 2"
| "sysinfo_opt_field_flag_raw ExtServicesBroadcast = 3"

interpretation sysinfo_opt_field_flag: raw_enum sysinfo_opt_field_flag_raw sysinfo_opt_field_flag_of_raw 2
proof unfold_locales
  show "sysinfo_opt_field_flag_of_raw (sysinfo_opt_field_flag_raw x) = Some x" for x by (cases x) (simp_all add: sysinfo_opt_field_flag_of_raw_def)
  show "sysinfo_opt_field_flag_raw x < 2 ^ 2" for x by (cases x) simp_all
qed (auto simp: sysinfo_opt_field_flag_of_raw_def split: if_splits)

datatype chan_alloc_type = AllocReplace | AllocAdditional | AllocQuitAndGo | AllocReplaceWithCarrierSignalling

definition chan_alloc_type_of_raw :: "nat \<Rightarrow> chan_alloc_type option" where
  "chan_alloc_type_of_raw x = (if x = 0 then Some AllocReplace else if x = 1 then Some AllocAdditional
     else if x = 2 then Some AllocQuitAndGo else if x = 3 then Some AllocReplaceWithCarrierSignalling else None)"

fun chan_alloc_type_raw :: "chan_alloc_type \<Rightarrow> nat" where
  "chan_alloc_type_raw AllocReplace = 0"
| "chan_alloc_type_raw AllocAdditional = 1"
| "chan_alloc_type_raw AllocQuitAndGo = 2"
| "chan_alloc_type_raw AllocReplaceWithCarrierSignalling = 3"

interpretation chan_alloc_type: raw_enum chan_alloc_type_raw chan_alloc_type_of_raw 2
proof unfold_locales
  show "chan_alloc_type_of_raw (chan_alloc_type_raw x) = Some x" for x by (cases x) (simp_all add: chan_alloc_type_of_raw_def)
  show "chan_alloc_type_raw x < 2 ^ 2" for x by (cases x) simp_all
qed (auto simp: chan_alloc_type_of_raw_def split: if_splits)

datatype ul_dl_assignment = AssignAugmented | AssignDl | AssignUl | AssignBoth

definition ul_dl_assignment_of_raw :: "nat \<Rightarrow> ul_dl_assignment option" where
  "ul_dl_assignment_of_raw x = (if x = 0 then Some AssignAugmented else if x = 1 then Some AssignDl
     else if x = 2 then Some AssignUl else if x = 3 then Some AssignBoth else None)"

fun ul_dl_assignment_raw :: "ul_dl_assignment \<Rightarrow> nat" where
  "ul_dl_assignment_raw AssignAugmented = 0"
| "ul_dl_assignment_raw AssignDl = 1"
| "ul_dl_assignment_raw AssignUl = 2"
| "ul_dl_assignment_raw AssignBoth = 3"

interpretation ul_dl_assignment: raw_enum ul_dl_assignment_raw ul_dl_assignment_of_raw 2
proof unfold_locales
  show "ul_dl_assignment_of_raw (ul_dl_assignment_raw x) = Some x" for x by (cases x) (simp_all add: ul_dl_assignment_of_raw_def)
  show "ul_dl_assignment_raw x < 2 ^ 2" for x by (cases x) simp_all
qed (auto simp: ul_dl_assignment_of_raw_def split: if_splits)

text \<open>The granting delay carries its count as data.\<close>

datatype granting_delay =
    CapAllocAtNextOpportunity
  | DelayNOpportunities nat
  | AllocStartsAtOpportunityInFr18
  | WaitForAnotherSlotgrantMessage

definition granting_delay_of_raw :: "nat \<Rightarrow> granting_delay option" where
  "granting_delay_of_raw x = (if x = 0 then Some CapAllocAtNextOpportunity
     else if 1 \<le> x \<and> x \<le> 13 then Some (DelayNOpportunities (x mod 256))
     else if x = 14 then Some AllocStartsAtOpportunityInFr18
     else if x = 15 then Some WaitForAnotherSlotgrantMessage else None)"

fun granting_delay_raw :: "granting_delay \<Rightarrow> nat" where
  "granting_delay_raw CapAllocAtNextOpportunity = 0"
| "granting_delay_raw (DelayNOpportunities n) = n"
| "granting_delay_raw AllocStartsAtOpportunityInFr18 = 14"
| "granting_delay_raw WaitForAnotherSlotgrantMessage = 15"

text \<open>The documented range of the count; a value outside it would be read back as something else.\<close>

fun granting_delay_ok :: "granting_delay \<Rightarrow> bool" where
  "granting_delay_ok (DelayNOpportunities n) = (1 \<le> n \<and> n \<le> 13)"
| "granting_delay_ok _ = True"

lemma granting_delay_less: "granting_delay_ok d \<Longrightarrow> granting_delay_raw d < 16"
  by (cases d) auto

lemma granting_delay_of_raw_Some: "granting_delay_of_raw n = Some d \<Longrightarrow> granting_delay_raw d = n \<and> granting_delay_ok d"
  by (auto simp: granting_delay_of_raw_def split: if_splits)

lemma granting_delay_of_raw_raw: "granting_delay_ok d \<Longrightarrow> granting_delay_of_raw (granting_delay_raw d) = Some d"
  by (cases d) (auto simp: granting_delay_of_raw_def)

section \<open>Slot counts\<close>

definition cap_from_req_slotcount :: "nat \<Rightarrow> slotgrant_cap option" where
  "cap_from_req_slotcount req = (if req = 0 then Some FirstSubslotGranted else if req = 1 then Some Grant1Slot
     else if req = 2 then Some Grant2Slots else if req = 3 then Some Grant3Slots else if req = 4 then Some Grant4Slots
     else if req = 5 then Some Grant5Slots else if req = 6 then Some Grant6Slots
     else if 7 \<le> req \<and> req \<le> 8 then Some Grant8Slots else if 9 \<le> req \<and> req \<le> 10 then Some Grant10Slots
     else if 11 \<le> req \<and> req \<le> 13 then Some Grant13Slots else if 14 \<le> req \<and> req \<le> 17 then Some Grant17Slots
     else if 18 \<le> req \<and> req \<le> 24 then Some Grant24Slots else if 25 \<le> req \<and> req \<le> 34 then Some Grant34Slots
     else if 35 \<le> req \<and> req \<le> 51 then Some Grant51Slots else if 52 \<le> req \<and> req \<le> 68 then Some Grant68Slots
     else if req = 99 then Some SecondSubslotGranted else None)"

fun cap_to_req_slotcount :: "slotgrant_cap \<Rightarrow> nat option" where
  "cap_to_req_slotcount FirstSubslotGranted = None"
| "cap_to_req_slotcount Grant1Slot = Some 1"
| "cap_to_req_slotcount Grant2Slots = Some 2"
| "cap_to_req_slotcount Grant3Slots = Some 3"
| "cap_to_req_slotcount Grant4Slots = Some 4"
| "cap_to_req_slotcount Grant5Slots = Some 5"
| "cap_to_req_slotcount Grant6Slots = Some 6"
| "cap_to_req_slotcount Grant8Slots = Some 8"
| "cap_to_req_slotcount Grant10Slots = Some 10"
| "cap_to_req_slotcount Grant13Slots = Some 13"
| "cap_to_req_slotcount Grant17Slots = Some 17"
| "cap_to_req_slotcount Grant24Slots = Some 24"
| "cap_to_req_slotcount Grant34Slots = Some 34"
| "cap_to_req_slotcount Grant51Slots = Some 51"
| "cap_to_req_slotcount Grant68Slots = Some 68"
| "cap_to_req_slotcount SecondSubslotGranted = None"

definition req_from_req_slotcount :: "nat \<Rightarrow> reservation_req" where
  "req_from_req_slotcount req = (if req = 0 then Req1Subslot else if req = 1 then Req1Slot
     else if req = 2 then Req2Slots else if req = 3 then Req3Slots else if req = 4 then Req4Slots
     else if req = 5 then Req5Slots else if req = 6 then Req6Slots
     else if 7 \<le> req \<and> req \<le> 8 then Req8Slots else if 9 \<le> req \<and> req \<le> 10 then Req10Slots
     else if 11 \<le> req \<and> req \<le> 13 then Req13Slots else if 14 \<le> req \<and> req \<le> 17 then Req17Slots
     else if 18 \<le> req \<and> req \<le> 24 then Req24Slots else if 25 \<le> req \<and> req \<le> 34 then Req34Slots
     else if 35 \<le> req \<and> req \<le> 51 then Req51Slots else if 52 \<le> req \<and> req \<le> 68 then Req68Slots
     else ReqOver68)"

fun req_to_req_slotcount :: "reservation_req \<Rightarrow> nat option" where
  "req_to_req_slotcount Req1Subslot = None"
| "req_to_req_slotcount Req1Slot = Some 1"
| "req_to_req_slotcount Req2Slots = Some 2"
| "req_to_req_slotcount Req3Slots = Some 3"
| "req_to_req_slotcount Req4Slots = Some 4"
| "req_to_req_slotcount Req5Slots = Some 5"
| "req_to_req_slotcount Req6Slots = Some 6"
| "req_to_req_slotcount Req8Slots = Some 8"
| "req_to_req_slotcount Req10Slots = Some 10"
| "req_to_req_slotcount Req13Slots = Some 13"
| "req_to_req_slotcount Req17Slots = Some 17"
| "req_to_req_slotcount Req24Slots = Some 24"
| "req_to_req_slotcount Req34Slots = Some 34"
| "req_to_req_slotcount Req51Slots = Some 51"
| "req_to_req_slotcount Req68Slots = Some 68"
| "req_to_req_slotcount ReqOver68 = None"

text \<open>
  The sizing step that the scheduler's grant functions share: a subslot counts as one slot, anything
  else is converted, and granted with the capacity of that size.
\<close>

definition requested_cap :: "reservation_req \<Rightarrow> nat option" where
  "requested_cap res_req = (if res_req = Req1Subslot then Some 1 else req_to_req_slotcount res_req)"

definition packet_data_request_slots :: "reservation_req \<Rightarrow> nat \<times> bool" where
  "packet_data_request_slots r = (case r of
     Req1Subslot \<Rightarrow> (1, True) | Req1Slot \<Rightarrow> (1, False) | Req2Slots \<Rightarrow> (2, False) | Req3Slots \<Rightarrow> (3, False)
   | Req4Slots \<Rightarrow> (4, False) | Req5Slots \<Rightarrow> (5, False) | Req6Slots \<Rightarrow> (6, False) | Req8Slots \<Rightarrow> (8, False)
   | Req10Slots \<Rightarrow> (10, False) | Req13Slots \<Rightarrow> (13, False) | Req17Slots \<Rightarrow> (17, False) | Req24Slots \<Rightarrow> (24, False)
   | Req34Slots \<Rightarrow> (34, False) | Req51Slots \<Rightarrow> (51, False) | Req68Slots \<Rightarrow> (68, False) | ReqOver68 \<Rightarrow> (69, False))"

definition slot_sizes :: "nat list" where
  "slot_sizes = [1, 2, 3, 4, 5, 6, 8, 10, 13, 17, 24, 34, 51, 68]"

lemma cap_to_slotcount_sizes: "cap_to_req_slotcount c = Some n \<Longrightarrow> n \<in> set slot_sizes"
  by (cases c) (auto simp: slot_sizes_def)

lemma req_to_slotcount_sizes: "req_to_req_slotcount r = Some n \<Longrightarrow> n \<in> set slot_sizes"
  by (cases r) (auto simp: slot_sizes_def)

lemma cap_covers:
  assumes "1 \<le> n" and "n \<le> 68"
  shows "\<exists>c m. cap_from_req_slotcount n = Some c \<and> cap_to_req_slotcount c = Some m
    \<and> n \<le> m \<and> (\<forall>k\<in>set slot_sizes. n \<le> k \<longrightarrow> m \<le> k)"
  using assms by (auto simp: cap_from_req_slotcount_def slot_sizes_def)

text \<open>Every request but the open-ended one has a capacity of exactly its size.\<close>

lemma requested_cap_granted:
  assumes "r \<noteq> Req1Subslot" and "r \<noteq> ReqOver68"
  shows "\<exists>n c. requested_cap r = Some n \<and> cap_from_req_slotcount n = Some c \<and> cap_to_req_slotcount c = Some n
    \<and> packet_data_request_slots r = (n, False)"
  using assms by (cases r) (auto simp: requested_cap_def cap_from_req_slotcount_def packet_data_request_slots_def)

lemma requested_cap_panics: "requested_cap r = None \<longleftrightarrow> r = ReqOver68"
  by (cases r) (auto simp: requested_cap_def)

section \<open>Properties\<close>

text \<open>The sizing of uplink reservations panics on exactly one request, the open-ended "more than 68 slots" that a
  terminal may send; every other request is sized, agrees with the packet-data table, and there is a capacity of exactly that many
  slots. (A request for one subslot counts as one slot here; the scheduler grants it half a slot.)\<close>

lemma reservation_sizing:
  "case requested_cap r of
     None \<Rightarrow> r = ReqOver68
   | Some n \<Rightarrow> r \<noteq> ReqOver68 \<and> n = fst (packet_data_request_slots r)
       \<and> (\<exists>c. cap_from_req_slotcount n = Some c \<and> cap_to_req_slotcount c = Some n)"
  by (cases r) (auto simp: requested_cap_def cap_from_req_slotcount_def packet_data_request_slots_def)

end
