(* ===== verification/Mac_Fields.thy ===== *)
theory Mac_Fields
  imports Mac_Enums Pdu_Codec
begin

text \<open>
  The two elements that several MAC PDUs carry, of \<^verbatim>\<open>crates/tetra-pdus/src/umac/fields\<close>: the basic
  slot grant (\<^verbatim>\<open>basic_slotgrant.rs\<close>) and the channel allocation (\<^verbatim>\<open>channel_allocation.rs\<close>), which the
  code parses and writes only in its unextended, unaugmented form: the rest is \<open>unimplemented!\<close>.
\<close>

section \<open>Basic slot grant\<close>

record basic_slotgrant =
  capacity_allocation :: slotgrant_cap
  sg_granting_delay :: granting_delay

definition slotgrant_from_bitbuf :: "'b bitbuf_ops \<Rightarrow> ('b, basic_slotgrant) parser" where
  "slotgrant_from_bitbuf ops =
     p_bind (p_field ops 4 ''capacity_allocation'') (\<lambda>cap_alloc_val.
     p_some (InvalidValue ''capacity_allocation'' cap_alloc_val) (slotgrant_cap_of_raw cap_alloc_val) (\<lambda>capacity.
     p_bind (p_field ops 4 ''granting_delay'') (\<lambda>granting_delay_val.
     p_some (InvalidValue ''granting_delay'' granting_delay_val) (granting_delay_of_raw granting_delay_val) (\<lambda>delay.
     p_ret \<lparr>capacity_allocation = capacity, sg_granting_delay = delay\<rparr>))))"

definition slotgrant_to_bitbuf :: "'b bitbuf_ops \<Rightarrow> basic_slotgrant \<Rightarrow> 'b writer" where
  "slotgrant_to_bitbuf ops s = stmts [
     w_bits ops (slotgrant_cap_raw (capacity_allocation s)) 4,
     w_bits ops (granting_delay_raw (sg_granting_delay s)) 4]"

definition slotgrant_ok :: "basic_slotgrant \<Rightarrow> bool" where
  "slotgrant_ok s \<longleftrightarrow> granting_delay_ok (sg_granting_delay s)"

definition slotgrant_bits :: "basic_slotgrant \<Rightarrow> bool list" where
  "slotgrant_bits s = val_bits 4 (slotgrant_cap_raw (capacity_allocation s)) @ val_bits 4 (granting_delay_raw (sg_granting_delay s))"

lemma length_slotgrant_bits [simp]: "length (slotgrant_bits s) = 8"
  by (simp add: slotgrant_bits_def)

section \<open>Channel allocation\<close>

record chan_alloc_element =
  alloc_type :: chan_alloc_type
  ts_assigned :: "bool list"
  ul_dl_assigned :: ul_dl_assignment
  clch_permission :: bool
  cell_change_flag :: bool
  carrier_num :: nat
  ext :: "int option"
  mon_pattern :: nat
  frame18_mon_pattern :: "nat option"

definition chan_alloc_from_bitbuf :: "'b bitbuf_ops \<Rightarrow> ('b, chan_alloc_element) parser" where
  "chan_alloc_from_bitbuf ops =
     p_bind (p_field ops 2 ''alloc_type'') (\<lambda>val.
     p_unwrap (chan_alloc_type_of_raw val) (\<lambda>alloc_type.
     p_bind (p_bind (p_field ops 4 ''ts_assigned'') (\<lambda>v. p_ret (as_u8 v))) (\<lambda>bitmap.
     p_bind (p_field ops 2 ''ul_dl_assigned'') (\<lambda>val.
     p_unwrap (ul_dl_assignment_of_raw val) (\<lambda>ul_dl_assigned.
     p_bind (p_flag ops ''clch_permission'') (\<lambda>clch_permission.
     p_bind (p_flag ops ''cell_change_flag'') (\<lambda>cell_change_flag.
     p_bind (p_bind (p_field ops 12 ''carrier_num'') (\<lambda>v. p_ret (as_u16 v))) (\<lambda>carrier_num.
     p_bind (p_field ops 1 ''ext_carrier_num_flag'') (\<lambda>ext_carrier_num_flag.
     if ext_carrier_num_flag = 1 then p_panic
     else
     p_bind (p_bind (p_field ops 2 ''mon_pattern'') (\<lambda>v. p_ret (as_u8 v))) (\<lambda>mon_pattern.
     p_bind (p_opt (mon_pattern = 0) (p_bind (p_field ops 2 ''frame18_mon_pattern'') (\<lambda>v. p_ret (as_u8 v)))) (\<lambda>frame18_mon_pattern.
     if ul_dl_assigned = AssignAugmented then p_panic
     else p_ret \<lparr>alloc_type = alloc_type,
       ts_assigned = [bitmap AND 8 \<noteq> 0, bitmap AND 4 \<noteq> 0, bitmap AND 2 \<noteq> 0, bitmap AND 1 \<noteq> 0],
       ul_dl_assigned = ul_dl_assigned, clch_permission = clch_permission, cell_change_flag = cell_change_flag,
       carrier_num = carrier_num, ext = None, mon_pattern = mon_pattern, frame18_mon_pattern = frame18_mon_pattern\<rparr>)))))))))))"

definition chan_alloc_to_bitbuf :: "'b bitbuf_ops \<Rightarrow> chan_alloc_element \<Rightarrow> 'b writer" where
  "chan_alloc_to_bitbuf ops c = stmts ([
     w_bits ops (chan_alloc_type_raw (alloc_type c)) 2,
     stmts (map (w_flag ops) (ts_assigned c)),
     w_bits ops (ul_dl_assignment_raw (ul_dl_assigned c)) 2,
     w_flag ops (clch_permission c),
     w_flag ops (cell_change_flag c),
     w_bits ops (carrier_num c) 12,
     (case ext c of Some _ \<Rightarrow> stmts [w_bits ops 1 1, w_panic] | None \<Rightarrow> w_bits ops 0 1),
     w_bits ops (mon_pattern c) 2] @
     (if mon_pattern c = 0
      then [case frame18_mon_pattern c of None \<Rightarrow> w_panic | Some v \<Rightarrow> w_bits ops v 2] else []) @
     [w_assert (ul_dl_assigned c \<noteq> AssignAugmented)])"

definition chan_alloc_compute_len :: "chan_alloc_element \<Rightarrow> nat option" where
  "chan_alloc_compute_len c = do {
     let len = 2 + 4 + 2 + 1 + 1 + 12 + 1;
     guard (ext c = None);
     let len = len + 2;
     let len = (if mon_pattern c = 0 then len + 2 else len);
     guard (ul_dl_assigned c \<noteq> AssignAugmented);
     Some len }"

text \<open>
  What the element can carry: four timeslots, a 12-bit carrier and a two-bit monitoring pattern,
  with a pattern for frame 18 exactly when the other one is zero.
\<close>

definition chan_alloc_ok :: "chan_alloc_element \<Rightarrow> bool" where
  "chan_alloc_ok c \<longleftrightarrow> length (ts_assigned c) = 4 \<and> carrier_num c < 4096 \<and> ext c = None \<and> mon_pattern c < 4
     \<and> (case frame18_mon_pattern c of None \<Rightarrow> mon_pattern c \<noteq> 0 | Some v \<Rightarrow> mon_pattern c = 0 \<and> v < 4)
     \<and> ul_dl_assigned c \<noteq> AssignAugmented"

text \<open>Four flags are the bits of a four-bit number.\<close>

definition ts_bitmap :: "bool list \<Rightarrow> nat" where
  "ts_bitmap ts = bits_val ts"

lemma ts_bitmap_bits:
  assumes "length ts = 4"
  shows "val_bits 4 (ts_bitmap ts) = ts" and "ts_bitmap ts < 16"
    and "[ts_bitmap ts AND 8 \<noteq> 0, ts_bitmap ts AND 4 \<noteq> 0, ts_bitmap ts AND 2 \<noteq> 0, ts_bitmap ts AND 1 \<noteq> 0] = ts"
proof -
  show "val_bits 4 (ts_bitmap ts) = ts" using val_bits_bits_val [of ts] assms by (simp add: ts_bitmap_def)
  show "ts_bitmap ts < 16" using bits_val_less [of ts] assms by (simp add: ts_bitmap_def)
  from assms obtain a b c d where ts: "ts = [a, b, c, d]" by (auto simp: numeral_eq_Suc length_Suc_conv)
  show "[ts_bitmap ts AND 8 \<noteq> 0, ts_bitmap ts AND 4 \<noteq> 0, ts_bitmap ts AND 2 \<noteq> 0, ts_bitmap ts AND 1 \<noteq> 0] = ts"
    unfolding ts ts_bitmap_def bits_val_def by (cases a; cases b; cases c; cases d) (simp_all flip: numeral_2_eq_2 numeral_3_eq_3)
qed

lemma ts_bitmap_flags:
  assumes "n < 16"
  shows "ts_bitmap [n AND 8 \<noteq> 0, n AND 4 \<noteq> 0, n AND 2 \<noteq> 0, n AND 1 \<noteq> 0] = n"
proof -
  have "ts_bitmap (val_bits 4 n) = n" using bits_val_val_bits [of n 4] assms by (simp add: ts_bitmap_def)
  with ts_bitmap_bits(3) [of "val_bits 4 n"] show ?thesis by (simp del: One_nat_def)
qed

definition chan_alloc_bits :: "chan_alloc_element \<Rightarrow> bool list" where
  "chan_alloc_bits c = val_bits 2 (chan_alloc_type_raw (alloc_type c)) @ val_bits 4 (ts_bitmap (ts_assigned c))
     @ val_bits 2 (ul_dl_assignment_raw (ul_dl_assigned c)) @ [clch_permission c, cell_change_flag c]
     @ val_bits 12 (carrier_num c) @ val_bits 1 0 @ val_bits 2 (mon_pattern c)
     @ (case frame18_mon_pattern c of None \<Rightarrow> [] | Some v \<Rightarrow> val_bits 2 v)"

lemma chan_alloc_len:
  "chan_alloc_ok c \<Longrightarrow> chan_alloc_compute_len c = Some (length (chan_alloc_bits c))"
  by (auto simp: chan_alloc_ok_def chan_alloc_compute_len_def chan_alloc_bits_def split: option.splits)

lemma chan_alloc_len_bounds:
  "chan_alloc_compute_len c = Some n \<Longrightarrow> n = 25 \<or> n = 27"
  by (auto simp: chan_alloc_compute_len_def guard_def split: if_splits)

section \<open>Both are wire formats\<close>

context bit_buffer
begin

lemma emits_slotgrant: "slotgrant_ok s \<Longrightarrow> emits (slotgrant_to_bitbuf ops s) (slotgrant_bits s)"
  using granting_delay_less [of "sg_granting_delay s"] slotgrant_cap.raw_fits [of "capacity_allocation s"]
  by (auto simp: slotgrant_to_bitbuf_def slotgrant_bits_def slotgrant_ok_def intro!: emit_intros)

lemma parses_slotgrant: "slotgrant_ok s \<Longrightarrow> parses (slotgrant_from_bitbuf ops) (slotgrant_bits s) s"
  using granting_delay_less [of "sg_granting_delay s"] granting_delay_of_raw_raw [of "sg_granting_delay s"]
    slotgrant_cap.raw_fits [of "capacity_allocation s"]
  by (auto simp: slotgrant_from_bitbuf_def slotgrant_bits_def slotgrant_ok_def intro!: parse_intros)

lemma emits_chan_alloc: "chan_alloc_ok c \<Longrightarrow> emits (chan_alloc_to_bitbuf ops c) (chan_alloc_bits c)"
  using chan_alloc_type.raw_fits [of "alloc_type c"] ul_dl_assignment.raw_fits [of "ul_dl_assigned c"]
  by (auto simp: chan_alloc_to_bitbuf_def chan_alloc_bits_def chan_alloc_ok_def ts_bitmap_bits intro!: emit_intros split: option.splits)

lemma parses_chan_alloc: "chan_alloc_ok c \<Longrightarrow> parses (chan_alloc_from_bitbuf ops) (chan_alloc_bits c) c"
  using chan_alloc_type.raw_fits [of "alloc_type c"] ul_dl_assignment.raw_fits [of "ul_dl_assigned c"]
    ts_bitmap_bits(2,3) [of "ts_assigned c"]
  by (auto simp: chan_alloc_from_bitbuf_def chan_alloc_bits_def chan_alloc_ok_def intro!: parse_intros split: option.splits)

lemma spec_slotgrant: "spec (\<lambda>r. True) (slotgrant_from_bitbuf ops) (\<lambda>s g. s = slotgrant_bits g \<and> slotgrant_ok g)"
  unfolding slotgrant_from_bitbuf_def
  by (auto simp: slotgrant_bits_def slotgrant_ok_def dest!: granting_delay_of_raw_Some slotgrant_cap.raw_of_raw intro!: spec_intros)

lemma spec_chan_alloc: "spec (\<lambda>r. True) (chan_alloc_from_bitbuf ops) (\<lambda>s c. s = chan_alloc_bits c \<and> chan_alloc_ok c)"
  unfolding chan_alloc_from_bitbuf_def
  by (auto simp: chan_alloc_bits_def chan_alloc_ok_def p_opt_def ts_bitmap_flags ts_bitmap_flags [simplified]
      dest!: chan_alloc_type.raw_of_raw ul_dl_assignment.raw_of_raw intro!: spec_intros spec_if)

end

end
