(* ===== verification/Mac_Downlink.thy ===== *)
theory Mac_Downlink
  imports Mac_Fields Tetra_Types
begin

text \<open>
  The downlink MAC PDU headers of \<^verbatim>\<open>crates/tetra-pdus/src/umac/pdus\<close>: MAC-RESOURCE
  (\<^verbatim>\<open>mac_resource.rs\<close>), MAC-FRAG (\<^verbatim>\<open>mac_frag_dl.rs\<close>), MAC-END (\<^verbatim>\<open>mac_end_dl.rs\<close>) and MAC-D-BLCK
  (\<^verbatim>\<open>mac_d_blck.rs\<close>), with their wire formats and header lengths.
\<close>

section \<open>MAC-RESOURCE\<close>

definition MAC_RESOURCE_LENGTH_FRAG_START :: nat where
  "MAC_RESOURCE_LENGTH_FRAG_START = 63"

definition MAC_RESOURCE_LENGTH_2ND_SLOT_STOLEN :: nat where
  "MAC_RESOURCE_LENGTH_2ND_SLOT_STOLEN = 62"

record mac_resource =
  mr_fill_bits :: bool
  mr_pos_of_grant :: nat
  mr_encryption_mode :: nat
  mr_random_access_flag :: bool
  mr_length_ind :: nat
  mr_addr :: "tetra_address option"
  mr_event_label :: "nat option"
  mr_usage_marker :: "nat option"
  mr_power_control :: "nat option"
  mr_slot_granting :: "basic_slotgrant option"
  mr_chan_alloc :: "chan_alloc_element option"

definition null_pdu :: mac_resource where
  "null_pdu = \<lparr>mr_fill_bits = False, mr_pos_of_grant = 0, mr_encryption_mode = 0, mr_random_access_flag = False,
     mr_length_ind = 2, mr_addr = None, mr_event_label = None, mr_usage_marker = None, mr_power_control = None,
     mr_slot_granting = None, mr_chan_alloc = None\<rparr>"

text \<open>The address fields that each address type announces.\<close>

definition mac_resource_address ::
  "'b bitbuf_ops \<Rightarrow> mac_addr_type \<Rightarrow> ('b, tetra_address option \<times> nat option \<times> nat option) parser" where
  "mac_resource_address ops ty =
     (let address = (\<lambda>f ty k. p_bind (p_field ops 24 f) (\<lambda>v. k (Some \<lparr>ssi = word_of_nat v, ssi_type = ty\<rparr>)));
          label = (\<lambda>k. p_bind (p_field ops 10 ''event_label'') (\<lambda>v. k (Some (as_u16 v))))
      in case ty of
        AtNullPdu \<Rightarrow> p_ret (None, None, None)
      | AtSsi \<Rightarrow> address ''ssi'' Ssi (\<lambda>a. p_ret (a, None, None))
      | AtEventLabel \<Rightarrow> label (\<lambda>l. p_ret (None, l, None))
      | AtUssi \<Rightarrow> address ''ussi'' Ussi (\<lambda>a. p_ret (a, None, None))
      | AtSmi \<Rightarrow> address ''smi'' Smi (\<lambda>a. p_ret (a, None, None))
      | AtSsiAndEventLabel \<Rightarrow> address ''ssi'' Ssi (\<lambda>a. label (\<lambda>l. p_ret (a, l, None)))
      | AtSsiAndUsageMarker \<Rightarrow> address ''ssi'' Ssi (\<lambda>a.
          p_bind (p_field ops 6 ''usage_marker'') (\<lambda>v. p_ret (a, None, Some (as_u8 v))))
      | AtSmiAndEventLabel \<Rightarrow> address ''smi'' Smi (\<lambda>a. label (\<lambda>l. p_ret (a, l, None))))"

definition mac_resource_from_bitbuf :: "'b bitbuf_ops \<Rightarrow> ('b, mac_resource) parser" where
  "mac_resource_from_bitbuf ops =
     p_bind (p_field ops 2 ''mac_pdu_type'') (\<lambda>mac_pdu_type.
     p_assert (mac_pdu_type = 0) (
     p_bind (p_flag ops ''fill_bits'') (\<lambda>fill_bits.
     p_bind (p_field ops 1 ''pos_of_grant'') (\<lambda>pos_of_grant.
     p_bind (p_field ops 2 ''encryption_mode'') (\<lambda>encryption_mode.
     p_bind (p_flag ops ''random_access_flag'') (\<lambda>random_access_flag.
     p_bind (p_field ops 6 ''length_ind'') (\<lambda>length_ind.
     p_bind (p_field ops 3 ''addr_type'') (\<lambda>bits.
     p_unwrap (mac_addr_type_of_raw bits) (\<lambda>addr_type.
     p_bind (mac_resource_address ops addr_type) (\<lambda>(addr, event_label, usage_marker).
     if addr_type = AtNullPdu then p_ret
       \<lparr>mr_fill_bits = False, mr_pos_of_grant = 0, mr_encryption_mode = 0, mr_random_access_flag = False,
        mr_length_ind = as_u8 length_ind, mr_addr = None, mr_event_label = None, mr_usage_marker = None,
        mr_power_control = None, mr_slot_granting = None, mr_chan_alloc = None\<rparr>
     else
     p_bind (p_optional ops ''power_control_flag''
       (p_bind (p_field ops 4 ''power_control_element'') (\<lambda>v. p_ret (as_u8 v)))) (\<lambda>power_control.
     p_bind (p_optional ops ''slot_granting_flag'' (slotgrant_from_bitbuf ops)) (\<lambda>slot_granting.
     p_bind (p_optional ops ''chan_alloc_flag'' (chan_alloc_from_bitbuf ops)) (\<lambda>chan_alloc.
     p_ret \<lparr>mr_fill_bits = fill_bits, mr_pos_of_grant = as_u8 pos_of_grant, mr_encryption_mode = as_u8 encryption_mode,
       mr_random_access_flag = random_access_flag, mr_length_ind = as_u8 length_ind, mr_addr = addr,
       mr_event_label = event_label, mr_usage_marker = usage_marker, mr_power_control = power_control,
       mr_slot_granting = slot_granting, mr_chan_alloc = chan_alloc\<rparr>)))))))))))))"

definition is_null_pdu :: "mac_resource \<Rightarrow> bool" where
  "is_null_pdu p \<longleftrightarrow> mr_addr p = None \<and> mr_event_label p = None \<and> mr_usage_marker p = None"

text \<open>The address type that \<open>to_bitbuf\<close> derives; \<open>None\<close> where it panics or an assertion fails.\<close>

definition mac_resource_addr_type :: "mac_resource \<Rightarrow> mac_addr_type option" where
  "mac_resource_addr_type p =
     (if is_null_pdu p then
        (if \<not> mr_fill_bits p \<and> mr_pos_of_grant p = 0 \<and> mr_encryption_mode p = 0 \<and> \<not> mr_random_access_flag p
         then Some AtNullPdu else None)
      else case mr_addr p of
        Some addr \<Rightarrow>
          if ssi_type addr \<in> {Ssi, Gssi, Issi, Esi} then
            (if mr_event_label p = None \<and> mr_usage_marker p = None then Some AtSsi
             else if mr_event_label p \<noteq> None \<and> mr_usage_marker p = None then Some AtSsiAndEventLabel
             else if mr_usage_marker p \<noteq> None \<and> mr_event_label p = None then Some AtSsiAndUsageMarker
             else None)
          else if ssi_type addr = Ussi \<and> mr_event_label p = None \<and> mr_usage_marker p = None then Some AtUssi
          else if ssi_type addr = Smi then
            (if mr_usage_marker p \<noteq> None then None
             else if mr_event_label p \<noteq> None then Some AtSmiAndEventLabel else Some AtSmi)
          else None
      | None \<Rightarrow> (if mr_usage_marker p = None \<and> mr_event_label p \<noteq> None then Some AtEventLabel else None))"

definition mac_resource_write_address :: "'b bitbuf_ops \<Rightarrow> mac_resource \<Rightarrow> mac_addr_type \<Rightarrow> 'b writer" where
  "mac_resource_write_address ops p ty =
     (let address = (case mr_addr p of None \<Rightarrow> w_panic | Some a \<Rightarrow>
            stmts [w_assert ((ssi_type a = Esi) = (mr_encryption_mode p \<noteq> 0)), w_bits ops (unat (ssi a)) 24]);
          label = (case mr_event_label p of None \<Rightarrow> w_panic | Some l \<Rightarrow> w_bits ops l 10);
          marker = (case mr_usage_marker p of None \<Rightarrow> w_panic | Some m \<Rightarrow> w_bits ops m 6)
      in stmts (w_bits ops (mac_addr_type_raw ty) 3 # (case ty of
          AtNullPdu \<Rightarrow> []
        | AtSsi \<Rightarrow> [address] | AtUssi \<Rightarrow> [address] | AtSmi \<Rightarrow> [address]
        | AtEventLabel \<Rightarrow> [label]
        | AtSsiAndEventLabel \<Rightarrow> [address, label] | AtSmiAndEventLabel \<Rightarrow> [address, label]
        | AtSsiAndUsageMarker \<Rightarrow> [address, marker])))"

definition mac_resource_to_bitbuf :: "'b bitbuf_ops \<Rightarrow> mac_resource \<Rightarrow> 'b writer" where
  "mac_resource_to_bitbuf ops p = stmts ([
     w_assert (mr_length_ind p > 0),
     w_bits ops 0 2,
     w_flag ops (mr_fill_bits p),
     w_bits ops (mr_pos_of_grant p) 1,
     w_bits ops (mr_encryption_mode p) 2,
     w_flag ops (mr_random_access_flag p),
     w_bits ops (mr_length_ind p) 6,
     (case mac_resource_addr_type p of None \<Rightarrow> w_panic | Some ty \<Rightarrow> mac_resource_write_address ops p ty)] @
     (if mac_resource_addr_type p = Some AtNullPdu then [] else [
     w_optional ops (\<lambda>v. w_bits ops v 4) (mr_power_control p),
     w_optional ops (slotgrant_to_bitbuf ops) (mr_slot_granting p),
     w_optional ops (chan_alloc_to_bitbuf ops) (mr_chan_alloc p)]))"

definition compute_header_len :: "mac_resource \<Rightarrow> nat option" where
  "compute_header_len p = do {
     let ret = 16;
     if is_null_pdu p then Some ret
     else do {
       let ret = (if mr_event_label p \<noteq> None then ret + 10 else ret);
       let ret = (if mr_usage_marker p \<noteq> None then ret + 6 else ret);
       let ret = (if mr_addr p \<noteq> None then ret + 24 else ret);
       let ret = ret + 1;
       let ret = (if mr_power_control p \<noteq> None then ret + 4 else ret);
       let ret = ret + 1;
       let ret = (if mr_slot_granting p \<noteq> None then ret + 8 else ret);
       let ret = ret + 1;
       case mr_chan_alloc p of
         None \<Rightarrow> Some ret
       | Some chan_alloc \<Rightarrow> do { n \<leftarrow> chan_alloc_compute_len chan_alloc; Some (ret + n) } } }"

definition update_len_and_fill_ind :: "mac_resource \<Rightarrow> nat \<Rightarrow> (nat \<times> mac_resource) option" where
  "update_len_and_fill_ind p sdu_len = do {
     hdr_len \<leftarrow> compute_header_len p;
     let total_len = hdr_len + sdu_len;
     let total_len_bytes = (total_len + 7) div 8;
     let num_fill_bits = (8 - total_len mod 8) mod 8;
     Some (num_fill_bits, p\<lparr>mr_length_ind := as_u8 total_len_bytes, mr_fill_bits := num_fill_bits \<noteq> 0\<rparr>) }"

section \<open>MAC-FRAG, MAC-END and MAC-D-BLCK\<close>

record mac_frag_dl =
  mf_fill_bits :: bool

definition mac_frag_dl_from_bitbuf :: "'b bitbuf_ops \<Rightarrow> ('b, mac_frag_dl) parser" where
  "mac_frag_dl_from_bitbuf ops =
     p_bind (p_field ops 2 ''mac_pdu_type'') (\<lambda>mac_pdu_type.
     p_assert (mac_pdu_type = 1) (
     p_bind (p_field ops 1 ''pdu_subtype'') (\<lambda>pdu_subtype.
     p_assert (pdu_subtype = 0) (
     p_bind (p_flag ops ''fill_bits'') (\<lambda>fill_bits.
     p_ret \<lparr>mf_fill_bits = fill_bits\<rparr>)))))"

definition mac_frag_dl_to_bitbuf :: "'b bitbuf_ops \<Rightarrow> mac_frag_dl \<Rightarrow> 'b writer" where
  "mac_frag_dl_to_bitbuf ops p = stmts [w_bits ops 1 2, w_bits ops 0 1, w_flag ops (mf_fill_bits p)]"

record mac_end_dl =
  me_fill_bits :: bool
  me_pos_of_grant :: nat
  me_length_ind :: nat
  me_slot_granting :: "basic_slotgrant option"
  me_chan_alloc :: "chan_alloc_element option"

definition mac_end_dl_from_bitbuf :: "'b bitbuf_ops \<Rightarrow> ('b, mac_end_dl) parser" where
  "mac_end_dl_from_bitbuf ops =
     p_bind (p_field ops 2 ''mac_pdu_type'') (\<lambda>mac_pdu_type.
     p_assert (mac_pdu_type = 1) (
     p_bind (p_field ops 1 ''pdu_subtype'') (\<lambda>pdu_subtype.
     p_assert (pdu_subtype = 1) (
     p_bind (p_flag ops ''fill_bits'') (\<lambda>fill_bits.
     p_bind (p_field ops 1 ''pos_of_grant'') (\<lambda>pos_of_grant.
     p_bind (p_field ops 6 ''length_ind'') (\<lambda>length_ind.
     p_bind (p_optional ops ''slot_granting_flag'' (slotgrant_from_bitbuf ops)) (\<lambda>slot_granting.
     p_bind (p_optional ops ''chan_alloc_flag'' (chan_alloc_from_bitbuf ops)) (\<lambda>chan_alloc.
     p_ret \<lparr>me_fill_bits = fill_bits, me_pos_of_grant = as_u8 pos_of_grant, me_length_ind = as_u8 length_ind,
       me_slot_granting = slot_granting, me_chan_alloc = chan_alloc\<rparr>)))))))))"

definition compute_hdr_len :: "basic_slotgrant option \<Rightarrow> chan_alloc_element option \<Rightarrow> nat option" where
  "compute_hdr_len slot_grant chan_alloc = do {
     n \<leftarrow> (case chan_alloc of Some c \<Rightarrow> chan_alloc_compute_len c | None \<Rightarrow> Some 0);
     Some (2 + 1 + 1 + 1 + 6 + 1 + (if slot_grant \<noteq> None then 8 else 0) + 1 + n) }"

definition mac_end_dl_to_bitbuf :: "'b bitbuf_ops \<Rightarrow> mac_end_dl \<Rightarrow> 'b writer" where
  "mac_end_dl_to_bitbuf ops p = stmts [
     w_bits ops 1 2,
     w_bits ops 1 1,
     w_flag ops (me_fill_bits p),
     w_bits ops (me_pos_of_grant p) 1,
     w_bits ops (me_length_ind p) 6,
     w_optional ops (slotgrant_to_bitbuf ops) (me_slot_granting p),
     w_optional ops (chan_alloc_to_bitbuf ops) (me_chan_alloc p)]"

record mac_d_blck =
  md_fill_bits :: bool
  md_encryption_mode :: nat
  md_event_label :: nat
  imm_napping_permission :: bool
  md_slot_granting :: "basic_slotgrant option"

definition mac_d_blck_from_bitbuf :: "'b bitbuf_ops \<Rightarrow> ('b, mac_d_blck) parser" where
  "mac_d_blck_from_bitbuf ops =
     p_bind (p_field ops 2 ''mac_pdu_type'') (\<lambda>mac_pdu_type.
     p_assert (mac_pdu_type = 3) (
     p_bind (p_field ops 1 ''pdu_subtype'') (\<lambda>pdu_subtype.
     p_assert (pdu_subtype = 0) (
     p_bind (p_flag ops ''fill_bits'') (\<lambda>fill_bits.
     p_bind (p_field ops 2 ''encryption_mode'') (\<lambda>encryption_mode.
     p_bind (p_field ops 10 ''event_label'') (\<lambda>event_label.
     p_bind (p_flag ops ''imm_napping_permission'') (\<lambda>imm.
     p_bind (p_optional ops ''slot_granting_flag'' (slotgrant_from_bitbuf ops)) (\<lambda>slot_granting.
     p_ret \<lparr>md_fill_bits = fill_bits, md_encryption_mode = as_u8 encryption_mode, md_event_label = as_u16 event_label,
       imm_napping_permission = imm, md_slot_granting = slot_granting\<rparr>)))))))))"

definition mac_d_blck_to_bitbuf :: "'b bitbuf_ops \<Rightarrow> mac_d_blck \<Rightarrow> 'b writer" where
  "mac_d_blck_to_bitbuf ops p = stmts [
     w_bits ops 3 2,
     w_bits ops 0 1,
     w_flag ops (md_fill_bits p),
     w_bits ops (md_encryption_mode p) 2,
     w_bits ops (md_event_label p) 10,
     w_flag ops (imm_napping_permission p),
     w_optional ops (slotgrant_to_bitbuf ops) (md_slot_granting p)]"

section \<open>Wire formats\<close>

text \<open>
  What a MAC-RESOURCE can carry: fields within their widths, an address combination that has an
  address type, an encrypted short identity exactly when the PDU is encrypted, and nothing but a
  length in a null PDU.
\<close>

definition mac_resource_ok :: "mac_resource \<Rightarrow> bool" where
  "mac_resource_ok p \<longleftrightarrow> mac_resource_addr_type p \<noteq> None
     \<and> mr_pos_of_grant p < 2 \<and> mr_encryption_mode p < 4 \<and> 0 < mr_length_ind p \<and> mr_length_ind p < 64
     \<and> (case mr_addr p of None \<Rightarrow> True | Some a \<Rightarrow> unat (ssi a) < 2 ^ 24 \<and> (ssi_type a = Esi \<longleftrightarrow> mr_encryption_mode p \<noteq> 0))
     \<and> pred_option (\<lambda>l. l < 1024) (mr_event_label p) \<and> pred_option (\<lambda>m. m < 64) (mr_usage_marker p)
     \<and> pred_option (\<lambda>v. v < 16) (mr_power_control p) \<and> pred_option slotgrant_ok (mr_slot_granting p)
     \<and> pred_option chan_alloc_ok (mr_chan_alloc p)
     \<and> (is_null_pdu p \<longrightarrow> mr_power_control p = None \<and> mr_slot_granting p = None \<and> mr_chan_alloc p = None)"

definition mac_resource_address_bits :: "mac_resource \<Rightarrow> bool list" where
  "mac_resource_address_bits p = (case mr_addr p of None \<Rightarrow> [] | Some a \<Rightarrow> val_bits 24 (unat (ssi a)))
     @ (case mr_event_label p of None \<Rightarrow> [] | Some l \<Rightarrow> val_bits 10 l)
     @ (case mr_usage_marker p of None \<Rightarrow> [] | Some m \<Rightarrow> val_bits 6 m)"

definition mac_resource_bits :: "mac_resource \<Rightarrow> bool list" where
  "mac_resource_bits p = val_bits 2 0 @ mr_fill_bits p # val_bits 1 (mr_pos_of_grant p) @ val_bits 2 (mr_encryption_mode p)
     @ mr_random_access_flag p # val_bits 6 (mr_length_ind p)
     @ val_bits 3 (mac_addr_type_raw (the (mac_resource_addr_type p))) @ mac_resource_address_bits p
     @ (if is_null_pdu p then [] else opt_bits (val_bits 4) (mr_power_control p)
        @ opt_bits slotgrant_bits (mr_slot_granting p) @ opt_bits chan_alloc_bits (mr_chan_alloc p))"

text \<open>The address types of all short identities but two collapse to the plain one on the air.\<close>

definition canon_address :: "tetra_address \<Rightarrow> tetra_address" where
  "canon_address a = (if ssi_type a \<in> {Gssi, Issi, Esi} then a\<lparr>ssi_type := Ssi\<rparr> else a)"

definition canon_resource :: "mac_resource \<Rightarrow> mac_resource" where
  "canon_resource p = p\<lparr>mr_addr := map_option canon_address (mr_addr p)\<rparr>"

lemma compute_header_len_bits:
  assumes "mac_resource_ok p"
  shows "compute_header_len p = Some (length (mac_resource_bits p))"
  using assms chan_alloc_len
  by (auto simp: compute_header_len_def mac_resource_bits_def mac_resource_address_bits_def mac_resource_ok_def
      is_null_pdu_def opt_bits_def Let_def split: option.splits)

definition mac_frag_dl_bits :: "mac_frag_dl \<Rightarrow> bool list" where
  "mac_frag_dl_bits p = val_bits 2 1 @ val_bits 1 0 @ [mf_fill_bits p]"

definition mac_end_dl_ok :: "mac_end_dl \<Rightarrow> bool" where
  "mac_end_dl_ok p \<longleftrightarrow> me_pos_of_grant p < 2 \<and> me_length_ind p < 64 \<and> pred_option slotgrant_ok (me_slot_granting p)
     \<and> pred_option chan_alloc_ok (me_chan_alloc p)"

definition mac_end_dl_bits :: "mac_end_dl \<Rightarrow> bool list" where
  "mac_end_dl_bits p = val_bits 2 1 @ val_bits 1 1 @ me_fill_bits p # val_bits 1 (me_pos_of_grant p)
     @ val_bits 6 (me_length_ind p) @ opt_bits slotgrant_bits (me_slot_granting p) @ opt_bits chan_alloc_bits (me_chan_alloc p)"

lemma compute_hdr_len_bits:
  assumes "mac_end_dl_ok p"
  shows "compute_hdr_len (me_slot_granting p) (me_chan_alloc p) = Some (length (mac_end_dl_bits p))"
  using assms chan_alloc_len
  by (auto simp: compute_hdr_len_def mac_end_dl_bits_def mac_end_dl_ok_def opt_bits_def split: option.splits)

definition mac_d_blck_ok :: "mac_d_blck \<Rightarrow> bool" where
  "mac_d_blck_ok p \<longleftrightarrow> md_encryption_mode p < 4 \<and> md_event_label p < 1024 \<and> pred_option slotgrant_ok (md_slot_granting p)"

definition mac_d_blck_bits :: "mac_d_blck \<Rightarrow> bool list" where
  "mac_d_blck_bits p = val_bits 2 3 @ val_bits 1 0 @ md_fill_bits p # val_bits 2 (md_encryption_mode p)
     @ val_bits 10 (md_event_label p) @ imm_napping_permission p # opt_bits slotgrant_bits (md_slot_granting p)"

context bit_buffer
begin

lemma emits_mac_frag_dl: "emits (mac_frag_dl_to_bitbuf ops p) (mac_frag_dl_bits p)"
  by (auto simp: mac_frag_dl_to_bitbuf_def mac_frag_dl_bits_def intro!: emit_intros)

lemma parses_mac_frag_dl: "parses (mac_frag_dl_from_bitbuf ops) (mac_frag_dl_bits p) p"
  by (auto simp: mac_frag_dl_from_bitbuf_def mac_frag_dl_bits_def intro!: parse_intros)

lemma emits_mac_end_dl: "mac_end_dl_ok p \<Longrightarrow> emits (mac_end_dl_to_bitbuf ops p) (mac_end_dl_bits p)"
  by (auto simp: mac_end_dl_to_bitbuf_def mac_end_dl_bits_def mac_end_dl_ok_def
      intro!: emit_intros emits_slotgrant emits_chan_alloc)

lemma parses_mac_end_dl: "mac_end_dl_ok p \<Longrightarrow> parses (mac_end_dl_from_bitbuf ops) (mac_end_dl_bits p) p"
  by (auto simp: mac_end_dl_from_bitbuf_def mac_end_dl_bits_def mac_end_dl_ok_def
      intro!: parse_intros parses_slotgrant parses_chan_alloc)

lemma emits_mac_d_blck: "mac_d_blck_ok p \<Longrightarrow> emits (mac_d_blck_to_bitbuf ops p) (mac_d_blck_bits p)"
  by (auto simp: mac_d_blck_to_bitbuf_def mac_d_blck_bits_def mac_d_blck_ok_def intro!: emit_intros emits_slotgrant)

lemma parses_mac_d_blck: "mac_d_blck_ok p \<Longrightarrow> parses (mac_d_blck_from_bitbuf ops) (mac_d_blck_bits p) p"
  by (auto simp: mac_d_blck_from_bitbuf_def mac_d_blck_bits_def mac_d_blck_ok_def intro!: parse_intros parses_slotgrant)

end

context bit_buffer
begin

lemma emits_mac_resource_address:
  assumes "mac_resource_ok p" and "mac_resource_addr_type p = Some ty"
  shows "emits (mac_resource_write_address ops p ty) (val_bits 3 (mac_addr_type_raw ty) @ mac_resource_address_bits p)"
  using assms
  by (auto simp: mac_resource_write_address_def mac_resource_address_bits_def mac_resource_ok_def mac_resource_addr_type_def
      is_null_pdu_def Let_def intro!: emit_intros split: if_splits option.splits)

lemma parses_mac_resource_address:
  assumes "mac_resource_ok p" and "mac_resource_addr_type p = Some ty"
  shows "parses (mac_resource_address ops ty) (mac_resource_address_bits p)
    (map_option canon_address (mr_addr p), mr_event_label p, mr_usage_marker p)"
  using assms
  by (auto simp: mac_resource_address_def mac_resource_address_bits_def mac_resource_ok_def mac_resource_addr_type_def
      is_null_pdu_def canon_address_def Let_def intro!: parse_intros split: if_splits option.splits)

lemma emits_mac_resource:
  assumes "mac_resource_ok p"
  shows "emits (mac_resource_to_bitbuf ops p) (mac_resource_bits p)"
proof -
  from assms obtain ty where ty: "mac_resource_addr_type p = Some ty" by (auto simp: mac_resource_ok_def)
  note addr = emits_mac_resource_address [OF assms ty]
  show ?thesis
  proof (cases "is_null_pdu p")
    case True
    with ty have "ty = AtNullPdu" by (auto simp: mac_resource_addr_type_def split: if_splits)
    with True ty addr assms show ?thesis
      by (auto simp: mac_resource_to_bitbuf_def mac_resource_bits_def mac_resource_ok_def intro!: emit_intros)
  next
    case False
    with ty have "ty \<noteq> AtNullPdu" by (auto simp: mac_resource_addr_type_def split: if_splits option.splits)
    with False ty addr assms have "emits (mac_resource_to_bitbuf ops p) (val_bits 2 0 @ mr_fill_bits p # val_bits 1 (mr_pos_of_grant p)
        @ val_bits 2 (mr_encryption_mode p) @ mr_random_access_flag p # val_bits 6 (mr_length_ind p)
        @ (val_bits 3 (mac_addr_type_raw ty) @ mac_resource_address_bits p) @ opt_bits (val_bits 4) (mr_power_control p)
        @ opt_bits slotgrant_bits (mr_slot_granting p) @ opt_bits chan_alloc_bits (mr_chan_alloc p))"
      unfolding mac_resource_to_bitbuf_def
      by (auto simp: mac_resource_ok_def simp del: append_assoc intro!: emit_intros emits_slotgrant emits_chan_alloc)
    with False ty show ?thesis by (simp add: mac_resource_bits_def)
  qed
qed

lemma parses_mac_resource:
  assumes "mac_resource_ok p"
  shows "parses (mac_resource_from_bitbuf ops) (mac_resource_bits p) (canon_resource p)"
proof -
  from assms obtain ty where ty: "mac_resource_addr_type p = Some ty" by (auto simp: mac_resource_ok_def)
  note addr = parses_mac_resource_address [OF assms ty]
  note fits = mac_addr_type.raw_fits [of ty]
  show ?thesis
  proof (cases "is_null_pdu p")
    case True
    with ty have "ty = AtNullPdu" "mr_encryption_mode p = 0" "mr_pos_of_grant p = 0" "\<not> mr_fill_bits p" "\<not> mr_random_access_flag p"
      by (auto simp: mac_resource_addr_type_def split: if_splits)
    with True ty assms show ?thesis
      by (auto simp: mac_resource_from_bitbuf_def mac_resource_bits_def mac_resource_ok_def canon_resource_def is_null_pdu_def
          mac_resource_address_def mac_resource_address_bits_def mac_addr_type_of_raw_def intro!: parse_intros)
  next
    case False
    with ty have "ty \<noteq> AtNullPdu" by (auto simp: mac_resource_addr_type_def split: if_splits option.splits)
    with False ty addr assms fits show ?thesis
      by (auto simp: mac_resource_from_bitbuf_def mac_resource_bits_def mac_resource_ok_def canon_resource_def
          intro!: parse_intros parses_bind [OF addr] parses_slotgrant parses_chan_alloc)
  qed
qed

lemma mac_resource_wire:
  "wire_format ops view (mac_resource_from_bitbuf ops) (mac_resource_to_bitbuf ops) mac_resource_bits canon_resource mac_resource_ok"
  by unfold_locales (fact emits_mac_resource parses_mac_resource)+

lemma mac_frag_dl_wire:
  "wire_format ops view (mac_frag_dl_from_bitbuf ops) (mac_frag_dl_to_bitbuf ops) mac_frag_dl_bits (\<lambda>p. p) (\<lambda>p. True)"
  by unfold_locales (rule emits_mac_frag_dl parses_mac_frag_dl)+

lemma mac_end_dl_wire:
  "wire_format ops view (mac_end_dl_from_bitbuf ops) (mac_end_dl_to_bitbuf ops) mac_end_dl_bits (\<lambda>p. p) mac_end_dl_ok"
  by unfold_locales (fact emits_mac_end_dl parses_mac_end_dl)+

lemma mac_d_blck_wire:
  "wire_format ops view (mac_d_blck_from_bitbuf ops) (mac_d_blck_to_bitbuf ops) mac_d_blck_bits (\<lambda>p. p) mac_d_blck_ok"
  by unfold_locales (fact emits_mac_d_blck parses_mac_d_blck)+

end

interpretation mac_resource: wire_format view_ops "\<lambda>v. v" "mac_resource_from_bitbuf view_ops" "mac_resource_to_bitbuf view_ops"
    mac_resource_bits canon_resource mac_resource_ok
  by (rule view_machine.mac_resource_wire)

interpretation mac_frag_dl: wire_format view_ops "\<lambda>v. v" "mac_frag_dl_from_bitbuf view_ops" "mac_frag_dl_to_bitbuf view_ops"
    mac_frag_dl_bits "\<lambda>p. p" "\<lambda>p. True"
  by (rule view_machine.mac_frag_dl_wire)

interpretation mac_end_dl: wire_format view_ops "\<lambda>v. v" "mac_end_dl_from_bitbuf view_ops" "mac_end_dl_to_bitbuf view_ops"
    mac_end_dl_bits "\<lambda>p. p" mac_end_dl_ok
  by (rule view_machine.mac_end_dl_wire)

interpretation mac_d_blck: wire_format view_ops "\<lambda>v. v" "mac_d_blck_from_bitbuf view_ops" "mac_d_blck_to_bitbuf view_ops"
    mac_d_blck_bits "\<lambda>p. p" mac_d_blck_ok
  by (rule view_machine.mac_d_blck_wire)

section \<open>What the parser of MAC-RESOURCE accepts\<close>

text \<open>The PDUs a parser can return: fields within their widths, plain identities, an address type.\<close>

definition mac_resource_typed :: "mac_resource \<Rightarrow> bool" where
  "mac_resource_typed p \<longleftrightarrow> mac_resource_addr_type p \<noteq> None
     \<and> mr_pos_of_grant p < 2 \<and> mr_encryption_mode p < 4 \<and> mr_length_ind p < 64
     \<and> pred_option (\<lambda>a. unat (ssi a) < 2 ^ 24 \<and> ssi_type a \<in> {Ssi, Ussi, Smi}) (mr_addr p)
     \<and> pred_option (\<lambda>l. l < 1024) (mr_event_label p) \<and> pred_option (\<lambda>m. m < 64) (mr_usage_marker p)
     \<and> pred_option (\<lambda>v. v < 16) (mr_power_control p) \<and> pred_option slotgrant_ok (mr_slot_granting p)
     \<and> pred_option chan_alloc_ok (mr_chan_alloc p)
     \<and> (is_null_pdu p \<longrightarrow> mr_power_control p = None \<and> mr_slot_granting p = None \<and> mr_chan_alloc p = None)"

lemma compute_header_len_typed:
  assumes "mac_resource_typed p"
  shows "compute_header_len p = Some (length (mac_resource_bits p))"
  using assms chan_alloc_len
  by (auto simp: compute_header_len_def mac_resource_bits_def mac_resource_address_bits_def mac_resource_typed_def
      is_null_pdu_def opt_bits_def Let_def split: option.splits)

context bit_buffer
begin

lemma spec_power_control:
  "spec (\<lambda>r. True) (p_bind (p_field ops 4 ''power_control_element'') (\<lambda>v. p_ret (as_u8 v))) (\<lambda>s v. s = val_bits 4 v \<and> v < 16)"
  by (auto intro!: spec_intros)

lemma spec_resource_tail:
  assumes "\<And>pc sg ca. \<lbrakk>pred_option (\<lambda>v. v < 16) pc; pred_option slotgrant_ok sg; pred_option chan_alloc_ok ca\<rbrakk>
    \<Longrightarrow> Q (opt_bits (val_bits 4) pc @ opt_bits slotgrant_bits sg @ opt_bits chan_alloc_bits ca) (f pc sg ca)"
  shows "spec (\<lambda>r. True)
    (p_bind (p_optional ops ''power_control_flag''
       (p_bind (p_field ops 4 ''power_control_element'') (\<lambda>v. p_ret (as_u8 v)))) (\<lambda>power_control.
     p_bind (p_optional ops ''slot_granting_flag'' (slotgrant_from_bitbuf ops)) (\<lambda>slot_granting.
     p_bind (p_optional ops ''chan_alloc_flag'' (chan_alloc_from_bitbuf ops)) (\<lambda>chan_alloc.
     p_ret (f power_control slot_granting chan_alloc))))) Q"
  by (rule spec_bind_optional [OF spec_power_control] spec_bind_optional [OF spec_slotgrant]
      spec_bind_optional [OF spec_chan_alloc] spec_ret)+ (simp add: assms)

lemma spec_resource_address:
  "spec (\<lambda>r. True) (mac_resource_address ops ty) (\<lambda>s (a, l, m).
     (if ty = AtNullPdu then a = None \<and> l = None \<and> m = None \<and> s = []
      else \<forall>p. mr_addr p = a \<and> mr_event_label p = l \<and> mr_usage_marker p = m \<longrightarrow>
        mac_resource_addr_type p = Some ty \<and> \<not> is_null_pdu p \<and> mac_resource_address_bits p = s)
     \<and> pred_option (\<lambda>a. unat (ssi a) < 2 ^ 24 \<and> ssi_type a \<in> {Ssi, Ussi, Smi}) a
     \<and> pred_option (\<lambda>l. l < 1024) l \<and> pred_option (\<lambda>m. m < 64) m)"
  by (cases ty) (auto simp: mac_resource_address_def mac_resource_addr_type_def is_null_pdu_def
      mac_resource_address_bits_def unat_of_nat take_bit_nat_eq_self intro!: spec_intros)

lemma spec_mac_resource:
  "spec (\<lambda>r. True) (mac_resource_from_bitbuf ops)
     (\<lambda>s p. mac_resource_typed p \<and> length s = length (mac_resource_bits p) \<and> (\<not> is_null_pdu p \<longrightarrow> s = mac_resource_bits p))"
  unfolding mac_resource_from_bitbuf_def
proof (intro spec_bind_field spec_bind_flag spec_assert spec_unwrap spec_bind [OF spec_resource_address], goal_cases)
  case (6 ty fb pg em ra li at' ty' s x)
  obtain a l m where x: "x = (a, l, m)" by (cases x)
  show ?case
  proof (cases "ty' = AtNullPdu")
    case True
    with 6 have n: "a = None" "l = None" "m = None" "s = []" "at' = 0"
      by (auto simp: x dest: mac_addr_type.raw_of_raw)
    have li: "as_u8 li = li" "li < 64" using 6 by simp_all
    show ?thesis unfolding x n prod.case if_P [OF True] li
      by (rule spec_ret) (simp add: li mac_resource_typed_def mac_resource_bits_def mac_resource_addr_type_def
          is_null_pdu_def mac_resource_address_bits_def)
  next
    case False
    have le: "as_u8 pg = pg" "as_u8 em = em" "as_u8 li = li" "pg < 2" "em < 4" "li < 64" using 6 by simp_all
    have P: "mac_resource_addr_type p = Some ty' \<and> \<not> is_null_pdu p \<and> mac_resource_address_bits p = s"
      if "mr_addr p = a" "mr_event_label p = l" "mr_usage_marker p = m" for p
      using 6 False that by (auto simp: x)
    have R: "mac_addr_type_raw ty' = at'" "pred_option (\<lambda>a. unat (ssi a) < 2 ^ 24 \<and> ssi_type a \<in> {Ssi, Ussi, Smi}) a"
      "pred_option (\<lambda>l. l < 1024) l" "pred_option (\<lambda>m. m < 64) m" "ty = 0"
      using 6 by (auto simp: x dest: mac_addr_type.raw_of_raw)
    show ?thesis unfolding x prod.case if_not_P [OF False] le R(5)
      by (rule spec_resource_tail) (use R(2) in \<open>simp add: P le R mac_resource_typed_def mac_resource_bits_def\<close>)
  qed
qed simp_all
end

section \<open>Properties\<close>

text \<open>C18: Whatever a MAC-RESOURCE can carry survives the air interface: its writer emits exactly as many bits as
  the header length says, and the parser started where they were written returns the PDU (with all short
  identities as plain ones) and leaves the buffer where the writer did.\<close>

theorem mac_resource_roundtrip:
  assumes "bit_buffer ops view" and "mac_resource_ok p" and "can_write (view b) (length (mac_resource_bits p))"
  shows "\<exists>b'. mac_resource_to_bitbuf ops p b = Some b' \<and> view b' = put_bits (view b) (mac_resource_bits p)
    \<and> compute_header_len p = Some (length (mac_resource_bits p))
    \<and> (\<forall>c. view c = (view b')\<lparr>raw_pos := raw_pos (view b)\<rparr> \<longrightarrow>
         (\<exists>c'. mac_resource_from_bitbuf ops c = Some (Inr (canon_resource p), c') \<and> view c' = view b'))"
  using wire_format.written [OF bit_buffer.mac_resource_wire [OF assms(1)] assms(2,3)]
    wire_format.read_back [OF bit_buffer.mac_resource_wire [OF assms(1)] assms(2,3)] compute_header_len_bits [OF assms(2)]
  by fastforce

definition sample_resource :: mac_resource where
  "sample_resource = \<lparr>mr_fill_bits = True, mr_pos_of_grant = 0, mr_encryption_mode = 0, mr_random_access_flag = True,
     mr_length_ind = 7, mr_addr = Some \<lparr>ssi = 2001, ssi_type = Issi\<rparr>, mr_event_label = None, mr_usage_marker = Some 9,
     mr_power_control = None, mr_slot_granting = Some \<lparr>capacity_allocation = Grant1Slot, sg_granting_delay = CapAllocAtNextOpportunity\<rparr>,
     mr_chan_alloc = None\<rparr>"

lemma sample_resource_ok: "mac_resource_ok sample_resource"
  by (simp add: sample_resource_def mac_resource_ok_def mac_resource_addr_type_def is_null_pdu_def slotgrant_ok_def)

theorem mac_resource_roundtrip_witness:
  "\<exists>b'. mac_resource_to_bitbuf view_ops sample_resource \<lparr>raw_bits = [], raw_start = 0, raw_pos = 0, raw_end = 0, raw_auto = True\<rparr> = Some b'
     \<and> length (raw_bits b') = 57"
proof -
  let ?v = "\<lparr>raw_bits = [], raw_start = 0, raw_pos = 0, raw_end = 0, raw_auto = True\<rparr>"
  have len: "length (mac_resource_bits sample_resource) = 57"
    by (simp add: sample_resource_def mac_resource_bits_def mac_resource_address_bits_def is_null_pdu_def)
  have "can_write ?v (length (mac_resource_bits sample_resource))" by (simp add: can_write_def growable_def view_wf_def)
  from mac_resource_roundtrip [OF view_machine.bit_buffer_axioms sample_resource_ok this] len
  show ?thesis by (auto simp: put_bits_def overwrite_def)
qed

text \<open>The encrypted PDUs among those that the parser returns have a plain short identity, on which the writer panics.\<close>

lemma mac_resource_encrypted_unwritable:
  assumes "mr_addr p = Some a" and "ssi_type a \<noteq> Esi" and "mr_encryption_mode p \<noteq> 0"
  shows "mac_resource_to_bitbuf ops p b = None"
proof -
  have "mac_resource_write_address ops p ty b = None" if "mac_resource_addr_type p = Some ty" for ty b
    using that assms by (cases ty) (auto simp: mac_resource_write_address_def mac_resource_addr_type_def is_null_pdu_def
        stmts.simps w_assert_def w_panic_def Let_def split: if_splits option.splits)
  then show ?thesis
    by (auto simp: mac_resource_to_bitbuf_def stmts.simps w_panic_def split: option.splits)
qed

text \<open>C19: The parser of MAC-RESOURCE is exact on whatever bits arrive: a PDU it returns has every field within its
  width and an address combination that has an address type, the bits consumed are as many as its header length,
  and unless it is a null PDU they are exactly the bits that the format assigns to its fields. (Not all of these PDUs can
  be written again: on the plain short identity of an encrypted one the writer's assertion fails.)\<close>

theorem mac_resource_parse_exact:
  assumes "bit_buffer ops view" and "view_wf (view b)" and "mac_resource_from_bitbuf ops b = Some (Inr p, b')"
  shows "\<exists>s. remaining (view b) = s @ remaining (view b') \<and> view b' = advance (view b) (length s)
    \<and> mac_resource_typed p \<and> compute_header_len p = Some (length s) \<and> (\<not> is_null_pdu p \<longrightarrow> s = mac_resource_bits p)"
  using bit_buffer.spec_Some [OF assms(1) bit_buffer.spec_mac_resource [OF assms(1)] assms(2,3)]
  by (auto simp: compute_header_len_typed)

theorem mac_resource_parse_exact_witness:
  "mac_resource_typed (canon_resource sample_resource)
     \<and> compute_header_len (canon_resource sample_resource) = Some (length (mac_resource_bits sample_resource))"
proof -
  let ?e = "\<lparr>raw_bits = [], raw_start = 0, raw_pos = 0, raw_end = 0, raw_auto = True\<rparr>"
  let ?v = "(put_bits ?e (mac_resource_bits sample_resource))\<lparr>raw_pos := 0\<rparr>"
  have w: "can_write ?e (length (mac_resource_bits sample_resource))" by (simp add: can_write_def growable_def view_wf_def)
  then have wf: "view_wf ?v" using put_bits_wf [OF w] by (simp add: view_wf_def)
  obtain c where "mac_resource_from_bitbuf view_ops ?v = Some (Inr (canon_resource sample_resource), c)"
      "c = put_bits ?e (mac_resource_bits sample_resource)"
    using mac_resource.read_back [OF sample_resource_ok w, of ?v] by auto
  with mac_resource_parse_exact [OF view_machine.bit_buffer_axioms wf this(1)]
  show ?thesis by (auto simp: remaining_def put_bits_def overwrite_def)
qed

end
