(* ===== verification/Mac_Uplink.thy ===== *)
theory Mac_Uplink
  imports Mac_Fields Tetra_Types
begin

text \<open>
  The uplink MAC PDU headers of \<^verbatim>\<open>crates/tetra-pdus/src/umac/pdus\<close>: MAC-ACCESS, MAC-DATA, MAC-FRAG,
  MAC-END, MAC-END-HU, MAC-U-BLCK and MAC-U-SIGNAL (\<^verbatim>\<open>mac_access.rs\<close>, \<^verbatim>\<open>mac_data.rs\<close>,
  \<^verbatim>\<open>mac_frag_ul.rs\<close>, \<^verbatim>\<open>mac_end_ul.rs\<close>, \<^verbatim>\<open>mac_end_hu.rs\<close>, \<^verbatim>\<open>mac_u_blck.rs\<close>, \<^verbatim>\<open>mac_u_signal.rs\<close>).
\<close>

section \<open>MAC-ACCESS\<close>

record mac_access =
  ma_fill_bits :: bool
  ma_encrypted :: bool
  ma_addr :: "tetra_address option"
  ma_event_label :: "nat option"
  ma_length_ind :: "nat option"
  ma_frag_flag :: "bool option"
  ma_reservation_req :: "reservation_req option"

text \<open>The address of MAC-ACCESS and MAC-DATA: an identity whose type depends on encryption, or a label.\<close>

definition uplink_address ::
  "'b bitbuf_ops \<Rightarrow> bool \<Rightarrow> nat \<Rightarrow> string \<Rightarrow> string \<Rightarrow> ('b, tetra_address option \<times> nat option) parser" where
  "uplink_address ops encrypted addr_type ussi_field smi_field =
     (let address = (\<lambda>f ty. p_bind (p_field ops 24 f) (\<lambda>v. p_ret (Some \<lparr>ssi = word_of_nat v, ssi_type = ty\<rparr>, None)))
      in if addr_type = 0 then address ''ssi'' (if encrypted then Esi else Issi)
         else if addr_type = 1 then p_bind (p_field ops 10 ''event_label'') (\<lambda>v. p_ret (None, Some (as_u16 v)))
         else if addr_type = 2 then address ussi_field Ussi
         else if addr_type = 3 then address smi_field Smi
         else p_panic)"

definition mac_access_from_bitbuf :: "'b bitbuf_ops \<Rightarrow> ('b, mac_access) parser" where
  "mac_access_from_bitbuf ops =
     p_bind (p_field ops 1 ''mac_pdu_type'') (\<lambda>mac_pdu_type.
     p_assert (mac_pdu_type = 0) (
     p_bind (p_flag ops ''fill_bits'') (\<lambda>fill_bits.
     p_bind (p_flag ops ''encrypted'') (\<lambda>encrypted.
     p_bind (p_field ops 2 ''addr_type'') (\<lambda>addr_type.
     p_bind (uplink_address ops encrypted (as_u8 addr_type) ''ussi'' ''smi'') (\<lambda>(addr, event_label).
     p_bind (p_flag ops ''optional_field_flag'') (\<lambda>optional_field_flag.
     p_bind
       (if optional_field_flag then
          p_bind (p_field ops 1 ''length_ind_or_cap_req'') (\<lambda>length_ind_or_cap_req.
          if length_ind_or_cap_req = 0 then
            p_bind (p_field ops 5 ''length_ind'') (\<lambda>len. p_ret (Some (as_u8 len), None, None))
          else
            p_bind (p_flag ops ''frag_flag'') (\<lambda>frag.
            p_bind (p_field ops 4 ''reservation_req'') (\<lambda>val.
            p_unwrap (reservation_req_of_raw val) (\<lambda>res_req. p_ret (None, Some frag, Some res_req)))))
        else p_ret (None, None, None)) (\<lambda>(length_ind, frag_flag, reservation_req).
     p_ret \<lparr>ma_fill_bits = fill_bits, ma_encrypted = encrypted, ma_addr = addr, ma_event_label = event_label,
       ma_length_ind = length_ind, ma_frag_flag = frag_flag, ma_reservation_req = reservation_req\<rparr>))))))))"

definition mac_access_write_address :: "'b bitbuf_ops \<Rightarrow> mac_access \<Rightarrow> 'b writer" where
  "mac_access_write_address ops p = (case ma_addr p of
     Some addr \<Rightarrow> stmts (w_assert ((ssi_type addr = Esi) = ma_encrypted p) #
       (if ssi_type addr \<in> {Ssi, Issi, Gssi, Esi} then [w_bits ops 0 2, w_bits ops (unat (ssi addr)) 24]
        else if ssi_type addr = Ussi then [w_bits ops 2 2, w_bits ops (unat (ssi addr)) 24]
        else if ssi_type addr = Smi then [w_bits ops 3 2, w_bits ops (unat (ssi addr)) 24]
        else [w_panic]))
   | None \<Rightarrow> (case ma_event_label p of
       Some event_label \<Rightarrow> stmts [w_bits ops 1 2, w_bits ops event_label 10]
     | None \<Rightarrow> w_panic))"

definition mac_access_to_bitbuf :: "'b bitbuf_ops \<Rightarrow> mac_access \<Rightarrow> 'b writer" where
  "mac_access_to_bitbuf ops p = stmts ([
     w_bits ops 0 1,
     w_flag ops (ma_fill_bits p),
     w_flag ops (ma_encrypted p),
     mac_access_write_address ops p] @
     (if ma_length_ind p \<noteq> None \<or> ma_frag_flag p \<noteq> None \<or> ma_reservation_req p \<noteq> None then
        [w_assert (\<not> (ma_length_ind p \<noteq> None \<and> ma_frag_flag p \<noteq> None \<and> ma_reservation_req p \<noteq> None)),
         w_bits ops 1 1] @
        (case ma_length_ind p of
           Some length_ind \<Rightarrow> [w_bits ops 0 1, w_bits ops length_ind 5]
         | None \<Rightarrow> [w_bits ops 1 1,
             (case ma_frag_flag p of None \<Rightarrow> w_panic | Some frag \<Rightarrow> w_flag ops frag),
             (case ma_reservation_req p of None \<Rightarrow> w_panic | Some req \<Rightarrow> w_bits ops (reservation_req_raw req) 4)])
      else [w_bits ops 0 1]))"

definition ma_is_null_pdu :: "mac_access \<Rightarrow> bool" where
  "ma_is_null_pdu p \<longleftrightarrow> (case ma_length_ind p of None \<Rightarrow> 1 | Some l \<Rightarrow> l) = 0"

definition ma_is_frag_start :: "mac_access \<Rightarrow> bool" where
  "ma_is_frag_start p \<longleftrightarrow> (case ma_frag_flag p of None \<Rightarrow> False | Some f \<Rightarrow> f)"

section \<open>MAC-DATA\<close>

record mac_data =
  da_fill_bits :: bool
  da_encrypted :: bool
  da_addr :: "tetra_address option"
  da_event_label :: "nat option"
  da_length_ind :: "nat option"
  da_frag_flag :: "bool option"
  da_reservation_req :: "reservation_req option"

text \<open>\<open>read_bits\<close> of a bit that is not looked at: it is skipped if it is there.\<close>

definition p_skip :: "'b bitbuf_ops \<Rightarrow> nat \<Rightarrow> ('b, unit) parser" where
  "p_skip ops n = (\<lambda>b. Some (Inr (), snd (bb_read_bits ops b n)))"

definition mac_data_from_bitbuf :: "'b bitbuf_ops \<Rightarrow> ('b, mac_data) parser" where
  "mac_data_from_bitbuf ops =
     p_bind (p_field ops 2 ''mac_pdu_type'') (\<lambda>mac_pdu_type.
     p_assert (mac_pdu_type = 0) (
     p_bind (p_flag ops ''fill_bits'') (\<lambda>fill_bits.
     p_bind (p_flag ops ''encrypted'') (\<lambda>encrypted.
     p_bind (p_field ops 2 ''addr_type'') (\<lambda>addr_type.
     p_bind (uplink_address ops encrypted (as_u8 addr_type) ''ssi'' ''ssi'') (\<lambda>(addr, event_label).
     p_bind (p_field ops 1 ''length_ind_or_cap_req'') (\<lambda>length_ind_or_cap_req.
     p_bind
       (if length_ind_or_cap_req = 0 then
          p_bind (p_field ops 6 ''length_ind'') (\<lambda>len. p_ret (Some (as_u8 len), None, None))
        else if length_ind_or_cap_req = 1 then
          p_bind (p_flag ops ''frag_flag'') (\<lambda>frag_flag.
          p_bind (p_field ops 4 ''reservation_requirement'') (\<lambda>val.
          p_unwrap (reservation_req_of_raw val) (\<lambda>res_req.
          p_bind (p_skip ops 1) (\<lambda>_. p_ret (None, Some frag_flag, Some res_req)))))
        else p_panic) (\<lambda>(length_ind, frag_flag, reservation_req).
     p_ret \<lparr>da_fill_bits = fill_bits, da_encrypted = encrypted, da_addr = addr, da_event_label = event_label,
       da_length_ind = length_ind, da_frag_flag = frag_flag, da_reservation_req = reservation_req\<rparr>))))))))"

definition mac_data_write_address :: "'b bitbuf_ops \<Rightarrow> mac_data \<Rightarrow> 'b writer" where
  "mac_data_write_address ops p = (case da_addr p of
     Some addr \<Rightarrow> stmts (w_assert ((ssi_type addr = Esi) = da_encrypted p) #
       (if ssi_type addr \<in> {Ssi, Issi, Gssi} then [w_bits ops 0 2, w_bits ops (unat (ssi addr)) 24]
        else if ssi_type addr = Ussi then [w_bits ops 2 2, w_bits ops (unat (ssi addr)) 24]
        else if ssi_type addr = Smi then [w_bits ops 3 2, w_bits ops (unat (ssi addr)) 24]
        else [w_panic]))
   | None \<Rightarrow> (case da_event_label p of
       Some event_label \<Rightarrow> stmts [w_bits ops 1 2, w_bits ops event_label 10]
     | None \<Rightarrow> w_panic))"

definition mac_data_to_bitbuf :: "'b bitbuf_ops \<Rightarrow> mac_data \<Rightarrow> 'b writer" where
  "mac_data_to_bitbuf ops p = stmts ([
     w_bits ops 0 2,
     w_flag ops (da_fill_bits p),
     w_flag ops (da_encrypted p),
     w_assert ((da_addr p \<noteq> None) \<noteq> (da_event_label p \<noteq> None)),
     mac_data_write_address ops p] @
     (case da_length_ind p of
        Some length_ind \<Rightarrow> [w_bits ops 0 1, w_bits ops length_ind 6]
      | None \<Rightarrow> [w_assert (da_frag_flag p \<noteq> None \<and> da_reservation_req p \<noteq> None),
          w_bits ops 1 1,
          (case da_frag_flag p of None \<Rightarrow> w_panic | Some frag \<Rightarrow> w_flag ops frag),
          (case da_reservation_req p of None \<Rightarrow> w_panic | Some req \<Rightarrow> w_bits ops (reservation_req_raw req) 4),
          w_bits ops 0 1]))"

section \<open>MAC-FRAG and MAC-END\<close>

record mac_frag_ul =
  fu_fill_bits :: bool

definition mac_frag_ul_from_bitbuf :: "'b bitbuf_ops \<Rightarrow> ('b, mac_frag_ul) parser" where
  "mac_frag_ul_from_bitbuf ops =
     p_bind (p_field ops 2 ''mac_pdu_type'') (\<lambda>mac_pdu_type.
     p_assert (mac_pdu_type = 1) (
     p_bind (p_field ops 1 ''pdu_subtype'') (\<lambda>pdu_subtype.
     p_assert (pdu_subtype = 0) (
     p_bind (p_flag ops ''fill_bits'') (\<lambda>fill_bits.
     p_ret \<lparr>fu_fill_bits = fill_bits\<rparr>)))))"

definition mac_frag_ul_to_bitbuf :: "'b bitbuf_ops \<Rightarrow> mac_frag_ul \<Rightarrow> 'b writer" where
  "mac_frag_ul_to_bitbuf ops p = stmts [w_bits ops 1 2, w_bits ops 0 1, w_flag ops (fu_fill_bits p)]"

record mac_end_ul =
  eu_fill_bits :: bool
  eu_length_ind :: "nat option"
  eu_reservation_req :: "reservation_req option"

text \<open>The second bound of the parser is the hexadecimal \<open>0x110000\<close>, as in the source.\<close>

definition mac_end_ul_from_bitbuf :: "'b bitbuf_ops \<Rightarrow> ('b, mac_end_ul) parser" where
  "mac_end_ul_from_bitbuf ops =
     p_bind (p_field ops 2 ''mac_pdu_type'') (\<lambda>mac_pdu_type.
     p_assert (mac_pdu_type = 1) (
     p_bind (p_field ops 1 ''pdu_subtype'') (\<lambda>pdu_subtype.
     p_assert (pdu_subtype = 1) (
     p_bind (p_flag ops ''fill_bits'') (\<lambda>fill_bits.
     p_bind (p_field ops 6 ''length_ind_cap_req'') (\<lambda>length_ind_cap_req.
     p_bind
       (if length_ind_cap_req = 0 then
          p_fail (bb_expect_failed ops length_ind_cap_req ''length_ind_cap_req reserved value'')
        else if length_ind_cap_req < 47 then p_ret (Some (as_u8 length_ind_cap_req), None)
        else if length_ind_cap_req < 0x110000 then
          p_fail (bb_expect_failed ops length_ind_cap_req ''length_ind_cap_req reserved value'')
        else
          (let val = length_ind_cap_req AND 15 in
           p_some (InvalidValue ''reservation_req'' val) (reservation_req_of_raw val) (\<lambda>res_req.
           p_ret (None, Some res_req)))) (\<lambda>(length_ind, reservation_req).
     p_ret \<lparr>eu_fill_bits = fill_bits, eu_length_ind = length_ind, eu_reservation_req = reservation_req\<rparr>)))))))"

definition mac_end_ul_to_bitbuf :: "'b bitbuf_ops \<Rightarrow> mac_end_ul \<Rightarrow> ('b, unit) parser" where
  "mac_end_ul_to_bitbuf ops p =
     p_bind (w_try (stmts [w_bits ops 1 2, w_bits ops 1 1, w_flag ops (eu_fill_bits p)])) (\<lambda>_.
     expect_value ops ((eu_length_ind p \<noteq> None) \<noteq> (eu_reservation_req p \<noteq> None))
       ''length_ind xor reservation_req must be present''
     (case eu_length_ind p of
        Some length_ind \<Rightarrow>
          expect_value ops (length_ind > 0) ''length_ind zero''
          (expect_value ops (length_ind < 46) ''length_ind over 0b101110''
          (w_try (w_bits ops length_ind 6)))
      | None \<Rightarrow> (case eu_reservation_req p of
          Some reservation_req \<Rightarrow> w_try (stmts [w_bits ops 3 2, w_bits ops (reservation_req_raw reservation_req) 4])
        | None \<Rightarrow> p_ret ())))"

record mac_end_hu =
  eh_fill_bits :: bool
  eh_length_ind :: "nat option"
  eh_reservation_req :: "reservation_req option"

definition mac_end_hu_from_bitbuf :: "'b bitbuf_ops \<Rightarrow> ('b, mac_end_hu) parser" where
  "mac_end_hu_from_bitbuf ops =
     p_bind (p_field ops 1 ''mac_pdu_type'') (\<lambda>mac_pdu_type.
     p_assert (mac_pdu_type = 1) (
     p_bind (p_flag ops ''fill_bits'') (\<lambda>fill_bits.
     p_bind (p_field ops 1 ''length_ind_or_cap_req'') (\<lambda>length_ind_or_cap_req.
     p_bind
       (if length_ind_or_cap_req = 0 then
          p_bind (p_field ops 4 ''length_ind'') (\<lambda>len. p_ret (Some (as_u8 len), None))
        else
          p_bind (p_field ops 4 ''reservation_req'') (\<lambda>val.
          p_some (InvalidValue ''reservation_req'' val) (reservation_req_of_raw val) (\<lambda>res_req.
          p_ret (None, Some res_req)))) (\<lambda>(length_ind, reservation_req).
     p_ret \<lparr>eh_fill_bits = fill_bits, eh_length_ind = length_ind, eh_reservation_req = reservation_req\<rparr>)))))"

definition mac_end_hu_to_bitbuf :: "'b bitbuf_ops \<Rightarrow> mac_end_hu \<Rightarrow> 'b writer" where
  "mac_end_hu_to_bitbuf ops p = stmts ([
     w_assert (eh_length_ind p \<noteq> None \<or> eh_reservation_req p \<noteq> None),
     w_assert (\<not> (eh_length_ind p \<noteq> None \<and> eh_reservation_req p \<noteq> None)),
     w_bits ops 1 1,
     w_flag ops (eh_fill_bits p)] @
     (case eh_length_ind p of
        Some v \<Rightarrow> [w_bits ops 0 1, w_bits ops v 4]
      | None \<Rightarrow> [w_bits ops 1 1,
          (case eh_reservation_req p of None \<Rightarrow> w_panic | Some req \<Rightarrow> w_bits ops (reservation_req_raw req) 4)]))"

section \<open>MAC-U-BLCK and MAC-U-SIGNAL\<close>

record mac_u_blck =
  ub_fill_bits :: bool
  ub_encrypted :: bool
  ub_event_label :: nat
  ub_reservation_req :: nat

definition mac_u_blck_from_bitbuf :: "'b bitbuf_ops \<Rightarrow> ('b, mac_u_blck) parser" where
  "mac_u_blck_from_bitbuf ops =
     p_bind (p_field ops 2 ''mac_pdu_type'') (\<lambda>mac_pdu_type.
     p_assert (mac_pdu_type = 3) (
     p_bind (p_field ops 1 ''supp_pdu_subtype'') (\<lambda>supp_pdu_subtype.
     p_assert (supp_pdu_subtype = 0) (
     p_bind (p_flag ops ''fill_bits'') (\<lambda>fill_bits.
     p_bind (p_flag ops ''encrypted'') (\<lambda>encrypted.
     p_bind (p_field ops 10 ''event_label'') (\<lambda>event_label.
     p_bind (p_field ops 4 ''reservation_req'') (\<lambda>reservation_req.
     p_ret \<lparr>ub_fill_bits = fill_bits, ub_encrypted = encrypted, ub_event_label = as_u16 event_label,
       ub_reservation_req = as_u8 reservation_req\<rparr>))))))))"

definition mac_u_blck_to_bitbuf :: "'b bitbuf_ops \<Rightarrow> mac_u_blck \<Rightarrow> 'b writer" where
  "mac_u_blck_to_bitbuf ops p = stmts [
     w_bits ops 3 2,
     w_bits ops 0 1,
     w_flag ops (ub_fill_bits p),
     w_flag ops (ub_encrypted p),
     w_bits ops (ub_event_label p) 10,
     w_bits ops (ub_reservation_req p) 4]"

record mac_u_signal =
  second_half_stolen :: bool

definition mac_u_signal_from_bitbuf :: "'b bitbuf_ops \<Rightarrow> ('b, mac_u_signal) parser" where
  "mac_u_signal_from_bitbuf ops =
     p_bind (p_field ops 2 ''mac_pdu_type'') (\<lambda>mac_pdu_type.
     p_assert (mac_pdu_type = 3) (
     p_bind (p_flag ops ''second_half_stolen'') (\<lambda>stolen.
     p_ret \<lparr>second_half_stolen = stolen\<rparr>)))"

definition mac_u_signal_to_bitbuf :: "'b bitbuf_ops \<Rightarrow> mac_u_signal \<Rightarrow> 'b writer" where
  "mac_u_signal_to_bitbuf ops p = stmts [w_bits ops 3 2, w_flag ops (second_half_stolen p)]"

section \<open>Wire formats\<close>

definition uplink_address_ok :: "tetra_address option \<Rightarrow> nat option \<Rightarrow> bool \<Rightarrow> bool" where
  "uplink_address_ok addr label encrypted \<longleftrightarrow> (case addr of
     Some a \<Rightarrow> unat (ssi a) < 2 ^ 24 \<and> ssi_type a \<in> {Ssi, Issi, Gssi, Esi, Ussi, Smi} \<and> (ssi_type a = Esi \<longleftrightarrow> encrypted) \<and> label = None
   | None \<Rightarrow> \<exists>l. label = Some l \<and> l < 1024)"

definition uplink_addr_type :: "tetra_address option \<Rightarrow> nat" where
  "uplink_addr_type addr = (case addr of
     Some a \<Rightarrow> if ssi_type a = Ussi then 2 else if ssi_type a = Smi then 3 else 0 | None \<Rightarrow> 1)"

definition uplink_address_bits :: "tetra_address option \<Rightarrow> nat option \<Rightarrow> bool list" where
  "uplink_address_bits addr label = (case addr of Some a \<Rightarrow> val_bits 24 (unat (ssi a)) | None \<Rightarrow> val_bits 10 (the label))"

definition canon_uplink_address :: "tetra_address \<Rightarrow> tetra_address" where
  "canon_uplink_address a = (if ssi_type a \<in> {Ssi, Gssi} then a\<lparr>ssi_type := Issi\<rparr> else a)"

definition mac_access_ok :: "mac_access \<Rightarrow> bool" where
  "mac_access_ok p \<longleftrightarrow> uplink_address_ok (ma_addr p) (ma_event_label p) (ma_encrypted p)
     \<and> (case ma_length_ind p of Some l \<Rightarrow> l < 32 \<and> ma_frag_flag p = None \<and> ma_reservation_req p = None
        | None \<Rightarrow> (ma_frag_flag p = None) = (ma_reservation_req p = None))"

definition mac_access_bits :: "mac_access \<Rightarrow> bool list" where
  "mac_access_bits p = val_bits 1 0 @ ma_fill_bits p # ma_encrypted p # val_bits 2 (uplink_addr_type (ma_addr p))
     @ uplink_address_bits (ma_addr p) (ma_event_label p)
     @ (case ma_length_ind p of Some l \<Rightarrow> val_bits 1 1 @ val_bits 1 0 @ val_bits 5 l
        | None \<Rightarrow> (case ma_frag_flag p of None \<Rightarrow> val_bits 1 0
            | Some f \<Rightarrow> val_bits 1 1 @ val_bits 1 1 @ f # val_bits 4 (reservation_req_raw (the (ma_reservation_req p)))))"

definition canon_access :: "mac_access \<Rightarrow> mac_access" where
  "canon_access p = p\<lparr>ma_addr := map_option canon_uplink_address (ma_addr p)\<rparr>"

text \<open>MAC-DATA: its writer has no arm for an encrypted short identity.\<close>

definition mac_data_readable :: "mac_data \<Rightarrow> bool" where
  "mac_data_readable p \<longleftrightarrow> uplink_address_ok (da_addr p) (da_event_label p) (da_encrypted p)
     \<and> (case da_length_ind p of Some l \<Rightarrow> l < 64 \<and> da_frag_flag p = None \<and> da_reservation_req p = None
        | None \<Rightarrow> da_frag_flag p \<noteq> None \<and> da_reservation_req p \<noteq> None)"

definition mac_data_ok :: "mac_data \<Rightarrow> bool" where
  "mac_data_ok p \<longleftrightarrow> mac_data_readable p \<and> (da_addr p \<noteq> None \<longrightarrow> \<not> da_encrypted p)"

definition mac_data_bits :: "mac_data \<Rightarrow> bool list" where
  "mac_data_bits p = val_bits 2 0 @ da_fill_bits p # da_encrypted p # val_bits 2 (uplink_addr_type (da_addr p))
     @ uplink_address_bits (da_addr p) (da_event_label p)
     @ (case da_length_ind p of Some l \<Rightarrow> val_bits 1 0 @ val_bits 6 l
        | None \<Rightarrow> val_bits 1 1 @ the (da_frag_flag p) # val_bits 4 (reservation_req_raw (the (da_reservation_req p))) @ val_bits 1 0)"

definition canon_data :: "mac_data \<Rightarrow> mac_data" where
  "canon_data p = p\<lparr>da_addr := map_option canon_uplink_address (da_addr p)\<rparr>"

definition mac_frag_ul_bits :: "mac_frag_ul \<Rightarrow> bool list" where
  "mac_frag_ul_bits p = val_bits 2 1 @ val_bits 1 0 @ [fu_fill_bits p]"

definition mac_end_ul_ok :: "mac_end_ul \<Rightarrow> bool" where
  "mac_end_ul_ok p \<longleftrightarrow> (case eu_length_ind p of Some l \<Rightarrow> 0 < l \<and> l < 46 \<and> eu_reservation_req p = None
     | None \<Rightarrow> eu_reservation_req p \<noteq> None)"

definition mac_end_ul_bits :: "mac_end_ul \<Rightarrow> bool list" where
  "mac_end_ul_bits p = val_bits 2 1 @ val_bits 1 1 @ eu_fill_bits p # (case eu_length_ind p of
     Some l \<Rightarrow> val_bits 6 l
   | None \<Rightarrow> val_bits 6 (48 + reservation_req_raw (the (eu_reservation_req p))))"

definition mac_end_hu_ok :: "mac_end_hu \<Rightarrow> bool" where
  "mac_end_hu_ok p \<longleftrightarrow> (case eh_length_ind p of Some l \<Rightarrow> l < 16 \<and> eh_reservation_req p = None
     | None \<Rightarrow> eh_reservation_req p \<noteq> None)"

definition mac_end_hu_bits :: "mac_end_hu \<Rightarrow> bool list" where
  "mac_end_hu_bits p = val_bits 1 1 @ eh_fill_bits p # (case eh_length_ind p of
     Some l \<Rightarrow> val_bits 1 0 @ val_bits 4 l
   | None \<Rightarrow> val_bits 1 1 @ val_bits 4 (reservation_req_raw (the (eh_reservation_req p))))"

definition mac_u_blck_ok :: "mac_u_blck \<Rightarrow> bool" where
  "mac_u_blck_ok p \<longleftrightarrow> ub_event_label p < 1024 \<and> ub_reservation_req p < 16"

definition mac_u_blck_bits :: "mac_u_blck \<Rightarrow> bool list" where
  "mac_u_blck_bits p = val_bits 2 3 @ val_bits 1 0 @ ub_fill_bits p # ub_encrypted p # val_bits 10 (ub_event_label p)
     @ val_bits 4 (ub_reservation_req p)"

definition mac_u_signal_bits :: "mac_u_signal \<Rightarrow> bool list" where
  "mac_u_signal_bits p = val_bits 2 3 @ [second_half_stolen p]"

context bit_buffer
begin

lemma parses_skip: "n \<le> 64 \<Longrightarrow> parses (p_skip ops n) (val_bits n w) ()"
  unfolding parses_def p_skip_def
proof (intro allI impI)
  fix b t
  assume n: "n \<le> 64" and b: "view_wf (view b) \<and> remaining (view b) = val_bits n w @ t"
  from read_bits [OF conjunct1 [OF b] n] remaining_prefix(1) [OF conjunct1 [OF b] conjunct2 [OF b]]
  show "\<exists>b'. Some (Inr (), snd (bb_read_bits ops b n)) = Some (Inr (), b') \<and> view b' = advance (view b) (length (val_bits n w))"
    by auto
qed

lemma parses_bind_skip: "parses (k ()) t y \<Longrightarrow> parses (p_bind (p_skip ops (Suc 0)) k) (x # t) y"
  using parses_bind [OF parses_skip [of "Suc 0" "of_bool x"]] by (auto simp: val_bits_1)

lemma parses_uplink_address:
  assumes "uplink_address_ok addr label enc"
  shows "parses (uplink_address ops enc (as_u8 (uplink_addr_type addr)) f g) (uplink_address_bits addr label)
    (map_option canon_uplink_address addr, label)"
  using assms
  by (cases addr) (auto simp: uplink_address_ok_def uplink_address_bits_def uplink_address_def canon_uplink_address_def
      uplink_addr_type_def intro!: parse_intros)

lemma uplink_addr_type_less: "uplink_addr_type addr < 4"
  by (simp add: uplink_addr_type_def split: option.splits)

lemma emits_mac_access_address:
  assumes "uplink_address_ok (ma_addr p) (ma_event_label p) (ma_encrypted p)"
  shows "emits (mac_access_write_address ops p) (val_bits 2 (uplink_addr_type (ma_addr p)) @ uplink_address_bits (ma_addr p) (ma_event_label p))"
  using assms
  by (cases "ma_addr p") (auto simp: mac_access_write_address_def uplink_address_ok_def uplink_address_bits_def
      uplink_addr_type_def intro!: emit_intros)

lemma emits_mac_access:
  assumes "mac_access_ok p"
  shows "emits (mac_access_to_bitbuf ops p) (mac_access_bits p)"
proof -
  from assms have "uplink_address_ok (ma_addr p) (ma_event_label p) (ma_encrypted p)" by (simp add: mac_access_ok_def)
  note addr = emits_mac_access_address [OF this]
  let ?tail = "case ma_length_ind p of Some l \<Rightarrow> val_bits 1 1 @ val_bits 1 0 @ val_bits 5 l
    | None \<Rightarrow> (case ma_frag_flag p of None \<Rightarrow> val_bits 1 0
        | Some f \<Rightarrow> val_bits 1 1 @ val_bits 1 1 @ f # val_bits 4 (reservation_req_raw (the (ma_reservation_req p))))"
  have "emits (mac_access_to_bitbuf ops p) (val_bits 1 0 @ ma_fill_bits p # ma_encrypted p #
      (val_bits 2 (uplink_addr_type (ma_addr p)) @ uplink_address_bits (ma_addr p) (ma_event_label p)) @ ?tail)"
    using assms reservation_req.raw_fits
    by (auto simp: mac_access_to_bitbuf_def mac_access_ok_def simp del: append_assoc intro!: emit_intros addr split: option.splits)
  then show ?thesis by (simp add: mac_access_bits_def)
qed

lemma parses_mac_access:
  assumes "mac_access_ok p"
  shows "parses (mac_access_from_bitbuf ops) (mac_access_bits p) (canon_access p)"
proof -
  from assms have "uplink_address_ok (ma_addr p) (ma_event_label p) (ma_encrypted p)" by (simp add: mac_access_ok_def)
  note addr = parses_uplink_address [OF this]
  show ?thesis using assms reservation_req.raw_fits uplink_addr_type_less
    by (auto simp: mac_access_from_bitbuf_def mac_access_bits_def mac_access_ok_def canon_access_def
        intro!: parse_intros parses_bind [OF addr] split: option.splits)
qed

lemma emits_mac_data_address:
  assumes "uplink_address_ok (da_addr p) (da_event_label p) (da_encrypted p)" and "da_addr p \<noteq> None \<longrightarrow> \<not> da_encrypted p"
  shows "emits (mac_data_write_address ops p) (val_bits 2 (uplink_addr_type (da_addr p)) @ uplink_address_bits (da_addr p) (da_event_label p))"
  using assms
  by (cases "da_addr p") (auto simp: mac_data_write_address_def uplink_address_ok_def uplink_address_bits_def
      uplink_addr_type_def intro!: emit_intros)

lemma emits_mac_data:
  assumes "mac_data_ok p"
  shows "emits (mac_data_to_bitbuf ops p) (mac_data_bits p)"
proof -
  from assms have ok: "uplink_address_ok (da_addr p) (da_event_label p) (da_encrypted p)" "da_addr p \<noteq> None \<longrightarrow> \<not> da_encrypted p"
    by (simp_all add: mac_data_ok_def mac_data_readable_def)
  note addr = emits_mac_data_address [OF ok]
  from ok(1) have one: "(\<exists>a. da_addr p = Some a) = (da_event_label p = None)"
    by (auto simp: uplink_address_ok_def split: option.splits)
  let ?tail = "case da_length_ind p of Some l \<Rightarrow> val_bits 1 0 @ val_bits 6 l
        | None \<Rightarrow> val_bits 1 1 @ the (da_frag_flag p) # val_bits 4 (reservation_req_raw (the (da_reservation_req p))) @ val_bits 1 0"
  have "emits (mac_data_to_bitbuf ops p) (val_bits 2 0 @ da_fill_bits p # da_encrypted p #
      (val_bits 2 (uplink_addr_type (da_addr p)) @ uplink_address_bits (da_addr p) (da_event_label p)) @ ?tail)"
    using assms reservation_req.raw_fits one
    by (auto simp: mac_data_to_bitbuf_def mac_data_ok_def mac_data_readable_def simp del: append_assoc intro!: emit_intros addr split: option.splits)
  then show ?thesis by (simp add: mac_data_bits_def)
qed

lemma parses_mac_data:
  assumes "mac_data_readable p"
  shows "parses (mac_data_from_bitbuf ops) (mac_data_bits p) (canon_data p)"
proof -
  from assms have "uplink_address_ok (da_addr p) (da_event_label p) (da_encrypted p)"
    and tail: "case da_length_ind p of Some l \<Rightarrow> l < 64 \<and> da_frag_flag p = None \<and> da_reservation_req p = None
        | None \<Rightarrow> da_frag_flag p \<noteq> None \<and> da_reservation_req p \<noteq> None" by (simp_all add: mac_data_readable_def)
  note addr = parses_uplink_address [OF this(1)]
  show ?thesis using tail reservation_req.raw_fits uplink_addr_type_less
    by (auto simp: mac_data_from_bitbuf_def mac_data_bits_def canon_data_def
        intro!: parse_intros parses_bind [OF addr] parses_bind_skip split: option.splits)
qed

lemma emits_mac_frag_ul: "emits (mac_frag_ul_to_bitbuf ops p) (mac_frag_ul_bits p)"
  by (auto simp: mac_frag_ul_to_bitbuf_def mac_frag_ul_bits_def intro!: emit_intros)

lemma parses_mac_frag_ul: "parses (mac_frag_ul_from_bitbuf ops) (mac_frag_ul_bits p) p"
  by (auto simp: mac_frag_ul_from_bitbuf_def mac_frag_ul_bits_def intro!: parse_intros)

lemma reservation_code: "val_bits 2 3 @ val_bits 4 (reservation_req_raw r) = val_bits 6 (48 + reservation_req_raw r)"
proof -
  have r: "reservation_req_raw r < 16" using reservation_req.raw_fits [of r] by simp
  then have "(48 + reservation_req_raw r) div 16 = 3" "(48 + reservation_req_raw r) mod 2 ^ 4 = reservation_req_raw r"
    by (simp_all add: div_add1_eq mod_add_eq [of 48 16, symmetric])
  with val_bits_add [of 2 4 "48 + reservation_req_raw r"] val_bits_mod [of 4 "48 + reservation_req_raw r"]
  show ?thesis by simp
qed

lemma puts_mac_end_ul:
  assumes "mac_end_ul_ok p"
  shows "puts (mac_end_ul_to_bitbuf ops p) (mac_end_ul_bits p) ()"
proof -
  have hd: "puts (w_try (stmts [w_bits ops 1 2, w_bits ops 1 1, w_flag ops (eu_fill_bits p)]))
      (val_bits 2 1 @ val_bits 1 1 @ [eu_fill_bits p]) ()"
    by (auto intro!: puts_try emit_intros)
  show ?thesis
  proof (cases "eu_length_ind p")
    case (Some l)
    then have "puts (w_try (w_bits ops l 6)) (val_bits 6 l) ()"
      using assms by (auto simp: mac_end_ul_ok_def intro!: puts_try emits_bits)
    from puts_bind [OF hd this] Some assms show ?thesis
      by (simp add: mac_end_ul_to_bitbuf_def mac_end_ul_bits_def mac_end_ul_ok_def)
  next
    case None
    with assms obtain r where r: "eu_reservation_req p = Some r" by (auto simp: mac_end_ul_ok_def)
    have "puts (w_try (stmts [w_bits ops 3 2, w_bits ops (reservation_req_raw r) 4])) (val_bits 2 3 @ val_bits 4 (reservation_req_raw r)) ()"
      using reservation_req.raw_fits [of r] by (auto intro!: puts_try emit_intros)
    from puts_bind [OF hd this] None r show ?thesis
      by (simp add: mac_end_ul_to_bitbuf_def mac_end_ul_bits_def reservation_code)
  qed
qed

lemma parses_mac_end_ul_length:
  "\<lbrakk>mac_end_ul_ok p; eu_length_ind p \<noteq> None\<rbrakk> \<Longrightarrow> parses (mac_end_ul_from_bitbuf ops) (mac_end_ul_bits p) p"
  by (auto simp: mac_end_ul_from_bitbuf_def mac_end_ul_bits_def mac_end_ul_ok_def intro!: parse_intros)

lemma fails_mac_end_ul_reservation:
  assumes "mac_end_ul_ok p" and "eu_length_ind p = None"
  shows "fails (mac_end_ul_from_bitbuf ops) (mac_end_ul_bits p)"
proof -
  obtain r where r: "eu_reservation_req p = Some r" using assms by (auto simp: mac_end_ul_ok_def)
  have v: "48 + reservation_req_raw r < 2 ^ 6" using reservation_req.raw_fits [of r] by simp
  have "fails (mac_end_ul_from_bitbuf ops) (val_bits 2 1 @ val_bits 1 1 @ eu_fill_bits p # val_bits 6 (48 + reservation_req_raw r))"
    unfolding mac_end_ul_from_bitbuf_def using v by (auto intro!: fail_intros)
  then show ?thesis using assms(2) r by (simp add: mac_end_ul_bits_def)
qed

lemma emits_mac_end_hu: "mac_end_hu_ok p \<Longrightarrow> emits (mac_end_hu_to_bitbuf ops p) (mac_end_hu_bits p)"
  using reservation_req.raw_fits
  by (auto simp: mac_end_hu_to_bitbuf_def mac_end_hu_bits_def mac_end_hu_ok_def intro!: emit_intros split: option.splits)

lemma parses_mac_end_hu: "mac_end_hu_ok p \<Longrightarrow> parses (mac_end_hu_from_bitbuf ops) (mac_end_hu_bits p) p"
  using reservation_req.raw_fits
  by (auto simp: mac_end_hu_from_bitbuf_def mac_end_hu_bits_def mac_end_hu_ok_def intro!: parse_intros split: option.splits)

lemma emits_mac_u_blck: "mac_u_blck_ok p \<Longrightarrow> emits (mac_u_blck_to_bitbuf ops p) (mac_u_blck_bits p)"
  by (auto simp: mac_u_blck_to_bitbuf_def mac_u_blck_bits_def mac_u_blck_ok_def intro!: emit_intros)

lemma parses_mac_u_blck: "mac_u_blck_ok p \<Longrightarrow> parses (mac_u_blck_from_bitbuf ops) (mac_u_blck_bits p) p"
  by (auto simp: mac_u_blck_from_bitbuf_def mac_u_blck_bits_def mac_u_blck_ok_def intro!: parse_intros)

lemma emits_mac_u_signal: "emits (mac_u_signal_to_bitbuf ops p) (mac_u_signal_bits p)"
  by (auto simp: mac_u_signal_to_bitbuf_def mac_u_signal_bits_def intro!: emit_intros)

lemma parses_mac_u_signal: "parses (mac_u_signal_from_bitbuf ops) (mac_u_signal_bits p) p"
  by (auto simp: mac_u_signal_from_bitbuf_def mac_u_signal_bits_def intro!: parse_intros)

lemma mac_access_wire:
  "wire_format ops view (mac_access_from_bitbuf ops) (mac_access_to_bitbuf ops) mac_access_bits canon_access mac_access_ok"
  by unfold_locales (rule emits_mac_access parses_mac_access; assumption?)+

lemma mac_data_wire:
  "wire_format ops view (mac_data_from_bitbuf ops) (mac_data_to_bitbuf ops) mac_data_bits canon_data mac_data_ok"
  by unfold_locales (simp_all add: emits_mac_data parses_mac_data mac_data_ok_def)

lemma mac_frag_ul_wire:
  "wire_format ops view (mac_frag_ul_from_bitbuf ops) (mac_frag_ul_to_bitbuf ops) mac_frag_ul_bits (\<lambda>p. p) (\<lambda>p. True)"
  by unfold_locales (rule emits_mac_frag_ul parses_mac_frag_ul; assumption?)+

lemma mac_end_hu_wire:
  "wire_format ops view (mac_end_hu_from_bitbuf ops) (mac_end_hu_to_bitbuf ops) mac_end_hu_bits (\<lambda>p. p) mac_end_hu_ok"
  by unfold_locales (rule emits_mac_end_hu parses_mac_end_hu; assumption?)+

lemma mac_u_blck_wire:
  "wire_format ops view (mac_u_blck_from_bitbuf ops) (mac_u_blck_to_bitbuf ops) mac_u_blck_bits (\<lambda>p. p) mac_u_blck_ok"
  by unfold_locales (rule emits_mac_u_blck parses_mac_u_blck; assumption?)+

lemma mac_u_signal_wire:
  "wire_format ops view (mac_u_signal_from_bitbuf ops) (mac_u_signal_to_bitbuf ops) mac_u_signal_bits (\<lambda>p. p) (\<lambda>p. True)"
  by unfold_locales (rule emits_mac_u_signal parses_mac_u_signal; assumption?)+

end

interpretation mac_access: wire_format view_ops "\<lambda>v. v" "mac_access_from_bitbuf view_ops" "mac_access_to_bitbuf view_ops"
    mac_access_bits canon_access mac_access_ok
  by (rule view_machine.mac_access_wire)

interpretation mac_data: wire_format view_ops "\<lambda>v. v" "mac_data_from_bitbuf view_ops" "mac_data_to_bitbuf view_ops"
    mac_data_bits canon_data mac_data_ok
  by (rule view_machine.mac_data_wire)

interpretation mac_frag_ul: wire_format view_ops "\<lambda>v. v" "mac_frag_ul_from_bitbuf view_ops" "mac_frag_ul_to_bitbuf view_ops"
    mac_frag_ul_bits "\<lambda>p. p" "\<lambda>p. True"
  by (rule view_machine.mac_frag_ul_wire)

interpretation mac_end_hu: wire_format view_ops "\<lambda>v. v" "mac_end_hu_from_bitbuf view_ops" "mac_end_hu_to_bitbuf view_ops"
    mac_end_hu_bits "\<lambda>p. p" mac_end_hu_ok
  by (rule view_machine.mac_end_hu_wire)

interpretation mac_u_blck: wire_format view_ops "\<lambda>v. v" "mac_u_blck_from_bitbuf view_ops" "mac_u_blck_to_bitbuf view_ops"
    mac_u_blck_bits "\<lambda>p. p" mac_u_blck_ok
  by (rule view_machine.mac_u_blck_wire)

interpretation mac_u_signal: wire_format view_ops "\<lambda>v. v" "mac_u_signal_from_bitbuf view_ops" "mac_u_signal_to_bitbuf view_ops"
    mac_u_signal_bits "\<lambda>p. p" "\<lambda>p. True"
  by (rule view_machine.mac_u_signal_wire)

section \<open>Panic freedom\<close>

text \<open>Each parser panics at most on bits that do not start with its own PDU type.\<close>

context bit_buffer
begin

lemma reservation_total: "reservation_req_of_raw v = None \<Longrightarrow> 16 \<le> v"
proof -
  have "\<forall>v<16. reservation_req_of_raw v \<noteq> None" by (simp add: All_less_Suc eval_nat_numeral reservation_req_of_raw_def)
  then show "reservation_req_of_raw v = None \<Longrightarrow> 16 \<le> v" using not_less by blast
qed

lemma spec_uplink_address: "v < 4 \<Longrightarrow> spec (\<lambda>r. False) (uplink_address ops enc v f g) (\<lambda>s x. True)"
  by (auto simp: uplink_address_def Let_def intro!: spec_intros)

lemma safe_skip: "safe N (p_bind (p_skip ops n) (\<lambda>x. p_ret y))"
  by (auto simp: safe_def p_bind_def p_skip_def p_ret_def)

lemma safe_mac_access: "safe (\<lambda>r. \<not> prefix [False] r) (mac_access_from_bitbuf ops)"
  unfolding mac_access_from_bitbuf_def
  by (auto simp: p_bind_checks dest!: reservation_total intro!: safe_intros safe_bind [OF spec_uplink_address])

lemma safe_mac_data: "safe (\<lambda>r. \<not> prefix (val_bits 2 0) r) (mac_data_from_bitbuf ops)"
  unfolding mac_data_from_bitbuf_def
  by (auto simp: p_bind_checks prefix_val_bits [where u = "[]", simplified]
      dest!: reservation_total intro!: safe_intros safe_bind [OF spec_uplink_address] safe_skip)

lemma safe_mac_frag_ul: "safe (\<lambda>r. \<not> prefix (val_bits 2 1 @ val_bits 1 0) r) (mac_frag_ul_from_bitbuf ops)"
  unfolding mac_frag_ul_from_bitbuf_def
  by (intro safe_bind_field safe_assert safe_bind_flag safe_ret) (simp_all add: type_prefix del: val_bits_const)

lemma safe_mac_u_blck: "safe (\<lambda>r. \<not> prefix (val_bits 2 3 @ val_bits 1 0) r) (mac_u_blck_from_bitbuf ops)"
  unfolding mac_u_blck_from_bitbuf_def
  by (intro safe_bind_field safe_assert safe_bind_flag safe_ret) (simp_all add: type_prefix del: val_bits_const)

lemma safe_mac_u_signal: "safe (\<lambda>r. \<not> prefix (val_bits 2 3) r) (mac_u_signal_from_bitbuf ops)"
  unfolding mac_u_signal_from_bitbuf_def
  by (intro safe_bind_field safe_assert safe_bind_flag safe_ret) (simp_all add: type_prefix del: val_bits_const)

lemma safe_mac_end_ul: "safe (\<lambda>r. \<not> prefix (val_bits 2 1 @ val_bits 1 1) r) (mac_end_ul_from_bitbuf ops)"
  unfolding mac_end_ul_from_bitbuf_def
  by (intro safe_bind_field safe_assert safe_bind_flag safe_ret)
    (auto simp add: type_prefix p_bind_checks Let_def simp del: val_bits_const intro!: safe_some safe_ret safe_fail)

lemma safe_mac_end_hu: "safe (\<lambda>r. \<not> prefix (val_bits 1 1) r) (mac_end_hu_from_bitbuf ops)"
  unfolding mac_end_hu_from_bitbuf_def
  by (intro safe_bind_field safe_assert safe_bind_flag safe_ret)
    (auto simp add: type_prefix p_bind_checks simp del: val_bits_const intro!: safe_intros)
end

end
