(* ===== verification/Mac_Broadcast.thy ===== *)
theory Mac_Broadcast
  imports Mac_Fields Tdma_Time
begin

text \<open>
  The broadcast MAC PDUs of \<^verbatim>\<open>crates/tetra-pdus/src/umac\<close>: SYNC (\<^verbatim>\<open>pdus/mac_sync.rs\<close>), SYSINFO
  (\<^verbatim>\<open>pdus/mac_sysinfo.rs\<close>) with its optional elements (\<^verbatim>\<open>fields/ts_common_frames.rs\<close>,
  \<^verbatim>\<open>fields/sysinfo_default_def_for_access_code_a.rs\<close>, \<^verbatim>\<open>fields/sysinfo_ext_services.rs\<close>),
  ACCESS-DEFINE (\<^verbatim>\<open>pdus/access_define.rs\<close>) and the two ACCESS-ASSIGN PDUs
  (\<^verbatim>\<open>pdus/access_assign.rs\<close>, \<^verbatim>\<open>pdus/access_assign_fr18.rs\<close>, \<^verbatim>\<open>structs/access_field.rs\<close>,
  \<^verbatim>\<open>enums/access_assign_dl_usage.rs\<close>, \<^verbatim>\<open>enums/access_assign_ul_usage.rs\<close>). \<open>assert_warn!\<close> only logs.
\<close>

section \<open>SYNC\<close>

record mac_sync =
  system_code :: nat
  colour_code :: nat
  sync_time :: tdma_time
  sharing_mode :: nat
  ts_reserved_frames :: nat
  u_plane_dtx :: bool
  frame_18_ext :: bool

definition mac_sync_from_bitbuf :: "'b bitbuf_ops \<Rightarrow> ('b, mac_sync) parser" where
  "mac_sync_from_bitbuf ops =
     p_bind (p_field ops 4 ''system_code'') (\<lambda>system_code.
     p_bind (p_field ops 6 ''colour_code'') (\<lambda>colour_code.
     p_bind (p_field ops 2 ''timeslot_number'') (\<lambda>t.
     p_bind (p_field ops 5 ''frame_number'') (\<lambda>f.
     p_bind (p_field ops 6 ''multiframe_number'') (\<lambda>m.
     p_bind (p_field ops 2 ''sharing_mode'') (\<lambda>sharing_mode.
     p_bind (p_field ops 3 ''ts_reserved_frames'') (\<lambda>ts_reserved_frames.
     p_bind (p_flag ops ''u_plane_dtx'') (\<lambda>u_plane_dtx.
     p_bind (p_flag ops ''frame_18_ext'') (\<lambda>frame_18_ext.
     p_bind (p_field ops 1 ''reserved'') (\<lambda>reserved.
     p_ret \<lparr>system_code = as_u8 system_code, colour_code = as_u8 colour_code,
       sync_time = mk_time 0 (as_u8 m) (as_u8 f) (u8_add (as_u8 t) 1),
       sharing_mode = as_u8 sharing_mode, ts_reserved_frames = as_u8 ts_reserved_frames,
       u_plane_dtx = u_plane_dtx, frame_18_ext = frame_18_ext\<rparr>))))))))))"

text \<open>The timeslot is written as \<open>t as u64 - 1\<close>, which wraps at timeslot 0.\<close>

definition mac_sync_to_bitbuf :: "'b bitbuf_ops \<Rightarrow> mac_sync \<Rightarrow> 'b writer" where
  "mac_sync_to_bitbuf ops p = stmts [
     w_bits ops (system_code p) 4,
     w_bits ops (colour_code p) 6,
     w_bits ops ((time_t (sync_time p) + (2 ^ 64 - 1)) mod 2 ^ 64) 2,
     w_bits ops (time_f (sync_time p)) 5,
     w_bits ops (time_m (sync_time p)) 6,
     w_bits ops (sharing_mode p) 2,
     w_bits ops (ts_reserved_frames p) 3,
     w_flag ops (u_plane_dtx p),
     w_flag ops (frame_18_ext p),
     w_bits ops 0 1]"

section \<open>The optional elements of SYSINFO\<close>

record ts_common_frames =
  cf_f1 :: bool
  cf_f2 :: bool
  cf_f3 :: bool
  cf_f4 :: bool
  cf_f5 :: bool
  cf_f6 :: bool
  cf_f7 :: bool
  cf_f8 :: bool
  cf_f9 :: bool
  cf_f10 :: bool
  cf_f11 :: bool
  cf_f12 :: bool
  cf_f13 :: bool
  cf_f14 :: bool
  cf_f15 :: bool
  cf_f16 :: bool
  cf_f17 :: bool
  cf_f18 :: bool

definition ts_common_frames_from_bitbuf :: "'b bitbuf_ops \<Rightarrow> ('b, ts_common_frames) parser" where
  "ts_common_frames_from_bitbuf ops =
     p_bind (p_flag ops ''f1'') (\<lambda>f1.
     p_bind (p_flag ops ''f2'') (\<lambda>f2.
     p_bind (p_flag ops ''f3'') (\<lambda>f3.
     p_bind (p_flag ops ''f4'') (\<lambda>f4.
     p_bind (p_flag ops ''f5'') (\<lambda>f5.
     p_bind (p_flag ops ''f6'') (\<lambda>f6.
     p_bind (p_flag ops ''f7'') (\<lambda>f7.
     p_bind (p_flag ops ''f8'') (\<lambda>f8.
     p_bind (p_flag ops ''f9'') (\<lambda>f9.
     p_bind (p_flag ops ''f10'') (\<lambda>f10.
     p_bind (p_flag ops ''f11'') (\<lambda>f11.
     p_bind (p_flag ops ''f12'') (\<lambda>f12.
     p_bind (p_flag ops ''f13'') (\<lambda>f13.
     p_bind (p_flag ops ''f14'') (\<lambda>f14.
     p_bind (p_flag ops ''f15'') (\<lambda>f15.
     p_bind (p_flag ops ''f16'') (\<lambda>f16.
     p_bind (p_flag ops ''f17'') (\<lambda>f17.
     p_bind (p_flag ops ''f18'') (\<lambda>f18.
     p_bind (p_field ops 2 ''reserved'') (\<lambda>reserved.
     p_ret \<lparr>cf_f1 = f1, cf_f2 = f2, cf_f3 = f3, cf_f4 = f4, cf_f5 = f5, cf_f6 = f6, cf_f7 = f7, cf_f8 = f8,
       cf_f9 = f9, cf_f10 = f10, cf_f11 = f11, cf_f12 = f12, cf_f13 = f13, cf_f14 = f14, cf_f15 = f15,
       cf_f16 = f16, cf_f17 = f17, cf_f18 = f18\<rparr>)))))))))))))))))))"

definition ts_common_frames_to_bitbuf :: "'b bitbuf_ops \<Rightarrow> ts_common_frames \<Rightarrow> 'b writer" where
  "ts_common_frames_to_bitbuf ops p = stmts [
     w_flag ops (cf_f1 p),
     w_flag ops (cf_f2 p),
     w_flag ops (cf_f3 p),
     w_flag ops (cf_f4 p),
     w_flag ops (cf_f5 p),
     w_flag ops (cf_f6 p),
     w_flag ops (cf_f7 p),
     w_flag ops (cf_f8 p),
     w_flag ops (cf_f9 p),
     w_flag ops (cf_f10 p),
     w_flag ops (cf_f11 p),
     w_flag ops (cf_f12 p),
     w_flag ops (cf_f13 p),
     w_flag ops (cf_f14 p),
     w_flag ops (cf_f15 p),
     w_flag ops (cf_f16 p),
     w_flag ops (cf_f17 p),
     w_flag ops (cf_f18 p),
     w_bits ops 0 2]"

record access_code_a_def =
  aca_imm :: nat
  aca_wt :: nat
  aca_nu :: nat
  aca_fl_factor :: bool
  aca_ts_ptr :: nat
  aca_min_pdu_prio :: nat

definition access_code_a_from_bitbuf :: "'b bitbuf_ops \<Rightarrow> ('b, access_code_a_def) parser" where
  "access_code_a_from_bitbuf ops =
     p_bind (p_field ops 4 ''imm'') (\<lambda>imm.
     p_bind (p_field ops 4 ''wt'') (\<lambda>wt.
     p_bind (p_field ops 4 ''nu'') (\<lambda>nu.
     p_bind (p_flag ops ''fl_factor'') (\<lambda>fl_factor.
     p_bind (p_field ops 4 ''ts_ptr'') (\<lambda>ts_ptr.
     p_bind (p_field ops 3 ''min_pdu_prio'') (\<lambda>min_pdu_prio.
     p_ret \<lparr>aca_imm = as_u8 imm, aca_wt = as_u8 wt, aca_nu = as_u8 nu, aca_fl_factor = fl_factor,
       aca_ts_ptr = as_u8 ts_ptr, aca_min_pdu_prio = as_u8 min_pdu_prio\<rparr>))))))"

definition access_code_a_to_bitbuf :: "'b bitbuf_ops \<Rightarrow> access_code_a_def \<Rightarrow> 'b writer" where
  "access_code_a_to_bitbuf ops p = stmts [
     w_bits ops (aca_imm p) 4,
     w_bits ops (aca_wt p) 4,
     w_bits ops (aca_nu p) 4,
     w_flag ops (aca_fl_factor p),
     w_bits ops (aca_ts_ptr p) 4,
     w_bits ops (aca_min_pdu_prio p) 3]"

record ext_services =
  auth_required :: bool
  class1_supported :: bool
  class2_supported :: bool
  class3_supported :: bool
  es_sck_n :: "nat option"
  dck_select :: "bool option"
  dck_reselect :: "bool option"
  linked_gck :: "bool option"
  short_gck_vn :: "nat option"
  sdstl_addressing_method :: nat
  gck_supported :: bool
  es_section :: nat
  section_data :: nat

definition ext_services_from_bitbuf :: "'b bitbuf_ops \<Rightarrow> bool \<Rightarrow> ('b, ext_services) parser" where
  "ext_services_from_bitbuf ops aie_enabled =
     p_bind (p_flag ops ''auth_required'') (\<lambda>auth_required.
     p_bind
       (if aie_enabled then
          p_bind (p_field ops 1 ''class1_supported'') (\<lambda>c1.
          p_bind (p_field ops 1 ''class2_supported'') (\<lambda>c2.
          p_ret (c1 = 1, c2 = 0, \<not> c2 = 0)))
        else
          p_bind (p_field ops 2 ''security_classes_reserved'') (\<lambda>reserved. p_ret (False, False, False)))
       (\<lambda>(class1_supported, class2_supported, class3_supported).
     p_bind
       (if class2_supported then
          p_bind (p_field ops 5 ''sck_n'') (\<lambda>sck. p_ret (Some (as_u8 sck), None, None, None, None))
        else if class3_supported then
          p_bind (p_flag ops ''dck_retrieval_during_cell_select'') (\<lambda>dck_select.
          p_bind (p_flag ops ''dck_retrieval_during_cell_reselect'') (\<lambda>dck_reselect.
          p_bind (p_flag ops ''linked_gck_crypto_periods'') (\<lambda>linked_gck.
          p_bind (p_field ops 2 ''short_gck_vn'') (\<lambda>short_gck.
          p_ret (None, Some dck_select, Some dck_reselect, Some linked_gck, Some (as_u8 short_gck))))))
        else
          p_bind (p_field ops 5 ''security_info_reserved'') (\<lambda>reserved. p_ret (None, None, None, None, None)))
       (\<lambda>(sck_n, dck_select, dck_reselect, linked_gck, short_gck_vn).
     p_bind (p_field ops 2 ''sdstl_addressing_method'') (\<lambda>sdstl.
     p_bind (p_flag ops ''gck_supported'') (\<lambda>gck_supported.
     p_bind (p_field ops 2 ''section'') (\<lambda>sec.
     p_bind (p_field ops 7 ''section_data'') (\<lambda>section_data.
     p_ret \<lparr>auth_required = auth_required, class1_supported = class1_supported, class2_supported = class2_supported,
       class3_supported = class3_supported, es_sck_n = sck_n, dck_select = dck_select, dck_reselect = dck_reselect,
       linked_gck = linked_gck, short_gck_vn = short_gck_vn, sdstl_addressing_method = as_u8 sdstl,
       gck_supported = gck_supported, es_section = as_u8 sec, section_data = as_u8 section_data\<rparr>)))))))"

definition w_unwrap :: "('a \<Rightarrow> 'b writer) \<Rightarrow> 'a option \<Rightarrow> 'b writer" where
  "w_unwrap w x = (case x of None \<Rightarrow> w_panic | Some v \<Rightarrow> w v)"

definition ext_services_to_bitbuf :: "'b bitbuf_ops \<Rightarrow> ext_services \<Rightarrow> 'b writer" where
  "ext_services_to_bitbuf ops p = stmts ([
     w_assert (\<not> (class2_supported p \<and> class3_supported p)),
     w_flag ops (auth_required p),
     w_flag ops (class1_supported p),
     w_flag ops (class3_supported p)] @
     (if class2_supported p then [w_unwrap (\<lambda>v. w_bits ops v 5) (es_sck_n p)]
      else if class3_supported p then [
        w_unwrap (w_flag ops) (dck_select p),
        w_unwrap (w_flag ops) (dck_reselect p),
        w_unwrap (w_flag ops) (linked_gck p),
        w_unwrap (\<lambda>v. w_bits ops v 2) (short_gck_vn p)]
      else [w_bits ops 0 5]) @ [
     w_bits ops (sdstl_addressing_method p) 2,
     w_flag ops (gck_supported p),
     w_bits ops (es_section p) 2,
     w_bits ops (section_data p) 7])"

section \<open>SYSINFO\<close>

record mac_sysinfo =
  main_carrier :: nat
  freq_band :: nat
  freq_offset_index :: nat
  duplex_spacing :: nat
  reverse_operation :: bool
  num_of_csch :: nat
  ms_txpwr_max_cell :: nat
  rxlev_access_min :: nat
  access_parameter :: nat
  radio_dl_timeout :: nat
  cipher_key_id_or_sck_vn :: "nat option"
  hyperframe_number :: "nat option"
  option_field :: sysinfo_opt_field_flag
  si_ts_common_frames :: "ts_common_frames option"
  default_access_code :: "access_code_a_def option"
  si_ext_services :: "ext_services option"

definition p_seek_rel :: "'b bitbuf_ops \<Rightarrow> int \<Rightarrow> ('b, unit) parser" where
  "p_seek_rel ops d = (\<lambda>b. map_option (\<lambda>b. (Inr (), b)) (bb_seek_rel ops b d))"

definition mac_sysinfo_from_bitbuf :: "'b bitbuf_ops \<Rightarrow> ('b, mac_sysinfo) parser" where
  "mac_sysinfo_from_bitbuf ops =
     p_bind (p_field ops 2 ''pdu_type'') (\<lambda>pdu_type.
     p_bind (p_field ops 2 ''pdu_subtype'') (\<lambda>pdu_subtype.
     p_bind (p_field ops 12 ''main_carrier'') (\<lambda>main_carrier.
     p_bind (p_field ops 4 ''freq_band'') (\<lambda>freq_band.
     p_bind (p_field ops 2 ''freq_offset'') (\<lambda>freq_offset_index.
     p_bind (p_field ops 3 ''duplex_spacing'') (\<lambda>duplex_spacing.
     p_bind (p_flag ops ''reverse_operation'') (\<lambda>reverse_operation.
     p_bind (p_field ops 2 ''num_of_csch'') (\<lambda>num_of_csch.
     p_bind (p_field ops 3 ''ms_txpwr_max_cell'') (\<lambda>ms_txpwr_max_cell.
     p_bind (p_field ops 4 ''rxlev_access_min'') (\<lambda>rxlev_access_min.
     p_bind (p_field ops 4 ''access_parameter'') (\<lambda>access_parameter.
     p_bind (p_field ops 4 ''radio_dl_timeout'') (\<lambda>radio_dl_timeout.
     p_bind (p_field ops 1 ''has_cipher_key_field'') (\<lambda>has_cipher_key_field.
     p_bind
       (if has_cipher_key_field = 1 then
          p_bind (p_field ops 16 ''cipher_key_id_or_sck_vn'') (\<lambda>v. p_ret (Some (as_u16 v), None))
        else p_bind (p_field ops 16 ''hyperframe_number'') (\<lambda>v. p_ret (None, Some (as_u16 v))))
       (\<lambda>(cipher_key, hyperframe).
     p_bind (p_field ops 2 ''option_field'') (\<lambda>bits.
     p_unwrap (sysinfo_opt_field_flag_of_raw bits) (\<lambda>option_field.
     p_bind (case option_field of
          EvenMfDefForTsMode \<Rightarrow> p_bind (p_seek_rel ops 20) (\<lambda>_. p_ret (None, None))
        | OddMfDefForTsMode \<Rightarrow> p_bind (p_seek_rel ops 20) (\<lambda>_. p_ret (None, None))
        | DefaultDefForAccCodeA \<Rightarrow> p_bind (access_code_a_from_bitbuf ops) (\<lambda>a. p_ret (Some a, None))
        | ExtServicesBroadcast \<Rightarrow> p_bind (ext_services_from_bitbuf ops True) (\<lambda>e. p_ret (None, Some e)))
       (\<lambda>(default_access_code, ext_services).
     p_ret \<lparr>main_carrier = as_u16 main_carrier, freq_band = as_u8 freq_band, freq_offset_index = as_u8 freq_offset_index,
       duplex_spacing = as_u8 duplex_spacing, reverse_operation = reverse_operation, num_of_csch = as_u8 num_of_csch,
       ms_txpwr_max_cell = as_u8 ms_txpwr_max_cell, rxlev_access_min = as_u8 rxlev_access_min,
       access_parameter = as_u8 access_parameter, radio_dl_timeout = as_u8 radio_dl_timeout,
       cipher_key_id_or_sck_vn = cipher_key, hyperframe_number = hyperframe, option_field = option_field,
       si_ts_common_frames = None, default_access_code = default_access_code, si_ext_services = ext_services\<rparr>)))))))))))))))))"

definition mac_sysinfo_to_bitbuf :: "'b bitbuf_ops \<Rightarrow> mac_sysinfo \<Rightarrow> 'b writer" where
  "mac_sysinfo_to_bitbuf ops p = stmts ([
     w_bits ops 2 2,
     w_bits ops 0 2,
     w_bits ops (main_carrier p) 12,
     w_bits ops (freq_band p) 4,
     w_bits ops (freq_offset_index p) 2,
     w_bits ops (duplex_spacing p) 3,
     w_flag ops (reverse_operation p),
     w_bits ops (num_of_csch p) 2,
     w_bits ops (ms_txpwr_max_cell p) 3,
     w_bits ops (rxlev_access_min p) 4,
     w_bits ops (access_parameter p) 4,
     w_bits ops (radio_dl_timeout p) 4,
     w_assert ((cipher_key_id_or_sck_vn p \<noteq> None) \<noteq> (hyperframe_number p \<noteq> None))] @
     (case cipher_key_id_or_sck_vn p of
        Some v \<Rightarrow> [w_bits ops 1 1, w_bits ops v 16]
      | None \<Rightarrow> [w_bits ops 0 1, w_unwrap (\<lambda>v. w_bits ops v 16) (hyperframe_number p)]) @
     [w_bits ops (sysinfo_opt_field_flag_raw (option_field p)) 2] @
     (case option_field p of
        EvenMfDefForTsMode \<Rightarrow> [w_assert (default_access_code p = None), w_assert (si_ext_services p = None)]
      | OddMfDefForTsMode \<Rightarrow> [w_assert (default_access_code p = None), w_assert (si_ext_services p = None),
          w_unwrap (ts_common_frames_to_bitbuf ops) (si_ts_common_frames p)]
      | DefaultDefForAccCodeA \<Rightarrow> [w_assert (si_ts_common_frames p = None), w_assert (si_ext_services p = None),
          w_unwrap (access_code_a_to_bitbuf ops) (default_access_code p)]
      | ExtServicesBroadcast \<Rightarrow> [w_assert (si_ts_common_frames p = None), w_assert (default_access_code p = None),
          w_unwrap (ext_services_to_bitbuf ops) (si_ext_services p)]))"

section \<open>ACCESS-DEFINE\<close>

record access_define =
  common_or_assigned_control :: bool
  ad_access_code :: nat
  ad_imm :: nat
  ad_wt :: nat
  ad_nu :: nat
  frame_len_factor :: bool
  ts_pointer :: nat
  min_pdu_prio :: nat
  opt_field_flag :: nat
  subscriber_class :: "nat option"
  ad_gssi :: "u32 option"

definition access_define_from_bitbuf :: "'b bitbuf_ops \<Rightarrow> ('b, access_define) parser" where
  "access_define_from_bitbuf ops =
     p_bind (p_field ops 2 ''mac_pdu_type'') (\<lambda>mac_pdu_type.
     p_assert (mac_pdu_type = 2) (
     p_bind (p_field ops 2 ''broadcast_type'') (\<lambda>broadcast_type.
     p_assert (broadcast_type = 1) (
     p_bind (p_flag ops ''common_or_assigned_control'') (\<lambda>common_or_assigned_control.
     p_bind (p_field ops 2 ''access_code'') (\<lambda>access_code.
     p_bind (p_field ops 4 ''imm'') (\<lambda>imm.
     p_bind (p_field ops 4 ''wt'') (\<lambda>wt.
     p_bind (p_field ops 4 ''nu'') (\<lambda>nu.
     p_bind (p_flag ops ''frame_len_factor'') (\<lambda>frame_len_factor.
     p_bind (p_field ops 4 ''ts_pointer'') (\<lambda>ts_pointer.
     p_bind (p_field ops 3 ''min_pdu_prio'') (\<lambda>min_pdu_prio.
     p_bind (p_field ops 2 ''opt_field_flag'') (\<lambda>opt_field_flag.
     p_bind (p_opt (as_u8 opt_field_flag = 1)
       (p_bind (p_field ops 16 ''subscriber_class'') (\<lambda>v. p_ret (as_u16 v)))) (\<lambda>subscriber_class.
     p_bind (p_opt (as_u8 opt_field_flag = 2)
       (p_bind (p_field ops 24 ''gssi'') (\<lambda>v. p_ret (word_of_nat v)))) (\<lambda>gssi.
     p_bind (p_field ops 3 ''filler'') (\<lambda>filler.
     p_assert (filler = 4) (
     p_ret \<lparr>common_or_assigned_control = common_or_assigned_control, ad_access_code = as_u8 access_code,
       ad_imm = as_u8 imm, ad_wt = as_u8 wt, ad_nu = as_u8 nu, frame_len_factor = frame_len_factor,
       ts_pointer = as_u8 ts_pointer, min_pdu_prio = as_u8 min_pdu_prio, opt_field_flag = as_u8 opt_field_flag,
       subscriber_class = subscriber_class, ad_gssi = gssi\<rparr>)))))))))))))))))"

definition access_define_to_bitbuf :: "'b bitbuf_ops \<Rightarrow> access_define \<Rightarrow> 'b writer" where
  "access_define_to_bitbuf ops p = stmts ([
     w_bits ops 2 2,
     w_bits ops 1 2,
     w_flag ops (common_or_assigned_control p),
     w_bits ops (ad_access_code p) 2,
     w_bits ops (ad_imm p) 4,
     w_bits ops (ad_wt p) 4,
     w_bits ops (ad_nu p) 4,
     w_flag ops (frame_len_factor p),
     w_bits ops (ts_pointer p) 4,
     w_bits ops (min_pdu_prio p) 3,
     w_bits ops (opt_field_flag p) 2] @
     (case subscriber_class p of Some v \<Rightarrow> [w_bits ops v 16] | None \<Rightarrow> []) @
     (case ad_gssi p of Some v \<Rightarrow> [w_bits ops (unat v) 24] | None \<Rightarrow> []) @
     [w_bits ops 4 3])"

section \<open>ACCESS-ASSIGN\<close>

record access_field =
  af_access_code :: access_code
  base_frame_len :: base_frame_length

definition access_field_of_raw :: "nat \<Rightarrow> access_field option" where
  "access_field_of_raw value = do {
     code \<leftarrow> access_code_of_raw (drop_bit 4 value AND 3);
     len \<leftarrow> base_frame_length_of_raw (value AND 15);
     Some \<lparr>af_access_code = code, base_frame_len = len\<rparr> }"

definition access_field_raw :: "access_field \<Rightarrow> nat" where
  "access_field_raw f = (push_bit 4 (access_code_raw (af_access_code f)) OR base_frame_length_raw (base_frame_len f))"

datatype dl_usage = DlUnallocated | DlAssignedControl | DlCommonControl | DlCommonAndAssigned | DlTraffic nat

definition dl_usage_from_marker :: "nat \<Rightarrow> dl_usage" where
  "dl_usage_from_marker field = (if field = 0 then DlUnallocated else if field = 1 then DlAssignedControl
     else if field = 2 then DlCommonControl else if field = 3 then DlCommonAndAssigned else DlTraffic field)"

fun dl_usage_to_marker :: "dl_usage \<Rightarrow> nat" where
  "dl_usage_to_marker DlUnallocated = 0"
| "dl_usage_to_marker DlAssignedControl = 1"
| "dl_usage_to_marker DlCommonControl = 2"
| "dl_usage_to_marker DlCommonAndAssigned = 3"
| "dl_usage_to_marker (DlTraffic chan) = chan"

fun dl_usage_is_traffic :: "dl_usage \<Rightarrow> bool" where
  "dl_usage_is_traffic (DlTraffic _) = True"
| "dl_usage_is_traffic _ = False"

fun dl_usage_get_tchan :: "dl_usage \<Rightarrow> nat option" where
  "dl_usage_get_tchan (DlTraffic chan) = Some chan"
| "dl_usage_get_tchan _ = None"

datatype ul_usage = UlCommonOnly | UlCommonAndAssigned | UlAssignedOnly | UlUnallocated | UlTraffic nat

definition ul_usage_from_marker :: "nat \<Rightarrow> ul_usage option" where
  "ul_usage_from_marker field =
     (if field = 0 then Some UlUnallocated else if field < 4 then None else Some (UlTraffic field))"

fun ul_usage_to_marker :: "ul_usage \<Rightarrow> nat option" where
  "ul_usage_to_marker UlUnallocated = Some 0"
| "ul_usage_to_marker (UlTraffic chan) = Some chan"
| "ul_usage_to_marker _ = None"

fun ul_usage_is_traffic :: "ul_usage \<Rightarrow> bool" where
  "ul_usage_is_traffic (UlTraffic _) = True"
| "ul_usage_is_traffic _ = False"

fun ul_usage_get_tchan :: "ul_usage \<Rightarrow> nat option" where
  "ul_usage_get_tchan (UlTraffic chan) = Some chan"
| "ul_usage_get_tchan _ = None"

datatype access_assign =
    DownlinkCommonControlUplinkCommonOnly access_field access_field
  | DownlinkDefinedUplinkCommonAndAssigned dl_usage access_field
  | DownlinkDefinedUplinkAssignedOnly dl_usage access_field
  | DownlinkDefinedUplinkDefined dl_usage ul_usage

fun dl_is_traffic :: "access_assign \<Rightarrow> bool" where
  "dl_is_traffic (DownlinkDefinedUplinkCommonAndAssigned m _) = dl_usage_is_traffic m"
| "dl_is_traffic (DownlinkDefinedUplinkAssignedOnly m _) = dl_usage_is_traffic m"
| "dl_is_traffic (DownlinkDefinedUplinkDefined m _) = dl_usage_is_traffic m"
| "dl_is_traffic _ = False"

definition p_access_field :: "string \<Rightarrow> nat \<Rightarrow> (access_field \<Rightarrow> ('b, 'a) parser) \<Rightarrow> ('b, 'a) parser" where
  "p_access_field name v k = p_some (InvalidValue name v) (access_field_of_raw v) k"

definition access_assign_from_bitbuf :: "'b bitbuf_ops \<Rightarrow> ('b, access_assign) parser" where
  "access_assign_from_bitbuf ops =
     p_bind (p_field ops 2 ''_header'') (\<lambda>header.
     p_bind (p_field ops 6 ''field1'') (\<lambda>field1.
     p_bind (p_field ops 6 ''field2'') (\<lambda>field2.
     if header = 0 then
       p_access_field ''access_field_1'' field1 (\<lambda>a. p_access_field ''access_field_2'' field2 (\<lambda>b.
       p_ret (DownlinkCommonControlUplinkCommonOnly a b)))
     else if header = 1 then
       p_access_field ''access_field'' field2 (\<lambda>a.
       p_ret (DownlinkDefinedUplinkCommonAndAssigned (dl_usage_from_marker (as_u8 field1)) a))
     else if header = 2 then
       p_access_field ''access_field'' field2 (\<lambda>a.
       p_ret (DownlinkDefinedUplinkAssignedOnly (dl_usage_from_marker (as_u8 field1)) a))
     else if header = 3 then
       p_some (InvalidValue ''uplink_usage_marker'' field2) (ul_usage_from_marker (as_u8 field2)) (\<lambda>u.
       p_ret (DownlinkDefinedUplinkDefined (dl_usage_from_marker (as_u8 field1)) u))
     else p_panic)))"

definition access_assign_to_bitbuf :: "'b bitbuf_ops \<Rightarrow> access_assign \<Rightarrow> 'b writer" where
  "access_assign_to_bitbuf ops p = stmts (case p of
     DownlinkCommonControlUplinkCommonOnly access_field_1 access_field_2 \<Rightarrow>
       [w_bits ops 0 2, w_bits ops (access_field_raw access_field_1) 6, w_bits ops (access_field_raw access_field_2) 6]
   | DownlinkDefinedUplinkCommonAndAssigned downlink_usage_marker access_field \<Rightarrow>
       [w_bits ops 1 2, w_bits ops (dl_usage_to_marker downlink_usage_marker) 6, w_bits ops (access_field_raw access_field) 6]
   | DownlinkDefinedUplinkAssignedOnly downlink_usage_marker access_field \<Rightarrow>
       [w_bits ops 2 2, w_bits ops (dl_usage_to_marker downlink_usage_marker) 6, w_bits ops (access_field_raw access_field) 6]
   | DownlinkDefinedUplinkDefined downlink_usage_marker uplink_usage_marker \<Rightarrow>
       [w_bits ops 3 2, w_bits ops (dl_usage_to_marker downlink_usage_marker) 6,
        w_unwrap (\<lambda>v. w_bits ops v 6) (ul_usage_to_marker uplink_usage_marker)])"

datatype access_assign_fr18 =
    UplinkCommonOnly access_field access_field
  | UplinkCommonAndAssigned access_field access_field
  | UplinkAssignedOnly access_field access_field
  | UplinkCommonAndAssignedTraffic ul_usage access_field

definition access_assign_fr18_from_bitbuf :: "'b bitbuf_ops \<Rightarrow> ('b, access_assign_fr18) parser" where
  "access_assign_fr18_from_bitbuf ops =
     p_bind (p_field ops 2 ''_header'') (\<lambda>header.
     p_bind (p_field ops 6 ''field1'') (\<lambda>field1.
     p_bind (p_field ops 6 ''field2'') (\<lambda>field2.
     if header = 0 then
       p_access_field ''access_field_1'' field1 (\<lambda>a. p_access_field ''access_field_2'' field2 (\<lambda>b.
       p_ret (UplinkCommonOnly a b)))
     else if header = 1 then
       p_access_field ''access_field_1'' field1 (\<lambda>a. p_access_field ''access_field_2'' field2 (\<lambda>b.
       p_ret (UplinkCommonAndAssigned a b)))
     else if header = 2 then
       p_access_field ''access_field_1'' field1 (\<lambda>a. p_access_field ''access_field_2'' field2 (\<lambda>b.
       p_ret (UplinkAssignedOnly a b)))
     else if header = 3 then
       p_some (InvalidValue ''uplink_usage_marker'' field1) (ul_usage_from_marker (as_u8 field1)) (\<lambda>u.
       if \<not> ul_usage_is_traffic u then p_fail (InvalidValue ''uplink_usage_marker'' field1)
       else p_access_field ''access_field'' field2 (\<lambda>a. p_ret (UplinkCommonAndAssignedTraffic u a)))
     else p_panic)))"

definition access_assign_fr18_to_bitbuf :: "'b bitbuf_ops \<Rightarrow> access_assign_fr18 \<Rightarrow> 'b writer" where
  "access_assign_fr18_to_bitbuf ops p = stmts (case p of
     UplinkCommonOnly access_field_1 access_field_2 \<Rightarrow>
       [w_bits ops 0 2, w_bits ops (access_field_raw access_field_1) 6, w_bits ops (access_field_raw access_field_2) 6]
   | UplinkCommonAndAssigned access_field_1 access_field_2 \<Rightarrow>
       [w_bits ops 1 2, w_bits ops (access_field_raw access_field_1) 6, w_bits ops (access_field_raw access_field_2) 6]
   | UplinkAssignedOnly access_field_1 access_field_2 \<Rightarrow>
       [w_bits ops 2 2, w_bits ops (access_field_raw access_field_1) 6, w_bits ops (access_field_raw access_field_2) 6]
   | UplinkCommonAndAssignedTraffic uplink_usage_marker access_field \<Rightarrow>
       [w_bits ops 3 2, w_unwrap (\<lambda>v. w_bits ops v 6) (ul_usage_to_marker uplink_usage_marker),
        w_bits ops (access_field_raw access_field) 6])"

text \<open>An access field is a six-bit number; larger numbers are cut to six bits.\<close>

lemma access_field_sum:
  "access_field_raw f = 16 * access_code_raw (af_access_code f) + base_frame_length_raw (base_frame_len f)"
  unfolding access_field_raw_def
  by (cases "af_access_code f"; cases "base_frame_len f") (simp_all add: push_bit_eq_mult)

lemma access_field_less: "access_field_raw f < 64"
  using access_code.raw_fits [of "af_access_code f"] base_frame_length.raw_fits [of "base_frame_len f"]
  by (simp add: access_field_sum)

lemma nat_and_masks: "n AND 3 = n mod 4" "n AND 15 = n mod 16" for n :: nat
  using take_bit_eq_mask [of 2 n] take_bit_eq_mask [of 4 n] by (simp_all add: mask_eq_exp_minus_1 take_bit_eq_mod)

lemma access_field_of_raw_raw [simp]: "access_field_of_raw (access_field_raw f) = Some f"
  using access_code.raw_fits [of "af_access_code f"] base_frame_length.raw_fits [of "base_frame_len f"]
  by (simp add: access_field_of_raw_def nat_and_masks access_field_sum drop_bit_eq_div)

lemma access_field_raw_of_raw: "\<lbrakk>access_field_of_raw n = Some f; n < 64\<rbrakk> \<Longrightarrow> access_field_raw f = n"
  by (auto simp: access_field_of_raw_def access_field_sum nat_and_masks drop_bit_eq_div bind_eq_Some_conv
      dest!: access_code.raw_of_raw base_frame_length.raw_of_raw)

lemma access_code_total: "\<forall>n<4. access_code_of_raw n \<noteq> None"
  by (simp add: eval_nat_numeral All_less_Suc access_code_of_raw_def)

lemma base_frame_length_total: "\<forall>n<16. base_frame_length_of_raw n \<noteq> None"
  by (simp add: eval_nat_numeral All_less_Suc base_frame_length_of_raw_def)

lemma access_field_total: "\<exists>f. access_field_of_raw n = Some f"
proof -
  have "drop_bit 4 n AND 3 < 4" "n AND 15 < 16" by (simp_all add: nat_and_masks)
  then obtain c l where "access_code_of_raw (drop_bit 4 n AND 3) = Some c" "base_frame_length_of_raw (n AND 15) = Some l"
    using access_code_total base_frame_length_total by blast
  then show ?thesis by (simp add: access_field_of_raw_def)
qed

section \<open>Wire formats\<close>

definition mac_sync_ok :: "mac_sync \<Rightarrow> bool" where
  "mac_sync_ok p \<longleftrightarrow> system_code p < 16 \<and> colour_code p < 64 \<and> sharing_mode p < 4 \<and> ts_reserved_frames p < 8
     \<and> 1 \<le> time_t (sync_time p) \<and> time_t (sync_time p) \<le> 4 \<and> time_f (sync_time p) < 32 \<and> time_m (sync_time p) < 64"

definition mac_sync_bits :: "mac_sync \<Rightarrow> bool list" where
  "mac_sync_bits p = val_bits 4 (system_code p) @ val_bits 6 (colour_code p) @ val_bits 2 (time_t (sync_time p) - 1)
     @ val_bits 5 (time_f (sync_time p)) @ val_bits 6 (time_m (sync_time p)) @ val_bits 2 (sharing_mode p)
     @ val_bits 3 (ts_reserved_frames p) @ u_plane_dtx p # frame_18_ext p # val_bits 1 0"

text \<open>SYNC does not carry the hyperframe.\<close>

definition canon_sync :: "mac_sync \<Rightarrow> mac_sync" where
  "canon_sync p = p\<lparr>sync_time := (sync_time p)\<lparr>time_h := 0\<rparr>\<rparr>"

definition ts_common_frames_bits :: "ts_common_frames \<Rightarrow> bool list" where
  "ts_common_frames_bits p = [cf_f1 p, cf_f2 p, cf_f3 p, cf_f4 p, cf_f5 p, cf_f6 p, cf_f7 p, cf_f8 p, cf_f9 p,
     cf_f10 p, cf_f11 p, cf_f12 p, cf_f13 p, cf_f14 p, cf_f15 p, cf_f16 p, cf_f17 p, cf_f18 p] @ val_bits 2 0"

definition access_code_a_ok :: "access_code_a_def \<Rightarrow> bool" where
  "access_code_a_ok p \<longleftrightarrow> aca_imm p < 16 \<and> aca_wt p < 16 \<and> aca_nu p < 16 \<and> aca_ts_ptr p < 16 \<and> aca_min_pdu_prio p < 8"

definition access_code_a_bits :: "access_code_a_def \<Rightarrow> bool list" where
  "access_code_a_bits p = val_bits 4 (aca_imm p) @ val_bits 4 (aca_wt p) @ val_bits 4 (aca_nu p)
     @ aca_fl_factor p # val_bits 4 (aca_ts_ptr p) @ val_bits 3 (aca_min_pdu_prio p)"

text \<open>
  The security element of an encrypting cell: class 2 with its SCK number, or class 3 with its four
  fields. A cell of neither class is written like class 2 with SCK number 0.
\<close>

definition ext_services_ok :: "ext_services \<Rightarrow> bool" where
  "ext_services_ok p \<longleftrightarrow> sdstl_addressing_method p < 4 \<and> es_section p < 4 \<and> section_data p < 128
     \<and> class3_supported p = (\<not> class2_supported p)
     \<and> (if class2_supported p
        then (\<exists>n<32. es_sck_n p = Some n) \<and> dck_select p = None \<and> dck_reselect p = None \<and> linked_gck p = None \<and> short_gck_vn p = None
        else es_sck_n p = None \<and> dck_select p \<noteq> None \<and> dck_reselect p \<noteq> None \<and> linked_gck p \<noteq> None \<and> (\<exists>n<4. short_gck_vn p = Some n))"

definition ext_services_bits :: "ext_services \<Rightarrow> bool list" where
  "ext_services_bits p = auth_required p # class1_supported p # class3_supported p
     # (if class2_supported p then val_bits 5 (the (es_sck_n p))
        else the (dck_select p) # the (dck_reselect p) # the (linked_gck p) # val_bits 2 (the (short_gck_vn p)))
     @ val_bits 2 (sdstl_addressing_method p) @ gck_supported p # val_bits 2 (es_section p) @ val_bits 7 (section_data p)"

lemma w_unwrap_Some [simp]: "w_unwrap w (Some v) = w v"
  by (simp add: w_unwrap_def)

context bit_buffer
begin

lemma emits_mac_sync:
  assumes "mac_sync_ok p"
  shows "emits (mac_sync_to_bitbuf ops p) (mac_sync_bits p)"
proof -
  from assms have "(time_t (sync_time p) + (2 ^ 64 - 1)) mod 2 ^ 64 = time_t (sync_time p) - 1"
    by (cases "time_t (sync_time p)") (auto simp: mac_sync_ok_def)
  with assms show ?thesis
    by (auto simp: mac_sync_to_bitbuf_def mac_sync_bits_def mac_sync_ok_def intro!: emit_intros)
qed

lemma parses_mac_sync:
  assumes "mac_sync_ok p"
  shows "parses (mac_sync_from_bitbuf ops) (mac_sync_bits p) (canon_sync p)"
proof -
  from assms have "time_t (sync_time p) - 1 < 4" "u8_add (time_t (sync_time p) - 1) 1 = time_t (sync_time p)"
    by (auto simp: mac_sync_ok_def u8_add_def)
  with assms show ?thesis
    by (auto simp: mac_sync_from_bitbuf_def mac_sync_bits_def mac_sync_ok_def canon_sync_def mk_time_def intro!: parse_intros)
qed

lemma emits_ts_common_frames: "emits (ts_common_frames_to_bitbuf ops p) (ts_common_frames_bits p)"
  by (auto simp: ts_common_frames_to_bitbuf_def ts_common_frames_bits_def intro!: emit_intros)

lemma parses_ts_common_frames: "parses (ts_common_frames_from_bitbuf ops) (ts_common_frames_bits p) p"
  by (auto simp: ts_common_frames_from_bitbuf_def ts_common_frames_bits_def intro!: parse_intros)

lemma emits_access_code_a: "access_code_a_ok p \<Longrightarrow> emits (access_code_a_to_bitbuf ops p) (access_code_a_bits p)"
  by (auto simp: access_code_a_to_bitbuf_def access_code_a_bits_def access_code_a_ok_def intro!: emit_intros)

lemma parses_access_code_a: "access_code_a_ok p \<Longrightarrow> parses (access_code_a_from_bitbuf ops) (access_code_a_bits p) p"
  by (auto simp: access_code_a_from_bitbuf_def access_code_a_bits_def access_code_a_ok_def intro!: parse_intros)

lemma emits_ext_services: "ext_services_ok p \<Longrightarrow> emits (ext_services_to_bitbuf ops p) (ext_services_bits p)"
  by (auto simp: ext_services_to_bitbuf_def ext_services_bits_def ext_services_ok_def intro!: emit_intros split: if_splits)

text \<open>A one-bit field that is read as a number where a flag was written.\<close>

lemma parses_bind_flag_number:
  "parses (k (of_bool x)) t y \<Longrightarrow> parses (p_bind (p_field ops (Suc 0) f) k) (x # t) y"
  by (cases x) (auto intro!: parses_bind_bit)

lemma parses_ext_services: "ext_services_ok p \<Longrightarrow> parses (ext_services_from_bitbuf ops True) (ext_services_bits p) p"
  by (auto simp: ext_services_from_bitbuf_def ext_services_bits_def ext_services_ok_def
      intro!: parse_intros parses_bind_flag_number split: if_splits)

end

text \<open>
  SYSINFO with one of the two options that both sides implement; the frame definitions for
  time-sharing mode are skipped by the parser.
\<close>

definition mac_sysinfo_ok :: "mac_sysinfo \<Rightarrow> bool" where
  "mac_sysinfo_ok p \<longleftrightarrow> main_carrier p < 4096 \<and> freq_band p < 16 \<and> freq_offset_index p < 4 \<and> duplex_spacing p < 8
     \<and> num_of_csch p < 4 \<and> ms_txpwr_max_cell p < 8 \<and> rxlev_access_min p < 16 \<and> access_parameter p < 16
     \<and> radio_dl_timeout p < 16
     \<and> (case cipher_key_id_or_sck_vn p of Some v \<Rightarrow> v < 65536 \<and> hyperframe_number p = None
        | None \<Rightarrow> \<exists>v<65536. hyperframe_number p = Some v)
     \<and> si_ts_common_frames p = None
     \<and> (case option_field p of
          DefaultDefForAccCodeA \<Rightarrow> (\<exists>a. default_access_code p = Some a \<and> access_code_a_ok a) \<and> si_ext_services p = None
        | ExtServicesBroadcast \<Rightarrow> default_access_code p = None \<and> (\<exists>e. si_ext_services p = Some e \<and> ext_services_ok e)
        | _ \<Rightarrow> False)"

definition mac_sysinfo_bits :: "mac_sysinfo \<Rightarrow> bool list" where
  "mac_sysinfo_bits p = val_bits 2 2 @ val_bits 2 0 @ val_bits 12 (main_carrier p) @ val_bits 4 (freq_band p)
     @ val_bits 2 (freq_offset_index p) @ val_bits 3 (duplex_spacing p) @ reverse_operation p # val_bits 2 (num_of_csch p)
     @ val_bits 3 (ms_txpwr_max_cell p) @ val_bits 4 (rxlev_access_min p) @ val_bits 4 (access_parameter p)
     @ val_bits 4 (radio_dl_timeout p)
     @ (case cipher_key_id_or_sck_vn p of Some v \<Rightarrow> True # val_bits 16 v | None \<Rightarrow> False # val_bits 16 (the (hyperframe_number p)))
     @ val_bits 2 (sysinfo_opt_field_flag_raw (option_field p))
     @ (case option_field p of DefaultDefForAccCodeA \<Rightarrow> access_code_a_bits (the (default_access_code p))
        | _ \<Rightarrow> ext_services_bits (the (si_ext_services p)))"

definition access_define_ok :: "access_define \<Rightarrow> bool" where
  "access_define_ok p \<longleftrightarrow> ad_access_code p < 4 \<and> ad_imm p < 16 \<and> ad_wt p < 16 \<and> ad_nu p < 16 \<and> ts_pointer p < 16
     \<and> min_pdu_prio p < 8 \<and> opt_field_flag p < 4
     \<and> (case subscriber_class p of Some v \<Rightarrow> v < 65536 \<and> opt_field_flag p = 1 | None \<Rightarrow> opt_field_flag p \<noteq> 1)
     \<and> (case ad_gssi p of Some v \<Rightarrow> unat v < 2 ^ 24 \<and> opt_field_flag p = 2 | None \<Rightarrow> opt_field_flag p \<noteq> 2)"

definition access_define_bits :: "access_define \<Rightarrow> bool list" where
  "access_define_bits p = val_bits 2 2 @ val_bits 2 1 @ common_or_assigned_control p # val_bits 2 (ad_access_code p)
     @ val_bits 4 (ad_imm p) @ val_bits 4 (ad_wt p) @ val_bits 4 (ad_nu p) @ frame_len_factor p # val_bits 4 (ts_pointer p)
     @ val_bits 3 (min_pdu_prio p) @ val_bits 2 (opt_field_flag p)
     @ (case subscriber_class p of Some v \<Rightarrow> val_bits 16 v | None \<Rightarrow> [])
     @ (case ad_gssi p of Some v \<Rightarrow> val_bits 24 (unat v) | None \<Rightarrow> []) @ val_bits 3 4"

text \<open>Usage markers below 4 are not traffic; the uplink has no marker for three of its usages.\<close>

fun dl_usage_ok :: "dl_usage \<Rightarrow> bool" where
  "dl_usage_ok (DlTraffic n) = (4 \<le> n \<and> n < 64)"
| "dl_usage_ok _ = True"

fun ul_usage_ok :: "ul_usage \<Rightarrow> bool" where
  "ul_usage_ok (UlTraffic n) = (4 \<le> n \<and> n < 64)"
| "ul_usage_ok u = (u = UlUnallocated)"

lemma dl_usage_less: "dl_usage_ok u \<Longrightarrow> dl_usage_to_marker u < 64"
  by (cases u) auto

lemma dl_usage_from_to: "dl_usage_ok u \<Longrightarrow> dl_usage_from_marker (as_u8 (dl_usage_to_marker u)) = u"
  by (cases u) (auto simp: dl_usage_from_marker_def)

lemma ul_usage_to_from: "ul_usage_ok u \<Longrightarrow> \<exists>n<64. ul_usage_to_marker u = Some n \<and> ul_usage_from_marker n = Some u"
  by (cases u) (auto simp: ul_usage_from_marker_def)

fun access_assign_ok :: "access_assign \<Rightarrow> bool" where
  "access_assign_ok (DownlinkCommonControlUplinkCommonOnly _ _) = True"
| "access_assign_ok (DownlinkDefinedUplinkCommonAndAssigned d _) = dl_usage_ok d"
| "access_assign_ok (DownlinkDefinedUplinkAssignedOnly d _) = dl_usage_ok d"
| "access_assign_ok (DownlinkDefinedUplinkDefined d u) = (dl_usage_ok d \<and> ul_usage_ok u)"

fun access_assign_bits :: "access_assign \<Rightarrow> bool list" where
  "access_assign_bits (DownlinkCommonControlUplinkCommonOnly a b) = val_bits 2 0 @ val_bits 6 (access_field_raw a) @ val_bits 6 (access_field_raw b)"
| "access_assign_bits (DownlinkDefinedUplinkCommonAndAssigned d a) = val_bits 2 1 @ val_bits 6 (dl_usage_to_marker d) @ val_bits 6 (access_field_raw a)"
| "access_assign_bits (DownlinkDefinedUplinkAssignedOnly d a) = val_bits 2 2 @ val_bits 6 (dl_usage_to_marker d) @ val_bits 6 (access_field_raw a)"
| "access_assign_bits (DownlinkDefinedUplinkDefined d u) = val_bits 2 3 @ val_bits 6 (dl_usage_to_marker d) @ val_bits 6 (the (ul_usage_to_marker u))"

fun access_assign_fr18_ok :: "access_assign_fr18 \<Rightarrow> bool" where
  "access_assign_fr18_ok (UplinkCommonAndAssignedTraffic u _) = (ul_usage_ok u \<and> ul_usage_is_traffic u)"
| "access_assign_fr18_ok _ = True"

fun access_assign_fr18_bits :: "access_assign_fr18 \<Rightarrow> bool list" where
  "access_assign_fr18_bits (UplinkCommonOnly a b) = val_bits 2 0 @ val_bits 6 (access_field_raw a) @ val_bits 6 (access_field_raw b)"
| "access_assign_fr18_bits (UplinkCommonAndAssigned a b) = val_bits 2 1 @ val_bits 6 (access_field_raw a) @ val_bits 6 (access_field_raw b)"
| "access_assign_fr18_bits (UplinkAssignedOnly a b) = val_bits 2 2 @ val_bits 6 (access_field_raw a) @ val_bits 6 (access_field_raw b)"
| "access_assign_fr18_bits (UplinkCommonAndAssignedTraffic u a) = val_bits 2 3 @ val_bits 6 (the (ul_usage_to_marker u)) @ val_bits 6 (access_field_raw a)"

context bit_buffer
begin

lemma emits_mac_sysinfo: "mac_sysinfo_ok p \<Longrightarrow> emits (mac_sysinfo_to_bitbuf ops p) (mac_sysinfo_bits p)"
  using sysinfo_opt_field_flag.raw_fits [of "option_field p"]
  by (auto simp: mac_sysinfo_to_bitbuf_def mac_sysinfo_bits_def mac_sysinfo_ok_def
      intro!: emit_intros emits_access_code_a emits_ext_services split: option.splits sysinfo_opt_field_flag.splits)

lemma parses_mac_sysinfo: "mac_sysinfo_ok p \<Longrightarrow> parses (mac_sysinfo_from_bitbuf ops) (mac_sysinfo_bits p) p"
  by (auto simp: mac_sysinfo_from_bitbuf_def mac_sysinfo_bits_def mac_sysinfo_ok_def sysinfo_opt_field_flag_of_raw_def
      intro!: parse_intros parses_bind [OF parses_access_code_a, where t = "[]", unfolded append_Nil2]
        parses_bind [OF parses_ext_services, where t = "[]", unfolded append_Nil2]
      split: option.splits sysinfo_opt_field_flag.splits)

lemma emits_access_define: "access_define_ok p \<Longrightarrow> emits (access_define_to_bitbuf ops p) (access_define_bits p)"
  by (auto simp: access_define_to_bitbuf_def access_define_bits_def access_define_ok_def intro!: emit_intros split: option.splits)

lemma parses_access_define:
  assumes "access_define_ok p"
  shows "parses (access_define_from_bitbuf ops) (access_define_bits p) p"
proof -
  from assms have fits: "ad_access_code p < 4" "ad_imm p < 16" "ad_wt p < 16" "ad_nu p < 16" "ts_pointer p < 16"
      "min_pdu_prio p < 8" "opt_field_flag p < 4"
    and opts: "pred_option (\<lambda>v. v < 65536) (subscriber_class p)" "pred_option (\<lambda>v. unat v < 2 ^ 24) (ad_gssi p)"
    and flags: "opt_field_flag p = Suc 0 \<longleftrightarrow> subscriber_class p \<noteq> None" "opt_field_flag p = 2 \<longleftrightarrow> ad_gssi p \<noteq> None"
    by (auto simp: access_define_ok_def split: option.splits)
  show ?thesis
    unfolding access_define_from_bitbuf_def access_define_bits_def
    by (cases "subscriber_class p"; cases "ad_gssi p"; use opts fits in \<open>auto simp: flags intro!: parse_intros\<close>)
qed

lemma emits_access_assign: "access_assign_ok p \<Longrightarrow> emits (access_assign_to_bitbuf ops p) (access_assign_bits p)"
  using access_field_less
  by (cases p) (auto simp: access_assign_to_bitbuf_def intro!: emit_intros dest!: ul_usage_to_from dl_usage_less)

lemma parses_access_assign: "access_assign_ok p \<Longrightarrow> parses (access_assign_from_bitbuf ops) (access_assign_bits p) p"
  using access_field_less dl_usage_less dl_usage_from_to
  by (cases p) (auto simp: access_assign_from_bitbuf_def p_access_field_def intro!: parse_intros dest!: ul_usage_to_from)

lemma emits_access_assign_fr18: "access_assign_fr18_ok p \<Longrightarrow> emits (access_assign_fr18_to_bitbuf ops p) (access_assign_fr18_bits p)"
  using access_field_less
  by (cases p) (auto simp: access_assign_fr18_to_bitbuf_def intro!: emit_intros dest!: ul_usage_to_from)

lemma parses_access_assign_fr18:
  "access_assign_fr18_ok p \<Longrightarrow> parses (access_assign_fr18_from_bitbuf ops) (access_assign_fr18_bits p) p"
  using access_field_less
  by (cases p) (auto simp: access_assign_fr18_from_bitbuf_def p_access_field_def intro!: parse_intros dest!: ul_usage_to_from)

lemma mac_sync_wire:
  "wire_format ops view (mac_sync_from_bitbuf ops) (mac_sync_to_bitbuf ops) mac_sync_bits canon_sync mac_sync_ok"
  by unfold_locales (rule emits_mac_sync parses_mac_sync; assumption?)+

lemma ts_common_frames_wire:
  "wire_format ops view (ts_common_frames_from_bitbuf ops) (ts_common_frames_to_bitbuf ops) ts_common_frames_bits (\<lambda>p. p) (\<lambda>p. True)"
  by unfold_locales (rule emits_ts_common_frames parses_ts_common_frames; assumption?)+

lemma access_code_a_wire:
  "wire_format ops view (access_code_a_from_bitbuf ops) (access_code_a_to_bitbuf ops) access_code_a_bits (\<lambda>p. p) access_code_a_ok"
  by unfold_locales (rule emits_access_code_a parses_access_code_a; assumption?)+

lemma ext_services_wire:
  "wire_format ops view (ext_services_from_bitbuf ops True) (ext_services_to_bitbuf ops) ext_services_bits (\<lambda>p. p) ext_services_ok"
  by unfold_locales (rule emits_ext_services parses_ext_services; assumption?)+

lemma mac_sysinfo_wire:
  "wire_format ops view (mac_sysinfo_from_bitbuf ops) (mac_sysinfo_to_bitbuf ops) mac_sysinfo_bits (\<lambda>p. p) mac_sysinfo_ok"
  by unfold_locales (rule emits_mac_sysinfo parses_mac_sysinfo; assumption?)+

lemma access_define_wire:
  "wire_format ops view (access_define_from_bitbuf ops) (access_define_to_bitbuf ops) access_define_bits (\<lambda>p. p) access_define_ok"
  by unfold_locales (rule emits_access_define parses_access_define; assumption?)+

lemma access_assign_wire:
  "wire_format ops view (access_assign_from_bitbuf ops) (access_assign_to_bitbuf ops) access_assign_bits (\<lambda>p. p) access_assign_ok"
  by unfold_locales (rule emits_access_assign parses_access_assign; assumption?)+

lemma access_assign_fr18_wire:
  "wire_format ops view (access_assign_fr18_from_bitbuf ops) (access_assign_fr18_to_bitbuf ops) access_assign_fr18_bits (\<lambda>p. p) access_assign_fr18_ok"
  by unfold_locales (rule emits_access_assign_fr18 parses_access_assign_fr18; assumption?)+

end

interpretation mac_sync: wire_format view_ops "\<lambda>v. v" "mac_sync_from_bitbuf view_ops" "mac_sync_to_bitbuf view_ops"
    mac_sync_bits canon_sync mac_sync_ok
  by (rule view_machine.mac_sync_wire)

interpretation ts_common_frames: wire_format view_ops "\<lambda>v. v" "ts_common_frames_from_bitbuf view_ops" "ts_common_frames_to_bitbuf view_ops"
    ts_common_frames_bits "\<lambda>p. p" "\<lambda>p. True"
  by (rule view_machine.ts_common_frames_wire)

interpretation access_code_a: wire_format view_ops "\<lambda>v. v" "access_code_a_from_bitbuf view_ops" "access_code_a_to_bitbuf view_ops"
    access_code_a_bits "\<lambda>p. p" access_code_a_ok
  by (rule view_machine.access_code_a_wire)

interpretation ext_services: wire_format view_ops "\<lambda>v. v" "ext_services_from_bitbuf view_ops True" "ext_services_to_bitbuf view_ops"
    ext_services_bits "\<lambda>p. p" ext_services_ok
  by (rule view_machine.ext_services_wire)

interpretation mac_sysinfo: wire_format view_ops "\<lambda>v. v" "mac_sysinfo_from_bitbuf view_ops" "mac_sysinfo_to_bitbuf view_ops"
    mac_sysinfo_bits "\<lambda>p. p" mac_sysinfo_ok
  by (rule view_machine.mac_sysinfo_wire)

interpretation access_define: wire_format view_ops "\<lambda>v. v" "access_define_from_bitbuf view_ops" "access_define_to_bitbuf view_ops"
    access_define_bits "\<lambda>p. p" access_define_ok
  by (rule view_machine.access_define_wire)

interpretation access_assign: wire_format view_ops "\<lambda>v. v" "access_assign_from_bitbuf view_ops" "access_assign_to_bitbuf view_ops"
    access_assign_bits "\<lambda>p. p" access_assign_ok
  by (rule view_machine.access_assign_wire)

interpretation access_assign_fr18: wire_format view_ops "\<lambda>v. v" "access_assign_fr18_from_bitbuf view_ops" "access_assign_fr18_to_bitbuf view_ops"
    access_assign_fr18_bits "\<lambda>p. p" access_assign_fr18_ok
  by (rule view_machine.access_assign_fr18_wire)

end
