(* ===== verification/Umac_Rx.thy ===== *)
theory Umac_Rx
  imports Mac_Uplink Errorcontrol
begin

text \<open>
  The entry of uplink signalling into the base station's MAC, \<^verbatim>\<open>rx_tmv_sch\<close> of
  \<^verbatim>\<open>crates/tetra-entities/src/umac/umac_bs.rs\<close>: three peeked bits and the logical channel select the
  handler of the next PDU, whose first act is to parse that PDU's header.
\<close>

declare val_bits.simps(2) [simp del]

section \<open>Dispatch\<close>

datatype uplink_handler =
  RxMacData | RxMacFragUl | RxMacEndUl | RxMacUSignal | RxMacUBlck | RxMacAccess | RxMacEndHu

text \<open>\<open>None\<close>: the loop logs the bits and stops.\<close>

definition rx_tmv_sch_dispatch :: "'b bitbuf_ops \<Rightarrow> logical_channel \<Rightarrow> 'b \<Rightarrow> uplink_handler option" where
  "rx_tmv_sch_dispatch ops lchan pdu = do {
     bits \<leftarrow> bb_peek_bits ops pdu 3;
     if lchan = SchF \<or> lchan = Stch then do {
       pdu_type \<leftarrow> mac_pdu_type_of_raw (drop_bit 1 bits);
       case pdu_type of
         MacResourceMacData \<Rightarrow> Some RxMacData
       | MacFragMacEnd \<Rightarrow> if bits AND 1 = 0 then Some RxMacFragUl else Some RxMacEndUl
       | SuppMacUSignal \<Rightarrow>
           if lchan = Stch then Some RxMacUSignal else if bits AND 1 = 0 then Some RxMacUBlck else None
       | Broadcast \<Rightarrow> None }
     else if lchan = SchHu then
       (if drop_bit 2 bits AND 1 = 0 then Some RxMacAccess else Some RxMacEndHu)
     else None }"

text \<open>The header parser that each handler calls, reduced to whether it panics.\<close>

definition header_panics :: "'b bitbuf_ops \<Rightarrow> uplink_handler \<Rightarrow> 'b \<Rightarrow> bool" where
  "header_panics ops h pdu = (case h of
     RxMacData \<Rightarrow> mac_data_from_bitbuf ops pdu = None
   | RxMacFragUl \<Rightarrow> mac_frag_ul_from_bitbuf ops pdu = None
   | RxMacEndUl \<Rightarrow> mac_end_ul_from_bitbuf ops pdu = None
   | RxMacUSignal \<Rightarrow> mac_u_signal_from_bitbuf ops pdu = None
   | RxMacUBlck \<Rightarrow> mac_u_blck_from_bitbuf ops pdu = None
   | RxMacAccess \<Rightarrow> mac_access_from_bitbuf ops pdu = None
   | RxMacEndHu \<Rightarrow> mac_end_hu_from_bitbuf ops pdu = None)"

section \<open>Lemmas\<close>

lemma and_one_nat: "n AND 1 = n mod (2 :: nat)"
  by (simp add: and_one_eq)

context bit_buffer
begin

lemma peek_three:
  assumes "view_wf (view b)" and "bb_peek_bits ops b 3 = Some n"
  shows "n < 8" and "prefix (val_bits 2 (n div 2) @ val_bits 1 (n mod 2)) (remaining (view b))"
    and "prefix (val_bits 1 (n div 4)) (remaining (view b))"
proof -
  let ?t = "take 3 (remaining (view b))"
  from peek_bits [OF assms(1), of 3] assms(2) have le: "raw_pos (view b) + 3 \<le> raw_end (view b)"
    and n: "n = bits_val ?t" by (auto simp: remaining_take split: if_splits)
  have len: "length ?t = 3" using le length_remaining [OF assms(1)] by simp
  show "n < 8" using bits_val_less [of ?t] len by (simp add: n)
  have t: "?t = val_bits 3 n" using val_bits_bits_val [of ?t] len by (simp add: n)
  have P: "prefix (val_bits 3 n) (remaining (view b))" using take_is_prefix [of 3 "remaining (view b)"] by (simp only: t)
  have "val_bits (2 + 1) n = val_bits 2 (n div 2) @ val_bits 1 (n mod 2)"
    using val_bits_add [of 2 1 n] val_bits_mod [of 1 n] by simp
  with P show "prefix (val_bits 2 (n div 2) @ val_bits 1 (n mod 2)) (remaining (view b))" by simp
  have "val_bits 3 n = val_bits 1 (n div 4) @ val_bits 2 n" using val_bits_add [of 1 2 n] by (simp add: numeral_3_eq_3)
  with P show "prefix (val_bits 1 (n div 4)) (remaining (view b))" by (simp add: append_prefixD)
qed

lemma dispatch_matches:
  assumes wf: "view_wf (view b)" and d: "rx_tmv_sch_dispatch ops lchan b = Some h"
  shows "prefix (case h of RxMacData \<Rightarrow> val_bits 2 0 | RxMacFragUl \<Rightarrow> val_bits 2 1 @ val_bits 1 0
    | RxMacEndUl \<Rightarrow> val_bits 2 1 @ val_bits 1 1 | RxMacUSignal \<Rightarrow> val_bits 2 3 | RxMacUBlck \<Rightarrow> val_bits 2 3 @ val_bits 1 0
    | RxMacAccess \<Rightarrow> val_bits 1 0 | RxMacEndHu \<Rightarrow> val_bits 1 1) (remaining (view b))"
proof -
  from d obtain n where n: "bb_peek_bits ops b 3 = Some n" by (auto simp: rx_tmv_sch_dispatch_def bind_eq_Some_conv)
  note p = peek_three [OF wf n]
  have r: "prefix (val_bits 2 (n div 2)) (remaining (view b))" using p(2) append_prefixD by blast
  have q: "n div 4 = 0 \<or> n div 4 = 1" using p(1) by auto
  have m: "n mod 2 = 0 \<or> n mod 2 = 1" by auto
  show ?thesis using d n p(2,3) r q m
    by (auto simp: rx_tmv_sch_dispatch_def mac_pdu_type_of_raw_def and_one_nat drop_bit_nat_def
        split: if_splits mac_pdu_type.splits)
qed

lemma dispatched_header_total:
  assumes "view_wf (view b)" and "rx_tmv_sch_dispatch ops lchan b = Some h"
  shows "\<not> header_panics ops h b"
  using dispatch_matches [OF assms] safe_not_None [OF safe_mac_access assms(1)] safe_not_None [OF safe_mac_data assms(1)]
    safe_not_None [OF safe_mac_frag_ul assms(1)] safe_not_None [OF safe_mac_end_ul assms(1)]
    safe_not_None [OF safe_mac_end_hu assms(1)] safe_not_None [OF safe_mac_u_blck assms(1)]
    safe_not_None [OF safe_mac_u_signal assms(1)]
  by (cases h) (simp_all add: header_panics_def)

end

section \<open>Properties\<close>

text \<open>C20: No uplink bits make a header parser panic: whichever handler the dispatcher selects for a received block,
  the parser it calls returns a PDU or an error, however short or malformed the block is.\<close>

theorem dispatched_header_never_panics:
  assumes "bit_buffer ops view" and "view_wf (view pdu)" and "rx_tmv_sch_dispatch ops lchan pdu = Some h"
  shows "\<not> header_panics ops h pdu"
  using bit_buffer.dispatched_header_total [OF assms] .

theorem dispatched_header_never_panics_witness:
  "\<not> header_panics view_ops RxMacEndUl \<lparr>raw_bits = [False, True, True], raw_start = 0, raw_pos = 0, raw_end = 3, raw_auto = False\<rparr>"
  by (rule dispatched_header_never_panics [OF view_machine.bit_buffer_axioms, of _ SchF])
    (simp_all add: view_wf_def rx_tmv_sch_dispatch_def view_ops_def view_read_def mac_pdu_type_of_raw_def bits_val_def
      drop_bit_nat_def and_one_nat)

text \<open>C21: An uplink MAC-END that carries a length comes back as it was written, but one that carries a reservation
  request, which the writer sends as the standard's code points from 110000, is rejected by the parser: the request
  is lost.\<close>

theorem mac_end_ul_reservation_lost:
  assumes "bit_buffer ops view" and "mac_end_ul_ok p" and "can_write (view b) (length (mac_end_ul_bits p))"
  shows "(\<exists>b'. mac_end_ul_to_bitbuf ops p b = Some (Inr (), b') \<and> view b' = put_bits (view b) (mac_end_ul_bits p))
    \<and> (\<forall>c t. view_wf (view c) \<and> remaining (view c) = mac_end_ul_bits p @ t \<longrightarrow>
         (if eu_length_ind p = None then \<exists>e c'. mac_end_ul_from_bitbuf ops c = Some (Inl e, c')
          else \<exists>c'. mac_end_ul_from_bitbuf ops c = Some (Inr p, c') \<and> view c' = advance (view c) (length (mac_end_ul_bits p))))"
  using bit_buffer.puts_Some [OF assms(1) bit_buffer.puts_mac_end_ul [OF assms(1,2)] assms(3)]
    bit_buffer.fails_mac_end_ul_reservation [OF assms(1,2), unfolded bit_buffer.fails_def [OF assms(1)]]
    bit_buffer.parses_Some [OF assms(1) bit_buffer.parses_mac_end_ul_length [OF assms(1,2)]]
  by auto

theorem mac_end_ul_reservation_lost_witness:
  "\<exists>e c. mac_end_ul_from_bitbuf view_ops
     \<lparr>raw_bits = mac_end_ul_bits \<lparr>eu_fill_bits = False, eu_length_ind = None, eu_reservation_req = Some Req1Slot\<rparr>,
      raw_start = 0, raw_pos = 0, raw_end = 10, raw_auto = False\<rparr> = Some (Inl e, c)"
proof -
  let ?p = "\<lparr>eu_fill_bits = False, eu_length_ind = None, eu_reservation_req = Some Req1Slot\<rparr>"
  let ?e = "\<lparr>raw_bits = [], raw_start = 0, raw_pos = 0, raw_end = 0, raw_auto = True\<rparr>"
  let ?c = "\<lparr>raw_bits = mac_end_ul_bits ?p, raw_start = 0, raw_pos = 0, raw_end = 10, raw_auto = False\<rparr>"
  have len: "length (mac_end_ul_bits ?p) = 10" by (simp add: mac_end_ul_bits_def)
  have "mac_end_ul_ok ?p" by (simp add: mac_end_ul_ok_def)
  moreover have "can_write ?e (length (mac_end_ul_bits ?p))" by (simp add: can_write_def growable_def view_wf_def)
  moreover have "view_wf ?c" "remaining ?c = mac_end_ul_bits ?p @ []" using len by (simp_all add: view_wf_def remaining_def)
  ultimately show ?thesis
    using mac_end_ul_reservation_lost [OF view_machine.bit_buffer_axioms, of ?p ?e] by fastforce
qed

text \<open>An encrypted MAC-DATA that carries an address is read, with the identity of an encrypted individual address
  typed as such, but the PDU so read makes the writer panic wherever it is written.\<close>

lemma mac_data_encrypted_unwritable:
  assumes "bit_buffer ops view" and "mac_data_readable p" and "da_encrypted p" and "da_addr p \<noteq> None"
    and "view_wf (view c)" and "remaining (view c) = mac_data_bits p @ t"
  shows "\<exists>q c'. mac_data_from_bitbuf ops c = Some (Inr q, c') \<and> view c' = advance (view c) (length (mac_data_bits p))
    \<and> q = canon_data p \<and> (\<forall>b. mac_data_to_bitbuf ops q b = None)"
proof -
  obtain a where a: "da_addr p = Some a" using assms(4) by auto
  have "ssi_type a = Esi"
    using assms(2,3) a by (auto simp: mac_data_readable_def uplink_address_ok_def)
  then have "ssi_type (canon_uplink_address a) = Esi" by (simp add: canon_uplink_address_def)
  then have "mac_data_write_address ops (canon_data p) b = None" for b
    by (simp add: mac_data_write_address_def canon_data_def a stmts.simps w_assert_def w_panic_def)
  then have "mac_data_to_bitbuf ops (canon_data p) b = None" for b
    by (simp add: mac_data_to_bitbuf_def stmts.simps split: option.splits)
  then show ?thesis
    using bit_buffer.parses_Some [OF assms(1) bit_buffer.parses_mac_data [OF assms(1,2)] assms(5,6)] by blast
qed

theorem mac_data_encrypted_unwritable_witness:
  "\<exists>q c'. mac_data_from_bitbuf view_ops \<lparr>raw_bits = mac_data_bits \<lparr>da_fill_bits = False, da_encrypted = True,
        da_addr = Some \<lparr>ssi = 4242, ssi_type = Esi\<rparr>, da_event_label = None, da_length_ind = Some 5, da_frag_flag = None,
        da_reservation_req = None\<rparr>, raw_start = 0, raw_pos = 0, raw_end = 37, raw_auto = False\<rparr> = Some (Inr q, c')
     \<and> mac_data_to_bitbuf view_ops q c' = None"
proof -
  let ?p = "\<lparr>da_fill_bits = False, da_encrypted = True, da_addr = Some \<lparr>ssi = 4242, ssi_type = Esi\<rparr>, da_event_label = None,
    da_length_ind = Some 5, da_frag_flag = None, da_reservation_req = None\<rparr>"
  let ?c = "\<lparr>raw_bits = mac_data_bits ?p, raw_start = 0, raw_pos = 0, raw_end = 37, raw_auto = False\<rparr>"
  have "length (mac_data_bits ?p) = 37" by (simp add: mac_data_bits_def uplink_address_bits_def)
  then have "view_wf ?c" "remaining ?c = mac_data_bits ?p @ []" by (simp_all add: view_wf_def remaining_def)
  moreover have "mac_data_readable ?p" by (simp add: mac_data_readable_def uplink_address_ok_def)
  ultimately show ?thesis
    using mac_data_encrypted_unwritable [OF view_machine.bit_buffer_axioms, of ?p ?c "[]"] by fastforce
qed

end
