(* ===== verification/Aach_Path.thy ===== *)
theory Aach_Path
  imports Mac_Broadcast Errorcontrol
begin

text \<open>
  The path of an access assignment: written by the scheduler into a 14-bit block
  (\<^verbatim>\<open>pdus/access_assign.rs\<close>), encoded by the lower MAC (\<^verbatim>\<open>encode_aach\<close>), flipped on the air, decoded
  (\<^verbatim>\<open>decode_aach\<close>) and parsed.
\<close>

declare val_bits.simps(2) [simp del]

lemma length_access_assign_bits [simp]: "length (access_assign_bits p) = 14"
  by (cases p) simp_all

lemma put_bits_whole:
  assumes "at_start v zs" and "length xs = length zs"
  shows "can_write v (length xs)" and "view_wf ((put_bits v xs)\<lparr>raw_pos := raw_start v\<rparr>)"
    and "remaining ((put_bits v xs)\<lparr>raw_pos := raw_start v\<rparr>) = xs"
  using assms at_start_length [OF assms(1)]
  by (auto simp: at_start_def can_write_def put_bits_def overwrite_def remaining_def view_wf_def min_def)

section \<open>Properties\<close>

text \<open>C22: An access assignment reaches the terminal through any three bit errors: written into a fresh 14-bit block,
  encoded, hit by at most three flips among the 30 bits on the air and decoded, it is parsed back as it was.\<close>

theorem access_assignment_delivered:
  assumes "bit_buffer ops view" and "access_assign_ok p"
  shows "\<exists>b. access_assign_to_bitbuf ops p (bb_new ops 14) = Some b \<and>
    (\<forall>c. view c = (view b)\<lparr>raw_pos := raw_start (view b)\<rparr> \<longrightarrow>
      (\<exists>sent. encode_aach ops c code = Some sent \<and> length (window (view sent)) = 30 \<and>
        (\<forall>rx e. view_wf (view rx) \<and> length e = 30 \<and> length (filter id e) \<le> 3
           \<and> remaining (view rx) = xor_list (window (view sent)) e
         \<longrightarrow> (\<exists>d d'. decode_aach ops rx code = Some (Inr d) \<and> access_assign_from_bitbuf ops d = Some (Inr p, d')))))"
proof -
  let ?xs = "access_assign_bits p"
  have new: "at_start (view (bb_new ops 14)) (replicate 14 False)" by (rule bit_buffer.new_buf [OF assms(1)])
  note whole = put_bits_whole [OF new, of ?xs, simplified]
  obtain b where b: "access_assign_to_bitbuf ops p (bb_new ops 14) = Some b" "view b = put_bits (view (bb_new ops 14)) ?xs"
    using bit_buffer.emits_Some [OF assms(1) bit_buffer.emits_access_assign [OF assms], of "bb_new ops 14"] whole(1) by auto
  have start: "raw_start (view b) = raw_start (view (bb_new ops 14))" by (simp add: b(2) put_bits_def)
  have "\<exists>sent. encode_aach ops c code = Some sent \<and> length (window (view sent)) = 30 \<and>
      (\<forall>rx e. view_wf (view rx) \<and> length e = 30 \<and> length (filter id e) \<le> 3
         \<and> remaining (view rx) = xor_list (window (view sent)) e
       \<longrightarrow> (\<exists>d d'. decode_aach ops rx code = Some (Inr d) \<and> access_assign_from_bitbuf ops d = Some (Inr p, d')))"
    if c: "view c = (view b)\<lparr>raw_pos := raw_start (view b)\<rparr>" for c
  proof -
    have "view_wf (view c)" "remaining (view c) = ?xs" using whole(2,3) by (simp_all add: c start b(2) del: at_start_def)
    from aach_three_errors [OF assms(1) this length_access_assign_bits, of code] obtain sent
      where s: "encode_aach ops c code = Some sent" "length (window (view sent)) = 30"
        "\<And>rx e. \<lbrakk>view_wf (view rx); length e = 30; length (filter id e) \<le> 3; remaining (view rx) = xor_list (window (view sent)) e\<rbrakk>
         \<Longrightarrow> \<exists>d. decode_aach ops rx code = Some (Inr d) \<and> at_start (view d) ?xs"
      by blast
    moreover have "\<exists>d'. access_assign_from_bitbuf ops d = Some (Inr p, d')" if "at_start (view d) ?xs" for d
      using bit_buffer.parses_Some [OF assms(1) bit_buffer.parses_access_assign [OF assms], of d "[]"] that
        at_start_remaining [OF that] by (auto simp: at_start_def)
    ultimately show ?thesis by metis
  qed
  with b(1) show ?thesis by blast
qed

theorem access_assignment_delivered_witness:
  "\<exists>b. access_assign_to_bitbuf view_ops (DownlinkDefinedUplinkDefined (DlTraffic 9) (UlTraffic 9)) (bb_new view_ops 14) = Some b
    \<and> (\<exists>sent. encode_aach view_ops (b\<lparr>raw_pos := raw_start b\<rparr>) 3 = Some sent)"
proof -
  have "access_assign_ok (DownlinkDefinedUplinkDefined (DlTraffic 9) (UlTraffic 9))" by simp
  from access_assignment_delivered [OF view_machine.bit_buffer_axioms this, of 3] show ?thesis by blast
qed

end
