(* ===== verification/Fill_Bits.thy ===== *)
theory Fill_Bits
  imports Pdu_Codec
begin

text \<open>
  Fill bits, \<^verbatim>\<open>crates/tetra-entities/src/umac/subcomp/fillbits.rs\<close>: a PDU that ends before its slot
  or its last octet is closed by a one and zeros, which the receiver strips from the end.
\<close>

declare val_bits.simps(2) [simp del]

section \<open>Removal\<close>

text \<open>The loop runs down from the last bit of the PDU; \<open>n\<close> is one more than its index.\<close>

primrec fill_scan :: "'b bitbuf_ops \<Rightarrow> 'b \<Rightarrow> nat \<Rightarrow> nat \<Rightarrow> nat option" where
  "fill_scan ops b pdu_len 0 = Some 0"
| "fill_scan ops b pdu_len (Suc index) =
     (if index < bb_get_pos ops b then Some 0
      else do {
        bit \<leftarrow> bb_peek_bits_startoffset ops b index 1;
        if bit = 0 then fill_scan ops b pdu_len index else Some (pdu_len - index) })"

definition get_num_fill_bits :: "'b bitbuf_ops \<Rightarrow> 'b \<Rightarrow> nat \<Rightarrow> nat option" where
  "get_num_fill_bits ops b pdu_len_bits = fill_scan ops b pdu_len_bits pdu_len_bits"

section \<open>Addition\<close>

definition compute_required_bytealigned :: "nat \<Rightarrow> nat" where
  "compute_required_bytealigned total_len = (8 - total_len mod 8) mod 8"

definition compute_required :: "nat \<Rightarrow> nat \<Rightarrow> nat" where
  "compute_required total_len dest_cap_left =
     (if dest_cap_left \<le> total_len then 0
      else let bytealigned_fill_bits = compute_required_bytealigned total_len in
        if total_len + bytealigned_fill_bits \<le> dest_cap_left then bytealigned_fill_bits
        else dest_cap_left - total_len)"

definition fill_write :: "'b bitbuf_ops \<Rightarrow> 'b \<Rightarrow> nat option \<Rightarrow> 'b option" where
  "fill_write ops b num_fill_bits = (case num_fill_bits of
     Some num \<Rightarrow> if num > 0 then do { b \<leftarrow> bb_write_bit ops b 1; bb_write_zeroes ops b (num - 1) } else Some b
   | None \<Rightarrow> if bb_get_len_remaining ops b > 0
       then do { b \<leftarrow> bb_write_bit ops b 1; bb_write_zeroes ops b (bb_get_len_remaining ops b) } else Some b)"

section \<open>Lemmas\<close>

definition fill_bits :: "nat \<Rightarrow> bool list" where
  "fill_bits n = (if n = 0 then [] else True # replicate (n - 1) False)"

lemma length_fill_bits [simp]: "length (fill_bits n) = n"
  by (simp add: fill_bits_def)

lemma compute_required_facts:
  "compute_required n c < 8"
  "n \<le> c \<Longrightarrow> n + compute_required n c \<le> c"
  "n \<le> c \<Longrightarrow> 8 dvd n + compute_required n c \<or> n + compute_required n c = c"
proof -
  have "compute_required_bytealigned n < 8" by (simp add: compute_required_bytealigned_def)
  then show "compute_required n c < 8" by (auto simp: compute_required_def Let_def)
  show "n \<le> c \<Longrightarrow> n + compute_required n c \<le> c" by (auto simp: compute_required_def Let_def)
  have "(n + (8 - n mod 8) mod 8) mod 8 = (n mod 8 + (8 - n mod 8)) mod 8" by (metis mod_add_eq mod_mod_trivial)
  also have "n mod 8 + (8 - n mod 8) = 8" by (simp add: less_imp_le)
  finally have "8 dvd n + compute_required_bytealigned n" by (simp add: compute_required_bytealigned_def mod_eq_0_iff_dvd)
  then show "n \<le> c \<Longrightarrow> 8 dvd n + compute_required n c \<or> n + compute_required n c = c"
    by (auto simp: compute_required_def Let_def)
qed

lemma compute_required_fits: "n + compute_required n c \<le> c \<longleftrightarrow> n \<le> c"
  using compute_required_facts(2) [of n c] by (auto simp: compute_required_def)

context bit_buffer
begin

lemma fill_write_some: "emits (\<lambda>b. fill_write ops b (Some n)) (fill_bits n)"
proof (cases n)
  case 0
  then show ?thesis by (auto simp: emits_def fill_write_def fill_bits_def can_write_def)
next
  case (Suc k)
  show ?thesis unfolding emits_def
  proof (intro allI impI)
    fix b
    assume w: "can_write (view b) (length (fill_bits n))"
    then have "can_write (view b) 1" using can_write_le [OF w, of 1] Suc by simp
    from write_bit [OF this, of True] obtain b1 where b1: "bb_write_bit ops b 1 = Some b1" "view b1 = put_bits (view b) [True]"
      by (auto simp: bit_of_def)
    have "can_write (view b1) k" using can_write_put [of "view b" "[True]" k] w Suc by (simp add: b1(2))
    from write_zeroes [OF this] obtain b2 where b2: "bb_write_zeroes ops b1 k = Some b2"
        "view b2 = put_bits (view b1) (replicate k False)" by auto
    have "view b2 = put_bits (view b) (fill_bits n)"
      using put_bits_append [OF can_write_wf [OF w], of "[True]" "replicate k False"] Suc by (simp add: b1 b2 fill_bits_def)
    then show "\<exists>b'. fill_write ops b (Some n) = Some b' \<and> view b' = put_bits (view b) (fill_bits n)"
      using b1 b2 Suc by (simp add: fill_write_def)
  qed
qed

lemma fill_write_none_full:
  "\<lbrakk>view_wf (view b); raw_pos (view b) = raw_end (view b)\<rbrakk> \<Longrightarrow> fill_write ops b None = Some b"
  by (simp add: fill_write_def get_len_remaining)

lemma fill_scan_zeros:
  assumes wf: "view_wf (view b)" and z: "remaining (view b) = xs @ replicate n False @ zs"
  shows "fill_scan ops b len (bb_get_pos ops b + length xs + n) = fill_scan ops b len (bb_get_pos ops b + length xs)"
  using z
proof (induction n arbitrary: zs)
  case (Suc n)
  let ?i = "bb_get_pos ops b + length xs + n"
  have len: "raw_pos (view b) + (length xs + Suc n) \<le> raw_end (view b)"
    using length_remaining [OF wf] Suc.prems wf by (simp add: view_wf_def)
  have pos: "raw_start (view b) + bb_get_pos ops b = raw_pos (view b)" using wf by (simp add: get_pos [OF wf] view_wf_def)
  have "take 1 (drop (raw_pos (view b) + (length xs + n)) (raw_bits (view b))) = take 1 (drop (length xs + n) (remaining (view b)))"
    using len by (simp add: remaining_def drop_take add.commute)
  also have "\<dots> = [False]" by (simp add: Suc.prems replicate_append_same [symmetric])
  finally have "take 1 (drop (raw_start (view b) + ?i) (raw_bits (view b))) = [False]"
    by (simp add: pos [symmetric] add.assoc)
  with peek_bits_startoffset [OF wf, of 1 ?i] len pos have "bb_peek_bits_startoffset ops b ?i 1 = Some 0"
    by (simp add: bits_val_def)
  moreover have "remaining (view b) = xs @ replicate n False @ False # zs" using Suc.prems by (simp add: replicate_app_Cons_same)
  ultimately show ?case using Suc.IH by simp
qed simp

text \<open>What was added is what is removed.\<close>

lemma get_num_fill_bits_added:
  assumes wf: "view_wf (view b)" and z: "remaining (view b) = xs @ fill_bits n @ zs" and n: "0 < n"
  shows "get_num_fill_bits ops b (bb_get_pos ops b + length xs + n) = Some n"
proof -
  obtain k where k: "n = Suc k" using n by (cases n) auto
  let ?i = "bb_get_pos ops b + length xs"
  have z': "remaining (view b) = (xs @ [True]) @ replicate k False @ zs" using z by (simp add: k fill_bits_def)
  have pos: "raw_start (view b) + bb_get_pos ops b = raw_pos (view b)" using wf by (simp add: get_pos [OF wf] view_wf_def)
  have len: "raw_pos (view b) + (length xs + Suc k) \<le> raw_end (view b)"
    using length_remaining [OF wf] z' wf by (simp add: view_wf_def)
  have "take 1 (drop (raw_pos (view b) + length xs) (raw_bits (view b))) = take 1 (drop (length xs) (remaining (view b)))"
    using len by (simp add: remaining_def drop_take add.commute)
  also have "\<dots> = [True]" by (simp add: z')
  finally have "take 1 (drop (raw_start (view b) + ?i) (raw_bits (view b))) = [True]"
    by (simp add: pos [symmetric] add.assoc)
  with peek_bits_startoffset [OF wf, of 1 ?i] len pos have "bb_peek_bits_startoffset ops b ?i 1 = Some 1"
    by (simp add: bits_val_def)
  then show ?thesis
    using fill_scan_zeros [OF wf z', of "?i + n"] by (simp add: get_num_fill_bits_def k add.commute add.left_commute)
qed

end

end
