(* ===== verification/Defrag.thy ===== *)
theory Defrag
  imports Pdu_Codec Tetra_Types Circuit_Types
begin

text \<open>
  Reassembly of fragmented MAC SDUs: the buffer of one SDU
  (\<^verbatim>\<open>crates/tetra-entities/src/umac/subcomp/defrag.rs\<close>), the base station's set of them
  (\<^verbatim>\<open>bs_defrag.rs\<close>, by originating timeslot and identity) and the terminal's (\<^verbatim>\<open>ms_defrag.rs\<close>, one
  per timeslot).
\<close>

section \<open>The buffer of an SDU\<close>

datatype defrag_state = Inactive | Active | Complete

record 'b defrag_buffer =
  db_state :: defrag_state
  db_addr :: tetra_address
  db_t_first :: tdma_time
  db_t_last :: tdma_time
  db_num_frags :: nat
  db_aie :: "aie_request option"
  db_buffer :: 'b

definition DEFRAG_BUF_INITIAL_LEN :: nat where
  "DEFRAG_BUF_INITIAL_LEN = 512"

definition DEFRAG_BUF_MAX_LEN :: nat where
  "DEFRAG_BUF_MAX_LEN = 4096"

definition DEFRAG_TS_BEFORE_TIMEOUT :: int where
  "DEFRAG_TS_BEFORE_TIMEOUT = 10 * 4"

definition defrag_new :: "'b bitbuf_ops \<Rightarrow> 'b defrag_buffer" where
  "defrag_new ops = \<lparr>db_state = Inactive, db_addr = \<lparr>ssi = 0, ssi_type = Issi\<rparr>, db_t_first = default_time,
     db_t_last = default_time, db_num_frags = 0, db_aie = None, db_buffer = bb_new_autoexpand ops DEFRAG_BUF_INITIAL_LEN\<rparr>"

definition defrag_reset :: "'b bitbuf_ops \<Rightarrow> 'b defrag_buffer \<Rightarrow> 'b defrag_buffer" where
  "defrag_reset ops buf = buf\<lparr>db_state := Inactive, db_addr := \<lparr>ssi = 0, ssi_type = Issi\<rparr>, db_t_first := default_time,
     db_t_last := default_time, db_num_frags := 0, db_aie := None, db_buffer := bb_new_autoexpand ops DEFRAG_BUF_INITIAL_LEN\<rparr>"

section \<open>The base station's defragmenter\<close>

type_synonym 'b bs_defrag = "(u32 \<Rightarrow> 'b defrag_buffer option) list"

definition bs_defrag_new :: "'b bs_defrag" where
  "bs_defrag_new = [Map.empty, Map.empty, Map.empty, Map.empty]"

definition bs_defrag_reset :: "'b bs_defrag \<Rightarrow> 'b bs_defrag" where
  "bs_defrag_reset d = map (\<lambda>m. Map.empty) d"

definition bs_age_buffers :: "'b bitbuf_ops \<Rightarrow> tdma_time \<Rightarrow> 'b bs_defrag \<Rightarrow> 'b bs_defrag" where
  "bs_age_buffers ops t d = map (\<lambda>m s. map_option (\<lambda>buffer.
     if db_state buffer \<noteq> Inactive \<and> diff t (db_t_last buffer) > DEFRAG_TS_BEFORE_TIMEOUT
     then defrag_reset ops buffer else buffer) (m s)) d"

definition is_active_at :: "u32 \<Rightarrow> (u32 \<Rightarrow> 'b defrag_buffer option) \<Rightarrow> bool" where
  "is_active_at s m = (case m s of Some buffer \<Rightarrow> db_state buffer = Active | None \<Rightarrow> False)"

definition active_buffer_slot :: "'b bs_defrag \<Rightarrow> u32 \<Rightarrow> tdma_time \<Rightarrow> nat option option" where
  "active_buffer_slot d s t = do {
     current \<leftarrow> slot_get d (time_t t);
     if is_active_at s current then Some (Some (time_t t - 1))
     else Some (map_option fst (min_by_key (\<lambda>(ts, age). if age \<ge> 0 then age else 2147483647)
       (List.map_filter (\<lambda>(ts, buffers). case buffers s of None \<Rightarrow> None
          | Some buffer \<Rightarrow> if db_state buffer = Active then Some (ts, diff t (db_t_last buffer)) else None)
          (enumerate 0 d)))) }"

definition append_fragment ::
  "'b bitbuf_ops \<Rightarrow> 'b bs_defrag \<Rightarrow> 'b \<Rightarrow> u32 \<Rightarrow> tdma_time \<Rightarrow> nat \<Rightarrow> (bool \<times> 'b bs_defrag \<times> 'b) option" where
  "append_fragment ops d bitbuffer s t origin_ts = do {
     m \<leftarrow> aget d origin_ts;
     case m s of
       None \<Rightarrow> Some (False, d, bitbuffer)
     | Some buf \<Rightarrow>
         if db_state buf \<noteq> Active then Some (False, d, bitbuffer)
         else if bb_get_len ops (db_buffer buf) + bb_get_len_remaining ops bitbuffer > DEFRAG_BUF_MAX_LEN then
           Some (False, d[origin_ts := m(s \<mapsto> defrag_reset ops buf)], bitbuffer)
         else do {
           (buffer, bitbuffer) \<leftarrow> bb_copy_bits ops (db_buffer buf) bitbuffer (bb_get_len_remaining ops bitbuffer);
           Some (True, d[origin_ts := m(s \<mapsto> buf\<lparr>db_t_last := t, db_num_frags := db_num_frags buf + 1, db_buffer := buffer\<rparr>)],
             bitbuffer) } }"

definition bs_insert_first ::
  "'b bitbuf_ops \<Rightarrow> 'b bs_defrag \<Rightarrow> 'b \<Rightarrow> tdma_time \<Rightarrow> tetra_address \<Rightarrow> aie_request option \<Rightarrow> ('b bs_defrag \<times> 'b) option" where
  "bs_insert_first ops d bitbuffer t addr aie = do {
     let s = ssi addr;
     let removed = List.map_filter (\<lambda>m. m s) d;
     let d = map (\<lambda>m. m(s := None)) d;
     let buf = (case removed of [] \<Rightarrow> defrag_new ops | old # _ \<Rightarrow> defrag_reset ops old);
     (buffer, bitbuffer) \<leftarrow> bb_copy_bits ops (db_buffer buf) bitbuffer (bb_get_len_remaining ops bitbuffer);
     let buf = buf\<lparr>db_state := Active, db_addr := addr, db_t_first := t, db_t_last := t, db_num_frags := 1, db_aie := aie,
       db_buffer := buffer\<rparr>;
     m \<leftarrow> slot_get d (time_t t);
     d \<leftarrow> slot_put d (time_t t) (m(s \<mapsto> buf));
     Some (d, bitbuffer) }"

definition bs_insert_next ::
  "'b bitbuf_ops \<Rightarrow> 'b bs_defrag \<Rightarrow> 'b \<Rightarrow> u32 \<Rightarrow> tdma_time \<Rightarrow> ('b bs_defrag \<times> 'b) option" where
  "bs_insert_next ops d bitbuffer s t = do {
     origin \<leftarrow> active_buffer_slot d s t;
     case origin of None \<Rightarrow> Some (d, bitbuffer)
     | Some origin_ts \<Rightarrow> map_option snd (append_fragment ops d bitbuffer s t origin_ts) }"

definition bs_insert_last ::
  "'b bitbuf_ops \<Rightarrow> 'b bs_defrag \<Rightarrow> 'b \<Rightarrow> u32 \<Rightarrow> tdma_time \<Rightarrow> ('b defrag_buffer option \<times> 'b bs_defrag \<times> 'b) option" where
  "bs_insert_last ops d bitbuffer s t = do {
     origin \<leftarrow> active_buffer_slot d s t;
     case origin of None \<Rightarrow> Some (None, d, bitbuffer)
     | Some origin_ts \<Rightarrow> do {
         (appended, d, bitbuffer) \<leftarrow> append_fragment ops d bitbuffer s t origin_ts;
         if \<not> appended then Some (None, d, bitbuffer)
         else do {
           m \<leftarrow> aget d origin_ts;
           case m s of
             None \<Rightarrow> Some (None, d, bitbuffer)
           | Some buf \<Rightarrow> do {
               buffer \<leftarrow> bb_set_raw_pos ops (db_buffer buf) 0;
               Some (Some (buf\<lparr>db_state := Complete, db_buffer := buffer\<rparr>), d[origin_ts := m(s := None)], bitbuffer) } } } }"

definition bs_get_aie_request :: "'b bs_defrag \<Rightarrow> u32 \<Rightarrow> tdma_time \<Rightarrow> aie_request option option" where
  "bs_get_aie_request d s t = do {
     origin \<leftarrow> active_buffer_slot d s t;
     case origin of None \<Rightarrow> Some None
     | Some origin_ts \<Rightarrow> do { m \<leftarrow> aget d origin_ts; Some (Option.bind (m s) db_aie) } }"

section \<open>The terminal's defragmenter\<close>

type_synonym 'b ms_defrag = "'b defrag_buffer list"

definition ms_defrag_new :: "'b bitbuf_ops \<Rightarrow> 'b ms_defrag" where
  "ms_defrag_new ops = [defrag_new ops, defrag_new ops, defrag_new ops, defrag_new ops]"

definition ms_defrag_reset :: "'b bitbuf_ops \<Rightarrow> 'b ms_defrag \<Rightarrow> 'b ms_defrag" where
  "ms_defrag_reset ops d = map (defrag_reset ops) d"

definition ms_age_buffers :: "'b bitbuf_ops \<Rightarrow> tdma_time \<Rightarrow> 'b ms_defrag \<Rightarrow> 'b ms_defrag" where
  "ms_age_buffers ops t d = map (\<lambda>buffer.
     if db_state buffer \<noteq> Inactive \<and> diff t (db_t_last buffer) > DEFRAG_TS_BEFORE_TIMEOUT
     then defrag_reset ops buffer else buffer) d"

definition ms_insert_first ::
  "'b bitbuf_ops \<Rightarrow> 'b ms_defrag \<Rightarrow> 'b \<Rightarrow> tdma_time \<Rightarrow> tetra_address \<Rightarrow> aie_request option \<Rightarrow> ('b ms_defrag \<times> 'b) option" where
  "ms_insert_first ops d bitbuffer t addr aie = do {
     buf \<leftarrow> slot_get d (time_t t);
     let buf = (if db_state buf \<noteq> Inactive then defrag_reset ops buf else buf);
     (buffer, bitbuffer) \<leftarrow> bb_copy_bits ops (db_buffer buf) bitbuffer (bb_get_len_remaining ops bitbuffer);
     d \<leftarrow> slot_put d (time_t t) (buf\<lparr>db_state := Active, db_addr := addr, db_t_first := t, db_t_last := t, db_num_frags := 1,
       db_aie := aie, db_buffer := buffer\<rparr>);
     Some (d, bitbuffer) }"

text \<open>\<open>insert_next\<close> and \<open>insert_last\<close> differ in the state they leave.\<close>

definition ms_insert_more ::
  "'b bitbuf_ops \<Rightarrow> defrag_state \<Rightarrow> 'b ms_defrag \<Rightarrow> 'b \<Rightarrow> tdma_time \<Rightarrow> ('b ms_defrag \<times> 'b) option" where
  "ms_insert_more ops st d bitbuffer t = do {
     buf \<leftarrow> slot_get d (time_t t);
     if db_state buf \<noteq> Active then Some (d, bitbuffer)
     else if bb_get_len ops (db_buffer buf) + bb_get_len_remaining ops bitbuffer > DEFRAG_BUF_MAX_LEN then do {
       d \<leftarrow> slot_put d (time_t t) (defrag_new ops);
       Some (d, bitbuffer) }
     else do {
       (buffer, bitbuffer) \<leftarrow> bb_copy_bits ops (db_buffer buf) bitbuffer (bb_get_len_remaining ops bitbuffer);
       d \<leftarrow> slot_put d (time_t t) (buf\<lparr>db_state := st, db_t_last := t, db_num_frags := db_num_frags buf + 1, db_buffer := buffer\<rparr>);
       Some (d, bitbuffer) } }"

definition ms_insert_next :: "'b bitbuf_ops \<Rightarrow> 'b ms_defrag \<Rightarrow> 'b \<Rightarrow> tdma_time \<Rightarrow> ('b ms_defrag \<times> 'b) option" where
  "ms_insert_next ops d bitbuffer t = ms_insert_more ops Active d bitbuffer t"

definition ms_insert_last :: "'b bitbuf_ops \<Rightarrow> 'b ms_defrag \<Rightarrow> 'b \<Rightarrow> tdma_time \<Rightarrow> ('b ms_defrag \<times> 'b) option" where
  "ms_insert_last ops d bitbuffer t = ms_insert_more ops Complete d bitbuffer t"

definition ms_get_aie_request :: "'b ms_defrag \<Rightarrow> tdma_time \<Rightarrow> aie_request option option" where
  "ms_get_aie_request d t = do {
     buf \<leftarrow> slot_get d (time_t t);
     Some (if db_state buf \<noteq> Active then None else db_aie buf) }"

definition take_defragged_buf :: "'b bitbuf_ops \<Rightarrow> 'b ms_defrag \<Rightarrow> tdma_time \<Rightarrow> ('b defrag_buffer option \<times> 'b ms_defrag) option" where
  "take_defragged_buf ops d t = do {
     buf \<leftarrow> slot_get d (time_t t);
     if db_state buf \<noteq> Complete then Some (None, d)
     else do {
       d \<leftarrow> slot_put d (time_t t) (defrag_new ops);
       buffer \<leftarrow> bb_set_raw_end ops (db_buffer buf) (bb_get_raw_pos ops (db_buffer buf));
       buffer \<leftarrow> bb_seek ops buffer 0;
       Some (Some (buf\<lparr>db_buffer := buffer\<rparr>), d) } }"

section \<open>Abstract reassembly\<close>

text \<open>What the base station's defragmenter promises: per identity at most one pending SDU, with the bits so far.\<close>

record frag =
  fr_bits :: "bool list"
  fr_addr :: tetra_address
  fr_first :: tdma_time
  fr_last :: tdma_time
  fr_count :: nat
  fr_aie :: "aie_request option"

datatype 'x defrag_event =
    First tdma_time tetra_address "aie_request option" 'x
  | Next u32 tdma_time 'x
  | Last u32 tdma_time 'x
  | Age tdma_time
  | ResetAll

fun event_ok :: "('x \<Rightarrow> bool) \<Rightarrow> 'x defrag_event \<Rightarrow> bool" where
  "event_ok P (First t a r x) = (slot_ok (time_t t) \<and> P x)"
| "event_ok P (Next s t x) = (slot_ok (time_t t) \<and> P x)"
| "event_ok P (Last s t x) = (slot_ok (time_t t) \<and> P x)"
| "event_ok P _ = True"

definition add_frag :: "tdma_time \<Rightarrow> bool list \<Rightarrow> frag \<Rightarrow> frag option" where
  "add_frag t xs f = (if length (fr_bits f) + length xs > DEFRAG_BUF_MAX_LEN then None
     else Some (f\<lparr>fr_bits := fr_bits f @ xs, fr_last := t, fr_count := fr_count f + 1\<rparr>))"

fun spec_step :: "bool list defrag_event \<Rightarrow> (u32 \<Rightarrow> frag option) \<Rightarrow> frag option \<times> (u32 \<Rightarrow> frag option)" where
  "spec_step (First t a r xs) m =
     (None, m(ssi a \<mapsto> \<lparr>fr_bits = xs, fr_addr = a, fr_first = t, fr_last = t, fr_count = 1, fr_aie = r\<rparr>))"
| "spec_step (Next s t xs) m = (None, m(s := Option.bind (m s) (add_frag t xs)))"
| "spec_step (Last s t xs) m = (Option.bind (m s) (add_frag t xs), m(s := None))"
| "spec_step (Age t) m = (None, \<lambda>s. case m s of None \<Rightarrow> None
     | Some f \<Rightarrow> if diff t (fr_last f) > DEFRAG_TS_BEFORE_TIMEOUT then None else Some f)"
| "spec_step ResetAll m = (None, Map.empty)"

fun bs_step :: "'b bitbuf_ops \<Rightarrow> 'b defrag_event \<Rightarrow> 'b bs_defrag \<Rightarrow> ('b defrag_buffer option \<times> 'b bs_defrag) option" where
  "bs_step ops (First t a r b) d = do { (d, b) \<leftarrow> bs_insert_first ops d b t a r; Some (None, d) }"
| "bs_step ops (Next s t b) d = do { (d, b) \<leftarrow> bs_insert_next ops d b s t; Some (None, d) }"
| "bs_step ops (Last s t b) d = do { (x, d, b) \<leftarrow> bs_insert_last ops d b s t; Some (x, d) }"
| "bs_step ops (Age t) d = Some (None, bs_age_buffers ops t d)"
| "bs_step ops ResetAll d = Some (None, bs_defrag_reset d)"

text \<open>A sequence of calls, with what the calls to \<open>insert_last\<close> return.\<close>

fun bs_run :: "'b bitbuf_ops \<Rightarrow> 'b defrag_event list \<Rightarrow> 'b bs_defrag \<Rightarrow> ('b defrag_buffer option list \<times> 'b bs_defrag) option" where
  "bs_run ops [] d = Some ([], d)"
| "bs_run ops (e # es) d = do { (x, d) \<leftarrow> bs_step ops e d; (xs, d) \<leftarrow> bs_run ops es d; Some (x # xs, d) }"

fun spec_run :: "bool list defrag_event list \<Rightarrow> (u32 \<Rightarrow> frag option) \<Rightarrow> frag option list \<times> (u32 \<Rightarrow> frag option)" where
  "spec_run [] m = ([], m)"
| "spec_run (e # es) m = (let (x, m) = spec_step e m; (xs, m) = spec_run es m in (x # xs, m))"

section \<open>Refinement\<close>

text \<open>A buffer that was only ever appended to.\<close>

definition grown :: "bool list \<Rightarrow> buf_view" where
  "grown xs = \<lparr>raw_bits = xs, raw_start = 0, raw_pos = length xs, raw_end = length xs, raw_auto = True\<rparr>"

lemma grown_facts [simp]:
  "view_wf (grown xs)" "can_write (grown xs) n" "put_bits (grown xs) ys = grown (xs @ ys)"
  "raw_start (grown xs) = 0" "raw_end (grown xs) = length xs" "raw_pos (grown xs) = length xs" "raw_bits (grown xs) = xs"
  by (simp_all add: grown_def view_wf_def can_write_def growable_def put_bits_def overwrite_def)

definition frag_of :: "('b \<Rightarrow> buf_view) \<Rightarrow> 'b defrag_buffer \<Rightarrow> frag" where
  "frag_of view buf = \<lparr>fr_bits = window (view (db_buffer buf)), fr_addr = db_addr buf, fr_first = db_t_first buf,
     fr_last = db_t_last buf, fr_count = db_num_frags buf, fr_aie = db_aie buf\<rparr>"

definition holds_frag :: "('b \<Rightarrow> buf_view) \<Rightarrow> 'b defrag_buffer \<Rightarrow> frag \<Rightarrow> bool" where
  "holds_frag view buf f \<longleftrightarrow> db_state buf = Active \<and> view (db_buffer buf) = grown (fr_bits f) \<and> frag_of view buf = f"

definition refines :: "('b \<Rightarrow> buf_view) \<Rightarrow> 'b bs_defrag \<Rightarrow> (u32 \<Rightarrow> frag option) \<Rightarrow> bool" where
  "refines view d m \<longleftrightarrow> length d = 4 \<and> (\<forall>s. case m s of
     None \<Rightarrow> \<forall>i<4. \<not> is_active_at s (d ! i)
   | Some f \<Rightarrow> \<exists>i<4. (\<exists>buf. (d ! i) s = Some buf \<and> holds_frag view buf f) \<and> (\<forall>j<4. j \<noteq> i \<longrightarrow> (d ! j) s = None))"

text \<open>The bits that an event brings.\<close>

definition event_bits :: "('b \<Rightarrow> buf_view) \<Rightarrow> 'b defrag_event \<Rightarrow> bool list defrag_event" where
  "event_bits view e = map_defrag_event (\<lambda>b. remaining (view b)) e"

definition starts_window :: "('b \<Rightarrow> buf_view) \<Rightarrow> 'b defrag_buffer \<Rightarrow> bool" where
  "starts_window view buf \<longleftrightarrow> at_start (view (db_buffer buf)) (window (view (db_buffer buf))) \<and> db_state buf = Complete"

lemma refines_new: "refines view bs_defrag_new Map.empty"
  by (auto simp: refines_def bs_defrag_new_def is_active_at_def less_Suc_eq numeral_eq_Suc)

lemma refines_length: "refines view d m \<Longrightarrow> length d = 4"
  by (simp add: refines_def)

lemma refines_None: "\<lbrakk>refines view d m; m s = None; i < 4\<rbrakk> \<Longrightarrow> \<not> is_active_at s (d ! i)"
  unfolding refines_def by (metis (mono_tags, lifting) option.simps(4))

lemma refines_SomeE:
  assumes "refines view d m" and "m s = Some f"
  obtains i buf where "i < 4" "(d ! i) s = Some buf" "holds_frag view buf f" "\<And>j. \<lbrakk>j < 4; j \<noteq> i\<rbrakk> \<Longrightarrow> (d ! j) s = None"
proof -
  from assms(1) have "\<forall>s. case m s of None \<Rightarrow> \<forall>i<4. \<not> is_active_at s (d ! i)
   | Some f \<Rightarrow> \<exists>i<4. (\<exists>buf. (d ! i) s = Some buf \<and> holds_frag view buf f) \<and> (\<forall>j<4. j \<noteq> i \<longrightarrow> (d ! j) s = None)"
    by (simp add: refines_def)
  from spec [OF this, of s] assms(2) that show ?thesis by auto
qed

lemma list4: "length d = 4 \<Longrightarrow> \<exists>a b c e. d = [a, b, c, e]"
  by (auto simp: numeral_eq_Suc length_Suc_conv)

lemma slot_found:
  assumes len: "length d = 4" and i: "i < 4" and buf: "(d ! i) s = Some buf" "db_state buf = Active"
    and others: "\<And>j. \<lbrakk>j < 4; j \<noteq> i\<rbrakk> \<Longrightarrow> (d ! j) s = None" and t: "slot_ok (time_t t)"
  shows "active_buffer_slot d s t = Some (Some i)"
proof (cases "time_t t - 1 = i")
  case True
  then show ?thesis
    using buf by (simp add: active_buffer_slot_def slot_get_Some [OF t len] is_active_at_def)
next
  case False
  have "time_t t - 1 < 4" using t by simp
  then have cur: "\<not> is_active_at s (d ! (time_t t - 1))" using others False by (simp add: is_active_at_def)
  obtain a b c e where d: "d = [a, b, c, e]" using list4 [OF len] by blast
  have "i = 0 \<or> i = 1 \<or> i = 2 \<or> i = 3" using i by linarith
  then have "List.map_filter (\<lambda>(ts, buffers). case buffers s of None \<Rightarrow> None
      | Some buffer \<Rightarrow> if db_state buffer = Active then Some (ts, diff t (db_t_last buffer)) else None) (enumerate 0 d)
    = [(i, diff t (db_t_last buf))]"
    using buf others [of 0] others [of 1] others [of 2] others [of 3]
    by (elim disjE) (simp_all add: d List.map_filter_def)
  then show ?thesis
    using cur by (simp add: active_buffer_slot_def slot_get_Some [OF t len] min_by_key_def)
qed

lemma slot_not_found:
  assumes len: "length d = 4" and none: "\<And>i. i < 4 \<Longrightarrow> \<not> is_active_at s (d ! i)" and t: "slot_ok (time_t t)"
  shows "active_buffer_slot d s t = Some None"
proof -
  have "time_t t - 1 < 4" using t by simp
  note cur = none [OF this]
  have "List.map_filter (\<lambda>(ts, buffers). case buffers s of None \<Rightarrow> None
      | Some buffer \<Rightarrow> if db_state buffer = Active then Some (ts, diff t (db_t_last buffer)) else None) (enumerate 0 d) = []"
  proof -
    have "\<not> is_active_at s m" if "(j, m) \<in> set (enumerate 0 d)" for j m
      using that none len by (auto simp: set_conv_nth enumerate_eq_zip)
    then show ?thesis by (fastforce simp: List.map_filter_def filter_empty_conv is_active_at_def split: option.splits)
  qed
  with cur show ?thesis by (simp add: active_buffer_slot_def slot_get_Some [OF t len] min_by_key_def)
qed

lemma is_active_cong: "m s = m' s \<Longrightarrow> is_active_at s m = is_active_at s m'"
  by (simp add: is_active_at_def)

lemma refines_change:
  assumes R: "refines view d m" and len: "length d' = 4"
    and same: "\<And>s' j. \<lbrakk>s' \<noteq> s; j < 4\<rbrakk> \<Longrightarrow> (d' ! j) s' = (d ! j) s'"
    and new: "case r of None \<Rightarrow> \<forall>i<4. \<not> is_active_at s (d' ! i)
      | Some f \<Rightarrow> \<exists>i<4. (\<exists>buf. (d' ! i) s = Some buf \<and> holds_frag view buf f) \<and> (\<forall>j<4. j \<noteq> i \<longrightarrow> (d' ! j) s = None)"
  shows "refines view d' (m(s := r))"
  unfolding refines_def
proof (intro conjI allI len)
  fix s'
  show "case (m(s := r)) s' of None \<Rightarrow> \<forall>i<4. \<not> is_active_at s' (d' ! i)
    | Some f \<Rightarrow> \<exists>i<4. (\<exists>buf. (d' ! i) s' = Some buf \<and> holds_frag view buf f) \<and> (\<forall>j<4. j \<noteq> i \<longrightarrow> (d' ! j) s' = None)"
  proof (cases "s' = s")
    case True
    show ?thesis unfolding True fun_upd_same by (rule new)
  next
    case False
    have act: "is_active_at s' (d' ! i) = is_active_at s' (d ! i)" if "i < 4" for i
      by (rule is_active_cong) (rule same [OF False that])
    have "case m s' of None \<Rightarrow> \<forall>i<4. \<not> is_active_at s' (d ! i)
      | Some f \<Rightarrow> \<exists>i<4. (\<exists>buf. (d ! i) s' = Some buf \<and> holds_frag view buf f) \<and> (\<forall>j<4. j \<noteq> i \<longrightarrow> (d ! j) s' = None)"
      using R by (simp add: refines_def)
    then show ?thesis using False same [OF False] act by (auto split: option.splits)
  qed
qed

lemma refines_set:
  assumes R: "refines view d m" and i: "i < 4" and buf: "holds_frag view buf f"
    and others: "\<And>j. \<lbrakk>j < 4; j \<noteq> i\<rbrakk> \<Longrightarrow> (d ! j) s = None"
  shows "refines view (d[i := (d ! i)(s \<mapsto> buf)]) (m(s \<mapsto> f))"
  using i buf others refines_length [OF R]
  by (intro refines_change [OF R]) (auto simp: nth_list_update)

lemma refines_unset:
  assumes R: "refines view d m" and i: "i < 4" and inactive: "\<not> is_active_at s m'" and same: "\<And>s'. s' \<noteq> s \<Longrightarrow> m' s' = (d ! i) s'"
    and others: "\<And>j. \<lbrakk>j < 4; j \<noteq> i\<rbrakk> \<Longrightarrow> (d ! j) s = None"
  shows "refines view (d[i := m']) (m(s := None))"
proof -
  have "\<not> is_active_at s (d ! j)" if "j < 4" "j \<noteq> i" for j using others [OF that] by (simp add: is_active_at_def)
  then show ?thesis using i inactive same refines_length [OF R]
    by (intro refines_change [OF R]) (auto simp: nth_list_update)
qed

lemma refines_same: "\<lbrakk>refines view d m; m s = None\<rbrakk> \<Longrightarrow> refines view d (m(s := None))"
  by (simp add: fun_upd_idem)

context bit_buffer
begin

lemma copy_onto_grown:
  assumes "view dst = grown xs" and "view_wf (view b)" and "remaining (view b) = ys"
  shows "\<exists>dst' b'. bb_copy_bits ops dst b (bb_get_len_remaining ops b) = Some (dst', b') \<and> view dst' = grown (xs @ ys)
    \<and> view b' = advance (view b) (length ys)"
proof -
  have len: "length ys = raw_end (view b) - raw_pos (view b)" using length_remaining [OF assms(2)] assms(3) by simp
  then have n: "bb_get_len_remaining ops b = length ys" by (simp add: get_len_remaining [OF assms(2)])
  have "raw_pos (view b) + length ys \<le> raw_end (view b)" using len assms(2) by (simp add: view_wf_def)
  with copy_bits [of dst "length ys" b] assms n show ?thesis by auto
qed

lemma holds_fragI:
  assumes "holds_frag view buf f" and "view dst = grown (fr_bits f @ ys)"
  shows "holds_frag view (buf\<lparr>db_t_last := t, db_num_frags := db_num_frags buf + 1, db_buffer := dst\<rparr>)
    (f\<lparr>fr_bits := fr_bits f @ ys, fr_last := t, fr_count := fr_count f + 1\<rparr>)"
  using assms by (auto simp: holds_frag_def frag_of_def window_def)

lemma append_fragment_refines:
  assumes R: "refines view d m" and f: "m s = Some f" and i: "i < 4" and buf: "(d ! i) s = Some buf" "holds_frag view buf f"
    and others: "\<And>j. \<lbrakk>j < 4; j \<noteq> i\<rbrakk> \<Longrightarrow> (d ! j) s = None" and b: "view_wf (view b)" "remaining (view b) = xs"
  shows "\<exists>d' b'. append_fragment ops d b s t i = Some (add_frag t xs f \<noteq> None, d', b')
    \<and> refines view d' (m(s := add_frag t xs f)) \<and> (\<forall>j<4. j \<noteq> i \<longrightarrow> (d' ! j) s = None)
    \<and> (\<forall>g. add_frag t xs f = Some g \<longrightarrow> (\<exists>buf'. (d' ! i) s = Some buf' \<and> holds_frag view buf' g))"
proof -
  have len: "length d = 4" by (rule refines_length [OF R])
  have v: "view (db_buffer buf) = grown (fr_bits f)" "db_state buf = Active" using buf(2) by (simp_all add: holds_frag_def)
  have l1: "bb_get_len ops (db_buffer buf) = length (fr_bits f)" by (simp add: get_len v)
  have l2: "bb_get_len_remaining ops b = length xs"
    using length_remaining [OF b(1)] b(2) by (simp add: get_len_remaining [OF b(1)])
  show ?thesis
  proof (cases "length (fr_bits f) + length xs > DEFRAG_BUF_MAX_LEN")
    case True
    then have "append_fragment ops d b s t i = Some (False, d[i := (d ! i)(s \<mapsto> defrag_reset ops buf)], b)"
      using i len by (simp add: append_fragment_def aget_def buf v l1 l2)
    moreover have "refines view (d[i := (d ! i)(s \<mapsto> defrag_reset ops buf)]) (m(s := None))"
      using i others by (intro refines_unset [OF R]) (simp_all add: is_active_at_def defrag_reset_def)
    ultimately show ?thesis using True others by (simp add: add_frag_def)
  next
    case False
    obtain dst b' where c: "bb_copy_bits ops (db_buffer buf) b (length xs) = Some (dst, b')" "view dst = grown (fr_bits f @ xs)"
      using copy_onto_grown [OF v(1) b] l2 by auto
    let ?buf = "buf\<lparr>db_t_last := t, db_num_frags := db_num_frags buf + 1, db_buffer := dst\<rparr>"
    let ?f = "f\<lparr>fr_bits := fr_bits f @ xs, fr_last := t, fr_count := fr_count f + 1\<rparr>"
    have "append_fragment ops d b s t i = Some (True, d[i := (d ! i)(s \<mapsto> ?buf)], b')"
      using i len False c(1) by (simp add: append_fragment_def aget_def buf v l1 l2)
    moreover have h: "holds_frag view ?buf ?f" by (rule holds_fragI [OF buf(2) c(2)])
    moreover have "refines view (d[i := (d ! i)(s \<mapsto> ?buf)]) (m(s \<mapsto> ?f))" by (rule refines_set [OF R i h others])
    ultimately show ?thesis using False others i len by (auto simp: add_frag_def)
  qed
qed

lemma first_refines:
  assumes R: "refines view d m" and t: "slot_ok (time_t t)" and b: "view_wf (view b)" "remaining (view b) = xs"
  shows "\<exists>d' b'. bs_insert_first ops d b t a r = Some (d', b') \<and> refines view d' (snd (spec_step (First t a r xs) m))"
proof -
  have len: "length d = 4" by (rule refines_length [OF R])
  let ?s = "ssi a"
  let ?d = "map (\<lambda>m. m(?s := None)) d"
  define buf where "buf = (case List.map_filter (\<lambda>m. m ?s) d of [] \<Rightarrow> defrag_new ops | old # _ \<Rightarrow> defrag_reset ops old)"
  have "view (db_buffer buf) = grown []"
    by (auto simp: buf_def defrag_new_def defrag_reset_def new_autoexpand grown_def split: list.split)
  from copy_onto_grown [OF this b] obtain dst b' where c:
    "bb_copy_bits ops (db_buffer buf) b (bb_get_len_remaining ops b) = Some (dst, b')" "view dst = grown xs" by auto
  let ?buf = "buf\<lparr>db_state := Active, db_addr := a, db_t_first := t, db_t_last := t, db_num_frags := 1, db_aie := r, db_buffer := dst\<rparr>"
  let ?f = "\<lparr>fr_bits = xs, fr_addr = a, fr_first = t, fr_last = t, fr_count = 1, fr_aie = r\<rparr>"
  have h: "holds_frag view ?buf ?f" using c(2) by (simp add: holds_frag_def frag_of_def window_def)
  have "refines view ?d (m(?s := None))"
    by (rule refines_change [OF R]) (simp_all add: len is_active_at_def)
  from refines_set [OF this, of "time_t t - 1" ?buf ?f ?s] t h len
  have "refines view (?d[time_t t - 1 := (?d ! (time_t t - 1))(?s \<mapsto> ?buf)]) (m(?s \<mapsto> ?f))" by simp
  moreover have "bs_insert_first ops d b t a r = Some (?d[time_t t - 1 := (?d ! (time_t t - 1))(?s \<mapsto> ?buf)], b')"
    using c(1) t len by (simp add: bs_insert_first_def Let_def buf_def [symmetric] slot_get_Some slot_put_Some)
  ultimately show ?thesis by simp
qed

lemma next_refines:
  assumes R: "refines view d m" and t: "slot_ok (time_t t)" and b: "view_wf (view b)" "remaining (view b) = xs"
  shows "\<exists>d' b'. bs_insert_next ops d b s t = Some (d', b') \<and> refines view d' (snd (spec_step (Next s t xs) m))"
proof (cases "m s")
  case None
  then show ?thesis
    using slot_not_found [OF refines_length [OF R] refines_None [OF R None] t] refines_same [OF R None]
    by (simp add: bs_insert_next_def)
next
  case (Some f)
  then obtain i buf where i: "i < 4" "(d ! i) s = Some buf" "holds_frag view buf f" "\<And>j. \<lbrakk>j < 4; j \<noteq> i\<rbrakk> \<Longrightarrow> (d ! j) s = None"
    using refines_SomeE [OF R] by metis
  have "active_buffer_slot d s t = Some (Some i)"
    using slot_found [OF refines_length [OF R] i(1,2) _ i(4) t] i(3) by (simp add: holds_frag_def)
  with append_fragment_refines [OF R Some i b, of t] Some show ?thesis by (auto simp: bs_insert_next_def)
qed

lemma last_refines:
  assumes R: "refines view d m" and t: "slot_ok (time_t t)" and b: "view_wf (view b)" "remaining (view b) = xs"
  shows "\<exists>x d' b'. bs_insert_last ops d b s t = Some (x, d', b') \<and> refines view d' (snd (spec_step (Last s t xs) m))
    \<and> map_option (frag_of view) x = fst (spec_step (Last s t xs) m)
    \<and> (\<forall>buf. x = Some buf \<longrightarrow> at_start (view (db_buffer buf)) (window (view (db_buffer buf))) \<and> db_state buf = Complete)"
proof (cases "m s")
  case None
  then show ?thesis
    using slot_not_found [OF refines_length [OF R] refines_None [OF R None] t] refines_same [OF R None]
    by (simp add: bs_insert_last_def)
next
  case (Some f)
  then obtain i buf where i: "i < 4" "(d ! i) s = Some buf" "holds_frag view buf f" "\<And>j. \<lbrakk>j < 4; j \<noteq> i\<rbrakk> \<Longrightarrow> (d ! j) s = None"
    using refines_SomeE [OF R] by metis
  have slot: "active_buffer_slot d s t = Some (Some i)"
    using slot_found [OF refines_length [OF R] i(1,2) _ i(4) t] i(3) by (simp add: holds_frag_def)
  obtain d' b' where a: "append_fragment ops d b s t i = Some (add_frag t xs f \<noteq> None, d', b')"
      "refines view d' (m(s := add_frag t xs f))" "\<And>j. \<lbrakk>j < 4; j \<noteq> i\<rbrakk> \<Longrightarrow> (d' ! j) s = None"
      "\<And>g. add_frag t xs f = Some g \<Longrightarrow> \<exists>buf'. (d' ! i) s = Some buf' \<and> holds_frag view buf' g"
    using append_fragment_refines [OF R Some i b, of t] by metis
  have len: "length d' = 4" by (rule refines_length [OF a(2)])
  show ?thesis
  proof (cases "add_frag t xs f")
    case None
    then show ?thesis using slot a(1,2) Some by (auto simp: bs_insert_last_def)
  next
    case g: (Some g)
    from a(4) [OF this] obtain buf' where buf': "(d' ! i) s = Some buf'" "holds_frag view buf' g" by blast
    then have v: "view (db_buffer buf') = grown (fr_bits g)" by (simp add: holds_frag_def)
    obtain dst where dst: "bb_set_raw_pos ops (db_buffer buf') 0 = Some dst" "view dst = (grown (fr_bits g))\<lparr>raw_pos := 0\<rparr>"
      using set_raw_pos [of 0 "db_buffer buf'"] v by auto
    let ?out = "buf'\<lparr>db_state := Complete, db_buffer := dst\<rparr>"
    have "bs_insert_last ops d b s t = Some (Some ?out, d'[i := (d' ! i)(s := None)], b')"
      using slot a(1) g i(1) len buf'(1) dst(1) by (simp add: bs_insert_last_def aget_def)
    moreover have "refines view (d'[i := (d' ! i)(s := None)]) (m(s := None))"
      using refines_unset [OF a(2) i(1), of s "(d' ! i)(s := None)"] a(3) by (simp add: is_active_at_def)
    moreover have "frag_of view ?out = g"
      using buf'(2) dst(2) by (auto simp: holds_frag_def frag_of_def window_def)
    moreover have "at_start (view dst) (window (view dst))" using dst(2) by (simp add: at_start_def view_wf_def)
    ultimately show ?thesis using g Some by simp
  qed
qed

lemma age_refines:
  assumes R: "refines view d m"
  shows "refines view (bs_age_buffers ops t d) (snd (spec_step (Age t) m))"
  unfolding refines_def
proof (intro conjI allI)
  have len: "length d = 4" by (rule refines_length [OF R])
  then show "length (bs_age_buffers ops t d) = 4" by (simp add: bs_age_buffers_def)
  fix s
  let ?age = "\<lambda>buf. if db_state buf \<noteq> Inactive \<and> diff t (db_t_last buf) > DEFRAG_TS_BEFORE_TIMEOUT then defrag_reset ops buf else buf"
  have nth: "(bs_age_buffers ops t d ! i) s = map_option ?age ((d ! i) s)" if "i < 4" for i
    using that len by (simp add: bs_age_buffers_def)
  show "case snd (spec_step (Age t) m) s of None \<Rightarrow> \<forall>i<4. \<not> is_active_at s (bs_age_buffers ops t d ! i)
    | Some f \<Rightarrow> \<exists>i<4. (\<exists>buf. (bs_age_buffers ops t d ! i) s = Some buf \<and> holds_frag view buf f)
        \<and> (\<forall>j<4. j \<noteq> i \<longrightarrow> (bs_age_buffers ops t d ! j) s = None)"
  proof (cases "m s")
    case None
    have "\<not> is_active_at s (bs_age_buffers ops t d ! i)" if "i < 4" for i
      using refines_None [OF R None that] nth [OF that]
      by (cases "(d ! i) s") (simp_all add: is_active_at_def defrag_reset_def)
    then show ?thesis using None by simp
  next
    case (Some f)
    then obtain i buf where i: "i < 4" "(d ! i) s = Some buf" "holds_frag view buf f" "\<And>j. \<lbrakk>j < 4; j \<noteq> i\<rbrakk> \<Longrightarrow> (d ! j) s = None"
      using refines_SomeE [OF R] by metis
    have l: "db_t_last buf = fr_last f" "db_state buf = Active" using i(3) by (auto simp: holds_frag_def frag_of_def)
    have others: "(bs_age_buffers ops t d ! j) s = None" if "j < 4" "j \<noteq> i" for j
      using nth [OF that(1)] i(4) [OF that] by simp
    show ?thesis
    proof (cases "diff t (fr_last f) > DEFRAG_TS_BEFORE_TIMEOUT")
      case True
      then have "\<not> is_active_at s (bs_age_buffers ops t d ! j)" if "j < 4" for j
        using nth [OF that] others [OF that] i l by (cases "j = i") (auto simp: is_active_at_def defrag_reset_def)
      then show ?thesis using True Some by simp
    next
      case False
      then have "(bs_age_buffers ops t d ! i) s = Some buf" using nth [OF i(1)] i(2) l by simp
      then show ?thesis using False Some i(1,3) others by auto
    qed
  qed
qed

lemma step_refines:
  assumes R: "refines view d m" and e: "event_ok (\<lambda>b. view_wf (view b)) e"
  shows "\<exists>x d'. bs_step ops e d = Some (x, d') \<and> refines view d' (snd (spec_step (event_bits view e) m))
    \<and> map_option (frag_of view) x = fst (spec_step (event_bits view e) m) \<and> pred_option (starts_window view) x"
proof (cases e)
  case (First t a r b)
  with e first_refines [OF R, of t b "remaining (view b)" a r] show ?thesis by (auto simp: event_bits_def)
next
  case (Next s t b)
  with e next_refines [OF R, of t b "remaining (view b)" s] show ?thesis by (auto simp: event_bits_def)
next
  case (Last s t b)
  with e last_refines [OF R, of t b "remaining (view b)" s] show ?thesis
    by (fastforce simp: event_bits_def starts_window_def pred_option_def)
next
  case (Age t)
  then show ?thesis using age_refines [OF R, of t] by (simp add: event_bits_def)
next
  case ResetAll
  then show ?thesis using refines_length [OF R]
    by (auto simp: event_bits_def refines_def bs_defrag_reset_def is_active_at_def)
qed

lemma run_refines:
  assumes "refines view d m" and "\<forall>e\<in>set es. event_ok (\<lambda>b. view_wf (view b)) e"
  shows "\<exists>xs d'. bs_run ops es d = Some (xs, d') \<and> refines view d' (snd (spec_run (map (event_bits view) es) m))
    \<and> map (map_option (frag_of view)) xs = fst (spec_run (map (event_bits view) es) m) \<and> list_all (pred_option (starts_window view)) xs"
  using assms
proof (induction es arbitrary: d m)
  case (Cons e es)
  then obtain x d' where e: "bs_step ops e d = Some (x, d')" "refines view d' (snd (spec_step (event_bits view e) m))"
      "map_option (frag_of view) x = fst (spec_step (event_bits view e) m)" "pred_option (starts_window view) x"
    using step_refines [OF Cons.prems(1), of e] by auto
  from Cons.IH [OF e(2)] Cons.prems(2) e show ?case by (auto simp: split_def Let_def)
qed simp

end

section \<open>One identity's SDU among the others\<close>

text \<open>Between the first and the last fragment of \<open>s\<close>: nothing else starts or ends it and no sweep finds it too old.\<close>

fun fresh :: "u32 \<Rightarrow> tdma_time \<Rightarrow> 'x defrag_event list \<Rightarrow> bool" where
  "fresh s t [] = True"
| "fresh s t (First _ a _ _ # es) = (ssi a \<noteq> s \<and> fresh s t es)"
| "fresh s t (Next s' t' _ # es) = fresh s (if s' = s then t' else t) es"
| "fresh s t (Last s' _ _ # es) = (s' \<noteq> s \<and> fresh s t es)"
| "fresh s t (Age now # es) = (diff now t \<le> DEFRAG_TS_BEFORE_TIMEOUT \<and> fresh s t es)"
| "fresh s t (ResetAll # es) = False"

fun bits_for :: "u32 \<Rightarrow> bool list defrag_event list \<Rightarrow> bool list" where
  "bits_for s [] = []"
| "bits_for s (Next s' t xs # es) = (if s' = s then xs else []) @ bits_for s es"
| "bits_for s (_ # es) = bits_for s es"

lemma spec_run_append:
  "spec_run (es @ fs) m = (let (xs, m) = spec_run es m; (ys, m) = spec_run fs m in (xs @ ys, m))"
  by (induction es arbitrary: m) (simp_all add: split_def Let_def)

lemma spec_run_fresh:
  assumes "m s = Some f" and "fresh s (fr_last f) es" and "length (fr_bits f) + length (bits_for s es) \<le> DEFRAG_BUF_MAX_LEN"
  shows "\<exists>g. snd (spec_run es m) s = Some g \<and> fr_bits g = fr_bits f @ bits_for s es \<and> fr_addr g = fr_addr f \<and> fr_aie g = fr_aie f
    \<and> fr_first g = fr_first f"
  using assms
proof (induction es arbitrary: m f)
  case (Cons e es)
  let ?m = "snd (spec_step e m)"
  show ?case
  proof (cases "\<exists>t xs. e = Next s t xs")
    case True
    then obtain t xs where e: "e = Next s t xs" by blast
    let ?f = "f\<lparr>fr_bits := fr_bits f @ xs, fr_last := t, fr_count := fr_count f + 1\<rparr>"
    have "?m s = Some ?f" using Cons.prems by (simp add: e add_frag_def)
    from Cons.IH [of ?m ?f, OF this] Cons.prems show ?thesis by (auto simp: e split_def Let_def fun_upd_def)
  next
    case False
    then have "?m s = Some f" "fresh s (fr_last f) es" "bits_for s (e # es) = bits_for s es"
      using Cons.prems by (cases e; auto)+
    from Cons.IH [of ?m f, OF this(1,2)] this(3) Cons.prems show ?thesis by (auto simp: split_def Let_def)
  qed
qed simp

section \<open>Properties\<close>

text \<open>C23: The base station's defragmenter refines a map from identities to pending SDUs: for every sequence of calls
  and sweeps, on whatever timeslots the fragments arrive, no call panics and what \<open>insert_last\<close> returns is what the
  abstract map returns, with the buffer at its start.\<close>

theorem bs_defrag_refines:
  assumes "bit_buffer ops view" and "\<forall>e\<in>set es. event_ok (\<lambda>b. view_wf (view b)) e"
  shows "\<exists>xs d. bs_run ops es bs_defrag_new = Some (xs, d)
    \<and> map (map_option (frag_of view)) xs = fst (spec_run (map (event_bits view) es) Map.empty)
    \<and> (\<forall>buf. Some buf \<in> set xs \<longrightarrow> at_start (view (db_buffer buf)) (window (view (db_buffer buf))) \<and> db_state buf = Complete)"
  using bit_buffer.run_refines [OF assms(1) refines_new assms(2)]
  by (fastforce simp: starts_window_def list_all_iff)

theorem bs_defrag_refines_witness:
  "\<exists>xs d. bs_run view_ops [First \<lparr>time_t = 2, time_f = 1, time_m = 1, time_h = 0\<rparr> \<lparr>ssi = 7, ssi_type = Issi\<rparr> None (grown [])]
     bs_defrag_new = Some (xs, d) \<and> xs = [None]"
  using bs_defrag_refines [OF view_machine.bit_buffer_axioms,
    of "[First \<lparr>time_t = 2, time_f = 1, time_m = 1, time_h = 0\<rparr> \<lparr>ssi = 7, ssi_type = Issi\<rparr> None (grown [])]"]
  by (auto simp: slot_ok_def Let_def event_bits_def)

text \<open>C24: A fragmented SDU of at most 4096 bits is reassembled whatever the other terminals send in between: from its first
  fragment to its last, over any timeslots, with any calls for other identities and any sweeps that find it younger than
  ten frames, but without a reset of all chains and without another first or last fragment of its own identity, its bits
  come out in order and whole, with the address and ciphering policy of its first fragment.\<close>

theorem bs_defrag_reassembles:
  assumes "bit_buffer ops view" and "\<forall>e\<in>set (pre @ First t a r b # es @ [Last (ssi a) t' b']). event_ok (\<lambda>b. view_wf (view b)) e"
    and "fresh (ssi a) t es"
    and "xs = remaining (view b) @ bits_for (ssi a) (map (event_bits view) es) @ remaining (view b')"
    and "length xs \<le> DEFRAG_BUF_MAX_LEN"
  shows "\<exists>outs buf d. bs_run ops (pre @ First t a r b # es @ [Last (ssi a) t' b']) bs_defrag_new = Some (outs @ [Some buf], d)
    \<and> at_start (view (db_buffer buf)) xs \<and> db_addr buf = a \<and> db_aie buf = r \<and> db_t_first buf = t"
proof -
  let ?ev = "event_bits view"
  let ?es = "pre @ First t a r b # es @ [Last (ssi a) t' b']"
  let ?f = "\<lparr>fr_bits = remaining (view b), fr_addr = a, fr_first = t, fr_last = t, fr_count = 1, fr_aie = r\<rparr>"
  define m0 where "m0 = snd (spec_run (map ?ev pre) Map.empty)"
  have fresh': "fresh s u (map ?ev es') = fresh s u es'" for s u es'
    by (induction s u es' rule: fresh.induct) (auto simp: event_bits_def)
  have len: "length (fr_bits ?f) + length (bits_for (ssi a) (map ?ev es)) \<le> DEFRAG_BUF_MAX_LEN" using assms(4,5) by simp
  obtain g where g: "snd (spec_run (map ?ev es) (m0(ssi a \<mapsto> ?f))) (ssi a) = Some g"
      "fr_bits g = remaining (view b) @ bits_for (ssi a) (map ?ev es)" "fr_addr g = a" "fr_aie g = r" "fr_first g = t"
    using spec_run_fresh [of "m0(ssi a \<mapsto> ?f)" "ssi a" ?f "map ?ev es"] len assms(3) by (auto simp: fresh')
  then have g': "add_frag t' (remaining (view b')) g = Some (g\<lparr>fr_bits := xs, fr_last := t', fr_count := fr_count g + 1\<rparr>)"
    using assms(4,5) by (simp add: add_frag_def)
  have spec: "\<exists>os. fst (spec_run (map ?ev ?es) Map.empty) = os @ [Some (g\<lparr>fr_bits := xs, fr_last := t', fr_count := fr_count g + 1\<rparr>)]"
    using g(1) g' by (simp add: spec_run_append split_def Let_def m0_def event_bits_def)
  obtain ys d where run: "bs_run ops ?es bs_defrag_new = Some (ys, d)"
      "map (map_option (frag_of view)) ys = fst (spec_run (map ?ev ?es) Map.empty)"
      "list_all (pred_option (starts_window view)) ys"
    using bit_buffer.run_refines [OF assms(1) refines_new assms(2)] by auto
  obtain os where "map (map_option (frag_of view)) ys = os @ [Some (g\<lparr>fr_bits := xs, fr_last := t', fr_count := fr_count g + 1\<rparr>)]"
    using spec run(2) by auto
  then obtain ys' z where z: "ys = ys' @ [z]"
      "Some (g\<lparr>fr_bits := xs, fr_last := t', fr_count := fr_count g + 1\<rparr>) = map_option (frag_of view) z"
    by (auto simp: map_eq_append_conv map_eq_Cons_conv simp del: map_option_eq_Some)
  from z(2) obtain buf where "z = Some buf"
      and frag: "frag_of view buf = g\<lparr>fr_bits := xs, fr_last := t', fr_count := fr_count g + 1\<rparr>" by (cases z) auto
  with z(1) have ys: "ys = ys' @ [Some buf]" by simp
  have f: "window (view (db_buffer buf)) = xs" "db_addr buf = a" "db_aie buf = r" "db_t_first buf = t"
    using arg_cong [OF frag, of fr_bits] arg_cong [OF frag, of fr_addr] arg_cong [OF frag, of fr_aie]
      arg_cong [OF frag, of fr_first] g(3-5) by (simp_all add: frag_of_def)
  moreover have "at_start (view (db_buffer buf)) (window (view (db_buffer buf)))"
    using run(3) by (simp add: ys starts_window_def)
  ultimately show ?thesis using run(1) by (auto simp: ys)
qed

theorem bs_defrag_reassembles_witness:
  "\<exists>outs buf d. bs_run view_ops [First \<lparr>time_t = 2, time_f = 1, time_m = 1, time_h = 0\<rparr> \<lparr>ssi = 7, ssi_type = Issi\<rparr> None
       \<lparr>raw_bits = [True, False], raw_start = 0, raw_pos = 0, raw_end = 2, raw_auto = False\<rparr>,
     First \<lparr>time_t = 2, time_f = 2, time_m = 1, time_h = 0\<rparr> \<lparr>ssi = 8, ssi_type = Issi\<rparr> None (grown []),
     Last 7 \<lparr>time_t = 3, time_f = 2, time_m = 1, time_h = 0\<rparr>
       \<lparr>raw_bits = [True, True], raw_start = 0, raw_pos = 0, raw_end = 2, raw_auto = False\<rparr>] bs_defrag_new = Some (outs @ [Some buf], d)
   \<and> at_start (db_buffer buf) [True, False, True, True]"
  using bs_defrag_reassembles [OF view_machine.bit_buffer_axioms, of "[]" "\<lparr>time_t = 2, time_f = 1, time_m = 1, time_h = 0\<rparr>"
    "\<lparr>ssi = 7, ssi_type = Issi\<rparr>" None "\<lparr>raw_bits = [True, False], raw_start = 0, raw_pos = 0, raw_end = 2, raw_auto = False\<rparr>"
    "[First \<lparr>time_t = 2, time_f = 2, time_m = 1, time_h = 0\<rparr> \<lparr>ssi = 8, ssi_type = Issi\<rparr> None (grown [])]"
    "\<lparr>time_t = 3, time_f = 2, time_m = 1, time_h = 0\<rparr>"
    "\<lparr>raw_bits = [True, True], raw_start = 0, raw_pos = 0, raw_end = 2, raw_auto = False\<rparr>" "[True, False, True, True]"]
  by (simp add: slot_ok_def view_wf_def remaining_def DEFRAG_BUF_MAX_LEN_def event_bits_def del: bs_run.simps) blast

end
