(* ===== verification/Umac_Ms.thy ===== *)
theory Umac_Ms
  imports Mac_Downlink Mac_Broadcast Circuit_Types Fill_Bits Defrag
begin

text \<open>
  The receive side of the terminal's MAC, \<^verbatim>\<open>crates/tetra-entities/src/umac/umac_ms.rs\<close>: the loop of
  \<open>rx_tmv_sch\<close> over the PDUs of a block and the handlers it calls. A handler takes the defragmenter and
  the block, with its window on the PDU, and returns both with what it queues for the LLC; \<open>None\<close> is a panic.
\<close>

declare val_bits.simps(2) [simp del]

section \<open>Handlers\<close>

record 'b tma_unitdata_ind =
  tma_pdu :: 'b
  tma_address :: tetra_address
  tma_scrambling :: u32

type_synonym 'b rx_result = "('b ms_defrag \<times> 'b \<times> 'b tma_unitdata_ind list) option"

text \<open>The end of a handler: the window moves on to whatever follows the PDU.\<close>

definition next_window :: "'b bitbuf_ops \<Rightarrow> 'b \<Rightarrow> nat \<Rightarrow> nat \<Rightarrow> 'b option" where
  "next_window ops pdu orig_end len = do {
     pdu \<leftarrow> bb_set_raw_end ops pdu orig_end;
     pdu \<leftarrow> bb_set_raw_pos ops pdu (bb_get_raw_start ops pdu + len);
     bb_set_raw_start ops pdu (bb_get_raw_pos ops pdu) }"

definition ms_num_fill_bits :: "'b bitbuf_ops \<Rightarrow> bool \<Rightarrow> 'b \<Rightarrow> nat \<Rightarrow> nat option" where
  "ms_num_fill_bits ops fill pdu len = (if fill then get_num_fill_bits ops pdu len else Some 0)"

definition rx_mac_resource :: "'b bitbuf_ops \<Rightarrow> tdma_time \<Rightarrow> u32 \<Rightarrow> 'b ms_defrag \<Rightarrow> 'b \<Rightarrow> 'b rx_result" where
  "rx_mac_resource ops dltime scrambling d pdu = do {
     guard (bb_get_pos ops pdu = 0);
     (res, pdu) \<leftarrow> mac_resource_from_bitbuf ops pdu;
     case res of
       Inl e \<Rightarrow> Some (d, pdu, [])
     | Inr p \<Rightarrow> do {
         let len_ind = mr_length_ind p;
         pdu_len_bits \<leftarrow> (if 1 \<le> len_ind \<and> len_ind < 58 then Some (len_ind * 8)
           else if len_ind = MAC_RESOURCE_LENGTH_2ND_SLOT_STOLEN \<or> len_ind = MAC_RESOURCE_LENGTH_FRAG_START
           then Some (bb_get_len ops pdu) else None);
         let pdu_len_bits = min pdu_len_bits (bb_get_len ops pdu);
         num_fill_bits \<leftarrow> ms_num_fill_bits ops (mr_fill_bits p) pdu pdu_len_bits;
         let pdu_len_bits = pdu_len_bits - num_fill_bits;
         let orig_end = bb_get_raw_end ops pdu;
         pdu \<leftarrow> bb_set_raw_end ops pdu (bb_get_raw_start ops pdu + pdu_len_bits);
         case mr_addr p of
           None \<Rightarrow> Some (d, pdu, [])
         | Some addr \<Rightarrow>
             if mr_encryption_mode p > 0 then Some (d, pdu, [])
             else do {
               (d, pdu, out) \<leftarrow>
                 (if len_ind = MAC_RESOURCE_LENGTH_FRAG_START then do {
                    (d, pdu) \<leftarrow> ms_insert_first ops d pdu dltime addr None;
                    Some (d, pdu, []) }
                  else if len_ind = MAC_RESOURCE_LENGTH_2ND_SLOT_STOLEN then Some (d, pdu, [])
                  else if len_ind = 0 \<or> bb_get_len_remaining ops pdu = 0 then Some (d, pdu, [])
                  else Some (d, pdu, [\<lparr>tma_pdu = bb_from_bitbuffer_pos ops pdu, tma_address = addr, tma_scrambling = scrambling\<rparr>]));
               pdu \<leftarrow> next_window ops pdu orig_end (pdu_len_bits + num_fill_bits);
               Some (d, pdu, out) } } }"

definition rx_mac_frag :: "'b bitbuf_ops \<Rightarrow> tdma_time \<Rightarrow> 'b ms_defrag \<Rightarrow> 'b \<Rightarrow> 'b rx_result" where
  "rx_mac_frag ops dltime d pdu = do {
     guard (bb_get_pos ops pdu = 0);
     (res, pdu) \<leftarrow> mac_frag_dl_from_bitbuf ops pdu;
     case res of
       Inl e \<Rightarrow> Some (d, pdu, [])
     | Inr p \<Rightarrow> do {
         let pdu_len_bits = bb_get_len ops pdu;
         num_fill_bits \<leftarrow> ms_num_fill_bits ops (mf_fill_bits p) pdu pdu_len_bits;
         let pdu_len_bits = pdu_len_bits - num_fill_bits;
         pdu \<leftarrow> bb_set_raw_end ops pdu (bb_get_raw_start ops pdu + pdu_len_bits);
         buf \<leftarrow> slot_get d (time_t dltime);
         if db_aie buf \<noteq> None then Some (d, pdu, [])
         else do { (d, pdu) \<leftarrow> ms_insert_next ops d pdu dltime; Some (d, pdu, []) } } }"

definition rx_mac_end :: "'b bitbuf_ops \<Rightarrow> tdma_time \<Rightarrow> u32 \<Rightarrow> 'b ms_defrag \<Rightarrow> 'b \<Rightarrow> 'b rx_result" where
  "rx_mac_end ops dltime scrambling d pdu = do {
     guard (bb_get_pos ops pdu = 0);
     (res, pdu) \<leftarrow> mac_end_dl_from_bitbuf ops pdu;
     case res of
       Inl e \<Rightarrow> Some (d, pdu, [])
     | Inr p \<Rightarrow> do {
         guard (me_length_ind p \<noteq> 0);
         let pdu_len_bits = min (me_length_ind p * 8) (bb_get_len ops pdu);
         num_fill_bits \<leftarrow> ms_num_fill_bits ops (me_fill_bits p) pdu pdu_len_bits;
         let pdu_len_bits = pdu_len_bits - num_fill_bits;
         let orig_end = bb_get_raw_end ops pdu;
         pdu \<leftarrow> bb_set_raw_end ops pdu (bb_get_raw_start ops pdu + pdu_len_bits);
         buf \<leftarrow> slot_get d (time_t dltime);
         guard (db_aie buf = None);
         (d, pdu) \<leftarrow> ms_insert_last ops d pdu dltime;
         (taken, d) \<leftarrow> take_defragged_buf ops d dltime;
         case taken of
           None \<Rightarrow> Some (d, pdu, [])
         | Some defragbuf \<Rightarrow> do {
             pdu \<leftarrow> next_window ops pdu orig_end (pdu_len_bits + num_fill_bits);
             Some (d, pdu, [\<lparr>tma_pdu = db_buffer defragbuf, tma_address = db_addr defragbuf, tma_scrambling = scrambling\<rparr>]) } } }"

text \<open>A broadcast block: the new time for the lower MAC, when the hyperframe number is another one, and the rest of
  the block for the MLE. The PDUs other than SYSINFO panic.\<close>

record 'b sysinfo_out =
  so_configure_time :: "tdma_time option"
  so_tlmb_sysinfo :: "'b option"

definition rx_broadcast_sysinfo :: "'b bitbuf_ops \<Rightarrow> tdma_time \<Rightarrow> 'b \<Rightarrow> ('b \<times> 'b sysinfo_out) option" where
  "rx_broadcast_sysinfo ops dltime pdu = do {
     (res, pdu) \<leftarrow> mac_sysinfo_from_bitbuf ops pdu;
     case res of
       Inl e \<Rightarrow> Some (pdu, \<lparr>so_configure_time = None, so_tlmb_sysinfo = None\<rparr>)
     | Inr p \<Rightarrow>
         let configure = (case hyperframe_number p of
            Some h \<Rightarrow> if h \<noteq> time_h dltime then Some (dltime\<lparr>time_h := h\<rparr>) else None
          | None \<Rightarrow> None)
         in Some (pdu, \<lparr>so_configure_time = configure, so_tlmb_sysinfo = Some (bb_from_bitbuffer_pos ops pdu)\<rparr>) }"

definition rx_broadcast :: "'b bitbuf_ops \<Rightarrow> tdma_time \<Rightarrow> 'b \<Rightarrow> ('b \<times> 'b sysinfo_out) option" where
  "rx_broadcast ops dltime pdu = do {
     bits \<leftarrow> bb_peek_bits ops pdu 2;
     guard (bits = mac_pdu_type_raw mac_pdu_type.Broadcast);
     bits \<leftarrow> bb_peek_bits_posoffset ops pdu 2 2;
     bcast_type \<leftarrow> broadcast_type_of_raw bits;
     case bcast_type of
       BcastSysinfo \<Rightarrow> rx_broadcast_sysinfo ops dltime pdu
     | _ \<Rightarrow> None }"

section \<open>The loop over a block\<close>

datatype downlink_handler = RxMacResource | RxMacFrag | RxMacEnd | RxBroadcast | RxUsignal | RxSupp

text \<open>The PDU at the window, by its first three bits; \<open>None\<close> where there are fewer bits or no such type.\<close>

definition ms_dispatch :: "'b bitbuf_ops \<Rightarrow> bool \<Rightarrow> 'b \<Rightarrow> downlink_handler option" where
  "ms_dispatch ops stch pdu = do {
     bits \<leftarrow> bb_peek_bits ops pdu 3;
     pdu_type \<leftarrow> mac_pdu_type_of_raw (drop_bit 1 bits);
     case pdu_type of
       MacResourceMacData \<Rightarrow> Some RxMacResource
     | MacFragMacEnd \<Rightarrow> if bits AND 1 = 0 then Some RxMacFrag else Some RxMacEnd
     | mac_pdu_type.Broadcast \<Rightarrow> Some RxBroadcast
     | SuppMacUSignal \<Rightarrow> if stch then Some RxUsignal else Some RxSupp }"

text \<open>The handlers of U-SIGNAL and of supplementary PDUs are \<open>unimplemented!()\<close>.\<close>

definition ms_handle :: "'b bitbuf_ops \<Rightarrow> downlink_handler \<Rightarrow> tdma_time \<Rightarrow> u32 \<Rightarrow> 'b ms_defrag \<Rightarrow> 'b \<Rightarrow> 'b rx_result" where
  "ms_handle ops handler dltime scrambling d pdu = (case handler of
     RxMacResource \<Rightarrow> rx_mac_resource ops dltime scrambling d pdu
   | RxMacFrag \<Rightarrow> rx_mac_frag ops dltime d pdu
   | RxMacEnd \<Rightarrow> rx_mac_end ops dltime scrambling d pdu
   | RxBroadcast \<Rightarrow> map_option (\<lambda>(pdu, out). (d, pdu, [])) (rx_broadcast ops dltime pdu)
   | RxUsignal \<Rightarrow> None
   | RxSupp \<Rightarrow> None)"

text \<open>The loop goes on while a handler has moved the window and 16 bits or more remain; \<open>None\<close> is a panic, or a loop
  that does not end.\<close>

partial_function (option) rx_tmv_sch ::
  "'b bitbuf_ops \<Rightarrow> bool \<Rightarrow> tdma_time \<Rightarrow> u32 \<Rightarrow> 'b ms_defrag \<Rightarrow> 'b \<Rightarrow> 'b rx_result" where
  "rx_tmv_sch ops stch dltime scrambling d pdu = (case ms_dispatch ops stch pdu of
     None \<Rightarrow> Some (d, pdu, [])
   | Some handler \<Rightarrow> do {
       let orig_start = bb_get_raw_start ops pdu;
       (d, pdu, inds) \<leftarrow> ms_handle ops handler dltime scrambling d pdu;
       if bb_get_raw_start ops pdu \<noteq> orig_start \<and> bb_get_len ops pdu \<ge> 16 then do {
         (d, pdu, more) \<leftarrow> rx_tmv_sch ops stch dltime scrambling d pdu;
         Some (d, pdu, inds @ more) }
       else Some (d, pdu, inds) })"

declare rx_tmv_sch.simps [code]

section \<open>The null PDU\<close>

lemma null_pdu_ok: "mac_resource_ok null_pdu"
  by (simp add: mac_resource_ok_def null_pdu_def mac_resource_addr_type_def is_null_pdu_def)

lemma null_pdu_length: "length (mac_resource_bits null_pdu) = 16"
  by (simp add: mac_resource_bits_def mac_resource_address_bits_def null_pdu_def mac_resource_addr_type_def is_null_pdu_def)

text \<open>What may follow a PDU in a block for the loop to end behind it: too few bits for another PDU, or a null PDU.\<close>

definition closing :: "bool list \<Rightarrow> bool" where
  "closing rest \<longleftrightarrow> length rest < 16 \<or> (\<exists>r. rest = mac_resource_bits null_pdu @ r)"

section \<open>Reception of one PDU\<close>

text \<open>The buffer of the timeslot while a chain is open, and when none is.\<close>

definition ms_idle :: "('b \<Rightarrow> buf_view) \<Rightarrow> 'b ms_defrag \<Rightarrow> nat \<Rightarrow> bool" where
  "ms_idle view d ts \<longleftrightarrow> length d = 4 \<and> slot_ok ts \<and> (let buf = d ! (ts - 1) in db_aie buf = None
     \<and> (db_state buf = Inactive \<longrightarrow> view (db_buffer buf) = grown []))"

definition ms_open :: "('b \<Rightarrow> buf_view) \<Rightarrow> 'b ms_defrag \<Rightarrow> nat \<Rightarrow> tetra_address \<Rightarrow> bool list \<Rightarrow> bool" where
  "ms_open view d ts a xs \<longleftrightarrow> length d = 4 \<and> slot_ok ts \<and> (let buf = d ! (ts - 1) in db_aie buf = None
     \<and> db_state buf = Active \<and> db_addr buf = a \<and> view (db_buffer buf) = grown xs)"

context bit_buffer
begin

text \<open>The window of a PDU that starts where the cursor is.\<close>

lemma peek3:
  assumes "at_start (view c) (x # y # z # r)"
  shows "bb_peek_bits ops c 3 = Some (bits_val [x, y, z])"
proof -
  have wf: "view_wf (view c)" and rem: "remaining (view c) = x # y # z # r"
    using assms at_start_remaining [OF assms] by (simp_all add: at_start_def)
  have "raw_pos (view c) + 3 \<le> raw_end (view c)" using length_remaining [OF wf] rem wf by (simp add: view_wf_def)
  with peek_bits [OF wf, of 3] rem show ?thesis by (simp add: remaining_take numeral_eq_Suc)
qed

lemma dispatch_resource: "at_start (view c) (False # False # z # r) \<Longrightarrow> ms_dispatch ops st c = Some RxMacResource"
  by (cases z) (simp_all add: ms_dispatch_def peek3 bits_val_def mac_pdu_type_of_raw_def)

lemma dispatch_frag: "at_start (view c) (False # True # z # r) \<Longrightarrow> ms_dispatch ops st c = Some (if z then RxMacEnd else RxMacFrag)"
proof -
  have v: "bits_val [False, True, True] = 3" "bits_val [False, True, False] = 2" by (simp_all add: bits_val_def)
  have "drop_bit 1 (3::nat) = 1" "drop_bit 1 (2::nat) = 1" by (simp_all add: drop_bit_eq_div)
  then show "at_start (view c) (False # True # z # r) \<Longrightarrow> ms_dispatch ops st c = Some (if z then RxMacEnd else RxMacFrag)"
    by (cases z) (simp_all add: ms_dispatch_def peek3 v mac_pdu_type_of_raw_def)
qed

text \<open>On a block whose next PDU is of the fourth type the terminal panics.\<close>

lemma rx_tmv_sch_unimplemented:
  assumes "at_start (view c) (True # True # z # r)"
  shows "rx_tmv_sch ops stch t scr d c = None"
proof -
  have v: "bits_val [True, True, True] = 7" "bits_val [True, True, False] = 6" by (simp_all add: bits_val_def)
  have "drop_bit 1 (7::nat) = 3" "drop_bit 1 (6::nat) = 3" by (simp_all add: drop_bit_eq_div)
  then have "ms_dispatch ops stch c = Some (if stch then RxUsignal else RxSupp)"
    using assms by (cases z) (simp_all add: ms_dispatch_def peek3 v mac_pdu_type_of_raw_def)
  then show ?thesis by (subst rx_tmv_sch.simps) (simp add: ms_handle_def)
qed

text \<open>Fill bits are stripped and the window closed behind the SDU.\<close>

lemma strip_fill:
  assumes v: "at_start v (hs @ xs @ fill_bits f @ rest)" and c: "view c = advance v (length hs)"
  shows "ms_num_fill_bits ops (f > 0) c (length hs + length xs + f) = Some f"
    and "\<exists>c'. bb_set_raw_end ops c (bb_get_raw_start ops c + (length hs + length xs)) = Some c'
      \<and> view c' = (view c)\<lparr>raw_end := raw_start v + length hs + length xs\<rparr> \<and> view_wf (view c') \<and> remaining (view c') = xs"
    and "bb_get_len ops c = length hs + length xs + f + length rest" and "bb_get_raw_end ops c = raw_end v"
    and "bb_get_raw_start ops c = raw_start v"
proof -
  note wf = v [unfolded at_start_def]
  have end': "raw_end v = raw_start v + length (hs @ xs @ fill_bits f @ rest)" by (rule at_start_length [OF v])
  note pre = remaining_prefix [of v hs "xs @ fill_bits f @ rest", OF _ at_start_remaining [OF v]]
  have cw: "view_wf (view c)" and cr: "remaining (view c) = xs @ fill_bits f @ rest" using pre(3,4) wf by (simp_all add: c)
  have pos: "bb_get_pos ops c = length hs" using wf by (simp add: get_pos [OF cw] c)
  show "ms_num_fill_bits ops (f > 0) c (length hs + length xs + f) = Some f"
    using get_num_fill_bits_added [OF cw cr] by (simp add: ms_num_fill_bits_def pos)
  show "bb_get_len ops c = length hs + length xs + f + length rest" by (simp add: get_len [OF cw] c end')
  show "bb_get_raw_end ops c = raw_end v" "bb_get_raw_start ops c = raw_start v" by (simp_all add: get_raw_end get_raw_start c)
  let ?e = "raw_start v + length hs + length xs"
  have le: "?e \<le> length (raw_bits (view c))" using wf end' by (simp add: c view_wf_def)
  obtain c' where c': "bb_set_raw_end ops c ?e = Some c'" "view c' = (view c)\<lparr>raw_end := ?e\<rparr>"
    using set_raw_end [OF le] by auto
  have "remaining (view c') = take (length xs) (drop (raw_pos (view c)) (raw_bits (view c)))"
    using wf by (simp add: c'(2) remaining_def c)
  also have "\<dots> = take (length xs) (remaining (view c))"
    using wf end' by (intro remaining_take) (simp add: c)
  finally have "remaining (view c') = xs" by (simp add: cr)
  moreover have "view_wf (view c')" using wf le by (simp add: c'(2) c view_wf_def)
  ultimately show "\<exists>c'. bb_set_raw_end ops c (bb_get_raw_start ops c + (length hs + length xs)) = Some c'
      \<and> view c' = (view c)\<lparr>raw_end := raw_start v + length hs + length xs\<rparr> \<and> view_wf (view c') \<and> remaining (view c') = xs"
    using c' by (simp add: get_raw_start c add.assoc)
qed

lemma next_window_Some:
  assumes "raw_end v \<le> length (raw_bits v)" and "raw_start v + n \<le> raw_end v" and "raw_bits (view c) = raw_bits v" "raw_start (view c) = raw_start v"
  shows "\<exists>c'. next_window ops c (raw_end v) n = Some c' \<and> raw_bits (view c') = raw_bits v \<and> raw_start (view c') = raw_start v + n
    \<and> raw_pos (view c') = raw_start v + n \<and> raw_end (view c') = raw_end v"
proof -
  obtain c1 where c1: "bb_set_raw_end ops c (raw_end v) = Some c1" "view c1 = (view c)\<lparr>raw_end := raw_end v\<rparr>"
    using set_raw_end [of "raw_end v" c] assms by auto
  obtain c2 where c2: "bb_set_raw_pos ops c1 (raw_start v + n) = Some c2" "view c2 = (view c1)\<lparr>raw_pos := raw_start v + n\<rparr>"
    using set_raw_pos [of "raw_start v + n" c1] assms c1(2) by auto
  obtain c3 where c3: "bb_set_raw_start ops c2 (raw_start v + n) = Some c3" "view c3 = (view c2)\<lparr>raw_start := raw_start v + n\<rparr>"
    using set_raw_start [of "raw_start v + n" c2] assms c1(2) c2(2) by auto
  have "next_window ops c (raw_end v) n = Some c3"
    using c1 c2 c3 assms by (simp add: next_window_def get_raw_start get_raw_pos)
  with assms c1(2) c2(2) c3(2) show ?thesis by auto
qed

lemma next_window_rest:
  assumes "at_start v (hs @ rest)" and "raw_bits (view c) = raw_bits v" "raw_start (view c) = raw_start v"
  shows "\<exists>c'. next_window ops c (raw_end v) (length hs) = Some c' \<and> at_start (view c') rest"
proof -
  have wf: "view_wf v" "window v = hs @ rest" using assms(1) by (simp_all add: at_start_def)
  have e: "raw_end v = raw_start v + (length hs + length rest)" using at_start_length [OF assms(1)] by simp
  obtain c' where c': "next_window ops c (raw_end v) (length hs) = Some c'" "raw_bits (view c') = raw_bits v"
      "raw_start (view c') = raw_start v + length hs" "raw_pos (view c') = raw_start v + length hs" "raw_end (view c') = raw_end v"
    using next_window_Some [of v "length hs" c] assms(2,3) wf e by (auto simp: view_wf_def)
  have "window (view c') = drop (length hs) (window v)"
    by (simp add: window_def c' e drop_take add.commute)
  also have "\<dots> = rest" by (simp add: wf)
  finally have "at_start (view c') rest" using wf e c' by (simp add: at_start_def view_wf_def)
  then show ?thesis using c'(1) by blast
qed

lemma rx_whole:
  assumes p: "mac_resource_ok p" "mr_addr p = Some a" "mr_encryption_mode p = 0" "mr_fill_bits p = (f > 0)"
    and l: "1 \<le> mr_length_ind p" "mr_length_ind p < 58"
    and c: "at_start (view c) (mac_resource_bits p @ xs @ fill_bits f @ rest)" and xs: "xs \<noteq> []"
    and n: "min (mr_length_ind p * 8) (length (mac_resource_bits p) + length xs + f + length rest) = length (mac_resource_bits p) + length xs + f"
  shows "\<exists>c' ind. rx_mac_resource ops t scr d c = Some (d, c', [ind]) \<and> at_start (view (tma_pdu ind)) xs \<and> tma_address ind = canon_address a
    \<and> at_start (view c') rest"
proof -
  have wf: "view_wf (view c)" using c by (simp add: at_start_def)
  obtain c1 where c1: "mac_resource_from_bitbuf ops c = Some (Inr (canon_resource p), c1)"
      "view c1 = advance (view c) (length (mac_resource_bits p))"
    using parses_Some [OF parses_mac_resource [OF p(1)] wf at_start_remaining [OF c]] by auto
  note st = strip_fill [OF c c1(2)]
  obtain c2 where c2: "bb_set_raw_end ops c1 (bb_get_raw_start ops c1 + (length (mac_resource_bits p) + length xs)) = Some c2"
      "view c2 = (view c1)\<lparr>raw_end := raw_start (view c) + length (mac_resource_bits p) + length xs\<rparr>"
      "view_wf (view c2)" "remaining (view c2) = xs"
    using st(2) by auto
  obtain c3 where c3: "next_window ops c2 (raw_end (view c)) (length (mac_resource_bits p) + length xs + f) = Some c3"
      "at_start (view c3) rest"
    using next_window_rest [of "view c" "mac_resource_bits p @ xs @ fill_bits f" rest c2] c by (auto simp: c2(2) c1(2) add.assoc)
  have rem: "bb_get_len_remaining ops c2 = length xs" using c2(3,4) by (simp add: get_len_remaining length_remaining [symmetric])
  have pos: "bb_get_pos ops c = 0" using c by (simp add: get_pos [OF wf] at_start_def)
  have "rx_mac_resource ops t scr d c = Some (d, c3, [\<lparr>tma_pdu = bb_from_bitbuffer_pos ops c2, tma_address = canon_address a, tma_scrambling = scr\<rparr>])"
    using p l n xs c1(1) c2(1) c3(1) st rem pos
    by (simp add: rx_mac_resource_def canon_resource_def Let_def MAC_RESOURCE_LENGTH_FRAG_START_def MAC_RESOURCE_LENGTH_2ND_SLOT_STOLEN_def)
  moreover have "at_start (view (bb_from_bitbuffer_pos ops c2)) xs" using from_bitbuffer_pos [OF c2(3)] c2(4) by simp
  ultimately show ?thesis using c3(2) by auto
qed

lemma ms_insert_first_opens:
  assumes d: "ms_idle view d (time_t t)" and b: "view_wf (view b)" "remaining (view b) = xs"
  shows "\<exists>d' b'. ms_insert_first ops d b t a None = Some (d', b') \<and> ms_open view d' (time_t t) a xs
    \<and> view b' = advance (view b) (length xs)"
proof -
  let ?i = "time_t t - 1"
  define buf where "buf = (if db_state (d ! ?i) \<noteq> Inactive then defrag_reset ops (d ! ?i) else d ! ?i)"
  have d': "length d = 4" "slot_ok (time_t t)" using d by (simp_all add: ms_idle_def)
  have "view (db_buffer buf) = grown []"
    using d by (auto simp: ms_idle_def buf_def defrag_reset_def new_autoexpand grown_def Let_def)
  from copy_onto_grown [OF this b] obtain dst b' where c:
    "bb_copy_bits ops (db_buffer buf) b (bb_get_len_remaining ops b) = Some (dst, b')" "view dst = grown xs"
    "view b' = advance (view b) (length xs)" by auto
  let ?d = "d[?i := buf\<lparr>db_state := Active, db_addr := a, db_t_first := t, db_t_last := t, db_num_frags := 1,
    db_aie := None, db_buffer := dst\<rparr>]"
  have "ms_insert_first ops d b t a None = Some (?d, b')"
    using c(1) by (simp add: ms_insert_first_def slot_get_Some [OF d'(2,1)] slot_put_Some [OF d'(2,1)] buf_def [symmetric] Let_def del: One_nat_def)
  moreover have "ms_open view ?d (time_t t) a xs" using d' c(2) by (simp add: ms_open_def)
  ultimately show ?thesis using c(3) by blast
qed

lemma ms_insert_more_appends:
  assumes d: "ms_open view d (time_t t) a ys" and b: "view_wf (view b)" "remaining (view b) = xs"
    and len: "length ys + length xs \<le> DEFRAG_BUF_MAX_LEN"
  obtains buf b' where "ms_insert_more ops st d b t = Some (d[time_t t - 1 := buf], b')" "db_state buf = st" "db_addr buf = a"
    "db_aie buf = None" "view (db_buffer buf) = grown (ys @ xs)" "view b' = advance (view b) (length xs)"
proof -
  let ?i = "time_t t - 1"
  have d': "length d = 4" "slot_ok (time_t t)" "db_state (d ! ?i) = Active" "db_addr (d ! ?i) = a" "db_aie (d ! ?i) = None"
      and v: "view (db_buffer (d ! ?i)) = grown ys"
    using d by (simp_all add: ms_open_def Let_def)
  obtain dst b' where c: "bb_copy_bits ops (db_buffer (d ! ?i)) b (bb_get_len_remaining ops b) = Some (dst, b')"
      "view dst = grown (ys @ xs)" "view b' = advance (view b) (length xs)"
    using copy_onto_grown [OF v b] by auto
  have l: "bb_get_len ops (db_buffer (d ! ?i)) = length ys" "bb_get_len_remaining ops b = length xs"
    using length_remaining [OF b(1)] by (simp_all add: get_len v get_len_remaining [OF b(1)] b(2) [symmetric] del: One_nat_def)
  have "ms_insert_more ops st d b t = Some (d[?i := (d ! ?i)\<lparr>db_state := st, db_t_last := t,
      db_num_frags := db_num_frags (d ! ?i) + 1, db_buffer := dst\<rparr>], b')"
    using c(1) len d' l by (simp add: ms_insert_more_def slot_get_Some [OF d'(2,1)] slot_put_Some [OF d'(2,1)])
  then show ?thesis by (rule that) (simp_all add: d' c del: One_nat_def)
qed

lemma rx_start:
  assumes p: "mac_resource_ok p" "mr_addr p = Some a" "mr_encryption_mode p = 0" "\<not> mr_fill_bits p"
      "mr_length_ind p = MAC_RESOURCE_LENGTH_FRAG_START"
    and c: "at_start (view c) (mac_resource_bits p @ xs)" and d: "ms_idle view d (time_t t)"
  shows "\<exists>c' d'. rx_mac_resource ops t scr d c = Some (d', c', []) \<and> ms_open view d' (time_t t) (canon_address a) xs
    \<and> at_start (view c') []"
proof -
  have wf: "view_wf (view c)" using c by (simp add: at_start_def)
  have c0: "at_start (view c) (mac_resource_bits p @ xs @ fill_bits 0 @ [])" using c by (simp add: fill_bits_def)
  obtain c1 where c1: "mac_resource_from_bitbuf ops c = Some (Inr (canon_resource p), c1)"
      "view c1 = advance (view c) (length (mac_resource_bits p))"
    using parses_Some [OF parses_mac_resource [OF p(1)] wf at_start_remaining [OF c]] by auto
  note st = strip_fill [OF c0 c1(2)]
  obtain c2 where c2: "bb_set_raw_end ops c1 (bb_get_raw_start ops c1 + (length (mac_resource_bits p) + length xs)) = Some c2"
      "view c2 = (view c1)\<lparr>raw_end := raw_start (view c) + length (mac_resource_bits p) + length xs\<rparr>"
      "view_wf (view c2)" "remaining (view c2) = xs"
    using st(2) by auto
  obtain d' c2' where ins: "ms_insert_first ops d c2 t (canon_address a) None = Some (d', c2')" "ms_open view d' (time_t t) (canon_address a) xs"
      "view c2' = advance (view c2) (length xs)"
    using ms_insert_first_opens [OF d c2(3,4)] by blast
  obtain c3 where c3: "next_window ops c2' (raw_end (view c)) (length (mac_resource_bits p) + length xs) = Some c3" "at_start (view c3) []"
    using next_window_rest [of "view c" "mac_resource_bits p @ xs" "[]" c2'] c by (auto simp: ins(3) c2(2) c1(2))
  have pos: "bb_get_pos ops c = 0" using c by (simp add: get_pos [OF wf] at_start_def)
  have "rx_mac_resource ops t scr d c = Some (d', c3, [])"
    using p c1(1) c2(1) ins(1) c3(1) st pos
    by (simp add: rx_mac_resource_def canon_resource_def Let_def MAC_RESOURCE_LENGTH_FRAG_START_def MAC_RESOURCE_LENGTH_2ND_SLOT_STOLEN_def
        ms_num_fill_bits_def)
  then show ?thesis using ins(2) c3(2) by blast
qed

lemma rx_frag:
  assumes c: "at_start (view c) (mac_frag_dl_bits \<lparr>mf_fill_bits = f > 0\<rparr> @ xs @ fill_bits f)"
    and d: "ms_open view d (time_t t) a ys" and len: "length ys + length xs \<le> DEFRAG_BUF_MAX_LEN"
  shows "\<exists>c' d'. rx_mac_frag ops t d c = Some (d', c', []) \<and> ms_open view d' (time_t t) a (ys @ xs)
    \<and> raw_start (view c') = raw_start (view c)"
proof -
  let ?p = "\<lparr>mf_fill_bits = f > 0\<rparr>"
  have wf: "view_wf (view c)" using c by (simp add: at_start_def)
  have c0: "at_start (view c) (mac_frag_dl_bits ?p @ xs @ fill_bits f @ [])" using c by simp
  obtain c1 where c1: "mac_frag_dl_from_bitbuf ops c = Some (Inr ?p, c1)" "view c1 = advance (view c) (length (mac_frag_dl_bits ?p))"
    using parses_Some [OF parses_mac_frag_dl wf at_start_remaining [OF c]] by auto
  note st = strip_fill [OF c0 c1(2)]
  obtain c2 where c2: "bb_set_raw_end ops c1 (bb_get_raw_start ops c1 + (length (mac_frag_dl_bits ?p) + length xs)) = Some c2"
      "view c2 = (view c1)\<lparr>raw_end := raw_start (view c) + length (mac_frag_dl_bits ?p) + length xs\<rparr>"
      "view_wf (view c2)" "remaining (view c2) = xs"
    using st(2) by auto
  have d': "length d = 4" "slot_ok (time_t t)" "db_aie (d ! (time_t t - 1)) = None"
    using d by (simp_all add: ms_open_def Let_def)
  obtain buf c3 where ins: "ms_insert_more ops Active d c2 t = Some (d[time_t t - 1 := buf], c3)" "db_state buf = Active"
      "db_addr buf = a" "db_aie buf = None" "view (db_buffer buf) = grown (ys @ xs)" "view c3 = advance (view c2) (length xs)"
    by (rule ms_insert_more_appends [OF d c2(3,4) len])
  have pos: "bb_get_pos ops c = 0" using c by (simp add: get_pos [OF wf] at_start_def)
  have "rx_mac_frag ops t d c = Some (d[time_t t - 1 := buf], c3, [])"
    using c1(1) c2(1) ins(1) st pos d'(3)
    by (simp add: rx_mac_frag_def Let_def ms_insert_next_def slot_get_Some [OF d'(2,1)] del: One_nat_def)
  moreover have "ms_open view (d[time_t t - 1 := buf]) (time_t t) a (ys @ xs)" using ins d' by (simp add: ms_open_def)
  moreover have "raw_start (view c3) = raw_start (view c)" by (simp add: ins(6) c2(2) c1(2))
  ultimately show ?thesis by blast
qed

lemma rx_end:
  assumes p: "mac_end_dl_ok p" "me_fill_bits p = (f > 0)" "me_length_ind p \<noteq> 0"
    and c: "at_start (view c) (mac_end_dl_bits p @ xs @ fill_bits f @ rest)"
    and n: "min (me_length_ind p * 8) (length (mac_end_dl_bits p) + length xs + f + length rest) = length (mac_end_dl_bits p) + length xs + f"
    and d: "ms_open view d (time_t t) a ys" and len: "length ys + length xs \<le> DEFRAG_BUF_MAX_LEN"
  shows "\<exists>c' d' ind. rx_mac_end ops t scr d c = Some (d', c', [ind]) \<and> at_start (view (tma_pdu ind)) (ys @ xs) \<and> tma_address ind = a
    \<and> ms_idle view d' (time_t t) \<and> at_start (view c') rest"
proof -
  have wf: "view_wf (view c)" using c by (simp add: at_start_def)
  obtain c1 where c1: "mac_end_dl_from_bitbuf ops c = Some (Inr p, c1)" "view c1 = advance (view c) (length (mac_end_dl_bits p))"
    using parses_Some [OF parses_mac_end_dl [OF p(1)] wf at_start_remaining [OF c]] by auto
  note st = strip_fill [OF c c1(2)]
  obtain c2 where c2: "bb_set_raw_end ops c1 (bb_get_raw_start ops c1 + (length (mac_end_dl_bits p) + length xs)) = Some c2"
      "view c2 = (view c1)\<lparr>raw_end := raw_start (view c) + length (mac_end_dl_bits p) + length xs\<rparr>"
      "view_wf (view c2)" "remaining (view c2) = xs"
    using st(2) by auto
  have d': "length d = 4" "slot_ok (time_t t)" "db_aie (d ! (time_t t - 1)) = None"
    using d by (simp_all add: ms_open_def Let_def)
  obtain buf c3 where ins: "ms_insert_more ops Complete d c2 t = Some (d[time_t t - 1 := buf], c3)" "db_state buf = Complete"
      "db_addr buf = a" "db_aie buf = None" "view (db_buffer buf) = grown (ys @ xs)" "view c3 = advance (view c2) (length xs)"
    by (rule ms_insert_more_appends [OF d c2(3,4) len])
  obtain q1 where q1: "bb_set_raw_end ops (db_buffer buf) (length (ys @ xs)) = Some q1" "view q1 = grown (ys @ xs)"
    using set_raw_end [of "length (ys @ xs)" "db_buffer buf"] ins(5) by (auto simp: grown_def)
  obtain q2 where q2: "bb_seek ops q1 0 = Some q2" "view q2 = (grown (ys @ xs))\<lparr>raw_pos := 0\<rparr>"
    using seek [of q1 0] q1(2) by auto
  have raw: "bb_get_raw_pos ops (db_buffer buf) = length (ys @ xs)" by (simp add: get_raw_pos ins(5))
  let ?d = "d[time_t t - 1 := defrag_new ops]"
  have take: "take_defragged_buf ops (d[time_t t - 1 := buf]) t = Some (Some (buf\<lparr>db_buffer := q2\<rparr>), ?d)"
    using q1(1) q2(1) raw ins(2) d'(1,2)
      slot_pred_less [OF d'(2)]
    by (simp add: take_defragged_buf_def slot_get_Some slot_put_Some)
  obtain c4 where c4: "next_window ops c3 (raw_end (view c)) (length (mac_end_dl_bits p) + length xs + f) = Some c4"
      "at_start (view c4) rest"
    using next_window_rest [of "view c" "mac_end_dl_bits p @ xs @ fill_bits f" rest c3] c by (auto simp: ins(6) c2(2) c1(2) add.assoc)
  have pos: "bb_get_pos ops c = 0" using c by (simp add: get_pos [OF wf] at_start_def)
  have "rx_mac_end ops t scr d c = Some (?d, c4, [\<lparr>tma_pdu = q2, tma_address = a, tma_scrambling = scr\<rparr>])"
    using p(2,3) n c1(1) c2(1) ins(1,3) c4(1) st pos d'(3) take
    by (simp add: rx_mac_end_def Let_def ms_insert_last_def slot_get_Some [OF d'(2,1)] del: One_nat_def)
  moreover have "at_start (view q2) (ys @ xs)" by (simp add: q2(2) at_start_def view_wf_def window_def)
  moreover have "ms_idle view ?d (time_t t)"
    using d'(1,2) by (simp add: ms_idle_def defrag_new_def new_autoexpand grown_def)
  ultimately show ?thesis using c4(2) by auto
qed

text \<open>A null PDU is dropped and leaves the window where it is, so that the loop over the block ends there.\<close>

lemma rx_null:
  assumes c: "at_start (view c) (mac_resource_bits null_pdu @ rest)"
  shows "\<exists>c'. rx_mac_resource ops t scr d c = Some (d, c', []) \<and> raw_start (view c') = raw_start (view c)"
proof -
  have wf: "view_wf (view c)" using c by (simp add: at_start_def)
  obtain c1 where c1: "mac_resource_from_bitbuf ops c = Some (Inr (canon_resource null_pdu), c1)"
      "view c1 = advance (view c) (length (mac_resource_bits null_pdu))"
    using parses_Some [OF parses_mac_resource [OF null_pdu_ok] wf at_start_remaining [OF c]] by auto
  have c0: "at_start (view c) (mac_resource_bits null_pdu @ [] @ fill_bits 0 @ rest)" using c by (simp add: fill_bits_def)
  note st = strip_fill [OF c0 c1(2)]
  obtain c2 where c2: "bb_set_raw_end ops c1 (bb_get_raw_start ops c1 + length (mac_resource_bits null_pdu)) = Some c2"
      "raw_start (view c2) = raw_start (view c)"
    using st(2) c1(2) by auto
  have pos: "bb_get_pos ops c = 0" using c by (simp add: get_pos [OF wf] at_start_def)
  have "rx_mac_resource ops t scr d c = Some (d, c2, [])"
    using c1(1) c2(1) st pos
    by (simp add: rx_mac_resource_def canon_resource_def null_pdu_def Let_def ms_num_fill_bits_def null_pdu_length [unfolded null_pdu_def])
  then show ?thesis using c2(2) by blast
qed

lemma rx_tmv_sch_stays:
  assumes "ms_dispatch ops st c = Some h" and "ms_handle ops h t scr d c = Some (d', c', inds)" and "raw_start (view c') = raw_start (view c)"
  shows "rx_tmv_sch ops st t scr d c = Some (d', c', inds)"
  using assms by (subst rx_tmv_sch.simps) (simp add: get_raw_start Let_def)

lemma rx_tmv_sch_closing:
  assumes h: "ms_dispatch ops st c = Some h" "ms_handle ops h t scr d c = Some (d', c', inds)" and c': "at_start (view c') rest" "closing rest"
  shows "\<exists>c''. rx_tmv_sch ops st t scr d c = Some (d', c'', inds)"
proof (cases "bb_get_raw_start ops c' \<noteq> bb_get_raw_start ops c \<and> bb_get_len ops c' \<ge> 16")
  case True
  have "view_wf (view c')" using c'(1) by (simp add: at_start_def)
  then have "bb_get_len ops c' = length rest" using at_start_length [OF c'(1)] by (simp add: get_len)
  then obtain r where r: "rest = mac_resource_bits null_pdu @ r" using True c'(2) by (auto simp: closing_def)
  note null = c'(1) [unfolded r]
  obtain c'' where n: "rx_mac_resource ops t scr d' c' = Some (d', c'', [])" "raw_start (view c'') = raw_start (view c')"
    using rx_null [OF null] by blast
  have "ms_dispatch ops st c' = Some RxMacResource"
    using dispatch_resource [of c' "mr_fill_bits null_pdu"] null by (simp add: mac_resource_bits_def val_bits.simps numeral_2_eq_2)
  from rx_tmv_sch_stays [OF this, of t scr d'] n have "rx_tmv_sch ops st t scr d' c' = Some (d', c'', [])" by (simp add: ms_handle_def)
  with h True show ?thesis by (subst rx_tmv_sch.simps) (simp add: Let_def)
next
  case False
  with h show ?thesis by (subst rx_tmv_sch.simps) (auto simp: Let_def)
qed

end

end
