(* ===== verification/Bs_Frag.thy ===== *)
theory Bs_Frag
  imports Mac_Downlink Tx_Receipt Fill_Bits
begin

text \<open>
  Fragmentation of a downlink MAC SDU, \<^verbatim>\<open>crates/tetra-entities/src/umac/subcomp/bs_frag.rs\<close>: a
  fragger holds a MAC-RESOURCE and its SDU and writes, block by block, one PDU that holds all of it
  or a chain of a MAC-RESOURCE, MAC-FRAGs and a MAC-END.
\<close>

declare val_bits.simps(2) [simp del] stmts.simps [simp del]

section \<open>State\<close>

record mac_cipher_region =
  cr_request :: aie_request
  cr_start :: nat
  cr_len :: nat

record 'b bs_fragger =
  fg_resource :: mac_resource
  fg_chan_alloc :: "chan_alloc_element option"
  fg_final_slot_grant :: "basic_slotgrant option"
  fg_final_slot_grant_required :: bool
  fg_mac_hdr_is_written :: bool
  fg_is_fully_transmitted :: bool
  fg_sdu :: 'b
  fg_tx_reporter :: "tx_reporter option"
  fg_aie_request :: aie_request
  fg_last_cipher_region :: "mac_cipher_region option"

definition MIN_SLOT_CAP_FOR_RES_FRAG_START :: nat where
  "MIN_SLOT_CAP_FOR_RES_FRAG_START = 32"

definition MIN_SLOT_CAP_FOR_FRAG :: nat where
  "MIN_SLOT_CAP_FOR_FRAG = 16"

definition fragger_new_with_aie ::
  "'b bitbuf_ops \<Rightarrow> mac_resource \<Rightarrow> 'b \<Rightarrow> tx_reporter option \<Rightarrow> aie_request \<Rightarrow> 'b bs_fragger option" where
  "fragger_new_with_aie ops resource sdu rep aie = do {
     guard (bb_get_pos ops sdu = 0);
     Some \<lparr>fg_resource = resource, fg_chan_alloc = None, fg_final_slot_grant = None, fg_final_slot_grant_required = False,
       fg_mac_hdr_is_written = False, fg_is_fully_transmitted = False, fg_sdu = sdu, fg_tx_reporter = rep,
       fg_aie_request = aie, fg_last_cipher_region = None\<rparr> }"

definition fragger_new :: "'b bitbuf_ops \<Rightarrow> mac_resource \<Rightarrow> 'b \<Rightarrow> tx_reporter option \<Rightarrow> 'b bs_fragger option" where
  "fragger_new ops resource sdu rep = fragger_new_with_aie ops resource sdu rep (req_clear System ScopeMacResource)"

definition take_cipher_region :: "'b bs_fragger \<Rightarrow> mac_cipher_region option \<times> 'b bs_fragger" where
  "take_cipher_region fr = (fg_last_cipher_region fr, fr\<lparr>fg_last_cipher_region := None\<rparr>)"

definition can_finish_with_slot_grant :: "'b bitbuf_ops \<Rightarrow> 'b bs_fragger \<Rightarrow> nat \<Rightarrow> bool option" where
  "can_finish_with_slot_grant ops fr slot_cap_bits =
     (if fg_is_fully_transmitted fr then Some False
      else if \<not> fg_mac_hdr_is_written fr then do {
        hdr \<leftarrow> compute_header_len (fg_resource fr);
        let resource_len_bits = hdr + (if mr_slot_granting (fg_resource fr) = None then 8 else 0)
          + bb_get_len_remaining ops (fg_sdu fr);
        let fill_bits = compute_required resource_len_bits slot_cap_bits;
        Some (resource_len_bits + fill_bits \<le> slot_cap_bits) }
      else do {
        hdr \<leftarrow> compute_hdr_len None (fg_chan_alloc fr);
        let macend_len_bits = hdr + 8 + bb_get_len_remaining ops (fg_sdu fr);
        Some (macend_len_bits \<le> slot_cap_bits) })"

definition set_completion_slot_grant :: "basic_slotgrant \<Rightarrow> 'b bs_fragger \<Rightarrow> 'b bs_fragger option" where
  "set_completion_slot_grant grant fr = do {
     guard (\<not> fg_is_fully_transmitted fr);
     if fg_mac_hdr_is_written fr then Some (fr\<lparr>fg_final_slot_grant := Some grant\<rparr>)
     else do {
       guard (mr_slot_granting (fg_resource fr) = None);
       Some (fr\<lparr>fg_resource := (fg_resource fr)\<lparr>mr_slot_granting := Some grant\<rparr>\<rparr>) } }"

definition has_started :: "'b bs_fragger \<Rightarrow> bool" where
  "has_started fr = fg_mac_hdr_is_written fr"

definition require_final_slot_grant :: "'b bs_fragger \<Rightarrow> 'b bs_fragger option" where
  "require_final_slot_grant fr = do {
     guard (fg_mac_hdr_is_written fr);
     Some (fr\<lparr>fg_final_slot_grant_required := True\<rparr>) }"

definition allow_ungranted_final_response :: "'b bs_fragger \<Rightarrow> 'b bs_fragger" where
  "allow_ungranted_final_response fr = fr\<lparr>fg_final_slot_grant := None, fg_final_slot_grant_required := False\<rparr>"

definition fragger_expects_ack :: "'b bs_fragger \<Rightarrow> bool" where
  "fragger_expects_ack fr = (case fg_tx_reporter fr of None \<Rightarrow> False | Some r \<Rightarrow> expects_ack r)"

definition fragger_is_cancelled :: "tx_store \<Rightarrow> 'b bs_fragger \<Rightarrow> bool" where
  "fragger_is_cancelled st fr = (case fg_tx_reporter fr of None \<Rightarrow> False | Some r \<Rightarrow> is_discarded st r)"

definition individual_issi :: "'b bs_fragger \<Rightarrow> u32 option" where
  "individual_issi fr = (case fg_aie_request fr of
     ReqClear (Individual issi) _ \<Rightarrow> Some issi
   | ReqSc2 (Individual issi) _ \<Rightarrow> Some issi
   | ReqSc3 (Individual issi) _ _ \<Rightarrow> Some issi
   | _ \<Rightarrow> None)"

section \<open>Writing chunks\<close>

definition chan_alloc_opt_len :: "chan_alloc_element option \<Rightarrow> nat option" where
  "chan_alloc_opt_len c = (case c of None \<Rightarrow> Some 0 | Some e \<Rightarrow> chan_alloc_compute_len e)"

text \<open>The ciphered part of a MAC-RESOURCE: its channel allocation and its SDU bits.\<close>

definition resource_region :: "'b bs_fragger \<Rightarrow> nat \<Rightarrow> nat \<Rightarrow> mac_cipher_region option" where
  "resource_region fr chunk_start sdu_bits = do {
     hdr \<leftarrow> compute_header_len (fg_resource fr);
     ca \<leftarrow> chan_alloc_opt_len (mr_chan_alloc (fg_resource fr));
     let clear_header = hdr - ca;
     Some \<lparr>cr_request = with_scope (fg_aie_request fr) ScopeMacResource, cr_start = chunk_start + clear_header,
       cr_len = hdr + sdu_bits - clear_header\<rparr> }"

text \<open>The whole SDU in one MAC-RESOURCE.\<close>

definition whole_resource_chunk ::
  "'b bitbuf_ops \<Rightarrow> 'b bs_fragger \<Rightarrow> 'b \<Rightarrow> nat \<Rightarrow> nat \<Rightarrow> (bool \<times> 'b bs_fragger \<times> 'b) option" where
  "whole_resource_chunk ops fr mac_block sdu_len_bits num_fill_bits = do {
     let chunk_start = bb_get_pos ops mac_block;
     hdr_len_bits \<leftarrow> compute_header_len (fg_resource fr);
     let total_len_bits = hdr_len_bits + sdu_len_bits + num_fill_bits;
     let total_len_bytes = (total_len_bits + 7) div 8;
     guard (total_len_bits mod 8 = 0 \<or> total_len_bits = bb_get_len_remaining ops mac_block);
     let fr = fr\<lparr>fg_resource := (fg_resource fr)\<lparr>mr_length_ind := as_u8 total_len_bytes, mr_fill_bits := num_fill_bits > 0\<rparr>\<rparr>;
     mac_block \<leftarrow> mac_resource_to_bitbuf ops (fg_resource fr) mac_block;
     (mac_block, sdu) \<leftarrow> bb_copy_bits ops mac_block (fg_sdu fr) sdu_len_bits;
     mac_block \<leftarrow> fill_write ops mac_block (Some num_fill_bits);
     region \<leftarrow> resource_region fr chunk_start sdu_len_bits;
     Some (True, fr\<lparr>fg_sdu := sdu, fg_last_cipher_region := Some region, fg_mac_hdr_is_written := True\<rparr>, mac_block) }"

text \<open>A MAC-RESOURCE that starts a chain and fills the block.\<close>

definition start_fragment_chunk ::
  "'b bitbuf_ops \<Rightarrow> 'b bs_fragger \<Rightarrow> 'b \<Rightarrow> nat \<Rightarrow> (bool \<times> 'b bs_fragger \<times> 'b) option" where
  "start_fragment_chunk ops fr mac_block sdu_space_bits = do {
     let chunk_start = bb_get_pos ops mac_block;
     let fr = fr\<lparr>fg_resource := (fg_resource fr)\<lparr>mr_length_ind := MAC_RESOURCE_LENGTH_FRAG_START, mr_fill_bits := False\<rparr>\<rparr>;
     mac_block \<leftarrow> mac_resource_to_bitbuf ops (fg_resource fr) mac_block;
     (mac_block, sdu) \<leftarrow> bb_copy_bits ops mac_block (fg_sdu fr) sdu_space_bits;
     mac_block \<leftarrow> fill_write ops mac_block None;
     region \<leftarrow> resource_region fr chunk_start sdu_space_bits;
     Some (False, fr\<lparr>fg_sdu := sdu, fg_last_cipher_region := Some region, fg_mac_hdr_is_written := True\<rparr>, mac_block) }"

definition get_resource_chunk ::
  "'b bitbuf_ops \<Rightarrow> 'b bs_fragger \<Rightarrow> 'b \<Rightarrow> (bool \<times> 'b bs_fragger \<times> 'b) option" where
  "get_resource_chunk ops fr mac_block = do {
     guard (bb_get_pos ops (fg_sdu fr) = 0);
     guard (\<not> fg_mac_hdr_is_written fr);
     guard (\<not> (is_null_pdu (fg_resource fr) \<and> bb_get_len_remaining ops (fg_sdu fr) > 0));
     hdr_len_bits \<leftarrow> compute_header_len (fg_resource fr);
     let sdu_len_bits = bb_get_len_remaining ops (fg_sdu fr);
     let slot_cap_bits = bb_get_len_remaining ops mac_block;
     let num_fill_bits = compute_required (hdr_len_bits + sdu_len_bits) slot_cap_bits;
     let total_len_bits = hdr_len_bits + sdu_len_bits + num_fill_bits;
     if total_len_bits \<le> slot_cap_bits then whole_resource_chunk ops fr mac_block sdu_len_bits num_fill_bits
     else if slot_cap_bits < MIN_SLOT_CAP_FOR_RES_FRAG_START \<or> slot_cap_bits < hdr_len_bits then Some (False, fr, mac_block)
     else case mr_chan_alloc (fg_resource fr) of
       None \<Rightarrow> start_fragment_chunk ops fr mac_block (slot_cap_bits - hdr_len_bits)
     | Some chan_alloc \<Rightarrow> do {
         let moved = fr\<lparr>fg_chan_alloc := Some chan_alloc, fg_resource := (fg_resource fr)\<lparr>mr_chan_alloc := None\<rparr>\<rparr>;
         hdr_len_bits \<leftarrow> compute_header_len (fg_resource moved);
         let sdu_space_bits = slot_cap_bits - hdr_len_bits;
         if sdu_len_bits \<le> sdu_space_bits
         then Some (False, moved\<lparr>fg_resource := (fg_resource moved)\<lparr>mr_chan_alloc := fg_chan_alloc moved\<rparr>, fg_chan_alloc := None\<rparr>, mac_block)
         else start_fragment_chunk ops moved mac_block sdu_space_bits } }"

text \<open>\<open>get_frag_or_end_chunk\<close>: the last fragment, and any other.\<close>

definition end_chunk ::
  "'b bitbuf_ops \<Rightarrow> 'b bs_fragger \<Rightarrow> 'b \<Rightarrow> nat \<Rightarrow> nat \<Rightarrow> (bool \<times> 'b bs_fragger \<times> 'b) option" where
  "end_chunk ops fr mac_block macend_len_bits sdu_bits = do {
     let chunk_start = bb_get_pos ops mac_block;
     let num_fill_bits = compute_required macend_len_bits (bb_get_len_remaining ops mac_block);
     let macend_len_bytes = (macend_len_bits + num_fill_bits + 7) div 8;
     let pdu = \<lparr>me_fill_bits = num_fill_bits > 0, me_pos_of_grant = 0, me_length_ind = as_u8 macend_len_bytes,
       me_slot_granting = fg_final_slot_grant fr, me_chan_alloc = fg_chan_alloc fr\<rparr>;
     let fr = fr\<lparr>fg_final_slot_grant := None, fg_chan_alloc := None\<rparr>;
     mac_block \<leftarrow> mac_end_dl_to_bitbuf ops pdu mac_block;
     (mac_block, sdu) \<leftarrow> bb_copy_bits ops mac_block (fg_sdu fr) sdu_bits;
     mac_block \<leftarrow> fill_write ops mac_block (Some num_fill_bits);
     full_header \<leftarrow> compute_hdr_len (me_slot_granting pdu) (me_chan_alloc pdu);
     ca \<leftarrow> chan_alloc_opt_len (me_chan_alloc pdu);
     let clear_header = full_header - ca;
     Some (True, fr\<lparr>fg_sdu := sdu, fg_last_cipher_region := Some \<lparr>cr_request = with_scope (fg_aie_request fr) ScopeMacFragment,
       cr_start = chunk_start + clear_header, cr_len = full_header + sdu_bits - clear_header\<rparr>\<rparr>, mac_block) }"

definition frag_chunk :: "'b bitbuf_ops \<Rightarrow> 'b bs_fragger \<Rightarrow> 'b \<Rightarrow> nat \<Rightarrow> (bool \<times> 'b bs_fragger \<times> 'b) option" where
  "frag_chunk ops fr mac_block sdu_bits = do {
     let chunk_start = bb_get_pos ops mac_block;
     let slot_cap_bits = bb_get_len_remaining ops mac_block;
     let macfrag_hdr_len = 4;
     let sdu_bits_in_frag = min (slot_cap_bits - macfrag_hdr_len) sdu_bits;
     let num_fill_bits = slot_cap_bits - macfrag_hdr_len - sdu_bits_in_frag;
     mac_block \<leftarrow> mac_frag_dl_to_bitbuf ops \<lparr>mf_fill_bits = num_fill_bits > 0\<rparr> mac_block;
     (mac_block, sdu) \<leftarrow> bb_copy_bits ops mac_block (fg_sdu fr) sdu_bits_in_frag;
     mac_block \<leftarrow> fill_write ops mac_block (Some num_fill_bits);
     Some (False, fr\<lparr>fg_sdu := sdu, fg_last_cipher_region := Some \<lparr>cr_request = with_scope (fg_aie_request fr) ScopeMacFragment,
       cr_start = chunk_start + macfrag_hdr_len, cr_len = sdu_bits_in_frag\<rparr>\<rparr>, mac_block) }"

definition get_frag_or_end_chunk ::
  "'b bitbuf_ops \<Rightarrow> 'b bs_fragger \<Rightarrow> 'b \<Rightarrow> (bool \<times> 'b bs_fragger \<times> 'b) option" where
  "get_frag_or_end_chunk ops fr mac_block = do {
     guard (fg_mac_hdr_is_written fr);
     let sdu_bits = bb_get_len_remaining ops (fg_sdu fr);
     let awaits_grant = (fg_final_slot_grant_required fr \<and> fg_final_slot_grant fr = None);
     hdr \<leftarrow> compute_hdr_len (fg_final_slot_grant fr) (fg_chan_alloc fr);
     let macend_len_bits = hdr + (if awaits_grant then 8 else 0) + sdu_bits;
     let slot_cap_bits = bb_get_len_remaining ops mac_block;
     if macend_len_bits \<le> slot_cap_bits then
       (if awaits_grant then Some (False, fr, mac_block) else end_chunk ops fr mac_block macend_len_bits sdu_bits)
     else if slot_cap_bits < MIN_SLOT_CAP_FOR_FRAG then Some (False, fr, mac_block)
     else frag_chunk ops fr mac_block sdu_bits }"

definition get_next_chunk ::
  "'b bitbuf_ops \<Rightarrow> tx_store \<Rightarrow> 'b bs_fragger \<Rightarrow> 'b \<Rightarrow> (bool \<times> 'b bs_fragger \<times> 'b \<times> tx_store) option" where
  "get_next_chunk ops st fr mac_block = do {
     guard (\<not> fg_is_fully_transmitted fr);
     guard (bb_get_len_written ops mac_block mod 8 = 0 \<or> bb_get_len_remaining ops mac_block = 0);
     let fr = fr\<lparr>fg_last_cipher_region := None\<rparr>;
     (finished, fr, mac_block) \<leftarrow>
       (if \<not> fg_mac_hdr_is_written fr then get_resource_chunk ops fr mac_block else get_frag_or_end_chunk ops fr mac_block);
     let fr = fr\<lparr>fg_is_fully_transmitted := finished\<rparr>;
     st \<leftarrow> (case fg_tx_reporter fr of
       Some rep \<Rightarrow> if finished \<and> get_state st rep = Pending then mark_transmitted rep st else Some st
     | None \<Rightarrow> Some st);
     Some (finished, fr, mac_block, st) }"

definition fragger_drop :: "tx_store \<Rightarrow> 'b bs_fragger \<Rightarrow> tx_store option" where
  "fragger_drop st fr = (case fg_tx_reporter fr of
     Some rep \<Rightarrow> if \<not> fg_is_fully_transmitted fr \<and> get_state st rep = Pending then mark_discarded rep st else Some st
   | None \<Rightarrow> Some st)"

section \<open>What the blocks carry\<close>

text \<open>The chunk of a block, and the state of a fragger, on bits.\<close>

datatype chunk =
    Deferred
  | Whole mac_resource "bool list" nat
  | Start mac_resource "bool list"
  | Frag "bool list" nat
  | End mac_end_dl "bool list" nat

fun chunk_bits :: "chunk \<Rightarrow> bool list" where
  "chunk_bits Deferred = []"
| "chunk_bits (Whole p xs n) = mac_resource_bits p @ xs @ fill_bits n"
| "chunk_bits (Start p xs) = mac_resource_bits p @ xs"
| "chunk_bits (Frag xs n) = mac_frag_dl_bits \<lparr>mf_fill_bits = n > 0\<rparr> @ xs @ fill_bits n"
| "chunk_bits (End p xs n) = mac_end_dl_bits p @ xs @ fill_bits n"

fun chunk_sdu :: "chunk \<Rightarrow> bool list" where
  "chunk_sdu Deferred = []"
| "chunk_sdu (Whole _ xs _) = xs"
| "chunk_sdu (Start _ xs) = xs"
| "chunk_sdu (Frag xs _) = xs"
| "chunk_sdu (End _ xs _) = xs"

fun chunk_grant :: "chunk \<Rightarrow> basic_slotgrant option" where
  "chunk_grant (Whole p _ _) = mr_slot_granting p"
| "chunk_grant (Start p _) = mr_slot_granting p"
| "chunk_grant (End p _ _) = me_slot_granting p"
| "chunk_grant _ = None"

fun is_final :: "chunk \<Rightarrow> bool" where
  "is_final (Whole _ _ _) = True"
| "is_final (End _ _ _) = True"
| "is_final _ = False"

record fragging =
  ab_resource :: mac_resource
  ab_chan_alloc :: "chan_alloc_element option"
  ab_grant :: "basic_slotgrant option"
  ab_required :: bool
  ab_started :: bool
  ab_rest :: "bool list"

definition end_pdu :: "nat \<Rightarrow> nat \<Rightarrow> basic_slotgrant option \<Rightarrow> chan_alloc_element option \<Rightarrow> mac_end_dl" where
  "end_pdu n l g ca = \<lparr>me_fill_bits = n > 0, me_pos_of_grant = 0, me_length_ind = l, me_slot_granting = g, me_chan_alloc = ca\<rparr>"

definition res_len :: "mac_resource \<Rightarrow> nat" where
  "res_len r = length (mac_resource_bits r)"

definition end_len :: "basic_slotgrant option \<Rightarrow> chan_alloc_element option \<Rightarrow> nat" where
  "end_len g ca = length (mac_end_dl_bits (end_pdu 0 0 g ca))"

text \<open>A MAC-RESOURCE with its length and fill indication, and an SDU of \<open>n\<close> bits that it completes.\<close>

definition indicate :: "mac_resource \<Rightarrow> nat \<Rightarrow> bool \<Rightarrow> mac_resource" where
  "indicate r l f = r\<lparr>mr_length_ind := l, mr_fill_bits := f\<rparr>"

definition octets :: "nat \<Rightarrow> nat" where
  "octets n = (n + 7) div 8"

definition first_chunk :: "nat \<Rightarrow> fragging \<Rightarrow> chunk \<times> fragging" where
  "first_chunk cap a =
     (let r = ab_resource a; n = length (ab_rest a); fill = compute_required (res_len r + n) cap;
          bare = r\<lparr>mr_chan_alloc := None\<rparr>
      in if res_len r + n \<le> cap then
           (let p = indicate r (octets (res_len r + n + fill)) (fill > 0)
            in (Whole p (ab_rest a) fill, a\<lparr>ab_resource := p, ab_started := True, ab_rest := []\<rparr>))
         else if cap < MIN_SLOT_CAP_FOR_RES_FRAG_START \<or> cap < res_len r then (Deferred, a)
         else if mr_chan_alloc r \<noteq> None \<and> n \<le> cap - res_len bare then (Deferred, a\<lparr>ab_chan_alloc := None\<rparr>)
         else (let p = indicate bare MAC_RESOURCE_LENGTH_FRAG_START False; k = cap - res_len bare
            in (Start p (take k (ab_rest a)), a\<lparr>ab_resource := p, ab_started := True, ab_rest := drop k (ab_rest a),
                 ab_chan_alloc := (if mr_chan_alloc r = None then ab_chan_alloc a else mr_chan_alloc r)\<rparr>)))"

definition later_chunk :: "nat \<Rightarrow> fragging \<Rightarrow> chunk \<times> fragging" where
  "later_chunk cap a =
     (let n = length (ab_rest a); awaits = (ab_required a \<and> ab_grant a = None);
          len = end_len (ab_grant a) (ab_chan_alloc a) + (if awaits then 8 else 0) + n; fill = compute_required len cap
      in if len \<le> cap then
           (if awaits then (Deferred, a)
            else (End (end_pdu fill (octets (len + fill)) (ab_grant a) (ab_chan_alloc a)) (ab_rest a) fill,
              a\<lparr>ab_rest := [], ab_grant := None, ab_chan_alloc := None\<rparr>))
         else if cap < MIN_SLOT_CAP_FOR_FRAG then (Deferred, a)
         else (Frag (take (cap - 4) (ab_rest a)) (cap - 4 - n), a\<lparr>ab_rest := drop (cap - 4) (ab_rest a)\<rparr>))"

definition next_chunk :: "nat \<Rightarrow> fragging \<Rightarrow> chunk \<times> fragging" where
  "next_chunk cap a = (if ab_started a then later_chunk cap a else first_chunk cap a)"

definition abs_fragger :: "('b \<Rightarrow> buf_view) \<Rightarrow> 'b bs_fragger \<Rightarrow> fragging" where
  "abs_fragger view fr = \<lparr>ab_resource = fg_resource fr, ab_chan_alloc = fg_chan_alloc fr, ab_grant = fg_final_slot_grant fr,
     ab_required = fg_final_slot_grant_required fr, ab_started = fg_mac_hdr_is_written fr, ab_rest = remaining (view (fg_sdu fr))\<rparr>"

text \<open>A MAC-RESOURCE to one terminal or group that the writer accepts once its length is set.\<close>

definition sendable :: "mac_resource \<Rightarrow> bool" where
  "sendable r \<longleftrightarrow> mr_addr r \<noteq> None \<and> mac_resource_ok (indicate r 1 False)"

definition receipt_after :: "tx_reporter option \<Rightarrow> bool \<Rightarrow> tx_store \<Rightarrow> tx_store" where
  "receipt_after rep finished st = (case rep of
     Some r \<Rightarrow> if finished \<and> get_state st r = Pending then mark_unchecked Transmitted r st else st
   | None \<Rightarrow> st)"

definition fragging_ok :: "fragging \<Rightarrow> bool" where
  "fragging_ok a \<longleftrightarrow> sendable (ab_resource a) \<and> pred_option slotgrant_ok (ab_grant a) \<and> pred_option chan_alloc_ok (ab_chan_alloc a)"

definition fragger_ok :: "('b \<Rightarrow> buf_view) \<Rightarrow> 'b bs_fragger \<Rightarrow> bool" where
  "fragger_ok view fr \<longleftrightarrow> fragging_ok (abs_fragger view fr) \<and> view_wf (view (fg_sdu fr))
     \<and> (\<not> fg_mac_hdr_is_written fr \<longrightarrow> raw_pos (view (fg_sdu fr)) = raw_start (view (fg_sdu fr)))"

lemma res_len_indicate [simp]: "res_len (indicate r l f) = res_len r" "length (mac_resource_bits (indicate r l f)) = res_len r"
  by (simp_all add: res_len_def indicate_def mac_resource_bits_def mac_resource_address_bits_def is_null_pdu_def)

lemma end_len_end_pdu [simp]: "length (mac_end_dl_bits (end_pdu n l g ca)) = end_len g ca"
  by (simp add: end_len_def mac_end_dl_bits_def end_pdu_def)

lemma addr_type_indicate:
  "mr_addr r \<noteq> None \<Longrightarrow> mac_resource_addr_type (indicate r l f) = mac_resource_addr_type r"
  by (cases "mr_addr r") (simp_all add: mac_resource_addr_type_def indicate_def is_null_pdu_def cong: if_cong)

lemma addr_type_bare:
  "mr_addr r \<noteq> None \<Longrightarrow> mac_resource_addr_type (r\<lparr>mr_chan_alloc := None\<rparr>) = mac_resource_addr_type r"
  by (cases "mr_addr r") (simp_all add: mac_resource_addr_type_def is_null_pdu_def cong: if_cong)

lemma indicate_fields [simp]:
  "mr_addr (indicate r l f) = mr_addr r" "mr_chan_alloc (indicate r l f) = mr_chan_alloc r"
  "mr_length_ind (indicate r l f) = l" "mr_fill_bits (indicate r l f) = f" "mr_slot_granting (indicate r l f) = mr_slot_granting r"
  "mr_encryption_mode (indicate r l f) = mr_encryption_mode r" "mr_pos_of_grant (indicate r l f) = mr_pos_of_grant r"
  "mr_event_label (indicate r l f) = mr_event_label r" "mr_usage_marker (indicate r l f) = mr_usage_marker r"
  "mr_power_control (indicate r l f) = mr_power_control r" "is_null_pdu (indicate r l f) = is_null_pdu r"
  by (simp_all add: indicate_def is_null_pdu_def)

lemma indicate_ok: "\<lbrakk>sendable r; 0 < l; l < 64\<rbrakk> \<Longrightarrow> mac_resource_ok (indicate r l f)"
  using addr_type_indicate [of r] by (cases "mr_addr r") (simp_all add: sendable_def mac_resource_ok_def)

lemma sendable_bare: "sendable r \<Longrightarrow> sendable (r\<lparr>mr_chan_alloc := None\<rparr>)"
  using addr_type_indicate [of r] addr_type_indicate [of "r\<lparr>mr_chan_alloc := None\<rparr>"] addr_type_bare [of r]
  by (cases "mr_addr r") (simp_all add: sendable_def mac_resource_ok_def is_null_pdu_def)

lemma indicate_indicate [simp]: "indicate (indicate r l f) l' f' = indicate r l' f'"
  by (simp add: indicate_def)

lemma sendable_indicate [simp]: "sendable (indicate r l f) = sendable r"
  by (simp add: sendable_def)

lemma header_indicate [simp]: "compute_header_len (indicate r l f) = compute_header_len r"
  by (cases "mr_chan_alloc r") (simp_all add: compute_header_len_def Let_def)

lemma sendable_header: "sendable r \<Longrightarrow> compute_header_len r = Some (res_len r)"
  using compute_header_len_bits [OF indicate_ok, of r 1 False] by simp

lemma sendable_not_null: "sendable r \<Longrightarrow> \<not> is_null_pdu r"
  by (auto simp: sendable_def is_null_pdu_def)

lemma end_header: "\<lbrakk>pred_option slotgrant_ok g; pred_option chan_alloc_ok ca\<rbrakk> \<Longrightarrow> compute_hdr_len g ca = Some (end_len g ca)"
  using compute_hdr_len_bits [of "end_pdu 0 0 g ca"] by (simp add: mac_end_dl_ok_def end_pdu_def end_len_def)

lemma res_len_bare: "sendable r \<Longrightarrow> res_len (r\<lparr>mr_chan_alloc := None\<rparr>) \<le> res_len r"
  by (auto simp: res_len_def mac_resource_bits_def mac_resource_address_bits_def is_null_pdu_def sendable_def opt_bits_def split: option.splits)

lemma res_len_pos: "16 \<le> res_len r"
  by (simp add: res_len_def mac_resource_bits_def)

lemma octets_bound: "\<lbrakk>0 < n; n \<le> 456\<rbrakk> \<Longrightarrow> 0 < octets n \<and> octets n < 58"
  by (auto simp: octets_def)

lemma chan_alloc_opt_len_ok: "pred_option chan_alloc_ok ca \<Longrightarrow> \<exists>n. chan_alloc_opt_len ca = Some n"
  by (cases ca) (auto simp: chan_alloc_opt_len_def chan_alloc_len)

lemma sendable_chan_alloc: "sendable r \<Longrightarrow> pred_option chan_alloc_ok (mr_chan_alloc r)"
  by (auto simp: sendable_def mac_resource_ok_def indicate_def)

text \<open>A region can always be computed.\<close>

lemma resource_region_ok:
  assumes "sendable (fg_resource fr)"
  shows "\<exists>r. resource_region fr s n = Some r"
proof -
  obtain k where "chan_alloc_opt_len (mr_chan_alloc (fg_resource fr)) = Some k"
    using chan_alloc_opt_len_ok [OF sendable_chan_alloc [OF assms]] by auto
  then show ?thesis using sendable_header [OF assms] by (simp add: resource_region_def Let_def)
qed

context bit_buffer
begin

text \<open>Header, SDU bits and fill bits, one after the other.\<close>

lemma write_payload:
  assumes w: "emits w h" and s: "view_wf (view sdu)" "remaining (view sdu) = xs" and k: "k \<le> length xs"
    and b: "can_write (view b) (length h + k + f)"
  obtains b1 b2 sdu' b3 where "w b = Some b1" "bb_copy_bits ops b1 sdu k = Some (b2, sdu')"
    "view b2 = put_bits (view b) (h @ take k xs)" "view_wf (view b2)"
    "fill_write ops b2 (Some f) = Some b3" "view b3 = put_bits (view b) (h @ take k xs @ fill_bits f)"
    "view sdu' = advance (view sdu) k" "view_wf (view sdu')" "remaining (view sdu') = drop k xs"
proof -
  have wf: "view_wf (view b)" by (rule can_write_wf [OF b])
  have "can_write (view b) (length h)" by (rule can_write_le [OF b]) simp
  from emits_Some [OF w this] obtain b1 where b1: "w b = Some b1" "view b1 = put_bits (view b) h" by auto
  have b1w: "can_write (view b1) (k + f)" using b can_write_put [of "view b" h "k + f"] by (simp add: b1(2) add.assoc)
  have "raw_pos (view sdu) + k \<le> raw_end (view sdu)" using k s length_remaining [OF s(1)] by (auto simp: view_wf_def)
  from copy_bits [OF can_write_le [OF b1w] s(1) this] obtain b2 sdu' where c: "bb_copy_bits ops b1 sdu k = Some (b2, sdu')"
      "view b2 = put_bits (view b1) (take k xs)" "view sdu' = advance (view sdu) k"
    using s(2) by auto
  have v2: "view b2 = put_bits (view b) (h @ take k xs)" by (simp add: c(2) b1(2) put_bits_append [OF wf])
  have b2w: "can_write (view b2) f" using can_write_put [of "view b1" "take k xs" f] b1w k by (simp add: c(2) min_absorb2)
  from emits_Some [OF fill_write_some, of b2 f] b2w obtain b3 where b3: "fill_write ops b2 (Some f) = Some b3"
      "view b3 = put_bits (view b2) (fill_bits f)" by auto
  have "view b3 = put_bits (view b) (h @ take k xs @ fill_bits f)" by (simp add: b3(2) v2 put_bits_append [OF wf])
  from that [OF b1(1) c(1) v2 can_write_wf [OF b2w] b3(1) this c(3)] k s c(3) show ?thesis
    by (simp add: advance_wf remaining_advance)
qed

lemma whole_resource_chunk_sends:
  assumes fr: "sendable (fg_resource fr)" and s: "view_wf (view (fg_sdu fr))" "remaining (view (fg_sdu fr)) = xs"
    and b: "view_wf (view b)" and cap: "cap = raw_end (view b) - raw_pos (view b)" "cap \<le> 456" and fits: "res_len (fg_resource fr) + length xs \<le> cap"
    and f: "f = compute_required (res_len (fg_resource fr) + length xs) cap"
    and p: "p = indicate (fg_resource fr) (octets (res_len (fg_resource fr) + length xs + f)) (f > 0)"
  shows "\<exists>sdu' reg b'. whole_resource_chunk ops fr b (length xs) f
      = Some (True, fr\<lparr>fg_resource := p, fg_sdu := sdu', fg_last_cipher_region := Some reg, fg_mac_hdr_is_written := True\<rparr>, b')
    \<and> view b' = put_bits (view b) (mac_resource_bits p @ xs @ fill_bits f) \<and> view_wf (view sdu') \<and> remaining (view sdu') = []"
proof -
  let ?n = "res_len (fg_resource fr) + length xs + f"
  have n: "?n \<le> cap" "8 dvd ?n \<or> ?n = cap" using compute_required_facts(2,3) [OF fits] f by simp_all
  have "0 < ?n" using res_len_pos [of "fg_resource fr"] by linarith
  then have oct: "0 < octets ?n" "octets ?n < 58" using octets_bound [of ?n] n(1) cap(2) by simp_all
  have ok: "mac_resource_ok p" using indicate_ok [OF fr] oct by (simp add: p)
  have w: "can_write (view b) (length (mac_resource_bits p) + length xs + f)"
    using n(1) b cap(1) by (auto simp: can_write_def p view_wf_def)
  obtain b1 b2 sdu' b3 where o: "mac_resource_to_bitbuf ops p b = Some b1" "bb_copy_bits ops b1 (fg_sdu fr) (length xs) = Some (b2, sdu')"
      "fill_write ops b2 (Some f) = Some b3" "view b3 = put_bits (view b) (mac_resource_bits p @ xs @ fill_bits f)"
      "view_wf (view sdu')" "remaining (view sdu') = []"
    by (rule write_payload [OF emits_mac_resource [OF ok] s order_refl w]) simp
  obtain reg where reg: "resource_region (fr\<lparr>fg_resource := p\<rparr>) (bb_get_pos ops b) (length xs) = Some reg"
    using resource_region_ok [of "fr\<lparr>fg_resource := p\<rparr>"] fr p by auto
  have p': "(fg_resource fr)\<lparr>mr_length_ind := octets ?n, mr_fill_bits := f > 0\<rparr> = p" by (simp add: p indicate_def)
  have "whole_resource_chunk ops fr b (length xs) f
      = Some (True, fr\<lparr>fg_resource := p, fg_sdu := sdu', fg_last_cipher_region := Some reg, fg_mac_hdr_is_written := True\<rparr>, b3)"
    using n oct o reg p' cap(1)
    by (simp add: whole_resource_chunk_def sendable_header [OF fr] get_len_remaining [OF b] Let_def octets_def [symmetric]
        mod_eq_0_iff_dvd)
  then show ?thesis using o by blast
qed

lemma start_fragment_chunk_sends:
  assumes fr: "sendable (fg_resource fr)" and s: "view_wf (view (fg_sdu fr))" "remaining (view (fg_sdu fr)) = xs"
    and b: "view_wf (view b)" and cap: "cap = raw_end (view b) - raw_pos (view b)" and k: "k = cap - res_len (fg_resource fr)" "k \<le> length xs"
    and hdr: "res_len (fg_resource fr) \<le> cap" and p: "p = indicate (fg_resource fr) MAC_RESOURCE_LENGTH_FRAG_START False"
  shows "\<exists>sdu' reg b'. start_fragment_chunk ops fr b k
      = Some (False, fr\<lparr>fg_resource := p, fg_sdu := sdu', fg_last_cipher_region := Some reg, fg_mac_hdr_is_written := True\<rparr>, b')
    \<and> view b' = put_bits (view b) (mac_resource_bits p @ take k xs) \<and> view_wf (view sdu') \<and> remaining (view sdu') = drop k xs"
proof -
  have ok: "mac_resource_ok p" using indicate_ok [OF fr] by (simp add: p MAC_RESOURCE_LENGTH_FRAG_START_def)
  have w: "can_write (view b) (length (mac_resource_bits p) + k + 0)"
    using k hdr b cap by (auto simp: can_write_def p view_wf_def)
  obtain b1 b2 sdu' where o: "mac_resource_to_bitbuf ops p b = Some b1" "bb_copy_bits ops b1 (fg_sdu fr) k = Some (b2, sdu')"
      "view b2 = put_bits (view b) (mac_resource_bits p @ take k xs)" "view_wf (view b2)"
      "view_wf (view sdu')" "remaining (view sdu') = drop k xs"
    by (rule write_payload [OF emits_mac_resource [OF ok] s k(2) w])
  have "raw_pos (view b2) = raw_end (view b2)"
    using k hdr b cap by (simp add: o(3) p view_wf_def)
  with fill_write_none_full [OF o(4)] have fill: "fill_write ops b2 None = Some b2" by simp
  obtain reg where reg: "resource_region (fr\<lparr>fg_resource := p\<rparr>) (bb_get_pos ops b) k = Some reg"
    using resource_region_ok [of "fr\<lparr>fg_resource := p\<rparr>"] fr p by auto
  have p': "(fg_resource fr)\<lparr>mr_length_ind := MAC_RESOURCE_LENGTH_FRAG_START, mr_fill_bits := False\<rparr> = p" by (simp add: p indicate_def)
  have "start_fragment_chunk ops fr b k
      = Some (False, fr\<lparr>fg_resource := p, fg_sdu := sdu', fg_last_cipher_region := Some reg, fg_mac_hdr_is_written := True\<rparr>, b2)"
    using o fill reg p' by (simp add: start_fragment_chunk_def Let_def)
  then show ?thesis using o by blast
qed

lemma end_chunk_sends:
  assumes g: "pred_option slotgrant_ok (fg_final_slot_grant fr)" "pred_option chan_alloc_ok (fg_chan_alloc fr)"
    and s: "view_wf (view (fg_sdu fr))" "remaining (view (fg_sdu fr)) = xs" and b: "view_wf (view b)"
    and cap: "cap = raw_end (view b) - raw_pos (view b)" "cap \<le> 456"
    and len: "len = end_len (fg_final_slot_grant fr) (fg_chan_alloc fr) + length xs" "len \<le> cap"
    and f: "f = compute_required len cap" and p: "p = end_pdu f (octets (len + f)) (fg_final_slot_grant fr) (fg_chan_alloc fr)"
  shows "\<exists>sdu' reg b'. end_chunk ops fr b len (length xs)
      = Some (True, fr\<lparr>fg_final_slot_grant := None, fg_chan_alloc := None, fg_sdu := sdu', fg_last_cipher_region := Some reg\<rparr>, b')
    \<and> view b' = put_bits (view b) (mac_end_dl_bits p @ xs @ fill_bits f) \<and> view_wf (view sdu') \<and> remaining (view sdu') = []"
proof -
  let ?hdr = "end_len (fg_final_slot_grant fr) (fg_chan_alloc fr)"
  have n: "len + f \<le> cap" using compute_required_facts(2) [OF len(2)] f by simp
  have "0 < ?hdr" by (simp add: end_len_def mac_end_dl_bits_def)
  then have oct: "octets (len + f) < 58" using octets_bound [of "len + f"] n cap(2) len(1) by simp
  then have ok: "mac_end_dl_ok p" using g by (simp add: p end_pdu_def mac_end_dl_ok_def)
  have w: "can_write (view b) (length (mac_end_dl_bits p) + length xs + f)"
    using n b cap(1) len(1) by (auto simp: can_write_def p view_wf_def)
  obtain b1 b2 sdu' b3 where o: "mac_end_dl_to_bitbuf ops p b = Some b1" "bb_copy_bits ops b1 (fg_sdu fr) (length xs) = Some (b2, sdu')"
      "fill_write ops b2 (Some f) = Some b3" "view b3 = put_bits (view b) (mac_end_dl_bits p @ xs @ fill_bits f)"
      "view_wf (view sdu')" "remaining (view sdu') = []"
    by (rule write_payload [OF emits_mac_end_dl [OF ok] s order_refl w]) simp
  obtain ca where ca: "chan_alloc_opt_len (fg_chan_alloc fr) = Some ca" using chan_alloc_opt_len_ok [OF g(2)] by auto
  have p': "\<lparr>me_fill_bits = f > 0, me_pos_of_grant = 0, me_length_ind = octets (len + f),
      me_slot_granting = fg_final_slot_grant fr, me_chan_alloc = fg_chan_alloc fr\<rparr> = p" by (simp add: p end_pdu_def)
  have "\<exists>reg. end_chunk ops fr b len (length xs)
      = Some (True, fr\<lparr>fg_final_slot_grant := None, fg_chan_alloc := None, fg_sdu := sdu', fg_last_cipher_region := Some reg\<rparr>, b3)"
    using oct o ca p' end_header [OF g] cap(1) f
    by (simp add: end_chunk_def get_len_remaining [OF b] Let_def octets_def [symmetric]) blast
  then show ?thesis using o by blast
qed

lemma frag_chunk_sends:
  assumes s: "view_wf (view (fg_sdu fr))" "remaining (view (fg_sdu fr)) = xs" and b: "view_wf (view b)"
    and cap: "cap = raw_end (view b) - raw_pos (view b)" "4 \<le> cap"
  shows "\<exists>sdu' reg b'. frag_chunk ops fr b (length xs) = Some (False, fr\<lparr>fg_sdu := sdu', fg_last_cipher_region := Some reg\<rparr>, b')
    \<and> view b' = put_bits (view b) (chunk_bits (Frag (take (cap - 4) xs) (cap - 4 - length xs)))
    \<and> view_wf (view sdu') \<and> remaining (view sdu') = drop (cap - 4) xs"
proof -
  let ?k = "min (cap - 4) (length xs)" and ?f = "cap - 4 - length xs"
  let ?p = "\<lparr>mf_fill_bits = ?f > 0\<rparr>"
  have f: "cap - 4 - ?k = ?f" by simp
  have l: "length (mac_frag_dl_bits p) = 4" for p by (simp add: mac_frag_dl_bits_def)
  have w: "can_write (view b) (length (mac_frag_dl_bits ?p) + ?k + ?f)"
    unfolding l using cap b by (simp add: can_write_def view_wf_def min_def)
  obtain b1 b2 sdu' b3 where o: "mac_frag_dl_to_bitbuf ops ?p b = Some b1" "bb_copy_bits ops b1 (fg_sdu fr) ?k = Some (b2, sdu')"
      "fill_write ops b2 (Some ?f) = Some b3" "view b3 = put_bits (view b) (mac_frag_dl_bits ?p @ take ?k xs @ fill_bits ?f)"
      "view_wf (view sdu')" "remaining (view sdu') = drop ?k xs"
    by (rule write_payload [OF emits_mac_frag_dl s _ w]) simp_all
  have "take ?k xs = take (cap - 4) xs" "drop ?k xs = drop (cap - 4) xs" by (simp_all add: min_def)
  moreover have "\<exists>reg. frag_chunk ops fr b (length xs) = Some (False, fr\<lparr>fg_sdu := sdu', fg_last_cipher_region := Some reg\<rparr>, b3)"
    using o(1-3) f unfolding frag_chunk_def Let_def get_len_remaining [OF b] cap(1) [symmetric] f by simp blast
  ultimately show ?thesis using o by auto
qed

text \<open>One call, and what it leaves.\<close>

definition chunk_sent :: "'b bs_fragger \<Rightarrow> 'b \<Rightarrow> (bool \<times> 'b bs_fragger \<times> 'b) option \<Rightarrow> chunk \<times> fragging \<Rightarrow> bool" where
  "chunk_sent fr b res ca \<longleftrightarrow> (\<exists>fr' b'. res = Some (is_final (fst ca), fr', b') \<and> view b' = put_bits (view b) (chunk_bits (fst ca))
     \<and> abs_fragger view fr' = snd ca \<and> fragger_ok view fr' \<and> fg_tx_reporter fr' = fg_tx_reporter fr)"

lemma resource_chunk_sent:
  assumes fr: "fragger_ok view fr" "\<not> fg_mac_hdr_is_written fr" and b: "view_wf (view b)"
    and cap: "cap = raw_end (view b) - raw_pos (view b)" "cap \<le> 456"
  shows "chunk_sent fr b (get_resource_chunk ops fr b) (first_chunk cap (abs_fragger view fr))"
proof -
  let ?r = "fg_resource fr" and ?xs = "remaining (view (fg_sdu fr))"
  let ?bare = "?r\<lparr>mr_chan_alloc := None\<rparr>"
  have r: "sendable ?r" and s: "view_wf (view (fg_sdu fr))" and ok: "pred_option slotgrant_ok (fg_final_slot_grant fr)"
      "pred_option chan_alloc_ok (fg_chan_alloc fr)"
    using fr(1) by (simp_all add: fragger_ok_def fragging_ok_def abs_fragger_def)
  have n: "bb_get_len_remaining ops (fg_sdu fr) = length ?xs" by (simp add: get_len_remaining [OF s] length_remaining [OF s])
  have pos: "bb_get_pos ops (fg_sdu fr) = 0" using fr by (simp add: get_pos [OF s] fragger_ok_def)
  have cap': "bb_get_len_remaining ops b = cap" by (simp add: get_len_remaining [OF b] cap)
  note hdr = sendable_header [OF r] sendable_header [OF sendable_bare [OF r]]
  note pre = pos fr(2) sendable_not_null [OF r] n cap' hdr
  consider (whole) "res_len ?r + length ?xs \<le> cap"
    | (small) "\<not> res_len ?r + length ?xs \<le> cap" "cap < MIN_SLOT_CAP_FOR_RES_FRAG_START \<or> cap < res_len ?r"
    | (plain) "\<not> res_len ?r + length ?xs \<le> cap" "MIN_SLOT_CAP_FOR_RES_FRAG_START \<le> cap" "res_len ?r \<le> cap" "mr_chan_alloc ?r = None"
    | (again) ca where "\<not> res_len ?r + length ?xs \<le> cap" "MIN_SLOT_CAP_FOR_RES_FRAG_START \<le> cap" "res_len ?r \<le> cap"
        "mr_chan_alloc ?r = Some ca" "length ?xs \<le> cap - res_len ?bare"
    | (move) ca where "\<not> res_len ?r + length ?xs \<le> cap" "MIN_SLOT_CAP_FOR_RES_FRAG_START \<le> cap" "res_len ?r \<le> cap"
        "mr_chan_alloc ?r = Some ca" "\<not> length ?xs \<le> cap - res_len ?bare"
    by (cases "mr_chan_alloc ?r") force+
  then show ?thesis
  proof cases
    case whole
    have "get_resource_chunk ops fr b = whole_resource_chunk ops fr b (length ?xs) (compute_required (res_len ?r + length ?xs) cap)"
      using whole by (simp add: get_resource_chunk_def pre compute_required_fits Let_def)
    with whole_resource_chunk_sends [OF r s refl b cap whole refl refl] whole r ok show ?thesis
      by (auto simp: chunk_sent_def first_chunk_def abs_fragger_def fragger_ok_def fragging_ok_def Let_def)
  next
    case small
    then have "get_resource_chunk ops fr b = Some (False, fr, b)"
      by (simp add: get_resource_chunk_def pre compute_required_fits Let_def)
    with small fr(1) b show ?thesis by (auto simp: chunk_sent_def first_chunk_def abs_fragger_def Let_def)
  next
    case plain
    have k: "cap - res_len ?r \<le> length ?xs" using plain(1) by simp
    have bare: "?bare = ?r" using plain(4) by simp
    have "get_resource_chunk ops fr b = start_fragment_chunk ops fr b (cap - res_len ?r)"
      using plain by (simp add: get_resource_chunk_def pre compute_required_fits Let_def not_less)
    with start_fragment_chunk_sends [OF r s refl b cap(1) refl k plain(3) refl] plain r ok show ?thesis
      by (auto simp: chunk_sent_def first_chunk_def abs_fragger_def fragger_ok_def fragging_ok_def Let_def bare not_less)
  next
    case again
    have "get_resource_chunk ops fr b = Some (False, fr\<lparr>fg_chan_alloc := None\<rparr>, b)"
      using again by (simp add: get_resource_chunk_def pre compute_required_fits Let_def not_less)
    with again fr ok b r show ?thesis
      by (auto simp: chunk_sent_def first_chunk_def abs_fragger_def fragger_ok_def fragging_ok_def Let_def)
  next
    case move
    let ?fr = "fr\<lparr>fg_chan_alloc := Some ca, fg_resource := ?bare\<rparr>"
    have ca: "chan_alloc_ok ca" using sendable_chan_alloc [OF r] move(4) by simp
    have le: "res_len ?bare \<le> cap" using res_len_bare [OF r] move(3) by simp
    have k: "cap - res_len ?bare \<le> length ?xs" using move(5) by simp
    have "get_resource_chunk ops fr b = start_fragment_chunk ops ?fr b (cap - res_len ?bare)"
      using move by (simp add: get_resource_chunk_def pre compute_required_fits Let_def not_less)
    moreover have "\<exists>sdu' reg b'. start_fragment_chunk ops ?fr b (cap - res_len ?bare)
      = Some (False, ?fr\<lparr>fg_resource := indicate ?bare MAC_RESOURCE_LENGTH_FRAG_START False, fg_sdu := sdu',
          fg_last_cipher_region := Some reg, fg_mac_hdr_is_written := True\<rparr>, b')
      \<and> view b' = put_bits (view b) (mac_resource_bits (indicate ?bare MAC_RESOURCE_LENGTH_FRAG_START False) @ take (cap - res_len ?bare) ?xs)
      \<and> view_wf (view sdu') \<and> remaining (view sdu') = drop (cap - res_len ?bare) ?xs"
      using start_fragment_chunk_sends [of ?fr ?xs b cap "cap - res_len ?bare"] sendable_bare [OF r] s b cap(1) k le by simp
    ultimately show ?thesis using move sendable_bare [OF r] ok(1) ca
      by (auto simp: chunk_sent_def first_chunk_def abs_fragger_def fragger_ok_def fragging_ok_def Let_def not_less)
  qed
qed

lemma frag_or_end_chunk_sent:
  assumes fr: "fragger_ok view fr" "fg_mac_hdr_is_written fr" and b: "view_wf (view b)"
    and cap: "cap = raw_end (view b) - raw_pos (view b)" "cap \<le> 456"
  shows "chunk_sent fr b (get_frag_or_end_chunk ops fr b) (later_chunk cap (abs_fragger view fr))"
proof -
  let ?xs = "remaining (view (fg_sdu fr))"
  let ?awaits = "fg_final_slot_grant_required fr \<and> fg_final_slot_grant fr = None"
  let ?tail = "end_len (fg_final_slot_grant fr) (fg_chan_alloc fr)"
  let ?len = "?tail + (if ?awaits then 8 else 0) + length ?xs"
  have s: "view_wf (view (fg_sdu fr))" and ok: "pred_option slotgrant_ok (fg_final_slot_grant fr)"
      "pred_option chan_alloc_ok (fg_chan_alloc fr)"
    using fr(1) by (simp_all add: fragger_ok_def fragging_ok_def abs_fragger_def)
  have n: "bb_get_len_remaining ops (fg_sdu fr) = length ?xs" by (simp add: get_len_remaining [OF s] length_remaining [OF s])
  have cap': "bb_get_len_remaining ops b = cap" by (simp add: get_len_remaining [OF b] cap)
  note pre = fr(2) n cap' end_header [OF ok]
  consider (wait) "?len \<le> cap" ?awaits | (last) "?len \<le> cap" "\<not> ?awaits"
    | (small) "\<not> ?len \<le> cap" "cap < MIN_SLOT_CAP_FOR_FRAG" | (more) "\<not> ?len \<le> cap" "MIN_SLOT_CAP_FOR_FRAG \<le> cap"
    unfolding not_le [symmetric] by blast
  then show ?thesis
  proof cases
    case wait
    with end_header [OF ok] have "get_frag_or_end_chunk ops fr b = Some (False, fr, b)"
      by (simp add: get_frag_or_end_chunk_def pre Let_def)
    with wait fr(1) b show ?thesis by (simp add: chunk_sent_def later_chunk_def abs_fragger_def Let_def)
  next
    case last
    then have le: "?tail + length ?xs \<le> cap" by auto
    have "get_frag_or_end_chunk ops fr b = end_chunk ops fr b (?tail + length ?xs) (length ?xs)"
      using last by (auto simp: get_frag_or_end_chunk_def pre Let_def)
    with end_chunk_sends [OF ok s refl b cap refl le refl refl] last fr le show ?thesis
      by (auto simp: chunk_sent_def later_chunk_def abs_fragger_def fragger_ok_def fragging_ok_def Let_def)
  next
    case small
    then have "get_frag_or_end_chunk ops fr b = Some (False, fr, b)" by (simp add: get_frag_or_end_chunk_def pre Let_def)
    with small fr(1) b show ?thesis by (simp add: chunk_sent_def later_chunk_def abs_fragger_def Let_def)
  next
    case more
    have c4: "4 \<le> cap" using more(2) by (simp add: MIN_SLOT_CAP_FOR_FRAG_def)
    have "get_frag_or_end_chunk ops fr b = frag_chunk ops fr b (length ?xs)"
      using more by (simp add: get_frag_or_end_chunk_def pre Let_def)
    with frag_chunk_sends [OF s refl b cap(1) c4] more fr show ?thesis
      by (auto simp: chunk_sent_def later_chunk_def abs_fragger_def fragger_ok_def fragging_ok_def Let_def not_less)
  qed
qed

lemma next_chunk_sent:
  assumes fr: "fragger_ok view fr" "\<not> fg_is_fully_transmitted fr" and b: "view_wf (view b)" "8 dvd raw_pos (view b) - raw_start (view b)"
    and cap: "cap = raw_end (view b) - raw_pos (view b)" "cap \<le> 456"
    and c: "next_chunk cap (abs_fragger view fr) = (c, a)"
  shows "\<exists>fr' b'. get_next_chunk ops st fr b = Some (is_final c, fr', b', receipt_after (fg_tx_reporter fr) (is_final c) st)
    \<and> view b' = put_bits (view b) (chunk_bits c) \<and> abs_fragger view fr' = a \<and> fragger_ok view fr'
    \<and> fg_is_fully_transmitted fr' = is_final c \<and> fg_tx_reporter fr' = fg_tx_reporter fr"
proof -
  let ?fr = "fr\<lparr>fg_last_cipher_region := None\<rparr>"
  have same: "abs_fragger view ?fr = abs_fragger view fr" "fragger_ok view ?fr"
    using fr(1) by (simp_all add: abs_fragger_def fragger_ok_def)
  have "chunk_sent ?fr b (if \<not> fg_mac_hdr_is_written fr then get_resource_chunk ops ?fr b else get_frag_or_end_chunk ops ?fr b) (c, a)"
    using resource_chunk_sent [OF same(2) _ b(1) cap] frag_or_end_chunk_sent [OF same(2) _ b(1) cap] c
    by (simp add: next_chunk_def same(1)) (simp add: abs_fragger_def split: if_splits)
  then obtain fr1 b' where o: "(if \<not> fg_mac_hdr_is_written fr then get_resource_chunk ops ?fr b else get_frag_or_end_chunk ops ?fr b)
        = Some (is_final c, fr1, b')" "view b' = put_bits (view b) (chunk_bits c)" "abs_fragger view fr1 = a" "fragger_ok view fr1"
      "fg_tx_reporter fr1 = fg_tx_reporter fr"
    by (auto simp: chunk_sent_def)
  let ?fr1 = "fr1\<lparr>fg_is_fully_transmitted := is_final c\<rparr>"
  have "get_state st' r = Pending \<Longrightarrow> mark_transmitted r st' = Some (mark_unchecked Transmitted r st')" for st' r
    by (auto simp: get_state_def from_raw_def mark_transmitted_def mark_def mark_unchecked_def split: if_splits)
  then have "get_next_chunk ops st fr b = Some (is_final c, ?fr1, b', receipt_after (fg_tx_reporter fr) (is_final c) st)"
    using fr(2) b(2) o(1,5)
    by (simp add: get_next_chunk_def get_len_written [OF b(1)] mod_eq_0_iff_dvd Let_def receipt_after_def split: option.split)
  moreover have "abs_fragger view ?fr1 = a" "fragger_ok view ?fr1" using o(3,4) by (simp_all add: abs_fragger_def fragger_ok_def)
  ultimately show ?thesis using o by auto
qed

end

section \<open>A whole chain\<close>

text \<open>One fragger and the blocks it is given, until it is done.\<close>

fun transmit :: "'b bitbuf_ops \<Rightarrow> tx_store \<Rightarrow> 'b bs_fragger \<Rightarrow> 'b list \<Rightarrow> ('b list \<times> 'b bs_fragger \<times> tx_store) option" where
  "transmit ops st fr [] = Some ([], fr, st)"
| "transmit ops st fr (b # bs) = do {
     (finished, fr, b, st) \<leftarrow> get_next_chunk ops st fr b;
     if finished then Some ([b], fr, st)
     else do { (out, fr, st) \<leftarrow> transmit ops st fr bs; Some (b # out, fr, st) } }"

fun chunks :: "nat list \<Rightarrow> fragging \<Rightarrow> chunk list" where
  "chunks [] a = []"
| "chunks (cap # caps) a = (case next_chunk cap a of (c, a) \<Rightarrow> if is_final c then [c] else c # chunks caps a)"

definition block_cap :: "buf_view \<Rightarrow> nat" where
  "block_cap v = raw_end v - raw_pos v"

text \<open>A block as the scheduler hands it over: so far filled up to an octet boundary.\<close>

definition block_ok :: "buf_view \<Rightarrow> bool" where
  "block_ok v \<longleftrightarrow> view_wf v \<and> 8 dvd raw_pos v - raw_start v \<and> block_cap v \<le> 456"

lemma receipt_after_not [simp]: "receipt_after rep False st = st"
  by (simp add: receipt_after_def split: option.split)

lemma transmit_chunks:
  assumes "bit_buffer ops view" and "fragger_ok view fr" and "\<not> fg_is_fully_transmitted fr" and "\<forall>b\<in>set bs. block_ok (view b)"
    and "cs = chunks (map (\<lambda>b. block_cap (view b)) bs) (abs_fragger view fr)" and "fin = list_ex is_final cs"
  shows "\<exists>out fr'. transmit ops st fr bs = Some (out, fr', receipt_after (fg_tx_reporter fr) fin st)
    \<and> fg_is_fully_transmitted fr' = fin \<and> length out = length cs
    \<and> (\<forall>i<length cs. view (out ! i) = put_bits (view (bs ! i)) (chunk_bits (cs ! i)))"
  using assms(2-)
proof (induction bs arbitrary: fr st cs fin)
  case (Cons b bs)
  obtain c a where c: "next_chunk (block_cap (view b)) (abs_fragger view fr) = (c, a)" by force
  have b: "view_wf (view b)" "8 dvd raw_pos (view b) - raw_start (view b)" "block_cap (view b) \<le> 456"
    using Cons.prems(3) by (simp_all add: block_ok_def)
  obtain fr1 b1 where o: "get_next_chunk ops st fr b = Some (is_final c, fr1, b1, receipt_after (fg_tx_reporter fr) (is_final c) st)"
      "view b1 = put_bits (view b) (chunk_bits c)" "abs_fragger view fr1 = a" "fragger_ok view fr1"
      "fg_is_fully_transmitted fr1 = is_final c" "fg_tx_reporter fr1 = fg_tx_reporter fr"
    using bit_buffer.next_chunk_sent [OF assms(1) Cons.prems(1,2) b(1,2) block_cap_def b(3) c] by blast
  show ?case
  proof (cases "is_final c")
    case True
    then show ?thesis using o c Cons.prems(4,5) by auto
  next
    case False
    let ?cs = "chunks (map (\<lambda>b. block_cap (view b)) bs) a"
    have cs: "cs = c # ?cs" "fin = list_ex is_final ?cs" using Cons.prems(4,5) c False by simp_all
    obtain out fr' where r: "transmit ops st fr1 bs = Some (out, fr', receipt_after (fg_tx_reporter fr1) fin st)"
        "fg_is_fully_transmitted fr' = fin" "length out = length ?cs"
        "\<forall>i<length ?cs. view (out ! i) = put_bits (view (bs ! i)) (chunk_bits (?cs ! i))"
      using Cons.IH [OF o(4) _ _ _ cs(2), of st] o(3,5) False Cons.prems(3) by auto
    have "view ((b1 # out) ! i) = put_bits (view ((b # bs) ! i)) (chunk_bits (cs ! i))" if "i < length cs" for i
      using that r(4) o(2) cs(1) by (cases i) auto
    then show ?thesis using o(1,6) r cs(1) False by auto
  qed
qed simp

lemma chan_alloc_bits_le: "chan_alloc_ok c \<Longrightarrow> length (chan_alloc_bits c) \<le> 27"
  using chan_alloc_len [of c] chan_alloc_len_bounds [of c] by auto

lemma opt_bits_le: "pred_option (\<lambda>x. length (f x) \<le> n) x \<Longrightarrow> length (opt_bits f x) \<le> Suc n"
  by (cases x) simp_all

lemma res_len_le:
  assumes "sendable r"
  shows "res_len r \<le> 92"
proof -
  obtain a where a: "mr_addr r = Some a" using assms by (auto simp: sendable_def)
  have "mac_resource_addr_type r \<noteq> None" using assms addr_type_indicate [of r] by (simp add: sendable_def mac_resource_ok_def)
  then have "mr_event_label r = None \<or> mr_usage_marker r = None"
    by (auto simp: mac_resource_addr_type_def is_null_pdu_def a split: if_splits)
  then have "length (mac_resource_address_bits r) \<le> 34"
    by (auto simp: mac_resource_address_bits_def a split: option.split)
  moreover have "length (opt_bits chan_alloc_bits (mr_chan_alloc r)) \<le> 28"
    using opt_bits_le [of chan_alloc_bits 27] sendable_chan_alloc [OF assms] chan_alloc_bits_le
    by (cases "mr_chan_alloc r") simp_all
  moreover have "length (opt_bits (val_bits 4) (mr_power_control r)) \<le> 5" "length (opt_bits slotgrant_bits (mr_slot_granting r)) \<le> 9"
    using opt_bits_le [of "val_bits 4" 4] opt_bits_le [of slotgrant_bits 8] by (simp_all add: option.pred_True)
  ultimately show ?thesis by (simp add: res_len_def mac_resource_bits_def)
qed

lemma end_len_le:
  assumes "pred_option chan_alloc_ok ca"
  shows "end_len g ca \<le> 48"
proof -
  have "length (opt_bits chan_alloc_bits ca) \<le> 28"
    using opt_bits_le [of chan_alloc_bits 27] assms chan_alloc_bits_le by (cases ca) simp_all
  moreover have "length (opt_bits slotgrant_bits g) \<le> 9" using opt_bits_le [of slotgrant_bits 8] by (simp add: option.pred_True)
  ultimately show ?thesis by (simp add: end_len_def mac_end_dl_bits_def end_pdu_def)
qed

lemma next_chunk_payload: "next_chunk cap a = (c, a') \<Longrightarrow> chunk_sdu c @ ab_rest a' = ab_rest a"
  by (auto simp: next_chunk_def first_chunk_def later_chunk_def Let_def split: if_splits)

lemma next_chunk_final: "\<lbrakk>next_chunk cap a = (c, a'); is_final c\<rbrakk> \<Longrightarrow> ab_rest a' = []"
  by (auto simp: next_chunk_def first_chunk_def later_chunk_def Let_def split: if_splits)

lemma chunks_payload: "list_ex is_final (chunks caps a) \<Longrightarrow> concat (map chunk_sdu (chunks caps a)) = ab_rest a"
proof (induction caps arbitrary: a)
  case (Cons cap caps)
  obtain c a' where "next_chunk cap a = (c, a')" by force
  with Cons next_chunk_payload [OF this] next_chunk_final [OF this] show ?case by (auto split: if_splits)
qed simp

text \<open>An active chain never waits for long: every block takes its capacity less the four bits of a header.\<close>

lemma later_chunks_end:
  assumes "ab_started a" and "ab_required a \<longrightarrow> ab_grant a \<noteq> None" and "pred_option chan_alloc_ok (ab_chan_alloc a)"
    and "\<forall>cap\<in>set caps. C \<le> cap" and "48 \<le> C" and "length (ab_rest a) \<le> (C - 4) * m" and "m < length caps"
  shows "list_ex is_final (chunks caps a) \<and> Deferred \<notin> set (chunks caps a)"
  using assms
proof (induction caps arbitrary: a m)
  case (Cons cap caps)
  have e: "end_len (ab_grant a) (ab_chan_alloc a) \<le> 48" by (rule end_len_le [OF Cons.prems(3)])
  have C: "C \<le> cap" using Cons.prems(4) by simp
  show ?case
  proof (cases "end_len (ab_grant a) (ab_chan_alloc a) + length (ab_rest a) \<le> cap")
    case True
    then show ?thesis using Cons.prems(1,2) by (auto simp: next_chunk_def later_chunk_def Let_def)
  next
    case False
    then obtain k where k: "m = Suc k" using e C Cons.prems(5,6) by (cases m) auto
    let ?a = "a\<lparr>ab_rest := drop (cap - 4) (ab_rest a)\<rparr>"
    have "next_chunk cap a = (Frag (take (cap - 4) (ab_rest a)) (cap - 4 - length (ab_rest a)), ?a)"
      using False Cons.prems(1,2,5) C by (auto simp: next_chunk_def later_chunk_def Let_def MIN_SLOT_CAP_FOR_FRAG_def)
    moreover have "length (ab_rest ?a) \<le> (C - 4) * k" using Cons.prems(6) C k by simp
    ultimately show ?thesis using Cons.IH [of ?a k] Cons.prems k by simp
  qed
qed simp

lemma chunks_end:
  assumes ok: "fragging_ok a" and new: "\<not> ab_started a" "\<not> ab_required a" "ab_chan_alloc a = None"
    and caps: "\<forall>cap\<in>set caps. C \<le> cap" "92 \<le> C" and n: "length (ab_rest a) \<le> (C - 4) * m" "Suc m < length caps"
    and ca: "mr_chan_alloc (ab_resource a) \<noteq> None \<longrightarrow> hd caps < res_len ((ab_resource a)\<lparr>mr_chan_alloc := None\<rparr>) + length (ab_rest a)"
  shows "list_ex is_final (chunks caps a) \<and> Deferred \<notin> set (chunks caps a)"
proof -
  obtain cap caps' where c: "caps = cap # caps'" using n(2) by (cases caps) auto
  have r: "sendable (ab_resource a)" using ok by (simp add: fragging_ok_def)
  obtain ch a' where nc: "next_chunk cap a = (ch, a')" by force
  show ?thesis
  proof (cases "is_final ch")
    case True
    then show ?thesis using nc by (auto simp: c)
  next
    case False
    have "cap \<ge> 92" using caps by (simp add: c)
    moreover have "res_len (ab_resource a) \<le> 92" by (rule res_len_le [OF r])
    ultimately have "ab_started a'" "ch \<noteq> Deferred" "\<not> ab_required a'" "pred_option chan_alloc_ok (ab_chan_alloc a')"
        "length (ab_rest a') \<le> length (ab_rest a)"
      using nc False new ca sendable_chan_alloc [OF r]
      by (auto simp: next_chunk_def first_chunk_def Let_def MIN_SLOT_CAP_FOR_RES_FRAG_START_def c split: if_splits)
    with later_chunks_end [of a' caps' C m] caps n nc False show ?thesis by (simp add: c)
  qed
qed

text \<open>Granting a slot to the completion of the chain.\<close>

definition grant_completion :: "basic_slotgrant \<Rightarrow> fragging \<Rightarrow> fragging" where
  "grant_completion g a = (if ab_started a then a\<lparr>ab_grant := Some g\<rparr>
     else a\<lparr>ab_resource := (ab_resource a)\<lparr>mr_slot_granting := Some g\<rparr>\<rparr>)"

lemma addr_type_grant: "mac_resource_addr_type (r\<lparr>mr_slot_granting := gr\<rparr>) = mac_resource_addr_type r"
  by (simp add: mac_resource_addr_type_def is_null_pdu_def cong: if_cong option.case_cong)

lemma sendable_grant: "\<lbrakk>sendable r; slotgrant_ok g\<rbrakk> \<Longrightarrow> sendable (r\<lparr>mr_slot_granting := Some g\<rparr>)"
  using addr_type_indicate [of r] addr_type_indicate [of "r\<lparr>mr_slot_granting := Some g\<rparr>"] addr_type_grant [where r = r and gr = "Some g"]
  by (cases "mr_addr r") (simp_all add: sendable_def mac_resource_ok_def is_null_pdu_def)

lemma res_len_grant: "\<lbrakk>sendable r; mr_slot_granting r = None\<rbrakk> \<Longrightarrow> res_len (r\<lparr>mr_slot_granting := Some g\<rparr>) = res_len r + 8"
  by (auto simp: res_len_def mac_resource_bits_def mac_resource_address_bits_def is_null_pdu_def sendable_def)

lemma end_len_grant: "end_len (Some g) ca = end_len None ca + 8"
  by (simp add: end_len_def mac_end_dl_bits_def end_pdu_def)

lemma grant_completion_final:
  assumes r: "sendable (ab_resource a)" and new: "\<not> ab_started a \<longrightarrow> mr_slot_granting (ab_resource a) = None"
    and fits: "(if ab_started a then end_len None (ab_chan_alloc a) else res_len (ab_resource a)) + 8 + length (ab_rest a) \<le> cap"
  shows "\<exists>c a'. next_chunk cap (grant_completion g a) = (c, a') \<and> is_final c \<and> chunk_grant c = Some g \<and> chunk_sdu c = ab_rest a"
proof (cases "ab_started a")
  case True
  then show ?thesis using fits end_len_grant [of g "ab_chan_alloc a"]
    by (simp add: next_chunk_def grant_completion_def later_chunk_def Let_def end_pdu_def add.assoc)
next
  case False
  then show ?thesis using fits new res_len_grant [OF r, of g]
    by (simp add: next_chunk_def grant_completion_def first_chunk_def Let_def add.assoc)
qed

lemma set_completion:
  assumes "fragger_ok view fr" and "slotgrant_ok g" and "\<not> fg_is_fully_transmitted fr"
    and "\<not> fg_mac_hdr_is_written fr \<longrightarrow> mr_slot_granting (fg_resource fr) = None"
  shows "\<exists>fr1. set_completion_slot_grant g fr = Some fr1 \<and> abs_fragger view fr1 = grant_completion g (abs_fragger view fr)
    \<and> fragger_ok view fr1 \<and> \<not> fg_is_fully_transmitted fr1 \<and> fg_tx_reporter fr1 = fg_tx_reporter fr"
  using assms sendable_grant [of "fg_resource fr" g]
  by (auto simp: set_completion_slot_grant_def grant_completion_def abs_fragger_def fragger_ok_def fragging_ok_def)

context bit_buffer
begin

lemma can_finish_iff:
  assumes fr: "fragger_ok view fr" "\<not> fg_is_fully_transmitted fr"
    and "\<not> fg_mac_hdr_is_written fr \<longrightarrow> mr_slot_granting (fg_resource fr) = None"
  shows "can_finish_with_slot_grant ops fr cap = Some ((if ab_started (abs_fragger view fr) then end_len None (fg_chan_alloc fr)
    else res_len (fg_resource fr)) + 8 + length (remaining (view (fg_sdu fr))) \<le> cap)"
proof -
  have s: "view_wf (view (fg_sdu fr))" and ok: "sendable (fg_resource fr)" "pred_option chan_alloc_ok (fg_chan_alloc fr)"
    using fr by (simp_all add: fragger_ok_def fragging_ok_def abs_fragger_def)
  have n: "bb_get_len_remaining ops (fg_sdu fr) = length (remaining (view (fg_sdu fr)))"
    by (simp add: get_len_remaining [OF s] length_remaining [OF s])
  show ?thesis using fr(2) assms(3)
    by (simp add: can_finish_with_slot_grant_def abs_fragger_def n sendable_header [OF ok(1)] end_header [OF _ ok(2), of None]
        compute_required_fits Let_def)
qed

end

text \<open>A channel allocation that alone keeps the PDU from fitting.\<close>

lemma starved_chunks:
  assumes "\<not> ab_started a" and "\<forall>cap\<in>set caps. res_len ((ab_resource a)\<lparr>mr_chan_alloc := None\<rparr>) + length (ab_rest a) \<le> cap
    \<and> cap < res_len (ab_resource a) + length (ab_rest a)"
  shows "\<forall>c\<in>set (chunks caps a). c = Deferred"
  using assms
proof (induction caps arbitrary: a)
  case (Cons cap caps)
  let ?bare = "(ab_resource a)\<lparr>mr_chan_alloc := None\<rparr>"
  have ca: "mr_chan_alloc (ab_resource a) \<noteq> None"
  proof
    assume "mr_chan_alloc (ab_resource a) = None"
    then have "?bare = ab_resource a" by simp
    then show False using Cons.prems(2) by auto
  qed
  then have "next_chunk cap a = (Deferred, a) \<or> next_chunk cap a = (Deferred, a\<lparr>ab_chan_alloc := None\<rparr>)"
    using Cons.prems by (auto simp: next_chunk_def first_chunk_def Let_def)
  then show ?case using Cons.IH [of a] Cons.IH [of "a\<lparr>ab_chan_alloc := None\<rparr>"] Cons.prems by auto
qed simp

lemma chunks_length: "\<not> list_ex is_final (chunks caps a) \<Longrightarrow> length (chunks caps a) = length caps"
  by (induction caps arbitrary: a) (auto split: prod.splits if_splits)

text \<open>Concrete instances.\<close>

definition sample_alloc :: chan_alloc_element where
  "sample_alloc = \<lparr>alloc_type = AllocReplace, ts_assigned = [False, True, False, False], ul_dl_assigned = AssignBoth, clch_permission = False,
     cell_change_flag = False, carrier_num = 1521, ext = None, mon_pattern = 3, frame18_mon_pattern = None\<rparr>"

definition sample_unicast :: "chan_alloc_element option \<Rightarrow> mac_resource" where
  "sample_unicast ca = sample_resource\<lparr>mr_slot_granting := None, mr_chan_alloc := ca\<rparr>"

definition sample_sdu :: "nat \<Rightarrow> buf_view" where
  "sample_sdu n = \<lparr>raw_bits = replicate n True, raw_start = 0, raw_pos = 0, raw_end = n, raw_auto = False\<rparr>"

definition sample_fragger :: "chan_alloc_element option \<Rightarrow> nat \<Rightarrow> buf_view bs_fragger" where
  "sample_fragger ca n = the (fragger_new view_ops (sample_unicast ca) (sample_sdu n) None)"

lemma sample_sendable: "pred_option chan_alloc_ok ca \<Longrightarrow> sendable (sample_unicast ca)"
  by (simp add: sample_unicast_def sample_resource_def sendable_def mac_resource_ok_def mac_resource_addr_type_def is_null_pdu_def
      indicate_def option.pred_inject)

lemma sample_alloc_ok: "chan_alloc_ok sample_alloc"
  by (simp add: sample_alloc_def chan_alloc_ok_def)

lemma sample_view: "remaining (sample_sdu n) = replicate n True" "view_wf (sample_sdu n)" "bb_get_pos view_ops (sample_sdu n) = 0"
proof -
  show "remaining (sample_sdu n) = replicate n True" and wf: "view_wf (sample_sdu n)"
    by (simp_all add: sample_sdu_def remaining_def view_wf_def)
  show "bb_get_pos view_ops (sample_sdu n) = 0" using view_machine.get_pos [OF wf] by (simp add: sample_sdu_def)
qed

lemma sample_fragger_simps:
  "fg_resource (sample_fragger ca n) = sample_unicast ca" "fg_sdu (sample_fragger ca n) = sample_sdu n"
  "\<not> has_started (sample_fragger ca n)" "\<not> fg_is_fully_transmitted (sample_fragger ca n)" "fg_tx_reporter (sample_fragger ca n) = None"
  "fg_chan_alloc (sample_fragger ca n) = None" "\<not> fg_final_slot_grant_required (sample_fragger ca n)"
  "fg_final_slot_grant (sample_fragger ca n) = None"
  by (simp_all add: sample_fragger_def fragger_new_def fragger_new_with_aie_def sample_view has_started_def)

lemma sample_fragger_ok: "pred_option chan_alloc_ok ca \<Longrightarrow> fragger_ok (\<lambda>v. v) (sample_fragger ca n)"
  using sample_sendable [of ca] sample_view
  by (simp add: fragger_ok_def fragging_ok_def abs_fragger_def sample_fragger_simps sample_sdu_def)

lemma sample_block: "n \<le> 456 \<Longrightarrow> block_ok (sample_sdu n)" "block_cap (sample_sdu n) = n"
  by (simp_all add: block_ok_def block_cap_def sample_view sample_sdu_def view_wf_def)

lemma sample_res_len: "res_len (sample_unicast None) = 49" "res_len (sample_unicast (Some sample_alloc)) = 74"
  by (simp_all add: res_len_def sample_unicast_def sample_resource_def mac_resource_bits_def mac_resource_address_bits_def is_null_pdu_def
      chan_alloc_bits_def sample_alloc_def)

section \<open>Properties\<close>

text \<open>C25: The fragger refines a function on bit strings: given any octet-aligned block it does not panic, it writes exactly
  the chunk that function chooses for the block's capacity (a whole MAC-RESOURCE, the start of a chain, a MAC-FRAG, a
  MAC-END or nothing), keeps the bits not yet sent, and marks its receipt transmitted exactly with the last chunk.\<close>

theorem fragger_refines:
  assumes "bit_buffer ops view" and "fragger_ok view fr" and "\<not> fg_is_fully_transmitted fr" and "block_ok (view b)"
    and "next_chunk (block_cap (view b)) (abs_fragger view fr) = (c, a)"
  shows "\<exists>fr' b'. get_next_chunk ops st fr b = Some (is_final c, fr', b', receipt_after (fg_tx_reporter fr) (is_final c) st)
    \<and> view b' = put_bits (view b) (chunk_bits c) \<and> abs_fragger view fr' = a \<and> fragger_ok view fr'
    \<and> fg_is_fully_transmitted fr' = is_final c \<and> chunk_sdu c @ ab_rest a = remaining (view (fg_sdu fr))"
  using bit_buffer.next_chunk_sent [OF assms(1-3) _ _ block_cap_def _ assms(5)] assms(4) next_chunk_payload [OF assms(5)]
  by (fastforce simp: block_ok_def abs_fragger_def)

theorem fragger_refines_witness:
  "\<exists>fr b. get_next_chunk view_ops [] (sample_fragger None 300) (sample_sdu 268) = Some (False, fr, b, [])
     \<and> length (remaining (fg_sdu fr)) = 81"
proof -
  obtain c a where c: "next_chunk 268 (abs_fragger (\<lambda>v. v) (sample_fragger None 300)) = (c, a)" by force
  then have d: "\<not> is_final c \<and> length (ab_rest a) = 81"
    by (auto simp: next_chunk_def first_chunk_def abs_fragger_def Let_def sample_fragger_simps(1-2,4-) sample_view sample_res_len
        sample_fragger_simps(3) [unfolded has_started_def] MIN_SLOT_CAP_FOR_RES_FRAG_START_def)
      (auto simp: sample_unicast_def sample_resource_def res_len_def mac_resource_bits_def mac_resource_address_bits_def is_null_pdu_def Let_def)
  have "next_chunk (block_cap (sample_sdu 268)) (abs_fragger (\<lambda>v. v) (sample_fragger None 300)) = (c, a)" using c by (simp add: sample_block)
  from fragger_refines [OF view_machine.bit_buffer_axioms sample_fragger_ok sample_fragger_simps(4) sample_block(1) this, of "[]"] d
  obtain fr b where "get_next_chunk view_ops [] (sample_fragger None 300) (sample_sdu 268) = Some (False, fr, b, [])"
      "abs_fragger (\<lambda>v. v) fr = a" by auto
  with d show ?thesis by (auto simp: abs_fragger_def)
qed

text \<open>When the fragger says that its delivery can finish in a block with a slot grant, setting that grant succeeds and
  the next chunk in the block completes the delivery: it carries all bits left and the grant, in the MAC-RESOURCE or in
  the MAC-END, and the receipt is marked transmitted.\<close>

lemma slot_grant_completes:
  assumes "bit_buffer ops view" and "fragger_ok view fr" and "block_ok (view b)" and "slotgrant_ok g"
    and "\<not> has_started fr \<longrightarrow> mr_slot_granting (fg_resource fr) = None"
    and "can_finish_with_slot_grant ops fr (block_cap (view b)) = Some True"
  shows "\<exists>fr1 fr' b' c. set_completion_slot_grant g fr = Some fr1
    \<and> get_next_chunk ops st fr1 b = Some (True, fr', b', receipt_after (fg_tx_reporter fr) True st)
    \<and> view b' = put_bits (view b) (chunk_bits c) \<and> chunk_grant c = Some g \<and> chunk_sdu c = remaining (view (fg_sdu fr))"
proof -
  have nt: "\<not> fg_is_fully_transmitted fr" using assms(6) by (auto simp: can_finish_with_slot_grant_def)
  have st: "\<not> fg_mac_hdr_is_written fr \<longrightarrow> mr_slot_granting (fg_resource fr) = None" using assms(5) by (simp add: has_started_def)
  obtain fr1 where fr1: "set_completion_slot_grant g fr = Some fr1" "abs_fragger view fr1 = grant_completion g (abs_fragger view fr)"
      "fragger_ok view fr1" "\<not> fg_is_fully_transmitted fr1" "fg_tx_reporter fr1 = fg_tx_reporter fr"
    using set_completion [OF assms(2,4) nt st] by auto
  obtain c a' where c: "next_chunk (block_cap (view b)) (abs_fragger view fr1) = (c, a')" "is_final c" "chunk_grant c = Some g"
      "chunk_sdu c = remaining (view (fg_sdu fr))"
  proof -
    let ?a = "abs_fragger view fr"
    have a: "sendable (ab_resource ?a)" "ab_resource ?a = fg_resource fr" "ab_started ?a = fg_mac_hdr_is_written fr"
        "ab_rest ?a = remaining (view (fg_sdu fr))" "ab_chan_alloc ?a = fg_chan_alloc fr"
      using assms(2) by (simp_all add: fragger_ok_def fragging_ok_def abs_fragger_def)
    have "(if ab_started ?a then end_len None (ab_chan_alloc ?a) else res_len (ab_resource ?a)) + 8 + length (ab_rest ?a) \<le> block_cap (view b)"
      using assms(6) bit_buffer.can_finish_iff [OF assms(1,2) nt st, of "block_cap (view b)"] by (simp add: a split: if_splits)
    from grant_completion_final [OF a(1) _ this, of g] st a that show thesis by (auto simp: fr1(2))
  qed
  from bit_buffer.next_chunk_sent [OF assms(1) fr1(3,4) _ _ block_cap_def _ c(1), of st] assms(3) c fr1(1,5)
  show ?thesis by (fastforce simp: block_ok_def)
qed

theorem slot_grant_completes_witness:
  "\<exists>fr1 fr b. set_completion_slot_grant \<lparr>capacity_allocation = Grant1Slot, sg_granting_delay = CapAllocAtNextOpportunity\<rparr> (sample_fragger None 100) = Some fr1
     \<and> get_next_chunk view_ops [] fr1 (sample_sdu 268) = Some (True, fr, b, [])"
proof -
  let ?g = "\<lparr>capacity_allocation = Grant1Slot, sg_granting_delay = CapAllocAtNextOpportunity\<rparr>"
  have g: "slotgrant_ok ?g" by (simp add: slotgrant_ok_def)
  have n: "mr_slot_granting (sample_unicast None) = None" by (simp add: sample_unicast_def)
  have "can_finish_with_slot_grant view_ops (sample_fragger None 100) (block_cap (sample_sdu 268)) = Some True"
    using view_machine.can_finish_iff [OF sample_fragger_ok [of None 100] sample_fragger_simps(4), of 268] n
      sample_fragger_simps(3) [of None 100]
    by (simp add: sample_fragger_simps sample_block sample_view sample_res_len abs_fragger_def has_started_def)
  from slot_grant_completes [OF view_machine.bit_buffer_axioms sample_fragger_ok [of None 100] sample_block(1) g _ this, of "[]"] n
  show ?thesis by (auto simp: sample_fragger_simps receipt_after_def)
qed

text \<open>C26: A MAC-RESOURCE whose channel allocation alone keeps it from fitting is never sent in such blocks: as long as every
  block holds the PDU without the allocation but not with it, each call defers the delivery and leaves the block and
  the receipt untouched, however many blocks come.\<close>

theorem chan_alloc_starves:
  assumes "bit_buffer ops view" and "fragger_ok view fr" and "\<not> has_started fr" and "\<not> fg_is_fully_transmitted fr"
    and "\<forall>b\<in>set bs. block_ok (view b)
      \<and> res_len ((fg_resource fr)\<lparr>mr_chan_alloc := None\<rparr>) + length (remaining (view (fg_sdu fr))) \<le> block_cap (view b)
      \<and> block_cap (view b) < res_len (fg_resource fr) + length (remaining (view (fg_sdu fr)))"
  shows "\<exists>out fr'. transmit ops st fr bs = Some (out, fr', st) \<and> \<not> fg_is_fully_transmitted fr' \<and> map view out = map view bs"
proof -
  let ?caps = "map (\<lambda>b. block_cap (view b)) bs" and ?a = "abs_fragger view fr"
  let ?cs = "chunks ?caps ?a"
  have "\<not> ab_started ?a" "ab_resource ?a = fg_resource fr" "ab_rest ?a = remaining (view (fg_sdu fr))"
    using assms(3) by (simp_all add: abs_fragger_def has_started_def)
  then have d: "\<forall>c\<in>set ?cs. c = Deferred" using starved_chunks [of ?a ?caps] assms(5) by auto
  then have f: "list_ex is_final ?cs = False" by (auto simp: list_ex_iff)
  then have l: "length ?cs = length bs" using chunks_length [of ?caps ?a] by simp
  have nth: "?cs ! i = Deferred" if "i < length bs" for i using d that l nth_mem [of i ?cs] by simp
  have ok: "\<forall>b\<in>set bs. block_ok (view b)" using assms(5) by blast
  obtain out fr' where o: "transmit ops st fr bs = Some (out, fr', receipt_after (fg_tx_reporter fr) (list_ex is_final ?cs) st)"
      "fg_is_fully_transmitted fr' = list_ex is_final ?cs" "length out = length ?cs"
      "\<forall>i<length ?cs. view (out ! i) = put_bits (view (bs ! i)) (chunk_bits (?cs ! i))"
    using transmit_chunks [OF assms(1,2,4) ok refl refl, of st] by auto
  have "map view out = map view bs"
    using o(3,4) l nth ok by (intro nth_equalityI) (simp_all add: block_ok_def)
  then show ?thesis using o(1,2) by (simp add: f)
qed

theorem chan_alloc_starves_witness:
  "\<exists>out fr. transmit view_ops [] (sample_fragger (Some sample_alloc) 200) [sample_sdu 268, sample_sdu 268, sample_sdu 268] = Some (out, fr, [])
     \<and> out = [sample_sdu 268, sample_sdu 268, sample_sdu 268]"
proof -
  have bare: "(sample_unicast (Some sample_alloc))\<lparr>mr_chan_alloc := None\<rparr> = sample_unicast None" by (simp add: sample_unicast_def)
  show ?thesis
    using chan_alloc_starves [OF view_machine.bit_buffer_axioms sample_fragger_ok [of "Some sample_alloc" 200] sample_fragger_simps(3,4),
        of "[sample_sdu 268, sample_sdu 268, sample_sdu 268]" "[]"]
    by (auto simp: sample_fragger_simps sample_block sample_view sample_res_len bare sample_alloc_ok)
qed

end
