(* ===== verification/Air_Frag.thy ===== *)
theory Air_Frag
  imports Bs_Frag Umac_Ms
begin

text \<open>
  A fragmented SDU across the air interface: the fragger of \<^verbatim>\<open>umac/subcomp/bs_frag.rs\<close> fills blocks, the
  scheduler of \<^verbatim>\<open>umac/subcomp/bs_sched.rs\<close> closes each with a null PDU and fill bits, and the terminal's loop of
  \<^verbatim>\<open>umac/umac_ms.rs\<close> with the defragmenter of \<^verbatim>\<open>umac/subcomp/ms_defrag.rs\<close> puts the SDU together again.
\<close>

declare val_bits.simps(2) [simp del] stmts.simps [simp del]

section \<open>Closing a block\<close>

definition NULL_PDU_LEN_BITS :: nat where
  "NULL_PDU_LEN_BITS = 16"

text \<open>What is left of a block is closed by a null PDU, where one fits, and fill bits; the flags tell which were put.\<close>

definition finalize_downlink_mac_block :: "'b bitbuf_ops \<Rightarrow> 'b \<Rightarrow> ((bool \<times> bool) \<times> 'b) option" where
  "finalize_downlink_mac_block ops buf =
     (let remaining = bb_get_len_remaining ops buf in
      if remaining = 0 then Some ((False, False), buf)
      else do {
        let null_pdu_inserted = remaining \<ge> NULL_PDU_LEN_BITS;
        buf \<leftarrow> (if null_pdu_inserted then mac_resource_to_bitbuf ops null_pdu buf else Some buf);
        let fill_bits_inserted = bb_get_len_remaining ops buf > 0;
        buf \<leftarrow> (if fill_bits_inserted then fill_write ops buf None else Some buf);
        guard (bb_get_len_remaining ops buf = 0);
        Some ((null_pdu_inserted, fill_bits_inserted), buf) })"

primrec finalize_blocks :: "'b bitbuf_ops \<Rightarrow> 'b list \<Rightarrow> 'b list option" where
  "finalize_blocks ops [] = Some []"
| "finalize_blocks ops (b # bs) = do {
     (_, b) \<leftarrow> finalize_downlink_mac_block ops b;
     bs \<leftarrow> finalize_blocks ops bs;
     Some (b # bs) }"

lemma finalize_blocks_length: "finalize_blocks ops bs = Some cs \<Longrightarrow> length cs = length bs"
  by (induction bs arbitrary: cs) (auto simp: bind_eq_Some_conv)

definition closing_bits :: "nat \<Rightarrow> bool list" where
  "closing_bits n = (if 16 \<le> n then mac_resource_bits null_pdu @ fill_bits (n - 16) else fill_bits n)"

lemma closing_closing_bits: "closing (closing_bits n)"
  by (simp add: closing_def closing_bits_def)

lemma length_closing_bits [simp]: "length (closing_bits n) = n"
  by (simp add: closing_bits_def null_pdu_length)

context bit_buffer
begin

lemma fill_write_rest:
  assumes "view_wf (view b)" and "raw_pos (view b) < raw_end (view b)"
  shows "\<exists>b'. fill_write ops b None = Some b' \<and> view b' = put_bits (view b) (fill_bits (raw_end (view b) - raw_pos (view b)))
    \<and> bb_get_len_remaining ops b' = 0"
proof -
  let ?n = "raw_end (view b) - raw_pos (view b)"
  have w: "can_write (view b) ?n" "can_write (view b) 1" using assms by (auto simp: can_write_def)
  from write_bit [OF w(2), of True] obtain b1 where b1: "bb_write_bit ops b 1 = Some b1" "view b1 = put_bits (view b) [True]"
    by (auto simp: bit_of_def)
  have wf1: "view_wf (view b1)" using put_bits_wf [of "view b" "[True]"] w(2) b1(2) by simp
  have r1: "bb_get_len_remaining ops b1 = ?n - 1" using get_len_remaining [OF wf1] assms by (simp add: b1(2))
  have w1: "can_write (view b1) (?n - 1)" using wf1 assms by (auto simp: can_write_def b1(2))
  from write_zeroes [OF w1] obtain b2 where b2: "bb_write_zeroes ops b1 (?n - 1) = Some b2"
      "view b2 = put_bits (view b1) (replicate (?n - 1) False)" by auto
  have v: "view b2 = put_bits (view b) (fill_bits ?n)"
    using put_bits_append [OF assms(1), of "[True]" "replicate (?n - 1) False"] assms(2) by (simp add: b1(2) b2(2) fill_bits_def)
  have "view_wf (view b2)" using put_bits_wf [of "view b1" "replicate (?n - 1) False"] w1 b2(2) by simp
  then have "bb_get_len_remaining ops b2 = 0" using assms by (simp add: get_len_remaining v)
  moreover have "fill_write ops b None = Some b2"
    using b1(1) b2(1) r1 assms by (simp add: fill_write_def get_len_remaining)
  ultimately show ?thesis using v by blast
qed

lemma finalize_closes:
  assumes "view_wf (view b)"
  shows "\<exists>fl b'. finalize_downlink_mac_block ops b = Some (fl, b')
    \<and> view b' = put_bits (view b) (closing_bits (raw_end (view b) - raw_pos (view b)))"
proof -
  let ?n = "raw_end (view b) - raw_pos (view b)"
  have n: "bb_get_len_remaining ops b = ?n" by (rule get_len_remaining [OF assms])
  have fill: "\<exists>b'. fill_write ops c None = Some b' \<and> view b' = put_bits (view c) (fill_bits (raw_end (view c) - raw_pos (view c)))
      \<and> bb_get_len_remaining ops b' = 0"
    if "view_wf (view c)" "raw_pos (view c) < raw_end (view c)" for c
    by (rule fill_write_rest [OF that])
  consider "?n = 0" | "0 < ?n" "?n < 16" | "16 \<le> ?n" by linarith
  then show ?thesis
  proof cases
    case 1
    then show ?thesis using n assms by (auto simp: finalize_downlink_mac_block_def closing_bits_def fill_bits_def)
  next
    case 2
    then show ?thesis using n fill [of b] assms
      by (auto simp: finalize_downlink_mac_block_def closing_bits_def NULL_PDU_LEN_BITS_def Let_def)
  next
    case 3
    then have "raw_pos (view b) + 16 \<le> raw_end (view b)" by linarith
    with assms have w: "can_write (view b) (length (mac_resource_bits null_pdu))" by (simp add: can_write_def null_pdu_length)
    obtain c where c: "mac_resource_to_bitbuf ops null_pdu b = Some c" "view c = put_bits (view b) (mac_resource_bits null_pdu)"
      using emits_mac_resource [OF null_pdu_ok] w by (auto simp: emits_def)
    have cw: "view_wf (view c)" using put_bits_wf [OF w] c(2) by simp
    have e: "raw_end (view c) = raw_end (view b)" "raw_pos (view c) = raw_pos (view b) + 16"
      using 3 by (simp_all add: c(2) put_bits_def null_pdu_length)
    have r: "bb_get_len_remaining ops c = ?n - 16" using get_len_remaining [OF cw] e by simp
    have app: "put_bits (view c) zs = put_bits (view b) (mac_resource_bits null_pdu @ zs)" for zs
      using put_bits_append [OF assms] by (simp add: c(2))
    show ?thesis
    proof (cases "?n = 16")
      case True
      then show ?thesis using 3 n r c by (auto simp: finalize_downlink_mac_block_def closing_bits_def NULL_PDU_LEN_BITS_def Let_def fill_bits_def)
    next
      case False
      then have "raw_pos (view c) < raw_end (view c)" using 3 e by linarith
      from fill [OF cw this] obtain b' where "fill_write ops c None = Some b'" "view b' = put_bits (view c) (fill_bits (?n - 16))"
          "bb_get_len_remaining ops b' = 0" using e by auto
      moreover have "16 < ?n" using 3 False by simp
      ultimately show ?thesis using n r c(1) app
        by (auto simp: finalize_downlink_mac_block_def closing_bits_def NULL_PDU_LEN_BITS_def Let_def)
    qed
  qed
qed

lemma finalize_blocks_close:
  assumes "\<forall>b\<in>set bs. view_wf (view b)"
  shows "\<exists>cs. finalize_blocks ops bs = Some cs \<and> length cs = length bs
    \<and> (\<forall>i<length bs. view (cs ! i) = put_bits (view (bs ! i)) (closing_bits (raw_end (view (bs ! i)) - raw_pos (view (bs ! i)))))"
  using assms
proof (induction bs)
  case (Cons b bs)
  then obtain cs where "finalize_blocks ops bs = Some cs" "length cs = length bs"
      "\<forall>i<length bs. view (cs ! i) = put_bits (view (bs ! i)) (closing_bits (raw_end (view (bs ! i)) - raw_pos (view (bs ! i))))" by auto
  moreover obtain fl c where "finalize_downlink_mac_block ops b = Some (fl, c)"
      "view c = put_bits (view b) (closing_bits (raw_end (view b) - raw_pos (view b)))"
    using finalize_closes [of b] Cons.prems by auto
  ultimately show ?case by (auto simp: nth_Cons split: nat.split)
qed simp

end

section \<open>The receiver's side of a chain\<close>

text \<open>What the terminal sees of a block \<open>v\<close> that was sent as \<open>v'\<close>: all bits from where the block was still free.\<close>

definition heard :: "buf_view \<Rightarrow> buf_view \<Rightarrow> buf_view \<Rightarrow> bool" where
  "heard v v' w \<longleftrightarrow> at_start w (take (raw_end v - raw_pos v) (drop (raw_pos v) (raw_bits v')))"

text \<open>The loop of the terminal on one received block after the other, each with its time.\<close>

fun rx_blocks :: "'b bitbuf_ops \<Rightarrow> bool \<Rightarrow> u32 \<Rightarrow> 'b ms_defrag \<Rightarrow> (tdma_time \<times> 'b) list
    \<Rightarrow> ('b ms_defrag \<times> 'b tma_unitdata_ind list) option" where
  "rx_blocks ops stch scr d [] = Some (d, [])"
| "rx_blocks ops stch scr d ((t, c) # rxs) = do {
     (d, c, inds) \<leftarrow> rx_tmv_sch ops stch t scr d c;
     (d, inds') \<leftarrow> rx_blocks ops stch scr d rxs;
     Some (d, inds @ inds') }"

text \<open>The lengths that a chunk announces are those of the block of capacity \<open>cap\<close> it is in.\<close>

fun chunk_fits :: "nat \<Rightarrow> chunk \<Rightarrow> bool" where
  "chunk_fits cap Deferred = True"
| "chunk_fits cap (Whole p xs f) = (mac_resource_ok p \<and> mr_fill_bits p = (f > 0) \<and> 1 \<le> mr_length_ind p \<and> mr_length_ind p < 58
     \<and> min (mr_length_ind p * 8) cap = length (chunk_bits (Whole p xs f)))"
| "chunk_fits cap (Start p xs) = (mac_resource_ok p \<and> \<not> mr_fill_bits p \<and> mr_length_ind p = MAC_RESOURCE_LENGTH_FRAG_START
     \<and> length (chunk_bits (Start p xs)) = cap)"
| "chunk_fits cap (Frag xs f) = (length (chunk_bits (Frag xs f)) = cap)"
| "chunk_fits cap (End p xs f) = (mac_end_dl_ok p \<and> me_fill_bits p = (f > 0) \<and> me_length_ind p \<noteq> 0
     \<and> min (me_length_ind p * 8) cap = length (chunk_bits (End p xs f)))"

fun chunk_resource :: "chunk \<Rightarrow> mac_resource option" where
  "chunk_resource (Whole p _ _) = Some p"
| "chunk_resource (Start p _) = Some p"
| "chunk_resource _ = None"

lemma octets_min: "\<lbrakk>n \<le> cap; 8 dvd n \<or> n = cap\<rbrakk> \<Longrightarrow> min (octets n * 8) cap = n"
  by (auto simp: octets_def min_def)

lemma padded:
  assumes "n \<le> cap" and "cap \<le> 456" and "0 < n" and "f = compute_required n cap"
  shows "min (octets (n + f) * 8) cap = n + f" "0 < octets (n + f)" "octets (n + f) < 58" "n + f \<le> cap"
proof -
  note r = compute_required_facts(2,3) [OF assms(1), folded assms(4)]
  then show "min (octets (n + f) * 8) cap = n + f" by (intro octets_min) auto
  show "0 < octets (n + f)" "octets (n + f) < 58" "n + f \<le> cap" using octets_bound [of "n + f"] r(1) assms(2,3) by simp_all
qed

lemma first_chunk_fits:
  assumes a: "fragging_ok a" and cap: "cap \<le> 456" and c: "first_chunk cap a = (c, a')"
  shows "chunk_fits cap c \<and> fragging_ok a' \<and> (c \<noteq> Deferred \<longrightarrow> ab_started a')
    \<and> pred_option (\<lambda>p. mr_addr p = mr_addr (ab_resource a) \<and> mr_encryption_mode p = mr_encryption_mode (ab_resource a)) (chunk_resource c)"
proof -
  let ?r = "ab_resource a" and ?n = "length (ab_rest a)"
  let ?bare = "?r\<lparr>mr_chan_alloc := None\<rparr>"
  have r: "sendable ?r" using a by (simp add: fragging_ok_def)
  note bare = sendable_bare [OF r] res_len_bare [OF r]
  have start: "mac_resource_ok (indicate ?bare MAC_RESOURCE_LENGTH_FRAG_START False)"
    by (rule indicate_ok [OF bare(1)]) (simp_all add: MAC_RESOURCE_LENGTH_FRAG_START_def)
  note ca = sendable_chan_alloc [OF r]
  have "mr_chan_alloc ?r = None \<Longrightarrow> ?bare = ?r" by simp
  then have same: "mr_chan_alloc ?r = None \<Longrightarrow> res_len ?bare = res_len ?r" by (rule arg_cong)
  show ?thesis
  proof (cases "res_len ?r + ?n \<le> cap")
    case True
    have "0 < res_len ?r + ?n" using res_len_pos [of ?r] by linarith
    note pad = padded [OF True cap this refl]
    from indicate_ok [OF r, of "octets (res_len ?r + ?n + compute_required (res_len ?r + ?n) cap)"] pad True a r c show ?thesis
      by (auto simp: first_chunk_def Let_def fragging_ok_def add.assoc)
  next
    case False
    then show ?thesis using c a ca bare start same
      by (auto simp: first_chunk_def Let_def fragging_ok_def add.assoc split: if_splits)
  qed
qed

lemma later_chunk_fits:
  assumes a: "fragging_ok a" and cap: "cap \<le> 456" and c: "later_chunk cap a = (c, a')"
  shows "chunk_fits cap c \<and> fragging_ok a' \<and> ab_started a' = ab_started a \<and> chunk_resource c = None
    \<and> (is_final c \<or> (ab_grant a' = ab_grant a \<and> ab_required a' = ab_required a))"
proof -
  let ?len = "end_len (ab_grant a) (ab_chan_alloc a) + length (ab_rest a)"
  let ?f = "compute_required ?len cap"
  have frag: "length (mac_frag_dl_bits p) = 4" for p by (simp add: mac_frag_dl_bits_def)
  have pos: "0 < ?len" by (simp add: end_len_def mac_end_dl_bits_def)
  let ?awaits = "ab_required a \<and> ab_grant a = None"
  consider (wait) ?awaits "?len + 8 \<le> cap" | (last) "\<not> ?awaits" "?len \<le> cap"
    | (small) "\<not> ?len + (if ?awaits then 8 else 0) \<le> cap" "cap < MIN_SLOT_CAP_FOR_FRAG"
    | (more) "\<not> ?len + (if ?awaits then 8 else 0) \<le> cap" "MIN_SLOT_CAP_FOR_FRAG \<le> cap"
    by (cases "?awaits") force+
  then show ?thesis
  proof cases
    case wait
    then have "later_chunk cap a = (Deferred, a)" by (simp add: later_chunk_def Let_def)
    then show ?thesis using a c by simp
  next
    case last
    note pad = padded [OF last(2) cap pos refl]
    have ok: "mac_end_dl_ok (end_pdu ?f (octets (?len + ?f)) (ab_grant a) (ab_chan_alloc a))"
      using a pad by (simp add: mac_end_dl_ok_def end_pdu_def fragging_ok_def)
    have "later_chunk cap a = (End (end_pdu ?f (octets (?len + ?f)) (ab_grant a) (ab_chan_alloc a)) (ab_rest a) ?f,
        a\<lparr>ab_rest := [], ab_grant := None, ab_chan_alloc := None\<rparr>)"
      using last by (auto simp: later_chunk_def Let_def)
    moreover have "me_length_ind (end_pdu k l g ca) = l" "me_fill_bits (end_pdu k l g ca) = (k > 0)" for k l g ca
      by (simp_all add: end_pdu_def)
    ultimately show ?thesis using a c ok pad by (auto simp: fragging_ok_def add.assoc)
  next
    case small
    then have "later_chunk cap a = (Deferred, a)" by (auto simp: later_chunk_def Let_def add.assoc add.commute)
    then show ?thesis using a c by simp
  next
    case more
    then have "later_chunk cap a = (Frag (take (cap - 4) (ab_rest a)) (cap - 4 - length (ab_rest a)),
        a\<lparr>ab_rest := drop (cap - 4) (ab_rest a)\<rparr>)" by (auto simp: later_chunk_def Let_def add.assoc add.commute)
    moreover have "4 \<le> cap" using more by (simp add: MIN_SLOT_CAP_FOR_FRAG_def)
    ultimately show ?thesis using a c by (auto simp: fragging_ok_def frag min_def)
  qed
qed

section \<open>Chunk by chunk\<close>

text \<open>The window of the receiver starts with a chunk and ends with the block.\<close>

definition window_of :: "nat \<Rightarrow> chunk \<Rightarrow> buf_view \<Rightarrow> bool" where
  "window_of cap c w \<longleftrightarrow> (\<exists>rest. at_start w (chunk_bits c @ rest) \<and> length (chunk_bits c) + length rest = cap \<and> closing rest)"

lemma heard_window:
  assumes "view_wf v" and "length (chunk_bits c) \<le> block_cap v"
    and "heard v (put_bits (put_bits v (chunk_bits c)) (closing_bits (block_cap v - length (chunk_bits c)))) w"
  shows "window_of (block_cap v) c w"
proof -
  let ?rest = "closing_bits (block_cap v - length (chunk_bits c))"
  have "take (raw_end v - raw_pos v) (drop (raw_pos v) (raw_bits (put_bits v (chunk_bits c @ ?rest)))) = chunk_bits c @ ?rest"
    using assms(1,2) by (simp add: put_bits_def overwrite_def view_wf_def block_cap_def)
  then have "at_start w (chunk_bits c @ ?rest)" using assms(3) by (simp add: heard_def put_bits_append [OF assms(1)])
  then show ?thesis using assms(2) closing_closing_bits by (auto simp: window_of_def)
qed

lemma chunk_fits_length: "chunk_fits cap c \<Longrightarrow> length (chunk_bits c) \<le> cap"
  by (cases c) (auto simp: min_def split: if_splits)

context bit_buffer
begin

lemma resource_dispatch: "at_start (view c) (mac_resource_bits p @ r) \<Longrightarrow> ms_dispatch ops st c = Some RxMacResource"
  using dispatch_resource [of c "mr_fill_bits p"] by (simp add: mac_resource_bits_def val_bits.simps numeral_2_eq_2)

lemma receive_whole:
  assumes "window_of cap (Whole p xs f) (view c)" and "chunk_fits cap (Whole p xs f)" and "mr_addr p = Some a" "mr_encryption_mode p = 0" "xs \<noteq> []"
  shows "\<exists>c' ind. rx_tmv_sch ops stch t scr d c = Some (d, c', [ind]) \<and> at_start (view (tma_pdu ind)) xs \<and> tma_address ind = canon_address a"
proof -
  obtain rest where r: "at_start (view c) (mac_resource_bits p @ xs @ fill_bits f @ rest)"
      "length (mac_resource_bits p) + length xs + f + length rest = cap" and cl: "closing rest"
    using assms(1) by (auto simp: window_of_def add.assoc)
  have "\<exists>c' ind. rx_mac_resource ops t scr d c = Some (d, c', [ind]) \<and> at_start (view (tma_pdu ind)) xs
      \<and> tma_address ind = canon_address a \<and> at_start (view c') rest"
    by (rule rx_whole [OF _ assms(3,4) _ _ _ r(1) assms(5)]) (use assms(2) r(2) in \<open>simp_all add: add.assoc\<close>)
  then obtain c' ind where h: "rx_mac_resource ops t scr d c = Some (d, c', [ind])" "at_start (view (tma_pdu ind)) xs"
      "tma_address ind = canon_address a" "at_start (view c') rest" by blast
  from rx_tmv_sch_closing [OF resource_dispatch [OF r(1), of stch] _ h(4) cl, of t scr d d "[ind]"] h show ?thesis
    by (auto simp: ms_handle_def)
qed

lemma receive_start:
  assumes "window_of cap (Start p xs) (view c)" and "chunk_fits cap (Start p xs)" and "mr_addr p = Some a" "mr_encryption_mode p = 0"
    and "ms_idle view d (time_t t)"
  shows "\<exists>c' d'. rx_tmv_sch ops stch t scr d c = Some (d', c', []) \<and> ms_open view d' (time_t t) (canon_address a) xs"
proof -
  have r: "at_start (view c) (mac_resource_bits p @ xs)" using assms(1,2) by (auto simp: window_of_def)
  have "\<exists>c' d'. rx_mac_resource ops t scr d c = Some (d', c', []) \<and> ms_open view d' (time_t t) (canon_address a) xs \<and> at_start (view c') []"
    by (rule rx_start [OF _ assms(3,4) _ _ r assms(5)]) (use assms(2) in simp_all)
  then obtain c' d' where h: "rx_mac_resource ops t scr d c = Some (d', c', [])" "ms_open view d' (time_t t) (canon_address a) xs"
      "at_start (view c') []" by blast
  from rx_tmv_sch_closing [OF resource_dispatch [OF r, of stch] _ h(3), of t scr d d' "[]"] h show ?thesis
    by (auto simp: ms_handle_def closing_def)
qed

lemma receive_frag:
  assumes "window_of cap (Frag xs f) (view c)" and "chunk_fits cap (Frag xs f)"
    and "ms_open view d (time_t t) a ys" "length ys + length xs \<le> DEFRAG_BUF_MAX_LEN"
  shows "\<exists>c' d'. rx_tmv_sch ops stch t scr d c = Some (d', c', []) \<and> ms_open view d' (time_t t) a (ys @ xs)"
proof -
  have r: "at_start (view c) (mac_frag_dl_bits \<lparr>mf_fill_bits = f > 0\<rparr> @ xs @ fill_bits f)" using assms(1,2) by (auto simp: window_of_def)
  then have h: "ms_dispatch ops stch c = Some RxMacFrag"
    using dispatch_frag [of c False] by (simp add: mac_frag_dl_bits_def val_bits.simps numeral_2_eq_2)
  obtain c' d' where "rx_mac_frag ops t d c = Some (d', c', [])" "ms_open view d' (time_t t) a (ys @ xs)"
      "raw_start (view c') = raw_start (view c)"
    using rx_frag [OF r assms(3,4)] by blast
  with rx_tmv_sch_stays [OF h, of t scr d d' c' "[]"] show ?thesis by (auto simp: ms_handle_def)
qed

lemma receive_end:
  assumes "window_of cap (End p xs f) (view c)" and "chunk_fits cap (End p xs f)"
    and "ms_open view d (time_t t) a ys" "length ys + length xs \<le> DEFRAG_BUF_MAX_LEN"
  shows "\<exists>c' d' ind. rx_tmv_sch ops stch t scr d c = Some (d', c', [ind]) \<and> at_start (view (tma_pdu ind)) (ys @ xs)
    \<and> tma_address ind = a \<and> ms_idle view d' (time_t t)"
proof -
  obtain rest where r: "at_start (view c) (mac_end_dl_bits p @ xs @ fill_bits f @ rest)"
      "length (mac_end_dl_bits p) + length xs + f + length rest = cap" and cl: "closing rest"
    using assms(1) by (auto simp: window_of_def add.assoc)
  then have h: "ms_dispatch ops stch c = Some RxMacEnd"
    using dispatch_frag [of c True] by (simp add: mac_end_dl_bits_def val_bits.simps numeral_2_eq_2)
  have "\<exists>c' d' ind. rx_mac_end ops t scr d c = Some (d', c', [ind]) \<and> at_start (view (tma_pdu ind)) (ys @ xs) \<and> tma_address ind = a
      \<and> ms_idle view d' (time_t t) \<and> at_start (view c') rest"
    by (rule rx_end [OF _ _ _ r(1) _ assms(3,4)]) (use assms(2) r(2) in \<open>simp_all add: add.assoc\<close>)
  then obtain c' d' ind where e: "rx_mac_end ops t scr d c = Some (d', c', [ind])" "at_start (view (tma_pdu ind)) (ys @ xs)"
      "tma_address ind = a" "ms_idle view d' (time_t t)" "at_start (view c') rest" by blast
  from rx_tmv_sch_closing [OF h _ e(5) cl, of t scr d d' "[ind]"] e show ?thesis by (auto simp: ms_handle_def)
qed

text \<open>The blocks of a chain with the times and windows at which they are received, on one timeslot.\<close>

definition received :: "nat \<Rightarrow> nat \<times> chunk \<Rightarrow> tdma_time \<times> 'b \<Rightarrow> bool" where
  "received ts cc tw \<longleftrightarrow> time_t (fst tw) = ts \<and> window_of (fst cc) (snd cc) (view (snd tw))"

lemma rx_chain:
  assumes "ab_started a" and "fragging_ok a" and "\<forall>cap\<in>set caps. cap \<le> 456"
    and "list_ex is_final (chunks caps a)" and "Deferred \<notin> set (chunks caps a)"
    and "list_all2 (received ts) (zip caps (chunks caps a)) rxs"
    and "ms_open view d ts addr ys" and "length ys + length (ab_rest a) \<le> DEFRAG_BUF_MAX_LEN"
  shows "\<exists>d' ind. rx_blocks ops stch scr d rxs = Some (d', [ind]) \<and> at_start (view (tma_pdu ind)) (ys @ ab_rest a)
    \<and> tma_address ind = addr \<and> ms_idle view d' ts"
  using assms
proof (induction caps arbitrary: a rxs d ys)
  case (Cons cap caps)
  obtain c a' where c: "next_chunk cap a = (c, a')" by force
  then have l: "later_chunk cap a = (c, a')" using Cons.prems(1) by (simp add: next_chunk_def)
  have cap: "cap \<le> 456" using Cons.prems(3) by simp
  note fits = later_chunk_fits [OF Cons.prems(2) cap l]
  have pay: "chunk_sdu c @ ab_rest a' = ab_rest a" by (rule next_chunk_payload [OF c])
  obtain t w rxs' where rx: "rxs = (t, w) # rxs'" "received ts (cap, c) (t, w)"
    using Cons.prems(6) c by (cases "is_final c") (auto simp: list_all2_Cons1)
  have t: "time_t t = ts" and win: "window_of cap c (view w)" using rx(2) by (simp_all add: received_def)
  have len: "length ys + length (chunk_sdu c) \<le> DEFRAG_BUF_MAX_LEN" using Cons.prems(8) arg_cong [OF pay, of length] by simp
  have op: "ms_open view d (time_t t) addr ys" using Cons.prems(7) t by simp
  show ?case
  proof (cases "is_final c")
    case True
    with fits obtain p xs f where e: "c = End p xs f" by (cases c) auto
    have "rxs' = []" using Cons.prems(6) c True rx(1) by simp
    moreover have "ab_rest a = xs" using pay next_chunk_final [OF c True] e by simp
    ultimately show ?thesis
      using receive_end [of cap p xs f w d t addr ys stch scr] win fits len op t by (auto simp: e rx(1))
  next
    case False
    have "c \<noteq> Deferred" using Cons.prems(5) c False by auto
    with fits False obtain xs f where e: "c = Frag xs f" by (cases c) auto
    obtain w' d' where r: "rx_tmv_sch ops stch t scr d w = Some (d', w', [])" "ms_open view d' ts addr (ys @ xs)"
      using receive_frag [of cap xs f w d t addr ys stch scr] win fits len op t by (auto simp: e)
    have "list_all2 (received ts) (zip caps (chunks caps a')) rxs'" using Cons.prems(6) c False by (simp add: rx(1))
    moreover have eq: "ab_rest a = xs @ ab_rest a'" using pay e by simp
    moreover from this have "length (ys @ xs) + length (ab_rest a') \<le> DEFRAG_BUF_MAX_LEN" using Cons.prems(8) by simp
    ultimately have "\<exists>d'' ind. rx_blocks ops stch scr d' rxs' = Some (d'', [ind])
        \<and> at_start (view (tma_pdu ind)) ((ys @ xs) @ ab_rest a') \<and> tma_address ind = addr \<and> ms_idle view d'' ts"
      using Cons.IH [of a' rxs' d' "ys @ xs"] r(2) fits Cons.prems(1,3,4,5) c False by simp
    with eq r(1) show ?thesis by (auto simp: rx(1))
  qed
qed simp

lemma rx_all:
  assumes new: "\<not> ab_started a" and ok: "fragging_ok a" and caps: "\<forall>cap\<in>set caps. cap \<le> 456"
    and cs: "list_ex is_final (chunks caps a)" "Deferred \<notin> set (chunks caps a)"
    and rx: "list_all2 (received ts) (zip caps (chunks caps a)) rxs"
    and d: "ms_idle view d ts" and len: "length (ab_rest a) \<le> DEFRAG_BUF_MAX_LEN" and ne: "ab_rest a \<noteq> []"
    and r: "mr_addr (ab_resource a) = Some addr" "mr_encryption_mode (ab_resource a) = 0"
  shows "\<exists>d' ind. rx_blocks ops stch scr d rxs = Some (d', [ind]) \<and> at_start (view (tma_pdu ind)) (ab_rest a)
    \<and> tma_address ind = canon_address addr \<and> ms_idle view d' ts"
proof -
  obtain cap caps' where k: "caps = cap # caps'" using cs(1) by (cases caps) auto
  obtain c a' where c: "next_chunk cap a = (c, a')" by force
  then have l: "first_chunk cap a = (c, a')" using new by (simp add: next_chunk_def)
  have cap: "cap \<le> 456" using caps k by simp
  note fits = first_chunk_fits [OF ok cap l]
  have pay: "chunk_sdu c @ ab_rest a' = ab_rest a" by (rule next_chunk_payload [OF c])
  have nd: "c \<noteq> Deferred" using cs(2) c k by (auto split: if_splits)
  obtain t w rxs' where rxs: "rxs = (t, w) # rxs'" "received ts (cap, c) (t, w)"
    using rx c k by (cases "is_final c") (auto simp: list_all2_Cons1)
  have t: "time_t t = ts" and win: "window_of cap c (view w)" using rxs(2) by (simp_all add: received_def)
  show ?thesis
  proof (cases "is_final c")
    case True
    have rest: "ab_rest a' = []" by (rule next_chunk_final [OF c True])
    from l True have "\<exists>p xs f. c = Whole p xs f" by (auto simp: first_chunk_def Let_def split: if_splits)
    then obtain p xs f where e: "c = Whole p xs f" by blast
    moreover have "rxs' = []" using rx c k True rxs(1) by simp
    moreover have "ab_rest a = xs" using pay rest e by simp
    ultimately show ?thesis
      using receive_whole [of cap p xs f w addr stch t scr d] win fits r ne d by (auto simp: rxs(1))
  next
    case False
    from l False nd have "\<exists>p xs. c = Start p xs" by (auto simp: first_chunk_def Let_def split: if_splits)
    then obtain p xs where e: "c = Start p xs" by blast
    obtain w' d' where rs: "rx_tmv_sch ops stch t scr d w = Some (d', w', [])" "ms_open view d' ts (canon_address addr) xs"
      using receive_start [of cap p xs w addr d t stch scr] win fits r d t by (auto simp: e)
    have eq: "ab_rest a = xs @ ab_rest a'" using pay e by simp
    have "list_all2 (received ts) (zip caps' (chunks caps' a')) rxs'" using rx c k False by (simp add: rxs(1))
    from rx_chain [OF _ _ _ _ _ this rs(2), of stch scr] fits caps cs c k False nd len eq
    have "\<exists>d'' ind. rx_blocks ops stch scr d' rxs' = Some (d'', [ind]) \<and> at_start (view (tma_pdu ind)) (xs @ ab_rest a')
        \<and> tma_address ind = canon_address addr \<and> ms_idle view d'' ts" by simp
    with eq rs(1) show ?thesis by (auto simp: rxs(1))
  qed
qed

end

lemma chunks_fit:
  assumes "fragging_ok a" and "\<forall>cap\<in>set caps. cap \<le> 456" and "i < length (chunks caps a)"
  shows "length (chunk_bits (chunks caps a ! i)) \<le> caps ! i \<and> i < length caps"
  using assms
proof (induction caps arbitrary: a i)
  case (Cons cap caps)
  obtain c a' where c: "next_chunk cap a = (c, a')" by force
  have cap: "cap \<le> 456" using Cons.prems(2) by simp
  have f: "chunk_fits cap c" "fragging_ok a'"
    using first_chunk_fits [OF Cons.prems(1) cap, of c a'] later_chunk_fits [OF Cons.prems(1) cap, of c a'] c
    by (simp_all add: next_chunk_def split: if_splits)
  show ?case using Cons.IH [OF f(2)] Cons.prems(2,3) c chunk_fits_length [OF f(1)]
    by (cases i) (auto split: if_splits)
qed simp

text \<open>A closed block as the physical layer hands it over, in a buffer of its own.\<close>

definition received_view :: "bool list \<Rightarrow> buf_view" where
  "received_view xs = \<lparr>raw_bits = xs, raw_start = 0, raw_pos = 0, raw_end = length xs, raw_auto = False\<rparr>"

lemma heard_received: "heard v v' (received_view (take (raw_end v - raw_pos v) (drop (raw_pos v) (raw_bits v'))))"
  by (simp add: heard_def received_view_def at_start_def view_wf_def window_def min_def)

context bit_buffer
begin

lemma delivered:
  assumes "fragger_new ops r sdu rep = Some fr" and "at_start (view sdu) xs"
    and "xs \<noteq> []" and "length xs \<le> DEFRAG_BUF_MAX_LEN" and "sendable r" and "mr_addr r = Some addr" and "mr_encryption_mode r = 0"
    and "\<forall>b\<in>set bs. block_ok (view b) \<and> C \<le> block_cap (view b)" and "92 \<le> C" and "length xs \<le> (C - 4) * m" and "m + 2 \<le> length bs"
    and "mr_chan_alloc r \<noteq> None \<longrightarrow> block_cap (view (hd bs)) < res_len (r\<lparr>mr_chan_alloc := None\<rparr>) + length xs"
  shows "\<exists>out fr' sent. transmit ops st fr bs = Some (out, fr', receipt_after rep True st) \<and> fg_is_fully_transmitted fr'
    \<and> finalize_blocks ops out = Some sent
    \<and> (\<forall>rxs d ts. ms_idle view d ts \<and> length rxs = length out
         \<and> (\<forall>i<length out. time_t (fst (rxs ! i)) = ts \<and> heard (view (bs ! i)) (view (sent ! i)) (view (snd (rxs ! i)))) \<longrightarrow>
       (\<exists>d' ind. rx_blocks ops stch scr d rxs = Some (d', [ind]) \<and> at_start (view (tma_pdu ind)) xs
          \<and> tma_address ind = canon_address addr \<and> ms_idle view d' ts))"
proof -
  let ?a = "abs_fragger view fr" and ?caps = "map (\<lambda>b. block_cap (view b)) bs"
  let ?cs = "chunks ?caps ?a"
  have fr: "fr = \<lparr>fg_resource = r, fg_chan_alloc = None, fg_final_slot_grant = None, fg_final_slot_grant_required = False,
       fg_mac_hdr_is_written = False, fg_is_fully_transmitted = False, fg_sdu = sdu, fg_tx_reporter = rep,
       fg_aie_request = req_clear System ScopeMacResource, fg_last_cipher_region = None\<rparr>"
    using assms(1) by (simp add: fragger_new_def fragger_new_with_aie_def)
  have rem: "remaining (view sdu) = xs" by (rule at_start_remaining [OF assms(2)])
  have a: "?a = \<lparr>ab_resource = r, ab_chan_alloc = None, ab_grant = None, ab_required = False, ab_started = False, ab_rest = xs\<rparr>"
    by (simp add: abs_fragger_def fr rem)
  have ok: "fragger_ok view fr" using assms(2,5) by (simp add: fragger_ok_def fragging_ok_def a, simp add: fr at_start_def)
  then have aok: "fragging_ok ?a" by (simp add: fragger_ok_def)
  have bok: "\<forall>b\<in>set bs. block_ok (view b)" using assms(8) by blast
  then have caps: "\<forall>cap\<in>set ?caps. cap \<le> 456" by (auto simp: block_ok_def)
  have "hd ?caps = block_cap (view (hd bs))" using assms(11) by (cases bs) auto
  then have fin: "list_ex is_final ?cs" "Deferred \<notin> set ?cs"
    using chunks_end [OF aok, of ?caps C m] assms(8-12) by (auto simp: a)
  obtain out fr' where o: "transmit ops st fr bs = Some (out, fr', receipt_after (fg_tx_reporter fr) (list_ex is_final ?cs) st)"
      "fg_is_fully_transmitted fr' = list_ex is_final ?cs" "length out = length ?cs"
      "\<forall>i<length ?cs. view (out ! i) = put_bits (view (bs ! i)) (chunk_bits (?cs ! i))"
    using transmit_chunks [OF bit_buffer_axioms ok _ bok refl refl, of st] fr by auto
  have le: "length ?cs \<le> length bs" using chunks_fit [OF aok caps, of "length ?cs - 1"] by (cases "length ?cs") auto
  have wf: "view_wf (view (bs ! i))" "length (chunk_bits (?cs ! i)) \<le> block_cap (view (bs ! i))" if "i < length ?cs" for i
    using bok le that chunks_fit [OF aok caps that] by (auto simp: block_ok_def)
  have put: "view_wf (view (out ! i))" "raw_end (view (out ! i)) = raw_end (view (bs ! i))"
      "raw_pos (view (out ! i)) = raw_pos (view (bs ! i)) + length (chunk_bits (?cs ! i))" if "i < length ?cs" for i
  proof -
    have v: "view (out ! i) = put_bits (view (bs ! i)) (chunk_bits (?cs ! i))" using o(4) that by blast
    have le: "raw_pos (view (bs ! i)) + length (chunk_bits (?cs ! i)) \<le> raw_end (view (bs ! i))"
      using wf [OF that] by (simp add: block_cap_def view_wf_def le_diff_conv2 add.commute)
    then have "can_write (view (bs ! i)) (length (chunk_bits (?cs ! i)))" using wf(1) [OF that] by (simp add: can_write_def)
    then show "view_wf (view (out ! i))" unfolding v by (rule put_bits_wf)
    show "raw_end (view (out ! i)) = raw_end (view (bs ! i))"
      "raw_pos (view (out ! i)) = raw_pos (view (bs ! i)) + length (chunk_bits (?cs ! i))"
      using le by (simp_all add: v)
  qed
  obtain sent where sent: "finalize_blocks ops out = Some sent" "length sent = length out"
      "\<forall>i<length out. view (sent ! i) = put_bits (view (out ! i)) (closing_bits (raw_end (view (out ! i)) - raw_pos (view (out ! i))))"
    using finalize_blocks_close [of out] put(1) o(3) by (auto simp: set_conv_nth)
  have "\<exists>d' ind. rx_blocks ops stch scr d rxs = Some (d', [ind]) \<and> at_start (view (tma_pdu ind)) xs
      \<and> tma_address ind = canon_address addr \<and> ms_idle view d' ts"
    if rx: "ms_idle view d ts" "length rxs = length out"
      "\<forall>i<length out. time_t (fst (rxs ! i)) = ts \<and> heard (view (bs ! i)) (view (sent ! i)) (view (snd (rxs ! i)))" for rxs d ts
  proof -
    have "list_all2 (received ts) (zip ?caps ?cs) rxs"
    proof (rule list_all2_all_nthI)
      show "length (zip ?caps ?cs) = length rxs" using rx(2) o(3) le by simp
      fix i assume "i < length (zip ?caps ?cs)"
      then have i: "i < length ?cs" "i < length bs" by simp_all
      have "raw_end (view (out ! i)) - raw_pos (view (out ! i)) = block_cap (view (bs ! i)) - length (chunk_bits (?cs ! i))"
        using put [OF i(1)] by (simp add: block_cap_def)
      then have "heard (view (bs ! i)) (put_bits (put_bits (view (bs ! i)) (chunk_bits (?cs ! i)))
          (closing_bits (block_cap (view (bs ! i)) - length (chunk_bits (?cs ! i))))) (view (snd (rxs ! i)))"
        using rx(3) o(3,4) sent(3) i(1) by auto
      from heard_window [OF wf [OF i(1)] this] rx(3) o(3) i show "received ts (zip ?caps ?cs ! i) (rxs ! i)"
        by (simp add: received_def)
    qed
    from rx_all [OF _ aok caps fin this rx(1), of addr stch scr] assms(3,4,6,7) show ?thesis by (simp add: a)
  qed
  then show ?thesis using o(1,2) fin(1) sent(1) by (auto simp: fr)
qed

end

section \<open>Properties\<close>

text \<open>C27: Every fragmented SDU arrives, once, whole and with its address. A fragger made for an unencrypted MAC-RESOURCE
  to a terminal or group and a non-empty SDU that the terminal's buffer can hold never panics; over blocks that have at
  least \<open>C \<ge> 92\<close> bits free it is done after at most two blocks more than one per \<open>C - 4\<close> bits of the SDU, provided
  its channel allocation, if any, is not all that keeps it out of the first block; its receipt is marked transmitted;
  closing the blocks with null PDUs and fill bits never panics; and a terminal that receives the closed blocks on one
  timeslot, from any idle state, and runs its loop to the end of each, hands up exactly one indication, with the bits of
  the SDU in order and the address as sent.\<close>

theorem fragmented_sdu_delivered:
  assumes "bit_buffer ops view" and "fragger_new ops r sdu rep = Some fr" and "at_start (view sdu) xs"
    and "xs \<noteq> []" and "length xs \<le> DEFRAG_BUF_MAX_LEN" and "sendable r" and "mr_addr r = Some addr" and "mr_encryption_mode r = 0"
    and "\<forall>b\<in>set bs. block_ok (view b) \<and> C \<le> block_cap (view b)" and "92 \<le> C" and "length xs \<le> (C - 4) * m" and "m + 2 \<le> length bs"
    and "mr_chan_alloc r \<noteq> None \<longrightarrow> block_cap (view (hd bs)) < res_len (r\<lparr>mr_chan_alloc := None\<rparr>) + length xs"
  shows "\<exists>out fr' sent. transmit ops st fr bs = Some (out, fr', receipt_after rep True st) \<and> fg_is_fully_transmitted fr'
    \<and> finalize_blocks ops out = Some sent
    \<and> (\<forall>rxs d ts. ms_idle view d ts \<and> length rxs = length out
         \<and> (\<forall>i<length out. time_t (fst (rxs ! i)) = ts \<and> heard (view (bs ! i)) (view (sent ! i)) (view (snd (rxs ! i)))) \<longrightarrow>
       (\<exists>d' ind. rx_blocks ops stch scr d rxs = Some (d', [ind]) \<and> at_start (view (tma_pdu ind)) xs
          \<and> tma_address ind = canon_address addr \<and> ms_idle view d' ts))"
  by (rule bit_buffer.delivered [OF assms])

theorem fragmented_sdu_delivered_witness:
  "\<exists>out fr sent d ind. transmit view_ops [] (sample_fragger None 300) (replicate 4 (sample_sdu 268)) = Some (out, fr, [])
     \<and> finalize_blocks view_ops out = Some sent
     \<and> rx_blocks view_ops False 0 (ms_defrag_new view_ops)
         (map (\<lambda>v. (\<lparr>time_t = 2, time_f = 1, time_m = 1, time_h = 0\<rparr>, received_view (take 268 (raw_bits v)))) sent) = Some (d, [ind])
     \<and> at_start (tma_pdu ind) (replicate 300 True) \<and> tma_address ind = \<lparr>ssi = 2001, ssi_type = Ssi\<rparr>"
proof -
  let ?bs = "replicate 4 (sample_sdu 268)"
  let ?t = "\<lparr>time_t = 2, time_f = 1, time_m = 1, time_h = 0\<rparr>"
  let ?fr = "sample_fragger None 300" and ?r = "sample_unicast None"
  let ?cs = "chunks (map block_cap ?bs) (abs_fragger (\<lambda>v. v) ?fr)"
  have new: "fragger_new view_ops ?r (sample_sdu 300) None = Some ?fr"
    by (simp add: sample_fragger_def fragger_new_def fragger_new_with_aie_def sample_view)
  have sdu: "at_start (sample_sdu 300) (replicate 300 True)" using sample_view [of 300]
    by (simp add: at_start_def window_def sample_sdu_def)
  have ok: "sendable ?r" by (rule sample_sendable) simp
  have addr: "mr_addr ?r = Some \<lparr>ssi = 2001, ssi_type = Issi\<rparr>" "mr_encryption_mode ?r = 0" "mr_chan_alloc ?r = None"
    by (simp_all add: sample_unicast_def sample_resource_def)
  have idle: "ms_idle (\<lambda>v. v) (ms_defrag_new view_ops) 2"
    by (simp add: ms_idle_def ms_defrag_new_def defrag_new_def view_machine.new_autoexpand grown_def slot_ok_def)
  have blocks: "\<forall>b\<in>set ?bs. block_ok b \<and> 268 \<le> block_cap b" by (simp add: sample_block)
  have "\<exists>out fr' sent. transmit view_ops [] ?fr ?bs = Some (out, fr', receipt_after None True []) \<and> fg_is_fully_transmitted fr'
    \<and> finalize_blocks view_ops out = Some sent
    \<and> (\<forall>rxs d ts. ms_idle (\<lambda>v. v) d ts \<and> length rxs = length out
         \<and> (\<forall>i<length out. time_t (fst (rxs ! i)) = ts \<and> heard (?bs ! i) (sent ! i) (snd (rxs ! i))) \<longrightarrow>
       (\<exists>d' ind. rx_blocks view_ops False 0 d rxs = Some (d', [ind]) \<and> at_start (tma_pdu ind) (replicate 300 True)
          \<and> tma_address ind = canon_address \<lparr>ssi = 2001, ssi_type = Issi\<rparr> \<and> ms_idle (\<lambda>v. v) d' ts))"
    by (rule fragmented_sdu_delivered [OF view_machine.bit_buffer_axioms new sdu _ _ ok addr(1,2), of ?bs 268 2])
      (use blocks in \<open>simp_all add: DEFRAG_BUF_MAX_LEN_def addr(3)\<close>)
  then obtain out fr sent where o: "transmit view_ops [] ?fr ?bs = Some (out, fr, receipt_after None True [])"
      and sent: "finalize_blocks view_ops out = Some sent"
      and H: "\<forall>rxs d ts. ms_idle (\<lambda>v. v) d ts \<and> length rxs = length out
         \<and> (\<forall>i<length out. time_t (fst (rxs ! i)) = ts \<and> heard (?bs ! i) (sent ! i) (snd (rxs ! i))) \<longrightarrow>
       (\<exists>d' ind. rx_blocks view_ops False 0 d rxs = Some (d', [ind]) \<and> at_start (tma_pdu ind) (replicate 300 True)
          \<and> tma_address ind = canon_address \<lparr>ssi = 2001, ssi_type = Issi\<rparr> \<and> ms_idle (\<lambda>v. v) d' ts)" by blast
  have fok: "fragger_ok (\<lambda>v. v) ?fr" by (rule sample_fragger_ok) simp
  have out: "length out = length ?cs"
    using transmit_chunks [OF view_machine.bit_buffer_axioms fok sample_fragger_simps(4), of ?bs ?cs _ "[]"] blocks o
    by (auto simp del: transmit.simps chunks.simps)
  let ?rxs = "map (\<lambda>v. (?t, received_view (take 268 (raw_bits v)))) sent"
  have len: "length sent = length out" by (rule finalize_blocks_length [OF sent])
  have "heard (?bs ! i) (sent ! i) (snd (?rxs ! i))" if "i < length out" for i
  proof -
    have caps: "\<forall>cap\<in>set (map block_cap ?bs). cap \<le> 456" by (simp add: sample_block)
    have aok: "fragging_ok (abs_fragger (\<lambda>v. v) ?fr)" using fok by (simp add: fragger_ok_def)
    have "i < 4" using chunks_fit [OF aok caps, of i] out that by simp
    then have b: "?bs ! i = sample_sdu 268" by simp
    have z: "raw_end (sample_sdu 268) = 268" "raw_pos (sample_sdu 268) = 0" by (simp_all add: sample_sdu_def)
    show ?thesis using heard_received [of "sample_sdu 268" "sent ! i"] z that len unfolding b by simp
  qed
  then have "\<exists>d' ind. rx_blocks view_ops False 0 (ms_defrag_new view_ops) ?rxs = Some (d', [ind]) \<and> at_start (tma_pdu ind) (replicate 300 True)
          \<and> tma_address ind = canon_address \<lparr>ssi = 2001, ssi_type = Issi\<rparr>"
    using H [THEN spec, of ?rxs, THEN spec, of "ms_defrag_new view_ops", THEN spec, of 2] idle len
    by (auto simp del: rx_blocks.simps)
  then show ?thesis using o sent by (auto simp: receipt_after_def canon_address_def simp del: transmit.simps rx_blocks.simps)
qed

end
