(* ===== verification/Subscribers.thy ===== *)
theory Subscribers
  imports Tdma_Time Prelude "HOL-Library.Product_Lexorder"
begin

text \<open>
  The registry of the terminals of the cell, \<open>SubscriberRegistry\<close> of
  \<^verbatim>\<open>crates/tetra-config/src/bluestation/state.rs\<close>, with the common-control assignment of
  \<^verbatim>\<open>common_control.rs\<close>: registrations and group affiliations, the terminals whose registration was
  delivered or is being delivered, the common control channel of each terminal, and the short window in
  which a terminal that has just accessed the cell is listening.

  Hash maps are association lists and hash sets are lists, whose order stands for the iteration
  order of the container, which the source leaves open. Times are passed in: \<open>now\<close> is the wall clock in
  milliseconds where the code reads it.
\<close>

section \<open>State\<close>

record common_control_assignment =
  cc_supported :: "bool option"
  cc_ms_scch :: "nat option"
  cc_registration_slot :: "nat option"
  cc_last_uplink_slot :: "nat option"

definition default_assignment :: common_control_assignment where
  "default_assignment = \<lparr>cc_supported = None, cc_ms_scch = None, cc_registration_slot = None, cc_last_uplink_slot = None\<rparr>"

definition common_control_slot :: "nat option \<Rightarrow> nat \<Rightarrow> nat" where
  "common_control_slot ms_scch count =
     1 + (case ms_scch of Some value \<Rightarrow> if value < 12 then value else 0 | None \<Rightarrow> 0) mod (min count 3 + 1)"

definition ee_period_frames :: "nat \<Rightarrow> nat" where
  "ee_period_frames mode = (if mode = 1 then 2 else if mode = 2 then 3 else if mode = 3 then 6 else if mode = 4 then 9
     else if mode = 5 then 18 else if mode = 6 then 72 else if mode = 7 then 360 else 1)"

record common_control_channels =
  advertised_count :: nat
  physical_count :: nat
  drain_until :: "tdma_time option"
  advertised_frame18_slots :: nat

definition is_common :: "common_control_channels \<Rightarrow> nat \<Rightarrow> bool" where
  "is_common c slot \<longleftrightarrow> 1 \<le> slot \<and> slot \<le> (physical_count c + 1) mod 256"

definition advertised_slots :: "common_control_channels \<Rightarrow> nat list" where
  "advertised_slots c = [1..<(advertised_count c + 1) mod 256 + 1]"

record subscriber =
  sub_issi :: u32
  registered_at_unix_ms :: nat
  registration_gen :: "nat option"
  attached_groups :: "u32 list"
  energy_economy_mode :: nat
  energy_economy_frame_number :: "nat option"
  energy_economy_multiframe_number :: "nat option"
  energy_economy_activation_pending :: bool
  scanning_enabled :: bool
  rua_assigned :: "bool option"

record subscriber_registry =
  subscribers :: "(u32 \<times> subscriber) list"
  active_subscribers :: "u32 list"
  pending_registration_deliveries :: "u32 list"
  registration_delivery_failures :: nat
  common_controls :: "(u32 \<times> common_control_assignment) list"
  all_attached_groups :: "u32 list"
  direct_response_deadlines :: "(u32 \<times> tdma_time) list"

definition DIRECT_RESPONSE_WINDOW_TIMESLOTS :: int where
  "DIRECT_RESPONSE_WINDOW_TIMESLOTS = 2 * 18 * 4"

definition registry_new :: subscriber_registry where
  "registry_new = \<lparr>subscribers = [], active_subscribers = [], pending_registration_deliveries = [],
     registration_delivery_failures = 0, common_controls = [], all_attached_groups = [], direct_response_deadlines = []\<rparr>"

section \<open>Common control\<close>

definition common_control :: "subscriber_registry \<Rightarrow> u32 \<Rightarrow> common_control_assignment" where
  "common_control r issi = (case map_of (common_controls r) issi of Some a \<Rightarrow> a | None \<Rightarrow> default_assignment)"

definition set_common_control :: "u32 \<Rightarrow> common_control_assignment \<Rightarrow> subscriber_registry \<Rightarrow> subscriber_registry" where
  "set_common_control issi a r = r\<lparr>common_controls := AList.update issi a (common_controls r)\<rparr>"

definition observe_common_uplink :: "u32 \<Rightarrow> nat \<Rightarrow> subscriber_registry \<Rightarrow> subscriber_registry" where
  "observe_common_uplink issi slot r = set_common_control issi ((common_control r issi)\<lparr>cc_last_uplink_slot := Some slot\<rparr>) r"

text \<open>The union of two hash sets lists the first and then what only the second has.\<close>

definition active_or_pending :: "subscriber_registry \<Rightarrow> u32 list" where
  "active_or_pending r = active_subscribers r
     @ filter (\<lambda>i. i \<notin> set (active_subscribers r)) (pending_registration_deliveries r)"

definition common_control_loads :: "subscriber_registry \<Rightarrow> nat \<Rightarrow> nat list" where
  "common_control_loads r count = fold (\<lambda>issi loads.
     let k = common_control_slot (cc_ms_scch (common_control r issi)) count - 1 in loads[k := loads ! k + 1])
     (active_or_pending r) (replicate 4 0)"

definition loads_without :: "u32 \<Rightarrow> nat \<Rightarrow> subscriber_registry \<Rightarrow> nat list" where
  "loads_without issi count r =
     (let loads = common_control_loads r count; k = common_control_slot (cc_ms_scch (common_control r issi)) count - 1
      in if issi \<in> set (active_subscribers r) \<or> issi \<in> set (pending_registration_deliveries r)
         then loads[k := loads ! k - 1] else loads)"

definition choose_ms_scch :: "u32 \<Rightarrow> nat \<Rightarrow> subscriber_registry \<Rightarrow> nat option option" where
  "choose_ms_scch issi count r = do {
     let loads = loads_without issi count r;
     let old_slot = common_control_slot (cc_ms_scch (common_control r issi)) count;
     slot \<leftarrow> min_by_key (\<lambda>slot. (loads ! (slot - 1), slot \<noteq> old_slot, slot)) [1..<min count 3 + 2];
     Some (min_by_key (\<lambda>value. (length (filter (\<lambda>(other, a). other \<noteq> issi \<and> cc_ms_scch a = Some value) (common_controls r)), value))
       (filter (\<lambda>value. common_control_slot (Some value) count = slot) [0..<12])) }"

definition select_common_control ::
  "u32 \<Rightarrow> bool option \<Rightarrow> nat \<Rightarrow> nat \<Rightarrow> subscriber_registry \<Rightarrow> (nat option \<times> subscriber_registry) option" where
  "select_common_control issi supported count ingress r = do {
     let previous = common_control r issi;
     let supported = (case supported of Some s \<Rightarrow> Some s | None \<Rightarrow> cc_supported previous);
     ms_scch \<leftarrow> (if supported = Some True then
         (if issi \<in> set (pending_registration_deliveries r) \<and> cc_registration_slot previous \<noteq> None \<and> cc_ms_scch previous \<noteq> None
          then Some (cc_ms_scch previous) else choose_ms_scch issi count r)
       else Some None);
     Some (ms_scch, set_common_control issi \<lparr>cc_supported = supported, cc_ms_scch = ms_scch,
       cc_registration_slot = Some ingress, cc_last_uplink_slot = Some ingress\<rparr> r) }"

definition finish_common_registration :: "u32 \<Rightarrow> subscriber_registry \<Rightarrow> subscriber_registry" where
  "finish_common_registration issi r =
     r\<lparr>common_controls := AList.map_entry issi (\<lambda>a. a\<lparr>cc_registration_slot := None\<rparr>) (common_controls r)\<rparr>"

section \<open>Activity and deliveries\<close>

definition is_registered :: "subscriber_registry \<Rightarrow> u32 \<Rightarrow> bool" where
  "is_registered r issi \<longleftrightarrow> map_of (subscribers r) issi \<noteq> None"

definition sub_is_active :: "subscriber_registry \<Rightarrow> u32 \<Rightarrow> bool" where
  "sub_is_active r issi \<longleftrightarrow> issi \<in> set (active_subscribers r)"

definition active_issis :: "subscriber_registry \<Rightarrow> u32 list" where
  "active_issis r = active_subscribers r"

definition monitor_subscribers :: "subscriber_registry \<Rightarrow> (u32 \<times> nat \<times> bool \<times> bool \<times> u32 list) list" where
  "monitor_subscribers r = sort_key fst (map (\<lambda>(_, s).
     (sub_issi s, registered_at_unix_ms s, sub_issi s \<in> set (active_subscribers r),
      sub_issi s \<in> set (pending_registration_deliveries r), sort (attached_groups s))) (subscribers r))"

definition mark_active :: "u32 \<Rightarrow> subscriber_registry \<Rightarrow> subscriber_registry" where
  "mark_active issi r = r\<lparr>active_subscribers := List.insert issi (active_subscribers r),
     pending_registration_deliveries := removeAll issi (pending_registration_deliveries r)\<rparr>"

definition mark_inactive :: "u32 \<Rightarrow> subscriber_registry \<Rightarrow> subscriber_registry" where
  "mark_inactive issi r = r\<lparr>active_subscribers := removeAll issi (active_subscribers r),
     pending_registration_deliveries := removeAll issi (pending_registration_deliveries r)\<rparr>"

definition mark_direct_response_window :: "u32 \<Rightarrow> tdma_time \<Rightarrow> subscriber_registry \<Rightarrow> subscriber_registry" where
  "mark_direct_response_window issi now r = r\<lparr>direct_response_deadlines :=
     AList.update issi (add_timeslots now DIRECT_RESPONSE_WINDOW_TIMESLOTS) (direct_response_deadlines r)\<rparr>"

definition direct_response_window_active :: "u32 \<Rightarrow> tdma_time \<Rightarrow> subscriber_registry \<Rightarrow> bool \<times> subscriber_registry" where
  "direct_response_window_active issi now r =
     (let deadlines = filter (\<lambda>(_, deadline). age deadline now \<le> 0) (direct_response_deadlines r)
      in ((case map_of deadlines issi of None \<Rightarrow> False | Some deadline \<Rightarrow> age deadline now \<le> 0),
          r\<lparr>direct_response_deadlines := deadlines\<rparr>))"

definition set_registration_delivery_pending :: "u32 \<Rightarrow> bool \<Rightarrow> subscriber_registry \<Rightarrow> subscriber_registry" where
  "set_registration_delivery_pending issi pending r =
     (if pending then r\<lparr>pending_registration_deliveries := List.insert issi (pending_registration_deliveries r),
        active_subscribers := removeAll issi (active_subscribers r)\<rparr>
      else r\<lparr>pending_registration_deliveries := removeAll issi (pending_registration_deliveries r)\<rparr>)"

definition is_registration_pending :: "subscriber_registry \<Rightarrow> u32 \<Rightarrow> bool" where
  "is_registration_pending r issi \<longleftrightarrow> issi \<in> set (pending_registration_deliveries r)"

definition pending_registrations_on_slot :: "subscriber_registry \<Rightarrow> nat \<Rightarrow> nat \<Rightarrow> nat" where
  "pending_registrations_on_slot r slot count = min 65535 (length (filter (\<lambda>issi.
     let assignment = common_control r issi in
     (case cc_registration_slot assignment of Some s \<Rightarrow> s | None \<Rightarrow> common_control_slot (cc_ms_scch assignment) count) = slot)
     (pending_registration_deliveries r)))"

definition pending_registration_count :: "subscriber_registry \<Rightarrow> nat" where
  "pending_registration_count r = min 65535 (length (pending_registration_deliveries r))"

definition note_registration_delivery_failure :: "subscriber_registry \<Rightarrow> subscriber_registry" where
  "note_registration_delivery_failure r =
     r\<lparr>registration_delivery_failures := min 65535 (registration_delivery_failures r + 1)\<rparr>"

definition take_registration_delivery_failures :: "subscriber_registry \<Rightarrow> nat \<times> subscriber_registry" where
  "take_registration_delivery_failures r = (registration_delivery_failures r, r\<lparr>registration_delivery_failures := 0\<rparr>)"

section \<open>Registration and affiliation\<close>

definition fresh_subscriber :: "nat \<Rightarrow> u32 \<Rightarrow> subscriber" where
  "fresh_subscriber now issi = \<lparr>sub_issi = issi, registered_at_unix_ms = now, registration_gen = None, attached_groups = [],
     energy_economy_mode = 0, energy_economy_frame_number = None, energy_economy_multiframe_number = None,
     energy_economy_activation_pending = False, scanning_enabled = True, rua_assigned = None\<rparr>"

definition still_has_members :: "u32 \<Rightarrow> (u32 \<times> subscriber) list \<Rightarrow> bool" where
  "still_has_members gssi subs \<longleftrightarrow> list_ex (\<lambda>(_, s). gssi \<in> set (attached_groups s)) subs"

definition deregister :: "u32 \<Rightarrow> subscriber_registry \<Rightarrow> subscriber_registry" where
  "deregister issi r =
     (let r = r\<lparr>common_controls := AList.delete issi (common_controls r)\<rparr>; r = mark_inactive issi r;
          r = r\<lparr>direct_response_deadlines := AList.delete issi (direct_response_deadlines r)\<rparr>
      in case map_of (subscribers r) issi of
           None \<Rightarrow> r
         | Some s \<Rightarrow> (let subs = AList.delete issi (subscribers r)
             in r\<lparr>subscribers := subs, all_attached_groups := fold (\<lambda>gssi gs.
                  if still_has_members gssi subs then gs else removeAll gssi gs) (attached_groups s) (all_attached_groups r)\<rparr>))"

definition register :: "nat \<Rightarrow> u32 \<Rightarrow> subscriber_registry \<Rightarrow> subscriber_registry" where
  "register now issi r =
     (let cc = map_of (common_controls r) issi; r = deregister issi r;
          r = (case cc of Some a \<Rightarrow> set_common_control issi a r | None \<Rightarrow> r)
      in r\<lparr>subscribers := AList.update issi (fresh_subscriber now issi) (subscribers r)\<rparr>)"

text \<open>\<open>get_subscriber_mut\<close>, with what is done to the entry.\<close>

definition get_subscriber_mut :: "nat \<Rightarrow> u32 \<Rightarrow> (subscriber \<Rightarrow> subscriber) \<Rightarrow> subscriber_registry \<Rightarrow> subscriber_registry" where
  "get_subscriber_mut now issi f r = (let s = (case map_of (subscribers r) issi of Some s \<Rightarrow> s | None \<Rightarrow> fresh_subscriber now issi)
     in r\<lparr>subscribers := AList.update issi (f s) (subscribers r)\<rparr>)"

definition set_registration_generation :: "nat \<Rightarrow> u32 \<Rightarrow> nat \<Rightarrow> subscriber_registry \<Rightarrow> subscriber_registry" where
  "set_registration_generation now issi generation r =
     get_subscriber_mut now issi (\<lambda>s. s\<lparr>registration_gen := Some generation\<rparr>) r"

definition registration_generation :: "subscriber_registry \<Rightarrow> u32 \<Rightarrow> nat option" where
  "registration_generation r issi = Option.bind (map_of (subscribers r) issi) registration_gen"

definition affiliate :: "nat \<Rightarrow> u32 \<Rightarrow> u32 \<Rightarrow> subscriber_registry \<Rightarrow> subscriber_registry" where
  "affiliate now issi gssi r =
     (let r = get_subscriber_mut now issi (\<lambda>s. s\<lparr>attached_groups := List.insert gssi (attached_groups s)\<rparr>) r
      in r\<lparr>all_attached_groups := List.insert gssi (all_attached_groups r)\<rparr>)"

definition deaffiliate :: "nat \<Rightarrow> u32 \<Rightarrow> u32 \<Rightarrow> subscriber_registry \<Rightarrow> subscriber_registry" where
  "deaffiliate now issi gssi r =
     (let was = (case map_of (subscribers r) issi of Some s \<Rightarrow> gssi \<in> set (attached_groups s) | None \<Rightarrow> False);
          r = get_subscriber_mut now issi (\<lambda>s. s\<lparr>attached_groups := removeAll gssi (attached_groups s)\<rparr>) r
      in if was \<and> \<not> still_has_members gssi (subscribers r)
         then r\<lparr>all_attached_groups := removeAll gssi (all_attached_groups r)\<rparr> else r)"

definition has_group_members :: "subscriber_registry \<Rightarrow> u32 \<Rightarrow> bool" where
  "has_group_members r gssi \<longleftrightarrow> gssi \<in> set (all_attached_groups r)"

section \<open>Attributes of a subscriber\<close>

definition edit_subscriber :: "u32 \<Rightarrow> (subscriber \<Rightarrow> subscriber) \<Rightarrow> subscriber_registry \<Rightarrow> subscriber_registry" where
  "edit_subscriber issi f r = r\<lparr>subscribers := AList.map_entry issi f (subscribers r)\<rparr>"

definition set_energy_economy ::
  "u32 \<Rightarrow> nat \<Rightarrow> nat option \<Rightarrow> nat option \<Rightarrow> subscriber_registry \<Rightarrow> bool \<times> subscriber_registry" where
  "set_energy_economy issi mode frame_number multiframe_number r =
     (is_registered r issi, edit_subscriber issi (\<lambda>s. s\<lparr>energy_economy_mode := mode,
        energy_economy_frame_number := frame_number, energy_economy_multiframe_number := multiframe_number\<rparr>) r)"

definition set_energy_economy_activation_pending :: "u32 \<Rightarrow> bool \<Rightarrow> subscriber_registry \<Rightarrow> subscriber_registry" where
  "set_energy_economy_activation_pending issi pending r =
     edit_subscriber issi (\<lambda>s. s\<lparr>energy_economy_activation_pending := pending\<rparr>) r"

definition take_energy_economy_activation_pending :: "u32 \<Rightarrow> subscriber_registry \<Rightarrow> bool \<times> subscriber_registry" where
  "take_energy_economy_activation_pending issi r =
     ((case map_of (subscribers r) issi of None \<Rightarrow> False | Some s \<Rightarrow> energy_economy_activation_pending s),
      edit_subscriber issi (\<lambda>s. s\<lparr>energy_economy_activation_pending := False\<rparr>) r)"

definition set_scanning_enabled :: "u32 \<Rightarrow> bool \<Rightarrow> subscriber_registry \<Rightarrow> subscriber_registry" where
  "set_scanning_enabled issi enabled r = edit_subscriber issi (\<lambda>s. s\<lparr>scanning_enabled := enabled\<rparr>) r"

definition set_rua_assignment_state :: "u32 \<Rightarrow> bool option \<Rightarrow> subscriber_registry \<Rightarrow> subscriber_registry" where
  "set_rua_assignment_state issi assigned r = edit_subscriber issi (\<lambda>s. s\<lparr>rua_assigned := assigned\<rparr>) r"

definition rua_assignment_state :: "subscriber_registry \<Rightarrow> u32 \<Rightarrow> bool option" where
  "rua_assignment_state r issi = Option.bind (map_of (subscribers r) issi) rua_assigned"

type_synonym economy = "nat \<times> nat option \<times> nat option"

definition economy_of :: "subscriber \<Rightarrow> economy" where
  "economy_of s = (energy_economy_mode s, energy_economy_frame_number s, energy_economy_multiframe_number s)"

definition energy_economy :: "subscriber_registry \<Rightarrow> u32 \<Rightarrow> economy option" where
  "energy_economy r issi = map_option economy_of (map_of (subscribers r) issi)"

definition group_energy_economies :: "subscriber_registry \<Rightarrow> u32 \<Rightarrow> (u32 \<times> economy) list" where
  "group_energy_economies r gssi = map (\<lambda>s. (sub_issi s, economy_of s))
     (filter (\<lambda>s. gssi \<in> set (attached_groups s) \<and> scanning_enabled s \<and> sub_issi s \<in> set (active_subscribers r))
       (map snd (subscribers r)))"

definition active_energy_economies :: "subscriber_registry \<Rightarrow> (u32 \<times> economy) list" where
  "active_energy_economies r = map (\<lambda>s. (sub_issi s, economy_of s))
     (filter (\<lambda>s. sub_issi s \<in> set (active_subscribers r)) (map snd (subscribers r)))"

section \<open>What the registry promises\<close>

text \<open>Every registered terminal has a set of groups, and every terminal an activity.\<close>

datatype activity = Silent | Delivering | Listening

record cell =
  members :: "u32 \<Rightarrow> u32 set option"
  activities :: "u32 \<Rightarrow> activity"

datatype registry_event =
    Register nat u32
  | Deregister u32
  | Affiliate nat u32 u32
  | Deaffiliate nat u32 u32
  | Generation nat u32 nat
  | Activate u32
  | Deactivate u32
  | Delivery u32 bool
  | Economy u32 nat "nat option" "nat option"
  | EconomyPending u32 bool
  | TakeEconomyPending u32
  | Scanning u32 bool
  | Rua u32 "bool option"
  | Uplink u32 nat
  | SetControl u32 common_control_assignment
  | SelectControl u32 "bool option" nat nat
  | FinishControl u32
  | Accessed u32 tdma_time
  | CheckAccess u32 tdma_time
  | NoteFailure
  | TakeFailures

fun registry_apply :: "registry_event \<Rightarrow> subscriber_registry \<Rightarrow> subscriber_registry option" where
  "registry_apply (Register now i) r = Some (register now i r)"
| "registry_apply (Deregister i) r = Some (deregister i r)"
| "registry_apply (Affiliate now i g) r = Some (affiliate now i g r)"
| "registry_apply (Deaffiliate now i g) r = Some (deaffiliate now i g r)"
| "registry_apply (Generation now i n) r = Some (set_registration_generation now i n r)"
| "registry_apply (Activate i) r = Some (mark_active i r)"
| "registry_apply (Deactivate i) r = Some (mark_inactive i r)"
| "registry_apply (Delivery i p) r = Some (set_registration_delivery_pending i p r)"
| "registry_apply (Economy i m f mf) r = Some (snd (set_energy_economy i m f mf r))"
| "registry_apply (EconomyPending i p) r = Some (set_energy_economy_activation_pending i p r)"
| "registry_apply (TakeEconomyPending i) r = Some (snd (take_energy_economy_activation_pending i r))"
| "registry_apply (Scanning i b) r = Some (set_scanning_enabled i b r)"
| "registry_apply (Rua i b) r = Some (set_rua_assignment_state i b r)"
| "registry_apply (Uplink i slot) r = Some (observe_common_uplink i slot r)"
| "registry_apply (SetControl i a) r = Some (set_common_control i a r)"
| "registry_apply (SelectControl i sp count ingress) r = map_option snd (select_common_control i sp count ingress r)"
| "registry_apply (FinishControl i) r = Some (finish_common_registration i r)"
| "registry_apply (Accessed i now) r = Some (mark_direct_response_window i now r)"
| "registry_apply (CheckAccess i now) r = Some (snd (direct_response_window_active i now r))"
| "registry_apply NoteFailure r = Some (note_registration_delivery_failure r)"
| "registry_apply TakeFailures r = Some (snd (take_registration_delivery_failures r))"

fun registry_run :: "registry_event list \<Rightarrow> subscriber_registry \<Rightarrow> subscriber_registry option" where
  "registry_run [] r = Some r"
| "registry_run (e # es) r = do { r \<leftarrow> registry_apply e r; registry_run es r }"

definition groups_in :: "cell \<Rightarrow> u32 \<Rightarrow> u32 set" where
  "groups_in c i = (case members c i of Some gs \<Rightarrow> gs | None \<Rightarrow> {})"

fun cell_apply :: "registry_event \<Rightarrow> cell \<Rightarrow> cell" where
  "cell_apply (Register _ i) c = c\<lparr>members := (members c)(i \<mapsto> {}), activities := (activities c)(i := Silent)\<rparr>"
| "cell_apply (Deregister i) c = c\<lparr>members := (members c)(i := None), activities := (activities c)(i := Silent)\<rparr>"
| "cell_apply (Affiliate _ i g) c = c\<lparr>members := (members c)(i \<mapsto> insert g (groups_in c i))\<rparr>"
| "cell_apply (Deaffiliate _ i g) c = c\<lparr>members := (members c)(i \<mapsto> groups_in c i - {g})\<rparr>"
| "cell_apply (Generation _ i _) c = c\<lparr>members := (members c)(i \<mapsto> groups_in c i)\<rparr>"
| "cell_apply (Activate i) c = c\<lparr>activities := (activities c)(i := Listening)\<rparr>"
| "cell_apply (Deactivate i) c = c\<lparr>activities := (activities c)(i := Silent)\<rparr>"
| "cell_apply (Delivery i p) c = (if p then c\<lparr>activities := (activities c)(i := Delivering)\<rparr>
     else if activities c i = Delivering then c\<lparr>activities := (activities c)(i := Silent)\<rparr> else c)"
| "cell_apply _ c = c"

definition cell_new :: cell where
  "cell_new = \<lparr>members = Map.empty, activities = (\<lambda>i. Silent)\<rparr>"

definition activity_in :: "u32 set \<Rightarrow> u32 set \<Rightarrow> u32 \<Rightarrow> activity" where
  "activity_in A P i = (if i \<in> A then Listening else if i \<in> P then Delivering else Silent)"

definition cell_of :: "subscriber_registry \<Rightarrow> cell" where
  "cell_of r = \<lparr>members = (\<lambda>i. map_option (\<lambda>s. set (attached_groups s)) (map_of (subscribers r) i)),
     activities = activity_in (set (active_subscribers r)) (set (pending_registration_deliveries r))\<rparr>"

definition registry_ok :: "subscriber_registry \<Rightarrow> bool" where
  "registry_ok r \<longleftrightarrow> distinct (map fst (subscribers r)) \<and> distinct (map fst (common_controls r))
     \<and> distinct (active_subscribers r) \<and> distinct (pending_registration_deliveries r)
     \<and> set (active_subscribers r) \<inter> set (pending_registration_deliveries r) = {}
     \<and> (\<forall>i s. map_of (subscribers r) i = Some s \<longrightarrow> sub_issi s = i)
     \<and> (\<forall>g. g \<in> set (all_attached_groups r) \<longleftrightarrow> (\<exists>i s. map_of (subscribers r) i = Some s \<and> g \<in> set (attached_groups s)))"

section \<open>Lemmas\<close>

lemmas alist_simps = update_conv' delete_conv' map_of_map_entry distinct_update distinct_delete distinct_removeAll

lemma still_has_members_iff:
  "distinct (map fst subs) \<Longrightarrow> still_has_members g subs \<longleftrightarrow> (\<exists>i s. map_of subs i = Some s \<and> g \<in> set (attached_groups s))"
  by (fastforce simp: still_has_members_def list_ex_iff)

lemma groups_in_cell: "groups_in (cell_of r) i = (case map_of (subscribers r) i of Some s \<Rightarrow> set (attached_groups s) | None \<Rightarrow> {})"
  by (simp add: groups_in_def cell_of_def split: option.split)

lemma fold_remove: "set (fold (\<lambda>g gs. if P g then gs else removeAll g gs) xs gs) = set gs - {g \<in> set xs. \<not> P g}"
  by (induction xs arbitrary: gs) auto

lemma count_slot_range: "1 \<le> common_control_slot m count" "common_control_slot m count < min count 3 + 2"
proof -
  have "(case m of Some value \<Rightarrow> if value < 12 then value else 0 | None \<Rightarrow> 0) mod (min count 3 + 1) < min count 3 + 1"
    by (rule mod_less_divisor) simp
  then show "1 \<le> common_control_slot m count" "common_control_slot m count < min count 3 + 2"
    unfolding common_control_slot_def by linarith+
qed

text \<open>Selecting never panics.\<close>

lemma choose_Some: "\<exists>m. choose_ms_scch issi count r = Some m"
proof -
  have "[1..<min count 3 + 2] \<noteq> []" by simp
  from min_by_key_least [OF this] obtain slot where "min_by_key (\<lambda>slot. (loads_without issi count r ! (slot - 1),
      slot \<noteq> common_control_slot (cc_ms_scch (common_control r issi)) count, slot)) [1..<min count 3 + 2] = Some slot" by blast
  then show ?thesis unfolding choose_ms_scch_def Let_def by (simp only: bind.bind_lunit) blast
qed

lemma select_Some:
  "\<exists>m sp'. select_common_control issi sp count ingress r = Some (m, set_common_control issi
     \<lparr>cc_supported = sp', cc_ms_scch = m, cc_registration_slot = Some ingress, cc_last_uplink_slot = Some ingress\<rparr> r)"
  using choose_Some [of issi count r] by (auto simp: select_common_control_def Let_def)

text \<open>Registrations and affiliations.\<close>

lemma all_groups_of:
  "(\<exists>i. g \<in> groups_in (cell_of r) i) \<longleftrightarrow> (\<exists>i s. map_of (subscribers r) i = Some s \<and> g \<in> set (attached_groups s))"
  by (auto simp: groups_in_cell split: option.splits)

text \<open>The cell depends on the two sets and the subscribers' map only.\<close>

lemma activity_in_simps:
  "activity_in (A - {i}) (P - {i}) = (activity_in A P)(i := Silent)"
  "activity_in (insert i A) (P - {i}) = (activity_in A P)(i := Listening)"
  "activity_in (A - {i}) (insert i P) = (activity_in A P)(i := Delivering)"
  "activity_in A P i = Listening \<longleftrightarrow> i \<in> A" "activity_in A P i = Delivering \<longleftrightarrow> i \<notin> A \<and> i \<in> P"
  by (auto simp: activity_in_def fun_eq_iff)

lemma activity_in_removed:
  "A \<inter> P = {} \<Longrightarrow> activity_in A (P - {i}) = (if activity_in A P i = Delivering then (activity_in A P)(i := Silent) else activity_in A P)"
  by (auto simp: activity_in_def fun_eq_iff)

lemma cell_of_cong:
  assumes "map_of (subscribers r') = map_of (subscribers r)" and "set (active_subscribers r') = set (active_subscribers r)"
    and "set (pending_registration_deliveries r') = set (pending_registration_deliveries r)"
  shows "cell_of r' = cell_of r"
  unfolding cell_of_def using assms by simp

lemma all_groups_split:
  assumes "registry_ok r"
  shows "g \<in> set (all_attached_groups r) \<longleftrightarrow> g \<in> groups_in (cell_of r) i
    \<or> (\<exists>j s. j \<noteq> i \<and> map_of (subscribers r) j = Some s \<and> g \<in> set (attached_groups s))"
proof -
  have "g \<in> set (all_attached_groups r) \<longleftrightarrow> (\<exists>j. g \<in> groups_in (cell_of r) j)"
    unfolding all_groups_of using assms by (simp add: registry_ok_def)
  also have "\<dots> \<longleftrightarrow> g \<in> groups_in (cell_of r) i \<or> (\<exists>j. j \<noteq> i \<and> g \<in> groups_in (cell_of r) j)" by auto
  also have "(\<exists>j. j \<noteq> i \<and> g \<in> groups_in (cell_of r) j)
      \<longleftrightarrow> (\<exists>j s. j \<noteq> i \<and> map_of (subscribers r) j = Some s \<and> g \<in> set (attached_groups s))"
    unfolding groups_in_cell by (auto split: option.splits)
  finally show ?thesis .
qed

lemma deregister_ok:
  assumes ok: "registry_ok r"
  shows "registry_ok (deregister i r) \<and> cell_of (deregister i r) = cell_apply (Deregister i) (cell_of r)
    \<and> map_of (subscribers (deregister i r)) = (map_of (subscribers r))(i := None)
    \<and> map_of (common_controls (deregister i r)) = (map_of (common_controls r))(i := None)"
proof (cases "map_of (subscribers r) i")
  case None
  have m: "(map_of (subscribers r))(i := None) = map_of (subscribers r)" using None by (simp add: fun_eq_iff)
  have "deregister i r = (mark_inactive i r)\<lparr>common_controls := AList.delete i (common_controls r),
      direct_response_deadlines := AList.delete i (direct_response_deadlines r)\<rparr>"
    using None by (simp add: deregister_def mark_inactive_def)
  moreover from this have "cell_of (deregister i r) = cell_apply (Deregister i) (cell_of r)"
    using None by (simp add: cell_of_def mark_inactive_def fun_eq_iff activity_in_simps)
  ultimately show ?thesis using ok m by (auto simp: registry_ok_def mark_inactive_def alist_simps)
next
  case (Some s)
  let ?subs = "AList.delete i (subscribers r)"
  let ?all = "fold (\<lambda>g gs. if still_has_members g ?subs then gs else removeAll g gs) (attached_groups s) (all_attached_groups r)"
  have eq: "deregister i r = (mark_inactive i r)\<lparr>common_controls := AList.delete i (common_controls r),
      direct_response_deadlines := AList.delete i (direct_response_deadlines r), subscribers := ?subs, all_attached_groups := ?all\<rparr>"
    using Some by (simp add: deregister_def mark_inactive_def Let_def)
  have d: "distinct (map fst (subscribers r))" using ok by (simp add: registry_ok_def)
  have else_ok: "(\<exists>j s'. map_of ?subs j = Some s' \<and> g \<in> set (attached_groups s'))
      \<longleftrightarrow> (\<exists>j s. j \<noteq> i \<and> map_of (subscribers r) j = Some s \<and> g \<in> set (attached_groups s))" for g
    unfolding delete_conv' by (metis fun_upd_other fun_upd_same option.distinct(1))
  have member: "still_has_members g ?subs \<longleftrightarrow> (\<exists>j s'. map_of ?subs j = Some s' \<and> g \<in> set (attached_groups s'))" for g
    by (rule still_has_members_iff) (simp add: d distinct_delete)
  have all: "g \<in> set ?all \<longleftrightarrow> (\<exists>j s'. map_of ?subs j = Some s' \<and> g \<in> set (attached_groups s'))" for g
    unfolding fold_remove member else_ok using all_groups_split [OF ok, of g i] Some by (auto simp: groups_in_cell)
  have "cell_of (deregister i r) = cell_apply (Deregister i) (cell_of r)"
    by (simp add: cell_of_def eq mark_inactive_def fun_eq_iff alist_simps activity_in_simps)
  moreover have "registry_ok (deregister i r)"
    using ok all by (auto simp: eq registry_ok_def mark_inactive_def alist_simps split: if_splits)
  ultimately show ?thesis by (simp add: eq mark_inactive_def alist_simps)
qed

lemma put_ok:
  assumes ok: "registry_ok r" and s: "sub_issi s' = i"
    and r': "r' = r\<lparr>subscribers := AList.update i s' (subscribers r), all_attached_groups := gs\<rparr>"
    and gs: "\<And>g. g \<in> set gs \<longleftrightarrow> g \<in> set (attached_groups s')
      \<or> (\<exists>j s. j \<noteq> i \<and> map_of (subscribers r) j = Some s \<and> g \<in> set (attached_groups s))"
  shows "registry_ok r' \<and> cell_of r' = (cell_of r)\<lparr>members := (members (cell_of r))(i \<mapsto> set (attached_groups s'))\<rparr>"
proof -
  have "g \<in> set gs \<longleftrightarrow> (\<exists>j s. map_of (subscribers r') j = Some s \<and> g \<in> set (attached_groups s))" for g
    using gs [of g] by (auto simp: r' alist_simps)
  moreover have "cell_of r' = (cell_of r)\<lparr>members := (members (cell_of r))(i \<mapsto> set (attached_groups s'))\<rparr>"
    by (simp add: cell_of_def r' alist_simps fun_eq_iff)
  ultimately show ?thesis using ok s by (auto simp: r' registry_ok_def alist_simps split: if_splits)
qed

lemma set_control_ok:
  "registry_ok r \<Longrightarrow> registry_ok (set_common_control i a r) \<and> cell_of (set_common_control i a r) = cell_of r"
  using cell_of_cong [of "set_common_control i a r" r] by (simp add: set_common_control_def registry_ok_def alist_simps)

lemma register_ok:
  assumes "registry_ok r"
  shows "registry_ok (register now i r) \<and> cell_of (register now i r) = cell_apply (Register now i) (cell_of r)"
proof -
  note d = deregister_ok [OF assms, of i]
  let ?r = "case map_of (common_controls r) i of Some a \<Rightarrow> set_common_control i a (deregister i r) | None \<Rightarrow> deregister i r"
  have r: "registry_ok ?r" "cell_of ?r = cell_apply (Deregister i) (cell_of r)" "map_of (subscribers ?r) i = None"
    using d set_control_ok by (auto simp: set_common_control_def split: option.split)
  have "g \<in> set (all_attached_groups ?r) \<longleftrightarrow> g \<in> set (attached_groups (fresh_subscriber now i))
      \<or> (\<exists>j s. j \<noteq> i \<and> map_of (subscribers ?r) j = Some s \<and> g \<in> set (attached_groups s))" for g
    using all_groups_split [OF r(1), of g i] r(3) by (simp add: groups_in_cell fresh_subscriber_def)
  moreover have "register now i r = ?r\<lparr>subscribers := AList.update i (fresh_subscriber now i) (subscribers ?r),
      all_attached_groups := all_attached_groups ?r\<rparr>" by (simp add: register_def Let_def)
  ultimately show ?thesis
    using put_ok [OF r(1) _ _ , of "fresh_subscriber now i" i "register now i r" "all_attached_groups ?r"] r(2)
    by (simp add: fresh_subscriber_def)
qed

text \<open>The entry that \<open>get_subscriber_mut\<close> hands out.\<close>

definition entry_of :: "nat \<Rightarrow> u32 \<Rightarrow> subscriber_registry \<Rightarrow> subscriber" where
  "entry_of now i r = (case map_of (subscribers r) i of Some s \<Rightarrow> s | None \<Rightarrow> fresh_subscriber now i)"

lemma entry_of_facts:
  "get_subscriber_mut now i f r = r\<lparr>subscribers := AList.update i (f (entry_of now i r)) (subscribers r)\<rparr>"
  "set (attached_groups (entry_of now i r)) = groups_in (cell_of r) i"
  "registry_ok r \<Longrightarrow> sub_issi (entry_of now i r) = i"
  by (auto simp: get_subscriber_mut_def entry_of_def groups_in_cell fresh_subscriber_def registry_ok_def split: option.split)

lemma generation_ok:
  assumes "registry_ok r"
  shows "registry_ok (set_registration_generation now i n r)
    \<and> cell_of (set_registration_generation now i n r) = cell_apply (Generation now i n) (cell_of r)"
  using put_ok [OF assms, of "(entry_of now i r)\<lparr>registration_gen := Some n\<rparr>" i "set_registration_generation now i n r" "all_attached_groups r"]
    entry_of_facts(2) [of now i r] entry_of_facts(3) [OF assms] all_groups_split [OF assms, of _ i]
  by (simp add: set_registration_generation_def entry_of_facts(1))

lemma affiliate_ok:
  assumes "registry_ok r"
  shows "registry_ok (affiliate now i g r) \<and> cell_of (affiliate now i g r) = cell_apply (Affiliate now i g) (cell_of r)"
  using put_ok [OF assms, of "(entry_of now i r)\<lparr>attached_groups := List.insert g (attached_groups (entry_of now i r))\<rparr>" i
      "affiliate now i g r" "List.insert g (all_attached_groups r)"]
    entry_of_facts(2) [of now i r] entry_of_facts(3) [OF assms] all_groups_split [OF assms, of _ i]
  by (simp add: affiliate_def Let_def entry_of_facts(1))

lemma deaffiliate_ok:
  assumes "registry_ok r"
  shows "registry_ok (deaffiliate now i g r) \<and> cell_of (deaffiliate now i g r) = cell_apply (Deaffiliate now i g) (cell_of r)"
proof -
  let ?s = "(entry_of now i r)\<lparr>attached_groups := removeAll g (attached_groups (entry_of now i r))\<rparr>"
  let ?subs = "AList.update i ?s (subscribers r)"
  let ?was = "g \<in> groups_in (cell_of r) i"
  let ?gs = "if ?was \<and> \<not> still_has_members g ?subs then removeAll g (all_attached_groups r) else all_attached_groups r"
  have d: "distinct (map fst ?subs)" using assms by (simp add: registry_ok_def distinct_update)
  have was: "(case map_of (subscribers r) i of Some s \<Rightarrow> g \<in> set (attached_groups s) | None \<Rightarrow> False) = ?was"
    by (simp add: groups_in_cell split: option.split)
  have eq: "deaffiliate now i g r = r\<lparr>subscribers := ?subs, all_attached_groups := ?gs\<rparr>"
    by (simp add: deaffiliate_def Let_def entry_of_facts(1) was)
  have member: "still_has_members g ?subs \<longleftrightarrow> (\<exists>j s. j \<noteq> i \<and> map_of (subscribers r) j = Some s \<and> g \<in> set (attached_groups s))"
    unfolding still_has_members_iff [OF d] by (auto simp: alist_simps)
  have gs: "h \<in> set ?gs \<longleftrightarrow> h \<in> set (attached_groups ?s)
      \<or> (\<exists>j s. j \<noteq> i \<and> map_of (subscribers r) j = Some s \<and> h \<in> set (attached_groups s))" for h
    using all_groups_split [OF assms, of h i] entry_of_facts(2) [of now i r] member by auto
  from put_ok [OF assms _ eq gs] entry_of_facts(2) [of now i r] entry_of_facts(3) [OF assms, of now i] show ?thesis by simp
qed

lemma edit_subscriber_ok:
  assumes "registry_ok r" and "\<And>s. sub_issi (f s) = sub_issi s \<and> attached_groups (f s) = attached_groups s"
  shows "registry_ok (edit_subscriber i f r) \<and> cell_of (edit_subscriber i f r) = cell_of r"
proof -
  have "cell_of (edit_subscriber i f r) = cell_of r"
    using assms(2) by (auto simp: edit_subscriber_def cell_of_def map_entry_conv fun_eq_iff map_option_case split: option.split)
  moreover have "(\<exists>j s. map_of (subscribers (edit_subscriber i f r)) j = Some s \<and> g \<in> set (attached_groups s))
      \<longleftrightarrow> (\<exists>j s. map_of (subscribers r) j = Some s \<and> g \<in> set (attached_groups s))" for g
    using all_groups_of [of g "edit_subscriber i f r"] all_groups_of [of g r] calculation by simp
  moreover have "map_of (subscribers (edit_subscriber i f r)) j = Some s \<Longrightarrow> sub_issi s = j" for j s
    using assms by (auto simp: registry_ok_def edit_subscriber_def map_entry_conv split: if_splits)
  ultimately show ?thesis using assms(1) unfolding registry_ok_def
    by (simp only:) (simp add: edit_subscriber_def distinct_map_entry)
qed

lemma registry_apply_ok:
  assumes "registry_ok r"
  shows "\<exists>r'. registry_apply e r = Some r' \<and> registry_ok r' \<and> cell_of r' = cell_apply e (cell_of r)"
proof (cases e)
  case (SelectControl i sp count ingress)
  then show ?thesis using select_Some [of i sp count ingress r] set_control_ok [OF assms] by fastforce
next
  case (FinishControl i)
  then show ?thesis using assms by (simp add: finish_common_registration_def registry_ok_def cell_of_def distinct_map_entry)
next
  case (Activate i)
  then show ?thesis using assms by (auto simp: mark_active_def registry_ok_def cell_of_def activity_in_simps distinct_removeAll)
next
  case (Deactivate i)
  then show ?thesis using assms by (auto simp: mark_inactive_def registry_ok_def cell_of_def activity_in_simps distinct_removeAll)
next
  case (Delivery i p)
  then show ?thesis using assms
      activity_in_removed [of "set (active_subscribers r)" "set (pending_registration_deliveries r)" i]
    by (auto simp: set_registration_delivery_pending_def registry_ok_def cell_of_def activity_in_simps distinct_removeAll)
next
  case (Economy i m f mf)
  then show ?thesis using edit_subscriber_ok [OF assms] by (simp add: set_energy_economy_def)
next
  case (EconomyPending i p)
  then show ?thesis using edit_subscriber_ok [OF assms] by (simp add: set_energy_economy_activation_pending_def)
next
  case (TakeEconomyPending i)
  then show ?thesis using edit_subscriber_ok [OF assms] by (simp add: take_energy_economy_activation_pending_def)
next
  case (Scanning i b)
  then show ?thesis using edit_subscriber_ok [OF assms] by (simp add: set_scanning_enabled_def)
next
  case (Rua i b)
  then show ?thesis using edit_subscriber_ok [OF assms] by (simp add: set_rua_assignment_state_def)
next
  case (Register now i)
  then show ?thesis using register_ok [OF assms] by simp
next
  case (Deregister i)
  then show ?thesis using deregister_ok [OF assms] by simp
next
  case (Affiliate now i g)
  then show ?thesis using affiliate_ok [OF assms] by simp
next
  case (Deaffiliate now i g)
  then show ?thesis using deaffiliate_ok [OF assms] by simp
next
  case (Generation now i n)
  then show ?thesis using generation_ok [OF assms] by simp
next
  case (Uplink i slot)
  then show ?thesis using set_control_ok [OF assms] by (simp add: observe_common_uplink_def)
next
  case (SetControl i a)
  then show ?thesis using set_control_ok [OF assms] by simp
next
  case (Accessed i now)
  then show ?thesis using assms by (simp add: mark_direct_response_window_def registry_ok_def cell_of_def)
next
  case (CheckAccess i now)
  then show ?thesis using assms by (simp add: direct_response_window_active_def registry_ok_def cell_of_def Let_def)
next
  case NoteFailure
  then show ?thesis using assms by (simp add: note_registration_delivery_failure_def registry_ok_def cell_of_def)
next
  case TakeFailures
  then show ?thesis using assms by (simp add: take_registration_delivery_failures_def registry_ok_def cell_of_def)
qed

text \<open>Runs of events, and what the queries read off the cell.\<close>

lemma registry_run_ok:
  "registry_ok r \<Longrightarrow> \<exists>r'. registry_run es r = Some r' \<and> registry_ok r' \<and> cell_of r' = fold cell_apply es (cell_of r)"
proof (induction es arbitrary: r)
  case (Cons e es)
  then show ?case using registry_apply_ok [OF Cons.prems, of e] by fastforce
qed simp

lemma registry_new_ok: "registry_ok registry_new" "cell_of registry_new = cell_new"
  by (simp_all add: registry_new_def registry_ok_def cell_of_def cell_new_def activity_in_def fun_eq_iff)

lemma queries_of_cell:
  assumes "registry_ok r"
  shows "has_group_members r g \<longleftrightarrow> (\<exists>i. g \<in> groups_in (cell_of r) i)"
    and "is_registered r i \<longleftrightarrow> members (cell_of r) i \<noteq> None"
    and "sub_is_active r i \<longleftrightarrow> activities (cell_of r) i = Listening"
    and "is_registration_pending r i \<longleftrightarrow> activities (cell_of r) i = Delivering"
proof -
  show "has_group_members r g \<longleftrightarrow> (\<exists>i. g \<in> groups_in (cell_of r) i)"
    unfolding all_groups_of has_group_members_def using assms by (simp add: registry_ok_def)
  show "is_registration_pending r i \<longleftrightarrow> activities (cell_of r) i = Delivering"
    using assms by (auto simp: registry_ok_def is_registration_pending_def cell_of_def activity_in_simps)
qed (simp_all add: is_registered_def sub_is_active_def cell_of_def activity_in_simps)

lemma group_economies_exact:
  assumes "registry_ok r"
  shows "(i, e) \<in> set (group_energy_economies r g) \<longleftrightarrow> g \<in> groups_in (cell_of r) i \<and> activities (cell_of r) i = Listening
    \<and> energy_economy r i = Some e \<and> map_option scanning_enabled (map_of (subscribers r) i) = Some True"
proof -
  have d: "distinct (map fst (subscribers r))" and k: "\<And>i s. map_of (subscribers r) i = Some s \<Longrightarrow> sub_issi s = i"
    using assms by (simp_all add: registry_ok_def)
  have m: "s \<in> snd ` set (subscribers r) \<longleftrightarrow> map_of (subscribers r) (sub_issi s) = Some s" for s
  proof
    assume "s \<in> snd ` set (subscribers r)"
    then obtain j where "(j, s) \<in> set (subscribers r)" by auto
    then have "map_of (subscribers r) j = Some s" using d by simp
    with k [OF this] show "map_of (subscribers r) (sub_issi s) = Some s" by simp
  next
    assume "map_of (subscribers r) (sub_issi s) = Some s"
    from map_of_SomeD [OF this] show "s \<in> snd ` set (subscribers r)" by force
  qed
  have "(i, e) \<in> set (group_energy_economies r g) \<longleftrightarrow> (\<exists>s. s \<in> snd ` set (subscribers r) \<and> g \<in> set (attached_groups s)
      \<and> scanning_enabled s \<and> sub_is_active r (sub_issi s) \<and> i = sub_issi s \<and> e = economy_of s)"
    by (auto simp: group_energy_economies_def sub_is_active_def)
  also have "\<dots> \<longleftrightarrow> (\<exists>s. map_of (subscribers r) i = Some s \<and> g \<in> set (attached_groups s)
      \<and> scanning_enabled s \<and> sub_is_active r i \<and> e = economy_of s)"
    unfolding m using k by blast
  finally show ?thesis
    unfolding queries_of_cell(3) [OF assms] groups_in_cell energy_economy_def by (cases "map_of (subscribers r) i") auto
qed

text \<open>The load of a common slot counts the active and the pending terminals assigned to it.\<close>

abbreviation slot_of :: "subscriber_registry \<Rightarrow> nat \<Rightarrow> u32 \<Rightarrow> nat" where
  "slot_of r count issi \<equiv> common_control_slot (cc_ms_scch (common_control r issi)) count"

definition others_on :: "subscriber_registry \<Rightarrow> u32 \<Rightarrow> nat \<Rightarrow> nat \<Rightarrow> nat" where
  "others_on r issi count slot = length (filter (\<lambda>i. i \<noteq> issi \<and> slot_of r count i = slot) (active_or_pending r))"

lemma loads_fold:
  assumes "\<And>i. f i < length xs"
  shows "length (fold (\<lambda>i ls. ls[f i := ls ! f i + (1::nat)]) is xs) = length xs
    \<and> (\<forall>k<length xs. fold (\<lambda>i ls. ls[f i := ls ! f i + (1::nat)]) is xs ! k = xs ! k + length (filter (\<lambda>i. f i = k) is))"
  using assms
proof (induction "is" arbitrary: xs)
  case (Cons i "is")
  have "\<And>j. f j < length (xs[f i := xs ! f i + 1])" using Cons.prems by simp
  from Cons.IH [OF this] show ?case using Cons.prems by (simp add: nth_list_update)
qed simp

lemma slot_of_range: "1 \<le> slot_of r count i" "slot_of r count i - 1 < 4"
  using count_slot_range [of "cc_ms_scch (common_control r i)" count] by auto

lemma loads_counts:
  assumes "k < 4"
  shows "common_control_loads r count ! k = length (filter (\<lambda>i. slot_of r count i = k + 1) (active_or_pending r))"
proof -
  have "slot_of r count i - 1 = k \<longleftrightarrow> slot_of r count i = k + 1" for i
    using slot_of_range(1) [of r i count] by linarith
  then show ?thesis
    using loads_fold [of "\<lambda>i. slot_of r count i - 1" "replicate 4 0" "active_or_pending r"] slot_of_range(2) assms
    by (simp add: common_control_loads_def Let_def)
qed

lemma remove_one_count:
  assumes "distinct xs"
  shows "length (filter (\<lambda>i. i \<noteq> j \<and> P i) xs) = length (filter P xs) - (if j \<in> set xs \<and> P j then 1 else 0)"
  using assms
proof (induction xs)
  case (Cons x xs)
  have "j \<in> set xs \<and> P j \<Longrightarrow> 0 < length (filter P xs)" by (auto simp: filter_empty_conv)
  then show ?case using Cons by (cases "x = j") auto
qed simp

lemma loads_without_counts:
  assumes "registry_ok r" and "1 \<le> slot" and "slot < 5"
  shows "loads_without issi count r ! (slot - 1) = others_on r issi count slot"
proof -
  have d: "distinct (active_or_pending r)" using assms by (auto simp: registry_ok_def active_or_pending_def)
  have m: "issi \<in> set (active_or_pending r) \<longleftrightarrow> issi \<in> set (active_subscribers r) \<or> issi \<in> set (pending_registration_deliveries r)"
    by (auto simp: active_or_pending_def)
  have len: "length (common_control_loads r count) = 4"
    using loads_fold [of "\<lambda>i. slot_of r count i - 1" "replicate 4 0" "active_or_pending r"] slot_of_range(2)
    by (simp add: common_control_loads_def Let_def)
  have e: "slot_of r count issi - 1 = slot - 1 \<longleftrightarrow> slot_of r count issi = slot"
    using slot_of_range(1) [of r issi count] assms by linarith
  show ?thesis
    using assms slot_of_range(2) [of r issi count] loads_counts [of "slot - 1" r count]
    by (simp add: loads_without_def Let_def others_on_def remove_one_count [OF d] m [symmetric] nth_list_update len e del: One_nat_def)
qed

lemma slot_of_value: "1 \<le> slot \<Longrightarrow> slot < min count 3 + 2 \<Longrightarrow> common_control_slot (Some (slot - 1)) count = slot"
  by (auto simp: common_control_slot_def)

lemma choose_balanced:
  assumes "registry_ok r" and "choose_ms_scch issi count r = Some m"
  shows "\<exists>v<12. m = Some v \<and> (\<forall>slot. 1 \<le> slot \<and> slot < min count 3 + 2 \<longrightarrow>
      others_on r issi count (common_control_slot (Some v) count) < others_on r issi count slot
      \<or> others_on r issi count (common_control_slot (Some v) count) = others_on r issi count slot
        \<and> (slot = slot_of r count issi \<longrightarrow> common_control_slot (Some v) count = slot))"
proof -
  let ?key = "\<lambda>slot. (loads_without issi count r ! (slot - 1), slot \<noteq> slot_of r count issi, slot)"
  have "[1..<min count 3 + 2] \<noteq> []" by simp
  from min_by_key_least [OF this] obtain chosen where chosen: "min_by_key ?key [1..<min count 3 + 2] = Some chosen"
      "chosen \<in> set [1..<min count 3 + 2]" and least: "\<forall>slot\<in>set [1..<min count 3 + 2]. ?key chosen \<le> ?key slot" by blast
  let ?vs = "filter (\<lambda>value. common_control_slot (Some value) count = chosen) [0..<12]"
  have c: "1 \<le> chosen \<and> chosen < min count 3 + 2" using chosen(2) by (simp only: set_upt atLeastLessThan_iff)
  then have "chosen - 1 \<in> set ?vs" using slot_of_value [of chosen count] by (auto simp del: One_nat_def)
  then have "?vs \<noteq> []" by (metis list.set(1) empty_iff)
  from min_by_key_least [OF this] obtain v where v: "min_by_key (\<lambda>value. (length (filter (\<lambda>(other, a). other \<noteq> issi
      \<and> cc_ms_scch a = Some value) (common_controls r)), value)) ?vs = Some v" "v \<in> set ?vs" by blast
  have "m = Some v" using assms(2) chosen(1) v(1) by (simp add: choose_ms_scch_def Let_def del: One_nat_def)
  moreover have "others_on r issi count chosen < others_on r issi count slot
      \<or> others_on r issi count chosen = others_on r issi count slot \<and> (slot = slot_of r count issi \<longrightarrow> chosen = slot)"
    if "1 \<le> slot" "slot < min count 3 + 2" for slot
  proof -
    have m: "min count 3 + 2 \<le> 5" by simp
    have "slot \<in> set [1..<min count 3 + 2]" using that by (simp only: set_upt atLeastLessThan_iff)
    with least have le: "?key chosen \<le> ?key slot" by blast
    have "loads_without issi count r ! (slot - 1) = others_on r issi count slot"
      using loads_without_counts [OF assms(1) that(1) less_le_trans [OF that(2) m]] .
    moreover have "loads_without issi count r ! (chosen - 1) = others_on r issi count chosen"
      using loads_without_counts [OF assms(1) _ less_le_trans [OF _ m], of chosen] c by blast
    ultimately show ?thesis using le by (auto simp: less_eq_prod_def simp del: One_nat_def)
  qed
  ultimately show ?thesis using v(2) by auto
qed

lemma select_cases:
  assumes "select_common_control issi sp count ingress r = Some (m, r')"
  shows "r' = set_common_control issi \<lparr>cc_supported = (case sp of Some s \<Rightarrow> Some s | None \<Rightarrow> cc_supported (common_control r issi)),
      cc_ms_scch = m, cc_registration_slot = Some ingress, cc_last_uplink_slot = Some ingress\<rparr> r"
    and "(case sp of Some s \<Rightarrow> Some s | None \<Rightarrow> cc_supported (common_control r issi)) \<noteq> Some True \<Longrightarrow> m = None"
  using assms by (auto simp: select_common_control_def Let_def bind_eq_Some_conv split: if_splits)

lemma common_control_set [simp]:
  "common_control (set_common_control i a r) j = (if j = i then a else common_control r j)"
  by (simp add: common_control_def set_common_control_def update_conv')

section \<open>Properties\<close>

text \<open>C38: The subscriber registry refines the abstract cell: whatever sequence of registrations,
  deregistrations, affiliations, deliveries and attribute updates the cell goes through, the registry
  reaches a state (no step panics) in which the terminals registered, their groups and their activity are
  those of the abstract cell, the set of all attached groups is exactly the union of the groups of the
  registered terminals, and the energy-economy list of a group names exactly its listening, scanning members.\<close>

theorem registry_refines:
  "\<exists>r. registry_run es registry_new = Some r
     \<and> cell_of r = fold cell_apply es cell_new
     \<and> (\<forall>g. has_group_members r g = (\<exists>i. g \<in> groups_in (fold cell_apply es cell_new) i))
     \<and> (\<forall>i. is_registered r i = (members (fold cell_apply es cell_new) i \<noteq> None))
     \<and> (\<forall>i. sub_is_active r i = (activities (fold cell_apply es cell_new) i = Listening))
     \<and> (\<forall>i. is_registration_pending r i = (activities (fold cell_apply es cell_new) i = Delivering))
     \<and> (\<forall>g i e. ((i, e) \<in> set (group_energy_economies r g))
          = (g \<in> groups_in (fold cell_apply es cell_new) i \<and> activities (fold cell_apply es cell_new) i = Listening
             \<and> energy_economy r i = Some e \<and> map_option scanning_enabled (map_of (subscribers r) i) = Some True))"
proof -
  from registry_run_ok [OF registry_new_ok(1), of es] obtain r where r: "registry_run es registry_new = Some r" "registry_ok r"
      "cell_of r = fold cell_apply es cell_new" unfolding registry_new_ok(2) by blast
  show ?thesis
    by (rule exI [of _ r]) (simp add: r(1) r(3) [symmetric] queries_of_cell [OF r(2)] group_economies_exact [OF r(2)])
qed

text \<open>C39: Common control is balanced: for a terminal that supports several common control channels and is not retrying
  a pending registration, the selection in a well-formed registry answers a channel number below 12 whose
  slot carries no more active or pending other terminals than any other common slot, keeps the slot the
  terminal already had when that slot is among the least loaded, and changes the assignment of no other terminal.\<close>

theorem common_control_balanced:
  assumes "registry_run es registry_new = Some r"
    and "(case sp of Some s \<Rightarrow> Some s | None \<Rightarrow> cc_supported (common_control r issi)) = Some True"
    and "\<not> is_registration_pending r issi \<or> cc_registration_slot (common_control r issi) = None
      \<or> cc_ms_scch (common_control r issi) = None"
  shows "\<exists>v r'. select_common_control issi sp count ingress r = Some (Some v, r') \<and> v < 12
    \<and> cc_ms_scch (common_control r' issi) = Some v
    \<and> (\<forall>j. j \<noteq> issi \<longrightarrow> common_control r' j = common_control r j)
    \<and> (\<forall>slot. 1 \<le> slot \<and> slot < min count 3 + 2 \<longrightarrow>
        others_on r issi count (common_control_slot (Some v) count) \<le> others_on r issi count slot
        \<and> (slot = slot_of r count issi
           \<and> others_on r issi count slot = others_on r issi count (common_control_slot (Some v) count)
           \<longrightarrow> common_control_slot (Some v) count = slot))"
proof -
  have ok: "registry_ok r" using registry_run_ok [OF registry_new_ok(1), of es] assms(1) by auto
  obtain m where m: "choose_ms_scch issi count r = Some m" using choose_Some by blast
  from choose_balanced [OF ok m] obtain v where v: "v < 12" "m = Some v" and
    bal: "\<And>slot. 1 \<le> slot \<and> slot < min count 3 + 2 \<Longrightarrow>
      others_on r issi count (common_control_slot (Some v) count) < others_on r issi count slot
      \<or> others_on r issi count (common_control_slot (Some v) count) = others_on r issi count slot
        \<and> (slot = slot_of r count issi \<longrightarrow> common_control_slot (Some v) count = slot)" by blast
  have "\<not> (issi \<in> set (pending_registration_deliveries r) \<and> cc_registration_slot (common_control r issi) \<noteq> None
      \<and> cc_ms_scch (common_control r issi) \<noteq> None)" using assms(3) by (auto simp: is_registration_pending_def)
  then have "\<exists>r'. select_common_control issi sp count ingress r = Some (Some v, r')"
    using assms(2) m v(2) by (simp only: select_common_control_def Let_def if_False if_True bind.bind_lunit simp_thms option.inject prod.inject)
  then obtain r' where r': "select_common_control issi sp count ingress r = Some (Some v, r')" ..
  have assigned: "cc_ms_scch (common_control r' issi) = Some v" "\<forall>j. j \<noteq> issi \<longrightarrow> common_control r' j = common_control r j"
    using select_cases(1) [OF r'] by simp_all
  have "\<forall>slot. 1 \<le> slot \<and> slot < min count 3 + 2 \<longrightarrow>
        others_on r issi count (common_control_slot (Some v) count) \<le> others_on r issi count slot
        \<and> (slot = slot_of r count issi
           \<and> others_on r issi count slot = others_on r issi count (common_control_slot (Some v) count)
           \<longrightarrow> common_control_slot (Some v) count = slot)" (is "\<forall>slot. ?in slot \<longrightarrow> ?ok slot")
  proof (intro allI impI)
    fix slot assume "?in slot"
    from bal [OF this] show "?ok slot" by (cases "others_on r issi count (common_control_slot (Some v) count) < others_on r issi count slot") simp_all
  qed
  with r' v(1) assigned show ?thesis by blast
qed

lemma common_control_balanced_witness:
  "(let r = mark_active 5 (register 0 5 registry_new)
    in registry_run [Register 0 5, Activate 5] registry_new = Some r
       \<and> (\<exists>v r'. select_common_control 7 (Some True) 2 1 r = Some (Some v, r') \<and> v < 12 \<and> common_control_slot (Some v) 2 \<noteq> 1))"
proof -
  let ?r = "mark_active 5 (register 0 5 registry_new)"
  have run: "registry_run [Register 0 5, Activate 5] registry_new = Some ?r" by simp
  have eval: "others_on ?r 7 2 1 = 1" "others_on ?r 7 2 2 = 0" "\<not> is_registration_pending ?r 7"
    by (simp_all add: others_on_def active_or_pending_def mark_active_def register_def deregister_def mark_inactive_def
        registry_new_def common_control_def default_assignment_def common_control_slot_def is_registration_pending_def)
  obtain v r' where v: "select_common_control 7 (Some True) 2 1 ?r = Some (Some v, r')" "v < 12"
      "others_on ?r 7 2 (common_control_slot (Some v) 2) \<le> others_on ?r 7 2 2"
    using common_control_balanced [OF run, where issi = 7 and sp = "Some True" and count = 2 and ingress = 1] eval(3)
    by (auto simp del: registry_run.simps)
  then have "common_control_slot (Some v) 2 \<noteq> 1" using eval by auto
  with run v show ?thesis by (auto simp: Let_def)
qed

end
