(* ===== verification/Dm_Gateways.thy ===== *)
theory Dm_Gateways
  imports Tdma_Time Prelude
begin

text \<open>
  The direct-mode gateways of the cell, \<open>DmGatewayRegistry\<close> of
  \<^verbatim>\<open>crates/tetra-config/src/bluestation/state.rs\<close>: each gateway terminal advertises the direct-mode
  addresses that are reachable through it, and a routing index finds the gateways of an address. Hash
  maps are association lists and hash sets lists, in the iteration order of the container.
\<close>

section \<open>State\<close>

record dm_ms_route_address =
  ra_ssi :: u32
  ra_mcc :: "nat option"
  ra_mnc :: "nat option"

record dmo_carrier_state =
  carrier_number :: nat
  frequency_band :: "nat option"
  dmo_offset :: "nat option"
  duplex_spacing :: "nat option"
  normal_reverse :: "bool option"

record dm_gateway_session =
  gateway_issi :: u32
  dmo_carrier :: "dmo_carrier_state option"
  dm_ms_addresses :: "dm_ms_route_address list"
  last_seen :: tdma_time

record dm_gateway_registry =
  gateways :: "(u32 \<times> dm_gateway_session) list"
  routes :: "(dm_ms_route_address \<times> u32 list) list"

definition gateways_new :: dm_gateway_registry where
  "gateways_new = \<lparr>gateways = [], routes = []\<rparr>"

section \<open>Operations\<close>

definition gateways_for :: "dm_gateway_registry \<Rightarrow> dm_ms_route_address \<Rightarrow> u32 list" where
  "gateways_for r address = (case map_of (routes r) address of Some value \<Rightarrow> value | None \<Rightarrow> [])"

definition add_route :: "u32 \<Rightarrow> dm_ms_route_address \<Rightarrow> dm_gateway_registry \<Rightarrow> dm_gateway_registry" where
  "add_route g address r = r\<lparr>routes := AList.update address (List.insert g (gateways_for r address)) (routes r)\<rparr>"

definition drop_route :: "u32 \<Rightarrow> dm_ms_route_address \<Rightarrow> dm_gateway_registry \<Rightarrow> dm_gateway_registry" where
  "drop_route g address r = (case map_of (routes r) address of
       None \<Rightarrow> r
     | Some value \<Rightarrow> (let rest = removeAll g value in
         if rest = [] then r\<lparr>routes := AList.delete address (routes r)\<rparr>
         else r\<lparr>routes := AList.update address rest (routes r)\<rparr>))"

definition dm_deactivate :: "u32 \<Rightarrow> dm_gateway_registry \<Rightarrow> dm_gateway_registry" where
  "dm_deactivate g r = (case map_of (gateways r) g of
       None \<Rightarrow> r
     | Some session \<Rightarrow> fold (drop_route g) (dm_ms_addresses session) (r\<lparr>gateways := AList.delete g (gateways r)\<rparr>))"

definition dm_activate ::
  "u32 \<Rightarrow> dmo_carrier_state option \<Rightarrow> dm_ms_route_address list \<Rightarrow> tdma_time \<Rightarrow> dm_gateway_registry \<Rightarrow> dm_gateway_registry" where
  "dm_activate g carrier addresses now r =
     (let r = dm_deactivate g r; addresses = remdups addresses; r = fold (add_route g) addresses r
      in r\<lparr>gateways := AList.update g \<lparr>gateway_issi = g, dmo_carrier = carrier, dm_ms_addresses = addresses, last_seen = now\<rparr>
             (gateways r)\<rparr>)"

definition edit_session :: "u32 \<Rightarrow> (dm_gateway_session \<Rightarrow> dm_gateway_session) \<Rightarrow> dm_gateway_registry \<Rightarrow> dm_gateway_registry" where
  "edit_session g f r = r\<lparr>gateways := AList.map_entry g f (gateways r)\<rparr>"

definition dm_is_active :: "dm_gateway_registry \<Rightarrow> u32 \<Rightarrow> bool" where
  "dm_is_active r g \<longleftrightarrow> map_of (gateways r) g \<noteq> None"

definition dm_session :: "dm_gateway_registry \<Rightarrow> u32 \<Rightarrow> dm_gateway_session option" where
  "dm_session r g = map_of (gateways r) g"

definition add_addresses ::
  "u32 \<Rightarrow> dm_ms_route_address list \<Rightarrow> tdma_time \<Rightarrow> dm_gateway_registry \<Rightarrow> dm_gateway_registry" where
  "add_addresses g addresses now r = (if \<not> dm_is_active r g then r
     else fold (\<lambda>address r. add_route g address
         (edit_session g (\<lambda>s. s\<lparr>dm_ms_addresses := List.insert address (dm_ms_addresses s)\<rparr>) r))
       addresses (edit_session g (\<lambda>s. s\<lparr>last_seen := now\<rparr>) r))"

definition remove_addresses ::
  "u32 \<Rightarrow> dm_ms_route_address list \<Rightarrow> tdma_time \<Rightarrow> dm_gateway_registry \<Rightarrow> dm_gateway_registry" where
  "remove_addresses g addresses now r = (if \<not> dm_is_active r g then r
     else fold (\<lambda>address r. drop_route g address
         (edit_session g (\<lambda>s. s\<lparr>dm_ms_addresses := removeAll address (dm_ms_addresses s)\<rparr>) r))
       addresses (edit_session g (\<lambda>s. s\<lparr>last_seen := now\<rparr>) r))"

definition replace_addresses ::
  "u32 \<Rightarrow> dm_ms_route_address list \<Rightarrow> tdma_time \<Rightarrow> dm_gateway_registry \<Rightarrow> dm_gateway_registry" where
  "replace_addresses g addresses now r =
     dm_activate g (Option.bind (map_of (gateways r) g) dmo_carrier) addresses now r"

definition dm_touch :: "u32 \<Rightarrow> tdma_time \<Rightarrow> dm_gateway_registry \<Rightarrow> dm_gateway_registry" where
  "dm_touch g now r = edit_session g (\<lambda>s. s\<lparr>last_seen := now\<rparr>) r"

definition update_carrier ::
  "u32 \<Rightarrow> dmo_carrier_state option \<Rightarrow> tdma_time \<Rightarrow> dm_gateway_registry \<Rightarrow> dm_gateway_registry" where
  "update_carrier g carrier now r = edit_session g (\<lambda>s. s\<lparr>dmo_carrier := carrier, last_seen := now\<rparr>) r"

definition gateway_for_ssi :: "dm_gateway_registry \<Rightarrow> u32 \<Rightarrow> (u32 \<times> dm_ms_route_address) option" where
  "gateway_for_ssi r ssi = min_by_key fst (filter (\<lambda>(_, address). ra_ssi address = ssi)
     (concat (map (\<lambda>(g, session). map (Pair g) (dm_ms_addresses session)) (gateways r))))"

section \<open>What the registry promises\<close>

datatype gateway_event =
    GwActivate u32 "dmo_carrier_state option" "dm_ms_route_address list" tdma_time
  | GwDeactivate u32
  | GwAdd u32 "dm_ms_route_address list" tdma_time
  | GwRemove u32 "dm_ms_route_address list" tdma_time
  | GwReplace u32 "dm_ms_route_address list" tdma_time
  | GwTouch u32 tdma_time
  | GwCarrier u32 "dmo_carrier_state option" tdma_time

fun gateway_apply :: "gateway_event \<Rightarrow> dm_gateway_registry \<Rightarrow> dm_gateway_registry" where
  "gateway_apply (GwActivate g c as now) r = dm_activate g c as now r"
| "gateway_apply (GwDeactivate g) r = dm_deactivate g r"
| "gateway_apply (GwAdd g as now) r = add_addresses g as now r"
| "gateway_apply (GwRemove g as now) r = remove_addresses g as now r"
| "gateway_apply (GwReplace g as now) r = replace_addresses g as now r"
| "gateway_apply (GwTouch g now) r = dm_touch g now r"
| "gateway_apply (GwCarrier g c now) r = update_carrier g c now r"

text \<open>The contract: a carrier and a set of addresses for each active gateway, and no index.\<close>

type_synonym coverage = "u32 \<Rightarrow> (dmo_carrier_state option \<times> dm_ms_route_address set) option"

fun coverage_apply :: "gateway_event \<Rightarrow> coverage \<Rightarrow> coverage" where
  "coverage_apply (GwActivate g c as _) s = s(g \<mapsto> (c, set as))"
| "coverage_apply (GwDeactivate g) s = s(g := None)"
| "coverage_apply (GwAdd g as _) s = s(g := map_option (\<lambda>(c, A). (c, A \<union> set as)) (s g))"
| "coverage_apply (GwRemove g as _) s = s(g := map_option (\<lambda>(c, A). (c, A - set as)) (s g))"
| "coverage_apply (GwReplace g as _) s = s(g \<mapsto> (Option.bind (s g) fst, set as))"
| "coverage_apply (GwTouch _ _) s = s"
| "coverage_apply (GwCarrier g c _) s = s(g := map_option (\<lambda>(_, A). (c, A)) (s g))"

definition session_cover :: "dm_gateway_session \<Rightarrow> dmo_carrier_state option \<times> dm_ms_route_address set" where
  "session_cover s = (dmo_carrier s, set (dm_ms_addresses s))"

definition coverage_of :: "dm_gateway_registry \<Rightarrow> coverage" where
  "coverage_of r g = map_option session_cover (map_of (gateways r) g)"

definition serves :: "coverage \<Rightarrow> u32 \<Rightarrow> dm_ms_route_address \<Rightarrow> bool" where
  "serves s g address \<longleftrightarrow> (case s g of None \<Rightarrow> False | Some (_, A) \<Rightarrow> address \<in> A)"

definition gateways_ok :: "dm_gateway_registry \<Rightarrow> bool" where
  "gateways_ok r \<longleftrightarrow> distinct (map fst (gateways r))
     \<and> (\<forall>address g. g \<in> set (gateways_for r address) \<longleftrightarrow> serves (coverage_of r) g address)
     \<and> (\<forall>address. map_of (routes r) address \<noteq> Some [])"

section \<open>Lemmas\<close>

text \<open>The index as a relation between gateways and addresses.\<close>

definition index_of :: "dm_gateway_registry \<Rightarrow> u32 \<Rightarrow> dm_ms_route_address \<Rightarrow> bool" where
  "index_of r g address \<longleftrightarrow> g \<in> set (gateways_for r address)"

definition index_tight :: "dm_gateway_registry \<Rightarrow> bool" where
  "index_tight r \<longleftrightarrow> (\<forall>address. map_of (routes r) address \<noteq> Some [])"

lemma insert_nonempty: "List.insert x xs \<noteq> []"
  by (simp add: List.insert_def) auto

lemma add_route_facts:
  "gateways (add_route g a r) = gateways r"
  "index_of (add_route g a r) h b \<longleftrightarrow> (h = g \<and> b = a) \<or> index_of r h b"
  "index_tight r \<Longrightarrow> index_tight (add_route g a r)"
  by (auto simp: add_route_def index_of_def gateways_for_def index_tight_def update_conv' insert_nonempty)

lemma drop_route_facts:
  "gateways (drop_route g a r) = gateways r"
  "index_of (drop_route g a r) h b \<longleftrightarrow> \<not> (h = g \<and> b = a) \<and> index_of r h b"
  "index_tight r \<Longrightarrow> index_tight (drop_route g a r)"
proof -
  show "gateways (drop_route g a r) = gateways r"
    by (simp add: drop_route_def Let_def split: option.split)
  show "index_of (drop_route g a r) h b \<longleftrightarrow> \<not> (h = g \<and> b = a) \<and> index_of r h b"
  proof (cases "map_of (routes r) a")
    case (Some gs)
    have "set (removeAll g gs) = set gs - {g}" by simp
    then show ?thesis using Some
      by (cases "removeAll g gs = []") (auto simp: drop_route_def Let_def index_of_def gateways_for_def update_conv' delete_conv')
  qed (auto simp: drop_route_def index_of_def gateways_for_def)
  show "index_tight r \<Longrightarrow> index_tight (drop_route g a r)"
    by (auto simp: drop_route_def index_tight_def Let_def update_conv' delete_conv' split: option.split if_splits)
qed

lemma fold_add_route:
  "gateways (fold (add_route g) as r) = gateways r"
  "index_of (fold (add_route g) as r) h b \<longleftrightarrow> (h = g \<and> b \<in> set as) \<or> index_of r h b"
  "index_tight r \<Longrightarrow> index_tight (fold (add_route g) as r)"
  by (induction "as" arbitrary: r) (auto simp: add_route_facts)

lemma fold_drop_route:
  "gateways (fold (drop_route g) as r) = gateways r"
  "index_of (fold (drop_route g) as r) h b \<longleftrightarrow> \<not> (h = g \<and> b \<in> set as) \<and> index_of r h b"
  "index_tight r \<Longrightarrow> index_tight (fold (drop_route g) as r)"
  by (induction "as" arbitrary: r) (auto simp: drop_route_facts)

lemma edit_session_facts:
  "index_of (edit_session g f r) = index_of r"
  "index_tight (edit_session g f r) = index_tight r"
  "map_of (gateways (edit_session g f r)) = (map_of (gateways r))(g := map_option f (map_of (gateways r) g))"
  "map fst (gateways (edit_session g f r)) = map fst (gateways r)"
  by (simp_all add: edit_session_def index_of_def gateways_for_def index_tight_def map_entry_conv distinct_map_entry fun_eq_iff)

lemma gateways_ok_index:
  "gateways_ok r \<longleftrightarrow> distinct (map fst (gateways r)) \<and> index_of r = serves (coverage_of r) \<and> index_tight r"
  by (auto simp: gateways_ok_def index_of_def index_tight_def fun_eq_iff)

text \<open>A loop that edits the session and the index address by address.\<close>

lemma fold_add_addresses:
  fixes g now
  defines "step \<equiv> \<lambda>a r. add_route g a (edit_session g (\<lambda>s. s\<lparr>dm_ms_addresses := List.insert a (dm_ms_addresses s)\<rparr>) r)"
  shows "map fst (gateways (fold step as r)) = map fst (gateways r)"
    and "coverage_of (fold step as r) = (coverage_of r)(g := map_option (\<lambda>(c, A). (c, A \<union> set as)) (coverage_of r g))"
    and "index_of (fold step as r) h b \<longleftrightarrow> (h = g \<and> b \<in> set as) \<or> index_of r h b"
    and "index_tight r \<Longrightarrow> index_tight (fold step as r)"
proof -
  have step: "map fst (gateways (step a r)) = map fst (gateways r)"
      "coverage_of (step a r) = (coverage_of r)(g := map_option (\<lambda>(c, A). (c, insert a A)) (coverage_of r g))"
      "index_of (step a r) h b \<longleftrightarrow> (h = g \<and> b = a) \<or> index_of r h b"
      "index_tight r \<Longrightarrow> index_tight (step a r)" for a r h b
    by (auto simp: step_def add_route_facts edit_session_facts coverage_of_def session_cover_def fun_eq_iff option.map_comp comp_def)
  show "map fst (gateways (fold step as r)) = map fst (gateways r)"
    by (induction "as" arbitrary: r) (simp_all add: step)
  show "coverage_of (fold step as r) = (coverage_of r)(g := map_option (\<lambda>(c, A). (c, A \<union> set as)) (coverage_of r g))"
  proof (induction "as" arbitrary: r)
    case (Cons a as)
    then show ?case by (cases "coverage_of r g") (auto simp: step fun_eq_iff)
  qed (simp add: fun_eq_iff option.map_id)
  show "index_of (fold step as r) h b \<longleftrightarrow> (h = g \<and> b \<in> set as) \<or> index_of r h b"
    by (induction "as" arbitrary: r) (auto simp: step)
  show "index_tight r \<Longrightarrow> index_tight (fold step as r)"
    by (induction "as" arbitrary: r) (simp_all add: step)
qed

lemma fold_remove_addresses:
  fixes g now
  defines "step \<equiv> \<lambda>a r. drop_route g a (edit_session g (\<lambda>s. s\<lparr>dm_ms_addresses := removeAll a (dm_ms_addresses s)\<rparr>) r)"
  shows "map fst (gateways (fold step as r)) = map fst (gateways r)"
    and "coverage_of (fold step as r) = (coverage_of r)(g := map_option (\<lambda>(c, A). (c, A - set as)) (coverage_of r g))"
    and "index_of (fold step as r) h b \<longleftrightarrow> \<not> (h = g \<and> b \<in> set as) \<and> index_of r h b"
    and "index_tight r \<Longrightarrow> index_tight (fold step as r)"
proof -
  have step: "map fst (gateways (step a r)) = map fst (gateways r)"
      "coverage_of (step a r) = (coverage_of r)(g := map_option (\<lambda>(c, A). (c, A - {a})) (coverage_of r g))"
      "index_of (step a r) h b \<longleftrightarrow> \<not> (h = g \<and> b = a) \<and> index_of r h b"
      "index_tight r \<Longrightarrow> index_tight (step a r)" for a r h b
    by (auto simp: step_def drop_route_facts edit_session_facts coverage_of_def session_cover_def fun_eq_iff option.map_comp comp_def)
  show "map fst (gateways (fold step as r)) = map fst (gateways r)"
    by (induction "as" arbitrary: r) (simp_all add: step)
  show "coverage_of (fold step as r) = (coverage_of r)(g := map_option (\<lambda>(c, A). (c, A - set as)) (coverage_of r g))"
  proof (induction "as" arbitrary: r)
    case (Cons a as)
    then show ?case by (cases "coverage_of r g") (auto simp: step fun_eq_iff)
  qed (simp add: fun_eq_iff option.map_id)
  show "index_of (fold step as r) h b \<longleftrightarrow> \<not> (h = g \<and> b \<in> set as) \<and> index_of r h b"
    by (induction "as" arbitrary: r) (auto simp: step)
  show "index_tight r \<Longrightarrow> index_tight (fold step as r)"
    by (induction "as" arbitrary: r) (simp_all add: step)
qed

lemma serves_update: "serves (s(g := x)) h b \<longleftrightarrow> (if h = g then (case x of None \<Rightarrow> False | Some (_, A) \<Rightarrow> b \<in> A) else serves s h b)"
  by (simp add: serves_def)

lemma dm_deactivate_ok:
  assumes "gateways_ok r"
  shows "gateways_ok (dm_deactivate g r) \<and> coverage_of (dm_deactivate g r) = (coverage_of r)(g := None)"
proof (cases "map_of (gateways r) g")
  case None
  then have "(coverage_of r)(g := None) = coverage_of r" by (simp add: coverage_of_def fun_eq_iff)
  with None assms show ?thesis by (simp add: dm_deactivate_def)
next
  case (Some session)
  let ?r = "r\<lparr>gateways := AList.delete g (gateways r)\<rparr>"
  have r: "index_of ?r = index_of r" "index_tight ?r = index_tight r"
    by (simp_all add: index_of_def gateways_for_def index_tight_def fun_eq_iff)
  have c: "coverage_of (dm_deactivate g r) = (coverage_of r)(g := None)"
    using Some by (simp add: dm_deactivate_def coverage_of_def fold_drop_route delete_conv' fun_eq_iff)
  have "serves (coverage_of r) g b \<longleftrightarrow> b \<in> set (dm_ms_addresses session)" for b
    using Some by (simp add: serves_def coverage_of_def session_cover_def)
  then have "index_of (dm_deactivate g r) = serves ((coverage_of r)(g := None))"
    using assms Some by (auto simp: dm_deactivate_def fold_drop_route r gateways_ok_index serves_update fun_eq_iff)
  with c assms Some show ?thesis
    by (simp add: gateways_ok_index dm_deactivate_def fold_drop_route r distinct_delete)
qed

lemma dm_activate_ok:
  assumes "gateways_ok r"
  shows "gateways_ok (dm_activate g c as now r) \<and> coverage_of (dm_activate g c as now r) = (coverage_of r)(g \<mapsto> (c, set as))"
proof -
  note d = dm_deactivate_ok [OF assms, of g]
  let ?r = "dm_activate g c as now r"
  have index: "index_of (r\<lparr>gateways := gs\<rparr>) = index_of r" "index_tight (r\<lparr>gateways := gs\<rparr>) = index_tight r" for r gs
    by (simp_all add: index_of_def gateways_for_def index_tight_def fun_eq_iff)
  have gs: "gateways ?r = AList.update g \<lparr>gateway_issi = g, dmo_carrier = c, dm_ms_addresses = remdups as, last_seen = now\<rparr>
      (gateways (dm_deactivate g r))" by (simp add: dm_activate_def Let_def fold_add_route)
  have cov: "coverage_of ?r = (coverage_of (dm_deactivate g r))(g \<mapsto> (c, set as))"
    by (simp add: coverage_of_def gs update_conv' session_cover_def fun_eq_iff)
  have "index_of ?r h b \<longleftrightarrow> (h = g \<and> b \<in> set as) \<or> index_of (dm_deactivate g r) h b" for h b
    by (simp add: dm_activate_def Let_def fold_add_route index)
  then have "index_of ?r = serves (coverage_of ?r)"
    using d by (auto simp: cov gateways_ok_index serves_update serves_def fun_eq_iff)
  moreover have "index_tight ?r" using d by (simp add: dm_activate_def Let_def fold_add_route index gateways_ok_index)
  ultimately show ?thesis using d by (simp add: cov gateways_ok_index gs distinct_update)
qed

lemma edit_session_ok:
  assumes "gateways_ok r" and "\<And>s. set (dm_ms_addresses (f s)) = set (dm_ms_addresses s)"
  shows "gateways_ok (edit_session g f r)"
    and "coverage_of (edit_session g f r)
      = (coverage_of r)(g := map_option (\<lambda>s. session_cover (f s)) (map_of (gateways r) g))"
proof -
  show c: "coverage_of (edit_session g f r)
      = (coverage_of r)(g := map_option (\<lambda>s. session_cover (f s)) (map_of (gateways r) g))"
    by (simp add: coverage_of_def edit_session_facts option.map_comp comp_def fun_eq_iff)
  have "serves (coverage_of (edit_session g f r)) = serves (coverage_of r)"
    using assms(2) by (auto simp: c serves_update serves_def coverage_of_def session_cover_def fun_eq_iff split: option.split)
  then show "gateways_ok (edit_session g f r)"
    using assms(1) by (simp add: gateways_ok_index edit_session_facts)
qed

lemma dm_touch_ok:
  assumes "gateways_ok r"
  shows "gateways_ok (edit_session g (\<lambda>s. s\<lparr>last_seen := now\<rparr>) r)"
    and "coverage_of (edit_session g (\<lambda>s. s\<lparr>last_seen := now\<rparr>) r) = coverage_of r"
proof -
  let ?f = "\<lambda>s. s\<lparr>last_seen := now\<rparr>"
  show "gateways_ok (edit_session g ?f r)" by (rule edit_session_ok [OF assms]) simp
  have "session_cover (?f s) = session_cover s" for s by (simp add: session_cover_def)
  then show "coverage_of (edit_session g ?f r) = coverage_of r"
    using edit_session_ok(2) [OF assms, of ?f g] by (simp add: coverage_of_def fun_eq_iff)
qed

lemma gateways_apply_ok:
  assumes "gateways_ok r"
  shows "gateways_ok (gateway_apply e r) \<and> coverage_of (gateway_apply e r) = coverage_apply e (coverage_of r)"
proof (cases e)
  case (GwActivate g c as now)
  then show ?thesis using dm_activate_ok [OF assms] by simp
next
  case (GwDeactivate g)
  then show ?thesis using dm_deactivate_ok [OF assms] by simp
next
  case (GwReplace g as now)
  then show ?thesis using dm_activate_ok [OF assms]
    by (cases "map_of (gateways r) g") (simp_all add: replace_addresses_def coverage_of_def session_cover_def)
next
  case (GwTouch g now)
  then show ?thesis using dm_touch_ok [OF assms] by (simp add: dm_touch_def)
next
  case (GwCarrier g c now)
  let ?f = "\<lambda>s. s\<lparr>dmo_carrier := c, last_seen := now\<rparr>"
  have "gateways_ok (edit_session g ?f r)" and "coverage_of (edit_session g ?f r)
      = (coverage_of r)(g := map_option (\<lambda>s. session_cover (?f s)) (map_of (gateways r) g))"
    by (rule edit_session_ok [OF assms], simp)+
  moreover have "map_option (\<lambda>s. session_cover (?f s)) (map_of (gateways r) g) = map_option (\<lambda>(_, A). (c, A)) (coverage_of r g)"
    by (cases "map_of (gateways r) g") (simp_all add: coverage_of_def session_cover_def)
  ultimately show ?thesis by (simp add: GwCarrier update_carrier_def)
next
  case (GwAdd g as now)
  let ?r = "edit_session g (\<lambda>s. s\<lparr>last_seen := now\<rparr>) r"
  note r = dm_touch_ok [OF assms, of g now]
  show ?thesis
  proof (cases "dm_is_active r g")
    case True
    then obtain c A where A: "coverage_of r g = Some (c, A)"
      by (auto simp: dm_is_active_def coverage_of_def session_cover_def)
    show ?thesis using r True A
      by (auto simp: GwAdd add_addresses_def gateways_ok_index fold_add_addresses fun_eq_iff serves_update serves_def)
  next
    case False
    then have "(coverage_of r)(g := None) = coverage_of r" "coverage_of r g = None"
      by (simp_all add: dm_is_active_def coverage_of_def fun_eq_iff)
    with False assms show ?thesis by (simp add: GwAdd add_addresses_def)
  qed
next
  case (GwRemove g as now)
  let ?r = "edit_session g (\<lambda>s. s\<lparr>last_seen := now\<rparr>) r"
  note r = dm_touch_ok [OF assms, of g now]
  show ?thesis
  proof (cases "dm_is_active r g")
    case True
    then obtain c A where A: "coverage_of r g = Some (c, A)"
      by (auto simp: dm_is_active_def coverage_of_def session_cover_def)
    show ?thesis using r True A
      by (auto simp: GwRemove remove_addresses_def gateways_ok_index fold_remove_addresses fun_eq_iff serves_update serves_def)
  next
    case False
    then have "(coverage_of r)(g := None) = coverage_of r" "coverage_of r g = None"
      by (simp_all add: dm_is_active_def coverage_of_def fun_eq_iff)
    with False assms show ?thesis by (simp add: GwRemove remove_addresses_def)
  qed
qed

lemma gateways_run_ok:
  "gateways_ok r \<Longrightarrow> gateways_ok (fold gateway_apply es r) \<and> coverage_of (fold gateway_apply es r) = fold coverage_apply es (coverage_of r)"
  by (induction es arbitrary: r) (simp_all add: gateways_apply_ok)

lemma gateways_new_ok: "gateways_ok gateways_new" "coverage_of gateways_new = Map.empty"
  by (simp_all add: gateways_ok_def gateways_new_def gateways_for_def coverage_of_def serves_def fun_eq_iff)

text \<open>Resolving an address.\<close>

lemma gateway_for_ssi_iff:
  assumes "gateways_ok r"
  shows "gateway_for_ssi r ssi = None \<longleftrightarrow> \<not> (\<exists>g address. serves (coverage_of r) g address \<and> ra_ssi address = ssi)"
    and "gateway_for_ssi r ssi = Some (g, address) \<Longrightarrow> serves (coverage_of r) g address \<and> ra_ssi address = ssi
      \<and> (\<forall>h b. serves (coverage_of r) h b \<and> ra_ssi b = ssi \<longrightarrow> g \<le> h)"
proof -
  let ?all = "concat (map (\<lambda>(g, session). map (Pair g) (dm_ms_addresses session)) (gateways r))"
  let ?xs = "filter (\<lambda>(_, address). ra_ssi address = ssi) ?all"
  have d: "distinct (map fst (gateways r))" using assms by (simp add: gateways_ok_def)
  have m: "(h, b) \<in> set ?all \<longleftrightarrow> serves (coverage_of r) h b" for h b
  proof -
    have "(h, b) \<in> set ?all \<longleftrightarrow> (\<exists>session. (h, session) \<in> set (gateways r) \<and> b \<in> set (dm_ms_addresses session))" by auto
    also have "\<dots> \<longleftrightarrow> (\<exists>session. map_of (gateways r) h = Some session \<and> b \<in> set (dm_ms_addresses session))"
      using d by simp
    finally show ?thesis
      by (cases "map_of (gateways r) h") (simp_all add: serves_def coverage_of_def session_cover_def)
  qed
  have xs: "(h, b) \<in> set ?xs \<longleftrightarrow> serves (coverage_of r) h b \<and> ra_ssi b = ssi" for h b using m by auto
  show "gateway_for_ssi r ssi = None \<longleftrightarrow> \<not> (\<exists>g address. serves (coverage_of r) g address \<and> ra_ssi address = ssi)"
  proof (cases "?xs = []")
    case True
    then show ?thesis unfolding gateway_for_ssi_def True min_by_key_Nil xs [symmetric] by simp
  next
    case False
    then obtain h b where "(h, b) \<in> set ?xs" by (metis list.set_intros(1) neq_Nil_conv surj_pair)
    moreover obtain y where "min_by_key fst ?xs = Some y" using min_by_key_least [OF False] by blast
    ultimately show ?thesis unfolding gateway_for_ssi_def xs by auto
  qed
  assume s: "gateway_for_ssi r ssi = Some (g, address)"
  then have "?xs \<noteq> []" by (auto simp: gateway_for_ssi_def)
  from min_by_key_least [OF this, of fst] obtain y where "min_by_key fst ?xs = Some y" "y \<in> set ?xs" "\<forall>x\<in>set ?xs. fst y \<le> fst x" .
  moreover from this(1) s have "y = (g, address)" by (simp add: gateway_for_ssi_def)
  ultimately have "(g, address) \<in> set ?xs" and least: "\<forall>x\<in>set ?xs. g \<le> fst x" by simp_all
  moreover have "g \<le> h" if "(h, b) \<in> set ?xs" for h b using bspec [OF least that] by simp
  ultimately show "serves (coverage_of r) g address \<and> ra_ssi address = ssi
      \<and> (\<forall>h b. serves (coverage_of r) h b \<and> ra_ssi b = ssi \<longrightarrow> g \<le> h)"
    unfolding xs by blast
qed

section \<open>Properties\<close>

text \<open>C40: The routing index never drifts from the sessions: after any sequence of activations, address
  updates and deactivations, the registry's sessions are those of the abstract coverage, the index answers for
  every address exactly the gateways that advertise it and keeps no empty entry, and resolving an SSI finds the
  lowest-numbered gateway that serves a terminal of that number, and none only when no gateway does.\<close>

theorem gateway_index_refines:
  "(let r = fold gateway_apply es gateways_new; s = fold coverage_apply es Map.empty in
     coverage_of r = s
     \<and> (\<forall>address. set (gateways_for r address) = {g. serves s g address})
     \<and> (\<forall>address. map_of (routes r) address \<noteq> Some [])
     \<and> (\<forall>ssi. case gateway_for_ssi r ssi of
          None \<Rightarrow> (\<nexists>g address. serves s g address \<and> ra_ssi address = ssi)
        | Some (g, address) \<Rightarrow> serves s g address \<and> ra_ssi address = ssi
            \<and> g = (LEAST h. \<exists>b. serves s h b \<and> ra_ssi b = ssi)))"
proof -
  let ?r = "fold gateway_apply es gateways_new" and ?s = "fold coverage_apply es Map.empty"
  have ok: "gateways_ok ?r" and c: "coverage_of ?r = ?s" using gateways_run_ok [OF gateways_new_ok(1), of es] by (simp_all add: gateways_new_ok(2))
  have "g = (LEAST h. \<exists>b. serves ?s h b \<and> ra_ssi b = ssi)" if "gateway_for_ssi ?r ssi = Some (g, address)" for ssi g address
    using gateway_for_ssi_iff(2) [OF ok that] unfolding c by (intro Least_equality [symmetric]) blast+
  then show ?thesis
    using ok gateway_for_ssi_iff [OF ok] unfolding Let_def c
    by (auto simp: gateways_ok_def c split: option.split)
qed

end
