(* ===== verification/Fcs.thy ===== *)
theory Fcs
  imports Crc_Register Bit_Buffer
begin

text \<open>
  The frame check sequence of the logical link, \<^verbatim>\<open>crates/tetra-entities/src/llc/components/fcs.rs\<close>:
  a 32-bit check over the bits of a service data unit. \<open>fcs_of\<close> is the value as a function of the bits,
  \<open>fcs_ok\<close> what \<open>check_fcs\<close> decides of the unread bits of a buffer.
\<close>

section \<open>Definitions\<close>

definition FCS_POLY :: u32 where
  "FCS_POLY = 0x04C11DB7"

text \<open>The loop body: \<open>v\<close> is a byte, of which the lowest bit counts.\<close>

definition fcs_step :: "u8 \<Rightarrow> u32 \<Rightarrow> u32" where
  "fcs_step v crc =
     (let feedback = (v XOR ucast (drop_bit 31 crc)) AND 1; crc = push_bit 1 crc
      in if feedback \<noteq> 0 then crc XOR FCS_POLY else crc)"

text \<open>The register before the first bit. A shift by 32 is a shift by the amount modulo 32.\<close>

definition fcs_init :: "nat \<Rightarrow> u32" where
  "fcs_init len = (let crc = 0xFFFFFFFF in if len < 32 then push_bit ((32 - len) mod 32) crc else crc)"

definition compute_fcs :: "'b bitbuf_ops \<Rightarrow> 'b \<Rightarrow> nat \<Rightarrow> nat \<Rightarrow> u32 option" where
  "compute_fcs ops bitbuf start stop = do {
     guard (start \<le> stop);
     guard (stop \<le> bb_get_len ops bitbuf);
     let len = stop - start;
     crc \<leftarrow> for_loop [0..<len] (\<lambda>i crc. do {
       v \<leftarrow> bb_peek_bits_startoffset ops bitbuf (start + i) 1;
       Some (fcs_step (of_nat v) crc) }) (fcs_init len);
     Some (NOT crc) }"

definition check_fcs :: "'b bitbuf_ops \<Rightarrow> 'b \<Rightarrow> bool option" where
  "check_fcs ops bitbuf =
     (if bb_get_len_remaining ops bitbuf < 32 then Some False
      else do {
        fcs_computed \<leftarrow> compute_fcs ops bitbuf (bb_get_pos ops bitbuf) (bb_get_len ops bitbuf - 32);
        fcs_extracted \<leftarrow> bb_peek_bits_startoffset ops bitbuf (bb_get_len ops bitbuf - 32) 32;
        Some (fcs_computed = of_nat fcs_extracted) })"

section \<open>The check on bit strings\<close>

interpretation fcs32: crc_register FCS_POLY
  by unfold_locales (simp add: FCS_POLY_def)

definition fcs_of :: "bool list \<Rightarrow> u32" where
  "fcs_of bs = NOT (fold (crc_feed FCS_POLY) bs (fcs_init (length bs)))"

definition fcs_ok :: "bool list \<Rightarrow> bool" where
  "fcs_ok bs \<longleftrightarrow> 32 \<le> length bs \<and> drop (length bs - 32) bs = word_bits (fcs_of (take (length bs - 32) bs))"

lemma fcs_step_feed: "fcs_step (of_nat (bits_val [b])) c = crc_feed FCS_POLY b c"
proof -
  have "(of_nat (bits_val [b]) XOR ucast (drop_bit 31 c)) AND 1 = (of_bool (bit c 31 \<noteq> b) :: u8)"
    by (rule bit_word_eqI) (auto simp: bit_simps bits_val_def)
  then show ?thesis by (simp add: fcs_step_def crc_feed_def Let_def)
qed

lemma word_bits_val_bits: "word_bits w = val_bits 32 (unat (w :: u32))"
proof -
  have "val_bits n v = map (\<lambda>i. odd (v div 2 ^ (n - 1 - i))) [0..<n]" for n v
  proof (induction n arbitrary: v)
    case (Suc n)
    have "map (\<lambda>i. odd (v div 2 div 2 ^ (n - 1 - i))) [0..<n] = map (\<lambda>i. odd (v div 2 ^ (Suc n - 1 - i))) [0..<n]"
    proof (rule map_cong [OF refl])
      fix i assume "i \<in> set [0..<n]"
      then have "Suc n - 1 - i = Suc (n - 1 - i)" by auto
      then show "odd (v div 2 div 2 ^ (n - 1 - i)) = odd (v div 2 ^ (Suc n - 1 - i))" by (simp add: div_mult2_eq)
    qed
    then show ?case using Suc.IH [of "v div 2"] by (simp add: val_bits.simps)
  qed simp
  moreover have "bit w i = odd (unat w div 2 ^ i)" for i
    using bit_unsigned_iff [of w i, where ?'a = nat] by (simp add: bit_iff_odd)
  ultimately show ?thesis by (simp add: word_bits_def)
qed

context bit_buffer
begin

lemma peek_bit:
  assumes "view_wf (view b)" and "i < raw_end (view b) - raw_start (view b)"
  shows "bb_peek_bits_startoffset ops b i 1 = Some (bits_val [window (view b) ! i])"
proof -
  have "raw_start (view b) + i + 1 \<le> raw_end (view b)" using assms by (auto simp: view_wf_def)
  from peek_bits_startoffset [OF assms(1) _ this] this show ?thesis using assms
    by (simp add: window_def view_wf_def take_Suc_conv_app_nth hd_drop_conv_nth take_Suc)
qed

lemma compute_fcs_view:
  assumes wf: "view_wf (view b)" and le: "start \<le> stop" "stop \<le> raw_end (view b) - raw_start (view b)"
  shows "compute_fcs ops b start stop = Some (fcs_of (take (stop - start) (drop start (window (view b)))))"
proof -
  let ?w = "window (view b)"
  have step: "for_loop [0..<n] (\<lambda>i crc. do { v \<leftarrow> bb_peek_bits_startoffset ops b (start + i) 1; Some (fcs_step (of_nat v) crc) }) c
      = Some (fold (crc_feed FCS_POLY) (take n (drop start ?w)) c)" if "n \<le> stop - start" for n c
    using that
  proof (induction n)
    case (Suc n)
    have i: "start + n < raw_end (view b) - raw_start (view b)" using Suc.prems le by linarith
    then have "start + n < length ?w" using length_window [OF wf] by simp
    then show ?case using Suc peek_bit [OF wf i]
      by (simp add: for_loop_append fcs_step_feed take_Suc_conv_app_nth)
  qed simp
  have "length (take (stop - start) (drop start ?w)) = stop - start"
    using le length_window [OF wf] by simp
  then show ?thesis
    using le get_len [OF wf] step [of "stop - start"] by (simp add: compute_fcs_def fcs_of_def Let_def guard_simps)
qed

lemma check_fcs_view:
  assumes wf: "view_wf (view b)"
  shows "check_fcs ops b = Some (fcs_ok (remaining (view b)))"
proof (cases "raw_end (view b) - raw_pos (view b) < 32")
  case True
  then show ?thesis using get_len_remaining [OF wf] length_remaining [OF wf] by (simp add: check_fcs_def fcs_ok_def)
next
  case False
  let ?n = "raw_end (view b) - raw_start (view b)" and ?p = "raw_pos (view b) - raw_start (view b)"
  let ?r = "remaining (view b)"
  have r: "?r = drop ?p (window (view b))" and len: "length ?r = ?n - ?p" and pos: "?p \<le> ?n - 32" "?n - 32 \<le> ?n"
    using wf False by (auto simp: remaining_def window_def view_wf_def drop_take)
  have c: "compute_fcs ops b ?p (?n - 32) = Some (fcs_of (take (length ?r - 32) ?r))"
    using compute_fcs_view [OF wf pos] len unfolding r by (simp only: diff_right_commute [of ?n 32 ?p])
  have at: "raw_start (view b) + (?n - 32) + 32 = raw_end (view b)" using wf False by (auto simp: view_wf_def)
  have last: "take 32 (drop (raw_start (view b) + (?n - 32)) (raw_bits (view b))) = drop (length ?r - 32) ?r"
  proof -
    have "raw_start (view b) + (?n - 32) = raw_pos (view b) + (length ?r - 32)" using wf False len by (auto simp: view_wf_def)
    moreover have "raw_end (view b) - raw_pos (view b) - (length ?r - 32) = 32" using wf False len by (auto simp: view_wf_def)
    ultimately show ?thesis by (simp add: remaining_def drop_take add.commute)
  qed
  have p: "bb_peek_bits_startoffset ops b (?n - 32) 32 = Some (bits_val (drop (length ?r - 32) ?r))"
    using peek_bits_startoffset [OF wf, of 32 "?n - 32"] at last by simp
  have l32: "length (drop (length ?r - 32) ?r) = 32" using False len wf by (auto simp: view_wf_def)
  have "fcs_of xs = of_nat (bits_val ys) \<longleftrightarrow> ys = word_bits (fcs_of xs)" if "length ys = 32" for xs ys
  proof -
    have "bits_val ys < 2 ^ 32" using bits_val_less [of ys] that by simp
    then have "unat (of_nat (bits_val ys) :: u32) = bits_val ys" by (simp add: unat_of_nat)
    then have "word_bits (of_nat (bits_val ys) :: u32) = ys"
      using val_bits_bits_val [of ys] that by (simp add: word_bits_val_bits)
    then show ?thesis by (metis word_bits_inj)
  qed
  from this [OF l32] show ?thesis
    using False c p get_len [OF wf] get_pos [OF wf] get_len_remaining [OF wf] len wf
    by (simp add: check_fcs_def fcs_ok_def view_wf_def)
qed

end

section \<open>What the check detects\<close>

lemma fcs_ok_sent: "fcs_ok (bs @ word_bits (fcs_of bs))"
  by (simp add: fcs_ok_def)

text \<open>The check is a register that reaches the same residue on every good block.\<close>

lemma fcs_ok_residue:
  assumes "32 \<le> length bs"
  shows "fcs_ok bs \<longleftrightarrow>
    fold (crc_feed FCS_POLY) (map2 bxor bs (replicate (length bs - 32) False @ replicate 32 True)) (fcs_init (length bs - 32)) = 0"
proof -
  let ?xs = "take (length bs - 32) bs" and ?ys = "drop (length bs - 32) bs"
  let ?c = "fold (crc_feed FCS_POLY) ?xs (fcs_init (length bs - 32))"
  have l: "length ?xs = length bs - 32" "length ?ys = 32"
    using assms by (simp, simp only: length_drop diff_diff_cancel)
  have "map2 bxor bs (replicate (length bs - 32) False @ replicate 32 True)
      = map2 bxor (?xs @ ?ys) (replicate (length bs - 32) False @ replicate 32 True)" by simp
  also have "\<dots> = ?xs @ map2 bxor ?ys (replicate 32 True)"
    using map2_bxor_append [of ?xs "replicate (length bs - 32) False" ?ys] map2_bxor_False [OF l(1)] l by simp
  finally have "fold (crc_feed FCS_POLY) (map2 bxor bs (replicate (length bs - 32) False @ replicate 32 True)) (fcs_init (length bs - 32))
      = fold (crc_feed FCS_POLY) (map2 bxor ?ys (replicate 32 True)) ?c" by simp
  also have "\<dots> = 0 \<longleftrightarrow> map2 bxor ?ys (replicate 32 True) = word_bits ?c"
    by (rule fcs32.run_0_iff) (use l(2) in simp)
  also have "\<dots> \<longleftrightarrow> ?ys = word_bits (NOT ?c)"
  proof -
    have twice: "map2 bxor (map2 bxor zs (replicate 32 True)) (replicate 32 True) = zs" if "length zs = 32" for zs
      by (rule nth_equalityI) (use that in \<open>auto simp: bxor_def\<close>)
    have "length (word_bits ?c) = 32" by simp
    from twice [OF l(2)] twice [OF this] show ?thesis unfolding word_bits_NOT by auto
  qed
  finally show ?thesis using assms l by (simp add: fcs_ok_def fcs_of_def)
qed

lemma fcs_burst:
  assumes "fcs_ok blk" and "length w \<le> 32" and "True \<in> set w" and "length blk = a + length w + z"
  shows "\<not> fcs_ok (map2 bxor blk (burst a w z))"
proof -
  let ?m = "replicate (length blk - 32) False @ replicate 32 True"
  have l: "32 \<le> length blk" "length ?m = length blk" using assms(1) by (auto simp: fcs_ok_def)
  have "map2 bxor (map2 bxor blk (burst a w z)) ?m = map2 bxor (map2 bxor blk ?m) (burst a w z)"
    by (rule nth_equalityI) (use assms(4) l in \<open>auto simp: bxor_def nth_append\<close>)
  then have "fold (crc_feed FCS_POLY) (map2 bxor (map2 bxor blk (burst a w z)) ?m) (fcs_init (length blk - 32) XOR 0)
      = fold (crc_feed FCS_POLY) (map2 bxor blk ?m) (fcs_init (length blk - 32)) XOR fold (crc_feed FCS_POLY) (burst a w z) 0"
    using fcs32.run_xor [of "map2 bxor blk ?m" "burst a w z" "fcs_init (length blk - 32)" 0] l assms(4) by simp
  moreover have "fold (crc_feed FCS_POLY) (map2 bxor blk ?m) (fcs_init (length blk - 32)) = 0"
    using fcs_ok_residue [OF l(1)] assms(1) by blast
  moreover have "fold (crc_feed FCS_POLY) (burst a w z) 0 \<noteq> 0"
    by (rule fcs32.run_burst_nonzero) (use assms in auto)
  ultimately show ?thesis using fcs_ok_residue [of "map2 bxor blk (burst a w z)"] l assms(4) by simp
qed

end
