(* ===== verification/Llc_Pdus.thy ===== *)
theory Llc_Pdus
  imports Pdu_Codec
begin

text \<open>
  The PDUs of the logical link, of \<^verbatim>\<open>crates/tetra-pdus/src/llc\<close>: the PDU type, the basic-link headers
  (\<^verbatim>\<open>bl_ack.rs\<close>, \<^verbatim>\<open>bl_adata.rs\<close>, \<^verbatim>\<open>bl_data.rs\<close>, \<^verbatim>\<open>bl_udata.rs\<close>) and the PDUs of the acknowledged advanced
  link (\<^verbatim>\<open>al.rs\<close>). \<open>llc_read\<close> is the dispatch of a received PDU by its type, as the link entity makes it.
\<close>

declare val_bits.simps(2) [simp del] stmts.simps [simp del]

section \<open>PDU types\<close>

datatype llc_pdu_type = BlAdata | BlData | BlUdata | BlAck | BlAdataFcs | BlDataFcs | BlUdataFcs | BlAckFcs
    | AlSetup | AlDataAlFinal | AlAlUdataAlUfinal | AlAckAlRnr | AlReconnect | SuppLlcPdu | L2SigPdu | AlDisc

definition llc_pdu_type_of_raw :: "nat \<Rightarrow> llc_pdu_type option" where
  "llc_pdu_type_of_raw x = (if x = 0 then Some BlAdata else if x = 1 then Some BlData
     else if x = 2 then Some BlUdata else if x = 3 then Some BlAck else if x = 4 then Some BlAdataFcs
     else if x = 5 then Some BlDataFcs else if x = 6 then Some BlUdataFcs else if x = 7 then Some BlAckFcs
     else if x = 8 then Some AlSetup else if x = 9 then Some AlDataAlFinal
     else if x = 10 then Some AlAlUdataAlUfinal else if x = 11 then Some AlAckAlRnr
     else if x = 12 then Some AlReconnect else if x = 13 then Some SuppLlcPdu else if x = 14 then Some L2SigPdu
     else if x = 15 then Some AlDisc else None)"

fun llc_pdu_type_raw :: "llc_pdu_type \<Rightarrow> nat" where
  "llc_pdu_type_raw BlAdata = 0"
| "llc_pdu_type_raw BlData = 1"
| "llc_pdu_type_raw BlUdata = 2"
| "llc_pdu_type_raw BlAck = 3"
| "llc_pdu_type_raw BlAdataFcs = 4"
| "llc_pdu_type_raw BlDataFcs = 5"
| "llc_pdu_type_raw BlUdataFcs = 6"
| "llc_pdu_type_raw BlAckFcs = 7"
| "llc_pdu_type_raw AlSetup = 8"
| "llc_pdu_type_raw AlDataAlFinal = 9"
| "llc_pdu_type_raw AlAlUdataAlUfinal = 10"
| "llc_pdu_type_raw AlAckAlRnr = 11"
| "llc_pdu_type_raw AlReconnect = 12"
| "llc_pdu_type_raw SuppLlcPdu = 13"
| "llc_pdu_type_raw L2SigPdu = 14"
| "llc_pdu_type_raw AlDisc = 15"

interpretation llc_pdu_type: raw_enum llc_pdu_type_raw llc_pdu_type_of_raw 4
proof unfold_locales
  show "llc_pdu_type_of_raw (llc_pdu_type_raw x) = Some x" for x by (cases x) (simp_all add: llc_pdu_type_of_raw_def)
  show "llc_pdu_type_raw x < 2 ^ 4" for x by (cases x) simp_all
qed (auto simp: llc_pdu_type_of_raw_def split: if_splits)


section \<open>Basic link\<close>

record bl_ack =
  ba_has_fcs :: bool
  ba_nr :: nat

record bl_adata =
  bad_has_fcs :: bool
  bad_nr :: nat
  bad_ns :: nat

record bl_data =
  bd_has_fcs :: bool
  bd_ns :: nat

record bl_udata =
  bu_has_fcs :: bool

definition bl_ack_from_bitbuf :: "'b bitbuf_ops \<Rightarrow> ('b, bl_ack) parser" where
  "bl_ack_from_bitbuf ops =
     p_bind (p_field ops 1 ''llc_link_type'') (\<lambda>llc_link_type.
     expect_number ops llc_link_type 0 (
     p_bind (p_field ops 1 ''has_fcs'') (\<lambda>has_fcs.
     p_bind (p_field ops 2 ''bl_pdu_type'') (\<lambda>bl_pdu_type.
     expect_number ops bl_pdu_type 3 (
     p_bind (p_field ops 1 ''nr'') (\<lambda>nr.
     p_ret \<lparr>ba_has_fcs = (has_fcs \<noteq> 0), ba_nr = as_u8 nr\<rparr>))))))"

definition bl_ack_to_bitbuf :: "'b bitbuf_ops \<Rightarrow> bl_ack \<Rightarrow> 'b writer" where
  "bl_ack_to_bitbuf ops p = stmts [
     w_bits ops 0 1,
     w_flag ops (ba_has_fcs p),
     w_bits ops 3 2,
     w_bits ops (ba_nr p) 1]"

definition bl_adata_from_bitbuf :: "'b bitbuf_ops \<Rightarrow> ('b, bl_adata) parser" where
  "bl_adata_from_bitbuf ops =
     p_bind (p_field ops 1 ''llc_link_type'') (\<lambda>llc_link_type.
     expect_number ops llc_link_type 0 (
     p_bind (p_field ops 1 ''has_fcs'') (\<lambda>has_fcs.
     p_bind (p_field ops 2 ''bl_pdu_type'') (\<lambda>bl_pdu_type.
     expect_number ops bl_pdu_type 0 (
     p_bind (p_field ops 1 ''nr'') (\<lambda>nr.
     p_bind (p_field ops 1 ''ns'') (\<lambda>ns.
     p_ret \<lparr>bad_has_fcs = (has_fcs \<noteq> 0), bad_nr = as_u8 nr, bad_ns = as_u8 ns\<rparr>)))))))"

definition bl_adata_to_bitbuf :: "'b bitbuf_ops \<Rightarrow> bl_adata \<Rightarrow> 'b writer" where
  "bl_adata_to_bitbuf ops p = stmts [
     w_bits ops 0 1,
     w_flag ops (bad_has_fcs p),
     w_bits ops 0 2,
     w_bits ops (bad_nr p) 1,
     w_bits ops (bad_ns p) 1]"

definition bl_data_from_bitbuf :: "'b bitbuf_ops \<Rightarrow> ('b, bl_data) parser" where
  "bl_data_from_bitbuf ops =
     p_bind (p_field ops 1 ''llc_link_type'') (\<lambda>llc_link_type.
     expect_number ops llc_link_type 0 (
     p_bind (p_field ops 1 ''has_fcs'') (\<lambda>has_fcs.
     p_bind (p_field ops 2 ''bl_pdu_type'') (\<lambda>bl_pdu_type.
     expect_number ops bl_pdu_type 1 (
     p_bind (p_field ops 1 ''ns'') (\<lambda>ns.
     p_ret \<lparr>bd_has_fcs = (has_fcs \<noteq> 0), bd_ns = as_u8 ns\<rparr>))))))"

definition bl_data_to_bitbuf :: "'b bitbuf_ops \<Rightarrow> bl_data \<Rightarrow> 'b writer" where
  "bl_data_to_bitbuf ops p = stmts [
     w_bits ops 0 1,
     w_flag ops (bd_has_fcs p),
     w_bits ops 1 2,
     w_bits ops (bd_ns p) 1]"

definition bl_udata_from_bitbuf :: "'b bitbuf_ops \<Rightarrow> ('b, bl_udata) parser" where
  "bl_udata_from_bitbuf ops =
     p_bind (p_field ops 1 ''llc_link_type'') (\<lambda>llc_link_type.
     expect_number ops llc_link_type 0 (
     p_bind (p_field ops 1 ''has_fcs'') (\<lambda>has_fcs.
     p_bind (p_field ops 2 ''bl_pdu_type'') (\<lambda>bl_pdu_type.
     expect_number ops bl_pdu_type 2 (
     p_ret \<lparr>bu_has_fcs = (has_fcs \<noteq> 0)\<rparr>)))))"

definition bl_udata_to_bitbuf :: "'b bitbuf_ops \<Rightarrow> bl_udata \<Rightarrow> 'b writer" where
  "bl_udata_to_bitbuf ops p = stmts [
     w_bits ops 0 1,
     w_flag ops (bu_has_fcs p),
     w_bits ops 2 2]"

section \<open>Advanced link\<close>

definition expect_type :: "'b bitbuf_ops \<Rightarrow> llc_pdu_type \<Rightarrow> ('b, unit) parser" where
  "expect_type ops expected =
     p_bind (p_field ops 4 ''llc_pdu_type'') (\<lambda>found.
     if found \<noteq> llc_pdu_type_raw expected then p_fail (InvalidPduType (llc_pdu_type_raw expected) found)
     else p_ret ())"

definition write_slots :: "'b bitbuf_ops \<Rightarrow> nat \<Rightarrow> string \<Rightarrow> ('b, unit) parser" where
  "write_slots ops slots field =
     (if \<not> (1 \<le> slots \<and> slots \<le> 4) then p_fail (InvalidValue field slots) else w_try (w_bits ops (slots - 1) 2))"

record al_setup =
  as_acknowledged :: bool
  as_link_number :: nat
  as_maximum_sdu :: nat
  as_connection_width :: bool
  as_asymmetric :: bool
  as_uplink_slots :: "nat option"
  as_downlink_slots :: "nat option"
  as_throughput :: nat
  as_window_size :: nat
  as_sdu_retransmissions :: nat
  as_segment_retransmissions :: nat
  as_report :: nat

definition al_setup_from_bitbuf :: "'b bitbuf_ops \<Rightarrow> ('b, al_setup) parser" where
  "al_setup_from_bitbuf ops =
     p_bind (expect_type ops AlSetup) (\<lambda>_.
     p_bind (p_flag ops ''advanced_link_service'') (\<lambda>acknowledged.
     p_bind (p_field ops 2 ''advanced_link_number'') (\<lambda>link_number.
     p_bind (p_field ops 3 ''maximum_tl_sdu'') (\<lambda>maximum_sdu.
     p_bind (p_flag ops ''connection_width'') (\<lambda>connection_width.
     p_bind (p_flag ops ''advanced_link_symmetry'') (\<lambda>asymmetric.
     p_bind (p_opt connection_width (p_bind (p_field ops 2 ''uplink_timeslots'') (\<lambda>v. p_ret (as_u8 (as_u8 v + 1))))) (\<lambda>uplink_slots.
     p_bind (p_opt (connection_width \<and> asymmetric)
       (p_bind (p_field ops 2 ''downlink_timeslots'') (\<lambda>v. p_ret (as_u8 (as_u8 v + 1))))) (\<lambda>downlink_slots.
     p_bind (p_field ops 3 ''data_transfer_throughput'') (\<lambda>throughput.
     p_bind (p_field ops 2 ''tl_sdu_window'') (\<lambda>window_size.
     p_bind (p_field ops 3 ''tl_sdu_retransmissions'') (\<lambda>sdu_retransmissions.
     p_bind (p_field ops 4 ''segment_retransmissions'') (\<lambda>segment_retransmissions.
     p_bind (p_field ops 3 ''setup_report'') (\<lambda>report.
     if \<not> acknowledged \<or> as_u8 link_number > 3 \<or> as_u8 maximum_sdu > 7 \<or> as_u8 window_size = 0
     then p_fail (NotImplemented (Some ''non-TIP original advanced link''))
     else p_ret \<lparr>as_acknowledged = acknowledged, as_link_number = as_u8 link_number, as_maximum_sdu = as_u8 maximum_sdu,
       as_connection_width = connection_width, as_asymmetric = asymmetric, as_uplink_slots = uplink_slots,
       as_downlink_slots = downlink_slots, as_throughput = as_u8 throughput, as_window_size = as_u8 window_size,
       as_sdu_retransmissions = as_u8 sdu_retransmissions,
       as_segment_retransmissions = as_u8 segment_retransmissions, as_report = as_u8 report\<rparr>)))))))))))))"

definition al_setup_to_bitbuf :: "'b bitbuf_ops \<Rightarrow> al_setup \<Rightarrow> ('b, unit) parser" where
  "al_setup_to_bitbuf ops s =
     (if \<not> as_acknowledged s \<or> as_link_number s > 3 \<or> as_maximum_sdu s > 7 \<or> as_throughput s > 7
       \<or> \<not> (1 \<le> as_window_size s \<and> as_window_size s \<le> 3) \<or> as_sdu_retransmissions s > 7
       \<or> as_segment_retransmissions s > 15 \<or> as_report s > 7
       \<or> as_connection_width s \<noteq> (as_uplink_slots s \<noteq> None) \<or> as_asymmetric s \<noteq> (as_downlink_slots s \<noteq> None)
      then p_fail (Inconsistency ''al_setup'' ''invalid original advanced-link profile'')
      else
     p_bind (w_try (stmts [
       w_bits ops (llc_pdu_type_raw AlSetup) 4,
       w_bit ops True,
       w_bits ops (as_link_number s) 2,
       w_bits ops (as_maximum_sdu s) 3,
       w_bit ops (as_connection_width s),
       w_bit ops (as_asymmetric s)])) (\<lambda>_.
     p_bind (case as_uplink_slots s of Some slots \<Rightarrow> write_slots ops slots ''uplink_timeslots'' | None \<Rightarrow> p_ret ()) (\<lambda>_.
     p_bind (case as_downlink_slots s of Some slots \<Rightarrow> write_slots ops slots ''downlink_timeslots'' | None \<Rightarrow> p_ret ()) (\<lambda>_.
     w_try (stmts [
       w_bits ops (as_throughput s) 3,
       w_bits ops (as_window_size s) 2,
       w_bits ops (as_sdu_retransmissions s) 3,
       w_bits ops (as_segment_retransmissions s) 4,
       w_bits ops (as_report s) 3])))))"

record al_data_header =
  ad_final_segment :: bool
  ad_acknowledgement_requested :: bool
  ad_ns :: nat
  ad_segment :: nat

definition al_data_header_from_bitbuf :: "'b bitbuf_ops \<Rightarrow> ('b, al_data_header) parser" where
  "al_data_header_from_bitbuf ops =
     p_bind (expect_type ops AlDataAlFinal) (\<lambda>_.
     p_bind (p_flag ops ''final'') (\<lambda>final_segment.
     p_bind (p_flag ops ''acknowledgement_request'') (\<lambda>acknowledgement_requested.
     p_bind (p_field ops 3 ''ns'') (\<lambda>ns.
     p_bind (p_field ops 8 ''segment_sequence'') (\<lambda>segment.
     p_ret \<lparr>ad_final_segment = final_segment, ad_acknowledgement_requested = acknowledgement_requested,
       ad_ns = as_u8 ns, ad_segment = as_u8 segment\<rparr>)))))"

definition al_data_header_to_bitbuf :: "'b bitbuf_ops \<Rightarrow> al_data_header \<Rightarrow> ('b, unit) parser" where
  "al_data_header_to_bitbuf ops h =
     (if ad_ns h > 7 then p_fail (InvalidValue ''ns'' (ad_ns h))
      else w_try (stmts [
        w_bits ops (llc_pdu_type_raw AlDataAlFinal) 4,
        w_bit ops (ad_final_segment h),
        w_bit ops (ad_acknowledgement_requested h),
        w_bits ops (ad_ns h) 3,
        w_bits ops (ad_segment h) 8]))"

record al_ack_block =
  ab_nr :: nat
  ab_length :: nat
  ab_first_missing :: "nat option"
  ab_bitmap :: "bool list"

definition al_ack_block_from_bitbuf :: "'b bitbuf_ops \<Rightarrow> ('b, al_ack_block) parser" where
  "al_ack_block_from_bitbuf ops =
     p_bind (p_bind (p_field ops 3 ''nr'') (\<lambda>v. p_ret (as_u8 v))) (\<lambda>nr.
     p_bind (p_bind (p_field ops 6 ''acknowledgement_length'') (\<lambda>v. p_ret (as_u8 v))) (\<lambda>acknowledgement_length.
     p_bind (p_opt (1 \<le> acknowledgement_length \<and> acknowledgement_length \<le> 62)
       (p_bind (p_field ops 8 ''first_missing_segment'') (\<lambda>v. p_ret (as_u8 v)))) (\<lambda>first_missing_segment.
     p_bind (if 1 < acknowledgement_length \<and> acknowledgement_length < 63 then
         (\<lambda>b. if bb_get_len_remaining ops b < acknowledgement_length - 1
              then Some (Inl (BufferEnded (Some ''acknowledgement_bitmap'')), b)
              else p_replicate (acknowledgement_length - 1) (p_bit ops (BufferEnded (Some ''acknowledgement_bitmap''))) b)
       else p_ret []) (\<lambda>acknowledgement_bitmap.
     p_ret \<lparr>ab_nr = nr, ab_length = acknowledgement_length, ab_first_missing = first_missing_segment,
       ab_bitmap = acknowledgement_bitmap\<rparr>))))"

definition al_ack_block_bad :: "al_ack_block \<Rightarrow> bool" where
  "al_ack_block_bad k \<longleftrightarrow>
     (let expected_bitmap_len = (if 1 \<le> ab_length k \<and> ab_length k \<le> 62 then ab_length k - 1 else 0)
      in ab_nr k > 7 \<or> ab_length k > 63 \<or> (1 \<le> ab_length k \<and> ab_length k \<le> 62) \<noteq> (ab_first_missing k \<noteq> None)
         \<or> length (ab_bitmap k) \<noteq> expected_bitmap_len)"

definition al_ack_block_to_bitbuf :: "'b bitbuf_ops \<Rightarrow> al_ack_block \<Rightarrow> ('b, unit) parser" where
  "al_ack_block_to_bitbuf ops k =
     (if al_ack_block_bad k then p_fail (Inconsistency ''al_ack'' ''invalid acknowledgement block'')
      else w_try (stmts ([
        w_bits ops (ab_nr k) 3,
        w_bits ops (ab_length k) 6] @
        (case ab_first_missing k of
           Some segment \<Rightarrow> w_bits ops segment 8 # map (w_bit ops) (ab_bitmap k)
         | None \<Rightarrow> []))))"

record al_ack =
  aa_receiver_ready :: bool
  aa_blocks :: "al_ack_block list"

text \<open>The loop over the blocks, which go on to the end of the PDU.\<close>

function al_ack_loop :: "'b bitbuf_ops \<Rightarrow> al_ack_block list \<Rightarrow> ('b, al_ack_block list) parser" where
  "al_ack_loop ops blocks b =
     (if bb_get_len_remaining ops b = 0 then Some (Inr blocks, b)
      else if bb_get_len_remaining ops b < 9 then Some (Inl (BufferEnded (Some ''acknowledgement_block'')), b)
      else case al_ack_block_from_bitbuf ops b of
        None \<Rightarrow> None
      | Some (Inl e, b) \<Rightarrow> Some (Inl e, b)
      | Some (Inr block, b) \<Rightarrow>
          (if length (blocks @ [block]) > 3
           then Some (Inl (InvalidValue ''acknowledgement_blocks'' (as_u8 (length (blocks @ [block])))), b)
           else al_ack_loop ops (blocks @ [block]) b))"
  by auto

termination
  by (relation "measure (\<lambda>(ops, blocks, b). 4 - length blocks)") auto

declare al_ack_loop.simps [simp del]

definition al_ack_from_bitbuf :: "'b bitbuf_ops \<Rightarrow> ('b, al_ack) parser" where
  "al_ack_from_bitbuf ops =
     p_bind (expect_type ops AlAckAlRnr) (\<lambda>_.
     p_bind (p_flag ops ''flow_control'') (\<lambda>receiver_ready.
     p_bind (al_ack_loop ops []) (\<lambda>blocks.
     if blocks = [] then p_fail (BufferEnded (Some ''first_acknowledgement_block''))
     else p_ret \<lparr>aa_receiver_ready = receiver_ready, aa_blocks = blocks\<rparr>)))"

fun p_each :: "('a \<Rightarrow> ('b, unit) parser) \<Rightarrow> 'a list \<Rightarrow> ('b, unit) parser" where
  "p_each w [] = p_ret ()"
| "p_each w (x # xs) = p_bind (w x) (\<lambda>_. p_each w xs)"

definition al_ack_to_bitbuf :: "'b bitbuf_ops \<Rightarrow> al_ack \<Rightarrow> ('b, unit) parser" where
  "al_ack_to_bitbuf ops a =
     (if aa_blocks a = [] \<or> length (aa_blocks a) > 3
      then p_fail (Inconsistency ''al_ack'' ''original advanced link requires one to three acknowledgement blocks'')
      else p_bind (w_try (stmts [
        w_bits ops (llc_pdu_type_raw AlAckAlRnr) 4,
        w_bit ops (aa_receiver_ready a)])) (\<lambda>_.
      p_each (al_ack_block_to_bitbuf ops) (aa_blocks a)))"

record al_reconnect =
  ar_acknowledged :: bool
  ar_link_number :: nat
  ar_report :: nat

definition al_reconnect_from_bitbuf :: "'b bitbuf_ops \<Rightarrow> ('b, al_reconnect) parser" where
  "al_reconnect_from_bitbuf ops =
     p_bind (expect_type ops AlReconnect) (\<lambda>_.
     p_bind (p_flag ops ''advanced_link_service'') (\<lambda>acknowledged.
     p_bind (p_field ops 2 ''advanced_link_number'') (\<lambda>link_number.
     p_bind (p_field ops 2 ''reconnect_report'') (\<lambda>report.
     if \<not> acknowledged \<or> as_u8 link_number > 3 \<or> as_u8 report > 2
     then p_fail (NotImplemented (Some ''unsupported advanced-link reconnect profile''))
     else p_ret \<lparr>ar_acknowledged = acknowledged, ar_link_number = as_u8 link_number, ar_report = as_u8 report\<rparr>))))"

definition al_reconnect_to_bitbuf :: "'b bitbuf_ops \<Rightarrow> al_reconnect \<Rightarrow> ('b, unit) parser" where
  "al_reconnect_to_bitbuf ops r =
     (if \<not> ar_acknowledged r \<or> ar_link_number r > 3 \<or> ar_report r > 2
      then p_fail (Inconsistency ''al_reconnect'' ''invalid acknowledged advanced-link reconnect'')
      else w_try (stmts [
        w_bits ops (llc_pdu_type_raw AlReconnect) 4,
        w_bit ops True,
        w_bits ops (ar_link_number r) 2,
        w_bits ops (ar_report r) 2]))"

record al_disconnect =
  adi_acknowledged :: bool
  adi_link_number :: nat
  adi_report :: nat

definition al_disconnect_from_bitbuf :: "'b bitbuf_ops \<Rightarrow> ('b, al_disconnect) parser" where
  "al_disconnect_from_bitbuf ops =
     p_bind (expect_type ops AlDisc) (\<lambda>_.
     p_bind (p_flag ops ''advanced_link_service'') (\<lambda>acknowledged.
     p_bind (p_field ops 2 ''advanced_link_number'') (\<lambda>link_number.
     p_bind (p_field ops 3 ''disconnect_report'') (\<lambda>report.
     p_ret \<lparr>adi_acknowledged = acknowledged, adi_link_number = as_u8 link_number, adi_report = as_u8 report\<rparr>))))"

definition al_disconnect_to_bitbuf :: "'b bitbuf_ops \<Rightarrow> al_disconnect \<Rightarrow> 'b writer" where
  "al_disconnect_to_bitbuf ops d = stmts [
     w_bits ops (llc_pdu_type_raw AlDisc) 4,
     w_bit ops (adi_acknowledged d),
     w_bits ops (adi_link_number d) 2,
     w_bits ops (adi_report d) 3]"

section \<open>Dispatch\<close>

datatype llc_pdu =
    PBlAck bl_ack
  | PBlAdata bl_adata
  | PBlData bl_data
  | PBlUdata bl_udata
  | PAlSetup al_setup
  | PAlData al_data_header
  | PAlAck al_ack
  | PAlReconnect al_reconnect
  | PAlDisconnect al_disconnect
  | PUnhandled llc_pdu_type

definition p_map :: "('a \<Rightarrow> 'c) \<Rightarrow> ('b, 'a) parser \<Rightarrow> ('b, 'c) parser" where
  "p_map f p = p_bind p (\<lambda>x. p_ret (f x))"

text \<open>The parser that the handler of a PDU type starts with.\<close>

fun llc_parser :: "'b bitbuf_ops \<Rightarrow> llc_pdu_type \<Rightarrow> ('b, llc_pdu) parser" where
  "llc_parser ops BlAdata = p_map PBlAdata (bl_adata_from_bitbuf ops)"
| "llc_parser ops BlAdataFcs = p_map PBlAdata (bl_adata_from_bitbuf ops)"
| "llc_parser ops BlData = p_map PBlData (bl_data_from_bitbuf ops)"
| "llc_parser ops BlDataFcs = p_map PBlData (bl_data_from_bitbuf ops)"
| "llc_parser ops BlAck = p_map PBlAck (bl_ack_from_bitbuf ops)"
| "llc_parser ops BlAckFcs = p_map PBlAck (bl_ack_from_bitbuf ops)"
| "llc_parser ops BlUdata = p_map PBlUdata (bl_udata_from_bitbuf ops)"
| "llc_parser ops BlUdataFcs = p_map PBlUdata (bl_udata_from_bitbuf ops)"
| "llc_parser ops AlSetup = p_map PAlSetup (al_setup_from_bitbuf ops)"
| "llc_parser ops AlDataAlFinal = p_map PAlData (al_data_header_from_bitbuf ops)"
| "llc_parser ops AlAckAlRnr = p_map PAlAck (al_ack_from_bitbuf ops)"
| "llc_parser ops AlReconnect = p_map PAlReconnect (al_reconnect_from_bitbuf ops)"
| "llc_parser ops AlDisc = p_map PAlDisconnect (al_disconnect_from_bitbuf ops)"
| "llc_parser ops AlAlUdataAlUfinal = p_ret (PUnhandled AlAlUdataAlUfinal)"
| "llc_parser ops SuppLlcPdu = p_ret (PUnhandled SuppLlcPdu)"
| "llc_parser ops L2SigPdu = p_ret (PUnhandled L2SigPdu)"

text \<open>A PDU too short for a type is dropped before dispatch: here an error.\<close>

definition llc_read :: "'b bitbuf_ops \<Rightarrow> ('b, llc_pdu) parser" where
  "llc_read ops b = (case bb_peek_bits ops b 4 of
       None \<Rightarrow> Some (Inl (BufferEnded None), b)
     | Some bits \<Rightarrow> (case llc_pdu_type_of_raw bits of
         None \<Rightarrow> Some (Inl (InvalidValue ''llc_pdu_type'' bits), b)
       | Some pdu_type \<Rightarrow> llc_parser ops pdu_type b))"

definition llc_write :: "'b bitbuf_ops \<Rightarrow> llc_pdu \<Rightarrow> ('b, unit) parser" where
  "llc_write ops p = (case p of
       PBlAck x \<Rightarrow> w_try (bl_ack_to_bitbuf ops x)
     | PBlAdata x \<Rightarrow> w_try (bl_adata_to_bitbuf ops x)
     | PBlData x \<Rightarrow> w_try (bl_data_to_bitbuf ops x)
     | PBlUdata x \<Rightarrow> w_try (bl_udata_to_bitbuf ops x)
     | PAlSetup x \<Rightarrow> al_setup_to_bitbuf ops x
     | PAlData x \<Rightarrow> al_data_header_to_bitbuf ops x
     | PAlAck x \<Rightarrow> al_ack_to_bitbuf ops x
     | PAlReconnect x \<Rightarrow> al_reconnect_to_bitbuf ops x
     | PAlDisconnect x \<Rightarrow> w_try (al_disconnect_to_bitbuf ops x)
     | PUnhandled _ \<Rightarrow> p_panic)"

section \<open>Wire formats\<close>

definition bl_ack_bits :: "bl_ack \<Rightarrow> bool list" where
  "bl_ack_bits p = False # ba_has_fcs p # val_bits 2 3 @ val_bits 1 (ba_nr p)"

definition bl_adata_bits :: "bl_adata \<Rightarrow> bool list" where
  "bl_adata_bits p = False # bad_has_fcs p # val_bits 2 0 @ val_bits 1 (bad_nr p) @ val_bits 1 (bad_ns p)"

definition bl_data_bits :: "bl_data \<Rightarrow> bool list" where
  "bl_data_bits p = False # bd_has_fcs p # val_bits 2 1 @ val_bits 1 (bd_ns p)"

definition bl_udata_bits :: "bl_udata \<Rightarrow> bool list" where
  "bl_udata_bits p = False # bu_has_fcs p # val_bits 2 2"

definition type_bits :: "llc_pdu_type \<Rightarrow> bool list" where
  "type_bits t = val_bits 4 (llc_pdu_type_raw t)"

definition slots_bits :: "nat option \<Rightarrow> bool list" where
  "slots_bits x = (case x of None \<Rightarrow> [] | Some slots \<Rightarrow> val_bits 2 (slots - 1))"

definition al_setup_bits :: "al_setup \<Rightarrow> bool list" where
  "al_setup_bits s = type_bits AlSetup @ True # val_bits 2 (as_link_number s) @ val_bits 3 (as_maximum_sdu s)
     @ as_connection_width s # as_asymmetric s # slots_bits (as_uplink_slots s) @ slots_bits (as_downlink_slots s)
     @ val_bits 3 (as_throughput s) @ val_bits 2 (as_window_size s) @ val_bits 3 (as_sdu_retransmissions s)
     @ val_bits 4 (as_segment_retransmissions s) @ val_bits 3 (as_report s)"

definition al_data_header_bits :: "al_data_header \<Rightarrow> bool list" where
  "al_data_header_bits h = type_bits AlDataAlFinal @ ad_final_segment h # ad_acknowledgement_requested h
     # val_bits 3 (ad_ns h) @ val_bits 8 (ad_segment h)"

definition al_ack_block_bits :: "al_ack_block \<Rightarrow> bool list" where
  "al_ack_block_bits k = val_bits 3 (ab_nr k) @ val_bits 6 (ab_length k)
     @ (case ab_first_missing k of None \<Rightarrow> [] | Some segment \<Rightarrow> val_bits 8 segment @ ab_bitmap k)"

definition al_ack_bits :: "al_ack \<Rightarrow> bool list" where
  "al_ack_bits a = type_bits AlAckAlRnr @ aa_receiver_ready a # concat (map al_ack_block_bits (aa_blocks a))"

definition al_reconnect_bits :: "al_reconnect \<Rightarrow> bool list" where
  "al_reconnect_bits r = type_bits AlReconnect @ True # val_bits 2 (ar_link_number r) @ val_bits 2 (ar_report r)"

definition al_disconnect_bits :: "al_disconnect \<Rightarrow> bool list" where
  "al_disconnect_bits d = type_bits AlDisc @ adi_acknowledged d # val_bits 2 (adi_link_number d) @ val_bits 3 (adi_report d)"

fun llc_bits :: "llc_pdu \<Rightarrow> bool list" where
  "llc_bits (PBlAck x) = bl_ack_bits x"
| "llc_bits (PBlAdata x) = bl_adata_bits x"
| "llc_bits (PBlData x) = bl_data_bits x"
| "llc_bits (PBlUdata x) = bl_udata_bits x"
| "llc_bits (PAlSetup x) = al_setup_bits x"
| "llc_bits (PAlData x) = al_data_header_bits x"
| "llc_bits (PAlAck x) = al_ack_bits x"
| "llc_bits (PAlReconnect x) = al_reconnect_bits x"
| "llc_bits (PAlDisconnect x) = al_disconnect_bits x"
| "llc_bits (PUnhandled _) = []"

text \<open>What the fields can carry.\<close>

definition al_setup_ok :: "al_setup \<Rightarrow> bool" where
  "al_setup_ok s \<longleftrightarrow> as_acknowledged s \<and> as_link_number s \<le> 3 \<and> as_maximum_sdu s \<le> 7 \<and> as_throughput s \<le> 7
     \<and> 1 \<le> as_window_size s \<and> as_window_size s \<le> 3 \<and> as_sdu_retransmissions s \<le> 7 \<and> as_segment_retransmissions s \<le> 15
     \<and> as_report s \<le> 7 \<and> as_connection_width s = (as_uplink_slots s \<noteq> None)
     \<and> as_asymmetric s = (as_downlink_slots s \<noteq> None) \<and> (as_asymmetric s \<longrightarrow> as_connection_width s)
     \<and> (\<forall>v. as_uplink_slots s = Some v \<longrightarrow> 1 \<le> v \<and> v \<le> 4) \<and> (\<forall>v. as_downlink_slots s = Some v \<longrightarrow> 1 \<le> v \<and> v \<le> 4)"

definition al_ack_block_ok :: "al_ack_block \<Rightarrow> bool" where
  "al_ack_block_ok k \<longleftrightarrow> \<not> al_ack_block_bad k \<and> (\<forall>v. ab_first_missing k = Some v \<longrightarrow> v < 256)"

fun llc_ok :: "llc_pdu \<Rightarrow> bool" where
  "llc_ok (PBlAck x) = (ba_nr x < 2)"
| "llc_ok (PBlAdata x) = (bad_nr x < 2 \<and> bad_ns x < 2)"
| "llc_ok (PBlData x) = (bd_ns x < 2)"
| "llc_ok (PBlUdata x) = True"
| "llc_ok (PAlSetup x) = al_setup_ok x"
| "llc_ok (PAlData x) = (ad_ns x < 8 \<and> ad_segment x < 256)"
| "llc_ok (PAlAck x) = (1 \<le> length (aa_blocks x) \<and> length (aa_blocks x) \<le> 3 \<and> (\<forall>k \<in> set (aa_blocks x). al_ack_block_ok k))"
| "llc_ok (PAlReconnect x) = (ar_acknowledged x \<and> ar_link_number x \<le> 3 \<and> ar_report x \<le> 2)"
| "llc_ok (PAlDisconnect x) = (adi_link_number x < 4 \<and> adi_report x < 8)"
| "llc_ok (PUnhandled _) = False"

text \<open>The type in front of a PDU selects its parser.\<close>

fun llc_type :: "llc_pdu \<Rightarrow> llc_pdu_type" where
  "llc_type (PBlAck x) = (if ba_has_fcs x then BlAckFcs else BlAck)"
| "llc_type (PBlAdata x) = (if bad_has_fcs x then BlAdataFcs else BlAdata)"
| "llc_type (PBlData x) = (if bd_has_fcs x then BlDataFcs else BlData)"
| "llc_type (PBlUdata x) = (if bu_has_fcs x then BlUdataFcs else BlUdata)"
| "llc_type (PAlSetup x) = AlSetup"
| "llc_type (PAlData x) = AlDataAlFinal"
| "llc_type (PAlAck x) = AlAckAlRnr"
| "llc_type (PAlReconnect x) = AlReconnect"
| "llc_type (PAlDisconnect x) = AlDisc"
| "llc_type (PUnhandled t) = t"

lemma type_raw_less: "llc_pdu_type_raw t < 16"
  using llc_pdu_type.raw_fits [of t] by simp

lemma length_type_bits [simp]: "length (type_bits t) = 4"
  by (simp add: type_bits_def)

context bit_buffer
begin

lemmas emit_bit_intros = emit_intros emits_Cons_w_bit emits_w_bit emits_w_bit_list

lemma parses_expect_type: "parses (k ()) s y \<Longrightarrow> parses (p_bind (expect_type ops t) k) (type_bits t @ s) y"
  using type_raw_less [of t] by (auto simp: expect_type_def type_bits_def intro!: parse_intros)

lemma parses_bl:
  "ba_nr a < 2 \<Longrightarrow> parses (bl_ack_from_bitbuf ops) (bl_ack_bits a) a"
  "bad_nr ad < 2 \<Longrightarrow> bad_ns ad < 2 \<Longrightarrow> parses (bl_adata_from_bitbuf ops) (bl_adata_bits ad) ad"
  "bd_ns d < 2 \<Longrightarrow> parses (bl_data_from_bitbuf ops) (bl_data_bits d) d"
  "parses (bl_udata_from_bitbuf ops) (bl_udata_bits u) u"
proof -
  have flag: "parses (p_bind (p_field ops (Suc 0) f) k) (x # s) y" if "parses (k (of_bool x)) s y" for f k x s and y :: 'z
    using that parses_bind_bit by (cases x) auto
  show "ba_nr a < 2 \<Longrightarrow> parses (bl_ack_from_bitbuf ops) (bl_ack_bits a) a"
    by (auto simp: bl_ack_from_bitbuf_def bl_ack_bits_def intro!: parses_bind_bit flag parse_intros)
  show "bad_nr ad < 2 \<Longrightarrow> bad_ns ad < 2 \<Longrightarrow> parses (bl_adata_from_bitbuf ops) (bl_adata_bits ad) ad"
    by (auto simp: bl_adata_from_bitbuf_def bl_adata_bits_def intro!: parses_bind_bit flag parse_intros)
  show "bd_ns d < 2 \<Longrightarrow> parses (bl_data_from_bitbuf ops) (bl_data_bits d) d"
    by (auto simp: bl_data_from_bitbuf_def bl_data_bits_def intro!: parses_bind_bit flag parse_intros)
  show "parses (bl_udata_from_bitbuf ops) (bl_udata_bits u) u"
    by (auto simp: bl_udata_from_bitbuf_def bl_udata_bits_def intro!: parses_bind_bit flag parse_intros)
qed

lemma parses_al_setup:
  assumes "al_setup_ok s"
  shows "parses (al_setup_from_bitbuf ops) (al_setup_bits s) s"
proof -
  have slots: "parses (p_opt c (p_bind (p_field ops 2 f) (\<lambda>v. p_ret (as_u8 (as_u8 v + 1))))) (slots_bits x) x"
    if "c = (x \<noteq> None)" "\<forall>v. x = Some v \<longrightarrow> 1 \<le> v \<and> v \<le> 4" for c f and x :: "nat option"
  proof (cases x)
    case (Some v)
    with that have "1 \<le> v" "v \<le> 4" by auto
    then show ?thesis using Some that(1)
      by (auto simp: slots_bits_def simp del: p_opt_cases intro!: parses_opt_Some parses_number)
  qed (use that in \<open>auto simp: slots_bits_def\<close>)
  note ok = assms [unfolded al_setup_ok_def]
  show ?thesis
    unfolding al_setup_from_bitbuf_def al_setup_bits_def
    by (rule parses_expect_type, rule parses_bind_flag, rule parses_bind_field [rotated 2], rule parses_bind_field [rotated 2],
        rule parses_bind_flag, rule parses_bind_flag, rule parses_bind [OF slots], (use ok in auto)[2],
        rule parses_bind [OF slots], (use ok in auto)[2])
       (use ok in \<open>auto intro!: parse_intros\<close>)
qed

lemma parses_al_simple:
  "ad_ns h < 8 \<Longrightarrow> ad_segment h < 256 \<Longrightarrow> parses (al_data_header_from_bitbuf ops) (al_data_header_bits h) h"
  "ar_acknowledged r \<Longrightarrow> ar_link_number r \<le> 3 \<Longrightarrow> ar_report r \<le> 2 \<Longrightarrow> parses (al_reconnect_from_bitbuf ops) (al_reconnect_bits r) r"
  "adi_link_number d < 4 \<Longrightarrow> adi_report d < 8 \<Longrightarrow> parses (al_disconnect_from_bitbuf ops) (al_disconnect_bits d) d"
  by (auto simp: al_data_header_from_bitbuf_def al_data_header_bits_def al_reconnect_from_bitbuf_def al_reconnect_bits_def
      al_disconnect_from_bitbuf_def al_disconnect_bits_def intro!: parses_expect_type parse_intros)

lemma parses_al_ack_block:
  assumes "al_ack_block_ok k"
  shows "parses (al_ack_block_from_bitbuf ops) (al_ack_block_bits k) k"
proof -
  note ok = assms [unfolded al_ack_block_ok_def al_ack_block_bad_def Let_def]
  show ?thesis
  proof (cases "ab_first_missing k")
    case None
    with ok have "ab_length k = 0 \<or> ab_length k = 63" "ab_bitmap k = []" by auto
    with ok None show ?thesis
      by (auto simp: al_ack_block_from_bitbuf_def al_ack_block_bits_def intro!: parse_intros)
  next
    case (Some v)
    with ok have l: "1 \<le> ab_length k" "ab_length k \<le> 62" "length (ab_bitmap k) = ab_length k - 1" "v < 256" "ab_nr k < 8" by auto
    let ?e = "BufferEnded (Some ''acknowledgement_bitmap'')"
    have bm: "parses (if 1 < ab_length k \<and> ab_length k < 63 then
         (\<lambda>b. if bb_get_len_remaining ops b < ab_length k - 1 then Some (Inl ?e, b)
              else p_replicate (ab_length k - 1) (p_bit ops ?e) b) else p_ret []) (ab_bitmap k) (ab_bitmap k)"
    proof (cases "1 < ab_length k")
      case True
      have "parses (\<lambda>b. if bb_get_len_remaining ops b < ab_length k - 1 then Some (Inl ?e, b)
              else p_replicate (ab_length k - 1) (p_bit ops ?e) b) (ab_bitmap k) (ab_bitmap k)"
        unfolding parses_def
      proof (intro allI impI)
        fix b t
        assume b: "view_wf (view b) \<and> remaining (view b) = ab_bitmap k @ t"
        then have "\<not> bb_get_len_remaining ops b < ab_length k - 1"
          using length_remaining [of "view b"] get_len_remaining [of b] l(3) by simp
        with parses_replicate [of "ab_bitmap k" ?e] b l(3)
        show "\<exists>b'. (if bb_get_len_remaining ops b < ab_length k - 1 then Some (Inl ?e, b)
              else p_replicate (ab_length k - 1) (p_bit ops ?e) b) = Some (Inr (ab_bitmap k), b')
            \<and> view b' = advance (view b) (length (ab_bitmap k))"
          by (simp add: parses_def)
      qed
      with True l(2) show ?thesis by simp
    qed (use l in auto)
    have "parses (al_ack_block_from_bitbuf ops)
        (val_bits 3 (ab_nr k) @ val_bits 6 (ab_length k) @ val_bits 8 v @ ab_bitmap k @ []) k"
      unfolding al_ack_block_from_bitbuf_def
      by (rule parses_bind [where x = "ab_nr k"], (use l in \<open>auto intro!: parses_number\<close>)[1],
          rule parses_bind [where x = "ab_length k"], (use l in \<open>auto intro!: parses_number\<close>)[1],
          rule parses_bind [where x = "Some v"], (use l in \<open>auto simp del: p_opt_cases intro!: parses_opt_Some parses_number\<close>)[1],
          rule parses_bind [OF bm]) (use Some in \<open>auto intro!: parses_return\<close>)
    then show ?thesis using Some by (simp add: al_ack_block_bits_def)
  qed
qed

lemma length_al_ack_block_bits: "9 \<le> length (al_ack_block_bits k)"
  by (simp add: al_ack_block_bits_def)

lemma al_ack_loop_reads:
  assumes "\<forall>k \<in> set ks. al_ack_block_ok k" and "length done + length ks \<le> 3"
    and "view_wf (view b)" and "remaining (view b) = concat (map al_ack_block_bits ks)"
  shows "\<exists>b'. al_ack_loop ops done b = Some (Inr (done @ ks), b') \<and> view b' = advance (view b) (length (remaining (view b)))"
  using assms
proof (induction ks arbitrary: "done" b)
  case Nil
  then have "bb_get_len_remaining ops b = 0" using get_len_remaining [of b] length_remaining [of "view b"] by simp
  then show ?case using Nil by (auto simp: al_ack_loop.simps)
next
  case (Cons k ks)
  have r: "remaining (view b) = al_ack_block_bits k @ concat (map al_ack_block_bits ks)" using Cons.prems by simp
  have "bb_get_len_remaining ops b = length (remaining (view b))"
    using get_len_remaining [OF Cons.prems(3)] length_remaining [OF Cons.prems(3)] by simp
  then have "9 \<le> bb_get_len_remaining ops b" using length_al_ack_block_bits [of k] unfolding r length_append by linarith
  then have n: "\<not> bb_get_len_remaining ops b < 9" "bb_get_len_remaining ops b \<noteq> 0" by simp_all
  from parses_Some [OF parses_al_ack_block Cons.prems(3) r] Cons.prems(1) obtain b1 where
    b1: "al_ack_block_from_bitbuf ops b = Some (Inr k, b1)" "view b1 = advance (view b) (length (al_ack_block_bits k))" by auto
  have wf1: "view_wf (view b1)" "remaining (view b1) = concat (map al_ack_block_bits ks)"
    using remaining_prefix(3,4) [OF Cons.prems(3) r] b1(2) by simp_all
  from Cons.IH [of "done @ [k]" b1] wf1 Cons.prems obtain b2 where
    "al_ack_loop ops (done @ [k]) b1 = Some (Inr ((done @ [k]) @ ks), b2)" "view b2 = advance (view b1) (length (remaining (view b1)))"
    by auto
  moreover have "al_ack_loop ops done b = al_ack_loop ops (done @ [k]) b1"
    using n b1(1) Cons.prems(2) by (simp add: al_ack_loop.simps [of ops "done" b])
  ultimately show ?case using b1(2) wf1 r by simp
qed

lemma al_ack_reads:
  assumes "llc_ok (PAlAck a)" and "view_wf (view b)" and "remaining (view b) = al_ack_bits a"
  shows "\<exists>b'. al_ack_from_bitbuf ops b = Some (Inr a, b') \<and> view b' = advance (view b) (length (al_ack_bits a))"
proof -
  let ?t = "concat (map al_ack_block_bits (aa_blocks a))"
  have p: "parses (p_bind (expect_type ops AlAckAlRnr) (\<lambda>_. p_flag ops f)) (type_bits AlAckAlRnr @ [aa_receiver_ready a]) (aa_receiver_ready a)" for f
    by (rule parses_expect_type [OF parses_flag])
  have r: "remaining (view b) = (type_bits AlAckAlRnr @ [aa_receiver_ready a]) @ ?t" using assms(3) by (simp add: al_ack_bits_def)
  from parses_Some [OF p assms(2) r] obtain b1 where
    b1: "p_bind (expect_type ops AlAckAlRnr) (\<lambda>_. p_flag ops ''flow_control'') b = Some (Inr (aa_receiver_ready a), b1)"
      "view b1 = advance (view b) 5" by auto
  have wf1: "view_wf (view b1)" "remaining (view b1) = ?t" using remaining_prefix(3,4) [OF assms(2) r] b1(2) by simp_all
  from al_ack_loop_reads [of "aa_blocks a" "[]" b1] wf1 assms(1) obtain b2 where
    b2: "al_ack_loop ops [] b1 = Some (Inr (aa_blocks a), b2)" "view b2 = advance (view b1) (length ?t)" by auto
  have split: "al_ack_from_bitbuf ops = p_bind (p_bind (expect_type ops AlAckAlRnr) (\<lambda>_. p_flag ops ''flow_control''))
      (\<lambda>receiver_ready. p_bind (al_ack_loop ops []) (\<lambda>blocks. if blocks = [] then p_fail (BufferEnded (Some ''first_acknowledgement_block''))
        else p_ret \<lparr>aa_receiver_ready = receiver_ready, aa_blocks = blocks\<rparr>))"
    by (simp add: al_ack_from_bitbuf_def)
  have "aa_blocks a \<noteq> []" using assms(1) by auto
  then have "al_ack_from_bitbuf ops b = Some (Inr a, b2)"
    unfolding split p_bind_def [of "p_bind (expect_type ops AlAckAlRnr) (\<lambda>_. p_flag ops ''flow_control'')"] b1(1)
    by (simp add: p_bind_def b2(1) p_ret_def)
  moreover have "view b2 = advance (view b) (length (al_ack_bits a))" using b1(2) b2(2) by (simp add: al_ack_bits_def)
  ultimately show ?thesis by blast
qed

text \<open>The writers.\<close>

lemma puts_al_setup:
  assumes "al_setup_ok s"
  shows "puts (al_setup_to_bitbuf ops s) (al_setup_bits s) ()"
proof -
  note ok = assms [unfolded al_setup_ok_def]
  have slots: "puts (case x of Some slots \<Rightarrow> write_slots ops slots f | None \<Rightarrow> p_ret ()) (slots_bits x) ()"
    if "\<forall>v. x = Some v \<longrightarrow> 1 \<le> v \<and> v \<le> 4" for x f
    using that by (cases x) (auto simp: slots_bits_def write_slots_def intro!: puts_ret puts_try emits_bits)
  have good: "(\<not> as_acknowledged s \<or> as_link_number s > 3 \<or> as_maximum_sdu s > 7 \<or> as_throughput s > 7
       \<or> \<not> (1 \<le> as_window_size s \<and> as_window_size s \<le> 3) \<or> as_sdu_retransmissions s > 7
       \<or> as_segment_retransmissions s > 15 \<or> as_report s > 7
       \<or> as_connection_width s \<noteq> (as_uplink_slots s \<noteq> None) \<or> as_asymmetric s \<noteq> (as_downlink_slots s \<noteq> None)) = False"
    using ok by (auto simp: not_less)
  have head: "puts (w_try (stmts [
       w_bits ops (llc_pdu_type_raw AlSetup) 4, w_bit ops True, w_bits ops (as_link_number s) 2, w_bits ops (as_maximum_sdu s) 3,
       w_bit ops (as_connection_width s), w_bit ops (as_asymmetric s)]))
     (val_bits 4 8 @ True # val_bits 2 (as_link_number s) @ val_bits 3 (as_maximum_sdu s)
       @ as_connection_width s # as_asymmetric s # []) ()"
    using ok by (auto simp del: append_assoc intro!: puts_try emits_Cons emits_Cons_w_bit emits_bits emits_Nil)
  have tail: "puts (w_try (stmts [
       w_bits ops (as_throughput s) 3, w_bits ops (as_window_size s) 2, w_bits ops (as_sdu_retransmissions s) 3,
       w_bits ops (as_segment_retransmissions s) 4, w_bits ops (as_report s) 3]))
     (val_bits 3 (as_throughput s) @ val_bits 2 (as_window_size s) @ val_bits 3 (as_sdu_retransmissions s)
       @ val_bits 4 (as_segment_retransmissions s) @ val_bits 3 (as_report s)) ()"
    using ok by (auto intro!: puts_try emits_Cons emits_single emits_bits)
  have "puts (al_setup_to_bitbuf ops s)
     ((val_bits 4 8 @ True # val_bits 2 (as_link_number s) @ val_bits 3 (as_maximum_sdu s)
     @ as_connection_width s # as_asymmetric s # []) @ slots_bits (as_uplink_slots s) @ slots_bits (as_downlink_slots s)
     @ (val_bits 3 (as_throughput s) @ val_bits 2 (as_window_size s) @ val_bits 3 (as_sdu_retransmissions s)
     @ val_bits 4 (as_segment_retransmissions s) @ val_bits 3 (as_report s))) ()"
    unfolding al_setup_to_bitbuf_def good if_False
    by (rule puts_bind, rule head, rule puts_bind, rule slots, (use ok in simp)[1], rule puts_bind, rule slots, (use ok in simp)[1],
        rule tail)
  then show ?thesis by (simp add: al_setup_bits_def type_bits_def)
qed

lemma puts_al_ack:
  assumes "llc_ok (PAlAck a)"
  shows "puts (al_ack_to_bitbuf ops a) (al_ack_bits a) ()"
proof -
  have block: "puts (al_ack_block_to_bitbuf ops k) (al_ack_block_bits k) ()" if "al_ack_block_ok k" for k
  proof -
    note ok = that [unfolded al_ack_block_ok_def]
    have n: "ab_nr k < 8" "ab_length k < 64" "ab_first_missing k = None \<Longrightarrow> ab_bitmap k = []"
      using ok by (auto simp: al_ack_block_bad_def Let_def split: if_splits)
    show ?thesis using ok n
      by (cases "ab_first_missing k") (auto simp: al_ack_block_to_bitbuf_def al_ack_block_bits_def intro!: puts_try emit_bit_intros)
  qed
  have each: "puts (p_each (al_ack_block_to_bitbuf ops) ks) (concat (map al_ack_block_bits ks)) ()"
    if "\<forall>k \<in> set ks. al_ack_block_ok k" for ks
    using that by (induction ks) (auto intro!: puts_ret puts_bind block)
  have "puts (al_ack_to_bitbuf ops a) ((val_bits 4 11 @ aa_receiver_ready a # []) @ concat (map al_ack_block_bits (aa_blocks a))) ()"
    using assms by (auto simp: al_ack_to_bitbuf_def simp del: append_assoc intro!: puts_bind each puts_try emits_Cons emits_w_bit emits_single emits_bits)
  then show ?thesis by (simp add: al_ack_bits_def type_bits_def)
qed

lemma puts_llc:
  assumes "llc_ok p"
  shows "puts (llc_write ops p) (llc_bits p) ()"
proof (cases p)
  case (PAlSetup x)
  then show ?thesis using assms puts_al_setup [of x] by (simp add: llc_write_def)
next
  case (PAlAck x)
  then show ?thesis using assms puts_al_ack [of x] by (simp add: llc_write_def)
qed (use assms in \<open>auto simp: llc_write_def bl_ack_to_bitbuf_def bl_ack_bits_def bl_adata_to_bitbuf_def bl_adata_bits_def
     bl_data_to_bitbuf_def bl_data_bits_def bl_udata_to_bitbuf_def bl_udata_bits_def al_data_header_to_bitbuf_def al_data_header_bits_def
     al_reconnect_to_bitbuf_def al_reconnect_bits_def al_disconnect_to_bitbuf_def al_disconnect_bits_def type_bits_def
     intro!: puts_try emit_bit_intros\<close>)

lemma parses_p_map: "parses p s x \<Longrightarrow> parses (p_map f p) s (f x)"
  unfolding p_map_def using parses_bind [of p s x "\<lambda>x. p_ret (f x)" "[]" "f x"] by auto

lemma llc_type_prefix:
  assumes "llc_ok p"
  obtains u where "llc_bits p = type_bits (llc_type p) @ u"
proof -
  have bl: "type_bits (if f then BlAckFcs else BlAck) = False # f # val_bits 2 3"
      "type_bits (if f then BlAdataFcs else BlAdata) = False # f # val_bits 2 0"
      "type_bits (if f then BlDataFcs else BlData) = False # f # val_bits 2 1"
      "type_bits (if f then BlUdataFcs else BlUdata) = False # f # val_bits 2 2" for f
    by (induction f) code_simp+
  have "\<exists>u. llc_bits p = type_bits (llc_type p) @ u"
  proof (cases p)
    case (PUnhandled t)
    with assms show ?thesis by simp
  next
    case (PBlUdata x)
    then have "llc_bits p = type_bits (llc_type p) @ []" by (simp only: llc_bits.simps llc_type.simps bl bl_udata_bits_def append_Nil2)
    then show ?thesis ..
  qed (simp_all only: llc_bits.simps llc_type.simps bl bl_ack_bits_def bl_adata_bits_def bl_data_bits_def bl_udata_bits_def
      al_setup_bits_def al_data_header_bits_def al_ack_bits_def al_reconnect_bits_def al_disconnect_bits_def
      append_Cons append_assoc list.inject simp_thms same_append_eq append_Nil2 append_self_conv)
  with that show ?thesis by blast
qed

lemma llc_reads:
  assumes ok: "llc_ok p" and wf: "view_wf (view b)" and r: "remaining (view b) = llc_bits p @ t"
    and t: "(\<exists>a. p = PAlAck a) \<Longrightarrow> t = []"
  shows "\<exists>b'. llc_read ops b = Some (Inr p, b') \<and> view b' = advance (view b) (length (llc_bits p))"
proof -
  obtain u where u: "llc_bits p = type_bits (llc_type p) @ u" using llc_type_prefix [OF ok] .
  have "remaining (view b) = type_bits (llc_type p) @ (u @ t)" using r u by simp
  note pre = remaining_prefix(1,2) [OF wf this]
  have "bb_peek_bits ops b 4 = Some (llc_pdu_type_raw (llc_type p))"
    using peek_bits [OF wf, of 4] pre bits_val_val_bits [of "llc_pdu_type_raw (llc_type p)" 4] type_raw_less [of "llc_type p"]
    by (simp add: type_bits_def)
  then have read: "llc_read ops b = llc_parser ops (llc_type p) b" by (simp add: llc_read_def)
  show ?thesis
  proof (cases "\<exists>a. p = PAlAck a")
    case True
    then obtain a where a: "p = PAlAck a" ..
    with al_ack_reads [OF ok [unfolded a] wf] r t True obtain b' where
      "al_ack_from_bitbuf ops b = Some (Inr a, b')" "view b' = advance (view b) (length (al_ack_bits a))" by auto
    with read a show ?thesis by (simp add: p_map_def p_bind_def p_ret_def)
  next
    case False
    then have "parses (llc_parser ops (llc_type p)) (llc_bits p) p"
      using ok by (cases p) (auto intro!: parses_p_map parses_bl parses_al_setup parses_al_simple)
    from parses_Some [OF this wf r] read show ?thesis by simp
  qed
qed

lemma llc_roundtrip:
  assumes "llc_ok p"
  shows "\<exists>b c d. llc_write ops p (bb_new_autoexpand ops n) = Some (Inr (), b)
    \<and> bb_get_len_written ops b = length (llc_bits p)
    \<and> bb_seek ops b 0 = Some c
    \<and> llc_read ops c = Some (Inr p, d) \<and> bb_get_len_remaining ops d = 0"
proof -
  let ?v = "view (bb_new_autoexpand ops n)"
  have can: "can_write ?v (length (llc_bits p))" by (simp add: new_autoexpand can_write_def view_wf_def growable_def)
  from puts_Some [OF puts_llc [OF assms] can] obtain b where
    b: "llc_write ops p (bb_new_autoexpand ops n) = Some (Inr (), b)" "view b = put_bits ?v (llc_bits p)" by auto
  have v: "raw_bits (view b) = llc_bits p" "raw_start (view b) = 0" "raw_pos (view b) = length (llc_bits p)"
      "raw_end (view b) = length (llc_bits p)"
    by (simp_all add: b(2) put_bits_def new_autoexpand overwrite_def)
  have wf: "view_wf (view b)" by (simp add: view_wf_def v)
  obtain c where c: "bb_seek ops b 0 = Some c" "view c = (view b)\<lparr>raw_pos := 0\<rparr>"
    using seek [OF wf, of 0] v by auto
  have wfc: "view_wf (view c)" "remaining (view c) = llc_bits p @ []" using c(2) v by (simp_all add: view_wf_def remaining_def)
  from llc_reads [OF assms wfc] obtain d where
    d: "llc_read ops c = Some (Inr p, d)" "view d = advance (view c) (length (llc_bits p))" by auto
  have "view_wf (view d)" "raw_end (view d) - raw_pos (view d) = 0" using d(2) c(2) v by (simp_all add: view_wf_def)
  then have "bb_get_len_remaining ops d = 0" using get_len_remaining by simp
  with b(1) c(1) d(1) get_len_written [OF wf] v show ?thesis by auto
qed

end

section \<open>Properties\<close>



text \<open>The exception. A narrow link marked asymmetric: without downlink slots the parser lets it through and the writer
  refuses it; with them the writer accepts it and the parser takes the slots for the fields behind them.\<close>

lemma al_setup_asymmetric_unwritable:
  assumes "as_asymmetric s" and "\<not> as_connection_width s"
  shows "al_setup_to_bitbuf ops (s\<lparr>as_uplink_slots := None, as_downlink_slots := None\<rparr>) b
    = Some (Inl (Inconsistency ''al_setup'' ''invalid original advanced-link profile''), b)"
  using assms by (simp add: al_setup_to_bitbuf_def p_fail_def)

lemma al_setup_asymmetric_misread:
  "Option.bind (al_setup_to_bitbuf view_ops \<lparr>as_acknowledged = True, as_link_number = 1, as_maximum_sdu = 3,
       as_connection_width = False, as_asymmetric = True, as_uplink_slots = None, as_downlink_slots = Some 2, as_throughput = 6,
       as_window_size = 2, as_sdu_retransmissions = 3, as_segment_retransmissions = 5, as_report = 3\<rparr> (bb_new_autoexpand view_ops 0))
     (\<lambda>(r, b). Option.bind (bb_seek view_ops b 0) (\<lambda>c. map_option fst (al_setup_from_bitbuf view_ops c)))
   = Some (Inr \<lparr>as_acknowledged = True, as_link_number = 1, as_maximum_sdu = 3,
       as_connection_width = False, as_asymmetric = True, as_uplink_slots = None, as_downlink_slots = None, as_throughput = 3,
       as_window_size = 2, as_sdu_retransmissions = 4, as_segment_retransmissions = 13, as_report = 2\<rparr>)"
  by code_simp

end
