(* ===== verification/Llc_Link.thy ===== *)
theory Llc_Link
  imports Llc_Pdus Fcs Tx_Receipt Tdma_Time
begin

text \<open>
  The acknowledged advanced link of the base station, \<^verbatim>\<open>crates/tetra-entities/src/llc/llc_bs_ms.rs\<close>:
  a sliding window of numbered service data units (SDUs) per terminal, cut into segments, with selective
  repeat of segments and in-order delivery. This theory has the state of a link and its receiving side,
  \<open>handle_al_data\<close>; \<open>Llc_Send\<close> has the sending side.

  Ordered maps are association lists. A message put on the queue is its payload: the address, endpoint,
  route and protection of an acknowledgement or a delivery are those of the indication being handled.
  The type \<open>'m\<close> of the sending side stands for the channel allocation and protection that a request carries
  along unread.
\<close>

section \<open>State\<close>

record 'b al_rx_sdu =
  rx_ns :: nat
  rx_segments :: "(nat \<times> 'b) list"
  rx_final :: "nat option"
  rx_complete :: "'b option"

record ('b, 'm) al_tx_sdu =
  at_ns :: nat
  at_segments :: "'b list"
  at_meta :: 'm
  at_endpoint :: nat
  at_reporter :: tx_reporter
  at_attempt :: "tx_reporter option"
  at_ack_requested :: bool
  at_sent_at :: "tdma_time option"
  at_ack_repetitions :: nat
  at_retransmissions :: nat
  at_segment_retransmissions :: "nat list"
  at_pending :: "nat list option"

record 'm al_reset =
  re_setup :: al_setup
  re_meta :: 'm
  re_attempt :: tx_reporter
  re_sent_at :: "tdma_time option"
  re_retries :: nat

record ('b, 'm) al_link =
  li_link_number :: nat
  li_maximum_sdu :: nat
  li_slots :: nat
  li_throughput :: nat
  li_window_size :: nat
  li_max_sdu_retransmissions :: nat
  li_max_segment_retransmissions :: nat
  li_endpoint :: nat
  li_next_tx_ns :: nat
  li_next_rx_ns :: nat
  li_receiver_ready :: bool
  li_not_ready_since :: "tdma_time option"
  li_ready :: bool
  li_setup_started_at :: "tdma_time option"
  li_rx_sdus :: "(nat \<times> 'b al_rx_sdu) list"
  li_tx :: "('b, 'm) al_tx_sdu list"
  li_reset :: "'m al_reset option"

text \<open>What the receiving side puts on the queue: an acknowledgement for the MAC, an SDU for the layer above.\<close>

datatype 'b al_out = AckPdu 'b | Deliver 'b

text \<open>The link that a setup request makes: slots, SDU size and window within what the station offers.\<close>

definition setup_slots :: "al_setup \<Rightarrow> nat" where
  "setup_slots request = min 3 (max 1 (case as_uplink_slots request of None \<Rightarrow> 1 | Some n \<Rightarrow> n))"

definition setup_window :: "al_setup \<Rightarrow> nat" where
  "setup_window request = min 3 (max 1 (as_window_size request))"

definition setup_changed :: "al_setup \<Rightarrow> bool" where
  "setup_changed request \<longleftrightarrow> setup_slots request \<noteq> (case as_uplink_slots request of None \<Rightarrow> 1 | Some n \<Rightarrow> n)
     \<or> min 6 (as_maximum_sdu request) \<noteq> as_maximum_sdu request \<or> setup_window request \<noteq> as_window_size request"

definition awaiting_peer_success :: "al_setup \<Rightarrow> bool" where
  "awaiting_peer_success request \<longleftrightarrow> as_report request = 1 \<and> setup_changed request"

definition negotiated_link :: "al_setup \<Rightarrow> nat \<Rightarrow> tdma_time \<Rightarrow> ('b, 'm) al_link" where
  "negotiated_link request endpoint_id now =
     \<lparr>li_link_number = 0, li_maximum_sdu = min 6 (as_maximum_sdu request), li_slots = setup_slots request,
      li_throughput = as_throughput request, li_window_size = setup_window request,
      li_max_sdu_retransmissions = as_sdu_retransmissions request,
      li_max_segment_retransmissions = as_segment_retransmissions request, li_endpoint = endpoint_id,
      li_next_tx_ns = 0, li_next_rx_ns = 0, li_receiver_ready = True, li_not_ready_since = None,
      li_ready = (\<not> awaiting_peer_success request),
      li_setup_started_at = (if awaiting_peer_success request then Some now else None),
      li_rx_sdus = [], li_tx = [], li_reset = None\<rparr>"

text \<open>A setup that the terminal confirms: the link keeps its numbers and its queues.\<close>

definition confirm_setup :: "al_setup \<Rightarrow> nat \<Rightarrow> ('b, 'm) al_link \<Rightarrow> ('b, 'm) al_link" where
  "confirm_setup request endpoint_id link = link\<lparr>
     li_maximum_sdu := min 6 (as_maximum_sdu request), li_slots := setup_slots request, li_throughput := as_throughput request,
     li_window_size := setup_window request, li_max_sdu_retransmissions := as_sdu_retransmissions request,
     li_max_segment_retransmissions := as_segment_retransmissions request, li_endpoint := endpoint_id, li_ready := True,
     li_setup_started_at := None, li_not_ready_since := None,
     li_receiver_ready := (if li_reset link = None then li_receiver_ready link else True), li_reset := None\<rparr>"

section \<open>Acknowledgements\<close>

definition whole_ack :: "nat \<Rightarrow> al_ack_block" where
  "whole_ack ns = \<lparr>ab_nr = ns, ab_length = 0, ab_first_missing = None, ab_bitmap = []\<rparr>"

definition has_segment :: "'b al_rx_sdu \<Rightarrow> nat \<Rightarrow> bool" where
  "has_segment rx s \<longleftrightarrow> map_of (rx_segments rx) s \<noteq> None"

definition highest_segment :: "'b al_rx_sdu \<Rightarrow> nat" where
  "highest_segment rx = (case rx_final rx of Some f \<Rightarrow> f | None \<Rightarrow> fold max (map fst (rx_segments rx)) 0)"

definition acknowledgement_block :: "'b al_rx_sdu \<Rightarrow> al_ack_block" where
  "acknowledgement_block rx =
     (if rx_complete rx \<noteq> None then whole_ack (rx_ns rx)
      else
        let highest = highest_segment rx;
          first_missing = (case List.find (\<lambda>s. \<not> has_segment rx s) [0..<highest + 1] of
            Some s \<Rightarrow> s | None \<Rightarrow> min 255 (highest + 1));
          last_described = min (min 255 (first_missing + 61)) highest;
          acknowledgement_length = max 1 (min 255 ((last_described - first_missing) + 1))
        in \<lparr>ab_nr = rx_ns rx, ab_length = acknowledgement_length, ab_first_missing = Some first_missing,
             ab_bitmap = map (has_segment rx) [min 255 (first_missing + 1)..<last_described + 1]\<rparr>)"

definition acknowledgement_blocks :: "('b, 'm) al_link \<Rightarrow> al_ack_block option \<Rightarrow> al_ack_block list" where
  "acknowledgement_blocks link override_block = map (\<lambda>offset.
     let nr = (li_next_rx_ns link + offset) mod 8 in
     (case override_block of
        Some block \<Rightarrow> if ab_nr block = nr then block else
          (case map_of (li_rx_sdus link) nr of Some rx \<Rightarrow> acknowledgement_block rx
           | None \<Rightarrow> \<lparr>ab_nr = nr, ab_length = 1, ab_first_missing = Some 0, ab_bitmap = []\<rparr>)
      | None \<Rightarrow>
          (case map_of (li_rx_sdus link) nr of Some rx \<Rightarrow> acknowledgement_block rx
           | None \<Rightarrow> \<lparr>ab_nr = nr, ab_length = 1, ab_first_missing = Some 0, ab_bitmap = []\<rparr>)))
     [0..<li_window_size link]"

text \<open>The list that the sender of the SDU makes of a block: the missing segments it is to send again.\<close>

definition block_missing :: "al_ack_block \<Rightarrow> nat \<Rightarrow> nat list" where
  "block_missing block segments = (case ab_first_missing block of None \<Rightarrow> []
     | Some f \<Rightarrow> filter (\<lambda>s. s < segments) (f # concat (map (\<lambda>(offset, received). if received then [] else [f + offset + 1])
         (enumerate 0 (ab_bitmap block)))))"

definition send_al_ack :: "'b bitbuf_ops \<Rightarrow> al_ack_block list \<Rightarrow> 'b al_out list option" where
  "send_al_ack ops blocks =
     (case al_ack_to_bitbuf ops \<lparr>aa_receiver_ready = True, aa_blocks = blocks\<rparr> (bb_new_autoexpand ops 32) of
        None \<Rightarrow> None
      | Some (Inl e, pdu) \<Rightarrow> Some []
      | Some (Inr _, pdu) \<Rightarrow> do { pdu \<leftarrow> bb_seek ops pdu 0; Some [AckPdu pdu] })"

section \<open>Receiving a segment\<close>

definition fresh_rx :: "nat \<Rightarrow> 'b al_rx_sdu" where
  "fresh_rx ns = \<lparr>rx_ns = ns, rx_segments = [], rx_final = None, rx_complete = None\<rparr>"

text \<open>\<open>entry(segment).or_insert(pdu)\<close>, and the final segment.\<close>

definition add_segment :: "al_data_header \<Rightarrow> 'b \<Rightarrow> 'b al_rx_sdu \<Rightarrow> 'b al_rx_sdu" where
  "add_segment header pdu rx =
     (let rx = (if has_segment rx (ad_segment header) then rx
                else rx\<lparr>rx_segments := (ad_segment header, pdu) # rx_segments rx\<rparr>)
      in if ad_final_segment header then rx\<lparr>rx_final := Some (ad_segment header)\<rparr> else rx)"

definition all_received :: "'b al_rx_sdu \<Rightarrow> bool" where
  "all_received rx \<longleftrightarrow> (case rx_final rx of None \<Rightarrow> False | Some final \<Rightarrow> list_all (has_segment rx) [0..<final + 1])"

definition assemble :: "'b bitbuf_ops \<Rightarrow> nat \<Rightarrow> 'b al_rx_sdu \<Rightarrow> 'b option" where
  "assemble ops final rx = do {
     let total_bits = sum_list (map (\<lambda>s. case map_of (rx_segments rx) s of None \<Rightarrow> 0 | Some b \<Rightarrow> bb_get_len_remaining ops b) [0..<final + 1]);
     assembled \<leftarrow> for_loop [0..<final + 1] (\<lambda>s assembled. do {
       bits \<leftarrow> map_of (rx_segments rx) s;
       (assembled, bits) \<leftarrow> bb_copy_bits ops assembled bits (bb_get_len_remaining ops bits);
       Some assembled }) (bb_new_autoexpand ops total_bits);
     bb_seek ops assembled 0 }"

text \<open>Reassembly of a complete SDU: the SDU with the checked bits taken off, or \<open>None\<close> within when the check fails.\<close>

definition reassemble :: "'b bitbuf_ops \<Rightarrow> nat \<Rightarrow> 'b al_rx_sdu \<Rightarrow> 'b option option" where
  "reassemble ops final rx = do {
     assembled \<leftarrow> assemble ops final rx;
     good \<leftarrow> check_fcs ops assembled;
     if good then do {
       assembled \<leftarrow> bb_set_raw_end ops assembled (bb_get_raw_end ops assembled - 32);
       assembled \<leftarrow> bb_seek ops assembled 0;
       Some (Some assembled) }
     else Some None }"

text \<open>Delivery of the consecutive complete SDUs at the lower edge of the window.\<close>

lemma length_delete_less: "map_of xs k = Some v \<Longrightarrow> length (AList.delete k xs) < length xs"
  by (drule map_of_SomeD) (auto simp: AList.delete_eq intro!: length_filter_less)

function deliver_loop :: "('b, 'm) al_link \<Rightarrow> 'b list \<Rightarrow> ('b, 'm) al_link \<times> 'b list" where
  "deliver_loop link delivered =
     (case map_of (li_rx_sdus link) (li_next_rx_ns link) of
        None \<Rightarrow> (link, delivered)
      | Some ready \<Rightarrow> (case rx_complete ready of
          None \<Rightarrow> (link, delivered)
        | Some sdu \<Rightarrow> deliver_loop (link\<lparr>li_rx_sdus := AList.delete (li_next_rx_ns link) (li_rx_sdus link),
              li_next_rx_ns := (li_next_rx_ns link + 1) mod 8\<rparr>) (delivered @ [sdu])))"
  by pat_completeness auto

termination
  by (relation "measure (\<lambda>(link, delivered). length (li_rx_sdus link))") (auto simp: length_delete_less)

declare deliver_loop.simps [simp del]

fun deliver_all :: "'b bitbuf_ops \<Rightarrow> 'b list \<Rightarrow> 'b al_out list option" where
  "deliver_all ops [] = Some []"
| "deliver_all ops (sdu # sdus) = do { sdu \<leftarrow> bb_seek ops sdu 0; rest \<leftarrow> deliver_all ops sdus; Some (Deliver sdu # rest) }"

text \<open>A segment inside the receive window, of an SDU that is not complete yet; what follows on its reassembly.\<close>

definition finish_segment ::
  "'b bitbuf_ops \<Rightarrow> al_data_header \<Rightarrow> 'b al_rx_sdu \<Rightarrow> bool \<Rightarrow> bool \<Rightarrow> ('b, 'm) al_link \<Rightarrow> (('b, 'm) al_link \<times> 'b al_out list) option" where
  "finish_segment ops header rx complete fcs_failed link = do {
     let should_ack = complete \<or> ad_acknowledgement_requested header;
     let link = link\<lparr>li_rx_sdus := (if fcs_failed then AList.delete (ad_ns header) (li_rx_sdus link)
                                    else AList.update (ad_ns header) rx (li_rx_sdus link))\<rparr>;
     acks \<leftarrow> (if should_ack then send_al_ack ops (acknowledgement_blocks link
         (if fcs_failed then Some \<lparr>ab_nr = ad_ns header, ab_length = 63, ab_first_missing = None, ab_bitmap = []\<rparr> else None))
       else Some []);
     let (link, delivered) = deliver_loop link [];
     sdus \<leftarrow> deliver_all ops delivered;
     Some (link, acks @ sdus) }"

definition accept_segment ::
  "'b bitbuf_ops \<Rightarrow> al_data_header \<Rightarrow> 'b \<Rightarrow> 'b al_rx_sdu \<Rightarrow> ('b, 'm) al_link \<Rightarrow> (('b, 'm) al_link \<times> 'b al_out list) option" where
  "accept_segment ops header pdu rx link = do {
     pdu \<leftarrow> bb_set_raw_start ops pdu (bb_get_raw_pos ops pdu);
     pdu \<leftarrow> bb_seek ops pdu 0;
     let rx = add_segment header pdu rx;
     if all_received rx then do {
       assembled \<leftarrow> reassemble ops (the (rx_final rx)) rx;
       case assembled of
         Some sdu \<Rightarrow> finish_segment ops header (rx\<lparr>rx_complete := Some sdu\<rparr>) True False link
       | None \<Rightarrow> finish_segment ops header rx True True link }
     else finish_segment ops header rx False False link }"

text \<open>A link that has parsed the header of a segment.\<close>

definition al_data_link ::
  "'b bitbuf_ops \<Rightarrow> al_data_header \<Rightarrow> 'b \<Rightarrow> ('b, 'm) al_link \<Rightarrow> (('b, 'm) al_link \<times> 'b al_out list) option" where
  "al_data_link ops header pdu link =
     (if li_reset link \<noteq> None then Some (link, [])
      else if li_window_size link \<le> u8_sub (ad_ns header) (li_next_rx_ns link) mod 8 then
        (let behind = u8_sub (li_next_rx_ns link) (ad_ns header) mod 8
         in if 1 \<le> behind \<and> behind \<le> li_window_size link
            then do { acks \<leftarrow> send_al_ack ops (map (\<lambda>offset. whole_ack ((ad_ns header + offset) mod 8)) [0..<behind]);
                      Some (link, acks) }
            else Some (link, []))
      else
        (let rx = (case map_of (li_rx_sdus link) (ad_ns header) of Some rx \<Rightarrow> rx | None \<Rightarrow> fresh_rx (ad_ns header))
         in if rx_complete rx \<noteq> None
            then do { acks \<leftarrow> send_al_ack ops (acknowledgement_blocks link None); Some (link, acks) }
            else accept_segment ops header pdu rx link))"

definition handle_al_data ::
  "'b bitbuf_ops \<Rightarrow> u32 \<Rightarrow> 'b \<Rightarrow> (u32 \<times> ('b, 'm) al_link) list \<Rightarrow> ((u32 \<times> ('b, 'm) al_link) list \<times> 'b al_out list) option" where
  "handle_al_data ops issi pdu links =
     (case al_data_header_from_bitbuf ops pdu of
        None \<Rightarrow> None
      | Some (Inl e, pdu) \<Rightarrow> Some (links, [])
      | Some (Inr header, pdu) \<Rightarrow> (case map_of links issi of
          None \<Rightarrow> Some (links, [])
        | Some link \<Rightarrow> do {
            (link, outs) \<leftarrow> al_data_link ops header pdu link;
            Some (AList.update issi link links, outs) }))"

section \<open>Acknowledgement blocks\<close>

lemma ack_block_cases:
  fixes rx :: "'b al_rx_sdu"
  defines "highest \<equiv> highest_segment rx"
  assumes "rx_complete rx = None"
  obtains first last_described where
    "acknowledgement_block rx = \<lparr>ab_nr = rx_ns rx, ab_length = max 1 (min 255 (last_described - first + 1)),
       ab_first_missing = Some first, ab_bitmap = map (has_segment rx) [min 255 (first + 1)..<last_described + 1]\<rparr>"
    "last_described = min (min 255 (first + 61)) highest"
    "\<forall>s<first. s \<le> highest \<longrightarrow> has_segment rx s"
    "first \<le> highest \<and> \<not> has_segment rx first \<or> first = min 255 (highest + 1) \<and> (\<forall>s\<le>highest. has_segment rx s)"
proof (cases "List.find (\<lambda>s. \<not> has_segment rx s) [0..<highest + 1]")
  case None
  then have all: "\<forall>s\<le>highest. has_segment rx s" by (auto simp: find_None_iff less_Suc_eq_le simp del: upt_Suc)
  show ?thesis
    by (rule that [of "min (min 255 (min 255 (highest + 1) + 61)) highest" "min 255 (highest + 1)"])
       (use None all assms in \<open>auto simp: acknowledgement_block_def Let_def\<close>)
next
  case (Some s)
  then have s: "s \<le> highest" "\<not> has_segment rx s" "\<forall>t. t < s \<longrightarrow> has_segment rx t"
    unfolding find_Some_iff by (auto simp: less_Suc_eq_le simp del: upt_Suc)
  show ?thesis
    by (rule that [of "min (min 255 (s + 61)) highest" s])
       (use Some s assms in \<open>auto simp: acknowledgement_block_def Let_def\<close>)
qed

lemma acknowledgement_block_ok:
  assumes "rx_ns rx < 8" and "highest_segment rx < 256"
    and "rx_complete rx = None \<Longrightarrow> highest_segment rx = 255 \<Longrightarrow> \<exists>s<255. \<not> has_segment rx s"
  shows "al_ack_block_ok (acknowledgement_block rx)"
proof (cases "rx_complete rx")
  case (Some b)
  then show ?thesis using assms by (simp add: acknowledgement_block_def whole_ack_def al_ack_block_ok_def al_ack_block_bad_def)
next
  case None
  obtain first l where
    f: "acknowledgement_block rx = \<lparr>ab_nr = rx_ns rx, ab_length = max 1 (min 255 (l - first + 1)),
       ab_first_missing = Some first, ab_bitmap = map (has_segment rx) [min 255 (first + 1)..<l + 1]\<rparr>"
    "l = min (min 255 (first + 61)) (highest_segment rx)"
    "\<forall>s<first. s \<le> highest_segment rx \<longrightarrow> has_segment rx s"
    "first \<le> highest_segment rx \<and> \<not> has_segment rx first \<or> first = min 255 (highest_segment rx + 1) \<and> (\<forall>s\<le>highest_segment rx. has_segment rx s)"
    by (rule ack_block_cases [OF None])
  have "first < 256" using f(4) assms by auto
  moreover have "\<not> (first = 255 \<and> l = 255)"
  proof
    assume "first = 255 \<and> l = 255"
    then have "highest_segment rx = 255" using f(2) assms(2) by linarith
    from assms(3) [OF None this] f(3) this \<open>first = 255 \<and> l = 255\<close> show False by auto
  qed
  moreover have "l \<le> first + 61" "l \<le> 255" using f(2) by auto
  moreover have "min 255 (first + 1) \<le> l + 1 \<or> l + 1 \<le> min 255 (first + 1)" by linarith
  ultimately show ?thesis using assms(1) f(1)
    by (auto simp: al_ack_block_ok_def al_ack_block_bad_def Let_def min_def max_def)
qed

section \<open>Buffers\<close>

context bit_buffer
begin

lemma cut_header:
  assumes "view_wf (view b)"
  obtains c d where "bb_set_raw_start ops b (bb_get_raw_pos ops b) = Some c" "bb_seek ops c 0 = Some d" "at_start (view d) (remaining (view b))"
proof -
  have p: "raw_pos (view b) \<le> length (raw_bits (view b))" using assms by (simp add: view_wf_def)
  obtain c where c: "bb_set_raw_start ops b (bb_get_raw_pos ops b) = Some c" "view c = (view b)\<lparr>raw_start := raw_pos (view b)\<rparr>"
    using set_raw_start [OF p] by (auto simp: get_raw_pos)
  have wf: "view_wf (view c)" using assms c(2) by (simp add: view_wf_def)
  obtain d where d: "bb_seek ops c 0 = Some d" "view d = (view c)\<lparr>raw_pos := raw_start (view c)\<rparr>"
    using seek [OF wf, of 0] wf by (auto simp: view_wf_def)
  have "at_start (view d) (remaining (view b))"
    using wf c(2) d(2) by (simp add: at_start_def view_wf_def window_def remaining_def)
  with c(1) d(1) that show ?thesis by blast
qed

lemma at_start_facts: "at_start v xs \<Longrightarrow> view_wf v \<and> remaining v = xs"
  by (simp add: at_start_remaining) (simp add: at_start_def)

lemma assemble_view:
  assumes "\<And>s. s < n \<Longrightarrow> \<exists>b. map_of (rx_segments rx) s = Some b \<and> at_start (view b) (xs s)" and "n = final + 1"
  shows "\<exists>a. assemble ops final rx = Some a \<and> view a = \<lparr>raw_bits = concat (map xs [0..<n]), raw_start = 0, raw_pos = 0,
    raw_end = length (concat (map xs [0..<n])), raw_auto = True\<rparr>"
proof -
  let ?body = "\<lambda>s assembled. do { bits \<leftarrow> map_of (rx_segments rx) s;
       (assembled, bits) \<leftarrow> bb_copy_bits ops assembled bits (bb_get_len_remaining ops bits); Some assembled }"
  have loop: "\<exists>a. for_loop [0..<m] ?body (bb_new_autoexpand ops k) = Some a
      \<and> view a = \<lparr>raw_bits = concat (map xs [0..<m]), raw_start = 0, raw_pos = length (concat (map xs [0..<m])),
        raw_end = length (concat (map xs [0..<m])), raw_auto = True\<rparr>" if "m \<le> n" for m k
    using that
  proof (induction m)
    case 0
    then show ?case by (simp add: new_autoexpand)
  next
    case (Suc m)
    then obtain a where a: "for_loop [0..<m] ?body (bb_new_autoexpand ops k) = Some a"
      "view a = \<lparr>raw_bits = concat (map xs [0..<m]), raw_start = 0, raw_pos = length (concat (map xs [0..<m])),
        raw_end = length (concat (map xs [0..<m])), raw_auto = True\<rparr>" by auto
    obtain b where b: "map_of (rx_segments rx) m = Some b" "at_start (view b) (xs m)" using assms(1) [of m] Suc.prems by auto
    have wf: "view_wf (view b)" "remaining (view b) = xs m" using at_start_facts [OF b(2)] by auto
    have n: "bb_get_len_remaining ops b = length (xs m)" using get_len_remaining [OF wf(1)] length_remaining [OF wf(1)] wf(2) by simp
    have c: "can_write (view a) (length (xs m))" by (simp add: a(2) can_write_def view_wf_def growable_def)
    have "raw_pos (view b) + length (xs m) \<le> raw_end (view b)" using wf length_remaining [OF wf(1)] by (auto simp: view_wf_def)
    from copy_bits [OF c wf(1) this] wf(2) obtain a' b' where
      "bb_copy_bits ops a b (length (xs m)) = Some (a', b')" "view a' = put_bits (view a) (xs m)" by auto
    then show ?case using a b n by (simp add: for_loop_append put_bits_def overwrite_def)
  qed
  obtain k a where a: "for_loop [0..<n] ?body (bb_new_autoexpand ops k) = Some a"
      "view a = \<lparr>raw_bits = concat (map xs [0..<n]), raw_start = 0, raw_pos = length (concat (map xs [0..<n])),
        raw_end = length (concat (map xs [0..<n])), raw_auto = True\<rparr>"
      "k = sum_list (map (\<lambda>s. case map_of (rx_segments rx) s of None \<Rightarrow> 0 | Some b \<Rightarrow> bb_get_len_remaining ops b) [0..<final + 1])"
    using loop [of n] by blast
  have "view_wf (view a)" by (simp add: a(2) view_wf_def)
  from seek [OF this, of 0] a(2) obtain c where
    "bb_seek ops a 0 = Some c" "view c = (view a)\<lparr>raw_pos := 0\<rparr>" by auto
  with a assms(2) show ?thesis by (simp add: assemble_def Let_def del: upt_Suc)
qed

lemma reassemble_view:
  assumes "\<And>s. s < n \<Longrightarrow> \<exists>b. map_of (rx_segments rx) s = Some b \<and> at_start (view b) (xs s)" and "n = final + 1"
  defines "all \<equiv> concat (map xs [0..<n])"
  shows "if fcs_ok all then \<exists>a. reassemble ops final rx = Some (Some a) \<and> at_start (view a) (take (length all - 32) all)
    else reassemble ops final rx = Some None"
proof -
  from assemble_view [OF assms(1,2)] obtain a where a: "assemble ops final rx = Some a"
    "view a = \<lparr>raw_bits = all, raw_start = 0, raw_pos = 0, raw_end = length all, raw_auto = True\<rparr>"
    unfolding all_def by blast
  have wf: "view_wf (view a)" "remaining (view a) = all" by (simp_all add: a(2) view_wf_def remaining_def)
  show ?thesis
  proof (cases "fcs_ok all")
    case True
    then have l: "32 \<le> length all" by (simp add: fcs_ok_def)
    have "raw_end (view a) - 32 \<le> length (raw_bits (view a))" by (simp add: a(2))
    from set_raw_end [OF this] obtain c where
      c: "bb_set_raw_end ops a (bb_get_raw_end ops a - 32) = Some c" "view c = (view a)\<lparr>raw_end := length all - 32\<rparr>"
      using a(2) by (auto simp: get_raw_end)
    have wfc: "view_wf (view c)" using a(2) c(2) by (simp add: view_wf_def)
    from seek [OF this, of 0] c(2) a(2) obtain d where
      d: "bb_seek ops c 0 = Some d" "view d = (view c)\<lparr>raw_pos := 0\<rparr>" by auto
    have "at_start (view d) (take (length all - 32) all)" using d(2) c(2) a(2) by (simp add: at_start_def view_wf_def window_def)
    with True d(1) c(1) a(1) check_fcs_view [OF wf(1)] wf(2) show ?thesis by (simp add: reassemble_def)
  next
    case False
    with a(1) check_fcs_view [OF wf(1)] wf(2) show ?thesis by (simp add: reassemble_def)
  qed
qed

lemma send_al_ack_Some:
  assumes "1 \<le> length blocks" and "length blocks \<le> 3" and "\<forall>k \<in> set blocks. al_ack_block_ok k"
  shows "\<exists>pdu. send_al_ack ops blocks = Some [AckPdu pdu]
    \<and> at_start (view pdu) (al_ack_bits \<lparr>aa_receiver_ready = True, aa_blocks = blocks\<rparr>)"
proof -
  let ?a = "\<lparr>aa_receiver_ready = True, aa_blocks = blocks\<rparr>"
  let ?v = "view (bb_new_autoexpand ops 32)"
  have ok: "llc_ok (PAlAck ?a)" using assms by simp
  have can: "can_write ?v (length (al_ack_bits ?a))" by (simp add: new_autoexpand can_write_def view_wf_def growable_def)
  from puts_Some [OF puts_al_ack [OF ok] can] obtain b where
    b: "al_ack_to_bitbuf ops ?a (bb_new_autoexpand ops 32) = Some (Inr (), b)" "view b = put_bits ?v (al_ack_bits ?a)" by auto
  have wf: "view_wf (view b)" by (simp add: b(2) put_bits_def new_autoexpand overwrite_def view_wf_def)
  from seek [OF wf, of 0] b(2) obtain c where c: "bb_seek ops b 0 = Some c" "view c = (view b)\<lparr>raw_pos := 0\<rparr>"
    by (auto simp: new_autoexpand)
  have "at_start (view c) (al_ack_bits ?a)"
    using c(2) b(2) by (simp add: at_start_def view_wf_def window_def put_bits_def new_autoexpand overwrite_def)
  with b(1) c(1) show ?thesis by (simp add: send_al_ack_def)
qed

lemma deliver_all_Some:
  assumes "list_all2 (\<lambda>b xs. at_start (view b) xs) bs sdus"
  shows "\<exists>ds. deliver_all ops bs = Some (map Deliver ds) \<and> list_all2 (\<lambda>b xs. at_start (view b) xs) ds sdus"
  using assms
proof (induction rule: list_all2_induct)
  case (Cons b bs xs sdus)
  then obtain ds where ds: "deliver_all ops bs = Some (map Deliver ds)" "list_all2 (\<lambda>b xs. at_start (view b) xs) ds sdus" by blast
  have wf: "view_wf (view b)" using Cons(1) by (simp add: at_start_def)
  from seek [OF wf, of 0] wf obtain c where c: "bb_seek ops b 0 = Some c" "view c = (view b)\<lparr>raw_pos := raw_start (view b)\<rparr>"
    by (auto simp: view_wf_def)
  have "at_start (view c) xs" using Cons(1) c(2) by (simp add: at_start_def view_wf_def window_def)
  with c(1) ds show ?case by (intro exI [of _ "c # ds"]) simp
qed simp

end

end
