(* ===== verification/Llc_Receive.thy ===== *)
theory Llc_Receive
  imports Llc_Link
begin

text \<open>
  What the receiving side of an advanced link promises. A sender has a sequence of SDUs, each cut into
  segments (\<open>segs k\<close> for SDU number \<open>k\<close>) whose concatenation carries a good check; SDU \<open>k\<close> travels under the
  number \<open>k mod 8\<close>. Segments arrive in any order, some more than once, within the window of the protocol.
  \<open>rx_inv\<close> relates a link to the set of segments that have arrived.
\<close>

section \<open>Arrivals\<close>

type_synonym sdu_segments = "nat \<Rightarrow> bool list list"

definition sdu_of :: "sdu_segments \<Rightarrow> nat \<Rightarrow> bool list" where
  "sdu_of segs k = take (length (concat (segs k)) - 32) (concat (segs k))"

definition segs_ok :: "sdu_segments \<Rightarrow> bool" where
  "segs_ok segs \<longleftrightarrow> (\<forall>k. 1 \<le> length (segs k) \<and> length (segs k) \<le> 256 \<and> fcs_ok (concat (segs k)))"

text \<open>Segment \<open>j\<close> of SDU \<open>k\<close>, with or without a request for an acknowledgement.\<close>

type_synonym arrival = "nat \<times> nat \<times> bool"

definition arrival_header :: "sdu_segments \<Rightarrow> arrival \<Rightarrow> al_data_header" where
  "arrival_header segs a = (case a of (k, j, ar) \<Rightarrow> \<lparr>ad_final_segment = (j + 1 = length (segs k)),
     ad_acknowledgement_requested = ar, ad_ns = k mod 8, ad_segment = j\<rparr>)"

definition arrival_bits :: "sdu_segments \<Rightarrow> arrival \<Rightarrow> bool list" where
  "arrival_bits segs a = al_data_header_bits (arrival_header segs a) @ (case a of (k, j, ar) \<Rightarrow> segs k ! j)"

definition arrived :: "(nat \<times> nat) set \<Rightarrow> nat \<Rightarrow> nat \<Rightarrow> bool" where
  "arrived R n k \<longleftrightarrow> (\<forall>j<n. (k, j) \<in> R)"

text \<open>The first SDU of which a segment is missing.\<close>

definition first_gap :: "sdu_segments \<Rightarrow> (nat \<times> nat) list \<Rightarrow> nat" where
  "first_gap segs seen = length (takeWhile (\<lambda>k. \<forall>j<length (segs k). (k, j) \<in> set seen) [0..<length seen + 1])"

text \<open>
  What a sender may put on the air: segments of an SDU that the window of the receiver has not passed by more
  than the numbering can tell, and that lies below the upper edge of that window.
\<close>

fun admissible :: "sdu_segments \<Rightarrow> nat \<Rightarrow> (nat \<times> nat) list \<Rightarrow> arrival list \<Rightarrow> bool" where
  "admissible segs w seen [] = True"
| "admissible segs w seen ((k, j, ar) # as) \<longleftrightarrow> j < length (segs k) \<and> first_gap segs seen + w \<le> k + 8
     \<and> k < first_gap segs seen + w \<and> admissible segs w ((k, j) # seen) as"

fun seen_after :: "(nat \<times> nat) list \<Rightarrow> arrival list \<Rightarrow> (nat \<times> nat) list" where
  "seen_after seen [] = seen"
| "seen_after seen ((k, j, ar) # as) = seen_after ((k, j) # seen) as"

text \<open>The station handling one segment after another.\<close>

fun al_receive :: "'b bitbuf_ops \<Rightarrow> u32 \<Rightarrow> 'b list \<Rightarrow> (u32 \<times> ('b, 'm) al_link) list
    \<Rightarrow> ((u32 \<times> ('b, 'm) al_link) list \<times> 'b al_out list) option" where
  "al_receive ops issi [] links = Some (links, [])"
| "al_receive ops issi (pdu # pdus) links = do {
     (links, outs) \<leftarrow> handle_al_data ops issi pdu links;
     (links, more) \<leftarrow> al_receive ops issi pdus links;
     Some (links, outs @ more) }"

fun deliveries :: "'b al_out list \<Rightarrow> 'b list" where
  "deliveries [] = []"
| "deliveries (AckPdu b # outs) = deliveries outs"
| "deliveries (Deliver b # outs) = b # deliveries outs"

lemma deliveries_append [simp]: "deliveries (xs @ ys) = deliveries xs @ deliveries ys"
  by (induction xs rule: deliveries.induct) simp_all

lemma deliveries_map [simp]: "deliveries (map Deliver ds) = ds"
  by (induction ds) simp_all

lemma first_gap_unique:
  assumes "segs_ok segs" and "\<forall>k<n. arrived (set seen) (length (segs k)) k" and "\<not> arrived (set seen) (length (segs n)) n"
  shows "first_gap segs seen = n"
proof -
  have "(\<lambda>k. (k, 0::nat)) ` {..<n} \<subseteq> set seen"
    using assms(1,2) by (force simp: arrived_def segs_ok_def Suc_le_eq)
  from card_mono [OF finite_set this] have "n \<le> card (set seen)" by (simp add: card_image inj_on_def)
  then have n: "n < length seen + 1" using card_length [of seen] by linarith
  then have "[0..<length seen + 1] = [0..<n] @ n # [Suc n..<length seen + 1]"
    by (metis append.left_neutral le0 less_imp_le_nat upt_add_eq_append upt_conv_Cons le_add_diff_inverse)
  moreover have "takeWhile (\<lambda>k. \<forall>j<length (segs k). (k, j) \<in> set seen) ([0..<n] @ n # xs) = [0..<n]" for xs
  proof -
    have "takeWhile (\<lambda>k. \<forall>j<length (segs k). (k, j) \<in> set seen) ([0..<n] @ n # xs)
        = [0..<n] @ takeWhile (\<lambda>k. \<forall>j<length (segs k). (k, j) \<in> set seen) (n # xs)"
      by (rule takeWhile_append2) (use assms(2) in \<open>simp add: arrived_def\<close>)
    with assms(3) show ?thesis by (simp add: arrived_def)
  qed
  ultimately show ?thesis by (simp add: first_gap_def del: upt_Suc)
qed

lemma fold_max_le: "fold max xs (a::nat) \<le> m \<longleftrightarrow> a \<le> m \<and> (\<forall>x \<in> set xs. x \<le> m)"
  by (induction xs arbitrary: a) auto

lemma fold_max_in: "fold max xs (a::nat) \<in> insert a (set xs)"
  by (induction xs arbitrary: a) (auto simp: max_def)

lemma distance_mod:
  assumes "n \<le> k + 8"
  shows "u8_sub (k mod 8) (n mod 8) mod 8 = (k + 8 - n) mod 8"
proof -
  have "u8_sub (k mod 8) (n mod 8) mod 8 = (k mod 8 + (256 - n mod 8)) mod 8"
    unfolding u8_sub_def by (rule mod_mod_cancel) simp
  also have "\<dots> = (k + (256 - n mod 8)) mod 8" by (rule mod_add_left_eq)
  also have "k + (256 - n mod 8) = (k + 8 - n) + 8 * (n div 8 + 31)"
  proof -
    obtain q r where q: "q = n div 8" "r = n mod 8" by blast
    then have "8 * q + r = n" "r < 8" by simp_all
    moreover obtain d where "k + 8 = n + d" using assms le_Suc_ex by blast
    moreover from this have "k + 8 - n = d" by simp
    ultimately show ?thesis unfolding q [symmetric] by simp
  qed
  also have "\<dots> mod 8 = (k + 8 - n) mod 8" by (rule mod_mult_self2)
  finally show ?thesis .
qed

text \<open>Numbers modulo eight tell the cases of an arrival apart.\<close>

lemma distance_in: "\<lbrakk>n \<le> k; k < n + 8\<rbrakk> \<Longrightarrow> u8_sub (k mod 8) (n mod 8) mod 8 = k - n"
  using distance_mod [of n k] mod_add_self2 [of "k - n" 8] by simp

lemma window_mod:
  assumes "n \<le> k" and "k < n + w" and "n \<le> l" and "l < n + w" and "w \<le> 8" and "k mod 8 = l mod (8::nat)"
  shows "k = l"
  using distance_in [of n k] distance_in [of n l] assms by auto

section \<open>The invariant\<close>

context bit_buffer
begin

text \<open>An entry of the receive buffer holds exactly the segments of SDU \<open>k\<close> that have arrived.\<close>

definition entry_core :: "sdu_segments \<Rightarrow> (nat \<times> nat) set \<Rightarrow> nat \<Rightarrow> 'b al_rx_sdu \<Rightarrow> bool" where
  "entry_core segs R k rx \<longleftrightarrow> rx_ns rx = k mod 8
     \<and> (\<forall>j. has_segment rx j \<longleftrightarrow> j < length (segs k) \<and> (k, j) \<in> R)
     \<and> (\<forall>j b. map_of (rx_segments rx) j = Some b \<longrightarrow> at_start (view b) (segs k ! j))
     \<and> rx_final rx = (if (k, length (segs k) - 1) \<in> R then Some (length (segs k) - 1) else None)"

definition entry_inv :: "sdu_segments \<Rightarrow> (nat \<times> nat) set \<Rightarrow> nat \<Rightarrow> 'b al_rx_sdu \<Rightarrow> bool" where
  "entry_inv segs R k rx \<longleftrightarrow> entry_core segs R k rx
     \<and> (case rx_complete rx of None \<Rightarrow> \<not> arrived R (length (segs k)) k
        | Some b \<Rightarrow> arrived R (length (segs k)) k \<and> at_start (view b) (sdu_of segs k))"

definition window_inv :: "sdu_segments \<Rightarrow> (nat \<times> nat) set \<Rightarrow> nat \<Rightarrow> ('b, 'm) al_link \<Rightarrow> bool" where
  "window_inv segs R n link \<longleftrightarrow> li_reset link = None \<and> 1 \<le> li_window_size link \<and> li_window_size link \<le> 3
     \<and> li_next_rx_ns link = n mod 8
     \<and> (\<forall>k<n. arrived R (length (segs k)) k)
     \<and> (\<forall>k j. (k, j) \<in> R \<longrightarrow> j < length (segs k) \<and> k < n + li_window_size link)
     \<and> (\<forall>i rx. map_of (li_rx_sdus link) i = Some rx \<longrightarrow> (\<exists>k. n \<le> k \<and> k < n + li_window_size link \<and> i = k mod 8))
     \<and> (\<forall>k. n \<le> k \<and> k < n + li_window_size link \<longrightarrow>
          (case map_of (li_rx_sdus link) (k mod 8) of None \<Rightarrow> \<forall>j. (k, j) \<notin> R | Some rx \<Rightarrow> entry_inv segs R k rx))"

section \<open>Entries\<close>

lemma entry_fresh: "\<forall>j. (k, j) \<notin> R \<Longrightarrow> entry_core segs R k (fresh_rx (k mod 8))"
  by (simp add: entry_core_def fresh_rx_def has_segment_def)

lemma entry_add:
  assumes e: "entry_core segs R k rx" and j: "j < length (segs k)" and p: "at_start (view pdu) (segs k ! j)"
  shows "entry_core segs (insert (k, j) R) k (add_segment (arrival_header segs (k, j, ar)) pdu rx)"
proof -
  let ?h = "arrival_header segs (k, j, ar)" and ?rx = "add_segment (arrival_header segs (k, j, ar)) pdu rx"
  have h: "ad_segment ?h = j" "ad_final_segment ?h \<longleftrightarrow> j = length (segs k) - 1"
    using j by (auto simp: arrival_header_def)
  have m: "map_of (rx_segments ?rx) i = (if i = j \<and> \<not> has_segment rx j then Some pdu else map_of (rx_segments rx) i)" for i
    by (simp add: add_segment_def Let_def h(1))
  have ns: "rx_ns ?rx = rx_ns rx" and fin: "rx_final ?rx = (if j = length (segs k) - 1 then Some j else rx_final rx)"
    unfolding add_segment_def Let_def h by simp_all
  have "has_segment ?rx i \<longleftrightarrow> i < length (segs k) \<and> (k, i) \<in> insert (k, j) R" for i
  proof -
    have "has_segment ?rx i \<longleftrightarrow> i = j \<or> has_segment rx i" by (auto simp: has_segment_def m)
    then show ?thesis using e j by (auto simp: entry_core_def)
  qed
  moreover have "at_start (view b) (segs k ! i)" if "map_of (rx_segments ?rx) i = Some b" for i b
    using that e p by (auto simp: m entry_core_def split: if_splits)
  ultimately show ?thesis using e by (simp add: entry_core_def ns fin)
qed

lemma entry_add_complete: "rx_complete (add_segment h pdu rx) = rx_complete rx"
  by (simp add: add_segment_def Let_def)

lemma entry_all_received:
  assumes "entry_core segs R k rx" and "1 \<le> length (segs k)"
  shows "all_received rx \<longleftrightarrow> arrived R (length (segs k)) k"
    and "all_received rx \<Longrightarrow> rx_final rx = Some (length (segs k) - 1)"
proof -
  have n: "length (segs k) - 1 + 1 = length (segs k)" using assms(2) by simp
  have f: "rx_final rx = (if (k, length (segs k) - 1) \<in> R then Some (length (segs k) - 1) else None)"
    and hs: "has_segment rx = (\<lambda>j. j < length (segs k) \<and> (k, j) \<in> R)" using assms(1) by (auto simp: entry_core_def)
  have l: "length (segs k) - 1 < length (segs k)" using assms(2) by simp
  show "all_received rx \<longleftrightarrow> arrived R (length (segs k)) k"
  proof (cases "(k, length (segs k) - 1) \<in> R")
    case True
    then show ?thesis using f n by (auto simp: all_received_def arrived_def list_all_iff hs simp del: upt_Suc One_nat_def)
  next
    case False
    then show ?thesis using f l by (auto simp: all_received_def arrived_def)
  qed
  show "all_received rx \<Longrightarrow> rx_final rx = Some (length (segs k) - 1)"
    using f by (auto simp: all_received_def split: if_splits)
qed

lemma entry_reassemble:
  assumes "entry_core segs R k rx" and ok: "segs_ok segs" and a: "arrived R (length (segs k)) k"
  shows "\<exists>b. reassemble ops (length (segs k) - 1) rx = Some (Some b) \<and> at_start (view b) (sdu_of segs k)"
proof -
  have "\<exists>b. map_of (rx_segments rx) s = Some b \<and> at_start (view b) (segs k ! s)" if "s < length (segs k)" for s
  proof -
    from that a assms(1) have "has_segment rx s" by (simp add: arrived_def entry_core_def)
    then show ?thesis using assms(1) unfolding entry_core_def has_segment_def by blast
  qed
  moreover have "length (segs k) = length (segs k) - 1 + 1" using ok [unfolded segs_ok_def, rule_format, of k] by linarith
  ultimately have "if fcs_ok (concat (map ((!) (segs k)) [0..<length (segs k)]))
    then \<exists>b. reassemble ops (length (segs k) - 1) rx = Some (Some b) \<and> at_start (view b)
      (take (length (concat (map ((!) (segs k)) [0..<length (segs k)])) - 32) (concat (map ((!) (segs k)) [0..<length (segs k)])))
    else reassemble ops (length (segs k) - 1) rx = Some None"
    by (rule reassemble_view)
  then show ?thesis using ok by (simp add: map_nth segs_ok_def sdu_of_def)
qed

lemma entry_highest:
  assumes e: "entry_core segs R k rx" and l: "1 \<le> length (segs k)"
  shows "highest_segment rx < length (segs k)"
proof (cases "rx_final rx")
  case None
  have "has_segment rx j \<Longrightarrow> j < length (segs k)" for j using e by (simp add: entry_core_def)
  then have "\<forall>j \<in> set (map fst (rx_segments rx)). j \<le> length (segs k) - 1"
    by (force simp: has_segment_def dest: weak_map_of_SomeI)
  then have "fold max (map fst (rx_segments rx)) 0 \<le> length (segs k) - 1" unfolding fold_max_le by simp
  with None l show ?thesis by (simp add: highest_segment_def)
next
  case (Some f)
  then show ?thesis using e l by (auto simp: highest_segment_def entry_core_def split: if_splits)
qed

lemma entry_ack_ok:
  assumes e: "entry_core segs R k rx" and ok: "segs_ok segs" and c: "rx_complete rx = None \<Longrightarrow> \<not> arrived R (length (segs k)) k"
  shows "al_ack_block_ok (acknowledgement_block rx)"
proof (rule acknowledgement_block_ok)
  have l: "1 \<le> length (segs k)" "length (segs k) \<le> 256" using ok by (auto simp: segs_ok_def)
  have hs: "has_segment rx j \<Longrightarrow> j < length (segs k)" for j using e by (simp add: entry_core_def)
  show "rx_ns rx < 8" using e by (simp add: entry_core_def)
  have h: "highest_segment rx < length (segs k)" by (rule entry_highest [OF e l(1)])
  with l show "highest_segment rx < 256" by linarith
  assume n: "rx_complete rx = None" and h255: "highest_segment rx = 255"
  then have l256: "length (segs k) = 256" using h l by linarith
  have "has_segment rx 255"
  proof (cases "rx_final rx")
    case None
    then have "fold max (map fst (rx_segments rx)) 0 = 255" using h255 by (simp add: highest_segment_def)
    then have "255 \<in> set (map fst (rx_segments rx))" using fold_max_in [of "map fst (rx_segments rx)" 0] by auto
    then show ?thesis by (auto simp: has_segment_def map_of_eq_None_iff)
  next
    case (Some f)
    then show ?thesis using e l256 h255 by (auto simp: highest_segment_def entry_core_def split: if_splits)
  qed
  moreover obtain j where "j < 256" "\<not> has_segment rx j" using c [OF n] e l256 by (auto simp: arrived_def entry_core_def)
  ultimately have "j < 255" by (cases "j = 255") auto
  with \<open>\<not> has_segment rx j\<close> show "\<exists>s<255. \<not> has_segment rx s" by blast
qed

section \<open>The window\<close>

lemma window_entry:
  assumes "window_inv segs R n link" and "n \<le> k" and "k < n + li_window_size link"
  shows "case map_of (li_rx_sdus link) (k mod 8) of None \<Rightarrow> \<forall>j. (k, j) \<notin> R | Some rx \<Rightarrow> entry_inv segs R k rx"
  using assms by (simp add: window_inv_def)

lemma window_block:
  assumes inv: "window_inv segs R n link" and i: "i < li_window_size link"
  shows "acknowledgement_blocks link None ! i = (case map_of (li_rx_sdus link) ((n + i) mod 8) of
      None \<Rightarrow> \<lparr>ab_nr = (n + i) mod 8, ab_length = 1, ab_first_missing = Some 0, ab_bitmap = []\<rparr>
    | Some rx \<Rightarrow> acknowledgement_block rx)"
  using inv i by (auto simp: acknowledgement_blocks_def window_inv_def Let_def mod_add_left_eq split: option.splits)

lemma window_acks:
  assumes inv: "window_inv segs R n link" and ok: "segs_ok segs"
  shows "\<exists>pdu. send_al_ack ops (acknowledgement_blocks link None) = Some [AckPdu pdu]
    \<and> at_start (view pdu) (al_ack_bits \<lparr>aa_receiver_ready = True, aa_blocks = acknowledgement_blocks link None\<rparr>)
    \<and> llc_ok (PAlAck \<lparr>aa_receiver_ready = True, aa_blocks = acknowledgement_blocks link None\<rparr>)"
proof -
  let ?blocks = "acknowledgement_blocks link None"
  have w: "1 \<le> li_window_size link" "li_window_size link \<le> 3" using inv by (simp_all add: window_inv_def)
  have len: "length ?blocks = li_window_size link" by (simp add: acknowledgement_blocks_def)
  have "al_ack_block_ok (?blocks ! i)" if i: "i < li_window_size link" for i
  proof (cases "map_of (li_rx_sdus link) ((n + i) mod 8)")
    case None
    then show ?thesis using window_block [OF inv i] by (simp add: al_ack_block_ok_def al_ack_block_bad_def)
  next
    case (Some rx)
    with i window_entry [OF inv, of "n + i"] have "entry_inv segs R (n + i) rx" by simp
    with window_block [OF inv i] Some show ?thesis by (auto simp: entry_inv_def intro!: entry_ack_ok [OF _ ok])
  qed
  with len have good: "\<forall>block \<in> set ?blocks. al_ack_block_ok block" by (metis in_set_conv_nth)
  then have "llc_ok (PAlAck \<lparr>aa_receiver_ready = True, aa_blocks = ?blocks\<rparr>)" using w len by simp
  with good show ?thesis using send_al_ack_Some [of ?blocks] w len by simp
qed

lemma window_behind_acks:
  assumes "1 \<le> m" and "m \<le> 3"
  shows "\<exists>pdu. send_al_ack ops (map (\<lambda>i. whole_ack ((a + i) mod 8)) [0..<m]) = Some [AckPdu pdu]"
proof -
  have "al_ack_block_ok (whole_ack (b mod 8))" for b
    using mod_less_divisor [of 8 b] by (simp add: whole_ack_def al_ack_block_ok_def al_ack_block_bad_def del: mod_less_divisor)
  then show ?thesis using send_al_ack_Some [of "map (\<lambda>i. whole_ack ((a + i) mod 8)) [0..<m]"] assms by auto
qed

lemma window_update:
  assumes inv: "window_inv segs R n link" and k: "n \<le> k" "k < n + li_window_size link" and j: "j < length (segs k)"
    and e: "entry_inv segs (insert (k, j) R) k rx"
  shows "window_inv segs (insert (k, j) R) n (link\<lparr>li_rx_sdus := AList.update (k mod 8) rx (li_rx_sdus link)\<rparr>)"
proof -
  have w: "li_window_size link \<le> 8" using inv by (simp add: window_inv_def)
  have "case map_of (AList.update (k mod 8) rx (li_rx_sdus link)) (l mod 8) of
      None \<Rightarrow> \<forall>i. (l, i) \<notin> insert (k, j) R | Some rx \<Rightarrow> entry_inv segs (insert (k, j) R) l rx"
    if l: "n \<le> l" "l < n + li_window_size link" for l
  proof (cases "l = k")
    case True
    then show ?thesis using e by (simp add: update_conv)
  next
    case False
    then have "l mod 8 \<noteq> k mod 8" using window_mod [OF l k w] by blast
    moreover have "arrived (insert (k, j) R) m l = arrived R m l" for m using False by (simp add: arrived_def)
    ultimately show ?thesis using window_entry [OF inv l] False
      by (auto simp: update_conv entry_inv_def entry_core_def split: option.splits)
  qed
  moreover have "\<forall>l<n. arrived (insert (k, j) R) (length (segs l)) l" using inv by (auto simp: window_inv_def arrived_def)
  moreover have "\<exists>l\<ge>n. l < n + li_window_size link \<and> i = l mod 8"
    if "map_of (AList.update (k mod 8) rx (li_rx_sdus link)) i = Some rx'" for i rx'
    using that inv k by (cases "i = k mod 8") (auto simp: update_conv window_inv_def)
  ultimately show ?thesis using inv k j by (auto simp: window_inv_def)
qed

lemma window_advance:
  assumes inv: "window_inv segs R n link" and rx: "map_of (li_rx_sdus link) (n mod 8) = Some rx" and c: "rx_complete rx = Some b"
  shows "window_inv segs R (Suc n) (link\<lparr>li_rx_sdus := AList.delete (n mod 8) (li_rx_sdus link), li_next_rx_ns := (n mod 8 + 1) mod 8\<rparr>)"
    and "at_start (view b) (sdu_of segs n)"
proof -
  have w: "1 \<le> li_window_size link" "li_window_size link \<le> 3" using inv by (simp_all add: window_inv_def)
  have e: "entry_inv segs R n rx" using window_entry [OF inv, of n] w rx by simp
  then show "at_start (view b) (sdu_of segs n)" using c by (simp add: entry_inv_def)
  have other: "map_of (AList.delete (n mod 8) (li_rx_sdus link)) (l mod 8) = map_of (li_rx_sdus link) (l mod 8)"
    if "n < l" "l < n + 8" for l
    using window_mod [of n l 8 n] that by (auto simp: delete_conv)
  have new: "map_of (li_rx_sdus link) ((n + li_window_size link) mod 8) = None"
  proof (rule ccontr)
    assume "map_of (li_rx_sdus link) ((n + li_window_size link) mod 8) \<noteq> None"
    then obtain l where l: "n \<le> l" "l < n + li_window_size link" "(n + li_window_size link) mod 8 = l mod 8"
      using inv by (auto simp: window_inv_def)
    then have "n + li_window_size link = l" using window_mod [of n "n + li_window_size link" 8 l] w by simp
    with l show False by simp
  qed
  have "case map_of (AList.delete (n mod 8) (li_rx_sdus link)) (l mod 8) of
      None \<Rightarrow> \<forall>i. (l, i) \<notin> R | Some rx \<Rightarrow> entry_inv segs R l rx"
    if l: "Suc n \<le> l" "l < Suc n + li_window_size link" for l
  proof (cases "l = n + li_window_size link")
    case True
    have "(l, i) \<notin> R" for i using inv True by (auto simp: window_inv_def)
    then show ?thesis using new other [of l] l w True by simp
  next
    case False
    then show ?thesis using window_entry [OF inv, of l] other [of l] l w by simp
  qed
  moreover have "\<forall>l<Suc n. arrived R (length (segs l)) l"
    using inv e c by (auto simp: less_Suc_eq window_inv_def entry_inv_def)
  moreover have "\<exists>l\<ge>Suc n. l < Suc n + li_window_size link \<and> i = l mod 8"
    if m: "map_of (AList.delete (n mod 8) (li_rx_sdus link)) i = Some rx'" for i rx'
  proof -
    from m have i: "i \<noteq> n mod 8" "map_of (li_rx_sdus link) i = Some rx'" by (auto simp: delete_conv split: if_splits)
    then obtain l where l: "n \<le> l" "l < n + li_window_size link" "i = l mod 8" using inv unfolding window_inv_def by blast
    with i have "l \<noteq> n" by auto
    with l show ?thesis by (intro exI [of _ l]) simp
  qed
  moreover have "(n mod 8 + 1) mod 8 = Suc n mod 8" by (simp add: mod_Suc_eq)
  moreover have "\<forall>k j. (k, j) \<in> R \<longrightarrow> j < length (segs k) \<and> k < Suc n + li_window_size link"
    using inv by (auto simp: window_inv_def less_SucI)
  ultimately show "window_inv segs R (Suc n) (link\<lparr>li_rx_sdus := AList.delete (n mod 8) (li_rx_sdus link), li_next_rx_ns := (n mod 8 + 1) mod 8\<rparr>)"
    using inv by (auto simp: window_inv_def)
qed

lemma window_deliver:
  assumes ok: "segs_ok segs" and "window_inv segs R n link" and "list_all2 (\<lambda>b xs. at_start (view b) xs) acc (map (sdu_of segs) [a..<n])" and "a \<le> n"
  shows "\<exists>m link' ds. deliver_loop link acc = (link', ds) \<and> n \<le> m \<and> window_inv segs R m link' \<and> \<not> arrived R (length (segs m)) m
    \<and> li_window_size link' = li_window_size link \<and> list_all2 (\<lambda>b xs. at_start (view b) xs) ds (map (sdu_of segs) [a..<m])"
  using assms(2-)
proof (induction link acc arbitrary: n rule: deliver_loop.induct)
  case (1 link acc)
  have w: "1 \<le> li_window_size link" and n: "li_next_rx_ns link = n mod 8" using "1.prems"(1) by (simp_all add: window_inv_def)
  from window_entry [OF "1.prems"(1), of n] w have
    e: "case map_of (li_rx_sdus link) (n mod 8) of None \<Rightarrow> \<forall>j. (n, j) \<notin> R | Some rx \<Rightarrow> entry_inv segs R n rx" by simp
  show ?case
  proof (cases "map_of (li_rx_sdus link) (n mod 8)")
    case None
    then have "\<not> arrived R (length (segs n)) n" using e ok by (auto simp: arrived_def segs_ok_def Suc_le_eq)
    with None "1.prems" n show ?thesis by (intro exI [of _ n]) (simp add: deliver_loop.simps)
  next
    case (Some rx)
    show ?thesis
    proof (cases "rx_complete rx")
      case None
      with Some e have "\<not> arrived R (length (segs n)) n" by (simp add: entry_inv_def)
      with None Some "1.prems" n show ?thesis by (intro exI [of _ n]) (simp add: deliver_loop.simps)
    next
      case (Some b)
      let ?link = "link\<lparr>li_rx_sdus := AList.delete (n mod 8) (li_rx_sdus link), li_next_rx_ns := (n mod 8 + 1) mod 8\<rparr>"
      note adv = window_advance [OF "1.prems"(1) \<open>map_of (li_rx_sdus link) (n mod 8) = Some rx\<close> Some]
      have "list_all2 (\<lambda>b xs. at_start (view b) xs) (acc @ [b]) (map (sdu_of segs) [a..<Suc n])"
        using "1.prems"(2,3) adv(2) by (simp add: list_all2_appendI)
      from "1.IH" [unfolded n, OF \<open>map_of (li_rx_sdus link) (n mod 8) = Some rx\<close> Some adv(1) this] "1.prems"(3)
      obtain m link' ds where "deliver_loop ?link (acc @ [b]) = (link', ds)" "Suc n \<le> m" "window_inv segs R m link'"
        "\<not> arrived R (length (segs m)) m" "li_window_size link' = li_window_size ?link"
        "list_all2 (\<lambda>b xs. at_start (view b) xs) ds (map (sdu_of segs) [a..<m])" by auto
      moreover have "deliver_loop link acc = deliver_loop ?link (acc @ [b])"
        using \<open>map_of (li_rx_sdus link) (n mod 8) = Some rx\<close> Some n by (simp add: deliver_loop.simps [of link])
      ultimately show ?thesis by (intro exI [of _ m] exI [of _ link'] exI [of _ ds]) simp
    qed
  qed
qed

section \<open>One segment\<close>

definition rx_inv :: "sdu_segments \<Rightarrow> (nat \<times> nat) set \<Rightarrow> nat \<Rightarrow> ('b, 'm) al_link \<Rightarrow> bool" where
  "rx_inv segs R n link \<longleftrightarrow> window_inv segs R n link \<and> \<not> arrived R (length (segs n)) n"

lemma accept_segment_step:
  assumes ok: "segs_ok segs" and inv: "window_inv segs R n link" and j: "j < length (segs k)"
    and k: "n \<le> k" "k < n + li_window_size link"
    and e: "entry_core segs R k rx" "rx_complete rx = None"
    and pdu: "view_wf (view pdu)" "remaining (view pdu) = segs k ! j"
  shows "\<exists>m link' outs. accept_segment ops (arrival_header segs (k, j, ar)) pdu rx link = Some (link', outs) \<and> n \<le> m
    \<and> rx_inv segs (insert (k, j) R) m link' \<and> li_window_size link' = li_window_size link
    \<and> list_all2 (\<lambda>b xs. at_start (view b) xs) (deliveries outs) (map (sdu_of segs) [n..<m])"
proof -
  let ?h = "arrival_header segs (k, j, ar)" and ?R = "insert (k, j) R"
  obtain c d where d: "bb_set_raw_start ops pdu (bb_get_raw_pos ops pdu) = Some c" "bb_seek ops c 0 = Some d" "at_start (view d) (segs k ! j)"
    using cut_header [OF pdu(1)] pdu(2) by metis
  let ?rx = "add_segment ?h d rx"
  have core: "entry_core segs ?R k ?rx" and none: "rx_complete ?rx = None"
    using entry_add [OF e(1) j d(3)] e(2) by (auto simp: entry_add_complete)
  have l: "1 \<le> length (segs k)" using ok by (simp add: segs_ok_def)
  note rec = entry_all_received [OF core l]
  have ns: "ad_ns ?h = k mod 8" by (simp add: arrival_header_def)
  define rx' where "rx' = (if all_received ?rx then ?rx\<lparr>rx_complete := Some (the (the (reassemble ops (length (segs k) - 1) ?rx)))\<rparr> else ?rx)"
  have inner: "accept_segment ops ?h pdu rx link = finish_segment ops ?h rx' (all_received ?rx) False link"
    using entry_reassemble [OF core ok] rec d(1,2) by (auto simp: rx'_def accept_segment_def)
  have "entry_inv segs ?R k rx'"
    using entry_reassemble [OF core ok] rec core none by (auto simp: rx'_def entry_inv_def entry_core_def has_segment_def)
  note inv' = window_update [OF inv k j this]
  let ?link = "link\<lparr>li_rx_sdus := AList.update (k mod 8) rx' (li_rx_sdus link)\<rparr>"
  obtain ack where ack: "send_al_ack ops (acknowledgement_blocks ?link None) = Some [AckPdu ack]"
    using window_acks [OF inv' ok] by blast
  obtain m link' ds where del: "deliver_loop ?link [] = (link', ds)" "n \<le> m" "window_inv segs ?R m link'"
    "\<not> arrived ?R (length (segs m)) m" "li_window_size link' = li_window_size ?link"
    "list_all2 (\<lambda>b xs. at_start (view b) xs) ds (map (sdu_of segs) [n..<m])"
    using window_deliver [OF ok inv', of "[]" n] by auto
  from deliver_all_Some [OF del(6)] obtain es where
    es: "deliver_all ops ds = Some (map Deliver es)" "list_all2 (\<lambda>b xs. at_start (view b) xs) es (map (sdu_of segs) [n..<m])" by blast
  have "accept_segment ops ?h pdu rx link
      = Some (link', (if all_received ?rx \<or> ad_acknowledgement_requested ?h then [AckPdu ack] else []) @ map Deliver es)"
    unfolding inner finish_segment_def using ack del(1) es(1) by (simp add: Let_def ns)
  with del es show ?thesis by (intro exI [of _ m] exI [of _ link']) (auto simp: rx_inv_def)
qed

lemma al_data_link_step:
  assumes ok: "segs_ok segs" and inv: "rx_inv segs R n link" and j: "j < length (segs k)"
    and k: "n + li_window_size link \<le> k + 8" "k < n + li_window_size link"
    and pdu: "view_wf (view pdu)" "remaining (view pdu) = segs k ! j"
  shows "\<exists>m link' outs. al_data_link ops (arrival_header segs (k, j, ar)) pdu link = Some (link', outs) \<and> n \<le> m
    \<and> rx_inv segs (insert (k, j) R) m link' \<and> li_window_size link' = li_window_size link
    \<and> list_all2 (\<lambda>b xs. at_start (view b) xs) (deliveries outs) (map (sdu_of segs) [n..<m])"
proof (cases "k < n")
  have win: "window_inv segs R n link" using inv by (simp add: rx_inv_def)
  then have w: "li_reset link = None" "1 \<le> li_window_size link" "li_window_size link \<le> 3" "li_next_rx_ns link = n mod 8"
    by (simp_all add: window_inv_def)
  have ns: "ad_ns (arrival_header segs (k, j, ar)) = k mod 8" by (simp add: arrival_header_def)
  {
    case True
    then have "(k, j) \<in> R" using win j by (auto simp: window_inv_def arrived_def)
    then have R: "insert (k, j) R = R" by auto
    have "li_window_size link \<le> u8_sub (k mod 8) (n mod 8) mod 8"
      using distance_mod [of n k] True k w by simp
    moreover have "u8_sub (n mod 8) (k mod 8) mod 8 = n - k"
      using distance_in [of k n] True k w by simp
    ultimately show ?thesis
      using window_behind_acks [of "n - k" "k mod 8"] w True inv
      by (intro exI [of _ n] exI [of _ link]) (auto simp: al_data_link_def ns Let_def R)
  next
    case False
    then have nk: "n \<le> k" by simp
    have dist: "u8_sub (k mod 8) (n mod 8) mod 8 = k - n" using distance_in [of n k] nk k w by simp
    then have inw: "\<not> li_window_size link \<le> u8_sub (k mod 8) (n mod 8) mod 8" using k nk by simp
    from window_entry [OF win nk k(2)] have
      e: "case map_of (li_rx_sdus link) (k mod 8) of None \<Rightarrow> \<forall>j. (k, j) \<notin> R | Some rx \<Rightarrow> entry_inv segs R k rx" .
    show ?thesis
    proof (cases "map_of (li_rx_sdus link) (k mod 8)")
      case None
      with e have "entry_core segs R k (fresh_rx (k mod 8))" by (simp add: entry_fresh)
      from accept_segment_step [OF ok win j nk k(2) this _ pdu, of ar] None show ?thesis
        using w inw by (auto simp: al_data_link_def ns fresh_rx_def)
    next
      case (Some rx)
      show ?thesis
      proof (cases "rx_complete rx")
        case None
        with e Some have "entry_core segs R k rx" by (simp add: entry_inv_def)
        from accept_segment_step [OF ok win j nk k(2) this None pdu, of ar] None Some show ?thesis
          using w inw by (auto simp: al_data_link_def ns)
      next
        case (Some b)
        with e \<open>map_of (li_rx_sdus link) (k mod 8) = Some rx\<close> j have "(k, j) \<in> R"
          by (simp add: entry_inv_def arrived_def)
        then have "insert (k, j) R = R" by auto
        with Some \<open>map_of (li_rx_sdus link) (k mod 8) = Some rx\<close> window_acks [OF win ok] w inw inv show ?thesis
          by (intro exI [of _ n] exI [of _ link]) (auto simp: al_data_link_def ns)
      qed
    qed
  }
qed

lemma handle_al_data_step:
  assumes ok: "segs_ok segs" and l: "map_of links issi = Some link" and inv: "rx_inv segs R n link" and j: "j < length (segs k)"
    and k: "n + li_window_size link \<le> k + 8" "k < n + li_window_size link"
    and pdu: "view_wf (view pdu)" "remaining (view pdu) = arrival_bits segs (k, j, ar)"
  shows "\<exists>m link' outs. handle_al_data ops issi pdu links = Some (AList.update issi link' links, outs) \<and> n \<le> m
    \<and> rx_inv segs (insert (k, j) R) m link' \<and> li_window_size link' = li_window_size link
    \<and> list_all2 (\<lambda>b xs. at_start (view b) xs) (deliveries outs) (map (sdu_of segs) [n..<m])"
proof -
  let ?h = "arrival_header segs (k, j, ar)"
  have "ad_ns ?h < 8" "ad_segment ?h < 256" using ok j less_le_trans [of j "length (segs k)" 256]
    by (auto simp: arrival_header_def segs_ok_def)
  note p = parses_al_simple(1) [OF this]
  have r: "remaining (view pdu) = al_data_header_bits ?h @ segs k ! j" using pdu(2) by (simp add: arrival_bits_def)
  from parses_Some [OF p pdu(1) r] obtain c where
    c: "al_data_header_from_bitbuf ops pdu = Some (Inr ?h, c)" "view c = advance (view pdu) (length (al_data_header_bits ?h))" by blast
  have "view_wf (view c)" "remaining (view c) = segs k ! j" using c(2) r pdu(1) by (simp_all add: advance_wf remaining_advance)
  from al_data_link_step [OF ok inv j k this, of ar] c(1) l show ?thesis by (fastforce simp: handle_al_data_def)
qed

lemma al_receive_run:
  assumes ok: "segs_ok segs"
  shows "\<lbrakk>map_of links issi = Some link; rx_inv segs (set seen) n link; admissible segs (li_window_size link) seen as;
      list_all2 (\<lambda>pdu a. view_wf (view pdu) \<and> remaining (view pdu) = arrival_bits segs a) pdus as\<rbrakk>
    \<Longrightarrow> \<exists>links' outs link' m. al_receive ops issi pdus links = Some (links', outs) \<and> map_of links' issi = Some link'
      \<and> n \<le> m \<and> rx_inv segs (set (seen_after seen as)) m link' \<and> li_window_size link' = li_window_size link
      \<and> list_all2 (\<lambda>b xs. at_start (view b) xs) (deliveries outs) (map (sdu_of segs) [n..<m])"
proof (induction as arbitrary: pdus seen links link n)
  case (Cons a as)
  obtain k j ar where a: "a = (k, j, ar)" by (cases a)
  obtain pdu pdus' where p: "pdus = pdu # pdus'" "view_wf (view pdu)" "remaining (view pdu) = arrival_bits segs (k, j, ar)"
    "list_all2 (\<lambda>pdu a. view_wf (view pdu) \<and> remaining (view pdu) = arrival_bits segs a) pdus' as"
    using Cons.prems(4) by (auto simp: a list_all2_Cons2)
  have gap: "first_gap segs seen = n"
    using first_gap_unique [OF ok] Cons.prems(2) by (auto simp: rx_inv_def window_inv_def)
  have adm: "j < length (segs k)" "n + li_window_size link \<le> k + 8" "k < n + li_window_size link"
    "admissible segs (li_window_size link) ((k, j) # seen) as"
    using Cons.prems(3) by (auto simp: a gap)
  from handle_al_data_step [OF ok Cons.prems(1,2) adm(1-3) p(2,3)] obtain m link' outs where
    h: "handle_al_data ops issi pdu links = Some (AList.update issi link' links, outs)" "n \<le> m"
      "rx_inv segs (set ((k, j) # seen)) m link'" "li_window_size link' = li_window_size link"
      "list_all2 (\<lambda>b xs. at_start (view b) xs) (deliveries outs) (map (sdu_of segs) [n..<m])" by auto
  have "map_of (AList.update issi link' links) issi = Some link'" by (simp add: update_conv)
  from Cons.IH [OF this h(3) adm(4) [folded h(4)] p(4)] obtain links'' more link'' q where
    t: "al_receive ops issi pdus' (AList.update issi link' links) = Some (links'', more)" "map_of links'' issi = Some link''"
      "m \<le> q" "rx_inv segs (set (seen_after ((k, j) # seen) as)) q link''" "li_window_size link'' = li_window_size link'"
      "list_all2 (\<lambda>b xs. at_start (view b) xs) (deliveries more) (map (sdu_of segs) [m..<q])" by blast
  have "[n..<q] = [n..<m] @ [m..<q]" using h(2) t(3) by (metis le_Suc_ex upt_add_eq_append)
  with h(5) t(6) have "list_all2 (\<lambda>b xs. at_start (view b) xs) (deliveries outs @ deliveries more) (map (sdu_of segs) [n..<q])"
    by (simp add: list_all2_appendI)
  with h(1,4) t p(1) le_trans [OF h(2) t(3)] show ?case by (auto simp: a intro!: exI [of _ q])
qed fastforce

lemma rx_inv_fresh:
  assumes "segs_ok segs" and "li_reset link = None" "1 \<le> li_window_size link"
      "li_window_size link \<le> 3" "li_next_rx_ns link = 0" "li_rx_sdus link = []"
  shows "rx_inv segs (set []) 0 link"
  using assms by (auto simp: rx_inv_def window_inv_def arrived_def segs_ok_def Suc_le_eq)

lemma al_receive_fresh:
  assumes ok: "segs_ok segs" and l: "map_of links issi = Some link" and link: "li_reset link = None" "1 \<le> li_window_size link"
      "li_window_size link \<le> 3" "li_next_rx_ns link = 0" "li_rx_sdus link = []"
    and "admissible segs (li_window_size link) [] as"
    and "list_all2 (\<lambda>pdu a. view_wf (view pdu) \<and> remaining (view pdu) = arrival_bits segs a) pdus as"
  shows "\<exists>links' outs. al_receive ops issi pdus links = Some (links', outs)
    \<and> list_all2 (\<lambda>b xs. at_start (view b) xs) (deliveries outs) (map (sdu_of segs) [0..<first_gap segs (seen_after [] as)])"
proof -
  from al_receive_run [OF ok l rx_inv_fresh [OF ok link] assms(8,9)] obtain links' outs link' m where
    r: "al_receive ops issi pdus links = Some (links', outs)" "map_of links' issi = Some link'" "0 \<le> m"
      "rx_inv segs (set (seen_after [] as)) m link'" "li_window_size link' = li_window_size link"
      "list_all2 (\<lambda>b xs. at_start (view b) xs) (deliveries outs) (map (sdu_of segs) [0..<m])" by blast
  have "first_gap segs (seen_after [] as) = m"
    using first_gap_unique [OF ok] r(4) by (auto simp: rx_inv_def window_inv_def)
  with r show ?thesis by blast
qed

end

section \<open>What an acknowledgement asks for\<close>

lemma concat_enumerate_map:
  "concat (map (\<lambda>(offset, received). if received then [] else [f + offset + 1]) (enumerate a (map p [f + a + 1..<m])))
    = filter (\<lambda>s. \<not> p s) [f + a + 1..<m]"
proof (induction "m - (f + a + 1)" arbitrary: a)
  case (Suc n)
  then have "[f + a + 1..<m] = (f + a + 1) # [f + Suc a + 1..<m]" by (simp add: upt_conv_Cons)
  with Suc.hyps(1) [of "Suc a"] Suc.hyps(2) show ?case by simp
qed simp

lemma block_missing_exact:
  assumes none: "rx_complete rx = None" and part: "\<not> all_received rx" and h: "highest_segment rx < n" "n \<le> 256"
    and gap: "\<exists>s<n. \<not> has_segment rx s"
  shows "\<exists>least. \<not> has_segment rx least \<and> (\<forall>s<least. has_segment rx s)
    \<and> block_missing (acknowledgement_block rx) n
      = filter (\<lambda>s. \<not> has_segment rx s) [0..<max least (min (least + 61) (highest_segment rx)) + 1]"
proof -
  let ?p = "\<lambda>s. \<not> has_segment rx s" and ?H = "highest_segment rx"
  obtain f l where
    b: "acknowledgement_block rx = \<lparr>ab_nr = rx_ns rx, ab_length = max 1 (min 255 (l - f + 1)),
       ab_first_missing = Some f, ab_bitmap = map (has_segment rx) [min 255 (f + 1)..<l + 1]\<rparr>"
    "l = min (min 255 (f + 61)) ?H"
    "\<forall>s<f. s \<le> ?H \<longrightarrow> has_segment rx s"
    "f \<le> ?H \<and> \<not> has_segment rx f \<or> f = min 255 (?H + 1) \<and> (\<forall>s\<le>?H. has_segment rx s)"
    by (rule ack_block_cases [OF none])
  have beyond: "?H < s \<Longrightarrow> \<not> has_segment rx s" if "rx_final rx = None" for s
  proof
    assume s: "?H < s" and "has_segment rx s"
    then have "s \<in> set (map fst (rx_segments rx))" by (auto simp: has_segment_def map_of_eq_None_iff)
    moreover have "fold max (map fst (rx_segments rx)) 0 \<le> ?H" using that by (simp add: highest_segment_def)
    ultimately have "s \<le> ?H" unfolding fold_max_le by blast
    with s show False by simp
  qed
  have f: "\<not> has_segment rx f" "\<forall>s<f. has_segment rx s" "f < n"
  proof -
    have "\<not> has_segment rx f \<and> (\<forall>s<f. has_segment rx s) \<and> f < n"
    proof (cases "f \<le> ?H \<and> \<not> has_segment rx f")
      case True
      with b(3) h show ?thesis by auto
    next
      case False
      with b(4) have c: "f = min 255 (?H + 1)" "\<forall>s\<le>?H. has_segment rx s" by auto
      have "rx_final rx = None"
        using part c(2) by (auto simp: all_received_def highest_segment_def list_all_iff less_Suc_eq_le simp del: upt_Suc split: option.splits)
      note beyond = beyond [OF this]
      from gap c(2) have "?H + 1 < n \<or> ?H + 1 = n" using h by linarith
      moreover have "?H + 1 \<noteq> n" using gap c(2) by (metis Suc_eq_plus1 less_Suc_eq_le)
      ultimately have "?H + 1 < n" by blast
      then have "f = ?H + 1" using c(1) h by simp
      with beyond [of f] c(2) \<open>?H + 1 < n\<close> show ?thesis by (auto simp: less_Suc_eq_le)
    qed
    then show "\<not> has_segment rx f" "\<forall>s<f. has_segment rx s" "f < n" by auto
  qed
  have l: "max f (min (f + 61) ?H) = max f l" using b(2) h by auto
  have bits: "filter (\<lambda>s. s < n) (f # filter ?p [f + 1..<max f l + 1]) = f # filter ?p [f + 1..<max f l + 1]"
  proof -
    have "max f l < n" using b(2) h f(3) by auto
    then have "\<forall>s \<in> set (f # filter ?p [f + 1..<max f l + 1]). s < n" using f(3) by auto
    then show ?thesis by (rule filter_True)
  qed
  have "concat (map (\<lambda>(offset, received). if received then [] else [f + offset + 1])
      (enumerate 0 (map (has_segment rx) [min 255 (f + 1)..<l + 1]))) = filter ?p [f + 1..<max f l + 1]"
    if "f < 255"
  proof -
    have "min 255 (f + 1) = f + 0 + 1" using that by simp
    moreover have "[f + 1..<l + 1] = [f + 1..<max f l + 1]" by (auto simp: max_def)
    ultimately show ?thesis using concat_enumerate_map [of f 0 "has_segment rx" "l + 1"] by simp
  qed
  then have "block_missing (acknowledgement_block rx) n = f # filter ?p [f + 1..<max f l + 1]"
  proof (cases "f < 255")
    case True
    then show ?thesis using bits \<open>f < 255 \<Longrightarrow> _\<close> unfolding block_missing_def b(1) by simp
  next
    case False
    then have f255: "f = 255" "n = 256" using f(3) h(2) by auto
    then have "[min 255 (f + 1)..<l + 1] = [] \<or> [min 255 (f + 1)..<l + 1] = [255]" using b(2) by (auto simp: min_def)
    moreover have "filter ?p [f + 1..<max f l + 1] = []" using f255 b(2) by simp
    ultimately show ?thesis using f255 f(1) unfolding block_missing_def b(1) by auto
  qed
  moreover have "filter ?p [0..<max f l + 1] = f # filter ?p [f + 1..<max f l + 1]"
  proof -
    have "[0..<max f l + 1] = [0..<f] @ [f..<max f l + 1]" using upt_add_eq_append [of 0 f "max f l + 1 - f"] by simp
    also have "[f..<max f l + 1] = f # [f + 1..<max f l + 1]" by (simp add: upt_conv_Cons del: upt_Suc)
    finally have "[0..<max f l + 1] = [0..<f] @ f # [f + 1..<max f l + 1]" .
    then show ?thesis using f(1,2) by simp
  qed
  ultimately show ?thesis using f(1,2) l by (intro exI [of _ f]) simp
qed

text \<open>What a block of the station says of SDU \<open>k\<close>.\<close>

definition block_tells :: "sdu_segments \<Rightarrow> (nat \<times> nat) set \<Rightarrow> nat \<Rightarrow> al_ack_block \<Rightarrow> bool" where
  "block_tells segs R k block \<longleftrightarrow> ab_nr block = k mod 8
     \<and> (if \<forall>j<length (segs k). (k, j) \<in> R then block = whole_ack (k mod 8)
        else block_missing block (length (segs k)) \<noteq> []
          \<and> (\<exists>bound. block_missing block (length (segs k)) = filter (\<lambda>j. (k, j) \<notin> R) [0..<bound]))"

context bit_buffer
begin

lemma entry_tells:
  assumes e: "entry_inv segs R k rx" and ok: "segs_ok segs"
  shows "block_tells segs R k (acknowledgement_block rx)"
proof (cases "rx_complete rx")
  case (Some b)
  then show ?thesis using e by (simp add: block_tells_def entry_inv_def entry_core_def arrived_def acknowledgement_block_def whole_ack_def)
next
  case None
  have core: "entry_core segs R k rx" and miss: "\<not> arrived R (length (segs k)) k" using e None by (simp_all add: entry_inv_def)
  have l: "1 \<le> length (segs k)" "length (segs k) \<le> 256" using ok by (auto simp: segs_ok_def)
  have "\<not> all_received rx" using entry_all_received [OF core l(1)] miss by blast
  moreover have "\<exists>s<length (segs k). \<not> has_segment rx s" using miss core by (auto simp: arrived_def entry_core_def)
  ultimately obtain least where m: "\<not> has_segment rx least" "\<forall>s<least. has_segment rx s"
    "block_missing (acknowledgement_block rx) (length (segs k))
      = filter (\<lambda>s. \<not> has_segment rx s) [0..<max least (min (least + 61) (highest_segment rx)) + 1]"
    using block_missing_exact [OF None _ entry_highest [OF core l(1)] l(2)] by blast
  have ns: "ab_nr (acknowledgement_block rx) = k mod 8" using core None by (simp add: acknowledgement_block_def Let_def entry_core_def)
  obtain s where s: "s < length (segs k)" "\<not> has_segment rx s" using \<open>\<exists>s<length (segs k). \<not> has_segment rx s\<close> by blast
  then have "\<not> s < least" using m(2) by blast
  with s(1) have ll: "least < length (segs k)" by simp
  let ?B = "max least (min (least + 61) (highest_segment rx)) + 1"
  have "filter (\<lambda>s. \<not> has_segment rx s) [0..<?B] = filter (\<lambda>j. (k, j) \<notin> R) [0..<?B]"
  proof (rule filter_cong [OF refl])
    fix t assume "t \<in> set [0..<?B]"
    then have "t < length (segs k)" using ll entry_highest [OF core l(1)] by auto
    then show "(\<not> has_segment rx t) \<longleftrightarrow> (k, t) \<notin> R" using core by (simp add: entry_core_def)
  qed
  moreover have "least \<in> set (filter (\<lambda>s. \<not> has_segment rx s) [0..<?B])"
    unfolding set_filter set_upt using m(1) by simp
  ultimately show ?thesis using m(3) ns miss unfolding block_tells_def arrived_def by (auto simp del: upt_Suc set_filter)
qed

lemma window_tells:
  assumes inv: "window_inv segs R n link" and ok: "segs_ok segs"
  shows "\<exists>pdu d blocks. send_al_ack ops (acknowledgement_blocks link None) = Some [AckPdu pdu]
    \<and> llc_read ops pdu = Some (Inr (PAlAck \<lparr>aa_receiver_ready = True, aa_blocks = blocks\<rparr>), d)
    \<and> length blocks = li_window_size link \<and> (\<forall>i<li_window_size link. block_tells segs R (n + i) (blocks ! i))"
proof -
  let ?blocks = "acknowledgement_blocks link None" and ?ack = "PAlAck \<lparr>aa_receiver_ready = True, aa_blocks = acknowledgement_blocks link None\<rparr>"
  from window_acks [OF inv ok] obtain pdu where
    p: "send_al_ack ops ?blocks = Some [AckPdu pdu]" "at_start (view pdu) (llc_bits ?ack)" "llc_ok ?ack" by auto
  have "view_wf (view pdu)" "remaining (view pdu) = llc_bits ?ack @ []" using at_start_facts [OF p(2)] by simp_all
  from llc_reads [OF p(3) this] obtain d where d: "llc_read ops pdu = Some (Inr ?ack, d)" by auto
  have "block_tells segs R (n + i) (?blocks ! i)" if i: "i < li_window_size link" for i
  proof (cases "map_of (li_rx_sdus link) ((n + i) mod 8)")
    case None
    with i window_entry [OF inv, of "n + i"] have none: "\<forall>j. (n + i, j) \<notin> R" by simp
    have "segs (n + i) \<noteq> []" using ok [unfolded segs_ok_def, rule_format, of "n + i"] by auto
    moreover from this have "filter (\<lambda>s. s < length (segs (n + i))) [0] = filter (\<lambda>j. (n + i, j) \<notin> R) [0..<1]" using none by simp
    ultimately show ?thesis using none window_block [OF inv i] None
      by (auto simp: block_tells_def block_missing_def intro: exI [of _ 1])
  next
    case (Some rx)
    with i window_entry [OF inv, of "n + i"] have "entry_inv segs R (n + i) rx" by simp
    from entry_tells [OF this ok] window_block [OF inv i] Some show ?thesis by simp
  qed
  with p(1) d show ?thesis by (intro exI [of _ pdu] exI [of _ d] exI [of _ ?blocks]) (simp add: acknowledgement_blocks_def)
qed

lemma al_receive_acks:
  assumes ok: "segs_ok segs" and l: "map_of links issi = Some link" and link: "li_reset link = None" "1 \<le> li_window_size link"
      "li_window_size link \<le> 3" "li_next_rx_ns link = 0" "li_rx_sdus link = []"
    and as: "admissible segs (li_window_size link) [] as"
    and pdus: "list_all2 (\<lambda>pdu a. view_wf (view pdu) \<and> remaining (view pdu) = arrival_bits segs a) pdus as"
  shows "\<exists>links' outs link' pdu d blocks. al_receive ops issi pdus links = Some (links', outs)
    \<and> map_of links' issi = Some link'
    \<and> send_al_ack ops (acknowledgement_blocks link' None) = Some [AckPdu pdu]
    \<and> llc_read ops pdu = Some (Inr (PAlAck \<lparr>aa_receiver_ready = True, aa_blocks = blocks\<rparr>), d)
    \<and> length blocks = li_window_size link
    \<and> (\<forall>i<li_window_size link. block_tells segs (set (seen_after [] as)) (first_gap segs (seen_after [] as) + i) (blocks ! i))"
proof -
  from al_receive_run [OF ok l rx_inv_fresh [OF ok link] as pdus] obtain links' outs link' m where
    r: "al_receive ops issi pdus links = Some (links', outs)" "map_of links' issi = Some link'" "0 \<le> m"
      "rx_inv segs (set (seen_after [] as)) m link'" "li_window_size link' = li_window_size link"
      "list_all2 (\<lambda>b xs. at_start (view b) xs) (deliveries outs) (map (sdu_of segs) [0..<m])" by blast
  have "first_gap segs (seen_after [] as) = m"
    using first_gap_unique [OF ok] r(4) by (auto simp: rx_inv_def window_inv_def)
  moreover have "window_inv segs (set (seen_after [] as)) m link'" using r(4) by (simp add: rx_inv_def)
  ultimately show ?thesis using r(1,2,5) window_tells [OF _ ok, of "set (seen_after [] as)" m link'] by auto
qed

end

section \<open>Properties\<close>

text \<open>C28: The advanced link delivers each SDU once, in order and intact. Whatever way a sender has cut its SDUs into at
  most 256 segments that carry a good check, and in whatever order their segments reach the station,
  repeated ones included, as long as each lies in the window of the protocol (counted from the first SDU
  that is not complete), the station handles all of them without panicking and hands up exactly the SDUs
  before the first gap, in the order of their numbers, each without its check.\<close>

theorem al_receive_in_order:
  assumes "bit_buffer ops view" and "segs_ok segs"
    and "map_of links issi = Some link" and "li_reset link = None" and "1 \<le> li_window_size link"
    and "li_window_size link \<le> 3" and "li_next_rx_ns link = 0" and "li_rx_sdus link = []"
    and "admissible segs (li_window_size link) [] as"
    and "list_all2 (\<lambda>pdu a. view_wf (view pdu) \<and> remaining (view pdu) = arrival_bits segs a) pdus as"
  shows "\<exists>links' outs. al_receive ops issi pdus links = Some (links', outs)
    \<and> list_all2 (\<lambda>b xs. at_start (view b) xs) (deliveries outs) (map (sdu_of segs) [0..<first_gap segs (seen_after [] as)])"
  by (rule bit_buffer.al_receive_fresh [OF assms])

text \<open>The example: each SDU is one bit, cut before its check; two SDUs arrive back to front and interleaved.\<close>

definition example_segs :: sdu_segments where
  "example_segs k = [[odd k], word_bits (fcs_of [odd k])]"

definition example_arrivals :: "arrival list" where
  "example_arrivals = [(1, 1, False), (0, 1, True), (1, 0, False), (0, 0, False), (0, 0, True), (3, 1, True)]"

definition example_setup :: al_setup where
  "example_setup = \<lparr>as_acknowledged = True, as_link_number = 0, as_maximum_sdu = 4, as_connection_width = False,
     as_asymmetric = False, as_uplink_slots = None, as_downlink_slots = None, as_throughput = 0, as_window_size = 2,
     as_sdu_retransmissions = 3, as_segment_retransmissions = 3, as_report = 1\<rparr>"

definition example_pdu :: "arrival \<Rightarrow> buf_view" where
  "example_pdu a = (let xs = arrival_bits example_segs a in
     \<lparr>raw_bits = xs, raw_start = 0, raw_pos = 0, raw_end = length xs, raw_auto = False\<rparr>)"

lemma example_facts:
  "segs_ok example_segs"
  "admissible example_segs 2 [] example_arrivals"
  "first_gap example_segs (seen_after [] example_arrivals) = 2"
  "list_all2 (\<lambda>pdu a. view_wf pdu \<and> remaining pdu = arrival_bits example_segs a) (map example_pdu example_arrivals) example_arrivals"
  "map (sdu_of example_segs) [0..<2] = [[False], [True]]"
proof -
  have seg: "concat (example_segs k) = [odd k] @ word_bits (fcs_of [odd k])" for k by (simp add: example_segs_def)
  show "segs_ok example_segs" by (simp only: segs_ok_def seg fcs_ok_sent) (simp add: example_segs_def)
  have len: "length (example_segs k) = 2" for k by (simp add: example_segs_def)
  have "admissible segs 2 [] example_arrivals" "first_gap segs (seen_after [] example_arrivals) = 2"
    if "\<And>k. length (segs k) = 2" for segs :: sdu_segments
    using that by (auto simp: example_arrivals_def first_gap_def less_Suc_eq numeral_2_eq_2 numeral_3_eq_3 upt_rec)
  from this [OF len] show "admissible example_segs 2 [] example_arrivals" "first_gap example_segs (seen_after [] example_arrivals) = 2" .
  show "list_all2 (\<lambda>pdu a. view_wf pdu \<and> remaining pdu = arrival_bits example_segs a) (map example_pdu example_arrivals) example_arrivals"
    by (simp add: list_all2_map1 list_all2_same example_pdu_def Let_def view_wf_def remaining_def)
  show "map (sdu_of example_segs) [0..<2] = [[False], [True]]"
    by (simp add: sdu_of_def seg upt_rec)
qed

lemma al_receive_in_order_witness:
  "\<exists>links' outs. al_receive view_ops 7 (map example_pdu example_arrivals)
       [(7, negotiated_link example_setup 0 default_time :: (buf_view, unit) al_link)] = Some (links', outs)
     \<and> list_all2 at_start (deliveries outs) [[False], [True]]"
proof -
  let ?link = "negotiated_link example_setup 0 default_time :: (buf_view, unit) al_link"
  have l: "map_of [(7, ?link)] (7 :: u32) = Some ?link" by simp
  have w: "li_window_size ?link = 2" by (simp add: negotiated_link_def setup_window_def example_setup_def)
  have link: "li_reset ?link = None" "1 \<le> li_window_size ?link" "li_window_size ?link \<le> 3" "li_next_rx_ns ?link = 0" "li_rx_sdus ?link = []"
    unfolding w by (simp_all add: negotiated_link_def)
  from al_receive_in_order [OF view_machine.bit_buffer_axioms example_facts(1) l link, unfolded w, OF example_facts(2), of "map example_pdu example_arrivals"]
  show ?thesis using example_facts(3-5) by simp
qed

text \<open>C30: What the station acknowledges is what it has: after any admissible arrivals, the acknowledgement of the whole
  window can be encoded, and a sender that parses it finds for each SDU of the window a block that
  either confirms the SDU entirely, exactly when every segment has arrived, or makes it retransmit a
  non-empty list that holds exactly the missing segments below some bound, so never one that arrived.\<close>

theorem al_ack_tells_missing:
  assumes "bit_buffer ops view" and "segs_ok segs"
    and "map_of links issi = Some link" and "li_reset link = None" and "1 \<le> li_window_size link"
    and "li_window_size link \<le> 3" and "li_next_rx_ns link = 0" and "li_rx_sdus link = []"
    and "admissible segs (li_window_size link) [] as"
    and "list_all2 (\<lambda>pdu a. view_wf (view pdu) \<and> remaining (view pdu) = arrival_bits segs a) pdus as"
  shows "\<exists>links' outs link' pdu d blocks. al_receive ops issi pdus links = Some (links', outs)
    \<and> map_of links' issi = Some link'
    \<and> send_al_ack ops (acknowledgement_blocks link' None) = Some [AckPdu pdu]
    \<and> llc_read ops pdu = Some (Inr (PAlAck \<lparr>aa_receiver_ready = True, aa_blocks = blocks\<rparr>), d)
    \<and> length blocks = li_window_size link
    \<and> (\<forall>i<li_window_size link. block_tells segs (set (seen_after [] as)) (first_gap segs (seen_after [] as) + i) (blocks ! i))"
  by (rule bit_buffer.al_receive_acks [OF assms])

lemma al_ack_tells_missing_witness:
  "\<exists>links' outs link' pdu d blocks. al_receive view_ops 7 (map example_pdu example_arrivals)
       [(7, negotiated_link example_setup 0 default_time :: (buf_view, unit) al_link)] = Some (links', outs)
     \<and> map_of links' 7 = Some link' \<and> send_al_ack view_ops (acknowledgement_blocks link' None) = Some [AckPdu pdu]
     \<and> llc_read view_ops pdu = Some (Inr (PAlAck \<lparr>aa_receiver_ready = True, aa_blocks = blocks\<rparr>), d)
     \<and> length blocks = 2 \<and> block_missing (blocks ! 1) 2 = [0]"
proof -
  let ?link = "negotiated_link example_setup 0 default_time :: (buf_view, unit) al_link"
  have l: "map_of [(7, ?link)] (7 :: u32) = Some ?link" by simp
  have w: "li_window_size ?link = 2" by (simp add: negotiated_link_def setup_window_def example_setup_def)
  have link: "li_reset ?link = None" "1 \<le> li_window_size ?link" "li_window_size ?link \<le> 3" "li_next_rx_ns ?link = 0" "li_rx_sdus ?link = []"
    unfolding w by (simp_all add: negotiated_link_def)
  have tells: "block_missing b 2 = [0]" if t: "block_tells example_segs (set (seen_after [] example_arrivals)) 3 b" for b
  proof -
    let ?R = "set (seen_after [] example_arrivals)"
    have len: "length (example_segs 3) = 2" by (simp add: example_segs_def)
    have R: "(3, 0) \<notin> ?R" "(3, 1) \<in> ?R" "(3, 2) \<notin> ?R" by (simp_all add: example_arrivals_def)
    from R(1) have "\<not> (\<forall>j<2. (3, j) \<in> ?R)" by force
    with t obtain bound where ne: "block_missing b 2 \<noteq> []" and
      m: "block_missing b 2 = filter (\<lambda>j. (3, j) \<notin> ?R) [0..<bound]" unfolding block_tells_def len by auto
    have "\<forall>s \<in> set (block_missing b 2). s < 2" by (auto simp: block_missing_def split: option.splits)
    then have "2 \<notin> set (filter (\<lambda>j. (3, j) \<notin> ?R) [0..<bound])" unfolding m by blast
    with R(3) have "bound \<le> 2" by (simp add: not_less [symmetric])
    then have "bound = 0 \<or> bound = 1 \<or> bound = 2" by linarith
    with m ne R(1,2) show ?thesis by (elim disjE) (simp_all add: upt_rec del: set_simps)
  qed
  from al_ack_tells_missing [OF view_machine.bit_buffer_axioms example_facts(1) l link, unfolded w, OF example_facts(2,4)]
  obtain links' outs link' pdu d blocks where
    r: "al_receive view_ops 7 (map example_pdu example_arrivals) [(7, ?link)] = Some (links', outs)" "map_of links' 7 = Some link'"
      "send_al_ack view_ops (acknowledgement_blocks link' None) = Some [AckPdu pdu]"
      "llc_read view_ops pdu = Some (Inr (PAlAck \<lparr>aa_receiver_ready = True, aa_blocks = blocks\<rparr>), d)"
      "length blocks = 2" "\<forall>i<2. block_tells example_segs (set (seen_after [] example_arrivals)) (2 + i) (blocks ! i)"
    unfolding example_facts(3) by blast
  have "block_missing (blocks ! 1) 2 = [0]" by (rule tells) (use r(6) [rule_format, of 1] in simp)
  with r show ?thesis by blast
qed

end
