(* ===== verification/Llc_Segments.thy ===== *)
theory Llc_Segments
  imports Llc_Receive
begin

text \<open>
  How the station cuts an SDU of the advanced link into segments, \<open>advanced_segments\<close> of
  \<^verbatim>\<open>crates/tetra-entities/src/llc/llc_bs_ms.rs\<close>: the check is appended and the whole is cut into segments of
  one length, of which the last keeps at least the check.
\<close>

section \<open>Definitions\<close>

definition AL_DOWNLINK_SEGMENT_BITS :: nat where
  "AL_DOWNLINK_SEGMENT_BITS = 214"

definition AL_FINAL_FCS_BITS :: nat where
  "AL_FINAL_FCS_BITS = 32"

definition segment_lengths :: "nat \<Rightarrow> nat list" where
  "segment_lengths total_bits =
     (if total_bits \<le> AL_DOWNLINK_SEGMENT_BITS then [total_bits]
      else
        let segment_count = (total_bits + AL_DOWNLINK_SEGMENT_BITS - 1) div AL_DOWNLINK_SEGMENT_BITS;
          non_final_length = min AL_DOWNLINK_SEGMENT_BITS ((total_bits - AL_FINAL_FCS_BITS) div (segment_count - 1))
        in replicate (segment_count - 1) non_final_length @ [total_bits - non_final_length * (segment_count - 1)])"

definition advanced_segments :: "'b bitbuf_ops \<Rightarrow> 'b \<Rightarrow> 'b list option" where
  "advanced_segments ops tl_sdu = do {
     (protected, tl_sdu) \<leftarrow> bb_copy_bits ops (bb_new_autoexpand ops (bb_get_len_remaining ops tl_sdu + 32)) tl_sdu
       (bb_get_len_remaining ops tl_sdu);
     checksum \<leftarrow> compute_fcs ops protected 0 (bb_get_len_written ops protected);
     protected \<leftarrow> bb_write_bits ops protected (unat checksum) 32;
     protected \<leftarrow> bb_seek ops protected 0;
     (segments, protected) \<leftarrow> for_loop (segment_lengths (bb_get_len_remaining ops protected)) (\<lambda>len (segments, protected). do {
       (segment, protected) \<leftarrow> bb_copy_bits ops (bb_new_autoexpand ops len) protected len;
       segment \<leftarrow> bb_seek ops segment 0;
       Some (segments @ [segment], protected) }) ([], protected);
     Some segments }"

text \<open>A list cut into pieces of the given lengths.\<close>

fun cut :: "nat list \<Rightarrow> 'a list \<Rightarrow> 'a list list" where
  "cut [] xs = []"
| "cut (n # ns) xs = take n xs # cut ns (drop n xs)"

lemma concat_cut: "sum_list ns = length xs \<Longrightarrow> concat (cut ns xs) = xs"
  by (induction ns xs rule: cut.induct) auto

lemma length_cut [simp]: "length (cut ns xs) = length ns"
  by (induction ns xs rule: cut.induct) auto

lemma map_length_cut: "sum_list ns \<le> length xs \<Longrightarrow> map length (cut ns xs) = ns"
  by (induction ns xs rule: cut.induct) auto

section \<open>The lengths\<close>

lemma segment_count:
  assumes "AL_DOWNLINK_SEGMENT_BITS < t"
  defines "n \<equiv> (t + AL_DOWNLINK_SEGMENT_BITS - 1) div AL_DOWNLINK_SEGMENT_BITS"
  shows "2 \<le> n" and "214 * (n - 1) < t" and "t \<le> 214 * n"
proof -
  have n: "n = (t + 213) div 214" by (simp add: n_def AL_DOWNLINK_SEGMENT_BITS_def)
  have "214 < t" using assms(1) by (simp add: AL_DOWNLINK_SEGMENT_BITS_def)
  then show "2 \<le> n" "214 * (n - 1) < t" "t \<le> 214 * n" unfolding n by linarith+
qed

lemma segment_lengths_facts:
  assumes "32 \<le> t"
  shows "sum_list (segment_lengths t) = t" and "segment_lengths t \<noteq> []"
    and "32 \<le> last (segment_lengths t)" and "\<forall>x \<in> set (butlast (segment_lengths t)). x \<le> 214"
    and "length (segment_lengths t) = max 1 ((t + 213) div 214)"
    and "\<exists>m. set (butlast (segment_lengths t)) \<subseteq> {m}"
    and "t \<le> 214 * 184 \<Longrightarrow> last (segment_lengths t) \<le> 214"
proof -
  have "sum_list (segment_lengths t) = t \<and> segment_lengths t \<noteq> [] \<and> 32 \<le> last (segment_lengths t)
    \<and> (\<forall>x \<in> set (butlast (segment_lengths t)). x \<le> 214) \<and> length (segment_lengths t) = max 1 ((t + 213) div 214)
    \<and> (\<exists>m. set (butlast (segment_lengths t)) \<subseteq> {m}) \<and> (t \<le> 214 * 184 \<longrightarrow> last (segment_lengths t) \<le> 214)"
  proof (cases "t \<le> AL_DOWNLINK_SEGMENT_BITS")
    case True
    then show ?thesis using assms by (auto simp: segment_lengths_def AL_DOWNLINK_SEGMENT_BITS_def)
  next
    case False
    define n where "n = (t + AL_DOWNLINK_SEGMENT_BITS - 1) div AL_DOWNLINK_SEGMENT_BITS"
    note c = segment_count [of t, folded n_def]
    have n: "2 \<le> n" "214 * (n - 1) < t" "t \<le> 214 * n" using c False by auto
    define m where "m = min 214 ((t - 32) div (n - 1))"
    have lens: "segment_lengths t = replicate (n - 1) m @ [t - m * (n - 1)]"
      using False by (simp add: segment_lengths_def Let_def n_def m_def AL_FINAL_FCS_BITS_def AL_DOWNLINK_SEGMENT_BITS_def)
    have d: "(t - 32) div (n - 1) * (n - 1) \<le> t - 32" "t - 32 < ((t - 32) div (n - 1) + 1) * (n - 1)"
      using n(1) dividend_less_div_times [of "n - 1" "t - 32"] div_times_less_eq_dividend [of "t - 32" "n - 1"]
      by (simp_all add: algebra_simps)
    have "m \<le> (t - 32) div (n - 1)" by (simp add: m_def)
    from mult_le_mono1 [OF this, of "n - 1"] d(1) have m: "m * (n - 1) \<le> t - 32" by (rule order_trans)
    have "t - m * (n - 1) \<le> 214" if "t \<le> 214 * 184"
    proof (cases "214 \<le> (t - 32) div (n - 1)")
      case True
      then have "m = 214" by (simp add: m_def)
      with n show ?thesis by (simp add: diff_mult_distrib2)
    next
      case False
      then have "m = (t - 32) div (n - 1)" by (simp add: m_def)
      then have "t - 32 < m * (n - 1) + (n - 1)" using d(2) by (simp add: algebra_simps)
      moreover have "n \<le> 184" using n(2) that by linarith
      ultimately show ?thesis by linarith
    qed
    moreover have "sum_list (segment_lengths t) = t" "32 \<le> last (segment_lengths t)"
      using m assms unfolding lens by (simp_all add: sum_list_replicate mult.commute)
    moreover have "m \<le> 214" by (simp add: m_def)
    then have "\<forall>x \<in> set (butlast (segment_lengths t)). x \<le> 214" "\<exists>m. set (butlast (segment_lengths t)) \<subseteq> {m}"
      unfolding lens butlast_snoc by (auto simp: set_replicate_conv_if)
    moreover have "length (segment_lengths t) = max 1 ((t + 213) div 214)"
      using n(1) unfolding lens by (simp add: n_def AL_DOWNLINK_SEGMENT_BITS_def)
    moreover have "segment_lengths t \<noteq> []" "last (segment_lengths t) = t - m * (n - 1)" unfolding lens by simp_all
    ultimately show ?thesis by simp
  qed
  then show "sum_list (segment_lengths t) = t" and "segment_lengths t \<noteq> []"
    and "32 \<le> last (segment_lengths t)" and "\<forall>x \<in> set (butlast (segment_lengths t)). x \<le> 214"
    and "length (segment_lengths t) = max 1 ((t + 213) div 214)"
    and "\<exists>m. set (butlast (segment_lengths t)) \<subseteq> {m}"
    and "t \<le> 214 * 184 \<Longrightarrow> last (segment_lengths t) \<le> 214" by blast+
qed

section \<open>Growing buffers\<close>

definition auto_buf :: "bool list \<Rightarrow> nat \<Rightarrow> buf_view" where
  "auto_buf xs p = \<lparr>raw_bits = xs, raw_start = 0, raw_pos = p, raw_end = length xs, raw_auto = True\<rparr>"

lemma auto_buf_facts [simp]:
  "p \<le> length xs \<Longrightarrow> view_wf (auto_buf xs p)" "remaining (auto_buf xs p) = drop p xs" "window (auto_buf xs p) = xs"
  "at_start (auto_buf xs 0) xs" "put_bits (auto_buf xs (length xs)) ys = auto_buf (xs @ ys) (length xs + length ys)"
  "can_write (auto_buf xs (length xs)) n" "advance (auto_buf xs p) n = auto_buf xs (p + n)" "(auto_buf xs p)\<lparr>raw_pos := q\<rparr> = auto_buf xs q"
  "raw_end (auto_buf xs p) = length xs" "raw_start (auto_buf xs p) = 0" "raw_pos (auto_buf xs p) = p"
  by (simp_all add: auto_buf_def view_wf_def remaining_def window_def at_start_def put_bits_def can_write_def growable_def advance_def overwrite_def)

context bit_buffer
begin

lemma new_auto_buf: "view (bb_new_autoexpand ops n) = auto_buf [] 0"
  by (simp add: new_autoexpand auto_buf_def)

lemma seek_auto_buf: "\<lbrakk>view b = auto_buf xs p; p \<le> length xs; q \<le> length xs\<rbrakk> \<Longrightarrow> \<exists>c. bb_seek ops b q = Some c \<and> view c = auto_buf xs q"
  using seek [of b q] by auto

lemma copy_fresh:
  assumes "view_wf (view s)" and "n \<le> length (remaining (view s))"
  shows "\<exists>b s'. bb_copy_bits ops (bb_new_autoexpand ops m) s n = Some (b, s') \<and> view b = auto_buf (take n (remaining (view s))) n
    \<and> view s' = advance (view s) n"
proof -
  have "can_write (view (bb_new_autoexpand ops m)) n" using auto_buf_facts(6) [of "[]"] by (simp add: new_auto_buf)
  moreover have "raw_pos (view s) + n \<le> raw_end (view s)" using assms length_remaining [OF assms(1)] by (auto simp: view_wf_def)
  ultimately obtain b s' where "bb_copy_bits ops (bb_new_autoexpand ops m) s n = Some (b, s')"
    "view b = put_bits (auto_buf [] 0) (take n (remaining (view s)))" "view s' = advance (view s) n"
    using copy_bits [of "bb_new_autoexpand ops m" n s] assms(1) by (auto simp: new_auto_buf)
  then show ?thesis using assms(2) auto_buf_facts(5) [of "[]"] by simp
qed

lemma cut_loop:
  assumes "view_wf (view p)" and "sum_list lens \<le> length (remaining (view p))"
  shows "\<exists>segs p'. for_loop lens (\<lambda>len (segments, protected). do {
       (segment, protected) \<leftarrow> bb_copy_bits ops (bb_new_autoexpand ops len) protected len;
       segment \<leftarrow> bb_seek ops segment 0;
       Some (segments @ [segment], protected) }) (acc, p) = Some (acc @ segs, p')
    \<and> list_all2 (\<lambda>b xs. at_start (view b) xs) segs (cut lens (remaining (view p)))"
  using assms
proof (induction lens arbitrary: acc p)
  case (Cons n lens)
  then have n: "n \<le> length (remaining (view p))" by simp
  from copy_fresh [OF Cons.prems(1) n] obtain b q where
    b: "bb_copy_bits ops (bb_new_autoexpand ops n) p n = Some (b, q)" "view b = auto_buf (take n (remaining (view p))) n" "view q = advance (view p) n" by blast
  from seek_auto_buf [OF b(2)] n obtain c where c: "bb_seek ops b 0 = Some c" "view c = auto_buf (take n (remaining (view p))) 0" by auto
  have q: "view_wf (view q)" "remaining (view q) = drop n (remaining (view p))" using b(3) n Cons.prems(1) by (simp_all add: advance_wf remaining_advance)
  then have "sum_list lens \<le> length (remaining (view q))" using Cons.prems(2) by simp
  from Cons.IH [OF q(1) this, of "acc @ [c]"] obtain segs p' where
    "for_loop lens (\<lambda>len (segments, protected). do {
       (segment, protected) \<leftarrow> bb_copy_bits ops (bb_new_autoexpand ops len) protected len;
       segment \<leftarrow> bb_seek ops segment 0;
       Some (segments @ [segment], protected) }) (acc @ [c], q) = Some ((acc @ [c]) @ segs, p')"
    "list_all2 (\<lambda>b xs. at_start (view b) xs) segs (cut lens (remaining (view q)))" by blast
  with b c q(2) show ?case by (intro exI [of _ "c # segs"]) auto
qed simp

lemma advanced_segments_view:
  assumes wf: "view_wf (view sdu)"
  defines "all \<equiv> remaining (view sdu) @ word_bits (fcs_of (remaining (view sdu)))"
  shows "\<exists>segs. advanced_segments ops sdu = Some segs
    \<and> list_all2 (\<lambda>b xs. at_start (view b) xs) segs (cut (segment_lengths (length all)) all)"
proof -
  let ?xs = "remaining (view sdu)"
  have n: "bb_get_len_remaining ops sdu = length ?xs" using get_len_remaining [OF wf] length_remaining [OF wf] by simp
  from copy_fresh [OF wf order_refl, of "length ?xs + 32"] obtain b s where
    b: "bb_copy_bits ops (bb_new_autoexpand ops (length ?xs + 32)) sdu (length ?xs) = Some (b, s)" "view b = auto_buf ?xs (length ?xs)" by auto
  have wfb: "view_wf (view b)" by (simp add: b(2))
  have c: "compute_fcs ops b 0 (bb_get_len_written ops b) = Some (fcs_of ?xs)"
    using compute_fcs_view [OF wfb, of 0 "length ?xs"] get_len_written [OF wfb] by (simp add: b(2))
  have "unat (fcs_of ?xs) < 2 ^ 32" using unsigned_less [of "fcs_of ?xs", where ?'a = nat] by simp
  from write_bits_put [of b 32 "unat (fcs_of ?xs)", OF _ _ this] b(2) obtain e where
    e: "bb_write_bits ops b (unat (fcs_of ?xs)) 32 = Some e" "view e = auto_buf all (length all)"
    by (auto simp: all_def word_bits_val_bits)
  from seek_auto_buf [OF e(2)] obtain f where f: "bb_seek ops e 0 = Some f" "view f = auto_buf all 0" by auto
  have wff: "view_wf (view f)" "remaining (view f) = all" by (simp_all add: f(2))
  have "32 \<le> length all" by (simp add: all_def)
  from segment_lengths_facts(1) [OF this] have "sum_list (segment_lengths (length all)) \<le> length (remaining (view f))" by (simp add: wff)
  from cut_loop [OF wff(1) this, of "[]"] show ?thesis
    using n b(1) c e(1) f(1) get_len_remaining [OF wff(1)] f(2) wff(2) by (auto simp: advanced_segments_def)
qed

end

section \<open>Properties\<close>

text \<open>C36: Whatever SDU the station sends over an advanced link, the segments it makes are a division the receiving side
  accepts: put together they are the SDU followed by its check, so a receiver that has them all hands
  up the SDU itself; no segment but the last is longer than a downlink block holds (214 bits), all of
  them have one length, the last keeps the whole check, and the last fits as well whenever the SDU is at most
  4918 octets long. An SDU of at most 6844 octets needs at most 256 segments, which is what the eight-bit
  segment number can count.\<close>

theorem advanced_segments_accepted:
  assumes "bit_buffer ops view" and "view_wf (view sdu)" and "remaining (view sdu) = xs"
  shows "\<exists>segs parts. advanced_segments ops sdu = Some segs \<and> list_all2 (\<lambda>b ys. at_start (view b) ys) segs parts
    \<and> concat parts = xs @ word_bits (fcs_of xs) \<and> parts \<noteq> []
    \<and> (length xs \<le> 8 * 6844 \<longrightarrow> segs_ok (\<lambda>k. parts) \<and> sdu_of (\<lambda>k. parts) 0 = xs)
    \<and> (\<exists>m \<le> 214. \<forall>part \<in> set (butlast parts). length part = m)
    \<and> 32 \<le> length (last parts) \<and> (length xs \<le> 8 * 4918 \<longrightarrow> length (last parts) \<le> 214)"
proof -
  define all where "all = xs @ word_bits (fcs_of xs)"
  define lens where "lens = segment_lengths (length all)"
  have "32 \<le> length all" and t: "length all = length xs + 32" by (simp_all add: all_def)
  note f = segment_lengths_facts [OF this(1), folded lens_def]
  from bit_buffer.advanced_segments_view [OF assms(1,2)] assms(3) obtain segs where
    segs: "advanced_segments ops sdu = Some segs" "list_all2 (\<lambda>b ys. at_start (view b) ys) segs (cut lens all)"
    by (auto simp: all_def lens_def)
  have cat: "concat (cut lens all) = all" and len: "map length (cut lens all) = lens" using f(1) by (simp_all add: concat_cut map_length_cut)
  then have ne: "cut lens all \<noteq> []" using f(2) by auto
  have last: "length (last (cut lens all)) = last lens" using ne len by (metis last_map)
  have butlast: "map length (butlast (cut lens all)) = butlast lens" using len by (metis map_butlast)
  obtain m where m: "set (butlast lens) \<subseteq> {m}" using f(6) by blast
  have one: "\<exists>m \<le> 214. \<forall>part \<in> set (butlast (cut lens all)). length part = m"
  proof (cases "butlast lens")
    case Nil
    then show ?thesis using butlast by (intro exI [of _ 0]) simp
  next
    case (Cons a as)
    then have "a \<le> 214" "a = m" using f(4) m by auto
    moreover have "\<forall>part \<in> set (butlast (cut lens all)). length part \<in> set (butlast lens)"
      unfolding butlast [symmetric] by simp
    ultimately show ?thesis using m by (intro exI [of _ m]) blast
  qed
  have good: "segs_ok (\<lambda>k. cut lens all) \<and> sdu_of (\<lambda>k. cut lens all) 0 = xs" if "length xs \<le> 8 * 6844"
  proof -
    have "(length all + 213) div 214 \<le> 256" using that t by simp
    then have "length lens \<le> 256" "1 \<le> length lens" using f(2,5) by (auto simp: Suc_le_eq)
    then show ?thesis by (simp add: segs_ok_def sdu_of_def cat) (simp add: all_def fcs_ok_sent)
  qed
  have "length xs \<le> 8 * 4918 \<Longrightarrow> last lens \<le> 214" using f(7) t by simp
  with segs cat ne one good last f(3) show ?thesis
    by (intro exI [of _ segs] exI [of _ "cut lens all"]) (simp add: all_def)
qed

lemma advanced_segments_accepted_witness:
  "\<exists>segs parts. advanced_segments view_ops (auto_buf (replicate 300 True) 0) = Some segs
     \<and> concat parts = replicate 300 True @ word_bits (fcs_of (replicate 300 True))
     \<and> segs_ok (\<lambda>k. parts) \<and> length (last parts) \<le> 214"
  using advanced_segments_accepted [OF view_machine.bit_buffer_axioms, of "auto_buf (replicate 300 True) 0"] by fastforce

end
