(* ===== verification/Llc_Send.thy ===== *)
theory Llc_Send
  imports Llc_Segments
begin

text \<open>
  The sending side of the acknowledged advanced link, \<^verbatim>\<open>crates/tetra-entities/src/llc/llc_bs_ms.rs\<close>: queueing of an
  SDU (\<open>rx_tla_tldata_req_al\<close>), acknowledgements (\<open>handle_al_ack\<close>), the work of a tick on one link
  (the loop body of \<open>submit_advanced_link_messages\<close>) and the in-place reset of a link that has given up.

  Transmit receipts are shared with the MAC, so every operation takes and returns the store of
  \<open>Tx_Receipt\<close>; \<open>None\<close> is a panic. Routes are elements of a type \<open>'r\<close>: the send path only counts and picks them.
\<close>

section \<open>Constants\<close>

definition T252_ACK_WAITING_TIMER :: int where "T252_ACK_WAITING_TIMER = 9 * 4"
definition T261_SETUP_WAITING_TIMER :: int where "T261_SETUP_WAITING_TIMER = 4 * 4"
definition T271_RECEIVER_NOT_READY_FOR_TX_TIMER :: int where "T271_RECEIVER_NOT_READY_FOR_TX_TIMER = 36 * 4"
definition N262_AL_MAX_CONNECTION_SETUP_RETRIES :: nat where "N262_AL_MAX_CONNECTION_SETUP_RETRIES = 3"
definition MAX_AL_ACK_REQUEST_REPEATS :: nat where "MAX_AL_ACK_REQUEST_REPEATS = 5"
definition MAX_PENDING_ADVANCED_TLSDUS_PER_LINK :: nat where "MAX_PENDING_ADVANCED_TLSDUS_PER_LINK = 64"

definition AL_SETUP_NEGOTIATION_TIMEOUT :: int where
  "AL_SETUP_NEGOTIATION_TIMEOUT = T261_SETUP_WAITING_TIMER * (int N262_AL_MAX_CONNECTION_SETUP_RETRIES + 1)"

text \<open>\<open>frames!\<close> counts four timeslots to a frame. A counter that saturates at the top of \<open>u8\<close>:\<close>

definition sat_inc :: "nat \<Rightarrow> nat" where
  "sat_inc n = min 255 (n + 1)"

section \<open>Receipts\<close>

definition mark_reporter_lost :: "tx_reporter \<Rightarrow> tx_store \<Rightarrow> tx_store option" where
  "mark_reporter_lost r st =
     (case get_state st r of
        Acknowledged \<Rightarrow> Some st
      | Lost \<Rightarrow> Some st
      | Pending \<Rightarrow> do { st \<leftarrow> mark_transmitted r (reset r st); mark_lost r st }
      | Discarded \<Rightarrow> do { st \<leftarrow> mark_transmitted r (reset r st); mark_lost r st }
      | Transmitted \<Rightarrow> mark_lost r st)"

definition mark_if_pending :: "tx_reporter \<Rightarrow> tx_store \<Rightarrow> tx_store option" where
  "mark_if_pending r st = (if get_state st r = Pending then mark_transmitted r st else Some st)"

definition reset_if_transmitted :: "tx_reporter \<Rightarrow> tx_store \<Rightarrow> tx_store" where
  "reset_if_transmitted r st = (if get_state st r = Transmitted then reset r st else st)"

definition mark_advanced_sdu_acknowledged :: "('b, 'm) al_tx_sdu \<Rightarrow> tx_store \<Rightarrow> tx_store option" where
  "mark_advanced_sdu_acknowledged sdu st = do {
     st \<leftarrow> mark_if_pending (at_reporter sdu) st;
     if get_state st (at_reporter sdu) = Transmitted then mark_acknowledged (at_reporter sdu) st else Some st }"

text \<open>Has the SDU been put on the air since it was last withdrawn?\<close>

definition was_sent :: "tx_store \<Rightarrow> ('b, 'm) al_tx_sdu \<Rightarrow> bool" where
  "was_sent st sdu \<longleftrightarrow> at_attempt sdu \<noteq> None \<or> at_sent_at sdu \<noteq> None \<or> get_state st (at_reporter sdu) \<noteq> Pending"

section \<open>Queueing\<close>

text \<open>The request of the layer above, with the channel allocation and protection that it carries along.\<close>

record ('b, 'm) al_request =
  aq_sdu :: 'b
  aq_meta :: 'm
  aq_endpoint :: nat
  aq_reporter :: "tx_reporter option"

definition fresh_tx :: "nat \<Rightarrow> 'b list \<Rightarrow> ('b, 'm) al_request \<Rightarrow> tx_reporter \<Rightarrow> ('b, 'm) al_tx_sdu" where
  "fresh_tx ns segments request reporter = \<lparr>at_ns = ns, at_segments = segments, at_meta = aq_meta request,
     at_endpoint = aq_endpoint request, at_reporter = reporter, at_attempt = None, at_ack_requested = False,
     at_sent_at = None, at_ack_repetitions = 0, at_retransmissions = 0,
     at_segment_retransmissions = replicate (length segments) 0, at_pending = None\<rparr>"

text \<open>\<open>rx_tla_tldata_req_al\<close> on the link of the address: the link has room and takes the SDU.\<close>

definition has_room :: "('b, 'm) al_link \<Rightarrow> bool" where
  "has_room link \<longleftrightarrow> \<not> (li_link_number link \<noteq> 0 \<or> MAX_PENDING_ADVANCED_TLSDUS_PER_LINK \<le> length (li_tx link))"

definition queue_sdu :: "'b bitbuf_ops \<Rightarrow> ('b, 'm) al_request \<Rightarrow> ('b, 'm) al_link \<Rightarrow> tx_store \<Rightarrow> (('b, 'm) al_link \<times> tx_store) option" where
  "queue_sdu ops request link st = do {
     let (reporter, st) = (case aq_reporter request of Some r \<Rightarrow> (r, st) | None \<Rightarrow> new_reporter st);
     segments \<leftarrow> advanced_segments ops (aq_sdu request);
     let ns = li_next_tx_ns link;
     Some (link\<lparr>li_next_tx_ns := (li_next_tx_ns link + 1) mod 8, li_endpoint := aq_endpoint request,
                li_tx := li_tx link @ [fresh_tx ns segments request reporter]\<rparr>, st) }"

section \<open>Acknowledgements\<close>

text \<open>SDUs that the window of the peer has passed.\<close>

fun retire_passed :: "nat \<Rightarrow> nat \<Rightarrow> ('b, 'm) al_tx_sdu list \<Rightarrow> tx_store \<Rightarrow> (('b, 'm) al_tx_sdu list \<times> tx_store) option" where
  "retire_passed w base [] st = Some ([], st)"
| "retire_passed w base (front # rest) st =
     (if at_ns front = base then Some (front # rest, st)
      else
        let ahead = u8_sub base (at_ns front) mod 8 in
        if ahead = 0 \<or> w < ahead \<or> \<not> was_sent st front then Some (front # rest, st)
        else do { st \<leftarrow> mark_advanced_sdu_acknowledged front st; retire_passed w base rest st })"

fun consecutive :: "nat list \<Rightarrow> bool" where
  "consecutive (a # b # ns) \<longleftrightarrow> b = u8_add a 1 mod 8 \<and> consecutive (b # ns)"
| "consecutive ns = True"

text \<open>The count of repetitions; it stops at the first segment beyond the limit.\<close>

fun count_repeats :: "nat \<Rightarrow> nat list \<Rightarrow> nat list \<Rightarrow> (bool \<times> nat list) option" where
  "count_repeats limit [] counts = Some (False, counts)"
| "count_repeats limit (s # ss) counts = do {
     c \<leftarrow> aget counts s;
     counts \<leftarrow> aset counts s (sat_inc c);
     if limit < sat_inc c then Some (True, counts) else count_repeats limit ss counts }"

definition withdraw :: "('b, 'm) al_tx_sdu \<Rightarrow> ('b, 'm) al_tx_sdu" where
  "withdraw sdu = sdu\<lparr>at_sent_at := None, at_attempt := None\<rparr>"

definition apply_report :: "nat \<Rightarrow> al_ack_block \<Rightarrow> ('b, 'm) al_tx_sdu \<Rightarrow> ('b, 'm) al_tx_sdu option" where
  "apply_report segment_limit block sdu =
     (let sdu = sdu\<lparr>at_ack_repetitions := 0, at_ack_requested := False\<rparr>;
        restart = (\<lambda>sdu. sdu\<lparr>at_retransmissions := sat_inc (at_retransmissions sdu), at_pending := None\<rparr>)
      in if ab_length block = 63 then Some (restart sdu)
         else if ab_first_missing block = None then Some sdu
         else do {
           let missing = block_missing block (length (at_segments sdu));
           (exceeded, counts) \<leftarrow> count_repeats segment_limit missing (at_segment_retransmissions sdu);
           let sdu = sdu\<lparr>at_segment_retransmissions := counts\<rparr>;
           Some (if exceeded then restart sdu else if missing \<noteq> [] then sdu\<lparr>at_pending := Some missing\<rparr> else sdu) })"

fun find_position :: "('a \<Rightarrow> bool) \<Rightarrow> 'a list \<Rightarrow> nat option" where
  "find_position P [] = None"
| "find_position P (x # xs) = (if P x then Some 0 else map_option Suc (find_position P xs))"

text \<open>One block: the link's SDUs, the store, and the number of an SDU that has failed.\<close>

definition apply_block :: "('b, 'm) al_link \<Rightarrow> al_ack_block \<Rightarrow> ('b, 'm) al_tx_sdu list \<Rightarrow> tx_store
    \<Rightarrow> (('b, 'm) al_tx_sdu list \<times> tx_store \<times> nat option) option" where
  "apply_block link block tx st =
     (case find_position (\<lambda>sdu. at_ns sdu = ab_nr block) tx of
        None \<Rightarrow> Some (tx, st, None)
      | Some p \<Rightarrow>
          (let sdu = tx ! p in
           if \<not> was_sent st sdu then Some (tx, st, None)
           else if ab_length block = 0 then do {
             st \<leftarrow> mark_advanced_sdu_acknowledged sdu st;
             Some (take p tx @ drop (Suc p) tx, st, None) }
           else do {
             sdu \<leftarrow> apply_report (li_max_segment_retransmissions link) block sdu;
             let st = reset_if_transmitted (at_reporter sdu) st;
             let sdu = withdraw sdu;
             Some (tx[p := sdu], st,
               if li_max_sdu_retransmissions link < at_retransmissions sdu then Some (at_ns sdu) else None) }))"

fun apply_blocks :: "('b, 'm) al_link \<Rightarrow> al_ack_block list \<Rightarrow> ('b, 'm) al_tx_sdu list \<Rightarrow> tx_store
    \<Rightarrow> (('b, 'm) al_tx_sdu list \<times> tx_store \<times> nat option) option" where
  "apply_blocks link [] tx st = Some (tx, st, None)"
| "apply_blocks link (block # blocks) tx st = do {
     (tx, st, failed) \<leftarrow> apply_block link block tx st;
     if failed \<noteq> None then Some (tx, st, failed) else apply_blocks link blocks tx st }"

definition ack_link :: "tdma_time \<Rightarrow> al_ack \<Rightarrow> ('b, 'm) al_link \<Rightarrow> tx_store
    \<Rightarrow> (('b, 'm) al_link \<times> tx_store \<times> nat option) option" where
  "ack_link now ack link st =
     (if li_reset link \<noteq> None then Some (link, st, None)
      else do {
        let link = link\<lparr>li_receiver_ready := aa_receiver_ready ack,
          li_not_ready_since := (if aa_receiver_ready ack then None else Some now)\<rparr>;
        (tx, st) \<leftarrow> (if length (aa_blocks ack) = li_window_size link \<and> consecutive (map ab_nr (aa_blocks ack))
          then do { block \<leftarrow> aget (aa_blocks ack) 0; retire_passed (li_window_size link) (ab_nr block) (li_tx link) st }
          else Some (li_tx link, st));
        (tx, st, failed) \<leftarrow> apply_blocks link (aa_blocks ack) tx st;
        Some (link\<lparr>li_tx := tx\<rparr>, st, failed) })"

section \<open>A tick\<close>

text \<open>Receipts of the attempts and the acknowledgement timer, SDU after SDU until one has failed.\<close>

definition watch_attempt :: "tdma_time \<Rightarrow> ('b, 'm) al_tx_sdu \<Rightarrow> tx_store \<Rightarrow> (('b, 'm) al_tx_sdu \<times> tx_store) option" where
  "watch_attempt now sdu st =
     (case at_attempt sdu of
        None \<Rightarrow> Some (sdu, st)
      | Some attempt \<Rightarrow> (case get_state st attempt of
          Pending \<Rightarrow> Some (sdu, st)
        | Discarded \<Rightarrow> Some (sdu\<lparr>at_attempt := None, at_ack_requested := False, at_sent_at := None\<rparr>, st)
        | Lost \<Rightarrow> Some (sdu\<lparr>at_attempt := None, at_ack_requested := False, at_sent_at := None\<rparr>, st)
        | _ \<Rightarrow> do {
            st \<leftarrow> mark_if_pending (at_reporter sdu) st;
            Some (if at_ack_requested sdu \<and> at_sent_at sdu = None then sdu\<lparr>at_sent_at := Some now\<rparr> else sdu, st) }))"

definition timed_out :: "tdma_time \<Rightarrow> int \<Rightarrow> tdma_time option \<Rightarrow> bool" where
  "timed_out now limit since = (case since of None \<Rightarrow> False | Some t \<Rightarrow> limit \<le> diff now t)"

definition rearm :: "('b, 'm) al_tx_sdu \<Rightarrow> ('b, 'm) al_tx_sdu" where
  "rearm sdu = sdu\<lparr>at_attempt := None, at_ack_requested := False, at_sent_at := None\<rparr>"

definition watch_timer :: "nat \<Rightarrow> tdma_time \<Rightarrow> ('b, 'm) al_tx_sdu \<Rightarrow> tx_store \<Rightarrow> (('b, 'm) al_tx_sdu \<times> tx_store) option" where
  "watch_timer max_retransmissions now sdu st =
     (if \<not> timed_out now T252_ACK_WAITING_TIMER (at_sent_at sdu) then Some (sdu, st)
      else if at_ack_repetitions sdu < MAX_AL_ACK_REQUEST_REPEATS then
        Some ((rearm sdu)\<lparr>at_ack_repetitions := at_ack_repetitions sdu + 1,
            at_pending := Some [length (at_segments sdu) - 1]\<rparr>,
          reset_if_transmitted (at_reporter sdu) st)
      else if max_retransmissions \<le> at_retransmissions sdu then None
      else Some ((rearm sdu)\<lparr>at_retransmissions := at_retransmissions sdu + 1, at_ack_repetitions := 0, at_pending := None\<rparr>,
          reset_if_transmitted (at_reporter sdu) st))"

fun watch_all :: "nat \<Rightarrow> tdma_time \<Rightarrow> ('b, 'm) al_tx_sdu list \<Rightarrow> tx_store
    \<Rightarrow> (('b, 'm) al_tx_sdu list \<times> tx_store \<times> nat option) option" where
  "watch_all max_retransmissions now [] st = Some ([], st, None)"
| "watch_all max_retransmissions now (sdu # rest) st = do {
     (sdu, st) \<leftarrow> watch_attempt now sdu st;
     case watch_timer max_retransmissions now sdu st of
       None \<Rightarrow> Some (sdu # rest, st, Some (at_ns sdu))
     | Some (sdu, st) \<Rightarrow> do {
         (rest, st, failed) \<leftarrow> watch_all max_retransmissions now rest st;
         Some (sdu # rest, st, failed) } }"

text \<open>Which SDUs may go out: those in the window above the oldest one, up to the next SDU that bears the same number.\<close>

definition generation_end :: "('b, 'm) al_tx_sdu list \<Rightarrow> nat \<Rightarrow> nat" where
  "generation_end tx send_base =
     (case find_position (\<lambda>sdu. at_ns sdu = send_base) (tl tx) of Some p \<Rightarrow> Suc p | None \<Rightarrow> length tx)"

definition may_send :: "nat \<Rightarrow> nat \<Rightarrow> nat \<Rightarrow> bool \<Rightarrow> ('b, 'm) al_tx_sdu \<Rightarrow> bool" where
  "may_send window_size send_base max_retransmissions receiver_not_ready sdu \<longleftrightarrow>
     u8_sub (at_ns sdu) send_base mod 8 < window_size
     \<and> at_attempt sdu = None \<and> at_sent_at sdu = None \<and> \<not> at_ack_requested sdu
     \<and> at_retransmissions sdu \<le> max_retransmissions
     \<and> (\<not> receiver_not_ready \<or> (at_pending sdu \<noteq> None \<and> at_pending sdu \<noteq> Some []))"

definition select_sdus :: "('b, 'm) al_link \<Rightarrow> bool \<Rightarrow> nat list" where
  "select_sdus link receiver_not_ready =
     (let tx = li_tx link;
        in_flight = length (filter (\<lambda>sdu. at_attempt sdu \<noteq> None \<or> at_sent_at sdu \<noteq> None) tx);
        window_size = min 3 (max 1 (li_window_size link));
        send_base = at_ns (hd tx)
      in take (window_size - min in_flight window_size)
          (filter (\<lambda>i. i < generation_end tx send_base
             \<and> may_send window_size send_base (li_max_sdu_retransmissions link) receiver_not_ready (tx ! i)) [0..<length tx]))"

text \<open>A PDU on its way to the MAC. Of a group of segments the last one takes the channel allocation and the receipt along.\<close>

record ('b, 'm, 'r) al_message =
  ms_pdu :: 'b
  ms_endpoint :: nat
  ms_route :: "'r option"
  ms_meta :: 'm
  ms_with_allocation :: bool
  ms_reporter :: "tx_reporter option"

text \<open>The segments of an SDU that are due.\<close>

definition due_segments :: "('b, 'm) al_tx_sdu \<Rightarrow> nat list" where
  "due_segments sdu = (case at_pending sdu of
       Some segments \<Rightarrow> (if segments = [] then [0..<length (at_segments sdu)] else segments)
     | None \<Rightarrow> [0..<length (at_segments sdu)])"

definition segment_header :: "bool \<Rightarrow> ('b, 'm) al_tx_sdu \<Rightarrow> nat \<Rightarrow> al_data_header" where
  "segment_header request_ack sdu s = \<lparr>ad_final_segment = (s + 1 = length (at_segments sdu)),
     ad_acknowledgement_requested = request_ack, ad_ns = at_ns sdu, ad_segment = as_u8 s\<rparr>"

definition segment_pdu :: "'b bitbuf_ops \<Rightarrow> bool \<Rightarrow> ('b, 'm) al_tx_sdu \<Rightarrow> nat \<Rightarrow> 'b option option" where
  "segment_pdu ops request_ack sdu s =
     (case al_data_header_to_bitbuf ops (segment_header request_ack sdu s) (bb_new_autoexpand ops (AL_DOWNLINK_SEGMENT_BITS + 24)) of
        None \<Rightarrow> None
      | Some (Inl e, pdu) \<Rightarrow> Some None
      | Some (Inr _, pdu) \<Rightarrow> do {
          payload \<leftarrow> aget (at_segments sdu) s;
          (pdu, payload) \<leftarrow> bb_copy_bits ops pdu payload (bb_get_len_remaining ops payload);
          pdu \<leftarrow> bb_seek ops pdu 0;
          Some (Some pdu) })"

fun send_segments :: "'b bitbuf_ops \<Rightarrow> 'r list \<Rightarrow> bool \<Rightarrow> tx_reporter \<Rightarrow> ('b, 'm) al_tx_sdu \<Rightarrow> nat list
    \<Rightarrow> ('b, 'm, 'r) al_message list option" where
  "send_segments ops routes request_ack attempt sdu [] = Some []"
| "send_segments ops routes request_ack attempt sdu (s # ss) = do {
     pdu \<leftarrow> segment_pdu ops (request_ack \<and> ss = []) sdu s;
     rest \<leftarrow> send_segments ops routes request_ack attempt sdu ss;
     Some (case pdu of None \<Rightarrow> rest
       | Some pdu \<Rightarrow> \<lparr>ms_pdu = pdu, ms_endpoint = at_endpoint sdu, ms_route = Some (routes ! (s mod length routes)),
           ms_meta = at_meta sdu, ms_with_allocation = (ss = []), ms_reporter = (if ss = [] then Some attempt else None)\<rparr> # rest) }"

fun send_sdus :: "'b bitbuf_ops \<Rightarrow> 'r list \<Rightarrow> nat list \<Rightarrow> ('b, 'm) al_tx_sdu list \<Rightarrow> tx_store
    \<Rightarrow> (('b, 'm) al_tx_sdu list \<times> tx_store \<times> ('b, 'm, 'r) al_message list) option" where
  "send_sdus ops routes [] tx st = Some (tx, st, [])"
| "send_sdus ops routes (p # ps) tx st = do {
     let sdu = tx ! p;
     let (attempt, st) = new_reporter st;
     messages \<leftarrow> send_segments ops routes (ps = []) attempt sdu (due_segments sdu);
     let tx = tx[p := sdu\<lparr>at_attempt := Some attempt, at_ack_requested := (ps = []), at_pending := None\<rparr>];
     (tx, st, more) \<leftarrow> send_sdus ops routes ps tx st;
     Some (tx, st, messages @ more) }"

text \<open>The reset attempt of a link that is being reset; what a tick makes of a link.\<close>

datatype tick_verdict = Quiet | Active | GaveUp nat | SetupFailed | NegotiationFailed

definition reset_message :: "'b bitbuf_ops \<Rightarrow> nat \<Rightarrow> 'r option \<Rightarrow> 'm \<Rightarrow> al_setup \<Rightarrow> tx_reporter \<Rightarrow> tx_store
    \<Rightarrow> (tx_store \<times> ('b, 'm, 'r) al_message list) option" where
  "reset_message ops endpoint_id route meta proposal reporter st =
     (case al_setup_to_bitbuf ops proposal (bb_new_autoexpand ops 32) of
        None \<Rightarrow> None
      | Some (Inl e, pdu) \<Rightarrow> do { st \<leftarrow> mark_reporter_lost reporter st; Some (st, []) }
      | Some (Inr _, pdu) \<Rightarrow> do {
          pdu \<leftarrow> bb_seek ops pdu 0;
          Some (st, [\<lparr>ms_pdu = pdu, ms_endpoint = endpoint_id, ms_route = route, ms_meta = meta,
            ms_with_allocation = False, ms_reporter = Some reporter\<rparr>]) })"

text \<open>The receipt of the reset attempt: the reset with the time of the attempt noted, and whether it is due again.\<close>

definition watch_reset :: "tdma_time \<Rightarrow> 'm al_reset \<Rightarrow> tx_store \<Rightarrow> 'm al_reset \<times> bool" where
  "watch_reset now re st =
     (case get_state st (re_attempt re) of
        Pending \<Rightarrow> (re, False)
      | Discarded \<Rightarrow> (re, True)
      | Lost \<Rightarrow> (re, True)
      | _ \<Rightarrow> (let sent_at = (case re_sent_at re of Some t \<Rightarrow> t | None \<Rightarrow> now)
              in (re\<lparr>re_sent_at := Some sent_at\<rparr>, T261_SETUP_WAITING_TIMER \<le> diff now sent_at)))"

definition tick_reset :: "'b bitbuf_ops \<Rightarrow> tdma_time \<Rightarrow> 'r list \<Rightarrow> 'm al_reset \<Rightarrow> ('b, 'm) al_link \<Rightarrow> tx_store
    \<Rightarrow> (('b, 'm) al_link \<times> tx_store \<times> ('b, 'm, 'r) al_message list \<times> tick_verdict) option" where
  "tick_reset ops now routes re link st =
     (let (re, retry) = watch_reset now re st in
      if \<not> retry then Some (link\<lparr>li_reset := Some re\<rparr>, st, [], Quiet)
      else if re_retries re < N262_AL_MAX_CONNECTION_SETUP_RETRIES then do {
        let (reporter, st) = new_reporter st;
        let re = re\<lparr>re_retries := re_retries re + 1, re_sent_at := None, re_attempt := reporter\<rparr>;
        (st, messages) \<leftarrow> reset_message ops (li_endpoint link) (case routes of [] \<Rightarrow> None | r # rs \<Rightarrow> Some r) (re_meta re) (re_setup re) reporter st;
        Some (link\<lparr>li_reset := Some re\<rparr>, st, messages, Active) }
      else Some (link\<lparr>li_reset := Some re\<rparr>, st, [], SetupFailed))"

definition tick_send :: "'b bitbuf_ops \<Rightarrow> 'r list \<Rightarrow> bool \<Rightarrow> ('b, 'm) al_link \<Rightarrow> tx_store
    \<Rightarrow> (('b, 'm) al_link \<times> tx_store \<times> ('b, 'm, 'r) al_message list \<times> tick_verdict) option" where
  "tick_send ops routes receiver_not_ready link st =
     (if routes = [] \<or> list_ex at_ack_requested (li_tx link) \<or> li_tx link = [] \<or> select_sdus link receiver_not_ready = []
      then Some (link, st, [], Quiet)
      else do {
        (tx, st, messages) \<leftarrow> send_sdus ops routes (select_sdus link receiver_not_ready) (li_tx link) st;
        Some (link\<lparr>li_tx := tx\<rparr>, st, messages, Active) })"

definition tick_link :: "'b bitbuf_ops \<Rightarrow> tdma_time \<Rightarrow> 'r list \<Rightarrow> ('b, 'm) al_link \<Rightarrow> tx_store
    \<Rightarrow> (('b, 'm) al_link \<times> tx_store \<times> ('b, 'm, 'r) al_message list \<times> tick_verdict) option" where
  "tick_link ops now routes link st =
     (case li_reset link of
        Some re \<Rightarrow> tick_reset ops now routes re link st
      | None \<Rightarrow>
          if \<not> li_ready link then
            Some (link, st, [], if timed_out now AL_SETUP_NEGOTIATION_TIMEOUT (li_setup_started_at link) then NegotiationFailed else Quiet)
          else do {
            (tx, st, failed) \<leftarrow> watch_all (li_max_sdu_retransmissions link) now (li_tx link) st;
            let link = link\<lparr>li_tx := tx\<rparr>;
            case failed of
              Some ns \<Rightarrow> Some (link, st, [], GaveUp ns)
            | None \<Rightarrow>
                if li_receiver_ready link then tick_send ops routes False link st
                else if timed_out now T271_RECEIVER_NOT_READY_FOR_TX_TIMER (li_not_ready_since link) then
                  tick_send ops routes False (link\<lparr>li_receiver_ready := True, li_not_ready_since := None\<rparr>) st
                else if li_not_ready_since link = None then Some (link, st, [], Quiet)
                else tick_send ops routes True link st })"

section \<open>Reset\<close>

text \<open>\<open>begin_advanced_link_reset\<close>: what was never offered to the MAC is kept and numbered from zero, everything else is lost.\<close>

definition never_offered :: "tx_store \<Rightarrow> ('b, 'm) al_tx_sdu \<Rightarrow> bool" where
  "never_offered st sdu \<longleftrightarrow> at_attempt sdu = None \<and> at_sent_at sdu = None \<and> get_state st (at_reporter sdu) = Pending
     \<and> \<not> at_ack_requested sdu \<and> at_ack_repetitions sdu = 0 \<and> at_retransmissions sdu = 0
     \<and> list_all (\<lambda>n. n = 0) (at_segment_retransmissions sdu) \<and> at_pending sdu = None"

fun retain_unoffered :: "nat option \<Rightarrow> nat \<Rightarrow> ('b, 'm) al_tx_sdu list \<Rightarrow> tx_store \<Rightarrow> ('b, 'm) al_tx_sdu list
    \<Rightarrow> (('b, 'm) al_tx_sdu list \<times> tx_store) option" where
  "retain_unoffered failed_position position [] st retained = Some (retained, st)"
| "retain_unoffered failed_position position (sdu # rest) st retained =
     (if Some position \<noteq> failed_position \<and> never_offered st sdu
      then retain_unoffered failed_position (Suc position) rest st (retained @ [sdu\<lparr>at_ns := as_u8 (length retained) mod 8\<rparr>])
      else do { st \<leftarrow> mark_reporter_lost (at_reporter sdu) st;
                retain_unoffered failed_position (Suc position) rest st retained })"

definition reset_setup :: "('b, 'm) al_link \<Rightarrow> al_setup" where
  "reset_setup link = \<lparr>as_acknowledged = True, as_link_number = li_link_number link, as_maximum_sdu = li_maximum_sdu link,
     as_connection_width = (1 < li_slots link), as_asymmetric = False,
     as_uplink_slots = (if 1 < li_slots link then Some (li_slots link) else None), as_downlink_slots = None,
     as_throughput = li_throughput link, as_window_size = li_window_size link,
     as_sdu_retransmissions = li_max_sdu_retransmissions link,
     as_segment_retransmissions = li_max_segment_retransmissions link, as_report = 3\<rparr>"

definition begin_reset :: "'b bitbuf_ops \<Rightarrow> 'm \<Rightarrow> 'r option \<Rightarrow> nat \<Rightarrow> ('b, 'm) al_link \<Rightarrow> tx_store
    \<Rightarrow> (('b, 'm) al_link \<times> tx_store \<times> ('b, 'm, 'r) al_message list) option" where
  "begin_reset ops clear route failed_ns link st =
     (if li_reset link \<noteq> None then Some (link, st, [])
      else do {
        let failed_position = find_position (\<lambda>sdu. at_ns sdu = failed_ns) (li_tx link);
        let meta = (case failed_position of
          Some p \<Rightarrow> at_meta (li_tx link ! p)
        | None \<Rightarrow> (case li_tx link of [] \<Rightarrow> clear | front # rest \<Rightarrow> at_meta front));
        (retained, st) \<leftarrow> retain_unoffered failed_position 0 (li_tx link) st [];
        let link = link\<lparr>li_tx := retained, li_next_tx_ns := as_u8 (length retained) mod 8, li_next_rx_ns := 0,
          li_rx_sdus := [], li_receiver_ready := False, li_not_ready_since := None, li_ready := False, li_setup_started_at := None\<rparr>;
        let proposal = reset_setup link;
        let (attempt, st) = new_reporter st;
        let link = link\<lparr>li_reset := Some \<lparr>re_setup = proposal, re_meta = meta, re_attempt = attempt, re_sent_at = None, re_retries = 0\<rparr>\<rparr>;
        (st, messages) \<leftarrow> reset_message ops (li_endpoint link) route meta proposal attempt st;
        Some (link, st, messages) })"

end
