(* ===== verification/Llc_Window.thy ===== *)
theory Llc_Window
  imports Llc_Send
begin

text \<open>
  The send window of the advanced link. A ghost list gives every queued SDU the count of SDUs queued before
  it; what the link keeps of that count is its remainder modulo eight. The invariant says
  that only SDUs less than three above the oldest one have ever been put on the air, so that the
  remainders tell the SDUs of the window apart, and that the receipts the link marks are in the states it
  expects, so that no operation panics.
\<close>

section \<open>Receipts\<close>

definition only_cell :: "tx_reporter \<Rightarrow> tx_store \<Rightarrow> tx_store \<Rightarrow> bool" where
  "only_cell r st st' \<longleftrightarrow> length st' = length st \<and> (\<forall>c. c \<noteq> cell r \<longrightarrow> st' ! c = st ! c) \<and> st' ! cell r \<le> 4"

definition good_receipt :: "tx_store \<Rightarrow> tx_reporter \<Rightarrow> bool" where
  "good_receipt st r \<longleftrightarrow> expects_ack r \<and> cell r < length st \<and> st ! cell r \<le> 4"

lemma get_state_iff: "good_receipt st r \<Longrightarrow> get_state st r = s \<longleftrightarrow> st ! cell r = tx_raw s"
  by (auto simp: get_state_def good_receipt_def)

lemma only_cell_refl: "good_receipt st r \<Longrightarrow> only_cell r st st"
  by (simp add: only_cell_def good_receipt_def)

lemma only_cell_trans: "only_cell r st st' \<Longrightarrow> only_cell r st' st'' \<Longrightarrow> only_cell r st st''"
  by (simp add: only_cell_def)

lemma only_cell_good: "only_cell r st st' \<Longrightarrow> good_receipt st r \<Longrightarrow> good_receipt st' r"
  by (simp add: only_cell_def good_receipt_def)

lemma only_cell_other: "only_cell r st st' \<Longrightarrow> cell q \<noteq> cell r \<Longrightarrow> get_state st' q = get_state st q \<and> (good_receipt st' q \<longleftrightarrow> good_receipt st q)"
  by (simp add: only_cell_def get_state_def good_receipt_def)

lemma mark_good:
  assumes "good_receipt st r" and "get_state st r = s"
  shows "\<exists>st'. mark s t r st = Some st' \<and> only_cell r st st' \<and> get_state st' r = t"
  using assms get_state_iff [OF assms(1), of s] tx_raw_le [of t]
  by (auto simp: mark_def only_cell_def get_state_def good_receipt_def)

lemma mark_if_pending_good:
  assumes "good_receipt st r"
  shows "\<exists>st'. mark_if_pending r st = Some st' \<and> only_cell r st st' \<and> get_state st' r \<noteq> Pending"
proof (cases "get_state st r = Pending")
  case True
  then show ?thesis using mark_good [OF assms True, of Transmitted] by (auto simp: mark_if_pending_def mark_transmitted_def)
qed (simp add: mark_if_pending_def only_cell_refl assms)

lemma reset_good:
  assumes "good_receipt st r"
  shows "only_cell r st (reset r st)" "get_state (reset r st) r = Pending" "only_cell r st (reset_if_transmitted r st)"
    and "get_state (reset_if_transmitted r st) r \<noteq> Pending \<Longrightarrow> get_state st r \<noteq> Pending"
proof -
  show r: "only_cell r st (reset r st)" "get_state (reset r st) r = Pending"
    using assms by (simp_all add: reset_def mark_unchecked_def only_cell_def good_receipt_def get_state_def from_raw_def)
  show "only_cell r st (reset_if_transmitted r st)" using r(1) only_cell_refl [OF assms] by (simp add: reset_if_transmitted_def)
  assume "get_state (reset_if_transmitted r st) r \<noteq> Pending"
  then show "get_state st r \<noteq> Pending" using r(2) by (cases "get_state st r = Transmitted") (simp_all add: reset_if_transmitted_def)
qed

lemma acknowledged_good:
  assumes "good_receipt st (at_reporter sdu)"
  shows "\<exists>st'. mark_advanced_sdu_acknowledged sdu st = Some st' \<and> only_cell (at_reporter sdu) st st'"
proof -
  obtain a where a: "mark_if_pending (at_reporter sdu) st = Some a" "only_cell (at_reporter sdu) st a"
    using mark_if_pending_good [OF assms] by blast
  note g = only_cell_good [OF a(2) assms]
  show ?thesis
  proof (cases "get_state a (at_reporter sdu) = Transmitted")
    case True
    from mark_good [OF g True, of Acknowledged] obtain b where
      "mark Transmitted Acknowledged (at_reporter sdu) a = Some b" "only_cell (at_reporter sdu) a b" by blast
    with a True g only_cell_trans [OF a(2)] show ?thesis
      by (auto simp: mark_advanced_sdu_acknowledged_def mark_acknowledged_def good_receipt_def)
  qed (use a in \<open>simp add: mark_advanced_sdu_acknowledged_def\<close>)
qed

lemma lost_good:
  assumes "good_receipt st r"
  shows "\<exists>st'. mark_reporter_lost r st = Some st' \<and> only_cell r st st' \<and> get_state st' r \<in> {Lost, Acknowledged}"
proof -
  have fresh: "\<exists>st'. Option.bind (mark_transmitted r (reset r st)) (mark_lost r) = Some st' \<and> only_cell r st st'
    \<and> get_state st' r = Lost"
  proof -
    note r = reset_good(1,2) [OF assms]
    from mark_good [OF only_cell_good [OF r(1) assms] r(2), of Transmitted] obtain a where
      a: "mark Pending Transmitted r (reset r st) = Some a" "only_cell r (reset r st) a" "get_state a r = Transmitted" by blast
    have g: "good_receipt a r" by (rule only_cell_good [OF a(2) only_cell_good [OF r(1) assms]])
    from mark_good [OF g a(3), of Lost] obtain b where "mark Transmitted Lost r a = Some b" "only_cell r a b"
      "get_state b r = Lost" by blast
    moreover have "Option.bind (mark_transmitted r (reset r st)) (mark_lost r) = mark Transmitted Lost r a"
      using g unfolding mark_transmitted_def a(1) mark_lost_def good_receipt_def by simp
    ultimately show ?thesis using only_cell_trans [OF r(1) only_cell_trans [OF a(2)]] by metis
  qed
  show ?thesis
  proof (cases "get_state st r")
    case Transmitted
    from mark_good [OF assms Transmitted, of Lost] Transmitted assms show ?thesis
      by (auto simp: mark_reporter_lost_def mark_lost_def good_receipt_def)
  qed (use fresh in \<open>auto simp: mark_reporter_lost_def only_cell_refl assms bind_eq_Some_conv\<close>)
qed

section \<open>Numbers\<close>

definition numbered :: "tx_store \<Rightarrow> ('b, 'm) al_tx_sdu list \<Rightarrow> nat list \<Rightarrow> nat \<Rightarrow> bool" where
  "numbered st tx ks n \<longleftrightarrow> sorted_wrt (<) ks \<and> length ks = length tx
     \<and> (\<forall>i<length tx. at_ns (tx ! i) = ks ! i mod 8 \<and> (was_sent st (tx ! i) \<longrightarrow> ks ! i < hd ks + 3))
     \<and> (\<forall>k \<in> set ks. k < n) \<and> (ks \<noteq> [] \<longrightarrow> (\<forall>k. hd ks + 3 \<le> k \<and> k < n \<longrightarrow> k \<in> set ks))"

text \<open>What the operations keep of an SDU, and what they need to go on.\<close>

definition sdu_good :: "('b \<Rightarrow> buf_view) \<Rightarrow> tx_store \<Rightarrow> ('b, 'm) al_tx_sdu \<Rightarrow> bool" where
  "sdu_good view st sdu \<longleftrightarrow> good_receipt st (at_reporter sdu) \<and> at_segments sdu \<noteq> []
     \<and> (\<forall>b \<in> set (at_segments sdu). view_wf (view b)) \<and> length (at_segment_retransmissions sdu) = length (at_segments sdu)
     \<and> (\<forall>segments. at_pending sdu = Some segments \<longrightarrow> (\<forall>s \<in> set segments. s < length (at_segments sdu)))"

definition queue_good :: "('b \<Rightarrow> buf_view) \<Rightarrow> tx_store \<Rightarrow> ('b, 'm) al_tx_sdu list \<Rightarrow> bool" where
  "queue_good view st tx \<longleftrightarrow> (\<forall>sdu \<in> set tx. sdu_good view st sdu) \<and> distinct (map (\<lambda>sdu. cell (at_reporter sdu)) tx)"

lemma was_sent_other:
  "only_cell r st st' \<Longrightarrow> cell (at_reporter sdu) \<noteq> cell r \<Longrightarrow> was_sent st' sdu = was_sent st sdu"
  by (simp add: was_sent_def only_cell_other)

lemma sdu_good_other:
  "only_cell r st st' \<Longrightarrow> cell (at_reporter sdu) \<noteq> cell r \<Longrightarrow> sdu_good view st' sdu = sdu_good view st sdu"
  by (simp add: sdu_good_def only_cell_other)

text \<open>Dropping an SDU that has been sent, and changing one in place.\<close>

lemma nth_removed:
  "\<lbrakk>i < length xs - 1; p < length xs\<rbrakk> \<Longrightarrow> (take p xs @ drop (Suc p) xs) ! i = xs ! (if i < p then i else Suc i)"
  by (auto simp: nth_append min_def)

lemma set_removed:
  "p < length xs \<Longrightarrow> set (take p xs @ drop (Suc p) xs) \<subseteq> set xs \<and> (x \<in> set xs \<longrightarrow> x \<noteq> xs ! p \<longrightarrow> x \<in> set (take p xs @ drop (Suc p) xs))"
  by (auto dest: in_set_takeD in_set_dropD) (metis UnE id_take_nth_drop list.set_cases set_ConsD set_append)

lemma hd_least: "sorted_wrt (<) ks \<Longrightarrow> k \<in> set ks \<Longrightarrow> hd ks \<le> (k::nat)"
  by (cases ks) auto

lemma numbered_remove:
  assumes n: "numbered st tx ks n" and p: "p < length tx" and sent: "was_sent st (tx ! p)"
    and q: "queue_good view st tx" and st: "only_cell (at_reporter (tx ! p)) st st'"
  shows "numbered st' (take p tx @ drop (Suc p) tx) (take p ks @ drop (Suc p) ks) n"
    and "queue_good view st' (take p tx @ drop (Suc p) tx)"
proof -
  let ?tx = "take p tx @ drop (Suc p) tx" and ?ks = "take p ks @ drop (Suc p) ks"
  have l: "length ks = length tx" "length ?tx = length tx - 1" "length ?ks = length tx - 1"
    and sorted: "sorted_wrt (<) ks" and pk: "p < length ks" using n p by (auto simp: numbered_def)
  have other: "cell (at_reporter (tx ! j)) \<noteq> cell (at_reporter (tx ! p))" if "j < length tx" "j \<noteq> p" for j
    using q that p by (auto simp: queue_good_def distinct_conv_nth)
  have split: "ks = take p ks @ ks ! p # drop (Suc p) ks" by (rule id_take_nth_drop [OF pk])
  from sorted have srt: "sorted_wrt (<) ?ks" by (subst (asm) split) (auto simp: sorted_wrt_append)
  have sub: "set ?ks \<subseteq> set ks" and mem: "\<And>k. k \<in> set ks \<Longrightarrow> k \<noteq> ks ! p \<Longrightarrow> k \<in> set ?ks"
    using set_removed [OF pk] by blast+
  have hd: "hd ks \<le> hd ?ks" if "?ks \<noteq> []" using hd_least [OF sorted] sub hd_in_set [OF that] by blast
  have at: "?tx ! i = tx ! (if i < p then i else Suc i)" "?ks ! i = ks ! (if i < p then i else Suc i)"
    "(if i < p then i else Suc i) < length tx" "(if i < p then i else Suc i) \<noteq> p" if "i < length tx - 1" for i
    using that p l nth_removed [of i tx p] nth_removed [of i ks p] by auto
  show "numbered st' ?tx ?ks n" unfolding numbered_def
  proof (intro conjI allI impI ballI)
    show "length ?ks = length ?tx" using l by simp
    fix i assume i: "i < length ?tx"
    then have i': "i < length tx - 1" using l by simp
    let ?j = "if i < p then i else Suc i"
    show "at_ns (?tx ! i) = ?ks ! i mod 8" using n at [OF i'] by (simp add: numbered_def)
    assume "was_sent st' (?tx ! i)"
    then have "was_sent st (tx ! ?j)" using at(1) [OF i'] was_sent_other [OF st other [OF at(3,4) [OF i']]] by simp
    then have "ks ! ?j < hd ks + 3" using n at(3) [OF i'] by (simp add: numbered_def)
    moreover have "?ks \<noteq> []" using i l by (metis gr_implies_not0 list.size(3))
    ultimately show "?ks ! i < hd ?ks + 3" using at(2) [OF i'] hd by simp
  next
    fix k assume "k \<in> set ?ks"
    then show "k < n" using sub n unfolding numbered_def by blast
  next
    fix k assume ne: "?ks \<noteq> []" and k: "hd ?ks + 3 \<le> k \<and> k < n"
    have "ks \<noteq> []" using pk by auto
    with k hd [OF ne] n have "k \<in> set ks" unfolding numbered_def by auto
    moreover have "ks ! p < hd ks + 3" using n p sent by (simp add: numbered_def)
    ultimately show "k \<in> set ?ks" using mem hd [OF ne] k by auto
  qed (rule srt)
  have "sdu_good view st' sdu" if "sdu \<in> set ?tx" for sdu
  proof -
    from that l obtain i where i: "i < length tx - 1" "sdu = ?tx ! i" by (metis in_set_conv_nth)
    with at [OF i(1)] sdu_good_other [OF st other [OF at(3,4) [OF i(1)]], of view] q show ?thesis
      by (simp add: queue_good_def)
  qed
  moreover have "distinct (map (\<lambda>sdu. cell (at_reporter sdu)) ?tx)"
  proof -
    have "tx = take p tx @ tx ! p # drop (Suc p) tx" by (rule id_take_nth_drop [OF p])
    then have "distinct (map (\<lambda>sdu. cell (at_reporter sdu)) (take p tx @ tx ! p # drop (Suc p) tx))"
      using q by (simp add: queue_good_def)
    then show ?thesis by auto
  qed
  ultimately show "queue_good view st' ?tx" by (simp add: queue_good_def)
qed

lemma numbered_update:
  assumes n: "numbered st tx ks n" and p: "p < length tx" and sent: "was_sent st' sdu \<Longrightarrow> ks ! p < hd ks + 3"
    and same: "at_ns sdu = at_ns (tx ! p)" "at_reporter sdu = at_reporter (tx ! p)" and good: "sdu_good view st' sdu"
    and q: "queue_good view st tx" and st: "only_cell (at_reporter (tx ! p)) st st'"
  shows "numbered st' (tx[p := sdu]) ks n" and "queue_good view st' (tx[p := sdu])"
proof -
  have other: "cell (at_reporter (tx ! j)) \<noteq> cell (at_reporter (tx ! p))" if "j < length tx" "j \<noteq> p" for j
    using q that p by (auto simp: queue_good_def distinct_conv_nth)
  have "at_ns (tx[p := sdu] ! i) = ks ! i mod 8 \<and> (was_sent st' (tx[p := sdu] ! i) \<longrightarrow> ks ! i < hd ks + 3)" if i: "i < length tx" for i
    using n i same sent was_sent_other [OF st other [OF i]] by (cases "i = p") (auto simp: numbered_def)
  with n show "numbered st' (tx[p := sdu]) ks n" by (simp add: numbered_def)
  have "sdu_good view st' (tx[p := sdu] ! i)" if i: "i < length tx" for i
    using q i good sdu_good_other [OF st other [OF i], of view] by (cases "i = p") (auto simp: queue_good_def)
  then have "\<forall>s \<in> set (tx[p := sdu]). sdu_good view st' s" by (auto simp: in_set_conv_nth)
  moreover have "map (\<lambda>sdu. cell (at_reporter sdu)) (tx[p := sdu]) = map (\<lambda>sdu. cell (at_reporter sdu)) tx"
    using same(2) p by (metis list_update_id map_update)
  ultimately show "queue_good view st' (tx[p := sdu])" using q by (simp add: queue_good_def)
qed

lemma queue_frame:
  assumes "queue_good view st tx" and "\<forall>sdu \<in> set tx. cell (at_reporter sdu) < length st' \<and> st' ! cell (at_reporter sdu) = st ! cell (at_reporter sdu)"
  shows "queue_good view st' tx" and "numbered st tx ks n \<Longrightarrow> numbered st' tx ks n"
proof -
  have "was_sent st' sdu = was_sent st sdu" if "sdu \<in> set tx" for sdu using assms that by (simp add: was_sent_def get_state_def)
  then show "numbered st tx ks n \<Longrightarrow> numbered st' tx ks n" by (simp add: numbered_def)
  show "queue_good view st' tx" using assms by (simp add: queue_good_def sdu_good_def good_receipt_def)
qed

lemma queue_new_reporter:
  assumes "queue_good view st tx" and "new_reporter st = (r, st')"
  shows "queue_good view st' tx" and "numbered st tx ks n \<Longrightarrow> numbered st' tx ks n"
    and "good_receipt st' r" and "get_state st' r = Pending" and "\<forall>sdu \<in> set tx. cell (at_reporter sdu) \<noteq> cell r"
proof -
  have r: "r = \<lparr>expects_ack = True, cell = length st\<rparr>" "st' = st @ [0]" using assms(2) by (auto simp: new_reporter_def)
  have c: "cell (at_reporter sdu) < length st" if "sdu \<in> set tx" for sdu
    using assms(1) that by (simp add: queue_good_def sdu_good_def good_receipt_def)
  then show "\<forall>sdu \<in> set tx. cell (at_reporter sdu) \<noteq> cell r" by (force simp: r)
  have "\<forall>sdu \<in> set tx. cell (at_reporter sdu) < length st' \<and> st' ! cell (at_reporter sdu) = st ! cell (at_reporter sdu)"
    using c by (auto simp: r nth_append less_SucI)
  from queue_frame [OF assms(1) this] show "queue_good view st' tx" and "numbered st tx ks n \<Longrightarrow> numbered st' tx ks n" by blast+
  show "good_receipt st' r" "get_state st' r = Pending" by (simp_all add: good_receipt_def get_state_def from_raw_def r)
qed

lemma numbered_append:
  assumes n: "numbered st tx ks n" and q: "queue_good view st tx" and good: "sdu_good view st sdu"
    and ns: "at_ns sdu = n mod 8" and fresh: "\<not> was_sent st sdu" "\<forall>s \<in> set tx. cell (at_reporter s) \<noteq> cell (at_reporter sdu)"
  shows "numbered st (tx @ [sdu]) (ks @ [n]) (Suc n)" and "queue_good view st (tx @ [sdu])"
proof -
  have l: "length ks = length tx" using n by (simp add: numbered_def)
  have hd: "ks \<noteq> [] \<Longrightarrow> hd (ks @ [n]) = hd ks" by simp
  have "at_ns ((tx @ [sdu]) ! i) = (ks @ [n]) ! i mod 8
      \<and> (was_sent st ((tx @ [sdu]) ! i) \<longrightarrow> (ks @ [n]) ! i < hd (ks @ [n]) + 3)" if "i < Suc (length tx)" for i
  proof (cases "i = length tx")
    case True
    then show ?thesis using l ns fresh(1) by (simp add: nth_append)
  next
    case False
    then have "i < length tx" "ks \<noteq> []" using that l by auto
    then show ?thesis using n l by (simp add: nth_append numbered_def)
  qed
  moreover have "k \<in> set (ks @ [n])" if "hd (ks @ [n]) + 3 \<le> k" "k < Suc n" for k
    using that n by (cases "ks = []") (auto simp: numbered_def less_Suc_eq)
  ultimately show "numbered st (tx @ [sdu]) (ks @ [n]) (Suc n)"
    using n by (auto simp: numbered_def sorted_wrt_append less_Suc_eq)
  show "queue_good view st (tx @ [sdu])" using q good fresh(2) by (auto simp: queue_good_def)
qed

section \<open>The operations\<close>

definition link_wf :: "('b, 'm) al_link \<Rightarrow> bool" where
  "link_wf link \<longleftrightarrow> al_setup_ok (reset_setup link) \<and> (\<forall>re. li_reset link = Some re \<longrightarrow> al_setup_ok (re_setup re))"

lemma link_wf_frame:
  "\<lbrakk>link_wf link; reset_setup link' = reset_setup link; li_reset link' = li_reset link\<rbrakk> \<Longrightarrow> link_wf link'"
  by (simp add: link_wf_def)

lemma link_wf_window: "link_wf link \<Longrightarrow> 1 \<le> li_window_size link \<and> li_window_size link \<le> 3"
  by (simp add: link_wf_def al_setup_ok_def reset_setup_def)

definition link_good :: "('b \<Rightarrow> buf_view) \<Rightarrow> tx_store \<Rightarrow> ('b, 'm) al_link \<Rightarrow> nat list \<Rightarrow> nat \<Rightarrow> bool" where
  "link_good view st link ks n \<longleftrightarrow> numbered st (li_tx link) ks n \<and> queue_good view st (li_tx link) \<and> li_next_tx_ns link = n mod 8
     \<and> link_wf link"

definition request_good :: "('b \<Rightarrow> buf_view) \<Rightarrow> tx_store \<Rightarrow> ('b, 'm) al_tx_sdu list \<Rightarrow> ('b, 'm) al_request \<Rightarrow> bool" where
  "request_good view st tx request \<longleftrightarrow> view_wf (view (aq_sdu request))
     \<and> (\<forall>r. aq_reporter request = Some r \<longrightarrow> good_receipt st r \<and> get_state st r = Pending
          \<and> (\<forall>sdu \<in> set tx. cell (at_reporter sdu) \<noteq> cell r))"

context bit_buffer
begin

lemma advanced_segments_good:
  assumes "view_wf (view sdu)"
  shows "\<exists>segs. advanced_segments ops sdu = Some segs \<and> segs \<noteq> [] \<and> (\<forall>b \<in> set segs. view_wf (view b))"
proof -
  let ?all = "remaining (view sdu) @ word_bits (fcs_of (remaining (view sdu)))"
  from advanced_segments_view [OF assms] obtain segs where
    s: "advanced_segments ops sdu = Some segs" "list_all2 (\<lambda>b xs. at_start (view b) xs) segs (cut (segment_lengths (length ?all)) ?all)" by blast
  have "segment_lengths (length ?all) \<noteq> []" by (rule segment_lengths_facts(2)) simp
  with list_all2_lengthD [OF s(2)] have "segs \<noteq> []" by (metis length_0_conv length_cut)
  moreover have "\<forall>b \<in> set segs. view_wf (view b)"
    using s(2) at_start_facts by (auto simp: list_all2_conv_all_nth in_set_conv_nth) blast
  ultimately show ?thesis using s(1) by blast
qed

lemma queue_step:
  assumes l: "link_good view st link ks n" and rq: "request_good view st (li_tx link) request"
  shows "\<exists>link' st'. queue_sdu ops request link st = Some (link', st') \<and> link_good view st' link' (ks @ [n]) (Suc n)"
proof -
  from advanced_segments_good rq obtain segs where
    segs: "advanced_segments ops (aq_sdu request) = Some segs" "segs \<noteq> []" "\<forall>b \<in> set segs. view_wf (view b)"
    unfolding request_good_def by blast
  obtain r a where r: "(case aq_reporter request of Some r \<Rightarrow> (r, st) | None \<Rightarrow> new_reporter st) = (r, a)" by fastforce
  have q: "queue_good view st (li_tx link)" "numbered st (li_tx link) ks n" "li_next_tx_ns link = n mod 8"
    using l by (simp_all add: link_good_def)
  have "queue_good view a (li_tx link) \<and> numbered a (li_tx link) ks n \<and> good_receipt a r \<and> get_state a r = Pending
    \<and> (\<forall>sdu \<in> set (li_tx link). cell (at_reporter sdu) \<noteq> cell r)"
  proof (cases "aq_reporter request")
    case None
    then have "new_reporter st = (r, a)" using r by simp
    from queue_new_reporter [OF q(1) this] q(2) show ?thesis by blast
  next
    case (Some r')
    then show ?thesis using r rq q by (auto simp: request_good_def)
  qed
  then have f: "queue_good view a (li_tx link)" "numbered a (li_tx link) ks n" "good_receipt a r" "get_state a r = Pending"
    "\<forall>sdu \<in> set (li_tx link). cell (at_reporter sdu) \<noteq> cell r" by auto
  let ?sdu = "fresh_tx (li_next_tx_ns link) segs request r"
  have "sdu_good view a ?sdu" using segs f(3) by (simp add: sdu_good_def fresh_tx_def)
  from numbered_append [OF f(2,1) this] f(4,5) q(3)
  have "numbered a (li_tx link @ [?sdu]) (ks @ [n]) (Suc n)" "queue_good view a (li_tx link @ [?sdu])"
    by (simp_all add: fresh_tx_def was_sent_def)
  moreover have "link_wf (link\<lparr>li_next_tx_ns := (li_next_tx_ns link + 1) mod 8, li_endpoint := aq_endpoint request,
      li_tx := li_tx link @ [?sdu]\<rparr>)"
    by (rule link_wf_frame [of link]) (use l in \<open>simp_all add: link_good_def reset_setup_def\<close>)
  ultimately show ?thesis using r segs(1) q(3) by (simp add: queue_sdu_def link_good_def mod_Suc_eq)
qed

end

lemma retire_step:
  assumes "numbered st tx ks n" and "queue_good view st tx"
  shows "\<exists>tx' st' ks'. retire_passed w base tx st = Some (tx', st') \<and> numbered st' tx' ks' n \<and> queue_good view st' tx'"
  using assms
proof (induction tx arbitrary: st ks)
  case (Cons front rest)
  let ?ahead = "u8_sub base (at_ns front) mod 8"
  show ?case
  proof (cases "at_ns front = base \<or> ?ahead = 0 \<or> w < ?ahead \<or> \<not> was_sent st front")
    case True
    then show ?thesis using Cons.prems by (auto simp: Let_def)
  next
    case False
    have "good_receipt st (at_reporter front)" using Cons.prems(2) by (simp add: queue_good_def sdu_good_def)
    from acknowledged_good [OF this] obtain a where
      a: "mark_advanced_sdu_acknowledged front st = Some a" "only_cell (at_reporter front) st a" by blast
    have "was_sent st ((front # rest) ! 0)" "only_cell (at_reporter ((front # rest) ! 0)) st a" using False a(2) by simp_all
    from numbered_remove [OF Cons.prems(1) _ this(1) Cons.prems(2) this(2)]
    have "numbered a rest (drop 1 ks) n" "queue_good view a rest" by simp_all
    from Cons.IH [OF this] False a(1) show ?thesis by (simp add: Let_def)
  qed
qed auto

lemma count_repeats_good:
  "\<forall>s \<in> set ss. s < length counts \<Longrightarrow> \<exists>b counts'. count_repeats limit ss counts = Some (b, counts') \<and> length counts' = length counts"
proof (induction ss arbitrary: counts)
  case (Cons a ss)
  let ?counts = "counts[a := sat_inc (counts ! a)]"
  have "\<forall>s \<in> set ss. s < length ?counts" using Cons.prems by simp
  from Cons.IH [OF this] Cons.prems show ?case by (auto simp: aget_def aset_def)
qed auto

lemma block_missing_less: "\<forall>s \<in> set (block_missing block n). s < n"
  by (auto simp: block_missing_def split: option.splits)

lemma report_step:
  assumes "sdu_good view st sdu"
  shows "\<exists>sdu'. apply_report limit block sdu = Some sdu' \<and> sdu_good view st sdu' \<and> at_ns sdu' = at_ns sdu
    \<and> at_reporter sdu' = at_reporter sdu"
proof -
  have "\<forall>s \<in> set (block_missing block (length (at_segments sdu))). s < length (at_segment_retransmissions sdu)"
    using block_missing_less [of block "length (at_segments sdu)"] assms by (simp add: sdu_good_def)
  from count_repeats_good [OF this, of limit] obtain e counts where
    c: "count_repeats limit (block_missing block (length (at_segments sdu))) (at_segment_retransmissions sdu) = Some (e, counts)"
      "length counts = length (at_segment_retransmissions sdu)" by blast
  show ?thesis
    using assms c block_missing_less [of block "length (at_segments sdu)"]
    by (auto simp: apply_report_def Let_def sdu_good_def)
qed

lemma find_position_Some: "find_position P xs = Some p \<Longrightarrow> p < length xs \<and> P (xs ! p) \<and> (\<forall>i<p. \<not> P (xs ! i))"
  by (induction xs arbitrary: p) (auto split: if_splits simp: less_Suc_eq_0_disj)

lemma find_position_None: "find_position P xs = None \<longleftrightarrow> (\<forall>x \<in> set xs. \<not> P x)"
  by (induction xs) auto

lemma block_step:
  assumes n: "numbered st tx ks n" and q: "queue_good view st tx"
  shows "\<exists>tx' st' ks' failed. apply_block link block tx st = Some (tx', st', failed) \<and> numbered st' tx' ks' n \<and> queue_good view st' tx'"
proof (cases "find_position (\<lambda>sdu. at_ns sdu = ab_nr block) tx")
  case None
  then show ?thesis using assms by (auto simp: apply_block_def)
next
  case (Some p)
  then have p: "p < length tx" using find_position_Some by blast
  then have good: "sdu_good view st (tx ! p)" using q by (simp add: queue_good_def)
  then have r: "good_receipt st (at_reporter (tx ! p))" by (simp add: sdu_good_def)
  show ?thesis
  proof (cases "was_sent st (tx ! p)")
    case False
    with Some assms show ?thesis by (auto simp: apply_block_def)
  next
    case True
    then have bound: "ks ! p < hd ks + 3" using n p by (simp add: numbered_def)
    show ?thesis
    proof (cases "ab_length block = 0")
      case True
      from acknowledged_good [OF r] obtain a where
        a: "mark_advanced_sdu_acknowledged (tx ! p) st = Some a" "only_cell (at_reporter (tx ! p)) st a" by blast
      from numbered_remove [OF n p \<open>was_sent st (tx ! p)\<close> q a(2)] a(1) Some True \<open>was_sent st (tx ! p)\<close> show ?thesis
        by (auto simp: apply_block_def)
    next
      case False
      from report_step [OF good] obtain sdu where
        s: "apply_report (li_max_segment_retransmissions link) block (tx ! p) = Some sdu" "sdu_good view st sdu"
          "at_ns sdu = at_ns (tx ! p)" "at_reporter sdu = at_reporter (tx ! p)" by blast
      let ?st = "reset_if_transmitted (at_reporter (tx ! p)) st"
      have only: "only_cell (at_reporter (tx ! p)) st ?st" by (rule reset_good(3) [OF r])
      have "sdu_good view ?st (withdraw sdu)" using s(2,4) only_cell_good [OF only r] by (simp add: sdu_good_def withdraw_def)
      from numbered_update [OF n p _ _ _ this q only] s(3,4) bound
      have "numbered ?st (tx[p := withdraw sdu]) ks n" "queue_good view ?st (tx[p := withdraw sdu])" by (simp_all add: withdraw_def)
      with s Some \<open>was_sent st (tx ! p)\<close> False show ?thesis by (auto simp: apply_block_def Let_def)
    qed
  qed
qed

lemma blocks_step:
  assumes "numbered st tx ks n" and "queue_good view st tx"
  shows "\<exists>tx' st' ks' failed. apply_blocks link blocks tx st = Some (tx', st', failed) \<and> numbered st' tx' ks' n \<and> queue_good view st' tx'"
  using assms
proof (induction blocks arbitrary: tx st ks)
  case (Cons block blocks)
  from block_step [OF Cons.prems] obtain tx' st' ks' failed where
    b: "apply_block link block tx st = Some (tx', st', failed)" "numbered st' tx' ks' n" "queue_good view st' tx'" by blast
  show ?case
  proof (cases failed)
    case None
    with Cons.IH [OF b(2,3)] b(1) show ?thesis by simp
  qed (use b in auto)
qed auto

lemma ack_step:
  assumes l: "link_good view st link ks n"
  shows "\<exists>link' st' failed ks'. ack_link now ack link st = Some (link', st', failed) \<and> link_good view st' link' ks' n"
proof (cases "li_reset link")
  case (Some r)
  with l show ?thesis by (auto simp: ack_link_def)
next
  case None
  have w: "1 \<le> li_window_size link" using l link_wf_window by (auto simp: link_good_def)
  let ?link = "link\<lparr>li_receiver_ready := aa_receiver_ready ack, li_not_ready_since := (if aa_receiver_ready ack then None else Some now)\<rparr>"
  let ?retire = "if length (aa_blocks ack) = li_window_size ?link \<and> consecutive (map ab_nr (aa_blocks ack))
          then do { block \<leftarrow> aget (aa_blocks ack) 0; retire_passed (li_window_size ?link) (ab_nr block) (li_tx ?link) st }
          else Some (li_tx ?link, st)"
  have q: "numbered st (li_tx link) ks n" "queue_good view st (li_tx link)" using l by (simp_all add: link_good_def)
  have "\<exists>tx a ks'. ?retire = Some (tx, a) \<and> numbered a tx ks' n \<and> queue_good view a tx"
    using retire_step [OF q] q w by (auto simp: aget_def)
  then obtain tx a ks' where t: "?retire = Some (tx, a)" "numbered a tx ks' n" "queue_good view a tx" by blast
  from blocks_step [OF t(2,3), of ?link "aa_blocks ack"] obtain tx' b ks'' failed where
    u: "apply_blocks ?link (aa_blocks ack) tx a = Some (tx', b, failed)" "numbered b tx' ks'' n" "queue_good view b tx'" by blast
  have "ack_link now ack link st = Some (?link\<lparr>li_tx := tx'\<rparr>, b, failed)"
    unfolding ack_link_def Let_def t(1) using None u(1) by simp
  moreover have "link_wf (?link\<lparr>li_tx := tx'\<rparr>)"
    by (rule link_wf_frame [of link]) (use l in \<open>simp_all add: link_good_def reset_setup_def\<close>)
  ultimately show ?thesis using u l by (auto simp: link_good_def)
qed

text \<open>Giving up a link: what is kept is numbered from zero.\<close>

lemma retain_step:
  assumes "queue_good view st (retained @ tx)" and "numbered st retained [0..<length retained] (length retained)"
    and "\<forall>sdu \<in> set retained. \<not> was_sent st sdu"
  shows "\<exists>tx' st'. retain_unoffered f p tx st retained = Some (tx', st') \<and> queue_good view st' tx'
    \<and> numbered st' tx' [0..<length tx'] (length tx')"
  using assms
proof (induction tx arbitrary: p st retained)
  case (Cons sdu rest)
  have good: "sdu_good view st sdu" and q: "queue_good view st retained" and dist: "\<forall>s \<in> set retained. cell (at_reporter s) \<noteq> cell (at_reporter sdu)"
    using Cons.prems(1) by (auto simp: queue_good_def image_iff)
  show ?case
  proof (cases "Some p \<noteq> f \<and> never_offered st sdu")
    case True
    let ?sdu = "sdu\<lparr>at_ns := as_u8 (length retained) mod 8\<rparr>"
    have ns: "at_ns ?sdu = length retained mod 8" by (simp add: as_u8_def mod_mod_cancel)
    have unsent: "\<not> was_sent st ?sdu" using True by (simp add: never_offered_def was_sent_def)
    have "sdu_good view st ?sdu" using good by (simp add: sdu_good_def)
    from numbered_append [OF Cons.prems(2) q this ns unsent] dist
    have "numbered st (retained @ [?sdu]) ([0..<length retained] @ [length retained]) (Suc (length retained))"
      "queue_good view st (retained @ [?sdu])" by simp_all
    moreover have "queue_good view st ((retained @ [?sdu]) @ rest)" using Cons.prems(1) \<open>sdu_good view st ?sdu\<close> by (auto simp: queue_good_def)
    ultimately show ?thesis using Cons.IH [of st "retained @ [?sdu]" "Suc p"] True Cons.prems(3) unsent by simp
  next
    case False
    from lost_good [of st "at_reporter sdu"] good obtain a where
      a: "mark_reporter_lost (at_reporter sdu) st = Some a" "only_cell (at_reporter sdu) st a" by (auto simp: sdu_good_def)
    have same: "\<forall>s \<in> set (retained @ rest). cell (at_reporter s) < length a \<and> a ! cell (at_reporter s) = st ! cell (at_reporter s)"
    proof
      fix s assume s: "s \<in> set (retained @ rest)"
      then have "cell (at_reporter s) \<noteq> cell (at_reporter sdu)" "sdu_good view st s"
        using Cons.prems(1) by (auto simp: queue_good_def image_iff)
      then show "cell (at_reporter s) < length a \<and> a ! cell (at_reporter s) = st ! cell (at_reporter s)"
        using a(2) by (simp add: only_cell_def sdu_good_def good_receipt_def)
    qed
    have "queue_good view st (retained @ rest)" using Cons.prems(1) by (auto simp: queue_good_def)
    from queue_frame(1) [OF this same] have "queue_good view a (retained @ rest)" .
    moreover have "numbered a retained [0..<length retained] (length retained)"
      by (rule queue_frame(2) [OF q _ Cons.prems(2)]) (use same in simp)
    moreover have "\<forall>s \<in> set retained. \<not> was_sent a s" using Cons.prems(3) same by (simp add: was_sent_def get_state_def)
    ultimately show ?thesis using Cons.IH [of a retained "Suc p"] False a(1) by auto
  qed
qed auto

text \<open>Exactly: what was never offered stays, in order, and every other receipt is final.\<close>

definition kept_sdus :: "nat option \<Rightarrow> nat \<Rightarrow> tx_store \<Rightarrow> ('b, 'm) al_tx_sdu list \<Rightarrow> ('b, 'm) al_tx_sdu list" where
  "kept_sdus f p st tx = map snd (filter (\<lambda>(q, sdu). Some q \<noteq> f \<and> never_offered st sdu) (enumerate p tx))"

definition renumbered :: "nat \<Rightarrow> ('b, 'm) al_tx_sdu list \<Rightarrow> ('b, 'm) al_tx_sdu list" where
  "renumbered k tx = map (\<lambda>(i, sdu). sdu\<lparr>at_ns := i mod 8\<rparr>) (enumerate k tx)"

text \<open>What giving up keeps: the SDUs that were never offered, without the one that failed.\<close>

definition unoffered :: "nat \<Rightarrow> tx_store \<Rightarrow> ('b, 'm) al_tx_sdu list \<Rightarrow> ('b, 'm) al_tx_sdu list" where
  "unoffered failed st tx = kept_sdus (find_position (\<lambda>sdu. at_ns sdu = failed) tx) 0 st tx"

lemma retain_keeps:
  assumes "queue_good view st (retained @ tx)" and "retain_unoffered f p tx st retained = Some (tx', st')"
  shows "tx' = retained @ renumbered (length retained) (kept_sdus f p st tx)
    \<and> (\<forall>sdu \<in> set tx. sdu \<in> set (kept_sdus f p st tx) \<or> get_state st' (at_reporter sdu) \<in> {Lost, Acknowledged})
    \<and> (\<forall>r. cell r \<notin> (\<lambda>sdu. cell (at_reporter sdu)) ` set tx \<longrightarrow> get_state st' r = get_state st r) \<and> length st' = length st"
  using assms
proof (induction tx arbitrary: p st retained)
  case Nil
  then show ?case by (simp add: kept_sdus_def renumbered_def)
next
  case (Cons sdu rest)
  have good: "sdu_good view st sdu" and q: "queue_good view st (retained @ rest)" using Cons.prems(1) by (auto simp: queue_good_def)
  have dist: "\<forall>s \<in> set (retained @ rest). cell (at_reporter s) \<noteq> cell (at_reporter sdu)"
    using Cons.prems(1) by (auto simp: queue_good_def image_iff)
  show ?case
  proof (cases "Some p \<noteq> f \<and> never_offered st sdu")
    case True
    let ?sdu = "sdu\<lparr>at_ns := length retained mod 8\<rparr>"
    have "sdu_good view st ?sdu" using good by (simp add: sdu_good_def)
    then have "queue_good view st ((retained @ [?sdu]) @ rest)" using Cons.prems(1) by (auto simp: queue_good_def)
    moreover have "retain_unoffered f (Suc p) rest st (retained @ [?sdu]) = Some (tx', st')"
      using Cons.prems(2) True by (simp add: as_u8_def mod_mod_cancel)
    ultimately have "tx' = (retained @ [?sdu]) @ renumbered (length (retained @ [?sdu])) (kept_sdus f (Suc p) st rest)
      \<and> (\<forall>s \<in> set rest. s \<in> set (kept_sdus f (Suc p) st rest) \<or> get_state st' (at_reporter s) \<in> {Lost, Acknowledged})
      \<and> (\<forall>r. cell r \<notin> (\<lambda>s. cell (at_reporter s)) ` set rest \<longrightarrow> get_state st' r = get_state st r) \<and> length st' = length st" by (rule Cons.IH)
    moreover have "kept_sdus f p st (sdu # rest) = sdu # kept_sdus f (Suc p) st rest" using True by (simp add: kept_sdus_def)
    moreover have "renumbered (length retained) (sdu # xs) = ?sdu # renumbered (Suc (length retained)) xs" for xs
      by (simp add: renumbered_def)
    ultimately show ?thesis by simp
  next
    case False
    from lost_good [of st "at_reporter sdu"] good obtain a where
      a: "mark_reporter_lost (at_reporter sdu) st = Some a" "only_cell (at_reporter sdu) st a" "get_state a (at_reporter sdu) \<in> {Lost, Acknowledged}"
      by (auto simp: sdu_good_def)
    have same: "\<forall>s \<in> set (retained @ rest). get_state a (at_reporter s) = get_state st (at_reporter s) \<and> sdu_good view a s = sdu_good view st s"
      using dist only_cell_other [OF a(2)] sdu_good_other [OF a(2)] by blast
    then have qa: "queue_good view a (retained @ rest)" using q by (auto simp: queue_good_def)
    have r: "retain_unoffered f (Suc p) rest a retained = Some (tx', st')" using Cons.prems(2) False a(1) by auto
    note IH = Cons.IH [OF qa r]
    have "never_offered a s = never_offered st s" if "s \<in> set rest" for s using same that by (simp add: never_offered_def)
    then have "kept_sdus f (Suc p) a rest = kept_sdus f (Suc p) st rest"
      unfolding kept_sdus_def by (intro arg_cong [where f = "map snd"] filter_cong) (auto simp: in_set_enumerate_eq)
    moreover have "kept_sdus f p st (sdu # rest) = kept_sdus f (Suc p) st rest" using False by (auto simp: kept_sdus_def)
    moreover have "cell (at_reporter sdu) \<notin> (\<lambda>s. cell (at_reporter s)) ` set rest" using dist by auto
    then have "get_state st' (at_reporter sdu) \<in> {Lost, Acknowledged}" using IH a(3) by auto
    moreover have "get_state a r = get_state st r" if "cell r \<noteq> cell (at_reporter sdu)" for r using only_cell_other [OF a(2) that] by blast
    moreover have "length a = length st" using a(2) by (simp add: only_cell_def)
    ultimately show ?thesis using IH by auto
  qed
qed

lemma watch_attempt_good:
  assumes "sdu_good view st sdu"
  shows "\<exists>sdu' st'. watch_attempt now sdu st = Some (sdu', st') \<and> only_cell (at_reporter sdu) st st' \<and> sdu_good view st' sdu'
    \<and> at_ns sdu' = at_ns sdu \<and> at_reporter sdu' = at_reporter sdu \<and> (was_sent st' sdu' \<longrightarrow> was_sent st sdu)"
proof -
  have r: "good_receipt st (at_reporter sdu)" using assms by (simp add: sdu_good_def)
  show ?thesis
  proof (cases "at_attempt sdu")
    case None
    then show ?thesis using assms only_cell_refl [OF r] by (simp add: watch_attempt_def)
  next
    case (Some attempt)
    obtain a where a: "mark_if_pending (at_reporter sdu) st = Some a" "only_cell (at_reporter sdu) st a"
      using mark_if_pending_good [OF r] by blast
    have "sdu_good view a sdu" using assms only_cell_good [OF a(2) r] by (simp add: sdu_good_def)
    then show ?thesis using Some a assms only_cell_refl [OF r]
      by (cases "get_state st attempt") (auto simp: watch_attempt_def sdu_good_def was_sent_def)
  qed
qed

lemma watch_timer_good:
  assumes "sdu_good view st sdu" and "watch_timer m now sdu st = Some (sdu', st')"
  shows "only_cell (at_reporter sdu) st st' \<and> sdu_good view st' sdu'
    \<and> at_ns sdu' = at_ns sdu \<and> at_reporter sdu' = at_reporter sdu \<and> (was_sent st' sdu' \<longrightarrow> was_sent st sdu)"
proof -
  have r: "good_receipt st (at_reporter sdu)" using assms by (simp add: sdu_good_def)
  note re = only_cell_refl [OF r] reset_good(3,4) [OF r] only_cell_good [OF reset_good(3) [OF r] r]
  show ?thesis using assms re
    by (auto simp: watch_timer_def rearm_def sdu_good_def was_sent_def split: if_splits)
qed

lemma watch_all_good:
  assumes "numbered st (pre @ tx) ks n" and "queue_good view st (pre @ tx)"
  shows "\<exists>tx' st' failed. watch_all m now tx st = Some (tx', st', failed) \<and> numbered st' (pre @ tx') ks n \<and> queue_good view st' (pre @ tx')"
  using assms
proof (induction tx arbitrary: pre st)
  case (Cons sdu rest)
  have upd: "numbered b (pre @ sdu' # rest) ks n \<and> queue_good view b (pre @ sdu' # rest)"
    if "numbered a (pre @ s # rest) ks n" "queue_good view a (pre @ s # rest)" "only_cell (at_reporter s) a b" "sdu_good view b sdu'"
      "at_ns sdu' = at_ns s" "at_reporter sdu' = at_reporter s" "was_sent b sdu' \<longrightarrow> was_sent a s" for s sdu' a b
  proof -
    have p: "length pre < length (pre @ s # rest)" "(pre @ s # rest) ! length pre = s" "(pre @ s # rest)[length pre := sdu'] = pre @ sdu' # rest"
      by simp_all
    have "was_sent b sdu' \<Longrightarrow> ks ! length pre < hd ks + 3" using that(1,7) p(1,2) unfolding numbered_def by metis
    from numbered_update [OF that(1) p(1) this, unfolded p(2), OF _ that(5,6,4,2,3)] show ?thesis unfolding p(3) by blast
  qed
  have "sdu_good view st sdu" using Cons.prems(2) by (simp add: queue_good_def)
  from watch_attempt_good [OF this, of now] obtain s a where
    a: "watch_attempt now sdu st = Some (s, a)" "only_cell (at_reporter sdu) st a" "sdu_good view a s"
      "at_ns s = at_ns sdu" "at_reporter s = at_reporter sdu" "was_sent a s \<longrightarrow> was_sent st sdu" by blast
  from upd [OF Cons.prems a(2-6)] have A: "numbered a (pre @ s # rest) ks n" "queue_good view a (pre @ s # rest)" by auto
  show ?case
  proof (cases "watch_timer m now s a")
    case None
    then show ?thesis using a(1) A by (intro exI [of _ "s # rest"] exI [of _ a]) simp
  next
    case (Some p)
    obtain s' b where p: "p = (s', b)" by fastforce
    note t = watch_timer_good [OF a(3) Some [unfolded p]]
    from upd [OF A, of b s'] t have B: "numbered b ((pre @ [s']) @ rest) ks n" "queue_good view b ((pre @ [s']) @ rest)" by auto
    from Cons.IH [OF B] obtain tx' st' failed where
      "watch_all m now rest b = Some (tx', st', failed)" "numbered st' ((pre @ [s']) @ tx') ks n" "queue_good view st' ((pre @ [s']) @ tx')" by blast
    then show ?thesis using a(1) Some p by (intro exI [of _ "s' # tx'"]) auto
  qed
qed auto

section \<open>Selection\<close>

lemma generation:
  assumes n: "numbered st tx ks n" and i: "i < generation_end tx (at_ns (hd tx))" "i < length tx"
  shows "hd ks \<le> ks ! i \<and> ks ! i < hd ks + 8"
proof -
  have l: "length ks = length tx" and sorted: "sorted_wrt (<) ks" and ne: "ks \<noteq> []" "tx \<noteq> []" using n i(2) by (auto simp: numbered_def)
  have ge: "hd ks \<le> ks ! i" using hd_least [OF sorted] i(2) l by simp
  have "ks ! i < hd ks + 8"
  proof (rule ccontr)
    assume "\<not> ks ! i < hd ks + 8"
    then have le: "hd ks + 8 \<le> ks ! i" by simp
    have "ks ! i < n" using n i(2) l by (simp add: numbered_def)
    then have "hd ks + 8 \<in> set ks" using n ne(1) le by (auto simp: numbered_def)
    then obtain j where j: "j < length tx" "ks ! j = hd ks + 8" using l by (auto simp: in_set_conv_nth)
    have "j \<noteq> 0"
    proof
      assume "j = 0"
      then have "ks ! j = hd ks" using ne(1) by (simp add: hd_conv_nth)
      with j(2) show False by simp
    qed
    have "j \<le> i"
    proof (rule ccontr)
      assume "\<not> j \<le> i"
      then have "ks ! i < ks ! j" using sorted_wrt_nth_less [OF sorted, of i j] j(1) l by simp
      with j(2) le show False by simp
    qed
    have "at_ns (tx ! j) = (hd ks + 8) mod 8" using n j by (simp add: numbered_def)
    also have "\<dots> = at_ns (hd tx)" using n ne l by (simp add: numbered_def hd_conv_nth)
    finally have same: "at_ns (tl tx ! (j - 1)) = at_ns (hd tx)" using \<open>j \<noteq> 0\<close> j(1) ne(2) by (simp add: nth_tl)
    have "j - 1 < length (tl tx)" using \<open>j \<noteq> 0\<close> j(1) by simp
    with same have "find_position (\<lambda>sdu. at_ns sdu = at_ns (hd tx)) (tl tx) \<noteq> None" unfolding find_position_None by (metis nth_mem)
    then obtain q where q: "find_position (\<lambda>sdu. at_ns sdu = at_ns (hd tx)) (tl tx) = Some q" by blast
    then have "q \<le> j - 1" using find_position_Some [OF q] same by (metis linorder_not_less)
    with q i(1) have "i < j" using \<open>j \<noteq> 0\<close> by (simp add: generation_end_def)
    with \<open>j \<le> i\<close> show False by simp
  qed
  with ge show ?thesis by blast
qed

lemma selected:
  assumes n: "numbered st (li_tx link) ks n" and p: "p \<in> set (select_sdus link busy)"
  shows "p < length (li_tx link)" and "ks ! p < hd ks + min 3 (max 1 (li_window_size link))"
    and "at_attempt (li_tx link ! p) = None"
proof -
  from p have f: "p < length (li_tx link)" "p < generation_end (li_tx link) (at_ns (hd (li_tx link)))"
    "u8_sub (at_ns (li_tx link ! p)) (at_ns (hd (li_tx link))) mod 8 < min 3 (max 1 (li_window_size link))"
    "at_attempt (li_tx link ! p) = None"
    unfolding select_sdus_def may_send_def Let_def by (auto dest!: in_set_takeD)
  show "p < length (li_tx link)" "at_attempt (li_tx link ! p) = None" by (rule f)+
  have g: "hd ks \<le> ks ! p" "ks ! p < hd ks + 8" using generation [OF n f(2,1)] by auto
  have "ks \<noteq> []" "li_tx link \<noteq> []" using f(1) n by (auto simp: numbered_def)
  then have "at_ns (hd (li_tx link)) = hd ks mod 8" "at_ns (li_tx link ! p) = ks ! p mod 8"
    using n f(1) by (auto simp: numbered_def hd_conv_nth)
  with f(3) distance_in [OF g] have "ks ! p - hd ks < min 3 (max 1 (li_window_size link))" by argo
  with g(1) show "ks ! p < hd ks + min 3 (max 1 (li_window_size link))" by linarith
qed

text \<open>The queue once a tick has looked at the receipts and timers, and the choice it makes from it.\<close>

definition watched :: "tdma_time \<Rightarrow> ('b, 'm) al_link \<Rightarrow> tx_store \<Rightarrow> ('b, 'm) al_tx_sdu list \<Rightarrow> bool" where
  "watched now link st tx \<longleftrightarrow> (if li_ready link
     then \<exists>a failed. watch_all (li_max_sdu_retransmissions link) now (li_tx link) st = Some (tx, a, failed)
     else tx = li_tx link)"

definition chosen :: "('b, 'm) al_link \<Rightarrow> ('b, 'm) al_tx_sdu list \<Rightarrow> nat list \<Rightarrow> bool" where
  "chosen link tx ps \<longleftrightarrow> ps = [] \<or> (\<exists>busy. ps = select_sdus (link\<lparr>li_tx := tx\<rparr>) busy)"

lemma selected_sorted: "sorted_wrt (<) (select_sdus link busy)"
proof -
  have "sorted_wrt (<) (take k (filter P [0..<n]))" for k P and n :: nat
    by (intro sorted_wrt_take sorted_wrt_filter) simp
  then show ?thesis by (simp add: select_sdus_def Let_def)
qed

lemma chosen_facts:
  assumes "chosen link tx ps"
  shows "sorted_wrt (<) ps" and "\<forall>p \<in> set ps. at_attempt (tx ! p) = None"
proof -
  have "\<forall>p \<in> set (select_sdus (link\<lparr>li_tx := tx\<rparr>) busy). at_attempt (tx ! p) = None" for busy
    unfolding select_sdus_def may_send_def Let_def by (auto dest!: in_set_takeD)
  with selected_sorted assms show "sorted_wrt (<) ps" and "\<forall>p \<in> set ps. at_attempt (tx ! p) = None"
    by (auto simp: chosen_def)
qed

lemma selected_distinct: "distinct (select_sdus link busy)"
  by (simp add: select_sdus_def Let_def)

section \<open>What is sent\<close>

text \<open>A message carries a segment behind its header; the PDUs of a tick, in their order.\<close>

definition carries :: "('b \<Rightarrow> buf_view) \<Rightarrow> ('b, 'm) al_tx_sdu \<Rightarrow> nat \<Rightarrow> bool \<Rightarrow> ('b, 'm, 'r) al_message \<Rightarrow> bool" where
  "carries view sdu s ack m \<longleftrightarrow>
     at_start (view (ms_pdu m)) (al_data_header_bits (segment_header ack sdu s) @ remaining (view (at_segments sdu ! s)))"

definition send_plan :: "('b, 'm) al_tx_sdu list \<Rightarrow> nat list \<Rightarrow> (nat \<times> nat) list" where
  "send_plan tx ps = concat (map (\<lambda>p. map (Pair p) (due_segments (tx ! p))) ps)"

text \<open>The messages of a tick are what is due of the SDUs at the positions \<open>ps\<close>; the last of them asks for an acknowledgement.\<close>

definition tick_sends :: "('b \<Rightarrow> buf_view) \<Rightarrow> ('b, 'm) al_tx_sdu list \<Rightarrow> nat list \<Rightarrow> ('b, 'm, 'r) al_message list \<Rightarrow> bool" where
  "tick_sends view tx ps msgs \<longleftrightarrow> length msgs = length (send_plan tx ps)
     \<and> (\<forall>i<length msgs. carries view (tx ! fst (send_plan tx ps ! i)) (snd (send_plan tx ps ! i)) (i + 1 = length msgs) (msgs ! i))"

text \<open>What an SDU is, whatever has become of its transmission.\<close>

definition sdu_core :: "('b, 'm) al_tx_sdu \<Rightarrow> nat \<times> 'b list \<times> tx_reporter" where
  "sdu_core sdu = (at_ns sdu, at_segments sdu, at_reporter sdu)"

text \<open>What a tick makes of the due segments of an SDU before it sends: nothing, unless the acknowledgement has not come in
  time; then the last segment alone repeats the request, and after enough of these everything is due again.\<close>

definition due_after :: "tdma_time \<Rightarrow> ('b, 'm) al_tx_sdu \<Rightarrow> ('b, 'm) al_tx_sdu \<Rightarrow> bool" where
  "due_after now sdu sdu' \<longleftrightarrow> sdu_core sdu' = sdu_core sdu \<and> (due_segments sdu' = due_segments sdu
     \<or> timed_out now T252_ACK_WAITING_TIMER (at_sent_at sdu) \<and> due_segments sdu' =
         (if at_ack_repetitions sdu < MAX_AL_ACK_REQUEST_REPEATS then [length (at_segments sdu) - 1] else [0..<length (at_segments sdu)]))"

lemma due_after_refl: "due_after now sdu sdu"
  by (simp add: due_after_def)

lemma diff_now: "diff t t = 0"
proof -
  have "wrap_i32 0 = 0" "diff_raise 0 = 0" "diff_lower 0 = 0" by code_simp+
  then show ?thesis by (simp add: diff_def time_int_diff_def)
qed

lemma watched_due_after:
  assumes "watch_attempt now sdu st = Some (s, a)"
  shows "due_after now sdu s \<and> (watch_timer m now s a = Some (s', b) \<longrightarrow> due_after now sdu s')"
proof -
  have s: "sdu_core s = sdu_core sdu" "at_pending s = at_pending sdu" "at_ack_repetitions s = at_ack_repetitions sdu"
      "at_sent_at s = at_sent_at sdu \<or> at_sent_at s = None \<or> at_sent_at s = Some now"
    using assms by (auto simp: watch_attempt_def sdu_core_def bind_eq_Some_conv split: option.splits tx_state.splits if_splits)
  then have g: "at_segments s = at_segments sdu" by (simp add: sdu_core_def)
  then have d: "at_segments s = at_segments sdu" "due_segments s = due_segments sdu" by (simp_all add: due_segments_def s(2) split: option.split)
  have "timed_out now T252_ACK_WAITING_TIMER (at_sent_at s) \<Longrightarrow> timed_out now T252_ACK_WAITING_TIMER (at_sent_at sdu)"
    using s(4) diff_now by (auto simp: timed_out_def T252_ACK_WAITING_TIMER_def)
  then show ?thesis using s d
    by (auto simp: due_after_def watch_timer_def rearm_def sdu_core_def due_segments_def split: if_splits)
qed

lemma watch_all_due:
  assumes "watch_all m now tx0 st = Some (tx, a, failed)"
  shows "list_all2 (due_after now) tx0 tx"
  using assms
proof (induction tx0 arbitrary: st tx)
  case (Cons sdu rest)
  from Cons.prems obtain s b where w: "watch_attempt now sdu st = Some (s, b)" by (auto simp: bind_eq_Some_conv)
  have refl: "list_all2 (due_after now) rest rest" by (simp add: list_all2_same due_after_refl)
  show ?case
  proof (cases "watch_timer m now s b")
    case None
    then show ?thesis using Cons.prems w refl watched_due_after [OF w] by auto
  next
    case (Some r)
    obtain s' c where r: "r = (s', c)" by fastforce
    from Cons.prems w Some r obtain tx' where "watch_all m now rest c = Some (tx', a, failed)" "tx = s' # tx'"
      by (auto simp: bind_eq_Some_conv)
    with Cons.IH [OF this(1)] watched_due_after [OF w, of m s' c] Some r show ?thesis by simp
  qed
qed simp

lemma watched_due: "watched now link st tx \<Longrightarrow> list_all2 (due_after now) (li_tx link) tx"
  using watch_all_due by (auto simp: watched_def list_all2_same due_after_refl split: if_splits)

context bit_buffer
begin

lemma segment_pdu_good:
  assumes "sdu_good view st sdu" and "at_ns sdu < 8" and "s < length (at_segments sdu)"
  shows "\<exists>pdu. segment_pdu ops ack sdu s = Some (Some pdu)
    \<and> at_start (view pdu) (al_data_header_bits (segment_header ack sdu s) @ remaining (view (at_segments sdu ! s)))"
proof -
  let ?h = "segment_header ack sdu s" and ?seg = "at_segments sdu ! s"
  have wf: "view_wf (view ?seg)" using assms by (simp add: sdu_good_def)
  have ok: "llc_ok (PAlData ?h)" using assms(2) by (simp add: segment_header_def as_u8_def)
  have can: "can_write (view (bb_new_autoexpand ops (AL_DOWNLINK_SEGMENT_BITS + 24))) (length (llc_bits (PAlData ?h)))"
    using auto_buf_facts(6) [of "[]"] by (simp add: new_auto_buf)
  from puts_Some [OF puts_llc [OF ok] can] obtain b where
    b: "al_data_header_to_bitbuf ops ?h (bb_new_autoexpand ops (AL_DOWNLINK_SEGMENT_BITS + 24)) = Some (Inr (), b)"
      "view b = put_bits (auto_buf [] 0) (al_data_header_bits ?h)" by (auto simp: new_auto_buf llc_write_def)
  let ?x = "al_data_header_bits ?h" and ?y = "remaining (view ?seg)"
  have vb: "view b = auto_buf ?x (length ?x)" using b(2) auto_buf_facts(5) [of "[]" ?x] by simp
  have n: "bb_get_len_remaining ops ?seg = length ?y" using get_len_remaining [OF wf] length_remaining [OF wf] by simp
  have "raw_pos (view ?seg) + length ?y \<le> raw_end (view ?seg)" using wf length_remaining [OF wf] by (auto simp: view_wf_def)
  from copy_bits [of b "length ?y" ?seg, OF _ wf this] vb obtain c t where
    c: "bb_copy_bits ops b ?seg (length ?y) = Some (c, t)" "view c = auto_buf (?x @ ?y) (length ?x + length ?y)" by auto
  from seek_auto_buf [OF c(2)] obtain d where d: "bb_seek ops c 0 = Some d" "view d = auto_buf (?x @ ?y) 0" by auto
  with b(1) c(1) n assms(3) show ?thesis by (simp add: segment_pdu_def aget_def)
qed

lemma send_segments_good:
  assumes "sdu_good view st sdu" and "at_ns sdu < 8" and "\<forall>s \<in> set ss. s < length (at_segments sdu)"
  shows "\<exists>msgs. send_segments ops routes ra attempt sdu ss = Some msgs \<and> length msgs = length ss
    \<and> (\<forall>i<length ss. carries view sdu (ss ! i) (ra \<and> i + 1 = length ss) (msgs ! i))"
  using assms(3)
proof (induction ss)
  case (Cons s ss)
  then obtain msgs where m: "send_segments ops routes ra attempt sdu ss = Some msgs" "length msgs = length ss"
    "\<forall>i<length ss. carries view sdu (ss ! i) (ra \<and> i + 1 = length ss) (msgs ! i)" by auto
  from segment_pdu_good [OF assms(1,2), of s "ra \<and> ss = []"] Cons.prems obtain pdu where
    p: "segment_pdu ops (ra \<and> ss = []) sdu s = Some (Some pdu)"
      "at_start (view pdu) (al_data_header_bits (segment_header (ra \<and> ss = []) sdu s) @ remaining (view (at_segments sdu ! s)))" by auto
  have "carries view sdu ((s # ss) ! i) (ra \<and> i + 1 = length (s # ss)) ((\<lparr>ms_pdu = pdu, ms_endpoint = at_endpoint sdu,
      ms_route = Some (routes ! (s mod length routes)), ms_meta = at_meta sdu, ms_with_allocation = (ss = []),
      ms_reporter = (if ss = [] then Some attempt else None)\<rparr> # msgs) ! i)" if "i < length (s # ss)" for i
  proof (cases i)
    case 0
    then show ?thesis using p(2) by (simp add: carries_def)
  next
    case (Suc j)
    then show ?thesis using m(3) that by simp
  qed
  then show ?case using m(1,2) p(1) by simp
qed simp

lemma due_good:
  assumes "sdu_good view st sdu"
  shows "due_segments sdu \<noteq> []" and "\<forall>s \<in> set (due_segments sdu). s < length (at_segments sdu)"
  using assms by (auto simp: due_segments_def sdu_good_def split: option.splits)

lemma numbered_ns: "numbered st tx ks n \<Longrightarrow> p < length tx \<Longrightarrow> at_ns (tx ! p) < 8"
  by (simp add: numbered_def)

lemma send_sdus_good:
  assumes "numbered st tx ks n" and "queue_good view st tx" and "distinct ps" and "\<forall>p \<in> set ps. p < length tx \<and> ks ! p < hd ks + 3"
  shows "\<exists>tx' st' msgs. send_sdus ops routes ps tx st = Some (tx', st', msgs) \<and> numbered st' tx' ks n \<and> queue_good view st' tx'
    \<and> map sdu_core tx' = map sdu_core tx \<and> length msgs = length (send_plan tx ps)
    \<and> (\<forall>i<length msgs. carries view (tx ! fst (send_plan tx ps ! i)) (snd (send_plan tx ps ! i)) (i + 1 = length msgs) (msgs ! i))"
  using assms
proof (induction ps arbitrary: tx st)
  case (Cons p ps)
  have p: "p < length tx" "ks ! p < hd ks + 3" using Cons.prems(4) by simp_all
  obtain attempt a where r: "new_reporter st = (attempt, a)" by fastforce
  note A = queue_new_reporter(1) [OF Cons.prems(2) r] queue_new_reporter(2) [OF Cons.prems(2) r Cons.prems(1)]
  have good: "sdu_good view a (tx ! p)" using A(1) p(1) by (simp add: queue_good_def)
  let ?due = "due_segments (tx ! p)"
  from send_segments_good [OF good numbered_ns [OF A(2) p(1)] due_good(2) [OF good], of routes "ps = []" attempt] obtain now where
    m: "send_segments ops routes (ps = []) attempt (tx ! p) ?due = Some now" "length now = length ?due"
      "\<forall>i<length ?due. carries view (tx ! p) (?due ! i) (ps = [] \<and> i + 1 = length ?due) (now ! i)" by blast
  let ?sdu = "(tx ! p)\<lparr>at_attempt := Some attempt, at_ack_requested := (ps = []), at_pending := None\<rparr>"
  let ?tx = "tx[p := ?sdu]"
  have "sdu_good view a ?sdu" using good by (simp add: sdu_good_def)
  moreover have "only_cell (at_reporter (tx ! p)) a a" using good by (simp add: only_cell_refl sdu_good_def)
  ultimately have B: "numbered a ?tx ks n" "queue_good view a ?tx"
    using numbered_update [OF A(2) p(1), of a ?sdu] p(2) A(1) by simp_all
  have later: "?tx ! q = tx ! q" if "q \<in> set ps" for q using Cons.prems(3) that by (cases "q = p") auto
  then have plan: "send_plan ?tx ps = send_plan tx ps" unfolding send_plan_def by (intro arg_cong [of _ _ concat] map_cong refl) simp
  have bounds: "\<forall>q \<in> set ps. q < length ?tx \<and> ks ! q < hd ks + 3" using Cons.prems(4) by simp
  from Cons.IH [OF B _ bounds] Cons.prems(3) obtain tx' b more where
    t: "send_sdus ops routes ps ?tx a = Some (tx', b, more)" "numbered b tx' ks n" "queue_good view b tx'" "map sdu_core tx' = map sdu_core ?tx"
      "length more = length (send_plan tx ps)"
      "\<forall>i<length more. carries view (?tx ! fst (send_plan tx ps ! i)) (snd (send_plan tx ps ! i)) (i + 1 = length more) (more ! i)"
    unfolding plan by auto
  have split: "send_plan tx (p # ps) = map (Pair p) ?due @ send_plan tx ps" by (simp add: send_plan_def)
  have empty: "ps = [] \<longleftrightarrow> length more = 0"
  proof -
    have "send_plan tx ps \<noteq> []" if "ps \<noteq> []"
    proof -
      obtain q qs where q: "ps = q # qs" using \<open>ps \<noteq> []\<close> by (cases ps) auto
      have "sdu_good view a (tx ! q)" using A(1) Cons.prems(4) q by (simp add: queue_good_def)
      from due_good(1) [OF this] q show ?thesis by (simp add: send_plan_def)
    qed
    then show ?thesis using t(5) by (auto simp: send_plan_def)
  qed
  have "carries view (tx ! fst (send_plan tx (p # ps) ! i)) (snd (send_plan tx (p # ps) ! i)) (i + 1 = length (now @ more)) ((now @ more) ! i)"
    if i: "i < length (now @ more)" for i
  proof (cases "i < length now")
    case True
    have flag: "(ps = [] \<and> i + 1 = length ?due) = (i + 1 = length (now @ more))"
    proof (cases "ps = []")
      case False
      then have "0 < length more" using empty by simp
      with True have "i + 1 \<noteq> length (now @ more)" unfolding length_append by linarith
      with False show ?thesis by blast
    qed (use empty m(2) in simp)
    have "(now @ more) ! i = now ! i" "send_plan tx (p # ps) ! i = (p, ?due ! i)" using True m(2) by (simp_all add: split nth_append)
    moreover have "carries view (tx ! p) (?due ! i) (ps = [] \<and> i + 1 = length ?due) (now ! i)" using m(2,3) True by metis
    ultimately show ?thesis unfolding flag by simp
  next
    case False
    then obtain j where j: "i = length now + j" "j < length more" using i by (metis le_add_diff_inverse length_append linorder_not_less nat_add_left_cancel_less)
    have "fst (send_plan tx ps ! j) \<in> set ps"
      using nth_mem [of j "send_plan tx ps"] j(2) t(5) by (auto simp: send_plan_def)
    from later [OF this] t(6) j m(2) show ?thesis by (auto simp: split nth_append)
  qed
  moreover have "map sdu_core ?tx = map sdu_core tx" using p(1) by (simp add: map_update sdu_core_def list_update_same_conv)
  ultimately show ?case using r m t split by (simp add: Let_def)
qed (simp add: send_plan_def)

lemma reset_message_good:
  assumes "al_setup_ok proposal"
  shows "\<exists>m. reset_message ops endpoint route meta proposal reporter st = Some (st, [m])
    \<and> at_start (view (ms_pdu m)) (al_setup_bits proposal)"
proof -
  have ok: "llc_ok (PAlSetup proposal)" using assms by simp
  have can: "can_write (view (bb_new_autoexpand ops 32)) (length (llc_bits (PAlSetup proposal)))"
    using auto_buf_facts(6) [of "[]"] by (simp add: new_auto_buf)
  from puts_Some [OF puts_llc [OF ok] can] obtain b where
    b: "al_setup_to_bitbuf ops proposal (bb_new_autoexpand ops 32) = Some (Inr (), b)"
      "view b = put_bits (auto_buf [] 0) (al_setup_bits proposal)" by (auto simp: new_auto_buf llc_write_def)
  have "view b = auto_buf (al_setup_bits proposal) (length (al_setup_bits proposal))"
    using b(2) auto_buf_facts(5) [of "[]" "al_setup_bits proposal"] by simp
  from seek_auto_buf [OF this] obtain c where "bb_seek ops b 0 = Some c" "view c = auto_buf (al_setup_bits proposal) 0" by auto
  with b(1) show ?thesis by (simp add: reset_message_def)
qed

lemma begin_reset_step:
  assumes l: "link_good view st link ks n"
  shows "\<exists>link' st' msgs ks' n'. begin_reset ops clear route failed link st = Some (link', st', msgs) \<and> link_good view st' link' ks' n'
    \<and> li_reset link' \<noteq> None \<and> (li_reset link = None \<longrightarrow> ks' = [0..<n'] \<and> n' = length (li_tx link'))"
proof (cases "li_reset link")
  case (Some r)
  with l show ?thesis by (auto simp: begin_reset_def)
next
  case None
  let ?f = "find_position (\<lambda>sdu. at_ns sdu = failed) (li_tx link)"
  have q: "queue_good view st ([] @ li_tx link)" using l by (simp add: link_good_def)
  from retain_step [OF q, of ?f 0] obtain tx a where
    t: "retain_unoffered ?f 0 (li_tx link) st [] = Some (tx, a)" "queue_good view a tx" "numbered a tx [0..<length tx] (length tx)"
    by (auto simp: numbered_def)
  define mid where "mid = link\<lparr>li_tx := tx, li_next_tx_ns := as_u8 (length tx) mod 8, li_next_rx_ns := 0,
          li_rx_sdus := [], li_receiver_ready := False, li_not_ready_since := None, li_ready := False, li_setup_started_at := None\<rparr>"
  have "reset_setup mid = (reset_setup link)" by (simp add: mid_def reset_setup_def)
  then have ok: "al_setup_ok (reset_setup mid)" using l by (simp add: link_good_def link_wf_def)
  obtain attempt b where r: "new_reporter a = (attempt, b)" by fastforce
  note Q = queue_new_reporter(1) [OF t(2) r] queue_new_reporter(2) [OF t(2) r t(3)]
  define meta where "meta = (case ?f of Some p \<Rightarrow> at_meta (li_tx link ! p)
        | None \<Rightarrow> (case li_tx link of [] \<Rightarrow> clear | front # rest \<Rightarrow> at_meta front))"
  define re where "re = \<lparr>re_setup = reset_setup mid, re_meta = meta, re_attempt = attempt, re_sent_at = None, re_retries = 0\<rparr>"
  from reset_message_good [OF ok, of "li_endpoint link" route meta attempt b] obtain m where
    m: "reset_message ops (li_endpoint link) route meta (reset_setup mid) attempt b = Some (b, [m])" by blast
  have "begin_reset ops clear route failed link st = Some (mid\<lparr>li_reset := Some re\<rparr>, b, [m])"
    unfolding begin_reset_def Let_def meta_def [symmetric] using None t(1) r m by (simp add: mid_def [symmetric] re_def [symmetric])
  moreover have "reset_setup (mid\<lparr>li_reset := Some re\<rparr>) = reset_setup mid" by (simp add: reset_setup_def)
  then have "link_wf (mid\<lparr>li_reset := Some re\<rparr>)" using ok by (simp add: link_wf_def re_def)
  then have "link_good view b (mid\<lparr>li_reset := Some re\<rparr>) [0..<length tx] (length tx)"
    using Q by (simp add: link_good_def mid_def as_u8_def mod_mod_cancel)
  ultimately show ?thesis
    by (intro exI [of _ "mid\<lparr>li_reset := Some re\<rparr>"] exI [of _ b] exI [of _ "[m]"] exI [of _ "[0..<length tx]"] exI [of _ "length tx"]) (simp add: mid_def)
qed

lemma tick_send_step:
  assumes l: "link_good view st link ks n" and r: "li_reset link = None"
  shows "\<exists>link' st' msgs v ps. tick_send ops routes busy link st = Some (link', st', msgs, v) \<and> link_good view st' link' ks n
    \<and> map sdu_core (li_tx link') = map sdu_core (li_tx link) \<and> tick_sends view (li_tx link) ps msgs
    \<and> (ps = [] \<or> ps = select_sdus link busy)
    \<and> (\<forall>p \<in> set ps. p < length (li_tx link) \<and> ks ! p < hd ks + min 3 (max 1 (li_window_size link)))"
proof (cases "routes = [] \<or> list_ex at_ack_requested (li_tx link) \<or> li_tx link = [] \<or> select_sdus link busy = []")
  case True
  then show ?thesis using l r
    by (intro exI [of _ link] exI [of _ st] exI [of _ "[]"] exI [of _ Quiet] exI [of _ "[]"]) (simp add: tick_send_def tick_sends_def send_plan_def)
next
  case False
  let ?ps = "select_sdus link busy"
  have q: "numbered st (li_tx link) ks n" "queue_good view st (li_tx link)" using l by (simp_all add: link_good_def)
  have bounds: "\<forall>p \<in> set ?ps. p < length (li_tx link) \<and> ks ! p < hd ks + min 3 (max 1 (li_window_size link))"
    using selected [OF q(1)] by blast
  then have "\<forall>p \<in> set ?ps. p < length (li_tx link) \<and> ks ! p < hd ks + 3" by auto
  from send_sdus_good [OF q selected_distinct this, of routes] obtain tx a msgs where
    s: "send_sdus ops routes ?ps (li_tx link) st = Some (tx, a, msgs)" "numbered a tx ks n" "queue_good view a tx"
      "map sdu_core tx = map sdu_core (li_tx link)" "tick_sends view (li_tx link) ?ps msgs" unfolding tick_sends_def by blast
  have "link_wf (link\<lparr>li_tx := tx\<rparr>)"
    by (rule link_wf_frame [of link]) (use l in \<open>simp_all add: link_good_def reset_setup_def\<close>)
  with s l r False bounds show ?thesis
    by (intro exI [of _ "link\<lparr>li_tx := tx\<rparr>"] exI [of _ a] exI [of _ msgs] exI [of _ Active] exI [of _ ?ps])
       (simp add: tick_send_def link_good_def)
qed

lemma tick_reset_step:
  assumes l: "link_good view st link ks n" and re: "li_reset link = Some re"
  shows "\<exists>link' st' msgs v. tick_reset ops now routes re link st = Some (link', st', msgs, v) \<and> link_good view st' link' ks n
    \<and> (\<forall>m \<in> set msgs. at_start (view (ms_pdu m)) (al_setup_bits (re_setup re)))"
proof -
  obtain re' retry where w: "watch_reset now re st = (re', retry)" by fastforce
  then have same: "re_setup re' = re_setup re" by (auto simp: watch_reset_def Let_def split: tx_state.splits)
  have ok: "al_setup_ok (re_setup re)" using l re by (simp add: link_good_def link_wf_def)
  have wf: "link_wf (link\<lparr>li_reset := Some r\<rparr>)" if "re_setup r = re_setup re" for r
  proof -
    have "reset_setup (link\<lparr>li_reset := Some r\<rparr>) = reset_setup link" by (simp add: reset_setup_def)
    with l that ok show ?thesis by (simp add: link_good_def link_wf_def)
  qed
  show ?thesis
  proof (cases "retry \<and> re_retries re' < N262_AL_MAX_CONNECTION_SETUP_RETRIES")
    case False
    with w wf [OF same] l show ?thesis
      by (cases retry) (auto simp: tick_reset_def link_good_def)
  next
    case True
    obtain reporter a where r: "new_reporter st = (reporter, a)" by fastforce
    let ?re = "re'\<lparr>re_retries := re_retries re' + 1, re_sent_at := None, re_attempt := reporter\<rparr>"
    obtain m where m: "reset_message ops (li_endpoint link) (case routes of [] \<Rightarrow> None | r # rs \<Rightarrow> Some r) (re_meta re') (re_setup re) reporter a
        = Some (a, [m])" "at_start (view (ms_pdu m)) (al_setup_bits (re_setup re))" 
      using reset_message_good [OF ok, of "li_endpoint link" "case routes of [] \<Rightarrow> None | r # rs \<Rightarrow> Some r" "re_meta re'" reporter a] by blast
    have q: "numbered st (li_tx link) ks n" "queue_good view st (li_tx link)" using l by (simp_all add: link_good_def)
    have "numbered a (li_tx link) ks n" "queue_good view a (li_tx link)" using queue_new_reporter(1,2) [OF q(2) r] q(1) by blast+
    with w True r m wf [of ?re] same l show ?thesis by (simp add: tick_reset_def link_good_def)
  qed
qed

lemma begin_reset_keeps:
  assumes l: "link_good view st link ks n" and r: "begin_reset ops clear route failed link st = Some (link', st', msgs)" "li_reset link = None"
  shows "li_tx link' = renumbered 0 (unoffered failed st (li_tx link))
    \<and> (\<forall>sdu \<in> set (li_tx link). sdu \<in> set (unoffered failed st (li_tx link)) \<or> get_state st' (at_reporter sdu) \<in> {Lost, Acknowledged})"
proof -
  let ?f = "find_position (\<lambda>sdu. at_ns sdu = failed) (li_tx link)"
  have q: "queue_good view st ([] @ li_tx link)" using l by (simp add: link_good_def)
  from retain_step [OF q, of ?f 0] obtain tx a where
    t: "retain_unoffered ?f 0 (li_tx link) st [] = Some (tx, a)" by (auto simp: numbered_def)
  obtain attempt b where n: "new_reporter a = (attempt, b)" by fastforce
  have ok: "al_setup_ok (reset_setup link)" using l by (simp add: link_good_def link_wf_def)
  have same: "reset_setup (link\<lparr>li_tx := x, li_next_tx_ns := y, li_next_rx_ns := 0,
          li_rx_sdus := [], li_receiver_ready := False, li_not_ready_since := None, li_ready := False, li_setup_started_at := None\<rparr>) = reset_setup link"
    for x y by (simp add: reset_setup_def)
  have st: "st' = b" if "reset_message ops (li_endpoint link) route meta (reset_setup link) attempt b = Some (st', msgs)" for meta
    using reset_message_good [OF ok, of "li_endpoint link" route meta attempt b] that by auto
  have e: "li_tx link' = tx" "st' = b"
    using r t n same by (auto simp: begin_reset_def Let_def bind_eq_Some_conv dest: st)
  have k: "tx = renumbered 0 (unoffered failed st (li_tx link))"
      "\<forall>sdu \<in> set (li_tx link). sdu \<in> set (unoffered failed st (li_tx link)) \<or> get_state a (at_reporter sdu) \<in> {Lost, Acknowledged}"
    and len: "length a = length st" using retain_keeps [OF q t] by (simp_all add: unoffered_def)
  have "get_state b (at_reporter sdu) = get_state a (at_reporter sdu)" if "sdu \<in> set (li_tx link)" for sdu
  proof -
    have "cell (at_reporter sdu) < length a" using q that by (simp add: queue_good_def sdu_good_def good_receipt_def len)
    then show ?thesis using n by (auto simp: new_reporter_def get_state_def nth_append)
  qed
  with k e show ?thesis by simp
qed

text \<open>A tick of a link that is not being reset: the queue after the timers have run, the positions selected from it.\<close>

lemma tick_step:
  assumes l: "link_good view st link ks n"
  shows "\<exists>link' st' msgs v. tick_link ops now routes link st = Some (link', st', msgs, v) \<and> link_good view st' link' ks n
    \<and> (li_reset link = None \<longrightarrow> (\<exists>tx ps. map sdu_core tx = map sdu_core (li_tx link') \<and> tick_sends view tx ps msgs
        \<and> watched now link st tx \<and> chosen link tx ps
        \<and> (\<forall>p \<in> set ps. p < length tx \<and> ks ! p < hd ks + min 3 (max 1 (li_window_size link)))))"
proof (cases "li_reset link")
  case (Some re)
  with tick_reset_step [OF l Some, of now routes] show ?thesis by (fastforce simp: tick_link_def)
next
  case None
  show ?thesis
  proof (cases "li_ready link")
    case False
    have "tick_sends view (li_tx link) [] []" by (simp add: tick_sends_def send_plan_def)
    moreover have "watched now link st (li_tx link)" "chosen link (li_tx link) []" using False by (simp_all add: watched_def chosen_def)
    ultimately show ?thesis using None False l by (fastforce simp: tick_link_def)
  next
    case True
    have q: "numbered st ([] @ li_tx link) ks n" "queue_good view st ([] @ li_tx link)" using l by (simp_all add: link_good_def)
    from watch_all_good [OF q, of "li_max_sdu_retransmissions link" now] obtain tx a failed where
      w: "watch_all (li_max_sdu_retransmissions link) now (li_tx link) st = Some (tx, a, failed)"
        "numbered a tx ks n" "queue_good view a tx" by auto
    have good: "link_good view a (link\<lparr>li_tx := tx\<rparr>) ks n"
      using w(2,3) l by (auto simp: link_good_def reset_setup_def intro!: link_wf_frame [of link])
    have watched: "watched now link st tx" using True w(1) by (auto simp: watched_def)
    have none: "tick_sends view tx [] []" "chosen link tx []" by (simp_all add: tick_sends_def send_plan_def chosen_def)
    show ?thesis
    proof (cases failed)
      case (Some ns)
      with None True w(1) good watched none show ?thesis by (fastforce simp: tick_link_def)
    next
      case ok: None
      let ?link = "link\<lparr>li_tx := tx\<rparr>" and ?again = "link\<lparr>li_tx := tx, li_receiver_ready := True, li_not_ready_since := None\<rparr>"
      have again: "link_good view a ?again ks n"
        using w(2,3) l by (auto simp: link_good_def reset_setup_def intro!: link_wf_frame [of link])
      have "tick_link ops now routes link st = tick_send ops routes False ?link a
        \<or> tick_link ops now routes link st = tick_send ops routes False ?again a
        \<or> tick_link ops now routes link st = tick_send ops routes True ?link a
        \<or> tick_link ops now routes link st = Some (?link, a, [], Quiet)"
        using None True w(1) ok by (simp add: tick_link_def Let_def)
      moreover have pick: "chosen link tx ps" if "ps = [] \<or> ps = select_sdus ?link busy \<or> ps = select_sdus ?again busy" for ps busy
        using that by (auto simp: chosen_def select_sdus_def Let_def)
      ultimately show ?thesis
      proof (elim disjE)
        assume "tick_link ops now routes link st = tick_send ops routes False ?link a"
        with tick_send_step [OF good, of routes False] None watched pick [of _ False] show ?thesis by (simp only:) fastforce
      next
        assume "tick_link ops now routes link st = tick_send ops routes False ?again a"
        with tick_send_step [OF again, of routes False] None watched pick [of _ False] show ?thesis by (simp only:) fastforce
      next
        assume "tick_link ops now routes link st = tick_send ops routes True ?link a"
        with tick_send_step [OF good, of routes True] None watched pick [of _ True] show ?thesis by (simp only:) fastforce
      next
        assume "tick_link ops now routes link st = Some (?link, a, [], Quiet)"
        then show ?thesis using good watched none by fastforce
      qed
    qed
  qed
qed

lemma send_sdus_keeps:
  "send_sdus ops routes ps tx st = Some (tx', st', msgs) \<Longrightarrow> \<forall>p. at_attempt (tx ! p) \<noteq> None \<longrightarrow> at_attempt (tx' ! p) \<noteq> None"
proof (induction ps arbitrary: tx st msgs)
  case (Cons q ps)
  obtain attempt a where r: "new_reporter st = (attempt, a)" by fastforce
  let ?tx = "tx[q := (tx ! q)\<lparr>at_attempt := Some attempt, at_ack_requested := (ps = []), at_pending := None\<rparr>]"
  from Cons.prems r obtain more where "send_sdus ops routes ps ?tx a = Some (tx', st', more)"
    by (auto simp: Let_def bind_eq_Some_conv split: prod.splits)
  from Cons.IH [OF this] have "at_attempt (?tx ! p) \<noteq> None \<longrightarrow> at_attempt (tx' ! p) \<noteq> None" for p by blast
  moreover have "at_attempt (tx ! p) \<noteq> None \<longrightarrow> at_attempt (?tx ! p) \<noteq> None" for p
    by (cases "p = q \<and> q < length tx") (auto simp: nth_list_update list_update_beyond)
  ultimately show ?case by blast
qed auto

lemma watch_idle:
  "list_all (\<lambda>sdu. at_attempt sdu = None \<and> at_sent_at sdu = None \<and> \<not> at_ack_requested sdu) tx \<Longrightarrow>
    watch_all m now tx st = Some (tx, st, None)"
  by (induction tx) (simp_all add: watch_attempt_def watch_timer_def timed_out_def)

lemma idle_tick:
  assumes good: "\<exists>ks n. link_good view st link ks n" and idle: "li_reset link = None" "li_ready link" "li_receiver_ready link" "routes \<noteq> []"
    "li_tx link \<noteq> []" "list_all (\<lambda>sdu. at_attempt sdu = None \<and> at_sent_at sdu = None \<and> \<not> at_ack_requested sdu) (li_tx link)"
    "at_retransmissions (hd (li_tx link)) \<le> li_max_sdu_retransmissions link"
  shows "\<exists>link' st' msgs. tick_link ops now routes link st = Some (link', st', msgs, Active)
    \<and> length (due_segments (hd (li_tx link))) \<le> length msgs
    \<and> (\<forall>i<length (due_segments (hd (li_tx link))). \<exists>ack.
        carries view (hd (li_tx link)) (due_segments (hd (li_tx link)) ! i) ack (msgs ! i))
    \<and> at_attempt (hd (li_tx link')) \<noteq> None"
proof -
  obtain ks n where l: "link_good view st link ks n" using good by blast
  then have q: "numbered st (li_tx link) ks n" "queue_good view st (li_tx link)" and w: "1 \<le> li_window_size link" "li_window_size link \<le> 3"
    using link_wf_window by (auto simp: link_good_def)
  have none: "filter (\<lambda>sdu. at_attempt sdu \<noteq> None \<or> at_sent_at sdu \<noteq> None) (li_tx link) = []"
    using idle(6) by (auto simp: filter_empty_conv list_all_iff)
  have upt: "[0..<length (li_tx link)] = 0 # [1..<length (li_tx link)]" using idle(5) by (simp add: upt_conv_Cons)
  have "0 < generation_end (li_tx link) (at_ns (hd (li_tx link)))" using idle(5) by (simp add: generation_end_def split: option.splits)
  moreover have "may_send (min 3 (max 1 (li_window_size link))) (at_ns (hd (li_tx link))) (li_max_sdu_retransmissions link) False (li_tx link ! 0)"
    using idle(5-7) w distance_in [of 0 "hd ks"] numbered_ns [OF q(1), of 0]
    by (cases "li_tx link") (auto simp: may_send_def u8_sub_def)
  moreover have clamp: "min 3 (max 1 (li_window_size link)) = li_window_size link" using w by simp
  moreover obtain k where k: "li_window_size link = Suc k" using w(1) by (cases "li_window_size link") auto
  ultimately obtain ps where ps: "select_sdus link False = 0 # ps"
    unfolding select_sdus_def Let_def none upt clamp by simp
  then have ne: "\<not> (routes = [] \<or> list_ex at_ack_requested (li_tx link) \<or> li_tx link = [] \<or> select_sdus link False = [])"
    using idle by (auto simp: list_ex_iff list_all_iff)
  have bounds: "\<forall>p \<in> set (0 # ps). p < length (li_tx link) \<and> ks ! p < hd ks + 3"
    using selected [OF q(1), of _ False] unfolding ps by fastforce
  have dist: "distinct (0 # ps)" using selected_distinct [of link False] by (simp only: ps)
  from send_sdus_good [OF q dist bounds, of routes] obtain tx a msgs where
    s: "send_sdus ops routes (0 # ps) (li_tx link) st = Some (tx, a, msgs)" "map sdu_core tx = map sdu_core (li_tx link)"
      "length msgs = length (send_plan (li_tx link) (0 # ps))"
      "\<forall>i<length msgs. carries view (li_tx link ! fst (send_plan (li_tx link) (0 # ps) ! i)) (snd (send_plan (li_tx link) (0 # ps) ! i)) (i + 1 = length msgs) (msgs ! i)" by blast
  have hd: "li_tx link ! 0 = hd (li_tx link)" using idle(5) by (simp add: hd_conv_nth)
  have plan: "send_plan (li_tx link) (0 # ps) = map (Pair 0) (due_segments (hd (li_tx link))) @ send_plan (li_tx link) ps"
    by (simp add: send_plan_def hd)
  have first: "carries view (hd (li_tx link)) (due_segments (hd (li_tx link)) ! i) (i + 1 = length msgs) (msgs ! i)"
    if "i < length (due_segments (hd (li_tx link)))" for i
  proof -
    have "i < length msgs" using that s(3) by (simp add: plan)
    moreover have "send_plan (li_tx link) (0 # ps) ! i = (0, due_segments (hd (li_tx link)) ! i)" using that by (simp add: plan nth_append)
    ultimately show ?thesis using s(4) hd by fastforce
  qed
  have "at_attempt (tx ! 0) \<noteq> None"
  proof -
    obtain attempt b where r: "new_reporter st = (attempt, b)" by fastforce
    let ?tx = "(li_tx link)[0 := (li_tx link ! 0)\<lparr>at_attempt := Some attempt, at_ack_requested := (ps = []), at_pending := None\<rparr>]"
    from s(1) r obtain more where "send_sdus ops routes ps ?tx b = Some (tx, a, more)"
      by (auto simp: Let_def bind_eq_Some_conv split: prod.splits)
    from send_sdus_keeps [OF this] have "at_attempt (?tx ! 0) \<noteq> None \<longrightarrow> at_attempt (tx ! 0) \<noteq> None" by blast
    then show ?thesis using idle(5) by simp
  qed
  moreover have "tx \<noteq> []" using s(2) idle(5) by auto
  ultimately have att: "at_attempt (hd tx) \<noteq> None" by (simp add: hd_conv_nth)
  have "li_tx (link\<lparr>li_tx := li_tx link\<rparr>) = li_tx link" "link\<lparr>li_tx := li_tx link\<rparr> = link" by simp_all
  then have "tick_link ops now routes link st = Some (link\<lparr>li_tx := tx\<rparr>, a, msgs, Active)"
    using idle watch_idle [OF idle(6)] ne s(1) ps by (simp add: tick_link_def tick_send_def)
  moreover have "length (due_segments (hd (li_tx link))) \<le> length msgs" by (simp add: s(3) plan)
  ultimately show ?thesis using first att by (intro exI [of _ "link\<lparr>li_tx := tx\<rparr>"] exI [of _ a] exI [of _ msgs]) auto
qed

end

section \<open>Runs\<close>

text \<open>
  A link from its setup on. Its own operations come in any order: an SDU is queued, an acknowledgement
  of whatever content arrives, a tick passes, the link is given up, a segment is received, the terminal confirms a setup. In between,
  anyone changes receipts that are not those of the SDUs in the queue: the MAC those of the attempts, other links their own.
\<close>

definition other_receipts :: "('b, 'm) al_tx_sdu list \<Rightarrow> tx_store \<Rightarrow> tx_store \<Rightarrow> bool" where
  "other_receipts tx st st' \<longleftrightarrow> length st \<le> length st'
     \<and> (\<forall>sdu \<in> set tx. st' ! cell (at_reporter sdu) = st ! cell (at_reporter sdu))"

text \<open>What the widths of its fields make of a setup request.\<close>

definition request_fields :: "al_setup \<Rightarrow> bool" where
  "request_fields request \<longleftrightarrow> as_throughput request \<le> 7 \<and> as_sdu_retransmissions request \<le> 7 \<and> as_segment_retransmissions request \<le> 15"

inductive al_run :: "'b bitbuf_ops \<Rightarrow> ('b \<Rightarrow> buf_view) \<Rightarrow> ('b, 'm) al_link \<times> tx_store \<Rightarrow> bool" for ops view where
  established: "request_fields request \<Longrightarrow> al_run ops view (negotiated_link request endpoint_id now, st)"
| queued: "\<lbrakk>al_run ops view (link, st); has_room link; request_good view st (li_tx link) rq;
     queue_sdu ops rq link st = Some (link', st')\<rbrakk> \<Longrightarrow> al_run ops view (link', st')"
| acknowledged: "\<lbrakk>al_run ops view (link, st); ack_link now ack link st = Some (link', st', failed)\<rbrakk> \<Longrightarrow> al_run ops view (link', st')"
| ticked: "\<lbrakk>al_run ops view (link, st); tick_link ops now (routes :: nat list) link st = Some (link', st', msgs, v)\<rbrakk>
    \<Longrightarrow> al_run ops view (link', st')"
| given_up: "\<lbrakk>al_run ops view (link, st); begin_reset ops clear (route :: nat option) ns link st = Some (link', st', msgs)\<rbrakk>
    \<Longrightarrow> al_run ops view (link', st')"
| received: "\<lbrakk>al_run ops view (link, st); al_data_link ops header pdu link = Some (link', outs)\<rbrakk> \<Longrightarrow> al_run ops view (link', st)"
| confirmed: "\<lbrakk>al_run ops view (link, st); request_fields request\<rbrakk> \<Longrightarrow> al_run ops view (confirm_setup request endpoint_id link, st)"
| elsewhere: "\<lbrakk>al_run ops view (link, st); other_receipts (li_tx link) st st'\<rbrakk> \<Longrightarrow> al_run ops view (link, st')"

lemma reset_setup_frame:
  "reset_setup (link\<lparr>li_rx_sdus := a\<rparr>) = reset_setup link" "reset_setup (link\<lparr>li_next_rx_ns := b\<rparr>) = reset_setup link"
  by (simp_all add: reset_setup_def)

lemma deliver_loop_frame:
  "deliver_loop link acc = (link', ds) \<Longrightarrow> li_tx link' = li_tx link \<and> li_next_tx_ns link' = li_next_tx_ns link
     \<and> reset_setup link' = reset_setup link \<and> li_reset link' = li_reset link"
proof (induction link acc arbitrary: ds rule: deliver_loop.induct)
  case (1 link acc)
  show ?case
  proof (cases "map_of (li_rx_sdus link) (li_next_rx_ns link)")
    case None
    then show ?thesis using "1.prems" by (simp add: deliver_loop.simps)
  next
    case (Some rx)
    show ?thesis
    proof (cases "rx_complete rx")
      case None
      then show ?thesis using "1.prems" Some by (simp add: deliver_loop.simps)
    next
      case (Some sdu)
      with "1.prems" \<open>map_of (li_rx_sdus link) (li_next_rx_ns link) = Some rx\<close>
      have "deliver_loop (link\<lparr>li_rx_sdus := AList.delete (li_next_rx_ns link) (li_rx_sdus link),
          li_next_rx_ns := (li_next_rx_ns link + 1) mod 8\<rparr>) (acc @ [sdu]) = (link', ds)"
        by (simp add: deliver_loop.simps [of link])
      from "1.IH" [OF \<open>map_of (li_rx_sdus link) (li_next_rx_ns link) = Some rx\<close> Some this] show ?thesis
        by (simp add: reset_setup_frame)
    qed
  qed
qed

lemma finish_segment_loop:
  assumes "finish_segment ops header rx complete failed link = Some (link', outs)"
  shows "\<exists>rxs ds. deliver_loop (link\<lparr>li_rx_sdus := rxs\<rparr>) [] = (link', ds)"
proof -
  let ?rxs = "if failed then AList.delete (ad_ns header) (li_rx_sdus link) else AList.update (ad_ns header) rx (li_rx_sdus link)"
  obtain l ds where d: "deliver_loop (link\<lparr>li_rx_sdus := ?rxs\<rparr>) [] = (l, ds)" by fastforce
  with assms have "l = link'" unfolding finish_segment_def Let_def by (auto simp: bind_eq_Some_conv)
  with d show ?thesis by blast
qed

lemma accept_segment_loop:
  assumes "accept_segment ops header pdu rx link = Some (link', outs)"
  shows "\<exists>rxs ds. deliver_loop (link\<lparr>li_rx_sdus := rxs\<rparr>) [] = (link', ds)"
  using assms by (auto simp: accept_segment_def Let_def bind_eq_Some_conv split: if_split_asm option.split_asm dest: finish_segment_loop)

lemma al_data_link_frame:
  assumes "al_data_link ops header pdu link = Some (link', outs)"
  shows "li_tx link' = li_tx link \<and> li_next_tx_ns link' = li_next_tx_ns link
     \<and> reset_setup link' = reset_setup link \<and> li_reset link' = li_reset link"
proof -
  have "link' = link \<or> (\<exists>rx. accept_segment ops header pdu rx link = Some (link', outs))"
  proof (cases "li_reset link \<noteq> None")
    case True
    with assms show ?thesis by (simp add: al_data_link_def)
  next
    case False
    note live = this
    show ?thesis
    proof (cases "li_window_size link \<le> u8_sub (ad_ns header) (li_next_rx_ns link) mod 8")
      case True
      with assms live show ?thesis by (auto simp: al_data_link_def Let_def bind_eq_Some_conv split: if_split_asm)
    next
      case False
      let ?rx = "case map_of (li_rx_sdus link) (ad_ns header) of Some rx \<Rightarrow> rx | None \<Rightarrow> fresh_rx (ad_ns header)"
      have "(if rx_complete ?rx \<noteq> None then do { acks \<leftarrow> send_al_ack ops (acknowledgement_blocks link None); Some (link, acks) }
          else accept_segment ops header pdu ?rx link) = Some (link', outs)"
        using assms live False unfolding al_data_link_def Let_def by simp
      then show ?thesis by (cases "rx_complete ?rx = None") (auto simp: bind_eq_Some_conv)
    qed
  qed
  then show ?thesis
  proof
    assume "\<exists>rx. accept_segment ops header pdu rx link = Some (link', outs)"
    then obtain rx where rx: "accept_segment ops header pdu rx link = Some (link', outs)" ..
    from accept_segment_loop [OF rx] obtain rxs ds where "deliver_loop (link\<lparr>li_rx_sdus := rxs\<rparr>) [] = (link', ds)" by blast
    from deliver_loop_frame [OF this] show ?thesis by (simp add: reset_setup_frame)
  qed simp
qed

lemma al_run_good:
  assumes "bit_buffer ops view" and "al_run ops view (link, st)"
  shows "\<exists>ks n. link_good view st link ks n"
  using assms(2)
proof (induction "(link, st)" arbitrary: link st rule: al_run.induct)
  case (established request endpoint_id now st)
  have "link_good view st (negotiated_link request endpoint_id now) [] 0"
    using established
    by (auto simp: link_good_def numbered_def queue_good_def negotiated_link_def link_wf_def reset_setup_def al_setup_ok_def
        setup_slots_def setup_window_def request_fields_def min_le_iff_disj)
  then show ?case by blast
next
  case (queued link st rq link' st')
  then obtain ks n where "link_good view st link ks n" by blast
  from bit_buffer.queue_step [OF assms(1) this queued(4)] queued(5) show ?case by auto
next
  case (acknowledged link st now ack link' st' failed)
  then obtain ks n where "link_good view st link ks n" by blast
  from ack_step [OF this, of now ack] acknowledged(3) show ?case by auto
next
  case (ticked link st now routes link' st' msgs v)
  then obtain ks n where "link_good view st link ks n" by blast
  from bit_buffer.tick_step [OF assms(1) this, of now routes] ticked(3) show ?case by auto
next
  case (given_up link st clear route ns link' st' msgs)
  then obtain ks n where "link_good view st link ks n" by blast
  from bit_buffer.begin_reset_step [OF assms(1) this, of clear route ns] given_up(3) show ?case by auto
next
  case (received link st header pdu link' outs)
  then obtain ks n where "link_good view st link ks n" by blast
  with al_data_link_frame [OF received(3)] link_wf_frame [of link link'] have "link_good view st link' ks n"
    by (simp add: link_good_def)
  then show ?case by blast
next
  case (confirmed link st request endpoint_id)
  then obtain ks n where l: "link_good view st link ks n" by blast
  let ?link = "confirm_setup request endpoint_id link"
  have slots: "1 \<le> setup_slots request" "setup_slots request \<le> 3" and w: "1 \<le> setup_window request" "setup_window request \<le> 3"
    by (simp_all add: setup_slots_def setup_window_def)
  have "li_link_number link \<le> 3" using l by (simp add: link_good_def link_wf_def reset_setup_def al_setup_ok_def)
  then have "al_setup_ok (reset_setup ?link)"
    using confirmed(3) slots w by (simp add: confirm_setup_def reset_setup_def al_setup_ok_def request_fields_def min_le_iff_disj)
  then have "link_wf ?link" by (simp add: link_wf_def confirm_setup_def)
  with l have "link_good view st ?link ks n" by (simp add: link_good_def confirm_setup_def)
  then show ?case by blast
next
  case (elsewhere link st st')
  then obtain ks n where l: "link_good view st link ks n" by blast
  then have q: "queue_good view st (li_tx link)" by (simp add: link_good_def)
  have "\<forall>sdu \<in> set (li_tx link). cell (at_reporter sdu) < length st' \<and> st' ! cell (at_reporter sdu) = st ! cell (at_reporter sdu)"
    using elsewhere(3) q by (auto simp: other_receipts_def queue_good_def sdu_good_def good_receipt_def)
  from queue_frame(1) [OF q this] queue_frame(2) [OF q this, of ks n] l have "link_good view st' link ks n" by (simp add: link_good_def)
  then show ?case by blast
qed

section \<open>A concrete link\<close>

definition example_request :: "(buf_view, unit) al_request" where
  "example_request = \<lparr>aq_sdu = auto_buf [True, False, True] 0, aq_meta = (), aq_endpoint = 0, aq_reporter = None\<rparr>"

lemma example_run:
  "\<exists>link st. al_run view_ops (\<lambda>v. v) (link, st) \<and> li_reset link = None \<and> length (li_tx link) = 1 \<and> li_window_size link = 2
     \<and> queue_sdu view_ops example_request (negotiated_link example_setup 0 default_time) [] = Some (link, st)"
proof -
  let ?link = "negotiated_link example_setup 0 default_time :: (buf_view, unit) al_link"
  have run: "al_run view_ops (\<lambda>v. v) (?link, [])" by (rule al_run.established) (simp add: request_fields_def example_setup_def)
  have rq: "request_good (\<lambda>v. v) [] (li_tx ?link) example_request" by (simp add: request_good_def example_request_def)
  from al_run_good [OF view_machine.bit_buffer_axioms run] obtain ks n where "link_good (\<lambda>v. v) [] ?link ks n" by blast
  from bit_buffer.queue_step [OF view_machine.bit_buffer_axioms this rq] obtain link st where
    q: "queue_sdu view_ops example_request ?link [] = Some (link, st)" by blast
  have "has_room ?link" by (simp add: has_room_def negotiated_link_def MAX_PENDING_ADVANCED_TLSDUS_PER_LINK_def)
  from al_run.queued [OF run this rq q] have "al_run view_ops (\<lambda>v. v) (link, st)" .
  moreover have "li_reset link = None \<and> length (li_tx link) = 1 \<and> li_window_size link = 2"
    using q by (auto simp: queue_sdu_def bind_eq_Some_conv negotiated_link_def setup_window_def example_setup_def split: prod.splits)
  ultimately show ?thesis using q by blast
qed

lemma example_tick:
  assumes r: "al_run view_ops (\<lambda>v. v) (link, st)" "li_reset link = None"
      "queue_sdu view_ops example_request (negotiated_link example_setup 0 default_time :: (buf_view, unit) al_link) [] = Some (link, st)"
  shows "\<exists>link' st' msgs. tick_link view_ops default_time [2 :: nat] link st = Some (link', st', msgs, Active) \<and> msgs \<noteq> []"
proof -
  from r(3) obtain segs r0 where tx: "li_tx link = [fresh_tx 0 segs example_request r0]" and
    f: "li_ready link" "li_receiver_ready link" "li_max_sdu_retransmissions link = 3"
    by (auto simp: queue_sdu_def bind_eq_Some_conv negotiated_link_def awaiting_peer_success_def setup_changed_def setup_slots_def
        setup_window_def example_setup_def split: prod.splits)
  from al_run_good [OF view_machine.bit_buffer_axioms r(1)] obtain ks n where l: "link_good (\<lambda>v. v) st link ks n" by blast
  then have "segs \<noteq> []" using tx by (simp add: link_good_def queue_good_def sdu_good_def fresh_tx_def)
  then have due: "0 < length (due_segments (hd (li_tx link)))" using tx by (simp add: due_segments_def fresh_tx_def)
  have "\<exists>ks n. link_good (\<lambda>v. v) st link ks n" using l by blast
  from bit_buffer.idle_tick [OF view_machine.bit_buffer_axioms this r(2) f(1,2), of "[2 :: nat]" default_time] tx f(3)
  obtain link' st' msgs where "tick_link view_ops default_time [2 :: nat] link st = Some (link', st', msgs, Active)"
    "length (due_segments (hd (li_tx link))) \<le> length msgs" by (auto simp: fresh_tx_def)
  with due show ?thesis by (intro exI [of _ link'] exI [of _ st'] exI [of _ msgs]) auto
qed

section \<open>Properties\<close>

text \<open>C29: The send window holds on every run: count the SDUs of a link from its setup or last reset on. Then the link's
  numbers are those counts modulo eight, and whatever was queued, acknowledged, timed out or
  retransmitted before, a tick first lets the receipts and timers run, which leaves every SDU its due segments, except
  that one whose acknowledgement is overdue has only its last segment due, or, asked for often enough, all of them. From
  that queue it then puts on the air exactly the due segments of some SDUs, oldest first and each SDU's in order, every
  PDU under the number of its SDU and the very last alone asking for an acknowledgement. Those SDUs are the ones that
  the code selects; none of them is on its way already, and their counts lie less than the window above the oldest
  unacknowledged one; so a terminal that has acknowledged no more than the station knows can tell all SDUs on the air
  apart by their three-bit numbers.\<close>

theorem al_send_window:
  assumes "bit_buffer ops view" and "al_run ops view (link, st)" and "li_reset link = None"
  shows "\<exists>link' st' msgs v ks n tx ps. tick_link ops now routes link st = Some (link', st', msgs, v)
    \<and> numbered st' (li_tx link') ks n \<and> li_next_tx_ns link' = n mod 8
    \<and> watched now link st tx \<and> list_all2 (due_after now) (li_tx link) tx
    \<and> chosen link tx ps \<and> sorted_wrt (<) ps \<and> tick_sends view tx ps msgs
    \<and> map sdu_core tx = map sdu_core (li_tx link')
    \<and> (\<forall>p \<in> set ps. p < length tx \<and> at_attempt (tx ! p) = None \<and> hd ks \<le> ks ! p \<and> ks ! p < hd ks + li_window_size link)"
proof -
  from al_run_good [OF assms(1,2)] obtain ks n where l: "link_good view st link ks n" by blast
  have "link_wf link" using l by (simp add: link_good_def)
  from link_wf_window [OF this] have "min 3 (max 1 (li_window_size link)) = li_window_size link" by simp
  with bit_buffer.tick_step [OF assms(1) l, of now routes] assms(3) obtain link' st' msgs v tx ps where
    t: "tick_link ops now routes link st = Some (link', st', msgs, v)" "link_good view st' link' ks n"
      "map sdu_core tx = map sdu_core (li_tx link')" "tick_sends view tx ps msgs" "watched now link st tx" "chosen link tx ps"
      "\<forall>p \<in> set ps. p < length tx \<and> ks ! p < hd ks + li_window_size link" by auto
  have n: "numbered st' (li_tx link') ks n" "li_next_tx_ns link' = n mod 8" using t(2) by (simp_all add: link_good_def)
  have "length tx = length ks" using n(1) t(3) by (metis length_map numbered_def)
  then have "\<forall>p \<in> set ps. hd ks \<le> ks ! p" using t(7) n(1) hd_least by (metis nth_mem numbered_def)
  moreover have "sorted_wrt (<) ps" "\<forall>p \<in> set ps. at_attempt (tx ! p) = None" using chosen_facts [OF t(6)] by blast+
  ultimately show ?thesis using t n watched_due [OF t(5)] by blast
qed

lemma al_send_window_witness:
  "\<exists>link st link' st' msgs v tx. queue_sdu view_ops example_request (negotiated_link example_setup 0 default_time) [] = Some (link, st)
    \<and> tick_link view_ops default_time [2 :: nat] link st = Some (link', st', msgs, v)
    \<and> list_all2 (due_after default_time) (li_tx link) tx \<and> tick_sends (\<lambda>v. v :: buf_view) tx [0] msgs \<and> msgs \<noteq> []"
proof -
  obtain link :: "(buf_view, unit) al_link" and st where
    r: "al_run view_ops (\<lambda>v. v) (link, st)" "li_reset link = None" "length (li_tx link) = 1" "li_window_size link = 2"
      "queue_sdu view_ops example_request (negotiated_link example_setup 0 default_time) [] = Some (link, st)"
    using example_run by blast
  obtain link' st' msgs where
    a: "tick_link view_ops default_time [2 :: nat] link st = Some (link', st', msgs, Active)" "msgs \<noteq> []"
    using example_tick [OF r(1,2,5)] by blast
  from al_send_window [OF view_machine.bit_buffer_axioms r(1,2), of default_time "[2 :: nat]"] a(1) obtain tx ps where
    t: "list_all2 (due_after default_time) (li_tx link) tx" "tick_sends (\<lambda>v. v) tx ps msgs" "sorted_wrt (<) ps" "\<forall>p \<in> set ps. p < length tx"
    by auto
  have "length tx = 1" using list_all2_lengthD [OF t(1)] r(3) by simp
  then have "set ps \<subseteq> {0}" using t(4) by auto
  moreover have "ps \<noteq> []" using t(2) a(2) by (auto simp: tick_sends_def send_plan_def)
  ultimately have "ps = [0]" using t(3) by (cases ps rule: remdups_adj.cases) auto
  then show ?thesis using r(5) a t by (intro exI [of _ link] exI [of _ st] exI [of _ link'] exI [of _ st'] exI [of _ msgs] exI [of _ Active] exI [of _ tx]) auto
qed

text \<open>C32: An idle link does not stall: when a link that is set up has SDUs queued, a channel, a terminal ready to receive,
  nothing in flight, and the oldest SDU has not been repeated more often than is negotiated at present, the next tick
  puts the oldest SDU on the air: first of all its due segments, in order, and its attempt is then watched.\<close>

theorem al_send_progress:
  assumes "bit_buffer ops view" and "al_run ops view (link, st)" and "li_reset link = None"
    and "li_ready link" and "li_receiver_ready link" and "routes \<noteq> []" and "li_tx link \<noteq> []"
    and "list_all (\<lambda>sdu. at_attempt sdu = None \<and> at_sent_at sdu = None \<and> \<not> at_ack_requested sdu) (li_tx link)"
    and "at_retransmissions (hd (li_tx link)) \<le> li_max_sdu_retransmissions link"
  shows "\<exists>link' st' msgs. tick_link ops now routes link st = Some (link', st', msgs, Active)
    \<and> length (due_segments (hd (li_tx link))) \<le> length msgs
    \<and> (\<forall>i<length (due_segments (hd (li_tx link))). \<exists>ack.
        carries view (hd (li_tx link)) (due_segments (hd (li_tx link)) ! i) ack (msgs ! i))
    \<and> at_attempt (hd (li_tx link')) \<noteq> None"
  by (rule bit_buffer.idle_tick [OF assms(1) _ assms(3-)]) (use al_run_good [OF assms(1,2)] in blast)

lemma al_send_progress_witness:
  "\<exists>link st link' st' msgs. queue_sdu view_ops example_request (negotiated_link example_setup 0 default_time) [] = Some (link, st)
     \<and> tick_link view_ops default_time [2 :: nat] link st = Some (link', st', msgs, Active) \<and> msgs \<noteq> []
     \<and> at_attempt (hd (li_tx link')) \<noteq> None"
proof -
  obtain link :: "(buf_view, unit) al_link" and st where
    r: "al_run view_ops (\<lambda>v. v) (link, st)" "li_reset link = None"
      "queue_sdu view_ops example_request (negotiated_link example_setup 0 default_time) [] = Some (link, st)"
    using example_run by blast
  then obtain segs r0 where tx: "li_tx link = [fresh_tx 0 segs example_request r0]" and
    f: "li_ready link" "li_receiver_ready link" "li_max_sdu_retransmissions link = 3"
    by (auto simp: queue_sdu_def bind_eq_Some_conv negotiated_link_def awaiting_peer_success_def setup_changed_def setup_slots_def
        setup_window_def example_setup_def split: prod.splits)
  from al_run_good [OF view_machine.bit_buffer_axioms r(1)] obtain ks n where "link_good (\<lambda>v. v) st link ks n" by blast
  then have "segs \<noteq> []" using tx by (simp add: link_good_def queue_good_def sdu_good_def fresh_tx_def)
  then have due: "0 < length (due_segments (hd (li_tx link)))" using tx by (simp add: due_segments_def fresh_tx_def)
  from al_send_progress [OF view_machine.bit_buffer_axioms r(1,2) f(1,2), of "[2 :: nat]" default_time] tx f(3)
  obtain link' st' msgs where
    "tick_link view_ops default_time [2 :: nat] link st = Some (link', st', msgs, Active)"
    "length (due_segments (hd (li_tx link))) \<le> length msgs" "at_attempt (hd (li_tx link')) \<noteq> None"
    by (auto simp: fresh_tx_def)
  with due r(3) show ?thesis by (intro exI [of _ link] exI [of _ st] exI [of _ link'] exI [of _ st'] exI [of _ msgs]) auto
qed

text \<open>The condition on the repetitions cannot be dropped. An AL-SETUP Success that lowers the negotiated number below what
  the oldest SDU has had already leaves that SDU on a link where no tick selects it any more.\<close>

lemma repeated_too_often:
  assumes "li_max_sdu_retransmissions link < at_retransmissions (hd (li_tx link))" and "li_tx link \<noteq> []"
  shows "0 \<notin> set (select_sdus link busy)"
  using assms unfolding select_sdus_def may_send_def Let_def by (auto simp: hd_conv_nth dest!: in_set_takeD)

text \<open>C33: No acknowledgement, timer or failure makes a link panic: on every run, whatever blocks an acknowledgement holds,
  it is processed, a tick is processed, and the link can be given up at any time. A link that is being reset is left as
  it is; any other keeps exactly the SDUs that were never offered to the MAC, the failed one excepted, in their order
  and numbered from zero; the receipts of all others are final, lost or acknowledged; and the link waits for the
  terminal.\<close>

theorem al_send_no_panic:
  assumes "bit_buffer ops view" and "al_run ops view (link, st)"
  shows "ack_link now ack link st \<noteq> None \<and> tick_link ops now routes link st \<noteq> None
    \<and> (\<exists>link' st' msgs. begin_reset ops clear route ns link st = Some (link', st', msgs) \<and> li_reset link' \<noteq> None
        \<and> (if li_reset link \<noteq> None then link' = link
           else li_tx link' = renumbered 0 (unoffered ns st (li_tx link)) \<and> li_next_tx_ns link' = length (li_tx link') mod 8
             \<and> (\<forall>sdu \<in> set (li_tx link). sdu \<in> set (unoffered ns st (li_tx link))
                  \<or> get_state st' (at_reporter sdu) \<in> {Lost, Acknowledged})))"
proof -
  from al_run_good [OF assms] obtain ks n where l: "link_good view st link ks n" by blast
  from bit_buffer.begin_reset_step [OF assms(1) l, of clear route ns] obtain link' st' msgs ks' n' where
    r: "begin_reset ops clear route ns link st = Some (link', st', msgs)" "link_good view st' link' ks' n'"
    "li_reset link' \<noteq> None" "li_reset link = None \<longrightarrow> ks' = [0..<n'] \<and> n' = length (li_tx link')"
    by (elim exE conjE) (rule that)
  have "link' = link" if "li_reset link \<noteq> None" using r(1) that by (simp add: begin_reset_def)
  moreover have "li_next_tx_ns link' = length (li_tx link') mod 8" if "li_reset link = None" using r(2,4) that by (simp add: link_good_def)
  moreover note bit_buffer.begin_reset_keeps [OF assms(1) l r(1)]
  moreover have "ack_link now ack link st \<noteq> None" using ack_step [OF l, of now ack] by auto
  moreover have "tick_link ops now routes link st \<noteq> None" using bit_buffer.tick_step [OF assms(1) l, of now routes] by auto
  ultimately show ?thesis using r(1,3) by (intro conjI exI [of _ link'] exI [of _ st'] exI [of _ msgs]) auto
qed

lemma al_send_no_panic_witness:
  "\<exists>link st. length (li_tx link) = 1
     \<and> ack_link default_time \<lparr>aa_receiver_ready = False, aa_blocks = [\<lparr>ab_nr = 0, ab_length = 63, ab_first_missing = Some 255, ab_bitmap = [True]\<rparr>]\<rparr> link st \<noteq> None
     \<and> tick_link view_ops default_time [2 :: nat] (link :: (buf_view, unit) al_link) st \<noteq> None"
proof -
  obtain link :: "(buf_view, unit) al_link" and st where
    r: "al_run view_ops (\<lambda>v. v) (link, st)" "length (li_tx link) = 1" using example_run by blast
  show ?thesis
    using al_send_no_panic [OF view_machine.bit_buffer_axioms r(1), of default_time
        "\<lparr>aa_receiver_ready = False, aa_blocks = [\<lparr>ab_nr = 0, ab_length = 63, ab_first_missing = Some 255, ab_bitmap = [True]\<rparr>]\<rparr>" "[2 :: nat]"] r(2)
    by blast
qed

end
