(* ===== verification/Llc_Advanced.thy ===== *)
theory Llc_Advanced
  imports Llc_Window
begin

text \<open>
  The advanced links of the station together, \<^verbatim>\<open>crates/tetra-entities/src/llc/llc_bs_ms.rs\<close>: packet data that waits
  for a link, setup, reconnection and disconnection, and the tick over all links. The maps from terminals
  to links and to waiting data are association lists; where the source iterates over a \<open>HashMap\<close>, whose order is unspecified,
  the list gives one order.

  A message of the tick or of a reset is paired with its terminal. A response to a terminal is its PDU; the address, endpoint, route and protection are those of the indication.
  The protection a request falls back on, \<open>AieRequest::clear\<close>, is the argument \<open>clear\<close>.
\<close>

section \<open>State\<close>

record ('b, 'm) al_waiting =
  aw_request :: "('b, 'm) al_request"
  aw_queued_at :: tdma_time

record ('b, 'm) al_entity =
  ae_now :: tdma_time
  ae_store :: tx_store
  ae_links :: "(u32 \<times> ('b, 'm) al_link) list"
  ae_pending :: "(u32 \<times> ('b, 'm) al_waiting list) list"

definition pending_of :: "('b, 'm) al_entity \<Rightarrow> u32 \<Rightarrow> ('b, 'm) al_waiting list" where
  "pending_of e issi = (case map_of (ae_pending e) issi of None \<Rightarrow> [] | Some waiting \<Rightarrow> waiting)"

definition linked :: "('b, 'm) al_entity \<Rightarrow> u32 \<Rightarrow> nat" where
  "linked e issi = (case map_of (ae_links e) issi of None \<Rightarrow> 0 | Some link \<Rightarrow> length (li_tx link))"

section \<open>Packet data for a terminal\<close>

definition lose_reporter :: "tx_reporter option \<Rightarrow> tx_store \<Rightarrow> tx_store option" where
  "lose_reporter reporter st = (case reporter of None \<Rightarrow> Some st | Some r \<Rightarrow> mark_reporter_lost r st)"

text \<open>The second component says whether the link has taken the request.\<close>

definition rx_tla_tldata_req_al :: "'b bitbuf_ops \<Rightarrow> u32 \<Rightarrow> ('b, 'm) al_request \<Rightarrow> ('b, 'm) al_entity \<Rightarrow> (('b, 'm) al_entity \<times> bool) option" where
  "rx_tla_tldata_req_al ops issi request e =
     (case map_of (ae_links e) issi of
        None \<Rightarrow> Some (e, False)
      | Some link \<Rightarrow>
          if \<not> has_room link then Some (e, False)
          else do {
            (link, st) \<leftarrow> queue_sdu ops request link (ae_store e);
            Some (e\<lparr>ae_links := AList.update issi link (ae_links e), ae_store := st\<rparr>, True) })"

definition queue_pending_advanced_data :: "u32 \<Rightarrow> ('b, 'm) al_request \<Rightarrow> ('b, 'm) al_entity \<Rightarrow> ('b, 'm) al_entity option" where
  "queue_pending_advanced_data issi request e =
     (if MAX_PENDING_ADVANCED_TLSDUS_PER_LINK \<le> linked e issi + length (pending_of e issi) then do {
        st \<leftarrow> lose_reporter (aq_reporter request) (ae_store e);
        Some (e\<lparr>ae_pending := AList.update issi (pending_of e issi) (ae_pending e), ae_store := st\<rparr>) }
      else Some (e\<lparr>ae_pending := AList.update issi (pending_of e issi @ [\<lparr>aw_request = request, aw_queued_at = ae_now e\<rparr>]) (ae_pending e)\<rparr>))"

definition rx_tla_tldata_req_al_message :: "'b bitbuf_ops \<Rightarrow> u32 \<Rightarrow> ('b, 'm) al_request \<Rightarrow> ('b, 'm) al_entity \<Rightarrow> ('b, 'm) al_entity option" where
  "rx_tla_tldata_req_al_message ops issi request e = do {
     (e, taken) \<leftarrow> rx_tla_tldata_req_al ops issi request e;
     if taken then Some e else queue_pending_advanced_data issi request e }"

text \<open>Data waiting for a terminal moves into its link in the order of its arrival; what has waited too long is lost.
  The result is what keeps waiting.\<close>

fun drain_pending :: "'b bitbuf_ops \<Rightarrow> u32 \<Rightarrow> ('b, 'm) al_waiting list \<Rightarrow> ('b, 'm) al_entity
    \<Rightarrow> (('b, 'm) al_entity \<times> ('b, 'm) al_waiting list) option" where
  "drain_pending ops issi [] e = Some (e, [])"
| "drain_pending ops issi (entry # waiting) e =
     (if AL_SETUP_NEGOTIATION_TIMEOUT \<le> diff (ae_now e) (aw_queued_at entry) then do {
        st \<leftarrow> lose_reporter (aq_reporter (aw_request entry)) (ae_store e);
        drain_pending ops issi waiting (e\<lparr>ae_store := st\<rparr>) }
      else do {
        (e, taken) \<leftarrow> rx_tla_tldata_req_al ops issi (aw_request entry) e;
        if taken then drain_pending ops issi waiting e else Some (e, entry # waiting) })"

definition process_pending_of :: "'b bitbuf_ops \<Rightarrow> u32 \<Rightarrow> ('b, 'm) al_entity \<Rightarrow> ('b, 'm) al_entity option" where
  "process_pending_of ops issi e =
     (case map_of (ae_pending e) issi of
        None \<Rightarrow> Some e
      | Some waiting \<Rightarrow> do {
          (e, retained) \<leftarrow> drain_pending ops issi waiting (e\<lparr>ae_pending := AList.delete issi (ae_pending e)\<rparr>);
          Some (if retained = [] then e else e\<lparr>ae_pending := AList.update issi retained (ae_pending e)\<rparr>) })"

definition process_pending_advanced_data :: "'b bitbuf_ops \<Rightarrow> ('b, 'm) al_entity \<Rightarrow> ('b, 'm) al_entity option" where
  "process_pending_advanced_data ops e = for_loop (map fst (ae_pending e)) (process_pending_of ops) e"

section \<open>Setup, reconnection, disconnection\<close>

fun lose_all :: "tx_reporter list \<Rightarrow> tx_store \<Rightarrow> tx_store option" where
  "lose_all [] st = Some st"
| "lose_all (r # rs) st = do { st \<leftarrow> mark_reporter_lost r st; lose_all rs st }"

definition lose_queue :: "('b, 'm) al_link \<Rightarrow> tx_store \<Rightarrow> tx_store option" where
  "lose_queue link st = lose_all (map at_reporter (li_tx link)) st"

definition setup_response :: "al_setup \<Rightarrow> al_setup" where
  "setup_response request = \<lparr>as_acknowledged = True, as_link_number = 0, as_maximum_sdu = min 6 (as_maximum_sdu request),
     as_connection_width = (1 < setup_slots request), as_asymmetric = False,
     as_uplink_slots = (if 1 < setup_slots request then Some (setup_slots request) else None), as_downlink_slots = None,
     as_throughput = as_throughput request, as_window_size = setup_window request,
     as_sdu_retransmissions = as_sdu_retransmissions request, as_segment_retransmissions = as_segment_retransmissions request,
     as_report = (if as_report request = 1 \<and> setup_changed request then 2 else 0)\<rparr>"

text \<open>A PDU put on the queue when its writer succeeds.\<close>

definition respond :: "'b bitbuf_ops \<Rightarrow> nat \<Rightarrow> ('b, unit) parser \<Rightarrow> 'b list option" where
  "respond ops capacity writer =
     (case writer (bb_new_autoexpand ops capacity) of
        None \<Rightarrow> None
      | Some (Inl e, pdu) \<Rightarrow> Some []
      | Some (Inr _, pdu) \<Rightarrow> do { pdu \<leftarrow> bb_seek ops pdu 0; Some [pdu] })"

text \<open>The link of the terminal after its request: confirmed in place, or set up anew with the old queue lost.\<close>

definition setup_link :: "al_setup \<Rightarrow> u32 \<Rightarrow> nat \<Rightarrow> ('b, 'm) al_entity \<Rightarrow> ('b, 'm) al_entity option" where
  "setup_link request issi endpoint_id e =
     (let fresh = negotiated_link request endpoint_id (ae_now e) in
      if as_report request = 0 \<or> as_report request = 4 then
        Some (e\<lparr>ae_links := AList.update issi
          (case map_of (ae_links e) issi of Some link \<Rightarrow> confirm_setup request endpoint_id link | None \<Rightarrow> fresh) (ae_links e)\<rparr>)
      else do {
        st \<leftarrow> (case map_of (ae_links e) issi of Some old \<Rightarrow> lose_queue old (ae_store e) | None \<Rightarrow> Some (ae_store e));
        Some (e\<lparr>ae_links := AList.update issi fresh (ae_links e), ae_store := st\<rparr>) })"

definition handle_al_setup :: "'b bitbuf_ops \<Rightarrow> u32 \<Rightarrow> nat \<Rightarrow> 'b \<Rightarrow> ('b, 'm) al_entity \<Rightarrow> (('b, 'm) al_entity \<times> 'b list) option" where
  "handle_al_setup ops issi endpoint_id pdu e =
     (case al_setup_from_bitbuf ops pdu of
        None \<Rightarrow> None
      | Some (Inl err, pdu) \<Rightarrow> Some (e, [])
      | Some (Inr request, pdu) \<Rightarrow>
          if as_link_number request \<noteq> 0 \<or> as_asymmetric request \<or> 4 < as_report request then Some (e, [])
          else do {
            e \<leftarrow> setup_link request issi endpoint_id e;
            responses \<leftarrow> (if as_report request = 0 \<or> as_report request = 4 then Some []
              else respond ops 32 (al_setup_to_bitbuf ops (setup_response request)));
            e \<leftarrow> process_pending_advanced_data ops e;
            Some (e, responses) })"

definition handle_al_reconnect :: "'b bitbuf_ops \<Rightarrow> u32 \<Rightarrow> nat \<Rightarrow> 'b \<Rightarrow> ('b, 'm) al_entity \<Rightarrow> (('b, 'm) al_entity \<times> 'b list) option" where
  "handle_al_reconnect ops issi endpoint_id pdu e =
     (case al_reconnect_from_bitbuf ops pdu of
        None \<Rightarrow> None
      | Some (Inl err, pdu) \<Rightarrow> Some (e, [])
      | Some (Inr request, pdu) \<Rightarrow>
          if ar_report request \<noteq> 0 then Some (e, [])
          else do {
            let link = (if ar_link_number request = 0 then map_of (ae_links e) issi else None);
            let e = (case link of None \<Rightarrow> e
              | Some link \<Rightarrow> e\<lparr>ae_links := AList.update issi (link\<lparr>li_endpoint := endpoint_id\<rparr>) (ae_links e)\<rparr>);
            responses \<leftarrow> respond ops 16 (al_reconnect_to_bitbuf ops \<lparr>ar_acknowledged = True,
              ar_link_number = ar_link_number request, ar_report = (if link \<noteq> None then 2 else 1)\<rparr>);
            Some (e, responses) })"

definition handle_al_disconnect :: "'b bitbuf_ops \<Rightarrow> u32 \<Rightarrow> 'b \<Rightarrow> ('b, 'm) al_entity \<Rightarrow> (('b, 'm) al_entity \<times> 'b list) option" where
  "handle_al_disconnect ops issi pdu e =
     (case al_disconnect_from_bitbuf ops pdu of
        None \<Rightarrow> None
      | Some (Inl err, pdu) \<Rightarrow> Some (e, [])
      | Some (Inr request, pdu) \<Rightarrow>
          if adi_link_number request \<noteq> 0 then Some (e, [])
          else do {
            st \<leftarrow> (case map_of (ae_links e) issi of Some link \<Rightarrow> lose_queue link (ae_store e) | None \<Rightarrow> Some (ae_store e));
            st \<leftarrow> for_loop (pending_of e issi) (\<lambda>entry st. lose_reporter (aq_reporter (aw_request entry)) st) st;
            let e = e\<lparr>ae_links := AList.delete issi (ae_links e), ae_pending := AList.delete issi (ae_pending e), ae_store := st\<rparr>;
            if adi_report request \<noteq> 1 then Some (e, [])
            else do {
              pdu \<leftarrow> al_disconnect_to_bitbuf ops \<lparr>adi_acknowledged = True, adi_link_number = 0, adi_report = 0\<rparr> (bb_new_autoexpand ops 16);
              pdu \<leftarrow> bb_seek ops pdu 0;
              Some (e, [pdu]) } })"

section \<open>Acknowledgements and the tick\<close>

text \<open>Giving up a link of the map; the routes of a terminal come from the shared configuration.\<close>

definition begin_advanced_link_reset :: "'b bitbuf_ops \<Rightarrow> (u32 \<Rightarrow> 'm) \<Rightarrow> (u32 \<Rightarrow> 'r list) \<Rightarrow> u32 \<Rightarrow> nat \<Rightarrow> ('b, 'm) al_entity
    \<Rightarrow> (('b, 'm) al_entity \<times> (u32 \<times> ('b, 'm, 'r) al_message) list) option" where
  "begin_advanced_link_reset ops clear packet_routes issi failed_ns e =
     (case map_of (ae_links e) issi of
        None \<Rightarrow> Some (e, [])
      | Some link \<Rightarrow> do {
          (link, st, messages) \<leftarrow> begin_reset ops (clear issi)
            (case packet_routes issi of [] \<Rightarrow> None | r # rs \<Rightarrow> Some r) failed_ns link (ae_store e);
          Some (e\<lparr>ae_links := AList.update issi link (ae_links e), ae_store := st\<rparr>, map (Pair issi) messages) })"

definition handle_al_ack :: "'b bitbuf_ops \<Rightarrow> (u32 \<Rightarrow> 'm) \<Rightarrow> (u32 \<Rightarrow> 'r list) \<Rightarrow> u32 \<Rightarrow> 'b \<Rightarrow> ('b, 'm) al_entity
    \<Rightarrow> (('b, 'm) al_entity \<times> (u32 \<times> ('b, 'm, 'r) al_message) list) option" where
  "handle_al_ack ops clear packet_routes issi pdu e =
     (case al_ack_from_bitbuf ops pdu of
        None \<Rightarrow> None
      | Some (Inl err, pdu) \<Rightarrow> Some (e, [])
      | Some (Inr ack, pdu) \<Rightarrow> (case map_of (ae_links e) issi of
          None \<Rightarrow> Some (e, [])
        | Some link \<Rightarrow> do {
            (link, st, failed) \<leftarrow> ack_link (ae_now e) ack link (ae_store e);
            let e = e\<lparr>ae_links := AList.update issi link (ae_links e), ae_store := st\<rparr>;
            case failed of None \<Rightarrow> Some (e, [])
            | Some ns \<Rightarrow> begin_advanced_link_reset ops clear packet_routes issi ns e }))"

text \<open>The links in turn, on the slots their setup has negotiated; then what each has come to.\<close>

fun tick_links :: "'b bitbuf_ops \<Rightarrow> tdma_time \<Rightarrow> (u32 \<Rightarrow> 'r list) \<Rightarrow> (u32 \<times> ('b, 'm) al_link) list \<Rightarrow> tx_store
    \<Rightarrow> ((u32 \<times> ('b, 'm) al_link) list \<times> tx_store \<times> (u32 \<times> ('b, 'm, 'r) al_message) list \<times> (u32 \<times> tick_verdict) list) option" where
  "tick_links ops now packet_routes [] st = Some ([], st, [], [])"
| "tick_links ops now packet_routes ((issi, link) # links) st = do {
     (link, st, messages, verdict) \<leftarrow> tick_link ops now (take (li_slots link) (packet_routes issi)) link st;
     (links, st, more, verdicts) \<leftarrow> tick_links ops now packet_routes links st;
     Some ((issi, link) # links, st, map (Pair issi) messages @ more, (issi, verdict) # verdicts) }"

definition drop_link :: "u32 \<Rightarrow> ('b, 'm) al_entity \<Rightarrow> ('b, 'm) al_entity option" where
  "drop_link issi e =
     (case map_of (ae_links e) issi of
        None \<Rightarrow> Some e
      | Some link \<Rightarrow> do {
          st \<leftarrow> lose_queue link (ae_store e);
          Some (e\<lparr>ae_links := AList.delete issi (ae_links e), ae_store := st\<rparr>) })"

fun give_up_links :: "'b bitbuf_ops \<Rightarrow> (u32 \<Rightarrow> 'm) \<Rightarrow> (u32 \<Rightarrow> 'r list) \<Rightarrow> (u32 \<times> tick_verdict) list \<Rightarrow> ('b, 'm) al_entity
    \<Rightarrow> (('b, 'm) al_entity \<times> (u32 \<times> ('b, 'm, 'r) al_message) list) option" where
  "give_up_links ops clear packet_routes [] e = Some (e, [])"
| "give_up_links ops clear packet_routes ((issi, verdict) # verdicts) e = (case verdict of
     GaveUp ns \<Rightarrow> do {
       (e, messages) \<leftarrow> begin_advanced_link_reset ops clear packet_routes issi ns e;
       (e, more) \<leftarrow> give_up_links ops clear packet_routes verdicts e;
       Some (e, messages @ more) }
   | _ \<Rightarrow> give_up_links ops clear packet_routes verdicts e)"

definition submit_advanced_link_messages :: "'b bitbuf_ops \<Rightarrow> (u32 \<Rightarrow> 'm) \<Rightarrow> (u32 \<Rightarrow> 'r list) \<Rightarrow> ('b, 'm) al_entity
    \<Rightarrow> (('b, 'm) al_entity \<times> (u32 \<times> ('b, 'm, 'r) al_message) list) option" where
  "submit_advanced_link_messages ops clear packet_routes e = do {
     (links, st, messages, verdicts) \<leftarrow> tick_links ops (ae_now e) packet_routes (ae_links e) (ae_store e);
     (e, resets) \<leftarrow> give_up_links ops clear packet_routes verdicts (e\<lparr>ae_links := links, ae_store := st\<rparr>);
     e \<leftarrow> for_loop (map fst (filter (\<lambda>(issi, verdict). verdict = SetupFailed) verdicts)) drop_link e;
     e \<leftarrow> for_loop (map fst (filter (\<lambda>(issi, verdict). verdict = NegotiationFailed) verdicts)) drop_link e;
     Some (e, messages @ resets) }"

section \<open>The dispatch of an indication\<close>

datatype ('b, 'm, 'r) al_effect = Response 'b | Message "u32 \<times> ('b, 'm, 'r) al_message" | Received "'b al_out"

definition rx_tma_unitdata_ind_al :: "'b bitbuf_ops \<Rightarrow> (u32 \<Rightarrow> 'm) \<Rightarrow> (u32 \<Rightarrow> 'r list) \<Rightarrow> u32 \<Rightarrow> nat \<Rightarrow> 'b \<Rightarrow> llc_pdu_type
    \<Rightarrow> ('b, 'm) al_entity \<Rightarrow> (('b, 'm) al_entity \<times> ('b, 'm, 'r) al_effect list) option" where
  "rx_tma_unitdata_ind_al ops clear packet_routes issi endpoint_id pdu pdu_type e = (case pdu_type of
     AlSetup \<Rightarrow> do { (e, rs) \<leftarrow> handle_al_setup ops issi endpoint_id pdu e; Some (e, map Response rs) }
   | AlDataAlFinal \<Rightarrow> do {
       (links, outs) \<leftarrow> handle_al_data ops issi pdu (ae_links e);
       Some (e\<lparr>ae_links := links\<rparr>, map Received outs) }
   | AlAckAlRnr \<Rightarrow> do { (e, ms) \<leftarrow> handle_al_ack ops clear packet_routes issi pdu e; Some (e, map Message ms) }
   | AlReconnect \<Rightarrow> do { (e, rs) \<leftarrow> handle_al_reconnect ops issi endpoint_id pdu e; Some (e, map Response rs) }
   | AlDisc \<Rightarrow> do { (e, rs) \<leftarrow> handle_al_disconnect ops issi pdu e; Some (e, map Response rs) }
   | AlAlUdataAlUfinal \<Rightarrow> Some (e, [])
   | _ \<Rightarrow> None)"

section \<open>Queues only shrink under acknowledgements, timers and resets\<close>

definition shrinks :: "('b, 'm) al_link \<Rightarrow> ('b, 'm) al_link \<Rightarrow> bool" where
  "shrinks link link' \<longleftrightarrow> length (li_tx link') \<le> length (li_tx link) \<and> li_link_number link' = li_link_number link"

lemma retire_shrinks: "retire_passed w base tx st = Some (tx', st') \<Longrightarrow> length tx' \<le> length tx"
  by (induction tx arbitrary: st) (auto simp: Let_def bind_eq_Some_conv le_SucI split: if_split_asm)

lemma block_shrinks:
  assumes "apply_block link block tx st = Some (tx', st', failed)"
  shows "length tx' \<le> length tx"
proof (cases "find_position (\<lambda>sdu. at_ns sdu = ab_nr block) tx")
  case None
  then show ?thesis using assms by (simp add: apply_block_def)
next
  case (Some p)
  then show ?thesis using assms
    by (auto simp: apply_block_def Let_def bind_eq_Some_conv split: if_split_asm)
qed

lemma blocks_shrinks: "apply_blocks link blocks tx st = Some (tx', st', failed) \<Longrightarrow> length tx' \<le> length tx"
proof (induction blocks arbitrary: tx st)
  case (Cons block blocks)
  then obtain a b c where b: "apply_block link block tx st = Some (a, b, c)" and
    r: "(if c \<noteq> None then Some (a, b, c) else apply_blocks link blocks a b) = Some (tx', st', failed)"
    by (auto simp: bind_eq_Some_conv)
  have "length tx' \<le> length a" using r Cons.IH by (auto split: if_split_asm)
  with block_shrinks [OF b] show ?case by simp
qed simp

lemma ack_shrinks:
  assumes "ack_link now ack link st = Some (link', st', failed)"
  shows "shrinks link link'"
proof (cases "li_reset link \<noteq> None")
  case True
  then show ?thesis using assms by (simp add: ack_link_def shrinks_def)
next
  case False
  let ?link = "link\<lparr>li_receiver_ready := aa_receiver_ready ack, li_not_ready_since := (if aa_receiver_ready ack then None else Some now)\<rparr>"
  let ?retire = "if length (aa_blocks ack) = li_window_size ?link \<and> consecutive (map ab_nr (aa_blocks ack))
          then do { block \<leftarrow> aget (aa_blocks ack) 0; retire_passed (li_window_size ?link) (ab_nr block) (li_tx ?link) st }
          else Some (li_tx ?link, st)"
  from assms False obtain tx a tx' where t: "?retire = Some (tx, a)" "apply_blocks ?link (aa_blocks ack) tx a = Some (tx', st', failed)"
    "link' = ?link\<lparr>li_tx := tx'\<rparr>"
    unfolding ack_link_def Let_def by (auto simp: bind_eq_Some_conv simp del: apply_blocks.simps split: if_split_asm)
  have "length tx \<le> length (li_tx link)" using t(1) by (auto simp: bind_eq_Some_conv split: if_split_asm dest: retire_shrinks)
  with blocks_shrinks [OF t(2)] t(3) show ?thesis by (simp add: shrinks_def)
qed

lemma retain_shrinks: "retain_unoffered f p tx st retained = Some (tx', st') \<Longrightarrow> length tx' \<le> length retained + length tx"
  by (induction tx arbitrary: p st retained) (force simp: bind_eq_Some_conv split: if_split_asm)+

lemma begin_reset_shrinks:
  assumes "begin_reset ops clear route ns link st = Some (link', st', msgs)"
  shows "shrinks link link'"
proof (cases "li_reset link \<noteq> None")
  case True
  then show ?thesis using assms by (simp add: begin_reset_def shrinks_def)
next
  case False
  let ?f = "find_position (\<lambda>sdu. at_ns sdu = ns) (li_tx link)"
  obtain tx a where r: "retain_unoffered ?f 0 (li_tx link) st [] = Some (tx, a)"
    using assms False by (cases "retain_unoffered ?f 0 (li_tx link) st []") (auto simp: begin_reset_def Let_def)
  obtain attempt b where "new_reporter a = (attempt, b)" by fastforce
  with r assms False have l: "li_tx link' = tx" "li_link_number link' = li_link_number link"
    by (auto simp: begin_reset_def Let_def bind_eq_Some_conv)
  from retain_shrinks [OF r] l show ?thesis by (simp add: shrinks_def)
qed

lemma watch_all_length: "watch_all m now tx st = Some (tx', st', failed) \<Longrightarrow> length tx' = length tx"
  by (induction tx arbitrary: st tx' failed) (force simp: bind_eq_Some_conv split: option.split_asm prod.split_asm)+

lemma send_sdus_length: "send_sdus ops routes ps tx st = Some (tx', st', msgs) \<Longrightarrow> length tx' = length tx"
  by (induction ps arbitrary: tx st msgs) (force simp: Let_def bind_eq_Some_conv split: prod.split_asm)+

lemma tick_send_shrinks:
  "tick_send ops routes busy link st = Some (link', st', msgs, v) \<Longrightarrow> shrinks link link'"
  by (auto simp: tick_send_def shrinks_def bind_eq_Some_conv split: if_split_asm dest: send_sdus_length)

lemma tick_shrinks:
  assumes "tick_link ops now routes link st = Some (link', st', msgs, v)"
  shows "shrinks link link'"
proof (cases "li_reset link")
  case (Some re)
  with assms have "tick_reset ops now routes re link st = Some (link', st', msgs, v)" by (simp add: tick_link_def)
  then show ?thesis
    by (auto simp: tick_reset_def shrinks_def Let_def bind_eq_Some_conv split: prod.split_asm if_split_asm)
next
  case None
  show ?thesis
  proof (cases "li_ready link")
    case False
    with None assms show ?thesis by (simp add: tick_link_def shrinks_def)
  next
    case True
    from assms None True obtain tx a failed where w: "watch_all (li_max_sdu_retransmissions link) now (li_tx link) st = Some (tx, a, failed)"
      by (auto simp: tick_link_def bind_eq_Some_conv)
    let ?link = "link\<lparr>li_tx := tx\<rparr>" and ?again = "link\<lparr>li_tx := tx, li_receiver_ready := True, li_not_ready_since := None\<rparr>"
    have len: "shrinks link l \<longleftrightarrow> shrinks ?link l" "shrinks link l \<longleftrightarrow> shrinks ?again l" for l
      using watch_all_length [OF w] by (simp_all add: shrinks_def)
    have "link' = ?link \<or> (\<exists>busy. tick_send ops routes busy ?link a = Some (link', st', msgs, v))
        \<or> tick_send ops routes False ?again a = Some (link', st', msgs, v)"
      using assms None True w by (auto simp: tick_link_def Let_def split: option.split_asm if_split_asm)
    then show ?thesis
    proof (elim disjE exE)
      assume "link' = ?link"
      then show ?thesis using len(1) [of ?link] by (simp add: shrinks_def)
    next
      fix busy assume "tick_send ops routes busy ?link a = Some (link', st', msgs, v)"
      from tick_send_shrinks [OF this] len(1) [of link'] show ?thesis by simp
    next
      assume "tick_send ops routes False ?again a = Some (link', st', msgs, v)"
      from tick_send_shrinks [OF this] len(2) [of link'] show ?thesis by simp
    qed
  qed
qed

section \<open>Waiting data\<close>

definition links_ok :: "('b, 'm) al_entity \<Rightarrow> bool" where
  "links_ok e \<longleftrightarrow> (\<forall>issi link. map_of (ae_links e) issi = Some link \<longrightarrow> li_link_number link = 0)
     \<and> (\<forall>issi. linked e issi + length (pending_of e issi) \<le> 64)"

text \<open>For which terminals nothing waits beside a link.\<close>

definition exclusive :: "('b, 'm) al_entity \<Rightarrow> u32 \<Rightarrow> bool" where
  "exclusive e issi \<longleftrightarrow> map_of (ae_links e) issi \<noteq> None \<longrightarrow> pending_of e issi = []"

definition entity_ok :: "('b, 'm) al_entity \<Rightarrow> bool" where
  "entity_ok e \<longleftrightarrow> links_ok e \<and> (\<forall>issi. exclusive e issi)"

lemma linked_update [simp]:
  "linked (e\<lparr>ae_links := AList.update issi link links\<rparr>) j = (if j = issi then length (li_tx link) else linked (e\<lparr>ae_links := links\<rparr>) j)"
  by (simp add: linked_def update_conv)

lemma pending_update [simp]:
  "pending_of (e\<lparr>ae_pending := AList.update issi ws pending\<rparr>) j = (if j = issi then ws else pending_of (e\<lparr>ae_pending := pending\<rparr>) j)"
  by (simp add: pending_of_def update_conv)

lemma entity_fields [simp]:
  "pending_of (e\<lparr>ae_links := links\<rparr>) = pending_of e" "linked (e\<lparr>ae_pending := p\<rparr>) = linked e"
  "pending_of (e\<lparr>ae_store := st\<rparr>) = pending_of e" "linked (e\<lparr>ae_store := st\<rparr>) = linked e"
  by (simp_all add: pending_of_def linked_def fun_eq_iff)

lemma entity_same [simp]: "e\<lparr>ae_links := ae_links e\<rparr> = e" "e\<lparr>ae_pending := ae_pending e\<rparr> = e"
  by simp_all

text \<open>A link may always be replaced by one that has shrunk.\<close>

lemma entity_shrink:
  assumes "entity_ok e" and "map_of (ae_links e) issi = Some link" and "shrinks link link'"
  shows "entity_ok (e\<lparr>ae_links := AList.update issi link' (ae_links e), ae_store := st\<rparr>)"
proof -
  let ?e = "e\<lparr>ae_links := AList.update issi link' (ae_links e), ae_store := st\<rparr>"
  have l: "linked ?e j \<le> linked e j" and p: "pending_of ?e j = pending_of e j" for j
    using assms(2,3) by (simp_all add: linked_def pending_of_def update_conv shrinks_def)
  have "linked ?e j + length (pending_of ?e j) \<le> 64" for j
  proof -
    have "linked e j + length (pending_of e j) \<le> 64" using assms(1) by (simp add: entity_ok_def links_ok_def)
    with l [of j] show ?thesis unfolding p by linarith
  qed
  moreover have "li_link_number l = 0" if "map_of (ae_links ?e) j = Some l" for j l
    using that assms by (auto simp: update_conv entity_ok_def links_ok_def shrinks_def split: if_split_asm)
  moreover have "exclusive ?e j" for j
  proof -
    have "map_of (ae_links ?e) j \<noteq> None \<longleftrightarrow> map_of (ae_links e) j \<noteq> None" using assms(2) by (simp add: update_conv)
    with assms(1) p show ?thesis unfolding entity_ok_def exclusive_def by metis
  qed
  ultimately show ?thesis by (simp add: entity_ok_def links_ok_def)
qed

lemma queue_sdu_grows:
  "queue_sdu ops request link st = Some (link', st') \<Longrightarrow>
    length (li_tx link') = Suc (length (li_tx link)) \<and> li_link_number link' = li_link_number link"
  by (auto simp: queue_sdu_def Let_def bind_eq_Some_conv split: prod.split_asm)

text \<open>A link has taken a request, and nothing else of the entity has changed.\<close>

definition took :: "u32 \<Rightarrow> ('b, 'm) al_entity \<Rightarrow> ('b, 'm) al_entity \<Rightarrow> bool" where
  "took issi e e' \<longleftrightarrow> (\<exists>link link' st. map_of (ae_links e) issi = Some link \<and> has_room link
      \<and> e' = e\<lparr>ae_links := AList.update issi link' (ae_links e), ae_store := st\<rparr>
      \<and> length (li_tx link') = Suc (length (li_tx link)) \<and> li_link_number link' = li_link_number link)"

lemma rx_taken:
  assumes "rx_tla_tldata_req_al ops issi request e = Some (e', taken)"
  shows "(taken \<longleftrightarrow> (\<exists>link. map_of (ae_links e) issi = Some link \<and> has_room link)) \<and> (\<not> taken \<longrightarrow> e' = e) \<and> (taken \<longrightarrow> took issi e e')"
proof (cases "\<exists>link. map_of (ae_links e) issi = Some link \<and> has_room link")
  case False
  then show ?thesis using assms by (cases "map_of (ae_links e) issi") (auto simp: rx_tla_tldata_req_al_def)
next
  case True
  then obtain link where l: "map_of (ae_links e) issi = Some link" "has_room link" by blast
  with assms obtain link' st where q: "queue_sdu ops request link (ae_store e) = Some (link', st)"
    by (cases "queue_sdu ops request link (ae_store e)") (auto simp: rx_tla_tldata_req_al_def)
  with assms l have r: "e' = e\<lparr>ae_links := AList.update issi link' (ae_links e), ae_store := st\<rparr>" "taken"
    by (simp_all add: rx_tla_tldata_req_al_def)
  with l queue_sdu_grows [OF q] have "took issi e e'"
    unfolding took_def by (intro exI [of _ link] exI [of _ link'] exI [of _ st]) simp
  with True r(2) show ?thesis by simp
qed

lemma room_iff:
  assumes "links_ok e" and "map_of (ae_links e) issi = Some link"
  shows "has_room link \<longleftrightarrow> linked e issi < 64"
proof -
  have "li_link_number link = 0" using assms unfolding links_ok_def by blast
  moreover have "linked e issi = length (li_tx link)" using assms(2) by (simp add: linked_def)
  ultimately show ?thesis by (simp add: has_room_def MAX_PENDING_ADVANCED_TLSDUS_PER_LINK_def not_le)
qed

text \<open>A link that takes a request: nothing else of the entity changes.\<close>

lemma taken_step:
  assumes "rx_tla_tldata_req_al ops issi request e = Some (e', True)" and "links_ok e"
    and "linked e issi + length (pending_of e issi) < 64"
  shows "links_ok e' \<and> ae_pending e' = ae_pending e \<and> linked e' issi = Suc (linked e issi)
    \<and> (\<forall>j. map_of (ae_links e') j = None \<longleftrightarrow> map_of (ae_links e) j = None)"
proof -
  have "took issi e e'" using rx_taken [OF assms(1)] by simp
  then obtain link link' st where l: "map_of (ae_links e) issi = Some link"
    "e' = e\<lparr>ae_links := AList.update issi link' (ae_links e), ae_store := st\<rparr>"
    "length (li_tx link') = Suc (length (li_tx link))" "li_link_number link' = li_link_number link"
    unfolding took_def by (elim exE conjE) (rule that)
  have old: "linked e issi = length (li_tx link)" using l(1) by (simp add: linked_def)
  have new: "linked e' j = (if j = issi then Suc (linked e issi) else linked e j)" "pending_of e' j = pending_of e j" for j
    using l old by (simp_all add: linked_def pending_of_def update_conv)
  have "linked e' j + length (pending_of e' j) \<le> 64" for j
  proof -
    have "linked e j + length (pending_of e j) \<le> 64" using assms(2) by (simp add: links_ok_def)
    then show ?thesis unfolding new using assms(3) by (cases "j = issi") simp_all
  qed
  moreover have "li_link_number k = 0" if "map_of (ae_links e') j = Some k" for j k
    using that assms(2) l by (auto simp: update_conv links_ok_def split: if_split_asm)
  ultimately have "links_ok e'" by (simp add: links_ok_def)
  moreover have "linked e' issi = Suc (linked e issi)" using new(1) by simp
  ultimately show ?thesis using l(1,2) by (simp add: update_conv)
qed

lemma drain_step:
  assumes "drain_pending ops issi waiting e = Some (e', retained)" and "links_ok e" and "pending_of e issi = []"
    and "linked e issi + length waiting \<le> 64"
  shows "links_ok e' \<and> ae_pending e' = ae_pending e \<and> linked e' issi + length retained \<le> 64
    \<and> (\<forall>j. map_of (ae_links e') j = None \<longleftrightarrow> map_of (ae_links e) j = None)
    \<and> (map_of (ae_links e) issi \<noteq> None \<longrightarrow> retained = [])"
  using assms
proof (induction waiting arbitrary: e)
  case (Cons entry waiting)
  show ?case
  proof (cases "AL_SETUP_NEGOTIATION_TIMEOUT \<le> diff (ae_now e) (aw_queued_at entry)")
    case True
    with Cons.prems(1) obtain st where d: "drain_pending ops issi waiting (e\<lparr>ae_store := st\<rparr>) = Some (e', retained)"
      by (auto simp: bind_eq_Some_conv)
    have "links_ok (e\<lparr>ae_store := st\<rparr>)" using Cons.prems(2) by (simp add: links_ok_def)
    from Cons.IH [OF d this] Cons.prems(3,4) show ?thesis by simp
  next
    case False
    with Cons.prems(1) obtain a taken where r: "rx_tla_tldata_req_al ops issi (aw_request entry) e = Some (a, taken)"
      and d: "(if taken then drain_pending ops issi waiting a else Some (a, entry # waiting)) = Some (e', retained)"
      by (auto simp: bind_eq_Some_conv)
    show ?thesis
    proof (cases taken)
      case True
      with r have "rx_tla_tldata_req_al ops issi (aw_request entry) e = Some (a, True)" by simp
      from taken_step [OF this Cons.prems(2)] Cons.prems(3,4) have
        t: "links_ok a" "ae_pending a = ae_pending e" "linked a issi = Suc (linked e issi)"
          "\<forall>j. map_of (ae_links a) j = None \<longleftrightarrow> map_of (ae_links e) j = None" by simp_all
      have p: "pending_of a issi = []" using t(2) Cons.prems(3) by (simp add: pending_of_def)
      have "drain_pending ops issi waiting a = Some (e', retained)" using d True by simp
      from Cons.IH [OF this t(1) p] t Cons.prems(4) show ?thesis by simp
    next
      case False
      have "Some (a, entry # waiting) = Some (e', retained)" using d unfolding if_not_P [OF False] .
      moreover have "a = e" using rx_taken [OF r] False by blast
      ultimately have "e' = e" "retained = entry # waiting" by simp_all
      moreover have "map_of (ae_links e) issi = None"
      proof (rule ccontr)
        assume "map_of (ae_links e) issi \<noteq> None"
        then obtain link where "map_of (ae_links e) issi = Some link" by blast
        moreover from room_iff [OF Cons.prems(2) this] Cons.prems(4) have "has_room link" by simp
        ultimately show False using rx_taken [OF r] False by blast
      qed
      ultimately show ?thesis using Cons.prems by simp
    qed
  qed
qed auto

lemma process_of_step:
  assumes p: "process_pending_of ops issi e = Some e'" and ok: "links_ok e"
  shows "links_ok e' \<and> exclusive e' issi \<and> (\<forall>j. exclusive e j \<longrightarrow> exclusive e' j)"
proof (cases "map_of (ae_pending e) issi")
  case None
  with p ok show ?thesis by (simp add: process_pending_of_def exclusive_def pending_of_def)
next
  case (Some waiting)
  let ?e = "e\<lparr>ae_pending := AList.delete issi (ae_pending e)\<rparr>"
  have del: "pending_of ?e j = (if j = issi then [] else pending_of e j)" for j by (simp add: pending_of_def delete_conv)
  from p Some obtain a retained where d: "drain_pending ops issi waiting ?e = Some (a, retained)"
    and e': "e' = (if retained = [] then a else a\<lparr>ae_pending := AList.update issi retained (ae_pending a)\<rparr>)"
    by (auto simp: process_pending_of_def bind_eq_Some_conv)
  have w: "pending_of e issi = waiting" using Some by (simp add: pending_of_def)
  have bound: "linked e j + length (pending_of e j) \<le> 64" for j using ok by (simp add: links_ok_def)
  have "linked ?e j + length (pending_of ?e j) \<le> 64" for j
    using bound [of j] unfolding del by (cases "j = issi") simp_all
  then have "links_ok ?e" using ok by (simp add: links_ok_def)
  from drain_step [OF d this] bound [of issi] w del have
    s: "links_ok a" "ae_pending a = AList.delete issi (ae_pending e)" "linked a issi + length retained \<le> 64"
      "\<forall>j. map_of (ae_links a) j = None \<longleftrightarrow> map_of (ae_links e) j = None" "map_of (ae_links e) issi \<noteq> None \<longrightarrow> retained = []" by simp_all
  have pa: "pending_of a j = (if j = issi then [] else pending_of e j)" for j using s(2) by (simp add: pending_of_def delete_conv)
  have pe: "pending_of e' j = (if j = issi then retained else pending_of e j)" for j
  proof (cases "retained = []")
    case True
    then have "e' = a" by (simp add: e')
    with pa True show ?thesis by simp
  next
    case False
    then have "e' = a\<lparr>ae_pending := AList.update issi retained (ae_pending a)\<rparr>" by (simp add: e')
    then show ?thesis using pa by simp
  qed
  have le: "ae_links e' = ae_links a" unfolding e' by simp
  then have link: "linked e' = linked a" by (simp add: linked_def fun_eq_iff)
  have "linked e' j + length (pending_of e' j) \<le> 64" for j
  proof -
    have "linked a j + length (pending_of a j) \<le> 64" using s(1) by (simp add: links_ok_def)
    then show ?thesis using s(3) unfolding link pe pa by (cases "j = issi") simp_all
  qed
  then have "links_ok e'" using s(1) le by (simp add: links_ok_def)
  then show ?thesis using s(4,5) le by (simp add: exclusive_def pe)
qed

lemma process_loop:
  assumes "for_loop keys (process_pending_of ops) a = Some b" and "links_ok a"
  shows "links_ok b \<and> (\<forall>j. exclusive a j \<or> j \<in> set keys \<longrightarrow> exclusive b j)"
  using assms
proof (induction keys arbitrary: a)
  case (Cons k keys)
  then obtain c where c: "process_pending_of ops k a = Some c" "for_loop keys (process_pending_of ops) c = Some b"
    by (auto split: option.split_asm)
  from process_of_step [OF c(1) Cons.prems(2)] have s: "links_ok c" "exclusive c k" "\<forall>j. exclusive a j \<longrightarrow> exclusive c j" by auto
  from Cons.IH [OF c(2) s(1)] s(2,3) show ?case by auto
qed simp

lemma process_step:
  assumes "process_pending_advanced_data ops e = Some e'" and "links_ok e"
  shows "entity_ok e'"
proof -
  have "exclusive e j \<or> j \<in> set (map fst (ae_pending e))" for j
    by (cases "map_of (ae_pending e) j") (auto simp: exclusive_def pending_of_def dest!: map_of_SomeD intro: rev_image_eqI)
  with process_loop [OF assms(1) [unfolded process_pending_advanced_data_def] assms(2)] show ?thesis by (auto simp: entity_ok_def)
qed

section \<open>Every operation keeps data in one place\<close>

lemma entity_no_link: "entity_ok e \<Longrightarrow> map_of (ae_links e) issi = Some link \<Longrightarrow> pending_of e issi = []"
  by (simp add: entity_ok_def exclusive_def)

lemma entity_bound: "entity_ok e \<Longrightarrow> linked e issi + length (pending_of e issi) \<le> 64"
  by (simp add: entity_ok_def links_ok_def)

lemma entity_store: "entity_ok (e\<lparr>ae_store := st\<rparr>) = entity_ok e" "entity_ok (e\<lparr>ae_now := t\<rparr>) = entity_ok e"
  "links_ok (e\<lparr>ae_store := st\<rparr>) = links_ok e"
  by (simp_all add: entity_ok_def links_ok_def exclusive_def linked_def pending_of_def)

text \<open>Links are the same, and every terminal has no more waiting than before: entries may be dropped.\<close>

lemma entity_less:
  assumes "entity_ok e" and "\<And>j. map_of (ae_links e') j = map_of (ae_links e) j \<or> map_of (ae_links e') j = None"
    and "\<And>j. length (pending_of e' j) \<le> length (pending_of e j)"
  shows "entity_ok e'"
proof -
  have "linked e' j \<le> linked e j" for j using assms(2) [of j] by (auto simp: linked_def)
  then have "linked e' j + length (pending_of e' j) \<le> 64" for j
    using entity_bound [OF assms(1), of j] assms(3) [of j] by (meson add_mono le_trans)
  moreover have "li_link_number l = 0" if "map_of (ae_links e') j = Some l" for j l
  proof -
    have "map_of (ae_links e) j = Some l" using that assms(2) [of j] by simp
    with assms(1) show ?thesis unfolding entity_ok_def links_ok_def by blast
  qed
  moreover have "exclusive e' j" for j
  proof (cases "map_of (ae_links e') j")
    case (Some l)
    then have "map_of (ae_links e) j = Some l" using assms(2) [of j] by simp
    from entity_no_link [OF assms(1) this] assms(3) [of j] show ?thesis by (simp add: exclusive_def)
  qed (simp add: exclusive_def)
  ultimately show ?thesis by (simp add: entity_ok_def links_ok_def)
qed

lemma message_step:
  assumes ok: "entity_ok e" and m: "rx_tla_tldata_req_al_message ops issi request e = Some e'"
  shows "entity_ok e'"
proof -
  from m obtain a taken where r: "rx_tla_tldata_req_al ops issi request e = Some (a, taken)"
    and q: "(if taken then Some a else queue_pending_advanced_data issi request a) = Some e'"
    by (auto simp: rx_tla_tldata_req_al_message_def bind_eq_Some_conv)
  have links: "links_ok e" using ok by (simp add: entity_ok_def)
  show ?thesis
  proof (cases taken)
    case True
    with rx_taken [OF r] obtain link where l: "map_of (ae_links e) issi = Some link" "has_room link" by blast
    have p: "pending_of e issi = []" by (rule entity_no_link [OF ok l(1)])
    have "linked e issi < 64" using room_iff [OF links l(1)] l(2) by simp
    with p r True have t: "links_ok a \<and> ae_pending a = ae_pending e \<and> linked a issi = Suc (linked e issi)
      \<and> (\<forall>j. map_of (ae_links a) j = None \<longleftrightarrow> map_of (ae_links e) j = None)"
      using taken_step [of ops issi request e a] links by simp
    have "e' = a" using q True by simp
    moreover have "exclusive a j" for j
    proof -
      have "exclusive e j" using ok by (simp add: entity_ok_def)
      with t show ?thesis by (simp add: exclusive_def pending_of_def)
    qed
    ultimately show ?thesis using t by (simp add: entity_ok_def)
  next
    case False
    then have a: "a = e" using rx_taken [OF r] by blast
    with q False have q: "queue_pending_advanced_data issi request e = Some e'" by simp
    show ?thesis
    proof (cases "64 \<le> linked e issi + length (pending_of e issi)")
      case True
      with q obtain st where e': "e' = e\<lparr>ae_pending := AList.update issi (pending_of e issi) (ae_pending e), ae_store := st\<rparr>"
        by (auto simp: queue_pending_advanced_data_def MAX_PENDING_ADVANCED_TLSDUS_PER_LINK_def bind_eq_Some_conv)
      show ?thesis by (rule entity_less [OF ok]) (simp_all add: e')
    next
      case less: False
      have none: "map_of (ae_links e) issi = None"
      proof (rule ccontr)
        assume "map_of (ae_links e) issi \<noteq> None"
        then obtain link where l: "map_of (ae_links e) issi = Some link" by blast
        from room_iff [OF links l] less have "has_room link" by simp
        with l False rx_taken [OF r] show False by blast
      qed
      from q less have e': "e' = e\<lparr>ae_pending := AList.update issi
          (pending_of e issi @ [\<lparr>aw_request = request, aw_queued_at = ae_now e\<rparr>]) (ae_pending e)\<rparr>"
        by (simp add: queue_pending_advanced_data_def MAX_PENDING_ADVANCED_TLSDUS_PER_LINK_def)
      have p: "pending_of e' j = (if j = issi then pending_of e issi @ [\<lparr>aw_request = request, aw_queued_at = ae_now e\<rparr>] else pending_of e j)" for j
        by (simp add: e')
      have same: "ae_links e' = ae_links e" by (simp add: e')
      then have link: "linked e' = linked e" by (simp add: linked_def fun_eq_iff)
      have "linked e' j + length (pending_of e' j) \<le> 64" for j
        using entity_bound [OF ok, of j] less unfolding link p by (cases "j = issi") simp_all
      moreover have "exclusive e' j" for j
      proof -
        have "exclusive e j" using ok by (simp add: entity_ok_def)
        then show ?thesis using none same unfolding exclusive_def p by (cases "j = issi") simp_all
      qed
      ultimately show ?thesis using links same unfolding entity_ok_def links_ok_def by auto
    qed
  qed
qed

lemma setup_link_step:
  assumes ok: "entity_ok e" and l: "setup_link request issi endpoint e = Some e'"
  shows "links_ok e'"
proof -
  from l obtain link where e': "ae_links e' = AList.update issi link (ae_links e)" "ae_pending e' = ae_pending e"
    and link: "link = negotiated_link request endpoint (ae_now e)
      \<or> (\<exists>old. map_of (ae_links e) issi = Some old \<and> link = confirm_setup request endpoint old)"
  proof (cases "as_report request = 0 \<or> as_report request = 4")
    case True
    with l have "ae_links e' = AList.update issi (case map_of (ae_links e) issi of Some link \<Rightarrow> confirm_setup request endpoint link
        | None \<Rightarrow> negotiated_link request endpoint (ae_now e)) (ae_links e)" "ae_pending e' = ae_pending e"
      by (auto simp: setup_link_def Let_def)
    then show ?thesis by (cases "map_of (ae_links e) issi") (auto intro: that)
  next
    case False
    with l have "ae_links e' = AList.update issi (negotiated_link request endpoint (ae_now e)) (ae_links e)" "ae_pending e' = ae_pending e"
      by (auto simp: setup_link_def Let_def bind_eq_Some_conv)
    then show ?thesis by (rule that) simp
  qed
  have number: "li_link_number link = 0 \<and> length (li_tx link) \<le> linked e issi"
    using link
  proof
    assume "\<exists>old. map_of (ae_links e) issi = Some old \<and> link = confirm_setup request endpoint old"
    then obtain old where o: "map_of (ae_links e) issi = Some old" "link = confirm_setup request endpoint old" by blast
    then have "li_link_number old = 0" using ok unfolding entity_ok_def links_ok_def by blast
    with o show ?thesis by (simp add: confirm_setup_def linked_def)
  qed (simp add: negotiated_link_def)
  have "linked e' j + length (pending_of e' j) \<le> 64" for j
  proof -
    have "linked e' j \<le> linked e j" "pending_of e' j = pending_of e j" using number by (simp_all add: e' linked_def update_conv pending_of_def)
    with entity_bound [OF ok, of j] show ?thesis by simp
  qed
  moreover have "li_link_number k = 0" if "map_of (ae_links e') j = Some k" for j k
  proof (cases "j = issi")
    case True
    then show ?thesis using that number by (simp add: e' update_conv)
  next
    case False
    then have "map_of (ae_links e) j = Some k" using that by (simp add: e' update_conv)
    with ok show ?thesis unfolding entity_ok_def links_ok_def by blast
  qed
  ultimately show ?thesis by (simp add: links_ok_def)
qed

lemma begin_step:
  assumes ok: "entity_ok e" and b: "begin_advanced_link_reset ops clear packet_routes issi ns e = Some (e', msgs)"
  shows "entity_ok e'"
proof (cases "map_of (ae_links e) issi")
  case None
  with ok b show ?thesis by (simp add: begin_advanced_link_reset_def)
next
  case (Some link)
  with b obtain link' st ms where "begin_reset ops (clear issi) (case packet_routes issi of [] \<Rightarrow> None | r # rs \<Rightarrow> Some r) ns link (ae_store e) = Some (link', st, ms)"
    and e': "e' = e\<lparr>ae_links := AList.update issi link' (ae_links e), ae_store := st\<rparr>"
    by (auto simp: begin_advanced_link_reset_def bind_eq_Some_conv)
  from entity_shrink [OF ok Some begin_reset_shrinks [OF this(1)]] e' show ?thesis by simp
qed

lemma handle_ack_step:
  assumes ok: "entity_ok e" and h: "handle_al_ack ops clear packet_routes issi pdu e = Some (e', msgs)"
  shows "entity_ok e'"
proof (cases "\<exists>ack p link. al_ack_from_bitbuf ops pdu = Some (Inr ack, p) \<and> map_of (ae_links e) issi = Some link")
  case False
  with h have "e' = e" by (auto simp: handle_al_ack_def split: option.split_asm prod.split_asm sum.split_asm)
  with ok show ?thesis by simp
next
  case True
  then obtain ack p link where a: "al_ack_from_bitbuf ops pdu = Some (Inr ack, p)" "map_of (ae_links e) issi = Some link" by blast
  with h obtain link' st failed where
    k: "ack_link (ae_now e) ack link (ae_store e) = Some (link', st, failed)"
    by (cases "ack_link (ae_now e) ack link (ae_store e)") (auto simp: handle_al_ack_def)
  let ?e = "e\<lparr>ae_links := AList.update issi link' (ae_links e), ae_store := st\<rparr>"
  have mid: "entity_ok ?e" by (rule entity_shrink [OF ok a(2) ack_shrinks [OF k]])
  from h a k have "(case failed of None \<Rightarrow> Some (?e, []) | Some ns \<Rightarrow> begin_advanced_link_reset ops clear packet_routes issi ns ?e) = Some (e', msgs)"
    by (simp add: handle_al_ack_def Let_def)
  then show ?thesis using mid begin_step [OF mid] by (cases failed) auto
qed

lemma handle_data_step:
  assumes ok: "entity_ok e" and h: "handle_al_data ops issi pdu (ae_links e) = Some (links, outs)"
  shows "entity_ok (e\<lparr>ae_links := links\<rparr>)"
proof (cases "\<exists>header p link. al_data_header_from_bitbuf ops pdu = Some (Inr header, p) \<and> map_of (ae_links e) issi = Some link")
  case False
  with h have "links = ae_links e" by (auto simp: handle_al_data_def split: option.split_asm prod.split_asm sum.split_asm)
  with ok show ?thesis by simp
next
  case True
  then obtain header p link where a: "al_data_header_from_bitbuf ops pdu = Some (Inr header, p)" "map_of (ae_links e) issi = Some link" by blast
  with h obtain link' where l: "al_data_link ops header p link = Some (link', outs)" and links: "links = AList.update issi link' (ae_links e)"
    by (auto simp: handle_al_data_def bind_eq_Some_conv)
  have "as_link_number (reset_setup link') = as_link_number (reset_setup link)" using al_data_link_frame [OF l] by simp
  then have "shrinks link link'" using al_data_link_frame [OF l] by (simp add: shrinks_def reset_setup_def)
  from entity_shrink [OF ok a(2) this, of "ae_store e"] show ?thesis by (simp add: links)
qed

lemma drop_step:
  assumes "entity_ok e" and "drop_link issi e = Some e'"
  shows "entity_ok e'"
proof (rule entity_less [OF assms(1)])
  show "map_of (ae_links e') j = map_of (ae_links e) j \<or> map_of (ae_links e') j = None" for j
    using assms(2) by (auto simp: drop_link_def bind_eq_Some_conv delete_conv split: option.split_asm if_split_asm)
  show "length (pending_of e' j) \<le> length (pending_of e j)" for j
    using assms(2) by (auto simp: drop_link_def bind_eq_Some_conv pending_of_def split: option.split_asm)
qed

lemma drop_all_step: "\<lbrakk>for_loop issis drop_link e = Some e'; entity_ok e\<rbrakk> \<Longrightarrow> entity_ok e'"
  by (induction issis arbitrary: e) (auto split: option.split_asm dest: drop_step)

lemma give_up_step: "\<lbrakk>give_up_links ops clear packet_routes verdicts e = Some (e', msgs); entity_ok e\<rbrakk> \<Longrightarrow> entity_ok e'"
proof (induction verdicts arbitrary: e msgs)
  case (Cons v verdicts)
  obtain issi verdict where v: "v = (issi, verdict)" by fastforce
  show ?case
  proof (cases "\<exists>ns. verdict = GaveUp ns")
    case True
    then obtain ns where ns: "verdict = GaveUp ns" ..
    with Cons.prems(1) v obtain a ms more where "begin_advanced_link_reset ops clear packet_routes issi ns e = Some (a, ms)"
      "give_up_links ops clear packet_routes verdicts a = Some (e', more)" by (auto simp: bind_eq_Some_conv)
    then show ?thesis using Cons.IH begin_step [OF Cons.prems(2)] by blast
  next
    case False
    then have "give_up_links ops clear packet_routes verdicts e = Some (e', msgs)" using Cons.prems(1) v by (cases verdict) auto
    then show ?thesis using Cons.IH Cons.prems(2) by blast
  qed
qed auto

lemma tick_links_shrink:
  "tick_links ops now packet_routes links st = Some (links', st', msgs, verdicts) \<Longrightarrow>
    (case map_of links j of None \<Rightarrow> map_of links' j = None | Some link \<Rightarrow> \<exists>link'. map_of links' j = Some link' \<and> shrinks link link')"
proof (induction links arbitrary: st st' links' msgs verdicts)
  case (Cons k links)
  obtain issi link where k: "k = (issi, link)" by fastforce
  with Cons.prems obtain link' a ms v more b rest vs where
    t: "tick_link ops now (take (li_slots link) (packet_routes issi)) link st = Some (link', a, ms, v)"
       "tick_links ops now packet_routes links a = Some (rest, b, more, vs)" "links' = (issi, link') # rest"
    by (auto simp: bind_eq_Some_conv)
  from tick_shrinks [OF t(1)] Cons.IH [OF t(2)] t(3) k show ?case
    by (cases "j = issi") (auto split: option.split_asm option.splits)
qed auto

lemma tick_all_step:
  assumes ok: "entity_ok e" and t: "submit_advanced_link_messages ops clear packet_routes e = Some (e', msgs)"
  shows "entity_ok e'"
proof -
  from t obtain links st ms verdicts a resets b where
    s: "tick_links ops (ae_now e) packet_routes (ae_links e) (ae_store e) = Some (links, st, ms, verdicts)"
      "give_up_links ops clear packet_routes verdicts (e\<lparr>ae_links := links, ae_store := st\<rparr>) = Some (a, resets)"
      "for_loop (map fst (filter (\<lambda>(issi, verdict). verdict = SetupFailed) verdicts)) drop_link a = Some b"
      "for_loop (map fst (filter (\<lambda>(issi, verdict). verdict = NegotiationFailed) verdicts)) drop_link b = Some e'"
    by (auto simp: submit_advanced_link_messages_def bind_eq_Some_conv)
  let ?e = "e\<lparr>ae_links := links, ae_store := st\<rparr>"
  note sh = tick_links_shrink [OF s(1)]
  have "linked ?e j + length (pending_of ?e j) \<le> 64" for j
  proof -
    have "linked ?e j \<le> linked e j" using sh [of j] by (auto simp: linked_def shrinks_def split: option.splits)
    moreover have "pending_of ?e j = pending_of e j" by (simp add: pending_of_def)
    ultimately show ?thesis using entity_bound [OF ok, of j] by simp
  qed
  moreover have "li_link_number l = 0" if "map_of (ae_links ?e) j = Some l" for j l
  proof (cases "map_of (ae_links e) j")
    case None
    with sh [of j] that show ?thesis by simp
  next
    case (Some k)
    then have "li_link_number k = 0" using ok unfolding entity_ok_def links_ok_def by blast
    with sh [of j] Some that show ?thesis by (simp add: shrinks_def)
  qed
  moreover have "exclusive ?e j" for j
  proof -
    have "exclusive e j" using ok by (simp add: entity_ok_def)
    with sh [of j] show ?thesis by (auto simp: exclusive_def pending_of_def split: option.splits)
  qed
  ultimately have "entity_ok ?e" by (simp add: entity_ok_def links_ok_def)
  from drop_all_step [OF s(4) drop_all_step [OF s(3) give_up_step [OF s(2) this]]] show ?thesis .
qed

lemma handle_setup_step:
  assumes ok: "entity_ok e" and h: "handle_al_setup ops issi endpoint pdu e = Some (e', rs)"
  shows "entity_ok e'"
proof (cases "\<exists>request p. al_setup_from_bitbuf ops pdu = Some (Inr request, p)
    \<and> \<not> (as_link_number request \<noteq> 0 \<or> as_asymmetric request \<or> 4 < as_report request)")
  case False
  with h have "e' = e" by (auto simp: handle_al_setup_def split: option.split_asm prod.split_asm sum.split_asm if_split_asm)
  with ok show ?thesis by simp
next
  case True
  then obtain request p where r: "al_setup_from_bitbuf ops pdu = Some (Inr request, p)"
    "\<not> (as_link_number request \<noteq> 0 \<or> as_asymmetric request \<or> 4 < as_report request)" by blast
  with h obtain a where "setup_link request issi endpoint e = Some a" "process_pending_advanced_data ops a = Some e'"
    by (auto simp: handle_al_setup_def bind_eq_Some_conv)
  from process_step [OF this(2) setup_link_step [OF ok this(1)]] show ?thesis .
qed

lemma handle_reconnect_step:
  assumes ok: "entity_ok e" and h: "handle_al_reconnect ops issi endpoint pdu e = Some (e', rs)"
  shows "entity_ok e'"
proof -
  have "e' = e \<or> (\<exists>link. map_of (ae_links e) issi = Some link
    \<and> e' = e\<lparr>ae_links := AList.update issi (link\<lparr>li_endpoint := endpoint\<rparr>) (ae_links e)\<rparr>)"
    using h by (auto simp: handle_al_reconnect_def Let_def bind_eq_Some_conv
        split: option.split_asm prod.split_asm sum.split_asm if_split_asm)
  then show ?thesis
  proof
    assume "\<exists>link. map_of (ae_links e) issi = Some link \<and> e' = e\<lparr>ae_links := AList.update issi (link\<lparr>li_endpoint := endpoint\<rparr>) (ae_links e)\<rparr>"
    then obtain link where l: "map_of (ae_links e) issi = Some link"
      "e' = e\<lparr>ae_links := AList.update issi (link\<lparr>li_endpoint := endpoint\<rparr>) (ae_links e)\<rparr>" by blast
    have "shrinks link (link\<lparr>li_endpoint := endpoint\<rparr>)" by (simp add: shrinks_def)
    from entity_shrink [OF ok l(1) this, of "ae_store e"] show ?thesis by (simp add: l(2))
  qed (use ok in simp)
qed

lemma handle_disconnect_step:
  assumes ok: "entity_ok e" and h: "handle_al_disconnect ops issi pdu e = Some (e', rs)"
  shows "entity_ok e'"
proof -
  have "e' = e \<or> (\<exists>st. e' = e\<lparr>ae_links := AList.delete issi (ae_links e), ae_pending := AList.delete issi (ae_pending e), ae_store := st\<rparr>)"
    using h by (auto simp: handle_al_disconnect_def Let_def bind_eq_Some_conv
        split: option.split_asm prod.split_asm sum.split_asm if_split_asm)
  then show ?thesis
  proof
    assume "\<exists>st. e' = e\<lparr>ae_links := AList.delete issi (ae_links e), ae_pending := AList.delete issi (ae_pending e), ae_store := st\<rparr>"
    then obtain st where e': "e' = e\<lparr>ae_links := AList.delete issi (ae_links e), ae_pending := AList.delete issi (ae_pending e), ae_store := st\<rparr>" ..
    show ?thesis
      by (rule entity_less [OF ok]) (auto simp: e' delete_conv pending_of_def)
  qed (use ok in simp)
qed

section \<open>Events\<close>

text \<open>What happens to the entity: data from above, an indication from the MAC, the ends of a tick, receipts marked elsewhere.\<close>

datatype ('b, 'm) al_event =
    PacketData u32 "('b, 'm) al_request"
  | Indication u32 nat 'b llc_pdu_type
  | TickStart tdma_time
  | TickEnd
  | ReceiptsMarked tx_store

fun al_event_step :: "'b bitbuf_ops \<Rightarrow> (u32 \<Rightarrow> 'm) \<Rightarrow> (u32 \<Rightarrow> nat list) \<Rightarrow> ('b, 'm) al_event \<Rightarrow> ('b, 'm) al_entity \<Rightarrow> ('b, 'm) al_entity option" where
  "al_event_step ops clear packet_routes (PacketData issi request) e = rx_tla_tldata_req_al_message ops issi request e"
| "al_event_step ops clear packet_routes (Indication issi endpoint_id pdu pdu_type) e =
     map_option fst (rx_tma_unitdata_ind_al ops clear packet_routes issi endpoint_id pdu pdu_type e)"
| "al_event_step ops clear packet_routes (TickStart t) e = Some (e\<lparr>ae_now := t\<rparr>)"
| "al_event_step ops clear packet_routes TickEnd e = do {
     e \<leftarrow> process_pending_advanced_data ops e;
     (e, messages) \<leftarrow> submit_advanced_link_messages ops clear packet_routes e;
     Some e }"
| "al_event_step ops clear packet_routes (ReceiptsMarked st) e = Some (e\<lparr>ae_store := st\<rparr>)"

definition al_init :: "('b, 'm) al_entity" where
  "al_init = \<lparr>ae_now = default_time, ae_store = [], ae_links = [], ae_pending = []\<rparr>"

lemma indication_step:
  assumes ok: "entity_ok e" and h: "rx_tma_unitdata_ind_al ops clear packet_routes issi endpoint pdu t e = Some (e', fx)"
  shows "entity_ok e'"
proof (cases t)
  case AlSetup
  with h handle_setup_step [OF ok] show ?thesis by (auto simp: rx_tma_unitdata_ind_al_def bind_eq_Some_conv)
next
  case AlDataAlFinal
  with h handle_data_step [OF ok] show ?thesis by (auto simp: rx_tma_unitdata_ind_al_def bind_eq_Some_conv)
next
  case AlAckAlRnr
  with h handle_ack_step [OF ok] show ?thesis by (auto simp: rx_tma_unitdata_ind_al_def bind_eq_Some_conv)
next
  case AlReconnect
  with h handle_reconnect_step [OF ok] show ?thesis by (auto simp: rx_tma_unitdata_ind_al_def bind_eq_Some_conv)
next
  case AlDisc
  with h handle_disconnect_step [OF ok] show ?thesis by (auto simp: rx_tma_unitdata_ind_al_def bind_eq_Some_conv)
qed (use h ok in \<open>auto simp: rx_tma_unitdata_ind_al_def\<close>)

lemma event_step_ok:
  assumes ok: "entity_ok e" and s: "al_event_step ops clear packet_routes ev e = Some e'"
  shows "entity_ok e'"
proof (cases ev)
  case (PacketData issi request)
  with s message_step [OF ok] show ?thesis by auto
next
  case (Indication issi endpoint pdu t)
  with s indication_step [OF ok] show ?thesis by auto
next
  case TickEnd
  with s obtain a ms where "process_pending_advanced_data ops e = Some a"
    "submit_advanced_link_messages ops clear packet_routes a = Some (e', ms)" by (auto simp: bind_eq_Some_conv)
  moreover have "links_ok e" using ok by (simp add: entity_ok_def)
  ultimately show ?thesis using process_step tick_all_step by blast
qed (use s ok in \<open>auto simp: entity_store\<close>)

section \<open>Properties\<close>

text \<open>C31: Packet data for a terminal is in one place and bounded: whatever sequence of requests, indications and ticks the
  entity has processed, a terminal with an advanced link has nothing waiting beside it, so that data given to the link never
  overtakes data that arrived earlier, and the link's queue and the waiting data together never exceed 64 SDUs.\<close>

theorem al_one_place:
  assumes "for_loop evs (al_event_step ops clear packet_routes) al_init = Some e"
  shows "linked e issi + length (pending_of e issi) \<le> 64
    \<and> (map_of (ae_links e) issi \<noteq> None \<longrightarrow> pending_of e issi = [])"
proof -
  have run: "entity_ok b" if "for_loop evs (al_event_step ops clear packet_routes) a = Some b" "entity_ok a" for a b
    using that by (induction evs arbitrary: a) (auto split: option.split_asm dest: event_step_ok)
  have "entity_ok al_init" by (simp add: entity_ok_def links_ok_def exclusive_def al_init_def linked_def pending_of_def)
  from run [OF assms this] show ?thesis by (simp add: entity_ok_def links_ok_def exclusive_def)
qed

lemma al_one_place_witness:
  "\<exists>e. for_loop [PacketData 7 example_request, TickStart (mk_time 0 1 1 2), PacketData 7 example_request]
       (al_event_step view_ops (\<lambda>_. ()) (\<lambda>_. [2])) al_init = Some e
     \<and> length (pending_of e 7) = 2 \<and> linked e 7 + length (pending_of e 7) \<le> 64"
proof -
  let ?run = "for_loop [PacketData 7 example_request, TickStart (mk_time 0 1 1 2), PacketData 7 example_request]
       (al_event_step view_ops (\<lambda>_. ()) (\<lambda>_. [2])) al_init"
  obtain e where e: "?run = Some e" "length (pending_of e 7) = 2"
    by (simp add: al_init_def rx_tla_tldata_req_al_message_def rx_tla_tldata_req_al_def queue_pending_advanced_data_def
        linked_def pending_of_def MAX_PENDING_ADVANCED_TLSDUS_PER_LINK_def)
  from al_one_place [OF e(1), of 7] e show ?thesis by blast
qed

end
