(* ===== verification/Llc_Basic.thy ===== *)
theory Llc_Basic
  imports Llc_Advanced Tetra_Types Subscribers Mac_Enums
begin

text \<open>
  The basic link of the base station, \<^verbatim>\<open>crates/tetra-entities/src/llc/llc_bs_ms.rs\<close>: acknowledged data goes out stop
  and wait per terminal, on every channel where the terminal may be listening, and is repeated when no
  acknowledgement comes; received acknowledged data is acknowledged on its own or along with data.

  The entity \<open>bl_entity\<close> has the queues of the basic link; the time, the receipts and the part of the shared
  configuration that the link reads (\<open>bl_config\<close>) are arguments. The message of \<open>retransmission_buf\<close> is always a request to
  the MAC, so it is that request; \<open>bl_type\<close> is constant. \<open>None\<close> is a panic.
\<close>

declare val_bits.simps(2) [simp del] stmts.simps [simp del]

section \<open>Primitives\<close>

record associated_channel =
  ac_call_id :: nat
  ac_timeslot :: nat
  ac_usage :: nat
  ac_best_effort_key :: "nat option"

record cmce_chan_alloc_req =
  ca_usage :: "nat option"
  ca_carrier :: "nat option"
  ca_timeslots :: "bool list"
  ca_alloc_type :: chan_alloc_type
  ca_cell_change_flag :: bool
  ca_ul_dl_assigned :: ul_dl_assignment

record 'b tma_unitdata_req =
  tr_req_handle :: int
  tr_pdu :: 'b
  tr_main_address :: tetra_address
  tr_endpoint_id :: nat
  tr_stealing_permission :: bool
  tr_subscriber_class :: int
  tr_aie :: "aie_request option"
  tr_stealing_repeats_flag :: "bool option"
  tr_data_category :: "int option"
  tr_chan_alloc :: "cmce_chan_alloc_req option"
  tr_associated_channel :: "associated_channel option"
  tr_frame18_broadcast :: bool
  tr_frame18_rollover :: "tdma_time option"
  tr_tx_reporter :: "tx_reporter option"

text \<open>Requests of the layer above. The link identifier and the degradation hint are not read.\<close>

record 'b tla_tldata_req_bl =
  td_main_address :: tetra_address
  td_endpoint_id :: nat
  td_tl_sdu :: 'b
  td_stealing_permission :: bool
  td_subscriber_class :: int
  td_fcs_flag :: bool
  td_packet_data_flag :: bool
  td_aie :: "aie_request option"
  td_stealing_repeats_flag :: "bool option"
  td_data_class_info :: "int option"
  td_req_handle :: int
  td_chan_alloc :: "cmce_chan_alloc_req option"
  td_associated_channel :: "associated_channel option"
  td_tx_reporter :: "tx_reporter option"

record 'b tla_tlunitdata_req_bl =
  tu_main_address :: tetra_address
  tu_endpoint_id :: nat
  tu_tl_sdu :: 'b
  tu_stealing_permission :: bool
  tu_subscriber_class :: int
  tu_aie :: "aie_request option"
  tu_data_class_info :: "int option"
  tu_req_handle :: int
  tu_chan_alloc :: "cmce_chan_alloc_req option"
  tu_associated_channel :: "associated_channel option"
  tu_frame18_broadcast :: bool
  tu_frame18_rollover :: "tdma_time option"
  tu_tx_reporter :: "tx_reporter option"

text \<open>A PDU from the MAC, and what is handed up. An indication without a PDU, on which the code panics, is not a value here. The scrambling code, the channel change fields and the further endpoints of
  an indication are copied to what is handed up.\<close>

record 'b bl_unitdata_ind =
  ti_pdu :: 'b
  ti_main_address :: tetra_address
  ti_endpoint_id :: nat
  ti_aie :: "aie_request option"

record 'b tla_ind_bl =
  tl_acknowledged :: bool
  tl_main_address :: tetra_address
  tl_endpoint_id :: nat
  tl_sdu :: "'b option"
  tl_fcs_flag :: bool
  tl_aie :: "aie_request option"

section \<open>Shared configuration\<close>

text \<open>The security class of a terminal is an enum of another package; the link asks whether it allows clear.\<close>

record delivery_route =
  dr_call_id :: nat
  dr_timeslot :: nat
  dr_usage :: nat

record bl_config =
  bc_subscribers :: subscriber_registry
  bc_common_control :: common_control_channels
  bc_delivery_routes :: "(u32 \<times> delivery_route list) list"
  bc_packet_routes :: "(u32 \<times> delivery_route list) list"
  bc_aie_enabled :: bool
  bc_terminal_allows_clear :: "u32 \<Rightarrow> bool"

definition on_traffic :: "nat \<Rightarrow> bool" where
  "on_traffic timeslot \<longleftrightarrow> 2 \<le> timeslot \<and> timeslot \<le> 4"

definition route_channel :: "delivery_route \<Rightarrow> associated_channel" where
  "route_channel route = \<lparr>ac_call_id = dr_call_id route, ac_timeslot = dr_timeslot route, ac_usage = dr_usage route, ac_best_effort_key = None\<rparr>"

definition traffic_routes :: "(u32 \<times> delivery_route list) list \<Rightarrow> u32 \<Rightarrow> associated_channel list" where
  "traffic_routes table issi = map route_channel (filter (\<lambda>route. on_traffic (dr_timeslot route))
     (case map_of table issi of None \<Rightarrow> [] | Some rs \<Rightarrow> rs))"

definition packet_routes :: "bl_config \<Rightarrow> u32 \<Rightarrow> associated_channel list" where
  "packet_routes config issi = traffic_routes (bc_packet_routes config) issi"

definition packet_route :: "bl_config \<Rightarrow> u32 \<Rightarrow> nat \<Rightarrow> associated_channel option" where
  "packet_route config issi timeslot = List.find (\<lambda>route. ac_timeslot route = timeslot) (packet_routes config issi)"

text \<open>One route per timeslot: the first.\<close>

fun retain_first :: "nat list \<Rightarrow> associated_channel list \<Rightarrow> associated_channel list" where
  "retain_first seen [] = []"
| "retain_first seen (route # routes) =
     (if ac_timeslot route \<in> set seen then retain_first seen routes
      else route # retain_first (ac_timeslot route # seen) routes)"

text \<open>A route put first, in the place of any other on its timeslot.\<close>

definition prefer_route :: "associated_channel \<Rightarrow> associated_channel list \<Rightarrow> associated_channel list" where
  "prefer_route route routes = route # filter (\<lambda>r. ac_timeslot r \<noteq> ac_timeslot route) routes"

definition delivery_routes :: "u32 \<Rightarrow> tdma_time \<Rightarrow> bl_config \<Rightarrow> associated_channel list \<times> bl_config" where
  "delivery_routes issi now config =
     (if is_registration_pending (bc_subscribers config) issi then ([], config)
      else
        let (direct_response_window, registry) = direct_response_window_active issi now (bc_subscribers config);
          routes = (if direct_response_window then [] else traffic_routes (bc_delivery_routes config) issi);
          routes = (case packet_routes config issi of [] \<Rightarrow> routes | packet # _ \<Rightarrow> prefer_route packet routes)
        in (retain_first [] routes, config\<lparr>bc_subscribers := registry\<rparr>))"

section \<open>State\<close>

record 'b expected_in_ack =
  ea_ts :: nat
  ea_addr :: tetra_address
  ea_ns :: nat
  ea_force_common_channel :: bool
  ea_packet_data :: bool
  ea_t_first :: tdma_time
  ea_t_submitted :: "tdma_time option"
  ea_t_umac_done :: "tdma_time option"
  ea_has_transmitted_attempt :: bool
  ea_tx_reporter :: tx_reporter
  ea_attempt_reporters :: "tx_reporter list"
  ea_attempt_timeslots :: "nat list"
  ea_attempt_assigned :: bool
  ea_observed_copies :: nat
  ea_buf :: "'b tma_unitdata_req"
  ea_retransmit_count :: nat

record scheduled_out_ack =
  so_addr :: tetra_address
  so_t_start :: tdma_time
  so_nr :: nat
  so_ts :: nat
  so_aie :: aie_request

record 'b bl_entity =
  be_acks :: "scheduled_out_ack list"
  be_outbound :: "'b expected_in_ack list"
  be_udata :: "'b tma_unitdata_req list"
  be_send_seq :: "(u32 \<times> nat) list"

definition bl_new :: "'b bl_entity" where
  "bl_new = \<lparr>be_acks = [], be_outbound = [], be_udata = [], be_send_seq = []\<rparr>"

definition ea_ssi :: "'b expected_in_ack \<Rightarrow> u32" where
  "ea_ssi ack = ssi (ea_addr ack)"

section \<open>Acknowledgements to send\<close>

definition schedule_outgoing_ack :: "tdma_time \<Rightarrow> tetra_address \<Rightarrow> nat \<Rightarrow> aie_request \<Rightarrow> 'b bl_entity \<Rightarrow> 'b bl_entity" where
  "schedule_outgoing_ack dltime addr ns aie e =
     e\<lparr>be_acks := be_acks e @ [\<lparr>so_addr = addr, so_t_start = dltime, so_nr = ns, so_ts = time_t dltime, so_aie = aie\<rparr>]\<rparr>"

fun take_out_ack :: "u32 \<Rightarrow> nat \<Rightarrow> aie_request \<Rightarrow> scheduled_out_ack list \<Rightarrow> nat option \<times> scheduled_out_ack list" where
  "take_out_ack issi timeslot aie [] = (None, [])"
| "take_out_ack issi timeslot aie (a # acks) =
     (if ssi (so_addr a) = issi \<and> so_ts a = timeslot \<and> same_protection_as (so_aie a) aie then (Some (so_nr a), acks)
      else case take_out_ack issi timeslot aie acks of (n, rest) \<Rightarrow> (n, a # rest))"

definition get_out_ack_seq_if_any :: "tetra_address \<Rightarrow> nat \<Rightarrow> aie_request \<Rightarrow> 'b bl_entity \<Rightarrow> nat option \<times> 'b bl_entity" where
  "get_out_ack_seq_if_any addr timeslot aie e =
     (case take_out_ack (ssi addr) timeslot aie (be_acks e) of (n, acks) \<Rightarrow> (n, e\<lparr>be_acks := acks\<rparr>))"

definition get_next_send_seq :: "tetra_address \<Rightarrow> 'b bl_entity \<Rightarrow> nat \<times> 'b bl_entity" where
  "get_next_send_seq addr e =
     (let ns = (case map_of (be_send_seq e) (ssi addr) of Some vs \<Rightarrow> vs | None \<Rightarrow> 0)
      in (ns, e\<lparr>be_send_seq := AList.update (ssi addr) (ns XOR 1) (be_send_seq e)\<rparr>))"

section \<open>Attempts\<close>

text \<open>Copies that have not reached the air are cancelled.\<close>

fun cancel_copies :: "tx_reporter list \<Rightarrow> tx_store \<Rightarrow> tx_store option" where
  "cancel_copies [] st = Some st"
| "cancel_copies (r # rs) st = do {
     st \<leftarrow> (if get_state st r = Pending then mark_discarded r st else Some st);
     cancel_copies rs st }"

definition cancel_pending_attempt_copies :: "'b expected_in_ack \<Rightarrow> tx_store \<Rightarrow> tx_store option" where
  "cancel_pending_attempt_copies ack st = cancel_copies (ea_attempt_reporters ack) st"

definition begin_attempt :: "tdma_time \<Rightarrow> 'b expected_in_ack \<Rightarrow> tx_store \<Rightarrow> ('b expected_in_ack \<times> tx_store) option" where
  "begin_attempt dltime ack st = do {
     st \<leftarrow> cancel_pending_attempt_copies ack st;
     Some (ack\<lparr>ea_t_submitted := Some dltime, ea_t_umac_done := None, ea_attempt_reporters := [],
       ea_attempt_timeslots := [], ea_observed_copies := 0\<rparr>, st) }"

text \<open>One copy of the message, with a receipt of its own.\<close>

definition queue_copy :: "associated_channel option \<Rightarrow> nat \<Rightarrow> 'b expected_in_ack \<Rightarrow> tx_store
    \<Rightarrow> 'b expected_in_ack \<times> tx_store \<times> 'b tma_unitdata_req" where
  "queue_copy route timeslot ack st =
     (let (reporter, st) = new_reporter st
      in (ack\<lparr>ea_attempt_reporters := ea_attempt_reporters ack @ [reporter],
              ea_attempt_timeslots := ea_attempt_timeslots ack @ [timeslot]\<rparr>,
          st, (ea_buf ack)\<lparr>tr_associated_channel := route, tr_tx_reporter := Some reporter\<rparr>))"

fun queue_copies :: "associated_channel list \<Rightarrow> 'b expected_in_ack \<Rightarrow> tx_store
    \<Rightarrow> 'b expected_in_ack \<times> tx_store \<times> 'b tma_unitdata_req list" where
  "queue_copies [] ack st = (ack, st, [])"
| "queue_copies (route # routes) ack st =
     (let (ack, st, message) = queue_copy (Some route) (ac_timeslot route) ack st;
          (ack, st, messages) = queue_copies routes (ack\<lparr>ea_ts := ac_timeslot route\<rparr>) st
      in (ack, st, message # messages))"

text \<open>Where common control has several channels, an attempt goes to one of these in turn.\<close>

fun add_slots :: "nat list \<Rightarrow> (nat \<times> associated_channel option) list \<Rightarrow> (nat \<times> associated_channel option) list" where
  "add_slots [] candidates = candidates"
| "add_slots (s # slots) candidates =
     add_slots slots (if list_ex (\<lambda>c. fst c = s) candidates then candidates else candidates @ [(s, None)])"

definition explicit_common_slot :: "bl_config \<Rightarrow> nat \<Rightarrow> nat option" where
  "explicit_common_slot config endpoint =
     (if endpoint < 256 \<and> is_common (bc_common_control config) endpoint then Some endpoint else None)"

definition fixed_slot :: "bl_config \<Rightarrow> 'b expected_in_ack \<Rightarrow> nat option" where
  "fixed_slot config ack =
     (let assignment = common_control (bc_subscribers config) (ea_ssi ack);
        ingress = (case cc_registration_slot assignment of Some s \<Rightarrow> Some s
          | None \<Rightarrow> if ea_force_common_channel ack then cc_last_uplink_slot assignment else None)
      in (case ingress of Some s \<Rightarrow> Some s | None \<Rightarrow> explicit_common_slot config (tr_endpoint_id (ea_buf ack))))"

definition delivery_candidates :: "bl_config \<Rightarrow> bool \<Rightarrow> associated_channel list \<Rightarrow> 'b expected_in_ack \<Rightarrow> (nat \<times> associated_channel option) list" where
  "delivery_candidates config packet_associated routes ack =
     (let by_route = map (\<lambda>route. (ac_timeslot route, Some route)) routes in
      if packet_associated then by_route
      else (case fixed_slot config ack of
          Some s \<Rightarrow> [(s, None)]
        | None \<Rightarrow> add_slots (advertised_slots (bc_common_control config))
            ((common_control_slot (cc_ms_scch (common_control (bc_subscribers config) (ea_ssi ack)))
                (advertised_count (bc_common_control config)), None) # by_route)))"

definition submit_ordered :: "tdma_time \<Rightarrow> (nat \<times> associated_channel option) list \<Rightarrow> 'b expected_in_ack \<Rightarrow> tx_store
    \<Rightarrow> ('b expected_in_ack \<times> tx_store \<times> 'b tma_unitdata_req list) option" where
  "submit_ordered dltime candidates ack st = do {
     (timeslot, route) \<leftarrow> aget candidates (ea_retransmit_count ack mod length candidates);
     (ack, st) \<leftarrow> begin_attempt dltime ack st;
     let (ack, st, message) = queue_copy route timeslot ack st;
     Some (ack\<lparr>ea_ts := timeslot, ea_attempt_assigned := (route \<noteq> None)\<rparr>, st,
       [message\<lparr>tr_endpoint_id := (if route = None then timeslot else 0)\<rparr>]) }"

text \<open>Otherwise on every bearer at once, and on the main control channel unless a packet route is the only place.\<close>

definition submit_everywhere :: "tdma_time \<Rightarrow> bool \<Rightarrow> associated_channel list \<Rightarrow> 'b expected_in_ack \<Rightarrow> tx_store
    \<Rightarrow> ('b expected_in_ack \<times> tx_store \<times> 'b tma_unitdata_req list) option" where
  "submit_everywhere dltime packet_associated routes ack st = do {
     (ack, st) \<leftarrow> begin_attempt dltime ack st;
     let (ack, st, messages) = queue_copies routes (ack\<lparr>ea_attempt_assigned := (routes \<noteq> [])\<rparr>) st;
     if packet_associated then Some (ack, st, messages)
     else (
       let (ack, st, message) = queue_copy None 1 ack st
       in Some (if length (ea_attempt_reporters ack) = 1 then ack\<lparr>ea_ts := 1\<rparr> else ack, st, messages @ [message])) }"

definition preferred_route :: "'b expected_in_ack \<Rightarrow> associated_channel option" where
  "preferred_route ack = (case tr_associated_channel (ea_buf ack) of
       Some route \<Rightarrow> if on_traffic (ac_timeslot route) then Some route else None | None \<Rightarrow> None)"

definition submit_for_acknowledged_transmission :: "tdma_time \<Rightarrow> 'b expected_in_ack \<Rightarrow> bl_config \<Rightarrow> tx_store
    \<Rightarrow> ('b expected_in_ack \<times> bl_config \<times> tx_store \<times> 'b tma_unitdata_req list) option" where
  "submit_for_acknowledged_transmission dltime ack config st = do {
     let packet_associated = ea_packet_data ack \<and> preferred_route ack \<noteq> None;
     let (routes, config) = (if ea_force_common_channel ack \<or> ea_packet_data ack then ([], config)
       else delivery_routes (ea_ssi ack) dltime config);
     let routes = (case preferred_route ack of None \<Rightarrow> routes | Some route \<Rightarrow> prefer_route route routes);
     (ack, st, messages) \<leftarrow> (if 0 < physical_count (bc_common_control config)
       then submit_ordered dltime (delivery_candidates config packet_associated routes ack) ack st
       else submit_everywhere dltime packet_associated routes ack st);
     Some (ack, config, st, messages) }"

section \<open>Timers\<close>

definition T251_SENDER_RETRY_TIMER :: nat where "T251_SENDER_RETRY_TIMER = 4 * 4"
definition ASSIGNED_CHANNEL_ACK_RETRY_TIMER_MULTIPLIER :: nat where "ASSIGNED_CHANNEL_ACK_RETRY_TIMER_MULTIPLIER = 18"
definition ASSIGNED_CHANNEL_ACK_EXTRA_RETRANSMITS :: nat where "ASSIGNED_CHANNEL_ACK_EXTRA_RETRANSMITS = 2"
definition CONSERVATIVE_SCH_F_PAYLOAD_BITS :: nat where "CONSERVATIVE_SCH_F_PAYLOAD_BITS = 200"
definition COMMON_CHANNEL_FINAL_ACK_GRACE_TIMESLOTS :: nat where "COMMON_CHANNEL_FINAL_ACK_GRACE_TIMESLOTS = 4"
definition ASSIGNED_CHANNEL_FINAL_ACK_GRACE_TIMESLOTS :: nat where "ASSIGNED_CHANNEL_FINAL_ACK_GRACE_TIMESLOTS = 5 * 18 * 4"
definition N252_BL_MAX_TLSDU_RETRANSMITS_ACKED :: nat where "N252_BL_MAX_TLSDU_RETRANSMITS_ACKED = 3"

text \<open>Saturation at the top of \<open>u32\<close>; an \<open>i32\<close> read as \<open>u32\<close>.\<close>

definition sat_u32 :: "nat \<Rightarrow> nat" where
  "sat_u32 n = min (2 ^ 32 - 1) n"

definition i32_as_u32 :: "int \<Rightarrow> nat" where
  "i32_as_u32 i = nat (i mod 2 ^ 32)"

definition has_assigned_channel_context :: "'b expected_in_ack \<Rightarrow> bool" where
  "has_assigned_channel_context ack \<longleftrightarrow> ea_attempt_assigned ack \<or> tr_associated_channel (ea_buf ack) \<noteq> None
     \<or> (case tr_chan_alloc (ea_buf ack) of None \<Rightarrow> False
        | Some alloc \<Rightarrow> ca_usage alloc \<noteq> None \<or> list_ex (\<lambda>assigned. assigned) (drop 1 (ca_timeslots alloc)))"

definition basic_link_retry_timer :: "'b expected_in_ack \<Rightarrow> nat" where
  "basic_link_retry_timer ack = (if has_assigned_channel_context ack
     then T251_SENDER_RETRY_TIMER * ASSIGNED_CHANNEL_ACK_RETRY_TIMER_MULTIPLIER else T251_SENDER_RETRY_TIMER)"

definition estimated_mac_frames :: "'b bitbuf_ops \<Rightarrow> 'b expected_in_ack \<Rightarrow> nat" where
  "estimated_mac_frames ops ack =
     ((bb_get_len ops (tr_pdu (ea_buf ack)) + CONSERVATIVE_SCH_F_PAYLOAD_BITS - 1) div CONSERVATIVE_SCH_F_PAYLOAD_BITS) mod 2 ^ 32 + 1"

definition ee_period_multiframes :: "bl_config \<Rightarrow> u32 \<Rightarrow> nat" where
  "ee_period_multiframes config issi =
     (case energy_economy (bc_subscribers config) issi of
        None \<Rightarrow> 0
      | Some (mode, _, _) \<Rightarrow> if mode = 0 then 0 else (ee_period_frames (min mode 7) + 17) div 18)"

definition pending_route_completion_window :: "'b bitbuf_ops \<Rightarrow> bl_config \<Rightarrow> tx_store \<Rightarrow> 'b expected_in_ack \<Rightarrow> nat" where
  "pending_route_completion_window ops config st ack =
     (let mac_frames = estimated_mac_frames ops ack;
        windows = map (\<lambda>(reporter, timeslot).
          if is_common (bc_common_control config) timeslot
          then sat_u32 (sat_u32 (ee_period_multiframes config (ea_ssi ack) * (18 * 4)) + sat_u32 (mac_frames * 4))
          else sat_u32 (basic_link_retry_timer ack + sat_u32 (mac_frames * (18 * 4))))
          (filter (\<lambda>(reporter, timeslot). get_state st reporter = Pending) (zip (ea_attempt_reporters ack) (ea_attempt_timeslots ack)))
      in fold max windows 0)"

definition max_over_air_retransmits :: "'b expected_in_ack \<Rightarrow> nat" where
  "max_over_air_retransmits ack = (if has_assigned_channel_context ack
     then N252_BL_MAX_TLSDU_RETRANSMITS_ACKED + ASSIGNED_CHANNEL_ACK_EXTRA_RETRANSMITS
     else N252_BL_MAX_TLSDU_RETRANSMITS_ACKED)"

definition final_ack_grace_elapsed :: "int \<Rightarrow> nat \<Rightarrow> bool \<Rightarrow> bool" where
  "final_ack_grace_elapsed elapsed retry_timer assigned_channel \<longleftrightarrow>
     (let grace = (if assigned_channel then ASSIGNED_CHANNEL_FINAL_ACK_GRACE_TIMESLOTS else COMMON_CHANNEL_FINAL_ACK_GRACE_TIMESLOTS)
      in 0 \<le> elapsed \<and> sat_u32 (retry_timer + grace) \<le> i32_as_u32 elapsed)"

section \<open>Incoming acknowledgements\<close>

text \<open>The outstanding message of a terminal, taken out of the queue.\<close>

fun take_expected_ack_for_ssi :: "u32 \<Rightarrow> 'b expected_in_ack list \<Rightarrow> ('b expected_in_ack \<times> 'b expected_in_ack list) option" where
  "take_expected_ack_for_ssi issi [] = None"
| "take_expected_ack_for_ssi issi (ack # acks) =
     (if ea_ssi ack = issi \<and> ea_t_submitted ack \<noteq> None then Some (ack, acks)
      else map_option (\<lambda>(found, rest). (found, ack # rest)) (take_expected_ack_for_ssi issi acks))"

definition any_transmitted :: "tx_store \<Rightarrow> 'b expected_in_ack \<Rightarrow> bool" where
  "any_transmitted st ack \<longleftrightarrow> list_ex (is_transmitted st) (ea_attempt_reporters ack)"

definition is_clear :: "aie_request option \<Rightarrow> bool" where
  "is_clear aie \<longleftrightarrow> (case aie of None \<Rightarrow> True | Some (ReqClear _ _) \<Rightarrow> True | _ \<Rightarrow> False)"

definition bound_to_sc2 :: "bl_config \<Rightarrow> u32 \<Rightarrow> bool" where
  "bound_to_sc2 config issi \<longleftrightarrow> bc_aie_enabled config \<and> is_registered (bc_subscribers config) issi \<and> \<not> bc_terminal_allows_clear config issi"

definition clear_transition_ack_expected :: "bl_config \<Rightarrow> tetra_address \<Rightarrow> nat \<Rightarrow> tx_store \<Rightarrow> 'b bl_entity \<Rightarrow> bool" where
  "clear_transition_ack_expected config addr nr st e \<longleftrightarrow>
     (if \<not> bound_to_sc2 config (ssi addr) then False
      else list_ex (\<lambda>expected. ea_ssi expected = ssi addr \<and> ea_ns expected = nr \<and> ea_t_submitted expected \<noteq> None
        \<and> (ea_has_transmitted_attempt expected \<or> ea_t_umac_done expected \<noteq> None
           \<or> is_transmitted st (ea_tx_reporter expected) \<or> any_transmitted st expected)
        \<and> is_clear (tr_aie (ea_buf expected))) (be_outbound e))"

text \<open>The receipt of the message brought to the state that its transmission calls for.\<close>

definition note_transmitted :: "tx_reporter \<Rightarrow> tx_store \<Rightarrow> tx_store option" where
  "note_transmitted r st = (if is_transmitted st r then Some st else mark_transmitted r (reset r st))"

definition process_incoming_ack :: "tetra_address \<Rightarrow> nat \<Rightarrow> aie_request \<Rightarrow> 'b bl_entity \<Rightarrow> tx_store \<Rightarrow> ('b bl_entity \<times> tx_store) option" where
  "process_incoming_ack addr nr aie e st =
     (case take_expected_ack_for_ssi (ssi addr) (be_outbound e) of
        None \<Rightarrow> Some (e, st)
      | Some (expected, rest) \<Rightarrow> do {
          let seen = (ea_t_umac_done expected = None \<and> (is_transmitted st (ea_tx_reporter expected) \<or> any_transmitted st expected));
          let expected = (if seen then expected\<lparr>ea_has_transmitted_attempt := True\<rparr> else expected);
          st \<leftarrow> (if seen then note_transmitted (ea_tx_reporter expected) st else Some st);
          let aie_sent = (case tr_aie (ea_buf expected) of Some a \<Rightarrow> a | None \<Rightarrow> req_clear (Individual (ssi addr)) ScopeMacResource);
          if (ea_t_umac_done expected = None \<and> \<not> ea_has_transmitted_attempt expected)
             \<or> \<not> same_protection_as aie_sent aie \<or> ea_ns expected \<noteq> nr
          then Some (e\<lparr>be_outbound := expected # rest\<rparr>, st)
          else do {
            st \<leftarrow> note_transmitted (ea_tx_reporter expected) st;
            st \<leftarrow> mark_acknowledged (ea_tx_reporter expected) st;
            st \<leftarrow> cancel_pending_attempt_copies expected st;
            Some (e\<lparr>be_outbound := rest\<rparr>, st) } })"

section \<open>A PDU from the MAC\<close>

text \<open>The header: whether there is a check, the number of the PDU, the number it acknowledges.\<close>

fun bl_header_from_bitbuf :: "'b bitbuf_ops \<Rightarrow> llc_pdu_type \<Rightarrow> ('b, bool \<times> nat option \<times> nat option) parser" where
  "bl_header_from_bitbuf ops BlAdata = p_map (\<lambda>p. (bad_has_fcs p, Some (bad_ns p), Some (bad_nr p))) (bl_adata_from_bitbuf ops)"
| "bl_header_from_bitbuf ops BlAdataFcs = p_map (\<lambda>p. (bad_has_fcs p, Some (bad_ns p), Some (bad_nr p))) (bl_adata_from_bitbuf ops)"
| "bl_header_from_bitbuf ops BlData = p_map (\<lambda>p. (bd_has_fcs p, Some (bd_ns p), None)) (bl_data_from_bitbuf ops)"
| "bl_header_from_bitbuf ops BlDataFcs = p_map (\<lambda>p. (bd_has_fcs p, Some (bd_ns p), None)) (bl_data_from_bitbuf ops)"
| "bl_header_from_bitbuf ops BlAck = p_map (\<lambda>p. (ba_has_fcs p, None, Some (ba_nr p))) (bl_ack_from_bitbuf ops)"
| "bl_header_from_bitbuf ops BlAckFcs = p_map (\<lambda>p. (ba_has_fcs p, None, Some (ba_nr p))) (bl_ack_from_bitbuf ops)"
| "bl_header_from_bitbuf ops BlUdata = p_map (\<lambda>p. (bu_has_fcs p, None, None)) (bl_udata_from_bitbuf ops)"
| "bl_header_from_bitbuf ops BlUdataFcs = p_map (\<lambda>p. (bu_has_fcs p, None, None)) (bl_udata_from_bitbuf ops)"
| "bl_header_from_bitbuf ops _ = p_panic"

definition is_bl_ack :: "llc_pdu_type \<Rightarrow> bool" where
  "is_bl_ack pdu_type \<longleftrightarrow> pdu_type = BlAck \<or> pdu_type = BlAckFcs"

definition is_bl_udata :: "llc_pdu_type \<Rightarrow> bool" where
  "is_bl_udata pdu_type \<longleftrightarrow> pdu_type = BlUdata \<or> pdu_type = BlUdataFcs"

text \<open>A clear PDU from a terminal bound to encryption passes only as the acknowledgement of a clear message or with an MM PDU.\<close>

definition clear_pdu_rejected :: "'b bitbuf_ops \<Rightarrow> bl_config \<Rightarrow> 'b bl_unitdata_ind \<Rightarrow> llc_pdu_type \<Rightarrow> bool \<Rightarrow> nat option \<Rightarrow> 'b
    \<Rightarrow> tx_store \<Rightarrow> 'b bl_entity \<Rightarrow> bool" where
  "clear_pdu_rejected ops config prim pdu_type has_fcs nr pdu st e \<longleftrightarrow>
     is_clear (ti_aie prim) \<and> bound_to_sc2 config (ssi (ti_main_address prim))
     \<and> \<not> (is_bl_ack pdu_type \<and> bb_get_len_remaining ops pdu \<le> (if has_fcs then 36 else 4)
           \<and> (case nr of None \<Rightarrow> False | Some n \<Rightarrow> clear_transition_ack_expected config (ti_main_address prim) n st e))
     \<and> bb_peek_bits ops pdu 3 \<noteq> Some 1"

definition incoming_aie :: "'b bl_unitdata_ind \<Rightarrow> aie_request" where
  "incoming_aie prim = (case ti_aie prim of Some a \<Rightarrow> a | None \<Rightarrow> req_clear (Individual (ssi (ti_main_address prim))) ScopeMacData)"

definition rx_tma_unitdata_ind_bl :: "'b bitbuf_ops \<Rightarrow> tdma_time \<Rightarrow> bl_config \<Rightarrow> 'b bl_unitdata_ind \<Rightarrow> 'b bl_entity \<Rightarrow> tx_store
    \<Rightarrow> ('b bl_entity \<times> tx_store \<times> 'b tla_ind_bl option) option" where
  "rx_tma_unitdata_ind_bl ops now config prim e st =
     (case bb_peek_bits ops (ti_pdu prim) 4 of
        None \<Rightarrow> Some (e, st, None)
      | Some bits \<Rightarrow> (case llc_pdu_type_of_raw bits of
          None \<Rightarrow> Some (e, st, None)
        | Some pdu_type \<Rightarrow> (case bl_header_from_bitbuf ops pdu_type (ti_pdu prim) of
            None \<Rightarrow> None
          | Some (Inl err, pdu) \<Rightarrow> Some (e, st, None)
          | Some (Inr (has_fcs, ns, nr), pdu) \<Rightarrow> do {
              good \<leftarrow> (if has_fcs then check_fcs ops pdu else Some True);
              if \<not> good \<or> clear_pdu_rejected ops config prim pdu_type has_fcs nr pdu st e then Some (e, st, None)
              else do {
                let e = (case ns of None \<Rightarrow> e
                  | Some n \<Rightarrow> schedule_outgoing_ack (add_timeslots now (- 2)) (ti_main_address prim) n (incoming_aie prim) e);
                (e, st) \<leftarrow> (case nr of None \<Rightarrow> Some (e, st)
                  | Some n \<Rightarrow> process_incoming_ack (ti_main_address prim) n (incoming_aie prim) e st);
                if is_bl_ack pdu_type \<and> bb_get_len_remaining ops pdu \<le> 4 then Some (e, st, None)
                else do {
                  pdu \<leftarrow> bb_set_raw_start ops pdu (bb_get_raw_pos ops pdu);
                  Some (e, st, Some \<lparr>tl_acknowledged = (\<not> is_bl_udata pdu_type), tl_main_address = ti_main_address prim,
                    tl_endpoint_id = ti_endpoint_id prim, tl_sdu = (if 0 < bb_get_len_remaining ops pdu then Some pdu else None),
                    tl_fcs_flag = has_fcs, tl_aie = ti_aie prim\<rparr>) } } })))"

section \<open>Requests from above\<close>

definition outgoing_aie :: "'b tla_tldata_req_bl \<Rightarrow> aie_request" where
  "outgoing_aie prim = (case td_aie prim of Some a \<Rightarrow> a | None \<Rightarrow> req_clear (Individual (ssi (td_main_address prim))) ScopeMacResource)"

text \<open>The timeslot on which the message will go out, which an acknowledgement sent along must have been received on.\<close>

definition delivery_timeslot :: "tdma_time \<Rightarrow> 'b tla_tldata_req_bl \<Rightarrow> bl_config \<Rightarrow> nat \<times> bl_config" where
  "delivery_timeslot now prim config =
     (if 0 < physical_count (bc_common_control config) \<and> td_associated_channel prim = None then
        (let assignment = common_control (bc_subscribers config) (ssi (td_main_address prim))
         in (case explicit_common_slot config (td_endpoint_id prim) of Some s \<Rightarrow> s
             | None \<Rightarrow> (case cc_registration_slot assignment of Some s \<Rightarrow> s
               | None \<Rightarrow> common_control_slot (cc_ms_scch assignment) (advertised_count (bc_common_control config)))), config)
      else (case td_associated_channel prim of
          Some channel \<Rightarrow> (ac_timeslot channel, config)
        | None \<Rightarrow> (case delivery_routes (ssi (td_main_address prim)) now config of
            (routes, config) \<Rightarrow> ((case routes of [] \<Rightarrow> 1 | channel # _ \<Rightarrow> ac_timeslot channel), config))))"

definition bl_data_pdu :: "'b bitbuf_ops \<Rightarrow> bool \<Rightarrow> nat option \<Rightarrow> nat \<Rightarrow> 'b \<Rightarrow> 'b option" where
  "bl_data_pdu ops fcs_flag out_ack_n ns sdu = do {
     let sdu_len = bb_get_len_remaining ops sdu;
     checksum \<leftarrow> (if fcs_flag then map_option Some (compute_fcs ops sdu (bb_get_pos ops sdu) (bb_get_len ops sdu)) else Some None);
     pdu \<leftarrow> (case out_ack_n of
         Some n \<Rightarrow> bl_adata_to_bitbuf ops \<lparr>bad_has_fcs = fcs_flag, bad_nr = n, bad_ns = ns\<rparr> (bb_new_autoexpand ops 32)
       | None \<Rightarrow> bl_data_to_bitbuf ops \<lparr>bd_has_fcs = fcs_flag, bd_ns = ns\<rparr> (bb_new_autoexpand ops 32));
     (pdu, sdu) \<leftarrow> bb_copy_bits ops pdu sdu sdu_len;
     pdu \<leftarrow> (case checksum of None \<Rightarrow> Some pdu | Some c \<Rightarrow> bb_write_bits ops pdu (unat c) 32);
     bb_seek ops pdu 0 }"

definition data_request :: "'b tla_tldata_req_bl \<Rightarrow> 'b \<Rightarrow> tx_reporter \<Rightarrow> 'b tma_unitdata_req" where
  "data_request prim pdu reporter = \<lparr>tr_req_handle = td_req_handle prim, tr_pdu = pdu, tr_main_address = td_main_address prim,
     tr_endpoint_id = td_endpoint_id prim, tr_stealing_permission = td_stealing_permission prim,
     tr_subscriber_class = td_subscriber_class prim, tr_aie = td_aie prim, tr_stealing_repeats_flag = td_stealing_repeats_flag prim,
     tr_data_category = td_data_class_info prim, tr_chan_alloc = td_chan_alloc prim, tr_associated_channel = td_associated_channel prim,
     tr_frame18_broadcast = False, tr_frame18_rollover = None, tr_tx_reporter = Some reporter\<rparr>"

definition new_expected_ack :: "tdma_time \<Rightarrow> 'b tla_tldata_req_bl \<Rightarrow> nat \<Rightarrow> 'b tma_unitdata_req \<Rightarrow> tx_reporter \<Rightarrow> 'b expected_in_ack" where
  "new_expected_ack now prim ns buf reporter = \<lparr>
     ea_ts = (case td_associated_channel prim of Some channel \<Rightarrow> ac_timeslot channel | None \<Rightarrow> 1),
     ea_addr = td_main_address prim, ea_ns = ns,
     ea_force_common_channel = (td_packet_data_flag prim \<and> (case td_chan_alloc prim of None \<Rightarrow> False
       | Some allocation \<Rightarrow> ca_alloc_type allocation = AllocReplace)),
     ea_packet_data = td_packet_data_flag prim, ea_t_first = now, ea_t_submitted = None, ea_t_umac_done = None,
     ea_has_transmitted_attempt = False, ea_tx_reporter = reporter, ea_attempt_reporters = [], ea_attempt_timeslots = [],
     ea_attempt_assigned = False, ea_observed_copies = 0, ea_buf = buf, ea_retransmit_count = 0\<rparr>"

definition rx_tla_tldata_req_bl :: "'b bitbuf_ops \<Rightarrow> tdma_time \<Rightarrow> 'b tla_tldata_req_bl \<Rightarrow> 'b bl_entity \<Rightarrow> bl_config \<Rightarrow> tx_store
    \<Rightarrow> ('b bl_entity \<times> bl_config \<times> tx_store) option" where
  "rx_tla_tldata_req_bl ops now prim e config st = do {
     guard (\<not> td_stealing_permission prim);
     guard (ssi_type (td_main_address prim) \<noteq> Gssi);
     let (timeslot, config) = delivery_timeslot now prim config;
     let (out_ack_n, e) = get_out_ack_seq_if_any (td_main_address prim) timeslot (outgoing_aie prim) e;
     let (ns, e) = get_next_send_seq (td_main_address prim) e;
     pdu \<leftarrow> bl_data_pdu ops (td_fcs_flag prim) out_ack_n ns (td_tl_sdu prim);
     let (reporter, st) = (case td_tx_reporter prim of Some r \<Rightarrow> (r, st) | None \<Rightarrow> new_reporter st);
     Some (e\<lparr>be_outbound := be_outbound e @ [new_expected_ack now prim ns (data_request prim pdu reporter) reporter]\<rparr>, config, st) }"

definition rx_tla_tlunitdata_req_bl :: "'b bitbuf_ops \<Rightarrow> 'b tla_tlunitdata_req_bl \<Rightarrow> 'b bl_entity \<Rightarrow> 'b bl_entity option" where
  "rx_tla_tlunitdata_req_bl ops prim e = do {
     pdu \<leftarrow> bl_udata_to_bitbuf ops \<lparr>bu_has_fcs = False\<rparr> (bb_new_autoexpand ops 32);
     (pdu, sdu) \<leftarrow> bb_copy_bits ops pdu (tu_tl_sdu prim) (bb_get_len_remaining ops (tu_tl_sdu prim));
     pdu \<leftarrow> bb_seek ops pdu 0;
     Some (e\<lparr>be_udata := be_udata e @ [\<lparr>tr_req_handle = tu_req_handle prim, tr_pdu = pdu, tr_main_address = tu_main_address prim,
       tr_endpoint_id = tu_endpoint_id prim, tr_stealing_permission = tu_stealing_permission prim,
       tr_subscriber_class = tu_subscriber_class prim, tr_aie = tu_aie prim, tr_stealing_repeats_flag = None,
       tr_data_category = tu_data_class_info prim, tr_chan_alloc = tu_chan_alloc prim,
       tr_associated_channel = tu_associated_channel prim, tr_frame18_broadcast = tu_frame18_broadcast prim,
       tr_frame18_rollover = tu_frame18_rollover prim, tr_tx_reporter = tu_tx_reporter prim\<rparr>]\<rparr>) }"

section \<open>The end of a tick\<close>

text \<open>What the receipts of the copies say of the attempt.\<close>

definition observe_copies :: "tdma_time \<Rightarrow> 'b expected_in_ack \<Rightarrow> tx_store \<Rightarrow> ('b expected_in_ack \<times> tx_store) option" where
  "observe_copies now ack st =
     (let reporters = ea_attempt_reporters ack;
        transmitted = length (filter (is_transmitted st) reporters);
        all_done = (reporters \<noteq> [] \<and> list_all (\<lambda>r. is_transmitted st r \<or> is_discarded st r) reporters)
      in if ea_observed_copies ack < transmitted then do {
           st \<leftarrow> note_transmitted (ea_tx_reporter ack) st;
           Some (ack\<lparr>ea_has_transmitted_attempt := True, ea_observed_copies := transmitted, ea_t_umac_done := Some now\<rparr>, st) }
         else if ea_t_umac_done ack = None \<and> all_done then Some (ack\<lparr>ea_t_umac_done := Some now\<rparr>, st)
         else Some (ack, st))"

text \<open>Whether the retry timer has run out with no copy of the attempt still to finish.\<close>

definition retry_due :: "'b bitbuf_ops \<Rightarrow> tdma_time \<Rightarrow> bl_config \<Rightarrow> tx_store \<Rightarrow> 'b expected_in_ack \<Rightarrow> bool" where
  "retry_due ops now config st ack =
     (case ea_t_umac_done ack of
        None \<Rightarrow> False
      | Some done_at \<Rightarrow>
          basic_link_retry_timer ack \<le> i32_as_u32 (diff now done_at)
          \<and> (let pending_window = pending_route_completion_window ops config st ack;
                attempt_age = (case ea_t_submitted ack of Some submitted \<Rightarrow> diff now submitted | None \<Rightarrow> 2 ^ 31 - 1)
             in \<not> (0 < pending_window \<and> 0 \<le> attempt_age \<and> i32_as_u32 attempt_age < pending_window)))"

text \<open>One message: repeated, flagged as exhausted, or left alone.\<close>

definition retransmit_one :: "'b bitbuf_ops \<Rightarrow> tdma_time \<Rightarrow> 'b expected_in_ack \<Rightarrow> bl_config \<Rightarrow> tx_store
    \<Rightarrow> ('b expected_in_ack \<times> bl_config \<times> tx_store \<times> 'b tma_unitdata_req list \<times> u32 list) option" where
  "retransmit_one ops now ack config st = do {
     (ack, st) \<leftarrow> observe_copies now ack st;
     if \<not> retry_due ops now config st ack then Some (ack, config, st, [], [])
     else if ea_retransmit_count ack < max_over_air_retransmits ack then do {
       (ack, config, st, messages) \<leftarrow> submit_for_acknowledged_transmission (forward_to_timeslot now (time_t (ea_t_first ack)))
         (ack\<lparr>ea_retransmit_count := ea_retransmit_count ack + 1\<rparr>) config st;
       Some (ack, config, st, messages, []) }
     else if final_ack_grace_elapsed (diff now (the (ea_t_umac_done ack))) (basic_link_retry_timer ack) (has_assigned_channel_context ack)
       then Some (ack, config, st, [], [ea_ssi ack])
     else Some (ack, config, st, [], []) }"

fun retransmit_all :: "'b bitbuf_ops \<Rightarrow> tdma_time \<Rightarrow> 'b expected_in_ack list \<Rightarrow> bl_config \<Rightarrow> tx_store
    \<Rightarrow> ('b expected_in_ack list \<times> bl_config \<times> tx_store \<times> 'b tma_unitdata_req list \<times> u32 list) option" where
  "retransmit_all ops now [] config st = Some ([], config, st, [], [])"
| "retransmit_all ops now (ack # acks) config st = do {
     (ack, config, st, messages, removals) \<leftarrow> retransmit_one ops now ack config st;
     (acks, config, st, more, others) \<leftarrow> retransmit_all ops now acks config st;
     Some (ack # acks, config, st, messages @ more, removals @ others) }"

fun remove_expired :: "u32 list \<Rightarrow> 'b expected_in_ack list \<Rightarrow> tx_store \<Rightarrow> ('b expected_in_ack list \<times> tx_store) option" where
  "remove_expired [] acks st = Some (acks, st)"
| "remove_expired (issi # removals) acks st = do {
     (ack, acks) \<leftarrow> take_expected_ack_for_ssi issi acks;
     st \<leftarrow> mark_reporter_lost (ea_tx_reporter ack) st;
     remove_expired removals acks st }"

definition submit_retransmissions_to_umac :: "'b bitbuf_ops \<Rightarrow> tdma_time \<Rightarrow> 'b bl_entity \<Rightarrow> bl_config \<Rightarrow> tx_store
    \<Rightarrow> ('b bl_entity \<times> bl_config \<times> tx_store \<times> 'b tma_unitdata_req list) option" where
  "submit_retransmissions_to_umac ops now e config st = do {
     (acks, config, st, messages, removals) \<leftarrow> retransmit_all ops now (be_outbound e) config st;
     (acks, st) \<leftarrow> remove_expired removals acks st;
     Some (e\<lparr>be_outbound := acks\<rparr>, config, st, messages) }"

fun submit_free :: "tdma_time \<Rightarrow> u32 list \<Rightarrow> 'b expected_in_ack list \<Rightarrow> bl_config \<Rightarrow> tx_store
    \<Rightarrow> ('b expected_in_ack list \<times> bl_config \<times> tx_store \<times> 'b tma_unitdata_req list) option" where
  "submit_free now blocked [] config st = Some ([], config, st, [])"
| "submit_free now blocked (ack # acks) config st = do {
     (ack, config, st, messages) \<leftarrow> (if ea_t_submitted ack \<noteq> None \<or> ea_ssi ack \<in> set blocked then Some (ack, config, st, [])
       else submit_for_acknowledged_transmission (forward_to_timeslot now (time_t (ea_t_first ack))) ack config st);
     (acks, config, st, more) \<leftarrow> submit_free now (List.insert (ea_ssi ack) blocked) acks config st;
     Some (ack # acks, config, st, messages @ more) }"

definition submit_free_messages_to_umac :: "tdma_time \<Rightarrow> 'b bl_entity \<Rightarrow> bl_config \<Rightarrow> tx_store
    \<Rightarrow> ('b bl_entity \<times> bl_config \<times> tx_store \<times> 'b tma_unitdata_req list) option" where
  "submit_free_messages_to_umac now e config st = do {
     (acks, config, st, messages) \<leftarrow> submit_free now [] (be_outbound e) config st;
     Some (e\<lparr>be_outbound := acks\<rparr>, config, st, messages) }"

text \<open>An acknowledgement of its own steals from a traffic channel, unless the timeslot carries packets or common control.\<close>

definition ack_reply :: "'b bitbuf_ops \<Rightarrow> bl_config \<Rightarrow> scheduled_out_ack \<Rightarrow> 'b tma_unitdata_req option" where
  "ack_reply ops config ack = do {
     let route = packet_route config (ssi (so_addr ack)) (so_ts ack);
     let steal = (on_traffic (so_ts ack) \<and> route = None \<and> \<not> is_common (bc_common_control config) (so_ts ack));
     pdu \<leftarrow> bl_ack_to_bitbuf ops \<lparr>ba_has_fcs = False, ba_nr = so_nr ack\<rparr> (bb_new_autoexpand ops 5);
     pdu \<leftarrow> bb_seek ops pdu 0;
     chan_alloc \<leftarrow> (if steal then do {
         timeslots \<leftarrow> aset (replicate 4 False) (so_ts ack - 1) True;
         Some (Some \<lparr>ca_usage = None, ca_carrier = None, ca_timeslots = timeslots, ca_alloc_type = AllocReplace,
           ca_cell_change_flag = False, ca_ul_dl_assigned = AssignBoth\<rparr>) }
       else Some None);
     Some \<lparr>tr_req_handle = 0, tr_pdu = pdu, tr_main_address = so_addr ack, tr_endpoint_id = so_ts ack,
       tr_stealing_permission = steal, tr_subscriber_class = 0, tr_aie = Some (with_scope (so_aie ack) ScopeMacResource),
       tr_stealing_repeats_flag = None, tr_data_category = None, tr_chan_alloc = chan_alloc, tr_associated_channel = route,
       tr_frame18_broadcast = False, tr_frame18_rollover = None, tr_tx_reporter = None\<rparr> }"

fun ack_replies :: "'b bitbuf_ops \<Rightarrow> bl_config \<Rightarrow> scheduled_out_ack list \<Rightarrow> 'b tma_unitdata_req list option" where
  "ack_replies ops config [] = Some []"
| "ack_replies ops config (ack # acks) = do {
     reply \<leftarrow> ack_reply ops config ack; replies \<leftarrow> ack_replies ops config acks; Some (reply # replies) }"

definition submit_ack_replies_to_umac :: "'b bitbuf_ops \<Rightarrow> 'b bl_entity \<Rightarrow> bl_config \<Rightarrow> ('b bl_entity \<times> 'b tma_unitdata_req list) option" where
  "submit_ack_replies_to_umac ops e config = do {
     replies \<leftarrow> ack_replies ops config (be_acks e);
     Some (e\<lparr>be_acks := []\<rparr>, replies) }"

definition submit_udata_msgs_to_umac :: "'b bl_entity \<Rightarrow> 'b bl_entity \<times> 'b tma_unitdata_req list" where
  "submit_udata_msgs_to_umac e = (e\<lparr>be_udata := []\<rparr>, be_udata e)"

text \<open>The four steps of \<open>tick_end\<close> that belong to the basic link, with the messages of each.\<close>

record 'b tick_messages =
  tm_repeated :: "'b tma_unitdata_req list"
  tm_first :: "'b tma_unitdata_req list"
  tm_acks :: "'b tma_unitdata_req list"
  tm_udata :: "'b tma_unitdata_req list"

definition bl_tick_end :: "'b bitbuf_ops \<Rightarrow> tdma_time \<Rightarrow> 'b bl_entity \<Rightarrow> bl_config \<Rightarrow> tx_store
    \<Rightarrow> ('b bl_entity \<times> bl_config \<times> tx_store \<times> 'b tick_messages) option" where
  "bl_tick_end ops now e config st = do {
     (e, config, st, repeated) \<leftarrow> submit_retransmissions_to_umac ops now e config st;
     (e, config, st, first) \<leftarrow> submit_free_messages_to_umac now e config st;
     (e, acks) \<leftarrow> submit_ack_replies_to_umac ops e config;
     let (e, udata) = submit_udata_msgs_to_umac e;
     Some (e, config, st, \<lparr>tm_repeated = repeated, tm_first = first, tm_acks = acks, tm_udata = udata\<rparr>) }"

end
