(* ===== verification/Llc_Stop_And_Wait.thy ===== *)
theory Llc_Stop_And_Wait
  imports Llc_Basic "HOL-Library.Multiset"
begin

text \<open>
  What the basic link promises. The queue of a terminal has one outstanding message at most, its oldest, and its
  messages bear alternating numbers; the receipts it marks are in the states that the marks expect. Both hold after every
  run, whatever the configuration says and whatever the MAC and the terminals do, so no operation panics.
\<close>

section \<open>Entries of the queue\<close>

abbreviation own :: "'b expected_in_ack \<Rightarrow> nat" where
  "own a \<equiv> cell (ea_tx_reporter a)"

abbreviation attempt_cells :: "'b expected_in_ack \<Rightarrow> nat set" where
  "attempt_cells a \<equiv> cell ` set (ea_attempt_reporters a)"

abbreviation submitted :: "'b expected_in_ack \<Rightarrow> bool" where
  "submitted a \<equiv> ea_t_submitted a \<noteq> None"

text \<open>Cells outside \<open>A\<close> keep their state.\<close>

definition touches :: "nat set \<Rightarrow> tx_store \<Rightarrow> tx_store \<Rightarrow> bool" where
  "touches A st st' \<longleftrightarrow> length st \<le> length st' \<and> (\<forall>c<length st. c \<notin> A \<longrightarrow> st' ! c = st ! c)"

definition entry_good :: "tx_store \<Rightarrow> 'b expected_in_ack \<Rightarrow> bool" where
  "entry_good st a \<longleftrightarrow> expects_ack (ea_tx_reporter a) \<and> own a < length st \<and> (st ! own a = 0 \<or> st ! own a = 2)
     \<and> (\<forall>c \<in> attempt_cells a. c < length st \<and> c \<noteq> own a)
     \<and> (\<not> submitted a \<longrightarrow> ea_attempt_reporters a = [] \<and> ea_t_umac_done a = None) \<and> ea_retransmit_count a \<le> 5"

text \<open>What never changes of a message.\<close>

definition identity :: "'b expected_in_ack \<Rightarrow> tetra_address \<times> nat \<times> tx_reporter \<times> 'b tma_unitdata_req" where
  "identity a = (ea_addr a, ea_ns a, ea_tx_reporter a, ea_buf a)"

definition evolves :: "tx_store \<Rightarrow> 'b expected_in_ack \<Rightarrow> tx_store \<Rightarrow> 'b expected_in_ack \<Rightarrow> bool" where
  "evolves st a st' a' \<longleftrightarrow> identity a' = identity a \<and> entry_good st' a' \<and> touches (insert (own a) (attempt_cells a)) st st'
     \<and> attempt_cells a' \<subseteq> attempt_cells a \<union> {length st..<length st'} \<and> (submitted a \<longrightarrow> submitted a')"

text \<open>A message to the MAC that carries the PDU of the entry.\<close>

definition copies :: "'b tma_unitdata_req \<Rightarrow> 'b tma_unitdata_req \<Rightarrow> bool" where
  "copies buf m \<longleftrightarrow> tr_tx_reporter m \<noteq> None \<and> m\<lparr>tr_associated_channel := tr_associated_channel buf,
     tr_endpoint_id := tr_endpoint_id buf, tr_tx_reporter := tr_tx_reporter buf\<rparr> = buf"

abbreviation copy_of :: "'b expected_in_ack \<Rightarrow> 'b tma_unitdata_req \<Rightarrow> bool" where
  "copy_of a \<equiv> copies (ea_buf a)"

lemma identity_fields: "identity a' = identity a \<Longrightarrow> ea_addr a' = ea_addr a \<and> ea_ns a' = ea_ns a \<and> own a' = own a
    \<and> ea_tx_reporter a' = ea_tx_reporter a \<and> ea_buf a' = ea_buf a \<and> ea_ssi a' = ea_ssi a"
  by (simp add: identity_def ea_ssi_def)

lemma touches_refl [simp]: "touches A st st"
  by (simp add: touches_def)

lemma touches_trans:
  assumes 1: "touches A st st1" and 2: "touches B st1 st2" and B: "B \<subseteq> A \<union> {length st..}"
  shows "touches A st st2"
  unfolding touches_def
proof (intro conjI allI impI)
  fix c assume c: "c < length st" "c \<notin> A"
  then have "c \<notin> B" using B by auto
  with c 1 2 show "st2 ! c = st ! c" by (simp add: touches_def)
qed (use 1 2 in \<open>simp add: touches_def\<close>)

lemma touches_mono: "\<lbrakk>touches A st st'; A \<subseteq> B\<rbrakk> \<Longrightarrow> touches B st st'"
  by (auto simp: touches_def)

lemma entry_frame: "\<lbrakk>entry_good st a; touches A st st'; own a \<notin> A\<rbrakk> \<Longrightarrow> entry_good st' a"
  unfolding entry_good_def touches_def by (auto dest: order_less_le_trans)

lemma evolves_refl: "entry_good st a \<Longrightarrow> evolves st a st a"
  by (simp add: evolves_def)

lemma evolves_trans:
  assumes 1: "evolves st a st1 a1" and 2: "evolves st1 a1 st2 a2"
  shows "evolves st a st2 a2"
proof -
  have l: "length st \<le> length st1" "length st1 \<le> length st2" using 1 2 by (auto simp: evolves_def touches_def)
  have o: "own a1 = own a" using 1 identity_fields by (auto simp: evolves_def)
  have sub: "insert (own a1) (attempt_cells a1) \<subseteq> insert (own a) (attempt_cells a) \<union> {length st..}" using 1 o by (auto simp: evolves_def)
  have "touches (insert (own a) (attempt_cells a)) st st2"
    using 1 2 by (auto simp: evolves_def intro: touches_trans [OF _ _ sub])
  moreover have "attempt_cells a2 \<subseteq> attempt_cells a \<union> {length st..<length st2}"
  proof
    fix c assume "c \<in> attempt_cells a2"
    then have "c \<in> attempt_cells a1 \<or> c \<in> {length st1..<length st2}" using 2 by (auto simp: evolves_def)
    then show "c \<in> attempt_cells a \<union> {length st..<length st2}" using 1 l by (auto simp: evolves_def)
  qed
  ultimately show ?thesis using 1 2 by (simp add: evolves_def)
qed

section \<open>One attempt\<close>

lemma cancel_ok: "\<forall>r \<in> set rs. cell r < length st \<Longrightarrow> \<exists>st'. cancel_copies rs st = Some st' \<and> length st' = length st
    \<and> (\<forall>c. c \<notin> cell ` set rs \<longrightarrow> st' ! c = st ! c)"
proof (induction rs arbitrary: st)
  case (Cons r rs)
  define st1 where "st1 = (if get_state st r = Pending then st[cell r := tx_raw Discarded] else st)"
  have p: "get_state st r = Pending \<Longrightarrow> st ! cell r = 0" by (auto simp: get_state_def from_raw_def split: if_splits)
  then have c: "cancel_copies (r # rs) st = cancel_copies rs st1" by (simp add: st1_def mark_discarded_def mark_def)
  have l: "length st1 = length st" "\<And>c. c \<noteq> cell r \<Longrightarrow> st1 ! c = st ! c" by (simp_all add: st1_def)
  from Cons.IH [of st1] Cons.prems l obtain st' where "cancel_copies rs st1 = Some st'" "length st' = length st1"
    "\<forall>c. c \<notin> cell ` set rs \<longrightarrow> st' ! c = st1 ! c" by auto
  with c l show ?case by auto
qed simp

text \<open>Fields that no fact here depends on.\<close>

lemma evolves_update [simp]:
  "evolves st a st' (b\<lparr>ea_ts := t\<rparr>) = evolves st a st' b" "evolves st a st' (b\<lparr>ea_attempt_assigned := x\<rparr>) = evolves st a st' b"
  by (simp_all add: evolves_def entry_good_def identity_def)

lemma evolves_copy: "evolves st a st' a' \<Longrightarrow> copy_of a' = copy_of a"
  by (simp add: evolves_def identity_def)

lemma begin_ok:
  assumes "entry_good st a"
  shows "\<exists>a' st'. begin_attempt now a st = Some (a', st') \<and> evolves st a st' a' \<and> submitted a' \<and> ea_attempt_reporters a' = []"
proof -
  have "\<forall>r \<in> set (ea_attempt_reporters a). cell r < length st" using assms by (auto simp: entry_good_def)
  from cancel_ok [OF this] obtain st' where st': "cancel_copies (ea_attempt_reporters a) st = Some st'" "length st' = length st"
    "\<forall>c. c \<notin> attempt_cells a \<longrightarrow> st' ! c = st ! c" by blast
  moreover have "own a \<notin> attempt_cells a" using assms by (auto simp: entry_good_def)
  ultimately show ?thesis using assms
    by (simp add: begin_attempt_def cancel_pending_attempt_copies_def evolves_def entry_good_def identity_def touches_def)
qed

lemma queue_copy_ok:
  assumes "entry_good st a" and "submitted a" and "queue_copy route timeslot a st = (a', st', m)"
  shows "evolves st a st' a' \<and> submitted a' \<and> copy_of a m \<and> ea_attempt_reporters a' \<noteq> []"
proof -
  have q: "a' = a\<lparr>ea_attempt_reporters := ea_attempt_reporters a @ [fst (new_reporter st)],
      ea_attempt_timeslots := ea_attempt_timeslots a @ [timeslot]\<rparr>" "st' = st @ [0]"
    "m = (ea_buf a)\<lparr>tr_associated_channel := route, tr_tx_reporter := Some (fst (new_reporter st))\<rparr>"
    using assms(3) by (auto simp: queue_copy_def new_reporter_def)
  have "copy_of a m"
    unfolding copies_def q(3) by (cases "ea_buf a") simp
  moreover have "evolves st a st' a'"
    using assms(1,2) by (auto simp: q(1,2) evolves_def entry_good_def identity_def touches_def new_reporter_def nth_append)
  ultimately show ?thesis using assms(2) by (simp add: q(1))
qed

lemma queue_copies_ok:
  "\<lbrakk>entry_good st a; submitted a; queue_copies routes a st = (a', st', ms)\<rbrakk>
   \<Longrightarrow> evolves st a st' a' \<and> submitted a' \<and> (\<forall>m \<in> set ms. copy_of a m) \<and> length ms = length routes"
proof (induction routes arbitrary: a st ms)
  case Nil
  then show ?case by (auto intro: evolves_refl)
next
  case (Cons route routes)
  obtain b st1 m where b: "queue_copy (Some route) (ac_timeslot route) a st = (b, st1, m)" by (metis prod_cases3)
  obtain c st2 more where c: "queue_copies routes (b\<lparr>ea_ts := ac_timeslot route\<rparr>) st1 = (c, st2, more)" by (metis prod_cases3)
  have r: "a' = c" "st' = st2" "ms = m # more" using Cons.prems(3) b c by auto
  note q = queue_copy_ok [OF Cons.prems(1,2) b]
  then have e: "evolves st a st1 (b\<lparr>ea_ts := ac_timeslot route\<rparr>)" by simp
  then have "entry_good st1 (b\<lparr>ea_ts := ac_timeslot route\<rparr>)" by (simp only: evolves_def)
  from Cons.IH [OF this _ c [folded r(1,2)]] q have i: "evolves st1 (b\<lparr>ea_ts := ac_timeslot route\<rparr>) st' a'" "submitted a'"
    "\<forall>m \<in> set more. copy_of (b\<lparr>ea_ts := ac_timeslot route\<rparr>) m" "length more = length routes" by auto
  with evolves_trans [OF e i(1)] q evolves_copy [OF e] show ?case by (auto simp: r)
qed

text \<open>The parts of a submission, each a sequence of copies after the same beginning.\<close>

definition sends :: "'b expected_in_ack \<Rightarrow> tx_store \<Rightarrow> ('b expected_in_ack \<times> tx_store \<times> 'b tma_unitdata_req list) option \<Rightarrow> bool" where
  "sends a st r \<longleftrightarrow> (\<exists>a' st' ms. r = Some (a', st', ms) \<and> evolves st a st' a' \<and> submitted a' \<and> (\<forall>m \<in> set ms. copy_of a m) \<and> ms \<noteq> [])"

lemma submit_ordered_ok:
  assumes "entry_good st a" and "cs \<noteq> []"
  shows "sends a st (submit_ordered now cs a st)"
proof -
  from begin_ok [OF assms(1)] obtain b st1 where b: "begin_attempt now a st = Some (b, st1)" "evolves st a st1 b" "submitted b" by blast
  have gb: "entry_good st1 b" using b(2) by (simp add: evolves_def)
  obtain ts route where k: "cs ! (ea_retransmit_count a mod length cs) = (ts, route)" by fastforce
  have len: "ea_retransmit_count a mod length cs < length cs" using assms(2) by simp
  obtain d st2 m where d: "queue_copy route ts b st1 = (d, st2, m)" by (metis prod_cases3)
  note q = queue_copy_ok [OF gb b(3) d]
  have m: "copy_of a (m\<lparr>tr_endpoint_id := (if route = None then ts else 0)\<rparr>)"
    using q evolves_copy [OF b(2)] by (cases m) (simp add: copies_def)
  have e: "evolves st a st2 d" using q evolves_trans [OF b(2)] by blast
  show ?thesis using b(1) d k len m e q by (simp add: sends_def submit_ordered_def aget_def)
qed

lemma submit_everywhere_ok:
  assumes "entry_good st a" and rs: "pa \<Longrightarrow> rs \<noteq> []"
  shows "sends a st (submit_everywhere now pa rs a st)"
proof -
  from begin_ok [OF assms(1)] obtain b st1 where b: "begin_attempt now a st = Some (b, st1)" "evolves st a st1 b" "submitted b" by blast
  have cb: "copy_of b = copy_of a" by (rule evolves_copy [OF b(2)])
  let ?b = "b\<lparr>ea_attempt_assigned := (rs \<noteq> [])\<rparr>"
  obtain d st2 ms where d: "queue_copies rs ?b st1 = (d, st2, ms)" by (metis prod_cases3)
  have "entry_good st1 ?b" "submitted ?b" using b(2,3) by (simp_all add: evolves_def entry_good_def)
  note q = queue_copies_ok [OF this d]
  have e: "evolves st a st2 d" using evolves_trans [of st a st1 ?b] b(2) q by auto
  then have gd: "entry_good st2 d" by (simp add: evolves_def)
  obtain f st3 m where f: "queue_copy None 1 d st2 = (f, st3, m)" by (metis prod_cases3)
  note qf = queue_copy_ok [OF gd _ f]
  have e3: "evolves st a st3 f" using evolves_trans [OF e] qf q by blast
  have cd: "copy_of d = copy_of a" by (rule evolves_copy [OF e])
  show ?thesis
  proof (cases pa)
    case True
    then have "ms \<noteq> []" using q rs by auto
    with True show ?thesis using b(1) d e q cb by (simp add: sends_def submit_everywhere_def)
  next
    case False
    then show ?thesis using b(1) d e3 f q qf cb cd by (simp add: sends_def submit_everywhere_def)
  qed
qed

lemma add_slots_nonempty: "cs \<noteq> [] \<Longrightarrow> add_slots slots cs \<noteq> []"
  by (induction slots arbitrary: cs) simp_all

lemma delivery_candidates_nonempty: "(pa \<Longrightarrow> rs \<noteq> []) \<Longrightarrow> delivery_candidates config pa rs a \<noteq> []"
  using add_slots_nonempty by (auto simp: delivery_candidates_def Let_def split: option.split)

lemma submit_ok:
  assumes "entry_good st a"
  shows "\<exists>a' config' st' ms. submit_for_acknowledged_transmission now a config st = Some (a', config', st', ms)
    \<and> evolves st a st' a' \<and> submitted a' \<and> (\<forall>m \<in> set ms. copy_of a m) \<and> ms \<noteq> []"
proof -
  define pa where "pa \<longleftrightarrow> ea_packet_data a \<and> preferred_route a \<noteq> None"
  obtain rs0 config' where c: "(if ea_force_common_channel a \<or> ea_packet_data a then ([], config)
       else delivery_routes (ea_ssi a) now config) = (rs0, config')" by fastforce
  define rs where "rs = (case preferred_route a of None \<Rightarrow> rs0 | Some route \<Rightarrow> prefer_route route rs0)"
  have rs: "pa \<Longrightarrow> rs \<noteq> []" by (auto simp: pa_def rs_def prefer_route_def)
  have eq: "submit_for_acknowledged_transmission now a config st =
      (if 0 < physical_count (bc_common_control config') then submit_ordered now (delivery_candidates config' pa rs a) a st
       else submit_everywhere now pa rs a st) \<bind> (\<lambda>(ack, st, ms). Some (ack, config', st, ms))"
    by (simp only: submit_for_acknowledged_transmission_def Let_def c split_conv pa_def rs_def)
  have "sends a st (submit_ordered now (delivery_candidates config' pa rs a) a st)"
    by (rule submit_ordered_ok [OF assms delivery_candidates_nonempty]) (rule rs)
  moreover have "sends a st (submit_everywhere now pa rs a st)" by (rule submit_everywhere_ok [OF assms rs])
  ultimately have "sends a st (if 0 < physical_count (bc_common_control config')
      then submit_ordered now (delivery_candidates config' pa rs a) a st else submit_everywhere now pa rs a st)" by simp
  then show ?thesis unfolding eq sends_def by auto
qed

lemma note_transmitted_ok:
  assumes "cell r < length st" and "st ! cell r = 0 \<or> st ! cell r = 2"
  shows "note_transmitted r st = Some (st[cell r := 2])"
proof -
  have "st ! cell r = 2 \<Longrightarrow> st[cell r := 2] = st" using list_update_id [of st "cell r"] by simp
  with assms show ?thesis
    by (auto simp: note_transmitted_def is_transmitted_def mark_transmitted_def mark_def reset_def mark_unchecked_def)
qed

lemma observe_ok:
  assumes g: "entry_good st a"
  shows "\<exists>a' st'. observe_copies now a st = Some (a', st') \<and> evolves st a st' a' \<and> (submitted a' \<longleftrightarrow> submitted a)
    \<and> ea_retransmit_count a' = ea_retransmit_count a"
proof -
  have n: "note_transmitted (ea_tx_reporter a) st = Some (st[own a := 2])"
    using note_transmitted_ok [of "ea_tx_reporter a" st] g by (simp add: entry_good_def)
  have s: "submitted a" if "ea_attempt_reporters a \<noteq> []" using g that by (auto simp: entry_good_def)
  consider "ea_observed_copies a < length (filter (is_transmitted st) (ea_attempt_reporters a))"
    | "\<not> ea_observed_copies a < length (filter (is_transmitted st) (ea_attempt_reporters a))" by blast
  then show ?thesis
  proof cases
    case 1
    then have "ea_attempt_reporters a \<noteq> []" by auto
    with 1 n g s show ?thesis
      by (auto simp: observe_copies_def Let_def evolves_def entry_good_def identity_def touches_def)
  next
    case 2
    with g s show ?thesis
      by (auto simp: observe_copies_def Let_def evolves_def entry_good_def identity_def touches_def)
  qed
qed

lemma max_retransmits: "max_over_air_retransmits a \<le> 5"
  by (simp add: max_over_air_retransmits_def N252_BL_MAX_TLSDU_RETRANSMITS_ACKED_def ASSIGNED_CHANNEL_ACK_EXTRA_RETRANSMITS_def)

lemma retransmit_one_ok:
  assumes g: "entry_good st a"
  shows "\<exists>a' config' st' ms removals. retransmit_one ops now a config st = Some (a', config', st', ms, removals)
    \<and> evolves st a st' a' \<and> (submitted a' \<longleftrightarrow> submitted a) \<and> (\<forall>m \<in> set ms. copy_of a m) \<and> (ms \<noteq> [] \<longrightarrow> submitted a)
    \<and> (removals = [] \<or> removals = [ea_ssi a] \<and> submitted a)"
proof -
  from observe_ok [OF g] obtain b st1 where b: "observe_copies now a st = Some (b, st1)" "evolves st a st1 b"
    "submitted b \<longleftrightarrow> submitted a" "ea_retransmit_count b = ea_retransmit_count a" by blast
  have gb: "entry_good st1 b" and i: "identity b = identity a" using b(2) by (simp_all add: evolves_def)
  have ssi: "ea_ssi b = ea_ssi a" using identity_fields [OF i] by simp
  show ?thesis
  proof (cases "retry_due ops now config st1 b")
    case False
    with b show ?thesis by (simp add: retransmit_one_def)
  next
    case True
    then have "ea_t_umac_done b \<noteq> None" by (auto simp: retry_due_def split: option.split_asm)
    then have sb: "submitted b" using gb by (auto simp: entry_good_def)
    show ?thesis
    proof (cases "ea_retransmit_count b < max_over_air_retransmits b")
      case more: True
      let ?c = "b\<lparr>ea_retransmit_count := ea_retransmit_count b + 1\<rparr>"
      have gc: "entry_good st1 ?c" using gb more max_retransmits [of b] by (simp add: entry_good_def)
      have e: "evolves st a st1 ?c" using b(2) gc by (simp add: evolves_def identity_def)
      from submit_ok [OF gc] obtain d config' st2 ms where
        d: "submit_for_acknowledged_transmission (forward_to_timeslot now (time_t (ea_t_first b))) ?c config st1 = Some (d, config', st2, ms)"
          "evolves st1 ?c st2 d" "submitted d" "\<forall>m \<in> set ms. copy_of ?c m" by blast
      have "copy_of ?c = copy_of a" by (rule evolves_copy [OF e])
      with b(1,3) d sb True more evolves_trans [OF e d(2)] show ?thesis by (simp add: retransmit_one_def)
    next
      case False
      with b sb True ssi show ?thesis by (simp add: retransmit_one_def)
    qed
  qed
qed

section \<open>The whole queue\<close>

text \<open>The receipt of a message is no other message's, and no copy's.\<close>

definition apart :: "'b expected_in_ack \<Rightarrow> 'b expected_in_ack \<Rightarrow> bool" where
  "apart a b \<longleftrightarrow> own a \<noteq> own b \<and> own a \<notin> attempt_cells b \<and> own b \<notin> attempt_cells a"

definition entries_good :: "tx_store \<Rightarrow> 'b expected_in_ack list \<Rightarrow> bool" where
  "entries_good st acks \<longleftrightarrow> (\<forall>a \<in> set acks. entry_good st a) \<and> sorted_wrt apart acks"

definition cells :: "'b expected_in_ack list \<Rightarrow> nat set" where
  "cells acks = (\<Union>a \<in> set acks. insert (own a) (attempt_cells a))"

text \<open>Entry by entry, the queue after a step: the same messages, with no attempt receipts but old and fresh ones.\<close>

definition follows :: "tx_store \<Rightarrow> tx_store \<Rightarrow> 'b expected_in_ack \<Rightarrow> 'b expected_in_ack \<Rightarrow> bool" where
  "follows st st' a a' \<longleftrightarrow> identity a' = identity a \<and> attempt_cells a' \<subseteq> attempt_cells a \<union> {length st..<length st'}"

lemma entries_frame: "\<lbrakk>entries_good st acks; touches A st st'; \<forall>a \<in> set acks. own a \<notin> A\<rbrakk> \<Longrightarrow> entries_good st' acks"
  by (auto simp: entries_good_def intro: entry_frame)

lemma entries_Cons: "entries_good st (a # acks) \<longleftrightarrow> entry_good st a \<and> (\<forall>b \<in> set acks. apart a b) \<and> entries_good st acks"
  by (auto simp: entries_good_def)

lemma apart_evolves:
  assumes "apart a b" and "follows st st' a a'" and "follows st1 st2 b b'" and "own a < length st" "own b < length st" "length st \<le> length st1"
  shows "apart a' b'"
proof -
  have o: "own a' = own a" "own b' = own b" using assms(2,3) identity_fields by (auto simp: follows_def)
  have "own a \<notin> attempt_cells b'"
  proof
    assume "own a \<in> attempt_cells b'"
    then have "own a \<in> attempt_cells b \<or> own a \<in> {length st1..<length st2}" using assms(3) by (auto simp: follows_def)
    with assms(1,4,6) show False by (auto simp: apart_def)
  qed
  moreover have "own b \<notin> attempt_cells a'"
  proof
    assume "own b \<in> attempt_cells a'"
    then have "own b \<in> attempt_cells a \<or> own b \<in> {length st..<length st'}" using assms(2) by (auto simp: follows_def)
    with assms(1,5) show False by (auto simp: apart_def)
  qed
  ultimately show ?thesis using assms(1) by (simp only: apart_def o) blast
qed

lemma follows_widen: "\<lbrakk>follows st1 st2 a a'; length st \<le> length st1\<rbrakk> \<Longrightarrow> follows st st2 a a'"
  by (fastforce simp: follows_def)

text \<open>A step on the first message leaves the others good.\<close>

lemma entries_step:
  assumes "entries_good st (a # acks)" and "evolves st a st' a'"
  shows "entries_good st' acks" "follows st st' a a'" "length st \<le> length st'"
proof -
  show "entries_good st' acks"
    by (rule entries_frame [of st acks "insert (own a) (attempt_cells a)"])
       (use assms in \<open>auto simp: entries_Cons evolves_def apart_def\<close>)
qed (use assms in \<open>auto simp: follows_def evolves_def touches_def\<close>)

text \<open>A step on the others leaves the first good.\<close>

lemma entries_join:
  assumes g: "entries_good st (a # acks)" and e: "evolves st a st1 a'"
    and r: "entries_good st2 acks'" "list_all2 (follows st1 st2) acks acks'" "touches (cells acks) st1 st2"
  shows "entries_good st2 (a' # acks')" "list_all2 (follows st st2) (a # acks) (a' # acks')" "touches (cells (a # acks)) st st2"
proof -
  note s = entries_step [OF g e]
  have l: "length st1 \<le> length st2" using r(3) by (simp add: touches_def)
  have own: "own a < length st" "own a' = own a" using g e identity_fields by (auto simp: entries_Cons entry_good_def evolves_def)
  have notin: "own a \<notin> cells acks" using g by (auto simp: entries_Cons cells_def apart_def)
  have "entry_good st2 a'"
    using entry_frame [OF _ r(3), of a'] e own(2) notin by (simp add: evolves_def)
  moreover have "apart a' b'" if "b' \<in> set acks'" for b'
  proof -
    from that obtain i where i: "i < length acks'" "b' = acks' ! i" by (auto simp: in_set_conv_nth)
    define b where "b = acks ! i"
    have b: "b \<in> set acks" "follows st1 st2 b b'" using r(2) i by (auto simp: list_all2_conv_all_nth b_def)
    with g have "apart a b" "own b < length st" by (auto simp: entries_Cons entries_good_def entry_good_def)
    from apart_evolves [OF this(1) s(2) b(2) own(1) this(2) s(3)] show ?thesis .
  qed
  ultimately show "entries_good st2 (a' # acks')" using r(1) by (simp add: entries_Cons)
  have "follows st st2 a a'" using s(2) l by (auto simp: follows_def)
  moreover have "list_all2 (follows st st2) acks acks'"
    using r(2) by (rule list_all2_mono) (rule follows_widen [OF _ s(3)])
  ultimately show "list_all2 (follows st st2) (a # acks) (a' # acks')" by simp
  have "touches (cells (a # acks)) st st1" by (rule touches_mono [of "insert (own a) (attempt_cells a)"]) (use e in \<open>auto simp: evolves_def cells_def\<close>)
  from touches_trans [OF this r(3)] show "touches (cells (a # acks)) st st2" by (auto simp: cells_def)
qed

lemma subset_add_mset: "X \<subseteq># Y \<Longrightarrow> X \<subseteq># add_mset z Y"
  by (metis add_mset_add_single mset_subset_eq_add_left subset_mset.order_trans)

lemma retransmit_all_ok:
  "entries_good st acks \<Longrightarrow> \<exists>acks' config' st' ms removals.
     retransmit_all ops now acks config st = Some (acks', config', st', ms, removals)
     \<and> entries_good st' acks' \<and> list_all2 (follows st st') acks acks' \<and> touches (cells acks) st st'
     \<and> list_all2 (\<lambda>a a'. submitted a' \<longleftrightarrow> submitted a) acks acks'
     \<and> (\<forall>m \<in> set ms. \<exists>a \<in> set acks. submitted a \<and> copy_of a m)
     \<and> mset removals \<subseteq># mset (map ea_ssi (filter submitted acks'))"
proof (induction acks arbitrary: config st)
  case Nil
  then show ?case by simp
next
  case (Cons a acks)
  from Cons.prems have g: "entry_good st a" by (simp add: entries_Cons)
  from retransmit_one_ok [OF g, of ops now config] obtain a' config1 st1 ms removals where
    a: "retransmit_one ops now a config st = Some (a', config1, st1, ms, removals)" "evolves st a st1 a'"
      "submitted a' \<longleftrightarrow> submitted a" "\<forall>m \<in> set ms. copy_of a m" "ms \<noteq> [] \<longrightarrow> submitted a"
      "removals = [] \<or> removals = [ea_ssi a] \<and> submitted a" by blast
  from Cons.IH [OF entries_step(1) [OF Cons.prems a(2)], of config1] obtain acks' config2 st2 more others where
    r: "retransmit_all ops now acks config1 st1 = Some (acks', config2, st2, more, others)" "entries_good st2 acks'"
      "list_all2 (follows st1 st2) acks acks'" "touches (cells acks) st1 st2"
      "list_all2 (\<lambda>a a'. submitted a' \<longleftrightarrow> submitted a) acks acks'"
      "\<forall>m \<in> set more. \<exists>a \<in> set acks. submitted a \<and> copy_of a m"
      "mset others \<subseteq># mset (map ea_ssi (filter submitted acks'))" by blast
  have "ea_ssi a' = ea_ssi a" using a(2) identity_fields by (auto simp: evolves_def)
  then have m: "mset (removals @ others) \<subseteq># mset (map ea_ssi (filter submitted (a' # acks')))"
    using a(3,6) r(7) by (auto intro: subset_add_mset)
  have c: "\<forall>m \<in> set (ms @ more). \<exists>b \<in> set (a # acks). submitted b \<and> copy_of b m"
    using a(4,5) r(6) by (auto simp del: not_None_eq)
  have s: "list_all2 (\<lambda>a a'. submitted a' \<longleftrightarrow> submitted a) (a # acks) (a' # acks')" using a(3) r(5) by simp
  have e: "retransmit_all ops now (a # acks) config st = Some (a' # acks', config2, st2, ms @ more, removals @ others)"
    using a(1) r(1) by simp
  note j = entries_join [OF Cons.prems a(2) r(2-4)]
  show ?case by (intro exI conjI, rule e, rule j(1), rule j(2), rule j(3), rule s, rule c, rule m)
qed

section \<open>The queue of a terminal\<close>

abbreviation queue_of :: "u32 \<Rightarrow> 'b expected_in_ack list \<Rightarrow> 'b expected_in_ack list" where
  "queue_of issi \<equiv> filter (\<lambda>a. ea_ssi a = issi)"

text \<open>At most the oldest is outstanding.\<close>

definition one_outstanding :: "'b expected_in_ack list \<Rightarrow> bool" where
  "one_outstanding q \<longleftrightarrow> (\<forall>a \<in> set (tl q). \<not> submitted a)"

text \<open>Numbers alternate; the last argument is the next number.\<close>

fun alternating :: "nat list \<Rightarrow> nat \<Rightarrow> bool" where
  "alternating [] v = (v < 2)"
| "alternating (n # ns) v = (n < 2 \<and> (case ns of [] \<Rightarrow> v | m # _ \<Rightarrow> m) = 1 - n \<and> alternating ns v)"

definition next_number :: "(u32 \<times> nat) list \<Rightarrow> u32 \<Rightarrow> nat" where
  "next_number seqs issi = (case map_of seqs issi of Some v \<Rightarrow> v | None \<Rightarrow> 0)"

definition queues_ok :: "(u32 \<times> nat) list \<Rightarrow> 'b expected_in_ack list \<Rightarrow> bool" where
  "queues_ok seqs acks \<longleftrightarrow> (\<forall>issi. one_outstanding (queue_of issi acks)
     \<and> alternating (map ea_ns (queue_of issi acks)) (next_number seqs issi))"

lemma one_outstanding_Cons: "one_outstanding (a # q) \<Longrightarrow> one_outstanding q"
  by (cases q) (simp_all add: one_outstanding_def)

lemma alternating_tl: "alternating (n # ns) v \<Longrightarrow> alternating ns v"
  by simp

lemma alternating_less: "alternating ns v \<Longrightarrow> v < 2"
  by (induction ns) auto

lemma alternating_append: "alternating ns v \<Longrightarrow> alternating (ns @ [v]) (1 - v)"
proof (induction ns)
  case (Cons n ns)
  then show ?case by (cases ns) auto
qed auto

lemma queue_follows:
  assumes "list_all2 (follows st st') acks acks'"
  shows "map ea_ns (queue_of issi acks') = map ea_ns (queue_of issi acks)"
  using assms
proof (induction rule: list_all2_induct)
  case (Cons a acks a' acks')
  from Cons(1) have "ea_ns a' = ea_ns a" "ea_ssi a' = ea_ssi a" using identity_fields by (auto simp: follows_def)
  with Cons show ?case by simp
qed simp

lemma outstanding_same:
  assumes "list_all2 (follows st st') acks acks'" and "list_all2 (\<lambda>a a'. submitted a' \<longleftrightarrow> submitted a) acks acks'"
  shows "map submitted (queue_of issi acks') = map submitted (queue_of issi acks)"
  using assms
proof (induction rule: list_all2_induct)
  case (Cons a acks a' acks')
  from Cons(1) have "ea_ssi a' = ea_ssi a" using identity_fields by (auto simp: follows_def)
  with Cons show ?case by simp
qed simp

lemma one_outstanding_map: "one_outstanding q \<longleftrightarrow> list_all Not (tl (map submitted q))"
  by (simp add: one_outstanding_def list_all_iff flip: map_tl)

lemma queues_ok_same:
  "\<lbrakk>queues_ok seqs acks; list_all2 (follows st st') acks acks'; list_all2 (\<lambda>a a'. submitted a' \<longleftrightarrow> submitted a) acks acks'\<rbrakk>
   \<Longrightarrow> queues_ok seqs acks'"
  by (simp add: queues_ok_def queue_follows outstanding_same one_outstanding_map del: not_None_eq)

section \<open>Messages that leave the queue\<close>

lemma take_found:
  "take_expected_ack_for_ssi issi acks = Some (a, rest) \<Longrightarrow>
     \<exists>xs ys. acks = xs @ a # ys \<and> rest = xs @ ys \<and> ea_ssi a = issi \<and> submitted a
       \<and> (\<forall>x \<in> set xs. \<not> (ea_ssi x = issi \<and> submitted x))"
proof (induction acks arbitrary: rest)
  case (Cons b acks)
  show ?case
  proof (cases "ea_ssi b = issi \<and> submitted b")
    case True
    with Cons.prems have "acks = rest" "b = a" by auto
    with True show ?thesis by (intro exI [of _ "[]"] exI [of _ acks]) simp
  next
    case False
    with Cons.prems obtain r where r: "take_expected_ack_for_ssi issi acks = Some (a, r)" "rest = b # r"
      by (auto split: if_split_asm)
    from Cons.IH [OF r(1)] obtain xs ys where "acks = xs @ a # ys" "r = xs @ ys" "ea_ssi a = issi" "submitted a"
      "\<forall>x \<in> set xs. \<not> (ea_ssi x = issi \<and> submitted x)" by blast
    with False r(2) show ?thesis by (intro exI [of _ "b # xs"] exI [of _ ys]) (auto simp del: not_None_eq)
  qed
qed simp

lemma take_some: "issi \<in> set (map ea_ssi (filter submitted acks)) \<Longrightarrow> take_expected_ack_for_ssi issi acks \<noteq> None"
  by (induction acks) (auto split: if_split_asm)

lemma take_removes:
  "take_expected_ack_for_ssi issi acks = Some (a, rest) \<Longrightarrow>
     mset (map ea_ssi (filter submitted rest)) = mset (map ea_ssi (filter submitted acks)) - {#issi#}"
  by (auto dest!: take_found)

text \<open>What is taken is the oldest of its terminal.\<close>

lemma take_oldest:
  assumes t: "take_expected_ack_for_ssi issi acks = Some (a, rest)" and one: "one_outstanding (queue_of issi acks)"
  shows "queue_of issi acks = a # queue_of issi rest" "j \<noteq> issi \<Longrightarrow> queue_of j acks = queue_of j rest"
proof -
  from take_found [OF t] obtain xs ys where a: "acks = xs @ a # ys" "rest = xs @ ys" "ea_ssi a = issi" "submitted a" by blast
  have "queue_of issi xs = []"
  proof (rule ccontr)
    assume "queue_of issi xs \<noteq> []"
    then obtain x zs where "queue_of issi xs = x # zs" by (cases "queue_of issi xs") auto
    with a one show False by (simp add: one_outstanding_def)
  qed
  with a show "queue_of issi acks = a # queue_of issi rest" by simp
  show "j \<noteq> issi \<Longrightarrow> queue_of j acks = queue_of j rest" using a by simp
qed

lemma entries_mset:
  assumes "entries_good st (xs @ a # ys)"
  shows "entries_good st (a # xs @ ys)" "entries_good st (xs @ ys)" "\<forall>b \<in> set (xs @ ys). own b \<noteq> own a \<and> own b \<notin> attempt_cells a"
  using assms by (auto simp: entries_good_def sorted_wrt_append apart_def)

lemma queues_ok_take:
  assumes q: "queues_ok seqs acks" and t: "take_expected_ack_for_ssi issi acks = Some (a, rest)"
  shows "queues_ok seqs rest" "queues_ok seqs (a # rest)"
proof -
  have one: "one_outstanding (queue_of issi acks)" using q by (simp add: queues_ok_def)
  note old = take_oldest [OF t one]
  have ssi: "ea_ssi a = issi" using take_found [OF t] by blast
  have same: "queue_of j (a # rest) = queue_of j acks" for j using old ssi by (cases "j = issi") auto
  show "queues_ok seqs (a # rest)"
    unfolding queues_ok_def same by (rule q [unfolded queues_ok_def])
  show "queues_ok seqs rest"
    unfolding queues_ok_def
  proof
    fix j
    have qj: "one_outstanding (queue_of j acks)" "alternating (map ea_ns (queue_of j acks)) (next_number seqs j)"
      using q by (simp_all only: queues_ok_def)
    show "one_outstanding (queue_of j rest) \<and> alternating (map ea_ns (queue_of j rest)) (next_number seqs j)"
    proof (cases "j = issi")
      case True
      have "one_outstanding (queue_of issi rest)"
        using one unfolding old(1) by (rule one_outstanding_Cons)
      with qj(2) True old(1) alternating_tl show ?thesis by simp
    qed (use qj old(2) in simp)
  qed
qed

lemma lost_ok:
  assumes "entry_good st a"
  shows "\<exists>v. mark_reporter_lost (ea_tx_reporter a) st = Some (st[own a := v])"
proof -
  have c: "own a < length st" "expects_ack (ea_tx_reporter a)" using assms by (simp_all add: entry_good_def)
  consider "st ! own a = 0" | "st ! own a = 2" using assms by (auto simp: entry_good_def)
  then show ?thesis
    by cases (use c in \<open>auto simp: mark_reporter_lost_def get_state_def from_raw_def mark_transmitted_def mark_lost_def mark_def
      reset_def mark_unchecked_def guard_def\<close>)
qed

lemma remove_expired_ok:
  "\<lbrakk>entries_good st acks; queues_ok seqs acks; mset removals \<subseteq># mset (map ea_ssi (filter submitted acks))\<rbrakk>
   \<Longrightarrow> \<exists>acks' st'. remove_expired removals acks st = Some (acks', st') \<and> entries_good st' acks' \<and> queues_ok seqs acks'
     \<and> set acks' \<subseteq> set acks"
proof (induction removals arbitrary: acks st)
  case (Cons issi removals)
  have "issi \<in># mset (map ea_ssi (filter submitted acks))" using Cons.prems(3) by (rule mset_subset_eqD) simp
  then have "issi \<in> set (map ea_ssi (filter submitted acks))" by (simp only: in_multiset_in_set)
  then obtain a rest where t: "take_expected_ack_for_ssi issi acks = Some (a, rest)" using take_some by fastforce
  from take_found [OF t] obtain xs ys where a: "acks = xs @ a # ys" "rest = xs @ ys" by blast
  have ga: "entry_good st a" using Cons.prems(1) a by (simp add: entries_good_def)
  from lost_ok [OF ga] obtain v where l: "mark_reporter_lost (ea_tx_reporter a) st = Some (st[own a := v])" by blast
  note m = entries_mset [OF Cons.prems(1) [unfolded a(1)]]
  have "entries_good (st[own a := v]) rest"
    unfolding a(2) by (rule entries_frame [OF m(2), of "{own a}"]) (use m(3) in \<open>auto simp: touches_def\<close>)
  moreover have "mset removals \<subseteq># mset (map ea_ssi (filter submitted rest))"
    unfolding take_removes [OF t] using Cons.prems(3) by (simp only: mset.simps insert_subset_eq_iff)
  ultimately obtain acks' st' where "remove_expired removals rest (st[own a := v]) = Some (acks', st')" "entries_good st' acks'"
    "queues_ok seqs acks'" "set acks' \<subseteq> set rest" using Cons.IH queues_ok_take(1) [OF Cons.prems(2) t] by blast
  with t l a show ?case by auto
qed auto


section \<open>First transmissions\<close>

text \<open>Of a queue that is not blocked, the oldest message goes out.\<close>

fun first_out :: "bool list \<Rightarrow> bool list" where
  "first_out [] = []"
| "first_out (b # bs) = True # bs"

lemma tl_first_out [simp]: "tl (first_out bs) = tl bs"
  by (cases bs) simp_all

lemma submit_free_ok:
  "entries_good st acks \<Longrightarrow> \<exists>acks' config' st' ms. submit_free now blocked acks config st = Some (acks', config', st', ms)
     \<and> entries_good st' acks' \<and> list_all2 (follows st st') acks acks' \<and> touches (cells acks) st st'
     \<and> (\<forall>issi. map submitted (queue_of issi acks') = (if issi \<in> set blocked then map submitted (queue_of issi acks)
          else first_out (map submitted (queue_of issi acks))))
     \<and> (\<forall>m \<in> set ms. \<exists>a \<in> set acks. \<not> submitted a \<and> copy_of a m)"
proof (induction acks arbitrary: blocked config st)
  case Nil
  then show ?case by simp
next
  case (Cons a acks)
  from Cons.prems have g: "entry_good st a" by (simp add: entries_Cons)
  define held where "held \<longleftrightarrow> submitted a \<or> ea_ssi a \<in> set blocked"
  have "\<exists>a' config1 st1 ms. (if held then Some (a, config, st, [])
       else submit_for_acknowledged_transmission (forward_to_timeslot now (time_t (ea_t_first a))) a config st) = Some (a', config1, st1, ms)
     \<and> evolves st a st1 a' \<and> (submitted a' \<longleftrightarrow> submitted a \<or> \<not> held) \<and> (\<forall>m \<in> set ms. copy_of a m) \<and> (ms \<noteq> [] \<longrightarrow> \<not> submitted a)"
  proof (cases held)
    case True
    with evolves_refl [OF g] show ?thesis by simp
  next
    case False
    from submit_ok [OF g, of "forward_to_timeslot now (time_t (ea_t_first a))" config] False show ?thesis
      by (auto simp: held_def)
  qed
  then obtain a' config1 st1 ms where
    a: "(if held then Some (a, config, st, [])
        else submit_for_acknowledged_transmission (forward_to_timeslot now (time_t (ea_t_first a))) a config st) = Some (a', config1, st1, ms)"
      "evolves st a st1 a'" "submitted a' \<longleftrightarrow> submitted a \<or> \<not> held" "\<forall>m \<in> set ms. copy_of a m" "ms \<noteq> [] \<longrightarrow> \<not> submitted a" by blast
  have ssi: "ea_ssi a' = ea_ssi a" using a(2) identity_fields by (auto simp: evolves_def)
  let ?blocked = "List.insert (ea_ssi a') blocked"
  from Cons.IH [OF entries_step(1) [OF Cons.prems a(2)], of ?blocked config1] obtain acks' config2 st2 more where
    r: "submit_free now ?blocked acks config1 st1 = Some (acks', config2, st2, more)" "entries_good st2 acks'"
      "list_all2 (follows st1 st2) acks acks'" "touches (cells acks) st1 st2"
      "\<forall>issi. map submitted (queue_of issi acks') = (if issi \<in> set ?blocked then map submitted (queue_of issi acks)
          else first_out (map submitted (queue_of issi acks)))"
      "\<forall>m \<in> set more. \<exists>a \<in> set acks. \<not> submitted a \<and> copy_of a m" by blast
  have e: "submit_free now blocked (a # acks) config st = Some (a' # acks', config2, st2, ms @ more)"
    using a(1) r(1) by (simp add: held_def)
  have q: "map submitted (queue_of j (a' # acks')) = (if j \<in> set blocked then map submitted (queue_of j (a # acks))
       else first_out (map submitted (queue_of j (a # acks))))" for j
  proof (cases "j = ea_ssi a")
    case True
    then have "map submitted (queue_of j acks') = map submitted (queue_of j acks)" using r(5) ssi by simp
    with True a(3) ssi show ?thesis by (auto simp: held_def)
  next
    case False
    then have "j \<in> set ?blocked \<longleftrightarrow> j \<in> set blocked" using ssi by simp
    with False ssi r(5) show ?thesis by simp
  qed
  have m: "\<forall>m \<in> set (ms @ more). \<exists>b \<in> set (a # acks). \<not> submitted b \<and> copy_of b m" using a(4,5) r(6) by auto
  note j = entries_join [OF Cons.prems a(2) r(2-4)]
  show ?case by (intro exI conjI, rule e, rule j(1), rule j(2), rule j(3), intro allI, rule q, rule m)
qed

lemma queues_ok_first:
  assumes "queues_ok seqs acks" and "list_all2 (follows st st') acks acks'"
    and "\<forall>issi. map submitted (queue_of issi acks') = first_out (map submitted (queue_of issi acks))"
  shows "queues_ok seqs acks'"
  using assms by (simp add: queues_ok_def queue_follows one_outstanding_map del: not_None_eq)

section \<open>Acknowledgements received\<close>

text \<open>The receipt of the message moves to transmitted and on to acknowledged.\<close>

lemma acknowledged_ok:
  assumes "entry_good st a"
  shows "\<exists>st'. note_transmitted (ea_tx_reporter a) st \<bind> mark_acknowledged (ea_tx_reporter a)
     = Some st' \<and> st' = st[own a := 4]"
proof -
  have c: "own a < length st" "expects_ack (ea_tx_reporter a)" using assms by (simp_all add: entry_good_def)
  from assms note_transmitted_ok [of "ea_tx_reporter a" st] have "note_transmitted (ea_tx_reporter a) st = Some (st[own a := 2])"
    by (simp add: entry_good_def)
  with c show ?thesis by (simp add: mark_acknowledged_def mark_def guard_def)
qed

text \<open>An acknowledgement that passes: the marks on the receipt of its message end in acknowledged.\<close>

lemma process_incoming_ack_accepts:
  assumes g: "entries_good st (be_outbound e)" and t: "take_expected_ack_for_ssi (ssi addr) (be_outbound e) = Some (a, rest)"
    and over: "ea_t_umac_done a \<noteq> None" and nr: "ea_ns a = nr"
    and aie: "same_protection_as (case tr_aie (ea_buf a) of Some x \<Rightarrow> x | None \<Rightarrow> req_clear (Individual (ssi addr)) ScopeMacResource) aie"
  shows "\<exists>st'. process_incoming_ack addr nr aie e st = Some (e\<lparr>be_outbound := rest\<rparr>, st') \<and> st' ! own a = 4"
proof -
  from take_found [OF t] obtain xs ys where a: "be_outbound e = xs @ a # ys" by blast
  have ga: "entry_good st a" using g a by (simp add: entries_good_def)
  from acknowledged_ok [OF ga] have ack: "note_transmitted (ea_tx_reporter a) st \<bind> mark_acknowledged (ea_tx_reporter a) = Some (st[own a := 4])" by simp
  have "\<forall>r \<in> set (ea_attempt_reporters a). cell r < length (st[own a := 4])" using ga by (auto simp: entry_good_def)
  from cancel_ok [OF this] obtain st' where st': "cancel_copies (ea_attempt_reporters a) (st[own a := 4]) = Some st'"
    "\<forall>c. c \<notin> attempt_cells a \<longrightarrow> st' ! c = st[own a := 4] ! c" by auto
  have "own a \<notin> attempt_cells a" "own a < length st" using ga by (auto simp: entry_good_def)
  with st'(2) have four: "st' ! own a = 4" by simp
  have "note_transmitted (ea_tx_reporter a) st \<bind> (\<lambda>s. mark_acknowledged (ea_tx_reporter a) s \<bind> (\<lambda>s. cancel_pending_attempt_copies a s
      \<bind> (\<lambda>s. Some (e\<lparr>be_outbound := rest\<rparr>, s)))) = Some (e\<lparr>be_outbound := rest\<rparr>, st')"
    using ack st'(1) by (simp add: cancel_pending_attempt_copies_def bind_assoc [symmetric] del: bind_assoc)
  moreover obtain d where "ea_t_umac_done a = Some d" using over by auto
  ultimately have "process_incoming_ack addr nr aie e st = Some (e\<lparr>be_outbound := rest\<rparr>, st')"
    using t nr aie by (simp add: process_incoming_ack_def Let_def)
  with four show ?thesis by blast
qed

text \<open>A transmission that no tick has seen yet is noted first.\<close>

lemma note_seen_ok:
  assumes g: "entries_good st (a # rest)" and q: "queues_ok seqs (a # rest)"
    and b: "b = (if seen then a\<lparr>ea_has_transmitted_attempt := True\<rparr> else a)"
  shows "\<exists>st'. (if seen then note_transmitted (ea_tx_reporter b) st else Some st) = Some st'
    \<and> evolves st a st' b \<and> entries_good st' (b # rest) \<and> queues_ok seqs (b # rest)"
proof -
  have ga: "entry_good st a" using g by (simp add: entries_Cons)
  define st1 where "st1 = (if seen then st[own a := 2] else st)"
  have n: "(if seen then note_transmitted (ea_tx_reporter b) st else Some st) = Some st1"
    using note_transmitted_ok [of "ea_tx_reporter a" st] ga by (auto simp: entry_good_def st1_def b)
  have e: "evolves st a st1 b" using ga
    by (auto simp: evolves_def entry_good_def identity_def b st1_def touches_def nth_list_update)
  have "list_all2 (follows st1 st1) rest rest" by (simp add: list_all2_same follows_def)
  from entries_join(1) [OF g e entries_step(1) [OF g e] this touches_refl] have eg: "entries_good st1 (b # rest)" .
  have "follows st st a b" "submitted b \<longleftrightarrow> submitted a" by (simp_all add: follows_def identity_def b)
  then have "list_all2 (follows st st) (a # rest) (b # rest)" "list_all2 (\<lambda>a a'. submitted a' \<longleftrightarrow> submitted a) (a # rest) (b # rest)"
    by (simp_all add: list_all2_same follows_def del: not_None_eq)
  from queues_ok_same [OF q this] n e eg show ?thesis by blast
qed

lemma process_incoming_ack_ok:
  assumes g: "entries_good st (be_outbound e)" and q: "queues_ok (be_send_seq e) (be_outbound e)"
  shows "\<exists>acks st'. process_incoming_ack addr nr aie e st = Some (e\<lparr>be_outbound := acks\<rparr>, st')
    \<and> entries_good st' acks \<and> queues_ok (be_send_seq e) acks"
proof (cases "take_expected_ack_for_ssi (ssi addr) (be_outbound e)")
  case None
  with g q show ?thesis by (intro exI [of _ "be_outbound e"] exI [of _ st]) (simp add: process_incoming_ack_def)
next
  case (Some taken)
  obtain a rest where taken: "taken = (a, rest)" by fastforce
  note t = Some [unfolded taken]
  from take_found [OF t] obtain xs ys where a: "be_outbound e = xs @ a # ys" "rest = xs @ ys" by blast
  note m = entries_mset [OF g [unfolded a(1)], folded a(2)]
  define seen where "seen \<longleftrightarrow> ea_t_umac_done a = None \<and> (is_transmitted st (ea_tx_reporter a) \<or> any_transmitted st a)"
  define b where "b = (if seen then a\<lparr>ea_has_transmitted_attempt := True\<rparr> else a)"
  from note_seen_ok [OF m(1) queues_ok_take(2) [OF q t] b_def] obtain st1 where
    n: "(if seen then note_transmitted (ea_tx_reporter b) st else Some st) = Some st1" "evolves st a st1 b"
      "entries_good st1 (b # rest)" "queues_ok (be_send_seq e) (b # rest)" by blast
  have gb: "entry_good st1 b" using n(2) by (simp add: evolves_def)
  from acknowledged_ok [OF gb] have ack: "note_transmitted (ea_tx_reporter b) st1 \<bind> mark_acknowledged (ea_tx_reporter b)
      = Some (st1[own b := 4])" by simp
  have "\<forall>r \<in> set (ea_attempt_reporters b). cell r < length (st1[own b := 4])" using gb by (auto simp: entry_good_def)
  from cancel_ok [OF this] obtain st2 where st2: "cancel_copies (ea_attempt_reporters b) (st1[own b := 4]) = Some st2"
    "length st2 = length st1" "\<forall>c. c \<notin> attempt_cells b \<longrightarrow> st2 ! c = st1[own b := 4] ! c" by auto
  have c: "note_transmitted (ea_tx_reporter b) st1 \<bind> (\<lambda>s. mark_acknowledged (ea_tx_reporter b) s
      \<bind> (\<lambda>s. cancel_pending_attempt_copies b s \<bind> (\<lambda>s. Some (e\<lparr>be_outbound := rest\<rparr>, s)))) = Some (e\<lparr>be_outbound := rest\<rparr>, st2)"
    using ack st2(1) by (simp add: cancel_pending_attempt_copies_def bind_assoc [symmetric] del: bind_assoc)
  have "process_incoming_ack addr nr aie e st \<in> {Some (e\<lparr>be_outbound := b # rest\<rparr>, st1), Some (e\<lparr>be_outbound := rest\<rparr>, st2)}"
    unfolding process_incoming_ack_def t option.case prod.case Let_def seen_def [symmetric] b_def [symmetric]
      n(1) Option.bind.simps c by (simp split: if_split)
  moreover have "touches (insert (own b) (attempt_cells b)) st1 st2" using st2 by (auto simp: touches_def)
  then have "entries_good st2 rest"
    by (rule entries_frame [rotated]) (use n(3) in \<open>auto simp: entries_Cons apart_def\<close>)
  ultimately show ?thesis using n(3,4) queues_ok_take(1) [OF q t] by blast
qed

end
