(* ===== verification/Llc_Bl_Run.thy ===== *)
theory Llc_Bl_Run
  imports Llc_Stop_And_Wait
begin

text \<open>
  Runs of the basic link. Requests of the layers above, PDUs from the terminals, ends of ticks and changes of the
  receipts by the MAC come in any order and with any configuration; the operations of \<^verbatim>\<open>Llc_Basic\<close> always return, and
  the queues obey stop and wait.
\<close>

declare val_bits.simps(2) [simp del] stmts.simps [simp del]

section \<open>PDUs\<close>

text \<open>What the header of a PDU tells.\<close>

fun bl_header :: "llc_pdu \<Rightarrow> bool \<times> nat option \<times> nat option" where
  "bl_header (PBlAdata p) = (bad_has_fcs p, Some (bad_ns p), Some (bad_nr p))"
| "bl_header (PBlData p) = (bd_has_fcs p, Some (bd_ns p), None)"
| "bl_header (PBlAck p) = (ba_has_fcs p, None, Some (ba_nr p))"
| "bl_header (PBlUdata p) = (bu_has_fcs p, None, None)"
| "bl_header _ = (False, None, None)"

fun is_bl :: "llc_pdu \<Rightarrow> bool" where
  "is_bl (PBlAdata p) = True"
| "is_bl (PBlData p) = True"
| "is_bl (PBlAck p) = True"
| "is_bl (PBlUdata p) = True"
| "is_bl _ = False"

definition bl_data_header :: "bool \<Rightarrow> nat option \<Rightarrow> nat \<Rightarrow> llc_pdu" where
  "bl_data_header fcs nr ns = (case nr of Some n \<Rightarrow> PBlAdata \<lparr>bad_has_fcs = fcs, bad_nr = n, bad_ns = ns\<rparr>
     | None \<Rightarrow> PBlData \<lparr>bd_has_fcs = fcs, bd_ns = ns\<rparr>)"

text \<open>The service data unit as it travels.\<close>

definition checked :: "bool \<Rightarrow> bool list \<Rightarrow> bool list" where
  "checked fcs xs = xs @ (if fcs then word_bits (fcs_of xs) else [])"

text \<open>The types that the basic link handles.\<close>

definition bl_type :: "llc_pdu_type \<Rightarrow> bool" where
  "bl_type t \<longleftrightarrow> llc_pdu_type_raw t < 8"

lemma bl_data_header_ok: "\<lbrakk>pred_option (\<lambda>n. n < 2) nr; ns < 2\<rbrakk> \<Longrightarrow> llc_ok (bl_data_header fcs nr ns)"
  by (cases nr) (simp_all add: bl_data_header_def)

lemma bl_type_raw: "bl_type BlAdata" "bl_type BlData" "bl_type BlAck" "bl_type BlUdata" "bl_type BlAdataFcs" "bl_type BlDataFcs"
    "bl_type BlAckFcs" "bl_type BlUdataFcs"
  by (simp_all add: bl_type_def)

lemma is_bl_type: "is_bl p \<Longrightarrow> bl_type (llc_type p)"
  by (cases p) (simp_all add: bl_type_raw)

lemma bl_types: "is_bl p \<Longrightarrow> is_bl_ack (llc_type p) \<longleftrightarrow> (\<exists>a. p = PBlAck a)"
  "is_bl p \<Longrightarrow> \<not> is_bl_udata (llc_type p) \<longleftrightarrow> (\<forall>a. p \<noteq> PBlUdata a)"
  by (cases p; simp add: is_bl_ack_def is_bl_udata_def)+

context bit_buffer
begin

lemma fresh_put: "emits w s \<Longrightarrow> \<exists>b. w (bb_new_autoexpand ops n) = Some b \<and> view b = auto_buf s (length s)"
proof -
  assume e: "emits w s"
  have "can_write (view (bb_new_autoexpand ops n)) (length s)" using auto_buf_facts(6) [of "[]"] by (simp add: new_auto_buf)
  from e [unfolded emits_def, rule_format, OF this] obtain b where
    "w (bb_new_autoexpand ops n) = Some b" "view b = put_bits (auto_buf [] 0) s" unfolding new_auto_buf by blast
  then show ?thesis using auto_buf_facts(5) [of "[]" s] by simp
qed

lemma copy_auto:
  assumes "view b = auto_buf xs (length xs)" and wf: "view_wf (view s)"
  shows "\<exists>c t. bb_copy_bits ops b s (bb_get_len_remaining ops s) = Some (c, t)
    \<and> view c = auto_buf (xs @ remaining (view s)) (length (xs @ remaining (view s)))"
proof -
  have n: "bb_get_len_remaining ops s = length (remaining (view s))" using get_len_remaining [OF wf] length_remaining [OF wf] by simp
  have "raw_pos (view s) + length (remaining (view s)) \<le> raw_end (view s)" using wf length_remaining [OF wf] by (auto simp: view_wf_def)
  from copy_bits [of b _ s, OF _ wf this] assms(1) n show ?thesis by auto
qed

lemma emits_bl:
  "ba_nr a < 2 \<Longrightarrow> emits (bl_ack_to_bitbuf ops a) (bl_ack_bits a)"
  "bad_nr ad < 2 \<Longrightarrow> bad_ns ad < 2 \<Longrightarrow> emits (bl_adata_to_bitbuf ops ad) (bl_adata_bits ad)"
  "bd_ns d < 2 \<Longrightarrow> emits (bl_data_to_bitbuf ops d) (bl_data_bits d)"
  "emits (bl_udata_to_bitbuf ops u) (bl_udata_bits u)"
  by (auto simp: bl_ack_to_bitbuf_def bl_ack_bits_def bl_adata_to_bitbuf_def bl_adata_bits_def
      bl_data_to_bitbuf_def bl_data_bits_def bl_udata_to_bitbuf_def bl_udata_bits_def intro!: emit_bit_intros)

lemma bl_data_pdu_view:
  assumes wf: "view_wf (view sdu)" and nr: "pred_option (\<lambda>n. n < 2) nr" and ns: "ns < 2"
  shows "\<exists>pdu. bl_data_pdu ops fcs nr ns sdu = Some pdu
    \<and> view pdu = auto_buf (llc_bits (bl_data_header fcs nr ns) @ checked fcs (remaining (view sdu))) 0"
proof -
  let ?xs = "remaining (view sdu)" and ?h = "llc_bits (bl_data_header fcs nr ns)"
  let ?n = "raw_end (view sdu) - raw_start (view sdu)" and ?p = "raw_pos (view sdu) - raw_start (view sdu)"
  have r: "?xs = take (?n - ?p) (drop ?p (window (view sdu)))" and le: "?p \<le> ?n"
    using wf by (auto simp: remaining_def window_def view_wf_def drop_take)
  have c: "compute_fcs ops sdu (bb_get_pos ops sdu) (bb_get_len ops sdu) = Some (fcs_of ?xs)"
    using compute_fcs_view [OF wf le] get_pos [OF wf] get_len [OF wf] r by simp
  have "emits (case nr of Some n \<Rightarrow> bl_adata_to_bitbuf ops \<lparr>bad_has_fcs = fcs, bad_nr = n, bad_ns = ns\<rparr>
       | None \<Rightarrow> bl_data_to_bitbuf ops \<lparr>bd_has_fcs = fcs, bd_ns = ns\<rparr>) ?h"
    using nr ns by (cases nr) (auto simp: bl_data_header_def intro: emits_bl)
  from fresh_put [OF this, of 32] obtain a where a: "(case nr of
         Some n \<Rightarrow> bl_adata_to_bitbuf ops \<lparr>bad_has_fcs = fcs, bad_nr = n, bad_ns = ns\<rparr> (bb_new_autoexpand ops 32)
       | None \<Rightarrow> bl_data_to_bitbuf ops \<lparr>bd_has_fcs = fcs, bd_ns = ns\<rparr> (bb_new_autoexpand ops 32)) = Some a"
    "view a = auto_buf ?h (length ?h)" by (cases nr) auto
  from copy_auto [OF a(2) wf] obtain b s where
    b: "bb_copy_bits ops a sdu (bb_get_len_remaining ops sdu) = Some (b, s)" "view b = auto_buf (?h @ ?xs) (length (?h @ ?xs))" by blast
  obtain d where d: "(case (if fcs then Some (fcs_of ?xs) else None) of None \<Rightarrow> Some b | Some c \<Rightarrow> bb_write_bits ops b (unat c) 32) = Some d"
    "view d = auto_buf (?h @ checked fcs ?xs) (length (?h @ checked fcs ?xs))"
  proof (cases fcs)
    case True
    have "unat (fcs_of ?xs) < 2 ^ 32" using unsigned_less [of "fcs_of ?xs", where ?'a = nat] by simp
    from write_bits_put [of b 32 "unat (fcs_of ?xs)", OF _ _ this] b(2) auto_buf_facts(5,6) [of "?h @ ?xs"] obtain e where
      "bb_write_bits ops b (unat (fcs_of ?xs)) 32 = Some e" "view e = auto_buf ((?h @ ?xs) @ word_bits (fcs_of ?xs)) (length (?h @ ?xs) + 32)"
      by (auto simp: word_bits_val_bits simp del: append_assoc)
    with that True show ?thesis by (simp add: checked_def add.assoc)
  next
    case False
    with that b(2) show ?thesis by (simp add: checked_def)
  qed
  from seek_auto_buf [OF d(2)] obtain f where f: "bb_seek ops d 0 = Some f" "view f = auto_buf (?h @ checked fcs ?xs) 0" by auto
  have check: "(if fcs then map_option Some (Some (fcs_of ?xs)) else Some None) = Some (if fcs then Some (fcs_of ?xs) else None)" by simp
  show ?thesis
    unfolding bl_data_pdu_def Let_def c check Option.bind.simps a(1) b(1) prod.case d(1) f(1) using f(2) by simp
qed

lemma bl_udata_total:
  assumes wf: "view_wf (view (tu_tl_sdu prim))"
  shows "\<exists>m. rx_tla_tlunitdata_req_bl ops prim e = Some (e\<lparr>be_udata := be_udata e @ [m]\<rparr>)
    \<and> tr_main_address m = tu_main_address prim
    \<and> view (tr_pdu m) = auto_buf (llc_bits (PBlUdata \<lparr>bu_has_fcs = False\<rparr>) @ remaining (view (tu_tl_sdu prim))) 0"
proof -
  let ?h = "llc_bits (PBlUdata \<lparr>bu_has_fcs = False\<rparr>)" and ?xs = "remaining (view (tu_tl_sdu prim))"
  from fresh_put [OF emits_bl(4) [of "\<lparr>bu_has_fcs = False\<rparr>"], of 32] obtain a where
    a: "bl_udata_to_bitbuf ops \<lparr>bu_has_fcs = False\<rparr> (bb_new_autoexpand ops 32) = Some a" "view a = auto_buf ?h (length ?h)" by auto
  from copy_auto [OF a(2) wf] obtain b s where
    b: "bb_copy_bits ops a (tu_tl_sdu prim) (bb_get_len_remaining ops (tu_tl_sdu prim)) = Some (b, s)"
      "view b = auto_buf (?h @ ?xs) (length (?h @ ?xs))" by blast
  from seek_auto_buf [OF b(2)] obtain f where f: "bb_seek ops b 0 = Some f" "view f = auto_buf (?h @ ?xs) 0" by auto
  show ?thesis
    by (rule exI, rule conjI, simp only: rx_tla_tlunitdata_req_bl_def a(1) b(1) f(1) Option.bind.simps prod.case, simp add: f(2))
qed

text \<open>An acknowledgement of its own: its PDU has the number, its address is the terminal's.\<close>

lemma ack_reply_view:
  assumes "so_nr ack < 2"
  shows "\<exists>m. ack_reply ops config ack = Some m \<and> tr_main_address m = so_addr ack
    \<and> tr_aie m = Some (with_scope (so_aie ack) ScopeMacResource) \<and> tr_endpoint_id m = so_ts ack
    \<and> view (tr_pdu m) = auto_buf (llc_bits (PBlAck \<lparr>ba_has_fcs = False, ba_nr = so_nr ack\<rparr>)) 0"
proof -
  let ?h = "llc_bits (PBlAck \<lparr>ba_has_fcs = False, ba_nr = so_nr ack\<rparr>)"
  have "emits (bl_ack_to_bitbuf ops \<lparr>ba_has_fcs = False, ba_nr = so_nr ack\<rparr>) ?h" using assms by (auto intro: emits_bl)
  from fresh_put [OF this, of 5] obtain a where
    a: "bl_ack_to_bitbuf ops \<lparr>ba_has_fcs = False, ba_nr = so_nr ack\<rparr> (bb_new_autoexpand ops 5) = Some a" "view a = auto_buf ?h (length ?h)" by auto
  from seek_auto_buf [OF a(2)] obtain f where f: "bb_seek ops a 0 = Some f" "view f = auto_buf ?h 0" by auto
  define steal where "steal \<longleftrightarrow> on_traffic (so_ts ack) \<and> packet_route config (ssi (so_addr ack)) (so_ts ack) = None
    \<and> \<not> is_common (bc_common_control config) (so_ts ack)"
  have "steal \<Longrightarrow> so_ts ack - 1 < 4" by (auto simp: steal_def on_traffic_def)
  then show ?thesis using a(1) f
    by (cases steal) (simp_all add: ack_reply_def Let_def aset_def steal_def [symmetric])
qed

end

section \<open>Reading a PDU\<close>

text \<open>What \<open>rx_tma_unitdata_ind\<close> does once the header is read.\<close>

context bit_buffer
begin

lemma expect_number_spec: "spec N k Q \<Longrightarrow> spec N (expect_number ops v w k) Q"
  by (auto simp: expect_number_def spec_fail split: sum.split)

lemma spec_bl:
  "spec (\<lambda>r. False) (bl_ack_from_bitbuf ops) (\<lambda>s a. ba_nr a < 2)"
  "spec (\<lambda>r. False) (bl_adata_from_bitbuf ops) (\<lambda>s a. bad_nr a < 2 \<and> bad_ns a < 2)"
  "spec (\<lambda>r. False) (bl_data_from_bitbuf ops) (\<lambda>s a. bd_ns a < 2)"
  "spec (\<lambda>r. False) (bl_udata_from_bitbuf ops) (\<lambda>s a. True)"
  by (auto simp: bl_ack_from_bitbuf_def bl_adata_from_bitbuf_def bl_data_from_bitbuf_def bl_udata_from_bitbuf_def as_u8_def
      intro!: spec_intros expect_number_spec)

lemma spec_p_map: "\<lbrakk>spec N p P; \<And>s x. P s x \<Longrightarrow> Q s (f x)\<rbrakk> \<Longrightarrow> spec N (p_map f p) Q"
  unfolding p_map_def by (erule spec_bind) (rule spec_ret, simp)

lemma bl_header_spec:
  assumes "bl_type t"
  shows "spec (\<lambda>r. False) (bl_header_from_bitbuf ops t)
    (\<lambda>s x. pred_option (\<lambda>n. n < 2) (fst (snd x)) \<and> pred_option (\<lambda>n. n < 2) (snd (snd x)))"
  by (cases t) (use assms in \<open>simp_all add: bl_type_def spec_p_map [OF spec_bl(1)] spec_p_map [OF spec_bl(2)] spec_p_map [OF spec_bl(3)]
    spec_p_map [OF spec_bl(4)]\<close>)

text \<open>The header of a PDU that was written.\<close>

lemma bl_header_type:
  "bl_header_from_bitbuf ops (llc_type (PBlAck a)) = p_map (\<lambda>p. (ba_has_fcs p, None, Some (ba_nr p))) (bl_ack_from_bitbuf ops)"
  "bl_header_from_bitbuf ops (llc_type (PBlAdata ad)) = p_map (\<lambda>p. (bad_has_fcs p, Some (bad_ns p), Some (bad_nr p))) (bl_adata_from_bitbuf ops)"
  "bl_header_from_bitbuf ops (llc_type (PBlData d)) = p_map (\<lambda>p. (bd_has_fcs p, Some (bd_ns p), None)) (bl_data_from_bitbuf ops)"
  "bl_header_from_bitbuf ops (llc_type (PBlUdata u)) = p_map (\<lambda>p. (bu_has_fcs p, None, None)) (bl_udata_from_bitbuf ops)"
  by simp_all

lemma bl_header_parses:
  assumes "llc_ok p" and "is_bl p"
  shows "parses (bl_header_from_bitbuf ops (llc_type p)) (llc_bits p) (bl_header p)"
proof (cases p)
  case (PBlAck x)
  show ?thesis unfolding PBlAck bl_header_type llc_bits.simps bl_header.simps
    by (rule parses_p_map [OF parses_bl(1)]) (use assms PBlAck in simp)+
next
  case (PBlAdata x)
  show ?thesis unfolding PBlAdata bl_header_type llc_bits.simps bl_header.simps
    by (rule parses_p_map [OF parses_bl(2)]) (use assms PBlAdata in simp)+
next
  case (PBlData x)
  show ?thesis unfolding PBlData bl_header_type llc_bits.simps bl_header.simps
    by (rule parses_p_map [OF parses_bl(3)]) (use assms PBlData in simp)+
next
  case (PBlUdata x)
  show ?thesis unfolding PBlUdata bl_header_type llc_bits.simps bl_header.simps by (rule parses_p_map [OF parses_bl(4)])
qed (use assms in simp_all)

end

section \<open>Operations and the invariant\<close>

definition bl_ok :: "'b bl_entity \<Rightarrow> tx_store \<Rightarrow> bool" where
  "bl_ok e st \<longleftrightarrow> entries_good st (be_outbound e) \<and> queues_ok (be_send_seq e) (be_outbound e) \<and> (\<forall>a \<in> set (be_acks e). so_nr a < 2)"

lemma bl_new_ok: "bl_ok bl_new st"
  by (simp add: bl_ok_def bl_new_def entries_good_def queues_ok_def one_outstanding_def next_number_def)

text \<open>A receipt for a new message: pending, and of no message in the queue.\<close>

definition fresh_reporter :: "tx_store \<Rightarrow> 'b expected_in_ack list \<Rightarrow> tx_reporter option \<Rightarrow> bool" where
  "fresh_reporter st acks r \<longleftrightarrow> (case r of None \<Rightarrow> True
     | Some r \<Rightarrow> expects_ack r \<and> cell r < length st \<and> st ! cell r = 0 \<and> cell r \<notin> cells acks)"

lemma take_out_ack_ok: "\<lbrakk>take_out_ack issi timeslot aie acks = (n, rest); \<forall>a \<in> set acks. so_nr a < 2\<rbrakk>
    \<Longrightarrow> pred_option (\<lambda>n. n < 2) n \<and> (\<forall>a \<in> set rest. so_nr a < 2)"
  by (induction acks arbitrary: n rest) (auto split: if_splits prod.splits)

lemma cells_less: "entries_good st acks \<Longrightarrow> c \<in> cells acks \<Longrightarrow> c < length st"
  by (auto simp: entries_good_def cells_def entry_good_def)

lemma entries_snoc:
  assumes "entries_good st acks" and "entry_good st a" and "own a \<notin> cells acks" and "ea_attempt_reporters a = []"
  shows "entries_good st (acks @ [a])"
  using assms by (auto simp: entries_good_def sorted_wrt_append apart_def cells_def)

lemma queues_snoc:
  assumes q: "queues_ok seqs acks" and a: "\<not> submitted a" "ea_ns a = next_number seqs (ea_ssi a)"
  shows "queues_ok (AList.update (ea_ssi a) (1 - ea_ns a) seqs) (acks @ [a])"
  unfolding queues_ok_def
proof
  fix j
  have qj: "one_outstanding (queue_of j acks)" "alternating (map ea_ns (queue_of j acks)) (next_number seqs j)"
    using q by (simp_all only: queues_ok_def)
  show "one_outstanding (queue_of j (acks @ [a]))
    \<and> alternating (map ea_ns (queue_of j (acks @ [a]))) (next_number (AList.update (ea_ssi a) (1 - ea_ns a) seqs) j)"
  proof (cases "j = ea_ssi a")
    case True
    have "one_outstanding (queue_of j acks @ [a])"
      using qj(1) a(1) by (cases "queue_of j acks") (auto simp: one_outstanding_def)
    moreover have "alternating (map ea_ns (queue_of j acks) @ [ea_ns a]) (1 - ea_ns a)"
      using alternating_append [OF qj(2)] a(2) True by simp
    ultimately show ?thesis using True by (simp add: next_number_def update_conv)
  next
    case False
    then show ?thesis using qj by (simp add: next_number_def update_conv)
  qed
qed

lemma xor_1: "n < 2 \<Longrightarrow> n XOR 1 = 1 - (n :: nat)"
  by (auto simp: less_2_cases_iff)

text \<open>What a data request adds to the queue.\<close>

definition queued :: "('b \<Rightarrow> buf_view) \<Rightarrow> 'b tla_tldata_req_bl \<Rightarrow> 'b bl_entity \<Rightarrow> 'b expected_in_ack \<Rightarrow> bool" where
  "queued view prim e a \<longleftrightarrow> ea_addr a = td_main_address prim \<and> ea_ns a = next_number (be_send_seq e) (ssi (td_main_address prim))
     \<and> \<not> submitted a \<and> (\<exists>nr. pred_option (\<lambda>n. n < 2) nr \<and> view (tr_pdu (ea_buf a)) =
       auto_buf (llc_bits (bl_data_header (td_fcs_flag prim) nr (ea_ns a)) @ checked (td_fcs_flag prim) (remaining (view (td_tl_sdu prim)))) 0)"

text \<open>The reply to a scheduled acknowledgement: a BL-ACK with its number, for its terminal, and as protected.\<close>

definition answers :: "('b \<Rightarrow> buf_view) \<Rightarrow> scheduled_out_ack \<Rightarrow> 'b tma_unitdata_req \<Rightarrow> bool" where
  "answers view ack m \<longleftrightarrow> tr_main_address m = so_addr ack \<and> tr_aie m = Some (with_scope (so_aie ack) ScopeMacResource)
     \<and> tr_endpoint_id m = so_ts ack \<and> at_start (view (tr_pdu m)) (llc_bits (PBlAck \<lparr>ba_has_fcs = False, ba_nr = so_nr ack\<rparr>))"

text \<open>PDUs that the dispatch hands to the basic link.\<close>

definition for_basic_link :: "'b bitbuf_ops \<Rightarrow> 'b bl_unitdata_ind \<Rightarrow> bool" where
  "for_basic_link ops prim \<longleftrightarrow> (case bb_peek_bits ops (ti_pdu prim) 4 of None \<Rightarrow> True
     | Some bits \<Rightarrow> (case llc_pdu_type_of_raw bits of None \<Rightarrow> True | Some t \<Rightarrow> bl_type t))"

context bit_buffer
begin

lemma bl_data_ok:
  assumes ok: "bl_ok e st" and wf: "view_wf (view (td_tl_sdu prim))" and fresh: "fresh_reporter st (be_outbound e) (td_tx_reporter prim)"
    and "\<not> td_stealing_permission prim" and "ssi_type (td_main_address prim) \<noteq> Gssi"
  shows "\<exists>e' config' st' a. rx_tla_tldata_req_bl ops now prim e config st = Some (e', config', st') \<and> bl_ok e' st'
    \<and> be_outbound e' = be_outbound e @ [a] \<and> queued view prim e a"
proof -
  let ?j = "ssi (td_main_address prim)"
  have good: "entries_good st (be_outbound e)" and q: "queues_ok (be_send_seq e) (be_outbound e)"
    and acks: "\<forall>a \<in> set (be_acks e). so_nr a < 2" using ok by (simp_all add: bl_ok_def)
  obtain timeslot config' where ts: "delivery_timeslot now prim config = (timeslot, config')" by fastforce
  obtain nr rest where nr: "take_out_ack ?j timeslot (outgoing_aie prim) (be_acks e) = (nr, rest)" by fastforce
  note n = take_out_ack_ok [OF nr acks]
  define ns where "ns = next_number (be_send_seq e) ?j"
  have ns: "ns < 2" using q alternating_less by (auto simp: queues_ok_def ns_def)
  have seq: "get_next_send_seq addr e1 = (ns, e1\<lparr>be_send_seq := AList.update ?j (1 - ns) (be_send_seq e)\<rparr>)"
    if "addr = td_main_address prim" "be_send_seq e1 = be_send_seq e" for addr and e1 :: "'b bl_entity"
    using that xor_1 [OF ns] by (simp add: get_next_send_seq_def ns_def next_number_def split: option.split)
  from bl_data_pdu_view [OF wf conjunct1 [OF n] ns, of "td_fcs_flag prim"] obtain pdu where
    pdu: "bl_data_pdu ops (td_fcs_flag prim) nr ns (td_tl_sdu prim) = Some pdu"
      "view pdu = auto_buf (llc_bits (bl_data_header (td_fcs_flag prim) nr ns) @ checked (td_fcs_flag prim) (remaining (view (td_tl_sdu prim)))) 0" by blast
  obtain r st' where r: "(case td_tx_reporter prim of Some r \<Rightarrow> (r, st) | None \<Rightarrow> new_reporter st) = (r, st')" by fastforce
  have new: "expects_ack r" "cell r < length st'" "st' ! cell r = 0" "cell r \<notin> cells (be_outbound e)" "entries_good st' (be_outbound e)"
  proof -
    have "length st \<notin> cells (be_outbound e)" using cells_less [OF good] by blast
    moreover have "entries_good (st @ [0]) (be_outbound e)"
      by (rule entries_frame [OF good, of "{}"]) (auto simp: touches_def nth_append)
    ultimately show "expects_ack r" "cell r < length st'" "st' ! cell r = 0" "cell r \<notin> cells (be_outbound e)" "entries_good st' (be_outbound e)"
      using fresh r good by (auto simp: fresh_reporter_def new_reporter_def split: option.splits)
  qed
  define a where "a = new_expected_ack now prim ns (data_request prim pdu r) r"
  have a: "entry_good st' a" "own a = cell r" "ea_attempt_reporters a = []" "\<not> submitted a" "ea_ssi a = ?j" "ea_ns a = ns"
    "ea_addr a = td_main_address prim" "tr_pdu (ea_buf a) = pdu"
    using new by (simp_all add: a_def new_expected_ack_def entry_good_def ea_ssi_def data_request_def)
  have eq: "rx_tla_tldata_req_bl ops now prim e config st = Some (e\<lparr>be_acks := rest,
      be_send_seq := AList.update ?j (1 - ns) (be_send_seq e), be_outbound := be_outbound e @ [a]\<rparr>, config', st')"
    using assms(4,5) ts nr seq pdu(1) r by (simp add: rx_tla_tldata_req_bl_def get_out_ack_seq_if_any_def guard_def a_def)
  have "entries_good st' (be_outbound e @ [a])" using new(4,5) a(1-3) by (intro entries_snoc) simp_all
  moreover have "queues_ok (AList.update ?j (1 - ns) (be_send_seq e)) (be_outbound e @ [a])"
    using queues_snoc [OF q a(4)] a(5,6) by (simp add: ns_def)
  ultimately have "bl_ok (e\<lparr>be_acks := rest, be_send_seq := AList.update ?j (1 - ns) (be_send_seq e), be_outbound := be_outbound e @ [a]\<rparr>) st'"
    using n by (simp add: bl_ok_def)
  moreover have "queued view prim e a" using a n pdu(2) by (auto simp: queued_def ns_def)
  ultimately show ?thesis using eq by auto
qed

lemma bl_accept_ok:
  assumes ok: "bl_ok e st" and ns: "pred_option (\<lambda>n. n < 2) ns"
    and e1_def: "e1 = (case ns of None \<Rightarrow> e | Some n \<Rightarrow> schedule_outgoing_ack t addr n aie e)"
  shows "\<exists>acks st'. (case nr of None \<Rightarrow> Some (e1, st) | Some n \<Rightarrow> process_incoming_ack addr' n aie' e1 st)
      = Some (e1\<lparr>be_outbound := acks\<rparr>, st') \<and> bl_ok (e1\<lparr>be_outbound := acks\<rparr>) st'"
proof -
  have e1: "be_outbound e1 = be_outbound e" "be_send_seq e1 = be_send_seq e" "\<forall>a \<in> set (be_acks e1). so_nr a < 2"
    using ok ns by (auto simp: e1_def bl_ok_def schedule_outgoing_ack_def split: option.split)
  have g: "entries_good st (be_outbound e1)" "queues_ok (be_send_seq e1) (be_outbound e1)" using ok e1 by (simp_all add: bl_ok_def)
  show ?thesis
  proof (cases nr)
    case None
    then show ?thesis using g e1(3) by (intro exI [of _ "be_outbound e1"] exI [of _ st]) (simp add: bl_ok_def)
  next
    case (Some n)
    from process_incoming_ack_ok [OF g, of addr' n aie'] obtain acks st' where
      p: "process_incoming_ack addr' n aie' e1 st = Some (e1\<lparr>be_outbound := acks\<rparr>, st')" "entries_good st' acks"
        "queues_ok (be_send_seq e1) acks" by blast
    have "bl_ok (e1\<lparr>be_outbound := acks\<rparr>) st'" using p(2,3) e1(3) by (simp add: bl_ok_def)
    with Some p(1) show ?thesis by auto
  qed
qed

lemma bl_receive_ok:
  assumes ok: "bl_ok e st" and wf: "view_wf (view (ti_pdu prim))" and bl: "for_basic_link ops prim"
  shows "\<exists>e' st' up. rx_tma_unitdata_ind_bl ops now config prim e st = Some (e', st', up) \<and> bl_ok e' st'"
proof (cases "bb_peek_bits ops (ti_pdu prim) 4")
  case None
  with ok show ?thesis by (simp add: rx_tma_unitdata_ind_bl_def)
next
  case bits: (Some bits)
  show ?thesis
  proof (cases "llc_pdu_type_of_raw bits")
    case None
    with ok bits show ?thesis by (simp add: rx_tma_unitdata_ind_bl_def)
  next
    case t: (Some t)
    with bl bits have "bl_type t" by (simp add: for_basic_link_def)
    note sp = bl_header_spec [OF this, unfolded spec_def, rule_format, OF wf]
    then obtain r pdu where p: "bl_header_from_bitbuf ops t (ti_pdu prim) = Some (r, pdu)"
      by (cases "bl_header_from_bitbuf ops t (ti_pdu prim)") auto
    show ?thesis
    proof (cases r)
      case (Inl err)
      with ok bits t p show ?thesis by (simp add: rx_tma_unitdata_ind_bl_def)
    next
      case (Inr header)
      obtain fcs ns nr where h: "header = (fcs, ns, nr)" by (cases header)
      from sp p Inr h obtain s where s: "remaining (view (ti_pdu prim)) = s @ remaining (view pdu)"
        "view pdu = advance (view (ti_pdu prim)) (length s)" "pred_option (\<lambda>n. n < 2) ns" by auto
      have wfp: "view_wf (view pdu)" using remaining_prefix(3) [OF wf s(1)] s(2) by simp
      have "raw_pos (view pdu) \<le> length (raw_bits (view pdu))" using wfp by (simp add: view_wf_def)
      from set_raw_start [OF this] obtain q where q: "bb_set_raw_start ops pdu (bb_get_raw_pos ops pdu) = Some q"
        by (auto simp: get_raw_pos)
      obtain good where good: "(if fcs then check_fcs ops pdu else Some True) = Some good"
        using check_fcs_view [OF wfp] by (cases fcs) simp_all
      note eq = rx_tma_unitdata_ind_bl_def bits t p Inr h option.case sum.case prod.case good Option.bind.simps Let_def
      show ?thesis
      proof (cases "\<not> good \<or> clear_pdu_rejected ops config prim t fcs nr pdu st e")
        case True
        with ok show ?thesis unfolding eq by simp
      next
        case False
        from bl_accept_ok [OF ok s(3) refl, where t = "add_timeslots now (- 2)" and addr = "ti_main_address prim"
            and aie = "incoming_aie prim" and nr = nr and addr' = "ti_main_address prim" and aie' = "incoming_aie prim"]
        obtain e' st' where a: "(case nr of None \<Rightarrow> Some ((case ns of None \<Rightarrow> e | Some n \<Rightarrow> schedule_outgoing_ack (add_timeslots now (- 2)) (ti_main_address prim) n (incoming_aie prim) e), st)
            | Some n \<Rightarrow> process_incoming_ack (ti_main_address prim) n (incoming_aie prim)
                (case ns of None \<Rightarrow> e | Some n \<Rightarrow> schedule_outgoing_ack (add_timeslots now (- 2)) (ti_main_address prim) n (incoming_aie prim) e) st)
          = Some (e', st')" "bl_ok e' st'" by blast
        from False a(2) q show ?thesis unfolding eq if_not_P [OF False] a(1) by (simp split: if_split)
      qed
    qed
  qed
qed

lemma bl_receive_pdu:
  assumes wf: "view_wf (view (ti_pdu prim))" and r: "remaining (view (ti_pdu prim)) = llc_bits p @ rest" and p: "llc_ok p" "is_bl p"
    and fcs: "fst (bl_header p) \<longrightarrow> fcs_ok rest" and off: "\<not> bc_aie_enabled config"
    and e1: "e1 = (case fst (snd (bl_header p)) of None \<Rightarrow> e
       | Some n \<Rightarrow> schedule_outgoing_ack (add_timeslots now (- 2)) (ti_main_address prim) n (incoming_aie prim) e)"
    and acc: "(case snd (snd (bl_header p)) of None \<Rightarrow> Some (e1, st)
       | Some n \<Rightarrow> process_incoming_ack (ti_main_address prim) n (incoming_aie prim) e1 st) = Some (e', st')"
  shows "\<exists>q. rx_tma_unitdata_ind_bl ops now config prim e st = Some (e', st',
      if (\<exists>a. p = PBlAck a) \<and> length rest \<le> 4 then None
      else Some \<lparr>tl_acknowledged = (\<forall>u. p \<noteq> PBlUdata u), tl_main_address = ti_main_address prim, tl_endpoint_id = ti_endpoint_id prim,
        tl_sdu = (if rest = [] then None else Some q), tl_fcs_flag = fst (bl_header p), tl_aie = ti_aie prim\<rparr>)
    \<and> view_wf (view q) \<and> remaining (view q) = rest"
proof -
  obtain f ns nr where h: "bl_header p = (f, ns, nr)" by (cases "bl_header p")
  obtain u where u: "llc_bits p = type_bits (llc_type p) @ u" using llc_type_prefix [OF p(1)] .
  have "remaining (view (ti_pdu prim)) = type_bits (llc_type p) @ (u @ rest)" using r u by simp
  note pre = remaining_prefix(1,2) [OF wf this]
  have bits: "bb_peek_bits ops (ti_pdu prim) 4 = Some (llc_pdu_type_raw (llc_type p))"
    using peek_bits [OF wf, of 4] pre bits_val_val_bits [of "llc_pdu_type_raw (llc_type p)" 4] type_raw_less [of "llc_type p"]
    by (simp add: type_bits_def)
  from parses_Some [OF bl_header_parses [OF p] wf r] obtain pdu where
    pdu: "bl_header_from_bitbuf ops (llc_type p) (ti_pdu prim) = Some (Inr (f, ns, nr), pdu)"
      "view pdu = advance (view (ti_pdu prim)) (length (llc_bits p))" unfolding h by blast
  have wfp: "view_wf (view pdu)" "remaining (view pdu) = rest" using remaining_prefix(3,4) [OF wf r] pdu(2) by simp_all
  have good: "(if f then check_fcs ops pdu else Some True) = Some True"
    using check_fcs_view [OF wfp(1)] wfp(2) fcs h by (cases f) simp_all
  have n: "bb_get_len_remaining ops pdu = length rest" using get_len_remaining [OF wfp(1)] length_remaining [OF wfp(1)] wfp(2) by simp
  have "raw_pos (view pdu) \<le> length (raw_bits (view pdu))" using wfp(1) by (simp add: view_wf_def)
  from set_raw_start [OF this] obtain q where q: "bb_set_raw_start ops pdu (bb_get_raw_pos ops pdu) = Some q"
    "view q = (view pdu)\<lparr>raw_start := raw_pos (view pdu)\<rparr>" by (auto simp: get_raw_pos)
  have vq: "view_wf (view q)" "remaining (view q) = rest" using q(2) wfp by (simp_all add: view_wf_def remaining_def)
  have nq: "bb_get_len_remaining ops q = length rest" using get_len_remaining [OF vq(1)] length_remaining [OF vq(1)] vq(2) by simp
  have no: "\<not> clear_pdu_rejected ops config prim (llc_type p) f nr pdu st e" using off by (simp add: clear_pdu_rejected_def bound_to_sc2_def)
  note t = bl_types [OF p(2)]
  have g: "\<not> (\<not> True \<or> clear_pdu_rejected ops config prim (llc_type p) f nr pdu st e)" using no by simp
  have ne: "(if 0 < length rest then Some q else None) = (if rest = [] then None else Some q)" by simp
  have "rx_tma_unitdata_ind_bl ops now config prim e st = Some (e', st',
      if (\<exists>a. p = PBlAck a) \<and> length rest \<le> 4 then None
      else Some \<lparr>tl_acknowledged = (\<forall>u. p \<noteq> PBlUdata u), tl_main_address = ti_main_address prim, tl_endpoint_id = ti_endpoint_id prim,
        tl_sdu = (if rest = [] then None else Some q), tl_fcs_flag = fst (bl_header p), tl_aie = ti_aie prim\<rparr>)"
    unfolding rx_tma_unitdata_ind_bl_def bits option.case llc_pdu_type.of_raw_raw pdu(1) sum.case prod.case good Option.bind.simps
      if_not_P [OF g] Let_def acc [unfolded e1 h fst_conv snd_conv] n t q(1) nq h fst_conv
    by (cases "(\<exists>a. p = PBlAck a) \<and> length rest \<le> 4") (simp_all only: if_True if_False simp_thms q(1) nq ne Option.bind.simps)
  with vq show ?thesis by blast
qed

lemma ack_replies_ok:
  "\<forall>a \<in> set acks. so_nr a < 2 \<Longrightarrow> \<exists>ms. ack_replies ops config acks = Some ms \<and> list_all2 (answers view) acks ms"
proof (induction acks)
  case (Cons a acks)
  with ack_reply_view [of a config] show ?case by (auto simp: answers_def)
qed simp

lemma bl_tick_ok:
  assumes ok: "bl_ok e st"
  shows "\<exists>e' config' st' ms. bl_tick_end ops now e config st = Some (e', config', st', ms) \<and> bl_ok e' st'
    \<and> be_acks e' = [] \<and> be_udata e' = [] \<and> tm_udata ms = be_udata e \<and> list_all2 (answers view) (be_acks e) (tm_acks ms)
    \<and> (\<forall>m \<in> set (tm_repeated ms). \<exists>a \<in> set (be_outbound e). submitted a \<and> copy_of a m)
    \<and> (\<forall>m \<in> set (tm_first ms). \<exists>a \<in> set (be_outbound e). \<not> submitted a \<and> copy_of a m)
    \<and> (\<forall>issi. queue_of issi (be_outbound e') \<noteq> [] \<longrightarrow> submitted (hd (queue_of issi (be_outbound e'))))"
proof -
  have good: "entries_good st (be_outbound e)" and q: "queues_ok (be_send_seq e) (be_outbound e)"
    and acks: "\<forall>a \<in> set (be_acks e). so_nr a < 2" using ok by (simp_all add: bl_ok_def)
  from retransmit_all_ok [OF good, of ops now config] obtain acks1 config1 st1 rep removals where
    r: "retransmit_all ops now (be_outbound e) config st = Some (acks1, config1, st1, rep, removals)" "entries_good st1 acks1"
      "list_all2 (follows st st1) (be_outbound e) acks1" "list_all2 (\<lambda>a a'. submitted a' \<longleftrightarrow> submitted a) (be_outbound e) acks1"
      "\<forall>m \<in> set rep. \<exists>a \<in> set (be_outbound e). submitted a \<and> copy_of a m"
      "mset removals \<subseteq># mset (map ea_ssi (filter submitted acks1))" by blast
  from remove_expired_ok [OF r(2) queues_ok_same [OF q r(3,4)] r(6)] obtain acks2 st2 where
    x: "remove_expired removals acks1 st1 = Some (acks2, st2)" "entries_good st2 acks2" "queues_ok (be_send_seq e) acks2"
      "set acks2 \<subseteq> set acks1" by blast
  from submit_free_ok [OF x(2), of now "[]" config1] obtain acks3 config3 st3 first where
    f: "submit_free now [] acks2 config1 st2 = Some (acks3, config3, st3, first)" "entries_good st3 acks3"
      "list_all2 (follows st2 st3) acks2 acks3" "\<forall>issi. map submitted (queue_of issi acks3) = first_out (map submitted (queue_of issi acks2))"
      "\<forall>m \<in> set first. \<exists>a \<in> set acks2. \<not> submitted a \<and> copy_of a m" by auto
  from ack_replies_ok [OF acks, of config3] obtain replies where
    a: "ack_replies ops config3 (be_acks e) = Some replies" "list_all2 (answers view) (be_acks e) replies" by blast
  let ?e = "e\<lparr>be_acks := [], be_outbound := acks3, be_udata := []\<rparr>"
  let ?m = "\<lparr>tm_repeated = rep, tm_first = first, tm_acks = replies, tm_udata = be_udata e\<rparr>"
  have eq: "bl_tick_end ops now e config st = Some (?e, config3, st3, ?m)"
    using r(1) x(1) f(1) a(1) by (simp add: bl_tick_end_def submit_retransmissions_to_umac_def submit_free_messages_to_umac_def
      submit_ack_replies_to_umac_def submit_udata_msgs_to_umac_def)
  have origin: "\<exists>b \<in> set (be_outbound e). \<not> submitted b \<and> copy_of b m" if m: "a \<in> set acks2" "\<not> submitted a" "copy_of a m" for a m
  proof -
    from m(1) x(4) have "a \<in> set acks1" by blast
    then obtain i where i: "i < length acks1" "a = acks1 ! i" by (auto simp: in_set_conv_nth)
    define b where "b = be_outbound e ! i"
    have b: "b \<in> set (be_outbound e)" "follows st st1 b a" "submitted a \<longleftrightarrow> submitted b"
      using r(3,4) i by (auto simp: list_all2_conv_all_nth b_def)
    then have "ea_buf a = ea_buf b" using identity_fields by (auto simp: follows_def)
    with b(1,3) m(2,3) show ?thesis by (auto simp del: not_None_eq)
  qed
  have "\<forall>m \<in> set first. \<exists>b \<in> set (be_outbound e). \<not> submitted b \<and> copy_of b m"
  proof
    fix m assume "m \<in> set first"
    with f(5) obtain a where "a \<in> set acks2" "\<not> submitted a" "copy_of a m" by blast
    then show "\<exists>b \<in> set (be_outbound e). \<not> submitted b \<and> copy_of b m" by (rule origin)
  qed
  moreover have "submitted (hd (queue_of issi acks3))" if "queue_of issi acks3 \<noteq> []" for issi
  proof -
    have "hd (map submitted (queue_of issi acks3))" using f(4) [rule_format, of issi] that
      by (cases "map submitted (queue_of issi acks2)") simp_all
    with that show ?thesis by (simp add: hd_map del: not_None_eq)
  qed
  moreover have "bl_ok ?e st3" using f(2) queues_ok_first [OF x(3) f(3,4)] by (simp add: bl_ok_def)
  ultimately show ?thesis using eq a(2) r(5) by (intro exI [of _ ?e] exI [of _ config3] exI [of _ st3] exI [of _ ?m]) (simp del: not_None_eq)
qed

end

section \<open>Runs\<close>

text \<open>
  Every operation in any order, each with the configuration and the time of its own. \<open>Receipts\<close> is all that others do to the
  receipts: new ones, and any change to those of copies; the receipt of a queued message is the link's.
\<close>

inductive bl_run :: "'b bitbuf_ops \<Rightarrow> ('b \<Rightarrow> buf_view) \<Rightarrow> 'b bl_entity \<Rightarrow> tx_store \<Rightarrow> bool" for ops view where
  Start: "bl_run ops view bl_new st"
| Request: "\<lbrakk>bl_run ops view e st; view_wf (view (td_tl_sdu prim)); fresh_reporter st (be_outbound e) (td_tx_reporter prim);
    rx_tla_tldata_req_bl ops now prim e config st = Some (e', config', st')\<rbrakk> \<Longrightarrow> bl_run ops view e' st'"
| Unacknowledged: "\<lbrakk>bl_run ops view e st; view_wf (view (tu_tl_sdu prim)); rx_tla_tlunitdata_req_bl ops prim e = Some e'\<rbrakk>
    \<Longrightarrow> bl_run ops view e' st"
| Received: "\<lbrakk>bl_run ops view e st; view_wf (view (ti_pdu ind)); for_basic_link ops ind;
    rx_tma_unitdata_ind_bl ops now config ind e st = Some (e', st', up)\<rbrakk> \<Longrightarrow> bl_run ops view e' st'"
| Tick: "\<lbrakk>bl_run ops view e st; bl_tick_end ops now e config st = Some (e', config', st', ms)\<rbrakk> \<Longrightarrow> bl_run ops view e' st'"
| Receipts: "\<lbrakk>bl_run ops view e st; length st \<le> length st'; \<forall>a \<in> set (be_outbound e). st' ! own a = st ! own a\<rbrakk>
    \<Longrightarrow> bl_run ops view e st'"

lemma request_guards:
  assumes "rx_tla_tldata_req_bl ops now prim e config st = Some r"
  shows "\<not> td_stealing_permission prim" "ssi_type (td_main_address prim) \<noteq> Gssi"
  using assms by (auto simp: rx_tla_tldata_req_bl_def)

lemma bl_run_ok:
  assumes "bl_run ops view e st" and "bit_buffer ops view"
  shows "bl_ok e st"
  using assms(1)
proof (induction rule: bl_run.induct)
  case (Start st)
  show ?case by (rule bl_new_ok)
next
  case (Request e st prim now config e' config' st')
  from bit_buffer.bl_data_ok [OF assms(2) Request.IH Request.hyps(2,3) request_guards [OF Request.hyps(4)], of now config] Request.hyps(4)
  show ?case by auto
next
  case (Unacknowledged e st prim e')
  from bit_buffer.bl_udata_total [OF assms(2) Unacknowledged.hyps(2), of e] Unacknowledged.hyps(3) Unacknowledged.IH
  show ?case by (auto simp: bl_ok_def)
next
  case (Received e st ind now config e' st' up)
  from bit_buffer.bl_receive_ok [OF assms(2) Received.IH Received.hyps(2,3), of now config] Received.hyps(4) show ?case by auto
next
  case (Tick e st now config e' config' st' ms)
  from bit_buffer.bl_tick_ok [OF assms(2) Tick.IH, of now config] Tick.hyps(2) show ?case by auto
next
  case (Receipts e st st')
  then show ?case by (auto simp: bl_ok_def entries_good_def entry_good_def dest: order_less_le_trans)
qed

text \<open>What the invariant says of one terminal and of one message.\<close>

definition stop_and_wait :: "'b bl_entity \<Rightarrow> u32 \<Rightarrow> bool" where
  "stop_and_wait e issi \<longleftrightarrow> one_outstanding (queue_of issi (be_outbound e))
     \<and> alternating (map ea_ns (queue_of issi (be_outbound e))) (next_number (be_send_seq e) issi)"

section \<open>Examples\<close>

definition example_config :: bl_config where
  "example_config = \<lparr>bc_subscribers = registry_new,
     bc_common_control = \<lparr>advertised_count = 0, physical_count = 0, drain_until = None, advertised_frame18_slots = 0\<rparr>,
     bc_delivery_routes = [], bc_packet_routes = [], bc_aie_enabled = False, bc_terminal_allows_clear = (\<lambda>_. True)\<rparr>"

definition example_bl_request :: "buf_view tla_tldata_req_bl" where
  "example_bl_request = \<lparr>td_main_address = issi_address 5, td_endpoint_id = 0, td_tl_sdu = auto_buf [True, False, True] 0,
     td_stealing_permission = False, td_subscriber_class = 0, td_fcs_flag = False, td_packet_data_flag = False, td_aie = None,
     td_stealing_repeats_flag = None, td_data_class_info = None, td_req_handle = 0, td_chan_alloc = None,
     td_associated_channel = None, td_tx_reporter = None\<rparr>"

text \<open>A request; its one copy goes out, is discarded, and the link sees that.\<close>

lemma example_discarded_steps:
  "rx_tla_tldata_req_bl view_ops default_time example_bl_request bl_new example_config [] \<bind> (\<lambda>(e, config, st).
     bl_tick_end view_ops default_time e example_config st \<bind> (\<lambda>(e2, config, st2, ms).
       if length st2 = 2 \<and> map own (be_outbound e2) = [0] then
         bl_tick_end view_ops (add_timeslots default_time 4) e2 example_config (st2[1 := 1]) \<bind> (\<lambda>(e3, config, st3, ms).
           take_expected_ack_for_ssi 5 (be_outbound e3) \<bind> (\<lambda>(a, rest).
             Some (st3, rest = [], ea_t_umac_done a = None, ea_has_transmitted_attempt a, own a, map cell (ea_attempt_reporters a),
               tr_aie (ea_buf a))))
       else None))
   = Some ([0, 1], True, False, False, 0, [1], None)"
  by code_simp

lemma example_bl_run:
  obtains e config st a where "bl_run view_ops (\<lambda>v. v) e st" and "be_outbound e = [a]"
    and "rx_tla_tldata_req_bl view_ops default_time example_bl_request bl_new example_config [] = Some (e, config, st)"
    and "queued (\<lambda>v. v) example_bl_request bl_new a"
proof -
  have wf: "view_wf (td_tl_sdu example_bl_request)" "fresh_reporter [] (be_outbound bl_new) (td_tx_reporter example_bl_request)"
    "\<not> td_stealing_permission example_bl_request" "ssi_type (td_main_address example_bl_request) \<noteq> Gssi"
    by (simp_all add: example_bl_request_def fresh_reporter_def issi_address_def new_address_def)
  from view_machine.bl_data_ok [OF bl_new_ok wf, of default_time example_config] obtain e config st a where
    r: "rx_tla_tldata_req_bl view_ops default_time example_bl_request bl_new example_config [] = Some (e, config, st)"
      "be_outbound e = be_outbound bl_new @ [a]" "queued (\<lambda>v. v) example_bl_request bl_new a" by blast
  have "bl_run view_ops (\<lambda>v. v) e st" 
    by (rule bl_run.Request [where view = "\<lambda>v. v", OF bl_run.Start wf(1,2) r(1)])
  with r that show ?thesis by (simp add: bl_new_def)
qed

lemma example_discarded:
  obtains e st a where "bl_run view_ops (\<lambda>v. v) e st" and "take_expected_ack_for_ssi 5 (be_outbound e) = Some (a, [])"
    and "ea_t_umac_done a \<noteq> None" and "\<not> ea_has_transmitted_attempt a" and "get_state st (ea_tx_reporter a) = Pending"
    and "\<forall>r \<in> set (ea_attempt_reporters a). is_discarded st r" and "tr_aie (ea_buf a) = None"
proof -
  from example_bl_run obtain e config st b where e: "bl_run view_ops (\<lambda>v. v) e st"
    "rx_tla_tldata_req_bl view_ops default_time example_bl_request bl_new example_config [] = Some (e, config, st)" .
  note steps = example_discarded_steps [unfolded e(2), simplified]
  from steps obtain e2 config2 st2 ms2 where t2: "bl_tick_end view_ops default_time e example_config st = Some (e2, config2, st2, ms2)"
    by (auto simp: bind_eq_Some_conv)
  note steps2 = steps [unfolded t2, simplified]
  then have l: "length st2 = 2" "map own (be_outbound e2) = [0]" by (simp_all split: if_splits)
  from steps2 l obtain e3 config3 st3 ms3 where
    t3: "bl_tick_end view_ops (add_timeslots default_time 4) e2 example_config (st2[1 := 1]) = Some (e3, config3, st3, ms3)"
    by (auto simp: bind_eq_Some_conv)
  have run2: "bl_run view_ops (\<lambda>v. v) e2 st2" by (rule bl_run.Tick [OF e(1) t2])
  have "\<forall>a \<in> set (be_outbound e2). own a = 0" using l(2) by auto
  then have "bl_run view_ops (\<lambda>v. v) e2 (st2[1 := 1])" by (intro bl_run.Receipts [OF run2]) auto
  from bl_run.Tick [OF this t3] have run3: "bl_run view_ops (\<lambda>v. v) e3 st3" .
  from steps2 l t3 obtain a rest where a: "take_expected_ack_for_ssi 5 (be_outbound e3) = Some (a, rest)"
    "st3 = [0, 1]" "rest = []" "ea_t_umac_done a \<noteq> None" "\<not> ea_has_transmitted_attempt a" "own a = 0"
    "map cell (ea_attempt_reporters a) = [1]" "tr_aie (ea_buf a) = None"
    by (auto simp: bind_eq_Some_conv)
  have "get_state st3 (ea_tx_reporter a) = Pending" using a(2,6) by (simp add: get_state_def from_raw_def)
  moreover have "\<forall>r \<in> set (ea_attempt_reporters a). cell r = 1" using a(7) by auto
  then have "\<forall>r \<in> set (ea_attempt_reporters a). is_discarded st3 r" using a(2) by (simp add: is_discarded_def)
  ultimately show ?thesis using that run3 a by blast
qed

section \<open>Properties\<close>

text \<open>C34: The basic link is stop and wait, for every terminal at once. After any run - requests, received PDUs, ends of
  ticks and changes of the receipts of copies in any order, each under any configuration and at any time - at most one message per terminal is
  outstanding, the oldest of its queue; the messages of a terminal are numbered alternately 0 and 1 in queue order, and the number to
  be given next continues the alternation. No message is repeated more than five times, and the receipt of a queued message is always pending or transmitted, as its marks expect.\<close>

theorem bl_stop_and_wait:
  assumes "bit_buffer ops view" and "bl_run ops view e st"
  shows "stop_and_wait e issi
    \<and> (\<forall>a \<in> set (be_outbound e). ea_retransmit_count a \<le> 5 \<and> get_state st (ea_tx_reporter a) \<in> {Pending, Transmitted})"
proof -
  note ok = bl_run_ok [OF assms(2,1)]
  then have "stop_and_wait e issi" by (simp add: bl_ok_def queues_ok_def stop_and_wait_def)
  moreover have "ea_retransmit_count a \<le> 5 \<and> get_state st (ea_tx_reporter a) \<in> {Pending, Transmitted}" if "a \<in> set (be_outbound e)" for a
  proof -
    have "entry_good st a" using ok that by (simp add: bl_ok_def entries_good_def)
    then show ?thesis by (auto simp: entry_good_def get_state_def from_raw_def)
  qed
  ultimately show ?thesis by blast
qed

text \<open>C35: No operation of the basic link panics. In every state that a run reaches, a data request with a well-formed SDU and a receipt
  of its own (neither stealing nor for a group, which the code refuses by assertion) is queued with the next number; an unacknowledged request is queued;
  any PDU of a basic-link type, however short or corrupt, is handled (in a build without overflow checks, see \<open>fcs_init\<close>); and a tick ends. In a tick every scheduled acknowledgement goes out as a
  BL-ACK with its number, to its terminal, under its protection, and none is kept; what is repeated are copies of outstanding messages, what
  goes out anew are copies of waiting ones, and afterwards the oldest message of every terminal is outstanding.\<close>

theorem bl_operations_return:
  assumes "bit_buffer ops view" and "bl_run ops view e st"
  shows "(view_wf (view (td_tl_sdu prim)) \<and> fresh_reporter st (be_outbound e) (td_tx_reporter prim)
      \<and> \<not> td_stealing_permission prim \<and> ssi_type (td_main_address prim) \<noteq> Gssi
      \<longrightarrow> (\<exists>e' config' st' a. rx_tla_tldata_req_bl ops now prim e config st = Some (e', config', st')
            \<and> be_outbound e' = be_outbound e @ [a] \<and> queued view prim e a))
    \<and> (view_wf (view (tu_tl_sdu unit)) \<longrightarrow> (\<exists>m. rx_tla_tlunitdata_req_bl ops unit e = Some (e\<lparr>be_udata := be_udata e @ [m]\<rparr>)))
    \<and> (view_wf (view (ti_pdu ind)) \<and> for_basic_link ops ind \<longrightarrow> rx_tma_unitdata_ind_bl ops now config ind e st \<noteq> None)
    \<and> (\<exists>e' config' st' ms. bl_tick_end ops now e config st = Some (e', config', st', ms)
      \<and> be_acks e' = [] \<and> be_udata e' = [] \<and> tm_udata ms = be_udata e \<and> list_all2 (answers view) (be_acks e) (tm_acks ms)
      \<and> (\<forall>m \<in> set (tm_repeated ms). \<exists>a \<in> set (be_outbound e). submitted a \<and> copy_of a m)
      \<and> (\<forall>m \<in> set (tm_first ms). \<exists>a \<in> set (be_outbound e). \<not> submitted a \<and> copy_of a m)
      \<and> (\<forall>issi. queue_of issi (be_outbound e') \<noteq> [] \<longrightarrow> submitted (hd (queue_of issi (be_outbound e')))))"
proof -
  note ok = bl_run_ok [OF assms(2,1)]
  note request = bit_buffer.bl_data_ok [OF assms(1) ok, of prim now config]
    and unit_data = bit_buffer.bl_udata_total [OF assms(1), of unit e]
    and receive = bit_buffer.bl_receive_ok [OF assms(1) ok, of ind now config]
    and tick = bit_buffer.bl_tick_ok [OF assms(1) ok, of now config]
  show ?thesis
    by (intro conjI impI; (elim conjE)?) (drule (3) request, blast, drule unit_data, blast, drule (1) receive, force, use tick in blast)
qed

text \<open>A data request is what the other side gets. Whatever state the sending link is in, the PDU that it queues for a request, read
  by a link in any state of its own (encryption off), passes the check and hands up one acknowledged indication, whose SDU is the request's
  bits - followed by the 32 bits of the check when the request asked for one, which the link does not take off - and schedules exactly one
  acknowledgement, of the number the PDU was sent with, for its sender. The messages of a tick are copies of that PDU.\<close>

lemma bl_data_roundtrip:
  assumes "bit_buffer ops view" and "bl_run ops view e st" and "bl_run ops view peer pst"
    and "rx_tla_tldata_req_bl ops now prim e config st = Some (e', config', st')"
    and "view_wf (view (td_tl_sdu prim))" and "fresh_reporter st (be_outbound e) (td_tx_reporter prim)"
    and "view (ti_pdu ind) = view (tr_pdu (ea_buf (last (be_outbound e'))))" and "\<not> bc_aie_enabled pconfig"
  shows "\<exists>peer' pst' up ack. rx_tma_unitdata_ind_bl ops pnow pconfig ind peer pst = Some (peer', pst', Some up)
    \<and> tl_acknowledged up \<and> tl_fcs_flag up = td_fcs_flag prim
    \<and> (case tl_sdu up of None \<Rightarrow> [] | Some b \<Rightarrow> remaining (view b)) = checked (td_fcs_flag prim) (remaining (view (td_tl_sdu prim)))
    \<and> be_acks peer' = be_acks peer @ [ack] \<and> so_nr ack = ea_ns (last (be_outbound e')) \<and> so_addr ack = ti_main_address ind"
proof -
  note ok = bl_run_ok [OF assms(2,1)] and peer = bl_run_ok [OF assms(3,1)]
  from bit_buffer.bl_data_ok [OF assms(1) ok assms(5,6) request_guards [OF assms(4)], of now config] assms(4) obtain a where
    a: "be_outbound e' = be_outbound e @ [a]" "queued view prim e a" by auto
  let ?xs = "checked (td_fcs_flag prim) (remaining (view (td_tl_sdu prim)))"
  from a obtain nr where nr: "pred_option (\<lambda>n. n < 2) nr"
    "view (ti_pdu ind) = auto_buf (llc_bits (bl_data_header (td_fcs_flag prim) nr (ea_ns a)) @ ?xs) 0"
    using assms(7) by (auto simp: queued_def)
  let ?p = "bl_data_header (td_fcs_flag prim) nr (ea_ns a)"
  have ns: "ea_ns a < 2" using a(2) ok alternating_less by (auto simp: queued_def bl_ok_def queues_ok_def)
  have h: "bl_header ?p = (td_fcs_flag prim, Some (ea_ns a), nr)" "is_bl ?p" "\<nexists>x. ?p = PBlAck x" "\<forall>u. ?p \<noteq> PBlUdata u"
    by (cases nr; simp add: bl_data_header_def)+
  have fcs: "fst (bl_header ?p) \<longrightarrow> fcs_ok ?xs" by (simp add: h(1) checked_def fcs_ok_sent)
  have wf: "view_wf (view (ti_pdu ind))" "remaining (view (ti_pdu ind)) = llc_bits ?p @ ?xs" by (simp_all add: nr(2))
  let ?e = "schedule_outgoing_ack (add_timeslots pnow (- 2)) (ti_main_address ind) (ea_ns a) (incoming_aie ind) peer"
  from bit_buffer.bl_accept_ok [OF assms(1) peer, where ns = "Some (ea_ns a)" and ?e1.0 = ?e and t = "add_timeslots pnow (- 2)"
      and addr = "ti_main_address ind" and aie = "incoming_aie ind" and nr = nr and addr' = "ti_main_address ind" and aie' = "incoming_aie ind"] ns
  obtain acks pst' where acc: "(case nr of None \<Rightarrow> Some (?e, pst) | Some n \<Rightarrow> process_incoming_ack (ti_main_address ind) n (incoming_aie ind) ?e pst)
      = Some (?e\<lparr>be_outbound := acks\<rparr>, pst')" by auto
  have e1: "?e = (case fst (snd (bl_header ?p)) of None \<Rightarrow> peer
      | Some n \<Rightarrow> schedule_outgoing_ack (add_timeslots pnow (- 2)) (ti_main_address ind) n (incoming_aie ind) peer)" by (simp add: h(1))
  have "(case snd (snd (bl_header ?p)) of None \<Rightarrow> Some (?e, pst) | Some n \<Rightarrow> process_incoming_ack (ti_main_address ind) n (incoming_aie ind) ?e pst)
      = Some (?e\<lparr>be_outbound := acks\<rparr>, pst')" unfolding h(1) snd_conv by (rule acc)
  from bit_buffer.bl_receive_pdu [OF assms(1) wf bl_data_header_ok [OF nr(1) ns] h(2) fcs assms(8) e1 this] h(3,4) obtain q where
    q: "rx_tma_unitdata_ind_bl ops pnow pconfig ind peer pst = Some (?e\<lparr>be_outbound := acks\<rparr>, pst',
        Some \<lparr>tl_acknowledged = True, tl_main_address = ti_main_address ind, tl_endpoint_id = ti_endpoint_id ind,
          tl_sdu = (if ?xs = [] then None else Some q), tl_fcs_flag = td_fcs_flag prim, tl_aie = ti_aie ind\<rparr>)" "remaining (view q) = ?xs"
    by (auto simp: h(1))
  have "(case (if ?xs = [] then None else Some q) of None \<Rightarrow> [] | Some b \<Rightarrow> remaining (view b)) = ?xs" using q(2) by simp
  with q(1) a(1) show ?thesis by (simp add: schedule_outgoing_ack_def)
qed

text \<open>A bare acknowledgement with a check is taken for data. The link ends the handling of a BL-ACK that has at most four bits
  behind its header - the fill bits of a burst - but a BL-ACK with a check has the 32 bits of the check there: whatever the state, it is
  accepted and its check, which is that of no bits at all (\<open>fcs_init\<close> in a build without overflow checks), is handed up as the SDU of an acknowledged indication. (The rule for clear
  PDUs of encrypted terminals in the same function allows for the check: 36 bits and not 4.) Without a check nothing is handed up.\<close>

lemma bl_ack_check_delivered:
  assumes "bit_buffer ops view" and "bl_run ops view e st" and "\<not> bc_aie_enabled config" and "nr < 2"
    and "at_start (view (ti_pdu ind)) (llc_bits (PBlAck \<lparr>ba_has_fcs = fcs, ba_nr = nr\<rparr>) @ checked fcs [])"
  shows "\<exists>e' st' out. rx_tma_unitdata_ind_bl ops now config ind e st = Some (e', st', out)
    \<and> map_option (\<lambda>up. (tl_acknowledged up, map_option (\<lambda>b. remaining (view b)) (tl_sdu up))) out
        = (if fcs then Some (True, Some (word_bits (fcs_of []))) else None)"
proof -
  let ?p = "PBlAck \<lparr>ba_has_fcs = fcs, ba_nr = nr\<rparr>"
  note ok = bl_run_ok [OF assms(2,1)]
  have wf: "view_wf (view (ti_pdu ind))" "remaining (view (ti_pdu ind)) = llc_bits ?p @ checked fcs []"
    using assms(5) at_start_remaining by (auto simp: at_start_def)
  have h: "llc_ok ?p" "is_bl ?p" "fst (bl_header ?p) \<longrightarrow> fcs_ok (checked fcs [])"
    using assms(4) fcs_ok_sent [of "[]"] by (auto simp: checked_def)
  from bit_buffer.bl_accept_ok [OF assms(1) ok, where ns = None and ?e1.0 = e and nr = "Some nr" and addr' = "ti_main_address ind"
      and aie' = "incoming_aie ind"] obtain e' st' where
    acc: "process_incoming_ack (ti_main_address ind) nr (incoming_aie ind) e st = Some (e', st')" by auto
  have len: "length (word_bits (fcs_of [])) = 32" by simp
  then have "word_bits (fcs_of []) \<noteq> []" by fastforce
  with bit_buffer.bl_receive_pdu [OF assms(1) wf h assms(3), of e e now st e' st'] acc len show ?thesis
    by (cases fcs) (fastforce simp: checked_def)+
qed

text \<open>A message that never went out can be acknowledged. When the MAC has discarded every copy of a message, the tick that sees
  it starts the retry timer with the same mark as a transmission, and the guard against acknowledgements of messages not yet
  transmitted asks only for that mark: a BL-ACK with the number of the message - a late duplicate of the acknowledgement before last has it,
  as the numbers alternate - takes the message out of the queue and marks its receipt acknowledged, although nothing of it was ever
  sent and the receipt was still pending.\<close>

lemma bl_discarded_acknowledged:
  assumes "bit_buffer ops view" and "bl_run ops view e st"
    and "take_expected_ack_for_ssi (ssi addr) (be_outbound e) = Some (a, rest)"
    and "ea_t_umac_done a \<noteq> None" and "\<not> ea_has_transmitted_attempt a" and "get_state st (ea_tx_reporter a) = Pending"
    and "\<forall>r \<in> set (ea_attempt_reporters a). is_discarded st r"
    and "same_protection_as (case tr_aie (ea_buf a) of Some x \<Rightarrow> x | None \<Rightarrow> req_clear (Individual (ssi addr)) ScopeMacResource) aie"
  shows "\<exists>st'. process_incoming_ack addr (ea_ns a) aie e st = Some (e\<lparr>be_outbound := rest\<rparr>, st')
    \<and> get_state st' (ea_tx_reporter a) = Acknowledged"
proof -
  have "entries_good st (be_outbound e)" using bl_run_ok [OF assms(2,1)] by (simp add: bl_ok_def)
  from process_incoming_ack_accepts [OF this assms(3,4) refl assms(8)] obtain st' where
    st': "process_incoming_ack addr (ea_ns a) aie e st = Some (e\<lparr>be_outbound := rest\<rparr>, st')" "st' ! own a = 4" by blast
  have "get_state st' (ea_tx_reporter a) = Acknowledged" using st'(2) by (simp add: get_state_def from_raw_def)
  with st'(1) show ?thesis by blast
qed

lemma bl_stop_and_wait_witness:
  "\<exists>e st. bl_run view_ops (\<lambda>v. v) e st \<and> length (be_outbound e) = 1 \<and> stop_and_wait e 5"
proof -
  from example_bl_run obtain e config st a where "bl_run view_ops (\<lambda>v. v) e st" "be_outbound e = [a]" .
  with bl_stop_and_wait [OF view_machine.bit_buffer_axioms, of e st 5] show ?thesis by auto
qed

lemma bl_operations_return_witness:
  "\<exists>e config st a. rx_tla_tldata_req_bl view_ops default_time example_bl_request bl_new example_config [] = Some (e, config, st)
    \<and> be_outbound e = [a] \<and> queued (\<lambda>v. v) example_bl_request bl_new a"
proof -
  have "view_wf (td_tl_sdu example_bl_request)" "fresh_reporter [] (be_outbound bl_new) (td_tx_reporter example_bl_request)"
    "\<not> td_stealing_permission example_bl_request" "ssi_type (td_main_address example_bl_request) \<noteq> Gssi"
    by (simp_all add: example_bl_request_def fresh_reporter_def issi_address_def new_address_def)
  then have p: "view_wf (td_tl_sdu example_bl_request) \<and> fresh_reporter [] (be_outbound bl_new) (td_tx_reporter example_bl_request)
    \<and> \<not> td_stealing_permission example_bl_request \<and> ssi_type (td_main_address example_bl_request) \<noteq> Gssi" by blast
  note all = bl_operations_return [OF view_machine.bit_buffer_axioms bl_run.Start, of example_bl_request "[]" default_time example_config]
  from mp [OF conjunct1 [OF all] p] show ?thesis by (simp add: bl_new_def del: not_None_eq)
qed

lemma bl_data_roundtrip_witness:
  "\<exists>e config st peer pst up. rx_tla_tldata_req_bl view_ops default_time example_bl_request bl_new example_config [] = Some (e, config, st)
    \<and> rx_tma_unitdata_ind_bl view_ops default_time example_config
        \<lparr>ti_pdu = tr_pdu (ea_buf (last (be_outbound e))), ti_main_address = issi_address 7, ti_endpoint_id = 0, ti_aie = None\<rparr> bl_new []
      = Some (peer, pst, Some up)
    \<and> map_option remaining (tl_sdu up) = Some [True, False, True] \<and> length (be_acks peer) = 1"
proof -
  from example_bl_run obtain e config st a where
    e: "rx_tla_tldata_req_bl view_ops default_time example_bl_request bl_new example_config [] = Some (e, config, st)" .
  let ?ind = "\<lparr>ti_pdu = tr_pdu (ea_buf (last (be_outbound e))), ti_main_address = issi_address 7, ti_endpoint_id = 0, ti_aie = None\<rparr>"
  have w: "view_wf (td_tl_sdu example_bl_request)" "fresh_reporter [] (be_outbound bl_new) (td_tx_reporter example_bl_request)"
    "ti_pdu ?ind = tr_pdu (ea_buf (last (be_outbound e)))" "\<not> bc_aie_enabled example_config"
    by (simp_all add: example_bl_request_def fresh_reporter_def example_config_def)
  from bl_data_roundtrip [OF view_machine.bit_buffer_axioms bl_run.Start bl_run.Start e w, where pst = "[]" and pnow = default_time] obtain peer pst up ack where
    p: "rx_tma_unitdata_ind_bl view_ops default_time example_config ?ind bl_new [] = Some (peer, pst, Some up)"
      "(case tl_sdu up of None \<Rightarrow> [] | Some b \<Rightarrow> remaining b) = checked (td_fcs_flag example_bl_request) (remaining (td_tl_sdu example_bl_request))"
      "be_acks peer = be_acks (bl_new :: buf_view bl_entity) @ [ack]" by (elim exE conjE) (rule that)
  have "checked (td_fcs_flag example_bl_request) (remaining (td_tl_sdu example_bl_request)) = [True, False, True]"
    by (simp add: example_bl_request_def checked_def)
  with p(2) have "map_option remaining (tl_sdu up) = Some [True, False, True]" by (cases "tl_sdu up") simp_all
  moreover have "length (be_acks peer) = 1" using p(3) by (simp add: bl_new_def)
  ultimately show ?thesis using e p(1) by blast
qed

lemma bl_ack_check_delivered_witness:
  "\<exists>e st up. rx_tma_unitdata_ind_bl view_ops default_time example_config \<lparr>ti_pdu = auto_buf (llc_bits (PBlAck \<lparr>ba_has_fcs = True, ba_nr = 0\<rparr>)
      @ checked True []) 0, ti_main_address = issi_address 7, ti_endpoint_id = 0, ti_aie = None\<rparr> bl_new [] = Some (e, st, Some up)
    \<and> map_option remaining (tl_sdu up) = Some (word_bits (fcs_of []))"
proof -
  let ?ind = "\<lparr>ti_pdu = auto_buf (llc_bits (PBlAck \<lparr>ba_has_fcs = True, ba_nr = 0\<rparr>) @ checked True []) 0,
    ti_main_address = issi_address 7, ti_endpoint_id = 0, ti_aie = None\<rparr>"
  have w: "\<not> bc_aie_enabled example_config" "(0::nat) < 2" "at_start (ti_pdu ?ind) (llc_bits (PBlAck \<lparr>ba_has_fcs = True, ba_nr = 0\<rparr>) @ checked True [])"
    by (simp_all add: example_config_def)
  from bl_ack_check_delivered [OF view_machine.bit_buffer_axioms bl_run.Start w, where st = "[]" and now = default_time] obtain e st up' where
    r: "rx_tma_unitdata_ind_bl view_ops default_time example_config ?ind bl_new [] = Some (e, st, up')"
      "map_option (\<lambda>up. (tl_acknowledged up, map_option remaining (tl_sdu up))) up' = Some (True, Some (word_bits (fcs_of [])))"
    unfolding if_True by (elim exE conjE) (rule that)
  from r(2) obtain up where "up' = Some up" "map_option remaining (tl_sdu up) = Some (word_bits (fcs_of []))" by auto
  with r(1) show ?thesis by (intro exI [of _ e] exI [of _ st] exI [of _ up] conjI) simp_all
qed

lemma bl_discarded_acknowledged_witness:
  "\<exists>e st a st'. bl_run view_ops (\<lambda>v. v) e st \<and> take_expected_ack_for_ssi 5 (be_outbound e) = Some (a, []) \<and> get_state st (ea_tx_reporter a) = Pending
    \<and> process_incoming_ack (issi_address 5) (ea_ns a) (ReqClear (Individual 5) ScopeMacData) e st = Some (e\<lparr>be_outbound := []\<rparr>, st')
    \<and> get_state st' (ea_tx_reporter a) = Acknowledged"
proof -
  have ssi: "ssi (issi_address 5) = 5" by (simp add: issi_address_def new_address_def)
  from example_discarded obtain e st a where
    d: "bl_run view_ops (\<lambda>v. v) e st" "take_expected_ack_for_ssi (ssi (issi_address 5)) (be_outbound e) = Some (a, [])"
      "ea_t_umac_done a \<noteq> None" "\<not> ea_has_transmitted_attempt a" "get_state st (ea_tx_reporter a) = Pending"
      "\<forall>r \<in> set (ea_attempt_reporters a). is_discarded st r" "tr_aie (ea_buf a) = None" unfolding ssi .
  have "same_protection_as (case tr_aie (ea_buf a) of Some x \<Rightarrow> x | None \<Rightarrow> req_clear (Individual (ssi (issi_address 5))) ScopeMacResource)
    (ReqClear (Individual 5) ScopeMacData)" by (simp add: d(7) req_clear_def)
  from bl_discarded_acknowledged [OF view_machine.bit_buffer_axioms d(1-6) this] obtain st' where
    "process_incoming_ack (issi_address 5) (ea_ns a) (ReqClear (Individual 5) ScopeMacData) e st = Some (e\<lparr>be_outbound := []\<rparr>, st')"
    "get_state st' (ea_tx_reporter a) = Acknowledged" by (elim exE conjE) (rule that)
  with d(1,5) d(2) [unfolded ssi] show ?thesis by (intro exI [of _ e] exI [of _ st] exI [of _ a] exI [of _ st'] conjI)
qed

end
