(* ===== verification/Spec2Isabelle.thy ===== *)
theory Spec2Isabelle
  imports Prelude Tdma_Time Timeslot_Alloc Tx_Receipt Ssi_Ranges Interleaver Tch_Reorder Crc16 Rm3014
    Bit_Buffer Scrambler Convenc Viterbi Errorcontrol Tetra_Types Event_Labels Random_Access Circuit_Types
    Umac_Circuits Cmce_Circuits
    Pdu_Codec Mac_Enums Mac_Fields Mac_Downlink Mac_Uplink Mac_Broadcast Umac_Rx Aach_Path Fill_Bits Defrag Umac_Ms Bs_Frag Air_Frag Subscribers Dm_Gateways
    Crc_Register Fcs Llc_Pdus Llc_Link Llc_Receive Llc_Segments Llc_Send Llc_Window Llc_Advanced
    Llc_Basic Llc_Stop_And_Wait Llc_Bl_Run
begin

text \<open>
  Verification of the TETRA base-station stack.

  The program is a TETRA cell in software. The physical layer delivers and takes blocks of bits once per
  timeslot; the lower MAC codes and decodes them; the upper MAC (UMAC) schedules, addresses and fragments
  MAC PDUs; the logical link control (LLC) acknowledges and repeats; above it are mobility management,
  call control, short data and packet data. The layers exchange messages through queues and share a
  configuration with the state of the cell. A timer tick per timeslot drives every entity. This
  development models the parts of the stack that are algorithms or protocols of their own, from the
  channel code to the logical link, and proves what makes each correct and what they promise
  together. Source paths below are relative to \<^verbatim>\<open>src/crates\<close>.

  Conventions. A panic, a failed assertion or an index out of range is \<open>None\<close>; an early return with an
  error is \<open>Inl\<close>. Integers whose width matters are words or carry their wrap-around written out;
  the PDU fields are \<open>nat\<close> with the cast of the source (\<open>as_u8\<close>, \<open>as_u16\<close>). A loop over an index range
  is \<open>for_loop\<close>. Hash maps are association lists in the iteration order of the map, which the source leaves
  open, and no result depends on it unless it says so. Overflow follows the release build. Log output is
  left out.

  What is not under \<^verbatim>\<open>src/\<close> is a parameter. The one such component that the models rely on is \<open>BitBuffer\<close>,
  the bit container of another package: its operations are a record, and the locale \<open>bit_buffer\<close>
  (\<open>Bit_Buffer\<close>) states what the callers rely on, with the instance \<open>view_ops\<close> that shows the laws can hold and
  that the witnesses run on. A property under \<open>bit_buffer ops view\<close> holds for every such container.

  Theories, in the order of the layers, and what their lemmas show.

  \<^item> \<open>Prelude\<close>: bounds-checked arrays, loops, copy loops along index pairs (\<open>copy_pair\<close>, \<open>copy_bij\<close>), enums
    with raw codes (\<open>raw_enum\<close>).
  \<^item> Shared values: \<open>Tdma_Time\<close> (\<^verbatim>\<open>tetra-core/src/tdma_time.rs\<close>: the structured time and the slot count are
    inverse, the searches of the clock end at the first hit), \<open>Timeslot_Alloc\<close> (\<^verbatim>\<open>timeslot_alloc.rs\<close>:
    exclusive ownership of traffic slots, behind the locale \<open>slot_allocator\<close>), \<open>Tx_Receipt\<close> (\<^verbatim>\<open>tx_receipt.rs\<close>:
    the shared receipt moves along its diagram), \<open>Ssi_Ranges\<close> (\<^verbatim>\<open>ranges.rs\<close>: the search over disjoint
    ranges), \<open>Tetra_Types\<close> (\<^verbatim>\<open>address.rs\<close>, \<^verbatim>\<open>direction.rs\<close>, \<^verbatim>\<open>aie.rs\<close>).
  \<^item> Lower MAC, \<^verbatim>\<open>tetra-entities/src/lmac/components\<close>: \<open>Interleaver\<close>, \<open>Tch_Reorder\<close>, \<open>Crc_Register\<close> (the generic check register, with
    burst detection), \<open>Crc16\<close>, \<open>Rm3014\<close> (three errors corrected), \<open>Scrambler\<close>, \<open>Convenc\<close>, \<open>Viterbi\<close> (maximum
    likelihood), and \<open>Errorcontrol\<close>, which composes them: every control channel decodes to what was encoded.
  \<^item> Upper MAC PDUs, \<^verbatim>\<open>tetra-pdus/src/umac\<close>: \<open>Pdu_Codec\<close> (parsers and writers with backward rules, the
    locale \<open>wire_format\<close>), \<open>Mac_Enums\<close>, \<open>Mac_Fields\<close>, \<open>Mac_Downlink\<close>, \<open>Mac_Uplink\<close>, \<open>Mac_Broadcast\<close>: round trips,
    exact header lengths, parsers that do not panic.
  \<^item> Upper MAC, \<^verbatim>\<open>tetra-entities/src/umac\<close>: \<open>Event_Labels\<close>, \<open>Random_Access\<close>, \<open>Circuit_Types\<close>, \<open>Umac_Circuits\<close>,
    \<open>Umac_Rx\<close> (dispatch of uplink PDUs), \<open>Aach_Path\<close> (an access assignment from the PDU writer through
    the code to the parser), \<open>Fill_Bits\<close>, \<open>Defrag\<close> (both reassemblers; the station's refines a map from identities to pending
    SDUs), \<open>Bs_Frag\<close> (the fragger refines a function on bit strings), \<open>Umac_Ms\<close> (the terminal's loop over a received block)
    and \<open>Air_Frag\<close> (the fragger and the closing of blocks by \<^verbatim>\<open>bs_sched.rs\<close> against
    the receiving terminal: every fragmented SDU arrives once and whole).
  \<^item> Logical link, \<^verbatim>\<open>tetra-pdus/src/llc\<close> and \<^verbatim>\<open>tetra-entities/src/llc\<close>: \<open>Llc_Pdus\<close> (PDU round trips), \<open>Fcs\<close>
    (\<^verbatim>\<open>components/fcs.rs\<close>), and the acknowledged advanced link of \<^verbatim>\<open>llc_bs_ms.rs\<close>: \<open>Llc_Link\<close> (state and
    receiving side), \<open>Llc_Receive\<close> (delivery in order and once, acknowledgements that name what is missing),
    \<open>Llc_Segments\<close>, \<open>Llc_Send\<close> (queueing, acknowledgements, the tick on a link, reset), \<open>Llc_Window\<close> (the invariant
    of the send window: nothing ambiguous is on the air, no operation panics, what may be sent is sent), \<open>Llc_Advanced\<close> (the links
    together with the data that waits for one). The basic link of the same file: \<open>Llc_Basic\<close> (queues, routes, attempts, timers,
    received PDUs, the four steps of a tick; the shared configuration that it reads is an argument, and what it tells of a terminal's
    security class a function in it), \<open>Llc_Stop_And_Wait\<close> (what every operation keeps of the queues and of the receipts),
    \<open>Llc_Bl_Run\<close> (runs of the link: stop and wait per terminal, no panic, SDUs arrive, two defects).
  \<^item> Call control and cell state: \<open>Cmce_Circuits\<close> (\<^verbatim>\<open>cmce/components/circuit_mgr.rs\<close>, a client of the locale \<open>slot_allocator\<close>),
    \<open>Subscribers\<close> and \<open>Dm_Gateways\<close> (\<^verbatim>\<open>tetra-config/src/bluestation/state.rs\<close>, \<^verbatim>\<open>common_control.rs\<close>): the registry
    refines an abstract cell, the routing index never drifts from the sessions.

  How they interact. The fragger writes MAC PDUs through \<open>Mac_Downlink\<close> into blocks that the channel coder
  carries, and \<open>Air_Frag\<close> joins it with the terminal's loop; \<open>Aach_Path\<close> joins PDU, code and parser. Both circuit managers
  share \<open>Circuit_Types\<close>, and call control allocates through the central allocator. The LLC passes a receipt of \<open>Tx_Receipt\<close> with
  each request and learns from it what the MAC has sent; in \<open>Llc_Window\<close> and \<open>Llc_Bl_Run\<close> the MAC's marks are steps of the environment.

  Bounds. The Viterbi results hold for blocks of up to \<open>2 ^ 20\<close> groups of soft bits, far more than a slot carries, so that
  no metric wraps. A block given to the fragger has at least 92 bits and at most 456, the sizes of the
  half-slot and full-slot channels; a reassembled SDU has at most 4096 bits, the limit of the defragmenter.
  The advanced link has a window of at most 3 SDUs of at most 256 segments and a queue of at most 64. No definition takes fuel:
  every loop of the source that is modelled is bounded by its data or has a measure, but for the terminal's loop over a block
  (\<open>rx_tmv_sch\<close>), a partial function whose return is part of what is proved of it.

  Not modelled, and why.

  \<^item> The UMAC scheduler and the rest of the UMAC handlers (\<^verbatim>\<open>umac/subcomp/bs_sched.rs\<close>, \<^verbatim>\<open>umac/umac_bs.rs\<close>): one state machine
    of some forty interdependent fields whose operations call each other, the shared configuration and encryption; a part of it
    would not be the handler that runs. Its PDUs, fragger, defragmenter, labels, circuits and the closing of its blocks are modelled.
  \<^item> The entities above the LLC (\<^verbatim>\<open>mm\<close>, \<^verbatim>\<open>mle\<close>, \<^verbatim>\<open>sndcp\<close>, \<^verbatim>\<open>cmce/subentities\<close>) and their PDUs: they rest on the external
    packages of keys, authentication and SwMI messages, whose code is not in the repository.
  \<^item> The lower MAC entities (\<^verbatim>\<open>lmac_bs.rs\<close>, \<^verbatim>\<open>lmac_ms.rs\<close>): routing of blocks to the coder; the coder itself is modelled.
  \<^item> Physical layer and radio drivers (\<^verbatim>\<open>phy\<close>): floating-point signal processing and device I/O.
  \<^item> Networks, control, telemetry and the binaries (\<^verbatim>\<open>network\<close>, \<^verbatim>\<open>net_*\<close>, \<^verbatim>\<open>bins\<close>): sockets, HTTP and
    asynchronous tasks of other packages.
\<close>

end
